(* ===== verification/Prelude.thy ===== *)
theory Prelude
  imports Main "HOL-Library.Word" "HOL-Library.Monad_Syntax" "HOL-Library.Multiset"
begin

text \<open>
  Shared vocabulary of the development: machine integers, checked memory accesses
  and the generic list, search and block-move lemmas every component uses.

  A C function that touches memory is a HOL function into \<^typ>\<open>'a option\<close>.
  \<open>None\<close> says that the C program has no defined behaviour from here on: an access
  outside its object, a failed \<open>mdb_cassert\<close>/\<open>mdb_tassert\<close> (which calls
  \<open>abort\<close>), or a loop that never ends. Return codes, null pointers and out
  parameters are ordinary values of the result. A theorem \<open>f x = Some y\<close> therefore
  says that \<open>f\<close> is memory safe, terminates and returns \<open>y\<close>.
\<close>

unbundle bit_operations_syntax

type_synonym u8 = "8 word"
type_synonym u16 = "16 word"
type_synonym u32 = "32 word"
type_synonym u64 = "64 word"
type_synonym bytes = "8 word list"

named_theorems mem_simps \<open>evaluation of checked memory accesses\<close>
named_theorems page_simps \<open>page header fields after a store\<close>

section \<open>Checked array accesses\<close>

definition aget :: "'a list \<Rightarrow> nat \<Rightarrow> 'a option" where
  "aget xs i = (if i < length xs then Some (xs ! i) else None)"

definition aset :: "'a list \<Rightarrow> nat \<Rightarrow> 'a \<Rightarrow> 'a list option" where
  "aset xs i v = (if i < length xs then Some (xs[i := v]) else None)"

lemma aget_in [simp, mem_simps]: "i < length xs \<Longrightarrow> aget xs i = Some (xs ! i)"
  by (simp add: aget_def)

lemma aset_in [simp, mem_simps]: "i < length xs \<Longrightarrow> aset xs i v = Some (xs[i := v])"
  by (simp add: aset_def)

lemma aget_out: "length xs \<le> i \<Longrightarrow> aget xs i = None"
  by (simp add: aget_def)

lemma aget_SomeD: "aget xs i = Some v \<Longrightarrow> i < length xs \<and> v = xs ! i"
  by (auto simp: aget_def split: if_splits)

lemma aset_SomeD: "aset xs i v = Some ys \<Longrightarrow> i < length xs \<and> ys = xs[i := v]"
  by (auto simp: aset_def split: if_splits)

definition aswap :: "'a list \<Rightarrow> nat \<Rightarrow> nat \<Rightarrow> 'a list option" where
  "aswap xs i j = do { x \<leftarrow> aget xs i; y \<leftarrow> aget xs j; ys \<leftarrow> aset xs i y; aset ys j x }"

lemma aswap_in [simp, mem_simps]:
  "i < length xs \<Longrightarrow> j < length xs \<Longrightarrow> aswap xs i j = Some (xs[i := xs ! j, j := xs ! i])"
  by (simp add: aswap_def)

text \<open>
  \<open>memcpy\<close>/\<open>memmove\<close> of \<open>n\<close> elements from index \<open>s\<close> of \<open>src\<close> to index \<open>d\<close>
  of \<open>dst\<close>; both ranges must lie inside their objects.
\<close>

definition acopy :: "'a list \<Rightarrow> nat \<Rightarrow> 'a list \<Rightarrow> nat \<Rightarrow> nat \<Rightarrow> 'a list option" where
  "acopy dst d src s n =
     (if d + n \<le> length dst \<and> s + n \<le> length src
      then Some (take d dst @ take n (drop s src) @ drop (d + n) dst) else None)"

lemma acopy_in [simp, mem_simps]:
  "d + n \<le> length dst \<Longrightarrow> s + n \<le> length src \<Longrightarrow>
    acopy dst d src s n = Some (take d dst @ take n (drop s src) @ drop (d + n) dst)"
  by (simp add: acopy_def)

text \<open>
  The loop \<open>for (i = \<dots>; i > x; i--) a[i] = a[i-1];\<close> that opens a slot at \<open>x\<close>.
\<close>

fun shift_up :: "'a list \<Rightarrow> nat \<Rightarrow> nat \<Rightarrow> 'a list option" where
  "shift_up xs i x =
     (if i > x then do { v \<leftarrow> aget xs (i - 1); xs' \<leftarrow> aset xs i v; shift_up xs' (i - 1) x }
      else Some xs)"

declare shift_up.simps [simp del]

lemma shift_up_eq:
  assumes "x \<le> i" "i < length xs"
  shows "\<exists>ys. shift_up xs i x = Some ys \<and> length ys = length xs \<and>
    (\<forall>k < length xs. ys ! k = (if x < k \<and> k \<le> i then xs ! (k - 1) else xs ! k))"
  using assms
proof (induction xs i x rule: shift_up.induct)
  case (1 xs i x)
  show ?case
  proof (cases "i > x")
    case False
    with "1.prems" show ?thesis by (auto simp: shift_up.simps)
  next
    case True
    let ?xs = "xs[i := xs ! (i - 1)]"
    have g: "aget xs (i - 1) = Some (xs ! (i - 1))" "aset xs i (xs ! (i - 1)) = Some ?xs"
      using "1.prems" by simp_all
    have "x \<le> i - 1" "i - 1 < length ?xs" using True "1.prems" by auto
    then obtain ys where ys: "shift_up ?xs (i - 1) x = Some ys" "length ys = length ?xs"
      "\<forall>k < length ?xs. ys ! k = (if x < k \<and> k \<le> i - 1 then ?xs ! (k - 1) else ?xs ! k)"
      using "1.IH" [OF True g] by blast
    have "shift_up xs i x = Some ys"
      using True g ys(1) by (simp add: shift_up.simps [of xs i x])
    moreover have "ys ! k = (if x < k \<and> k \<le> i then xs ! (k - 1) else xs ! k)"
      if "k < length xs" for k
      using ys(3) that True by (auto simp: nth_list_update)
    ultimately show ?thesis using ys(2) by auto
  qed
qed

lemma shift_up_list:
  assumes "x \<le> i" "i < length xs"
  shows "shift_up xs i x = Some (take (Suc x) xs @ take (i - x) (drop x xs) @ drop (Suc i) xs)"
proof -
  obtain ys where ys: "shift_up xs i x = Some ys" "length ys = length xs"
    "\<forall>k < length xs. ys ! k = (if x < k \<and> k \<le> i then xs ! (k - 1) else xs ! k)"
    using shift_up_eq [OF assms] by blast
  have "ys = take (Suc x) xs @ take (i - x) (drop x xs) @ drop (Suc i) xs" (is "_ = ?r")
  proof (rule nth_equalityI)
    show "length ys = length ?r" using ys(2) assms by simp
    fix k assume "k < length ys"
    then show "ys ! k = ?r ! k"
      using ys assms by (auto simp: nth_append min_def)
  qed
  with ys(1) show ?thesis by simp
qed

section \<open>Binary search\<close>

text \<open>
  The loop shared, statement for statement, by \<open>mdb_midl_search\<close>,
  \<open>mdb_mid2l_search\<close> and \<open>mdb_pid_insert\<close>. \<open>v k\<close> is the comparison at array index
  \<open>k\<close>: negative when the wanted element belongs before \<open>k\<close>. The result is the
  pair of "returned from inside the loop" and the final \<open>cursor\<close>.
\<close>

fun bsearch_loop :: "(nat \<Rightarrow> int option) \<Rightarrow> nat \<Rightarrow> nat \<Rightarrow> int \<Rightarrow> nat \<Rightarrow> (bool \<times> nat) option" where
  "bsearch_loop v base cursor val n =
     (if 0 < n then
        (let pivot = n div 2; cursor' = base + pivot + 1 in
         do {
           val' \<leftarrow> v cursor';
           if val' < 0 then bsearch_loop v base cursor' val' pivot
           else if val' > 0 then bsearch_loop v cursor' cursor' val' (n - (pivot + 1))
           else Some (True, cursor')
         })
      else Some (False, if val > 0 then cursor + 1 else cursor))"

declare bsearch_loop.simps [simp del]

text \<open>
  The interface between the search loop and the arrays it searches: an array type with
  a size, an invariant, and the comparison \<open>pos a x k\<close> of the wanted key \<open>x\<close> with
  position \<open>k\<close>. The provider promises that \<open>probe\<close>, the expression of the code,
  is a defined access on \<open>1 \<dots> size_of a\<close>, and that positions to the right of an
  element which is too big are too big as well.
\<close>

locale sorted_array =
  fixes probe :: "'a \<Rightarrow> 'k \<Rightarrow> nat \<Rightarrow> int option"
    and pos :: "'a \<Rightarrow> 'k \<Rightarrow> nat \<Rightarrow> int"
    and size_of :: "'a \<Rightarrow> nat"
    and inv :: "'a \<Rightarrow> bool"
  assumes probe_pos: "inv a \<Longrightarrow> 1 \<le> k \<Longrightarrow> k \<le> size_of a \<Longrightarrow> probe a x k = Some (pos a x k)"
    and anti: "inv a \<Longrightarrow> 1 \<le> i \<Longrightarrow> i \<le> j \<Longrightarrow> j \<le> size_of a \<Longrightarrow>
      sgn (pos a x j) \<le> sgn (pos a x i)"
begin

definition found_at :: "'a \<Rightarrow> 'k \<Rightarrow> bool \<Rightarrow> nat \<Rightarrow> bool" where
  "found_at a x b c \<longleftrightarrow> 1 \<le> c \<and> c \<le> Suc (size_of a) \<and>
     (b \<longrightarrow> c \<le> size_of a \<and> pos a x c = 0) \<and>
     (\<not> b \<longrightarrow> (\<forall>k. 1 \<le> k \<and> k < c \<longrightarrow> pos a x k > 0) \<and>
       (\<forall>k. c \<le> k \<and> k \<le> size_of a \<longrightarrow> pos a x k < 0))"

lemma left_of:
  "inv a \<Longrightarrow> i \<le> size_of a \<Longrightarrow> pos a x i > 0 \<Longrightarrow> 1 \<le> k \<Longrightarrow> k \<le> i \<Longrightarrow> pos a x k > 0"
  using anti [of a k i x] by (simp add: sgn_if split: if_splits)

lemma right_of:
  "inv a \<Longrightarrow> 1 \<le> i \<Longrightarrow> pos a x i < 0 \<Longrightarrow> i \<le> k \<Longrightarrow> k \<le> size_of a \<Longrightarrow> pos a x k < 0"
  using anti [of a i k x] by (simp add: sgn_if split: if_splits)

lemma bsearch_loop_correct:
  assumes inv: "inv a"
    and bn: "base + n \<le> size_of a"
    and lo: "\<forall>k. 1 \<le> k \<and> k \<le> base \<longrightarrow> pos a x k > 0"
    and hi: "\<forall>k. base + n < k \<and> k \<le> size_of a \<longrightarrow> pos a x k < 0"
    and cur: "if val > 0 then cursor = base else cursor = base + n + 1 \<or> n > 0"
  shows "\<exists>b c. bsearch_loop (probe a x) base cursor val n = Some (b, c) \<and> found_at a x b c"
  using bn lo hi cur
proof (induction "probe a x" base cursor val n rule: bsearch_loop.induct)
  case (1 base cursor val n)
  show ?case
  proof (cases "0 < n")
    case False
    with "1.prems" show ?thesis
      by (auto simp: bsearch_loop.simps found_at_def split: if_splits)
  next
    case True
    define p where "p = n div 2"
    define c where "c = base + p + 1"
    have c: "1 \<le> c" "c \<le> base + n" "c \<le> size_of a" "p < n"
      using True "1.prems"(1) by (auto simp: p_def c_def)
    have wc: "probe a x c = Some (pos a x c)" using probe_pos [OF inv c(1,3)] .
    have unf: "bsearch_loop (probe a x) base cursor val n =
       (if pos a x c < 0 then bsearch_loop (probe a x) base c (pos a x c) p
        else if pos a x c > 0 then bsearch_loop (probe a x) c c (pos a x c) (n - (p + 1))
        else Some (True, c))"
      using True wc
      by (simp add: bsearch_loop.simps [of _ base cursor val n] Let_def p_def c_def)
    consider (lt) "pos a x c < 0" | (gt) "pos a x c > 0" | (eq) "pos a x c = 0" by linarith
    then show ?thesis
    proof cases
      case lt
      have hi': "\<forall>k. base + p < k \<and> k \<le> size_of a \<longrightarrow> pos a x k < 0"
        using right_of [OF inv c(1) lt] by (simp add: c_def)
      have "\<exists>b d. bsearch_loop (probe a x) base c (pos a x c) p = Some (b, d) \<and> found_at a x b d"
        unfolding c_def
        by (rule "1.hyps"(1) [OF True p_def refl wc [unfolded c_def] lt [unfolded c_def]])
          (use "1.prems" c hi' lt in \<open>auto simp: c_def\<close>)
      with unf lt show ?thesis by simp
    next
      case gt
      have lo': "\<forall>k. 1 \<le> k \<and> k \<le> c \<longrightarrow> pos a x k > 0"
        using left_of [OF inv c(3) gt] by simp
      have "\<exists>b d. bsearch_loop (probe a x) c c (pos a x c) (n - (p + 1)) = Some (b, d)
          \<and> found_at a x b d"
        unfolding c_def
        by (rule "1.hyps"(2) [OF True p_def refl wc [unfolded c_def]])
          (use "1.prems" c lo' gt in \<open>auto simp: c_def\<close>)
      with unf gt show ?thesis by simp
    next
      case eq
      with unf c show ?thesis by (auto simp: found_at_def)
    qed
  qed
qed

lemma bsearch_correct:
  assumes "inv a"
  obtains b c where "bsearch_loop (probe a x) 0 1 0 (size_of a) = Some (b, c)"
    "1 \<le> c" "c \<le> Suc (size_of a)" "b \<Longrightarrow> c \<le> size_of a \<and> pos a x c = 0"
    "\<And>k. \<not> b \<Longrightarrow> 1 \<le> k \<Longrightarrow> k < c \<Longrightarrow> pos a x k > 0"
    "\<And>k. \<not> b \<Longrightarrow> c \<le> k \<Longrightarrow> k \<le> size_of a \<Longrightarrow> pos a x k < 0"
proof -
  have "\<exists>b c. bsearch_loop (probe a x) 0 1 0 (size_of a) = Some (b, c) \<and> found_at a x b c"
    by (rule bsearch_loop_correct [OF assms]) auto
  then obtain b c where r: "bsearch_loop (probe a x) 0 1 0 (size_of a) = Some (b, c)"
    and f: "found_at a x b c" by blast
  show ?thesis by (rule that [OF r]) (use f in \<open>auto simp: found_at_def\<close>)
qed

end

section \<open>C comparison results\<close>

text \<open>\<open>CMP(x,y)\<close> of \<open>midl.c\<close>.\<close>

definition CMP :: "'a::linorder \<Rightarrow> 'a \<Rightarrow> int" where
  "CMP x y = (if x < y then -1 else if x > y then 1 else 0)"

lemma CMP_simps [simp]:
  "CMP x y < 0 \<longleftrightarrow> x < y" "CMP x y > 0 \<longleftrightarrow> y < x" "CMP x y = 0 \<longleftrightarrow> x = y"
  by (auto simp: CMP_def)

lemma sgn_CMP [simp]: "sgn (CMP x y) = CMP x y"
  by (simp add: CMP_def)

lemma CMP_mono: "x \<le> y \<Longrightarrow> CMP x z \<le> CMP y z"
  by (auto simp: CMP_def)

lemma CMP_anti: "x \<le> y \<Longrightarrow> CMP z y \<le> CMP z x"
  by (auto simp: CMP_def)

section \<open>Words\<close>

lemma scast_u32_u64: "unat (n :: u32) < 2 ^ 31 \<Longrightarrow> (scast n :: u64) = ucast n"
proof -
  assume "unat n < 2 ^ 31"
  then have "int (unat n) < int (2 ^ 31)" by (simp only: of_nat_less_iff)
  then have u: "uint n < 2 ^ 31" by simp
  have m: "- (2 ^ 31) \<le> uint n" by (rule order_trans [OF _ uint_ge_0]) simp
  have "sint n = signed_take_bit 31 (uint n)" by (simp add: sint_uint)
  also have "\<dots> = uint n" by (rule signed_take_bit_int_eq_self [OF m u])
  finally have "sint n = uint n" .
  then show ?thesis by (simp only: scast_eq ucast_eq)
qed

lemma unat_ucast_u32_u64 [simp]: "unat (ucast (n :: u32) :: u64) = unat n"
proof -
  have "unat n < 2^32" using unsigned_less [of n] by simp
  then show ?thesis by (simp add: unsigned_ucast_eq take_bit_nat_eq_self)
qed

lemma unat_ucast_u64_u32: "unat (n :: u64) < 2 ^ 32 \<Longrightarrow> unat (ucast n :: u32) = unat n"
  by (simp add: unsigned_ucast_eq take_bit_nat_eq_self)

lemma unat_add_small: "unat (a :: 'a::len word) + unat b < 2 ^ LENGTH('a) \<Longrightarrow> unat (a + b) = unat a + unat b"
  by (simp add: unat_word_ariths)

lemma and_minus_256: "(x::32 word) AND (-256) = push_bit 8 (drop_bit 8 x)"
proof -
  have "(- 256 :: u32) = NOT (mask 8)" using minus_exp_eq_not_mask [of 8, where 'a="32 word"] by simp
  then show ?thesis by (simp add: bit_eq_iff bit_simps) (auto simp: bit_simps)
qed

lemma unat_and_minus_256: "unat ((x::32 word) AND (-256)) = unat x div 256 * 256"
proof -
  have "unat (push_bit 8 (drop_bit 8 x)) = take_bit 32 (push_bit 8 (drop_bit 8 (unat x)))"
    by (simp add: unsigned_push_bit_eq unat_drop_bit_eq)
  also have "\<dots> = unat x div 256 * 256"
  proof -
    have "unat x div 256 * 256 \<le> unat x" by simp
    moreover have "unat x < 2^32" using unsigned_less [of x] by simp
    ultimately have "unat x div 256 * 256 < 2^32" by (rule le_less_trans)
    then show ?thesis by (simp add: push_bit_eq_mult drop_bit_eq_div take_bit_nat_eq_self)
  qed
  finally show ?thesis by (simp add: and_minus_256)
qed

end
