(* ===== verification/Midl.thy ===== *)
theory Midl
  imports Prelude
begin

text \<open>
  \<open>midl.c\<close> and \<open>midl.h\<close>: ID lists (IDLs) and ID/pointer lists (ID2Ls).

  An IDL is a malloc'd block whose first slot is the allocated length, the pointer the
  code passes around points behind it: \<open>ids[-1]\<close> is \<open>il_alloc\<close>, \<open>ids[0]\<close> (the
  count), \<open>ids[1]\<close>, \dots\ are the elements of \<open>il_ids\<close>. IDLs are sorted in descending,
  ID2Ls in ascending order. The outcome of \<open>malloc\<close>/\<open>realloc\<close> is an argument:
  \<open>None\<close> when it returns NULL, \<open>Some g\<close> when it succeeds with the indeterminate new
  slots holding \<open>g\<close>. Sorting is in theory \<open>Midl_Sort\<close>.
\<close>

record idl =
  il_alloc :: u64
  il_ids :: "u64 list"

type_synonym mem = "(nat \<Rightarrow> u64) option"

definition MDB_IDL_LOGN :: nat where
  "MDB_IDL_LOGN = 16"

definition MDB_IDL_UM_MAX :: nat where
  "MDB_IDL_UM_MAX = 2 ^ (MDB_IDL_LOGN + 1) - 1"

lemma UM_MAX [simp]: "MDB_IDL_UM_MAX = 131071"
  by (simp add: MDB_IDL_UM_MAX_def MDB_IDL_LOGN_def)

definition ENOMEM :: int where "ENOMEM = 12"

lemma ENOMEM_nonzero [simp]: "ENOMEM \<noteq> 0"
  by (simp add: ENOMEM_def)

text \<open>The elements an IDL array holds, and the well-formedness of an IDL.\<close>

definition idl_elems :: "u64 list \<Rightarrow> u64 list" where
  "idl_elems ids = take (unat (ids ! 0)) (drop 1 ids)"

definition ids_ok :: "u64 list \<Rightarrow> bool" where
  "ids_ok ids \<longleftrightarrow> unat (ids ! 0) < length ids \<and> length ids \<le> 2 ^ 31"

definition idl_ok :: "idl \<Rightarrow> bool" where
  "idl_ok il \<longleftrightarrow> length (il_ids il) = unat (il_alloc il) + 1 \<and> ids_ok (il_ids il)"

definition idl_desc :: "u64 list \<Rightarrow> bool" where
  "idl_desc ids \<longleftrightarrow> sorted_wrt (\<ge>) (idl_elems ids)"

lemma length_idl_elems [simp]: "ids_ok ids \<Longrightarrow> length (idl_elems ids) = unat (ids ! 0)"
  by (auto simp: idl_elems_def ids_ok_def)

lemma nth_idl_elems [simp]:
  "ids_ok ids \<Longrightarrow> k < unat (ids ! 0) \<Longrightarrow> idl_elems ids ! k = ids ! Suc k"
  by (auto simp: idl_elems_def ids_ok_def)

lemma set_idl_elems: "ids_ok ids \<Longrightarrow> set (idl_elems ids) = {ids ! k | k. 1 \<le> k \<and> k \<le> unat (ids ! 0)}"
  (is "_ \<Longrightarrow> ?l = ?r")
proof (rule set_eqI, rule iffI)
  fix x assume ok: "ids_ok ids" and "x \<in> ?l"
  then obtain k where "k < unat (ids ! 0)" "x = ids ! Suc k"
    by (auto simp: in_set_conv_nth)
  then show "x \<in> ?r" by (intro CollectI exI [of _ "Suc k"]) auto
next
  fix x assume ok: "ids_ok ids" and "x \<in> ?r"
  then obtain k where "1 \<le> k" "k \<le> unat (ids ! 0)" "x = ids ! k" by auto
  then have "k - 1 < length (idl_elems ids)" "x = idl_elems ids ! (k - 1)" using ok by auto
  then show "x \<in> ?l" by (auto simp: in_set_conv_nth)
qed

lemma idl_desc_nth:
  assumes "ids_ok ids" "idl_desc ids" "1 \<le> i" "i \<le> j" "j \<le> unat (ids ! 0)"
  shows "ids ! j \<le> ids ! i"
proof (cases "i = j")
  case False
  then have "idl_elems ids ! (j - 1) \<le> idl_elems ids ! (i - 1)"
    using sorted_wrt_nth_less [of "(\<ge>)" "idl_elems ids" "i - 1" "j - 1"] assms
    by (simp add: idl_desc_def)
  then show ?thesis using assms by simp
qed simp

section \<open>Searching an IDL\<close>

definition midl_probe :: "u64 list \<Rightarrow> u64 \<Rightarrow> nat \<Rightarrow> int option" where
  "midl_probe ids eid k = do { x \<leftarrow> aget ids k; Some (CMP x eid) }"

definition mdb_midl_search :: "u64 list \<Rightarrow> u64 \<Rightarrow> nat option" where
  "mdb_midl_search ids eid = do {
     n \<leftarrow> aget ids 0;
     (_, cursor) \<leftarrow> bsearch_loop (midl_probe ids eid) 0 1 0 (unat n mod 2 ^ 32);
     Some cursor
   }"

interpretation midl: sorted_array midl_probe "\<lambda>ids eid k. CMP (ids ! k) eid"
  "\<lambda>ids. unat (ids ! 0)" "\<lambda>ids. ids_ok ids \<and> idl_desc ids"
proof
  fix ids :: "u64 list" and k eid
  assume "ids_ok ids \<and> idl_desc ids" "1 \<le> k" "k \<le> unat (ids ! 0)"
  then show "midl_probe ids eid k = Some (CMP (ids ! k) eid)"
    by (auto simp: midl_probe_def ids_ok_def)
next
  fix ids :: "u64 list" and i j eid
  assume "ids_ok ids \<and> idl_desc ids" "1 \<le> i" "i \<le> j" "j \<le> unat (ids ! 0)"
  then have "ids ! j \<le> ids ! i" using idl_desc_nth by blast
  then show "sgn (CMP (ids ! j) eid) \<le> sgn (CMP (ids ! i) eid)"
    by (simp add: CMP_mono)
qed

text \<open>\<open>mdb_midl_search\<close> on a sorted IDL never reads outside the list, always returns,
  and finds the id exactly when it is there; otherwise it returns the position before
  which all ids are greater and from which on all are smaller.\<close>

theorem midl_search_correct:
  assumes "ids_ok ids" "idl_desc ids"
  shows "\<exists>c. mdb_midl_search ids eid = Some c \<and> 1 \<le> c \<and> c \<le> unat (ids ! 0) + 1 \<and>
    (if eid \<in> set (idl_elems ids) then c \<le> unat (ids ! 0) \<and> ids ! c = eid
     else (\<forall>k \<in> {1..<c}. eid < ids ! k) \<and> (\<forall>k \<in> {c..unat (ids ! 0)}. ids ! k < eid))"
proof -
  obtain b c where s: "bsearch_loop (midl_probe ids eid) 0 1 0 (unat (ids ! 0)) = Some (b, c)"
    "1 \<le> c" "c \<le> Suc (unat (ids ! 0))" "b \<Longrightarrow> c \<le> unat (ids ! 0) \<and> CMP (ids ! c) eid = 0"
    "\<And>k. \<not> b \<Longrightarrow> 1 \<le> k \<Longrightarrow> k < c \<Longrightarrow> CMP (ids ! k) eid > 0"
    "\<And>k. \<not> b \<Longrightarrow> c \<le> k \<Longrightarrow> k \<le> unat (ids ! 0) \<Longrightarrow> CMP (ids ! k) eid < 0"
    using midl.bsearch_correct [of ids eid] assms by blast
  have n: "0 < length ids" "unat (ids ! 0) mod 2 ^ 32 = unat (ids ! 0)"
    using assms(1) by (auto simp: ids_ok_def)
  have "b \<longleftrightarrow> eid \<in> set (idl_elems ids)"
  proof
    assume b
    then show "eid \<in> set (idl_elems ids)"
      using s(2,4) set_idl_elems [OF assms(1)] by force
  next
    assume "eid \<in> set (idl_elems ids)"
    then obtain k where k: "1 \<le> k" "k \<le> unat (ids ! 0)" "ids ! k = eid"
      using set_idl_elems [OF assms(1)] by auto
    then show b using s(5) [of k] s(6) [of k] by (cases "k < c") auto
  qed
  then show ?thesis using s n by (auto simp: mdb_midl_search_def)
qed

theorem midl_search_correct_witness:
  "mdb_midl_search [3, 9, 5, 2] 5 = Some 2 \<and> mdb_midl_search [3, 9, 5, 2] 4 = Some 3"
proof -
  have ok: "ids_ok [3, 9, 5, 2]" "idl_desc [3, 9, 5, 2]"
    by (simp_all add: ids_ok_def idl_desc_def idl_elems_def)
  show ?thesis
    using midl_search_correct [OF ok, of 5] midl_search_correct [OF ok, of 4]
    by (simp add: mdb_midl_search_def midl_probe_def bsearch_loop.simps CMP_def)
qed

section \<open>Allocation, growth and append\<close>

text \<open>A \<open>realloc\<close>'d element array of \<open>k\<close> slots.\<close>

definition realloc_ids :: "u64 list \<Rightarrow> nat \<Rightarrow> (nat \<Rightarrow> u64) \<Rightarrow> u64 list" where
  "realloc_ids ids k g = take k ids @ map g [length ids..<k]"

lemma length_realloc_ids [simp]: "length (realloc_ids ids k g) = k"
  by (simp add: realloc_ids_def)

lemma nth_realloc_ids [simp]: "i < length ids \<Longrightarrow> i < k \<Longrightarrow> realloc_ids ids k g ! i = ids ! i"
  by (simp add: realloc_ids_def nth_append)

definition mdb_midl_alloc :: "mem \<Rightarrow> nat \<Rightarrow> idl option" where
  "mdb_midl_alloc m num = (case m of
     None \<Rightarrow> None
   | Some g \<Rightarrow> Some \<lparr>il_alloc = of_nat num, il_ids = (map g [0..<num + 1])[0 := 0]\<rparr>)"

definition mdb_midl_shrink :: "mem \<Rightarrow> idl \<Rightarrow> idl" where
  "mdb_midl_shrink m il =
     (if il_alloc il > of_nat MDB_IDL_UM_MAX then
        (case m of None \<Rightarrow> il
         | Some g \<Rightarrow> \<lparr>il_alloc = of_nat MDB_IDL_UM_MAX,
                       il_ids = realloc_ids (il_ids il) (MDB_IDL_UM_MAX + 1) g\<rparr>)
      else il)"

definition mdb_midl_grow :: "mem \<Rightarrow> idl \<Rightarrow> u32 \<Rightarrow> int \<times> idl" where
  "mdb_midl_grow m il num = (case m of
     None \<Rightarrow> (ENOMEM, il)
   | Some g \<Rightarrow> (0, \<lparr>il_alloc = il_alloc il + scast num,
                     il_ids = realloc_ids (il_ids il) (unat (il_alloc il + scast num + 1)) g\<rparr>))"

definition mdb_midl_need :: "mem \<Rightarrow> idl \<Rightarrow> u32 \<Rightarrow> (int \<times> idl) option" where
  "mdb_midl_need m il num = do {
     c \<leftarrow> aget (il_ids il) 0;
     let n = num + ucast c;
     if ucast n > il_alloc il then
       (let n' = (n + n div 4 + (256 + 2)) AND (- 256) in
        case m of
          None \<Rightarrow> Some (ENOMEM, il)
        | Some g \<Rightarrow> if n' = 0 then None
            else Some (0, \<lparr>il_alloc = ucast (n' - 2), il_ids = realloc_ids (il_ids il) (unat n' - 1) g\<rparr>))
     else Some (0, il)
   }"

definition mdb_midl_xappend :: "idl \<Rightarrow> u64 \<Rightarrow> idl option" where
  "mdb_midl_xappend il eid = do {
     c \<leftarrow> aget (il_ids il) 0;
     ids \<leftarrow> aset (il_ids il) 0 (c + 1);
     ids \<leftarrow> aset ids (unat (c + 1)) eid;
     Some (il\<lparr>il_ids := ids\<rparr>)
   }"

definition mdb_midl_append :: "mem \<Rightarrow> idl \<Rightarrow> u64 \<Rightarrow> (int \<times> idl) option" where
  "mdb_midl_append m il eid = do {
     c \<leftarrow> aget (il_ids il) 0;
     let (rc, il') = (if c \<ge> il_alloc il then mdb_midl_grow m il (of_nat MDB_IDL_UM_MAX) else (0, il));
     if rc \<noteq> 0 then Some (ENOMEM, il')
     else do { il'' \<leftarrow> mdb_midl_xappend il' eid; Some (0, il'') }
   }"

definition mdb_midl_append_list :: "mem \<Rightarrow> idl \<Rightarrow> u64 list \<Rightarrow> (int \<times> idl) option" where
  "mdb_midl_append_list m il app = do {
     c \<leftarrow> aget (il_ids il) 0;
     a \<leftarrow> aget app 0;
     let (rc, il') = (if c + a \<ge> il_alloc il then mdb_midl_grow m il (ucast a) else (0, il));
     if rc \<noteq> 0 then Some (ENOMEM, il')
     else do {
       ids \<leftarrow> acopy (il_ids il') (unat (c + 1)) app 1 (unat a);
       ids \<leftarrow> aset ids 0 (c + a);
       Some (0, il'\<lparr>il_ids := ids\<rparr>)
     }
   }"

fun append_range_loop :: "u64 list \<Rightarrow> nat \<Rightarrow> nat \<Rightarrow> u64 \<Rightarrow> u64 list option" where
  "append_range_loop ids len n eid =
     (if n = 0 then Some ids
      else do { ids' \<leftarrow> aset ids (len + n) eid; append_range_loop ids' len (n - 1) (eid + 1) })"

declare append_range_loop.simps [simp del]

definition mdb_midl_append_range :: "mem \<Rightarrow> idl \<Rightarrow> u64 \<Rightarrow> u32 \<Rightarrow> (int \<times> idl) option" where
  "mdb_midl_append_range m il eid n = do {
     len \<leftarrow> aget (il_ids il) 0;
     let (rc, il') = (if len + ucast n > il_alloc il
                      then mdb_midl_grow m il (n OR of_nat MDB_IDL_UM_MAX) else (0, il));
     if rc \<noteq> 0 then Some (ENOMEM, il')
     else do {
       ids \<leftarrow> aset (il_ids il') 0 (len + ucast n);
       ids \<leftarrow> append_range_loop ids (unat len) (unat n) eid;
       Some (0, il'\<lparr>il_ids := ids\<rparr>)
     }
   }"

text \<open>Two array facts every append proof uses.\<close>

lemma idl_elems_eqI:
  "ids_ok ids \<Longrightarrow> length xs = unat (ids ! 0) \<Longrightarrow> (\<And>k. k < length xs \<Longrightarrow> ids ! Suc k = xs ! k) \<Longrightarrow>
    idl_elems ids = xs"
  by (rule nth_equalityI) simp_all

lemma idl_okD:
  assumes "idl_ok il"
  shows "length (il_ids il) = unat (il_alloc il) + 1" "ids_ok (il_ids il)" "0 < length (il_ids il)"
    "unat (il_ids il ! 0) \<le> unat (il_alloc il)" "unat (il_alloc il) < 2 ^ 31"
  using assms by (auto simp: idl_ok_def ids_ok_def)

lemma grow_ok:
  assumes ok: "idl_ok il" and n: "unat num < 2 ^ 31" "unat (il_alloc il) + unat num < 2 ^ 31"
  obtains il' where "mdb_midl_grow (Some g) il num = (0, il')" "idl_ok il'"
    "unat (il_alloc il') = unat (il_alloc il) + unat num"
    "idl_elems (il_ids il') = idl_elems (il_ids il)" "il_ids il' ! 0 = il_ids il ! 0"
proof -
  note D = idl_okD [OF ok]
  define al where "al = il_alloc il + scast num"
  have al: "unat al = unat (il_alloc il) + unat num"
    using n by (simp add: al_def scast_u32_u64 unat_add_small)
  have al1: "unat (al + 1) = unat al + 1"
    using n al by (simp add: unat_add_small)
  let ?il = "\<lparr>il_alloc = al, il_ids = realloc_ids (il_ids il) (unat (al + 1)) g\<rparr>"
  have z: "il_ids ?il ! 0 = il_ids il ! 0" using D al al1 by simp
  have ok': "ids_ok (il_ids ?il)" using D n al al1 z by (simp add: ids_ok_def)
  have "idl_elems (il_ids ?il) = idl_elems (il_ids il)"
    by (rule idl_elems_eqI [OF ok']) (use D z al al1 in auto)
  moreover have "mdb_midl_grow (Some g) il num = (0, ?il)"
    by (simp add: mdb_midl_grow_def al_def)
  ultimately show ?thesis
    using that [of ?il] ok' al al1 z by (simp add: idl_ok_def)
qed

lemma xappend_ok:
  assumes ok: "idl_ok il" and room: "unat (il_ids il ! 0) < unat (il_alloc il)"
  obtains il' where "mdb_midl_xappend il x = Some il'" "idl_ok il'"
    "il_alloc il' = il_alloc il" "idl_elems (il_ids il') = idl_elems (il_ids il) @ [x]"
proof -
  note D = idl_okD [OF ok]
  let ?ids = "il_ids il" and ?c = "il_ids il ! 0"
  have c1: "unat (?c + 1) = unat ?c + 1" using D room by (simp add: unat_add_small)
  let ?ids' = "?ids[0 := ?c + 1, Suc (unat ?c) := x]"
  have ok': "ids_ok ?ids'" using D room c1 by (auto simp: ids_ok_def)
  have "idl_elems ?ids' = idl_elems ?ids @ [x]"
    by (rule idl_elems_eqI [OF ok']) (use D room c1 in \<open>auto simp: nth_append nth_list_update\<close>)
  moreover have "mdb_midl_xappend il x = Some (il\<lparr>il_ids := ?ids'\<rparr>)"
    using D room c1 by (simp add: mdb_midl_xappend_def)
  ultimately show ?thesis
    using that ok' D by (simp add: idl_ok_def)
qed

text \<open>\<open>mdb_midl_append\<close> keeps the IDL well formed and appends exactly the given id,
  growing the block when it is full; when growing fails it reports \<open>ENOMEM\<close> and leaves
  the list untouched.\<close>

theorem midl_append_correct:
  assumes ok: "idl_ok il" and size: "unat (il_alloc il) + MDB_IDL_UM_MAX < 2 ^ 31"
  shows "\<exists>rc il'. mdb_midl_append m il x = Some (rc, il') \<and>
    (if m = None \<and> unat (il_ids il ! 0) = unat (il_alloc il) then rc = ENOMEM \<and> il' = il
     else rc = 0 \<and> idl_ok il' \<and> idl_elems (il_ids il') = idl_elems (il_ids il) @ [x])"
proof -
  note D = idl_okD [OF ok]
  have um: "unat (of_nat MDB_IDL_UM_MAX :: u32) = MDB_IDL_UM_MAX" by simp
  show ?thesis
  proof (cases "il_ids il ! 0 \<ge> il_alloc il")
    case False
    then have "unat (il_ids il ! 0) < unat (il_alloc il)" by (simp add: word_less_nat_alt not_le)
    then obtain il' where "mdb_midl_xappend il x = Some il'" "idl_ok il'"
      "idl_elems (il_ids il') = idl_elems (il_ids il) @ [x]"
      using xappend_ok [OF ok] by metis
    with False D \<open>unat (il_ids il ! 0) < unat (il_alloc il)\<close> show ?thesis
      by (auto simp: mdb_midl_append_def)
  next
    case True
    then have full: "unat (il_ids il ! 0) = unat (il_alloc il)"
      using D by (simp add: word_le_nat_alt)
    show ?thesis
    proof (cases m)
      case None
      with True full D show ?thesis by (auto simp: mdb_midl_append_def mdb_midl_grow_def)
    next
      case (Some g)
      obtain il1 where 1: "mdb_midl_grow (Some g) il (of_nat MDB_IDL_UM_MAX) = (0, il1)" "idl_ok il1"
        "unat (il_alloc il1) = unat (il_alloc il) + MDB_IDL_UM_MAX"
        "idl_elems (il_ids il1) = idl_elems (il_ids il)" "il_ids il1 ! 0 = il_ids il ! 0"
        by (rule grow_ok [OF ok, of "of_nat MDB_IDL_UM_MAX" g]) (use size um in auto)
      obtain il2 where "mdb_midl_xappend il1 x = Some il2" "idl_ok il2"
        "idl_elems (il_ids il2) = idl_elems (il_ids il1) @ [x]"
        by (rule xappend_ok [OF 1(2), of x]) (use full 1(3,5) in auto)
      with 1 Some True D show ?thesis by (auto simp: mdb_midl_append_def)
    qed
  qed
qed

theorem midl_append_correct_witness:
  "\<exists>rc il'. mdb_midl_append (Some (\<lambda>_. 7)) \<lparr>il_alloc = 2, il_ids = [2, 9, 5]\<rparr> 4 = Some (rc, il') \<and>
    rc = 0 \<and> idl_elems (il_ids il') = [9, 5, 4]"
proof -
  have ok: "idl_ok \<lparr>il_alloc = 2, il_ids = [2, 9, 5]\<rparr>" by (simp add: idl_ok_def ids_ok_def)
  show ?thesis
    using midl_append_correct [OF ok, of "Some (\<lambda>_. 7)" 4] by (auto simp: idl_elems_def)
qed

lemma append_range_loop_eq:
  assumes "len + n < length ids"
  shows "\<exists>ys. append_range_loop ids len n e = Some ys \<and> length ys = length ids \<and>
    (\<forall>k < length ids. ys ! k = (if len < k \<and> k \<le> len + n then e + of_nat (len + n - k) else ids ! k))"
  using assms
proof (induction n arbitrary: ids e)
  case 0
  then show ?case by (auto simp: append_range_loop.simps)
next
  case (Suc n)
  let ?ids = "ids[len + Suc n := e]"
  obtain ys where ys: "append_range_loop ?ids len n (e + 1) = Some ys" "length ys = length ids"
    "\<forall>k < length ids. ys ! k =
       (if len < k \<and> k \<le> len + n then e + 1 + of_nat (len + n - k) else ?ids ! k)"
    using Suc.IH [of ?ids "e + 1"] Suc.prems by auto
  have "append_range_loop ids len (Suc n) e = Some ys"
    using ys(1) Suc.prems by (simp add: append_range_loop.simps [of ids])
  moreover have "ys ! k = (if len < k \<and> k \<le> len + Suc n then e + of_nat (len + Suc n - k) else ids ! k)"
    if k: "k < length ids" for k
  proof -
    consider "len < k \<and> k \<le> len + n" | "k = len + Suc n" | "k \<le> len \<or> len + Suc n < k" by linarith
    then show ?thesis
    proof cases
      case 1
      then have "len + Suc n - k = Suc (len + n - k)" by linarith
      then have "(of_nat (len + Suc n - k) :: u64) = 1 + of_nat (len + n - k)" by simp
      with 1 ys(3) k show ?thesis by (simp only: if_True) (simp add: add.assoc)
    qed (use ys(3) k Suc.prems in auto)
  qed
  ultimately show ?case using ys(2) by auto
qed

text \<open>The pages \<open>e, e+1, \<dots>, e+n-1\<close> in descending order, as a range is stored.\<close>

definition desc_range :: "u64 \<Rightarrow> nat \<Rightarrow> u64 list" where
  "desc_range e n = map (\<lambda>k. e + of_nat (n - 1 - k)) [0..<n]"

text \<open>\<open>mdb_midl_append_range\<close> appends exactly the ids \<open>e+n-1, \<dots>, e\<close> in descending
  order and keeps the IDL well formed; when growing fails it reports \<open>ENOMEM\<close> and leaves
  the list untouched.\<close>

theorem midl_append_range_correct:
  assumes ok: "idl_ok il" and size: "unat (il_alloc il) < 2 ^ 29" "unat n < 2 ^ 29"
  shows "\<exists>rc il'. mdb_midl_append_range m il e n = Some (rc, il') \<and>
    (if m = None \<and> unat (il_ids il ! 0) + unat n > unat (il_alloc il) then rc = ENOMEM \<and> il' = il
     else rc = 0 \<and> idl_ok il' \<and>
       idl_elems (il_ids il') = idl_elems (il_ids il) @ desc_range e (unat n))"
proof -
  note D = idl_okD [OF ok]
  let ?c = "il_ids il ! 0" and ?N = "n OR of_nat MDB_IDL_UM_MAX"
  have cn: "unat (?c + ucast n) = unat ?c + unat n"
    using D size by (subst unat_add_small) auto
  have N: "unat ?N < 2 ^ 30" "unat n \<le> unat ?N"
  proof -
    have "uint n \<le> uint ?N" by (simp add: or_greater_eq uint_or)
    then show "unat n \<le> unat ?N" by (simp add: word_le_nat_alt [symmetric] word_le_def)
    have "unat n = take_bit 30 (unat n)" using size by (simp add: take_bit_nat_eq_self)
    then have "unat ?N = take_bit 30 (unat n) OR take_bit 30 131071"
      by (simp add: unsigned_or_eq take_bit_nat_eq_self)
    also have "\<dots> = take_bit 30 (unat n OR 131071)" by simp
    also have "\<dots> < 2 ^ 30" by (rule take_bit_nat_less_exp)
    finally show "unat ?N < 2 ^ 30" .
  qed
  have tail: "\<exists>il''. (do { ids \<leftarrow> aset (il_ids il') 0 (?c + ucast n);
       ids \<leftarrow> append_range_loop ids (unat ?c) (unat n) e;
       Some (0 :: int, il'\<lparr>il_ids := ids\<rparr>) }) = Some (0, il'') \<and> idl_ok il'' \<and>
       idl_elems (il_ids il'') = idl_elems (il_ids il) @ desc_range e (unat n)"
    if il': "idl_ok il'" "idl_elems (il_ids il') = idl_elems (il_ids il)" "il_ids il' ! 0 = ?c"
      "unat ?c + unat n \<le> unat (il_alloc il')" for il'
  proof -
    note D' = idl_okD [OF il'(1)]
    let ?ids = "(il_ids il')[0 := ?c + ucast n]"
    have len: "length (il_ids il') = unat (il_alloc il') + 1" using D'(1) .
    obtain ys where ys: "append_range_loop ?ids (unat ?c) (unat n) e = Some ys" "length ys = length ?ids"
      "\<forall>k < length ?ids. ys ! k = (if unat ?c < k \<and> k \<le> unat ?c + unat n
          then e + of_nat (unat ?c + unat n - k) else ?ids ! k)"
      using append_range_loop_eq [of "unat ?c" "unat n" ?ids e] len il'(4) by auto
    have y0: "ys ! 0 = ?c + ucast n" using ys(3) len by simp
    have ok': "ids_ok ys" using y0 ys(2) len il'(4) D'(5) cn by (simp add: ids_ok_def)
    have el: "idl_elems (il_ids il') ! k = il_ids il' ! Suc k" if "k < unat ?c" for k
      using that D'(2) il'(3) by simp
    have "idl_elems ys = idl_elems (il_ids il) @ desc_range e (unat n)"
    proof (rule idl_elems_eqI [OF ok'])
      show "length (idl_elems (il_ids il) @ desc_range e (unat n)) = unat (ys ! 0)"
        using D(2) y0 cn by (simp add: desc_range_def)
      fix k assume "k < length (idl_elems (il_ids il) @ desc_range e (unat n))"
      then have k: "k < unat ?c + unat n" using D(2) by (simp add: desc_range_def)
      show "ys ! Suc k = (idl_elems (il_ids il) @ desc_range e (unat n)) ! k"
      proof (cases "k < unat ?c")
        case True
        then show ?thesis using ys(3) len il'(2,4) el [OF True] D(2) k by (simp add: nth_append)
      next
        case False
        then have "ys ! Suc k = e + of_nat (unat ?c + unat n - Suc k)"
          using ys(3) len il'(4) k by simp
        moreover have "unat ?c + unat n - Suc k = unat n - 1 - (k - unat ?c)" using False k by simp
        ultimately show ?thesis using False k D(2) by (simp add: nth_append desc_range_def)
      qed
    qed
    then show ?thesis using ys(1,2) len ok' D'(3) by (auto simp: idl_ok_def)
  qed
  show ?thesis
  proof (cases "?c + ucast n > il_alloc il")
    case False
    then have f: "unat ?c + unat n \<le> unat (il_alloc il)" using cn by (simp add: word_less_nat_alt)
    from tail [OF ok refl refl f] False D f show ?thesis
      by (auto simp: mdb_midl_append_range_def)
  next
    case True
    then have f: "unat ?c + unat n > unat (il_alloc il)" using cn by (simp add: word_less_nat_alt)
    show ?thesis
    proof (cases m)
      case None
      with True D f show ?thesis by (auto simp: mdb_midl_append_range_def mdb_midl_grow_def)
    next
      case (Some g)
      obtain il1 where 1: "mdb_midl_grow (Some g) il ?N = (0, il1)" "idl_ok il1"
        "unat (il_alloc il1) = unat (il_alloc il) + unat ?N"
        "idl_elems (il_ids il1) = idl_elems (il_ids il)" "il_ids il1 ! 0 = ?c"
        by (rule grow_ok [OF ok, of ?N g]) (use size N in auto)
      have "unat ?c + unat n \<le> unat (il_alloc il1)" using 1(3) N D(4) by simp
      from tail [OF 1(2,4,5) this] Some True D 1(1) show ?thesis
        by (auto simp: mdb_midl_append_range_def)
    qed
  qed
qed

theorem midl_append_range_correct_witness:
  "\<exists>rc il'. mdb_midl_append_range (Some (\<lambda>_. 7)) \<lparr>il_alloc = 2, il_ids = [1, 9, 0]\<rparr> 20 3 = Some (rc, il') \<and>
    rc = 0 \<and> idl_elems (il_ids il') = [9, 22, 21, 20]"
proof -
  have ok: "idl_ok \<lparr>il_alloc = 2, il_ids = [1, 9, 0]\<rparr>" by (simp add: idl_ok_def ids_ok_def)
  show ?thesis
    using midl_append_range_correct [OF ok, of 3 "Some (\<lambda>_. 7)" 20]
    by (auto simp: idl_elems_def desc_range_def upt_rec)
qed

text \<open>\<open>mdb_midl_append_list\<close> concatenates the two lists, growing by the length of
  the appended one when needed; when growing fails it reports \<open>ENOMEM\<close> and leaves the
  destination untouched.\<close>

theorem midl_append_list_correct:
  assumes ok: "idl_ok il" and app: "ids_ok app"
    and size: "unat (il_alloc il) + length app < 2 ^ 31"
  shows "\<exists>rc il'. mdb_midl_append_list m il app = Some (rc, il') \<and>
    (if m = None \<and> unat (il_ids il ! 0) + unat (app ! 0) \<ge> unat (il_alloc il) then rc = ENOMEM \<and> il' = il
     else rc = 0 \<and> idl_ok il' \<and> idl_elems (il_ids il') = idl_elems (il_ids il) @ idl_elems app)"
proof -
  note D = idl_okD [OF ok]
  let ?c = "il_ids il ! 0" and ?a = "app ! 0"
  have A: "unat ?a < length app" "0 < length app" using app by (auto simp: ids_ok_def)
  have ca: "unat (?c + ?a) = unat ?c + unat ?a"
    using D A size by (subst unat_add_small) auto
  have c1: "unat (?c + 1) = unat ?c + 1" using D by (subst unat_add_small) auto
  have tail: "\<exists>il''. (do { ids \<leftarrow> acopy (il_ids il') (unat (?c + 1)) app 1 (unat ?a);
       ids \<leftarrow> aset ids 0 (?c + ?a);
       Some (0 :: int, il'\<lparr>il_ids := ids\<rparr>) }) = Some (0, il'') \<and> idl_ok il'' \<and>
       idl_elems (il_ids il'') = idl_elems (il_ids il) @ idl_elems app"
    if il': "idl_ok il'" "idl_elems (il_ids il') = idl_elems (il_ids il)" "il_ids il' ! 0 = ?c"
      "unat ?c + unat ?a \<le> unat (il_alloc il')" for il'
  proof -
    note D' = idl_okD [OF il'(1)]
    let ?ids = "take (unat (?c + 1)) (il_ids il') @ take (unat ?a) (drop 1 app) @
      drop (unat (?c + 1) + unat ?a) (il_ids il')"
    let ?ys = "?ids[0 := ?c + ?a]"
    have len: "length ?ys = unat (il_alloc il') + 1" using D'(1) il'(4) c1 A by simp
    have y0: "?ys ! 0 = ?c + ?a" using len by (subst nth_list_update_eq) auto
    have ok': "ids_ok ?ys" using y0 len il'(4) D'(5) ca by (simp add: ids_ok_def)
    have "idl_elems ?ys = idl_elems (il_ids il) @ idl_elems app"
    proof (rule idl_elems_eqI [OF ok'])
      show "length (idl_elems (il_ids il) @ idl_elems app) = unat (?ys ! 0)"
        using D(2) y0 ca app by simp
      fix k assume "k < length (idl_elems (il_ids il) @ idl_elems app)"
      then have k: "k < unat ?c + unat ?a" using D(2) app by simp
      have "?ys ! Suc k = ?ids ! Suc k" by simp
      also have "\<dots> = (idl_elems (il_ids il) @ idl_elems app) ! k"
      proof (cases "k < unat ?c")
        case True
        have "idl_elems (il_ids il') ! k = il_ids il' ! Suc k" using True D'(2) il'(3) by simp
        then show ?thesis using True c1 il'(2,4) D(2) D'(1) by (simp add: nth_append)
      next
        case False
        then have "k - unat ?c < unat ?a" using k by simp
        with False show ?thesis using k c1 il'(4) D(2) D'(1) app A by (simp add: nth_append)
      qed
      finally show "?ys ! Suc k = (idl_elems (il_ids il) @ idl_elems app) ! k" .
    qed
    moreover have "acopy (il_ids il') (unat (?c + 1)) app 1 (unat ?a) = Some ?ids"
      using D'(1) il'(4) c1 A by simp
    moreover have "aset ?ids 0 (?c + ?a) = Some ?ys" using len by (intro aset_in) auto
    ultimately show ?thesis using len ok' by (simp add: idl_ok_def)
  qed
  show ?thesis
  proof (cases "?c + ?a \<ge> il_alloc il")
    case False
    then have f: "unat ?c + unat ?a < unat (il_alloc il)" using ca by (simp add: word_le_nat_alt)
    from tail [OF ok refl refl less_imp_le [OF f]] False D f A show ?thesis
      by (auto simp: mdb_midl_append_list_def)
  next
    case True
    then have f: "unat ?c + unat ?a \<ge> unat (il_alloc il)" using ca by (simp add: word_le_nat_alt)
    show ?thesis
    proof (cases m)
      case None
      with True D f A show ?thesis by (auto simp: mdb_midl_append_list_def mdb_midl_grow_def)
    next
      case (Some g)
      have ua: "unat (ucast ?a :: u32) = unat ?a" using A size by (intro unat_ucast_u64_u32) auto
      obtain il1 where 1: "mdb_midl_grow (Some g) il (ucast ?a) = (0, il1)" "idl_ok il1"
        "unat (il_alloc il1) = unat (il_alloc il) + unat ?a"
        "idl_elems (il_ids il1) = idl_elems (il_ids il)" "il_ids il1 ! 0 = ?c"
        by (rule grow_ok [OF ok, of "ucast ?a" g]) (use size ua A in auto)
      have "unat ?c + unat ?a \<le> unat (il_alloc il1)" using 1(3) D(4) by simp
      from tail [OF 1(2,4,5) this] Some True D A 1(1) show ?thesis
        by (auto simp: mdb_midl_append_list_def)
    qed
  qed
qed

theorem midl_append_list_correct_witness:
  "\<exists>rc il'. mdb_midl_append_list (Some (\<lambda>_. 7)) \<lparr>il_alloc = 2, il_ids = [1, 9, 0]\<rparr> [2, 8, 3] = Some (rc, il') \<and>
    rc = 0 \<and> idl_elems (il_ids il') = [9, 8, 3]"
proof -
  have ok: "idl_ok \<lparr>il_alloc = 2, il_ids = [1, 9, 0]\<rparr>" "ids_ok [2, 8, 3]"
    by (simp_all add: idl_ok_def ids_ok_def)
  show ?thesis
    using midl_append_list_correct [OF ok, of "Some (\<lambda>_. 7)"] by (auto simp: idl_elems_def)
qed

text \<open>after a successful \<open>mdb_midl_need\<close> the list has room for \<open>num\<close> more
  elements and holds what it held; the rounding to blocks of 256 slots loses nothing. On
  failure it reports \<open>ENOMEM\<close> and leaves the list untouched.\<close>

theorem midl_need_correct:
  assumes ok: "idl_ok il" and size: "unat (il_ids il ! 0) + unat num < 2 ^ 30"
  shows "\<exists>rc il'. mdb_midl_need m il num = Some (rc, il') \<and>
    (if m = None \<and> unat (il_ids il ! 0) + unat num > unat (il_alloc il) then rc = ENOMEM \<and> il' = il
     else rc = 0 \<and> idl_ok il' \<and> unat (il_ids il ! 0) + unat num \<le> unat (il_alloc il') \<and>
       idl_elems (il_ids il') = idl_elems (il_ids il))"
proof -
  note D = idl_okD [OF ok]
  let ?c = "il_ids il ! 0"
  define n where "n = num + ucast ?c"
  define n' where "n' = (n + n div 4 + (256 + 2)) AND (- 256)"
  have uc: "unat (ucast ?c :: u32) = unat ?c" using size by (intro unat_ucast_u64_u32) simp
  have n: "unat n = unat ?c + unat num"
    unfolding n_def using size uc by (subst unat_add_small) auto
  have q: "unat (n div 4) = unat n div 4" by (simp add: unat_div)
  have q1: "unat (n + n div 4) = unat n + unat n div 4"
    using n size q by (subst unat_add_small) auto
  have s: "unat (n + n div 4 + (256 + 2)) = unat n + unat n div 4 + 258"
    using n size q1 by (subst unat_add_small) auto
  have n': "unat n' = (unat n + unat n div 4 + 258) div 256 * 256"
    unfolding n'_def unat_and_minus_256 s ..
  have lo: "unat n + 2 \<le> unat n'" "256 \<le> unat n'" "unat n' \<le> 2 ^ 31"
  proof -
    define X where "X = unat n + unat n div 4 + 258"
    have X: "unat n' = X - X mod 256" unfolding n' X_def by (simp add: minus_mod_eq_div_mult)
    have b: "X mod 256 < 256" "X \<ge> unat n + 258" "4 * X \<le> 5 * unat n + 1032" by (simp_all add: X_def)
    have "unat n < 1073741824" using n size by simp
    then show "unat n + 2 \<le> unat n'" "unat n' \<le> 2 ^ 31"
      unfolding X using b by (linarith, simp)
    have "1 \<le> X div 256" using b div_le_mono [of 256 X 256] by simp
    then show "256 \<le> unat n'" unfolding n' X_def by simp
  qed
  have n2: "unat (n' - 2) = unat n' - 2" using lo(2) by (subst unat_sub) (auto simp: word_le_nat_alt)
  have al: "unat (ucast (n' - 2) :: u64) = unat n' - 2" using n2 by simp
  have nz: "n' \<noteq> 0" using lo(2) by auto
  have "aget (il_ids il) 0 = Some ?c" using D(3) by simp
  then have unf: "mdb_midl_need m il num = (if ucast n > il_alloc il then
       (case m of None \<Rightarrow> Some (ENOMEM, il)
        | Some g \<Rightarrow> if n' = 0 then None
            else Some (0, \<lparr>il_alloc = ucast (n' - 2), il_ids = realloc_ids (il_ids il) (unat n' - 1) g\<rparr>))
       else Some (0, il))"
    by (simp only: mdb_midl_need_def n'_def n_def Let_def Option.bind.simps)
  show ?thesis
  proof (cases "ucast n > il_alloc il")
    case False
    then have "\<not> unat ?c + unat num > unat (il_alloc il)" using n by (simp add: word_less_nat_alt)
    with False ok n unf show ?thesis by simp
  next
    case True
    then have big: "unat ?c + unat num > unat (il_alloc il)" using n by (simp add: word_less_nat_alt)
    show ?thesis
    proof (cases m)
      case None
      with True big unf show ?thesis by simp
    next
      case (Some g)
      let ?il = "\<lparr>il_alloc = ucast (n' - 2), il_ids = realloc_ids (il_ids il) (unat n' - 1) g\<rparr>"
      have 0: "il_ids ?il ! 0 = ?c" using D lo by simp
      have ok': "ids_ok (il_ids ?il)" using 0 D lo n by (auto simp: ids_ok_def)
      have "idl_elems (il_ids ?il) = idl_elems (il_ids il)"
        by (rule idl_elems_eqI [OF ok']) (use D 0 lo n in auto)
      moreover have "mdb_midl_need m il num = Some (0, ?il)"
        using True Some nz unf by simp
      ultimately show ?thesis using Some ok' lo al n by (auto simp: idl_ok_def)
    qed
  qed
qed

theorem midl_need_correct_witness:
  "\<exists>rc il'. mdb_midl_need (Some (\<lambda>_. 7)) \<lparr>il_alloc = 2, il_ids = [2, 9, 4]\<rparr> 5 = Some (rc, il') \<and>
    rc = 0 \<and> 7 \<le> unat (il_alloc il') \<and> idl_elems (il_ids il') = [9, 4]"
proof -
  have ok: "idl_ok \<lparr>il_alloc = 2, il_ids = [2, 9, 4]\<rparr>" by (simp add: idl_ok_def ids_ok_def)
  show ?thesis
    using midl_need_correct [OF ok, of 5 "Some (\<lambda>_. 7)"] by (auto simp: idl_elems_def)
qed

section \<open>Merging\<close>

text \<open>\<open>for (; old_id < merge_id; old_id = idl[--j]) idl[k--] = old_id;\<close>\<close>

fun xmerge_shift :: "u64 list \<Rightarrow> nat \<Rightarrow> nat \<Rightarrow> u64 \<Rightarrow> u64 \<Rightarrow> (u64 list \<times> nat \<times> nat \<times> u64) option" where
  "xmerge_shift idl j k old_id merge_id =
     (if old_id < merge_id then
        (if j = 0 then None
         else do {
           idl' \<leftarrow> aset idl k old_id;
           old' \<leftarrow> aget idl' (j - 1);
           xmerge_shift idl' (j - 1) (k - 1) old' merge_id
         })
      else Some (idl, j, k, old_id))"

declare xmerge_shift.simps [simp del]

fun xmerge_loop :: "u64 list \<Rightarrow> u64 list \<Rightarrow> nat \<Rightarrow> nat \<Rightarrow> nat \<Rightarrow> u64 \<Rightarrow> u64 list option" where
  "xmerge_loop idl merge i j k old_id =
     (if i = 0 then Some idl
      else do {
        merge_id \<leftarrow> aget merge i;
        (idl', j', k', old') \<leftarrow> xmerge_shift idl j k old_id merge_id;
        idl'' \<leftarrow> aset idl' k' merge_id;
        xmerge_loop idl'' merge (i - 1) j' (k' - 1) old'
      })"

declare xmerge_loop.simps [simp del]

definition mdb_midl_xmerge :: "u64 list \<Rightarrow> u64 list \<Rightarrow> u64 list option" where
  "mdb_midl_xmerge idl merge = do {
     i \<leftarrow> aget merge 0;
     j \<leftarrow> aget idl 0;
     let total = i + j;
     idl \<leftarrow> aset idl 0 (- 1);
     old_id \<leftarrow> aget idl (unat j);
     idl \<leftarrow> xmerge_loop idl merge (unat i) (unat j) (unat total) old_id;
     aset idl 0 total
   }"

lemma xmerge_shift_eq:
  assumes "j < k" "k < length idl" "idl ! 0 = - 1" "old = idl ! j"
  shows "\<exists>ys j'. xmerge_shift idl j k old m = Some (ys, j', k - (j - j'), idl ! j') \<and> j' \<le> j \<and>
    length ys = length idl \<and> idl ! j' \<ge> m \<and> (\<forall>p. j' < p \<and> p \<le> j \<longrightarrow> idl ! p < m) \<and>
    (\<forall>p < length idl. ys ! p = (if k - (j - j') < p \<and> p \<le> k then idl ! (p - (k - j)) else idl ! p))"
  using assms
proof (induction j arbitrary: k idl old)
  case 0
  then show ?case by (subst xmerge_shift.simps) (auto simp: not_less)
next
  case (Suc j)
  show ?case
  proof (cases "old < m")
    case False
    with Suc.prems show ?thesis
      by (subst xmerge_shift.simps) (intro exI [of _ idl] exI [of _ "Suc j"], auto)
  next
    case True
    let ?idl = "idl[k := old]"
    have p: "j < k - 1" "k - 1 < length ?idl" "?idl ! 0 = - 1" "idl ! j = ?idl ! j" "?idl ! j = idl ! j"
      using Suc.prems by auto
    obtain ys j' where ys: "xmerge_shift ?idl j (k - 1) (idl ! j) m = Some (ys, j', k - 1 - (j - j'), ?idl ! j')"
      "j' \<le> j" "length ys = length idl" "?idl ! j' \<ge> m" "\<forall>p. j' < p \<and> p \<le> j \<longrightarrow> ?idl ! p < m"
      "\<forall>p < length idl. ys ! p = (if k - 1 - (j - j') < p \<and> p \<le> k - 1 then ?idl ! (p - (k - 1 - j)) else ?idl ! p)"
      using Suc.IH [OF p(1,2,3,4)] by auto
    have j': "?idl ! j' = idl ! j'" using ys(2) Suc.prems(1) by simp
    have k': "k - 1 - (j - j') = k - (Suc j - j')" using ys(2) by simp
    have "xmerge_shift idl (Suc j) k old m = Some (ys, j', k - (Suc j - j'), idl ! j')"
      using True Suc.prems p(5) ys(1) j' k' by (subst xmerge_shift.simps) simp
    moreover have "idl ! p < m" if "j' < p" "p \<le> Suc j" for p
    proof (cases "p = Suc j")
      case True with \<open>old < m\<close> Suc.prems show ?thesis by simp
    next
      case False
      with that have "p \<le> j" by simp
      with that ys(5) Suc.prems(1) show ?thesis by (metis nth_list_update_neq less_irrefl le_less_trans Suc_lessD)
    qed
    moreover have "ys ! p = (if k - (Suc j - j') < p \<and> p \<le> k then idl ! (p - (k - Suc j)) else idl ! p)"
      if "p < length idl" for p
    proof -
      consider "p = k" | "k - (Suc j - j') < p \<and> p < k" | "p \<le> k - (Suc j - j') \<or> k < p" by linarith
      then show ?thesis
      proof cases
        case 1
        then show ?thesis using ys(2,6) that Suc.prems by auto
      next
        case 2
        then have "p - (k - 1 - j) = p - (k - Suc j)" "p - (k - Suc j) < k" by auto
        then show ?thesis using 2 ys(6) that k' by auto
      next
        case 3
        then show ?thesis using ys(2,6) that k' Suc.prems(1) by auto
      qed
    qed
    ultimately show ?thesis using ys(2,3,4) j' by (intro exI [of _ ys] exI [of _ j']) auto
  qed
qed

text \<open>The part of an array between two positions, \<open>seg l n a\<close> being \<open>a[l], \<dots>, a[l+n-1]\<close>.\<close>

definition seg :: "nat \<Rightarrow> nat \<Rightarrow> 'a list \<Rightarrow> 'a list" where
  "seg l n a = take n (drop l a)"

lemma length_seg [simp]: "l + n \<le> length a \<Longrightarrow> length (seg l n a) = n"
  by (simp add: seg_def)

lemma nth_seg [simp]: "l + n \<le> length a \<Longrightarrow> i < n \<Longrightarrow> seg l n a ! i = a ! (l + i)"
  by (simp add: seg_def)

lemma seg_eqI:
  "l + n \<le> length a \<Longrightarrow> length b = n \<Longrightarrow> (\<And>i. i < n \<Longrightarrow> a ! (l + i) = b ! i) \<Longrightarrow> seg l n a = b"
  by (rule nth_equalityI) simp_all

lemma seg_append: "l + n + m \<le> length a \<Longrightarrow> seg l (n + m) a = seg l n a @ seg (l + n) m a"
  by (rule seg_eqI) (auto simp: nth_append add.assoc)

lemma seg_1 [simp]: "l < length a \<Longrightarrow> seg l (Suc 0) a = [a ! l]"
  by (rule seg_eqI) auto

lemma in_set_seg: "l + n \<le> length a \<Longrightarrow> x \<in> set (seg l n a) \<longleftrightarrow> (\<exists>i. l \<le> i \<and> i < l + n \<and> a ! i = x)"
  by (auto simp: in_set_conv_nth) (metis le_add1 nat_add_left_cancel_less, metis le_add_diff_inverse nat_add_left_cancel_less nth_seg)

lemma idl_elems_seg: "idl_elems ids = seg 1 (unat (ids ! 0)) ids"
  by (simp add: idl_elems_def seg_def)

lemma xmerge_loop_eq:
  assumes "idl ! 0 = - 1" "i < length mg" "i + j < length idl"
    "sorted_wrt (\<ge>) (seg 1 j idl)" "sorted_wrt (\<ge>) (seg 1 i mg)"
  shows "\<exists>ys. xmerge_loop idl mg i j (i + j) (idl ! j) = Some ys \<and> length ys = length idl \<and>
    ys ! 0 = - 1 \<and> (\<forall>p. i + j < p \<and> p < length idl \<longrightarrow> ys ! p = idl ! p) \<and>
    sorted_wrt (\<ge>) (seg 1 (i + j) ys) \<and>
    mset (seg 1 (i + j) ys) = mset (seg 1 i mg) + mset (seg 1 j idl)"
  using assms
proof (induction i arbitrary: idl j)
  case 0
  then show ?case by (subst xmerge_loop.simps) (auto simp: seg_def)
next
  case (Suc i)
  let ?m = "mg ! Suc i" and ?k = "Suc i + j"
  obtain s j' where s: "xmerge_shift idl j ?k (idl ! j) ?m = Some (s, j', ?k - (j - j'), idl ! j')"
    "j' \<le> j" "length s = length idl" "idl ! j' \<ge> ?m" "\<forall>p. j' < p \<and> p \<le> j \<longrightarrow> idl ! p < ?m"
    "\<forall>p < length idl. s ! p = (if ?k - (j - j') < p \<and> p \<le> ?k then idl ! (p - (?k - j)) else idl ! p)"
    using xmerge_shift_eq [of j ?k idl "idl ! j" ?m] Suc.prems by auto
  define k' where "k' = Suc i + j'"
  have k': "?k - (j - j') = k'" using s(2) by (simp add: k'_def)
  define T where "T = s[k' := ?m]"
  have t: "T ! p = (if p = k' then ?m else if k' < p \<and> p \<le> ?k then idl ! (p - Suc i) else idl ! p)"
    if "p < length idl" for p
    using that s(3,6) k' by (auto simp: T_def nth_list_update)
  have lent: "length T = length idl" using s(3) by (simp add: T_def)
  have lo: "seg 1 j' T = seg 1 j' idl"
    by (rule seg_eqI) (use Suc.prems s(2,3) lent t in \<open>auto simp: k'_def\<close>)
  have sj: "seg 1 j idl = seg 1 j' idl @ seg (1 + j') (j - j') idl"
    using seg_append [of 1 j' "j - j'" idl] s(2) Suc.prems(3) by simp
  have si: "seg 1 (Suc i) mg = seg 1 i mg @ [?m]"
    using seg_append [of 1 i 1 mg] Suc.prems(2) by simp
  have so: "sorted_wrt (\<ge>) (seg 1 j' idl)" "sorted_wrt (\<ge>) (seg 1 i mg)"
    "\<forall>x \<in> set (seg 1 i mg). x \<ge> ?m" "sorted_wrt (\<ge>) (seg (1 + j') (j - j') idl)"
    using Suc.prems(4,5) unfolding sj si by (auto simp: sorted_wrt_append)
  have ge: "\<forall>x \<in> set (seg 1 j' idl). x \<ge> ?m"
  proof
    fix x assume "x \<in> set (seg 1 j' idl)"
    then obtain p where p: "1 \<le> p" "p < 1 + j'" "idl ! p = x"
      using in_set_seg [of 1 j' idl x] Suc.prems(3) s(2) by auto
    have "seg 1 j' idl ! (j' - 1) \<le> seg 1 j' idl ! (p - 1)"
      using sorted_wrt_nth_less [OF so(1), of "p - 1" "j' - 1"] p Suc.prems(3) s(2)
      by (cases "p = j'") auto
    then have "idl ! j' \<le> idl ! p" using p Suc.prems(3) s(2) by simp
    with s(4) p(3) show "x \<ge> ?m" by simp
  qed
  have "0 < length idl" using Suc.prems(3) by linarith
  from t [OF this] have t0: "T ! 0 = - 1" using Suc.prems(1) by (simp add: k'_def)
  have tj: "T ! j' = idl ! j'" using t [of j'] s(2) Suc.prems(3) by (auto simp: k'_def)
  have pr: "i < length mg" "i + j' < length T" "sorted_wrt (\<ge>) (seg 1 j' T)"
    using Suc.prems s(2) lent so(1) lo by simp_all
  obtain ys where ys: "xmerge_loop T mg i j' (i + j') (idl ! j') = Some ys" "length ys = length idl"
    "ys ! 0 = - 1" "\<forall>p. i + j' < p \<and> p < length idl \<longrightarrow> ys ! p = T ! p"
    "sorted_wrt (\<ge>) (seg 1 (i + j') ys)"
    "mset (seg 1 (i + j') ys) = mset (seg 1 i mg) + mset (seg 1 j' idl)"
    using Suc.IH [OF t0 pr(1,2,3) so(2)] unfolding tj lent lo by blast
  have k'l: "k' < length s" using s(2,3) Suc.prems(3) by (simp add: k'_def)
  have run: "xmerge_loop idl mg (Suc i) j ?k (idl ! j) = Some ys"
    using Suc.prems(2) s(1) k' k'l ys(1) by (subst xmerge_loop.simps) (simp add: k'_def T_def)
  have hi: "seg (1 + k') (j - j') ys = seg (1 + j') (j - j') idl"
    by (rule seg_eqI) (use Suc.prems(3) s(2) ys(2,4) t in \<open>auto simp: k'_def\<close>)
  have mid: "ys ! k' = ?m" using ys(4) t [of k'] k'l s(3) by (simp add: k'_def)
  have all: "seg 1 ?k ys = seg 1 (i + j') ys @ [?m] @ seg (1 + j') (j - j') idl"
  proof -
    have "?k = (i + j') + 1 + (j - j')" using s(2) by simp
    then have "seg 1 ?k ys = (seg 1 (i + j') ys @ seg (1 + (i + j')) 1 ys) @ seg (1 + (i + j') + 1) (j - j') ys"
      using seg_append [of 1 "i + j' + 1" "j - j'" ys] seg_append [of 1 "i + j'" 1 ys]
        Suc.prems(3) ys(2) s(2) by (simp add: add.assoc)
    then show ?thesis using hi mid k'l s(3) ys(2) by (simp add: k'_def)
  qed
  have "\<forall>x \<in> set (seg (1 + j') (j - j') idl). x < ?m"
    using in_set_seg [of "1 + j'" "j - j'" idl] s(2,5) Suc.prems(3) by auto
  moreover have "\<forall>x \<in> set (seg 1 (i + j') ys). x \<ge> ?m"
  proof -
    have "set (seg 1 (i + j') ys) = set (seg 1 i mg) \<union> set (seg 1 j' idl)"
      using ys(6) by (metis set_mset_mset set_mset_union)
    then show ?thesis using so(3) ge by auto
  qed
  ultimately have "sorted_wrt (\<ge>) (seg 1 ?k ys)"
    unfolding all using ys(5) so(4) by (force simp: sorted_wrt_append)
  moreover have "mset (seg 1 ?k ys) = mset (seg 1 (Suc i) mg) + mset (seg 1 j idl)"
    unfolding all si sj using ys(6) by simp
  moreover have "ys ! p = idl ! p" if "?k < p" "p < length idl" for p
    using ys(4) t [of p] that s(2) by (auto simp: k'_def)
  ultimately show ?case using run ys(2,3) by auto
qed

text \<open>C38: \<open>mdb_midl_xmerge\<close> merges two descending IDLs in place: the result is
  descending and holds exactly the ids of both, with the sentinel in slot 0 replaced by
  the new count; every access stays inside the two arrays.\<close>

theorem midl_xmerge_correct:
  assumes ok: "ids_ok idl" "idl_desc idl" "ids_ok mg" "idl_desc mg"
    and room: "unat (idl ! 0) + unat (mg ! 0) < length idl"
  shows "\<exists>ys. mdb_midl_xmerge idl mg = Some ys \<and> length ys = length idl \<and> ids_ok ys \<and> idl_desc ys \<and>
    mset (idl_elems ys) = mset (idl_elems idl) + mset (idl_elems mg)"
proof -
  let ?i = "unat (mg ! 0)" and ?j = "unat (idl ! 0)"
  let ?d = "idl[0 := - 1]"
  have len: "?j < length idl" "?i < length mg" "0 < length idl" "0 < length mg" "length idl \<le> 2 ^ 31"
    using ok by (auto simp: ids_ok_def)
  have tot: "unat (mg ! 0 + idl ! 0) = ?i + ?j" using len room by (subst unat_add_small) auto
  have sd: "seg 1 ?j ?d = seg 1 ?j idl" by (rule seg_eqI) (use len in auto)
  obtain ys where ys: "xmerge_loop ?d mg ?i ?j (?i + ?j) (?d ! ?j) = Some ys" "length ys = length idl"
    "sorted_wrt (\<ge>) (seg 1 (?i + ?j) ys)" "mset (seg 1 (?i + ?j) ys) = mset (seg 1 ?i mg) + mset (seg 1 ?j idl)"
    using xmerge_loop_eq [of ?d ?i mg ?j] ok room len sd
    by (auto simp: idl_desc_def idl_elems_seg)
  let ?r = "ys[0 := mg ! 0 + idl ! 0]"
  have r0: "?r ! 0 = mg ! 0 + idl ! 0" using ys(2) len by simp
  have sr: "seg 1 (?i + ?j) ?r = seg 1 (?i + ?j) ys" by (rule seg_eqI) (use len room ys(2) in auto)
  have "mdb_midl_xmerge idl mg = Some ?r"
    using ys(1,2) len tot by (simp add: mdb_midl_xmerge_def Let_def)
  moreover have "ids_ok ?r" using r0 tot room len ys(2) by (simp add: ids_ok_def)
  moreover have "idl_elems ?r = seg 1 (?i + ?j) ys" unfolding idl_elems_seg r0 tot using sr by simp
  ultimately show ?thesis using ys by (simp add: idl_desc_def idl_elems_seg add.commute)
qed

theorem midl_xmerge_correct_witness:
  "\<exists>ys. mdb_midl_xmerge [2, 9, 4, 0, 0] [2, 6, 3] = Some ys \<and> idl_desc ys \<and>
    mset (idl_elems ys) = {#9, 4, 6, 3#}"
proof -
  have ok: "ids_ok [2, 9, 4, 0, 0]" "idl_desc [2, 9, 4, 0, 0]" "ids_ok [2, 6, 3]" "idl_desc [2, 6, 3]"
    "unat ([2, 9, 4, 0, 0 :: u64] ! 0) + unat ([2, 6, 3 :: u64] ! 0) < length [2, 9, 4, 0, 0 :: u64]"
    by (simp_all add: ids_ok_def idl_desc_def idl_elems_def)
  show ?thesis using midl_xmerge_correct [OF ok] by (auto simp: idl_elems_def)
qed

section \<open>ID2 lists\<close>

definition mid2l_probe :: "(u64 \<times> 'p) list \<Rightarrow> u64 \<Rightarrow> nat \<Rightarrow> int option" where
  "mid2l_probe ids eid k = do { x \<leftarrow> aget ids k; Some (CMP eid (fst x)) }"

definition mdb_mid2l_search :: "(u64 \<times> 'p) list \<Rightarrow> u64 \<Rightarrow> nat option" where
  "mdb_mid2l_search ids eid = do {
     h \<leftarrow> aget ids 0;
     (_, cursor) \<leftarrow> bsearch_loop (mid2l_probe ids eid) 0 1 0 (unat (fst h) mod 2 ^ 32);
     Some cursor
   }"

text \<open>The test \<open>x <= dl[0].mid && dl[x].mid == pgno\<close>, as every caller writes it.\<close>

definition mid2l_hit :: "(u64 \<times> 'p) list \<Rightarrow> nat \<Rightarrow> u64 \<Rightarrow> bool option" where
  "mid2l_hit ids x eid = do {
     h \<leftarrow> aget ids 0;
     if x \<le> unat (fst h) then do { e \<leftarrow> aget ids x; Some (fst e = eid) } else Some False
   }"

definition mdb_mid2l_insert :: "(u64 \<times> 'p) list \<Rightarrow> u64 \<times> 'p \<Rightarrow> (int \<times> (u64 \<times> 'p) list) option" where
  "mdb_mid2l_insert ids e = do {
     x \<leftarrow> mdb_mid2l_search ids (fst e);
     if x < 1 then Some (- 2, ids)
     else do {
       dup \<leftarrow> mid2l_hit ids x (fst e);
       h \<leftarrow> aget ids 0;
       if dup then Some (- 1, ids)
       else if fst h \<ge> of_nat MDB_IDL_UM_MAX then Some (- 2, ids)
       else do {
         ids1 \<leftarrow> aset ids 0 (fst h + 1, snd h);
         ids2 \<leftarrow> shift_up ids1 (unat (fst h + 1) mod 2 ^ 32) x;
         ids3 \<leftarrow> aset ids2 x e;
         Some (0, ids3)
       }
     }
   }"

definition mdb_mid2l_append :: "(u64 \<times> 'p) list \<Rightarrow> u64 \<times> 'p \<Rightarrow> (int \<times> (u64 \<times> 'p) list) option" where
  "mdb_mid2l_append ids e = do {
     h \<leftarrow> aget ids 0;
     if fst h \<ge> of_nat MDB_IDL_UM_MAX then Some (- 2, ids)
     else do {
       ids1 \<leftarrow> aset ids 0 (fst h + 1, snd h);
       ids2 \<leftarrow> aset ids1 (unat (fst h + 1)) e;
       Some (0, ids2)
     }
   }"

text \<open>An ID2L as an array of \<open>MDB_IDL_UM_SIZE\<close> entries, its live entries, and the
  finite map from ids to pointers it stands for.\<close>

definition id2l_ok :: "(u64 \<times> 'p) list \<Rightarrow> bool" where
  "id2l_ok ids \<longleftrightarrow> length ids = MDB_IDL_UM_MAX + 1 \<and> unat (fst (ids ! 0)) \<le> MDB_IDL_UM_MAX"

definition id2l_elems :: "(u64 \<times> 'p) list \<Rightarrow> (u64 \<times> 'p) list" where
  "id2l_elems ids = seg 1 (unat (fst (ids ! 0))) ids"

definition id2l_asc :: "(u64 \<times> 'p) list \<Rightarrow> bool" where
  "id2l_asc ids \<longleftrightarrow> sorted_wrt (<) (map fst (id2l_elems ids))"

definition id2l_map :: "(u64 \<times> 'p) list \<Rightarrow> u64 \<rightharpoonup> 'p" where
  "id2l_map ids = map_of (id2l_elems ids)"

lemma id2l_okD:
  assumes "id2l_ok ids"
  shows "unat (fst (ids ! 0)) < length ids" "0 < length ids" "unat (fst (ids ! 0)) mod 2 ^ 32 = unat (fst (ids ! 0))"
    "length (id2l_elems ids) = unat (fst (ids ! 0))"
    "k < unat (fst (ids ! 0)) \<Longrightarrow> id2l_elems ids ! k = ids ! Suc k"
  using assms by (auto simp: id2l_ok_def id2l_elems_def)

lemma id2l_asc_nth:
  assumes "id2l_ok ids" "id2l_asc ids" "1 \<le> i" "i < j" "j \<le> unat (fst (ids ! 0))"
  shows "fst (ids ! i) < fst (ids ! j)"
  using sorted_wrt_nth_less [of "(<)" "map fst (id2l_elems ids)" "i - 1" "j - 1"] assms id2l_okD [OF assms(1)]
  by (simp add: id2l_asc_def)

interpretation mid2l: sorted_array mid2l_probe "\<lambda>ids eid k. CMP eid (fst (ids ! k))"
  "\<lambda>ids. unat (fst (ids ! 0))" "\<lambda>ids. id2l_ok ids \<and> id2l_asc ids"
proof
  fix ids :: "(u64 \<times> 'b) list" and k eid
  assume "id2l_ok ids \<and> id2l_asc ids" "1 \<le> k" "k \<le> unat (fst (ids ! 0))"
  then show "mid2l_probe ids eid k = Some (CMP eid (fst (ids ! k)))"
    by (auto simp: mid2l_probe_def id2l_ok_def)
next
  fix ids :: "(u64 \<times> 'b) list" and i j eid
  assume "id2l_ok ids \<and> id2l_asc ids" "1 \<le> i" "i \<le> j" "j \<le> unat (fst (ids ! 0))"
  then have "fst (ids ! i) \<le> fst (ids ! j)"
    using id2l_asc_nth [of ids i j] by (cases "i = j") auto
  then show "sgn (CMP eid (fst (ids ! j))) \<le> sgn (CMP eid (fst (ids ! i)))"
    by (simp add: CMP_anti)
qed

text \<open>The search, its membership test and the map agree.\<close>

lemma id2l_map_Some:
  assumes "id2l_ok ids" "id2l_asc ids"
  shows "id2l_map ids eid = Some q \<longleftrightarrow> (\<exists>k. 1 \<le> k \<and> k \<le> unat (fst (ids ! 0)) \<and> ids ! k = (eid, q))"
proof -
  note D = id2l_okD [OF assms(1)]
  have "distinct (map fst (id2l_elems ids))"
    using assms(2) by (auto simp: id2l_asc_def strict_sorted_iff)
  then have "id2l_map ids eid = Some q \<longleftrightarrow> (eid, q) \<in> set (id2l_elems ids)"
    by (simp add: id2l_map_def)
  also have "\<dots> \<longleftrightarrow> (\<exists>k. 1 \<le> k \<and> k \<le> unat (fst (ids ! 0)) \<and> ids ! k = (eid, q))"
    using in_set_seg [of 1 "unat (fst (ids ! 0))" ids "(eid, q)"] D by (auto simp: id2l_elems_def less_Suc_eq_le)
  finally show ?thesis .
qed

lemma mid2l_search_ok:
  assumes "id2l_ok ids" "id2l_asc ids"
  obtains x where "mdb_mid2l_search ids eid = Some x" "1 \<le> x" "x \<le> Suc (unat (fst (ids ! 0)))"
    "\<And>k. 1 \<le> k \<Longrightarrow> k < x \<Longrightarrow> fst (ids ! k) < eid"
    "\<And>k. x \<le> k \<Longrightarrow> k \<le> unat (fst (ids ! 0)) \<Longrightarrow> fst (ids ! k) \<ge> eid"
    "mid2l_hit ids x eid = Some (id2l_map ids eid \<noteq> None)"
    "id2l_map ids eid \<noteq> None \<Longrightarrow> x \<le> unat (fst (ids ! 0)) \<and> ids ! x = (eid, the (id2l_map ids eid))"
proof -
  let ?n = "unat (fst (ids ! 0))"
  note D = id2l_okD [OF assms(1)]
  obtain b c where s: "bsearch_loop (mid2l_probe ids eid) 0 1 0 ?n = Some (b, c)"
    "1 \<le> c" "c \<le> Suc ?n" "b \<Longrightarrow> c \<le> ?n \<and> CMP eid (fst (ids ! c)) = 0"
    "\<And>k. \<not> b \<Longrightarrow> 1 \<le> k \<Longrightarrow> k < c \<Longrightarrow> CMP eid (fst (ids ! k)) > 0"
    "\<And>k. \<not> b \<Longrightarrow> c \<le> k \<Longrightarrow> k \<le> ?n \<Longrightarrow> CMP eid (fst (ids ! k)) < 0"
    by (rule mid2l.bsearch_correct [of ids eid]) (use assms in auto)
  have run: "mdb_mid2l_search ids eid = Some c"
    using s(1) D by (simp add: mdb_mid2l_search_def)
  have lo: "fst (ids ! k) < eid" if "1 \<le> k" "k < c" for k
    using s(4) s(5) [OF _ that] that id2l_asc_nth [OF assms that(1,2)] by (cases b) auto
  have hi: "fst (ids ! k) \<ge> eid" if "c \<le> k" "k \<le> ?n" for k
    using s(2,4) s(6) [OF _ that] that id2l_asc_nth [OF assms s(2), of k] by (cases b; cases "k = c") auto
  have some: "id2l_map ids eid \<noteq> None \<longleftrightarrow> b"
  proof
    assume "id2l_map ids eid \<noteq> None"
    then obtain q where "id2l_map ids eid = Some q" by blast
    then obtain k where k: "1 \<le> k" "k \<le> ?n" "ids ! k = (eid, q)"
      using id2l_map_Some [OF assms] by blast
    show b
    proof (rule ccontr)
      assume "\<not> b"
      then show False using s(5) [of k] s(6) [of k] k by (cases "k < c") auto
    qed
  next
    assume b
    then have "ids ! c = (eid, snd (ids ! c))" "c \<le> ?n" using s(4) by (auto simp: prod_eq_iff)
    then have "id2l_map ids eid = Some (snd (ids ! c))" using id2l_map_Some [OF assms] s(2) by blast
    then show "id2l_map ids eid \<noteq> None" by simp
  qed
  have ent: "c \<le> ?n \<and> ids ! c = (eid, the (id2l_map ids eid))" if "id2l_map ids eid \<noteq> None"
  proof -
    have b using that some by simp
    then have e: "c \<le> ?n" "fst (ids ! c) = eid" using s(4) by auto
    then have "id2l_map ids eid = Some (snd (ids ! c))"
      using id2l_map_Some [OF assms, of eid "snd (ids ! c)"] s(2) by (metis prod.collapse)
    with e show ?thesis by (simp add: prod_eq_iff)
  qed
  have hit: "mid2l_hit ids c eid = Some b"
  proof (cases "c \<le> ?n")
    case True
    have "fst (ids ! c) = eid \<longleftrightarrow> b" using s(4) s(6) [OF _ order_refl True] by auto
    with True D show ?thesis by (simp add: mid2l_hit_def)
  next
    case False
    then have "\<not> b" using s(4) by blast
    with False D show ?thesis by (simp add: mid2l_hit_def)
  qed
  show ?thesis
    by (rule that [OF run s(2,3) lo hi]) (use hit some ent in auto)
qed

lemma mid2l_insert_new:
  assumes ok: "id2l_ok ids" "id2l_asc ids" and new: "id2l_map ids (fst e) = None"
    and room: "unat (fst (ids ! 0)) < MDB_IDL_UM_MAX"
  shows "\<exists>ys. mdb_mid2l_insert ids e = Some (0, ys) \<and> id2l_ok ys \<and> id2l_asc ys \<and>
    fst (ys ! 0) = fst (ids ! 0) + 1 \<and> id2l_map ys = (id2l_map ids)(fst e \<mapsto> snd e)"
proof -
  let ?n = "unat (fst (ids ! 0))"
  note D = id2l_okD [OF ok(1)]
  obtain x where x: "mdb_mid2l_search ids (fst e) = Some x" "1 \<le> x" "x \<le> Suc ?n"
    "\<And>k. 1 \<le> k \<Longrightarrow> k < x \<Longrightarrow> fst (ids ! k) < fst e"
    "\<And>k. x \<le> k \<Longrightarrow> k \<le> ?n \<Longrightarrow> fst (ids ! k) \<ge> fst e"
    "mid2l_hit ids x (fst e) = Some False"
    by (rule mid2l_search_ok [OF ok, of "fst e"]) (use new in auto)
  have ne: "fst (ids ! k) \<noteq> fst e" if "1 \<le> k" "k \<le> ?n" for k
    using id2l_map_Some [OF ok, of "fst e" "snd (ids ! k)"] that new by (metis option.simps(3) prod.collapse)
  have n1: "unat (fst (ids ! 0) + 1) = Suc ?n" using room by (subst unat_add_small) auto
  have len: "length ids = 131072" using ok(1) by (simp add: id2l_ok_def)
  let ?h = "ids[0 := (fst (ids ! 0) + 1, snd (ids ! 0))]"
  obtain zs where zs: "shift_up ?h (Suc ?n) x = Some zs" "length zs = length ids"
    "\<forall>k < length ids. zs ! k = (if x < k \<and> k \<le> Suc ?n then ?h ! (k - 1) else ?h ! k)"
    using shift_up_eq [of x "Suc ?n" ?h] x(3) room len by auto
  let ?ys = "zs[x := e]"
  have y: "?ys ! k = (if k = 0 then (fst (ids ! 0) + 1, snd (ids ! 0)) else if k < x then ids ! k
      else if k = x then e else if k \<le> Suc ?n then ids ! (k - 1) else ids ! k)" if "k < length ids" for k
    using zs that x(2) room len by (auto simp: nth_list_update)
  have y0: "?ys ! 0 = (fst (ids ! 0) + 1, snd (ids ! 0))" using y [of 0] D by simp
  have run: "mdb_mid2l_insert ids e = Some (0, ?ys)"
  proof -
    have "\<not> fst (ids ! 0) \<ge> of_nat MDB_IDL_UM_MAX" using room by (simp add: word_le_nat_alt)
    moreover have "Suc ?n mod 4294967296 = Suc ?n" using room by simp
    ultimately show ?thesis
      using x zs D n1 room len by (simp add: mdb_mid2l_insert_def)
  qed
  have ok': "id2l_ok ?ys" using y0 n1 room zs(2) len by (simp add: id2l_ok_def)
  have el: "id2l_elems ?ys = seg 1 (x - 1) ids @ [e] @ seg x (Suc ?n - x) ids"
    unfolding id2l_elems_def y0 fst_conv n1
    by (rule seg_eqI) (use y x(2,3) zs(2) room len in \<open>auto simp: nth_append nth_Cons'\<close>)
  have sp: "id2l_elems ids = seg 1 (x - 1) ids @ seg x (Suc ?n - x) ids"
    using seg_append [of 1 "x - 1" "Suc ?n - x" ids] x(2,3) D by (simp add: id2l_elems_def)
  have lt: "\<forall>p \<in> set (seg 1 (x - 1) ids). fst p < fst e"
  proof
    fix p assume "p \<in> set (seg 1 (x - 1) ids)"
    then obtain i where i: "1 \<le> i" "i < x" "ids ! i = p"
      using in_set_seg [of 1 "x - 1" ids p] x(2,3) D(1) by auto
    then show "fst p < fst e" using x(4) [of i] by simp
  qed
  have gt: "\<forall>p \<in> set (seg x (Suc ?n - x) ids). fst e < fst p"
  proof
    fix p assume "p \<in> set (seg x (Suc ?n - x) ids)"
    then obtain i where i: "x \<le> i" "i \<le> ?n" "ids ! i = p"
      using in_set_seg [of x "Suc ?n - x" ids p] x(2,3) D(1) by auto
    then show "fst e < fst p" using x(5) [of i] ne [of i] x(2) by (simp add: less_le)
  qed
  have "id2l_asc ?ys"
    using ok(2) lt gt unfolding id2l_asc_def el sp by (auto simp: sorted_wrt_append)
  moreover have "id2l_map ?ys = (id2l_map ids)(fst e \<mapsto> snd e)"
  proof -
    have "map_of (seg 1 (x - 1) ids) (fst e) = None"
      using lt by (force simp: map_of_eq_None_iff)
    then show ?thesis unfolding id2l_map_def el sp
      by (auto simp: map_add_def fun_eq_iff split: option.splits)
  qed
  ultimately show ?thesis using run ok' y0 by auto
qed

text \<open>C27: \<open>mdb_mid2l_insert\<close> keeps a sorted ID2L sorted and well formed and adds exactly
  the new pair to the map it represents; an id that is already there is refused with \<open>-1\<close>
  and a full list with \<open>-2\<close>, both leaving the list unchanged.\<close>

theorem mid2l_insert_correct:
  assumes "id2l_ok ids" "id2l_asc ids"
  shows "\<exists>rc ys. mdb_mid2l_insert ids e = Some (rc, ys) \<and> id2l_ok ys \<and> id2l_asc ys \<and>
    (if id2l_map ids (fst e) \<noteq> None then rc = - 1 \<and> ys = ids
     else if unat (fst (ids ! 0)) = MDB_IDL_UM_MAX then rc = - 2 \<and> ys = ids
     else rc = 0 \<and> id2l_map ys = (id2l_map ids)(fst e \<mapsto> snd e))"
proof (cases "id2l_map ids (fst e) = None \<and> unat (fst (ids ! 0)) < MDB_IDL_UM_MAX")
  case True
  then show ?thesis using mid2l_insert_new [OF assms, of e] by auto
next
  case False
  note D = id2l_okD [OF assms(1)]
  obtain x where x: "mdb_mid2l_search ids (fst e) = Some x" "1 \<le> x"
    "mid2l_hit ids x (fst e) = Some (id2l_map ids (fst e) \<noteq> None)"
    using mid2l_search_ok [OF assms, of "fst e"] by metis
  have le: "unat (fst (ids ! 0)) \<le> MDB_IDL_UM_MAX" using assms(1) by (simp add: id2l_ok_def)
  with False have "id2l_map ids (fst e) = None \<Longrightarrow> fst (ids ! 0) \<ge> of_nat MDB_IDL_UM_MAX"
    by (auto simp: word_le_nat_alt)
  then show ?thesis using False le x D assms by (auto simp: mdb_mid2l_insert_def)
qed

theorem mid2l_insert_correct_witness:
  "\<exists>rc ys. mdb_mid2l_insert ((2, False) # (3, True) # (8, False) # replicate 131069 (0, False)) (5, True) =
      Some (rc, ys) \<and> rc = 0 \<and> id2l_map ys 5 = Some True \<and> id2l_map ys 8 = Some False"
proof -
  let ?l = "(2, False) # (3, True) # (8, False) # replicate 131069 (0 :: u64, False)"
  have el: "id2l_elems ?l = [(3, True), (8, False)]" by (simp add: id2l_elems_def seg_def)
  have ok: "id2l_ok ?l" "id2l_asc ?l" by (simp add: id2l_ok_def, simp add: id2l_asc_def el)
  show ?thesis
    using mid2l_insert_correct [OF ok, of "(5, True)"] by (auto simp: id2l_map_def el)
qed

end
