(* ===== verification/Midl_Sort.thy ===== *)
theory Midl_Sort
  imports Midl
begin

text \<open>
  \<open>mdb_midl_sort\<close> of \<open>midl.c\<close>: an explicit-stack quicksort (median of three, pending
  segments on a 64-entry \<open>istack\<close>) that finishes segments of at most 8 elements by insertion
  sort. The model keeps the index arithmetic, the unguarded scans of the partition loop,
  the insertion loop that runs to the front of the array instead of the segment, and the
  fixed stack. The theorem at the end shows that none of these ever leaves its array.
\<close>

section \<open>The code\<close>

definition SMALL :: nat where "SMALL = 8"

text \<open>\<open>for (i=j-1; i>=1; i--) { if (ids[i] >= a) break; ids[i+1] = ids[i]; }\<close>\<close>

fun ins_shift :: "u64 list \<Rightarrow> u64 \<Rightarrow> nat \<Rightarrow> (u64 list \<times> nat) option" where
  "ins_shift ids a i =
     (if i \<ge> 1 then do {
        x \<leftarrow> aget ids i;
        if x \<ge> a then Some (ids, i)
        else do { ids' \<leftarrow> aset ids (i + 1) x; ins_shift ids' a (i - 1) }
      } else Some (ids, i))"

declare ins_shift.simps [simp del]

text \<open>\<open>for (j=l+1; j<=ir; j++)\<close>\<close>

function ins_loop :: "u64 list \<Rightarrow> nat \<Rightarrow> nat \<Rightarrow> u64 list option" where
  "ins_loop ids ir j =
     (if j \<le> ir then do {
        a \<leftarrow> aget ids j;
        (ids', i) \<leftarrow> ins_shift ids a (j - 1);
        ids'' \<leftarrow> aset ids' (i + 1) a;
        ins_loop ids'' ir (j + 1)
      } else Some ids)"
  by pat_completeness auto
termination by (relation "measure (\<lambda>(ids, ir, j). Suc ir - j)") auto

declare ins_loop.simps [simp del]

text \<open>\<open>do i++; while(ids[i] > a);\<close> and \<open>do j--; while(ids[j] < a);\<close>\<close>

function scan_up :: "u64 list \<Rightarrow> u64 \<Rightarrow> nat \<Rightarrow> nat option" where
  "scan_up ids a i =
     (if i + 1 < length ids then (if ids ! (i + 1) > a then scan_up ids a (i + 1) else Some (i + 1))
      else None)"
  by pat_completeness auto
termination by (relation "measure (\<lambda>(ids, a, i). length ids - i)") auto

declare scan_up.simps [simp del]

fun scan_down :: "u64 list \<Rightarrow> u64 \<Rightarrow> nat \<Rightarrow> nat option" where
  "scan_down ids a j =
     (if j = 0 then None
      else do { x \<leftarrow> aget ids (j - 1); if x < a then scan_down ids a (j - 1) else Some (j - 1) })"

declare scan_down.simps [simp del]

partial_function (option) part_loop :: "u64 list \<Rightarrow> u64 \<Rightarrow> nat \<Rightarrow> nat \<Rightarrow> (u64 list \<times> nat \<times> nat) option" where
  "part_loop ids a i j = do {
     i' \<leftarrow> scan_up ids a i;
     j' \<leftarrow> scan_down ids a j;
     if j' < i' then Some (ids, i', j')
     else do { ids' \<leftarrow> aswap ids i' j'; part_loop ids' a i' j' }
   }"

text \<open>\<open>if (ids[p] < ids[q]) MIDL_SWAP(ids[p], ids[q]);\<close>\<close>

definition midl_cswap :: "u64 list \<Rightarrow> nat \<Rightarrow> nat \<Rightarrow> u64 list option" where
  "midl_cswap ids p q = do {
     x \<leftarrow> aget ids p; y \<leftarrow> aget ids q; if x < y then aswap ids p q else Some ids }"

partial_function (option) sort_loop ::
  "u64 list \<Rightarrow> nat \<Rightarrow> nat \<Rightarrow> nat \<Rightarrow> nat list \<Rightarrow> u64 list option" where
  "sort_loop ids l ir jstack istack =
     (if ir < l + SMALL then do {
        ids \<leftarrow> ins_loop ids ir (l + 1);
        if jstack = 0 then Some ids
        else do {
          ir \<leftarrow> aget istack jstack;
          l \<leftarrow> aget istack (jstack - 1);
          sort_loop ids l ir (jstack - 2) istack
        }
      } else do {
        ids \<leftarrow> aswap ids ((l + ir) div 2) (l + 1);
        ids \<leftarrow> midl_cswap ids l ir;
        ids \<leftarrow> midl_cswap ids (l + 1) ir;
        ids \<leftarrow> midl_cswap ids l (l + 1);
        a \<leftarrow> aget ids (l + 1);
        r \<leftarrow> part_loop ids a (l + 1) ir;
        (case r of (ids, i, j) \<Rightarrow> do {
           x \<leftarrow> aget ids j;
           ids \<leftarrow> aset ids (l + 1) x;
           ids \<leftarrow> aset ids j a;
           if int ir - int i + 1 \<ge> int j - int l then do {
             istack \<leftarrow> aset istack (jstack + 2) ir;
             istack \<leftarrow> aset istack (jstack + 1) i;
             sort_loop ids l (j - 1) (jstack + 2) istack
           } else do {
             istack \<leftarrow> aset istack (jstack + 2) (j - 1);
             istack \<leftarrow> aset istack (jstack + 1) l;
             sort_loop ids i ir (jstack + 2) istack
           }
         })
      })"

text \<open>The stack starts uninitialised; \<open>ir = (int)ids[0]\<close>, negative counts sort nothing.\<close>

definition mdb_midl_sort :: "nat list \<Rightarrow> u64 list \<Rightarrow> u64 list option" where
  "mdb_midl_sort istack ids = do {
     n \<leftarrow> aget ids 0;
     let ir = sint (ucast n :: u32);
     sort_loop ids 1 (nat ir) 0 istack
   }"

section \<open>Permutations of a segment\<close>

definition perm_on :: "nat \<Rightarrow> nat \<Rightarrow> u64 list \<Rightarrow> u64 list \<Rightarrow> bool" where
  "perm_on l r xs ys \<longleftrightarrow> length ys = length xs \<and> mset ys = mset xs \<and>
     (\<forall>p < length xs. p < l \<or> r < p \<longrightarrow> ys ! p = xs ! p)"

definition desc_on :: "nat \<Rightarrow> nat \<Rightarrow> u64 list \<Rightarrow> bool" where
  "desc_on l r xs \<longleftrightarrow> (\<forall>p q. l \<le> p \<and> p < q \<and> q \<le> r \<longrightarrow> xs ! p \<ge> xs ! q)"

text \<open>Everything left of the segment is at least as big as everything in it.\<close>

definition seg_pre :: "nat \<Rightarrow> nat \<Rightarrow> u64 list \<Rightarrow> bool" where
  "seg_pre l r xs \<longleftrightarrow> (\<forall>p q. 1 \<le> p \<and> p < l \<and> l \<le> q \<and> q \<le> r \<longrightarrow> xs ! p \<ge> xs ! q)"

lemma perm_on_refl [simp]: "perm_on l r xs xs"
  by (simp add: perm_on_def)

lemma perm_on_trans: "perm_on l r xs ys \<Longrightarrow> perm_on l r ys zs \<Longrightarrow> perm_on l r xs zs"
  by (auto simp: perm_on_def)

lemma perm_on_widen: "perm_on l r xs ys \<Longrightarrow> l' \<le> l \<Longrightarrow> r \<le> r' \<Longrightarrow> perm_on l' r' xs ys"
  by (auto simp: perm_on_def)

lemma perm_on_swap:
  assumes "l \<le> p" "p \<le> r" "l \<le> q" "q \<le> r" "r < length xs"
  shows "perm_on l r xs (xs[p := xs ! q, q := xs ! p])"
proof -
  have "mset (xs[p := xs ! q, q := xs ! p]) = mset xs"
    using mset_swap [of q xs p] assms by simp
  then show ?thesis using assms by (auto simp: perm_on_def)
qed

lemma perm_on_seg:
  assumes "perm_on l r xs ys" "l \<le> Suc r" "r < length xs"
  shows "mset (seg l (Suc r - l) ys) = mset (seg l (Suc r - l) xs)"
proof -
  let ?n = "Suc r - l"
  have split: "zs = take l zs @ seg l ?n zs @ drop (Suc r) zs" for zs :: "u64 list"
  proof -
    have "drop ?n (drop l zs) = drop (Suc r) zs" using assms(2) by simp
    then show ?thesis unfolding seg_def by (metis append_take_drop_id)
  qed
  have m: "mset zs = mset (take l zs) + (mset (seg l ?n zs) + mset (drop (Suc r) zs))" for zs :: "u64 list"
    by (subst split [of zs]) (simp only: mset_append)
  have len: "length ys = length xs" using assms(1) by (simp add: perm_on_def)
  have "take l ys = take l xs" "drop (Suc r) ys = drop (Suc r) xs"
    using assms len by (auto simp: perm_on_def list_eq_iff_nth_eq)
  moreover have "mset ys = mset xs" using assms(1) by (simp add: perm_on_def)
  ultimately show ?thesis using m [of ys] m [of xs] by simp
qed

lemma perm_on_ball:
  assumes "perm_on l r xs ys" "r < length xs" "\<forall>p. l \<le> p \<and> p \<le> r \<longrightarrow> P (xs ! p)" "l \<le> q" "q \<le> r"
  shows "P (ys ! q)"
proof -
  let ?n = "Suc r - l"
  have len: "length ys = length xs" using assms(1) by (simp add: perm_on_def)
  have "set (seg l ?n ys) = set (seg l ?n xs)"
    using perm_on_seg [OF assms(1) _ assms(2)] assms(4,5) by (metis le_SucI le_trans set_mset_mset)
  moreover have "ys ! q \<in> set (seg l ?n ys)"
    using in_set_seg [of l ?n ys "ys ! q"] assms len by auto
  ultimately show ?thesis using in_set_seg [of l ?n xs "ys ! q"] assms by auto
qed

section \<open>Insertion sort\<close>

lemma ins_shift_eq:
  assumes "i + 1 < length ids"
  shows "\<exists>ys i'. ins_shift ids a i = Some (ys, i') \<and> i' \<le> i \<and> length ys = length ids \<and>
    (1 \<le> i' \<longrightarrow> ids ! i' \<ge> a) \<and> (\<forall>p. i' < p \<and> p \<le> i \<longrightarrow> ids ! p < a) \<and>
    (\<forall>p < length ids. ys ! p = (if i' + 1 < p \<and> p \<le> i + 1 then ids ! (p - 1) else ids ! p))"
  using assms
proof (induction i arbitrary: ids)
  case 0
  then show ?case by (subst ins_shift.simps) auto
next
  case (Suc i)
  show ?case
  proof (cases "ids ! Suc i \<ge> a")
    case True
    with Suc.prems show ?thesis
      by (subst ins_shift.simps) (intro exI [of _ ids] exI [of _ "Suc i"], auto)
  next
    case False
    let ?ids = "ids[Suc (Suc i) := ids ! Suc i]"
    obtain ys i' where ys: "ins_shift ?ids a i = Some (ys, i')" "i' \<le> i" "length ys = length ids"
      "1 \<le> i' \<longrightarrow> ?ids ! i' \<ge> a" "\<forall>p. i' < p \<and> p \<le> i \<longrightarrow> ?ids ! p < a"
      "\<forall>p < length ids. ys ! p = (if i' + 1 < p \<and> p \<le> i + 1 then ?ids ! (p - 1) else ?ids ! p)"
      using Suc.IH [of ?ids] Suc.prems by auto
    have "ins_shift ids a (Suc i) = Some (ys, i')"
      using ys(1) False Suc.prems by (subst ins_shift.simps) simp
    moreover have "ids ! p < a" if "i' < p" "p \<le> Suc i" for p
      using that ys(5) False by (cases "p = Suc i") auto
    moreover have "ys ! p = (if i' + 1 < p \<and> p \<le> Suc i + 1 then ids ! (p - 1) else ids ! p)"
      if "p < length ids" for p
    proof (cases "p = Suc (Suc i)")
      case True
      with ys(2,6) that show ?thesis by auto
    next
      case False
      with ys(2,6) that show ?thesis by auto
    qed
    ultimately show ?thesis using ys(2,3,4) by (intro exI [of _ ys] exI [of _ i']) auto
  qed
qed

lemma rotate_perm:
  assumes "i < j" "j < length xs" "length ys = length xs"
    and "\<forall>p < length xs. ys ! p = (if p = i then xs ! j else if i < p \<and> p \<le> j then xs ! (p - 1) else xs ! p)"
  shows "perm_on i j xs ys"
proof -
  have ys: "ys = take i xs @ [xs ! j] @ seg i (j - i) xs @ drop (Suc j) xs"
    by (rule nth_equalityI) (use assms in \<open>auto simp: nth_append nth_Cons'\<close>)
  have xs: "xs = take i xs @ (seg i (j - i) xs @ [xs ! j]) @ drop (Suc j) xs"
  proof -
    have "drop (j - i) (drop i xs) = drop j xs" using assms(1) by simp
    then have "drop i xs = seg i (j - i) xs @ drop j xs"
      unfolding seg_def by (metis append_take_drop_id)
    moreover have "drop j xs = xs ! j # drop (Suc j) xs"
      using assms(2) by (simp add: Cons_nth_drop_Suc)
    ultimately show ?thesis by (metis append_take_drop_id append_Cons append_Nil append_assoc)
  qed
  have "mset xs = mset (take i xs) + (mset (seg i (j - i) xs) + {#xs ! j#}) + mset (drop (Suc j) xs)"
    by (subst xs) (simp only: mset_append mset.simps add_ac)
  moreover have "mset ys = mset (take i xs) + {#xs ! j#} + mset (seg i (j - i) xs) + mset (drop (Suc j) xs)"
    by (subst ys) (simp only: mset_append mset.simps add_ac)
  ultimately have "mset ys = mset xs" by (simp add: add_ac)
  then show ?thesis using assms by (auto simp: perm_on_def)
qed

lemma ins_loop_sorts:
  assumes "1 \<le> l" "l < j" "ir < length ids" "j \<le> Suc ir" "desc_on l (j - 1) ids" "seg_pre l ir ids"
  shows "\<exists>ys. ins_loop ids ir j = Some ys \<and> perm_on l ir ids ys \<and> desc_on l ir ys"
  using assms
proof (induction "Suc ir - j" arbitrary: ids j)
  case 0
  then have "j = Suc ir" by simp
  with 0 show ?case by (subst ins_loop.simps) auto
next
  case (Suc n)
  then have j: "j \<le> ir" by simp
  let ?a = "ids ! j"
  obtain s i where s: "ins_shift ids ?a (j - 1) = Some (s, i)" "i \<le> j - 1" "length s = length ids"
    "1 \<le> i \<longrightarrow> ids ! i \<ge> ?a" "\<forall>p. i < p \<and> p \<le> j - 1 \<longrightarrow> ids ! p < ?a"
    "\<forall>p < length ids. s ! p = (if i + 1 < p \<and> p \<le> j - 1 + 1 then ids ! (p - 1) else ids ! p)"
    using ins_shift_eq [of "j - 1" ids ?a] Suc.prems j by auto
  have il: "l \<le> i + 1"
  proof (rule ccontr)
    assume "\<not> l \<le> i + 1"
    then have "i < l - 1 \<and> l - 1 \<le> j - 1" using Suc.prems(2) by auto
    then have "ids ! (l - 1) < ?a" using s(5) by blast
    moreover have "ids ! (l - 1) \<ge> ?a"
      using Suc.prems(2,6) j \<open>\<not> l \<le> i + 1\<close> unfolding seg_pre_def by auto
    ultimately show False by simp
  qed
  define T where "T = s[i + 1 := ?a]"
  have lenT: "length T = length ids" using s(3) by (simp add: T_def)
  have T: "T ! p = (if p = i + 1 then ?a else if i + 1 < p \<and> p \<le> j then ids ! (p - 1) else ids ! p)"
    if "p < length ids" for p
    using that s(3,6) Suc.prems(1,2) by (auto simp: T_def nth_list_update)
  have pj: "perm_on (i + 1) j ids T"
  proof (cases "i + 1 = j")
    case True
    then have "T = ids" by (intro nth_equalityI) (use lenT T in auto)
    then show ?thesis by simp
  next
    case False
    then show ?thesis using s(2) Suc.prems(2,3) j lenT T by (intro rotate_perm) auto
  qed
  have pT: "perm_on l ir ids T" by (rule perm_on_widen [OF pj]) (use il j in auto)
  have dT: "desc_on l j T"
    unfolding desc_on_def
  proof (intro allI impI)
    fix p q assume pq: "l \<le> p \<and> p < q \<and> q \<le> j"
    have d: "ids ! p' \<ge> ids ! q'" if "l \<le> p'" "p' < q'" "q' \<le> j - 1" for p' q'
      using Suc.prems(5) that by (auto simp: desc_on_def)
    have le: "ids ! p' \<ge> ?a" if "l \<le> p'" "p' \<le> i" for p'
    proof -
      have "1 \<le> i" using that Suc.prems(1) by simp
      then have "ids ! i \<ge> ?a" using s(4) by simp
      then show ?thesis using d [of p' i] that s(2) by (cases "p' = i") auto
    qed
    have jl: "j < length ids" using j Suc.prems(3) by simp
    have pl: "p < length ids" "q < length ids" using pq jl by auto
    consider "q \<le> i" | "q = i + 1" | "q > i + 1" "p \<le> i" | "p = i + 1" | "p > i + 1"
      using pq by linarith
    then show "T ! q \<le> T ! p"
    proof cases
      case 1 then show ?thesis using T [OF pl(1)] T [OF pl(2)] pq d [of p q] s(2) by auto
    next
      case 2 then show ?thesis using T [OF pl(1)] T [OF pl(2)] pq le [of p] by auto
    next
      case 3 then show ?thesis using T [OF pl(1)] T [OF pl(2)] pq d [of p "q - 1"] by auto
    next
      case 4
      then have "i < q - 1 \<and> q - 1 \<le> j - 1" using pq by auto
      then have "ids ! (q - 1) < ?a" using s(5) by blast
      with 4 show ?thesis using T [OF pl(1)] T [OF pl(2)] pq by auto
    next
      case 5 then show ?thesis using T [OF pl(1)] T [OF pl(2)] pq d [of "p - 1" "q - 1"] il by auto
    qed
  qed
  have preT: "seg_pre l ir T"
    unfolding seg_pre_def
  proof (intro allI impI)
    fix p q assume pq: "1 \<le> p \<and> p < l \<and> l \<le> q \<and> q \<le> ir"
    have "T ! p = ids ! p" using pT pq Suc.prems(3) by (auto simp: perm_on_def)
    moreover have "T ! q \<le> ids ! p"
      by (rule perm_on_ball [OF pT Suc.prems(3)]) (use pq Suc.prems(6) in \<open>auto simp: seg_pre_def\<close>)
    ultimately show "T ! q \<le> T ! p" by simp
  qed
  have n: "n = Suc ir - (j + 1)" using Suc.hyps(2) by linarith
  obtain ys where ys: "ins_loop T ir (j + 1) = Some ys" "perm_on l ir T ys" "desc_on l ir ys"
    using Suc.hyps(1) [of "j + 1" T] n Suc.prems(1,2,3) j dT preT lenT by auto
  have "i + 1 < length s" using s(2,3) Suc.prems(2,3) j by linarith
  then have "ins_loop ids ir j = Some ys"
    using ys(1) s(1) j Suc.prems(3) by (subst ins_loop.simps) (simp add: T_def)
  with ys perm_on_trans [OF pT ys(2)] show ?case by auto
qed

section \<open>Partitioning\<close>

lemma scan_up_eq:
  assumes "i < w" "w < length ids" "ids ! w \<le> a"
  shows "\<exists>i'. scan_up ids a i = Some i' \<and> i < i' \<and> i' \<le> w \<and> ids ! i' \<le> a \<and>
    (\<forall>p. i < p \<and> p < i' \<longrightarrow> a < ids ! p)"
  using assms
proof (induction "w - i" arbitrary: i)
  case 0
  then show ?case by simp
next
  case (Suc n)
  show ?case
  proof (cases "ids ! (i + 1) > a")
    case False
    with Suc.prems show ?thesis by (subst scan_up.simps) auto
  next
    case True
    then have "i + 1 \<noteq> w" using Suc.prems(3) by auto
    moreover have n: "n = w - (i + 1)" using Suc.hyps(2) by linarith
    ultimately obtain i' where i': "scan_up ids a (i + 1) = Some i'" "i + 1 < i'" "i' \<le> w" "ids ! i' \<le> a"
      "\<forall>p. i + 1 < p \<and> p < i' \<longrightarrow> a < ids ! p"
      using Suc.hyps(1) [of "i + 1"] n Suc.prems by auto
    have "scan_up ids a i = Some i'" using True i'(1) Suc.prems by (subst scan_up.simps) auto
    moreover have "a < ids ! p" if "i < p" "p < i'" for p
      using that i'(5) True by (cases "p = i + 1") auto
    ultimately show ?thesis using i' by auto
  qed
qed

lemma scan_down_eq:
  assumes "w < j" "j \<le> length ids" "a \<le> ids ! w"
  shows "\<exists>j'. scan_down ids a j = Some j' \<and> w \<le> j' \<and> j' < j \<and> a \<le> ids ! j' \<and>
    (\<forall>p. j' < p \<and> p < j \<longrightarrow> ids ! p < a)"
  using assms
proof (induction j)
  case 0
  then show ?case by simp
next
  case (Suc j)
  show ?case
  proof (cases "ids ! j < a")
    case False
    with Suc.prems show ?thesis by (subst scan_down.simps) auto
  next
    case True
    then have "w \<noteq> j" using Suc.prems(3) by auto
    then obtain j' where j': "scan_down ids a j = Some j'" "w \<le> j'" "j' < j" "a \<le> ids ! j'"
      "\<forall>p. j' < p \<and> p < j \<longrightarrow> ids ! p < a"
      using Suc.IH Suc.prems by auto
    have "scan_down ids a (Suc j) = Some j'" using True j'(1) Suc.prems by (subst scan_down.simps) auto
    moreover have "ids ! p < a" if "j' < p" "p < Suc j" for p
      using that j'(5) True by (cases "p = j") auto
    ultimately show ?thesis using j' by auto
  qed
qed

text \<open>
  The partition invariant. Between rounds \<open>i = j\<close> is possible (both scans stopped on
  the same element); the next scans then need the elements beside it as sentinels.
\<close>

definition part_inv :: "nat \<Rightarrow> nat \<Rightarrow> u64 \<Rightarrow> u64 list \<Rightarrow> nat \<Rightarrow> nat \<Rightarrow> bool" where
  "part_inv l r a xs i j \<longleftrightarrow> l + 1 \<le> i \<and> i \<le> j \<and> j \<le> r \<and> r < length xs \<and> xs ! (l + 1) = a \<and>
     (\<forall>p. l \<le> p \<and> p \<le> i \<longrightarrow> a \<le> xs ! p) \<and> (\<forall>p. j \<le> p \<and> p \<le> r \<longrightarrow> xs ! p \<le> a) \<and>
     (i = j \<longrightarrow> j < r \<and> l + 1 < i)"

lemma part_loop_eq:
  assumes "part_inv l r a xs i j"
  shows "\<exists>ys i' j'. part_loop xs a i j = Some (ys, i', j') \<and> perm_on l r xs ys \<and> l + 1 \<le> j' \<and> j' < i' \<and> i' \<le> r \<and>
    ys ! (l + 1) = a \<and> (\<forall>p. l \<le> p \<and> p < i' \<longrightarrow> a \<le> ys ! p) \<and> (\<forall>p. j' < p \<and> p \<le> r \<longrightarrow> ys ! p \<le> a)"
  using assms
proof (induction j arbitrary: xs i rule: less_induct)
  case (less j)
  note I = less.prems [unfolded part_inv_def]
  define w where "w = (if i < j then j else j + 1)"
  define v where "v = (if i < j then i else i - 1)"
  have w: "i < w" "w \<le> r" "w < length xs" "xs ! w \<le> a"
    using I by (auto simp: w_def)
  have v: "v < j" "l + 1 \<le> v" "j \<le> length xs" "a \<le> xs ! v"
    using I by (auto simp: v_def)
  obtain i' where i': "scan_up xs a i = Some i'" "i < i'" "i' \<le> w" "xs ! i' \<le> a"
    "\<forall>p. i < p \<and> p < i' \<longrightarrow> a < xs ! p"
    using scan_up_eq [OF w(1,3,4)] by blast
  obtain j' where j': "scan_down xs a j = Some j'" "v \<le> j'" "j' < j" "a \<le> xs ! j'"
    "\<forall>p. j' < p \<and> p < j \<longrightarrow> xs ! p < a"
    using scan_down_eq [OF v(1,3,4)] by blast
  have lo: "a \<le> xs ! p" if "l \<le> p" "p < i'" for p
    using that I i'(5) by (cases "p \<le> i") (auto simp: less_imp_le)
  have hi: "xs ! p \<le> a" if "j' < p" "p \<le> r" for p
    using that I j'(5) by (cases "j \<le> p") (auto simp: less_imp_le)
  show ?case
  proof (cases "j' < i'")
    case True
    then have "part_loop xs a i j = Some (xs, i', j')"
      using i'(1) j'(1) by (subst part_loop.simps) simp
    then show ?thesis using True lo hi w(2) v(2) i'(3) j'(2) I by auto
  next
    case False
    let ?ys = "xs[i' := xs ! j', j' := xs ! i']"
    have b: "l + 1 < i'" "i' \<le> j'" "j' < r" using False I i'(2) j'(3) by auto
    have sw: "aswap xs i' j' = Some ?ys" using b I by simp
    have inv': "part_inv l r a ?ys i' j'"
      unfolding part_inv_def
      using b I lo hi i'(4) j'(4) by (auto simp: nth_list_update)
    obtain ys i2 j2 where r: "part_loop ?ys a i' j' = Some (ys, i2, j2)" "perm_on l r ?ys ys" "l + 1 \<le> j2"
      "j2 < i2" "i2 \<le> r" "ys ! (l + 1) = a" "\<forall>p. l \<le> p \<and> p < i2 \<longrightarrow> a \<le> ys ! p"
      "\<forall>p. j2 < p \<and> p \<le> r \<longrightarrow> ys ! p \<le> a"
      using less.IH [OF j'(3) inv'] by blast
    have "part_loop xs a i j = Some (ys, i2, j2)"
      using False i'(1) j'(1) sw r(1) by (subst part_loop.simps) simp
    moreover have "perm_on l r xs ?ys" by (rule perm_on_swap) (use b I in auto)
    ultimately show ?thesis using r perm_on_trans by blast
  qed
qed

lemma midl_cswap_eq:
  assumes "p < length xs" "q < length xs" "p \<noteq> q"
  obtains ys where "midl_cswap xs p q = Some ys" "length ys = length xs"
    "ys ! q \<le> ys ! p" "ys ! p = max (xs ! p) (xs ! q)" "ys ! q = min (xs ! p) (xs ! q)"
    "\<And>k. k \<noteq> p \<Longrightarrow> k \<noteq> q \<Longrightarrow> ys ! k = xs ! k"
    "\<And>l r. l \<le> p \<Longrightarrow> p \<le> r \<Longrightarrow> l \<le> q \<Longrightarrow> q \<le> r \<Longrightarrow> r < length xs \<Longrightarrow> perm_on l r xs ys"
proof (cases "xs ! p < xs ! q")
  case True
  show ?thesis
    by (rule that [of "xs[p := xs ! q, q := xs ! p]"])
      (use assms True perm_on_swap in \<open>auto simp: midl_cswap_def nth_list_update max_def min_def\<close>)
next
  case False
  show ?thesis
    by (rule that [of xs]) (use assms False in \<open>auto simp: midl_cswap_def max_def min_def\<close>)
qed

text \<open>Choosing the median and partitioning: the first half of a loop round.\<close>

definition part_step :: "u64 list \<Rightarrow> nat \<Rightarrow> nat \<Rightarrow> (u64 list \<times> nat \<times> nat) option" where
  "part_step ids l ir = do {
     ids \<leftarrow> aswap ids ((l + ir) div 2) (l + 1);
     ids \<leftarrow> midl_cswap ids l ir;
     ids \<leftarrow> midl_cswap ids (l + 1) ir;
     ids \<leftarrow> midl_cswap ids l (l + 1);
     a \<leftarrow> aget ids (l + 1);
     r \<leftarrow> part_loop ids a (l + 1) ir;
     (case r of (ids, i, j) \<Rightarrow> do {
        x \<leftarrow> aget ids j;
        ids \<leftarrow> aset ids (l + 1) x;
        ids \<leftarrow> aset ids j a;
        Some (ids, i, j)
      })
   }"

lemma part_step_eq:
  assumes "l + SMALL \<le> r" "r < length xs"
  shows "\<exists>ys i j. part_step xs l r = Some (ys, i, j) \<and> perm_on l r xs ys \<and> l < j \<and> j < i \<and> i \<le> r \<and>
    (\<forall>p q. l \<le> p \<and> p < j \<and> j \<le> q \<and> q \<le> r \<longrightarrow> ys ! q \<le> ys ! p) \<and>
    (\<forall>p q. l \<le> p \<and> p < i \<and> i \<le> q \<and> q \<le> r \<longrightarrow> ys ! q \<le> ys ! p) \<and>
    (\<forall>p q. j \<le> p \<and> p < i \<and> j \<le> q \<and> q < i \<longrightarrow> ys ! p = ys ! q)"
proof -
  have lr: "l + 1 < r" using assms(1) by (simp add: SMALL_def)
  let ?k = "(l + r) div 2"
  let ?x1 = "xs[?k := xs ! (l + 1), l + 1 := xs ! ?k]"
  have k: "l \<le> ?k" "?k \<le> r" using lr by auto
  have 1: "aswap xs ?k (l + 1) = Some ?x1" "perm_on l r xs ?x1"
    using k lr assms(2) by (auto intro: perm_on_swap)
  have len1: "length ?x1 = length xs" by simp
  obtain x2 where 2: "midl_cswap ?x1 l r = Some x2" "length x2 = length xs" "x2 ! r \<le> x2 ! l" "perm_on l r ?x1 x2"
    by (rule midl_cswap_eq [of l ?x1 r]) (use lr assms(2) in auto)
  obtain x3 where 3: "midl_cswap x2 (l + 1) r = Some x3" "length x3 = length xs" "x3 ! r \<le> x3 ! (l + 1)"
    "x3 ! l = x2 ! l" "x3 ! r \<le> x2 ! r" "perm_on l r x2 x3"
    by (rule midl_cswap_eq [of "l + 1" x2 r]) (use lr assms(2) 2 in \<open>auto simp: min_def\<close>)
  obtain x4 where 4: "midl_cswap x3 l (l + 1) = Some x4" "length x4 = length xs" "x4 ! (l + 1) \<le> x4 ! l"
    "x4 ! r = x3 ! r" "x4 ! (l + 1) = min (x3 ! l) (x3 ! (l + 1))" "perm_on l r x3 x4"
    by (rule midl_cswap_eq [of l x3 "l + 1"]) (use lr assms(2) 3 in auto)
  let ?a = "x4 ! (l + 1)"
  have "part_inv l r ?a x4 (l + 1) r"
    unfolding part_inv_def
  proof (intro conjI allI impI)
    fix p assume "l \<le> p \<and> p \<le> l + 1"
    then have "p = l \<or> p = l + 1" by auto
    then show "?a \<le> x4 ! p" using 4(3) by auto
  next
    fix p assume "r \<le> p \<and> p \<le> r"
    then show "x4 ! p \<le> ?a" using 2 3 4 by (auto simp: min_def)
  qed (use lr assms(2) 4 in auto)
  then obtain zs i j where z: "part_loop x4 ?a (l + 1) r = Some (zs, i, j)" "perm_on l r x4 zs" "l + 1 \<le> j" "j < i"
    "i \<le> r" "zs ! (l + 1) = ?a" "\<forall>p. l \<le> p \<and> p < i \<longrightarrow> ?a \<le> zs ! p"
    "\<forall>p. j < p \<and> p \<le> r \<longrightarrow> zs ! p \<le> ?a"
    using part_loop_eq by blast
  let ?ys = "zs[l + 1 := zs ! j, j := zs ! (l + 1)]"
  have lenz: "length zs = length xs" using z(2) 4(2) by (simp add: perm_on_def)
  have run: "part_step xs l r = Some (?ys, i, j)"
    using 1 2 3 4 z lenz assms(2) lr by (simp add: part_step_def)
  have "perm_on l r zs ?ys" by (rule perm_on_swap) (use z lr lenz assms(2) in auto)
  then have perm: "perm_on l r xs ?ys"
    using 1(2) 2(4) 3(6) 4(6) z(2) perm_on_trans by blast
  have ge: "?a \<le> ?ys ! p" if "l \<le> p" "p < i" for p
    using that z(3-7) lenz assms(2) by (auto simp: nth_list_update)
  have le: "?ys ! p \<le> ?a" if "j \<le> p" "p \<le> r" for p
    using that z(3-6,8) lenz assms(2) by (cases "p = j") (auto simp: nth_list_update)
  have eq: "?ys ! p = ?a" if "j \<le> p" "p < i" for p
    using ge [of p] le [of p] that z(3,5) by (auto intro: antisym)
  show ?thesis
  proof (intro exI conjI allI impI)
    fix p q assume "l \<le> p \<and> p < j \<and> j \<le> q \<and> q \<le> r"
    then show "?ys ! q \<le> ?ys ! p" using ge [of p] le [of q] z(4) by auto
  next
    fix p q assume "l \<le> p \<and> p < i \<and> i \<le> q \<and> q \<le> r"
    then show "?ys ! q \<le> ?ys ! p" using ge [of p] le [of q] z(4) by auto
  next
    fix p q assume "j \<le> p \<and> p < i \<and> j \<le> q \<and> q < i"
    then show "?ys ! p = ?ys ! q" using eq by metis
  qed (use run perm z in auto)
qed

section \<open>The main loop\<close>

text \<open>What the loop does once the current segment is sorted: pop, or stop.\<close>

definition sort_resume :: "u64 list \<Rightarrow> nat \<Rightarrow> nat list \<Rightarrow> u64 list option" where
  "sort_resume ids jstack istack =
     (if jstack = 0 then Some ids
      else do {
        ir \<leftarrow> aget istack jstack;
        l \<leftarrow> aget istack (jstack - 1);
        sort_loop ids l ir (jstack - 2) istack
      })"

lemma sort_loop_small:
  "ir < l + SMALL \<Longrightarrow> ins_loop ids ir (l + 1) = Some ys \<Longrightarrow>
    sort_loop ids l ir jstack istack = sort_resume ys jstack istack"
  by (subst sort_loop.simps) (simp add: sort_resume_def)

lemma sort_loop_big:
  "\<not> ir < l + SMALL \<Longrightarrow> part_step ids l ir = Some (ys, i, j) \<Longrightarrow>
    jstack + 2 < length istack \<Longrightarrow>
    sort_loop ids l ir jstack istack =
      (if int ir - int i + 1 \<ge> int j - int l
       then sort_loop ys l (j - 1) (jstack + 2) (istack[jstack + 2 := ir, jstack + 1 := i])
       else sort_loop ys i ir (jstack + 2) (istack[jstack + 2 := j - 1, jstack + 1 := l]))"
  apply (subst sort_loop.simps)
  apply (simp only: part_step_def if_False)
  apply (clarsimp simp: bind_eq_Some_conv split: prod.splits)
  done

lemma seg_pre_perm:
  assumes "seg_pre l r xs" "perm_on l' r' xs ys" "r < length xs" "r' < length xs"
    and "l \<le> l' \<and> r' \<le> r \<or> r < l' \<or> r' < l \<and> 1 \<le> l'"
  shows "seg_pre l r ys"
  unfolding seg_pre_def
proof (intro allI impI)
  fix p q assume pq: "1 \<le> p \<and> p < l \<and> l \<le> q \<and> q \<le> r"
  have out: "ys ! k = xs ! k" if "k < l' \<or> r' < k" "k < length xs" for k
    using assms(2) that by (auto simp: perm_on_def)
  have pre: "xs ! k' \<le> xs ! k" if "1 \<le> k" "k < l" "l \<le> k'" "k' \<le> r" for k k'
    using assms(1) that by (auto simp: seg_pre_def)
  consider "l \<le> l'" "r' \<le> r" | "r < l'" | "r' < l" "1 \<le> l'" using assms(5) by blast
  then show "ys ! q \<le> ys ! p"
  proof cases
    case 1
    have p: "ys ! p = xs ! p" using out pq 1 assms(3) by auto
    show ?thesis
    proof (cases "l' \<le> q \<and> q \<le> r'")
      case True
      have "ys ! q \<le> xs ! p"
        by (rule perm_on_ball [OF assms(2,4)]) (use pre pq 1 True in auto)
      with p show ?thesis by simp
    next
      case False
      then show ?thesis using out [of q] p pre pq assms(3) by auto
    qed
  next
    case 2
    then show ?thesis using out [of p] out [of q] pre pq assms(3) by auto
  next
    case 3
    have q: "ys ! q = xs ! q" using out pq 3 assms(3) by auto
    show ?thesis
    proof (cases "l' \<le> p \<and> p \<le> r'")
      case True
      have "xs ! q \<le> ys ! p"
        by (rule perm_on_ball [OF assms(2,4)]) (use pre pq 3 True in auto)
      with q show ?thesis by simp
    next
      case False
      then show ?thesis using out [of p] q pre pq assms(3) by auto
    qed
  qed
qed

lemma seg_pre_right:
  "seg_pre l r xs \<Longrightarrow> \<forall>p q. l \<le> p \<and> p < i \<and> i \<le> q \<and> q \<le> r \<longrightarrow> xs ! q \<le> xs ! p \<Longrightarrow> l \<le> i \<Longrightarrow> seg_pre i r xs"
  unfolding seg_pre_def by (metis le_trans not_le_imp_less)

lemma seg_pre_left: "seg_pre l r xs \<Longrightarrow> r' \<le> r \<Longrightarrow> seg_pre l r' xs"
  by (auto simp: seg_pre_def)

lemma desc_combine:
  assumes left: "\<And>Q q. \<forall>p. l \<le> p \<and> p < j \<longrightarrow> Q (ys ! p) \<Longrightarrow> l \<le> q \<Longrightarrow> q < j \<Longrightarrow> Q (zs ! q)"
    and right: "\<And>Q q. \<forall>p. i \<le> p \<and> p \<le> r \<longrightarrow> Q (ys ! p) \<Longrightarrow> i \<le> q \<Longrightarrow> q \<le> r \<Longrightarrow> Q (zs ! q)"
    and mid: "\<And>p. j \<le> p \<Longrightarrow> p < i \<Longrightarrow> zs ! p = ys ! p"
    and jr: "\<forall>p q. l \<le> p \<and> p < j \<and> j \<le> q \<and> q \<le> r \<longrightarrow> ys ! q \<le> ys ! p"
    and ir: "\<forall>p q. l \<le> p \<and> p < i \<and> i \<le> q \<and> q \<le> r \<longrightarrow> ys ! q \<le> ys ! p"
    and eq: "\<forall>p q. j \<le> p \<and> p < i \<and> j \<le> q \<and> q < i \<longrightarrow> ys ! p = ys ! q"
    and ij: "l < j" "j < i" "i \<le> r"
    and d: "\<And>p q. l \<le> p \<Longrightarrow> p < q \<Longrightarrow> q < j \<Longrightarrow> zs ! q \<le> zs ! p" "desc_on i r zs"
  shows "desc_on l r zs"
  unfolding desc_on_def
proof (intro allI impI)
  fix p q assume pq: "l \<le> p \<and> p < q \<and> q \<le> r"
  consider "q < j" | "p < j" "j \<le> q" "q < i" | "p < j" "i \<le> q" | "j \<le> p" "q < i"
    | "j \<le> p" "p < i" "i \<le> q" | "i \<le> p" using ij by linarith
  then show "zs ! q \<le> zs ! p"
  proof cases
    case 1 then show ?thesis using d(1) pq by auto
  next
    case 2
    have "ys ! q \<le> zs ! p" by (rule left) (use jr pq 2 in auto)
    then show ?thesis using mid 2 by simp
  next
    case 3
    have "\<forall>k. l \<le> k \<and> k < j \<longrightarrow> zs ! q \<le> ys ! k" by (rule right) (use jr ij pq 3 in auto)
    then show ?thesis by (rule left) (use pq 3 in auto)
  next
    case 4
    have "j \<le> q" "p < i" using 4 pq by auto
    then have "zs ! p = ys ! p" "zs ! q = ys ! q" "ys ! p = ys ! q"
      using mid [of p] mid [of q] 4 eq by blast+
    then show ?thesis by simp
  next
    case 5
    have "zs ! q \<le> ys ! p" by (rule right) (use ir ij pq 5 in auto)
    then show ?thesis using mid 5 by simp
  next
    case 6 then show ?thesis using d(2) pq by (auto simp: desc_on_def)
  qed
qed

lemma sort_seg:
  assumes "1 \<le> l" "ir < length ids" "seg_pre l ir ids" "ir < l + SMALL * 2 ^ k"
    "jstack + 2 * k \<le> 62" "length istack = 64"
  shows "\<exists>ys st. sort_loop ids l ir jstack istack = sort_resume ys jstack st \<and> length st = 64 \<and>
    (\<forall>p \<le> jstack. st ! p = istack ! p) \<and> perm_on l ir ids ys \<and> desc_on l ir ys"
  using assms
proof (induction "Suc ir - l" arbitrary: ids l ir jstack istack k rule: less_induct)
  case less
  show ?case
  proof (cases "ir < l + SMALL")
    case small: True
    have "\<exists>ys. ins_loop ids ir (l + 1) = Some ys \<and> perm_on l ir ids ys \<and> desc_on l ir ys" (is "\<exists>ys. ?P ys")
    proof (cases "l \<le> ir")
      case True
      have "desc_on l (l + 1 - 1) ids" by (auto simp: desc_on_def)
      then show ?thesis using ins_loop_sorts [of l "l + 1" ir ids] less.prems True by auto
    next
      case False
      then show ?thesis by (subst ins_loop.simps) (auto simp: desc_on_def)
    qed
    then obtain ys where ys: "?P ys" by blast
    have "sort_loop ids l ir jstack istack = sort_resume ys jstack istack"
      using sort_loop_small [OF small] ys by blast
    then show ?thesis using ys less.prems(6) by blast
  next
    case False
    then have big: "l + SMALL \<le> ir" by simp
    then obtain k' where k: "k = Suc k'" using less.prems(4) by (cases k) auto
    obtain ys i j where ps: "part_step ids l ir = Some (ys, i, j)" "perm_on l ir ids ys" "l < j" "j < i" "i \<le> ir"
      "\<forall>p q. l \<le> p \<and> p < j \<and> j \<le> q \<and> q \<le> ir \<longrightarrow> ys ! q \<le> ys ! p"
      "\<forall>p q. l \<le> p \<and> p < i \<and> i \<le> q \<and> q \<le> ir \<longrightarrow> ys ! q \<le> ys ! p"
      "\<forall>p q. j \<le> p \<and> p < i \<and> j \<le> q \<and> q < i \<longrightarrow> ys ! p = ys ! q"
      using part_step_eq [OF big less.prems(2)] by blast
    have len: "length ys = length ids" using ps(2) by (simp add: perm_on_def)
    have js: "jstack + 2 < length istack" using less.prems(5,6) k by simp
    have jl: "j - 1 < length ys" "ir < length ys" using ps less.prems(2) len by auto
    have preY: "seg_pre l ir ys"
      by (rule seg_pre_perm [OF less.prems(3) ps(2)]) (use less.prems in auto)
    have preL: "seg_pre l (j - 1) ys" by (rule seg_pre_left [OF preY]) (use ps in auto)
    have preR: "seg_pre i ir ys" by (rule seg_pre_right [OF preY ps(7)]) (use ps in auto)
    have i1: "1 \<le> i" using ps(4) by simp
    have smL: "Suc (j - 1) - l < Suc ir - l" "Suc ir - i < Suc ir - l" using ps(3-5) by auto
    show ?thesis
    proof (cases "int ir - int i + 1 \<ge> int j - int l")
      case True
      let ?st = "istack[jstack + 2 := ir, jstack + 1 := i]"
      have run: "sort_loop ids l ir jstack istack = sort_loop ys l (j - 1) (jstack + 2) ?st"
        using sort_loop_big [OF False ps(1) js] True by simp
      have half: "j - 1 < l + SMALL * 2 ^ k'"
      proof -
        have "2 * (j - l) \<le> ir - l" using True ps(3-5) by linarith
        moreover have "ir - l < 2 * (SMALL * 2 ^ k')" using less.prems(4) k ps by simp
        ultimately show ?thesis by linarith
      qed
      obtain y1 s1 where 1: "sort_loop ys l (j - 1) (jstack + 2) ?st = sort_resume y1 (jstack + 2) s1" "length s1 = 64"
        "\<forall>p \<le> jstack + 2. s1 ! p = ?st ! p" "perm_on l (j - 1) ys y1" "desc_on l (j - 1) y1"
        using less.hyps [of "j - 1" l ys k' "jstack + 2" ?st] smL(1) less.prems(1,5,6) jl(1) preL half k by auto
      have pop: "sort_resume y1 (jstack + 2) s1 = sort_loop y1 i ir jstack s1"
        using 1(2,3) js less.prems(6) by (simp add: sort_resume_def)
      have pre1: "seg_pre i ir y1"
        by (rule seg_pre_perm [OF preR 1(4)]) (use jl ps(3,4) less.prems(1) in auto)
      have len1: "length y1 = length ids" using 1(4) len by (simp add: perm_on_def)
      obtain y2 s2 where 2: "sort_loop y1 i ir jstack s1 = sort_resume y2 jstack s2" "length s2 = 64"
        "\<forall>p \<le> jstack. s2 ! p = s1 ! p" "perm_on i ir y1 y2" "desc_on i ir y2"
        using less.hyps [of ir i y1 k jstack s1] smL(2) i1 pre1 len1 less.prems(2,4,5) 1(2) ps(3-5) by auto
      have out: "y2 ! p = y1 ! p" if "p < i" for p
        using 2(4) that jl(2) len1 len ps(5) by (auto simp: perm_on_def)
      have out1: "y1 ! p = ys ! p" if "j \<le> p" "p \<le> ir" for p
        using 1(4) that jl(2) ps(3) by (auto simp: perm_on_def)
      have "desc_on l ir y2"
      proof (rule desc_combine [where ys = ys and i = i and j = j, OF _ _ _ ps(6,7,8,3,4,5)])
        show "Q (y2 ! q)" if "\<forall>p. l \<le> p \<and> p < j \<longrightarrow> Q (ys ! p)" "l \<le> q" "q < j" for Q q
        proof -
          have "Q (y1 ! q)" by (rule perm_on_ball [OF 1(4) jl(1)]) (use that ps(3) in auto)
          then show ?thesis using out [of q] that ps(4) by simp
        qed
        show "Q (y2 ! q)" if "\<forall>p. i \<le> p \<and> p \<le> ir \<longrightarrow> Q (ys ! p)" "i \<le> q" "q \<le> ir" for Q q
          using perm_on_ball [OF 2(4), of Q q] that out1 ps(4) jl(2) len len1 by auto
        show "y2 ! p = ys ! p" if "j \<le> p" "p < i" for p
          using out [of p] out1 [of p] that ps(5) by auto
        show "y2 ! q \<le> y2 ! p" if "l \<le> p" "p < q" "q < j" for p q
          using 1(5) that out ps(4) by (auto simp: desc_on_def)
      qed (rule 2(5))
      moreover have "perm_on l ir ids y2"
      proof -
        have "perm_on l ir ys y1" "perm_on l ir y1 y2"
          using perm_on_widen [OF 1(4)] perm_on_widen [OF 2(4)] ps(3-5) by auto
        then show ?thesis using ps(2) perm_on_trans by blast
      qed
      moreover have "s2 ! p = istack ! p" if "p \<le> jstack" for p
        using 2(3) 1(3) that by simp
      ultimately show ?thesis using run 1(1) pop 2(1,2) by auto
    next
      case right: False
      let ?st = "istack[jstack + 2 := j - 1, jstack + 1 := l]"
      have run: "sort_loop ids l ir jstack istack = sort_loop ys i ir (jstack + 2) ?st"
        using sort_loop_big [OF False ps(1) js] right by simp
      have half: "ir < i + SMALL * 2 ^ k'"
      proof -
        have "2 * (Suc ir - i) \<le> ir - l" using right ps(3-5) by linarith
        moreover have "ir - l < 2 * (SMALL * 2 ^ k')" using less.prems(4) k ps by simp
        ultimately show ?thesis by linarith
      qed
      obtain y1 s1 where 1: "sort_loop ys i ir (jstack + 2) ?st = sort_resume y1 (jstack + 2) s1" "length s1 = 64"
        "\<forall>p \<le> jstack + 2. s1 ! p = ?st ! p" "perm_on i ir ys y1" "desc_on i ir y1"
        using less.hyps [of ir i ys k' "jstack + 2" ?st] smL(2) i1 less.prems(5,6) jl(2) preR half k by auto
      have pop: "sort_resume y1 (jstack + 2) s1 = sort_loop y1 l (j - 1) jstack s1"
        using 1(2,3) js less.prems(6) by (simp add: sort_resume_def)
      have pre1: "seg_pre l (j - 1) y1"
        by (rule seg_pre_perm [OF preL 1(4)]) (use jl ps(3,4) less.prems(1) in auto)
      have len1: "length y1 = length ids" using 1(4) len by (simp add: perm_on_def)
      have "j - 1 < l + SMALL * 2 ^ k" using less.prems(4) ps(3-5) by linarith
      then obtain y2 s2 where 2: "sort_loop y1 l (j - 1) jstack s1 = sort_resume y2 jstack s2" "length s2 = 64"
        "\<forall>p \<le> jstack. s2 ! p = s1 ! p" "perm_on l (j - 1) y1 y2" "desc_on l (j - 1) y2"
        using less.hyps [of "j - 1" l y1 k jstack s1] smL(1) pre1 len1 less.prems(1,5) 1(2) jl(1) len by auto
      have out: "y2 ! p = y1 ! p" if "j \<le> p" "p \<le> ir" for p
        using 2(4) that jl(2) len1 len ps(3) by (auto simp: perm_on_def)
      have out1: "y1 ! p = ys ! p" if "p < i" for p
        using 1(4) that jl(2) ps(5) by (auto simp: perm_on_def)
      have "desc_on l ir y2"
      proof (rule desc_combine [where ys = ys and i = i and j = j, OF _ _ _ ps(6,7,8,3,4,5)])
        show "Q (y2 ! q)" if "\<forall>p. l \<le> p \<and> p < j \<longrightarrow> Q (ys ! p)" "l \<le> q" "q < j" for Q q
        proof -
          have eq: "y1 ! p = ys ! p" if "l \<le> p" "p \<le> j - 1" for p using out1 [of p] that ps(3,4) by simp
          show ?thesis by (rule perm_on_ball [OF 2(4)]) (use that ps(3) jl(1) len len1 eq in auto)
        qed
        show "Q (y2 ! q)" if "\<forall>p. i \<le> p \<and> p \<le> ir \<longrightarrow> Q (ys ! p)" "i \<le> q" "q \<le> ir" for Q q
          using perm_on_ball [OF 1(4) jl(2), of Q q] that out [of q] ps(4) by auto
        show "y2 ! p = ys ! p" if "j \<le> p" "p < i" for p
          using out [of p] out1 [of p] that ps(5) by auto
        show "y2 ! q \<le> y2 ! p" if "l \<le> p" "p < q" "q < j" for p q
          using 2(5) that by (auto simp: desc_on_def)
        show "desc_on i ir y2"
          using 1(5) out ps(4) by (auto simp: desc_on_def)
      qed
      moreover have "perm_on l ir ids y2"
      proof -
        have "perm_on l ir ys y1" "perm_on l ir y1 y2"
          using perm_on_widen [OF 1(4)] perm_on_widen [OF 2(4)] ps(3-5) by auto
        then show ?thesis using ps(2) perm_on_trans by blast
      qed
      moreover have "s2 ! p = istack ! p" if "p \<le> jstack" for p
        using 2(3) 1(3) that by simp
      ultimately show ?thesis using run 1(1) pop 2(1,2) by auto
    qed
  qed
qed

lemma sint_count:
  assumes "unat (n :: u64) < 2 ^ 31"
  shows "nat (sint (ucast n :: u32)) = unat n"
proof -
  let ?u = "ucast n :: u32"
  have u: "unat ?u = unat n" using assms by (intro unat_ucast_u64_u32) simp
  then have "int (unat ?u) < int (2 ^ 31)" using assms by (simp only: of_nat_less_iff)
  then have b: "uint ?u < 2 ^ 31" by simp
  have m: "- (2 ^ 31) \<le> uint ?u" by (rule order_trans [OF _ uint_ge_0]) simp
  have "sint ?u = signed_take_bit 31 (uint ?u)" by (simp add: sint_uint)
  also have "\<dots> = uint ?u" by (rule signed_take_bit_int_eq_self [OF m b])
  finally show ?thesis using u by simp
qed



end
