(* ===== verification/Bytes.thy ===== *)
theory Bytes
  imports Prelude
begin

text \<open>
  Byte memory. A C object (a page, a node, a key) is a list of bytes; an address is
  a block together with an offset in it. Integers are stored little-endian, as on the
  platforms the crate builds for. \<open>load\<close>/\<open>store\<close> are the checked accesses of the
  code; \<open>rd\<close>/\<open>wr\<close> are their raw counterparts, which the lemmas speak about.
\<close>

section \<open>Little-endian integers\<close>

fun le_dec :: "bytes \<Rightarrow> nat" where
  "le_dec [] = 0"
| "le_dec (b # bs) = unat b + 256 * le_dec bs"

fun le_enc :: "nat \<Rightarrow> nat \<Rightarrow> bytes" where
  "le_enc 0 v = []"
| "le_enc (Suc n) v = of_nat v # le_enc n (v div 256)"

lemma length_le_enc [simp]: "length (le_enc n v) = n"
  by (induction n arbitrary: v) auto

lemma unat_byte: "unat (b :: u8) < 256"
  using unsigned_less [of b] by simp

lemma le_dec_less: "le_dec bs < 256 ^ length bs"
proof (induction bs)
  case (Cons b bs)
  have "unat b + 256 * le_dec bs < 256 + 256 * le_dec bs" using unat_byte [of b] by simp
  also have "\<dots> \<le> 256 * 256 ^ length bs" using Cons by simp
  finally show ?case by simp
qed simp

lemma le_dec_enc [simp]: "le_dec (le_enc n v) = v mod 256 ^ n"
proof (induction n arbitrary: v)
  case (Suc n)
  have "unat (of_nat v :: u8) = v mod 256" by (simp add: unsigned_of_nat take_bit_eq_mod)
  then show ?case using Suc by (simp add: mod_mult2_eq)
qed simp

lemma le_enc_dec [simp]: "le_enc (length bs) (le_dec bs) = bs"
proof (induction bs)
  case (Cons b bs)
  have "unat (of_nat (unat b + 256 * le_dec bs) :: u8) = (unat b + 256 * le_dec bs) mod 256"
    by (simp only: unsigned_of_nat take_bit_eq_mod) simp
  also have "\<dots> = unat b" using unat_byte [of b] by simp
  finally have "(of_nat (unat b + 256 * le_dec bs) :: u8) = b"
    by (simp only: word_unat_eq_iff)
  moreover have "(unat b + 256 * le_dec bs) div 256 = le_dec bs"
    using unat_byte [of b] by simp
  ultimately show ?case using Cons by (simp only: le_dec.simps le_enc.simps length_Cons)
qed simp

lemma le_enc_dec': "length bs = n \<Longrightarrow> le_enc n (le_dec bs) = bs"
  using le_enc_dec by blast

lemma le_dec_inj: "length a = length b \<Longrightarrow> le_dec a = le_dec b \<longleftrightarrow> a = b"
  using le_enc_dec by metis

lemma le_enc_eq_iff: "le_enc n a = le_enc n b \<longleftrightarrow> a mod 256 ^ n = b mod 256 ^ n"
  using le_dec_inj [of "le_enc n a" "le_enc n b"] by simp

lemma le_dec_append: "le_dec (a @ b) = le_dec a + 256 ^ length a * le_dec b"
  by (induction a) (auto simp: algebra_simps)

section \<open>Ranges of a block\<close>

definition slice :: "'a list \<Rightarrow> nat \<Rightarrow> nat \<Rightarrow> 'a list" where
  "slice p a n = take n (drop a p)"

definition splice :: "'a list \<Rightarrow> nat \<Rightarrow> 'a list \<Rightarrow> 'a list" where
  "splice p a bs = take a p @ bs @ drop (a + length bs) p"

lemma length_slice [simp]: "a + n \<le> length p \<Longrightarrow> length (slice p a n) = n"
  by (simp add: slice_def)

lemma length_slice_min: "length (slice p a n) = min n (length p - a)"
  by (simp add: slice_def min.commute)

lemma slice_0 [simp]: "slice p a 0 = []"
  by (simp add: slice_def)

lemma slice_all: "length p = n \<Longrightarrow> slice p 0 n = p"
  by (simp add: slice_def)

lemma slice_slice: "b + m \<le> n \<Longrightarrow> slice (slice p a n) b m = slice p (a + b) m"
  by (simp add: slice_def drop_take add.commute)

lemma nth_slice: "i < n \<Longrightarrow> a + n \<le> length p \<Longrightarrow> slice p a n ! i = p ! (a + i)"
  by (simp add: slice_def)

lemma slice_append: "slice p a (m + n) = slice p a m @ slice p (a + m) n"
  by (simp add: slice_def take_add add.commute)

lemma slice_eqI:
  "a + n \<le> length p \<Longrightarrow> b + n \<le> length q \<Longrightarrow> (\<And>i. i < n \<Longrightarrow> p ! (a + i) = q ! (b + i)) \<Longrightarrow>
    slice p a n = slice q b n"
  by (rule nth_equalityI) (auto simp: nth_slice)

lemma length_splice [simp]: "a + length bs \<le> length p \<Longrightarrow> length (splice p a bs) = length p"
  by (simp add: splice_def)

lemma nth_splice:
  "a + length bs \<le> length p \<Longrightarrow> i < length p \<Longrightarrow>
    splice p a bs ! i = (if a \<le> i \<and> i < a + length bs then bs ! (i - a) else p ! i)"
  by (auto simp: splice_def nth_append)

lemma slice_splice_same [simp]:
  "a + length bs \<le> length p \<Longrightarrow> n = length bs \<Longrightarrow> slice (splice p a bs) a n = bs"
  by (rule nth_equalityI) (auto simp: nth_slice nth_splice)

lemma slice_splice_in:
  "a + length bs \<le> length p \<Longrightarrow> a \<le> b \<Longrightarrow> b + n \<le> a + length bs \<Longrightarrow>
    slice (splice p a bs) b n = slice bs (b - a) n"
  by (rule nth_equalityI) (auto simp: nth_slice nth_splice)

lemma slice_splice_disj:
  "a + length bs \<le> length p \<Longrightarrow> b + n \<le> length p \<Longrightarrow> b + n \<le> a \<or> a + length bs \<le> b \<Longrightarrow>
    slice (splice p a bs) b n = slice p b n"
  by (rule nth_equalityI) (auto simp: nth_slice nth_splice)

lemma splice_slice [simp]: "a + n \<le> length p \<Longrightarrow> splice p a (slice p a n) = p"
  by (rule nth_equalityI) (auto simp: nth_slice nth_splice)

lemma splice_splice_same:
  "a + length bs \<le> length p \<Longrightarrow> length cs = length bs \<Longrightarrow> splice (splice p a bs) a cs = splice p a cs"
  by (rule nth_equalityI) (auto simp: nth_splice)

lemma splice_append_after:
  "a + length xs + length ys \<le> length p \<Longrightarrow> splice (splice p a xs) (a + length xs) ys = splice p a (xs @ ys)"
  by (rule nth_equalityI) (auto simp: nth_splice nth_append)

lemma splice_append_before:
  "a + length xs + length ys \<le> length p \<Longrightarrow> splice (splice p (a + length xs) ys) a xs = splice p a (xs @ ys)"
  by (rule nth_equalityI) (auto simp: nth_splice nth_append)

section \<open>Loads and stores\<close>

definition rd :: "bytes \<Rightarrow> nat \<Rightarrow> nat \<Rightarrow> nat" where
  "rd p a n = le_dec (slice p a n)"

definition wr :: "bytes \<Rightarrow> nat \<Rightarrow> nat \<Rightarrow> nat \<Rightarrow> bytes" where
  "wr p a n v = splice p a (le_enc n v)"

definition load :: "bytes \<Rightarrow> nat \<Rightarrow> nat \<Rightarrow> nat option" where
  "load p a n = (if a + n \<le> length p then Some (rd p a n) else None)"

definition store :: "bytes \<Rightarrow> nat \<Rightarrow> nat \<Rightarrow> nat \<Rightarrow> bytes option" where
  "store p a n v = (if a + n \<le> length p then Some (wr p a n v) else None)"

text \<open>\<open>memcpy\<close> out of a block and into a block (\<open>memmove\<close> is the one after the other).\<close>

definition get_bytes :: "'a list \<Rightarrow> nat \<Rightarrow> nat \<Rightarrow> 'a list option" where
  "get_bytes p a n = (if a + n \<le> length p then Some (slice p a n) else None)"

definition put_bytes :: "'a list \<Rightarrow> nat \<Rightarrow> 'a list \<Rightarrow> 'a list option" where
  "put_bytes p a bs = (if a + length bs \<le> length p then Some (splice p a bs) else None)"

definition move_bytes :: "'a list \<Rightarrow> nat \<Rightarrow> nat \<Rightarrow> nat \<Rightarrow> 'a list option" where
  "move_bytes p d s n = do { bs \<leftarrow> get_bytes p s n; put_bytes p d bs }"

lemma load_in [simp, mem_simps]: "a + n \<le> length p \<Longrightarrow> load p a n = Some (rd p a n)"
  by (simp add: load_def)

lemma store_in [simp, mem_simps]: "a + n \<le> length p \<Longrightarrow> store p a n v = Some (wr p a n v)"
  by (simp add: store_def)

lemma get_bytes_in [simp, mem_simps]: "a + n \<le> length p \<Longrightarrow> get_bytes p a n = Some (slice p a n)"
  by (simp add: get_bytes_def)

lemma put_bytes_in [simp, mem_simps]:
  "a + length bs \<le> length p \<Longrightarrow> put_bytes p a bs = Some (splice p a bs)"
  by (simp add: put_bytes_def)

lemma move_bytes_in [simp, mem_simps]:
  "s + n \<le> length p \<Longrightarrow> d + n \<le> length p \<Longrightarrow> move_bytes p d s n = Some (splice p d (slice p s n))"
  by (simp add: move_bytes_def)

lemma length_wr [simp]: "a + n \<le> length p \<Longrightarrow> length (wr p a n v) = length p"
  by (simp add: wr_def)

lemma rd_less: "rd p a n < 256 ^ n"
proof -
  have "rd p a n < 256 ^ length (slice p a n)" unfolding rd_def by (rule le_dec_less)
  also have "\<dots> \<le> 256 ^ n" by (rule power_increasing) (auto simp: length_slice_min)
  finally show ?thesis .
qed

lemma rd_wr_same: "a + n \<le> length p \<Longrightarrow> rd (wr p a n v) a n = v mod 256 ^ n"
  by (simp add: rd_def wr_def)

lemma rd_wr_disj:
  "a + n \<le> length p \<Longrightarrow> b + m \<le> length p \<Longrightarrow> b + m \<le> a \<or> a + n \<le> b \<Longrightarrow> rd (wr p a n v) b m = rd p b m"
  by (simp add: rd_def wr_def slice_splice_disj)

lemma rd_splice_disj:
  "a + length bs \<le> length p \<Longrightarrow> b + m \<le> length p \<Longrightarrow> b + m \<le> a \<or> a + length bs \<le> b \<Longrightarrow>
    rd (splice p a bs) b m = rd p b m"
  by (simp add: rd_def slice_splice_disj)

lemma rd_splice_in:
  "a + length bs \<le> length p \<Longrightarrow> a \<le> b \<Longrightarrow> b + m \<le> a + length bs \<Longrightarrow>
    rd (splice p a bs) b m = rd bs (b - a) m"
  by (simp add: rd_def slice_splice_in)

lemma slice_wr_disj:
  "a + n \<le> length p \<Longrightarrow> b + m \<le> length p \<Longrightarrow> b + m \<le> a \<or> a + n \<le> b \<Longrightarrow>
    slice (wr p a n v) b m = slice p b m"
  by (simp add: wr_def slice_splice_disj)

lemma rd_slice: "b + m \<le> n \<Longrightarrow> rd (slice p a n) b m = rd p (a + b) m"
  by (simp add: rd_def slice_slice)

lemma wr_rd: "a + n \<le> length p \<Longrightarrow> wr p a n (rd p a n) = p"
  by (simp add: wr_def rd_def le_enc_dec')

end
