(* ===== verification/Compare.thy ===== *)
theory Compare
  imports Bytes "HOL-Library.List_Lexorder"
begin

text \<open>
  The key and data comparison functions of \<open>mdb.c\<close> and the choice between them.
  An \<open>MDB_val\<close> is the list of its bytes; reading past it is undefined (\<open>None\<close>).
  The results are the C \<open>int\<close> results, of which callers use the sign only.
\<close>

section \<open>The comparison functions\<close>

fun byte_diff :: "bytes \<Rightarrow> bytes \<Rightarrow> int" where
  "byte_diff (x # xs) (y # ys) = (if x = y then byte_diff xs ys else uint x - uint y)"
| "byte_diff _ _ = 0"

definition memcmp :: "bytes \<Rightarrow> bytes \<Rightarrow> nat \<Rightarrow> int option" where
  "memcmp a b n =
     (if n \<le> length a \<and> n \<le> length b then Some (byte_diff (take n a) (take n b)) else None)"

definition mdb_cmp_long :: "bytes \<Rightarrow> bytes \<Rightarrow> int option" where
  "mdb_cmp_long a b = do {
     x \<leftarrow> load a 0 8; y \<leftarrow> load b 0 8;
     Some (if x < y then -1 else if x > y then 1 else 0) }"

definition mdb_cmp_int :: "bytes \<Rightarrow> bytes \<Rightarrow> int option" where
  "mdb_cmp_int a b = do {
     x \<leftarrow> load a 0 4; y \<leftarrow> load b 0 4;
     Some (if x < y then -1 else if x > y then 1 else 0) }"

text \<open>
  The loop of \<open>mdb_cmp_cint\<close>: \<open>u\<close> and \<open>c\<close> step down together from the end of
  \<open>a\<close>'s size, two bytes at a time; \<open>u\<close> is their common offset.
\<close>

fun cmp_cint_loop :: "bytes \<Rightarrow> bytes \<Rightarrow> nat \<Rightarrow> int option" where
  "cmp_cint_loop a b u =
     (if u < 2 then None
      else do {
        v \<leftarrow> load a (u - 2) 2; w \<leftarrow> load b (u - 2) 2;
        let x = int v - int w in
        if x = 0 \<and> u - 2 > 0 then cmp_cint_loop a b (u - 2) else Some x })"

declare cmp_cint_loop.simps [simp del]

definition mdb_cmp_cint :: "bytes \<Rightarrow> bytes \<Rightarrow> int option" where
  "mdb_cmp_cint a b = cmp_cint_loop a b (length a)"

definition mdb_cmp_memn :: "bytes \<Rightarrow> bytes \<Rightarrow> int option" where
  "mdb_cmp_memn a b = (
     let len_diff = int (length a) - int (length b);
         len = (if len_diff > 0 then length b else length a) mod 2 ^ 32;
         len_diff = (if len_diff > 0 then 1 else len_diff)
     in do {
       diff \<leftarrow> memcmp a b len;
       Some (if diff \<noteq> 0 then diff else if len_diff < 0 then -1 else len_diff) })"

text \<open>\<open>p1\<close>, \<open>p2\<close> are offsets in \<open>a\<close> and \<open>b\<close>, \<open>lim\<close> is \<open>p1_lim\<close>.\<close>

fun cmp_memnr_loop :: "bytes \<Rightarrow> bytes \<Rightarrow> nat \<Rightarrow> nat \<Rightarrow> nat \<Rightarrow> int \<Rightarrow> int option" where
  "cmp_memnr_loop a b lim p1 p2 len_diff =
     (if p1 > lim then
        (if p2 = 0 then None
         else do {
           x \<leftarrow> aget a (p1 - 1); y \<leftarrow> aget b (p2 - 1);
           let diff = uint x - uint y in
           if diff \<noteq> 0 then Some diff else cmp_memnr_loop a b lim (p1 - 1) (p2 - 1) len_diff })
      else Some (if len_diff < 0 then -1 else len_diff))"

declare cmp_memnr_loop.simps [simp del]

definition mdb_cmp_memnr :: "bytes \<Rightarrow> bytes \<Rightarrow> int option" where
  "mdb_cmp_memnr a b = (
     let len_diff = int (length a) - int (length b);
         lim = (if len_diff > 0 then nat len_diff else 0);
         len_diff = (if len_diff > 0 then 1 else len_diff)
     in cmp_memnr_loop a b lim (length a) (length b) len_diff)"

text \<open>
  A comparison function pointer. The code compares such pointers with the addresses
  of its own functions; a function set by the application is \<open>Cmp_user\<close>.
  \<open>mdb_cmp_clong\<close> is another name of \<open>mdb_cmp_long\<close> (\<open>MISALIGNED_OK\<close>).
\<close>

datatype cmp_fn = Cmp_memn | Cmp_memnr | Cmp_int | Cmp_cint | Cmp_long
  | Cmp_user (user_cmp: "bytes \<Rightarrow> bytes \<Rightarrow> int option")

fun call_cmp :: "cmp_fn \<Rightarrow> bytes \<Rightarrow> bytes \<Rightarrow> int option" where
  "call_cmp Cmp_memn = mdb_cmp_memn"
| "call_cmp Cmp_memnr = mdb_cmp_memnr"
| "call_cmp Cmp_int = mdb_cmp_int"
| "call_cmp Cmp_cint = mdb_cmp_cint"
| "call_cmp Cmp_long = mdb_cmp_long"
| "call_cmp (Cmp_user f) = f"

definition is_int :: "cmp_fn \<Rightarrow> bool" where
  "is_int c \<longleftrightarrow> (case c of Cmp_int \<Rightarrow> True | _ \<Rightarrow> False)"

definition is_cint :: "cmp_fn \<Rightarrow> bool" where
  "is_cint c \<longleftrightarrow> (case c of Cmp_cint \<Rightarrow> True | _ \<Rightarrow> False)"

definition NEED_CMP_CLONG :: "cmp_fn \<Rightarrow> nat \<Rightarrow> bool" where
  "NEED_CMP_CLONG c ksize \<longleftrightarrow> is_int c \<and> ksize = 8"

definition MDB_REVERSEKEY :: u16 where "MDB_REVERSEKEY = 0x02"
definition MDB_DUPSORT :: u16 where "MDB_DUPSORT = 0x04"
definition MDB_INTEGERKEY :: u16 where "MDB_INTEGERKEY = 0x08"
definition MDB_DUPFIXED :: u16 where "MDB_DUPFIXED = 0x10"
definition MDB_INTEGERDUP :: u16 where "MDB_INTEGERDUP = 0x20"
definition MDB_REVERSEDUP :: u16 where "MDB_REVERSEDUP = 0x40"
definition MDB_CREATE :: u32 where "MDB_CREATE = 0x40000"

lemmas db_flag_defs = MDB_REVERSEKEY_def MDB_DUPSORT_def MDB_INTEGERKEY_def MDB_DUPFIXED_def
  MDB_INTEGERDUP_def MDB_REVERSEDUP_def

record dbx =
  md_name :: "bytes option"
  md_cmp :: "cmp_fn option"
  md_dcmp :: "cmp_fn option"

text \<open>\<open>None\<close> is a null \<open>md_name.mv_data\<close> or function pointer.\<close>

definition mdb_default_cmp :: "u16 \<Rightarrow> dbx \<Rightarrow> dbx" where
  "mdb_default_cmp f dx = dx\<lparr>
     md_cmp := Some (if f AND MDB_REVERSEKEY \<noteq> 0 then Cmp_memnr
                     else if f AND MDB_INTEGERKEY \<noteq> 0 then Cmp_cint else Cmp_memn),
     md_dcmp := (if \<not> (f AND MDB_DUPSORT \<noteq> 0) then None
                 else Some (if f AND MDB_INTEGERDUP \<noteq> 0
                            then (if f AND MDB_DUPFIXED \<noteq> 0 then Cmp_int else Cmp_cint)
                            else (if f AND MDB_REVERSEDUP \<noteq> 0 then Cmp_memnr else Cmp_memn)))\<rparr>"

definition mdb_cmp :: "dbx \<Rightarrow> bytes \<Rightarrow> bytes \<Rightarrow> int option" where
  "mdb_cmp dx a b = do { c \<leftarrow> md_cmp dx; call_cmp c a b }"

definition mdb_dcmp :: "dbx \<Rightarrow> bytes \<Rightarrow> bytes \<Rightarrow> int option" where
  "mdb_dcmp dx a b = do {
     c \<leftarrow> md_dcmp dx;
     let c = (if NEED_CMP_CLONG c (length a) then Cmp_long else c) in
     call_cmp c a b }"

section \<open>The contract of a comparison function\<close>

text \<open>
  What every caller of a comparison function relies on: on valid keys it returns, and
  the sign of its result is the comparison of the keys' ranks in some linear order.
\<close>

locale key_order =
  fixes cmp :: "bytes \<Rightarrow> bytes \<Rightarrow> int option"
    and valid :: "bytes \<Rightarrow> bool"
    and rank :: "bytes \<Rightarrow> 'k::linorder"
  assumes cmp_rank: "valid a \<Longrightarrow> valid b \<Longrightarrow> \<exists>r. cmp a b = Some r \<and> sgn r = CMP (rank a) (rank b)"
begin

definition keycmp :: "bytes \<Rightarrow> bytes \<Rightarrow> int" where
  "keycmp a b = (case cmp a b of Some r \<Rightarrow> r | None \<Rightarrow> 0)"

lemma cmp_Some: "valid a \<Longrightarrow> valid b \<Longrightarrow> cmp a b = Some (keycmp a b)"
  using cmp_rank [of a b] by (auto simp: keycmp_def)

lemma keycmp_sgn: "valid a \<Longrightarrow> valid b \<Longrightarrow> sgn (keycmp a b) = CMP (rank a) (rank b)"
  using cmp_rank [of a b] by (auto simp: keycmp_def)

lemma keycmp_less: "valid a \<Longrightarrow> valid b \<Longrightarrow> keycmp a b < 0 \<longleftrightarrow> rank a < rank b"
  using keycmp_sgn [of a b] by (auto simp: sgn_if CMP_def split: if_splits)

lemma keycmp_greater: "valid a \<Longrightarrow> valid b \<Longrightarrow> keycmp a b > 0 \<longleftrightarrow> rank b < rank a"
  using keycmp_sgn [of a b] by (auto simp: sgn_if CMP_def split: if_splits)

lemma keycmp_eq: "valid a \<Longrightarrow> valid b \<Longrightarrow> keycmp a b = 0 \<longleftrightarrow> rank a = rank b"
  using keycmp_sgn [of a b] by (auto simp: sgn_if CMP_def split: if_splits)

lemma keycmp_antisym: "valid a \<Longrightarrow> valid b \<Longrightarrow> sgn (keycmp a b) = - sgn (keycmp b a)"
  by (auto simp: keycmp_sgn CMP_def)

lemma keycmp_trans:
  "valid a \<Longrightarrow> valid b \<Longrightarrow> valid c \<Longrightarrow> keycmp a b \<le> 0 \<Longrightarrow> keycmp b c \<le> 0 \<Longrightarrow> keycmp a c \<le> 0"
  by (metis keycmp_greater linorder_not_le order_trans)

end

section \<open>The orders the functions decide\<close>

lemma byte_diff_sgn:
  "length xs = length ys \<Longrightarrow> sgn (byte_diff xs ys) = CMP xs ys"
proof (induction xs ys rule: byte_diff.induct)
  case (1 x xs y ys)
  have u: "(uint x < uint y) = (x < y)" "(uint x = uint y) = (x = y)"
    by (simp_all add: word_less_def word_uint_eq_iff)
  show ?case
  proof (cases "x = y")
    case True
    with 1 show ?thesis by (simp add: CMP_def)
  next
    case False
    with u show ?thesis by (auto simp: CMP_def sgn_if)
  qed
qed (auto simp: CMP_def)

lemma lex_prefix:
  "length xs = length ys \<Longrightarrow> xs \<noteq> ys \<Longrightarrow> (xs @ us < ys @ vs) = (xs < (ys :: 'a::linorder list))"
  by (induction xs ys rule: list_induct2) auto

lemma lex_prefix_same [simp]: "(xs @ us < xs @ vs) = (us < (vs :: 'a::linorder list))"
  by (induction xs) auto

lemma Nil_less: "([] < xs) = (xs \<noteq> ([] :: 'a::linorder list))"
  by (cases xs) auto

lemma take_drop_CMP:
  fixes a b :: "'a::linorder list"
  assumes "n \<le> length a" "n \<le> length b"
  shows "CMP a b = (if take n a = take n b then CMP (drop n a) (drop n b) else CMP (take n a) (take n b))"
proof -
  have a: "take n a @ drop n a = a" and b: "take n b @ drop n b = b" by simp_all
  show ?thesis
  proof (cases "take n a = take n b")
    case True
    have "(a < b) = (drop n a < drop n b)" "(b < a) = (drop n b < drop n a)"
      using lex_prefix_same a b True by metis+
    with True show ?thesis by (simp add: CMP_def)
  next
    case False
    have l: "length (take n a) = length (take n b)" using assms by simp
    have "(a < b) = (take n a < take n b)" "(b < a) = (take n b < take n a)"
      using lex_prefix [OF l False] lex_prefix [OF l [symmetric]] False a b by metis+
    with False show ?thesis by (simp add: CMP_def)
  qed
qed

lemma cmp_memn_rank:
  assumes "length a < 2 ^ 32" "length b < 2 ^ 32"
  shows "\<exists>r. mdb_cmp_memn a b = Some r \<and> sgn r = CMP a b"
proof -
  define n where "n = (if int (length a) - int (length b) > 0 then length b else length a)"
  have n: "n \<le> length a" "n \<le> length b" "n mod 2 ^ 32 = n"
    using assms by (auto simp: n_def)
  have d: "sgn (byte_diff (take n a) (take n b)) = CMP (take n a) (take n b)"
    by (rule byte_diff_sgn) (use n in simp)
  have eq: "byte_diff (take n a) (take n b) = 0 \<longleftrightarrow> take n a = take n b"
    using d CMP_simps(3) by (metis sgn_0 sgn_0_0)
  have e: "mdb_cmp_memn a b = Some (let diff = byte_diff (take n a) (take n b) in
      if diff \<noteq> 0 then diff else if length a < length b then -1 else if length a > length b then 1 else 0)"
    using n by (auto simp: mdb_cmp_memn_def memcmp_def n_def Let_def)
  have tail: "CMP (drop n a) (drop n b) = (if length a < length b then -1 else if length a > length b then 1 else 0)"
    using n(1,2) by (auto simp: n_def CMP_def Nil_less)
  show ?thesis
    using e d tail eq take_drop_CMP [OF n(1,2)] by (auto simp: Let_def)
qed

lemma cmp_memnr_loop_eq:
  assumes "lim \<le> p1" "p1 - lim \<le> p2" "p1 \<le> length a" "p2 \<le> length b"
  shows "cmp_memnr_loop a b lim p1 p2 ld =
    Some (let d = byte_diff (take (p1 - lim) (rev (take p1 a))) (take (p1 - lim) (rev (take p2 b))) in
      if d \<noteq> 0 then d else if ld < 0 then -1 else ld)"
  using assms
proof (induction "p1 - lim" arbitrary: p1 p2)
  case 0
  then show ?case by (subst cmp_memnr_loop.simps) simp
next
  case (Suc n)
  then obtain q1 where q1: "p1 = Suc q1" "lim \<le> q1" "n = q1 - lim" by (cases p1) auto
  from Suc obtain q2 where q2: "p2 = Suc q2" by (cases p2) auto
  have l: "q1 < length a" "q2 < length b" using Suc.prems q1 q2 by auto
  have ta: "rev (take p1 a) = a ! q1 # rev (take q1 a)" "rev (take p2 b) = b ! q2 # rev (take q2 b)"
    using l q1 q2 by (simp_all add: take_Suc_conv_app_nth)
  have n: "p1 - lim = Suc (q1 - lim)" using q1 by simp
  have IH: "cmp_memnr_loop a b lim q1 q2 ld =
    Some (let d = byte_diff (take (q1 - lim) (rev (take q1 a))) (take (q1 - lim) (rev (take q2 b))) in
      if d \<noteq> 0 then d else if ld < 0 then -1 else ld)"
    by (rule Suc.hyps(1)) (use Suc.prems q1 q2 in auto)
  have step: "cmp_memnr_loop a b lim p1 p2 ld =
      (if uint (a ! q1) - uint (b ! q2) \<noteq> 0 then Some (uint (a ! q1) - uint (b ! q2))
       else cmp_memnr_loop a b lim q1 q2 ld)"
    using q1 q2 l by (subst cmp_memnr_loop.simps) (simp add: Let_def)
  show ?case
  proof (cases "a ! q1 = b ! q2")
    case True
    then show ?thesis by (simp add: step IH ta n)
  next
    case False
    then show ?thesis by (simp add: step ta n Let_def word_uint_eq_iff)
  qed
qed

lemma cmp_memnr_rank:
  assumes "length a < 2 ^ 32" "length b < 2 ^ 32"
  shows "mdb_cmp_memnr a b = mdb_cmp_memn (rev a) (rev b)"
proof -
  define d where "d = int (length a) - int (length b)"
  define lim where "lim = (if d > 0 then nat d else 0)"
  define n where "n = (if d > 0 then length b else length a)"
  have n: "length a - lim = n" "n \<le> length a" "n \<le> length b" "n mod 2 ^ 32 = n" "lim \<le> length a"
    using assms by (auto simp: n_def lim_def d_def)
  have "mdb_cmp_memnr a b = cmp_memnr_loop a b lim (length a) (length b) (if d > 0 then 1 else d)"
    by (simp add: mdb_cmp_memnr_def Let_def d_def lim_def)
  also have "\<dots> = Some (let e = byte_diff (take n (rev a)) (take n (rev b)) in
      if e \<noteq> 0 then e else if (if d > 0 then 1 else d) < 0 then -1 else (if d > 0 then 1 else d))"
    using cmp_memnr_loop_eq [of lim "length a" "length b" a b "if d > 0 then 1 else d"] n by simp
  also have "\<dots> = mdb_cmp_memn (rev a) (rev b)"
  proof -
    have "int (length (rev a)) - int (length (rev b)) = d" by (simp add: d_def)
    then have "mdb_cmp_memn (rev a) (rev b) = (do {
        diff \<leftarrow> memcmp (rev a) (rev b) n;
        Some (if diff \<noteq> 0 then diff else if (if d > 0 then 1 else d) < 0 then -1 else (if d > 0 then 1 else d)) })"
      using n(4) by (cases "d > 0") (simp_all add: mdb_cmp_memn_def Let_def n_def)
    then show ?thesis using n(2,3) by (simp add: memcmp_def Let_def)
  qed
  finally show ?thesis .
qed

lemma sgn_eq_CMP: "sgn (r :: int) = CMP x y \<Longrightarrow> (r < 0) = (x < y) \<and> (r = 0) = (x = y)"
  by (cases "r < 0"; cases "r = 0") (auto simp: CMP_def split: if_splits)

lemma CMP_digits:
  assumes "x < (m::nat)" "y < m"
  shows "CMP (x + m * v) (y + m * w) = (if v = w then CMP x y else CMP v w)"
proof -
  have lt: "x' + m * v' < y' + m * w'" if "v' < w'" "x' < m" "y' < m" for x' y' v' w'
  proof -
    have "x' + m * v' < m * Suc v'" using that(2) by simp
    also have "\<dots> \<le> m * w'" using that(1) by (intro mult_le_mono2) simp
    finally show ?thesis by simp
  qed
  consider "v < w" | "w < v" | "v = w" by linarith
  then show ?thesis
  proof cases
    case 1 with lt [OF 1 assms] show ?thesis by (simp add: CMP_def)
  next
    case 2 with lt [OF 2 assms(2,1)] show ?thesis by (simp add: CMP_def)
  next
    case 3 then show ?thesis by (simp add: CMP_def)
  qed
qed

lemma rd_low_high:
  "n + m \<le> length a \<Longrightarrow> rd a 0 (n + m) = rd a 0 n + 256 ^ n * rd a n m"
  by (simp add: rd_def slice_append le_dec_append)

lemma cmp_cint_loop_rank:
  assumes "even u" "0 < u" "u \<le> length a" "u \<le> length b"
  shows "\<exists>r. cmp_cint_loop a b u = Some r \<and> sgn r = CMP (rd a 0 u) (rd b 0 u)"
  using assms
proof (induction u rule: less_induct)
  case (less u)
  define w where "w = u - 2"
  have w: "u = w + 2" "even w" "w + 2 \<le> length a" "w + 2 \<le> length b"
    using less.prems by (auto simp: w_def elim: evenE)
  have step: "cmp_cint_loop a b u =
      (if int (rd a w 2) - int (rd b w 2) = 0 \<and> w > 0 then cmp_cint_loop a b w
       else Some (int (rd a w 2) - int (rd b w 2)))"
    using w by (subst cmp_cint_loop.simps) (simp add: Let_def)
  have b: "rd a 0 w < 256 ^ w" "rd b 0 w < 256 ^ w" by (rule rd_less)+
  have c: "CMP (rd a 0 u) (rd b 0 u) =
      (if rd a w 2 = rd b w 2 then CMP (rd a 0 w) (rd b 0 w) else CMP (rd a w 2) (rd b w 2))"
    using CMP_digits [OF b] w rd_low_high by metis
  show ?case
  proof (cases "rd a w 2 = rd b w 2 \<and> w > 0")
    case True
    then obtain r where "cmp_cint_loop a b w = Some r" "sgn r = CMP (rd a 0 w) (rd b 0 w)"
      using less.IH [of w] w by auto
    then show ?thesis using True step c by auto
  next
    case False
    then have "rd a w 2 \<noteq> rd b w 2 \<or> w = 0" by simp
    then show ?thesis using step c by (auto simp: CMP_def sgn_if rd_def)
  qed
qed

text \<open>C39: \<open>mdb_cmp_memn\<close> decides the lexicographic order of byte strings of any two lengths
  below 4 GB (a proper prefix is smaller), \<open>mdb_cmp_memnr\<close> the same order on the reversed strings.\<close>

theorem cmp_memn_lexicographic:
  assumes "length a < 2 ^ 32" "length b < 2 ^ 32"
  shows "(\<exists>r. mdb_cmp_memn a b = Some r \<and> (r < 0) = (a < b) \<and> (r = 0) = (a = b)) \<and>
    (\<exists>r. mdb_cmp_memnr a b = Some r \<and> (r < 0) = (rev a < rev b) \<and> (r = 0) = (a = b))"
proof -
  have *: "\<exists>r. mdb_cmp_memn a b = Some r \<and> (r < 0) = (a < b) \<and> (r = 0) = (a = b)"
    if l: "length a < 2 ^ 32" "length b < 2 ^ 32" for a b
  proof -
    obtain r where r: "mdb_cmp_memn a b = Some r" "sgn r = CMP a b" using cmp_memn_rank [OF l] by blast
    then show ?thesis using sgn_eq_CMP [OF r(2)] by blast
  qed
  show ?thesis using * [OF assms] * [of "rev a" "rev b"] assms by (simp add: cmp_memnr_rank)
qed

lemma cmp_memn_lexicographic_witness:
  "(\<exists>r. mdb_cmp_memn [1, 2] [1, 2, 0] = Some r \<and> (r < 0) = ([1, 2] < [1, 2, 0 :: u8]) \<and> (r = 0) = ([1, 2] = [1, 2, 0 :: u8])) \<and>
   (\<exists>r. mdb_cmp_memnr [1, 2] [1, 2, 0] = Some r \<and> (r < 0) = (rev [1, 2] < rev [1, 2, 0 :: u8]) \<and> (r = 0) = ([1, 2] = [1, 2, 0 :: u8]))"
  by (rule cmp_memn_lexicographic) simp_all

text \<open>on two integers of the same even size \<open>mdb_cmp_cint\<close>, which walks 16-bit digits from the
  most significant end, decides the order of the little-endian numbers, and agrees there with
  \<open>mdb_cmp_int\<close> (4 bytes) and \<open>mdb_cmp_long\<close> (8 bytes), which branch pages use instead of it.\<close>

theorem cmp_cint_numeric:
  assumes "length a = n" "length b = n" "even n" "0 < n"
  shows "(\<exists>r. mdb_cmp_cint a b = Some r \<and> (r < 0) = (le_dec a < le_dec b) \<and> (r = 0) = (a = b) \<and>
    (n = 4 \<longrightarrow> mdb_cmp_int a b = Some (sgn r)) \<and> (n = 8 \<longrightarrow> mdb_cmp_long a b = Some (sgn r)))"
proof -
  have rd: "rd a 0 n = le_dec a" "rd b 0 n = le_dec b" using assms by (simp_all add: rd_def slice_all)
  obtain r where r: "mdb_cmp_cint a b = Some r" "sgn r = CMP (le_dec a) (le_dec b)"
    using cmp_cint_loop_rank [of n a b] assms rd by (auto simp: mdb_cmp_cint_def)
  have "(r < 0) = (le_dec a < le_dec b)" "(r = 0) = (le_dec a = le_dec b)"
    using sgn_eq_CMP [OF r(2)] by auto
  moreover have "le_dec a = le_dec b \<longleftrightarrow> a = b" using assms by (intro le_dec_inj) simp
  moreover have "n = 4 \<longrightarrow> mdb_cmp_int a b = Some (CMP (le_dec a) (le_dec b))"
    using assms rd by (auto simp: mdb_cmp_int_def CMP_def)
  moreover have "n = 8 \<longrightarrow> mdb_cmp_long a b = Some (CMP (le_dec a) (le_dec b))"
    using assms rd by (auto simp: mdb_cmp_long_def CMP_def)
  ultimately show ?thesis using r by (simp add: Let_def)
qed

lemma cmp_cint_numeric_witness:
  "\<exists>r. mdb_cmp_cint [0xff, 0, 0, 0] [0, 1, 0, 0] = Some r \<and>
    (r < 0) = (le_dec [0xff, 0, 0, 0] < le_dec [0, 1, 0, 0]) \<and> (r = 0) = ([0xff, 0, 0, 0] = [0, 1, 0, 0 :: u8]) \<and>
    ((4::nat) = 4 \<longrightarrow> mdb_cmp_int [0xff, 0, 0, 0] [0, 1, 0, 0] = Some (sgn r)) \<and>
    ((4::nat) = 8 \<longrightarrow> mdb_cmp_long [0xff, 0, 0, 0] [0, 1, 0, 0] = Some (sgn r))"
  by (rule cmp_cint_numeric) simp_all

section \<open>The functions meet the contract\<close>

interpretation memn: key_order mdb_cmp_memn "\<lambda>a. length a < 2 ^ 32" "\<lambda>a. a"
  by unfold_locales (rule cmp_memn_rank)

interpretation memnr: key_order mdb_cmp_memnr "\<lambda>a. length a < 2 ^ 32" rev
  by unfold_locales (simp add: cmp_memnr_rank cmp_memn_rank)

lemma cmp_int_rank: "length a = 4 \<Longrightarrow> length b = 4 \<Longrightarrow>
    \<exists>r. mdb_cmp_int a b = Some r \<and> sgn r = CMP (le_dec a) (le_dec b)"
  by (simp add: mdb_cmp_int_def rd_def slice_all CMP_def)

lemma cmp_long_rank: "length a = 8 \<Longrightarrow> length b = 8 \<Longrightarrow>
    \<exists>r. mdb_cmp_long a b = Some r \<and> sgn r = CMP (le_dec a) (le_dec b)"
  by (simp add: mdb_cmp_long_def rd_def slice_all CMP_def)

lemma cmp_cint_rank: "length a = n \<and> even n \<and> 0 < n \<Longrightarrow> length b = n \<and> even n \<and> 0 < n \<Longrightarrow>
    \<exists>r. mdb_cmp_cint a b = Some r \<and> sgn r = CMP (le_dec a) (le_dec b)"
  using cmp_cint_loop_rank [of n a b] by (auto simp: mdb_cmp_cint_def rd_def slice_all)

interpretation intc: key_order mdb_cmp_int "\<lambda>a. length a = 4" le_dec
  by unfold_locales (rule cmp_int_rank)

interpretation longc: key_order mdb_cmp_long "\<lambda>a. length a = 8" le_dec
  by unfold_locales (rule cmp_long_rank)

interpretation cint: key_order mdb_cmp_cint "\<lambda>a. length a = n \<and> even n \<and> 0 < n" le_dec for n
  by unfold_locales (rule cmp_cint_rank)

end
