(* ===== verification/Page.thy ===== *)
theory Page
  imports Bytes
begin

text \<open>
  The page format of \<open>mdb.c\<close>: \<open>MDB_page\<close>, \<open>MDB_node\<close> and their accessor macros.
  A page is the list of its bytes; the header fields sit at their C offsets and every
  page object is at least \<open>PAGEHDRSZ\<close> bytes long, so header accesses are total. All
  other accesses go through offsets stored in the page and are checked. Offsets and
  sizes are natural numbers, truncated where the C field or type truncates.
\<close>

definition PAGEHDRSZ :: nat where [simp]: "PAGEHDRSZ = 16"
definition NODESIZE :: nat where [simp]: "NODESIZE = 8"

definition P_BRANCH :: u16 where "P_BRANCH = 0x01"
definition P_LEAF :: u16 where "P_LEAF = 0x02"
definition P_OVERFLOW :: u16 where "P_OVERFLOW = 0x04"
definition P_META :: u16 where "P_META = 0x08"
definition P_DIRTY :: u16 where "P_DIRTY = 0x10"
definition P_LEAF2 :: u16 where "P_LEAF2 = 0x20"
definition P_SUBP :: u16 where "P_SUBP = 0x40"
definition P_LOOSE :: u16 where "P_LOOSE = 0x4000"
definition P_KEEP :: u16 where "P_KEEP = 0x8000"

definition F_BIGDATA :: u32 where "F_BIGDATA = 0x01"
definition F_SUBDATA :: u32 where "F_SUBDATA = 0x02"
definition F_DUPDATA :: u32 where "F_DUPDATA = 0x04"
definition MDB_RESERVE :: u32 where "MDB_RESERVE = 0x10000"

lemmas page_flag_defs = P_BRANCH_def P_LEAF_def P_OVERFLOW_def P_META_def P_DIRTY_def P_LEAF2_def
  P_SUBP_def P_LOOSE_def P_KEEP_def
lemmas node_flag_defs = F_BIGDATA_def F_SUBDATA_def F_DUPDATA_def MDB_RESERVE_def

definition F_ISSET :: "'a::len word \<Rightarrow> 'a word \<Rightarrow> bool" where
  "F_ISSET w f \<longleftrightarrow> w AND f = f"

definition EVEN :: "nat \<Rightarrow> nat" where
  "EVEN n = (n + 1) div 2 * 2"

lemma EVEN_bounds: "n \<le> EVEN n" "EVEN n \<le> n + 1" "even (EVEN n)"
  by (auto simp: EVEN_def)

section \<open>Page header\<close>

definition mp_pgno :: "bytes \<Rightarrow> u64" where "mp_pgno p = of_nat (rd p 0 8)"
definition mp_pad :: "bytes \<Rightarrow> nat" where "mp_pad p = rd p 8 2"
definition mp_flags :: "bytes \<Rightarrow> u16" where "mp_flags p = of_nat (rd p 10 2)"
definition mp_lower :: "bytes \<Rightarrow> nat" where "mp_lower p = rd p 12 2"
definition mp_upper :: "bytes \<Rightarrow> nat" where "mp_upper p = rd p 14 2"
definition mp_pages :: "bytes \<Rightarrow> nat" where "mp_pages p = rd p 12 4"

definition set_mp_pgno :: "u64 \<Rightarrow> bytes \<Rightarrow> bytes" where "set_mp_pgno v p = wr p 0 8 (unat v)"
definition set_mp_pad :: "nat \<Rightarrow> bytes \<Rightarrow> bytes" where "set_mp_pad v p = wr p 8 2 v"
definition set_mp_flags :: "u16 \<Rightarrow> bytes \<Rightarrow> bytes" where "set_mp_flags v p = wr p 10 2 (unat v)"
definition set_mp_lower :: "nat \<Rightarrow> bytes \<Rightarrow> bytes" where "set_mp_lower v p = wr p 12 2 v"
definition set_mp_upper :: "nat \<Rightarrow> bytes \<Rightarrow> bytes" where "set_mp_upper v p = wr p 14 2 v"
definition set_mp_pages :: "nat \<Rightarrow> bytes \<Rightarrow> bytes" where "set_mp_pages v p = wr p 12 4 v"

lemmas hdr_get_defs = mp_pgno_def mp_pad_def mp_flags_def mp_lower_def mp_upper_def mp_pages_def
lemmas hdr_set_defs = set_mp_pgno_def set_mp_pad_def set_mp_flags_def set_mp_lower_def
  set_mp_upper_def set_mp_pages_def

definition NUMKEYS :: "bytes \<Rightarrow> nat" where
  "NUMKEYS p = (mp_lower p + 2 ^ 32 - PAGEHDRSZ) mod 2 ^ 32 div 2"

definition SIZELEFT :: "bytes \<Rightarrow> nat" where
  "SIZELEFT p = (mp_upper p + 2 ^ 16 - mp_lower p) mod 2 ^ 16"

definition PAGEFILL :: "nat \<Rightarrow> bytes \<Rightarrow> nat" where
  "PAGEFILL psize p = 1000 * (psize - PAGEHDRSZ - SIZELEFT p) div (psize - PAGEHDRSZ)"

definition IS_LEAF :: "bytes \<Rightarrow> bool" where "IS_LEAF p = F_ISSET (mp_flags p) P_LEAF"
definition IS_LEAF2 :: "bytes \<Rightarrow> bool" where "IS_LEAF2 p = F_ISSET (mp_flags p) P_LEAF2"
definition IS_BRANCH :: "bytes \<Rightarrow> bool" where "IS_BRANCH p = F_ISSET (mp_flags p) P_BRANCH"
definition IS_OVERFLOW :: "bytes \<Rightarrow> bool" where "IS_OVERFLOW p = F_ISSET (mp_flags p) P_OVERFLOW"
definition IS_SUBP :: "bytes \<Rightarrow> bool" where "IS_SUBP p = F_ISSET (mp_flags p) P_SUBP"

lemmas page_kind_defs = IS_LEAF_def IS_LEAF2_def IS_BRANCH_def IS_OVERFLOW_def IS_SUBP_def

definition OVPAGES :: "nat \<Rightarrow> nat \<Rightarrow> nat" where
  "OVPAGES sz psize = (PAGEHDRSZ - 1 + sz) div psize + 1"

section \<open>Node pointers and node headers\<close>

definition mp_ptr :: "bytes \<Rightarrow> nat \<Rightarrow> nat option" where
  "mp_ptr p i = load p (PAGEHDRSZ + 2 * i) 2"

definition set_mp_ptr :: "bytes \<Rightarrow> nat \<Rightarrow> nat \<Rightarrow> bytes option" where
  "set_mp_ptr p i v = store p (PAGEHDRSZ + 2 * i) 2 v"

definition mn_lo :: "bytes \<Rightarrow> nat \<Rightarrow> nat option" where "mn_lo p n = load p n 2"
definition mn_hi :: "bytes \<Rightarrow> nat \<Rightarrow> nat option" where "mn_hi p n = load p (n + 2) 2"
definition mn_flags :: "bytes \<Rightarrow> nat \<Rightarrow> u16 option" where
  "mn_flags p n = map_option of_nat (load p (n + 4) 2)"
definition mn_ksize :: "bytes \<Rightarrow> nat \<Rightarrow> nat option" where "mn_ksize p n = load p (n + 6) 2"

text \<open>A node is named by its offset in the page.\<close>

definition NODEPTR :: "bytes \<Rightarrow> nat \<Rightarrow> nat option" where "NODEPTR p i = mp_ptr p i"
definition NODEKEY :: "nat \<Rightarrow> nat" where "NODEKEY n = n + 8"
definition NODEDATA :: "bytes \<Rightarrow> nat \<Rightarrow> nat option" where
  "NODEDATA p n = do { k \<leftarrow> mn_ksize p n; Some (n + 8 + k) }"
definition NODEKSZ :: "bytes \<Rightarrow> nat \<Rightarrow> nat option" where "NODEKSZ p n = mn_ksize p n"

definition NODEPGNO :: "bytes \<Rightarrow> nat \<Rightarrow> u64 option" where
  "NODEPGNO p n = do {
     lo \<leftarrow> mn_lo p n; hi \<leftarrow> mn_hi p n; f \<leftarrow> mn_flags p n;
     Some (of_nat lo OR push_bit 16 (of_nat hi) OR push_bit 32 (ucast f)) }"

definition SETPGNO :: "bytes \<Rightarrow> nat \<Rightarrow> u64 \<Rightarrow> bytes option" where
  "SETPGNO p n pgno = do {
     p \<leftarrow> store p n 2 (unat (pgno AND 0xffff));
     p \<leftarrow> store p (n + 2) 2 (unat (drop_bit 16 pgno));
     store p (n + 4) 2 (unat (drop_bit 32 pgno)) }"

definition NODEDSZ :: "bytes \<Rightarrow> nat \<Rightarrow> nat option" where
  "NODEDSZ p n = do { lo \<leftarrow> mn_lo p n; hi \<leftarrow> mn_hi p n; Some (lo OR push_bit 16 hi) }"

definition SETDSZ :: "bytes \<Rightarrow> nat \<Rightarrow> nat \<Rightarrow> bytes option" where
  "SETDSZ p n sz = do {
     p \<leftarrow> store p n 2 (sz mod 2 ^ 16);
     store p (n + 2) 2 (sz div 2 ^ 16) }"

definition LEAF2KEY :: "nat \<Rightarrow> nat \<Rightarrow> nat" where
  "LEAF2KEY i ks = PAGEHDRSZ + i * ks"

definition INDXSIZE :: "bytes option \<Rightarrow> nat" where
  "INDXSIZE k = NODESIZE + (case k of None \<Rightarrow> 0 | Some k \<Rightarrow> length k)"

definition LEAFSIZE :: "bytes \<Rightarrow> nat \<Rightarrow> nat" where
  "LEAFSIZE k dsize = NODESIZE + length k + dsize"

text \<open>\<open>MDB_GET_KEY\<close>: the key bytes of a node.\<close>

definition node_key :: "bytes \<Rightarrow> nat \<Rightarrow> bytes option" where
  "node_key p n = do { k \<leftarrow> NODEKSZ p n; get_bytes p (NODEKEY n) k }"

section \<open>Field laws\<close>

lemma hdr_get_set [page_simps]:
  assumes "16 \<le> length p"
  shows "mp_pgno (set_mp_pgno u p) = u" "mp_pad (set_mp_pad v p) = v mod 65536"
    "mp_flags (set_mp_flags f p) = f" "mp_lower (set_mp_lower v p) = v mod 65536"
    "mp_upper (set_mp_upper v p) = v mod 65536" "mp_pages (set_mp_pages v p) = v mod 2 ^ 32"
proof -
  have "unat u < 256 ^ 8" using unsigned_less [of u] by simp
  moreover have "unat f < 256 ^ 2" using unsigned_less [of f] by simp
  ultimately show "mp_pgno (set_mp_pgno u p) = u" "mp_flags (set_mp_flags f p) = f"
    using assms by (simp_all add: hdr_get_defs hdr_set_defs rd_wr_same)
qed (use assms in \<open>simp_all add: hdr_get_defs hdr_set_defs rd_wr_same\<close>)

lemma hdr_set_length [simp]:
  "16 \<le> length p \<Longrightarrow> length (set_mp_pgno u p) = length p"
  "16 \<le> length p \<Longrightarrow> length (set_mp_pad v p) = length p"
  "16 \<le> length p \<Longrightarrow> length (set_mp_flags f p) = length p"
  "16 \<le> length p \<Longrightarrow> length (set_mp_lower v p) = length p"
  "16 \<le> length p \<Longrightarrow> length (set_mp_upper v p) = length p"
  "16 \<le> length p \<Longrightarrow> length (set_mp_pages v p) = length p"
  by (simp_all add: hdr_set_defs)

lemma hdr_other [page_simps]:
  assumes "16 \<le> length p"
  shows
    "mp_pgno (set_mp_pad v p) = mp_pgno p" "mp_pgno (set_mp_flags f p) = mp_pgno p"
    "mp_pgno (set_mp_lower v p) = mp_pgno p" "mp_pgno (set_mp_upper v p) = mp_pgno p"
    "mp_pgno (set_mp_pages v p) = mp_pgno p"
    "mp_pad (set_mp_pgno u p) = mp_pad p" "mp_pad (set_mp_flags f p) = mp_pad p"
    "mp_pad (set_mp_lower v p) = mp_pad p" "mp_pad (set_mp_upper v p) = mp_pad p"
    "mp_pad (set_mp_pages v p) = mp_pad p"
    "mp_flags (set_mp_pgno u p) = mp_flags p" "mp_flags (set_mp_pad v p) = mp_flags p"
    "mp_flags (set_mp_lower v p) = mp_flags p" "mp_flags (set_mp_upper v p) = mp_flags p"
    "mp_flags (set_mp_pages v p) = mp_flags p"
    "mp_lower (set_mp_pgno u p) = mp_lower p" "mp_lower (set_mp_pad v p) = mp_lower p"
    "mp_lower (set_mp_flags f p) = mp_lower p" "mp_lower (set_mp_upper v p) = mp_lower p"
    "mp_upper (set_mp_pgno u p) = mp_upper p" "mp_upper (set_mp_pad v p) = mp_upper p"
    "mp_upper (set_mp_flags f p) = mp_upper p" "mp_upper (set_mp_lower v p) = mp_upper p"
    "mp_pages (set_mp_pgno u p) = mp_pages p" "mp_pages (set_mp_pad v p) = mp_pages p"
    "mp_pages (set_mp_flags f p) = mp_pages p"
  using assms by (simp_all add: hdr_get_defs hdr_set_defs rd_wr_disj)

lemma hdr_wr_body [page_simps]:
  assumes "16 \<le> a" "a + n \<le> length p"
  shows "mp_pgno (wr p a n v) = mp_pgno p" "mp_pad (wr p a n v) = mp_pad p"
    "mp_flags (wr p a n v) = mp_flags p" "mp_lower (wr p a n v) = mp_lower p"
    "mp_upper (wr p a n v) = mp_upper p" "mp_pages (wr p a n v) = mp_pages p"
  using assms by (simp_all add: hdr_get_defs rd_wr_disj)

lemma hdr_splice_body [page_simps]:
  assumes "16 \<le> a" "a + length bs \<le> length p"
  shows "mp_pgno (splice p a bs) = mp_pgno p" "mp_pad (splice p a bs) = mp_pad p"
    "mp_flags (splice p a bs) = mp_flags p" "mp_lower (splice p a bs) = mp_lower p"
    "mp_upper (splice p a bs) = mp_upper p" "mp_pages (splice p a bs) = mp_pages p"
  using assms by (simp_all add: hdr_get_defs rd_splice_disj)

lemma body_set_hdr [page_simps]:
  assumes "16 \<le> a" "a + n \<le> length p"
  shows "rd (set_mp_pgno u p) a n = rd p a n" "rd (set_mp_pad v p) a n = rd p a n"
    "rd (set_mp_flags f p) a n = rd p a n" "rd (set_mp_lower v p) a n = rd p a n"
    "rd (set_mp_upper v p) a n = rd p a n" "rd (set_mp_pages v p) a n = rd p a n"
  using assms by (simp_all add: hdr_set_defs rd_wr_disj)

lemma slice_set_hdr [page_simps]:
  assumes "16 \<le> a" "a + n \<le> length p"
  shows "slice (set_mp_pgno u p) a n = slice p a n" "slice (set_mp_pad v p) a n = slice p a n"
    "slice (set_mp_flags f p) a n = slice p a n" "slice (set_mp_lower v p) a n = slice p a n"
    "slice (set_mp_upper v p) a n = slice p a n" "slice (set_mp_pages v p) a n = slice p a n"
  using assms by (simp_all add: hdr_set_defs slice_wr_disj)

lemma mp_bounds: "mp_lower p < 65536" "mp_upper p < 65536" "mp_pad p < 65536"
  using rd_less [of p 12 2] rd_less [of p 14 2] rd_less [of p 8 2] by (simp_all add: hdr_get_defs)

lemma NUMKEYS_eq: "16 \<le> mp_lower p \<Longrightarrow> NUMKEYS p = (mp_lower p - 16) div 2"
  using mp_bounds(1) [of p] by (simp add: NUMKEYS_def mod_if)

lemma SIZELEFT_eq: "mp_lower p \<le> mp_upper p \<Longrightarrow> SIZELEFT p = mp_upper p - mp_lower p"
  using mp_bounds(1,2) [of p] by (simp add: SIZELEFT_def mod_if)

lemma or_shift_16: "lo < 65536 \<Longrightarrow> lo OR push_bit 16 hi = lo + 65536 * (hi::nat)"
proof -
  assume "lo < 65536"
  then have t: "take_bit 16 lo = lo" by (simp add: take_bit_nat_eq_self)
  have "take_bit 16 lo AND push_bit 16 hi = 0"
    by (rule bit_eqI) (simp add: bit_simps)
  then have "lo AND push_bit 16 hi = 0" by (simp only: t)
  then have "lo OR push_bit 16 hi = lo + push_bit 16 hi" by (simp only: disjunctive_add_eq_or)
  then show ?thesis by (simp add: push_bit_eq_mult)
qed

lemma NODEDSZ_eq: "n + 4 \<le> length p \<Longrightarrow> NODEDSZ p n = Some (rd p n 4)"
proof -
  assume l: "n + 4 \<le> length p"
  have "rd p n 2 < 65536" using rd_less [of p n 2] by simp
  moreover have "rd p n 4 = rd p n 2 + 65536 * rd p (n + 2) 2"
    using l slice_append [of p n 2 2] by (simp add: rd_def le_dec_append)
  ultimately show ?thesis using l by (simp add: NODEDSZ_def mn_lo_def mn_hi_def or_shift_16)
qed

lemma le_enc_append: "le_enc (m + n) v = le_enc m v @ le_enc n (v div 256 ^ m)"
  by (induction m arbitrary: v) (auto simp: div_mult2_eq)

lemma wr_wr_append:
  assumes "a + m + n \<le> length p"
  shows "wr (wr p a m u) (a + m) n v = splice p a (le_enc m u @ le_enc n v)"
  using assms by (intro nth_equalityI) (auto simp: wr_def nth_splice nth_append)

lemma SETDSZ_eq: "n + 4 \<le> length p \<Longrightarrow> SETDSZ p n sz = Some (wr p n 4 sz)"
proof -
  assume l: "n + 4 \<le> length p"
  have "le_enc 2 (sz mod 65536) = le_enc 2 sz" by (simp add: le_enc_eq_iff)
  then show ?thesis using l le_enc_append [of 2 2 sz] wr_wr_append [of n 2 2 p]
    by (simp add: SETDSZ_def wr_def)
qed

end
