(* ===== verification/Node_Ops.thy ===== *)
theory Node_Ops
  imports Page
begin

text \<open>
  The operations of \<open>mdb.c\<close> on the nodes of one page: size computation, insertion,
  deletion, compaction after a sub-page has shrunk, and the partial page copy; and
  what they do to the page seen as the list of its nodes.
\<close>

section \<open>Sizes\<close>

definition mdb_leaf_size :: "nat \<Rightarrow> bytes \<Rightarrow> nat \<Rightarrow> nat" where
  "mdb_leaf_size nodemax key dsize = (
     let sz = LEAFSIZE key dsize;
         sz = (if sz > nodemax then sz - dsize + 8 else sz)
     in EVEN (sz + 2))"

definition mdb_branch_size :: "bytes option \<Rightarrow> nat" where
  "mdb_branch_size key = INDXSIZE key + 2"

section \<open>\<open>mdb_page_copy\<close>\<close>

definition mdb_page_copy :: "bytes \<Rightarrow> bytes \<Rightarrow> nat \<Rightarrow> bytes option" where
  "mdb_page_copy dst src psize = (
     let upper = mp_upper src; lower = mp_lower src;
         unused = (upper + 2 ^ 16 - lower) mod 2 ^ 16;
         unused = unused div 8 * 8
     in if unused \<noteq> 0 \<and> \<not> IS_LEAF2 src then
          let upper = upper div 8 * 8 in
          do {
            bs \<leftarrow> get_bytes src 0 ((lower + 7) div 8 * 8);
            dst \<leftarrow> put_bytes dst 0 bs;
            if psize < upper then None
            else do {
              bs \<leftarrow> get_bytes src upper (psize - upper);
              put_bytes dst upper bs } }
        else if psize < unused then None
        else do {
          bs \<leftarrow> get_bytes src 0 (psize - unused);
          put_bytes dst 0 bs })"

section \<open>\<open>mdb_node_add\<close>\<close>

text \<open>
  Insertion into a page of fixed-size keys. \<open>ksize\<close> is \<open>md_pad\<close>; \<open>key\<close> is the memory
  at \<open>key->mv_data\<close>, of which \<open>ksize\<close> bytes are copied.
\<close>

definition sub16 :: "nat \<Rightarrow> nat \<Rightarrow> nat" where
  "sub16 a b = nat ((int a - int b) mod 2 ^ 16)"

definition node_add_leaf2 :: "bytes \<Rightarrow> nat \<Rightarrow> bytes \<Rightarrow> nat \<Rightarrow> bytes option" where
  "node_add_leaf2 mp indx key ksize = (
     let ptr = LEAF2KEY indx ksize;
         dif = int (NUMKEYS mp) - int indx
     in do {
       mp \<leftarrow> (if dif > 0 then move_bytes mp (ptr + ksize) ptr (nat dif * ksize) else Some mp);
       k \<leftarrow> get_bytes key 0 ksize;
       mp \<leftarrow> put_bytes mp ptr k;
       let mp = set_mp_lower (mp_lower mp + 2) mp in
       Some (set_mp_upper (nat ((int (mp_upper mp) - (int ksize - 2)) mod 2 ^ 16)) mp) })"

text \<open>
  The data argument of \<open>mdb_node_add\<close>: its \<open>mv_size\<close> and the memory at \<open>mv_data\<close>. With
  \<open>F_BIGDATA\<close> in \<open>flags\<close> that memory holds an overflow page number, with
  \<open>MDB_RESERVE\<close> it is not read.
\<close>

record dataval =
  mv_size :: nat
  mv_data :: bytes

text \<open>
  The first half of \<open>mdb_node_add\<close>: how large the node will be and whether its data
  goes to new overflow pages.
\<close>

datatype add_plan = Add_full | Add_fits nat | Add_overflow nat nat

definition node_add_plan ::
    "nat \<Rightarrow> nat \<Rightarrow> bytes \<Rightarrow> bytes option \<Rightarrow> dataval option \<Rightarrow> u32 \<Rightarrow> add_plan option" where
  "node_add_plan nodemax psize mp key data flags =
     (if mp_upper mp < mp_lower mp then None
      else
        let room = int (SIZELEFT mp) - 2;
            node_size = INDXSIZE key;
            fit = (\<lambda>n. Some (if int (EVEN n) > room then Add_full else Add_fits (EVEN n)))
        in if IS_LEAF mp then
             (case (key, data) of
                (Some k, Some d) \<Rightarrow>
                  if F_ISSET flags F_BIGDATA then fit (node_size + 8)
                  else if node_size + mv_size d > nodemax then
                    let ovpages = OVPAGES (mv_size d) psize; node_size = EVEN (node_size + 8)
                    in Some (if int node_size > room then Add_full else Add_overflow ovpages node_size)
                  else fit (node_size + mv_size d)
              | _ \<Rightarrow> None)
           else fit node_size)"

fun ptrs_up :: "bytes \<Rightarrow> nat \<Rightarrow> nat \<Rightarrow> bytes option" where
  "ptrs_up mp i indx =
     (if i > indx then do { v \<leftarrow> mp_ptr mp (i - 1); mp \<leftarrow> set_mp_ptr mp i v; ptrs_up mp (i - 1) indx }
      else Some mp)"

declare ptrs_up.simps [simp del]

text \<open>
  The part of \<open>mdb_node_add\<close> from the label \<open>update\<close> on, as far as it writes \<open>mp\<close>.
  \<open>ofp\<close> is the number of the new overflow page, if there is one. The second result is
  the offset handed back for \<open>MDB_RESERVE\<close>.
\<close>

definition node_add_update ::
    "bytes \<Rightarrow> nat \<Rightarrow> bytes option \<Rightarrow> dataval option \<Rightarrow> u64 \<Rightarrow> u32 \<Rightarrow> nat \<Rightarrow> u64 option \<Rightarrow>
     (bytes \<times> nat option) option" where
  "node_add_update mp indx key data pgno flags node_size ofp = do {
     mp \<leftarrow> ptrs_up mp (NUMKEYS mp) indx;
     let ofs = sub16 (mp_upper mp) node_size;
     if ofs < mp_lower mp + 2 then None else do {
     mp \<leftarrow> set_mp_ptr mp indx ofs;
     let mp = set_mp_upper ofs mp;
     let mp = set_mp_lower (mp_lower mp + 2) mp;
     node \<leftarrow> NODEPTR mp indx;
     mp \<leftarrow> store mp (node + 6) 2 (case key of None \<Rightarrow> 0 | Some k \<Rightarrow> length k);
     mp \<leftarrow> store mp (node + 4) 2 (unat flags);
     mp \<leftarrow> (if IS_LEAF mp then do { d \<leftarrow> data; SETDSZ mp node (mv_size d) } else SETPGNO mp node pgno);
     mp \<leftarrow> (case key of None \<Rightarrow> Some mp | Some k \<Rightarrow> put_bytes mp (NODEKEY node) k);
     if IS_LEAF mp then do {
       d \<leftarrow> data;
       ndata \<leftarrow> NODEDATA mp node;
       case ofp of
         None \<Rightarrow>
           if F_ISSET flags F_BIGDATA then do {
             bs \<leftarrow> get_bytes (mv_data d) 0 8; mp \<leftarrow> put_bytes mp ndata bs; Some (mp, None) }
           else if F_ISSET flags MDB_RESERVE then Some (mp, Some ndata)
           else do { bs \<leftarrow> get_bytes (mv_data d) 0 (mv_size d); mp \<leftarrow> put_bytes mp ndata bs; Some (mp, None) }
       | Some g \<Rightarrow> do { mp \<leftarrow> put_bytes mp ndata (le_enc 8 (unat g)); Some (mp, None) } }
     else Some (mp, None) } }"

section \<open>\<open>mdb_node_del\<close>\<close>

function del_ptrs :: "bytes \<Rightarrow> nat \<Rightarrow> nat \<Rightarrow> nat \<Rightarrow> nat \<Rightarrow> nat \<Rightarrow> nat \<Rightarrow> bytes option" where
  "del_ptrs mp i j numkeys indx ptr sz =
     (if i < numkeys then
        if i \<noteq> indx then do {
          v \<leftarrow> mp_ptr mp i; mp \<leftarrow> set_mp_ptr mp j v;
          v \<leftarrow> mp_ptr mp i;
          mp \<leftarrow> (if v < ptr then do { w \<leftarrow> mp_ptr mp j; set_mp_ptr mp j (w + sz) } else Some mp);
          del_ptrs mp (i + 1) (j + 1) numkeys indx ptr sz }
        else del_ptrs mp (i + 1) j numkeys indx ptr sz
      else Some mp)"
  by pat_completeness auto
termination by (relation "measure (\<lambda>(mp, i, j, numkeys, indx, ptr, sz). numkeys - i)") auto

declare del_ptrs.simps [simp del]

definition mdb_node_del :: "bytes \<Rightarrow> nat \<Rightarrow> nat \<Rightarrow> bytes option" where
  "mdb_node_del mp indx ksize = (
     let numkeys = NUMKEYS mp mod 2 ^ 16 in
     if \<not> indx < numkeys then None
     else if IS_LEAF2 mp then
       let x = numkeys - 1 - indx; base = LEAF2KEY indx ksize in
       do {
         mp \<leftarrow> (if x \<noteq> 0 then move_bytes mp base (base + ksize) (x * ksize) else Some mp);
         let mp = set_mp_lower (sub16 (mp_lower mp) 2) mp in
         Some (set_mp_upper (nat ((int (mp_upper mp) + (int ksize - 2)) mod 2 ^ 16)) mp) }
     else do {
       node \<leftarrow> NODEPTR mp indx;
       ks \<leftarrow> mn_ksize mp node;
       let sz = NODESIZE + ks;
       sz \<leftarrow> (if IS_LEAF mp then do {
                f \<leftarrow> mn_flags mp node;
                if F_ISSET (ucast f) F_BIGDATA then Some (sz + 8)
                else do { d \<leftarrow> NODEDSZ mp node; Some ((sz + d) mod 2 ^ 32) } }
             else Some sz);
       let sz = EVEN sz mod 2 ^ 32;
       ptr \<leftarrow> mp_ptr mp indx;
       mp \<leftarrow> del_ptrs mp 0 0 numkeys indx ptr sz;
       let base = mp_upper mp;
       mp \<leftarrow> (if ptr < base then None else move_bytes mp (base + sz) base (ptr - base));
       let mp = set_mp_lower (sub16 (mp_lower mp) 2) mp;
       Some (set_mp_upper (mp_upper mp + sz) mp) })"

section \<open>\<open>mdb_node_shrink\<close>\<close>

text \<open>
  \<open>sp\<close> and \<open>xp\<close> are offsets of (overlapping) sub-pages in the main page; a sub-page's
  header is read through the bytes of the main page from there on.
\<close>

definition subpage :: "bytes \<Rightarrow> nat \<Rightarrow> bytes option" where
  "subpage mp sp = (if sp + PAGEHDRSZ \<le> length mp then Some (drop sp mp) else None)"

fun shrink_sub_ptrs :: "bytes \<Rightarrow> nat \<Rightarrow> nat \<Rightarrow> nat \<Rightarrow> nat \<Rightarrow> bytes option" where
  "shrink_sub_ptrs mp sp xp delta 0 = Some mp"
| "shrink_sub_ptrs mp sp xp delta (Suc i) = do {
     v \<leftarrow> load mp (sp + PAGEHDRSZ + 2 * i) 2;
     mp \<leftarrow> store mp (xp + PAGEHDRSZ + 2 * i) 2 (sub16 v delta);
     shrink_sub_ptrs mp sp xp delta i }"

fun shrink_main_ptrs :: "bytes \<Rightarrow> nat \<Rightarrow> nat \<Rightarrow> nat \<Rightarrow> bytes option" where
  "shrink_main_ptrs mp ptr delta 0 = Some mp"
| "shrink_main_ptrs mp ptr delta (Suc i) = do {
     v \<leftarrow> mp_ptr mp i;
     mp \<leftarrow> (if v \<le> ptr then set_mp_ptr mp i (v + delta) else Some mp);
     shrink_main_ptrs mp ptr delta i }"

definition mdb_node_shrink :: "bytes \<Rightarrow> nat \<Rightarrow> bytes option" where
  "mdb_node_shrink mp indx = do {
     node \<leftarrow> NODEPTR mp indx;
     sp \<leftarrow> NODEDATA mp node;
     spg \<leftarrow> subpage mp sp;
     let delta = SIZELEFT spg;
     dsz \<leftarrow> NODEDSZ mp node;
     let nsize = sub16 dsz delta;
     if IS_LEAF2 spg \<and> odd nsize then Some mp
     else do {
       mp \<leftarrow> (if IS_LEAF2 spg then Some mp else shrink_sub_ptrs mp sp (sp + delta) delta (NUMKEYS spg));
       let len = (if IS_LEAF2 spg then nsize else PAGEHDRSZ);
       lo \<leftarrow> load mp (sp + 12) 2;
       mp \<leftarrow> store mp (sp + 14) 2 lo;
       mp \<leftarrow> store mp sp 8 (unat (mp_pgno mp));
       mp \<leftarrow> SETDSZ mp node nsize;
       let base = mp_upper mp;
       mp \<leftarrow> (if sp + len < base then None else move_bytes mp (base + delta) base (sp + len - base));
       ptr \<leftarrow> mp_ptr mp indx;
       mp \<leftarrow> shrink_main_ptrs mp ptr delta (NUMKEYS mp);
       Some (set_mp_upper (mp_upper mp + delta) mp) } }"

section \<open>A page as the list of its nodes\<close>

definition pt :: "bytes \<Rightarrow> nat \<Rightarrow> nat" where
  "pt p i = rd p (16 + 2 * i) 2"

definition node_len :: "bool \<Rightarrow> bytes \<Rightarrow> nat \<Rightarrow> nat" where
  "node_len leaf p n = 8 + rd p (n + 6) 2 +
     (if leaf then (if F_ISSET (of_nat (rd p (n + 4) 2) :: u16) 1 then 8 else rd p n 4) else 0)"

definition ptrs :: "bytes \<Rightarrow> nat list" where
  "ptrs p = map (pt p) [0..<NUMKEYS p]"

definition node_bytes :: "bytes \<Rightarrow> nat \<Rightarrow> bytes" where
  "node_bytes p n = slice p n (node_len (IS_LEAF p) p n)"

definition page_nodes :: "bytes \<Rightarrow> bytes list" where
  "page_nodes p = map (node_bytes p) (ptrs p)"

text \<open>The room a node takes, and two nodes not sharing any of it.\<close>

definition extent :: "bytes \<Rightarrow> nat \<Rightarrow> nat" where
  "extent p n = EVEN (node_len (IS_LEAF p) p n)"

definition apart :: "bytes \<Rightarrow> nat \<Rightarrow> nat \<Rightarrow> bool" where
  "apart p x y \<longleftrightarrow> x + extent p x \<le> y \<or> y + extent p y \<le> x"

definition page_ok :: "nat \<Rightarrow> bytes \<Rightarrow> bool" where
  "page_ok psize p \<longleftrightarrow> length p = psize \<and> psize < 65536 \<and>
     16 \<le> mp_lower p \<and> even (mp_lower p) \<and> mp_lower p \<le> mp_upper p \<and> mp_upper p \<le> psize \<and>
     (\<forall>x \<in> set (ptrs p). mp_upper p \<le> x \<and> x + extent p x \<le> psize) \<and>
     sorted_wrt (apart p) (ptrs p)"

lemma page_ok_len [simp]: "page_ok psize p \<Longrightarrow> 16 \<le> length p"
  by (auto simp: page_ok_def)

lemma page_ok_lower: "page_ok psize p \<Longrightarrow> mp_lower p = 16 + 2 * NUMKEYS p"
  by (auto simp: page_ok_def NUMKEYS_eq elim!: evenE)

lemma length_ptrs [simp]: "length (ptrs p) = NUMKEYS p"
  by (simp add: ptrs_def)

lemma nth_ptrs [simp]: "i < NUMKEYS p \<Longrightarrow> ptrs p ! i = pt p i"
  by (simp add: ptrs_def)

lemma node_len_ge: "8 \<le> node_len l p n"
  by (simp add: node_len_def)

lemma node_len_cong:
  "slice p n 8 = slice q m 8 \<Longrightarrow> n + 8 \<le> length p \<Longrightarrow> m + 8 \<le> length q \<Longrightarrow> node_len l p n = node_len l q m"
proof -
  assume s: "slice p n 8 = slice q m 8" "n + 8 \<le> length p" "m + 8 \<le> length q"
  have "rd p (n + k) j = rd q (m + k) j" if "k + j \<le> 8" for k j
    using rd_slice [of k j 8 p n] rd_slice [of k j 8 q m] that s(1) by simp
  from this [of 6 2] this [of 4 2] this [of 0 4] show ?thesis by (simp add: node_len_def)
qed

text \<open>A node moved with all its bytes is the same node.\<close>

lemma node_moved:
  assumes "slice q m (extent p n) = slice p n (extent p n)" "IS_LEAF q = IS_LEAF p"
    "n + extent p n \<le> length p" "m + extent p n \<le> length q"
  shows "extent q m = extent p n" "node_bytes q m = node_bytes p n"
proof -
  have l: "8 \<le> extent p n" "node_len (IS_LEAF p) p n \<le> extent p n"
    using node_len_ge [of "IS_LEAF p" p n] EVEN_bounds [of "node_len (IS_LEAF p) p n"]
    by (auto simp: extent_def)
  have "slice q m 8 = slice p n 8"
    using slice_slice [of 0 8 "extent p n" q m] slice_slice [of 0 8 "extent p n" p n] assms(1) l by simp
  then have n: "node_len (IS_LEAF p) q m = node_len (IS_LEAF p) p n"
    by (rule node_len_cong) (use l assms in auto)
  then show "extent q m = extent p n" by (simp add: extent_def assms(2))
  show "node_bytes q m = node_bytes p n"
    using slice_slice [of 0 "node_len (IS_LEAF p) p n" "extent p n" q m]
      slice_slice [of 0 "node_len (IS_LEAF p) p n" "extent p n" p n] assms(1,2) l n
    by (simp add: node_bytes_def)
qed

lemma page_okD:
  assumes "page_ok psize p" "x \<in> set (ptrs p)"
  shows "mp_upper p \<le> x" "x + extent p x \<le> psize" "length p = psize" "mp_lower p \<le> x"
  using assms by (auto simp: page_ok_def)

lemma sorted_wrt_apart_map:
  assumes "sorted_wrt (apart p) xs"
    and "\<And>x y. x \<in> set xs \<Longrightarrow> y \<in> set xs \<Longrightarrow> apart p x y \<Longrightarrow> apart q (f x) (f y)"
  shows "sorted_wrt (apart q) (map f xs)"
  using assms by (induction xs) auto

text \<open>Insertion of one pointer below all others, with all other nodes left in place.\<close>

lemma page_insert:
  assumes ok: "page_ok psize p" and i: "i \<le> NUMKEYS p"
    and q: "length q = length p" "IS_LEAF q = IS_LEAF p" "mp_lower q = mp_lower p + 2" "mp_upper q = ofs"
    and ptrs: "ptrs q = take i (ptrs p) @ ofs # drop i (ptrs p)"
    and keep: "\<And>a n. mp_upper p \<le> a \<Longrightarrow> a + n \<le> psize \<Longrightarrow> slice q a n = slice p a n"
    and new: "ofs + extent q ofs \<le> mp_upper p" "mp_lower p + 2 \<le> ofs"
  shows "page_ok psize q \<and>
    page_nodes q = take i (page_nodes p) @ node_bytes q ofs # drop i (page_nodes p)"
proof -
  note okD = page_okD [OF ok]
  have same: "extent q x = extent p x" "node_bytes q x = node_bytes p x" if "x \<in> set (ptrs p)" for x
    using node_moved [of q x p x] keep [of x] okD [OF that] q(1,2) by auto
  have srt: "sorted_wrt (apart q) (ptrs p)"
    using sorted_wrt_apart_map [of p "ptrs p" q "\<lambda>x. x"] ok same(1)
    by (simp add: page_ok_def apart_def)
  have below: "ofs + extent q ofs \<le> x" if "x \<in> set (ptrs p)" for x
    using okD(1) [OF that] new by simp
  have set: "set (ptrs q) = insert ofs (set (ptrs p))"
    unfolding ptrs by (metis Un_insert_right append_take_drop_id list.simps(15) set_append)
  have "sorted_wrt (apart q) (take i (ptrs p) @ drop i (ptrs p))" using srt by simp
  then have "sorted_wrt (apart q) (ptrs q)"
    unfolding ptrs sorted_wrt_append using below
    by (auto simp: apart_def dest: in_set_takeD in_set_dropD)
  moreover have "ofs + extent q ofs \<le> psize" "ofs \<le> psize"
    using new ok by (auto simp: page_ok_def)
  moreover have "\<forall>x \<in> set (ptrs q). ofs \<le> x \<and> x + extent q x \<le> psize"
    using calculation(2,3) below okD(2) same(1) new(1) ok
    by (auto simp: set page_ok_def dest: below)
  ultimately have "page_ok psize q"
    using ok q new unfolding page_ok_def by auto
  moreover have "page_nodes q = take i (page_nodes p) @ node_bytes q ofs # drop i (page_nodes p)"
    unfolding page_nodes_def ptrs using same(2)
    by (auto simp: take_map drop_map dest: in_set_takeD in_set_dropD)
  ultimately show ?thesis by blast
qed

lemma apart_sym: "apart p x y = apart p y x"
  by (auto simp: apart_def)

lemma extent_ge: "8 \<le> extent p x"
  using node_len_ge [of "IS_LEAF p" p x] EVEN_bounds(1) [of "node_len (IS_LEAF p) p x"]
  by (simp add: extent_def)

lemma sorted_wrt_nth_others:
  assumes "sorted_wrt R xs" "\<And>x y. R x y = R y x" "i < length xs"
    "x \<in> set (take i xs @ drop (Suc i) xs)"
  shows "R x (xs ! i)"
proof -
  have "xs = take i xs @ xs ! i # drop (Suc i) xs" using assms(3) by (rule id_take_nth_drop)
  then have "sorted_wrt R (take i xs @ xs ! i # drop (Suc i) xs)" using assms(1) by simp
  then show ?thesis using assms(2,4) by (auto simp: sorted_wrt_append)
qed

text \<open>Removal of the pointer \<open>ptr\<close>, the nodes below it moved up over the gap.\<close>

lemma page_delete:
  assumes ok: "page_ok psize p" and i: "i < NUMKEYS p"
    and ptr: "ptr = ptrs p ! i" and sz: "sz = extent p ptr"
    and q: "length q = length p" "IS_LEAF q = IS_LEAF p" "mp_lower q + 2 = mp_lower p"
      "mp_upper q = mp_upper p + sz"
    and ptrs: "ptrs q = map (\<lambda>x. if x < ptr then x + sz else x) (take i (ptrs p) @ drop (Suc i) (ptrs p))"
    and low: "\<And>a n. mp_upper p \<le> a \<Longrightarrow> a + n \<le> ptr \<Longrightarrow> slice q (a + sz) n = slice p a n"
    and high: "\<And>a n. ptr + sz \<le> a \<Longrightarrow> a + n \<le> psize \<Longrightarrow> slice q a n = slice p a n"
  shows "page_ok psize q \<and> page_nodes q = take i (page_nodes p) @ drop (Suc i) (page_nodes p)"
proof -
  note okD = page_okD [OF ok]
  let ?f = "\<lambda>x. if x < ptr then x + sz else x" and ?o = "take i (ptrs p) @ drop (Suc i) (ptrs p)"
  have pin: "ptr \<in> set (ptrs p)" unfolding ptr using i by (intro nth_mem) simp
  have oin: "x \<in> set (ptrs p)" if "x \<in> set ?o" for x
    using that by (auto dest: in_set_takeD in_set_dropD)
  have pos: "x + extent p x \<le> ptr \<and> x < ptr \<or> ptr + sz \<le> x \<and> \<not> x < ptr" if "x \<in> set ?o" for x
  proof -
    have s: "sorted_wrt (apart p) (ptrs p)" using ok by (simp add: page_ok_def)
    have "apart p x ptr"
      unfolding ptr by (rule sorted_wrt_nth_others [OF s apart_sym _ that]) (use i in simp)
    then have "x + extent p x \<le> ptr \<or> ptr + sz \<le> x" by (simp only: apart_def sz)
    then show ?thesis using extent_ge [of p x] extent_ge [of p ptr] unfolding sz by linarith
  qed
  have len: "length p = psize" using ok by (simp add: page_ok_def)
  have same: "extent q (?f x) = extent p x \<and> node_bytes q (?f x) = node_bytes p x" if x: "x \<in> set ?o" for x
  proof (cases "x < ptr")
    case True
    have "slice q (x + sz) (extent p x) = slice p x (extent p x)"
      by (rule low) (use pos [OF x] okD(1) [OF oin [OF x]] True in auto)
    then show ?thesis using node_moved [of q "x + sz" p x] True q pos [OF x] okD(2) [OF pin] sz len by auto
  next
    case False
    have "slice q x (extent p x) = slice p x (extent p x)"
      by (rule high) (use pos [OF x] okD(2) [OF oin [OF x]] False in auto)
    then show ?thesis using node_moved [of q x p x] False q okD(2) [OF oin [OF x]] len by auto
  qed
  have srt0: "sorted_wrt (apart p) ?o"
  proof -
    have "sorted_wrt (apart p) (take i (ptrs p) @ ptrs p ! i # drop (Suc i) (ptrs p))"
      using ok i id_take_nth_drop [of i "ptrs p"] by (simp add: page_ok_def)
    then show ?thesis by (auto simp: sorted_wrt_append)
  qed
  have "sorted_wrt (apart q) (map ?f ?o)"
  proof (rule sorted_wrt_apart_map [OF srt0])
    fix x y assume x: "x \<in> set ?o" and y: "y \<in> set ?o" and a: "apart p x y"
    have "extent q (?f x) = extent p x" "extent q (?f y) = extent p y"
      using same [OF x] same [OF y] by simp_all
    then show "apart q (?f x) (?f y)"
      using pos [OF x] pos [OF y] a unfolding apart_def
      by (cases "x < ptr"; cases "y < ptr") auto
  qed
  then have "sorted_wrt (apart q) (ptrs q)" by (simp only: ptrs)
  moreover have "mp_upper p + sz \<le> ?f x \<and> ?f x + extent q (?f x) \<le> psize" if x: "x \<in> set ?o" for x
  proof -
    have "extent q (?f x) = extent p x" using same [OF x] by simp
    then show ?thesis
      using pos [OF x] okD(1,2) [OF oin [OF x]] okD(1,2) [OF pin] sz by (cases "x < ptr") simp_all
  qed
  then have "\<forall>x \<in> set (ptrs q). mp_upper q \<le> x \<and> x + extent q x \<le> psize"
    unfolding ptrs q(4) set_map by blast
  moreover have "mp_upper p + sz \<le> psize" using okD(1,2) [OF pin] sz by simp
  moreover have "16 \<le> mp_lower q" using page_ok_lower [OF ok] q(3) i by simp
  moreover have "even (mp_lower q)"
  proof -
    have "even (mp_lower q + 2)" unfolding q(3) using ok by (simp add: page_ok_def)
    then show ?thesis by simp
  qed
  ultimately have "page_ok psize q"
    using ok q unfolding page_ok_def by simp
  moreover have "page_nodes q = take i (page_nodes p) @ drop (Suc i) (page_nodes p)"
  proof -
    have "map (node_bytes q) (map ?f ?o) = map (node_bytes p) ?o"
      using same by (simp only: map_map map_eq_conv comp_apply) blast
    then show ?thesis by (simp only: page_nodes_def ptrs take_map drop_map map_append)
  qed
  ultimately show ?thesis by blast
qed

section \<open>The pointer loops\<close>

definition same_outside :: "bytes \<Rightarrow> bytes \<Rightarrow> nat \<Rightarrow> nat \<Rightarrow> bool" where
  "same_outside q p a b \<longleftrightarrow> length q = length p \<and> take a q = take a p \<and> drop b q = drop b p"

lemma same_outside_refl [simp]: "same_outside p p a b"
  by (simp add: same_outside_def)

lemma same_outside_trans: "same_outside r q a b \<Longrightarrow> same_outside q p a b \<Longrightarrow> same_outside r p a b"
  by (simp add: same_outside_def)

lemma take_splice: "a \<le> b \<Longrightarrow> b \<le> length p \<Longrightarrow> take a (splice p b bs) = take a p"
  by (simp add: splice_def min_def)

lemma drop_splice: "a + length bs \<le> length p \<Longrightarrow> a + length bs \<le> b \<Longrightarrow> drop b (splice p a bs) = drop b p"
  by (simp add: splice_def add.commute)

lemma same_outside_splice:
  "same_outside q p a b \<Longrightarrow> a \<le> c \<Longrightarrow> c + length bs \<le> b \<Longrightarrow> b \<le> length p \<Longrightarrow> same_outside (splice q c bs) p a b"
  by (simp add: same_outside_def take_splice drop_splice)

lemma same_outside_wr:
  "same_outside q p a b \<Longrightarrow> a \<le> c \<Longrightarrow> c + n \<le> b \<Longrightarrow> b \<le> length p \<Longrightarrow> same_outside (wr q c n v) p a b"
  by (simp add: wr_def same_outside_splice)

lemma same_outside_low:
  "same_outside q p a b \<Longrightarrow> c + n \<le> a \<Longrightarrow> slice q c n = slice p c n"
proof -
  assume s: "same_outside q p a b" "c + n \<le> a"
  have "slice (take a r) c n = slice r c n" for r :: bytes
    using s(2) by (simp add: slice_def drop_take)
  then show ?thesis using s(1) by (metis same_outside_def)
qed

lemma same_outside_high:
  "same_outside q p a b \<Longrightarrow> b \<le> c \<Longrightarrow> slice q c n = slice p c n"
proof -
  assume s: "same_outside q p a b" "b \<le> c"
  have "slice r c n = slice (drop b r) (c - b) n" for r :: bytes
    using s(2) by (simp add: slice_def)
  then show ?thesis using s(1) by (metis same_outside_def)
qed

lemma same_outside_hdr:
  assumes "same_outside q p 16 b"
  shows "mp_pgno q = mp_pgno p" "mp_pad q = mp_pad p" "mp_flags q = mp_flags p"
    "mp_lower q = mp_lower p" "mp_upper q = mp_upper p" "mp_pages q = mp_pages p"
  using same_outside_low [OF assms] by (simp_all add: hdr_get_defs rd_def)

lemma pt_wr:
  "16 + 2 * i + 2 \<le> length p \<Longrightarrow> 16 + 2 * k + 2 \<le> length p \<Longrightarrow> v < 65536 \<Longrightarrow>
    pt (wr p (16 + 2 * i) 2 v) k = (if k = i then v else pt p k)"
  by (cases k i rule: linorder_cases) (simp_all add: pt_def rd_wr_same rd_wr_disj)

lemma pt_less: "pt p i < 65536"
  using rd_less [of p "16 + 2 * i" 2] by (simp add: pt_def)

lemma mp_ptr_in [simp]: "16 + 2 * i + 2 \<le> length p \<Longrightarrow> mp_ptr p i = Some (pt p i)"
  by (simp add: mp_ptr_def pt_def)

lemma set_mp_ptr_in [simp]: "16 + 2 * i + 2 \<le> length p \<Longrightarrow> set_mp_ptr p i v = Some (wr p (16 + 2 * i) 2 v)"
  by (simp add: set_mp_ptr_def)

lemma ptrs_up_eq:
  assumes "indx \<le> n" "16 + 2 * n + 2 \<le> length p"
  shows "\<exists>q. ptrs_up p n indx = Some q \<and> same_outside q p 16 (16 + 2 * n + 2) \<and>
    (\<forall>k \<le> n. pt q k = (if indx < k then pt p (k - 1) else pt p k))"
  using assms
proof (induction p n indx rule: ptrs_up.induct)
  case (1 p n indx)
  show ?case
  proof (cases "n > indx")
    case False
    with "1.prems" show ?thesis by (subst ptrs_up.simps) auto
  next
    case True
    let ?p = "wr p (16 + 2 * n) 2 (pt p (n - 1))"
    have g: "mp_ptr p (n - 1) = Some (pt p (n - 1))" "set_mp_ptr p n (pt p (n - 1)) = Some ?p"
      using True "1.prems" by simp_all
    have c: "indx \<le> n - 1" "16 + 2 * (n - 1) + 2 \<le> length ?p" using True "1.prems" by auto
    obtain q where q: "ptrs_up ?p (n - 1) indx = Some q" "same_outside q ?p 16 (16 + 2 * (n - 1) + 2)"
      "\<forall>k \<le> n - 1. pt q k = (if indx < k then pt ?p (k - 1) else pt ?p k)"
      using "1.IH" [OF True g c] by blast
    have "ptrs_up p n indx = Some q" using True g q(1) by (subst ptrs_up.simps) simp
    moreover have "same_outside q p 16 (16 + 2 * n + 2)"
    proof -
      have "same_outside q ?p 16 (16 + 2 * n + 2)"
        using q(2) same_outside_high [OF q(2), of "16 + 2 * n + 2" "length p"] "1.prems"(2)
        by (auto simp: same_outside_def slice_def)
      moreover have "same_outside ?p p 16 (16 + 2 * n + 2)"
        by (rule same_outside_wr) (use "1.prems" in auto)
      ultimately show ?thesis by (rule same_outside_trans)
    qed
    moreover have "pt q k = (if indx < k then pt p (k - 1) else pt p k)" if "k \<le> n" for k
    proof (cases "k = n")
      case True
      have "pt q n = pt ?p n"
        using same_outside_high [OF q(2), of "16 + 2 * n" 2] \<open>n > indx\<close> by (simp add: pt_def rd_def)
      then show ?thesis using True \<open>n > indx\<close> "1.prems"(2) pt_less [of p "n - 1"] by (simp add: pt_wr)
    next
      case False
      then have "k \<le> n - 1" using that by simp
      then show ?thesis using q(3) "1.prems" False that pt_less [of p "n - 1"] by (auto simp: pt_wr)
    qed
    ultimately show ?thesis by blast
  qed
qed

lemma del_ptrs_eq:
  assumes "indx < n" "16 + 2 * n \<le> length p" "i \<le> n" "if i \<le> indx then j = i else i = j + 1"
    "\<forall>m. i \<le> m \<and> m < n \<and> pt p m < ptr \<longrightarrow> pt p m + sz < 65536"
  shows "\<exists>q. del_ptrs p i j n indx ptr sz = Some q \<and> same_outside q p 16 (16 + 2 * n) \<and>
    (\<forall>k < j. pt q k = pt p k) \<and>
    (\<forall>k. j \<le> k \<and> k < n - 1 \<longrightarrow> pt q k = (let v = pt p (if k < indx then k else k + 1) in
       if v < ptr then v + sz else v))"
  using assms
proof (induction "n - i" arbitrary: p i j)
  case 0
  then have "i = n" "j = n - 1" by (auto split: if_splits)
  then show ?case by (subst del_ptrs.simps) auto
next
  case (Suc d)
  have i: "i < n" using Suc.hyps(2) by linarith
  have d: "d = n - (i + 1)" using Suc.hyps(2) by linarith
  show ?case
  proof (cases "i = indx")
    case True
    then have j: "j = i" using Suc.prems by simp
    have "\<exists>q. del_ptrs p (i + 1) j n indx ptr sz = Some q \<and> same_outside q p 16 (16 + 2 * n) \<and>
      (\<forall>k < j. pt q k = pt p k) \<and>
      (\<forall>k. j \<le> k \<and> k < n - 1 \<longrightarrow> pt q k = (let v = pt p (if k < indx then k else k + 1) in
         if v < ptr then v + sz else v))"
      by (rule Suc.hyps(1) [OF d]) (use Suc.prems i j True in auto)
    moreover have "del_ptrs p i j n indx ptr sz = del_ptrs p (i + 1) j n indx ptr sz"
      using True i by (subst del_ptrs.simps) simp
    ultimately show ?thesis by simp
  next
    case False
    have ji: "j \<le> i" "j < n" using Suc.prems(4) i by (auto split: if_splits)
    define v where "v = pt p i"
    define w where "w = (if v < ptr then v + sz else v)"
    have w: "w < 65536" using Suc.prems(5) i pt_less [of p i] by (auto simp: w_def v_def)
    have v: "v < 65536" by (simp add: v_def pt_less)
    let ?p1 = "wr p (16 + 2 * j) 2 v"
    define p2 where "p2 = (if v < ptr then wr ?p1 (16 + 2 * j) 2 w else ?p1)"
    have len: "16 + 2 * i + 2 \<le> length p" "16 + 2 * j + 2 \<le> length p" using i ji Suc.prems(2) by auto
    have p1i: "pt ?p1 i = v" "pt ?p1 j = v" using len v by (auto simp: pt_wr v_def)
    have p2: "pt p2 k = (if k = j then w else pt p k)" if "16 + 2 * k + 2 \<le> length p" for k
      using that len v w by (cases "v < ptr") (simp_all add: p2_def pt_wr w_def)
    have so: "same_outside p2 p 16 (16 + 2 * n)"
      unfolding p2_def by (auto intro!: same_outside_wr) (use ji Suc.prems(2) in auto)
    then have l2: "length p2 = length p" by (simp add: same_outside_def)
    have step: "del_ptrs p i j n indx ptr sz = del_ptrs p2 (i + 1) (j + 1) n indx ptr sz"
      using i False len p1i by (subst del_ptrs.simps) (simp add: p2_def w_def v_def)
    have "\<exists>q. del_ptrs p2 (i + 1) (j + 1) n indx ptr sz = Some q \<and> same_outside q p2 16 (16 + 2 * n) \<and>
      (\<forall>k < j + 1. pt q k = pt p2 k) \<and>
      (\<forall>k. j + 1 \<le> k \<and> k < n - 1 \<longrightarrow> pt q k = (let v = pt p2 (if k < indx then k else k + 1) in
         if v < ptr then v + sz else v))"
    proof (rule Suc.hyps(1) [OF d])
      show "\<forall>m. i + 1 \<le> m \<and> m < n \<and> pt p2 m < ptr \<longrightarrow> pt p2 m + sz < 65536"
        using Suc.prems(2,5) ji(1) by (auto simp: p2)
    qed (use Suc.prems i False l2 in \<open>auto split: if_splits\<close>)
    then obtain q where q: "del_ptrs p2 (i + 1) (j + 1) n indx ptr sz = Some q"
      "same_outside q p2 16 (16 + 2 * n)" "\<forall>k < j + 1. pt q k = pt p2 k"
      "\<forall>k. j + 1 \<le> k \<and> k < n - 1 \<longrightarrow> pt q k = (let v = pt p2 (if k < indx then k else k + 1) in
         if v < ptr then v + sz else v)" by blast
    have "pt q k = (let v = pt p (if k < indx then k else k + 1) in if v < ptr then v + sz else v)"
      if k: "j \<le> k" "k < n - 1" for k
    proof (cases "k = j")
      case True
      have "pt q k = w" using q(3) p2 [of j] True len by simp
      moreover have "(if k < indx then k else k + 1) = i" using Suc.prems(4) False True by (auto split: if_splits)
      ultimately show ?thesis by (simp add: w_def v_def Let_def)
    next
      case kj: False
      have "pt p2 (if k < indx then k else k + 1) = pt p (if k < indx then k else k + 1)"
        using p2 [of "if k < indx then k else k + 1"] k kj Suc.prems(2) by (auto split: if_splits)
      then show ?thesis using q(4) k kj by simp
    qed
    moreover have "pt q k = pt p k" if "k < j" for k
      using q(3) p2 [of k] that len by simp
    ultimately show ?thesis using step q(1) same_outside_trans [OF q(2) so] by auto
  qed
qed

section \<open>Adding a node\<close>

text \<open>The bytes of a leaf node and of a branch node.\<close>

definition leaf_node :: "nat \<Rightarrow> nat \<Rightarrow> bytes \<Rightarrow> bytes \<Rightarrow> bytes" where
  "leaf_node dsize flags key body =
     le_enc 4 dsize @ le_enc 2 flags @ le_enc 2 (length key) @ key @ body"

definition branch_node :: "u64 \<Rightarrow> bytes \<Rightarrow> bytes" where
  "branch_node pgno key = le_enc 6 (unat pgno) @ le_enc 2 (length key) @ key"

lemma node_slot:
  assumes ok: "page_ok psize p" and i: "i \<le> NUMKEYS p"
    and room: "mp_lower p + 2 + sz \<le> mp_upper p"
    and ofs: "ofs = mp_upper p - sz"
  obtains q0 q1 where "ptrs_up p (NUMKEYS p) i = Some q0" "mp_upper q0 = mp_upper p" "mp_lower q0 = mp_lower p"
    "sub16 (mp_upper p) sz = ofs" "length q0 = psize" "16 + 2 * i + 2 \<le> psize"
    "q1 = set_mp_lower (mp_lower p + 2) (set_mp_upper ofs (wr q0 (16 + 2 * i) 2 ofs))"
    "mp_lower (set_mp_upper ofs (wr q0 (16 + 2 * i) 2 ofs)) = mp_lower p"
    "length q1 = psize" "mp_flags q1 = mp_flags p" "mp_pgno q1 = mp_pgno p" "mp_pad q1 = mp_pad p"
    "mp_lower q1 = mp_lower p + 2" "mp_upper q1 = ofs"
    "\<And>k. k \<le> NUMKEYS p \<Longrightarrow> pt q1 k = (if k = i then ofs else if i < k then pt p (k - 1) else pt p k)"
    "\<And>a n. mp_upper p \<le> a \<Longrightarrow> slice q1 a n = slice p a n"
proof -
  note lower = page_ok_lower [OF ok]
  have len: "length p = psize" "psize < 65536" "16 \<le> psize" "mp_upper p \<le> psize"
    using ok by (auto simp: page_ok_def)
  have in1: "16 + 2 * NUMKEYS p + 2 \<le> length p" using lower room len by simp
  obtain q0 where q0: "ptrs_up p (NUMKEYS p) i = Some q0" "same_outside q0 p 16 (16 + 2 * NUMKEYS p + 2)"
    "\<forall>k \<le> NUMKEYS p. pt q0 k = (if i < k then pt p (k - 1) else pt p k)"
    using ptrs_up_eq [OF i in1] by blast
  note h = same_outside_hdr [OF q0(2)]
  have l0: "length q0 = psize" using q0(2) len by (simp add: same_outside_def)
  let ?q = "wr q0 (16 + 2 * i) 2 ofs"
  define q1 where "q1 = set_mp_lower (mp_lower p + 2) (set_mp_upper ofs ?q)"
  have i2: "16 + 2 * i + 2 \<le> psize" using in1 i len by simp
  have ofsb: "ofs < 65536" "mp_lower p + 2 < 65536" using ofs len room by auto
  have s: "sub16 (mp_upper p) sz = ofs"
    using room ofs mp_bounds(2) [of p] by (simp add: sub16_def)
  have lq: "length ?q = psize" using l0 i2 by simp
  have hq: "mp_lower (set_mp_upper ofs ?q) = mp_lower p"
    using l0 i2 len h by (simp add: page_simps)
  have l1: "length q1 = psize" using lq len by (simp add: q1_def)
  have hd: "mp_flags q1 = mp_flags p" "mp_pgno q1 = mp_pgno p" "mp_pad q1 = mp_pad p" "mp_lower q1 = mp_lower p + 2" "mp_upper q1 = ofs"
    unfolding q1_def using l0 i2 len h ofsb by (simp_all add: page_simps)
  have pts: "pt q1 k = (if k = i then ofs else if i < k then pt p (k - 1) else pt p k)" if "k \<le> NUMKEYS p" for k
  proof -
    have k: "16 + 2 * k + 2 \<le> psize" using that in1 len by simp
    have "pt q1 k = pt ?q k"
      unfolding q1_def pt_def using k l0 i2 len by (simp add: page_simps)
    also have "\<dots> = (if k = i then ofs else pt q0 k)" using pt_wr [of i q0 k ofs] k i2 l0 ofsb by simp
    finally show ?thesis using q0(3) that by simp
  qed
  have up: "slice q1 a n = slice p a n" if "mp_upper p \<le> a" for a n
  proof -
    have so: "same_outside q1 p 0 (16 + 2 * NUMKEYS p + 2)"
      unfolding q1_def hdr_set_defs
      by (intro same_outside_wr) (use q0(2) i in1 in \<open>auto simp: same_outside_def\<close>)
    show ?thesis by (rule same_outside_high [OF so]) (use that lower room in simp)
  qed
  show thesis
    by (rule that [OF q0(1) h(5,4) s l0 i2 q1_def hq l1 hd pts up])
qed

lemma node_header_splice:
  assumes "n + 8 \<le> length p"
  shows "wr (wr (wr p (n + 6) 2 ks) (n + 4) 2 fl) n 4 d = splice p n (le_enc 4 d @ le_enc 2 fl @ le_enc 2 ks)"
proof -
  have "wr (wr p (n + 6) 2 ks) (n + 4) 2 fl = splice p (n + 4) (le_enc 2 fl @ le_enc 2 ks)"
    using splice_append_before [of "n + 4" "le_enc 2 fl" "le_enc 2 ks" p] assms
    by (simp add: wr_def add.commute)
  then show ?thesis
    using splice_append_before [of n "le_enc 4 d" "le_enc 2 fl @ le_enc 2 ks" p] assms by (simp add: wr_def)
qed

lemma hdr_fields [simp]:
  "rd (le_enc 4 d @ le_enc 2 f @ le_enc 2 k @ xs) 0 4 = d mod 2 ^ 32"
  "rd (le_enc 4 d @ le_enc 2 f @ le_enc 2 k @ xs) 4 2 = f mod 2 ^ 16"
  "rd (le_enc 4 d @ le_enc 2 f @ le_enc 2 k @ xs) 6 2 = k mod 2 ^ 16"
  "rd (le_enc 4 d @ le_enc 2 f @ le_enc 2 k) 6 2 = k mod 2 ^ 16"
  by (simp_all add: rd_def slice_def)

lemma hdr6_fields [simp]:
  "rd (le_enc 6 d @ le_enc 2 k @ xs) 6 2 = k mod 2 ^ 16"
  by (simp_all add: rd_def slice_def)

lemma node_len_slice:
  "8 \<le> n \<Longrightarrow> a + n \<le> length q \<Longrightarrow> node_len l q a = node_len l (slice q a n) 0"
  by (rule node_len_cong) (simp_all add: slice_slice)

lemma node_len_leaf_node [simp]:
  "length k < 65536 \<Longrightarrow> d < 2 ^ 32 \<Longrightarrow>
    node_len True (leaf_node d f k b) 0 = 8 + length k + (if F_ISSET (of_nat f :: u16) 1 then 8 else d)"
proof -
  assume l: "length k < 65536" "d < 2 ^ 32"
  have "(of_nat (f mod 65536) :: u16) = of_nat f"
    by (simp only: word_unat_eq_iff unsigned_of_nat take_bit_eq_mod) simp
  then show ?thesis using l by (simp add: node_len_def leaf_node_def)
qed

lemma node_len_branch_node [simp]:
  "length k < 65536 \<Longrightarrow> node_len False (branch_node g k) 0 = 8 + length k"
  by (simp add: node_len_def branch_node_def)

lemma node_insert_ok:
  assumes ok: "page_ok psize p" and i: "i \<le> NUMKEYS p"
    and room: "mp_lower p + 2 + EVEN (length nb) \<le> mp_upper p"
    and ofs: "ofs = mp_upper p - EVEN (length nb)"
    and q1: "length q1 = psize" "mp_flags q1 = mp_flags p" "mp_pgno q1 = mp_pgno p" "mp_lower q1 = mp_lower p + 2"
      "mp_upper q1 = ofs"
    and pts: "\<And>k. k \<le> NUMKEYS p \<Longrightarrow> pt q1 k = (if k = i then ofs else if i < k then pt p (k - 1) else pt p k)"
    and up: "\<And>a n. mp_upper p \<le> a \<Longrightarrow> slice q1 a n = slice p a n"
    and nb: "8 \<le> length nb" "node_len (IS_LEAF p) nb 0 = length nb"
  shows "page_ok psize (splice q1 ofs nb) \<and>
    page_nodes (splice q1 ofs nb) = take i (page_nodes p) @ nb # drop i (page_nodes p) \<and>
    mp_flags (splice q1 ofs nb) = mp_flags p \<and> mp_pgno (splice q1 ofs nb) = mp_pgno p"
proof -
  let ?q = "splice q1 ofs nb"
  have len: "length p = psize" "psize < 65536" "16 \<le> mp_lower p" "mp_upper p \<le> psize"
    using ok by (auto simp: page_ok_def)
  have lower: "mp_lower p = 16 + 2 * NUMKEYS p" by (rule page_ok_lower [OF ok])
  have e: "length nb \<le> EVEN (length nb)" by (rule EVEN_bounds)
  have fit: "ofs + EVEN (length nb) = mp_upper p" "ofs + length nb \<le> mp_upper p" "ofs + length nb \<le> psize"
    "mp_lower p + 2 \<le> ofs" "16 \<le> ofs"
    using room ofs e len by auto
  have lq: "length ?q = psize" using fit q1 by simp
  have hq: "mp_flags ?q = mp_flags p" "mp_pgno ?q = mp_pgno p" "mp_lower ?q = mp_lower p + 2" "mp_upper ?q = ofs"
    using fit q1 by (simp_all add: page_simps)
  have leaf: "IS_LEAF ?q = IS_LEAF p" by (simp add: IS_LEAF_def hq)
  have sl: "slice ?q ofs (length nb) = nb" using fit q1 by simp
  have nl: "node_len (IS_LEAF p) ?q ofs = length nb"
    using node_len_slice [OF nb(1), of ofs ?q "IS_LEAF p"] fit lq sl nb(2) by simp
  have nk: "NUMKEYS ?q = Suc (NUMKEYS p)"
    using NUMKEYS_eq [of ?q] hq(3) lower by simp
  have ptq: "pt ?q k = (if k = i then ofs else if i < k then pt p (k - 1) else pt p k)" if "k \<le> NUMKEYS p" for k
  proof -
    have "pt ?q k = pt q1 k"
      unfolding pt_def using that lower fit q1(1) by (intro rd_splice_disj) auto
    then show ?thesis using pts [OF that] by simp
  qed
  have pq: "ptrs ?q = take i (ptrs p) @ ofs # drop i (ptrs p)"
  proof (rule nth_equalityI)
    show "length (ptrs ?q) = length (take i (ptrs p) @ ofs # drop i (ptrs p))" using nk i by simp
    fix k assume "k < length (ptrs ?q)"
    then show "ptrs ?q ! k = (take i (ptrs p) @ ofs # drop i (ptrs p)) ! k"
      using nk i ptq [of k] by (auto simp: nth_append nth_Cons' min_def)
  qed
  have keep: "slice ?q a n = slice p a n" if "mp_upper p \<le> a" "a + n \<le> psize" for a n
    using up [OF that(1), of n] that fit q1(1) by (simp add: slice_splice_disj)
  have "page_ok psize ?q \<and> page_nodes ?q = take i (page_nodes p) @ node_bytes ?q ofs # drop i (page_nodes p)"
    by (rule page_insert [OF ok i _ leaf hq(3,4) pq keep]) (use lq len fit nl leaf in \<open>auto simp: extent_def\<close>)
  moreover have "node_bytes ?q ofs = nb" by (simp add: node_bytes_def leaf nl sl)
  ultimately show ?thesis using hq by simp
qed

text \<open>What \<open>mdb_node_add\<close> puts behind the key, and the flags it stores.\<close>

definition leaf_body :: "dataval \<Rightarrow> u32 \<Rightarrow> u64 option \<Rightarrow> bytes" where
  "leaf_body d flags ofp = (case ofp of Some g \<Rightarrow> le_enc 8 (unat g)
     | None \<Rightarrow> if F_ISSET flags F_BIGDATA then take 8 (mv_data d) else take (mv_size d) (mv_data d))"

definition data_ok :: "dataval \<Rightarrow> u32 \<Rightarrow> u64 option \<Rightarrow> bool" where
  "data_ok d flags ofp \<longleftrightarrow> mv_size d < 2 ^ 32 \<and> \<not> F_ISSET flags MDB_RESERVE \<and>
     (case ofp of Some g \<Rightarrow> F_ISSET flags F_BIGDATA
      | None \<Rightarrow> (if F_ISSET flags F_BIGDATA then 8 else mv_size d) \<le> length (mv_data d))"

lemma F_ISSET_1: "F_ISSET w 1 = bit w 0"
  by (simp add: F_ISSET_def and_one_eq bit_0 odd_iff_mod_2_eq_one)

lemma big_flag: "F_ISSET (of_nat (unat (flags :: u32)) :: u16) 1 = F_ISSET flags F_BIGDATA"
  by (simp add: F_BIGDATA_def F_ISSET_1 bit_of_nat_iff bit_unsigned_iff)

lemma big_flag_ucast: "F_ISSET (ucast (flags :: u32) :: u16) 1 = F_ISSET flags F_BIGDATA"
  by (simp add: F_BIGDATA_def F_ISSET_1 bit_ucast_iff)

lemma node_add_update_leaf:
  assumes ok: "page_ok psize p" and leaf: "IS_LEAF p" and i: "i \<le> NUMKEYS p"
    and k: "length k < 65536" and d: "data_ok d flags ofp"
    and sz: "sz = EVEN (8 + length k + length (leaf_body d flags ofp))"
    and room: "mp_lower p + 2 + sz \<le> mp_upper p"
  shows "\<exists>q. node_add_update p i (Some k) (Some d) pgno flags sz ofp = Some (q, None) \<and>
    page_ok psize q \<and> mp_flags q = mp_flags p \<and> mp_pgno q = mp_pgno p \<and>
    page_nodes q = take i (page_nodes p) @
      leaf_node (mv_size d) (unat flags) k (leaf_body d flags ofp) # drop i (page_nodes p)"
proof -
  define body where "body = leaf_body d flags ofp"
  define nb where "nb = leaf_node (mv_size d) (unat flags) k body"
  define ofs where "ofs = mp_upper p - sz"
  have lnb: "length nb = 8 + length k + length body" by (simp add: nb_def leaf_node_def)
  have lb: "length body = (if F_ISSET flags F_BIGDATA then 8 else mv_size d)"
    using d by (auto simp: body_def leaf_body_def data_ok_def split: option.splits)
  have szn: "sz = EVEN (length nb)" by (simp add: sz lnb body_def)
  obtain q0 q1 where s: "ptrs_up p (NUMKEYS p) i = Some q0" "mp_upper q0 = mp_upper p" "mp_lower q0 = mp_lower p"
    "sub16 (mp_upper p) sz = ofs" "length q0 = psize" "16 + 2 * i + 2 \<le> psize"
    and q1: "q1 = set_mp_lower (mp_lower p + 2) (set_mp_upper ofs (wr q0 (16 + 2 * i) 2 ofs))"
    "mp_lower (set_mp_upper ofs (wr q0 (16 + 2 * i) 2 ofs)) = mp_lower p"
    and q1': "length q1 = psize" "mp_flags q1 = mp_flags p" "mp_pgno q1 = mp_pgno p" "mp_lower q1 = mp_lower p + 2" "mp_upper q1 = ofs"
    and pts: "\<And>k. k \<le> NUMKEYS p \<Longrightarrow> pt q1 k = (if k = i then ofs else if i < k then pt p (k - 1) else pt p k)"
    and up: "\<And>a n. mp_upper p \<le> a \<Longrightarrow> slice q1 a n = slice p a n"
    using node_slot [OF ok i room ofs_def] by metis
  have e: "length nb \<le> sz" unfolding szn by (rule EVEN_bounds)
  have fit: "ofs + 8 + length k + length body \<le> psize" "mp_lower p + 2 \<le> ofs" "16 \<le> ofs"
    using room e lnb ok unfolding ofs_def by (auto simp: page_ok_def)
  have leaf1: "IS_LEAF q1" using leaf q1' by (simp add: IS_LEAF_def)
  have np: "NODEPTR q1 i = Some ofs" using s(6) q1'(1) pts [OF i] by (simp add: NODEPTR_def)
  let ?h = "le_enc 4 (mv_size d) @ le_enc 2 (unat flags) @ le_enc 2 (length k)"
  let ?p2 = "wr (wr q1 (ofs + 6) 2 (length k)) (ofs + 4) 2 (unat flags)"
  have l2: "length ?p2 = psize" using fit q1'(1) by simp
  have leaf2: "IS_LEAF ?p2" using leaf1 fit q1'(1) by (simp add: IS_LEAF_def page_simps)
  have sd: "SETDSZ ?p2 ofs (mv_size d) = Some (splice q1 ofs ?h)"
    using SETDSZ_eq [of ofs ?p2 "mv_size d"] node_header_splice [of ofs q1] fit q1'(1) l2 by simp
  define m3 where "m3 = splice q1 ofs (?h @ k)"
  have ky: "put_bytes (splice q1 ofs ?h) (NODEKEY ofs) k = Some m3"
    using splice_append_after [of ofs ?h k q1] fit q1'(1) by (simp add: m3_def NODEKEY_def)
  have leaf3: "IS_LEAF m3" using leaf1 fit q1'(1) by (simp add: m3_def IS_LEAF_def page_simps)
  have nd: "NODEDATA m3 ofs = Some (ofs + 8 + length k)"
    using fit q1'(1) k by (simp add: m3_def NODEDATA_def mn_ksize_def rd_splice_in)
  have bd: "put_bytes m3 (ofs + 8 + length k) body = Some (splice q1 ofs nb)"
    using splice_append_after [of ofs "?h @ k" body q1] fit q1'(1) by (simp add: m3_def nb_def leaf_node_def add.assoc)
  have run: "node_add_update p i (Some k) (Some d) pgno flags sz ofp = Some (splice q1 ofs nb, None)"
  proof -
    have "node_add_update p i (Some k) (Some d) pgno flags sz ofp = (do {
        ndata \<leftarrow> NODEDATA m3 ofs;
        case ofp of
         None \<Rightarrow>
           if F_ISSET flags F_BIGDATA then do {
             bs \<leftarrow> get_bytes (mv_data d) 0 8; mp \<leftarrow> put_bytes m3 ndata bs; Some (mp, None) }
           else if F_ISSET flags MDB_RESERVE then Some (m3, Some ndata)
           else do { bs \<leftarrow> get_bytes (mv_data d) 0 (mv_size d); mp \<leftarrow> put_bytes m3 ndata bs; Some (mp, None) }
       | Some g \<Rightarrow> do { mp \<leftarrow> put_bytes m3 ndata (le_enc 8 (unat g)); Some (mp, None) } })"
      using s fit(2) q1(2) np fit q1'(1) leaf2 sd ky leaf3
      by (simp add: node_add_update_def Let_def q1(1) [symmetric] del: add_2_eq_Suc add_2_eq_Suc')
    also have "\<dots> = Some (splice q1 ofs nb, None)"
      using nd bd d by (auto simp: body_def leaf_body_def data_ok_def slice_def split: option.splits)
    finally show ?thesis .
  qed
  have nl: "node_len (IS_LEAF p) nb 0 = length nb"
    using leaf k d lb lnb by (simp add: nb_def data_ok_def big_flag_ucast)
  have "page_ok psize (splice q1 ofs nb) \<and>
    page_nodes (splice q1 ofs nb) = take i (page_nodes p) @ nb # drop i (page_nodes p) \<and>
    mp_flags (splice q1 ofs nb) = mp_flags p \<and> mp_pgno (splice q1 ofs nb) = mp_pgno p"
    by (rule node_insert_ok [OF ok i _ _ q1' pts up _ nl]) (use room szn ofs_def lnb in auto)
  then show ?thesis using run by (simp add: nb_def body_def)
qed

lemma unat_and_ffff: "unat ((g::u64) AND 0xffff) = unat g mod 65536"
proof -
  have "(0xffff :: u64) = mask 16" by (simp add: mask_eq_exp_minus_1)
  then have "g AND 0xffff = take_bit 16 g" by (simp only: take_bit_eq_mask)
  then have "unat (g AND 0xffff) = take_bit 16 (unat g)" by (simp only: unsigned_take_bit_eq)
  then show ?thesis by (simp only: take_bit_eq_mod) simp
qed

lemma unat_drop_bits:
  "unat (drop_bit 16 (g::u64)) = unat g div 65536" "unat (drop_bit 32 (g::u64)) = unat g div 65536 div 65536"
  unfolding unat_drop_bit_eq by (simp_all add: drop_bit_eq_div flip: div_mult2_eq)

lemma SETPGNO_eq: "n + 6 \<le> length p \<Longrightarrow> SETPGNO p n g = Some (wr p n 6 (unat g))"
proof -
  assume l: "n + 6 \<le> length p"
  have a: "le_enc 2 (unat g mod 65536) = le_enc 2 (unat g)" by (simp add: le_enc_eq_iff)
  have c: "le_enc 6 (unat g) = le_enc 2 (unat g) @ le_enc 2 (unat g div 65536) @ le_enc 2 (unat g div 65536 div 65536)"
    using le_enc_append [of 2 4 "unat g"] le_enc_append [of 2 2 "unat g div 65536"] by simp
  have "splice (splice (splice p n (le_enc 2 (unat g))) (n + 2) (le_enc 2 (unat g div 65536))) (n + 4)
      (le_enc 2 (unat g div 65536 div 65536)) = splice p n (le_enc 6 (unat g))"
    unfolding c using l splice_append_after [of n "le_enc 2 (unat g)" "le_enc 2 (unat g div 65536)" p]
      splice_append_after [of n "le_enc 2 (unat g) @ le_enc 2 (unat g div 65536)"
        "le_enc 2 (unat g div 65536 div 65536)" p] by simp
  then show ?thesis
    using l by (simp add: SETPGNO_def wr_def unat_and_ffff unat_drop_bits a del: add_2_eq_Suc add_2_eq_Suc')
qed

lemma unat_of_nat_inv: "(of_nat (unat (x :: 'a::len word)) :: 'a word) = x"
  by simp

lemma NODEPGNO_eq: "n + 6 \<le> length p \<Longrightarrow> NODEPGNO p n = Some (of_nat (rd p n 6))"
proof -
  assume l: "n + 6 \<le> length p"
  define a where "a = rd p n 2" define b where "b = rd p (n + 2) 2" define c where "c = rd p (n + 4) 2"
  have lt: "a < 65536" "b < 65536" "c < 65536"
    using rd_less [of p n 2] rd_less [of p "n + 2" 2] rd_less [of p "n + 4" 2] by (simp_all add: a_def b_def c_def)
  have ua: "unat (of_nat a :: u64) = a" "unat (of_nat b :: u64) = b" using lt by (simp_all add: unsigned_of_nat take_bit_nat_eq_self)
  have uc: "unat (ucast (of_nat c :: u16) :: u64) = c"
    using lt by (simp add: unsigned_ucast_eq unsigned_of_nat take_bit_nat_eq_self)
  have pb: "unat (push_bit 16 (of_nat b :: u64)) = push_bit 16 b" "unat (push_bit 32 (ucast (of_nat c :: u16) :: u64)) = push_bit 32 c"
    using lt by (simp_all only: unsigned_push_bit_eq ua uc) (simp_all add: push_bit_eq_mult take_bit_nat_eq_self)
  have "unat (of_nat a OR push_bit 16 (of_nat b) OR push_bit 32 (ucast (of_nat c :: u16)) :: u64)
      = a OR push_bit 16 b OR push_bit 32 c"
    by (simp only: unsigned_or_eq ua pb)
  also have "\<dots> = a OR push_bit 16 (b OR push_bit 16 c)"
    by (rule bit_eqI) (auto simp: bit_simps)
  also have "\<dots> = a + 65536 * (b + 65536 * c)" using lt by (simp add: or_shift_16)
  also have "\<dots> = rd p n 6"
  proof -
    have "slice p n 6 = slice p n 2 @ slice p (n + 2) 2 @ slice p (n + 4) 2"
      using slice_append [of p n 2 4] slice_append [of p "n + 2" 2 2]
      by (simp add: add.assoc del: add_2_eq_Suc add_2_eq_Suc')
    then show ?thesis using l by (simp add: a_def b_def c_def rd_def le_dec_append)
  qed
  finally have "of_nat (rd p n 6) = (of_nat (unat (of_nat a OR push_bit 16 (of_nat b) OR push_bit 32 (ucast (of_nat c :: u16)) :: u64)) :: u64)"
    by (simp only:)
  then have "of_nat (rd p n 6) = (of_nat a OR push_bit 16 (of_nat b) OR push_bit 32 (ucast (of_nat c :: u16)) :: u64)"
    by (simp only: unat_of_nat_inv)
  then show ?thesis using l by (simp add: NODEPGNO_def mn_lo_def mn_hi_def mn_flags_def a_def b_def c_def)
qed

lemma branch_header_splice:
  assumes "n + 8 \<le> length p"
  shows "wr (wr (wr p (n + 6) 2 ks) (n + 4) 2 fl) n 6 d = splice p n (le_enc 6 d @ le_enc 2 ks)"
  using assms by (intro nth_equalityI) (auto simp: wr_def nth_splice nth_append)

lemma node_add_update_branch:
  assumes ok: "page_ok psize p" and leaf: "\<not> IS_LEAF p" and i: "i \<le> NUMKEYS p"
    and k: "length k < 65536" "key = None \<and> k = [] \<or> key = Some k"
    and sz: "sz = EVEN (8 + length k)"
    and room: "mp_lower p + 2 + sz \<le> mp_upper p"
  shows "\<exists>q. node_add_update p i key data pgno flags sz ofp = Some (q, None) \<and>
    page_ok psize q \<and> mp_flags q = mp_flags p \<and> mp_pgno q = mp_pgno p \<and>
    page_nodes q = take i (page_nodes p) @ branch_node pgno k # drop i (page_nodes p)"
proof -
  define nb where "nb = branch_node pgno k"
  define ofs where "ofs = mp_upper p - sz"
  have lnb: "length nb = 8 + length k" by (simp add: nb_def branch_node_def)
  have szn: "sz = EVEN (length nb)" by (simp add: sz lnb)
  obtain q0 q1 where s: "ptrs_up p (NUMKEYS p) i = Some q0" "mp_upper q0 = mp_upper p" "mp_lower q0 = mp_lower p"
    "sub16 (mp_upper p) sz = ofs" "length q0 = psize" "16 + 2 * i + 2 \<le> psize"
    and q1: "q1 = set_mp_lower (mp_lower p + 2) (set_mp_upper ofs (wr q0 (16 + 2 * i) 2 ofs))"
    "mp_lower (set_mp_upper ofs (wr q0 (16 + 2 * i) 2 ofs)) = mp_lower p"
    and q1': "length q1 = psize" "mp_flags q1 = mp_flags p" "mp_pgno q1 = mp_pgno p" "mp_lower q1 = mp_lower p + 2" "mp_upper q1 = ofs"
    and pts: "\<And>k. k \<le> NUMKEYS p \<Longrightarrow> pt q1 k = (if k = i then ofs else if i < k then pt p (k - 1) else pt p k)"
    and up: "\<And>a n. mp_upper p \<le> a \<Longrightarrow> slice q1 a n = slice p a n"
    using node_slot [OF ok i room ofs_def] by metis
  have e: "length nb \<le> sz" unfolding szn by (rule EVEN_bounds)
  have fit: "ofs + 8 + length k \<le> psize" "mp_lower p + 2 \<le> ofs" "16 \<le> ofs"
    using room e lnb ok unfolding ofs_def by (auto simp: page_ok_def)
  have leaf1: "\<not> IS_LEAF q1" using leaf q1' by (simp add: IS_LEAF_def)
  have np: "NODEPTR q1 i = Some ofs" using s(6) q1'(1) pts [OF i] by (simp add: NODEPTR_def)
  let ?h = "le_enc 6 (unat pgno) @ le_enc 2 (length k)"
  let ?p2 = "wr (wr q1 (ofs + 6) 2 (length k)) (ofs + 4) 2 (unat flags)"
  have l2: "length ?p2 = psize" using fit q1'(1) by simp
  have leaf2: "\<not> IS_LEAF ?p2" using leaf1 fit q1'(1) by (simp add: IS_LEAF_def page_simps)
  have sd: "SETPGNO ?p2 ofs pgno = Some (splice q1 ofs ?h)"
    using SETPGNO_eq [of ofs ?p2 pgno] branch_header_splice [of ofs q1] fit q1'(1) l2 by simp
  have ky: "(case key of None \<Rightarrow> Some (splice q1 ofs ?h) | Some k \<Rightarrow> put_bytes (splice q1 ofs ?h) (NODEKEY ofs) k)
      = Some (splice q1 ofs nb)"
    using splice_append_after [of ofs ?h k q1] fit q1'(1) k(2)
    by (auto simp: NODEKEY_def nb_def branch_node_def)
  have leaf3: "\<not> IS_LEAF (splice q1 ofs nb)" using leaf1 fit q1'(1) lnb by (simp add: IS_LEAF_def page_simps)
  have kl: "(case key of None \<Rightarrow> 0 | Some k \<Rightarrow> length k) = length k" using k(2) by auto
  have run: "node_add_update p i key data pgno flags sz ofp = Some (splice q1 ofs nb, None)"
    using s fit(2) q1(2) np fit q1'(1) leaf2 sd ky leaf3 kl
    by (simp add: node_add_update_def Let_def q1(1) [symmetric] del: add_2_eq_Suc add_2_eq_Suc')
  have nl: "node_len (IS_LEAF p) nb 0 = length nb" using leaf k lnb by (simp add: nb_def)
  have "page_ok psize (splice q1 ofs nb) \<and>
    page_nodes (splice q1 ofs nb) = take i (page_nodes p) @ nb # drop i (page_nodes p) \<and>
    mp_flags (splice q1 ofs nb) = mp_flags p \<and> mp_pgno (splice q1 ofs nb) = mp_pgno p"
    by (rule node_insert_ok [OF ok i _ _ q1' pts up _ nl]) (use room szn ofs_def lnb in auto)
  then show ?thesis using run by (simp add: nb_def)
qed

lemma flags_or_big: "F_ISSET (flags OR F_BIGDATA) F_BIGDATA"
  "F_ISSET (flags OR F_BIGDATA) MDB_RESERVE = F_ISSET flags MDB_RESERVE"
  by (simp_all add: F_ISSET_def node_flag_defs bit.conj_disj_distrib2)

lemma OVPAGES_bounds:
  assumes "0 < psize"
  shows "16 + n \<le> OVPAGES n psize * psize" "(OVPAGES n psize - 1) * psize < 16 + n"
proof -
  define a where "a = (15 + n) div psize * psize"
  have "a + (15 + n) mod psize = 15 + n" unfolding a_def by simp
  moreover have "(15 + n) mod psize < psize" using assms by simp
  ultimately have "16 + n \<le> psize + a" "a < 16 + n" by linarith+
  then show "16 + n \<le> OVPAGES n psize * psize" "(OVPAGES n psize - 1) * psize < 16 + n"
    by (simp_all add: OVPAGES_def a_def)
qed

text \<open>C24: on a well-formed leaf page, \<open>mdb_node_add\<close> refuses a node exactly when the free space
  is too small for it and its index slot; otherwise it cannot fail, keeps the page well
  formed (pointers in range, nodes disjoint) and inserts exactly the new node at the index, all other
  nodes unchanged. Data that would make the node larger than \<open>me_nodemax\<close> is replaced by the number
  of an overflow run that is just large enough.\<close>

theorem node_add_leaf_correct:
  assumes ok: "page_ok psize p" "IS_LEAF p" "i \<le> NUMKEYS p"
    and k: "length k < 65536" and d: "mv_size d < 2 ^ 32" "mv_size d \<le> length (mv_data d)"
    and fl: "\<not> F_ISSET flags F_BIGDATA" "\<not> F_ISSET flags MDB_RESERVE"
  shows "case node_add_plan nodemax psize p (Some k) (Some d) flags of
      None \<Rightarrow> False
    | Some Add_full \<Rightarrow> mp_upper p < mp_lower p + 2 +
        EVEN (8 + length k + (if 8 + length k + mv_size d > nodemax then 8 else mv_size d))
    | Some (Add_fits n) \<Rightarrow> 8 + length k + mv_size d \<le> nodemax \<and>
        (\<exists>q. node_add_update p i (Some k) (Some d) 0 flags n None = Some (q, None) \<and>
          page_ok psize q \<and> mp_flags q = mp_flags p \<and> mp_pgno q = mp_pgno p \<and>
          page_nodes q = take i (page_nodes p) @
            leaf_node (mv_size d) (unat flags) k (take (mv_size d) (mv_data d)) # drop i (page_nodes p))
    | Some (Add_overflow np n) \<Rightarrow> 8 + length k + mv_size d > nodemax \<and>
        16 + mv_size d \<le> np * psize \<and> (np - 1) * psize < 16 + mv_size d \<and>
        (\<forall>g. \<exists>q. node_add_update p i (Some k) (Some d) 0 (flags OR F_BIGDATA) n (Some g) = Some (q, None) \<and>
          page_ok psize q \<and> mp_flags q = mp_flags p \<and> mp_pgno q = mp_pgno p \<and>
          page_nodes q = take i (page_nodes p) @
            leaf_node (mv_size d) (unat (flags OR F_BIGDATA)) k (le_enc 8 (unat g)) # drop i (page_nodes p))"
proof -
  have up: "mp_lower p \<le> mp_upper p" "16 \<le> psize" using ok(1) by (auto simp: page_ok_def)
  have sl: "SIZELEFT p = mp_upper p - mp_lower p" by (rule SIZELEFT_eq [OF up(1)])
  show ?thesis
  proof (cases "8 + length k + mv_size d > nodemax")
    case big: True
    let ?n = "EVEN (8 + length k + 8)"
    have plan: "node_add_plan nodemax psize p (Some k) (Some d) flags =
        Some (if int ?n > int (SIZELEFT p) - 2 then Add_full else Add_overflow (OVPAGES (mv_size d) psize) ?n)"
      using up big ok(2) fl by (simp add: node_add_plan_def INDXSIZE_def Let_def)
    show ?thesis
    proof (cases "int ?n > int (SIZELEFT p) - 2")
      case True
      then show ?thesis using plan big up sl by simp
    next
      case False
      have "\<exists>q. node_add_update p i (Some k) (Some d) 0 (flags OR F_BIGDATA) ?n (Some g) = Some (q, None) \<and>
          page_ok psize q \<and> mp_flags q = mp_flags p \<and> mp_pgno q = mp_pgno p \<and>
          page_nodes q = take i (page_nodes p) @
            leaf_node (mv_size d) (unat (flags OR F_BIGDATA)) k (le_enc 8 (unat g)) # drop i (page_nodes p)" for g
        using node_add_update_leaf [OF ok k, of d "flags OR F_BIGDATA" "Some g" ?n 0] False sl up d fl
        by (simp add: data_ok_def flags_or_big leaf_body_def)
      then show ?thesis using plan False big OVPAGES_bounds [of psize "mv_size d"] up by simp
    qed
  next
    case small: False
    let ?n = "EVEN (8 + length k + mv_size d)"
    have plan: "node_add_plan nodemax psize p (Some k) (Some d) flags =
        Some (if int ?n > int (SIZELEFT p) - 2 then Add_full else Add_fits ?n)"
      using up small ok(2) fl by (simp add: node_add_plan_def INDXSIZE_def Let_def)
    show ?thesis
    proof (cases "int ?n > int (SIZELEFT p) - 2")
      case True
      then show ?thesis using plan small up sl by simp
    next
      case False
      have "\<exists>q. node_add_update p i (Some k) (Some d) 0 flags ?n None = Some (q, None) \<and>
          page_ok psize q \<and> mp_flags q = mp_flags p \<and> mp_pgno q = mp_pgno p \<and>
          page_nodes q = take i (page_nodes p) @
            leaf_node (mv_size d) (unat flags) k (take (mv_size d) (mv_data d)) # drop i (page_nodes p)"
        using node_add_update_leaf [OF ok k, of d flags None ?n 0] False sl up d fl
        by (simp add: data_ok_def leaf_body_def min_absorb2)
      then show ?thesis using plan False small by simp
    qed
  qed
qed

text \<open>on a well-formed branch page, \<open>mdb_node_add\<close> refuses a node exactly when it does not fit,
  and otherwise inserts the child pointer with its (possibly absent) key at the index, keeping the
  page well formed and all other nodes unchanged.\<close>

theorem node_add_branch_correct:
  assumes ok: "page_ok psize p" "\<not> IS_LEAF p" "i \<le> NUMKEYS p"
    and k: "length k < 65536" "key = None \<and> k = [] \<or> key = Some k"
  shows "case node_add_plan nodemax psize p key None flags of
      Some Add_full \<Rightarrow> mp_upper p < mp_lower p + 2 + EVEN (8 + length k)
    | Some (Add_fits n) \<Rightarrow>
        (\<exists>q. node_add_update p i key None pgno flags n None = Some (q, None) \<and>
          page_ok psize q \<and> mp_flags q = mp_flags p \<and> mp_pgno q = mp_pgno p \<and>
          page_nodes q = take i (page_nodes p) @ branch_node pgno k # drop i (page_nodes p))
    | _ \<Rightarrow> False"
proof -
  have up: "mp_lower p \<le> mp_upper p" using ok(1) by (auto simp: page_ok_def)
  have sl: "SIZELEFT p = mp_upper p - mp_lower p" by (rule SIZELEFT_eq [OF up])
  let ?n = "EVEN (8 + length k)"
  have plan: "node_add_plan nodemax psize p key None flags =
      Some (if int ?n > int (SIZELEFT p) - 2 then Add_full else Add_fits ?n)"
    using up ok(2) k(2) by (auto simp: node_add_plan_def INDXSIZE_def Let_def)
  show ?thesis
    using node_add_update_branch [OF ok k refl, of None pgno flags None] plan sl up
    by (cases "int ?n > int (SIZELEFT p) - 2") auto
qed

section \<open>Deleting a node\<close>

lemma node_del_nodes:
  assumes ok: "page_ok psize p" and l2: "\<not> IS_LEAF2 p" and i: "i < NUMKEYS p"
  shows "\<exists>q. mdb_node_del p i ksize = Some q \<and> page_ok psize q \<and>
    page_nodes q = take i (page_nodes p) @ drop (Suc i) (page_nodes p) \<and>
    mp_flags q = mp_flags p \<and> mp_pgno q = mp_pgno p \<and>
    SIZELEFT q = SIZELEFT p + EVEN (length (page_nodes p ! i)) + 2"
proof -
  note lower = page_ok_lower [OF ok]
  have len: "length p = psize" "psize < 65536" "mp_lower p \<le> mp_upper p" "mp_upper p \<le> psize"
    "mp_upper p < 65536" "mp_lower p < 65536"
    using ok mp_bounds by (auto simp: page_ok_def)
  have nk: "NUMKEYS p mod 2 ^ 16 = NUMKEYS p" "NUMKEYS p mod 65536 = NUMKEYS p" using lower len by auto
  define ptr where "ptr = ptrs p ! i"
  define sz where "sz = extent p ptr"
  have pin: "ptr \<in> set (ptrs p)" unfolding ptr_def using i by (intro nth_mem) simp
  note okp = page_okD [OF ok pin]
  have ptri: "pt p i = ptr" using i by (simp add: ptr_def)
  have nl: "node_len (IS_LEAF p) p ptr \<le> sz" "8 \<le> sz" "sz \<le> psize"
    using EVEN_bounds(1) extent_ge [of p ptr] okp(2) by (auto simp: sz_def extent_def)
  have inp: "ptr + 8 \<le> length p" "16 + 2 * i + 2 \<le> length p" using okp nl sz_def lower i len by auto
  have szc: "(do {
       ks \<leftarrow> mn_ksize p ptr;
       let sz = NODESIZE + ks;
       if IS_LEAF p then do {
          f \<leftarrow> mn_flags p ptr;
          if F_ISSET (ucast f) F_BIGDATA then Some (sz + 8)
          else do { d \<leftarrow> NODEDSZ p ptr; Some ((sz + d) mod 2 ^ 32) } }
       else Some sz }) = Some (node_len (IS_LEAF p) p ptr)"
  proof -
    have b: "F_ISSET (ucast (f :: u16) :: u32) F_BIGDATA = F_ISSET f 1" for f
      by (simp add: F_BIGDATA_def F_ISSET_1 bit_ucast_iff)
    have "node_len (IS_LEAF p) p ptr < 2 ^ 32" using nl len by simp
    then show ?thesis
      using inp(1) by (auto simp: Let_def mn_ksize_def mn_flags_def NODEDSZ_eq node_len_def b)
  qed
  have ev: "EVEN (node_len (IS_LEAF p) p ptr) mod 2 ^ 32 = sz"
    using nl(3) len(2) by (simp add: sz_def extent_def)
  have small: "\<forall>m. 0 \<le> m \<and> m < NUMKEYS p \<and> pt p m < ptr \<longrightarrow> pt p m + sz < 65536"
    using okp(2) len(2) sz_def by auto
  obtain q0 where q0: "del_ptrs p 0 0 (NUMKEYS p) i ptr sz = Some q0" "same_outside q0 p 16 (16 + 2 * NUMKEYS p)"
    "\<forall>k. k < NUMKEYS p - 1 \<longrightarrow> pt q0 k = (let v = pt p (if k < i then k else k + 1) in if v < ptr then v + sz else v)"
    using del_ptrs_eq [OF i, of p 0 0 ptr sz] small lower len by auto
  note h = same_outside_hdr [OF q0(2)]
  have l0: "length q0 = psize" using q0(2) len by (simp add: same_outside_def)
  define u where "u = mp_upper p"
  define bs where "bs = slice q0 u (ptr - u)"
  define q1 where "q1 = splice q0 (u + sz) bs"
  have u: "u \<le> ptr" "16 \<le> u" "mp_lower p \<le> u" using okp lower len by (auto simp: u_def)
  have lbs: "length bs = ptr - u" using u okp l0 sz_def by (simp add: bs_def)
  have mv: "move_bytes q0 (u + sz) u (ptr - u) = Some q1"
    using u okp l0 sz_def by (simp add: q1_def bs_def)
  have l1: "length q1 = psize" using l0 lbs okp u sz_def by (simp add: q1_def)
  have h1: "mp_lower q1 = mp_lower p" "mp_upper q1 = u" "mp_flags q1 = mp_flags p" "mp_pgno q1 = mp_pgno p"
    using h l0 lbs okp u sz_def by (simp_all add: q1_def page_simps u_def)
  define q where "q = set_mp_upper (u + sz) (set_mp_lower (mp_lower p - 2) q1)"
  have lq: "length q = psize" "16 \<le> psize" using l1 okp(4) lower len by (simp_all add: q_def)
  have hq: "mp_lower q = mp_lower p - 2" "mp_upper q = u + sz" "mp_flags q = mp_flags p" "mp_pgno q = mp_pgno p"
    using l1 lq(2) h1 len okp sz_def u by (simp_all add: q_def page_simps)
  have low2: "sub16 (mp_lower p) 2 = mp_lower p - 2" using lower i len by (simp add: sub16_def)
  have run: "mdb_node_del p i ksize = Some q"
  proof -
    have "mdb_node_del p i ksize = (do {
       sz \<leftarrow> (do {
         ks \<leftarrow> mn_ksize p ptr;
         let sz = NODESIZE + ks;
         if IS_LEAF p then do {
            f \<leftarrow> mn_flags p ptr;
            if F_ISSET (ucast f) F_BIGDATA then Some (sz + 8)
            else do { d \<leftarrow> NODEDSZ p ptr; Some ((sz + d) mod 2 ^ 32) } }
         else Some sz });
       let sz = EVEN sz mod 2 ^ 32;
       mp \<leftarrow> del_ptrs p 0 0 (NUMKEYS p) i ptr sz;
       let base = mp_upper mp;
       mp \<leftarrow> (if ptr < base then None else move_bytes mp (base + sz) base (ptr - base));
       let mp = set_mp_lower (sub16 (mp_lower mp) 2) mp;
       Some (set_mp_upper (mp_upper mp + sz) mp) })"
      using i l2 inp ptri nk by (simp add: mdb_node_del_def NODEPTR_def Let_def)
    also have "\<dots> = Some q"
      unfolding szc using ev q0(1) h u mv h1 low2 l1 lq(2)
      by (simp add: Let_def q_def u_def page_simps)
    finally show ?thesis .
  qed
  have nkq: "NUMKEYS q = NUMKEYS p - 1" using NUMKEYS_eq [of q] hq(1) lower i by simp
  have body: "slice q a n = slice q1 a n" if "16 \<le> a" "a + n \<le> psize" for a n
    using that l1 lq(2) by (simp add: q_def page_simps)
  have ptq: "pt q k = pt q0 k" if "k < NUMKEYS p - 1" for k
  proof -
    have "pt q k = pt q1 k" using body [of "16 + 2 * k" 2] that lower len(3,4) by (simp add: pt_def rd_def)
    also have "\<dots> = pt q0 k"
      unfolding pt_def q1_def using that lower u l0 lbs okp sz_def by (intro rd_splice_disj) auto
    finally show ?thesis .
  qed
  have pq: "ptrs q = map (\<lambda>x. if x < ptr then x + sz else x) (take i (ptrs p) @ drop (Suc i) (ptrs p))"
  proof (rule nth_equalityI)
    show "length (ptrs q) = length (map (\<lambda>x. if x < ptr then x + sz else x) (take i (ptrs p) @ drop (Suc i) (ptrs p)))"
      using nkq i by simp
    fix k assume "k < length (ptrs q)"
    then have k: "k < NUMKEYS p - 1" using nkq by simp
    have "pt q k = (let v = pt p (if k < i then k else k + 1) in if v < ptr then v + sz else v)"
      using ptq [OF k] q0(3) k by simp
    then show "ptrs q ! k = map (\<lambda>x. if x < ptr then x + sz else x) (take i (ptrs p) @ drop (Suc i) (ptrs p)) ! k"
      using k nkq i by (auto simp: nth_append Let_def)
  qed
  have above: "slice q0 a n = slice p a n" if "u \<le> a" for a n
    using same_outside_high [OF q0(2)] that u(3) lower by simp
  have "page_ok psize q \<and> page_nodes q = take i (page_nodes p) @ drop (Suc i) (page_nodes p)"
  proof (rule page_delete [OF ok i ptr_def sz_def _ _ _ _ pq])
    show "slice q (a + sz) n = slice p a n" if a: "mp_upper p \<le> a" "a + n \<le> ptr" for a n
    proof -
      have "slice q (a + sz) n = slice q1 (a + sz) n" using a u okp sz_def by (intro body) (auto simp: u_def)
      also have "\<dots> = slice bs (a - u) n"
        unfolding q1_def using a l0 lbs okp u sz_def slice_splice_in [of "u + sz" bs q0 "a + sz" n]
        by (simp add: u_def)
      also have "\<dots> = slice q0 a n" using a slice_slice [of "a - u" n "ptr - u" q0 u] by (simp add: bs_def u_def)
      finally show ?thesis using above a by (simp add: u_def)
    qed
    show "slice q a n = slice p a n" if a: "ptr + sz \<le> a" "a + n \<le> psize" for a n
    proof -
      have "slice q a n = slice q1 a n" using a u by (intro body) auto
      also have "\<dots> = slice q0 a n"
        unfolding q1_def using a l0 lbs u by (intro slice_splice_disj) auto
      finally show ?thesis using above a u by simp
    qed
  qed (use lq len hq lower i in \<open>auto simp: IS_LEAF_def u_def\<close>)
  moreover have "SIZELEFT q = SIZELEFT p + EVEN (length (page_nodes p ! i)) + 2"
  proof -
    have "length (page_nodes p ! i) = node_len (IS_LEAF p) p ptr"
      using i ptri nl okp(2) len sz_def by (simp add: page_nodes_def node_bytes_def length_slice)
    then have "EVEN (length (page_nodes p ! i)) = sz" by (simp add: sz_def extent_def)
    then show ?thesis using SIZELEFT_eq [of q] SIZELEFT_eq [of p] hq u len lower i by (simp add: u_def)
  qed
  ultimately show ?thesis using run hq by blast
qed

text \<open>C25: \<open>mdb_node_del\<close> on a well-formed page with nodes removes exactly the node at the index: the
  other nodes keep their bytes and order, the page stays well formed and the freed space, rounded to
  even as it was allocated, returns to the free area.\<close>

theorem node_del_correct:
  assumes ok: "page_ok psize p" and l2: "\<not> IS_LEAF2 p" and i: "i < NUMKEYS p"
  shows "\<exists>q. mdb_node_del p i ksize = Some q \<and> page_ok psize q \<and>
    page_nodes q = take i (page_nodes p) @ drop (Suc i) (page_nodes p) \<and>
    mp_flags q = mp_flags p \<and> mp_pgno q = mp_pgno p \<and>
    SIZELEFT q = SIZELEFT p + EVEN (length (page_nodes p ! i)) + 2"
  by (rule node_del_nodes [OF assms])

text \<open>Two small pages of 64 bytes: an empty leaf, and a leaf that holds the pair \<open>a\<close>, \<open>b\<close>.\<close>

definition small_page :: "nat \<Rightarrow> u16 \<Rightarrow> bytes" where
  "small_page psize flags = set_mp_upper psize (set_mp_lower 16 (set_mp_flags flags (replicate psize 0)))"

definition one_node_page :: bytes where
  "one_node_page = [0, 0, 0, 0, 0, 0, 0, 0, 0, 0, 2, 0, 18, 0, 18, 0, 18, 0,
     1, 0, 0, 0, 0, 0, 1, 0, 0x61, 0x62]"

lemma page_flags_distinct [simp]:
  "F_ISSET P_LEAF P_LEAF" "\<not> F_ISSET P_BRANCH P_LEAF" "\<not> F_ISSET P_LEAF P_LEAF2" "F_ISSET P_BRANCH P_BRANCH"
  "\<not> F_ISSET P_LEAF P_BRANCH" "\<not> F_ISSET P_BRANCH P_LEAF2"
  by (simp_all add: F_ISSET_def page_flag_defs)

lemma small_page_hdr [simp]:
  assumes "16 \<le> psize" "psize < 65536"
  shows "length (small_page psize f) = psize" "mp_flags (small_page psize f) = f"
    "mp_lower (small_page psize f) = 16" "mp_upper (small_page psize f) = psize" "NUMKEYS (small_page psize f) = 0"
  using assms NUMKEYS_eq [of "small_page psize f"] by (simp_all add: small_page_def page_simps)

lemma small_page_ok: "16 \<le> psize \<Longrightarrow> psize < 65536 \<Longrightarrow> page_ok psize (small_page psize f)"
  by (simp add: page_ok_def ptrs_def)

lemma small_page_kind [simp]:
  "IS_LEAF (small_page 64 P_LEAF)" "\<not> IS_LEAF (small_page 64 P_BRANCH)" "SIZELEFT (small_page 64 f) = 48"
  using SIZELEFT_eq [of "small_page 64 f"] by (simp_all add: IS_LEAF_def)

lemma one_node_hdr [simp]: "mp_lower one_node_page = 18" "mp_upper one_node_page = 18" "mp_flags one_node_page = P_LEAF"
  "NUMKEYS one_node_page = 1" "IS_LEAF one_node_page" "\<not> IS_LEAF2 one_node_page"
proof -
  show l: "mp_lower one_node_page = 18" "mp_upper one_node_page = 18" and f: "mp_flags one_node_page = P_LEAF"
    by (simp_all add: one_node_page_def mp_lower_def mp_upper_def mp_flags_def rd_def slice_def P_LEAF_def)
  then show "NUMKEYS one_node_page = 1" using NUMKEYS_eq [of one_node_page] by simp
  show "IS_LEAF one_node_page" "\<not> IS_LEAF2 one_node_page" by (simp_all add: IS_LEAF_def IS_LEAF2_def f)
qed

lemma one_node_ok: "page_ok 28 one_node_page"
proof -
  have pt: "pt one_node_page 0 = 18" by (simp add: pt_def one_node_page_def rd_def slice_def)
  have "node_len True one_node_page 18 = 10"
    by (simp add: node_len_def one_node_page_def rd_def slice_def F_ISSET_def)
  then have "extent one_node_page 18 = 10" by (simp add: extent_def EVEN_def)
  then show ?thesis using pt by (simp add: page_ok_def ptrs_def) (simp add: one_node_page_def)
qed

lemma node_add_leaf_correct_witness:
  "case node_add_plan 1000 64 (small_page 64 P_LEAF) (Some [0x61]) (Some \<lparr>mv_size = 1, mv_data = [0x62]\<rparr>) 0 of
      Some (Add_fits n) \<Rightarrow> \<exists>q. node_add_update (small_page 64 P_LEAF) 0 (Some [0x61])
          (Some \<lparr>mv_size = 1, mv_data = [0x62]\<rparr>) 0 0 n None = Some (q, None) \<and>
        page_nodes q = take 0 (page_nodes (small_page 64 P_LEAF)) @
          leaf_node 1 0 [0x61] [0x62] # drop 0 (page_nodes (small_page 64 P_LEAF))
    | _ \<Rightarrow> False"
proof -
  have e: "node_add_plan 1000 64 (small_page 64 P_LEAF) (Some [0x61]) (Some \<lparr>mv_size = 1, mv_data = [0x62]\<rparr>) 0
      = Some (Add_fits 10)"
    by (simp add: node_add_plan_def Let_def INDXSIZE_def F_ISSET_def F_BIGDATA_def EVEN_def)
  show ?thesis
    using node_add_leaf_correct [of 64 "small_page 64 P_LEAF" 0 "[0x61]" "\<lparr>mv_size = 1, mv_data = [0x62]\<rparr>" 0 1000]
      small_page_ok [of 64 P_LEAF] e by (auto simp: F_ISSET_def node_flag_defs)
qed

lemma node_add_branch_correct_witness:
  "case node_add_plan 1000 64 (small_page 64 P_BRANCH) None None 0 of
      Some (Add_fits n) \<Rightarrow> \<exists>q. node_add_update (small_page 64 P_BRANCH) 0 None None 7 0 n None = Some (q, None) \<and>
        page_nodes q = take 0 (page_nodes (small_page 64 P_BRANCH)) @ branch_node 7 [] #
          drop 0 (page_nodes (small_page 64 P_BRANCH))
    | _ \<Rightarrow> False"
proof -
  have e: "node_add_plan 1000 64 (small_page 64 P_BRANCH) None None 0 = Some (Add_fits 8)"
    by (simp add: node_add_plan_def Let_def INDXSIZE_def EVEN_def)
  show ?thesis
    using node_add_branch_correct [of 64 "small_page 64 P_BRANCH" 0 "[]" None 7 0 1000] small_page_ok [of 64 P_BRANCH] e by auto
qed

lemma node_del_correct_witness:
  "\<exists>q. mdb_node_del one_node_page 0 0 = Some q \<and> page_ok 28 q \<and>
    page_nodes q = take 0 (page_nodes one_node_page) @ drop (Suc 0) (page_nodes one_node_page) \<and>
    mp_flags q = mp_flags one_node_page \<and> mp_pgno q = mp_pgno one_node_page \<and>
    SIZELEFT q = SIZELEFT one_node_page + EVEN (length (page_nodes one_node_page ! 0)) + 2"
  by (rule node_del_correct) (use one_node_ok in auto)

section \<open>Pages of fixed-size keys\<close>

definition leaf2_keys :: "nat \<Rightarrow> bytes \<Rightarrow> bytes list" where
  "leaf2_keys ks p = map (\<lambda>i. slice p (16 + i * ks) ks) [0..<NUMKEYS p]"

definition leaf2_ok :: "nat \<Rightarrow> nat \<Rightarrow> bytes \<Rightarrow> bool" where
  "leaf2_ok psize ks p \<longleftrightarrow> length p = psize \<and> psize \<le> 32768 \<and> IS_LEAF2 p \<and> 0 < ks \<and>
     16 \<le> mp_lower p \<and> even (mp_lower p) \<and> mp_lower p \<le> mp_upper p \<and>
     16 + NUMKEYS p * ks + (mp_upper p - mp_lower p) = psize"

lemma leaf2_lower: "leaf2_ok psize ks p \<Longrightarrow> mp_lower p = 16 + 2 * NUMKEYS p"
  by (auto simp: leaf2_ok_def NUMKEYS_eq elim!: evenE)

lemma key_end: "i < n \<Longrightarrow> i * ks + ks \<le> n * (ks :: nat)"
  using mult_le_mono1 [of "Suc i" n ks] by simp

lemma leaf2_bounds:
  assumes "leaf2_ok psize ks p"
  shows "mp_upper p = mp_lower p + SIZELEFT p" "16 + NUMKEYS p * ks + SIZELEFT p = psize"
    "NUMKEYS p \<le> NUMKEYS p * ks" "length p = psize" "psize \<le> 32768" "0 < ks" "16 \<le> psize"
  using assms SIZELEFT_eq [of p] by (auto simp: leaf2_ok_def)

text \<open>\<open>mdb_node_add\<close> on a well-formed page of fixed-size keys with room for one more inserts
  the key at the index and keeps the page's bookkeeping: two bytes of \<open>mp_lower\<close> for each key, and
  a free space equal to what the keys leave.\<close>

theorem leaf2_add_correct:
  assumes ok: "leaf2_ok psize ks p" and i: "i \<le> NUMKEYS p" and room: "ks \<le> SIZELEFT p" and key: "ks \<le> length key"
  shows "\<exists>q. node_add_leaf2 p i key ks = Some q \<and> leaf2_ok psize ks q \<and> mp_flags q = mp_flags p \<and>
    leaf2_keys ks q = take i (leaf2_keys ks p) @ take ks key # drop i (leaf2_keys ks p)"
proof -
  note b = leaf2_bounds [OF ok] and lower = leaf2_lower [OF ok]
  define n where "n = NUMKEYS p"
  define ptr where "ptr = 16 + i * ks"
  define m where "m = (n - i) * ks"
  have fin: "ptr + m = 16 + n * ks" using i by (simp add: ptr_def m_def n_def diff_mult_distrib)
  have fit: "ptr + ks + m \<le> psize" using fin b(2) room by (simp add: n_def)
  define q0 where "q0 = splice p (ptr + ks) (slice p ptr m)"
  have mv: "(if int (NUMKEYS p) - int i > 0 then move_bytes p (ptr + ks) ptr (nat (int (NUMKEYS p) - int i) * ks)
      else Some p) = Some q0"
  proof (cases "n = i")
    case True
    then have "splice p (ptr + ks) (slice p ptr m) = p"
      using fit b(4) by (intro nth_equalityI) (auto simp: m_def nth_splice)
    then show ?thesis using True by (simp add: n_def q0_def)
  next
    case False
    have "nat (int (NUMKEYS p) - int i) = n - i" using i by (simp add: n_def)
    then show ?thesis using False i fit b(4) by (simp add: n_def q0_def m_def)
  qed
  define q1 where "q1 = splice q0 ptr (take ks key)"
  have l0: "length q0 = psize" using fit b(4) by (simp add: q0_def)
  have l1: "length q1 = psize" using l0 fit key by (simp add: q1_def)
  have h1: "mp_lower q1 = mp_lower p" "mp_upper q1 = mp_upper p" "mp_flags q1 = mp_flags p"
    using l0 fit key b(4) by (simp_all add: q1_def q0_def page_simps ptr_def)
  have nn: "n + 1 \<le> 32752"
  proof -
    have "(n + 1) * ks \<le> psize - 16" using b(2) room by (simp add: n_def)
    moreover have "n + 1 \<le> (n + 1) * ks" using b(6) by (cases ks) auto
    ultimately show ?thesis using b(5) by linarith
  qed
  have small: "mp_lower p + 2 < 65536" "mp_upper p + 2 - ks < 65536"
    using lower nn b(1) b(2,3,5) unfolding n_def by linarith+
  define q where "q = set_mp_upper (mp_upper p + 2 - ks) (set_mp_lower (mp_lower p + 2) q1)"
  have up: "nat ((int (mp_upper p) - (int ks - 2)) mod 65536) = mp_upper p + 2 - ks"
    using small b(1) room by (simp add: nat_eq_iff)
  have run: "node_add_leaf2 p i key ks = Some q"
  proof -
    have g: "get_bytes key 0 ks = Some (take ks key)" "put_bytes q0 ptr (take ks key) = Some q1"
      using key fit l0 by (simp_all add: slice_def q1_def)
    have u: "mp_upper (set_mp_lower (mp_lower p + 2) q1) = mp_upper p" using l1 b(7) h1 by (simp add: page_simps)
    show ?thesis
      unfolding node_add_leaf2_def Let_def LEAF2KEY_def PAGEHDRSZ_def ptr_def [symmetric]
      by (subst mv) (simp add: g h1 u up q_def del: add_2_eq_Suc add_2_eq_Suc')
  qed
  have hq: "length q = psize" "mp_lower q = mp_lower p + 2" "mp_upper q = mp_upper p + 2 - ks" "mp_flags q = mp_flags p"
    using l1 b(7) small h1 by (simp_all add: q_def page_simps)
  have nk: "NUMKEYS q = Suc n" using NUMKEYS_eq [of q] hq(2) lower by (simp add: n_def)
  have okq: "leaf2_ok psize ks q"
    using ok hq nk b(1,2,5) room lower by (auto simp: leaf2_ok_def IS_LEAF2_def n_def)
  have keys: "slice q (16 + k * ks) ks = (if k = i then take ks key else if k < i then slice p (16 + k * ks) ks
      else slice p (16 + (k - 1) * ks) ks)" if k: "k \<le> n" for k
  proof -
    have "k * ks \<le> n * ks" using k by simp
    then have e: "16 + k * ks + ks \<le> psize" using b(2) room unfolding n_def by linarith
    have "slice q (16 + k * ks) ks = slice q1 (16 + k * ks) ks"
      using l1 e b(7) by (simp add: q_def page_simps)
    also have "\<dots> = (if k = i then take ks key else slice q0 (16 + k * ks) ks)"
    proof (cases "k = i")
      case True then show ?thesis using l0 fit key by (simp add: q1_def ptr_def)
    next
      case False
      then have "16 + k * ks + ks \<le> ptr \<or> ptr + ks \<le> 16 + k * ks"
        using key_end [of k i ks] key_end [of i k ks] by (cases "k < i") (auto simp: ptr_def)
      then show ?thesis using False l0 fit key e by (simp add: q1_def slice_splice_disj)
    qed
    also have "\<dots> = (if k = i then take ks key else if k < i then slice p (16 + k * ks) ks
      else slice p (16 + (k - 1) * ks) ks)"
    proof (cases "k < i")
      case True
      then show ?thesis using key_end [of k i ks] b(4) fit e by (simp add: q0_def ptr_def slice_splice_disj)
    next
      case False
      show ?thesis
      proof (cases "k = i")
        case False
        then obtain j where j: "k = Suc j" "i \<le> j" using \<open>\<not> k < i\<close> by (cases k) auto
        have ij: "i * ks \<le> j * ks" using j by simp
        have jn: "j * ks + ks \<le> n * ks" using key_end [of j n ks] j k by simp
        have "slice q0 (16 + k * ks) ks = slice (slice p ptr m) (16 + k * ks - (ptr + ks)) ks"
          unfolding q0_def using j ij jn fin fit b(4) by (intro slice_splice_in) (auto simp: ptr_def)
        also have "\<dots> = slice p (16 + j * ks) ks"
          using j ij jn fin by (simp add: slice_slice ptr_def)
        finally show ?thesis using False j by simp
      qed simp
    qed
    finally show ?thesis .
  qed
  have "leaf2_keys ks q = take i (leaf2_keys ks p) @ take ks key # drop i (leaf2_keys ks p)"
  proof (rule nth_equalityI)
    show "length (leaf2_keys ks q) = length (take i (leaf2_keys ks p) @ take ks key # drop i (leaf2_keys ks p))"
      using nk i by (simp add: leaf2_keys_def n_def)
    fix k assume "k < length (leaf2_keys ks q)"
    then have "k \<le> n" using nk by (simp add: leaf2_keys_def)
    then show "leaf2_keys ks q ! k = (take i (leaf2_keys ks p) @ take ks key # drop i (leaf2_keys ks p)) ! k"
      using keys [of k] nk i by (auto simp: leaf2_keys_def nth_append nth_Cons' n_def)
  qed
  then show ?thesis using run okq hq by blast
qed

text \<open>\<open>mdb_node_del\<close> on a well-formed page of fixed-size keys removes exactly the key at the
  index and gives its space back.\<close>

theorem leaf2_del_correct:
  assumes ok: "leaf2_ok psize ks p" and i: "i < NUMKEYS p"
  shows "\<exists>q. mdb_node_del p i ks = Some q \<and> leaf2_ok psize ks q \<and> mp_flags q = mp_flags p \<and>
    leaf2_keys ks q = take i (leaf2_keys ks p) @ drop (Suc i) (leaf2_keys ks p) \<and>
    SIZELEFT q = SIZELEFT p + ks"
proof -
  note b = leaf2_bounds [OF ok] and lower = leaf2_lower [OF ok]
  define n where "n = NUMKEYS p"
  define base where "base = 16 + i * ks"
  define m where "m = (n - 1 - i) * ks"
  have "n - i = Suc (n - 1 - i)" using i by (simp add: n_def)
  then have mks: "m + ks = (n - i) * ks" by (simp add: m_def)
  have fin: "base + ks + m = 16 + n * ks"
  proof -
    have "i * ks \<le> n * ks" using i by (simp add: n_def)
    moreover have "m + ks = n * ks - i * ks" using mks by (simp only: diff_mult_distrib)
    ultimately show ?thesis unfolding base_def by linarith
  qed
  have fit: "base + ks + m \<le> psize" using fin b(2) by (simp add: n_def)
  have nn: "n \<le> 32752" using b(2,3,5) unfolding n_def by linarith
  have nm: "NUMKEYS p mod 65536 = n" using nn by (simp add: n_def)
  define q0 where "q0 = splice p base (slice p (base + ks) m)"
  have mv: "(if n - 1 - i \<noteq> 0 then move_bytes p base (base + ks) ((n - 1 - i) * ks) else Some p) = Some q0"
  proof (cases "n - 1 - i = 0")
    case True
    then have "splice p base (slice p (base + ks) m) = p"
      using fit b(4) by (intro nth_equalityI) (auto simp: m_def nth_splice)
    then show ?thesis using True by (simp add: q0_def)
  next
    case False
    then show ?thesis using fit b(4) by (simp add: q0_def m_def)
  qed
  have l0: "length q0 = psize" using fit b(4) by (simp add: q0_def)
  have h0: "mp_lower q0 = mp_lower p" "mp_upper q0 = mp_upper p" "mp_flags q0 = mp_flags p"
    using fit b(4) by (simp_all add: q0_def page_simps base_def)
  have small: "mp_lower p < 65536" "2 \<le> mp_lower p" "2 \<le> mp_upper p + ks" "mp_upper p + ks - 2 < 65536"
  proof -
    have "n + ks \<le> n * ks + 1" using i b(6) by (cases n; cases ks) (auto simp: n_def)
    then show "mp_lower p < 65536" "2 \<le> mp_lower p" "2 \<le> mp_upper p + ks" "mp_upper p + ks - 2 < 65536"
      using lower nn b(1,2,5) unfolding n_def by linarith+
  qed
  define q where "q = set_mp_upper (mp_upper p + ks - 2) (set_mp_lower (mp_lower p - 2) q0)"
  have up: "nat ((int (mp_upper p) + (int ks - 2)) mod 65536) = mp_upper p + ks - 2"
  proof -
    have "int (mp_upper p) + (int ks - 2) = int (mp_upper p + ks - 2)" using small by simp
    then show ?thesis using small by (simp add: nat_eq_iff)
  qed
  have lo: "sub16 (mp_lower p) 2 = mp_lower p - 2" using small by (simp add: sub16_def nat_eq_iff)
  have run: "mdb_node_del p i ks = Some q"
  proof -
    have l: "IS_LEAF2 p" using ok by (simp add: leaf2_ok_def)
    have nm': "NUMKEYS p mod 2 ^ 16 = n" using nm by simp
    have u: "mp_upper (set_mp_lower (mp_lower p - 2) q0) = mp_upper p" using l0 b(7) h0 by (simp add: page_simps)
    have "mdb_node_del p i ks = (do {
         mp \<leftarrow> (if n - 1 - i \<noteq> 0 then move_bytes p base (base + ks) ((n - 1 - i) * ks) else Some p);
         let mp = set_mp_lower (sub16 (mp_lower mp) 2) mp in
         Some (set_mp_upper (nat ((int (mp_upper mp) + (int ks - 2)) mod 2 ^ 16)) mp) })"
      unfolding mdb_node_del_def nm' using i l by (simp add: Let_def LEAF2KEY_def base_def n_def)
    also have "\<dots> = Some q" by (subst mv) (simp add: Let_def h0 lo up u q_def)
    finally show ?thesis .
  qed
  have hq: "length q = psize" "mp_lower q = mp_lower p - 2" "mp_upper q = mp_upper p + ks - 2" "mp_flags q = mp_flags p"
    using l0 b(7) small h0 by (simp_all add: q_def page_simps)
  have nk: "NUMKEYS q = n - 1" using NUMKEYS_eq [of q] hq(2) lower i by (simp add: n_def)
  have free: "mp_upper q - mp_lower q = SIZELEFT p + ks" "mp_lower q \<le> mp_upper q"
    using hq b(1) lower i by auto
  have okq: "leaf2_ok psize ks q"
  proof -
    have "16 + (n - 1) * ks + (SIZELEFT p + ks) = psize"
      using b(2) i by (cases n) (auto simp: n_def)
    then show ?thesis
      using ok hq nk free b(5,6) lower i by (auto simp: leaf2_ok_def IS_LEAF2_def n_def)
  qed
  have keys: "slice q (16 + k * ks) ks = (if k < i then slice p (16 + k * ks) ks else slice p (16 + (k + 1) * ks) ks)"
    if k: "k < n - 1" for k
  proof -
    have "k * ks + ks \<le> n * ks" by (rule key_end) (use k in simp)
    then have e: "16 + k * ks + ks \<le> psize" using b(2) unfolding n_def by linarith
    have "slice q (16 + k * ks) ks = slice q0 (16 + k * ks) ks"
      using l0 e b(7) by (simp add: q_def page_simps)
    also have "\<dots> = (if k < i then slice p (16 + k * ks) ks else slice p (16 + (k + 1) * ks) ks)"
    proof (cases "k < i")
      case True
      then show ?thesis using key_end [of k i ks] b(4) fit e by (simp add: q0_def base_def slice_splice_disj)
    next
      case False
      then have ik: "i * ks \<le> k * ks" by simp
      have kn: "(k + 1) * ks + ks \<le> n * ks" using key_end [of "k + 1" n ks] k by simp
      have "slice q0 (16 + k * ks) ks = slice (slice p (base + ks) m) (16 + k * ks - base) ks"
        unfolding q0_def using ik kn fin fit b(4) by (intro slice_splice_in) (auto simp: base_def)
      also have "\<dots> = slice p (16 + (k + 1) * ks) ks"
        using ik kn fin by (simp add: slice_slice base_def)
      finally show ?thesis using False by simp
    qed
    finally show ?thesis .
  qed
  have "leaf2_keys ks q = take i (leaf2_keys ks p) @ drop (Suc i) (leaf2_keys ks p)"
  proof (rule nth_equalityI)
    show "length (leaf2_keys ks q) = length (take i (leaf2_keys ks p) @ drop (Suc i) (leaf2_keys ks p))"
      using nk i by (simp add: leaf2_keys_def n_def)
    fix k assume "k < length (leaf2_keys ks q)"
    then have "k < n - 1" using nk by (simp add: leaf2_keys_def)
    then show "leaf2_keys ks q ! k = (take i (leaf2_keys ks p) @ drop (Suc i) (leaf2_keys ks p)) ! k"
      using keys [of k] nk i by (auto simp: leaf2_keys_def nth_append n_def)
  qed
  moreover have "SIZELEFT q = SIZELEFT p + ks" using SIZELEFT_eq [OF free(2)] free(1) by simp
  ultimately show ?thesis using run okq hq by blast
qed

definition one_key_page :: bytes where
  "one_key_page = [0, 0, 0, 0, 0, 0, 0, 0, 4, 0, 0x22, 0, 18, 0, 18, 0, 1, 2, 3, 4]"

lemma one_key_ok: "leaf2_ok 20 4 one_key_page" "NUMKEYS one_key_page = 1"
proof -
  have l: "mp_lower one_key_page = 18" "mp_upper one_key_page = 18" and f: "mp_flags one_key_page = 0x22"
    by (simp_all add: one_key_page_def mp_lower_def mp_upper_def mp_flags_def rd_def slice_def)
  then show n: "NUMKEYS one_key_page = 1" using NUMKEYS_eq [of one_key_page] by simp
  show "leaf2_ok 20 4 one_key_page"
    using l by (simp add: leaf2_ok_def n) (simp add: one_key_page_def IS_LEAF2_def f [unfolded one_key_page_def] F_ISSET_def P_LEAF2_def)
qed

lemma leaf2_add_correct_witness:
  "\<exists>q. node_add_leaf2 (small_page 64 P_LEAF2) 0 [1, 2, 3, 4] 4 = Some q \<and> leaf2_ok 64 4 q \<and>
    mp_flags q = mp_flags (small_page 64 P_LEAF2) \<and>
    leaf2_keys 4 q = take 0 (leaf2_keys 4 (small_page 64 P_LEAF2)) @ take 4 [1, 2, 3, 4] #
      drop 0 (leaf2_keys 4 (small_page 64 P_LEAF2))"
  by (rule leaf2_add_correct) (simp_all add: leaf2_ok_def IS_LEAF2_def F_ISSET_def)

lemma leaf2_del_correct_witness:
  "\<exists>q. mdb_node_del one_key_page 0 4 = Some q \<and> leaf2_ok 20 4 q \<and> mp_flags q = mp_flags one_key_page \<and>
    leaf2_keys 4 q = take 0 (leaf2_keys 4 one_key_page) @ drop (Suc 0) (leaf2_keys 4 one_key_page) \<and>
    SIZELEFT q = SIZELEFT one_key_page + 4"
  by (rule leaf2_del_correct) (simp_all add: one_key_ok)

section \<open>Copying a page\<close>

lemma page_nodes_cong:
  assumes ok: "page_ok psize p" and l: "length q = psize"
    and low: "\<And>a n. a + n \<le> mp_lower p \<Longrightarrow> slice q a n = slice p a n"
    and high: "\<And>a n. mp_upper p \<le> a \<Longrightarrow> a + n \<le> psize \<Longrightarrow> slice q a n = slice p a n"
  shows "page_ok psize q \<and> page_nodes q = page_nodes p \<and> take 16 q = take 16 p"
proof -
  note lower = page_ok_lower [OF ok]
  have hdr: "rd q a n = rd p a n" if "a + n \<le> 16" for a n
    using low [of a n] that lower by (simp add: rd_def)
  have h: "mp_flags q = mp_flags p" "mp_lower q = mp_lower p" "mp_upper q = mp_upper p"
    by (simp_all add: hdr_get_defs hdr)
  have k: "NUMKEYS q = NUMKEYS p" by (simp add: NUMKEYS_def h)
  have leaf: "IS_LEAF q = IS_LEAF p" by (simp add: IS_LEAF_def h)
  have ps: "ptrs q = ptrs p"
    using low lower by (simp add: ptrs_def k pt_def rd_def)
  have same: "extent q x = extent p x" "node_bytes q x = node_bytes p x" if "x \<in> set (ptrs p)" for x
    using node_moved [of q x p x, OF _ leaf] high [of x "extent p x"] page_okD [OF ok that] l by auto
  have "sorted_wrt (apart q) (ptrs p)"
    using sorted_wrt_apart_map [of p "ptrs p" q "\<lambda>x. x"] ok same(1) by (simp add: page_ok_def apart_def)
  then have "page_ok psize q"
    using ok l same(1) unfolding page_ok_def by (simp add: h ps)
  moreover have "page_nodes q = page_nodes p" using same(2) by (simp add: page_nodes_def ps)
  moreover have "take 16 q = take 16 p" using low [of 0 16] lower by (simp add: slice_def)
  ultimately show ?thesis by blast
qed

text \<open>\<open>mdb_page_copy\<close>, which skips the free middle of a page and widens the two parts it copies
  to word boundaries, yields a well-formed page with the same header and the same nodes, whatever was
  in the destination.\<close>

theorem page_copy_correct:
  assumes ok: "page_ok psize src" and l2: "\<not> IS_LEAF2 src" and al: "8 dvd psize" and dst: "length dst = psize"
  shows "\<exists>q. mdb_page_copy dst src psize = Some q \<and> page_ok psize q \<and>
    page_nodes q = page_nodes src \<and> take 16 q = take 16 src"
proof -
  have len: "length src = psize" "16 \<le> mp_lower src" "mp_lower src \<le> mp_upper src" "mp_upper src \<le> psize"
    using ok by (auto simp: page_ok_def)
  define un where "un = (mp_upper src - mp_lower src) div 8 * 8"
  have un: "(mp_upper src + 2 ^ 16 - mp_lower src) mod 2 ^ 16 div 8 * 8 = un"
    using len(3) mp_bounds(1,2) [of src] by (simp add: un_def mod_if)
  define lo where "lo = (mp_lower src + 7) div 8 * 8"
  define hi where "hi = mp_upper src div 8 * 8"
  have dv: "8 dvd hi" "hi \<le> mp_upper src" "mp_upper src < hi + 8" "mp_lower src \<le> lo" "lo < mp_lower src + 8" "8 dvd lo"
    by (auto simp: lo_def hi_def)
  show ?thesis
  proof (cases "un = 0")
    case True
    then have "mdb_page_copy dst src psize = Some src"
      using un len dst by (simp add: mdb_page_copy_def Let_def slice_all splice_def)
    then show ?thesis using ok by simp
  next
    case False
    have lp: "lo \<le> psize"
    proof -
      have "mp_lower src + 8 \<le> psize" using False len by (auto simp: un_def)
      then show ?thesis using dv(5) by simp
    qed
    have hp: "hi \<le> psize" using dv(2) len by simp
    define q1 where "q1 = splice dst 0 (slice src 0 lo)"
    define q where "q = splice q1 hi (slice src hi (psize - hi))"
    have l1: "length q1 = psize" using lp len dst by (simp add: q1_def)
    have l: "length q = psize" using l1 hp len by (simp add: q_def)
    have run: "mdb_page_copy dst src psize = Some q"
      using un False l2 lp hp len dst l1
      by (simp add: mdb_page_copy_def Let_def lo_def [symmetric] hi_def [symmetric] q1_def [symmetric] q_def)
    have nth: "q ! i = src ! i" if "i < lo \<or> hi \<le> i" "i < psize" for i
      using that l1 lp hp len dst by (auto simp: q_def q1_def nth_splice nth_slice)
    have "page_ok psize q \<and> page_nodes q = page_nodes src \<and> take 16 q = take 16 src"
      by (rule page_nodes_cong [OF ok l]) (use len dv l lp in \<open>auto intro!: slice_eqI nth\<close>)
    then show ?thesis using run by blast
  qed
qed

lemma page_copy_correct_witness:
  "\<exists>q. mdb_page_copy (replicate 64 7) (small_page 64 P_LEAF) 64 = Some q \<and> page_ok 64 q \<and>
    page_nodes q = page_nodes (small_page 64 P_LEAF) \<and> take 16 q = take 16 (small_page 64 P_LEAF)"
  by (rule page_copy_correct) (simp_all add: small_page_ok IS_LEAF2_def)

end
