(* ===== verification/Node_Search.thy ===== *)
theory Node_Search
  imports Compare Node_Ops
begin

text \<open>
  \<open>mdb_node_search\<close>: the binary search of a key in a page. The cursor's page, its
  \<open>md_cmp\<close> and \<open>md_pad\<close> are arguments; the results are the returned node (its offset,
  \<open>None\<close> for the null pointer), \<open>*exactp\<close> and the index stored in \<open>mc_ki\<close>.
\<close>

definition node_search_cmp :: "bytes \<Rightarrow> cmp_fn \<Rightarrow> cmp_fn option" where
  "node_search_cmp mp cmp =
     (if is_cint cmp \<and> IS_BRANCH mp then do {
        n1 \<leftarrow> NODEPTR mp 1;
        ks \<leftarrow> mn_ksize mp n1;
        Some (if ks = 8 then Cmp_long else Cmp_int) }
      else Some cmp)"

text \<open>
  The two search loops differ only in how they get at the key of entry \<open>i\<close>; \<open>entry i\<close>
  is that access together with the comparison, and yields \<open>rc\<close> and the new \<open>node\<close>.
\<close>

function node_search_loop ::
    "(nat \<Rightarrow> (int \<times> nat option) option) \<Rightarrow> int \<Rightarrow> int \<Rightarrow> nat \<Rightarrow> int \<Rightarrow> nat option \<Rightarrow>
     (nat \<times> int \<times> nat option) option" where
  "node_search_loop entry low high i rc node =
     (if low \<le> high then do {
        let m = (low + high) div 2;
        let i = nat m;
        (rc, node) \<leftarrow> entry i;
        if rc = 0 then Some (i, rc, node)
        else if rc > 0 then node_search_loop entry (m + 1) high i rc node
        else node_search_loop entry low (m - 1) i rc node }
      else Some (i, rc, node))"
  by pat_completeness auto
termination by (relation "measure (\<lambda>(entry, low, high, i, rc, node). nat (high - low + 1))") auto

declare node_search_loop.simps [simp del]

definition leaf2_entry :: "bytes \<Rightarrow> nat \<Rightarrow> cmp_fn \<Rightarrow> bytes \<Rightarrow> nat option \<Rightarrow> nat \<Rightarrow> (int \<times> nat option) option" where
  "leaf2_entry mp pad cmp key node i = do {
     k \<leftarrow> get_bytes mp (LEAF2KEY i pad) pad;
     rc \<leftarrow> call_cmp cmp key k;
     Some (rc, node) }"

definition node_entry :: "bytes \<Rightarrow> cmp_fn \<Rightarrow> bytes \<Rightarrow> nat \<Rightarrow> (int \<times> nat option) option" where
  "node_entry mp cmp key i = do {
     n \<leftarrow> NODEPTR mp i;
     k \<leftarrow> node_key mp n;
     rc \<leftarrow> call_cmp cmp key k;
     Some (rc, Some n) }"

definition mdb_node_search ::
    "bytes \<Rightarrow> cmp_fn \<Rightarrow> nat \<Rightarrow> bytes \<Rightarrow> (nat option \<times> bool \<times> nat) option" where
  "mdb_node_search mp cmp pad key = do {
     let nkeys = NUMKEYS mp;
     let low = (if IS_LEAF mp then 0 else 1);
     let high = int nkeys - 1;
     cmp \<leftarrow> node_search_cmp mp cmp;
     (i, rc, node) \<leftarrow>
       (if IS_LEAF2 mp then do {
          n0 \<leftarrow> NODEPTR mp 0;
          node_search_loop (leaf2_entry mp pad cmp key (Some n0)) low high 0 0 (Some n0) }
        else node_search_loop (node_entry mp cmp key) low high 0 0 None);
     (i, node) \<leftarrow>
       (if rc > 0 then
          (if IS_LEAF2 mp then Some (i + 1, node)
           else do { n \<leftarrow> NODEPTR mp (i + 1); Some (i + 1, Some n) })
        else Some (i, node));
     Some (if i \<ge> nkeys then None else node, rc = 0 \<and> nkeys > 0, i) }"

section \<open>Search through any comparison that meets the contract\<close>

context key_order
begin

text \<open>Where the key belongs among the entries \<open>lo \<dots> n - 1\<close>.\<close>

definition place :: "bytes \<Rightarrow> (nat \<Rightarrow> bytes) \<Rightarrow> nat \<Rightarrow> nat \<Rightarrow> nat \<Rightarrow> bool" where
  "place key keys lo n c \<longleftrightarrow> lo \<le> c \<and> c \<le> n \<and>
     (\<forall>j. lo \<le> j \<and> j < c \<longrightarrow> rank (keys j) < rank key) \<and>
     (\<forall>j. c \<le> j \<and> j < n \<longrightarrow> rank key \<le> rank (keys j))"

lemma search_loop_correct:
  assumes keys: "\<forall>j. lo \<le> j \<and> j < n \<longrightarrow> valid (keys j)" "valid key"
    and entry: "\<forall>j. lo \<le> j \<and> j < n \<longrightarrow> entry j = Some (keycmp key (keys j), nd j)"
    and sorted: "\<forall>j k. lo \<le> j \<and> j < k \<and> k < n \<longrightarrow> rank (keys j) < rank (keys k)"
    and lh: "int lo \<le> low" "high < int n" "low \<le> high + 1"
    and below: "\<forall>j. lo \<le> j \<and> int j < low \<longrightarrow> rank (keys j) < rank key"
    and above: "\<forall>j. high < int j \<and> j < n \<longrightarrow> rank key < rank (keys j)"
    and last: "low \<le> high \<or> rc > 0 \<and> low = int i + 1 \<and> node = nd i \<or> rc < 0 \<and> low = int i \<and> node = nd i \<and> i < n"
  shows "\<exists>i' rc'. node_search_loop entry low high i rc node = Some (i', rc', nd i') \<and>
    (rc' = 0 \<longrightarrow> lo \<le> i' \<and> i' < n \<and> rank (keys i') = rank key) \<and>
    (rc' \<noteq> 0 \<longrightarrow> (let c = (if rc' > 0 then i' + 1 else i') in place key keys lo n c \<and>
       (c < n \<longrightarrow> rank (keys c) \<noteq> rank key)))"
  using lh below above last
proof (induction "nat (high - low + 1)" arbitrary: low high i rc node rule: less_induct)
  case less
  show ?case
  proof (cases "low \<le> high")
    case False
    then have eq: "low = high + 1" using less.prems(3) by simp
    from False less.prems(6) consider "rc > 0" "low = int i + 1" "node = nd i" | "rc < 0" "low = int i" "node = nd i" "i < n" by auto
    then show ?thesis
    proof cases
      case 1
      have "place key keys lo n (i + 1)"
        using less.prems 1 eq unfolding place_def by (auto simp: less_imp_le)
      moreover have "i + 1 < n \<longrightarrow> rank (keys (i + 1)) \<noteq> rank key" using less.prems(5) 1 eq by auto
      ultimately show ?thesis using False 1 by (subst node_search_loop.simps) auto
    next
      case 2
      have "place key keys lo n i"
        using less.prems 2 eq unfolding place_def by (auto simp: less_imp_le)
      moreover have "i < n \<longrightarrow> rank (keys i) \<noteq> rank key" using less.prems(5) [rule_format, of i] 2 eq by auto
      ultimately show ?thesis using False 2 by (subst node_search_loop.simps) auto
    qed
  next
    case True
    define m where "m = (low + high) div 2"
    have m: "low \<le> m" "m \<le> high" using True by (auto simp: m_def)
    define k where "k = nat m"
    have k: "int k = m" "lo \<le> k" "k < n" using m less.prems(1,2) by (auto simp: k_def)
    have step: "node_search_loop entry low high i rc node =
        (let r = keycmp key (keys k) in if r = 0 then Some (k, r, nd k)
         else if r > 0 then node_search_loop entry (m + 1) high k r (nd k)
         else node_search_loop entry low (m - 1) k r (nd k))"
      using True k entry by (subst node_search_loop.simps) (simp add: Let_def m_def [symmetric] k_def [symmetric])
    have vk: "valid (keys k)" using keys(1) k by simp
    note cmp = keycmp_less [OF keys(2) vk] keycmp_greater [OF keys(2) vk] keycmp_eq [OF keys(2) vk]
    have left: "rank (keys j) \<le> rank (keys k)" if "lo \<le> j" "j \<le> k" for j
      using sorted k that by (cases "j = k") (auto simp: less_imp_le)
    have right: "rank (keys k) \<le> rank (keys j)" if "k \<le> j" "j < n" for j
      using sorted k that by (cases "j = k") (auto simp: less_imp_le)
    consider (eq) "keycmp key (keys k) = 0" | (gt) "keycmp key (keys k) > 0" | (lt) "keycmp key (keys k) < 0" by linarith
    then show ?thesis
    proof cases
      case eq
      then show ?thesis using step k cmp by simp
    next
      case gt
      have "\<exists>i' rc'. node_search_loop entry (m + 1) high k (keycmp key (keys k)) (nd k) = Some (i', rc', nd i') \<and>
        (rc' = 0 \<longrightarrow> lo \<le> i' \<and> i' < n \<and> rank (keys i') = rank key) \<and>
        (rc' \<noteq> 0 \<longrightarrow> (let c = (if rc' > 0 then i' + 1 else i') in place key keys lo n c \<and>
           (c < n \<longrightarrow> rank (keys c) \<noteq> rank key)))"
      proof (rule less.hyps)
        show "\<forall>j. lo \<le> j \<and> int j < m + 1 \<longrightarrow> rank (keys j) < rank key"
        proof (intro allI impI)
          fix j assume j: "lo \<le> j \<and> int j < m + 1"
          then have "j \<le> k" using k by linarith
          then have "rank (keys j) \<le> rank (keys k)" using left j by blast
          then show "rank (keys j) < rank key" using gt cmp(2) by (simp add: le_less_trans)
        qed
      qed (use less.prems m k gt in auto)
      then show ?thesis using step gt by simp
    next
      case lt
      have "\<exists>i' rc'. node_search_loop entry low (m - 1) k (keycmp key (keys k)) (nd k) = Some (i', rc', nd i') \<and>
        (rc' = 0 \<longrightarrow> lo \<le> i' \<and> i' < n \<and> rank (keys i') = rank key) \<and>
        (rc' \<noteq> 0 \<longrightarrow> (let c = (if rc' > 0 then i' + 1 else i') in place key keys lo n c \<and>
           (c < n \<longrightarrow> rank (keys c) \<noteq> rank key)))"
      proof (rule less.hyps)
        show "\<forall>j. m - 1 < int j \<and> j < n \<longrightarrow> rank key < rank (keys j)"
        proof (intro allI impI)
          fix j assume j: "m - 1 < int j \<and> j < n"
          then have "k \<le> j" using k by linarith
          then have "rank (keys k) \<le> rank (keys j)" using right j by blast
          then show "rank key < rank (keys j)" using lt cmp(1) by (simp add: less_le_trans)
        qed
      qed (use less.prems m k lt in auto)
      then show ?thesis using step lt by simp
    qed
  qed
qed

text \<open>The loop as the function starts it.\<close>

lemma search_loop_start:
  assumes keys: "\<forall>j. lo \<le> j \<and> j < n \<longrightarrow> valid (keys j)" "valid key"
    and entry: "\<forall>j. lo \<le> j \<and> j < n \<longrightarrow> entry j = Some (keycmp key (keys j), nd j)"
    and sorted: "\<forall>j k. lo \<le> j \<and> j < k \<and> k < n \<longrightarrow> rank (keys j) < rank (keys k)"
    and ne: "lo < n"
  obtains i rc where "node_search_loop entry (int lo) (int n - 1) 0 0 node = Some (i, rc, nd i)"
    "rc = 0 \<Longrightarrow> lo \<le> i \<and> i < n \<and> rank (keys i) = rank key \<and> place key keys lo n i"
    "rc \<noteq> 0 \<Longrightarrow> place key keys lo n (if rc > 0 then i + 1 else i)"
    "rc \<noteq> 0 \<Longrightarrow> (if rc > 0 then i + 1 else i) < n \<Longrightarrow> rank (keys (if rc > 0 then i + 1 else i)) \<noteq> rank key"
proof -
  have "\<exists>i rc. node_search_loop entry (int lo) (int n - 1) 0 0 node = Some (i, rc, nd i) \<and>
    (rc = 0 \<longrightarrow> lo \<le> i \<and> i < n \<and> rank (keys i) = rank key) \<and>
    (rc \<noteq> 0 \<longrightarrow> (let c = (if rc > 0 then i + 1 else i) in place key keys lo n c \<and>
       (c < n \<longrightarrow> rank (keys c) \<noteq> rank key)))"
    by (rule search_loop_correct [OF keys entry sorted]) (use ne in auto)
  then obtain i rc where r: "node_search_loop entry (int lo) (int n - 1) 0 0 node = Some (i, rc, nd i)"
    "rc = 0 \<longrightarrow> lo \<le> i \<and> i < n \<and> rank (keys i) = rank key"
    "rc \<noteq> 0 \<longrightarrow> (let c = (if rc > 0 then i + 1 else i) in place key keys lo n c \<and>
       (c < n \<longrightarrow> rank (keys c) \<noteq> rank key))" by blast
  have pl: "place key keys lo n i" if "rc = 0"
  proof -
    have i: "lo \<le> i" "i < n" "rank (keys i) = rank key" using r(2) that by auto
    have "rank key \<le> rank (keys j)" if "i \<le> j" "j < n" for j
      using sorted [rule_format, of i j] i that by (cases "i = j") (auto simp: less_imp_le)
    moreover have "rank (keys j) < rank key" if "lo \<le> j" "j < i" for j
      using sorted [rule_format, of j i] i that by auto
    ultimately show ?thesis using i by (auto simp: place_def)
  qed
  show ?thesis by (rule that [OF r(1)]) (use r(2,3) pl in \<open>auto simp: Let_def\<close>)
qed

end

section \<open>Searching a well-formed page\<close>

definition key_at :: "bytes \<Rightarrow> nat \<Rightarrow> bytes" where
  "key_at p i = slice p (pt p i + 8) (rd p (pt p i + 6) 2)"

lemma node_entry_eq:
  assumes ok: "page_ok psize p" and j: "j < NUMKEYS p"
  shows "node_entry p c key j = (do { rc \<leftarrow> call_cmp c key (key_at p j); Some (rc, Some (pt p j)) })"
    "NODEPTR p j = Some (pt p j)" "16 + 2 * j + 2 \<le> length p" "pt p j + 8 \<le> length p"
    "key_at p j = take (rd p (pt p j + 6) 2) (drop 8 (page_nodes p ! j))"
proof -
  have x: "pt p j \<in> set (ptrs p)" using j by (auto simp: ptrs_def)
  note d = page_okD [OF ok x]
  have l: "8 + rd p (pt p j + 6) 2 \<le> node_len (IS_LEAF p) p (pt p j)" by (simp add: node_len_def)
  have l': "8 + rd p (pt p j + 6) 2 \<le> extent p (pt p j)"
    using l EVEN_bounds(1) unfolding extent_def by (rule order_trans)
  show s: "16 + 2 * j + 2 \<le> length p"
    using page_ok_lower [OF ok] d j extent_ge [of p "pt p j"] by simp
  show "pt p j + 8 \<le> length p" using l' d by simp
  show n: "NODEPTR p j = Some (pt p j)" using s by (simp add: NODEPTR_def)
  have "node_key p (pt p j) = Some (key_at p j)"
    using l' d by (simp add: node_key_def NODEKSZ_def mn_ksize_def NODEKEY_def key_at_def)
  then show "node_entry p c key j = (do { rc \<leftarrow> call_cmp c key (key_at p j); Some (rc, Some (pt p j)) })"
    by (simp add: node_entry_def n)
  show "key_at p j = take (rd p (pt p j + 6) 2) (drop 8 (page_nodes p ! j))"
    using l j by (simp add: key_at_def page_nodes_def node_bytes_def slice_def drop_take min_def add.commute)
qed

lemma node_search_place:
  assumes cmp: "node_search_cmp p c = Some c'" "key_order (call_cmp c') valid rank"
    and ok: "page_ok psize p" "\<not> IS_LEAF2 p"
    and lo: "lo = (if IS_LEAF p then 0 else 1)" "lo < NUMKEYS p"
    and keys: "valid key" "\<forall>j. lo \<le> j \<and> j < NUMKEYS p \<longrightarrow> valid (key_at p j)"
    and sorted: "\<forall>j k. lo \<le> j \<and> j < k \<and> k < NUMKEYS p \<longrightarrow> rank (key_at p j) < rank (key_at p k)"
    and slot: "mp_lower p + 2 \<le> psize"
  shows "\<exists>i. mdb_node_search p c pad key =
      Some (if i < NUMKEYS p then Some (pt p i) else None, i < NUMKEYS p \<and> rank (key_at p i) = rank key, i) \<and>
    lo \<le> i \<and> i \<le> NUMKEYS p \<and>
    (\<forall>j. lo \<le> j \<and> j < i \<longrightarrow> rank (key_at p j) < rank key) \<and>
    (\<forall>j. i \<le> j \<and> j < NUMKEYS p \<longrightarrow> rank key \<le> rank (key_at p j))"
proof -
  let ?n = "NUMKEYS p" and ?K = "key_order.keycmp (call_cmp c')"
  have entry: "\<forall>j. lo \<le> j \<and> j < ?n \<longrightarrow> node_entry p c' key j = Some (?K key (key_at p j), Some (pt p j))"
    using node_entry_eq(1) [OF ok(1), of _ c' key] key_order.cmp_Some [OF cmp(2) keys(1)] keys(2) by simp
  obtain i rc where r: "node_search_loop (node_entry p c' key) (int lo) (int ?n - 1) 0 0 None = Some (i, rc, Some (pt p i))"
    and eq: "rc = 0 \<Longrightarrow> lo \<le> i \<and> i < ?n \<and> rank (key_at p i) = rank key \<and>
      key_order.place rank key (key_at p) lo ?n i"
    and ne: "rc \<noteq> 0 \<Longrightarrow> key_order.place rank key (key_at p) lo ?n (if rc > 0 then i + 1 else i)"
      "rc \<noteq> 0 \<Longrightarrow> (if rc > 0 then i + 1 else i) < ?n \<Longrightarrow> rank (key_at p (if rc > 0 then i + 1 else i)) \<noteq> rank key"
    using key_order.search_loop_start [OF cmp(2) keys(2,1) entry sorted lo(2), of None] by metis
  define d where "d = (if rc > 0 then i + 1 else i)"
  have pl: "key_order.place rank key (key_at p) lo ?n d"
    using eq ne(1) by (cases "rc = 0") (auto simp: d_def)
  note P = pl [unfolded key_order.place_def [OF cmp(2)]]
  have ex: "(rc = 0 \<and> ?n > 0) = (d < ?n \<and> rank (key_at p d) = rank key)"
    using eq ne(2) lo(2) by (cases "rc = 0") (auto simp: d_def)
  have dn: "(if rc > 0 then do { n \<leftarrow> NODEPTR p (i + 1); Some (i + 1, Some n) } else Some (i, Some (pt p i)))
      = Some (d, Some (pt p d))"
  proof -
    have "16 + 2 * d + 2 \<le> length p" if "rc > 0"
      using P page_ok_lower [OF ok(1)] slot ok(1) by (auto simp: page_ok_def)
    then show ?thesis by (auto simp: d_def NODEPTR_def)
  qed
  have lows: "(if IS_LEAF p then 0 else 1) = int lo" using lo by simp
  have "mdb_node_search p c pad key = (do {
      (i, node) \<leftarrow> (if rc > 0 then do { n \<leftarrow> NODEPTR p (i + 1); Some (i + 1, Some n) } else Some (i, Some (pt p i)));
      Some (if i \<ge> ?n then None else node, rc = 0 \<and> ?n > 0, i) })"
    unfolding mdb_node_search_def Let_def lows using cmp(1) ok(2) r by simp
  also have "\<dots> = Some (if d \<ge> ?n then None else Some (pt p d), rc = 0 \<and> ?n > 0, d)"
    unfolding dn by simp
  finally have "mdb_node_search p c pad key =
      Some (if d < ?n then Some (pt p d) else None, d < ?n \<and> rank (key_at p d) = rank key, d)"
    unfolding ex by auto
  then show ?thesis using P by blast
qed

text \<open>C30: on a well-formed page whose keys ascend strictly in the order that the page's comparison
  decides (leaf pages from entry 0, branch pages from entry 1, whose first key is implicit),
  \<open>mdb_node_search\<close> terminates, reads only the page, and finds the place of the key: the index it
  stores is that of the first entry not below the key, \<open>*exactp\<close> says whether that entry equals the key,
  and the node is returned unless every entry is below the key.\<close>

theorem node_search_correct:
  assumes cmp: "node_search_cmp p c = Some c'" "key_order (call_cmp c') valid rank"
    and ok: "page_ok psize p" "\<not> IS_LEAF2 p"
    and lo: "lo = (if IS_LEAF p then 0 else 1)" "lo < NUMKEYS p"
    and keys: "valid key" "\<forall>j. lo \<le> j \<and> j < NUMKEYS p \<longrightarrow> valid (key_at p j)"
    and sorted: "\<forall>j k. lo \<le> j \<and> j < k \<and> k < NUMKEYS p \<longrightarrow> rank (key_at p j) < rank (key_at p k)"
    and slot: "mp_lower p + 2 \<le> psize"
  shows "\<exists>i. mdb_node_search p c pad key =
      Some (if i < NUMKEYS p then Some (pt p i) else None, i < NUMKEYS p \<and> rank (key_at p i) = rank key, i) \<and>
    lo \<le> i \<and> i \<le> NUMKEYS p \<and>
    (\<forall>j. lo \<le> j \<and> j < i \<longrightarrow> rank (key_at p j) < rank key) \<and>
    (\<forall>j. i \<le> j \<and> j < NUMKEYS p \<longrightarrow> rank key \<le> rank (key_at p j))"
  by (rule node_search_place [OF assms])

lemma node_search_correct_witness:
  "\<exists>i. mdb_node_search one_node_page Cmp_memn 0 [0x61] =
      Some (if i < NUMKEYS one_node_page then Some (pt one_node_page i) else None,
        i < NUMKEYS one_node_page \<and> key_at one_node_page i = [0x61], i) \<and>
    0 \<le> i \<and> i \<le> NUMKEYS one_node_page \<and>
    (\<forall>j. 0 \<le> j \<and> j < i \<longrightarrow> key_at one_node_page j < [0x61]) \<and>
    (\<forall>j. i \<le> j \<and> j < NUMKEYS one_node_page \<longrightarrow> [0x61] \<le> key_at one_node_page j)"
proof (rule node_search_correct [where c' = Cmp_memn and valid = "\<lambda>a. length a < 2 ^ 32" and psize = 28])
  show "key_order (call_cmp Cmp_memn) (\<lambda>a. length a < 2 ^ 32) (\<lambda>a. a)"
    using memn.key_order_axioms by simp
  have "pt one_node_page 0 = 18" by (simp add: pt_def one_node_page_def rd_def slice_def)
  then have "key_at one_node_page 0 = [0x61]" by (simp add: key_at_def one_node_page_def rd_def slice_def)
  then show "\<forall>j. 0 \<le> j \<and> j < NUMKEYS one_node_page \<longrightarrow> length (key_at one_node_page j) < 2 ^ 32"
    by simp
qed (simp_all add: one_node_ok node_search_cmp_def is_cint_def)

end
