(* ===== verification/Structs.thy ===== *)
theory Structs
  imports Midl Compare Page
begin

text \<open>
  The in-memory and on-disk structures of \<open>mdb.c\<close> that several components share: error
  codes, environment flags, \<open>MDB_db\<close>, \<open>MDB_meta\<close> with its place in the data file, the reader
  table and \<open>MDB_env\<close>. The data file is the list of its bytes. The memory map shows the file
  (it is a shared mapping), so \<open>me_map\<close> is only a flag that says whether it exists.
\<close>

section \<open>Return codes and flags\<close>

definition MDB_SUCCESS :: int where [simp]: "MDB_SUCCESS = 0"
definition MDB_KEYEXIST :: int where "MDB_KEYEXIST = - 30799"
definition MDB_NOTFOUND :: int where "MDB_NOTFOUND = - 30798"
definition MDB_PAGE_NOTFOUND :: int where "MDB_PAGE_NOTFOUND = - 30797"
definition MDB_CORRUPTED :: int where "MDB_CORRUPTED = - 30796"
definition MDB_PANIC :: int where "MDB_PANIC = - 30795"
definition MDB_VERSION_MISMATCH :: int where "MDB_VERSION_MISMATCH = - 30794"
definition MDB_INVALID :: int where "MDB_INVALID = - 30793"
definition MDB_MAP_FULL :: int where "MDB_MAP_FULL = - 30792"
definition MDB_DBS_FULL :: int where "MDB_DBS_FULL = - 30791"
definition MDB_READERS_FULL :: int where "MDB_READERS_FULL = - 30790"
definition MDB_TLS_FULL :: int where "MDB_TLS_FULL = - 30789"
definition MDB_TXN_FULL :: int where "MDB_TXN_FULL = - 30788"
definition MDB_CURSOR_FULL :: int where "MDB_CURSOR_FULL = - 30787"
definition MDB_PAGE_FULL :: int where "MDB_PAGE_FULL = - 30786"
definition MDB_MAP_RESIZED :: int where "MDB_MAP_RESIZED = - 30785"
definition MDB_INCOMPATIBLE :: int where "MDB_INCOMPATIBLE = - 30784"
definition MDB_BAD_RSLOT :: int where "MDB_BAD_RSLOT = - 30783"
definition MDB_BAD_TXN :: int where "MDB_BAD_TXN = - 30782"
definition MDB_BAD_VALSIZE :: int where "MDB_BAD_VALSIZE = - 30781"
definition MDB_BAD_DBI :: int where "MDB_BAD_DBI = - 30780"
definition MDB_PROBLEM :: int where "MDB_PROBLEM = - 30779"

lemmas rc_defs = MDB_KEYEXIST_def MDB_NOTFOUND_def MDB_PAGE_NOTFOUND_def MDB_CORRUPTED_def
  MDB_PANIC_def MDB_VERSION_MISMATCH_def MDB_INVALID_def MDB_MAP_FULL_def MDB_DBS_FULL_def
  MDB_READERS_FULL_def MDB_TLS_FULL_def MDB_TXN_FULL_def MDB_CURSOR_FULL_def MDB_PAGE_FULL_def
  MDB_MAP_RESIZED_def MDB_INCOMPATIBLE_def MDB_BAD_RSLOT_def MDB_BAD_TXN_def MDB_BAD_VALSIZE_def
  MDB_BAD_DBI_def MDB_PROBLEM_def

text \<open>\<open>errno\<close> values of the platform.\<close>

definition ENOENT :: int where "ENOENT = 2"
definition EINTR :: int where "EINTR = 4"
definition EIO :: int where "EIO = 5"
definition EINVAL :: int where "EINVAL = 22"
definition ENOSPC :: int where "ENOSPC = 28"
definition EACCES :: int where "EACCES = 13"
definition EBUSY :: int where "EBUSY = 16"

definition MDB_FIXEDMAP :: u32 where "MDB_FIXEDMAP = 0x01"
definition MDB_NOSYNC :: u32 where "MDB_NOSYNC = 0x10000"
definition MDB_RDONLY :: u32 where "MDB_RDONLY = 0x20000"
definition MDB_NOMETASYNC :: u32 where "MDB_NOMETASYNC = 0x40000"
definition MDB_WRITEMAP :: u32 where "MDB_WRITEMAP = 0x80000"
definition MDB_MAPASYNC :: u32 where "MDB_MAPASYNC = 0x100000"
definition MDB_NOTLS :: u32 where "MDB_NOTLS = 0x200000"
definition MDB_NOLOCK :: u32 where "MDB_NOLOCK = 0x400000"
definition MDB_NORDAHEAD :: u32 where "MDB_NORDAHEAD = 0x800000"
definition MDB_NOMEMINIT :: u32 where "MDB_NOMEMINIT = 0x1000000"
definition MDB_PREVSNAPSHOT :: u32 where "MDB_PREVSNAPSHOT = 0x2000000"
definition MDB_FATAL_ERROR :: u32 where "MDB_FATAL_ERROR = 0x80000000"
definition MDB_RAWPART :: u32 where "MDB_RAWPART = 0x40000000"
definition MDB_ENV_ACTIVE :: u32 where "MDB_ENV_ACTIVE = 0x20000000"

lemmas env_flag_defs = MDB_FIXEDMAP_def MDB_NOSYNC_def MDB_RDONLY_def MDB_NOMETASYNC_def
  MDB_WRITEMAP_def MDB_MAPASYNC_def MDB_NOTLS_def MDB_NOLOCK_def MDB_NORDAHEAD_def
  MDB_NOMEMINIT_def MDB_PREVSNAPSHOT_def MDB_FATAL_ERROR_def MDB_RAWPART_def MDB_ENV_ACTIVE_def

definition P_INVALID :: u64 where "P_INVALID = - 1"
definition FREE_DBI :: nat where [simp]: "FREE_DBI = 0"
definition MAIN_DBI :: nat where [simp]: "MAIN_DBI = 1"
definition CORE_DBS :: nat where [simp]: "CORE_DBS = 2"
definition NUM_METAS :: nat where [simp]: "NUM_METAS = 2"
definition MDB_MAGIC :: u32 where "MDB_MAGIC = 0xBEEFC0DE"
definition MDB_DATA_VERSION :: u32 where "MDB_DATA_VERSION = 1"

section \<open>\<open>MDB_db\<close> and \<open>MDB_meta\<close>\<close>

record db =
  md_pad :: u32
  md_flags :: u16
  md_depth :: u16
  md_branch_pages :: u64
  md_leaf_pages :: u64
  md_overflow_pages :: u64
  md_entries :: u64
  md_root :: u64

record meta =
  mm_magic :: u32
  mm_version :: u32
  mm_address :: u64
  mm_mapsize :: u64
  mm_free_db :: db
  mm_main_db :: db
  mm_last_pg :: u64
  mm_txnid :: u64

text \<open>\<open>mm_dbs[FREE_DBI]\<close> is \<open>mm_free_db\<close>, \<open>mm_dbs[MAIN_DBI]\<close> is \<open>mm_main_db\<close>.\<close>

definition mm_psize :: "meta \<Rightarrow> u32" where "mm_psize m = md_pad (mm_free_db m)"
definition mm_flags :: "meta \<Rightarrow> u16" where "mm_flags m = md_flags (mm_free_db m)"

text \<open>The C layout of both structs on a 64-bit platform, read and written at offset \<open>a\<close>.\<close>

definition wenc :: "nat \<Rightarrow> 'a::len word \<Rightarrow> bytes" where
  "wenc n w = le_enc n (unat w)"

definition wrd :: "bytes \<Rightarrow> nat \<Rightarrow> nat \<Rightarrow> 'a::len word" where
  "wrd p a n = of_nat (rd p a n)"

definition db_bytes :: "db \<Rightarrow> bytes" where
  "db_bytes d = wenc 4 (md_pad d) @ wenc 2 (md_flags d) @ wenc 2 (md_depth d) @
     wenc 8 (md_branch_pages d) @ wenc 8 (md_leaf_pages d) @ wenc 8 (md_overflow_pages d) @
     wenc 8 (md_entries d) @ wenc 8 (md_root d)"

definition db_at :: "bytes \<Rightarrow> nat \<Rightarrow> db" where
  "db_at p a = \<lparr>md_pad = wrd p a 4, md_flags = wrd p (a + 4) 2, md_depth = wrd p (a + 6) 2,
     md_branch_pages = wrd p (a + 8) 8, md_leaf_pages = wrd p (a + 16) 8,
     md_overflow_pages = wrd p (a + 24) 8, md_entries = wrd p (a + 32) 8, md_root = wrd p (a + 40) 8\<rparr>"

definition meta_bytes :: "meta \<Rightarrow> bytes" where
  "meta_bytes m = wenc 4 (mm_magic m) @ wenc 4 (mm_version m) @ wenc 8 (mm_address m) @
     wenc 8 (mm_mapsize m) @ db_bytes (mm_free_db m) @ db_bytes (mm_main_db m) @
     wenc 8 (mm_last_pg m) @ wenc 8 (mm_txnid m)"

definition meta_at :: "bytes \<Rightarrow> nat \<Rightarrow> meta" where
  "meta_at p a = \<lparr>mm_magic = wrd p a 4, mm_version = wrd p (a + 4) 4, mm_address = wrd p (a + 8) 8,
     mm_mapsize = wrd p (a + 16) 8, mm_free_db = db_at p (a + 24), mm_main_db = db_at p (a + 72),
     mm_last_pg = wrd p (a + 120) 8, mm_txnid = wrd p (a + 128) 8\<rparr>"

definition sizeof_meta :: nat where [simp]: "sizeof_meta = 136"

lemma length_wenc [simp]: "length (wenc n w) = n"
  by (simp add: wenc_def)

lemma length_db_bytes [simp]: "length (db_bytes d) = 48"
  by (simp add: db_bytes_def)

lemma length_meta_bytes [simp]: "length (meta_bytes m) = 136"
  by (simp add: meta_bytes_def)

lemma le_dec_wenc:
  "LENGTH('a) \<le> 8 * n \<Longrightarrow> le_dec (wenc n (w :: 'a::len word)) = unat w"
proof -
  assume "LENGTH('a) \<le> 8 * n"
  then have "(2::nat) ^ LENGTH('a) \<le> 2 ^ (8 * n)" by (intro power_increasing) auto
  moreover have "unat w < 2 ^ LENGTH('a)" by (rule unsigned_less)
  ultimately have "unat w < 2 ^ (8 * n)" by linarith
  then have "unat w < 256 ^ n" by (simp add: power_mult)
  then show ?thesis by (simp add: wenc_def)
qed

lemma rd_append_left: "a + n \<le> length xs \<Longrightarrow> rd (xs @ ys) a n = rd xs a n"
  by (simp add: rd_def slice_def)

lemma rd_append_right: "length xs \<le> a \<Longrightarrow> rd (xs @ ys) a n = rd ys (a - length xs) n"
  by (simp add: rd_def slice_def)

lemma rd_whole: "length xs = n \<Longrightarrow> rd xs 0 n = le_dec xs"
  by (simp add: rd_def slice_all)

lemma wrd_slice: "b + m \<le> n \<Longrightarrow> wrd (slice p a n) b m = wrd p (a + b) m"
  by (simp add: wrd_def rd_slice)

lemma db_at_bytes [simp]: "db_at (db_bytes d) 0 = d"
  by (cases d) (simp add: db_at_def db_bytes_def wrd_def rd_append_left rd_append_right rd_whole le_dec_wenc)

lemma db_at_slice: "b + 48 \<le> n \<Longrightarrow> db_at (slice p a n) b = db_at p (a + b)"
  by (simp add: db_at_def wrd_slice add.assoc)

lemma meta_at_slice: "b + 136 \<le> n \<Longrightarrow> meta_at (slice p a n) b = meta_at p (a + b)"
  by (simp add: meta_at_def wrd_slice db_at_slice add.assoc)

lemma meta_at_bytes [simp]: "meta_at (meta_bytes m) 0 = m"
proof -
  have d1: "slice (meta_bytes m) 24 48 = db_bytes (mm_free_db m)"
    by (simp add: meta_bytes_def slice_def)
  have d2: "slice (meta_bytes m) 72 48 = db_bytes (mm_main_db m)"
    by (simp add: meta_bytes_def slice_def)
  have "db_at (meta_bytes m) 24 = mm_free_db m" "db_at (meta_bytes m) 72 = mm_main_db m"
    using db_at_slice [of 0 48 "meta_bytes m" 24] db_at_slice [of 0 48 "meta_bytes m" 72] d1 d2 by simp_all
  then show ?thesis
    by (cases m) (simp add: meta_at_def, simp add: meta_bytes_def wrd_def rd_append_left rd_append_right rd_whole le_dec_wenc)
qed

lemma meta_at_cong: "slice p a 136 = slice q b 136 \<Longrightarrow> meta_at p a = meta_at q b"
  using meta_at_slice [of 0 136 p a] meta_at_slice [of 0 136 q b] by simp

lemma meta_at_written: "slice p a 136 = meta_bytes m \<Longrightarrow> meta_at p a = m"
  using meta_at_slice [of 0 136 p a] by simp

section \<open>Reader table and environment\<close>

text \<open>
  \<open>mr_txnid\<close> is \<open>(txnid_t)-1\<close> in a slot that is free or about to be used. The lock file's
  mutexes are part of the operating system model.
\<close>

record reader =
  mr_txnid :: u64
  mr_pid :: int
  mr_tid :: u64

record txninfo =
  mti_txnid :: u64
  mti_numreaders :: nat
  mti_readers :: "reader list"

text \<open>A page is addressed in the map, in a malloc'd block, or (a \<open>P_SUBP\<close> page) at an offset of another page.\<close>

datatype page_ptr = Map_page u64 | Heap_page nat | Sub_page page_ptr nat

record env =
  me_flags :: u32
  me_psize :: nat
  me_os_psize :: nat
  me_maxreaders :: nat
  me_close_readers :: nat
  me_numdbs :: nat
  me_maxdbs :: nat
  me_pid :: int
  me_map :: bool
  me_txns :: "txninfo option"
  me_txn :: bool
  me_mapsize :: u64
  me_maxpg :: u64
  me_pgoldest :: u64
  me_pglast :: u64
  me_pghead :: "idl option"
  me_maxfree_1pg :: int
  me_dbxs :: "dbx list"
  me_dbflags :: "u16 list"
  me_dbiseqs :: "nat list"
  me_dpages :: "nat list"
  me_nodemax :: nat
  me_pbuf :: bytes
  me_live_reader :: bool
  me_free_pgs :: idl
  me_dirty_list :: "(u64 \<times> page_ptr) list"

text \<open>\<open>me_metas[i]\<close>: the offset of meta \<open>i\<close> in the file and in the map.\<close>

definition me_metas :: "env \<Rightarrow> nat \<Rightarrow> nat" where
  "me_metas env i = PAGEHDRSZ + i * me_psize env"

section \<open>Transactions\<close>

text \<open>
  \<open>mt_dbxs\<close> is the array \<open>me_dbxs\<close> of the environment, and so is \<open>mt_dbiseqs = None\<close> the array
  \<open>me_dbiseqs\<close> (read-only transactions); write transactions have a copy. \<open>me_dpages\<close>, linked like
  \<open>mt_loose_pgs\<close>, lists malloc'd blocks. \<open>mt_loose_pgs\<close>, a list linked through the pages themselves in C,
  is the list of its pages. \<open>mt_spill_pgs\<close> is \<open>None\<close> for the null pointer. \<open>mt_reader\<close> is the index of the
  slot \<open>mt_u.reader\<close>. \<open>mt_parent\<close> is not a field: functions that walk from a nested transaction to its
  ancestors take the list of them.
\<close>

record txn =
  mt_next_pgno :: u64
  mt_txnid :: u64
  mt_free_pgs :: idl
  mt_loose_pgs :: "page_ptr list"
  mt_loose_count :: int
  mt_spill_pgs :: "idl option"
  mt_dirty_list :: "(u64 \<times> page_ptr) list"
  mt_dbs :: "db list"
  mt_dbiseqs :: "nat list option"
  mt_dbflags :: "u8 list"
  mt_numdbs :: nat
  mt_flags :: u32
  mt_dirty_room :: nat
  mt_reader :: "nat option"

definition MDB_TXN_FINISHED :: u32 where "MDB_TXN_FINISHED = 0x01"
definition MDB_TXN_ERROR :: u32 where "MDB_TXN_ERROR = 0x02"
definition MDB_TXN_DIRTY :: u32 where "MDB_TXN_DIRTY = 0x04"
definition MDB_TXN_SPILLS :: u32 where "MDB_TXN_SPILLS = 0x08"
definition MDB_TXN_HAS_CHILD :: u32 where "MDB_TXN_HAS_CHILD = 0x10"
definition MDB_TXN_BLOCKED :: u32 where
  "MDB_TXN_BLOCKED = MDB_TXN_FINISHED OR MDB_TXN_ERROR OR MDB_TXN_HAS_CHILD"

lemmas txn_flag_defs = MDB_TXN_FINISHED_def MDB_TXN_ERROR_def MDB_TXN_DIRTY_def
  MDB_TXN_SPILLS_def MDB_TXN_HAS_CHILD_def MDB_TXN_BLOCKED_def

definition DB_DIRTY :: u8 where "DB_DIRTY = 0x01"
definition DB_STALE :: u8 where "DB_STALE = 0x02"
definition DB_NEW :: u8 where "DB_NEW = 0x04"
definition DB_VALID :: u8 where "DB_VALID = 0x08"
definition DB_USRVALID :: u8 where "DB_USRVALID = 0x10"
definition DB_DUPDATA :: u8 where "DB_DUPDATA = 0x20"

end
