(* ===== verification/Meta.thy ===== *)
theory Meta
  imports Structs
begin

text \<open>
  The two meta pages: reading them at open, creating them, choosing the current one and
  replacing the older one at commit. The operating system's answers to \<open>pread\<close>, \<open>pwrite\<close>,
  \<open>msync\<close>, \<open>calloc\<close> and \<open>mmap\<close> are arguments; an answer to \<open>pwrite\<close> is its result and \<open>errno\<close>,
  and a result \<open>r \<ge> 0\<close> writes the first \<open>r\<close> bytes.
\<close>

type_synonym io = "(int \<times> int) list"

definition file_write :: "bytes \<Rightarrow> nat \<Rightarrow> bytes \<Rightarrow> bytes" where
  "file_write file off bs =
     take off (file @ replicate (off - length file) 0) @ bs @ drop (off + length bs) file"

lemma file_write_in: "off + length bs \<le> length file \<Longrightarrow> file_write file off bs = splice file off bs"
  by (simp add: file_write_def splice_def)

section \<open>Reading the header\<close>

definition meta_page_ok :: "bytes \<Rightarrow> int" where
  "meta_page_ok p =
     (if \<not> F_ISSET (mp_flags p) P_META then MDB_INVALID
      else if mm_magic (meta_at p 16) \<noteq> MDB_MAGIC then MDB_INVALID
      else if mm_version (meta_at p 16) \<noteq> MDB_DATA_VERSION then MDB_VERSION_MISMATCH
      else 0)"

text \<open>
  The loop that reads both meta pages with \<open>pread\<close>. \<open>err off\<close> is the \<open>errno\<close> of a failing
  read at \<open>off\<close>; \<open>k\<close> is \<open>NUM_METAS - i\<close>. 152 is \<open>sizeof(MDB_metabuf)\<close>.
\<close>

fun read_header_loop :: "(nat \<Rightarrow> int option) \<Rightarrow> bytes \<Rightarrow> bool \<Rightarrow> nat \<Rightarrow> nat \<Rightarrow> meta \<Rightarrow> int \<times> meta" where
  "read_header_loop err file prev 0 off m = (0, m)"
| "read_header_loop err file prev (Suc k) off m =
     (case err off of
        Some e \<Rightarrow> (e, m)
      | None \<Rightarrow>
          let p = slice file off 152 in
          if length p \<noteq> 152 then (if length p = 0 \<and> off = 0 then ENOENT else MDB_INVALID, m)
          else if meta_page_ok p \<noteq> 0 then (meta_page_ok p, m)
          else
            let m' = meta_at p 16;
                m = (if off = 0 \<or> (if prev then mm_txnid m' < mm_txnid m else mm_txnid m' > mm_txnid m)
                     then m' else m)
            in read_header_loop err file prev k (off + unat (mm_psize m)) m)"

text \<open>The loop over the mapped meta pages of a raw partition.\<close>

fun read_rawpart_loop :: "bytes \<Rightarrow> env \<Rightarrow> nat \<Rightarrow> nat \<Rightarrow> meta \<Rightarrow> (int \<times> meta) option" where
  "read_rawpart_loop file env 0 i m = Some (0, m)"
| "read_rawpart_loop file env (Suc k) i m = do {
     p \<leftarrow> get_bytes file (i * me_psize env) 152;
     let m' = meta_at p 16;
     if \<not> F_ISSET (mp_flags p) P_META then Some (ENOENT, m)
     else if mm_magic m' \<noteq> MDB_MAGIC then Some (MDB_INVALID, m)
     else if mm_version m' \<noteq> MDB_DATA_VERSION then Some (MDB_VERSION_MISMATCH, m)
     else read_rawpart_loop file env k (i + 1) (if i = 0 \<or> mm_txnid m' > mm_txnid m then m' else m) }"

definition VM_ALIGN :: u64 where "VM_ALIGN = 0x200000"

text \<open>
  \<open>trunc_err\<close> and \<open>map_err\<close> are \<open>errno\<close> of \<open>ftruncate\<close> and \<open>mmap\<close>, 0 for success; \<open>moved\<close> says
  that \<open>mmap\<close> picked another address than the one asked for. \<open>madvise\<close> changes nothing.
\<close>

definition file_truncate :: "bytes \<Rightarrow> nat \<Rightarrow> bytes" where
  "file_truncate file n = take n (file @ replicate (n - length file) 0)"

definition mdb_env_map :: "env \<Rightarrow> int \<Rightarrow> int \<Rightarrow> bool \<Rightarrow> bytes \<Rightarrow> int \<times> env \<times> bytes" where
  "mdb_env_map env trunc_err map_err moved file =
     (let flags = me_flags env;
          resize = (flags AND MDB_WRITEMAP \<noteq> 0 \<and> flags AND MDB_RAWPART = 0) in
      if resize \<and> trunc_err \<noteq> 0 then (trunc_err, env, file)
      else
        let file = (if resize then file_truncate file (unat (me_mapsize env)) else file) in
        if map_err \<noteq> 0 then (map_err, env\<lparr>me_map := False\<rparr>, file)
        else let env = env\<lparr>me_map := True\<rparr> in
             if moved then (EBUSY, env, file) else (MDB_SUCCESS, env, file))"

definition mdb_env_read_header ::
    "env \<Rightarrow> bool \<Rightarrow> (nat \<Rightarrow> int option) \<Rightarrow> int \<Rightarrow> int \<Rightarrow> bytes \<Rightarrow> meta \<Rightarrow> (int \<times> env \<times> bytes \<times> meta) option" where
  "mdb_env_read_header env prev err trunc_err map_err file m =
     (if me_flags env AND MDB_RAWPART \<noteq> 0 then
        let env = env\<lparr>me_mapsize := (me_mapsize env + (VM_ALIGN - 1)) AND NOT (VM_ALIGN - 1),
                      me_psize := me_os_psize env\<rparr>;
            (rc, env, file) = mdb_env_map env trunc_err map_err False file
        in if rc \<noteq> 0 then Some (rc, env, file, m)
           else do { (rc, m) \<leftarrow> read_rawpart_loop file env NUM_METAS 0 m; Some (rc, env, file, m) }
      else
        let (rc, m) = read_header_loop err file prev NUM_METAS 0 m in Some (rc, env, file, m))"

section \<open>Creating the meta pages\<close>

definition mdb_env_init_meta0 :: "env \<Rightarrow> meta \<Rightarrow> meta" where
  "mdb_env_init_meta0 env m =
     m\<lparr>mm_magic := MDB_MAGIC,
       mm_version := MDB_DATA_VERSION,
       mm_mapsize := me_mapsize env,
       mm_free_db := (mm_free_db m)\<lparr>md_pad := of_nat (me_psize env),
         md_flags := ucast (me_flags env AND 0xffff) OR MDB_INTEGERKEY, md_root := P_INVALID\<rparr>,
       mm_last_pg := of_nat (NUM_METAS - 1),
       mm_main_db := (mm_main_db m)\<lparr>md_root := P_INVALID\<rparr>\<rparr>"

definition put_meta_page :: "bytes \<Rightarrow> nat \<Rightarrow> nat \<Rightarrow> meta \<Rightarrow> bytes option" where
  "put_meta_page b a pgno m = do {
     b \<leftarrow> store b a 8 pgno;
     b \<leftarrow> store b (a + 10) 2 (unat P_META);
     put_bytes b (a + PAGEHDRSZ) (meta_bytes m) }"

text \<open>\<open>DO_PWRITE\<close>: the result is \<open>len\<close>, \<open>errno\<close>, the file and the answers left.\<close>

fun do_pwrite :: "io \<Rightarrow> bytes \<Rightarrow> nat \<Rightarrow> bytes \<Rightarrow> (int \<times> int \<times> bytes \<times> io) option" where
  "do_pwrite [] file off bs = None"
| "do_pwrite ((r, e) # os) file off bs =
     (if r = -1 \<and> e = EINTR then do_pwrite os file off bs
      else Some (r, e, if r \<ge> 0 then file_write file off (take (nat r) bs) else file, os))"

definition mdb_env_init_meta ::
    "env \<Rightarrow> meta \<Rightarrow> bool \<Rightarrow> io \<Rightarrow> bytes \<Rightarrow> (int \<times> bytes) option" where
  "mdb_env_init_meta env m calloc_ok os file = (
     let psize = me_psize env in
     if me_flags env AND (MDB_RAWPART OR MDB_WRITEMAP) = MDB_RAWPART OR MDB_WRITEMAP then do {
       file \<leftarrow> put_meta_page file 0 0 m;
       file \<leftarrow> put_meta_page file psize 1 m;
       Some (0, file) }
     else if \<not> calloc_ok then Some (ENOMEM, file)
     else do {
       b \<leftarrow> put_meta_page (replicate (NUM_METAS * psize) 0) 0 0 m;
       b \<leftarrow> put_meta_page b psize 1 m;
       (len, e, file, os) \<leftarrow> do_pwrite os file 0 b;
       Some (if \<not> len \<ge> 0 then e
             else if nat len = psize * NUM_METAS then MDB_SUCCESS
             else ENOSPC, file) })"

section \<open>Choosing and replacing a meta page\<close>

definition mdb_env_pick_meta :: "env \<Rightarrow> bytes \<Rightarrow> meta" where
  "mdb_env_pick_meta env file = (
     let m0 = meta_at file (me_metas env 0); m1 = meta_at file (me_metas env 1) in
     if (mm_txnid m0 < mm_txnid m1) \<noteq> (me_flags env AND MDB_PREVSNAPSHOT \<noteq> 0) then m1 else m0)"

text \<open>
  The write of the last 120 bytes of the struct, with its retries: the result is the
  final \<open>rc\<close> of \<open>pwrite\<close>, \<open>errno\<close>, the file and the answers left. A short write counts as
  \<open>EIO\<close>, an interrupted one is tried again.
\<close>

fun write_meta_retry :: "io \<Rightarrow> bytes \<Rightarrow> nat \<Rightarrow> bytes \<Rightarrow> (int \<times> bytes \<times> io) option" where
  "write_meta_retry [] file off bs = None"
| "write_meta_retry ((r, e) # os) file off bs = (
     let file = (if r \<ge> 0 then file_write file off (take (nat r) bs) else file) in
     if r = int (length bs) then Some (0, file, os)
     else let rc = (if r < 0 then e else EIO) in
          if rc = EINTR then write_meta_retry os file off bs else Some (rc, file, os))"

text \<open>
  \<open>mdb_env_write_meta\<close>. \<open>sync\<close> is the \<open>errno\<close> of \<open>msync\<close>, 0 for success. The part of the
  struct that is written starts at \<open>mm_mapsize\<close>, 16 bytes into it.
\<close>

definition mdb_env_write_meta ::
    "env \<Rightarrow> txn \<Rightarrow> int \<Rightarrow> io \<Rightarrow> bytes \<Rightarrow> (int \<times> env \<times> bytes) option" where
  "mdb_env_write_meta env txn sync os file = (
     let toggle = unat (mt_txnid txn AND 1);
         flags = mt_flags txn OR me_flags env;
         a = me_metas env toggle;
         mapsize = mm_mapsize (meta_at file (me_metas env (1 - toggle)));
         mapsize = (if mapsize < me_mapsize env then me_mapsize env else mapsize);
         done = (\<lambda>env file. Some (MDB_SUCCESS,
            env\<lparr>me_txns := map_option (\<lambda>t. t\<lparr>mti_txnid := mt_txnid txn\<rparr>) (me_txns env)\<rparr>, file));
         fail = (\<lambda>rc env file. Some (rc, env\<lparr>me_flags := me_flags env OR MDB_FATAL_ERROR\<rparr>, file))
     in do {
       free_db \<leftarrow> aget (mt_dbs txn) FREE_DBI;
       main_db \<leftarrow> aget (mt_dbs txn) MAIN_DBI;
       if flags AND MDB_WRITEMAP \<noteq> 0 then do {
         file \<leftarrow> put_bytes file (a + 16) (wenc 8 mapsize);
         file \<leftarrow> put_bytes file (a + 24) (db_bytes free_db);
         file \<leftarrow> put_bytes file (a + 72) (db_bytes main_db);
         file \<leftarrow> put_bytes file (a + 120) (wenc 8 (mt_next_pgno txn - 1));
         file \<leftarrow> put_bytes file (a + 128) (wenc 8 (mt_txnid txn));
         if flags AND (MDB_NOMETASYNC OR MDB_NOSYNC) = 0 \<and> sync \<noteq> 0 then fail sync env file
         else done env file }
       else do {
         old \<leftarrow> get_bytes file (a + 120) 16;
         let meta = wenc 8 mapsize @ db_bytes free_db @ db_bytes main_db;
         let bs = meta @ wenc 8 (mt_next_pgno txn - 1) @ wenc 8 (mt_txnid txn);
         (rc, file, os) \<leftarrow> write_meta_retry os file (a + 16) bs;
         if rc \<noteq> 0 then
           (case os of [] \<Rightarrow> None
            | (r2, e) # os \<Rightarrow>
                fail rc env (if r2 \<ge> 0 then file_write file (a + 16) (take (nat r2) (meta @ old)) else file))
         else done env file } })"

section \<open>Configuration\<close>

definition mdb_env_set_mapsize ::
    "env \<Rightarrow> u64 \<Rightarrow> int \<Rightarrow> int \<Rightarrow> bool \<Rightarrow> bytes \<Rightarrow> int \<times> env \<times> bytes" where
  "mdb_env_set_mapsize env sz trunc_err map_err moved file = (
     let finish = (\<lambda>env sz file.
           let env = env\<lparr>me_mapsize := sz\<rparr> in
           (MDB_SUCCESS,
            if me_psize env \<noteq> 0 then env\<lparr>me_maxpg := me_mapsize env div of_nat (me_psize env)\<rparr> else env,
            file))
     in if me_map env then
          if me_txn env then (EINVAL, env, file)
          else
            let m = mdb_env_pick_meta env file;
                sz = (if sz = 0 then mm_mapsize m else sz);
                minsize = (mm_last_pg m + 1) * of_nat (me_psize env);
                sz = (if sz < minsize then minsize else sz);
                env = env\<lparr>me_mapsize := sz\<rparr>;
                (rc, env, file) = mdb_env_map env trunc_err map_err
                  (me_flags env AND MDB_FIXEDMAP \<noteq> 0 \<and> moved) file
            in if rc \<noteq> 0 then (rc, env, file) else finish env sz file
        else finish env sz file)"

definition mdb_env_set_maxdbs :: "env \<Rightarrow> nat \<Rightarrow> int \<times> env" where
  "mdb_env_set_maxdbs env dbs =
     (if me_map env then (EINVAL, env)
      else (MDB_SUCCESS, env\<lparr>me_maxdbs := (dbs + CORE_DBS) mod 2 ^ 32\<rparr>))"

definition mdb_env_set_maxreaders :: "env \<Rightarrow> nat \<Rightarrow> int \<times> env" where
  "mdb_env_set_maxreaders env readers =
     (if me_map env \<or> readers < 1 then (EINVAL, env)
      else (MDB_SUCCESS, env\<lparr>me_maxreaders := readers\<rparr>))"

definition mdb_env_get_maxreaders :: "env option \<Rightarrow> bool \<Rightarrow> int \<times> nat option" where
  "mdb_env_get_maxreaders env out =
     (case env of None \<Rightarrow> (EINVAL, None)
      | Some env \<Rightarrow> if \<not> out then (EINVAL, None) else (MDB_SUCCESS, Some (me_maxreaders env)))"

section \<open>The layout of the meta pages in the file\<close>

lemma wenc_wrd:
  "LENGTH('a) = 8 * n \<Longrightarrow> a + n \<le> length p \<Longrightarrow> wenc n (wrd p a n :: 'a::len word) = slice p a n"
proof -
  assume l: "LENGTH('a) = 8 * n" "a + n \<le> length p"
  have "rd p a n < 2 ^ LENGTH('a)" using rd_less [of p a n] l(1) by (simp add: power_mult)
  then have "unat (wrd p a n :: 'a word) = rd p a n"
    by (simp add: wrd_def unsigned_of_nat take_bit_nat_eq_self)
  then show ?thesis using l(2) by (simp add: wenc_def rd_def le_enc_dec')
qed

definition meta_head :: "meta \<Rightarrow> bytes" where
  "meta_head m = wenc 4 (mm_magic m) @ wenc 4 (mm_version m) @ wenc 8 (mm_address m)"

definition meta_tail :: "meta \<Rightarrow> bytes" where
  "meta_tail m = wenc 8 (mm_mapsize m) @ db_bytes (mm_free_db m) @ db_bytes (mm_main_db m) @
     wenc 8 (mm_last_pg m) @ wenc 8 (mm_txnid m)"

lemma meta_bytes_split: "meta_bytes m = meta_head m @ meta_tail m"
  by (simp add: meta_bytes_def meta_head_def meta_tail_def)

lemma length_meta_parts [simp]: "length (meta_head m) = 16" "length (meta_tail m) = 120"
  by (simp_all add: meta_head_def meta_tail_def)

lemma meta_head_at: "a + 16 \<le> length p \<Longrightarrow> meta_head (meta_at p a) = slice p a 16"
  using slice_append [of p a 4 12] slice_append [of p "a + 4" 4 8]
  by (simp add: meta_head_def meta_at_def wenc_wrd add.assoc)

text \<open>The file with a new tail written into the meta page at \<open>a\<close>.\<close>

lemma meta_tail_written:
  assumes "a + 136 \<le> length file"
    and "meta_head m = meta_head (meta_at file a)"
  shows "meta_at (splice file (a + 16) (meta_tail m)) a = m"
proof (rule meta_at_written)
  let ?f = "splice file (a + 16) (meta_tail m)"
  have "slice ?f a 136 = slice ?f a 16 @ slice ?f (a + 16) 120"
    using slice_append [of ?f a 16 120] by simp
  also have "\<dots> = meta_head m @ meta_tail m"
    using assms meta_head_at [of a "file"] by (simp add: slice_splice_disj)
  finally show "slice ?f a 136 = meta_bytes m" by (simp add: meta_bytes_split)
qed

definition metas_fit :: "env \<Rightarrow> bytes \<Rightarrow> bool" where
  "metas_fit env file \<longleftrightarrow> 152 \<le> me_psize env \<and> 2 * me_psize env \<le> length file"

lemma metas_fitD:
  assumes "metas_fit env file" "t < 2"
  shows "me_metas env t + 136 \<le> length file"
    "me_metas env t + 136 \<le> me_metas env (1 - t) \<or> me_metas env (1 - t) + 136 \<le> me_metas env t"
proof -
  have "t = 0 \<or> t = 1" using assms(2) by linarith
  moreover have f: "152 \<le> me_psize env" "2 * me_psize env \<le> length file"
    using assms(1) by (simp_all add: metas_fit_def)
  ultimately show "me_metas env t + 136 \<le> length file"
    by (elim disjE) (simp_all add: me_metas_def)
  from \<open>t = 0 \<or> t = 1\<close> show "me_metas env t + 136 \<le> me_metas env (1 - t) \<or> me_metas env (1 - t) + 136 \<le> me_metas env t"
    using f by (elim disjE) (simp_all add: me_metas_def)
qed

lemma other_meta_kept:
  assumes "metas_fit env file" "t < 2" "length bs \<le> 120"
  shows "meta_at (splice file (me_metas env t + 16) bs) (me_metas env (1 - t)) = meta_at file (me_metas env (1 - t))"
proof (rule meta_at_cong)
  have "1 - t < 2" by simp
  then show "slice (splice file (me_metas env t + 16) bs) (me_metas env (1 - t)) 136 = slice file (me_metas env (1 - t)) 136"
  proof (intro slice_splice_disj)
    show "me_metas env t + 16 + length bs \<le> length file" using metas_fitD(1) [OF assms(1,2)] assms(3) by linarith
    show "me_metas env (1 - t) + 136 \<le> length file" using \<open>1 - t < 2\<close> by (rule metas_fitD(1) [OF assms(1)])
    show "me_metas env (1 - t) + 136 \<le> me_metas env t + 16 \<or> me_metas env t + 16 + length bs \<le> me_metas env (1 - t)"
      using metas_fitD(2) [OF assms(1,2)] assms(3) by linarith
  qed
qed

text \<open>The choice between the two meta pages, told from the page that is being replaced.\<close>

lemma pick_meta_toggle:
  assumes "t < 2" "me_flags env AND MDB_PREVSNAPSHOT = 0"
  shows "mm_txnid (meta_at file (me_metas env (1 - t))) < mm_txnid (meta_at file (me_metas env t)) \<Longrightarrow>
      mdb_env_pick_meta env file = meta_at file (me_metas env t)"
    and "mm_txnid (meta_at file (me_metas env t)) < mm_txnid (meta_at file (me_metas env (1 - t))) \<Longrightarrow>
      mdb_env_pick_meta env file = meta_at file (me_metas env (1 - t))"
proof -
  have t: "t = 0 \<or> t = 1" using assms(1) by linarith
  show "mdb_env_pick_meta env file = meta_at file (me_metas env t)"
    if "mm_txnid (meta_at file (me_metas env (1 - t))) < mm_txnid (meta_at file (me_metas env t))"
    using t that assms(2) by (elim disjE) (simp_all add: mdb_env_pick_meta_def Let_def)
  show "mdb_env_pick_meta env file = meta_at file (me_metas env (1 - t))"
    if "mm_txnid (meta_at file (me_metas env t)) < mm_txnid (meta_at file (me_metas env (1 - t)))"
    using t that assms(2) by (elim disjE) (simp_all add: mdb_env_pick_meta_def Let_def)
qed

lemma toggle_less: "unat (x AND 1 :: u64) < 2"
  by (cases "odd x") (simp_all add: and_one_eq mod_2_eq_odd)

text \<open>The meta page a commit writes.\<close>

definition committed_meta :: "env \<Rightarrow> txn \<Rightarrow> bytes \<Rightarrow> meta" where
  "committed_meta env txn file = (
     let t = unat (mt_txnid txn AND 1);
         ms = mm_mapsize (meta_at file (me_metas env (1 - t)))
     in (meta_at file (me_metas env t))\<lparr>mm_mapsize := if ms < me_mapsize env then me_mapsize env else ms,
          mm_free_db := mt_dbs txn ! 0, mm_main_db := mt_dbs txn ! 1,
          mm_last_pg := mt_next_pgno txn - 1, mm_txnid := mt_txnid txn\<rparr>)"

lemma committed_head: "meta_head (committed_meta env txn file) = meta_head (meta_at file (me_metas env (unat (mt_txnid txn AND 1))))"
  by (simp add: committed_meta_def Let_def meta_head_def)

lemma retry_interrupts:
  "off + length bs \<le> length file \<Longrightarrow> bs \<noteq> [] \<Longrightarrow>
    write_meta_retry (replicate n (-1, EINTR) @ (int (length bs), e) # os) file off bs = Some (0, splice file off bs, os)"
  by (induction n) (auto simp: Let_def file_write_in)

definition new_tail :: "env \<Rightarrow> txn \<Rightarrow> bytes \<Rightarrow> bytes" where
  "new_tail env txn file = meta_tail (committed_meta env txn file)"

lemma length_new_tail [simp]: "length (new_tail env txn file) = 120"
  by (simp add: new_tail_def)

lemma prev_flag_fatal [simp]: "(f OR MDB_FATAL_ERROR) AND MDB_PREVSNAPSHOT = f AND MDB_PREVSNAPSHOT"
  by (simp add: bit.conj_disj_distrib2 env_flag_defs)

text \<open>\<open>mdb_env_write_meta\<close> with its locals resolved.\<close>

lemma write_meta_eq:
  assumes fit: "metas_fit env file" and dbs: "2 \<le> length (mt_dbs txn)"
  defines "a \<equiv> me_metas env (unat (mt_txnid txn AND 1))"
    and "bs \<equiv> new_tail env txn file"
  shows "(mt_flags txn OR me_flags env) AND MDB_WRITEMAP \<noteq> 0 \<Longrightarrow>
      mdb_env_write_meta env txn 0 os file = Some (0,
        env\<lparr>me_txns := map_option (\<lambda>t. t\<lparr>mti_txnid := mt_txnid txn\<rparr>) (me_txns env)\<rparr>, splice file (a + 16) bs)"
    and "(mt_flags txn OR me_flags env) AND MDB_WRITEMAP = 0 \<Longrightarrow>
      mdb_env_write_meta env txn sync os file = (do {
        (rc, file1, os) \<leftarrow> write_meta_retry os file (a + 16) bs;
        if rc \<noteq> 0 then
          (case os of [] \<Rightarrow> None
           | (r2, e) # os \<Rightarrow>
               Some (rc, env\<lparr>me_flags := me_flags env OR MDB_FATAL_ERROR\<rparr>,
                 if r2 \<ge> 0 then file_write file1 (a + 16) (take (nat r2) (take 104 bs @ slice file (a + 120) 16)) else file1))
        else Some (0, env\<lparr>me_txns := map_option (\<lambda>t. t\<lparr>mti_txnid := mt_txnid txn\<rparr>) (me_txns env)\<rparr>, file1) })"
proof -
  have t: "unat (mt_txnid txn AND 1) < 2" by (rule toggle_less)
  have al: "a + 136 \<le> length file" unfolding a_def by (rule metas_fitD(1) [OF fit t])
  have d: "aget (mt_dbs txn) 0 = Some (mt_dbs txn ! 0)" "aget (mt_dbs txn) (Suc 0) = Some (mt_dbs txn ! 1)"
    using dbs by (auto simp: aget_def)
  define ms where "ms = mm_mapsize (committed_meta env txn file)"
  have ms: "(if mm_mapsize (meta_at file (me_metas env (1 - unat (mt_txnid txn AND 1)))) < me_mapsize env then me_mapsize env
      else mm_mapsize (meta_at file (me_metas env (1 - unat (mt_txnid txn AND 1))))) = ms"
    by (simp add: ms_def committed_meta_def Let_def)
  have bs: "bs = wenc 8 ms @ db_bytes (mt_dbs txn ! 0) @ db_bytes (mt_dbs txn ! 1) @
      wenc 8 (mt_next_pgno txn - 1) @ wenc 8 (mt_txnid txn)"
    unfolding bs_def new_tail_def meta_tail_def ms_def by (simp add: committed_meta_def Let_def)
  let ?b1 = "wenc 8 ms" and ?b2 = "db_bytes (mt_dbs txn ! 0)" and ?b3 = "db_bytes (mt_dbs txn ! 1)"
    and ?b4 = "wenc 8 (mt_next_pgno txn - 1)" and ?b5 = "wenc 8 (mt_txnid txn)"
  have puts: "(do {
         file \<leftarrow> put_bytes file (a + 16) ?b1;
         file \<leftarrow> put_bytes file (a + 24) ?b2;
         file \<leftarrow> put_bytes file (a + 72) ?b3;
         file \<leftarrow> put_bytes file (a + 120) ?b4;
         put_bytes file (a + 128) ?b5 }) = Some (splice file (a + 16) bs)"
    using al splice_append_after [of "a + 16" ?b1 ?b2 "file"] splice_append_after [of "a + 16" "?b1 @ ?b2" ?b3 "file"]
      splice_append_after [of "a + 16" "?b1 @ ?b2 @ ?b3" ?b4 "file"]
      splice_append_after [of "a + 16" "?b1 @ ?b2 @ ?b3 @ ?b4" ?b5 "file"]
    by (simp add: bs add.commute)
  show "mdb_env_write_meta env txn 0 os file = Some (0,
        env\<lparr>me_txns := map_option (\<lambda>t. t\<lparr>mti_txnid := mt_txnid txn\<rparr>) (me_txns env)\<rparr>, splice file (a + 16) bs)"
    if "(mt_flags txn OR me_flags env) AND MDB_WRITEMAP \<noteq> 0"
  proof -
    have "mdb_env_write_meta env txn 0 os file = (do {
         file \<leftarrow> (do {
         file \<leftarrow> put_bytes file (a + 16) ?b1;
         file \<leftarrow> put_bytes file (a + 24) ?b2;
         file \<leftarrow> put_bytes file (a + 72) ?b3;
         file \<leftarrow> put_bytes file (a + 120) ?b4;
         put_bytes file (a + 128) ?b5 });
         Some (0, env\<lparr>me_txns := map_option (\<lambda>t. t\<lparr>mti_txnid := mt_txnid txn\<rparr>) (me_txns env)\<rparr>, file) })"
      unfolding mdb_env_write_meta_def Let_def ms a_def [symmetric] using that d by (simp add: bind_assoc)
    then show ?thesis unfolding puts by simp
  qed
  have old: "get_bytes file (a + 120) 16 = Some (slice file (a + 120) 16)" using al by simp
  have t104: "take 104 bs = ?b1 @ ?b2 @ ?b3" by (simp add: bs)
  show "mdb_env_write_meta env txn sync os file = (do {
        (rc, file1, os) \<leftarrow> write_meta_retry os file (a + 16) bs;
        if rc \<noteq> 0 then
          (case os of [] \<Rightarrow> None
           | (r2, e) # os \<Rightarrow>
               Some (rc, env\<lparr>me_flags := me_flags env OR MDB_FATAL_ERROR\<rparr>,
                 if r2 \<ge> 0 then file_write file1 (a + 16) (take (nat r2) (take 104 bs @ slice file (a + 120) 16)) else file1))
        else Some (0, env\<lparr>me_txns := map_option (\<lambda>t. t\<lparr>mti_txnid := mt_txnid txn\<rparr>) (me_txns env)\<rparr>, file1) })"
    if "(mt_flags txn OR me_flags env) AND MDB_WRITEMAP = 0"
    unfolding mdb_env_write_meta_def Let_def ms a_def [symmetric] t104 unfolding MDB_SUCCESS_def One_nat_def
    using that d old by (simp add: bs)
qed

text \<open>C31: a commit's meta write takes effect exactly as intended, with and without \<open>MDB_WRITEMAP\<close> and
  however often \<open>pwrite\<close> is interrupted: the page of the older snapshot now holds the transaction's
  databases, last page, id and the larger map size, it becomes the page that \<open>mdb_env_pick_meta\<close> chooses,
  the other meta page is untouched, and the lock file shows the new transaction id.\<close>

theorem write_meta_commits:
  assumes fit: "metas_fit env file" and dbs: "2 \<le> length (mt_dbs txn)"
    and prev: "me_flags env AND MDB_PREVSNAPSHOT = 0"
    and new: "t = unat (mt_txnid txn AND 1)" "mm_txnid (meta_at file (me_metas env (1 - t))) < mt_txnid txn"
    and os: "os = replicate n (-1, EINTR) @ (120, e) # rest"
  shows "\<exists>env' file'. mdb_env_write_meta env txn 0 os file = Some (0, env', file') \<and>
    mdb_env_pick_meta env' file' = committed_meta env txn file \<and>
    meta_at file' (me_metas env (1 - t)) = meta_at file (me_metas env (1 - t)) \<and>
    length file' = length file \<and>
    me_txns env' = map_option (\<lambda>i. i\<lparr>mti_txnid := mt_txnid txn\<rparr>) (me_txns env)"
proof -
  have t: "t < 2" using new(1) toggle_less by simp
  define a where "a = me_metas env t"
  define env' where "env' = env\<lparr>me_txns := map_option (\<lambda>i. i\<lparr>mti_txnid := mt_txnid txn\<rparr>) (me_txns env)\<rparr>"
  define file' where "file' = splice file (a + 16) (new_tail env txn file)"
  have al: "a + 136 \<le> length file" unfolding a_def by (rule metas_fitD(1) [OF fit t])
  have run: "mdb_env_write_meta env txn 0 os file = Some (0, env', file')"
  proof (cases "(mt_flags txn OR me_flags env) AND MDB_WRITEMAP = 0")
    case True
    have "write_meta_retry os file (a + 16) (new_tail env txn file) = Some (0, file', rest)"
      using retry_interrupts [of "a + 16" "new_tail env txn file" "file" n e rest] al
        length_new_tail [of env txn "file"] unfolding os file'_def by fastforce
    then show ?thesis
      using write_meta_eq(2) [OF fit dbs True, of 0 os] by (simp add: a_def new(1) env'_def)
  next
    case False
    then show ?thesis
      using write_meta_eq(1) [OF fit dbs, of os] by (simp add: a_def new(1) env'_def file'_def)
  qed
  have m: "meta_at file' (me_metas env t) = committed_meta env txn file"
    unfolding file'_def a_def new_tail_def
    by (rule meta_tail_written) (use al committed_head [of env txn "file"] new(1) in \<open>auto simp: a_def\<close>)
  have o: "meta_at file' (me_metas env (1 - t)) = meta_at file (me_metas env (1 - t))"
    unfolding file'_def a_def by (rule other_meta_kept [OF fit t]) simp
  have "mm_txnid (committed_meta env txn file) = mt_txnid txn" by (simp add: committed_meta_def Let_def)
  then have "mdb_env_pick_meta env file' = committed_meta env txn file"
    using pick_meta_toggle(1) [OF t prev, of file'] m o new(2) by simp
  moreover have "mdb_env_pick_meta env' file' = mdb_env_pick_meta env file'"
    by (simp add: mdb_env_pick_meta_def env'_def me_metas_def)
  moreover have "length file' = length file" using al by (simp add: file'_def)
  ultimately show ?thesis using run o by (auto simp: env'_def)
qed

lemma txnid_unchanged:
  assumes "\<And>i. i < 8 \<Longrightarrow> f' ! (a + 128 + i) = f ! (a + 128 + i)" "a + 136 \<le> length f" "length f' = length f"
  shows "mm_txnid (meta_at f' a) = mm_txnid (meta_at f a)"
proof -
  have "slice f' (a + 128) 8 = slice f (a + 128) 8"
    by (rule slice_eqI) (use assms in auto)
  then show ?thesis by (simp add: meta_at_def wrd_def rd_def)
qed

text \<open>While the older page keeps its transaction id, damage to the rest of it does not matter.\<close>

lemma pick_meta_kept:
  assumes "t < 2" "me_flags env AND MDB_PREVSNAPSHOT = 0"
    and old: "mm_txnid (meta_at file (me_metas env t)) < mm_txnid (meta_at file (me_metas env (1 - t)))"
    and t: "mm_txnid (meta_at file' (me_metas env t)) = mm_txnid (meta_at file (me_metas env t))"
    and o: "meta_at file' (me_metas env (1 - t)) = meta_at file (me_metas env (1 - t))"
  shows "mdb_env_pick_meta env file' = mdb_env_pick_meta env file \<and>
    mdb_env_pick_meta env file = meta_at file (me_metas env (1 - t))"
  using pick_meta_toggle(2) [OF assms(1,2), of file'] pick_meta_toggle(2) [OF assms(1,2) old] old t o by simp



lemma put_meta_page_eq:
  assumes "a + 152 \<le> length b" "pgno < 256 ^ 8"
  shows "\<exists>b'. put_meta_page b a pgno m = Some b' \<and> length b' = length b \<and>
    slice b' (a + 16) 136 = meta_bytes m \<and> rd b' (a + 10) 2 = 8 \<and>
    (\<forall>c n. (c + n \<le> a \<or> a + 152 \<le> c) \<and> c + n \<le> length b \<longrightarrow> slice b' c n = slice b c n)"
proof -
  define b1 where "b1 = wr (wr b a 8 pgno) (a + 10) 2 8"
  define b' where "b' = splice b1 (a + 16) (meta_bytes m)"
  have l: "length b1 = length b" "length b' = length b" using assms by (simp_all add: b1_def b'_def)
  show ?thesis
  proof (intro exI conjI allI impI)
    show "put_meta_page b a pgno m = Some b'"
      using assms by (simp add: put_meta_page_def b1_def b'_def P_META_def)
    show "length b' = length b" by (rule l(2))
    show "slice b' (a + 16) 136 = meta_bytes m" using assms l(1) by (simp add: b'_def)
    have "rd b' (a + 10) 2 = rd b1 (a + 10) 2"
      unfolding b'_def using assms l(1) by (intro rd_splice_disj) auto
    then show "rd b' (a + 10) 2 = 8" using assms by (simp add: b1_def rd_wr_same)
    fix c n assume c: "(c + n \<le> a \<or> a + 152 \<le> c) \<and> c + n \<le> length b"
    have "slice b' c n = slice b1 c n"
      unfolding b'_def using assms l(1) c by (intro slice_splice_disj) auto
    also have "\<dots> = slice (wr b a 8 pgno) c n"
      unfolding b1_def using assms c by (intro slice_wr_disj) auto
    also have "\<dots> = slice b c n"
      using assms c by (intro slice_wr_disj) auto
    finally show "slice b' c n = slice b c n" .
  qed
qed

lemma pwrite_interrupts:
  "do_pwrite (replicate n (-1, EINTR) @ (int (length bs), e) # os) file off bs =
    Some (int (length bs), e, file_write file off bs, os)"
  by (induction n) auto

text \<open>C35: the header a fresh environment writes is the header that opening it reads: after
  \<open>mdb_env_init_meta\<close> has written both pages, however often it was interrupted,
  \<open>mdb_env_read_header\<close> accepts the file and returns that meta, whichever snapshot was asked for.\<close>

theorem init_meta_read_header:
  assumes ps: "152 \<le> me_psize env" "me_psize env < 2 ^ 31"
    and raw: "me_flags env AND MDB_RAWPART = 0"
    and m: "mm_magic m = MDB_MAGIC" "mm_version m = MDB_DATA_VERSION" "mm_psize m = of_nat (me_psize env)"
    and os: "os = replicate n (-1, EINTR) @ (int (2 * me_psize env), e) # rest"
  shows "\<exists>file. mdb_env_init_meta env m True os [] = Some (0, file) \<and> metas_fit env file \<and>
    mdb_env_pick_meta env file = m \<and>
    mdb_env_read_header env prev (\<lambda>_. None) te me file m0 = Some (0, env, file, m)"
proof -
  let ?ps = "me_psize env"
  have "0 + 152 \<le> length (replicate (NUM_METAS * ?ps) (0::u8))" using ps by simp
  from put_meta_page_eq [OF this, of 0 m] obtain b1 where
    b1: "put_meta_page (replicate (NUM_METAS * ?ps) 0) 0 0 m = Some b1" "length b1 = 2 * ?ps"
    "slice b1 16 136 = meta_bytes m" "rd b1 10 2 = 8" by auto
  have "?ps + 152 \<le> length b1" using ps b1(2) by simp
  from put_meta_page_eq [OF this, of 1 m] obtain b where
    b: "put_meta_page b1 ?ps 1 m = Some b" "length b = 2 * ?ps"
    "slice b (?ps + 16) 136 = meta_bytes m" "rd b (?ps + 10) 2 = 8"
    "\<forall>c n. c + n \<le> ?ps \<longrightarrow> slice b c n = slice b1 c n" using b1(2) by auto
  have b0: "slice b 16 136 = meta_bytes m" "rd b 10 2 = 8"
    using b(5) [rule_format, of 16 136] b(5) [rule_format, of 10 2] b1(3,4) ps by (simp_all add: rd_def)
  have raw2: "me_flags env AND (MDB_RAWPART OR MDB_WRITEMAP) \<noteq> MDB_RAWPART OR MDB_WRITEMAP"
  proof
    assume "me_flags env AND (MDB_RAWPART OR MDB_WRITEMAP) = MDB_RAWPART OR MDB_WRITEMAP"
    then have "bit (me_flags env AND (MDB_RAWPART OR MDB_WRITEMAP)) 30 = bit (MDB_RAWPART OR MDB_WRITEMAP) 30" by simp
    then have "bit (me_flags env) 30" by (simp add: env_flag_defs bit_simps)
    then have "bit (me_flags env AND MDB_RAWPART) 30" by (simp add: env_flag_defs bit_simps)
    then show False using raw by simp
  qed
  have fw: "file_write [] 0 b = b" by (simp add: file_write_def)
  have io: "do_pwrite os [] 0 b = Some (int (2 * ?ps), e, b, rest)"
    using pwrite_interrupts [of n b e rest "[]" 0] b(2) fw by (simp add: os)
  have init: "mdb_env_init_meta env m True os [] = Some (0, b)"
    unfolding mdb_env_init_meta_def Let_def using raw2 b1(1) b(1) io by (simp add: nat_mult_distrib)
  have fit: "metas_fit env b" using ps b(2) by (simp add: metas_fit_def)
  have ma: "meta_at b 16 = m" "meta_at b (?ps + 16) = m"
    using meta_at_written b0(1) b(3) by auto
  have pick: "mdb_env_pick_meta env b = m"
    using ma by (simp add: mdb_env_pick_meta_def me_metas_def Let_def add.commute)
  have page: "meta_page_ok (slice b off 152) = 0" "meta_at (slice b off 152) 16 = m" "length (slice b off 152) = 152"
    if "off = 0 \<or> off = ?ps" for off
  proof -
    have "rd (slice b off 152) 10 2 = 8" using that b0(2) b(4) rd_slice [of 10 2 152 b off] by auto
    then have f: "mp_flags (slice b off 152) = P_META" by (simp add: mp_flags_def P_META_def)
    show at: "meta_at (slice b off 152) 16 = m" using that ma meta_at_slice [of 16 152 b off] by (auto simp: add.commute)
    show "meta_page_ok (slice b off 152) = 0" using f at m by (simp add: meta_page_ok_def F_ISSET_def)
    show "length (slice b off 152) = 152" using that ps b(2) by auto
  qed
  have psz: "unat (mm_psize m) = ?ps"
    using m(3) ps by (simp add: unsigned_of_nat take_bit_nat_eq_self)
  have "read_header_loop (\<lambda>_. None) b prev 2 0 m0 = (0, m)"
    using page [of 0] page [of ?ps] psz by (simp add: numeral_2_eq_2 Let_def)
  then have "mdb_env_read_header env prev (\<lambda>_. None) te me b m0 = Some (0, env, b, m)"
    using raw by (simp add: mdb_env_read_header_def)
  then show ?thesis using init fit pick by blast
qed

text \<open>C36: after \<open>mdb_env_set_mapsize\<close> on an open environment the map covers every page the current
  snapshot uses, whatever size was asked for, and \<open>me_maxpg\<close> counts the whole pages of the map; inside
  a write transaction the call is refused and changes nothing.\<close>

theorem set_mapsize_covers:
  assumes opn: "me_map env" and ps: "0 < me_psize env" "me_psize env < 2 ^ 31"
    and m: "m = mdb_env_pick_meta env file"
    and small: "(unat (mm_last_pg m) + 1) * me_psize env < 2 ^ 64"
    and run: "mdb_env_set_mapsize env sz te me mv file = (rc, env', file')"
  shows "if me_txn env then rc = EINVAL \<and> env' = env \<and> file' = file
    else rc = 0 \<longrightarrow>
      (unat (mm_last_pg m) + 1) * me_psize env \<le> unat (me_mapsize env') \<and> sz \<le> me_mapsize env' \<and>
      unat (mm_last_pg m) < unat (me_maxpg env') \<and> unat (me_maxpg env') * me_psize env \<le> unat (me_mapsize env')"
proof (cases "me_txn env")
  case True
  then show ?thesis using opn run by (auto simp: mdb_env_set_mapsize_def Let_def)
next
  case False
  let ?ps = "me_psize env" and ?l = "unat (mm_last_pg m)"
  define s1 where "s1 = (if sz = 0 then mm_mapsize m else sz)"
  define mins where "mins = (mm_last_pg m + 1) * of_nat ?ps"
  define s where "s = (if s1 < mins then mins else s1)"
  have ups: "unat (of_nat ?ps :: u64) = ?ps" using ps by (simp add: unsigned_of_nat take_bit_nat_eq_self)
  have "?l + 1 \<le> (?l + 1) * ?ps" using ps by (cases ?ps) auto
  then have l1: "unat (mm_last_pg m + 1) = ?l + 1"
    using small unat_add_small [of "mm_last_pg m" 1] by simp
  have umin: "unat mins = (?l + 1) * ?ps"
    unfolding mins_def using small l1 ups by (simp add: unat_word_ariths)
  have smin: "(?l + 1) * ?ps \<le> unat s"
  proof -
    have "mins \<le> s" by (auto simp: s_def)
    then show ?thesis using umin by (simp add: word_le_nat_alt)
  qed
  have ssz: "sz \<le> s" by (auto simp: s_def s1_def)
  show ?thesis
  proof (cases "rc = 0")
    case rc: True
    define env1 where "env1 = env\<lparr>me_mapsize := s\<rparr>"
    obtain rc1 env2 file2 where map: "mdb_env_map env1 te me (me_flags env1 AND MDB_FIXEDMAP \<noteq> 0 \<and> mv) file = (rc1, env2, file2)"
      by (metis prod_cases3)
    have e2: "me_psize env2 = ?ps"
      using map by (auto simp: mdb_env_map_def Let_def env1_def split: if_splits)
    have "mdb_env_set_mapsize env sz te me mv file =
       (if rc1 \<noteq> 0 then (rc1, env2, file2)
        else (0, env2\<lparr>me_mapsize := s, me_maxpg := s div of_nat ?ps\<rparr>, file2))"
      unfolding mdb_env_set_mapsize_def Let_def m [symmetric]
      unfolding s1_def [symmetric] mins_def [symmetric]
      unfolding s_def [symmetric]
      unfolding env1_def [symmetric] map
      using opn False ps e2 by simp
    then have e: "me_mapsize env' = s" "me_maxpg env' = s div of_nat ?ps"
      using run rc by (auto split: if_splits)
    have mp: "unat (me_maxpg env') = unat s div ?ps" unfolding e(2) by (simp add: unat_div ups)
    have "?l + 1 \<le> unat s div ?ps"
      using smin ps(1) by (simp add: less_eq_div_iff_mult_less_eq)
    then show ?thesis using False smin ssz e(1) mp by simp
  qed (use False in simp)
qed

section \<open>Instances\<close>

text \<open>An environment with 152-byte pages whose file holds the snapshots 0 and 1, and transaction 2.\<close>

definition demo_db :: db where
  "demo_db = \<lparr>md_pad = 152, md_flags = 8, md_depth = 0, md_branch_pages = 0, md_leaf_pages = 0,
     md_overflow_pages = 0, md_entries = 0, md_root = P_INVALID\<rparr>"

definition demo_meta :: "u64 \<Rightarrow> meta" where
  "demo_meta t = \<lparr>mm_magic = MDB_MAGIC, mm_version = MDB_DATA_VERSION, mm_address = 0, mm_mapsize = 1048576,
     mm_free_db = demo_db, mm_main_db = demo_db, mm_last_pg = 1, mm_txnid = t\<rparr>"

definition demo_file :: bytes where
  "demo_file = replicate 16 0 @ meta_bytes (demo_meta 0) @ replicate 16 0 @ meta_bytes (demo_meta 1)"

definition demo_env :: env where
  "demo_env = \<lparr>me_flags = 0, me_psize = 152, me_os_psize = 4096, me_maxreaders = 126, me_close_readers = 0,
     me_numdbs = 2, me_maxdbs = 2, me_pid = 1, me_map = True, me_txns = None, me_txn = False,
     me_mapsize = 1048576, me_maxpg = 6898, me_pgoldest = 0, me_pglast = 0, me_pghead = None,
     me_maxfree_1pg = 0, me_dbxs = [], me_dbflags = [], me_dbiseqs = [], me_dpages = [], me_nodemax = 66, me_pbuf = [], me_live_reader = False,
     me_free_pgs = \<lparr>il_alloc = 0, il_ids = [0]\<rparr>, me_dirty_list = []\<rparr>"

definition demo_txn :: txn where
  "demo_txn = \<lparr>mt_next_pgno = 5, mt_txnid = 2, mt_free_pgs = \<lparr>il_alloc = 0, il_ids = [0]\<rparr>,
     mt_loose_pgs = [], mt_loose_count = 0, mt_spill_pgs = None, mt_dirty_list = [], mt_dbs = [demo_db, demo_db],
     mt_dbiseqs = None, mt_dbflags = [0, 0], mt_numdbs = 2, mt_flags = 0, mt_dirty_room = 0,
     mt_reader = None\<rparr>"

lemma demo_metas [simp]:
  "metas_fit demo_env demo_file" "me_metas demo_env 0 = 16" "me_metas demo_env (Suc 0) = 168"
  "meta_at demo_file 16 = demo_meta 0" "meta_at demo_file 168 = demo_meta 1"
  "mm_txnid (demo_meta t) = t" "mm_last_pg (demo_meta t) = 1" "me_flags demo_env = 0" "me_psize demo_env = 152"
  "mt_txnid demo_txn = 2" "mt_flags demo_txn = 0" "length (mt_dbs demo_txn) = 2"
  "me_map demo_env" "\<not> me_txn demo_env" "mdb_env_pick_meta demo_env demo_file = demo_meta 1"
proof -
  show "meta_at demo_file 16 = demo_meta 0" "meta_at demo_file 168 = demo_meta 1"
    by (rule meta_at_written, simp add: demo_file_def slice_def)+
  then show "mdb_env_pick_meta demo_env demo_file = demo_meta 1"
    by (simp add: mdb_env_pick_meta_def me_metas_def demo_env_def demo_meta_def Let_def)
qed (simp_all add: metas_fit_def demo_env_def demo_file_def me_metas_def demo_meta_def demo_txn_def)

lemma write_meta_commits_witness:
  "\<exists>env' file'. mdb_env_write_meta demo_env demo_txn 0 [(-1, EINTR), (120, 0)] demo_file = Some (0, env', file') \<and>
    mdb_env_pick_meta env' file' = committed_meta demo_env demo_txn demo_file \<and>
    meta_at file' 168 = demo_meta 1"
  using write_meta_commits [of demo_env demo_file demo_txn 0 "[(-1, EINTR), (120, 0)]" 1 0 "[]"] by auto



lemma init_meta_read_header_witness:
  "\<exists>file. mdb_env_init_meta demo_env (demo_meta 0) True [(304, 0)] [] = Some (0, file) \<and>
    metas_fit demo_env file \<and> mdb_env_pick_meta demo_env file = demo_meta 0 \<and>
    mdb_env_read_header demo_env False (\<lambda>_. None) 0 0 file (demo_meta 7) = Some (0, demo_env, file, demo_meta 0)"
  using init_meta_read_header [of demo_env "demo_meta 0" "[(304, 0)]" 0 0 "[]" False 0 0 "demo_meta 7"]
  by (simp add: demo_meta_def mm_psize_def demo_db_def)

lemma set_mapsize_covers_witness:
  "case mdb_env_set_mapsize demo_env 5 0 0 False demo_file of (rc, env', file') \<Rightarrow>
    rc = 0 \<longrightarrow> 304 \<le> unat (me_mapsize env') \<and> 1 < unat (me_maxpg env')"
proof (cases "mdb_env_set_mapsize demo_env 5 0 0 False demo_file")
  case (fields rc env' file')
  then show ?thesis
    using set_mapsize_covers [of demo_env "demo_meta 1" demo_file 5 0 0 False rc env' file'] by simp
qed

end
