(* ===== verification/Readers.thy ===== *)
theory Readers
  imports Structs Meta
begin

text \<open>
  The reader table of the lock file: finding the oldest snapshot in use, clearing the slots
  of dead processes, repairing after the death of a mutex owner, and listing the readers.
  What the operating system answers is an argument: \<open>os_fcntl t p\<close> are the answers to the
  \<open>fcntl\<close> calls about process \<open>p\<close> at time \<open>t\<close> (result, \<open>errno\<close>, whether the range is unlocked),
  \<open>os_lock t\<close> the result of locking the reader mutex, \<open>os_consistent t\<close> that of marking it
  consistent, \<open>os_malloc t\<close> whether memory is left. Each of these queries advances \<open>os_time\<close>. \<open>os_io\<close> are the
  answers to the writes, seeks and syncs of the data file to come.
\<close>

record os =
  os_time :: nat
  os_fcntl :: "nat \<Rightarrow> int \<Rightarrow> (int \<times> int \<times> bool) list"
  os_lock :: "nat \<Rightarrow> int"
  os_consistent :: "nat \<Rightarrow> int"
  os_malloc :: "nat \<Rightarrow> bool"
  os_io :: io

definition tick :: "os \<Rightarrow> os" where
  "tick os = os\<lparr>os_time := os_time os + 1\<rparr>"

definition MDB_OWNERDEAD :: int where "MDB_OWNERDEAD = 130"

section \<open>The oldest reader\<close>

fun oldest_loop :: "reader list \<Rightarrow> nat \<Rightarrow> u64 \<Rightarrow> u64 option" where
  "oldest_loop rs 0 oldest = Some oldest"
| "oldest_loop rs (Suc i) oldest = do {
     r \<leftarrow> aget rs i;
     let oldest = (if mr_pid r \<noteq> 0 then
                     let mr = mr_txnid r in if oldest > mr then mr else oldest
                   else oldest);
     oldest_loop rs i oldest }"

definition mdb_find_oldest :: "env \<Rightarrow> txn \<Rightarrow> u64 option" where
  "mdb_find_oldest env txn = (
     let oldest = mt_txnid txn - 1 in
     case me_txns env of
       None \<Rightarrow> Some oldest
     | Some ti \<Rightarrow> oldest_loop (mti_readers ti) (mti_numreaders ti) oldest)"

section \<open>Process locks\<close>

text \<open>\<open>mdb_reader_pid\<close>, with \<open>getlk\<close> for \<open>Pidcheck\<close>; an interrupted call is repeated.\<close>

fun mdb_reader_pid :: "bool \<Rightarrow> (int \<times> int \<times> bool) list \<Rightarrow> int option" where
  "mdb_reader_pid getlk [] = None"
| "mdb_reader_pid getlk ((rc, err, unlocked) # answers) =
     (if rc = 0 then Some (if getlk \<and> \<not> unlocked then -1 else rc)
      else if err = EINTR then mdb_reader_pid getlk answers
      else Some err)"

definition pid_check :: "os \<Rightarrow> int \<Rightarrow> (int \<times> os) option" where
  "pid_check os pid = do {
     rc \<leftarrow> mdb_reader_pid True (os_fcntl os (os_time os) pid);
     Some (rc, tick os) }"

section \<open>The list of processes already looked at\<close>

definition pid_probe :: "int list \<Rightarrow> int \<Rightarrow> nat \<Rightarrow> int option" where
  "pid_probe ids pid k = do { x \<leftarrow> aget ids k; Some (pid - x) }"

definition mdb_pid_insert :: "int list \<Rightarrow> int \<Rightarrow> (int \<times> int list) option" where
  "mdb_pid_insert ids pid = do {
     n \<leftarrow> aget ids 0;
     (found, cursor) \<leftarrow> bsearch_loop (pid_probe ids pid) 0 1 0 (nat n);
     if found then Some (-1, ids)
     else do {
       ids \<leftarrow> aset ids 0 (n + 1);
       ids \<leftarrow> shift_up ids (nat (n + 1)) cursor;
       ids \<leftarrow> aset ids (if nat (n + 1) > cursor then cursor else nat (n + 1)) pid;
       Some (0, ids) } }"

section \<open>Clearing stale slots\<close>

text \<open>The loop \<open>for (; j<rdrs; j++)\<close> over the slots of one dead process; \<open>k\<close> is \<open>rdrs - j\<close>.\<close>

fun clear_loop :: "reader list \<Rightarrow> int \<Rightarrow> nat \<Rightarrow> nat \<Rightarrow> nat \<Rightarrow> (reader list \<times> nat) option" where
  "clear_loop mr pid j 0 cnt = Some (mr, cnt)"
| "clear_loop mr pid j (Suc k) cnt = do {
     r \<leftarrow> aget mr j;
     if mr_pid r = pid then do {
       mr \<leftarrow> aset mr j (r\<lparr>mr_pid := 0\<rparr>);
       clear_loop mr pid (j + 1) k (cnt + 1) }
     else clear_loop mr pid (j + 1) k cnt }"

text \<open>
  The main loop of \<open>mdb_reader_check0\<close>. \<open>lock\<close> is \<open>None\<close> when \<open>rmutex\<close> is null; otherwise it locks
  the mutex and yields \<open>(rc, recovered, ti, os)\<close>: \<open>recovered\<close> when \<open>LOCK_MUTEX0\<close> had failed.
\<close>

type_synonym lock_op = "txninfo \<Rightarrow> os \<Rightarrow> (int \<times> bool \<times> txninfo \<times> os) option"

function check_loop ::
    "lock_op option \<Rightarrow> int \<Rightarrow> nat \<Rightarrow> nat \<Rightarrow> int list \<Rightarrow> nat \<Rightarrow> txninfo \<Rightarrow> os \<Rightarrow> (int \<times> nat \<times> txninfo \<times> os) option" where
  "check_loop lock me i rdrs pids cnt ti os =
     (if i < rdrs then do {
        r \<leftarrow> aget (mti_readers ti) i;
        let pid = mr_pid r;
        if pid \<noteq> 0 \<and> pid \<noteq> me then do {
          (dup, pids) \<leftarrow> mdb_pid_insert pids pid;
          if dup \<noteq> 0 then check_loop lock me (i + 1) rdrs pids cnt ti os
          else do {
            (alive, os) \<leftarrow> pid_check os pid;
            if alive \<noteq> 0 then check_loop lock me (i + 1) rdrs pids cnt ti os
            else
              case lock of
                None \<Rightarrow> do {
                  (mr, cnt) \<leftarrow> clear_loop (mti_readers ti) pid i (rdrs - i) cnt;
                  check_loop lock me (i + 1) rdrs pids cnt (ti\<lparr>mti_readers := mr\<rparr>) os }
              | Some l \<Rightarrow> do {
                  (rc, recovered, ti, os) \<leftarrow> l ti os;
                  if rc \<noteq> 0 then Some (rc, cnt, ti, os)
                  else if recovered then check_loop lock me (i + 1) 0 pids cnt ti os
                  else do {
                    (alive, os) \<leftarrow> pid_check os pid;
                    let j = (if alive \<noteq> 0 then rdrs else i);
                    (mr, cnt) \<leftarrow> clear_loop (mti_readers ti) pid j (rdrs - j) cnt;
                    check_loop lock me (i + 1) rdrs pids cnt (ti\<lparr>mti_readers := mr\<rparr>) os } } } }
        else check_loop lock me (i + 1) rdrs pids cnt ti os }
      else Some (0, cnt, ti, os))"
  by pat_completeness auto
termination
  by (relation "measure (\<lambda>(lock, me, i, rdrs, pids, cnt, ti, os). rdrs - i)") auto

declare check_loop.simps [simp del]

definition reader_check_with ::
    "lock_op option \<Rightarrow> env \<Rightarrow> os \<Rightarrow> (int \<times> nat \<times> env \<times> os) option" where
  "reader_check_with lock env os = do {
     ti \<leftarrow> me_txns env;
     let rdrs = mti_numreaders ti;
     let (malloc_ok, os) = (os_malloc os (os_time os), tick os);
     if \<not> malloc_ok then Some (ENOMEM, 0, env, os)
     else do {
       (rc, cnt, ti, os) \<leftarrow> check_loop lock (me_pid env) 0 rdrs (0 # replicate rdrs 0) 0 ti os;
       Some (rc, cnt, env\<lparr>me_txns := Some ti\<rparr>, os) } }"

text \<open>
  \<open>mdb_mutex_failed\<close>; \<open>rlocked\<close> says that the mutex is \<open>me_rmutex\<close>. \<open>mdb_reader_check0\<close> is called
  with the reader mutex held in that case, and otherwise, for the writer mutex, takes it itself:
  \<open>check0\<close> stands for that call.
\<close>

definition mutex_failed_with ::
    "(env \<Rightarrow> os \<Rightarrow> (int \<times> nat \<times> env \<times> os) option) \<Rightarrow> bytes \<Rightarrow> env \<Rightarrow> bool \<Rightarrow> int \<Rightarrow> os \<Rightarrow>
     (int \<times> env \<times> os) option" where
  "mutex_failed_with check0 file env rlocked rc os =
     (if rc = MDB_OWNERDEAD then do {
        let (rc, env) =
          (if \<not> rlocked then
             let m = mdb_env_pick_meta env file;
                 env = env\<lparr>me_txns := map_option (\<lambda>t. t\<lparr>mti_txnid := mm_txnid m\<rparr>) (me_txns env)\<rparr>
             in if me_txn env
                then (MDB_PANIC, env\<lparr>me_flags := me_flags env OR MDB_FATAL_ERROR, me_txn := False\<rparr>)
                else (MDB_SUCCESS, env)
           else (MDB_SUCCESS, env));
        (rc2, cnt, env, os) \<leftarrow> check0 env os;
        let (rc2, os) = (if rc2 = 0 then (os_consistent os (os_time os), tick os) else (rc2, os));
        Some (if rc \<noteq> 0 then rc else rc2, env, os) }
      else Some (rc, env, os))"

text \<open>The reader mutex: \<open>LOCK_MUTEX0(rmutex)\<close>, with \<open>mdb_mutex_failed\<close> when it fails.\<close>

definition lock_rmutex :: "bytes \<Rightarrow> env \<Rightarrow> lock_op" where
  "lock_rmutex file env ti os = (
     let rc = os_lock os (os_time os); os = tick os in
     if rc \<noteq> 0 then do {
       (rc, env, os) \<leftarrow> mutex_failed_with (reader_check_with None) file
         (env\<lparr>me_txns := Some ti\<rparr>) True rc os;
       ti \<leftarrow> me_txns env;
       Some (rc, True, ti, os) }
     else Some (0, False, ti, os))"

definition mdb_reader_check0 ::
    "bytes \<Rightarrow> env \<Rightarrow> bool \<Rightarrow> os \<Rightarrow> (int \<times> nat \<times> env \<times> os) option" where
  "mdb_reader_check0 file env rlocked os =
     reader_check_with (if rlocked then None else Some (lock_rmutex file env)) env os"

definition mdb_mutex_failed :: "bytes \<Rightarrow> env \<Rightarrow> bool \<Rightarrow> int \<Rightarrow> os \<Rightarrow> (int \<times> env \<times> os) option" where
  "mdb_mutex_failed file env rlocked rc os =
     mutex_failed_with (\<lambda>e. mdb_reader_check0 file e rlocked) file env rlocked rc os"

definition mdb_reader_check ::
    "bytes \<Rightarrow> env option \<Rightarrow> os \<Rightarrow> (int \<times> nat \<times> env option \<times> os) option" where
  "mdb_reader_check file env os =
     (case env of
        None \<Rightarrow> Some (EINVAL, 0, None, os)
      | Some e \<Rightarrow>
          if me_txns e \<noteq> None then do {
            (rc, dead, e, os) \<leftarrow> mdb_reader_check0 file e False os;
            Some (rc, dead, Some e, os) }
          else Some (MDB_SUCCESS, 0, Some e, os))"

section \<open>Listing\<close>

text \<open>
  \<open>mdb_reader_list\<close>: the application's \<open>func\<close> answers each line. A line is the record it shows
  (the \<open>sprintf\<close> format is part of the C library); the result carries the lines passed to it.
\<close>

datatype reader_line = No_locks | Heading | Line int u64 "u64 option" | No_active

fun reader_list_loop ::
    "(reader_line list \<Rightarrow> int) \<Rightarrow> reader list \<Rightarrow> nat \<Rightarrow> nat \<Rightarrow> bool \<Rightarrow> int \<Rightarrow> reader_line list \<Rightarrow>
     (int \<times> bool \<times> reader_line list) option" where
  "reader_list_loop func mr i 0 first rc out = Some (rc, first, out)"
| "reader_list_loop func mr i (Suc k) first rc out = do {
     r \<leftarrow> aget mr i;
     if mr_pid r \<noteq> 0 then
       let line = Line (mr_pid r) (mr_tid r) (if mr_txnid r = -1 then None else Some (mr_txnid r));
           out = (if first then out @ [Heading] else out);
           rc = (if first then func out else rc)
       in if first \<and> rc < 0 then Some (rc, False, out)
          else
            let out = out @ [line]; rc = func out in
            if rc < 0 then Some (rc, False, out)
            else reader_list_loop func mr (i + 1) k False rc out
     else reader_list_loop func mr (i + 1) k first rc out }"

definition mdb_reader_list ::
    "env option \<Rightarrow> (reader_line list \<Rightarrow> int) option \<Rightarrow> (int \<times> reader_line list) option" where
  "mdb_reader_list env func =
     (case (env, func) of
        (Some e, Some f) \<Rightarrow>
          (case me_txns e of
             None \<Rightarrow> Some (f [No_locks], [No_locks])
           | Some ti \<Rightarrow> do {
               (rc, first, out) \<leftarrow> reader_list_loop f (mti_readers ti) 0 (mti_numreaders ti) True 0 [];
               if first then Some (f (out @ [No_active]), out @ [No_active]) else Some (rc, out) })
      | _ \<Rightarrow> Some (-1, []))"

section \<open>The oldest snapshot in use\<close>

lemma oldest_loop_correct:
  assumes "n \<le> length rs"
  shows "\<exists>m. oldest_loop rs n x = Some m \<and> m \<le> x \<and>
    (\<forall>i < n. mr_pid (rs ! i) \<noteq> 0 \<longrightarrow> m \<le> mr_txnid (rs ! i)) \<and>
    (m = x \<or> (\<exists>i < n. mr_pid (rs ! i) \<noteq> 0 \<and> m = mr_txnid (rs ! i)))"
  using assms
proof (induction n arbitrary: x)
  case (Suc n)
  define y where "y = (if mr_pid (rs ! n) \<noteq> 0 then if x > mr_txnid (rs ! n) then mr_txnid (rs ! n) else x else x)"
  obtain m where m: "oldest_loop rs n y = Some m" "m \<le> y"
    "\<forall>i < n. mr_pid (rs ! i) \<noteq> 0 \<longrightarrow> m \<le> mr_txnid (rs ! i)"
    "m = y \<or> (\<exists>i < n. mr_pid (rs ! i) \<noteq> 0 \<and> m = mr_txnid (rs ! i))"
    using Suc.IH [of y] Suc.prems by auto
  have "oldest_loop rs (Suc n) x = oldest_loop rs n y"
    unfolding y_def using Suc.prems by (simp add: Let_def)
  then have run: "oldest_loop rs (Suc n) x = Some m" using m(1) by simp
  have y: "y \<le> x" "mr_pid (rs ! n) \<noteq> 0 \<Longrightarrow> y \<le> mr_txnid (rs ! n)"
    "y = x \<or> mr_pid (rs ! n) \<noteq> 0 \<and> y = mr_txnid (rs ! n)" by (auto simp: y_def)
  have "mr_pid (rs ! i) \<noteq> 0 \<longrightarrow> m \<le> mr_txnid (rs ! i)" if "i < Suc n" for i
    using that m(2,3) y(2) by (cases "i = n") auto
  moreover have "m = x \<or> (\<exists>i < Suc n. mr_pid (rs ! i) \<noteq> 0 \<and> m = mr_txnid (rs ! i))"
  proof (cases "m = y")
    case True
    then show ?thesis using y(3) by blast
  next
    case False
    then show ?thesis using m(4) less_SucI by blast
  qed
  moreover have "m \<le> x" using m(2) y(1) by (rule order_trans)
  ultimately show ?case using run by blast
qed simp

text \<open>C33: \<open>mdb_find_oldest\<close> never exceeds the snapshot of any claimed reader slot nor the one before the
  transaction's own, and is one of these, so no page that a reader may still see counts as reusable
  and the bound is the best one.\<close>

theorem find_oldest_correct:
  assumes ti: "me_txns env = Some ti" "mti_numreaders ti \<le> length (mti_readers ti)"
  shows "\<exists>m. mdb_find_oldest env txn = Some m \<and> m \<le> mt_txnid txn - 1 \<and>
    (\<forall>i < mti_numreaders ti. mr_pid (mti_readers ti ! i) \<noteq> 0 \<longrightarrow> m \<le> mr_txnid (mti_readers ti ! i)) \<and>
    (m = mt_txnid txn - 1 \<or>
      (\<exists>i < mti_numreaders ti. mr_pid (mti_readers ti ! i) \<noteq> 0 \<and> m = mr_txnid (mti_readers ti ! i)))"
  using oldest_loop_correct [OF ti(2), of "mt_txnid txn - 1"] ti(1) by (simp add: mdb_find_oldest_def)

definition demo_ti :: txninfo where
  "demo_ti = \<lparr>mti_txnid = 1, mti_numreaders = 3, mti_readers =
     [\<lparr>mr_txnid = 1, mr_pid = 5, mr_tid = 0\<rparr>, \<lparr>mr_txnid = 0, mr_pid = 7, mr_tid = 0\<rparr>,
      \<lparr>mr_txnid = 1, mr_pid = 7, mr_tid = 1\<rparr>]\<rparr>"

lemma find_oldest_correct_witness:
  "\<exists>m. mdb_find_oldest (demo_env\<lparr>me_txns := Some demo_ti\<rparr>) demo_txn = Some m \<and> m \<le> mt_txnid demo_txn - 1"
  using find_oldest_correct [of "demo_env\<lparr>me_txns := Some demo_ti\<rparr>" demo_ti demo_txn] by (auto simp: demo_ti_def)

section \<open>The list of processes\<close>

definition pids_elems :: "int list \<Rightarrow> int list" where
  "pids_elems ids = take (nat (ids ! 0)) (drop 1 ids)"

definition pids_ok :: "int list \<Rightarrow> bool" where
  "pids_ok ids \<longleftrightarrow> ids \<noteq> [] \<and> 0 \<le> ids ! 0 \<and> nat (ids ! 0) < length ids \<and>
     (\<forall>i j. 1 \<le> i \<and> i < j \<and> j \<le> nat (ids ! 0) \<longrightarrow> ids ! i < ids ! j)"

lemma set_pids_elems:
  "pids_ok ids \<Longrightarrow> x \<in> set (pids_elems ids) \<longleftrightarrow> (\<exists>k. 1 \<le> k \<and> k \<le> nat (ids ! 0) \<and> ids ! k = x)"
proof -
  assume ok: "pids_ok ids"
  have l: "length (pids_elems ids) = nat (ids ! 0)" using ok by (auto simp: pids_elems_def pids_ok_def)
  have n: "pids_elems ids ! k = ids ! Suc k" if "k < nat (ids ! 0)" for k
    using that ok by (auto simp: pids_elems_def pids_ok_def)
  show ?thesis
  proof
    assume "x \<in> set (pids_elems ids)"
    then obtain k where "k < nat (ids ! 0)" "ids ! Suc k = x" using l n by (auto simp: in_set_conv_nth)
    then show "\<exists>k. 1 \<le> k \<and> k \<le> nat (ids ! 0) \<and> ids ! k = x" by (intro exI [of _ "Suc k"]) auto
  next
    assume "\<exists>k. 1 \<le> k \<and> k \<le> nat (ids ! 0) \<and> ids ! k = x"
    then obtain k where "1 \<le> k" "k \<le> nat (ids ! 0)" "ids ! k = x" by blast
    then show "x \<in> set (pids_elems ids)"
      using l n [of "k - 1"] by (auto simp: in_set_conv_nth intro!: exI [of _ "k - 1"])
  qed
qed

interpretation pidl: sorted_array pid_probe "\<lambda>ids x k. x - ids ! k" "\<lambda>ids. nat (ids ! 0)" pids_ok
proof
  fix ids :: "int list" and k :: nat and x :: int
  assume "pids_ok ids" "1 \<le> k" "k \<le> nat (ids ! 0)"
  then show "pid_probe ids x k = Some (x - ids ! k)" by (simp add: pid_probe_def pids_ok_def)
next
  fix ids :: "int list" and i j :: nat and x :: int
  assume ok: "pids_ok ids" and ij: "1 \<le> i" "i \<le> j" "j \<le> nat (ids ! 0)"
  have "ids ! i \<le> ids ! j" using ok ij by (cases "i = j") (auto simp: pids_ok_def less_imp_le)
  then show "sgn (x - ids ! j) \<le> sgn (x - ids ! i)" by (auto simp: sgn_if)
qed

text \<open>Inserting a value at its place of an ascending array, on the positions 1 to \<open>n\<close>.\<close>

lemma ins_asc:
  fixes f :: "nat \<Rightarrow> int"
  assumes asc: "\<And>p q. 1 \<le> p \<Longrightarrow> p < q \<Longrightarrow> q \<le> n \<Longrightarrow> f p < f q"
    and lo: "\<And>k. 1 \<le> k \<Longrightarrow> k < c \<Longrightarrow> f k < x" and hi: "\<And>k. c \<le> k \<Longrightarrow> k \<le> n \<Longrightarrow> x < f k"
    and z: "\<And>k. 1 \<le> k \<Longrightarrow> k \<le> Suc n \<Longrightarrow> z k = (if k = c then x else if c < k then f (k - 1) else f k)"
    and c: "1 \<le> c" "c \<le> Suc n" and ij: "1 \<le> i" "i < j" "j \<le> Suc n"
  shows "z i < z j"
proof -
  have zi: "z i = (if i = c then x else if c < i then f (i - 1) else f i)"
    and zj: "z j = (if j = c then x else if c < j then f (j - 1) else f j)"
    using z [of i] z [of j] ij by auto
  consider "j < c" | "j = c" | "i < c" "c < j" | "i = c" | "c < i" using ij by linarith
  then show ?thesis
  proof cases
    case 1 then show ?thesis using zi zj ij c asc [of i j] by simp
  next
    case 2 then show ?thesis using zi zj ij lo [of i] by simp
  next
    case 3
    then have "f i < x" "x < f (j - 1)" using lo [of i] hi [of "j - 1"] ij by linarith+
    then show ?thesis using zi zj 3 by simp
  next
    case 4
    then have "x < f (j - 1)" using hi [of "j - 1"] ij by linarith
    then show ?thesis using zi zj 4 ij by simp
  next
    case 5
    then have "f (i - 1) < f (j - 1)" using asc [of "i - 1" "j - 1"] ij c by linarith
    then show ?thesis using zi zj ij 5 by simp
  qed
qed

lemma ins_range:
  fixes f :: "nat \<Rightarrow> int"
  assumes z: "\<And>k. 1 \<le> k \<Longrightarrow> k \<le> Suc n \<Longrightarrow> z k = (if k = c then x else if c < k then f (k - 1) else f k)"
    and c: "1 \<le> c" "c \<le> Suc n"
  shows "(\<exists>k. 1 \<le> k \<and> k \<le> Suc n \<and> z k = y) \<longleftrightarrow> y = x \<or> (\<exists>k. 1 \<le> k \<and> k \<le> n \<and> f k = y)" (is "?l \<longleftrightarrow> ?r")
proof
  assume ?l
  then obtain k where k: "1 \<le> k" "k \<le> Suc n" "z k = y" by blast
  consider "k = c" | "k < c" | "c < k" by linarith
  then show ?r
  proof cases
    case 1 then show ?thesis using z [of k] k by simp
  next
    case 2
    then have "1 \<le> k \<and> k \<le> n \<and> f k = y" using z [of k] k c by simp
    then show ?thesis by blast
  next
    case 3
    then have "1 \<le> k - 1" "k - 1 \<le> n" using k c by linarith+
    moreover have "f (k - 1) = y" using z [of k] k 3 by simp
    ultimately show ?thesis by blast
  qed
next
  assume ?r
  then show ?l
  proof
    assume "y = x"
    then have "1 \<le> c \<and> c \<le> Suc n \<and> z c = y" using z [of c] c by simp
    then show ?thesis by blast
  next
    assume "\<exists>k. 1 \<le> k \<and> k \<le> n \<and> f k = y"
    then obtain k where k: "1 \<le> k" "k \<le> n" "f k = y" by blast
    show ?thesis
    proof (cases "k < c")
      case True
      then have "1 \<le> k \<and> k \<le> Suc n \<and> z k = y" using z [of k] k by simp
      then show ?thesis by blast
    next
      case False
      then have "1 \<le> Suc k \<and> Suc k \<le> Suc n \<and> z (Suc k) = y" using z [of "Suc k"] k by simp
      then show ?thesis by blast
    qed
  qed
qed

lemma pid_insert_run:
  assumes "aget ids 0 = Some (int n)" "bsearch_loop (pid_probe ids pid) 0 1 0 n = Some (False, c)"
    "c \<le> Suc n" "Suc n < length ids" "1 \<le> c"
  shows "\<exists>zs. mdb_pid_insert ids pid = Some (0, zs) \<and> length zs = length ids \<and> zs ! 0 = int n + 1 \<and>
    (\<forall>k. 1 \<le> k \<longrightarrow> k \<le> Suc n \<longrightarrow> zs ! k = (if k = c then pid else if c < k then ids ! (k - 1) else ids ! k))"
proof -
  let ?i1 = "ids[0 := int n + 1]"
  have e: "nat (int n + 1) = Suc n" "nat (int n) = n" by simp_all
  have "\<exists>ys. shift_up ?i1 (Suc n) c = Some ys \<and> length ys = length ?i1 \<and>
    (\<forall>k < length ?i1. ys ! k = (if c < k \<and> k \<le> Suc n then ?i1 ! (k - 1) else ?i1 ! k))"
    by (rule shift_up_eq) (use assms in simp_all)
  then obtain ys where ys: "shift_up ?i1 (Suc n) c = Some ys" "length ys = length ids"
    "\<forall>k < length ids. ys ! k = (if c < k \<and> k \<le> Suc n then ?i1 ! (k - 1) else ?i1 ! k)" by auto
  have l: "(if Suc n > c then c else Suc n) = c" "ids \<noteq> []" using assms(3,4) by auto
  have "mdb_pid_insert ids pid = Some (0, ys[c := pid])"
    using assms ys(1,2) by (simp add: mdb_pid_insert_def aset_def e l)
  moreover have "ys[c := pid] ! 0 = int n + 1" using ys(2) ys(3)[rule_format, of 0] l(2) assms(4,5) by simp
  moreover have "ys[c := pid] ! k = (if k = c then pid else if c < k then ids ! (k - 1) else ids ! k)"
    if "1 \<le> k" "k \<le> Suc n" for k
    using that ys(2,3) assms(3,4,5) by (simp add: nth_list_update)
  ultimately show ?thesis using ys(2) by (metis length_list_update)
qed

text \<open>C37: \<open>mdb_pid_insert\<close> keeps the ascending list of processes sorted and free of duplicates: a
  process that is in the list is reported with -1 and nothing changes, any other is inserted.\<close>

theorem pid_insert_correct:
  assumes ok: "pids_ok ids" and room: "nat (ids ! 0) + 1 < length ids"
  shows "if pid \<in> set (pids_elems ids) then mdb_pid_insert ids pid = Some (-1, ids)
    else \<exists>ids'. mdb_pid_insert ids pid = Some (0, ids') \<and> pids_ok ids' \<and> length ids' = length ids \<and>
      ids' ! 0 = ids ! 0 + 1 \<and> set (pids_elems ids') = insert pid (set (pids_elems ids))"
proof -
  define n where "n = nat (ids ! 0)"
  have n0: "ids ! 0 = int n" "ids \<noteq> []" using ok by (auto simp: n_def pids_ok_def)
  have g: "aget ids 0 = Some (int n)" using n0 by (simp add: aget_def)
  have mem: "y \<in> set (pids_elems ids) \<longleftrightarrow> (\<exists>k. 1 \<le> k \<and> k \<le> n \<and> ids ! k = y)" for y
    unfolding n_def by (rule set_pids_elems [OF ok])
  obtain b c where s: "bsearch_loop (pid_probe ids pid) 0 1 0 n = Some (b, c)"
    and c: "1 \<le> c" "c \<le> Suc n" "b \<Longrightarrow> c \<le> n \<and> pid - ids ! c = 0"
    "\<And>k. \<not> b \<Longrightarrow> 1 \<le> k \<Longrightarrow> k < c \<Longrightarrow> pid - ids ! k > 0"
    "\<And>k. \<not> b \<Longrightarrow> c \<le> k \<Longrightarrow> k \<le> n \<Longrightarrow> pid - ids ! k < 0"
    using pidl.bsearch_correct [OF ok, of pid] unfolding n_def by blast
  show ?thesis
  proof (cases b)
    case True
    then have "mdb_pid_insert ids pid = Some (-1, ids)" using g s by (simp add: mdb_pid_insert_def)
    moreover have "1 \<le> c \<and> c \<le> n \<and> ids ! c = pid" using c(1,3) True by simp
    ultimately show ?thesis using mem [of pid] by auto
  next
    case False
    have lo: "ids ! k < pid" if "1 \<le> k" "k < c" for k using c(4) [OF False that] by simp
    have hi: "pid < ids ! k" if "c \<le> k" "k \<le> n" for k using c(5) [OF False that] by simp
    have ni: "pid \<notin> set (pids_elems ids)"
    proof
      assume "pid \<in> set (pids_elems ids)"
      then obtain k where "1 \<le> k" "k \<le> n" "ids ! k = pid" using mem by blast
      then show False using lo [of k] hi [of k] by (cases "k < c") simp_all
    qed
    have sf: "bsearch_loop (pid_probe ids pid) 0 1 0 n = Some (False, c)" using s False by simp
    obtain zs where zs: "mdb_pid_insert ids pid = Some (0, zs)" "length zs = length ids" "zs ! 0 = int n + 1"
      and z: "\<And>k. 1 \<le> k \<Longrightarrow> k \<le> Suc n \<Longrightarrow>
        zs ! k = (if k = c then pid else if c < k then ids ! (k - 1) else ids ! k)"
      using pid_insert_run [OF g sf c(2) _ c(1)] room n_def by auto
    have asc: "ids ! p < ids ! q" if "1 \<le> p" "p < q" "q \<le> n" for p q
      using ok that by (simp add: pids_ok_def n_def)
    have zn: "nat (zs ! 0) = Suc n" using zs(3) by simp
    have okz: "pids_ok zs" unfolding pids_ok_def zn
      using ins_asc [of n "(!) ids" c pid "(!) zs", OF asc lo hi z c(1,2)] zs(2,3) room n_def by auto
    have "set (pids_elems zs) = insert pid (set (pids_elems ids))"
    proof (rule set_eqI)
      fix y show "y \<in> set (pids_elems zs) \<longleftrightarrow> y \<in> insert pid (set (pids_elems ids))"
        unfolding set_pids_elems [OF okz] zn insert_iff mem
        by (rule ins_range [of n "(!) zs" c pid "(!) ids", OF z c(1,2)])
    qed
    then show ?thesis using zs okz n0 ni by simp
  qed
qed

lemma pid_insert_correct_witness:
  "\<exists>ids'. mdb_pid_insert [2, 3, 9, 0] 5 = Some (0, ids') \<and> pids_ok ids' \<and> length ids' = length [2, 3, 9, 0 :: int] \<and>
    ids' ! 0 = [2, 3, 9, 0] ! 0 + 1 \<and> set (pids_elems ids') = insert 5 (set (pids_elems [2, 3, 9, 0]))"
proof -
  have "pids_ok [2, 3, 9, 0]"
  proof -
    have "[2, 3, 9, 0 :: int] ! i < [2, 3, 9, 0] ! j" if "1 \<le> i" "i < j" "j \<le> 2" for i j
    proof -
      have "i = 1" "j = 2" using that by auto
      then show ?thesis by simp
    qed
    then show ?thesis by (simp add: pids_ok_def)
  qed
  then show ?thesis using pid_insert_correct [of "[2, 3, 9, 0]" 5] by (simp add: pids_elems_def)
qed

end
