(* ===== verification/Cursor.thy ===== *)
theory Cursor
  imports Node_Search Readers
begin

text \<open>
  Cursors and the search from the root of a tree to a leaf: \<open>mdb_cursor_push\<close>/\<open>pop\<close>,
  \<open>mdb_page_get\<close>, \<open>mdb_page_search\<close> with its helpers, \<open>mdb_cursor_init\<close>, \<open>mdb_xcursor_init0/1\<close>
  and \<open>mdb_node_read\<close>.

  The state \<open>st\<close> is the process's view: the environment, the data file (which the map shows),
  the malloc'd page blocks, the current transaction and its ancestors. A cursor is a value,
  passed and returned; a main cursor comes with its sub-cursor when it has one. The
  \<open>mc_db\<close>, \<open>mc_dbx\<close> and \<open>mc_dbflag\<close> pointers of a main cursor lead to the transaction's arrays,
  those of a sub-cursor to the fields of its \<open>MDB_xcursor\<close>, which is \<open>mc_own\<close> here.
\<close>

record xinfo =
  mx_db :: db
  mx_dbx :: dbx
  mx_dbflag :: u8

record cursor =
  mc_own :: "xinfo option"
  mc_dbi :: nat
  mc_snum :: nat
  mc_top :: nat
  mc_flags :: u32
  mc_pg :: "page_ptr option list"
  mc_ki :: "nat list"

type_synonym mcursor = "cursor \<times> cursor option"

record st =
  st_env :: env
  st_file :: bytes
  st_heap :: "nat \<Rightarrow> bytes option"
  st_txn :: txn
  st_parents :: "txn list"
  st_os :: os

definition CURSOR_STACK :: nat where "CURSOR_STACK = 32"
definition C_INITIALIZED :: u32 where "C_INITIALIZED = 0x01"
definition C_EOF :: u32 where "C_EOF = 0x02"
definition C_SUB :: u32 where "C_SUB = 0x04"
definition C_DEL :: u32 where "C_DEL = 0x08"
definition C_UNTRACK :: u32 where "C_UNTRACK = 0x40"
definition C_WRITEMAP :: u32 where "C_WRITEMAP = MDB_WRITEMAP"
definition C_ORIG_RDONLY :: u32 where "C_ORIG_RDONLY = MDB_RDONLY"

lemmas cursor_flag_defs = C_INITIALIZED_def C_EOF_def C_SUB_def C_DEL_def C_UNTRACK_def
  C_WRITEMAP_def C_ORIG_RDONLY_def

definition MDB_PS_MODIFY :: u32 where "MDB_PS_MODIFY = 1"
definition MDB_PS_ROOTONLY :: u32 where "MDB_PS_ROOTONLY = 2"
definition MDB_PS_FIRST :: u32 where "MDB_PS_FIRST = 4"
definition MDB_PS_LAST :: u32 where "MDB_PS_LAST = 8"

lemmas ps_defs = MDB_PS_MODIFY_def MDB_PS_ROOTONLY_def MDB_PS_FIRST_def MDB_PS_LAST_def

definition MDB_VALID :: u16 where "MDB_VALID = 0x8000"
definition PERSISTENT_FLAGS :: u16 where "PERSISTENT_FLAGS = 0xffff AND NOT MDB_VALID"

definition has :: "'a::len word \<Rightarrow> 'a word \<Rightarrow> bool" where
  "has w f \<longleftrightarrow> w AND f \<noteq> 0"

lemma has_andnot: "g AND h = 0 \<Longrightarrow> has (f AND NOT g) h = has f h"
proof -
  assume g: "g AND h = 0"
  have "(f AND NOT g) AND h = f AND h"
  proof (rule bit_word_eqI)
    fix n assume "n < LENGTH('a)"
    moreover have "\<not> (bit g n \<and> bit h n)" using g by (metis bit_and_iff bit_0_eq bot_apply bot_bool_def)
    ultimately show "bit ((f AND NOT g) AND h) n = bit (f AND h) n" by (auto simp: bit_simps)
  qed
  then show ?thesis by (simp only: has_def)
qed

lemma has_or: "g AND h = 0 \<Longrightarrow> has (f OR g) h = has f h"
proof -
  assume g: "g AND h = 0"
  have "(f OR g) AND h = (f AND h) OR (g AND h)" by (rule bit_word_eqI) (auto simp: bit_simps)
  then show ?thesis using g by (simp add: has_def)
qed

lemma has_or_self: "g \<noteq> 0 \<Longrightarrow> has (f OR g) g"
proof -
  assume g: "g \<noteq> 0"
  have "(f OR g) AND g = g" by (rule bit_word_eqI) (auto simp: bit_simps)
  then show ?thesis using g by (simp add: has_def)
qed

lemma has_andnot_self: "\<not> has (f AND NOT g) g"
proof -
  have "(f AND NOT g) AND g = 0" by (rule bit_word_eqI) (auto simp: bit_simps)
  then show ?thesis by (simp add: has_def)
qed

definition TXN_DBI_EXIST :: "txn \<Rightarrow> nat \<Rightarrow> u8 \<Rightarrow> bool option" where
  "TXN_DBI_EXIST txn dbi validity =
     (if dbi < mt_numdbs txn then do { f \<leftarrow> aget (mt_dbflags txn) dbi; Some (has f validity) }
      else Some False)"

definition TXN_DBI_CHANGED :: "env \<Rightarrow> txn \<Rightarrow> nat \<Rightarrow> bool option" where
  "TXN_DBI_CHANGED env txn dbi = do {
     e \<leftarrow> aget (me_dbiseqs env) dbi;
     t \<leftarrow> aget (case mt_dbiseqs txn of None \<Rightarrow> me_dbiseqs env | Some s \<Rightarrow> s) dbi;
     Some (t \<noteq> e) }"

section \<open>Pages in memory\<close>

text \<open>
  The bytes of a page. A page in the map is \<open>me_psize\<close> bytes at \<open>me_map + me_psize * pgno\<close>,
  and \<open>mp_pages\<close> times as many when it starts an overflow run; a page that does not lie in the
  file has no bytes to read.
\<close>

definition map_page :: "env \<Rightarrow> bytes \<Rightarrow> u64 \<Rightarrow> bytes option" where
  "map_page env file pgno = (
     let a = unat (of_nat (me_psize env) * pgno);
         p = slice file a (me_psize env) in
     if \<not> me_map env \<or> length p < me_psize env \<or> length p < PAGEHDRSZ then None
     else if IS_OVERFLOW p then Some (slice file a (me_psize env * max 1 (mp_pages p)))
     else Some p)"

fun page_at :: "'a st_scheme \<Rightarrow> page_ptr \<Rightarrow> bytes option" where
  "page_at st (Map_page pgno) = map_page (st_env st) (st_file st) pgno"
| "page_at st (Heap_page h) = st_heap st h"
| "page_at st (Sub_page p off) = do {
     b \<leftarrow> page_at st p;
     if off + PAGEHDRSZ \<le> length b then Some (drop off b) else None }"

section \<open>Fields of a cursor\<close>

definition mc_db :: "'a st_scheme \<Rightarrow> cursor \<Rightarrow> db option" where
  "mc_db st mc = (case mc_own mc of Some x \<Rightarrow> Some (mx_db x) | None \<Rightarrow> aget (mt_dbs (st_txn st)) (mc_dbi mc))"

definition mc_dbx :: "'a st_scheme \<Rightarrow> cursor \<Rightarrow> dbx option" where
  "mc_dbx st mc = (case mc_own mc of Some x \<Rightarrow> Some (mx_dbx x) | None \<Rightarrow> aget (me_dbxs (st_env st)) (mc_dbi mc))"

definition mc_dbflag :: "'a st_scheme \<Rightarrow> cursor \<Rightarrow> u8 option" where
  "mc_dbflag st mc = (case mc_own mc of Some x \<Rightarrow> Some (mx_dbflag x) | None \<Rightarrow> aget (mt_dbflags (st_txn st)) (mc_dbi mc))"

definition ki_at :: "cursor \<Rightarrow> nat option" where
  "ki_at mc = aget (mc_ki mc) (mc_top mc)"

definition set_ki :: "cursor \<Rightarrow> nat \<Rightarrow> cursor option" where
  "set_ki mc i = do { ks \<leftarrow> aset (mc_ki mc) (mc_top mc) (i mod 2 ^ 16); Some (mc\<lparr>mc_ki := ks\<rparr>) }"

definition pg_at :: "cursor \<Rightarrow> nat \<Rightarrow> page_ptr option" where
  "pg_at mc i = do { p \<leftarrow> aget (mc_pg mc) i; p }"

definition page_of :: "'a st_scheme \<Rightarrow> cursor \<Rightarrow> nat \<Rightarrow> bytes option" where
  "page_of st mc i = do { p \<leftarrow> pg_at mc i; page_at st p }"

definition top_page :: "'a st_scheme \<Rightarrow> cursor \<Rightarrow> bytes option" where
  "top_page st mc = page_of st mc (mc_top mc)"

definition txn_error :: "'a st_scheme \<Rightarrow> 'a st_scheme" where
  "txn_error st = st\<lparr>st_txn := (st_txn st)\<lparr>mt_flags := mt_flags (st_txn st) OR MDB_TXN_ERROR\<rparr>\<rparr>"

section \<open>The stack\<close>

definition mdb_cursor_pop :: "cursor \<Rightarrow> cursor" where
  "mdb_cursor_pop mc =
     (if mc_snum mc \<noteq> 0 then
        let mc = mc\<lparr>mc_snum := mc_snum mc - 1\<rparr> in
        if mc_snum mc \<noteq> 0 then mc\<lparr>mc_top := (mc_top mc + (2 ^ 16 - 1)) mod 2 ^ 16\<rparr>
        else mc\<lparr>mc_flags := mc_flags mc AND NOT C_INITIALIZED\<rparr>
      else mc)"

definition mdb_cursor_push ::
    "'a st_scheme \<Rightarrow> cursor \<Rightarrow> page_ptr \<Rightarrow> (int \<times> 'a st_scheme \<times> cursor) option" where
  "mdb_cursor_push st mc mp =
     (if mc_snum mc \<ge> CURSOR_STACK then Some (MDB_CURSOR_FULL, txn_error st, mc)
      else do {
        let mc = mc\<lparr>mc_top := mc_snum mc, mc_snum := mc_snum mc + 1\<rparr>;
        pg \<leftarrow> aset (mc_pg mc) (mc_top mc) (Some mp);
        ki \<leftarrow> aset (mc_ki mc) (mc_top mc) 0;
        Some (MDB_SUCCESS, st, mc\<lparr>mc_pg := pg, mc_ki := ki\<rparr>) })"

section \<open>Finding a page\<close>

datatype found = In_map | In_dirty page_ptr | Not_here

text \<open>One round of the loop over the transaction and its ancestors.\<close>

definition page_get_txn :: "txn \<Rightarrow> u64 \<Rightarrow> found option" where
  "page_get_txn tx2 pgno = do {
     spilled \<leftarrow>
       (case mt_spill_pgs tx2 of
          None \<Rightarrow> Some False
        | Some sl \<Rightarrow> do {
            let pn = push_bit 1 pgno;
            x \<leftarrow> mdb_midl_search (il_ids sl) pn;
            n \<leftarrow> aget (il_ids sl) 0;
            if x \<le> unat n then do { v \<leftarrow> aget (il_ids sl) x; Some (v = pn) } else Some False });
     if spilled then Some In_map
     else do {
       let dl = mt_dirty_list tx2;
       d0 \<leftarrow> aget dl 0;
       if fst d0 \<noteq> 0 then do {
         x \<leftarrow> mdb_mid2l_search dl pgno;
         if x \<le> unat (fst d0) then do {
           e \<leftarrow> aget dl x;
           Some (if fst e = pgno then In_dirty (snd e) else Not_here) }
         else Some Not_here }
       else Some Not_here } }"

fun page_get_loop :: "txn list \<Rightarrow> u64 \<Rightarrow> nat \<Rightarrow> (found \<times> nat) option" where
  "page_get_loop [] pgno level = Some (Not_here, level)"
| "page_get_loop (tx2 # rest) pgno level = do {
     r \<leftarrow> page_get_txn tx2 pgno;
     case r of
       Not_here \<Rightarrow> page_get_loop rest pgno (level + 1)
     | _ \<Rightarrow> Some (r, level) }"

text \<open>The result is the page with its level.\<close>

definition mdb_page_get ::
    "'a st_scheme \<Rightarrow> cursor \<Rightarrow> u64 \<Rightarrow> (int \<times> 'a st_scheme \<times> (page_ptr \<times> nat) option) option" where
  "mdb_page_get st mc pgno = do {
     (r, level) \<leftarrow>
       (if \<not> has (mc_flags mc) (C_ORIG_RDONLY OR C_WRITEMAP)
        then page_get_loop (st_txn st # st_parents st) pgno 1
        else Some (Not_here, 0));
     case r of
       In_map \<Rightarrow> Some (MDB_SUCCESS, st, Some (Map_page pgno, level))
     | In_dirty p \<Rightarrow> Some (MDB_SUCCESS, st, Some (p, level))
     | Not_here \<Rightarrow>
         if pgno \<ge> mt_next_pgno (st_txn st) then Some (MDB_PAGE_NOTFOUND, txn_error st, None)
         else Some (MDB_SUCCESS, st, Some (Map_page pgno, 0)) }"

section \<open>From the root to a leaf\<close>

text \<open>\<open>NUMKEYS(mp)-1\<close> in the 32-bit arithmetic of the code.\<close>

definition last_key :: "bytes \<Rightarrow> nat" where
  "last_key mp = (NUMKEYS mp + (2 ^ 32 - 1)) mod 2 ^ 32"

definition cursor_node_search ::
    "'a st_scheme \<Rightarrow> cursor \<Rightarrow> bytes \<Rightarrow> (nat option \<times> bool \<times> cursor) option" where
  "cursor_node_search st mc key = do {
     mp \<leftarrow> top_page st mc;
     dx \<leftarrow> mc_dbx st mc;
     cmp \<leftarrow> md_cmp dx;
     d \<leftarrow> mc_db st mc;
     (node, exact, i) \<leftarrow> mdb_node_search mp cmp (unat (md_pad d)) key;
     mc \<leftarrow> set_ki mc i;
     Some (node, exact, mc) }"

text \<open>
  \<open>mdb_page_touch\<close> is an argument, called only under \<open>MDB_PS_MODIFY\<close>: the page allocator that
  it rests on searches the freeDB with these same functions, without that flag. A search
  that never ends, and a failed assertion, give \<open>None\<close>.
\<close>

type_synonym 'a touch = "'a st_scheme \<Rightarrow> cursor \<Rightarrow> (int \<times> 'a st_scheme \<times> cursor) option"

text \<open>The index to follow in a branch page, or \<open>None\<close> when the cursor is already at the place.\<close>

definition branch_index ::
    "'a st_scheme \<Rightarrow> cursor \<Rightarrow> bytes \<Rightarrow> bytes option \<Rightarrow> u32 \<Rightarrow> (nat option \<times> cursor) option" where
  "branch_index st mc mp key flags =
     (if has flags (MDB_PS_FIRST OR MDB_PS_LAST) then
        if has flags MDB_PS_LAST then do {
          let i = last_key mp mod 2 ^ 16;
          if has (mc_flags mc) C_INITIALIZED then do {
            k \<leftarrow> ki_at mc;
            if k = i then Some (None, mc) else Some (Some i, mc) }
          else Some (Some i, mc) }
        else Some (Some 0, mc)
      else do {
        key \<leftarrow> key;
        (node, exact, mc) \<leftarrow> cursor_node_search st mc key;
        case node of
          None \<Rightarrow> Some (Some (last_key mp mod 2 ^ 16), mc)
        | Some _ \<Rightarrow> do {
            i \<leftarrow> ki_at mc;
            if \<not> exact then
              if i > 0 then Some (Some (i - 1), mc) else None
            else Some (Some i, mc) } })"

text \<open>One round of the loop up to the label \<open>ready\<close>.\<close>

definition descend ::
    "'a st_scheme \<Rightarrow> cursor \<Rightarrow> bytes \<Rightarrow> bytes option \<Rightarrow> u32 \<Rightarrow> (int \<times> 'a st_scheme \<times> cursor) option" where
  "descend st mc mp key flags =
     (if mc_dbi mc \<noteq> 0 \<and> \<not> NUMKEYS mp > 1 then None
      else do {
        (i, mc) \<leftarrow> branch_index st mc mp key flags;
        case i of
          None \<Rightarrow> Some (MDB_SUCCESS, st, mc\<lparr>mc_top := mc_snum mc, mc_snum := mc_snum mc + 1\<rparr>)
        | Some i \<Rightarrow>
            if \<not> i < NUMKEYS mp then None
            else do {
              node \<leftarrow> NODEPTR mp i;
              pgno \<leftarrow> NODEPGNO mp node;
              (rc, st, p) \<leftarrow> mdb_page_get st mc pgno;
              if rc \<noteq> 0 then Some (rc, st, mc)
              else do {
                (p, _) \<leftarrow> p;
                mc \<leftarrow> set_ki mc i;
                mdb_cursor_push st mc p } } })"

partial_function (option) mdb_page_search_root ::
    "'a touch \<Rightarrow> 'a st_scheme \<Rightarrow> cursor \<Rightarrow> bytes option \<Rightarrow> u32 \<Rightarrow> (int \<times> 'a st_scheme \<times> cursor) option" where
  "mdb_page_search_root touch st mc key flags = do {
     mp \<leftarrow> top_page st mc;
     if IS_BRANCH mp then do {
       (rc, st, mc) \<leftarrow> descend st mc mp key flags;
       if rc \<noteq> 0 then Some (rc, st, mc)
       else if has flags MDB_PS_MODIFY then do {
         (rc, st, mc) \<leftarrow> touch st mc;
         if rc \<noteq> 0 then Some (rc, st, mc)
         else mdb_page_search_root touch st mc key flags }
       else mdb_page_search_root touch st mc key flags }
     else if \<not> IS_LEAF mp then Some (MDB_CORRUPTED, txn_error st, mc)
     else Some (MDB_SUCCESS, st, mc\<lparr>mc_flags := (mc_flags mc OR C_INITIALIZED) AND NOT C_EOF\<rparr>) }"

definition mdb_page_search_lowest ::
    "'a touch \<Rightarrow> 'a st_scheme \<Rightarrow> cursor \<Rightarrow> (int \<times> 'a st_scheme \<times> cursor) option" where
  "mdb_page_search_lowest touch st mc = do {
     mp \<leftarrow> top_page st mc;
     node \<leftarrow> NODEPTR mp 0;
     pgno \<leftarrow> NODEPGNO mp node;
     (rc, st, p) \<leftarrow> mdb_page_get st mc pgno;
     if rc \<noteq> 0 then Some (rc, st, mc)
     else do {
       (p, _) \<leftarrow> p;
       mc \<leftarrow> set_ki mc 0;
       (rc, st, mc) \<leftarrow> mdb_cursor_push st mc p;
       if rc \<noteq> 0 then Some (rc, st, mc)
       else mdb_page_search_root touch st mc None MDB_PS_FIRST } }"

text \<open>\<open>mdb_page_search\<close> from the line that reads the root.\<close>

definition page_search_from_db ::
    "'a touch \<Rightarrow> 'a st_scheme \<Rightarrow> cursor \<Rightarrow> bytes option \<Rightarrow> u32 \<Rightarrow> (int \<times> 'a st_scheme \<times> cursor) option" where
  "page_search_from_db touch st mc key flags = do {
     d \<leftarrow> mc_db st mc;
     let root = md_root d;
     if root = P_INVALID then Some (MDB_NOTFOUND, st, mc)
     else if \<not> root > 1 then None
     else do {
       p0 \<leftarrow> aget (mc_pg mc) 0;
       cached \<leftarrow> (case p0 of None \<Rightarrow> Some False | Some p \<Rightarrow> do { b \<leftarrow> page_at st p; Some (mp_pgno b = root) });
       (rc, st, mc) \<leftarrow>
         (if cached then Some (0, st, mc)
          else do {
            (rc, st, p) \<leftarrow> mdb_page_get st mc root;
            if rc \<noteq> 0 then Some (rc, st, mc)
            else do {
              (p, _) \<leftarrow> p;
              pg \<leftarrow> aset (mc_pg mc) 0 (Some p);
              Some (0, st, mc\<lparr>mc_pg := pg\<rparr>) } });
       if rc \<noteq> 0 then Some (rc, st, mc)
       else do {
         let mc = mc\<lparr>mc_snum := 1, mc_top := 0\<rparr>;
         (rc, st, mc) \<leftarrow> (if has flags MDB_PS_MODIFY then touch st mc else Some (0, st, mc));
         if rc \<noteq> 0 then Some (rc, st, mc)
         else if has flags MDB_PS_ROOTONLY then Some (MDB_SUCCESS, st, mc)
         else mdb_page_search_root touch st mc key flags } } }"

section \<open>Reading a node's data\<close>

text \<open>\<open>data\<close> is a value here: \<open>mv_size\<close> bytes at \<open>mv_data\<close>.\<close>

definition mdb_node_read ::
    "'a st_scheme \<Rightarrow> cursor \<Rightarrow> bytes \<Rightarrow> nat \<Rightarrow> (int \<times> 'a st_scheme \<times> bytes option) option" where
  "mdb_node_read st mc mp leaf = do {
     f \<leftarrow> mn_flags mp leaf;
     sz \<leftarrow> NODEDSZ mp leaf;
     a \<leftarrow> NODEDATA mp leaf;
     if \<not> F_ISSET f (ucast F_BIGDATA) then do {
       d \<leftarrow> get_bytes mp a sz;
       Some (MDB_SUCCESS, st, Some d) }
     else do {
       pgno \<leftarrow> load mp a 8;
       (rc, st, p) \<leftarrow> mdb_page_get st mc (of_nat pgno);
       if rc \<noteq> 0 then Some (rc, st, None)
       else do {
         (p, _) \<leftarrow> p;
         omp \<leftarrow> page_at st p;
         d \<leftarrow> get_bytes omp PAGEHDRSZ sz;
         Some (MDB_SUCCESS, st, Some d) } } }"

section \<open>Setting up cursors\<close>

text \<open>
  \<open>mx_cursor.mc_pg\<close> and \<open>mc_ki\<close> are not touched here: they keep what the memory held
  before (\<open>mx0\<close>), and so does \<open>mx_db\<close>.
\<close>

definition mdb_xcursor_init0 :: "'a st_scheme \<Rightarrow> cursor \<Rightarrow> cursor \<Rightarrow> cursor option" where
  "mdb_xcursor_init0 st mc mx0 = do {
     dx \<leftarrow> mc_dbx st mc;
     x0 \<leftarrow> mc_own mx0;
     Some (mx0\<lparr>
       mc_own := Some (x0\<lparr>mx_dbx := \<lparr>md_name = None, md_cmp = md_dcmp dx, md_dcmp = None\<rparr>\<rparr>),
       mc_dbi := mc_dbi mc, mc_snum := 0, mc_top := 0,
       mc_flags := C_SUB OR (mc_flags mc AND (C_ORIG_RDONLY OR C_WRITEMAP))\<rparr>) }"

text \<open>\<open>mc_own\<close> of a sub-cursor is always present; the page of the node is \<open>mp\<close>, at \<open>mptr\<close>.\<close>

definition mdb_xcursor_init1 ::
    "'a st_scheme \<Rightarrow> mcursor \<Rightarrow> page_ptr \<Rightarrow> bytes \<Rightarrow> nat \<Rightarrow> mcursor option" where
  "mdb_xcursor_init1 st m mptr mp node = do {
     let mc = fst m;
     mx \<leftarrow> snd m;
     x \<leftarrow> mc_own mx;
     f \<leftarrow> mn_flags mp node;
     a \<leftarrow> NODEDATA mp node;
     d \<leftarrow> mc_db st mc;
     let mx = mx\<lparr>mc_flags := mc_flags mx AND (C_SUB OR C_ORIG_RDONLY OR C_WRITEMAP)\<rparr>;
     (mx, x) \<leftarrow>
       (if has f (ucast F_SUBDATA) then do {
          b \<leftarrow> get_bytes mp a 48;
          pg \<leftarrow> aset (mc_pg mx) 0 None;
          Some (mx\<lparr>mc_pg := pg, mc_snum := 0, mc_top := 0\<rparr>, x\<lparr>mx_db := db_at b 0\<rparr>) }
        else do {
          fp \<leftarrow> (if a + PAGEHDRSZ \<le> length mp then Some (drop a mp) else None);
          pg \<leftarrow> aset (mc_pg mx) 0 (Some (Sub_page mptr a));
          ki \<leftarrow> aset (mc_ki mx) 0 0;
          let fixed = has (md_flags d) MDB_DUPFIXED;
          let db = \<lparr>md_pad = (if fixed then of_nat (mp_pad fp) else 0),
                    md_flags = (if fixed then
                        MDB_DUPFIXED OR (if has (md_flags d) MDB_INTEGERDUP then MDB_INTEGERKEY else 0)
                      else 0),
                    md_depth = 1, md_branch_pages = 0, md_leaf_pages = 1, md_overflow_pages = 0,
                    md_entries = of_nat (NUMKEYS fp), md_root = mp_pgno fp\<rparr>;
          Some (mx\<lparr>mc_snum := 1, mc_top := 0, mc_flags := mc_flags mx OR C_INITIALIZED, mc_pg := pg,
              mc_ki := ki\<rparr>, x\<lparr>mx_db := db\<rparr>) });
     let cmp = map_option (\<lambda>c. if NEED_CMP_CLONG c (unat (md_pad (mx_db x))) then Cmp_long else c) (md_cmp (mx_dbx x));
     let x = x\<lparr>mx_dbflag := DB_VALID OR DB_USRVALID OR DB_DUPDATA,
               mx_dbx := (mx_dbx x)\<lparr>md_cmp := cmp\<rparr>\<rparr>;
     Some (mc, Some (mx\<lparr>mc_own := Some x\<rparr>)) }"

text \<open>The fields that \<open>mdb_cursor_init\<close> sets, before the sub-cursor and the \<open>DB_STALE\<close> test.\<close>

definition cursor_init_fields :: "txn \<Rightarrow> nat \<Rightarrow> cursor \<Rightarrow> cursor option" where
  "cursor_init_fields txn dbi mc0 = do {
     pg \<leftarrow> aset (mc_pg mc0) 0 None;
     ki \<leftarrow> aset (mc_ki mc0) 0 0;
     Some \<lparr>mc_own = None, mc_dbi = dbi, mc_snum = 0, mc_top = 0,
       mc_flags = mt_flags txn AND (C_ORIG_RDONLY OR C_WRITEMAP), mc_pg = pg, mc_ki = ki\<rparr> }"

text \<open>A cursor on the C stack, before it is initialized.\<close>

definition raw_cursor :: cursor where
  "raw_cursor = \<lparr>mc_own = None, mc_dbi = 0, mc_snum = 0, mc_top = 0, mc_flags = 0,
     mc_pg = replicate CURSOR_STACK None, mc_ki = replicate CURSOR_STACK 0\<rparr>"

definition raw_db :: db where
  "raw_db = \<lparr>md_pad = 0, md_flags = 0, md_depth = 0, md_branch_pages = 0, md_leaf_pages = 0,
     md_overflow_pages = 0, md_entries = 0, md_root = 0\<rparr>"

definition raw_xcursor :: cursor where
  "raw_xcursor = raw_cursor\<lparr>mc_own := Some \<lparr>mx_db = raw_db,
     mx_dbx = \<lparr>md_name = None, md_cmp = None, md_dcmp = None\<rparr>, mx_dbflag = 0\<rparr>\<rparr>"

section \<open>Searching, with a record that may be stale\<close>

definition no_touch :: "'a touch" where
  "no_touch st mc = None"

text \<open>
  \<open>mdb_page_search\<close> on a database whose record is up to date, and the lookup of a
  stale record in the main database. The main database's own record is never stale: if it
  were, \<open>mdb_cursor_init\<close> and \<open>mdb_page_search\<close> would call each other for ever. With a
  \<open>MDB_DUPSORT\<close> main database the null \<open>mx\<close> fails the assertion in \<open>mdb_cursor_init\<close>.
\<close>

definition page_search_fresh ::
    "'a touch \<Rightarrow> 'a st_scheme \<Rightarrow> cursor \<Rightarrow> bytes option \<Rightarrow> u32 \<Rightarrow> (int \<times> 'a st_scheme \<times> cursor) option" where
  "page_search_fresh touch st mc key flags =
     (if has (mt_flags (st_txn st)) MDB_TXN_BLOCKED then Some (MDB_BAD_TXN, st, mc)
      else page_search_from_db touch st mc key flags)"

definition set_mc_db :: "'a st_scheme \<Rightarrow> nat \<Rightarrow> db \<Rightarrow> 'a st_scheme option" where
  "set_mc_db st dbi d = do {
     ds \<leftarrow> aset (mt_dbs (st_txn st)) dbi d;
     Some (st\<lparr>st_txn := (st_txn st)\<lparr>mt_dbs := ds\<rparr>\<rparr>) }"

definition clear_dbflag :: "'a st_scheme \<Rightarrow> nat \<Rightarrow> u8 \<Rightarrow> 'a st_scheme option" where
  "clear_dbflag st dbi f = do {
     v \<leftarrow> aget (mt_dbflags (st_txn st)) dbi;
     fs \<leftarrow> aset (mt_dbflags (st_txn st)) dbi (v AND NOT f);
     Some (st\<lparr>st_txn := (st_txn st)\<lparr>mt_dbflags := fs\<rparr>\<rparr>) }"

definition refresh_db :: "'a st_scheme \<Rightarrow> cursor \<Rightarrow> (int \<times> 'a st_scheme) option" where
  "refresh_db st mc = do {
     changed \<leftarrow> TXN_DBI_CHANGED (st_env st) (st_txn st) (mc_dbi mc);
     if changed then Some (MDB_BAD_DBI, st)
     else do {
       main \<leftarrow> aget (mt_dbs (st_txn st)) MAIN_DBI;
       mainf \<leftarrow> aget (mt_dbflags (st_txn st)) MAIN_DBI;
       if has (md_flags main) MDB_DUPSORT \<or> has mainf DB_STALE then None
       else do {
         mc2 \<leftarrow> cursor_init_fields (st_txn st) MAIN_DBI raw_cursor;
         dx \<leftarrow> mc_dbx st mc;
         name \<leftarrow> md_name dx;
         (rc, st, mc2) \<leftarrow> page_search_fresh no_touch st mc2 (Some name) 0;
         if rc \<noteq> 0 then Some (rc, st)
         else do {
           (leaf, exact, mc2) \<leftarrow> cursor_node_search st mc2 name;
           if \<not> exact then Some (MDB_NOTFOUND, st)
           else do {
             leaf \<leftarrow> leaf;
             mp \<leftarrow> top_page st mc2;
             f \<leftarrow> mn_flags mp leaf;
             if f AND ucast (F_DUPDATA OR F_SUBDATA) \<noteq> ucast F_SUBDATA then Some (MDB_INCOMPATIBLE, st)
             else do {
               (rc, st, data) \<leftarrow> mdb_node_read st mc2 mp leaf;
               if rc \<noteq> 0 then Some (rc, st)
               else do {
                 data \<leftarrow> data;
                 d \<leftarrow> mc_db st mc;
                 dflags \<leftarrow> load data 4 2;
                 if md_flags d AND PERSISTENT_FLAGS \<noteq> of_nat dflags then Some (MDB_INCOMPATIBLE, st)
                 else do {
                   b \<leftarrow> get_bytes data 0 48;
                   st \<leftarrow> set_mc_db st (mc_dbi mc) (db_at b 0);
                   st \<leftarrow> clear_dbflag st (mc_dbi mc) DB_STALE;
                   Some (MDB_SUCCESS, st) } } } } } } } }"

text \<open>\<open>mx_dbflag\<close> never has \<open>DB_STALE\<close>, so a stale cursor is a main cursor.\<close>

definition mdb_page_search ::
    "'a touch \<Rightarrow> 'a st_scheme \<Rightarrow> cursor \<Rightarrow> bytes option \<Rightarrow> u32 \<Rightarrow> (int \<times> 'a st_scheme \<times> cursor) option" where
  "mdb_page_search touch st mc key flags =
     (if has (mt_flags (st_txn st)) MDB_TXN_BLOCKED then Some (MDB_BAD_TXN, st, mc)
      else do {
        df \<leftarrow> mc_dbflag st mc;
        (rc, st) \<leftarrow> (if has df DB_STALE then refresh_db st mc else Some (0, st));
        if rc \<noteq> 0 then Some (rc, st, mc)
        else page_search_from_db touch st mc key flags })"

definition mdb_cursor_init ::
    "'a st_scheme \<Rightarrow> cursor \<Rightarrow> nat \<Rightarrow> cursor option \<Rightarrow> ('a st_scheme \<times> mcursor) option" where
  "mdb_cursor_init st mc0 dbi mx = do {
     mc \<leftarrow> cursor_init_fields (st_txn st) dbi mc0;
     d \<leftarrow> aget (mt_dbs (st_txn st)) dbi;
     mx \<leftarrow> (if has (md_flags d) MDB_DUPSORT then do { mx \<leftarrow> mx; x \<leftarrow> mdb_xcursor_init0 st mc mx; Some (Some x) }
           else Some None);
     df \<leftarrow> aget (mt_dbflags (st_txn st)) dbi;
     if has df DB_STALE then do {
       (_, st, mc) \<leftarrow> mdb_page_search no_touch st mc None MDB_PS_ROOTONLY;
       Some (st, (mc, mx)) }
     else Some (st, (mc, mx)) }"

end
