(* ===== verification/Cursor_Get.thy ===== *)
theory Cursor_Get
  imports Cursor
begin

text \<open>
  Moving a cursor and reading through it: \<open>mdb_cursor_sibling\<close>, \<open>first\<close>, \<open>last\<close>, \<open>next\<close>, \<open>prev\<close>,
  \<open>set\<close>, \<open>mdb_cursor_get\<close> and \<open>mdb_get\<close>. A main cursor calls the same functions on its
  sub-cursor; a sub-cursor has none of its own (\<open>mc_xcursor\<close> is null), so each function is
  written once, as a body over its recursive call, and tied at the two levels that exist.
  The arguments \<open>key\<close> and \<open>data\<close> are \<open>None\<close> for a null pointer; otherwise they carry the value
  that the caller's \<open>MDB_val\<close> has, and are returned with what the function stored.
\<close>

type_synonym val = "bytes option"
type_synonym 'a cres = "(int \<times> 'a st_scheme \<times> mcursor \<times> val \<times> val) option"
type_synonym 'a sub_call = "'a st_scheme \<Rightarrow> cursor \<Rightarrow> val \<Rightarrow> (int \<times> 'a st_scheme \<times> cursor \<times> val) option"

definition no_sub :: "'a sub_call" where
  "no_sub st mx data = None"

text \<open>The call \<open>f(&mc->mc_xcursor->mx_cursor, data, NULL, \<dots>)\<close>.\<close>

definition on_sub :: "('a st_scheme \<Rightarrow> mcursor \<Rightarrow> val \<Rightarrow> val \<Rightarrow> 'a cres) \<Rightarrow> 'a sub_call" where
  "on_sub f st mx data = do {
     (rc, st, m, k, _) \<leftarrow> f st (mx, None) data None;
     Some (rc, st, fst m, k) }"

definition call_sub ::
    "'a sub_call \<Rightarrow> 'a st_scheme \<Rightarrow> mcursor \<Rightarrow> val \<Rightarrow> (int \<times> 'a st_scheme \<times> mcursor \<times> val) option" where
  "call_sub sub st m data = do {
     mx \<leftarrow> snd m;
     (rc, st, mx, data) \<leftarrow> sub st mx data;
     Some (rc, st, (fst m, Some mx), data) }"

section \<open>Small steps the functions share\<close>

definition MDB_GET_KEY :: "bytes \<Rightarrow> nat \<Rightarrow> val \<Rightarrow> val option" where
  "MDB_GET_KEY mp leaf key =
     (case key of None \<Rightarrow> Some None | Some _ \<Rightarrow> do { k \<leftarrow> node_key mp leaf; Some (Some k) })"

definition leaf2_get :: "'a st_scheme \<Rightarrow> cursor \<Rightarrow> bytes \<Rightarrow> nat \<Rightarrow> val \<Rightarrow> val option" where
  "leaf2_get st mc mp i key = do {
     _ \<leftarrow> key;
     d \<leftarrow> mc_db st mc;
     k \<leftarrow> get_bytes mp (LEAF2KEY i (unat (md_pad d))) (unat (md_pad d));
     Some (Some k) }"

definition clear_flags :: "u32 \<Rightarrow> cursor \<Rightarrow> cursor" where
  "clear_flags f mc = mc\<lparr>mc_flags := mc_flags mc AND NOT f\<rparr>"

definition reset_sub :: "mcursor \<Rightarrow> mcursor" where
  "reset_sub m = (fst m, map_option (clear_flags (C_INITIALIZED OR C_EOF)) (snd m))"

definition is_dup :: "bytes \<Rightarrow> nat \<Rightarrow> bool option" where
  "is_dup mp leaf = do { f \<leftarrow> mn_flags mp leaf; Some (F_ISSET f (ucast F_DUPDATA)) }"

definition init1_at_top :: "'a st_scheme \<Rightarrow> mcursor \<Rightarrow> bytes \<Rightarrow> nat \<Rightarrow> mcursor option" where
  "init1_at_top st m mp leaf = do {
     p \<leftarrow> pg_at (fst m) (mc_top (fst m));
     mdb_xcursor_init1 st m p mp leaf }"

definition has_init :: "cursor \<Rightarrow> bool" where
  "has_init mc \<longleftrightarrow> has (mc_flags mc) C_INITIALIZED"

section \<open>Siblings\<close>

text \<open>The second half: from the branch page on top, at its current entry, to the child.\<close>

definition sibling_child ::
    "'a st_scheme \<Rightarrow> cursor \<Rightarrow> bool \<Rightarrow> (int \<times> 'a st_scheme \<times> cursor) option" where
  "sibling_child st mc move_right = do {
     mp \<leftarrow> top_page st mc;
     if \<not> IS_BRANCH mp then None
     else do {
       k \<leftarrow> ki_at mc;
       indx \<leftarrow> NODEPTR mp k;
       pgno \<leftarrow> NODEPGNO mp indx;
       (rc, st, p) \<leftarrow> mdb_page_get st mc pgno;
       if rc \<noteq> 0 then Some (rc, st, clear_flags (C_INITIALIZED OR C_EOF) mc)
       else do {
         (p, _) \<leftarrow> p;
         (_, st, mc) \<leftarrow> mdb_cursor_push st mc p;
         mc \<leftarrow> (if \<not> move_right then do { mp \<leftarrow> page_at st p; set_ki mc (last_key mp) } else Some mc);
         Some (MDB_SUCCESS, st, mc) } } }"

function mdb_cursor_sibling ::
    "'a st_scheme \<Rightarrow> cursor \<Rightarrow> bool \<Rightarrow> (int \<times> 'a st_scheme \<times> cursor) option" where
  "mdb_cursor_sibling st mc move_right =
     (if mc_snum mc < 2 then Some (MDB_NOTFOUND, st, mc)
      else do {
        let mc = mdb_cursor_pop mc;
        mp \<leftarrow> top_page st mc;
        k \<leftarrow> ki_at mc;
        (rc, st, mc) \<leftarrow>
          (if (if move_right then k + 1 \<ge> NUMKEYS mp else k = 0) then do {
             (rc, st, mc) \<leftarrow> mdb_cursor_sibling st mc move_right;
             if rc \<noteq> 0
             then Some (rc, st, mc\<lparr>mc_top := (mc_top mc + 1) mod 2 ^ 16, mc_snum := (mc_snum mc + 1) mod 2 ^ 16\<rparr>)
             else Some (rc, st, mc) }
           else do {
             mc \<leftarrow> set_ki mc (if move_right then k + 1 else k - 1);
             Some (0, st, mc) });
        if rc \<noteq> 0 then Some (rc, st, mc)
        else sibling_child st mc move_right })"
  by pat_completeness auto
termination
  by (relation "measure (\<lambda>(st, mc, r). mc_snum mc)") (auto simp: mdb_cursor_pop_def Let_def)

declare mdb_cursor_sibling.simps [simp del]

section \<open>First and last\<close>

text \<open>The end of \<open>mdb_cursor_first\<close> and \<open>mdb_cursor_last\<close>: return the entry \<open>i\<close> of the top page.\<close>

definition first_last_return ::
    "'a sub_call \<Rightarrow> 'a st_scheme \<Rightarrow> mcursor \<Rightarrow> bytes \<Rightarrow> nat \<Rightarrow> nat \<Rightarrow> val \<Rightarrow> val \<Rightarrow> 'a cres" where
  "first_last_return sub st m mp leaf i key data =
     (if IS_LEAF2 mp then do {
        key \<leftarrow> leaf2_get st (fst m) mp i key;
        Some (MDB_SUCCESS, st, m, key, data) }
      else do {
        (rc, st, m, data) \<leftarrow>
          (if data = None then Some (0, st, m, data)
           else do {
             dup \<leftarrow> is_dup mp leaf;
             if dup then do {
               m \<leftarrow> init1_at_top st m mp leaf;
               call_sub sub st m data }
             else do {
               (rc, st, v) \<leftarrow> mdb_node_read st (fst m) mp leaf;
               Some (rc, st, m, if rc = 0 then v else data) } });
        if rc \<noteq> 0 then Some (rc, st, m, key, data)
        else do {
          key \<leftarrow> MDB_GET_KEY mp leaf key;
          Some (MDB_SUCCESS, st, m, key, data) } })"

definition cursor_first_body :: "'a sub_call \<Rightarrow> 'a st_scheme \<Rightarrow> mcursor \<Rightarrow> val \<Rightarrow> val \<Rightarrow> 'a cres" where
  "cursor_first_body sub st m key data = do {
     let (mc, mx) = reset_sub m;
     (rc, st, mc) \<leftarrow>
       (if \<not> has_init mc \<or> mc_top mc \<noteq> 0 then mdb_page_search no_touch st mc None MDB_PS_FIRST
        else Some (0, st, mc));
     if rc \<noteq> 0 then Some (rc, st, (mc, mx), key, data)
     else do {
       mp \<leftarrow> top_page st mc;
       if \<not> IS_LEAF mp then None
       else do {
         leaf \<leftarrow> NODEPTR mp 0;
         let mc = mc\<lparr>mc_flags := (mc_flags mc OR C_INITIALIZED) AND NOT C_EOF\<rparr>;
         mc \<leftarrow> set_ki mc 0;
         first_last_return sub st (mc, mx) mp leaf 0 key data } } }"

definition cursor_last_body :: "'a sub_call \<Rightarrow> 'a st_scheme \<Rightarrow> mcursor \<Rightarrow> val \<Rightarrow> val \<Rightarrow> 'a cres" where
  "cursor_last_body sub st m key data = do {
     let (mc, mx) = reset_sub m;
     (rc, st, mc) \<leftarrow>
       (if \<not> has_init mc \<or> mc_top mc \<noteq> 0 then mdb_page_search no_touch st mc None MDB_PS_LAST
        else Some (0, st, mc));
     if rc \<noteq> 0 then Some (rc, st, (mc, mx), key, data)
     else do {
       mp \<leftarrow> top_page st mc;
       if \<not> IS_LEAF mp then None
       else do {
         mc \<leftarrow> set_ki mc (last_key mp);
         let mc = mc\<lparr>mc_flags := mc_flags mc OR C_INITIALIZED OR C_EOF\<rparr>;
         k \<leftarrow> ki_at mc;
         leaf \<leftarrow> NODEPTR mp k;
         first_last_return sub st (mc, mx) mp leaf k key data } } }"

definition sub_first :: "'a sub_call" where "sub_first = on_sub (cursor_first_body no_sub)"
definition sub_last :: "'a sub_call" where "sub_last = on_sub (cursor_last_body no_sub)"

definition mdb_cursor_first :: "'a st_scheme \<Rightarrow> mcursor \<Rightarrow> val \<Rightarrow> val \<Rightarrow> 'a cres" where
  "mdb_cursor_first = cursor_first_body sub_first"

definition mdb_cursor_last :: "'a st_scheme \<Rightarrow> mcursor \<Rightarrow> val \<Rightarrow> val \<Rightarrow> 'a cres" where
  "mdb_cursor_last = cursor_last_body sub_last"

section \<open>Next and previous\<close>

datatype cursor_op = MDB_FIRST | MDB_FIRST_DUP | MDB_GET_BOTH | MDB_GET_BOTH_RANGE | MDB_GET_CURRENT
  | MDB_GET_MULTIPLE | MDB_LAST | MDB_LAST_DUP | MDB_NEXT | MDB_NEXT_DUP | MDB_NEXT_MULTIPLE
  | MDB_NEXT_NODUP | MDB_PREV | MDB_PREV_DUP | MDB_PREV_MULTIPLE | MDB_PREV_NODUP | MDB_SET
  | MDB_SET_KEY | MDB_SET_RANGE

text \<open>
  The part of \<open>mdb_cursor_next\<close> and \<open>mdb_cursor_prev\<close> that moves inside the duplicates of
  the current key; the first component of the result says that the function returns.
  \<open>sub\<close> is the move of the sub-cursor, \<open>both\<close> the operation that goes on to another key when it
  finds no more duplicates, \<open>dup\<close> the one that does not; \<open>prev\<close> is set in \<open>mdb_cursor_prev\<close>,
  which clears \<open>C_EOF\<close> on success.
\<close>

definition move_in_dups ::
    "'a sub_call \<Rightarrow> cursor_op \<Rightarrow> cursor_op \<Rightarrow> bool \<Rightarrow> 'a st_scheme \<Rightarrow> mcursor \<Rightarrow> bytes \<Rightarrow> val \<Rightarrow> val \<Rightarrow> cursor_op \<Rightarrow>
     (bool \<times> int \<times> 'a st_scheme \<times> mcursor \<times> val \<times> val) option" where
  "move_in_dups sub both dup prev st m mp key data op = do {
     d \<leftarrow> mc_db st (fst m);
     if has (md_flags d) MDB_DUPSORT then do {
       k \<leftarrow> ki_at (fst m);
       leaf \<leftarrow> NODEPTR mp k;
       isd \<leftarrow> is_dup mp leaf;
       if isd then
         if op = both \<or> op = dup then do {
           (rc, st, m, data) \<leftarrow> call_sub sub st m data;
           if op \<noteq> both \<or> rc \<noteq> MDB_NOTFOUND then
             if rc = MDB_SUCCESS then do {
               key \<leftarrow> MDB_GET_KEY mp leaf key;
               Some (True, rc, st, (if prev then (clear_flags C_EOF (fst m), snd m) else m), key, data) }
             else Some (True, rc, st, m, key, data)
           else Some (False, rc, st, m, key, data) }
         else Some (False, 0, st, m, key, data)
       else do {
         _ \<leftarrow> snd m;
         Some (op = dup, MDB_NOTFOUND, st, reset_sub m, key, data) } }
     else Some (False, 0, st, m, key, data) }"

text \<open>The end of both functions, from the label \<open>skip\<close>; \<open>mp\<close> is the top page.\<close>

definition move_return ::
    "'a sub_call \<Rightarrow> 'a st_scheme \<Rightarrow> mcursor \<Rightarrow> bytes \<Rightarrow> val \<Rightarrow> val \<Rightarrow> 'a cres" where
  "move_return sub st m mp key data = do {
     k \<leftarrow> ki_at (fst m);
     if IS_LEAF2 mp then do {
       key \<leftarrow> leaf2_get st (fst m) mp k key;
       Some (MDB_SUCCESS, st, m, key, data) }
     else if \<not> IS_LEAF mp then None
     else do {
       leaf \<leftarrow> NODEPTR mp k;
       isd \<leftarrow> is_dup mp leaf;
       m \<leftarrow> (if isd then init1_at_top st m mp leaf else Some m);
       (rc, st, m, data) \<leftarrow>
         (if data = None then Some (0, st, m, data)
          else do {
            (rc, st, v) \<leftarrow> mdb_node_read st (fst m) mp leaf;
            if rc \<noteq> 0 then Some (rc, st, m, data)
            else if isd then call_sub sub st m v
            else Some (0, st, m, v) });
       if rc \<noteq> 0 then Some (rc, st, m, key, data)
       else do {
         key \<leftarrow> MDB_GET_KEY mp leaf key;
         Some (MDB_SUCCESS, st, m, key, data) } } }"

definition cursor_next_body ::
    "('a st_scheme \<Rightarrow> mcursor \<Rightarrow> val \<Rightarrow> val \<Rightarrow> 'a cres) \<Rightarrow> 'a sub_call \<Rightarrow> 'a sub_call \<Rightarrow>
     'a st_scheme \<Rightarrow> mcursor \<Rightarrow> val \<Rightarrow> val \<Rightarrow> cursor_op \<Rightarrow> 'a cres" where
  "cursor_next_body first sub_nxt sub_fst st m key data op = (
     let mc = fst m in
     if has (mc_flags mc) C_DEL \<and> op = MDB_NEXT_DUP then Some (MDB_NOTFOUND, st, m, key, data)
     else if \<not> has_init mc then first st m key data
     else do {
       mp \<leftarrow> top_page st mc;
       k \<leftarrow> ki_at mc;
       if has (mc_flags mc) C_EOF \<and> k \<ge> last_key mp then Some (MDB_NOTFOUND, st, m, key, data)
       else do {
         let m = (clear_flags C_EOF mc, snd m);
         (fin, rc, st, m, key, data) \<leftarrow> move_in_dups sub_nxt MDB_NEXT MDB_NEXT_DUP False st m mp key data op;
         if fin then Some (rc, st, m, key, data)
         else
           let (mc, mx) = m in
           if has (mc_flags mc) C_DEL
           then move_return sub_fst st (clear_flags C_DEL mc, mx) mp key data
           else do {
             k \<leftarrow> ki_at mc;
             (rc, st, mc) \<leftarrow>
               (if k + 1 \<ge> NUMKEYS mp then mdb_cursor_sibling st mc True
                else do { mc \<leftarrow> set_ki mc (k + 1); Some (0, st, mc) });
             if rc \<noteq> 0 then Some (rc, st, (mc\<lparr>mc_flags := mc_flags mc OR C_EOF\<rparr>, mx), key, data)
             else do {
               mp \<leftarrow> top_page st mc;
               move_return sub_fst st (mc, mx) mp key data } } } })"

definition cursor_prev_body ::
    "('a st_scheme \<Rightarrow> mcursor \<Rightarrow> val \<Rightarrow> val \<Rightarrow> 'a cres) \<Rightarrow> 'a sub_call \<Rightarrow> 'a sub_call \<Rightarrow>
     'a st_scheme \<Rightarrow> mcursor \<Rightarrow> val \<Rightarrow> val \<Rightarrow> cursor_op \<Rightarrow> 'a cres" where
  "cursor_prev_body lst sub_prv sub_lst st m key data op = do {
     (rc, st, m, key, data) \<leftarrow>
       (if \<not> has_init (fst m) then do {
          (rc, st, m, key, data) \<leftarrow> lst st m key data;
          if rc \<noteq> 0 then Some (rc, st, m, key, data)
          else do {
            k \<leftarrow> ki_at (fst m);
            mc \<leftarrow> set_ki (fst m) (k + 1);
            Some (0, st, (mc, snd m), key, data) } }
        else Some (0, st, m, key, data));
     if rc \<noteq> 0 then Some (rc, st, m, key, data)
     else do {
       mp \<leftarrow> top_page st (fst m);
       (fin, rc, st, m, key, data) \<leftarrow> move_in_dups sub_prv MDB_PREV MDB_PREV_DUP True st m mp key data op;
       if fin then Some (rc, st, m, key, data)
       else do {
         let (mc, mx) = m;
         let mc = clear_flags (C_EOF OR C_DEL) mc;
         k \<leftarrow> ki_at mc;
         (rc, st, mc) \<leftarrow>
           (if k = 0 then do {
              (rc, st, mc) \<leftarrow> mdb_cursor_sibling st mc False;
              if rc \<noteq> 0 then Some (rc, st, mc)
              else do {
                mp \<leftarrow> top_page st mc;
                mc \<leftarrow> set_ki mc (last_key mp);
                Some (0, st, mc) } }
            else do { mc \<leftarrow> set_ki mc (k - 1); Some (0, st, mc) });
         if rc \<noteq> 0 then Some (rc, st, (mc, mx), key, data)
         else do {
           mp \<leftarrow> top_page st mc;
           move_return sub_lst st (mc, mx) mp key data } } } }"

definition sub_next :: "'a sub_call" where
  "sub_next = on_sub (\<lambda>st m key data. cursor_next_body (cursor_first_body no_sub) no_sub no_sub st m key data MDB_NEXT)"

definition sub_prev :: "'a sub_call" where
  "sub_prev = on_sub (\<lambda>st m key data. cursor_prev_body (cursor_last_body no_sub) no_sub no_sub st m key data MDB_PREV)"

definition mdb_cursor_next :: "'a st_scheme \<Rightarrow> mcursor \<Rightarrow> val \<Rightarrow> val \<Rightarrow> cursor_op \<Rightarrow> 'a cres" where
  "mdb_cursor_next = cursor_next_body mdb_cursor_first sub_next sub_first"

definition mdb_cursor_prev :: "'a st_scheme \<Rightarrow> mcursor \<Rightarrow> val \<Rightarrow> val \<Rightarrow> cursor_op \<Rightarrow> 'a cres" where
  "mdb_cursor_prev = cursor_prev_body mdb_cursor_last sub_prev sub_last"

section \<open>Searching\<close>

text \<open>Where \<open>mdb_cursor_set\<close> goes after its look at the page the cursor is on.\<close>

datatype set_goto = Set_return int | Set1 "nat option" | Set2 | Set_search

text \<open>The comparison of \<open>key\<close> with entry \<open>i\<close> of the page, and \<open>leaf\<close> after it.\<close>

definition set_cmp :: "'a st_scheme \<Rightarrow> cursor \<Rightarrow> bytes \<Rightarrow> bytes \<Rightarrow> nat \<Rightarrow> nat option \<Rightarrow> (int \<times> nat option) option" where
  "set_cmp st mc mp key i leaf = do {
     dx \<leftarrow> mc_dbx st mc;
     cmp \<leftarrow> md_cmp dx;
     if has (mp_flags mp) P_LEAF2 then do {
       nk \<leftarrow> leaf2_get st mc mp i (Some []);
       nk \<leftarrow> nk;
       rc \<leftarrow> call_cmp cmp key nk;
       Some (rc, leaf) }
     else do {
       n \<leftarrow> NODEPTR mp i;
       nk \<leftarrow> node_key mp n;
       rc \<leftarrow> call_cmp cmp key nk;
       Some (rc, Some n) } }"

fun parents_have_right :: "'a st_scheme \<Rightarrow> cursor \<Rightarrow> nat \<Rightarrow> nat \<Rightarrow> bool option" where
  "parents_have_right st mc i 0 = Some False"
| "parents_have_right st mc i (Suc n) = do {
     k \<leftarrow> aget (mc_ki mc) i;
     mp \<leftarrow> page_of st mc i;
     if k < last_key mp then Some True else parents_have_right st mc (i + 1) n }"

definition set_on_page ::
    "'a st_scheme \<Rightarrow> cursor \<Rightarrow> bytes \<Rightarrow> cursor_op \<Rightarrow> bool \<Rightarrow> (set_goto \<times> cursor) option" where
  "set_on_page st mc key op exactp = do {
     mp \<leftarrow> top_page st mc;
     if NUMKEYS mp = 0 then do { mc \<leftarrow> set_ki mc 0; Some (Set_return MDB_NOTFOUND, mc) }
     else do {
       (rc, leaf) \<leftarrow> set_cmp st mc mp key 0 None;
       if rc = 0 then do { mc \<leftarrow> set_ki mc 0; Some (Set1 leaf, mc) }
       else do {
         let nkeys = NUMKEYS mp;
         (g, mc) \<leftarrow>
           (if rc > 0 then do {
              (g, mc) \<leftarrow>
                (if nkeys > 1 then do {
                   (rc, leaf) \<leftarrow> set_cmp st mc mp key (nkeys - 1) leaf;
                   if rc = 0 then do { mc \<leftarrow> set_ki mc (nkeys - 1); Some (Some (Set1 leaf), mc) }
                   else if rc < 0 then do {
                     k \<leftarrow> ki_at mc;
                     (rc, leaf) \<leftarrow> (if k < NUMKEYS mp then set_cmp st mc mp key k leaf else Some (rc, leaf));
                     if rc = 0 then Some (Some (Set1 leaf), mc)
                     else Some (Some Set2, clear_flags C_EOF mc) }
                   else Some (None, mc) }
                 else Some (None, mc));
              case g of
                Some g \<Rightarrow> Some (Some g, mc)
              | None \<Rightarrow> do {
                  more \<leftarrow> parents_have_right st mc 0 (mc_top mc);
                  if \<not> more then do { mc \<leftarrow> set_ki mc nkeys; Some (Some (Set_return MDB_NOTFOUND), mc) }
                  else Some (None, mc) } }
            else Some (None, mc));
         case g of
           Some g \<Rightarrow> Some (g, mc)
         | None \<Rightarrow>
             if mc_top mc = 0 then do {
               mc \<leftarrow> set_ki mc 0;
               Some (if op = MDB_SET_RANGE \<and> \<not> exactp then Set1 leaf else Set_return MDB_NOTFOUND, mc) }
             else Some (Set_search, mc) } } }"

text \<open>From the label \<open>set1\<close>. \<open>sub_fst\<close> and \<open>sub_set\<close> are the calls on the sub-cursor.\<close>

definition set_return ::
    "'a sub_call \<Rightarrow> (bool \<Rightarrow> 'a sub_call) \<Rightarrow> 'a st_scheme \<Rightarrow> mcursor \<Rightarrow> nat option \<Rightarrow> bytes \<Rightarrow> val \<Rightarrow> cursor_op \<Rightarrow> 'a cres" where
  "set_return sub_fst sub_set st m leaf key data op = do {
     let (mc, mx) = m;
     let mc = mc\<lparr>mc_flags := (mc_flags mc OR C_INITIALIZED) AND NOT C_EOF\<rparr>;
     mp \<leftarrow> top_page st mc;
     if IS_LEAF2 mp then
       if op = MDB_SET_RANGE \<or> op = MDB_SET_KEY then do {
         k \<leftarrow> ki_at mc;
         key \<leftarrow> leaf2_get st mc mp k (Some key);
         Some (MDB_SUCCESS, st, (mc, mx), key, data) }
       else Some (MDB_SUCCESS, st, (mc, mx), Some key, data)
     else do {
       leaf \<leftarrow> leaf;
       isd \<leftarrow> is_dup mp leaf;
       m \<leftarrow> (if isd then init1_at_top st (mc, mx) mp leaf else Some (mc, mx));
       (ret, rc, st, m, data) \<leftarrow>
         (case data of
            None \<Rightarrow> Some (False, 0, st, m, data)
          | Some dv \<Rightarrow>
              if isd then
                if op = MDB_SET \<or> op = MDB_SET_KEY \<or> op = MDB_SET_RANGE then do {
                  (rc, st, m, data) \<leftarrow> call_sub sub_fst st m data;
                  Some (False, rc, st, m, data) }
                else do {
                  (rc, st, m, data) \<leftarrow> call_sub (sub_set (op = MDB_GET_BOTH)) st m data;
                  Some (rc \<noteq> 0, rc, st, m, data) }
              else if op = MDB_GET_BOTH \<or> op = MDB_GET_BOTH_RANGE then do {
                (rc, st, old) \<leftarrow> mdb_node_read st (fst m) mp leaf;
                if rc \<noteq> 0 then Some (True, rc, st, m, data)
                else do {
                  old \<leftarrow> old;
                  dx \<leftarrow> mc_dbx st (fst m);
                  dcmp \<leftarrow> md_dcmp dx;
                  rc \<leftarrow> call_cmp (if NEED_CMP_CLONG dcmp (length old) then Cmp_long else dcmp) dv old;
                  if rc \<noteq> 0 \<and> (op = MDB_GET_BOTH \<or> rc > 0) then Some (True, MDB_NOTFOUND, st, m, data)
                  else Some (False, 0, st, m, Some old) } }
              else do {
                let m = reset_sub m;
                (rc, st, v) \<leftarrow> mdb_node_read st (fst m) mp leaf;
                Some (rc \<noteq> 0, rc, st, m, if rc = 0 then v else data) });
       if ret then Some (rc, st, m, Some key, data)
       else do {
         key \<leftarrow> (if op = MDB_SET_RANGE \<or> op = MDB_SET_KEY then MDB_GET_KEY mp leaf (Some key) else Some (Some key));
         Some (rc, st, m, key, data) } } }"

text \<open>From the label \<open>set2\<close>.\<close>

definition set_in_page ::
    "'a sub_call \<Rightarrow> (bool \<Rightarrow> 'a sub_call) \<Rightarrow> 'a st_scheme \<Rightarrow> mcursor \<Rightarrow> bytes \<Rightarrow> val \<Rightarrow> cursor_op \<Rightarrow> bool \<Rightarrow> 'a cres" where
  "set_in_page sub_fst sub_set st m key data op exactp = do {
     (leaf, exact, mc) \<leftarrow> cursor_node_search st (fst m) key;
     if exactp \<and> \<not> exact then Some (MDB_NOTFOUND, st, (mc, snd m), Some key, data)
     else
       case leaf of
         Some leaf \<Rightarrow> set_return sub_fst sub_set st (mc, snd m) (Some leaf) key data op
       | None \<Rightarrow> do {
           (rc, st, mc) \<leftarrow> mdb_cursor_sibling st mc True;
           if rc \<noteq> 0
           then Some (rc, st, (mc\<lparr>mc_flags := mc_flags mc OR C_EOF\<rparr>, snd m), Some key, data)
           else do {
             mp \<leftarrow> top_page st mc;
             if \<not> IS_LEAF mp then None
             else do {
               leaf \<leftarrow> NODEPTR mp 0;
               set_return sub_fst sub_set st (mc, snd m) (Some leaf) key data op } } } }"

definition cursor_set_body ::
    "'a sub_call \<Rightarrow> (bool \<Rightarrow> 'a sub_call) \<Rightarrow> 'a st_scheme \<Rightarrow> mcursor \<Rightarrow> val \<Rightarrow> val \<Rightarrow> cursor_op \<Rightarrow> bool \<Rightarrow> 'a cres" where
  "cursor_set_body sub_fst sub_set st m key data op exactp = do {
     key \<leftarrow> key;
     if length key = 0 then Some (MDB_BAD_VALSIZE, st, m, Some key, data)
     else do {
       let (mc, mx) = reset_sub m;
       (g, mc) \<leftarrow>
         (if has_init mc then set_on_page st mc key op exactp
          else do { pg \<leftarrow> aset (mc_pg mc) 0 None; Some (Set_search, mc\<lparr>mc_pg := pg\<rparr>) });
       case g of
         Set_return rc \<Rightarrow> Some (rc, st, (mc, mx), Some key, data)
       | Set1 leaf \<Rightarrow> set_return sub_fst sub_set st (mc, mx) leaf key data op
       | Set2 \<Rightarrow> set_in_page sub_fst sub_set st (mc, mx) key data op exactp
       | Set_search \<Rightarrow> do {
           (rc, st, mc) \<leftarrow> mdb_page_search no_touch st mc (Some key) 0;
           if rc \<noteq> 0 then Some (rc, st, (mc, mx), Some key, data)
           else do {
             mp \<leftarrow> top_page st mc;
             if \<not> IS_LEAF mp then None
             else set_in_page sub_fst sub_set st (mc, mx) key data op exactp } } } }"

definition sub_set :: "bool \<Rightarrow> 'a sub_call" where
  "sub_set exactp = on_sub (\<lambda>st m key data. cursor_set_body no_sub (\<lambda>_. no_sub) st m key data MDB_SET_RANGE exactp)"

definition mdb_cursor_set :: "'a st_scheme \<Rightarrow> mcursor \<Rightarrow> val \<Rightarrow> val \<Rightarrow> cursor_op \<Rightarrow> bool \<Rightarrow> 'a cres" where
  "mdb_cursor_set = cursor_set_body sub_first sub_set"

section \<open>\<open>mdb_cursor_get\<close>\<close>

text \<open>\<open>MDB_GET_CURRENT\<close>\<close>

definition get_current ::
    "'a sub_call \<Rightarrow> 'a st_scheme \<Rightarrow> mcursor \<Rightarrow> val \<Rightarrow> val \<Rightarrow> 'a cres" where
  "get_current sub st m key data =
     (if \<not> has_init (fst m) then Some (EINVAL, st, m, key, data)
      else do {
        mp \<leftarrow> top_page st (fst m);
        k \<leftarrow> ki_at (fst m);
        let nkeys = NUMKEYS mp;
        if nkeys = 0 \<or> k \<ge> nkeys then do {
          mc \<leftarrow> set_ki (fst m) nkeys;
          Some (MDB_NOTFOUND, st, (mc, snd m), key, data) }
        else if IS_LEAF2 mp then do {
          key \<leftarrow> leaf2_get st (fst m) mp k key;
          Some (MDB_SUCCESS, st, m, key, data) }
        else do {
          leaf \<leftarrow> NODEPTR mp k;
          key \<leftarrow> MDB_GET_KEY mp leaf key;
          if data = None then Some (MDB_SUCCESS, st, m, key, data)
          else do {
            isd \<leftarrow> is_dup mp leaf;
            if isd then do {
              (rc, st, m, data) \<leftarrow> call_sub sub st m data;
              Some (rc, st, m, key, data) }
            else do {
              (rc, st, v) \<leftarrow> mdb_node_read st (fst m) mp leaf;
              Some (rc, st, m, key, if rc = 0 then v else data) } } } })"

text \<open>The recursive call is \<open>mdb_cursor_get\<close> itself, which ends by clearing \<open>C_DEL\<close>.\<close>

definition drop_del :: "mcursor \<Rightarrow> mcursor" where
  "drop_del m = (if has (mc_flags (fst m)) C_DEL then (clear_flags C_DEL (fst m), snd m) else m)"

definition sub_current :: "'a sub_call" where
  "sub_current = on_sub (\<lambda>st m key data.
     if has (mt_flags (st_txn st)) MDB_TXN_BLOCKED then Some (MDB_BAD_TXN, st, m, key, data)
     else do {
       (rc, st, m, key, data) \<leftarrow> get_current no_sub st m key data;
       Some (rc, st, drop_del m, key, data) })"

text \<open>The label \<open>fetchm\<close>: a page of fixed-size duplicates.\<close>

definition fetchm :: "'a st_scheme \<Rightarrow> mcursor \<Rightarrow> val \<Rightarrow> 'a cres" where
  "fetchm st m key = do {
     mx \<leftarrow> snd m;
     mp \<leftarrow> top_page st mx;
     d \<leftarrow> mc_db st mx;
     v \<leftarrow> get_bytes mp PAGEHDRSZ (NUMKEYS mp * unat (md_pad d));
     mx \<leftarrow> set_ki mx (last_key mp);
     Some (MDB_SUCCESS, st, (fst m, Some mx), key, Some v) }"

definition is_dupfixed :: "'a st_scheme \<Rightarrow> mcursor \<Rightarrow> bool option" where
  "is_dupfixed st m = do { d \<leftarrow> mc_db st (fst m); Some (has (md_flags d) MDB_DUPFIXED) }"

definition get_multiple :: "'a st_scheme \<Rightarrow> mcursor \<Rightarrow> val \<Rightarrow> val \<Rightarrow> 'a cres" where
  "get_multiple st m key data =
     (if data = None \<or> \<not> has_init (fst m) then Some (EINVAL, st, m, key, data)
      else do {
        fixed \<leftarrow> is_dupfixed st m;
        if \<not> fixed then Some (MDB_INCOMPATIBLE, st, m, key, data)
        else do {
          mx \<leftarrow> snd m;
          if \<not> has_init mx \<or> has (mc_flags mx) C_EOF then Some (MDB_SUCCESS, st, m, key, data)
          else fetchm st m key } })"

definition next_multiple :: "'a st_scheme \<Rightarrow> mcursor \<Rightarrow> val \<Rightarrow> val \<Rightarrow> 'a cres" where
  "next_multiple st m key data =
     (if data = None then Some (EINVAL, st, m, key, data)
      else do {
        fixed \<leftarrow> is_dupfixed st m;
        if \<not> fixed then Some (MDB_INCOMPATIBLE, st, m, key, data)
        else do {
          (rc, st, m, key, data) \<leftarrow> mdb_cursor_next st m key data MDB_NEXT_DUP;
          if rc \<noteq> 0 then Some (rc, st, m, key, data)
          else do {
            mx \<leftarrow> snd m;
            if has_init mx then fetchm st m key else Some (MDB_NOTFOUND, st, m, key, data) } } })"

definition prev_multiple :: "'a st_scheme \<Rightarrow> mcursor \<Rightarrow> val \<Rightarrow> val \<Rightarrow> 'a cres" where
  "prev_multiple st m key data =
     (if data = None then Some (EINVAL, st, m, key, data)
      else do {
        fixed \<leftarrow> is_dupfixed st m;
        if \<not> fixed then Some (MDB_INCOMPATIBLE, st, m, key, data)
        else do {
          (rc, st, m, key, data) \<leftarrow>
            (if \<not> has_init (fst m) then mdb_cursor_last st m key data else Some (MDB_SUCCESS, st, m, key, data));
          if rc \<noteq> 0 then Some (rc, st, m, key, data)
          else do {
            mx \<leftarrow> snd m;
            if has_init mx then do {
              (rc, st, mx) \<leftarrow> mdb_cursor_sibling st mx False;
              if rc = 0 then fetchm st (fst m, Some mx) key
              else Some (rc, st, (fst m, Some mx), key, data) }
            else Some (MDB_NOTFOUND, st, m, key, data) } } })"

text \<open>The label \<open>mmove\<close>, for \<open>MDB_FIRST_DUP\<close> and \<open>MDB_LAST_DUP\<close>.\<close>

definition mmove :: "'a sub_call \<Rightarrow> 'a st_scheme \<Rightarrow> mcursor \<Rightarrow> val \<Rightarrow> val \<Rightarrow> 'a cres" where
  "mmove mfunc st m key data =
     (if data = None \<or> \<not> has_init (fst m) then Some (EINVAL, st, m, key, data)
      else
        case snd m of
          None \<Rightarrow> Some (MDB_INCOMPATIBLE, st, m, key, data)
        | Some mx \<Rightarrow> do {
            mp \<leftarrow> top_page st (fst m);
            k \<leftarrow> ki_at (fst m);
            if k \<ge> NUMKEYS mp then do {
              mc \<leftarrow> set_ki (fst m) (NUMKEYS mp);
              Some (MDB_NOTFOUND, st, (mc, snd m), key, data) }
            else do {
              leaf \<leftarrow> NODEPTR mp k;
              isd \<leftarrow> is_dup mp leaf;
              if \<not> isd then do {
                key \<leftarrow> MDB_GET_KEY mp leaf key;
                (rc, st, v) \<leftarrow> mdb_node_read st (fst m) mp leaf;
                Some (rc, st, m, key, if rc = 0 then v else data) }
              else if \<not> has_init mx then Some (EINVAL, st, m, key, data)
              else do {
                (rc, st, m, data) \<leftarrow> call_sub mfunc st m data;
                Some (rc, st, m, key, data) } } })"

definition get_set :: "'a st_scheme \<Rightarrow> mcursor \<Rightarrow> val \<Rightarrow> val \<Rightarrow> cursor_op \<Rightarrow> 'a cres" where
  "get_set st m key data op =
     (if key = None then Some (EINVAL, st, m, key, data)
      else mdb_cursor_set st m key data op (op \<noteq> MDB_SET_RANGE))"

fun cursor_get_op :: "'a st_scheme \<Rightarrow> mcursor \<Rightarrow> val \<Rightarrow> val \<Rightarrow> cursor_op \<Rightarrow> 'a cres" where
  "cursor_get_op st m key data MDB_GET_CURRENT = get_current sub_current st m key data"
| "cursor_get_op st m key data MDB_GET_MULTIPLE = get_multiple st m key data"
| "cursor_get_op st m key data MDB_NEXT_MULTIPLE = next_multiple st m key data"
| "cursor_get_op st m key data MDB_PREV_MULTIPLE = prev_multiple st m key data"
| "cursor_get_op st m key data MDB_FIRST = mdb_cursor_first st m key data"
| "cursor_get_op st m key data MDB_FIRST_DUP = mmove sub_first st m key data"
| "cursor_get_op st m key data MDB_LAST = mdb_cursor_last st m key data"
| "cursor_get_op st m key data MDB_LAST_DUP = mmove sub_last st m key data"
| "cursor_get_op st m key data op =
     (if op \<in> {MDB_NEXT, MDB_NEXT_DUP, MDB_NEXT_NODUP} then mdb_cursor_next st m key data op
      else if op \<in> {MDB_PREV, MDB_PREV_DUP, MDB_PREV_NODUP} then mdb_cursor_prev st m key data op
      else if op \<in> {MDB_GET_BOTH, MDB_GET_BOTH_RANGE} \<and> data = None then Some (EINVAL, st, m, key, data)
      else if op \<in> {MDB_GET_BOTH, MDB_GET_BOTH_RANGE} \<and> snd m = None
      then Some (MDB_INCOMPATIBLE, st, m, key, data)
      else get_set st m key data op)"

definition mdb_cursor_get :: "'a st_scheme \<Rightarrow> mcursor option \<Rightarrow> val \<Rightarrow> val \<Rightarrow> cursor_op \<Rightarrow>
    (int \<times> 'a st_scheme \<times> mcursor option \<times> val \<times> val) option" where
  "mdb_cursor_get st m key data op =
     (case m of
        None \<Rightarrow> Some (EINVAL, st, None, key, data)
      | Some m \<Rightarrow>
          if has (mt_flags (st_txn st)) MDB_TXN_BLOCKED then Some (MDB_BAD_TXN, st, Some m, key, data)
          else do {
            (rc, st, m, key, data) \<leftarrow> cursor_get_op st m key data op;
            Some (rc, st, Some (drop_del m), key, data) })"

definition mdb_get :: "'a st_scheme \<Rightarrow> nat \<Rightarrow> val \<Rightarrow> val \<Rightarrow> (int \<times> 'a st_scheme \<times> val) option" where
  "mdb_get st dbi key data = do {
     exist \<leftarrow> TXN_DBI_EXIST (st_txn st) dbi DB_USRVALID;
     if key = None \<or> data = None \<or> \<not> exist then Some (EINVAL, st, data)
     else if has (mt_flags (st_txn st)) MDB_TXN_BLOCKED then Some (MDB_BAD_TXN, st, data)
     else do {
       (st, m) \<leftarrow> mdb_cursor_init st raw_cursor dbi (Some raw_xcursor);
       (rc, st, _, _, data) \<leftarrow> mdb_cursor_set st m key data MDB_SET True;
       Some (rc, st, data) } }"

end
