(* ===== verification/Text_Format.thy ===== *)
theory Text_Format
  imports Structs
begin

text \<open>
  The text format of \<open>mdb_dump\<close> and \<open>mdb_load\<close>: how a key or a value is printed (\<open>hex\<close>, \<open>text\<close>,
  \<open>byte\<close> of \<open>mdb_dump.c\<close>) and read back (\<open>unhex\<close>, \<open>readline\<close> of \<open>mdb_load.c\<close>).

  Standard output is the list of the bytes written, standard input the list of those not read
  yet. An \<open>MDB_val\<close> used as a line buffer is the list of its \<open>mv_size\<close> bytes. Character classes
  are those of the C locale, which the tools run in.
\<close>

section \<open>Printing\<close>

definition lit :: "string \<Rightarrow> bytes" where
  "lit s = map of_char s"

definition hexc :: bytes where
  "hexc = lit ''0123456789abcdef''"

definition hex :: "u8 \<Rightarrow> bytes" where
  "hex c = [hexc ! unat (drop_bit 4 c), hexc ! unat (c AND 0xf)]"

definition isprint :: "u8 \<Rightarrow> bool" where
  "isprint c \<longleftrightarrow> 0x20 \<le> c \<and> c \<le> 0x7e"

definition isxdigit :: "u8 \<Rightarrow> bool" where
  "isxdigit c \<longleftrightarrow> 0x30 \<le> c \<and> c \<le> 0x39 \<or> 0x41 \<le> c \<and> c \<le> 0x46 \<or> 0x61 \<le> c \<and> c \<le> 0x66"

abbreviation BACKSLASH :: u8 where "BACKSLASH \<equiv> 0x5c"
abbreviation NEWLINE :: u8 where "NEWLINE \<equiv> 0x0a"
abbreviation SPACE :: u8 where "SPACE \<equiv> 0x20"

definition text_char :: "u8 \<Rightarrow> bytes" where
  "text_char c =
     (if isprint c then (if c = BACKSLASH then [BACKSLASH] else []) @ [c]
      else BACKSLASH # hex c)"

definition text_val :: "bytes \<Rightarrow> bytes" where
  "text_val v = SPACE # concat (map text_char v) @ [NEWLINE]"

definition byte_val :: "bytes \<Rightarrow> bytes" where
  "byte_val v = SPACE # concat (map hex v) @ [NEWLINE]"

section \<open>Lines of standard input\<close>

text \<open>\<open>fgets\<close> with room for \<open>n\<close> characters; it stores the characters and a NUL at offset \<open>off\<close>.\<close>

fun fgets_chars :: "nat \<Rightarrow> bytes \<Rightarrow> bytes \<times> bytes" where
  "fgets_chars 0 inp = ([], inp)"
| "fgets_chars (Suc n) [] = ([], [])"
| "fgets_chars (Suc n) (c # r) =
     (if c = NEWLINE then ([c], r) else let (l, r') = fgets_chars n r in (c # l, r'))"

definition fgets :: "bytes \<Rightarrow> nat \<Rightarrow> nat \<Rightarrow> bytes \<Rightarrow> (bytes \<times> bytes) option option" where
  "fgets buf off n inp =
     (if inp = [] then Some None
      else do {
        let (l, rest) = fgets_chars (n - 1) inp;
        buf \<leftarrow> put_bytes buf off (l @ [0]);
        Some (Some (buf, rest)) })"

definition strlen :: "bytes \<Rightarrow> nat \<Rightarrow> nat" where
  "strlen buf off = length (takeWhile (\<lambda>c. c \<noteq> 0) (drop off buf))"

lemma fgets_chars_shorter: "0 < n \<Longrightarrow> inp \<noteq> [] \<Longrightarrow> length (snd (fgets_chars n inp)) < length inp"
proof -
  have le: "length (snd (fgets_chars n inp)) \<le> length inp" for n inp
    by (induction n inp rule: fgets_chars.induct) (auto split: prod.splits)
  show "0 < n \<Longrightarrow> inp \<noteq> [] \<Longrightarrow> length (snd (fgets_chars n inp)) < length inp"
    using le [of "n - 1" "tl inp"] by (cases n; cases inp) (auto split: prod.splits)
qed

lemma fgets_shorter:
  "fgets buf off n inp = Some (Some (buf', rest)) \<Longrightarrow> 1 < n \<Longrightarrow> length rest < length inp"
  using fgets_chars_shorter [of "n - 1" inp] by (auto simp: fgets_def split: if_splits prod.splits bind_splits)

section \<open>Reading a key or a value\<close>

text \<open>
  The part of the program state that \<open>readhdr\<close> and \<open>readline\<close> use: the \<open>static\<close> variables
  \<open>mode\<close>, \<open>lineno\<close>, \<open>Eof\<close>, \<open>version\<close>, \<open>flags\<close>, \<open>subname\<close> and \<open>info\<close>, and the standard input.
\<close>

record loader =
  ld_mode :: u32
  ld_lineno :: u64
  ld_eof :: bool
  ld_stdin :: bytes
  ld_version :: int
  ld_flags :: u32
  ld_subname :: "bytes option"
  ld_mapaddr :: u64
  ld_mapsize :: u64
  ld_maxreaders :: u32

definition PRINT :: u32 where "PRINT = 1"
definition NOHDR :: u32 where "NOHDR = 2"
definition EOF :: int where "EOF = - 1"

definition unhex :: "u8 \<Rightarrow> u8 \<Rightarrow> nat" where
  "unhex a b = (
     let x = unat (a AND 0x4f);
         x = (if x AND 0x40 \<noteq> 0 then x - 55 else x);
         c = push_bit 4 x;
         x = unat (b AND 0x4f);
         x = (if x AND 0x40 \<noteq> 0 then x - 55 else x)
     in c OR x)"

text \<open>
  The loop that grows the buffer while it does not hold a whole line; the last line read starts
  at \<open>c1\<close> and has \<open>len\<close> characters. \<open>realloc n\<close> gives the bytes that the new half of a block of
  \<open>n\<close> bytes happens to hold, or \<open>None\<close> when there is no memory. The result is the length of the
  line and the buffer, or \<open>None\<close> for \<open>badend\<close>.
\<close>

function read_more ::
    "(nat \<Rightarrow> bytes option) \<Rightarrow> loader \<Rightarrow> bytes \<Rightarrow> nat \<Rightarrow> nat \<Rightarrow> ((nat \<times> bytes) option \<times> loader) option" where
  "read_more realloc ld buf c1 len =
     (if c1 + len = 0 then None
      else do {
        b \<leftarrow> aget buf (c1 + len - 1);
        if b = NEWLINE then Some (Some (c1 + len, buf), ld)
        else
          (case realloc (length buf * 2) of
             None \<Rightarrow> Some (None, ld\<lparr>ld_eof := True\<rparr>)
           | Some new \<Rightarrow> do {
               let l2 = c1 + len;
               r \<leftarrow> fgets (buf @ new) l2 (length buf + 1) (ld_stdin ld);
               (case r of
                  None \<Rightarrow> Some (None, ld\<lparr>ld_eof := True\<rparr>)
                | Some (buf', rest) \<Rightarrow>
                    read_more realloc (ld\<lparr>ld_stdin := rest\<rparr>) buf' l2 (strlen buf' l2)) }) })"
  by pat_completeness auto
termination
proof (relation "measure (\<lambda>(_, ld, _). length (ld_stdin ld))", goal_cases)
  case 1
  then show ?case by simp
next
  case (2 realloc ld buf c1 len b new l2 r p buf' rest)
  then have "0 < length buf" by (auto dest: aget_SomeD)
  then show ?case using 2 fgets_shorter [of "buf @ new" l2 "length buf + 1" "ld_stdin ld" buf' rest] by simp
qed

declare read_more.simps [simp del]

text \<open>
  The decoding loops work in place: they read at \<open>c2\<close> and write at \<open>c1\<close>. The inner option is
  \<open>None\<close> for \<open>badend\<close>; the buffer's contents do not matter after it.
\<close>

function decode_print :: "bytes \<Rightarrow> nat \<Rightarrow> nat \<Rightarrow> nat \<Rightarrow> (bytes \<times> nat) option option" where
  "decode_print buf c1 c2 e =
     (if c2 < e then do {
        x \<leftarrow> aget buf c2;
        if x = BACKSLASH then do {
          y \<leftarrow> aget buf (c2 + 1);
          if y = BACKSLASH then do {
            buf \<leftarrow> aset buf c1 x;
            decode_print buf (c1 + 1) (c2 + 2) e }
          else if c2 + 3 > e then Some None
          else do {
            z \<leftarrow> aget buf (c2 + 2);
            if \<not> isxdigit y \<or> \<not> isxdigit z then Some None
            else do {
              buf \<leftarrow> aset buf c1 (of_nat (unhex y z));
              decode_print buf (c1 + 1) (c2 + 3) e } } }
        else do {
          buf \<leftarrow> aset buf c1 x;
          decode_print buf (c1 + 1) (c2 + 1) e } }
      else Some (Some (buf, c1)))"
  by pat_completeness auto
termination by (relation "measure (\<lambda>(_, _, c2, e). e - c2)") auto

function decode_bytes :: "bytes \<Rightarrow> nat \<Rightarrow> nat \<Rightarrow> nat \<Rightarrow> (bytes \<times> nat) option option" where
  "decode_bytes buf c1 c2 e =
     (if c2 < e then do {
        x \<leftarrow> aget buf c2;
        y \<leftarrow> aget buf (c2 + 1);
        if \<not> isxdigit x \<or> \<not> isxdigit y then Some None
        else do {
          buf \<leftarrow> aset buf c1 (of_nat (unhex x y));
          decode_bytes buf (c1 + 1) (c2 + 2) e } }
      else Some (Some (buf, c1)))"
  by pat_completeness auto
termination by (relation "measure (\<lambda>(_, _, c2, e). e - c2)") auto

declare decode_print.simps [simp del] decode_bytes.simps [simp del]

text \<open>
  \<open>readline\<close>: the result code, the value read (\<open>out\<close>), the buffer and the state. A line that
  should start with a blank and does not ends the input, unless it is \<open>DATA=END\<close>.
\<close>

definition readline_text ::
    "(nat \<Rightarrow> bytes option) \<Rightarrow> loader \<Rightarrow> bytes \<Rightarrow> (int \<times> bytes \<times> bytes \<times> loader) option" where
  "readline_text realloc ld buf = do {
     r \<leftarrow> fgets buf 0 (length buf) (ld_stdin ld);
     (case r of
        None \<Rightarrow> Some (EOF, [], buf, ld\<lparr>ld_eof := True\<rparr>)
      | Some (buf, rest) \<Rightarrow> do {
          (r, ld) \<leftarrow> read_more realloc (ld\<lparr>ld_lineno := ld_lineno ld + 1, ld_stdin := rest\<rparr>) buf 0 (strlen buf 0);
          (case r of
             None \<Rightarrow> Some (EOF, [], buf, ld)
           | Some (l2, buf) \<Rightarrow> do {
               let e = l2 - 1;
               buf \<leftarrow> aset buf e 0;
               r \<leftarrow>
                 (if ld_mode ld AND PRINT \<noteq> 0 then decode_print buf 0 0 e
                  else if odd e then Some None
                  else decode_bytes buf 0 0 e);
               (case r of
                  None \<Rightarrow> Some (EOF, [], buf, ld\<lparr>ld_eof := True\<rparr>)
                | Some (buf, n) \<Rightarrow> Some (0, take n buf, buf, ld)) }) }) }"

definition readline ::
    "(nat \<Rightarrow> bytes option) \<Rightarrow> loader \<Rightarrow> bytes \<Rightarrow> (int \<times> bytes \<times> bytes \<times> loader) option" where
  "readline realloc ld buf =
     (if ld_mode ld AND NOHDR \<noteq> 0 then readline_text realloc ld buf
      else
        (case ld_stdin ld of
           [] \<Rightarrow> Some (EOF, [], buf, ld\<lparr>ld_eof := True\<rparr>)
         | c # inp \<Rightarrow>
             if c \<noteq> SPACE then do {
               let ld = ld\<lparr>ld_lineno := ld_lineno ld + 1, ld_stdin := inp\<rparr>;
               r \<leftarrow> fgets buf 0 (length buf) inp;
               (case r of
                  None \<Rightarrow> Some (EOF, [], buf, ld\<lparr>ld_eof := True\<rparr>)
                | Some (buf, rest) \<Rightarrow>
                    if c = of_char CHR ''D'' \<and> take 7 buf = lit ''ATA=END''
                    then Some (EOF, [], buf, ld\<lparr>ld_stdin := rest\<rparr>)
                    else Some (EOF, [], buf, ld\<lparr>ld_eof := True, ld_stdin := rest\<rparr>)) }
             else readline_text realloc (ld\<lparr>ld_stdin := inp\<rparr>) buf))"

section \<open>What the decoding loops compute\<close>

fun unprint :: "bytes \<Rightarrow> bytes option" where
  "unprint [] = Some []"
| "unprint (x # r) =
     (if x \<noteq> BACKSLASH then map_option (Cons x) (unprint r)
      else
        (case r of
           [] \<Rightarrow> None
         | y # r' \<Rightarrow>
             if y = BACKSLASH then map_option (Cons x) (unprint r')
             else
               (case r' of
                  [] \<Rightarrow> None
                | z # r'' \<Rightarrow>
                    if isxdigit y \<and> isxdigit z then map_option (Cons (of_nat (unhex y z))) (unprint r'') else None)))"

fun unhexs :: "bytes \<Rightarrow> bytes option" where
  "unhexs [] = Some []"
| "unhexs [x] = None"
| "unhexs (x # y # r) =
     (if isxdigit x \<and> isxdigit y then map_option (Cons (of_nat (unhex x y))) (unhexs r) else None)"

lemma slice_Cons: "a < length p \<Longrightarrow> slice p a (Suc n) = p ! a # slice p (Suc a) n"
  by (simp add: slice_def Cons_nth_drop_Suc [symmetric])

lemma slice_upd_before: "i < a \<Longrightarrow> slice (p[i := x]) a n = slice p a n"
  by (simp add: slice_def drop_update_cancel)

lemma splice_Cons: "a + Suc (length out) \<le> length p \<Longrightarrow> splice (p[a := x]) (Suc a) out = splice p a (x # out)"
  by (rule nth_equalityI) (auto simp: nth_splice nth_Cons' nth_list_update)

definition decoded :: "bytes \<Rightarrow> nat \<Rightarrow> nat \<Rightarrow> bytes option \<Rightarrow> (bytes \<times> nat) option option \<Rightarrow> bool" where
  "decoded buf c1 n out res \<longleftrightarrow>
     (case out of
        None \<Rightarrow> res = Some None
      | Some out \<Rightarrow> res = Some (Some (splice buf c1 out, c1 + length out)) \<and> length out \<le> n)"

lemma decoded_step:
  "decoded (buf[c1 := x]) (Suc c1) (e - k) out res \<Longrightarrow> c2 < k \<Longrightarrow> k \<le> e \<Longrightarrow> c1 \<le> c2 \<Longrightarrow> e < length buf \<Longrightarrow>
    decoded buf c1 (e - c2) (map_option (Cons x) out) res"
  using splice_Cons [of c1 "the out" buf x] by (auto simp: decoded_def split: option.splits)

lemma slice_split:
  "c2 < e \<Longrightarrow> e < length buf \<Longrightarrow> slice buf c2 (e - c2) = buf ! c2 # slice buf (Suc c2) (e - Suc c2)"
  using slice_Cons [of c2 buf "e - Suc c2"] by (simp add: Suc_diff_Suc)

lemma decode_print_ref:
  "c1 \<le> c2 \<Longrightarrow> c2 \<le> e \<Longrightarrow> e < length buf \<Longrightarrow> buf ! e = 0 \<Longrightarrow>
    decoded buf c1 (e - c2) (unprint (slice buf c2 (e - c2))) (decode_print buf c1 c2 e)"
proof (induction buf c1 c2 e rule: decode_print.induct)
  case (1 buf c1 c2 e)
  show ?case
  proof (cases "c2 < e")
    case False
    then show ?thesis using 1(4-7) by (subst decode_print.simps) (simp add: decoded_def splice_def)
  next
    case True
    let ?x = "buf ! c2" and ?y = "buf ! Suc c2" and ?z = "buf ! Suc (Suc c2)"
    have g: "aget buf c2 = Some ?x" "aget buf (c2 + 1) = Some ?y" using True 1(6) by simp_all
    have s: "slice buf c2 (e - c2) = ?x # slice buf (Suc c2) (e - Suc c2)" by (rule slice_split [OF True 1(6)])
    have c1: "c1 < length buf" "c1 < e" using True 1(4,6) by simp_all
    show ?thesis
    proof (cases "?x = BACKSLASH")
      case x: False
      have "decoded (buf[c1 := ?x]) (Suc c1) (e - Suc c2) (unprint (slice buf (Suc c2) (e - Suc c2)))
          (decode_print (buf[c1 := ?x]) (c1 + 1) (c2 + 1) e)"
        using 1(3) [OF True g(1) x aset_in [OF c1(1)]] 1(4-7) True c1 by (simp add: slice_upd_before)
      then have "decoded buf c1 (e - c2) (map_option (Cons ?x) (unprint (slice buf (Suc c2) (e - Suc c2))))
          (decode_print (buf[c1 := ?x]) (c1 + 1) (c2 + 1) e)"
        by (rule decoded_step) (use True 1(4,6) in simp_all)
      then show ?thesis using True g x c1 s by (subst decode_print.simps) simp
    next
      case x: True
      show ?thesis
      proof (cases "?y = BACKSLASH")
        case y: True
        have ne: "Suc c2 < e" using y 1(7) True by (cases "Suc c2 = e") auto
        have "decoded (buf[c1 := ?x]) (Suc c1) (e - Suc (Suc c2)) (unprint (slice buf (Suc (Suc c2)) (e - Suc (Suc c2))))
            (decode_print (buf[c1 := ?x]) (c1 + 1) (c2 + 2) e)"
          using 1(1) [OF True g(1) x g(2) y aset_in [OF c1(1)]] 1(4-7) ne c1 by (simp add: slice_upd_before)
        then have "decoded buf c1 (e - c2) (map_option (Cons ?x) (unprint (slice buf (Suc (Suc c2)) (e - Suc (Suc c2)))))
            (decode_print (buf[c1 := ?x]) (c1 + 1) (c2 + 2) e)"
          by (rule decoded_step) (use ne 1(4,6) in simp_all)
        then show ?thesis using True g x y c1 s slice_split [OF ne 1(6)] by (subst decode_print.simps) simp
      next
        case y: False
        show ?thesis
        proof (cases "c2 + 3 > e")
          case short: True
          have "unprint (slice buf c2 (e - c2)) = None"
          proof (cases "Suc c2 < e")
            case True
            then have "e - Suc (Suc c2) = 0" using short by simp
            then show ?thesis using s x y slice_split [OF True 1(6)] by simp
          qed (use s x in simp)
          then show ?thesis using True g x y short by (subst decode_print.simps) (simp add: decoded_def)
        next
          case long: False
          have g3: "aget buf (c2 + 2) = Some ?z" using long 1(6) by simp
          have s3: "slice buf (Suc c2) (e - Suc c2) = ?y # ?z # slice buf (Suc (Suc (Suc c2))) (e - Suc (Suc (Suc c2)))"
            using long 1(6) by (simp add: slice_split)
          show ?thesis
          proof (cases "isxdigit ?y \<and> isxdigit ?z")
            case False
            then show ?thesis using True g g3 x y long s s3 by (subst decode_print.simps) (auto simp: decoded_def)
          next
            case d: True
            let ?v = "of_nat (unhex ?y ?z) :: u8"
            have "decoded (buf[c1 := ?v]) (Suc c1) (e - (c2 + 3)) (unprint (slice buf (c2 + 3) (e - (c2 + 3))))
                (decode_print (buf[c1 := ?v]) (c1 + 1) (c2 + 3) e)"
              using 1(2) [OF True g(1) x g(2) y long g3 _ aset_in [OF c1(1)]] d 1(4-7) long c1 by (simp add: slice_upd_before)
            then have "decoded buf c1 (e - c2) (map_option (Cons ?v) (unprint (slice buf (c2 + 3) (e - (c2 + 3)))))
                (decode_print (buf[c1 := ?v]) (c1 + 1) (c2 + 3) e)"
              by (rule decoded_step) (use long 1(4,6) in simp_all)
            then show ?thesis using True g g3 x y long c1 s s3 d
              by (subst decode_print.simps) (simp add: numeral_3_eq_3)
          qed
        qed
      qed
    qed
  qed
qed

lemma decode_bytes_ref:
  "c1 \<le> c2 \<Longrightarrow> c2 \<le> e \<Longrightarrow> e < length buf \<Longrightarrow> even (e - c2) \<Longrightarrow>
    decoded buf c1 (e - c2) (unhexs (slice buf c2 (e - c2))) (decode_bytes buf c1 c2 e)"
proof (induction buf c1 c2 e rule: decode_bytes.induct)
  case (1 buf c1 c2 e)
  show ?case
  proof (cases "c2 < e")
    case False
    then show ?thesis using 1(2-5) by (subst decode_bytes.simps) (simp add: decoded_def splice_def)
  next
    case True
    let ?x = "buf ! c2" and ?y = "buf ! Suc c2"
    have ne: "Suc c2 < e" using True 1(5) by (cases "e = Suc c2") auto
    have g: "aget buf c2 = Some ?x" "aget buf (c2 + 1) = Some ?y" using True 1(4) by simp_all
    have s: "slice buf c2 (e - c2) = ?x # ?y # slice buf (Suc (Suc c2)) (e - Suc (Suc c2))"
      using slice_split [OF True 1(4)] slice_split [OF ne 1(4)] by simp
    have c1: "c1 < length buf" using True 1(2,4) by simp
    show ?thesis
    proof (cases "isxdigit ?x \<and> isxdigit ?y")
      case False
      then show ?thesis using True g s by (subst decode_bytes.simps) (auto simp: decoded_def)
    next
      case d: True
      let ?v = "of_nat (unhex ?x ?y) :: u8"
      have "even (e - (c2 + 2))" using 1(5) ne by simp
      then have "decoded (buf[c1 := ?v]) (Suc c1) (e - Suc (Suc c2)) (unhexs (slice buf (Suc (Suc c2)) (e - Suc (Suc c2))))
          (decode_bytes (buf[c1 := ?v]) (c1 + 1) (c2 + 2) e)"
        using 1(1) [OF True g _ aset_in [OF c1]] d 1(2-5) ne by (simp add: slice_upd_before)
      then have "decoded buf c1 (e - c2) (map_option (Cons ?v) (unhexs (slice buf (Suc (Suc c2)) (e - Suc (Suc c2)))))
          (decode_bytes (buf[c1 := ?v]) (c1 + 1) (c2 + 2) e)"
        by (rule decoded_step) (use ne 1(2,4) in simp_all)
      then show ?thesis using True g c1 s d by (subst decode_bytes.simps) simp
    qed
  qed
qed

section \<open>Decoding what was printed\<close>

lemma hexc_facts:
  "n < 16 \<Longrightarrow> isxdigit (hexc ! n) \<and> hexc ! n \<noteq> BACKSLASH \<and> hexc ! n \<noteq> NEWLINE \<and> hexc ! n \<noteq> 0"
  "a < 16 \<Longrightarrow> b < 16 \<Longrightarrow> unhex (hexc ! a) (hexc ! b) = 16 * a + b"
proof -
  have "\<forall>n \<in> set [0..<16]. isxdigit (hexc ! n) \<and> hexc ! n \<noteq> BACKSLASH \<and> hexc ! n \<noteq> NEWLINE \<and> hexc ! n \<noteq> 0"
    by (simp add: upt_rec hexc_def lit_def isxdigit_def)
  then show "n < 16 \<Longrightarrow> isxdigit (hexc ! n) \<and> hexc ! n \<noteq> BACKSLASH \<and> hexc ! n \<noteq> NEWLINE \<and> hexc ! n \<noteq> 0" by simp
  have "\<forall>n \<in> set [0..<16]. (let x = unat (hexc ! n AND 0x4f) in if x AND 0x40 \<noteq> 0 then x - 55 else x) = n"
    by (simp add: upt_rec hexc_def lit_def)
  then have nib: "(let x = unat (hexc ! n AND 0x4f) in if x AND 0x40 \<noteq> 0 then x - 55 else x) = n" if "n < 16" for n
    using that by simp
  show "unhex (hexc ! a) (hexc ! b) = 16 * a + b" if "a < 16" "b < 16"
  proof -
    have b: "take_bit 4 b = b" using that(2) by (simp add: take_bit_nat_eq_self)
    have "push_bit 4 a AND take_bit 4 b = 0" by (rule bit_eqI) (auto simp: bit_simps)
    then have "push_bit 4 a OR b = push_bit 4 a + b" unfolding b by (rule disjunctive_add_eq_or [symmetric])
    then show ?thesis using nib [OF that(1)] nib [OF that(2)]
      by (simp add: unhex_def Let_def push_bit_eq_mult)
  qed
qed

lemma nibbles:
  "unat (drop_bit 4 c) < 16" "unat (c AND 0xf) < 16" "of_nat (16 * unat (drop_bit 4 c) + unat (c AND 0xf)) = (c :: u8)"
proof -
  have d: "unat (drop_bit 4 c) = unat c div 16" unfolding unat_drop_bit_eq using drop_bit_eq_div [of 4 "unat c"] by simp
  have m: "unat (c AND 0xf) = unat c mod 16"
  proof -
    have "c AND 0xf = take_bit 4 c" by (simp add: take_bit_eq_mask mask_eq_exp_minus_1)
    then have "unat (c AND 0xf) = unat (take_bit 4 c)" by (rule arg_cong)
    also have "\<dots> = unat c mod 16" unfolding unsigned_take_bit_eq using take_bit_eq_mod [of 4 "unat c"] by simp
    finally show ?thesis .
  qed
  show "unat (drop_bit 4 c) < 16" "unat (c AND 0xf) < 16" using d m unat_byte [of c] by simp_all
  have s: "16 * unat (drop_bit 4 c) + unat (c AND 0xf) = unat c" unfolding d m by simp
  show "of_nat (16 * unat (drop_bit 4 c) + unat (c AND 0xf)) = c" unfolding s by simp
qed

lemma hex_facts:
  "\<exists>a b. hex c = [a, b] \<and> isxdigit a \<and> isxdigit b \<and> a \<noteq> BACKSLASH \<and>
    a \<noteq> NEWLINE \<and> b \<noteq> NEWLINE \<and> a \<noteq> 0 \<and> b \<noteq> 0 \<and> of_nat (unhex a b) = c"
proof -
  have "of_nat (unhex (hexc ! unat (drop_bit 4 c)) (hexc ! unat (c AND 0xf))) = c"
    unfolding hexc_facts(2) [OF nibbles(1,2)] by (rule nibbles(3))
  then show ?thesis
    using hexc_facts(1) [OF nibbles(1) [of c]] hexc_facts(1) [OF nibbles(2) [of c]] unfolding hex_def by blast
qed

lemma unprint_text: "unprint (concat (map text_char v)) = Some v"
proof (induction v)
  case (Cons c v)
  obtain a b where h: "hex c = [a, b]" "isxdigit a" "isxdigit b" "a \<noteq> BACKSLASH" "of_nat (unhex a b) = c"
    using hex_facts by blast
  consider "isprint c" "c = BACKSLASH" | "isprint c" "c \<noteq> BACKSLASH" | "\<not> isprint c" by blast
  then show ?case
  proof cases
    case 1
    then show ?thesis using Cons by (simp add: text_char_def)
  next
    case 2
    then show ?thesis using Cons by (simp add: text_char_def)
  next
    case 3
    then have "concat (map text_char (c # v)) = BACKSLASH # a # b # concat (map text_char v)"
      by (simp add: text_char_def h(1))
    then show ?thesis using Cons h(2-5) by (simp del: map_eq_Cons_conv)
  qed
qed simp

lemma unhexs_bytes: "unhexs (concat (map hex v)) = Some v"
proof (induction v)
  case (Cons c v)
  obtain a b where h: "hex c = [a, b]" "isxdigit a" "isxdigit b" "of_nat (unhex a b) = c" using hex_facts by blast
  then show ?case using Cons by simp
qed simp

lemma line_chars:
  "NEWLINE \<notin> set (concat (map text_char v)) \<and> 0 \<notin> set (concat (map text_char v))"
  "NEWLINE \<notin> set (concat (map hex v)) \<and> 0 \<notin> set (concat (map hex v))" "even (length (concat (map hex v)))"
proof -
  have h: "NEWLINE \<notin> set (hex c) \<and> 0 \<notin> set (hex c)" "length (hex c) = 2" for c
    using hex_facts [of c] by auto
  then show "NEWLINE \<notin> set (concat (map hex v)) \<and> 0 \<notin> set (concat (map hex v))" by auto
  have "NEWLINE \<notin> set (text_char c) \<and> 0 \<notin> set (text_char c)" for c
    using h(1) [of c] by (auto simp: text_char_def isprint_def)
  then show "NEWLINE \<notin> set (concat (map text_char v)) \<and> 0 \<notin> set (concat (map text_char v))" by auto
  show "even (length (concat (map hex v)))" by (induction v) (simp_all add: h(2))
qed

section \<open>Reading a whole line\<close>

text \<open>The buffer holds the string \<open>s\<close>, and its terminating NUL, from its start.\<close>

definition holds :: "bytes \<Rightarrow> bytes \<Rightarrow> bool" where
  "holds buf s \<longleftrightarrow> length s < length buf \<and> take (length s) buf = s \<and> buf ! length s = 0 \<and> 0 \<notin> set s"

lemma fgets_line:
  "NEWLINE \<notin> set s \<Longrightarrow> fgets_chars n (s @ NEWLINE # rest) =
    (if length s < n then (s @ [NEWLINE], rest) else (take n s, drop n s @ NEWLINE # rest))"
proof (induction s arbitrary: n)
  case Nil
  then show ?case by (cases n) auto
next
  case (Cons c s)
  then show ?case by (cases n) auto
qed

lemma holds_splice:
  "0 \<notin> set pre \<Longrightarrow> 0 \<notin> set l \<Longrightarrow> take (length pre) buf = pre \<Longrightarrow> length pre + length l < length buf \<Longrightarrow>
    holds (splice buf (length pre) (l @ [0])) (pre @ l)"
  by (auto simp: holds_def splice_def nth_append min_def)

lemma holds_strlen: "holds buf (pre @ l) \<Longrightarrow> strlen buf (length pre) = length l"
proof -
  assume h: "holds buf (pre @ l)"
  let ?n = "length (pre @ l)"
  have 1: "take ?n buf = pre @ l" "drop ?n buf = 0 # drop (Suc ?n) buf"
    using h Cons_nth_drop_Suc [of ?n buf] by (auto simp: holds_def)
  have "buf = take ?n buf @ drop ?n buf" by simp
  then have "buf = pre @ l @ 0 # drop (Suc ?n) buf" by (simp only: 1 append_assoc)
  then obtain r where "buf = pre @ l @ 0 # r" by blast
  then show ?thesis using h by (auto simp: strlen_def holds_def takeWhile_append)
qed

lemma read_more_line:
  assumes mem: "\<And>n. \<exists>new. realloc (2 * n) = Some new \<and> length new = n"
  shows "holds buf (pre @ l) \<Longrightarrow> pre @ l \<noteq> [] \<Longrightarrow> NEWLINE \<notin> set (pre @ l) \<Longrightarrow> NEWLINE \<notin> set s \<Longrightarrow> 0 \<notin> set s \<Longrightarrow>
    ld_stdin ld = s @ NEWLINE # rest \<Longrightarrow>
    \<exists>buf'. read_more realloc ld buf (length pre) (length l) =
      Some (Some (length (pre @ l @ s @ [NEWLINE]), buf'), ld\<lparr>ld_stdin := rest\<rparr>) \<and>
      holds buf' (pre @ l @ s @ [NEWLINE]) \<and> length buf \<le> length buf'"
proof (induction "length s" arbitrary: buf pre l s ld rule: less_induct)
  case less
  let ?p = "pre @ l" and ?n = "length buf"
  have ne: "length pre + length l \<noteq> 0" using less.prems(2) by simp
  have lastc: "buf ! (length pre + length l - 1) \<noteq> NEWLINE" "length pre + length l - 1 < ?n"
  proof -
    have i: "length pre + length l - 1 < length ?p" using ne by simp
    then have "buf ! (length pre + length l - 1) = ?p ! (length pre + length l - 1)"
      using less.prems(1) nth_take [OF i, of buf] by (simp add: holds_def)
    then show "buf ! (length pre + length l - 1) \<noteq> NEWLINE" using nth_mem [OF i] less.prems(3) by metis
    show "length pre + length l - 1 < ?n" using less.prems(1) by (auto simp: holds_def)
  qed
  obtain new where new: "realloc (?n * 2) = Some new" "length new = ?n" using mem [of ?n] by (auto simp: mult.commute)
  have n0: "0 < ?n" "length ?p < ?n" using less.prems(1) by (auto simp: holds_def)
  have tk: "take (length ?p) (buf @ new) = ?p" using less.prems(1) by (simp add: holds_def)
  define k where "k = (if length s < ?n then s @ [NEWLINE] else take ?n s)"
  define r where "r = (if length s < ?n then rest else drop ?n s @ NEWLINE # rest)"
  have fl: "fgets_chars ?n (ld_stdin ld) = (k, r)"
    using fgets_line [OF less.prems(4)] less.prems(6) by (simp add: k_def r_def)
  have k: "length k \<le> ?n" "0 \<notin> set k" using less.prems(5) by (auto simp: k_def dest: in_set_takeD)
  let ?b = "splice (buf @ new) (length ?p) (k @ [0])"
  have fit: "length ?p + length k < length (buf @ new)" using k(1) n0 new(2) by simp
  have hb: "holds ?b (?p @ k)"
    by (rule holds_splice) (use less.prems(1) k(2) tk fit in \<open>simp_all add: holds_def\<close>)
  have fg: "fgets (buf @ new) (length ?p) (?n + 1) (ld_stdin ld) = Some (Some (?b, r))"
    using fl less.prems(6) fit by (simp add: fgets_def put_bytes_def)
  have sl: "strlen ?b (length ?p) = length k" by (rule holds_strlen [OF hb])
  have run: "read_more realloc ld buf (length pre) (length l) =
      read_more realloc (ld\<lparr>ld_stdin := r\<rparr>) ?b (length ?p) (length k)"
    using ne lastc new fg sl by (subst read_more.simps) (auto simp: Let_def)
  have lb: "length ?b = 2 * ?n" using fit new(2) by simp
  show ?case
  proof (cases "length s < ?n")
    case True
    have i: "length ?p + length s < length (?p @ k)" using True by (simp add: k_def)
    have "?b ! (length ?p + length s) = NEWLINE"
    proof -
      have "?b ! (length ?p + length s) = (?p @ k) ! (length ?p + length s)"
        using hb nth_take [OF i, of ?b] by (simp add: holds_def)
      then show ?thesis using True by (simp add: k_def nth_append)
    qed
    then have "read_more realloc (ld\<lparr>ld_stdin := r\<rparr>) ?b (length ?p) (length k) =
        Some (Some (length (pre @ l @ s @ [NEWLINE]), ?b), ld\<lparr>ld_stdin := rest\<rparr>)"
      using True fit lb n0 by (subst read_more.simps) (simp add: k_def r_def)
    then show ?thesis using run hb True lb by (auto simp: k_def)
  next
    case False
    have ks: "k = take ?n s" "r = drop ?n s @ NEWLINE # rest" using False by (simp_all add: k_def r_def)
    have "\<exists>buf'. read_more realloc (ld\<lparr>ld_stdin := r\<rparr>) ?b (length ?p) (length k) =
        Some (Some (length (?p @ k @ drop ?n s @ [NEWLINE]), buf'), (ld\<lparr>ld_stdin := r\<rparr>)\<lparr>ld_stdin := rest\<rparr>) \<and>
        holds buf' (?p @ k @ drop ?n s @ [NEWLINE]) \<and> length ?b \<le> length buf'"
    proof (rule less.hyps [of "drop ?n s" ?b ?p k "ld\<lparr>ld_stdin := r\<rparr>"])
      show "length (drop ?n s) < length s" using False n0 by simp
    qed (use hb less.prems ks in \<open>auto dest: in_set_takeD in_set_dropD\<close>)
    moreover have "k @ drop ?n s @ [NEWLINE] = s @ [NEWLINE]" using ks(1) by simp
    ultimately show ?thesis using run lb by auto
  qed
qed

text \<open>A printed value, in the mode it was printed in.\<close>

definition print_val :: "u32 \<Rightarrow> bytes \<Rightarrow> bytes" where
  "print_val mode v = (if mode AND PRINT \<noteq> 0 then text_val v else byte_val v)"

lemma readline_text_line:
  assumes mem: "\<And>n. \<exists>new. realloc (2 * n) = Some new \<and> length new = n"
    and inp: "ld_stdin ld = s @ NEWLINE # rest" "NEWLINE \<notin> set s" "0 \<notin> set s" and buf: "1 < length buf"
    and dec: "(if ld_mode ld AND PRINT \<noteq> 0 then unprint s else unhexs s) = Some v"
    and even: "ld_mode ld AND PRINT = 0 \<Longrightarrow> even (length s)"
  shows "\<exists>buf'. readline_text realloc ld buf =
      Some (0, v, buf', ld\<lparr>ld_lineno := ld_lineno ld + 1, ld_stdin := rest\<rparr>) \<and> length buf \<le> length buf'"
proof -
  let ?n = "length buf"
  define k where "k = (if length s < ?n - 1 then s @ [NEWLINE] else take (?n - 1) s)"
  define r where "r = (if length s < ?n - 1 then rest else drop (?n - 1) s @ NEWLINE # rest)"
  define s2 where "s2 = (if length s < ?n - 1 then [] else drop (?n - 1) s)"
  have fl: "fgets_chars (?n - 1) (ld_stdin ld) = (k, r)"
    using fgets_line [OF inp(2)] inp(1) by (simp add: k_def r_def)
  have k: "length k \<le> ?n - 1" "0 \<notin> set k" using inp(3) by (auto simp: k_def dest: in_set_takeD)
  let ?b = "splice buf 0 (k @ [0])" and ?ld = "ld\<lparr>ld_lineno := ld_lineno ld + 1, ld_stdin := r\<rparr>"
  have hb: "holds ?b k" using holds_splice [of "[]" k buf] k buf by simp
  have fg: "fgets buf 0 ?n (ld_stdin ld) = Some (Some (?b, r))"
    using fl inp(1) k(1) buf by (simp add: fgets_def put_bytes_def)
  have sl: "strlen ?b 0 = length k" using holds_strlen [of ?b "[]" k] hb by simp
  have lb: "length ?b = ?n" using k(1) buf by simp
  have "\<exists>b. read_more realloc ?ld ?b 0 (length k) = Some (Some (Suc (length s), b), ?ld\<lparr>ld_stdin := rest\<rparr>) \<and>
      holds b (s @ [NEWLINE]) \<and> ?n \<le> length b"
  proof (cases "length s < ?n - 1")
    case True
    have "?b ! length s = NEWLINE" using True by (simp add: k_def nth_splice)
    then show ?thesis using True hb lb
      by (intro exI [of _ ?b]) (subst read_more.simps, simp add: k_def r_def)
  next
    case False
    have "\<exists>b. read_more realloc ?ld ?b (length ([] :: bytes)) (length k) =
        Some (Some (length ([] @ k @ s2 @ [NEWLINE]), b), ?ld\<lparr>ld_stdin := rest\<rparr>) \<and>
        holds b ([] @ k @ s2 @ [NEWLINE]) \<and> length ?b \<le> length b"
      by (rule read_more_line [OF mem])
        (use hb False inp buf in \<open>auto simp: k_def r_def s2_def dest: in_set_takeD in_set_dropD\<close>)
    moreover have "k @ s2 @ [NEWLINE] = s @ [NEWLINE]" using False by (simp add: k_def s2_def)
    ultimately show ?thesis using lb by auto
  qed
  then obtain b where b: "read_more realloc ?ld ?b 0 (length k) = Some (Some (Suc (length s), b), ?ld\<lparr>ld_stdin := rest\<rparr>)"
    "holds b (s @ [NEWLINE])" "?n \<le> length b" by blast
  let ?e = "length s" and ?c = "b[length s := 0]"
  have e: "?e < length b" using b(2) by (simp add: holds_def)
  have "take (Suc ?e) b = s @ [NEWLINE]" using b(2) by (simp add: holds_def)
  then have "take ?e (take (Suc ?e) b) = take ?e (s @ [NEWLINE])" by (rule arg_cong)
  then have "take ?e b = s" by (simp add: min_def)
  then have s: "slice ?c 0 ?e = s" by (simp add: slice_def)
  have "decoded ?c 0 ?e (Some v) (if ld_mode ld AND PRINT \<noteq> 0 then decode_print ?c 0 0 ?e else decode_bytes ?c 0 0 ?e)"
    using decode_print_ref [of 0 0 ?e ?c] decode_bytes_ref [of 0 0 ?e ?c] e s dec even by (auto split: if_splits)
  then have d: "(if ld_mode ld AND PRINT \<noteq> 0 then decode_print ?c 0 0 ?e else decode_bytes ?c 0 0 ?e) =
      Some (Some (splice ?c 0 v, length v))" "length v \<le> ?e" by (simp_all add: decoded_def)
  have "(if ld_mode ld AND PRINT \<noteq> 0 then decode_print ?c 0 0 ?e else if odd ?e then Some None else decode_bytes ?c 0 0 ?e) =
      Some (Some (splice ?c 0 v, length v))" using d(1) even by (auto split: if_splits)
  then show ?thesis using fg sl b e d(2)
    by (intro exI [of _ "splice ?c 0 v"]) (simp add: readline_text_def splice_def)
qed

lemma readline_print_val_eq:
  assumes "\<And>n. \<exists>new. realloc (2 * n) = Some new \<and> length new = n"
    and "ld_stdin ld = print_val (ld_mode ld) v @ rest" "ld_mode ld AND NOHDR = 0" "1 < length buf"
  shows "\<exists>buf'. readline realloc ld buf =
      Some (0, v, buf', ld\<lparr>ld_lineno := ld_lineno ld + 1, ld_stdin := rest\<rparr>) \<and> length buf \<le> length buf'"
proof -
  let ?s = "if ld_mode ld AND PRINT \<noteq> 0 then concat (map text_char v) else concat (map hex v)"
  have inp: "ld_stdin ld = SPACE # ?s @ NEWLINE # rest" using assms(2) by (simp add: print_val_def text_val_def byte_val_def)
  have "readline realloc ld buf = readline_text realloc (ld\<lparr>ld_stdin := ?s @ NEWLINE # rest\<rparr>) buf"
    using assms(3) inp by (simp add: readline_def)
  then show ?thesis
    using readline_text_line [OF assms(1), of "ld\<lparr>ld_stdin := ?s @ NEWLINE # rest\<rparr>" ?s rest buf v]
      line_chars [of v] unprint_text [of v] unhexs_bytes [of v] assms(4) by (simp split: if_splits)
qed



end
