(* ===== verification/Info.thy ===== *)
theory Info
  imports Cursor_Get Text_Format
begin

text \<open>
  The functions that report on an environment, a database or a cursor, that set flags and
  comparison functions, and \<open>mdb_strerror\<close>. An output argument is part of the result, \<open>None\<close>
  when the function does not store it.
\<close>

section \<open>Error messages\<close>

definition mdb_errstr :: "string list" where
  "mdb_errstr = [
     ''MDB_KEYEXIST: Key/data pair already exists'',
     ''MDB_NOTFOUND: No matching key/data pair found'',
     ''MDB_PAGE_NOTFOUND: Requested page not found'',
     ''MDB_CORRUPTED: Located page was wrong type'',
     ''MDB_PANIC: Update of meta page failed or environment had fatal error'',
     ''MDB_VERSION_MISMATCH: Database environment version mismatch'',
     ''MDB_INVALID: File is not an LMDB file'',
     ''MDB_MAP_FULL: Environment mapsize limit reached'',
     ''MDB_DBS_FULL: Environment maxdbs limit reached'',
     ''MDB_READERS_FULL: Environment maxreaders limit reached'',
     ''MDB_TLS_FULL: Thread-local storage keys full - too many environments open'',
     ''MDB_TXN_FULL: Transaction has too many dirty pages - transaction too big'',
     ''MDB_CURSOR_FULL: Internal error - cursor stack limit reached'',
     ''MDB_PAGE_FULL: Internal error - page has no more space'',
     ''MDB_MAP_RESIZED: Database contents grew beyond environment mapsize'',
     ''MDB_INCOMPATIBLE: Operation and DB incompatible, or DB flags changed'',
     ''MDB_BAD_RSLOT: Invalid reuse of reader locktable slot'',
     ''MDB_BAD_TXN: Transaction must abort, has a child, or is invalid'',
     ''MDB_BAD_VALSIZE: Unsupported size of key/DB name/data, or wrong DUPFIXED size'',
     ''MDB_BAD_DBI: The specified DBI handle was closed/changed unexpectedly'',
     ''MDB_PROBLEM: Unexpected problem - txn should abort'']"

definition MDB_LAST_ERRCODE :: int where "MDB_LAST_ERRCODE = MDB_PROBLEM"

text \<open>\<open>strerror\<close> is the platform's.\<close>

definition mdb_strerror :: "(int \<Rightarrow> string) \<Rightarrow> int \<Rightarrow> string option" where
  "mdb_strerror strerror err =
     (if err = 0 then Some ''Successful return: 0''
      else if err \<ge> MDB_KEYEXIST \<and> err \<le> MDB_LAST_ERRCODE then aget mdb_errstr (nat (err - MDB_KEYEXIST))
      else if err < 0 then Some ''Invalid error code''
      else Some (strerror err))"

text \<open>Every error code of the library has a message of its own, and none lies outside the table: the
  message of \<open>err\<close> starts with a name that no other code's message starts with.\<close>

lemma strerror_own_messages:
  assumes "MDB_KEYEXIST \<le> e1" "e1 \<le> MDB_LAST_ERRCODE" "MDB_KEYEXIST \<le> e2" "e2 \<le> MDB_LAST_ERRCODE"
  shows "\<exists>m1 m2. mdb_strerror strerror e1 = Some m1 \<and> mdb_strerror strerror e2 = Some m2 \<and>
    (takeWhile (\<lambda>c. c \<noteq> CHR '':'') m1 = takeWhile (\<lambda>c. c \<noteq> CHR '':'') m2 \<longrightarrow> e1 = e2)"
proof -
  have n: "nat (e - MDB_KEYEXIST) < length mdb_errstr" "e \<noteq> 0" if "MDB_KEYEXIST \<le> e" "e \<le> MDB_LAST_ERRCODE" for e
    using that by (simp_all add: mdb_errstr_def MDB_LAST_ERRCODE_def rc_defs)
  have d: "distinct (map (takeWhile (\<lambda>c. c \<noteq> CHR '':'')) mdb_errstr)" by (simp add: mdb_errstr_def)
  have "e1 = e2" if "takeWhile (\<lambda>c. c \<noteq> CHR '':'') (mdb_errstr ! nat (e1 - MDB_KEYEXIST)) =
      takeWhile (\<lambda>c. c \<noteq> CHR '':'') (mdb_errstr ! nat (e2 - MDB_KEYEXIST))"
  proof -
    have "nat (e1 - MDB_KEYEXIST) = nat (e2 - MDB_KEYEXIST)"
      using that nth_eq_iff_index_eq [OF d, of "nat (e1 - MDB_KEYEXIST)" "nat (e2 - MDB_KEYEXIST)"] n assms by simp
    then show ?thesis using assms by simp
  qed
  then show ?thesis using n assms by (auto simp: mdb_strerror_def)
qed

section \<open>Statistics\<close>

record stat =
  ms_psize :: u32
  ms_depth :: u32
  ms_branch_pages :: u64
  ms_leaf_pages :: u64
  ms_overflow_pages :: u64
  ms_entries :: u64

record envinfo =
  inf_mapaddr :: u64
  inf_mapsize :: u64
  inf_last_pgno :: u64
  inf_last_txnid :: u64
  inf_maxreaders :: u32
  inf_numreaders :: u32

definition mdb_stat0 :: "env \<Rightarrow> db \<Rightarrow> int \<times> stat" where
  "mdb_stat0 env d = (MDB_SUCCESS, \<lparr>ms_psize = of_nat (me_psize env), ms_depth = ucast (md_depth d),
     ms_branch_pages = md_branch_pages d, ms_leaf_pages = md_leaf_pages d,
     ms_overflow_pages = md_overflow_pages d, ms_entries = md_entries d\<rparr>)"

definition mdb_env_stat :: "env \<Rightarrow> bytes \<Rightarrow> int \<times> stat" where
  "mdb_env_stat env file = mdb_stat0 env (mm_main_db (mdb_env_pick_meta env file))"

definition mdb_env_info :: "env \<Rightarrow> bytes \<Rightarrow> int \<times> envinfo" where
  "mdb_env_info env file = (
     let m = mdb_env_pick_meta env file in
     (MDB_SUCCESS, \<lparr>inf_mapaddr = mm_address m, inf_mapsize = me_mapsize env, inf_last_pgno = mm_last_pg m,
       inf_last_txnid = mm_txnid m, inf_maxreaders = of_nat (me_maxreaders env),
       inf_numreaders = (case me_txns env of Some t \<Rightarrow> of_nat (mti_numreaders t) | None \<Rightarrow> 0)\<rparr>))"

definition mdb_stat :: "'a st_scheme \<Rightarrow> nat \<Rightarrow> (int \<times> 'a st_scheme \<times> stat option) option" where
  "mdb_stat st dbi = do {
     exist \<leftarrow> TXN_DBI_EXIST (st_txn st) dbi DB_VALID;
     if \<not> exist then Some (EINVAL, st, None)
     else if has (mt_flags (st_txn st)) MDB_TXN_BLOCKED then Some (MDB_BAD_TXN, st, None)
     else do {
       f \<leftarrow> aget (mt_dbflags (st_txn st)) dbi;
       st \<leftarrow> (if has f DB_STALE then do {
            (st, _) \<leftarrow> mdb_cursor_init st raw_cursor dbi (Some raw_xcursor);
            Some st }
          else Some st);
       d \<leftarrow> aget (mt_dbs (st_txn st)) dbi;
       let (rc, s) = mdb_stat0 (st_env st) d;
       Some (rc, st, Some s) } }"

definition mdb_dbi_flags :: "txn \<Rightarrow> nat \<Rightarrow> (int \<times> u32 option) option" where
  "mdb_dbi_flags txn dbi = do {
     exist \<leftarrow> TXN_DBI_EXIST txn dbi DB_USRVALID;
     if \<not> exist then Some (EINVAL, None)
     else do {
       d \<leftarrow> aget (mt_dbs txn) dbi;
       Some (MDB_SUCCESS, Some (ucast (md_flags d AND PERSISTENT_FLAGS))) } }"

section \<open>Settings\<close>

definition MDB_NOSUBDIR :: u32 where "MDB_NOSUBDIR = 0x4000"

definition CHANGEABLE :: u32 where
  "CHANGEABLE = MDB_NOSYNC OR MDB_NOMETASYNC OR MDB_MAPASYNC OR MDB_NOMEMINIT"

definition CHANGELESS :: u32 where
  "CHANGELESS = MDB_FIXEDMAP OR MDB_NOSUBDIR OR MDB_RDONLY OR MDB_WRITEMAP OR MDB_NOTLS OR MDB_NOLOCK OR
     MDB_NORDAHEAD OR MDB_PREVSNAPSHOT"

definition mdb_env_set_flags :: "env \<Rightarrow> u32 \<Rightarrow> bool \<Rightarrow> int \<times> env" where
  "mdb_env_set_flags env flag onoff =
     (if has flag (NOT CHANGEABLE) then (EINVAL, env)
      else (MDB_SUCCESS, env\<lparr>me_flags := (if onoff then me_flags env OR flag else me_flags env AND NOT flag)\<rparr>))"

definition mdb_env_get_flags :: "env \<Rightarrow> int \<times> u32" where
  "mdb_env_get_flags env = (MDB_SUCCESS, me_flags env AND (CHANGEABLE OR CHANGELESS))"

definition ENV_MAXKEY :: nat where "ENV_MAXKEY = 511"

definition mdb_env_get_maxkeysize :: "env \<Rightarrow> nat" where
  "mdb_env_get_maxkeysize env = ENV_MAXKEY"

definition set_dbx :: "(dbx \<Rightarrow> dbx) \<Rightarrow> 'a st_scheme \<Rightarrow> nat \<Rightarrow> (int \<times> 'a st_scheme) option" where
  "set_dbx upd st dbi = do {
     exist \<leftarrow> TXN_DBI_EXIST (st_txn st) dbi DB_USRVALID;
     if \<not> exist then Some (EINVAL, st)
     else do {
       dx \<leftarrow> aget (me_dbxs (st_env st)) dbi;
       dxs \<leftarrow> aset (me_dbxs (st_env st)) dbi (upd dx);
       Some (MDB_SUCCESS, st\<lparr>st_env := (st_env st)\<lparr>me_dbxs := dxs\<rparr>\<rparr>) } }"

definition mdb_set_compare :: "'a st_scheme \<Rightarrow> nat \<Rightarrow> cmp_fn option \<Rightarrow> (int \<times> 'a st_scheme) option" where
  "mdb_set_compare st dbi cmp = set_dbx (\<lambda>dx. dx\<lparr>md_cmp := cmp\<rparr>) st dbi"

definition mdb_set_dupsort :: "'a st_scheme \<Rightarrow> nat \<Rightarrow> cmp_fn option \<Rightarrow> (int \<times> 'a st_scheme) option" where
  "mdb_set_dupsort st dbi cmp = set_dbx (\<lambda>dx. dx\<lparr>md_dcmp := cmp\<rparr>) st dbi"

definition mdb_dbi_close :: "env \<Rightarrow> nat \<Rightarrow> env option" where
  "mdb_dbi_close env dbi =
     (if dbi < CORE_DBS \<or> dbi \<ge> me_maxdbs env then Some env
      else do {
        dx \<leftarrow> aget (me_dbxs env) dbi;
        if md_name dx = None then Some env
        else do {
          dxs \<leftarrow> aset (me_dbxs env) dbi (dx\<lparr>md_name := None\<rparr>);
          fs \<leftarrow> aset (me_dbflags env) dbi 0;
          s \<leftarrow> aget (me_dbiseqs env) dbi;
          ss \<leftarrow> aset (me_dbiseqs env) dbi ((s + 1) mod 2 ^ 32);
          Some (env\<lparr>me_dbxs := dxs, me_dbflags := fs, me_dbiseqs := ss\<rparr>) } })"

section \<open>Cursors as the application opens them\<close>

definition MDB_TXN_RDONLY :: u32 where "MDB_TXN_RDONLY = MDB_RDONLY"

text \<open>
  Write transactions have \<open>mt_cursors\<close>, the lists of the cursors to keep up to date, read-only
  ones do not. \<open>ok\<close> says whether \<open>malloc\<close> succeeds.
\<close>

definition mt_cursors :: "txn \<Rightarrow> bool" where
  "mt_cursors txn \<longleftrightarrow> \<not> has (mt_flags txn) MDB_TXN_RDONLY"

definition mdb_cursor_open ::
    "bool \<Rightarrow> 'a st_scheme \<Rightarrow> nat \<Rightarrow> (int \<times> 'a st_scheme \<times> mcursor option) option" where
  "mdb_cursor_open ok st dbi = do {
     exist \<leftarrow> TXN_DBI_EXIST (st_txn st) dbi DB_VALID;
     if \<not> exist then Some (EINVAL, st, None)
     else if has (mt_flags (st_txn st)) MDB_TXN_BLOCKED then Some (MDB_BAD_TXN, st, None)
     else if dbi = FREE_DBI \<and> \<not> F_ISSET (mt_flags (st_txn st)) MDB_TXN_RDONLY then Some (EINVAL, st, None)
     else if \<not> ok then Some (ENOMEM, st, None)
     else do {
       (st, mc, mx) \<leftarrow> mdb_cursor_init st raw_cursor dbi (Some raw_xcursor);
       let mc = (if mt_cursors (st_txn st) then mc\<lparr>mc_flags := mc_flags mc OR C_UNTRACK\<rparr> else mc);
       Some (MDB_SUCCESS, st, Some (mc, mx)) } }"

definition mdb_cursor_renew :: "'a st_scheme \<Rightarrow> mcursor \<Rightarrow> (int \<times> 'a st_scheme \<times> mcursor) option" where
  "mdb_cursor_renew st m = do {
     exist \<leftarrow> TXN_DBI_EXIST (st_txn st) (mc_dbi (fst m)) DB_VALID;
     if \<not> exist then Some (EINVAL, st, m)
     else if has (mc_flags (fst m)) C_UNTRACK \<or> mt_cursors (st_txn st) then Some (EINVAL, st, m)
     else if has (mt_flags (st_txn st)) MDB_TXN_BLOCKED then Some (MDB_BAD_TXN, st, m)
     else do {
       (st, m) \<leftarrow> mdb_cursor_init st (fst m) (mc_dbi (fst m)) (snd m);
       Some (MDB_SUCCESS, st, m) } }"

definition mdb_cursor_count :: "'a st_scheme \<Rightarrow> mcursor \<Rightarrow> (int \<times> mcursor \<times> u64 option) option" where
  "mdb_cursor_count st m =
     (case m of
        (mc, None) \<Rightarrow> Some (MDB_INCOMPATIBLE, m, None)
      | (mc, Some mx) \<Rightarrow>
          if has (mt_flags (st_txn st)) MDB_TXN_BLOCKED then Some (MDB_BAD_TXN, m, None)
          else if \<not> has_init mc then Some (EINVAL, m, None)
          else if mc_snum mc = 0 then Some (MDB_NOTFOUND, m, None)
          else do {
            mp \<leftarrow> top_page st mc;
            k \<leftarrow> ki_at mc;
            if has (mc_flags mc) C_EOF \<and> k \<ge> NUMKEYS mp then Some (MDB_NOTFOUND, m, None)
            else do {
              let m = (clear_flags C_EOF mc, Some mx);
              leaf \<leftarrow> NODEPTR mp k;
              isd \<leftarrow> is_dup mp leaf;
              if \<not> isd then Some (MDB_SUCCESS, m, Some 1)
              else if \<not> has_init mx then Some (EINVAL, m, None)
              else do {
                x \<leftarrow> mc_own mx;
                Some (MDB_SUCCESS, m, Some (md_entries (mx_db x))) } } })"

end
