(* ===== verification/Tree.thy ===== *)
theory Tree
  imports Cursor_Get
begin

text \<open>
  The B+tree that a root page number stands for, and what it holds. \<open>pg\<close> gives the bytes of
  a page by its number; \<open>tree_ok\<close> is the structural invariant of a tree of height \<open>d\<close> whose keys
  lie in \<open>[lo, hi)\<close>, \<open>items\<close> the key/value pairs in key order. A path is the list of the indices
  followed in the branch pages.
\<close>

section \<open>Pages as a transaction sees them\<close>

definition ro_flags :: "cursor \<Rightarrow> bool" where
  "ro_flags mc = has (mc_flags mc) (C_ORIG_RDONLY OR C_WRITEMAP)"

definition resolve :: "'a st_scheme \<Rightarrow> bool \<Rightarrow> u64 \<Rightarrow> page_ptr option" where
  "resolve st ro pgno =
     (case mdb_page_get st (raw_cursor\<lparr>mc_flags := if ro then C_ORIG_RDONLY else 0\<rparr>) pgno of
        Some (rc, st', Some (p, l)) \<Rightarrow> if rc = 0 then Some p else None
      | _ \<Rightarrow> None)"

definition see :: "'a st_scheme \<Rightarrow> bool \<Rightarrow> u64 \<Rightarrow> bytes option" where
  "see st ro pgno = do { p \<leftarrow> resolve st ro pgno; page_at st p }"

lemma page_get_cases:
  "mdb_page_get st mc pgno = None \<or>
   (\<exists>p l. mdb_page_get st mc pgno = Some (0, st, Some (p, l))) \<or>
   mdb_page_get st mc pgno = Some (MDB_PAGE_NOTFOUND, txn_error st, None)"
proof -
  let ?l = "if \<not> has (mc_flags mc) (C_ORIG_RDONLY OR C_WRITEMAP)
    then page_get_loop (st_txn st # st_parents st) pgno 1 else Some (Not_here, 0)"
  show ?thesis
  proof (cases ?l)
    case None
    show ?thesis unfolding mdb_page_get_def None by simp
  next
    case (Some x)
    obtain r l where x: "x = (r, l)" by (cases x)
    show ?thesis unfolding mdb_page_get_def Some x by (cases r) auto
  qed
qed

lemma page_get_flags:
  "ro_flags mc = ro_flags mc' \<Longrightarrow> mdb_page_get st mc pgno = mdb_page_get st mc' pgno"
  by (simp add: mdb_page_get_def ro_flags_def)

lemma resolve_get:
  "resolve st (ro_flags mc) pgno = Some p \<Longrightarrow> \<exists>l. mdb_page_get st mc pgno = Some (0, st, Some (p, l))"
proof -
  assume r: "resolve st (ro_flags mc) pgno = Some p"
  let ?m = "raw_cursor\<lparr>mc_flags := if ro_flags mc then C_ORIG_RDONLY else 0\<rparr>"
  have "ro_flags ?m = ro_flags mc"
    by (simp add: ro_flags_def has_def C_ORIG_RDONLY_def C_WRITEMAP_def env_flag_defs)
  then have "mdb_page_get st mc pgno = mdb_page_get st ?m pgno" by (intro page_get_flags) simp
  then show ?thesis using r page_get_cases [of st ?m pgno]
    by (auto simp: resolve_def split: if_splits)
qed

section \<open>Keys, values and children of a page\<close>

definition value_at :: "(u64 \<Rightarrow> bytes option) \<Rightarrow> bytes \<Rightarrow> nat \<Rightarrow> bytes option" where
  "value_at pg p i =
     (let n = pt p i; a = n + 8 + rd p (n + 6) 2; sz = rd p n 4 in
      if F_ISSET (of_nat (rd p (n + 4) 2) :: u16) (ucast F_BIGDATA)
      then do { q \<leftarrow> pg (of_nat (rd p a 8)); get_bytes q 16 sz }
      else get_bytes p a sz)"

definition is_dup_at :: "bytes \<Rightarrow> nat \<Rightarrow> bool" where
  "is_dup_at p i = F_ISSET (of_nat (rd p (pt p i + 4) 2) :: u16) (ucast F_DUPDATA)"

definition child_at :: "bytes \<Rightarrow> nat \<Rightarrow> u64" where
  "child_at p i = of_nat (rd p (pt p i) 6)"

definition leaf_items :: "(u64 \<Rightarrow> bytes option) \<Rightarrow> bytes \<Rightarrow> (bytes \<times> bytes) list" where
  "leaf_items pg p = map (\<lambda>i. (key_at p i, the (value_at pg p i))) [0..<NUMKEYS p]"

section \<open>Well-formed trees\<close>

definition in_range :: "'k::linorder option \<Rightarrow> 'k option \<Rightarrow> 'k \<Rightarrow> bool" where
  "in_range lo hi k \<longleftrightarrow> (\<forall>l. lo = Some l \<longrightarrow> l \<le> k) \<and> (\<forall>h. hi = Some h \<longrightarrow> k < h)"

text \<open>The comparison that \<open>mdb_node_search\<close> uses on the page decides the order \<open>rank\<close> of valid keys.\<close>

definition ordered_by :: "cmp_fn \<Rightarrow> (bytes \<Rightarrow> bool) \<Rightarrow> (bytes \<Rightarrow> 'k::linorder) \<Rightarrow> bytes \<Rightarrow> bool" where
  "ordered_by c valid rank p \<longleftrightarrow> (\<exists>c'. node_search_cmp p c = Some c' \<and> key_order (call_cmp c') valid rank)"

definition keys_sorted :: "(bytes \<Rightarrow> bool) \<Rightarrow> (bytes \<Rightarrow> 'k::linorder) \<Rightarrow> bytes \<Rightarrow> nat \<Rightarrow> 'k option \<Rightarrow> 'k option \<Rightarrow> bool" where
  "keys_sorted valid rank p from lo hi \<longleftrightarrow>
     (\<forall>j. from \<le> j \<and> j < NUMKEYS p \<longrightarrow> valid (key_at p j) \<and> in_range lo hi (rank (key_at p j))) \<and>
     (\<forall>j k. from \<le> j \<and> j < k \<and> k < NUMKEYS p \<longrightarrow> rank (key_at p j) < rank (key_at p k))"

definition leaf_ok ::
    "(u64 \<Rightarrow> bytes option) \<Rightarrow> nat \<Rightarrow> cmp_fn \<Rightarrow> (bytes \<Rightarrow> bool) \<Rightarrow> (bytes \<Rightarrow> 'k::linorder) \<Rightarrow> bytes \<Rightarrow> 'k option \<Rightarrow> 'k option \<Rightarrow> bool" where
  "leaf_ok pg psize c valid rank p lo hi \<longleftrightarrow>
     page_ok psize p \<and> IS_LEAF p \<and> \<not> IS_LEAF2 p \<and> \<not> IS_BRANCH p \<and> 0 < NUMKEYS p \<and>
     ordered_by c valid rank p \<and> key_order (call_cmp c) valid rank \<and> keys_sorted valid rank p 0 lo hi \<and>
     (\<forall>i < NUMKEYS p. value_at pg p i \<noteq> None \<and> \<not> is_dup_at p i)"

definition lo_of :: "(bytes \<Rightarrow> 'k::linorder) \<Rightarrow> bytes \<Rightarrow> 'k option \<Rightarrow> nat \<Rightarrow> 'k option" where
  "lo_of rank p lo i = (if i = 0 then lo else Some (rank (key_at p i)))"

definition hi_of :: "(bytes \<Rightarrow> 'k::linorder) \<Rightarrow> bytes \<Rightarrow> 'k option \<Rightarrow> nat \<Rightarrow> 'k option" where
  "hi_of rank p hi i = (if i + 1 < NUMKEYS p then Some (rank (key_at p (i + 1))) else hi)"

definition branch_ok ::
    "nat \<Rightarrow> cmp_fn \<Rightarrow> (bytes \<Rightarrow> bool) \<Rightarrow> (bytes \<Rightarrow> 'k::linorder) \<Rightarrow> bytes \<Rightarrow> 'k option \<Rightarrow> 'k option \<Rightarrow> bool" where
  "branch_ok psize c valid rank p lo hi \<longleftrightarrow>
     page_ok psize p \<and> IS_BRANCH p \<and> \<not> IS_LEAF p \<and> \<not> IS_LEAF2 p \<and> 1 < NUMKEYS p \<and>
     ordered_by c valid rank p \<and> keys_sorted valid rank p 1 lo hi"

fun tree_ok ::
    "(u64 \<Rightarrow> bytes option) \<Rightarrow> nat \<Rightarrow> cmp_fn \<Rightarrow> (bytes \<Rightarrow> bool) \<Rightarrow> (bytes \<Rightarrow> 'k::linorder) \<Rightarrow> nat \<Rightarrow> u64 \<Rightarrow>
     'k option \<Rightarrow> 'k option \<Rightarrow> bool" where
  "tree_ok pg psize c valid rank 0 pgno lo hi \<longleftrightarrow>
     (\<exists>p. pg pgno = Some p \<and> leaf_ok pg psize c valid rank p lo hi)"
| "tree_ok pg psize c valid rank (Suc d) pgno lo hi \<longleftrightarrow>
     (\<exists>p. pg pgno = Some p \<and> branch_ok psize c valid rank p lo hi \<and>
        (\<forall>i < NUMKEYS p. tree_ok pg psize c valid rank d (child_at p i) (lo_of rank p lo i) (hi_of rank p hi i)))"

section \<open>What a tree holds\<close>

fun items :: "(u64 \<Rightarrow> bytes option) \<Rightarrow> nat \<Rightarrow> u64 \<Rightarrow> (bytes \<times> bytes) list" where
  "items pg 0 pgno = (case pg pgno of None \<Rightarrow> [] | Some p \<Rightarrow> leaf_items pg p)"
| "items pg (Suc d) pgno =
     (case pg pgno of None \<Rightarrow> []
      | Some p \<Rightarrow> concat (map (\<lambda>i. items pg d (child_at p i)) [0..<NUMKEYS p]))"

fun node_at :: "(u64 \<Rightarrow> bytes option) \<Rightarrow> u64 \<Rightarrow> nat list \<Rightarrow> u64" where
  "node_at pg pgno [] = pgno"
| "node_at pg pgno (k # ks) = node_at pg (child_at (the (pg pgno)) k) ks"

fun good_path :: "(u64 \<Rightarrow> bytes option) \<Rightarrow> nat \<Rightarrow> u64 \<Rightarrow> nat list \<Rightarrow> bool" where
  "good_path pg 0 pgno ks \<longleftrightarrow> ks = []"
| "good_path pg (Suc d) pgno ks \<longleftrightarrow>
     (\<exists>k r p. ks = k # r \<and> pg pgno = Some p \<and> k < NUMKEYS p \<and> good_path pg d (child_at p k) r)"

text \<open>The items to the left and to the right of the leaf at the end of a path.\<close>

fun before :: "(u64 \<Rightarrow> bytes option) \<Rightarrow> nat \<Rightarrow> u64 \<Rightarrow> nat list \<Rightarrow> (bytes \<times> bytes) list" where
  "before pg (Suc d) pgno (k # r) =
     (let p = the (pg pgno) in
      concat (map (\<lambda>i. items pg d (child_at p i)) [0..<k]) @ before pg d (child_at p k) r)"
| "before pg _ pgno _ = []"

fun after :: "(u64 \<Rightarrow> bytes option) \<Rightarrow> nat \<Rightarrow> u64 \<Rightarrow> nat list \<Rightarrow> (bytes \<times> bytes) list" where
  "after pg (Suc d) pgno (k # r) =
     (let p = the (pg pgno) in
      after pg d (child_at p k) r @ concat (map (\<lambda>i. items pg d (child_at p i)) [Suc k..<NUMKEYS p]))"
| "after pg _ pgno _ = []"

lemma upt_split: "k < n \<Longrightarrow> [0..<n] = [0..<k] @ k # [Suc k..<n]"
  using upt_add_eq_append [of 0 k "n - k"] upt_conv_Cons [of k n] by simp

lemma items_split:
  "good_path pg d pgno ks \<Longrightarrow>
    items pg d pgno = before pg d pgno ks @ items pg 0 (node_at pg pgno ks) @ after pg d pgno ks"
proof (induction d arbitrary: pgno ks)
  case (Suc d)
  then obtain k r p where k: "ks = k # r" "pg pgno = Some p" "k < NUMKEYS p" "good_path pg d (child_at p k) r"
    by auto
  have "items pg (Suc d) pgno =
      concat (map (\<lambda>i. items pg d (child_at p i)) [0..<k]) @ items pg d (child_at p k) @
      concat (map (\<lambda>i. items pg d (child_at p i)) [Suc k..<NUMKEYS p])"
    using k(2) upt_split [OF k(3)] by simp
  also have "items pg d (child_at p k) = before pg d (child_at p k) r @
      items pg 0 (node_at pg (child_at p k) r) @ after pg d (child_at p k) r"
    by (rule Suc.IH [OF k(4)])
  finally show ?case using k(1,2) by (simp add: Let_def)
qed simp

section \<open>Order\<close>

lemma in_range_mono:
  "in_range lo' hi' k \<Longrightarrow> (\<And>l. lo = Some l \<Longrightarrow> \<exists>l'. lo' = Some l' \<and> l \<le> l') \<Longrightarrow>
    (\<And>h. hi = Some h \<Longrightarrow> \<exists>h'. hi' = Some h' \<and> h' \<le> h) \<Longrightarrow> in_range lo hi k"
  by (fastforce simp: in_range_def)

lemma child_range:
  assumes "branch_ok psize c valid rank p lo hi" "i < NUMKEYS p"
    and "in_range (lo_of rank p lo i) (hi_of rank p hi i) k"
  shows "in_range lo hi k"
proof -
  have ks: "keys_sorted valid rank p 1 lo hi" using assms(1) by (simp add: branch_ok_def)
  show ?thesis
  proof (rule in_range_mono [OF assms(3)])
    fix l assume l: "lo = Some l"
    show "\<exists>l'. lo_of rank p lo i = Some l' \<and> l \<le> l'"
    proof (cases "i = 0")
      case False
      then have "in_range lo hi (rank (key_at p i))" using ks assms(2) by (simp add: keys_sorted_def)
      then show ?thesis using l False by (simp add: lo_of_def in_range_def)
    qed (use l in \<open>simp add: lo_of_def\<close>)
  next
    fix h assume h: "hi = Some h"
    show "\<exists>h'. hi_of rank p hi i = Some h' \<and> h' \<le> h"
    proof (cases "i + 1 < NUMKEYS p")
      case True
      then have "in_range lo hi (rank (key_at p (i + 1)))" using ks by (simp add: keys_sorted_def)
      then show ?thesis using h True by (simp add: hi_of_def in_range_def less_imp_le)
    qed (use h in \<open>simp add: hi_of_def\<close>)
  qed
qed

lemma leaf_items_set:
  "x \<in> set (leaf_items pg p) \<longleftrightarrow> (\<exists>i < NUMKEYS p. x = (key_at p i, the (value_at pg p i)))"
  by (auto simp: leaf_items_def)

lemma tree_keys:
  "tree_ok pg psize c valid rank d pgno lo hi \<Longrightarrow> x \<in> set (items pg d pgno) \<Longrightarrow>
    valid (fst x) \<and> in_range lo hi (rank (fst x))"
proof (induction d arbitrary: pgno lo hi)
  case 0
  then show ?case by (auto simp: leaf_items_set leaf_ok_def keys_sorted_def)
next
  case (Suc d)
  then obtain p where p: "pg pgno = Some p" "branch_ok psize c valid rank p lo hi"
    "\<forall>i < NUMKEYS p. tree_ok pg psize c valid rank d (child_at p i) (lo_of rank p lo i) (hi_of rank p hi i)" by auto
  then obtain i where i: "i < NUMKEYS p" "x \<in> set (items pg d (child_at p i))" using Suc.prems(2) by auto
  then have "valid (fst x) \<and> in_range (lo_of rank p lo i) (hi_of rank p hi i) (rank (fst x))"
    using Suc.IH p(3) by blast
  then show ?case using child_range [OF p(2) i(1)] by blast
qed

lemma sorted_wrt_concat_upt:
  assumes "\<And>i. i < n \<Longrightarrow> sorted_wrt P (f i)"
    and "\<And>i j x y. i < j \<Longrightarrow> j < n \<Longrightarrow> x \<in> set (f i) \<Longrightarrow> y \<in> set (f j) \<Longrightarrow> P x y"
  shows "sorted_wrt P (concat (map f [0..<n]))"
  using assms
proof (induction n)
  case (Suc n)
  have "sorted_wrt P (concat (map f [0..<n]))" by (rule Suc.IH) (use Suc.prems in auto)
  moreover have "P x y" if "x \<in> set (concat (map f [0..<n]))" "y \<in> set (f n)" for x y
  proof -
    have "\<exists>i < n. x \<in> set (f i)" using that(1) by auto
    then obtain i where "i < n" "x \<in> set (f i)" by blast
    then show ?thesis using Suc.prems(2) [of i n x y] that(2) by simp
  qed
  ultimately show ?case using Suc.prems(1) [of n] by (simp add: sorted_wrt_append)
qed simp

text \<open>Keys left of the separator \<open>j\<close> are below it, keys right of it are not.\<close>

lemma child_below:
  assumes b: "branch_ok psize c valid rank p lo hi" and ij: "i < j" "j < NUMKEYS p"
    and x: "in_range (lo_of rank p lo i) (hi_of rank p hi i) x"
  shows "x < rank (key_at p j)"
proof -
  have ks: "keys_sorted valid rank p 1 lo hi" using b by (simp add: branch_ok_def)
  have "x < rank (key_at p (i + 1))" using x ij by (simp add: in_range_def hi_of_def)
  also have "\<dots> \<le> rank (key_at p j)"
    using ks ij by (cases "i + 1 = j") (auto simp: keys_sorted_def less_imp_le)
  finally show ?thesis .
qed

lemma child_above:
  assumes "j \<noteq> 0" "in_range (lo_of rank p lo j) (hi_of rank p hi j) x"
  shows "rank (key_at p j) \<le> x"
  using assms by (simp add: in_range_def lo_of_def)

definition ascending :: "(bytes \<Rightarrow> 'k::linorder) \<Rightarrow> (bytes \<times> bytes) list \<Rightarrow> bool" where
  "ascending rank xs \<longleftrightarrow> sorted_wrt (\<lambda>a b. rank (fst a) < rank (fst b)) xs"

lemma items_ascending:
  "tree_ok pg psize c valid rank d pgno lo hi \<Longrightarrow> ascending rank (items pg d pgno)"
proof (induction d arbitrary: pgno lo hi)
  case 0
  then obtain p where p: "pg pgno = Some p" "keys_sorted valid rank p 0 lo hi" by (auto simp: leaf_ok_def)
  then have "\<forall>j k. j < k \<and> k < NUMKEYS p \<longrightarrow> rank (key_at p j) < rank (key_at p k)"
    by (simp add: keys_sorted_def)
  then show ?case using p(1) by (auto simp: ascending_def leaf_items_def sorted_wrt_iff_nth_less)
next
  case (Suc d)
  then obtain p where p: "pg pgno = Some p" "branch_ok psize c valid rank p lo hi"
    "\<forall>i < NUMKEYS p. tree_ok pg psize c valid rank d (child_at p i) (lo_of rank p lo i) (hi_of rank p hi i)" by auto
  have "ascending rank (concat (map (\<lambda>i. items pg d (child_at p i)) [0..<NUMKEYS p]))"
    unfolding ascending_def
  proof (rule sorted_wrt_concat_upt)
    fix i assume "i < NUMKEYS p"
    then show "sorted_wrt (\<lambda>a b. rank (fst a) < rank (fst b)) (items pg d (child_at p i))"
      using Suc.IH p(3) unfolding ascending_def by blast
  next
    fix i j x y assume ij: "i < j" "j < NUMKEYS p" and x: "x \<in> set (items pg d (child_at p i))"
      and y: "y \<in> set (items pg d (child_at p j))"
    have i: "i < NUMKEYS p" using ij by simp
    have "rank (fst x) < rank (key_at p j)"
      using child_below [OF p(2) ij] tree_keys [OF p(3) [rule_format, OF i] x] by blast
    also have "\<dots> \<le> rank (fst y)"
      by (rule child_above) (use ij tree_keys [OF p(3) [rule_format, OF ij(2)] y] in auto)
    finally show "rank (fst x) < rank (fst y)" .
  qed
  then show ?case using p(1) by simp
qed

text \<open>The path that the search for a key of rank \<open>r\<close> follows.\<close>

fun routed ::
    "(u64 \<Rightarrow> bytes option) \<Rightarrow> (bytes \<Rightarrow> 'k::linorder) \<Rightarrow> nat \<Rightarrow> u64 \<Rightarrow> 'k option \<Rightarrow> 'k option \<Rightarrow> nat list \<Rightarrow> 'k \<Rightarrow> bool" where
  "routed pg rank 0 pgno lo hi ks r \<longleftrightarrow> ks = [] \<and> in_range lo hi r"
| "routed pg rank (Suc d) pgno lo hi ks r \<longleftrightarrow> in_range lo hi r \<and>
     (\<exists>k rest p. ks = k # rest \<and> pg pgno = Some p \<and> k < NUMKEYS p \<and>
        routed pg rank d (child_at p k) (lo_of rank p lo k) (hi_of rank p hi k) rest r)"

lemma routed_good: "routed pg rank d pgno lo hi ks r \<Longrightarrow> good_path pg d pgno ks"
  by (induction d arbitrary: pgno lo hi ks) auto

lemma routed_range: "routed pg rank d pgno lo hi ks r \<Longrightarrow> in_range lo hi r"
  by (cases d) auto

lemma routed_around:
  assumes "tree_ok pg psize c valid rank d pgno lo hi" "routed pg rank d pgno lo hi ks r"
  shows "(\<forall>x \<in> set (before pg d pgno ks). rank (fst x) < r) \<and> (\<forall>x \<in> set (after pg d pgno ks). r < rank (fst x))"
  using assms
proof (induction d arbitrary: pgno lo hi ks)
  case (Suc d)
  obtain p where p: "pg pgno = Some p" "branch_ok psize c valid rank p lo hi"
    "\<forall>i < NUMKEYS p. tree_ok pg psize c valid rank d (child_at p i) (lo_of rank p lo i) (hi_of rank p hi i)"
    using Suc.prems(1) by auto
  then obtain k rest where k: "ks = k # rest" "k < NUMKEYS p"
    "routed pg rank d (child_at p k) (lo_of rank p lo k) (hi_of rank p hi k) rest r"
    using Suc.prems(2) by auto
  note IH = Suc.IH [OF p(3) [rule_format, OF k(2)] k(3)]
  have r: "in_range (lo_of rank p lo k) (hi_of rank p hi k) r" by (rule routed_range [OF k(3)])
  have left: "rank (fst x) < r" if "i < k" "x \<in> set (items pg d (child_at p i))" for i x
  proof -
    have "i < NUMKEYS p" using that k by simp
    then have "rank (fst x) < rank (key_at p k)"
      using child_below [OF p(2) that(1) k(2)] tree_keys [OF p(3) [rule_format] that(2)] by blast
    also have "\<dots> \<le> r" using child_above [OF _ r] that(1) by simp
    finally show ?thesis .
  qed
  have right: "r < rank (fst x)" if "k < i" "i < NUMKEYS p" "x \<in> set (items pg d (child_at p i))" for i x
  proof -
    have "r < rank (key_at p i)" by (rule child_below [OF p(2) that(1,2) r])
    also have "\<dots> \<le> rank (fst x)"
      by (rule child_above) (use that tree_keys [OF p(3) [rule_format, OF that(2)] that(3)] in auto)
    finally show ?thesis .
  qed
  show ?case using k(1) p(1) IH left right by (auto simp: Let_def Suc_le_eq)
qed auto

end
