(* ===== verification/Tree_Search.thy ===== *)
theory Tree_Search
  imports Tree
begin

text \<open>
  Searching, positioning and iterating: what \<open>mdb_page_search\<close>, \<open>mdb_cursor_first\<close>,
  \<open>mdb_cursor_next\<close>, \<open>mdb_cursor_set\<close> and \<open>mdb_get\<close> do on a well-formed tree, said in terms of
  the list of its items.
\<close>

section \<open>Reading a well-formed page\<close>

lemma page_node:
  assumes ok: "page_ok psize p" and i: "i < NUMKEYS p"
  shows "NODEPTR p i = Some (pt p i)" "NODEPGNO p (pt p i) = Some (child_at p i)"
    "is_dup p (pt p i) = Some (is_dup_at p i)" "node_key p (pt p i) = Some (key_at p i)"
    "pt p i + 8 + rd p (pt p i + 6) 2 \<le> length p"
proof -
  note e = node_entry_eq [OF ok i]
  show "NODEPTR p i = Some (pt p i)" by (rule e(2))
  show "NODEPGNO p (pt p i) = Some (child_at p i)" using e(4) by (simp add: NODEPGNO_eq child_at_def)
  show "is_dup p (pt p i) = Some (is_dup_at p i)"
    using e(4) by (simp add: is_dup_def mn_flags_def is_dup_at_def)
  have x: "pt p i \<in> set (ptrs p)" using i by (auto simp: ptrs_def)
  have "8 + rd p (pt p i + 6) 2 \<le> extent p (pt p i)"
    using EVEN_bounds(1) unfolding extent_def by (rule order_trans [rotated]) (simp add: node_len_def)
  then show l: "pt p i + 8 + rd p (pt p i + 6) 2 \<le> length p" using page_okD [OF ok x] by simp
  show "node_key p (pt p i) = Some (key_at p i)"
    using l by (simp add: node_key_def NODEKSZ_def mn_ksize_def NODEKEY_def key_at_def)
qed

lemma page_room: "page_ok psize p \<Longrightarrow> 0 < NUMKEYS p \<Longrightarrow> mp_lower p + 2 \<le> psize"
proof -
  assume ok: "page_ok psize p" and n: "0 < NUMKEYS p"
  have "pt p 0 \<in> set (ptrs p)" using n by (auto simp: ptrs_def)
  then show ?thesis using page_okD [OF ok] extent_ge [of p "pt p 0"] by fastforce
qed

lemma NUMKEYS_small: "page_ok psize p \<Longrightarrow> NUMKEYS p < 32768"
  using page_ok_lower [of psize p] mp_bounds(1) [of p] by simp

lemma last_key_eq: "0 < NUMKEYS p \<Longrightarrow> page_ok psize p \<Longrightarrow> last_key p = NUMKEYS p - 1"
proof -
  assume n: "0 < NUMKEYS p" and ok: "page_ok psize p"
  obtain m where m: "NUMKEYS p = Suc m" using n by (cases "NUMKEYS p") auto
  have "m < 2 ^ 32" using NUMKEYS_small [OF ok] m by simp
  moreover have "Suc m + (2 ^ 32 - 1) = 2 ^ 32 + m" by simp
  ultimately show ?thesis unfolding last_key_def m by (simp only: mod_add_self1 mod_less diff_Suc_1)
qed

lemma node_read_eq:
  assumes ok: "page_ok psize p" "IS_LEAF p" and i: "i < NUMKEYS p"
    and v: "value_at (see st (ro_flags mc)) p i = Some v"
  shows "mdb_node_read st mc p (pt p i) = Some (0, st, Some v)"
proof -
  note e = page_node [OF ok(1) i]
  let ?n = "pt p i"
  have l: "?n + 8 \<le> length p" using e(5) by simp
  have f: "mn_flags p ?n = Some (of_nat (rd p (?n + 4) 2))" "NODEDSZ p ?n = Some (rd p ?n 4)"
    "NODEDATA p ?n = Some (?n + 8 + rd p (?n + 6) 2)"
    using l by (simp_all add: mn_flags_def NODEDSZ_eq NODEDATA_def mn_ksize_def)
  show ?thesis
  proof (cases "F_ISSET (of_nat (rd p (?n + 4) 2) :: u16) (ucast F_BIGDATA)")
    case False
    then show ?thesis using v f by (simp add: mdb_node_read_def value_at_def Let_def)
  next
    case True
    let ?a = "?n + 8 + rd p (?n + 6) 2"
    have x: "?n \<in> set (ptrs p)" using i by (auto simp: ptrs_def)
    have "8 + rd p (?n + 6) 2 + 8 \<le> extent p ?n"
      using EVEN_bounds(1) unfolding extent_def
      by (rule order_trans [rotated]) (use True ok(2) in \<open>simp add: node_len_def F_BIGDATA_def\<close>)
    then have ld: "load p ?a 8 = Some (rd p ?a 8)" using page_okD [OF ok(1) x] by simp
    from v True obtain q where q: "see st (ro_flags mc) (of_nat (rd p ?a 8)) = Some q" "get_bytes q 16 (rd p ?n 4) = Some v"
      by (auto simp: value_at_def Let_def split: bind_splits)
    then obtain ptr where ptr: "resolve st (ro_flags mc) (of_nat (rd p ?a 8)) = Some ptr" "page_at st ptr = Some q"
      by (auto simp: see_def split: bind_splits)
    obtain l where "mdb_page_get st mc (of_nat (rd p ?a 8)) = Some (0, st, Some (ptr, l))"
      using resolve_get [OF ptr(1)] by blast
    then show ?thesis using True f ld ptr(2) q(2) by (simp add: mdb_node_read_def)
  qed
qed

section \<open>One level down\<close>

lemma set_ki_in [simp]:
  "mc_top mc < length (mc_ki mc) \<Longrightarrow> set_ki mc i = Some (mc\<lparr>mc_ki := (mc_ki mc)[mc_top mc := i mod 65536]\<rparr>)"
  by (simp add: set_ki_def)

lemma ki_at_in [simp]: "mc_top mc < length (mc_ki mc) \<Longrightarrow> ki_at mc = Some (mc_ki mc ! mc_top mc)"
  by (simp add: ki_at_def)

lemma top_page_eq:
  "mc_pg mc ! mc_top mc = resolve st ro pgno \<Longrightarrow> mc_top mc < length (mc_pg mc) \<Longrightarrow> top_page st mc = see st ro pgno"
  by (simp add: top_page_def page_of_def pg_at_def see_def)

text \<open>The cursor after one step down to child \<open>k\<close>, at page pointer \<open>q\<close>.\<close>

definition pushed :: "cursor \<Rightarrow> nat \<Rightarrow> page_ptr option \<Rightarrow> cursor" where
  "pushed mc k q = mc\<lparr>mc_ki := (mc_ki mc)[mc_top mc := k, Suc (mc_top mc) := 0],
     mc_pg := (mc_pg mc)[Suc (mc_top mc) := q], mc_top := Suc (mc_top mc), mc_snum := Suc (Suc (mc_top mc))\<rparr>"

definition stack_ok :: "cursor \<Rightarrow> bool" where
  "stack_ok mc \<longleftrightarrow> length (mc_pg mc) = CURSOR_STACK \<and> length (mc_ki mc) = CURSOR_STACK \<and>
     mc_snum mc = Suc (mc_top mc) \<and> mc_top mc < CURSOR_STACK"

lemma descend_step:
  assumes b: "branch_ok psize c valid rank p lo hi" and k: "k < NUMKEYS p"
    and st: "stack_ok mc" "Suc (mc_top mc) < CURSOR_STACK"
    and i: "branch_index st mc p key flags = Some (Some k, mc\<lparr>mc_ki := (mc_ki mc)[mc_top mc := x]\<rparr>)"
    and q: "resolve st (ro_flags mc) (child_at p k) = Some q"
  shows "descend st mc p key flags = Some (0, st, pushed mc k (Some q))"
proof -
  have ok: "page_ok psize p" "1 < NUMKEYS p" using b by (simp_all add: branch_ok_def)
  note n = page_node [OF ok(1) k]
  have small: "k mod 65536 = k" using NUMKEYS_small [OF ok(1)] k by simp
  let ?mc = "mc\<lparr>mc_ki := (mc_ki mc)[mc_top mc := x]\<rparr>"
  have "ro_flags ?mc = ro_flags mc" by (simp add: ro_flags_def)
  then obtain l where g: "mdb_page_get st ?mc (child_at p k) = Some (0, st, Some (q, l))"
    using resolve_get [of st ?mc] q by auto
  have len: "length (mc_ki mc) = 32" "length (mc_pg mc) = 32" "mc_snum mc = Suc (mc_top mc)" "Suc (mc_top mc) < 32"
    using st by (simp_all add: stack_ok_def CURSOR_STACK_def)
  show ?thesis
    using i k n g len small ok(2)
    by (simp add: descend_def mdb_cursor_push_def pushed_def CURSOR_STACK_def)
qed

text \<open>The three ways to choose the child.\<close>

lemma index_first:
  "mc_top mc < length (mc_ki mc) \<Longrightarrow> branch_index st mc p key MDB_PS_FIRST =
    Some (Some 0, mc\<lparr>mc_ki := (mc_ki mc)[mc_top mc := mc_ki mc ! mc_top mc]\<rparr>)"
  by (simp add: branch_index_def has_def ps_defs)

lemma index_key:
  assumes b: "branch_ok psize c valid rank p lo hi" and key: "valid key" "in_range lo hi (rank key)"
    and st: "stack_ok mc" and top: "top_page st mc = Some p"
    and dx: "mc_dbx st mc = Some dx" "md_cmp dx = Some c" and db: "mc_db st mc = Some db"
  shows "\<exists>k x. branch_index st mc p (Some key) 0 = Some (Some k, mc\<lparr>mc_ki := (mc_ki mc)[mc_top mc := x]\<rparr>) \<and>
    k < NUMKEYS p \<and> in_range (lo_of rank p lo k) (hi_of rank p hi k) (rank key)"
proof -
  have ok: "page_ok psize p" "\<not> IS_LEAF p" "\<not> IS_LEAF2 p" "1 < NUMKEYS p" using b by (simp_all add: branch_ok_def)
  obtain c' where c': "node_search_cmp p c = Some c'" "key_order (call_cmp c') valid rank"
    using b by (auto simp: branch_ok_def ordered_by_def)
  have ks: "\<forall>j. 1 \<le> j \<and> j < NUMKEYS p \<longrightarrow> valid (key_at p j)"
    "\<forall>j k. 1 \<le> j \<and> j < k \<and> k < NUMKEYS p \<longrightarrow> rank (key_at p j) < rank (key_at p k)"
    using b by (simp_all add: branch_ok_def keys_sorted_def)
  have "\<exists>i. mdb_node_search p c (unat (md_pad db)) key =
      Some (if i < NUMKEYS p then Some (pt p i) else None, i < NUMKEYS p \<and> rank (key_at p i) = rank key, i) \<and>
    1 \<le> i \<and> i \<le> NUMKEYS p \<and> (\<forall>j. 1 \<le> j \<and> j < i \<longrightarrow> rank (key_at p j) < rank key) \<and>
    (\<forall>j. i \<le> j \<and> j < NUMKEYS p \<longrightarrow> rank key \<le> rank (key_at p j))"
    by (rule node_search_place [OF c' ok(1,3) _ _ key(1) ks]) (use ok page_room [OF ok(1)] in auto)
  then obtain i where s: "mdb_node_search p c (unat (md_pad db)) key =
      Some (if i < NUMKEYS p then Some (pt p i) else None, i < NUMKEYS p \<and> rank (key_at p i) = rank key, i)"
    and i: "1 \<le> i" "i \<le> NUMKEYS p" and below: "\<And>j. 1 \<le> j \<Longrightarrow> j < i \<Longrightarrow> rank (key_at p j) < rank key"
    and above: "\<And>j. i \<le> j \<Longrightarrow> j < NUMKEYS p \<Longrightarrow> rank key \<le> rank (key_at p j)" by blast
  have small: "i < 65536" "NUMKEYS p < 65536" using NUMKEYS_small [OF ok(1)] i by simp_all
  have len: "mc_top mc < length (mc_ki mc)" using st by (simp add: stack_ok_def)
  let ?mc = "mc\<lparr>mc_ki := (mc_ki mc)[mc_top mc := i]\<rparr>"
  have cs: "cursor_node_search st mc key =
      Some (if i < NUMKEYS p then Some (pt p i) else None, i < NUMKEYS p \<and> rank (key_at p i) = rank key, ?mc)"
    using top dx db s len small by (simp add: cursor_node_search_def)
  define k where "k = (if i < NUMKEYS p then if rank (key_at p i) = rank key then i else i - 1 else NUMKEYS p - 1)"
  have "branch_index st mc p (Some key) 0 = Some (Some k, ?mc)"
  proof -
    have "last_key p = NUMKEYS p - 1" by (rule last_key_eq [OF _ ok(1)]) (use ok(4) in simp)
    then show ?thesis using cs len i small by (simp add: branch_index_def has_def k_def)
  qed
  moreover have "k < NUMKEYS p" using i ok(4) by (auto simp: k_def)
  moreover have "in_range (lo_of rank p lo k) (hi_of rank p hi k) (rank key)"
  proof -
    have l: "rank (key_at p k) \<le> rank key" if "k \<noteq> 0"
    proof (cases "k < i")
      case True
      then show ?thesis using below [of k] that by (simp add: less_imp_le)
    next
      case False
      then show ?thesis using i by (auto simp: k_def split: if_splits)
    qed
    have h: "rank key < rank (key_at p (k + 1))" if "k + 1 < NUMKEYS p"
    proof (cases "i < NUMKEYS p \<and> rank (key_at p i) = rank key")
      case True
      then have ki: "k = i" by (simp add: k_def)
      have "rank (key_at p i) < rank (key_at p (k + 1))"
        using ks(2) [rule_format, of i "k + 1"] i that ki by simp
      then show ?thesis using True by simp
    next
      case False
      then have "k + 1 = i" using that i by (auto simp: k_def split: if_splits)
      then show ?thesis using above [of i] False that by (simp add: order.strict_iff_order)
    qed
    show ?thesis using l h key(2) by (auto simp: in_range_def lo_of_def hi_of_def split: if_splits)
  qed
  ultimately show ?thesis by blast
qed

section \<open>From a page to a leaf below it\<close>

text \<open>The cursor's stack from level \<open>t\<close> on follows the path \<open>ks\<close> from page \<open>pgno\<close> to a leaf.\<close>

fun on_path :: "'a st_scheme \<Rightarrow> bool \<Rightarrow> nat \<Rightarrow> nat \<Rightarrow> u64 \<Rightarrow> nat list \<Rightarrow> cursor \<Rightarrow> bool" where
  "on_path st ro t 0 pgno ks mc \<longleftrightarrow> ks = [] \<and> see st ro pgno \<noteq> None \<and> mc_pg mc ! t = resolve st ro pgno"
| "on_path st ro t (Suc d) pgno ks mc \<longleftrightarrow>
     (\<exists>k r p. ks = k # r \<and> see st ro pgno = Some p \<and> mc_pg mc ! t = resolve st ro pgno \<and>
        mc_ki mc ! t = k \<and> k < NUMKEYS p \<and> on_path st ro (Suc t) d (child_at p k) r mc)"

lemma on_path_good: "on_path st ro t d pgno ks mc \<Longrightarrow> good_path (see st ro) d pgno ks"
  by (induction d arbitrary: t pgno ks) auto

lemma on_path_cong:
  "on_path st ro t d pgno ks mc \<Longrightarrow> (\<And>i. t \<le> i \<Longrightarrow> i \<le> t + d \<Longrightarrow> mc_pg mc' ! i = mc_pg mc ! i) \<Longrightarrow>
    (\<And>i. t \<le> i \<Longrightarrow> i < t + d \<Longrightarrow> mc_ki mc' ! i = mc_ki mc ! i) \<Longrightarrow> on_path st ro t d pgno ks mc'"
proof (induction d arbitrary: t pgno ks)
  case (Suc d)
  then obtain k r p where k: "ks = k # r" "see st ro pgno = Some p" "mc_pg mc ! t = resolve st ro pgno"
    "mc_ki mc ! t = k" "k < NUMKEYS p" "on_path st ro (Suc t) d (child_at p k) r mc" by auto
  have "on_path st ro (Suc t) d (child_at p k) r mc'"
    by (rule Suc.IH [OF k(6)]) (use Suc.prems(2,3) in auto)
  then show ?case using k Suc.prems(2) [of t] Suc.prems(3) [of t] by simp
qed auto

text \<open>What a search below level \<open>t\<close> leaves alone.\<close>

definition same_below :: "nat \<Rightarrow> cursor \<Rightarrow> cursor \<Rightarrow> bool" where
  "same_below t mc mc' \<longleftrightarrow> mc_own mc' = mc_own mc \<and> mc_dbi mc' = mc_dbi mc \<and>
     (\<forall>i < t. mc_pg mc' ! i = mc_pg mc ! i \<and> mc_ki mc' ! i = mc_ki mc ! i)"

definition arrived :: "u32 \<Rightarrow> u32" where
  "arrived f = (f OR C_INITIALIZED) AND NOT C_EOF"

lemma arrived_ro: "has (arrived f) (C_ORIG_RDONLY OR C_WRITEMAP) = has f (C_ORIG_RDONLY OR C_WRITEMAP)"
proof -
  have "arrived f AND (C_ORIG_RDONLY OR C_WRITEMAP) = f AND (C_ORIG_RDONLY OR C_WRITEMAP)"
    by (rule bit_word_eqI) (auto simp: arrived_def bit_simps C_INITIALIZED_def C_EOF_def C_ORIG_RDONLY_def C_WRITEMAP_def env_flag_defs)
  then show ?thesis by (simp add: has_def)
qed

lemma see_resolve: "see st ro pgno = Some p \<Longrightarrow> \<exists>q. resolve st ro pgno = Some q \<and> page_at st q = Some p"
  by (auto simp: see_def split: bind_splits)

text \<open>The path takes, at every branch page, a child that meets \<open>C\<close>.\<close>

fun traced ::
    "(u64 \<Rightarrow> bytes option) \<Rightarrow> (bytes \<Rightarrow> 'k::linorder) \<Rightarrow> (bytes \<Rightarrow> 'k option \<Rightarrow> 'k option \<Rightarrow> nat \<Rightarrow> bool) \<Rightarrow>
     nat \<Rightarrow> u64 \<Rightarrow> 'k option \<Rightarrow> 'k option \<Rightarrow> nat list \<Rightarrow> bool" where
  "traced pg rank C 0 pgno lo hi ks \<longleftrightarrow> ks = []"
| "traced pg rank C (Suc d) pgno lo hi ks \<longleftrightarrow>
     (\<exists>k r p. ks = k # r \<and> pg pgno = Some p \<and> k < NUMKEYS p \<and> C p lo hi k \<and>
        traced pg rank C d (child_at p k) (lo_of rank p lo k) (hi_of rank p hi k) r)"

lemma traced_routed:
  "in_range lo hi r \<Longrightarrow>
    traced pg rank (\<lambda>p lo hi k. in_range (lo_of rank p lo k) (hi_of rank p hi k) r) d pgno lo hi ks \<Longrightarrow>
    routed pg rank d pgno lo hi ks r"
  by (induction d arbitrary: pgno lo hi ks) auto

lemma traced_first: "traced pg rank (\<lambda>p lo hi k. k = 0) d pgno lo hi ks \<Longrightarrow> before pg d pgno ks = []"
  by (induction d arbitrary: pgno lo hi ks) auto

lemma traced_last: "traced pg rank (\<lambda>p lo hi k. k = NUMKEYS p - 1) d pgno lo hi ks \<Longrightarrow> after pg d pgno ks = []"
  by (induction d arbitrary: pgno lo hi ks) (auto simp: Let_def)

text \<open>
  The common induction: at every branch page \<open>branch_index\<close> chooses a child that meets \<open>C\<close>, and whose bounds meet \<open>R\<close>. The
  cursor, between the calls, differs from the one at the start in the stack above \<open>t\<close>.
\<close>

lemma search_root_path:
  assumes choose: "\<And>lo hi p m. branch_ok psize c valid rank p lo hi \<Longrightarrow> R lo hi \<Longrightarrow> stack_ok m \<Longrightarrow>
      top_page st m = Some p \<Longrightarrow> mc_own m = own \<Longrightarrow> mc_dbi m = dbi \<Longrightarrow> mc_flags m = f \<Longrightarrow>
      \<exists>k x. branch_index st m p key flags = Some (Some k, m\<lparr>mc_ki := (mc_ki m)[mc_top m := x]\<rparr>) \<and>
        k < NUMKEYS p \<and> C p lo hi k \<and> R (lo_of rank p lo k) (hi_of rank p hi k)"
    and ro: "has f (C_ORIG_RDONLY OR C_WRITEMAP) = ro" and nomod: "\<not> has flags MDB_PS_MODIFY"
  shows "tree_ok (see st ro) psize c valid rank d pgno lo hi \<Longrightarrow> R lo hi \<Longrightarrow> stack_ok mc \<Longrightarrow>
    mc_top mc + d < CURSOR_STACK \<Longrightarrow> mc_pg mc ! mc_top mc = resolve st ro pgno \<Longrightarrow>
    mc_own mc = own \<Longrightarrow> mc_dbi mc = dbi \<Longrightarrow> mc_flags mc = f \<Longrightarrow>
    \<exists>mc' ks. mdb_page_search_root touch st mc key flags = Some (0, st, mc') \<and>
      on_path st ro (mc_top mc) d pgno ks mc' \<and> stack_ok mc' \<and> mc_top mc' = mc_top mc + d \<and>
      same_below (mc_top mc) mc mc' \<and> mc_flags mc' = arrived f \<and>
      traced (see st ro) rank C d pgno lo hi ks \<and>
      (\<exists>lo' hi'. tree_ok (see st ro) psize c valid rank 0 (node_at (see st ro) pgno ks) lo' hi' \<and> R lo' hi')"
proof (induction d arbitrary: pgno lo hi mc)
  case 0
  then obtain p where p: "see st ro pgno = Some p" "IS_LEAF p" "\<not> IS_BRANCH p" by (auto simp: leaf_ok_def)
  have top: "top_page st mc = Some p"
    using top_page_eq [OF 0(5)] 0(3) p(1) by (simp add: stack_ok_def)
  let ?mc = "mc\<lparr>mc_flags := arrived f\<rparr>"
  have run: "mdb_page_search_root touch st mc key flags = Some (0, st, ?mc)"
    using top p 0(8) by (subst mdb_page_search_root.simps) (simp add: arrived_def)
  have "on_path st ro (mc_top mc) 0 pgno [] ?mc" using p(1) 0(5) by simp
  moreover have "stack_ok ?mc" "same_below (mc_top mc) mc ?mc" using 0(3) by (simp_all add: stack_ok_def same_below_def)
  ultimately show ?case using run 0(1,2) by (intro exI [of _ ?mc] exI [of _ "[]"]) auto
next
  case (Suc d)
  then obtain p where p: "see st ro pgno = Some p" "branch_ok psize c valid rank p lo hi"
    "\<forall>i < NUMKEYS p. tree_ok (see st ro) psize c valid rank d (child_at p i) (lo_of rank p lo i) (hi_of rank p hi i)"
    by auto
  have st: "stack_ok mc" "Suc (mc_top mc) < CURSOR_STACK" using Suc.prems(3,4) by simp_all
  have top: "top_page st mc = Some p"
    using top_page_eq [OF Suc.prems(5)] st(1) p(1) by (simp add: stack_ok_def)
  obtain k x where k: "branch_index st mc p key flags = Some (Some k, mc\<lparr>mc_ki := (mc_ki mc)[mc_top mc := x]\<rparr>)"
    "k < NUMKEYS p" "R (lo_of rank p lo k) (hi_of rank p hi k)" "C p lo hi k"
    using choose [OF p(2) Suc.prems(2) st(1) top Suc.prems(6-8)] by blast
  have child: "tree_ok (see st ro) psize c valid rank d (child_at p k) (lo_of rank p lo k) (hi_of rank p hi k)"
    using p(3) k(2) by blast
  have "see st ro (child_at p k) \<noteq> None" using child by (cases d) auto
  then obtain q where q: "resolve st ro (child_at p k) = Some q" using see_resolve by blast
  have rof: "ro_flags mc = ro" using ro Suc.prems(8) by (simp add: ro_flags_def)
  let ?mc = "pushed mc k (Some q)"
  have d: "descend st mc p key flags = Some (0, st, ?mc)"
    by (rule descend_step [OF p(2) k(2) st k(1)]) (use q rof in simp)
  have st2: "stack_ok ?mc" "mc_top ?mc = Suc (mc_top mc)" using st by (simp_all add: stack_ok_def pushed_def)
  have same: "mc_own ?mc = own" "mc_dbi ?mc = dbi" "mc_flags ?mc = f" "mc_pg ?mc ! mc_top ?mc = resolve st ro (child_at p k)"
    using Suc.prems(6-8) st q by (simp_all add: pushed_def stack_ok_def)
  have room: "mc_top ?mc + d < CURSOR_STACK" using Suc.prems(4) st2(2) by simp
  obtain mc' ks where IH: "mdb_page_search_root touch st ?mc key flags = Some (0, st, mc')"
    "on_path st ro (mc_top ?mc) d (child_at p k) ks mc'" "stack_ok mc'" "mc_top mc' = mc_top ?mc + d"
    "same_below (mc_top ?mc) ?mc mc'" "mc_flags mc' = arrived f"
    "traced (see st ro) rank C d (child_at p k) (lo_of rank p lo k) (hi_of rank p hi k) ks"
    "\<exists>lo' hi'. tree_ok (see st ro) psize c valid rank 0 (node_at (see st ro) (child_at p k) ks) lo' hi' \<and> R lo' hi'"
    using Suc.IH [OF child k(3) st2(1) room same(4,1,2,3)] by blast
  have b: "IS_BRANCH p" using p(2) by (simp add: branch_ok_def)
  have run: "mdb_page_search_root touch st mc key flags = Some (0, st, mc')"
    using top b d IH(1) nomod by (subst mdb_page_search_root.simps) simp
  have t: "mc_pg mc' ! mc_top mc = resolve st ro pgno" "mc_ki mc' ! mc_top mc = k"
    using IH(5) st Suc.prems(5) by (simp_all add: same_below_def pushed_def stack_ok_def)
  have "on_path st ro (mc_top mc) (Suc d) pgno (k # ks) mc'"
    using t p(1) k(2) IH(2) st2(2) by simp
  moreover have "same_below (mc_top mc) mc mc'"
    using IH(5) st by (auto simp: same_below_def pushed_def stack_ok_def)
  moreover have "node_at (see st ro) pgno (k # ks) = node_at (see st ro) (child_at p k) ks" using p(1) by simp
  moreover have "traced (see st ro) rank C (Suc d) pgno lo hi (k # ks)" using p(1) k(2,4) IH(7) by simp
  ultimately show ?case using run IH(3,4,6,8) st2(2) by (intro exI [of _ mc'] exI [of _ "k # ks"]) auto
qed

section \<open>\<open>mdb_page_search\<close>\<close>

text \<open>What the operations need of the transaction and the database that a cursor is for.\<close>

definition db_ready :: "'a st_scheme \<Rightarrow> cursor \<Rightarrow> cmp_fn \<Rightarrow> u64 \<Rightarrow> bool" where
  "db_ready st mc c root \<longleftrightarrow> \<not> has (mt_flags (st_txn st)) MDB_TXN_BLOCKED \<and>
     (\<exists>f. mc_dbflag st mc = Some f \<and> \<not> has f DB_STALE) \<and>
     (\<exists>dx. mc_dbx st mc = Some dx \<and> md_cmp dx = Some c) \<and>
     (\<exists>db. mc_db st mc = Some db \<and> md_root db = root \<and> \<not> has (md_flags db) MDB_DUPSORT)"

lemma db_ready_cong:
  "mc_own mc' = mc_own mc \<Longrightarrow> mc_dbi mc' = mc_dbi mc \<Longrightarrow> db_ready st mc' c root = db_ready st mc c root"
  by (cases "mc_own mc") (simp_all add: db_ready_def mc_dbflag_def mc_dbx_def mc_db_def)

text \<open>A tree of height \<open>d\<close> that a cursor can hold a path of.\<close>

definition root_ok ::
    "'a st_scheme \<Rightarrow> bool \<Rightarrow> nat \<Rightarrow> cmp_fn \<Rightarrow> (bytes \<Rightarrow> bool) \<Rightarrow> (bytes \<Rightarrow> 'k::linorder) \<Rightarrow> nat \<Rightarrow> u64 \<Rightarrow> bool" where
  "root_ok st ro psize c valid rank d root \<longleftrightarrow> root \<noteq> P_INVALID \<and> root > 1 \<and> d < CURSOR_STACK \<and>
     tree_ok (see st ro) psize c valid rank d root None None"

definition fresh_or_rooted :: "'a st_scheme \<Rightarrow> cursor \<Rightarrow> u64 \<Rightarrow> bool" where
  "fresh_or_rooted st mc root \<longleftrightarrow> length (mc_pg mc) = CURSOR_STACK \<and> length (mc_ki mc) = CURSOR_STACK \<and>
     (mc_pg mc ! 0 = None \<or> mc_pg mc ! 0 = resolve st (ro_flags mc) root)"

text \<open>The cursor sits on the leaf at the end of the path \<open>ks\<close>.\<close>

definition at_leaf :: "'a st_scheme \<Rightarrow> nat \<Rightarrow> u64 \<Rightarrow> nat list \<Rightarrow> cursor \<Rightarrow> bool" where
  "at_leaf st d root ks mc \<longleftrightarrow> on_path st (ro_flags mc) 0 d root ks mc \<and> stack_ok mc \<and> mc_top mc = d"

lemma page_search_path:
  fixes rank :: "bytes \<Rightarrow> 'k::linorder"
  assumes db: "db_ready st mc c root" and root: "root_ok st (ro_flags mc) psize c valid rank d root"
    and mc: "fresh_or_rooted st mc root"
    and flags: "\<not> has flags MDB_PS_MODIFY" "\<not> has flags MDB_PS_ROOTONLY"
    and choose: "\<And>lo hi p m. branch_ok psize c valid rank p lo hi \<Longrightarrow> R lo hi \<Longrightarrow> stack_ok m \<Longrightarrow>
      top_page st m = Some p \<Longrightarrow> mc_own m = mc_own mc \<Longrightarrow> mc_dbi m = mc_dbi mc \<Longrightarrow> mc_flags m = mc_flags mc \<Longrightarrow>
      \<exists>k x. branch_index st m p key flags = Some (Some k, m\<lparr>mc_ki := (mc_ki m)[mc_top m := x]\<rparr>) \<and>
        k < NUMKEYS p \<and> C p lo hi k \<and> R (lo_of rank p lo k) (hi_of rank p hi k)"
    and R: "R None None"
  shows "\<exists>mc' ks. mdb_page_search touch st mc key flags = Some (0, st, mc') \<and> at_leaf st d root ks mc' \<and>
    ro_flags mc' = ro_flags mc \<and> mc_own mc' = mc_own mc \<and> mc_dbi mc' = mc_dbi mc \<and> mc_flags mc' = arrived (mc_flags mc) \<and>
    traced (see st (ro_flags mc)) rank C d root None None ks \<and>
    (\<exists>lo' hi' p. see st (ro_flags mc) (node_at (see st (ro_flags mc)) root ks) = Some p \<and>
       leaf_ok (see st (ro_flags mc)) psize c valid rank p lo' hi' \<and> R lo' hi')"
proof -
  let ?ro = "ro_flags mc"
  note rt = root [unfolded root_ok_def]
  obtain df d0 where D: "mc_dbflag st mc = Some df" "\<not> has df DB_STALE" "mc_db st mc = Some d0" "md_root d0 = root"
    "\<not> has (mt_flags (st_txn st)) MDB_TXN_BLOCKED" using db by (auto simp: db_ready_def)
  have "see st ?ro root \<noteq> None" using rt by (cases d) auto
  then obtain b q where q: "resolve st ?ro root = Some q" "page_at st q = Some b" using see_resolve by blast
  obtain l where g: "mdb_page_get st mc root = Some (0, st, Some (q, l))" using resolve_get [OF q(1)] by blast
  have len: "length (mc_pg mc) = 32" "length (mc_ki mc) = 32" using mc by (simp_all add: fresh_or_rooted_def CURSOR_STACK_def)
  define m1 where "m1 = mc\<lparr>mc_pg := (mc_pg mc)[0 := Some q], mc_snum := 1, mc_top := 0\<rparr>"
  have "page_search_from_db touch st mc key flags = mdb_page_search_root touch st m1 key flags"
  proof (cases "mc_pg mc ! 0")
    case None
    then show ?thesis using D(3,4) rt len g flags by (simp add: page_search_from_db_def Let_def m1_def)
  next
    case (Some q')
    then have [simp]: "q' = q" using mc q(1) by (simp add: fresh_or_rooted_def)
    have same: "(mc_pg mc)[0 := Some q] = mc_pg mc" using Some by (metis \<open>q' = q\<close> list_update_id)
    then show ?thesis using D(3,4) rt len g flags Some q(2)
      by (simp add: page_search_from_db_def Let_def m1_def)
  qed
  then have run: "mdb_page_search touch st mc key flags = mdb_page_search_root touch st m1 key flags"
    using D by (simp add: mdb_page_search_def)
  have m1: "stack_ok m1" "mc_top m1 + d < CURSOR_STACK" "mc_pg m1 ! mc_top m1 = resolve st ?ro root"
    "mc_own m1 = mc_own mc" "mc_dbi m1 = mc_dbi mc" "mc_flags m1 = mc_flags mc"
    using len rt q(1) by (simp_all add: m1_def stack_ok_def CURSOR_STACK_def)
  have ro: "has (mc_flags mc) (C_ORIG_RDONLY OR C_WRITEMAP) = ?ro" by (simp add: ro_flags_def)
  have tr: "tree_ok (see st ?ro) psize c valid rank d root None None" using rt by simp
  obtain mc' ks where S: "mdb_page_search_root touch st m1 key flags = Some (0, st, mc')"
    "on_path st ?ro (mc_top m1) d root ks mc'" "stack_ok mc'" "mc_top mc' = mc_top m1 + d"
    "same_below (mc_top m1) m1 mc'" "mc_flags mc' = arrived (mc_flags mc)"
    "traced (see st ?ro) rank C d root None None ks"
    "\<exists>lo' hi'. tree_ok (see st ?ro) psize c valid rank 0 (node_at (see st ?ro) root ks) lo' hi' \<and> R lo' hi'"
    using search_root_path [OF choose ro flags(1) tr R m1(1-3) m1(4-6)] by blast
  have ro': "ro_flags mc' = ?ro" using S(6) arrived_ro by (simp add: ro_flags_def)
  have "at_leaf st d root ks mc'" using S(2,3,4) ro' by (simp add: at_leaf_def m1_def)
  then show ?thesis using run S m1 ro' by (auto simp: same_below_def)
qed

lemma page_search_first:
  fixes rank :: "bytes \<Rightarrow> 'k::linorder"
  assumes db: "db_ready st mc c root" and root: "root_ok st (ro_flags mc) psize c valid rank d root"
    and mc: "fresh_or_rooted st mc root"
  shows "\<exists>mc' ks p lo hi. mdb_page_search touch st mc key MDB_PS_FIRST = Some (0, st, mc') \<and> at_leaf st d root ks mc' \<and>
    ro_flags mc' = ro_flags mc \<and> mc_own mc' = mc_own mc \<and> mc_dbi mc' = mc_dbi mc \<and> mc_flags mc' = arrived (mc_flags mc) \<and>
    before (see st (ro_flags mc)) d root ks = [] \<and>
    see st (ro_flags mc) (node_at (see st (ro_flags mc)) root ks) = Some p \<and>
    leaf_ok (see st (ro_flags mc)) psize c valid rank p lo hi"
proof -
  have "\<exists>mc' ks. mdb_page_search touch st mc key MDB_PS_FIRST = Some (0, st, mc') \<and> at_leaf st d root ks mc' \<and>
    ro_flags mc' = ro_flags mc \<and> mc_own mc' = mc_own mc \<and> mc_dbi mc' = mc_dbi mc \<and> mc_flags mc' = arrived (mc_flags mc) \<and>
    traced (see st (ro_flags mc)) rank (\<lambda>p lo hi k. k = 0) d root None None ks \<and>
    (\<exists>lo' hi' p. see st (ro_flags mc) (node_at (see st (ro_flags mc)) root ks) = Some p \<and>
       leaf_ok (see st (ro_flags mc)) psize c valid rank p lo' hi' \<and> True)"
  proof (rule page_search_path [OF db root mc, where R = "\<lambda>_ _. True"])
    fix lo hi p m assume A: "branch_ok psize c valid rank p lo hi" "stack_ok m"
    then have b: "branch_index st m p key MDB_PS_FIRST = Some (Some 0, m\<lparr>mc_ki := (mc_ki m)[mc_top m := mc_ki m ! mc_top m]\<rparr>)"
      by (intro index_first) (simp add: stack_ok_def)
    have "0 < NUMKEYS p" using A(1) by (simp add: branch_ok_def)
    then show "\<exists>k x. branch_index st m p key MDB_PS_FIRST = Some (Some k, m\<lparr>mc_ki := (mc_ki m)[mc_top m := x]\<rparr>) \<and>
        k < NUMKEYS p \<and> k = 0 \<and> True" using b by blast
  qed (simp_all add: has_def ps_defs)
  then show ?thesis using traced_first by blast
qed

lemma page_search_routed:
  fixes rank :: "bytes \<Rightarrow> 'k::linorder"
  assumes db: "db_ready st mc c root" and root: "root_ok st (ro_flags mc) psize c valid rank d root"
    and mc: "fresh_or_rooted st mc root" and key: "valid key"
  shows "\<exists>mc' ks p lo hi. mdb_page_search touch st mc (Some key) 0 = Some (0, st, mc') \<and> at_leaf st d root ks mc' \<and>
    ro_flags mc' = ro_flags mc \<and> mc_own mc' = mc_own mc \<and> mc_dbi mc' = mc_dbi mc \<and> mc_flags mc' = arrived (mc_flags mc) \<and>
    routed (see st (ro_flags mc)) rank d root None None ks (rank key) \<and>
    see st (ro_flags mc) (node_at (see st (ro_flags mc)) root ks) = Some p \<and>
    leaf_ok (see st (ro_flags mc)) psize c valid rank p lo hi"
proof -
  let ?pg = "see st (ro_flags mc)"
  let ?C = "\<lambda>p lo hi k. in_range (lo_of rank p lo k) (hi_of rank p hi k) (rank key)"
  obtain dx db0 where D: "mc_dbx st mc = Some dx" "md_cmp dx = Some c" "mc_db st mc = Some db0"
    using db by (auto simp: db_ready_def)
  have "\<exists>mc' ks. mdb_page_search touch st mc (Some key) 0 = Some (0, st, mc') \<and> at_leaf st d root ks mc' \<and>
    ro_flags mc' = ro_flags mc \<and> mc_own mc' = mc_own mc \<and> mc_dbi mc' = mc_dbi mc \<and> mc_flags mc' = arrived (mc_flags mc) \<and>
    traced ?pg rank ?C d root None None ks \<and>
    (\<exists>lo' hi' p. ?pg (node_at ?pg root ks) = Some p \<and> leaf_ok ?pg psize c valid rank p lo' hi' \<and>
       in_range lo' hi' (rank key))"
  proof (rule page_search_path [OF db root mc, where R = "\<lambda>lo hi. in_range lo hi (rank key)"])
    fix lo hi p m
    assume A: "branch_ok psize c valid rank p lo hi" "in_range lo hi (rank key)" "stack_ok m" "top_page st m = Some p"
      "mc_own m = mc_own mc" "mc_dbi m = mc_dbi mc"
    have "mc_dbx st m = Some dx" "mc_db st m = Some db0"
      using A(5,6) D by (cases "mc_own mc", simp_all add: mc_dbx_def mc_db_def)+
    then show "\<exists>k x. branch_index st m p (Some key) 0 = Some (Some k, m\<lparr>mc_ki := (mc_ki m)[mc_top m := x]\<rparr>) \<and>
        k < NUMKEYS p \<and> ?C p lo hi k \<and> ?C p lo hi k"
      using index_key [where key = key, OF A(1) key A(2,3,4) _ D(2)] by blast
  qed (simp_all add: has_def in_range_def)
  then obtain mc' ks p lo hi where R: "mdb_page_search touch st mc (Some key) 0 = Some (0, st, mc')" "at_leaf st d root ks mc'"
    "ro_flags mc' = ro_flags mc" "mc_own mc' = mc_own mc" "mc_dbi mc' = mc_dbi mc" "mc_flags mc' = arrived (mc_flags mc)"
    "traced ?pg rank ?C d root None None ks" "?pg (node_at ?pg root ks) = Some p" "leaf_ok ?pg psize c valid rank p lo hi"
    by blast
  have "routed ?pg rank d root None None ks (rank key)"
    by (rule traced_routed [OF _ R(7)]) (simp add: in_range_def)
  then show ?thesis using R by blast
qed

lemma page_search_key:
  fixes rank :: "bytes \<Rightarrow> 'k::linorder"
  assumes db: "db_ready st mc c root" and root: "root_ok st (ro_flags mc) psize c valid rank d root"
    and mc: "fresh_or_rooted st mc root" and key: "valid key"
  shows "\<exists>mc' ks p lo hi. mdb_page_search touch st mc (Some key) 0 = Some (0, st, mc') \<and> at_leaf st d root ks mc' \<and>
    ro_flags mc' = ro_flags mc \<and> mc_own mc' = mc_own mc \<and> mc_dbi mc' = mc_dbi mc \<and> mc_flags mc' = arrived (mc_flags mc) \<and>
    (\<forall>x \<in> set (before (see st (ro_flags mc)) d root ks). rank (fst x) < rank key) \<and>
    (\<forall>x \<in> set (after (see st (ro_flags mc)) d root ks). rank key < rank (fst x)) \<and>
    see st (ro_flags mc) (node_at (see st (ro_flags mc)) root ks) = Some p \<and>
    leaf_ok (see st (ro_flags mc)) psize c valid rank p lo hi"
proof -
  obtain mc' ks p lo hi where R: "mdb_page_search touch st mc (Some key) 0 = Some (0, st, mc')" "at_leaf st d root ks mc'"
    "ro_flags mc' = ro_flags mc" "mc_own mc' = mc_own mc" "mc_dbi mc' = mc_dbi mc" "mc_flags mc' = arrived (mc_flags mc)"
    "routed (see st (ro_flags mc)) rank d root None None ks (rank key)"
    "see st (ro_flags mc) (node_at (see st (ro_flags mc)) root ks) = Some p"
    "leaf_ok (see st (ro_flags mc)) psize c valid rank p lo hi"
    using page_search_routed [where key = key, OF assms] by blast
  have "tree_ok (see st (ro_flags mc)) psize c valid rank d root None None" using root by (simp add: root_ok_def)
  from routed_around [OF this R(7)] show ?thesis using R by blast
qed

end
