(* ===== verification/Tree_Walk.thy ===== *)
theory Tree_Walk
  imports Tree_Search
begin

text \<open>
  Moving from a page to its sibling: \<open>mdb_cursor_sibling\<close> on a path of a well-formed tree.
  Paths that end above the leaves are prefixes of the paths of theory \<open>Tree\<close>.
\<close>

section \<open>Paths, one step longer\<close>

lemma node_at_snoc: "node_at pg pgno (ks @ [k]) = child_at (the (pg (node_at pg pgno ks))) k"
  by (induction ks arbitrary: pgno) auto

lemma on_path_length: "on_path st ro t d pgno ks mc \<Longrightarrow> length ks = d"
  by (induction d arbitrary: t pgno ks) auto

lemma on_path_end:
  "on_path st ro t d pgno ks mc \<Longrightarrow> see st ro (node_at (see st ro) pgno ks) \<noteq> None \<and>
    mc_pg mc ! (t + d) = resolve st ro (node_at (see st ro) pgno ks)"
proof (induction d arbitrary: t pgno ks)
  case (Suc d)
  then obtain k r p where "ks = k # r" "see st ro pgno = Some p" "on_path st ro (Suc t) d (child_at p k) r mc" by auto
  then show ?case using Suc.IH by fastforce
qed auto

lemma on_path_snoc:
  "on_path st ro t (Suc d) pgno ks mc \<longleftrightarrow>
    (\<exists>ks0 k p. ks = ks0 @ [k] \<and> on_path st ro t d pgno ks0 mc \<and> see st ro (node_at (see st ro) pgno ks0) = Some p \<and>
       mc_ki mc ! (t + d) = k \<and> k < NUMKEYS p \<and> see st ro (child_at p k) \<noteq> None \<and>
       mc_pg mc ! (Suc (t + d)) = resolve st ro (child_at p k))"
proof (induction d arbitrary: t pgno ks)
  case 0
  then show ?case by (auto simp: append_eq_Cons_conv)
next
  case (Suc d)
  let ?S = "\<lambda>ks. \<exists>ks0 k p. ks = ks0 @ [k] \<and> on_path st ro t (Suc d) pgno ks0 mc \<and> see st ro (node_at (see st ro) pgno ks0) = Some p \<and>
       mc_ki mc ! (t + Suc d) = k \<and> k < NUMKEYS p \<and> see st ro (child_at p k) \<noteq> None \<and>
       mc_pg mc ! (Suc (t + Suc d)) = resolve st ro (child_at p k)"
  show ?case
  proof
    assume "on_path st ro t (Suc (Suc d)) pgno ks mc"
    then obtain k r p where k: "ks = k # r" "see st ro pgno = Some p" "mc_pg mc ! t = resolve st ro pgno"
      "mc_ki mc ! t = k" "k < NUMKEYS p" "on_path st ro (Suc t) (Suc d) (child_at p k) r mc" by auto
    obtain ks0 k' p' where k': "r = ks0 @ [k']" "on_path st ro (Suc t) d (child_at p k) ks0 mc"
      "see st ro (node_at (see st ro) (child_at p k) ks0) = Some p'"
      "mc_ki mc ! (Suc t + d) = k'" "k' < NUMKEYS p'" "see st ro (child_at p' k') \<noteq> None"
      "mc_pg mc ! (Suc (Suc t + d)) = resolve st ro (child_at p' k')"
      using Suc.IH k(6) by blast
    show "?S ks"
      by (rule exI [of _ "k # ks0"], rule exI [of _ k'], rule exI [of _ p']) (use k k' in auto)
  next
    assume "?S ks"
    then obtain ks0 k' p' where k': "ks = ks0 @ [k']" "on_path st ro t (Suc d) pgno ks0 mc"
      "see st ro (node_at (see st ro) pgno ks0) = Some p'" "mc_ki mc ! (t + Suc d) = k'" "k' < NUMKEYS p'"
      "see st ro (child_at p' k') \<noteq> None" "mc_pg mc ! (Suc (t + Suc d)) = resolve st ro (child_at p' k')" by blast
    then obtain k r p where k: "ks0 = k # r" "see st ro pgno = Some p" "mc_pg mc ! t = resolve st ro pgno"
      "mc_ki mc ! t = k" "k < NUMKEYS p" "on_path st ro (Suc t) d (child_at p k) r mc" by auto
    have "on_path st ro (Suc t) (Suc d) (child_at p k) (r @ [k']) mc"
      unfolding Suc.IH by (rule exI [of _ r], rule exI [of _ k'], rule exI [of _ p']) (use k k' in auto)
    then show "on_path st ro t (Suc (Suc d)) pgno ks mc" using k k'(1) by simp
  qed
qed

section \<open>What lies left and right of a page inside the tree\<close>

lemma good_snoc:
  "good_path pg (Suc d) pgno (ks @ [k]) \<longleftrightarrow>
    good_path pg d pgno ks \<and> (\<exists>p. pg (node_at pg pgno ks) = Some p \<and> k < NUMKEYS p)"
proof (induction ks arbitrary: pgno d)
  case Nil
  then show ?case by (cases d) auto
next
  case (Cons a ks)
  show ?case using Cons.IH by (cases d) auto
qed

lemma before_snoc:
  "good_path pg d pgno ks \<Longrightarrow> d < h \<Longrightarrow> pg (node_at pg pgno ks) = Some p \<Longrightarrow>
    before pg h pgno (ks @ [k]) = before pg h pgno ks @ concat (map (\<lambda>i. items pg (h - Suc d) (child_at p i)) [0..<k])"
proof (induction d arbitrary: h pgno ks)
  case 0
  then obtain h' where "h = Suc h'" by (cases h) auto
  then show ?case using 0 by (simp add: Let_def)
next
  case (Suc d)
  then obtain a r q where a: "ks = a # r" "pg pgno = Some q" "good_path pg d (child_at q a) r" by auto
  obtain h' where h: "h = Suc h'" "d < h'" using Suc.prems(2) by (cases h) auto
  show ?case using Suc.IH [OF a(3) h(2)] Suc.prems(3) a h(1) by (simp add: Let_def)
qed

lemma after_snoc:
  "good_path pg d pgno ks \<Longrightarrow> d < h \<Longrightarrow> pg (node_at pg pgno ks) = Some p \<Longrightarrow>
    after pg h pgno (ks @ [k]) =
      concat (map (\<lambda>i. items pg (h - Suc d) (child_at p i)) [Suc k..<NUMKEYS p]) @ after pg h pgno ks"
proof (induction d arbitrary: h pgno ks)
  case 0
  then obtain h' where "h = Suc h'" by (cases h) auto
  then show ?case using 0 by (cases h') (simp_all add: Let_def)
next
  case (Suc d)
  then obtain a r q where a: "ks = a # r" "pg pgno = Some q" "good_path pg d (child_at q a) r" by auto
  obtain h' where h: "h = Suc h'" "d < h'" using Suc.prems(2) by (cases h) auto
  show ?case using Suc.IH [OF a(3) h(2)] Suc.prems(3) a h(1) by (simp add: Let_def)
qed

lemma tree_ok_at:
  "tree_ok pg psize c valid rank h pgno lo hi \<Longrightarrow> good_path pg d pgno ks \<Longrightarrow> d \<le> h \<Longrightarrow>
    \<exists>lo' hi'. tree_ok pg psize c valid rank (h - d) (node_at pg pgno ks) lo' hi'"
proof (induction d arbitrary: h pgno lo hi ks)
  case (Suc d)
  then obtain a r q where a: "ks = a # r" "pg pgno = Some q" "a < NUMKEYS q" "good_path pg d (child_at q a) r" by auto
  obtain h' where h: "h = Suc h'" "d \<le> h'" using Suc.prems(3) by (cases h) auto
  have "tree_ok pg psize c valid rank h' (child_at q a) (lo_of rank q lo a) (hi_of rank q hi a)"
    using Suc.prems(1) a h(1) by auto
  then show ?case using Suc.IH a h by fastforce
qed auto

section \<open>The right sibling\<close>

lemma tree_branch:
  "tree_ok pg psize c valid rank (Suc d) pgno lo hi \<Longrightarrow> pg pgno = Some p \<Longrightarrow> k < NUMKEYS p \<Longrightarrow>
    branch_ok psize c valid rank p lo hi \<and> pg (child_at p k) \<noteq> None"
  by (cases d) auto

text \<open>After the move to entry \<open>k\<close> of the branch page on top, the step down to its child.\<close>

lemma sibling_step:
  assumes p: "see st (ro_flags mc) (node_at (see st (ro_flags mc)) root ks) = Some p"
    and b: "branch_ok psize c valid rank p lo hi" and k: "k < NUMKEYS p" "see st (ro_flags mc) (child_at p k) \<noteq> None"
    and path: "on_path st (ro_flags mc) 0 d root ks mc" and st: "stack_ok mc" "mc_top mc = d" "Suc d < CURSOR_STACK"
    and ki: "mc_ki mc ! d = k"
  shows "\<exists>mc'. sibling_child st mc True = Some (0, st, mc') \<and>
    on_path st (ro_flags mc) 0 (Suc d) root (ks @ [k]) mc' \<and> stack_ok mc' \<and> mc_top mc' = Suc d \<and>
    mc_ki mc' ! Suc d = 0 \<and> mc_flags mc' = mc_flags mc \<and> mc_own mc' = mc_own mc \<and> mc_dbi mc' = mc_dbi mc"
proof -
  let ?ro = "ro_flags mc"
  have ok: "page_ok psize p" "IS_BRANCH p" using b by (simp_all add: branch_ok_def)
  note n = page_node [OF ok(1) k(1)]
  obtain q where q: "resolve st ?ro (child_at p k) = Some q" using k(2) see_resolve by blast
  obtain l where g: "mdb_page_get st mc (child_at p k) = Some (0, st, Some (q, l))" using resolve_get [OF q] by blast
  have len: "length (mc_pg mc) = 32" "length (mc_ki mc) = 32" "mc_snum mc = Suc d" "Suc d < 32"
    using st by (simp_all add: stack_ok_def CURSOR_STACK_def)
  have top: "top_page st mc = Some p"
    using top_page_eq [of mc st ?ro "node_at (see st ?ro) root ks"] on_path_end [OF path] p st len by simp
  let ?mc = "mc\<lparr>mc_top := Suc d, mc_snum := Suc (Suc d), mc_pg := (mc_pg mc)[Suc d := Some q], mc_ki := (mc_ki mc)[Suc d := 0]\<rparr>"
  have p2: "on_path st ?ro 0 d root ks ?mc" by (rule on_path_cong [OF path]) auto
  have "on_path st ?ro 0 (Suc d) root (ks @ [k]) ?mc"
    unfolding on_path_snoc by (rule exI [of _ ks], rule exI [of _ k], rule exI [of _ p]) (use p2 p k q ki len in auto)
  moreover have "stack_ok ?mc" using len by (simp add: stack_ok_def CURSOR_STACK_def)
  ultimately show ?thesis
    using top ok(2) n ki g len st(2) by (intro exI [of _ ?mc]) (simp add: sibling_child_def mdb_cursor_push_def CURSOR_STACK_def)
qed

lemma popped:
  assumes "stack_ok mc" "mc_top mc = Suc d"
  shows "mdb_cursor_pop mc = mc\<lparr>mc_snum := Suc d, mc_top := d\<rparr>" "stack_ok (mdb_cursor_pop mc)"
    "mc_top (mdb_cursor_pop mc) = d" "mc_ki (mdb_cursor_pop mc) = mc_ki mc" "mc_pg (mdb_cursor_pop mc) = mc_pg mc"
    "mc_flags (mdb_cursor_pop mc) = mc_flags mc" "mc_own (mdb_cursor_pop mc) = mc_own mc" "mc_dbi (mdb_cursor_pop mc) = mc_dbi mc"
proof -
  have "Suc d < 32" "mc_snum mc = Suc (Suc d)" using assms by (simp_all add: stack_ok_def CURSOR_STACK_def)
  then have e: "(Suc d + 65535) mod 65536 = d" by simp
  show p: "mdb_cursor_pop mc = mc\<lparr>mc_snum := Suc d, mc_top := d\<rparr>"
    using assms(2) \<open>mc_snum mc = _\<close> e by (simp add: mdb_cursor_pop_def Let_def)
  show "stack_ok (mdb_cursor_pop mc)" "mc_top (mdb_cursor_pop mc) = d" "mc_ki (mdb_cursor_pop mc) = mc_ki mc"
    "mc_pg (mdb_cursor_pop mc) = mc_pg mc" "mc_flags (mdb_cursor_pop mc) = mc_flags mc"
    "mc_own (mdb_cursor_pop mc) = mc_own mc" "mc_dbi (mdb_cursor_pop mc) = mc_dbi mc"
    using assms unfolding p by (simp_all add: stack_ok_def)
qed

text \<open>
  Moving right from a page at depth \<open>d\<close>: either nothing lies to its right and the cursor is
  unchanged, or it ends on the next page of that depth.
\<close>

lemma sibling_right:
  assumes tree: "tree_ok (see st ro) psize c valid rank h root lo hi"
    and path: "on_path st ro 0 d root ks mc" and st: "stack_ok mc" "mc_top mc = d" and d: "d \<le> h" and ro: "ro_flags mc = ro"
  shows "mdb_cursor_sibling st mc True = Some (MDB_NOTFOUND, st, mc) \<and> after (see st ro) h root ks = [] \<or>
    (\<exists>mc' ks'. mdb_cursor_sibling st mc True = Some (0, st, mc') \<and> on_path st ro 0 d root ks' mc' \<and> stack_ok mc' \<and>
      mc_top mc' = d \<and> mc_ki mc' ! d = 0 \<and> mc_flags mc' = mc_flags mc \<and> mc_own mc' = mc_own mc \<and> mc_dbi mc' = mc_dbi mc \<and>
      before (see st ro) h root ks' = before (see st ro) h root ks @ items (see st ro) (h - d) (node_at (see st ro) root ks) \<and>
      after (see st ro) h root ks = items (see st ro) (h - d) (node_at (see st ro) root ks') @ after (see st ro) h root ks')"
  using path st d ro
proof (induction d arbitrary: ks mc)
  case 0
  have "mc_snum mc < 2" using 0(2,3) by (simp add: stack_ok_def)
  moreover have "ks = []" using 0(1) by simp
  ultimately show ?case by (subst mdb_cursor_sibling.simps) (cases h, simp_all)
next
  case (Suc d)
  let ?pg = "see st ro"
  obtain ks0 k p where k: "ks = ks0 @ [k]" "on_path st ro 0 d root ks0 mc" "?pg (node_at ?pg root ks0) = Some p"
    "mc_ki mc ! d = k" "k < NUMKEYS p" using Suc.prems(1) unfolding on_path_snoc by auto
  have good: "good_path ?pg d root ks0" by (rule on_path_good [OF k(2)])
  obtain h' where h': "h - d = Suc h'" "h - Suc d = h'" using Suc.prems(4) by (metis Suc_diff_Suc Suc_le_lessD)
  obtain lo' hi' where t0: "tree_ok ?pg psize c valid rank (Suc h') (node_at ?pg root ks0) lo' hi'"
    using tree_ok_at [OF tree good] Suc.prems(4) h' by fastforce
  have b: "branch_ok psize c valid rank p lo' hi'" using t0 k(3) by auto
  have dh: "d < h" using Suc.prems(4) by simp
  note bef = before_snoc [OF good dh k(3)] and aft = after_snoc [OF good dh k(3)]
  define mp where "mp = mdb_cursor_pop mc"
  note pop = popped [OF Suc.prems(2,3), folded mp_def]
  have len: "length (mc_ki mc) = 32" "length (mc_pg mc) = 32" "Suc d < 32" "mc_snum mc = Suc (Suc d)"
    using Suc.prems(2,3) by (simp_all add: stack_ok_def CURSOR_STACK_def)
  have path0: "on_path st ro 0 d root ks0 mp" by (rule on_path_cong [OF k(2)]) (simp_all add: pop)
  have rof: "ro_flags mp = ro" using Suc.prems(5) pop by (simp add: ro_flags_def)
  have top: "top_page st mp = Some p"
    using top_page_eq [of mp st ro "node_at ?pg root ks0"] on_path_end [OF path0] k(3) pop len by simp
  have kk: "ki_at mp = Some k" using pop len k(4) by simp
  have its: "items ?pg (h - d) (node_at ?pg root ks0) = concat (map (\<lambda>i. items ?pg h' (child_at p i)) [0..<NUMKEYS p])"
    using h'(1) k(3) by simp
  show ?case
  proof (cases "k + 1 \<ge> NUMKEYS p")
    case False
    let ?m1 = "mp\<lparr>mc_ki := (mc_ki mp)[d := k + 1]\<rparr>"
    have small: "(k + 1) mod 65536 = k + 1" using False NUMKEYS_small [of psize p] b by (simp add: branch_ok_def)
    have p1: "on_path st ro 0 d root ks0 ?m1" by (rule on_path_cong [OF path0]) auto
    have r1: "ro_flags ?m1 = ro" using rof by (simp add: ro_flags_def)
    have ch: "?pg (child_at p (k + 1)) \<noteq> None" using tree_branch [OF t0 k(3), of "k + 1"] False by simp
    have st1: "stack_ok ?m1" "mc_top ?m1 = d" "mc_ki ?m1 ! d = k + 1" using pop len by (simp_all add: stack_ok_def)
    have cs: "Suc d < CURSOR_STACK" using len by (simp add: CURSOR_STACK_def)
    obtain mc' where mc': "sibling_child st ?m1 True = Some (0, st, mc')" "on_path st ro 0 (Suc d) root (ks0 @ [k + 1]) mc'"
      "stack_ok mc'" "mc_top mc' = Suc d" "mc_ki mc' ! Suc d = 0" "mc_flags mc' = mc_flags ?m1" "mc_own mc' = mc_own ?m1"
      "mc_dbi mc' = mc_dbi ?m1"
      using sibling_step [of st ?m1 root ks0 p psize c valid rank lo' hi' "k + 1" d] p1 r1 k(3) b ch st1 cs False by auto
    have run: "mdb_cursor_sibling st mc True = Some (0, st, mc')"
      using top kk False mc'(1) pop(3) len small
      by (subst mdb_cursor_sibling.simps) (simp add: mp_def [symmetric] Let_def pop(4))
    have u: "[Suc k..<NUMKEYS p] = Suc k # [Suc (Suc k)..<NUMKEYS p]" using False by (simp add: upt_conv_Cons)
    have nk: "node_at ?pg root (ks0 @ [j]) = child_at p j" for j using k(3) by (simp add: node_at_snoc)
    show ?thesis
      using run mc' pop k(1) bef [of k] bef [of "Suc k"] aft [of k] aft [of "Suc k"] h' u nk
      by (intro disjI2 exI [of _ mc'] exI [of _ "ks0 @ [k + 1]"]) simp
  next
    case True
    then have kn: "NUMKEYS p = Suc k" using k(5) by simp
    from Suc.IH [OF path0 pop(2,3) _ rof] Suc.prems(4)
    consider (none) "mdb_cursor_sibling st mp True = Some (MDB_NOTFOUND, st, mp)" "after ?pg h root ks0 = []"
      | (some) m1 ks1 where "mdb_cursor_sibling st mp True = Some (0, st, m1)" "on_path st ro 0 d root ks1 m1" "stack_ok m1"
        "mc_top m1 = d" "mc_ki m1 ! d = 0" "mc_flags m1 = mc_flags mp" "mc_own m1 = mc_own mp" "mc_dbi m1 = mc_dbi mp"
        "before ?pg h root ks1 = before ?pg h root ks0 @ items ?pg (h - d) (node_at ?pg root ks0)"
        "after ?pg h root ks0 = items ?pg (h - d) (node_at ?pg root ks1) @ after ?pg h root ks1" by auto
    then show ?thesis
    proof cases
      case none
      have undo: "mp\<lparr>mc_top := (mc_top mp + 1) mod 2 ^ 16, mc_snum := (mc_snum mp + 1) mod 2 ^ 16\<rparr> = mc"
        using pop(1) len Suc.prems(3) by simp
      have "mdb_cursor_sibling st mc True = Some (MDB_NOTFOUND, st, mc)"
        using top kk True none(1) undo len
        by (subst mdb_cursor_sibling.simps) (simp add: mp_def [symmetric] Let_def MDB_NOTFOUND_def)
      then show ?thesis using none(2) aft [of k] k(1) kn by simp
    next
      case some
      have good1: "good_path ?pg d root ks1" by (rule on_path_good [OF some(2)])
      obtain lo1 hi1 where t1: "tree_ok ?pg psize c valid rank (Suc h') (node_at ?pg root ks1) lo1 hi1"
        using tree_ok_at [OF tree good1] Suc.prems(4) h' by fastforce
      then obtain p1 where p1: "?pg (node_at ?pg root ks1) = Some p1" "branch_ok psize c valid rank p1 lo1 hi1" by auto
      have n1: "0 < NUMKEYS p1" using p1(2) by (simp add: branch_ok_def)
      have r1: "ro_flags m1 = ro" using some(6) rof by (simp add: ro_flags_def)
      have cs: "Suc d < CURSOR_STACK" using len by (simp add: CURSOR_STACK_def)
      have ch: "?pg (child_at p1 0) \<noteq> None" using tree_branch [OF t1 p1(1) n1] by simp
      obtain mc' where mc': "sibling_child st m1 True = Some (0, st, mc')" "on_path st ro 0 (Suc d) root (ks1 @ [0]) mc'"
        "stack_ok mc'" "mc_top mc' = Suc d" "mc_ki mc' ! Suc d = 0" "mc_flags mc' = mc_flags m1" "mc_own mc' = mc_own m1"
        "mc_dbi mc' = mc_dbi m1"
        using sibling_step [of st m1 root ks1 p1 psize c valid rank lo1 hi1 0 d] some(2-5) r1 p1 n1 ch cs by auto
      have run: "mdb_cursor_sibling st mc True = Some (0, st, mc')"
        using top kk True some(1) mc'(1) len
        by (subst mdb_cursor_sibling.simps) (simp add: mp_def [symmetric] Let_def)
      have nk: "node_at ?pg root (ks0 @ [k]) = child_at p k" "node_at ?pg root (ks1 @ [0]) = child_at p1 0"
        using k(3) p1(1) by (simp_all add: node_at_snoc)
      have its1: "items ?pg (h - d) (node_at ?pg root ks1) =
          items ?pg h' (child_at p1 0) @ concat (map (\<lambda>i. items ?pg h' (child_at p1 i)) [Suc 0..<NUMKEYS p1])"
        using h'(1) p1(1) n1 by (simp add: upt_conv_Cons)
      have "before ?pg h root (ks1 @ [0]) = before ?pg h root (ks0 @ [k]) @ items ?pg (h - Suc d) (child_at p k)"
        using before_snoc [OF good1 dh p1(1), of 0] bef [of k] some(9) its h' kn by simp
      moreover have "after ?pg h root (ks0 @ [k]) = items ?pg (h - Suc d) (child_at p1 0) @ after ?pg h root (ks1 @ [0])"
        using after_snoc [OF good1 dh p1(1), of 0] aft [of k] some(10) its1 h' kn by simp
      ultimately show ?thesis
        using run mc' some(6-8) pop k(1) nk by (intro disjI2 exI [of _ mc'] exI [of _ "ks1 @ [0]"]) simp
    qed
  qed
qed

end
