(* ===== verification/Tree_Ops.thy ===== *)
theory Tree_Ops
  imports Tree_Walk
begin

text \<open>
  The read operations on a well-formed tree, as operations on the sorted list of its items:
  \<open>cursor_at pre post\<close> says that the cursor stands before the items \<open>post\<close> and after the items \<open>pre\<close>.
\<close>

section \<open>The position of a cursor\<close>

definition cursor_at ::
    "'a st_scheme \<Rightarrow> nat \<Rightarrow> cmp_fn \<Rightarrow> (bytes \<Rightarrow> bool) \<Rightarrow> (bytes \<Rightarrow> 'k::linorder) \<Rightarrow> nat \<Rightarrow> u64 \<Rightarrow> cursor \<Rightarrow>
     (bytes \<times> bytes) list \<Rightarrow> (bytes \<times> bytes) list \<Rightarrow> bool" where
  "cursor_at st psize c valid rank d root mc pre post \<longleftrightarrow>
     (\<exists>ks p lo hi. at_leaf st d root ks mc \<and> has_init mc \<and>
        see st (ro_flags mc) (node_at (see st (ro_flags mc)) root ks) = Some p \<and>
        leaf_ok (see st (ro_flags mc)) psize c valid rank p lo hi \<and> mc_ki mc ! d < NUMKEYS p \<and>
        pre = before (see st (ro_flags mc)) d root ks @ take (mc_ki mc ! d) (leaf_items (see st (ro_flags mc)) p) \<and>
        post = drop (mc_ki mc ! d) (leaf_items (see st (ro_flags mc)) p) @ after (see st (ro_flags mc)) d root ks)"

lemma at_leaf_items:
  assumes "at_leaf st d root ks mc" "see st (ro_flags mc) (node_at (see st (ro_flags mc)) root ks) = Some p"
  shows "items (see st (ro_flags mc)) d root =
    before (see st (ro_flags mc)) d root ks @ leaf_items (see st (ro_flags mc)) p @ after (see st (ro_flags mc)) d root ks"
  using items_split [OF on_path_good, of st "ro_flags mc" 0 d root ks mc] assms by (simp add: at_leaf_def)

lemma cursor_at_items:
  "cursor_at st psize c valid rank d root mc pre post \<Longrightarrow> items (see st (ro_flags mc)) d root = pre @ post"
  using at_leaf_items by (fastforce simp: cursor_at_def)

lemma at_leaf_top:
  assumes "at_leaf st d root ks mc" "see st (ro_flags mc) (node_at (see st (ro_flags mc)) root ks) = Some p"
  shows "top_page st mc = Some p"
proof -
  have st: "stack_ok mc" "mc_top mc = d" "on_path st (ro_flags mc) 0 d root ks mc" using assms(1) by (simp_all add: at_leaf_def)
  then show ?thesis
    using top_page_eq [of mc st "ro_flags mc" "node_at (see st (ro_flags mc)) root ks"] on_path_end [OF st(3)] assms(2)
    by (simp add: stack_ok_def)
qed

lemma at_leaf_upd:
  "at_leaf st d root ks mc \<Longrightarrow> ro_flags (mc\<lparr>mc_flags := f\<rparr>) = ro_flags mc \<Longrightarrow>
    at_leaf st d root ks (mc\<lparr>mc_flags := f, mc_ki := (mc_ki mc)[d := k]\<rparr>)"
proof -
  assume a: "at_leaf st d root ks mc" and r: "ro_flags (mc\<lparr>mc_flags := f\<rparr>) = ro_flags mc"
  have "on_path st (ro_flags mc) 0 d root ks (mc\<lparr>mc_flags := f, mc_ki := (mc_ki mc)[d := k]\<rparr>)"
    by (rule on_path_cong [of st "ro_flags mc" 0 d root ks mc]) (use a in \<open>simp_all add: at_leaf_def\<close>)
  moreover have "ro_flags (mc\<lparr>mc_flags := f, mc_ki := (mc_ki mc)[d := k]\<rparr>) = ro_flags mc"
    using r by (simp add: ro_flags_def)
  ultimately show ?thesis using a by (simp add: at_leaf_def stack_ok_def)
qed

lemma leaf_kind:
  "leaf_ok pg psize c valid rank p lo hi \<Longrightarrow> page_ok psize p \<and> IS_LEAF p \<and> \<not> IS_LEAF2 p \<and> 0 < NUMKEYS p"
  by (simp add: leaf_ok_def)

lemma length_leaf_items [simp]: "length (leaf_items pg p) = NUMKEYS p"
  by (simp add: leaf_items_def)

lemma nth_leaf_items: "k < NUMKEYS p \<Longrightarrow> leaf_items pg p ! k = (key_at p k, the (value_at pg p k))"
  by (simp add: leaf_items_def)

section \<open>Returning the entry under the cursor\<close>

text \<open>What is stored to \<open>data\<close>: nothing when the pointer is null.\<close>

abbreviation out :: "val \<Rightarrow> bytes \<Rightarrow> val" where
  "out d0 v \<equiv> map_option (\<lambda>_. v) d0"


lemma leaf_read:
  assumes l: "leaf_ok (see st (ro_flags mc)) psize c valid rank p lo hi" and k: "k < NUMKEYS p"
  shows "NODEPTR p k = Some (pt p k)" "is_dup p (pt p k) = Some False"
    "mdb_node_read st mc p (pt p k) = Some (0, st, Some (snd (leaf_items (see st (ro_flags mc)) p ! k)))"
    "MDB_GET_KEY p (pt p k) (Some k0) = Some (Some (fst (leaf_items (see st (ro_flags mc)) p ! k)))"
proof -
  have ok: "page_ok psize p" "IS_LEAF p" using l by (simp_all add: leaf_ok_def)
  note n = page_node [OF ok(1) k]
  show "NODEPTR p k = Some (pt p k)" by (rule n(1))
  show "is_dup p (pt p k) = Some False" using n(3) l k by (simp add: leaf_ok_def)
  obtain v where v: "value_at (see st (ro_flags mc)) p k = Some v" using l k by (auto simp: leaf_ok_def)
  show "mdb_node_read st mc p (pt p k) = Some (0, st, Some (snd (leaf_items (see st (ro_flags mc)) p ! k)))"
    using node_read_eq [OF ok k v] v k by (simp add: nth_leaf_items)
  show "MDB_GET_KEY p (pt p k) (Some k0) = Some (Some (fst (leaf_items (see st (ro_flags mc)) p ! k)))"
    using n(4) k by (simp add: MDB_GET_KEY_def nth_leaf_items)
qed

lemma first_last_return_eq:
  assumes l: "leaf_ok (see st (ro_flags mc)) psize c valid rank p lo hi" and k: "k < NUMKEYS p"
  shows "first_last_return sub st (mc, None) p (pt p k) i (Some k0) d0 =
    Some (0, st, (mc, None), Some (fst (leaf_items (see st (ro_flags mc)) p ! k)), out d0 (snd (leaf_items (see st (ro_flags mc)) p ! k)))"
  using leaf_read [OF l k] leaf_kind [OF l] by (cases d0) (simp_all add: first_last_return_def)

lemma move_return_eq:
  assumes l: "leaf_ok (see st (ro_flags mc)) psize c valid rank p lo hi" and k: "k < NUMKEYS p" "ki_at mc = Some k"
  shows "move_return sub st (mc, None) p (Some k0) d0 =
    Some (0, st, (mc, None), Some (fst (leaf_items (see st (ro_flags mc)) p ! k)), out d0 (snd (leaf_items (see st (ro_flags mc)) p ! k)))"
  using leaf_read [OF l k(1)] leaf_kind [OF l] k by (cases d0) (simp_all add: move_return_def)

section \<open>First\<close>

lemma arrived_init: "has (arrived f) C_INITIALIZED" "\<not> has (arrived f) C_EOF"
proof -
  have "bit (arrived f AND C_INITIALIZED) 0" by (simp add: arrived_def bit_simps C_INITIALIZED_def C_EOF_def)
  then show "has (arrived f) C_INITIALIZED" by (auto simp: has_def)
  have "arrived f AND C_EOF = 0" by (rule bit_word_eqI) (auto simp: arrived_def bit_simps)
  then show "\<not> has (arrived f) C_EOF" by (simp add: has_def)
qed

lemma arrived_del: "has (arrived f) C_DEL = has f C_DEL"
proof -
  have "arrived f AND C_DEL = f AND C_DEL"
    by (rule bit_word_eqI) (auto simp: arrived_def bit_simps C_INITIALIZED_def C_EOF_def C_DEL_def)
  then show ?thesis by (simp add: has_def)
qed

lemma arrived_arrived [simp]: "arrived (arrived f) = arrived f"
  by (rule bit_word_eqI) (auto simp: arrived_def bit_simps C_INITIALIZED_def C_EOF_def)

lemma ro_flags_arrived [simp]: "ro_flags (mc\<lparr>mc_flags := arrived (mc_flags mc)\<rparr>) = ro_flags mc"
  using arrived_ro by (simp add: ro_flags_def)

text \<open>A cursor that has not been used yet, or stands somewhere in the tree.\<close>

definition usable ::
    "'a st_scheme \<Rightarrow> nat \<Rightarrow> cmp_fn \<Rightarrow> (bytes \<Rightarrow> bool) \<Rightarrow> (bytes \<Rightarrow> 'k::linorder) \<Rightarrow> nat \<Rightarrow> u64 \<Rightarrow> cursor \<Rightarrow> bool" where
  "usable st psize c valid rank d root mc \<longleftrightarrow>
     \<not> has_init mc \<and> fresh_or_rooted st mc root \<or> (\<exists>pre post. cursor_at st psize c valid rank d root mc pre post)"

lemma usable_rooted: "usable st psize c valid rank d root mc \<Longrightarrow> fresh_or_rooted st mc root"
proof -
  have "fresh_or_rooted st mc root" if "at_leaf st d root ks mc" for ks
    using that by (cases d) (auto simp: at_leaf_def fresh_or_rooted_def stack_ok_def)
  then show "usable st psize c valid rank d root mc \<Longrightarrow> fresh_or_rooted st mc root"
    by (auto simp: usable_def cursor_at_def)
qed

lemma cursor_first_eq:
  assumes db: "db_ready st mc c root" and root: "root_ok st (ro_flags mc) psize c valid rank d root"
    and mc: "usable st psize c valid rank d root mc"
  shows "\<exists>mc' x xs. mdb_cursor_first st (mc, None) (Some k0) d0 = Some (0, st, (mc', None), Some (fst x), out d0 (snd x)) \<and>
    items (see st (ro_flags mc)) d root = x # xs \<and> cursor_at st psize c valid rank d root mc' [] (x # xs) \<and>
    ro_flags mc' = ro_flags mc \<and> mc_own mc' = mc_own mc \<and> mc_dbi mc' = mc_dbi mc \<and> \<not> has (mc_flags mc') C_EOF \<and>
    has (mc_flags mc') C_DEL = has (mc_flags mc) C_DEL"
proof -
  let ?pg = "see st (ro_flags mc)"
  have "\<exists>m1 ks p lo hi. (if \<not> has_init mc \<or> mc_top mc \<noteq> 0 then mdb_page_search no_touch st mc None MDB_PS_FIRST
      else Some (0, st, mc)) = Some (0, st, m1) \<and> at_leaf st d root ks m1 \<and> ro_flags m1 = ro_flags mc \<and>
      mc_own m1 = mc_own mc \<and> mc_dbi m1 = mc_dbi mc \<and> before ?pg d root ks = [] \<and>
      has (mc_flags m1) C_DEL = has (mc_flags mc) C_DEL \<and>
      ?pg (node_at ?pg root ks) = Some p \<and> leaf_ok ?pg psize c valid rank p lo hi"
  proof (cases "\<not> has_init mc \<or> mc_top mc \<noteq> 0")
    case True
    then show ?thesis using page_search_first [OF db root usable_rooted [OF mc], of no_touch None] arrived_del by fastforce
  next
    case False
    then obtain ks p lo hi where a: "at_leaf st d root ks mc" "?pg (node_at ?pg root ks) = Some p"
      "leaf_ok ?pg psize c valid rank p lo hi" using mc by (auto simp: usable_def cursor_at_def)
    moreover have "before ?pg d root ks = []" using a(1) False by (cases d) (auto simp: at_leaf_def)
    ultimately show ?thesis using False by auto
  qed
  then obtain m1 ks p lo hi where M: "(if \<not> has_init mc \<or> mc_top mc \<noteq> 0 then mdb_page_search no_touch st mc None MDB_PS_FIRST
      else Some (0, st, mc)) = Some (0, st, m1)" "at_leaf st d root ks m1" "ro_flags m1 = ro_flags mc"
      "mc_own m1 = mc_own mc" "mc_dbi m1 = mc_dbi mc" "before ?pg d root ks = []"
      "?pg (node_at ?pg root ks) = Some p" "leaf_ok ?pg psize c valid rank p lo hi"
      "has (mc_flags m1) C_DEL = has (mc_flags mc) C_DEL" by blast
  have top: "top_page st m1 = Some p" by (rule at_leaf_top [OF M(2)]) (simp add: M(3,7))
  note lk = leaf_kind [OF M(8)]
  have len: "mc_top m1 = d" "d < length (mc_ki m1)" using M(2) by (simp_all add: at_leaf_def stack_ok_def)
  define m2 where "m2 = m1\<lparr>mc_flags := arrived (mc_flags m1), mc_ki := (mc_ki m1)[d := 0]\<rparr>"
  have a2: "at_leaf st d root ks m2" unfolding m2_def by (rule at_leaf_upd [OF M(2)]) simp
  have r2: "ro_flags m2 = ro_flags mc" using M(3) arrived_ro by (simp add: m2_def ro_flags_def)
  have p0: "NODEPTR p 0 = Some (pt p 0)" by (rule leaf_read(1) [OF M(8) [folded r2]]) (use lk in simp)
  have ret: "first_last_return sub_first st (m2, None) p (pt p 0) 0 (Some k0) d0 =
      Some (0, st, (m2, None), Some (fst (leaf_items ?pg p ! 0)), out d0 (snd (leaf_items ?pg p ! 0)))"
    using first_last_return_eq [OF M(8) [folded r2]] lk r2 by simp
  have run: "mdb_cursor_first st (mc, None) (Some k0) d0 =
      Some (0, st, (m2, None), Some (fst (leaf_items ?pg p ! 0)), out d0 (snd (leaf_items ?pg p ! 0)))"
    using M(1) top lk p0 len ret
    by (simp add: mdb_cursor_first_def cursor_first_body_def reset_sub_def m2_def arrived_def split: if_splits)
  obtain x ys where ys: "leaf_items ?pg p = x # ys"
    using lk length_leaf_items [of ?pg p] by (cases "leaf_items ?pg p") auto
  have it: "items ?pg d root = x # ys @ after ?pg d root ks"
    using at_leaf_items [OF M(2), of p] M(3,6,7) ys by simp
  have "cursor_at st psize c valid rank d root m2 [] (x # ys @ after ?pg d root ks)"
    unfolding cursor_at_def r2
    by (rule exI [of _ ks], rule exI [of _ p], rule exI [of _ lo], rule exI [of _ hi])
      (use a2 M(6,7,8) lk ys arrived_init(1) [of "mc_flags m1"] len in \<open>simp add: m2_def has_init_def\<close>)
  then show ?thesis using run it ys r2 M(4,5,9) arrived_init(2) [of "mc_flags m1"] arrived_del [of "mc_flags m1"]
    by (auto simp: m2_def)
qed

section \<open>Next\<close>

lemma flags_disj:
  "C_EOF AND (C_ORIG_RDONLY OR C_WRITEMAP) = 0" "C_EOF AND C_INITIALIZED = 0" "C_EOF AND C_DEL = 0" "C_EOF \<noteq> 0"
  by (simp_all add: cursor_flag_defs env_flag_defs)

lemma clear_eof [simp]:
  "ro_flags (clear_flags C_EOF mc) = ro_flags mc" "has_init (clear_flags C_EOF mc) = has_init mc"
  "has (mc_flags (clear_flags C_EOF mc)) C_DEL = has (mc_flags mc) C_DEL"
  by (simp_all add: ro_flags_def has_init_def clear_flags_def has_andnot flags_disj)

lemma set_eof [simp]:
  "ro_flags (mc\<lparr>mc_flags := mc_flags mc OR C_EOF\<rparr>) = ro_flags mc"
  "has_init (mc\<lparr>mc_flags := mc_flags mc OR C_EOF\<rparr>) = has_init mc"
  "has (f OR C_EOF) C_DEL = has f C_DEL" "has (f OR C_EOF) C_EOF"
  by (simp_all add: ro_flags_def has_init_def has_or has_or_self flags_disj)

lemma clear_flags_fields [simp]:
  "mc_pg (clear_flags f mc) = mc_pg mc" "mc_ki (clear_flags f mc) = mc_ki mc" "mc_top (clear_flags f mc) = mc_top mc"
  "mc_snum (clear_flags f mc) = mc_snum mc" "mc_own (clear_flags f mc) = mc_own mc" "mc_dbi (clear_flags f mc) = mc_dbi mc"
  "\<not> has (mc_flags (clear_flags f mc)) f"
  by (simp_all add: clear_flags_def has_andnot_self)

lemma cursor_at_flags:
  assumes "cursor_at st psize c valid rank d root mc pre post" "ro_flags mc' = ro_flags mc" "has_init mc'"
    "mc_pg mc' = mc_pg mc" "mc_ki mc' = mc_ki mc" "mc_top mc' = mc_top mc" "mc_snum mc' = mc_snum mc"
  shows "cursor_at st psize c valid rank d root mc' pre post"
proof -
  obtain ks p lo hi where K: "at_leaf st d root ks mc"
    "see st (ro_flags mc) (node_at (see st (ro_flags mc)) root ks) = Some p"
    "leaf_ok (see st (ro_flags mc)) psize c valid rank p lo hi" "mc_ki mc ! d < NUMKEYS p"
    "pre = before (see st (ro_flags mc)) d root ks @ take (mc_ki mc ! d) (leaf_items (see st (ro_flags mc)) p)"
    "post = drop (mc_ki mc ! d) (leaf_items (see st (ro_flags mc)) p) @ after (see st (ro_flags mc)) d root ks"
    using assms(1) by (auto simp: cursor_at_def)
  have "on_path st (ro_flags mc) 0 d root ks mc'"
    by (rule on_path_cong [of st "ro_flags mc" 0 d root ks mc]) (use K(1) assms in \<open>simp_all add: at_leaf_def\<close>)
  then have "at_leaf st d root ks mc'" using K(1) assms by (simp add: at_leaf_def stack_ok_def)
  then show ?thesis unfolding cursor_at_def assms(2)
    by (intro exI [of _ ks] exI [of _ p] exI [of _ lo] exI [of _ hi]) (use K assms in simp)
qed

lemma leaf_at_end:
  assumes "tree_ok pg psize c valid rank d pgno lo hi" "good_path pg d pgno ks"
  shows "\<exists>p lo' hi'. pg (node_at pg pgno ks) = Some p \<and> leaf_ok pg psize c valid rank p lo' hi'"
  using tree_ok_at [OF assms le_refl] by auto

lemma cursor_next_eq:
  assumes db: "db_ready st mc c root" and root: "root_ok st (ro_flags mc) psize c valid rank d root"
    and at: "cursor_at st psize c valid rank d root mc pre (x # post)" and nodel: "\<not> has (mc_flags mc) C_DEL"
    and op: "op = MDB_NEXT \<or> op = MDB_NEXT_NODUP"
    and eof: "has (mc_flags mc) C_EOF \<Longrightarrow> post = []"
  shows "case post of
      [] \<Rightarrow> \<exists>mc'. mdb_cursor_next st (mc, None) (Some k0) d0 op = Some (MDB_NOTFOUND, st, (mc', None), Some k0, d0) \<and>
        cursor_at st psize c valid rank d root mc' pre [x] \<and> has (mc_flags mc') C_EOF \<and>
        ro_flags mc' = ro_flags mc \<and> mc_own mc' = mc_own mc \<and> mc_dbi mc' = mc_dbi mc \<and> \<not> has (mc_flags mc') C_DEL
    | y # ys \<Rightarrow> \<exists>mc'. mdb_cursor_next st (mc, None) (Some k0) d0 op =
          Some (0, st, (mc', None), Some (fst y), out d0 (snd y)) \<and>
        cursor_at st psize c valid rank d root mc' (pre @ [x]) post \<and> \<not> has (mc_flags mc') C_EOF \<and>
        ro_flags mc' = ro_flags mc \<and> mc_own mc' = mc_own mc \<and> mc_dbi mc' = mc_dbi mc \<and> \<not> has (mc_flags mc') C_DEL"
proof -
  let ?pg = "see st (ro_flags mc)"
  define m1 where "m1 = clear_flags C_EOF mc"
  have f1: "ro_flags m1 = ro_flags mc" "has_init m1 = has_init mc" "\<not> has (mc_flags m1) C_DEL" "\<not> has (mc_flags m1) C_EOF"
    "mc_own m1 = mc_own mc" "mc_dbi m1 = mc_dbi mc" using nodel by (simp_all add: m1_def)
  have init: "has_init mc" using at by (auto simp: cursor_at_def)
  have at1: "cursor_at st psize c valid rank d root m1 pre (x # post)"
    by (rule cursor_at_flags [OF at]) (simp_all add: m1_def init)
  obtain ks p lo hi where K: "at_leaf st d root ks m1" "?pg (node_at ?pg root ks) = Some p"
    "leaf_ok ?pg psize c valid rank p lo hi" "mc_ki m1 ! d < NUMKEYS p"
    "pre = before ?pg d root ks @ take (mc_ki m1 ! d) (leaf_items ?pg p)"
    "x # post = drop (mc_ki m1 ! d) (leaf_items ?pg p) @ after ?pg d root ks"
    using at1 unfolding cursor_at_def f1(1) by blast
  define k where "k = mc_ki m1 ! d"
  have xk: "x = leaf_items ?pg p ! k" "post = drop (Suc k) (leaf_items ?pg p) @ after ?pg d root ks"
    using K(4,6) Cons_nth_drop_Suc [of k "leaf_items ?pg p"] by (simp_all add: k_def) (metis append_Cons list.inject)+
  note lk = leaf_kind [OF K(3)]
  have st1: "stack_ok m1" "mc_top m1 = d" "d < length (mc_ki m1)" "mc_ki mc = mc_ki m1" "mc_top mc = d"
    using K(1) by (simp_all add: at_leaf_def stack_ok_def m1_def)
  have top1: "top_page st m1 = Some p" by (rule at_leaf_top [OF K(1)]) (simp add: f1 K(2))
  have top: "top_page st mc = Some p" using top1 by (simp add: m1_def top_page_def page_of_def pg_at_def)
  have lastk: "last_key p = NUMKEYS p - 1" using lk by (intro last_key_eq [of p psize]) simp_all
  have "db_ready st m1 c root" using db by (simp add: db_ready_cong [OF f1(5,6)])
  then obtain db0 where D: "mc_db st m1 = Some db0" "\<not> has (md_flags db0) MDB_DUPSORT" by (auto simp: db_ready_def)
  have small: "NUMKEYS p < 32768" using lk NUMKEYS_small by blast
  show ?thesis
  proof (cases "has (mc_flags mc) C_EOF")
    case True
    then have "post = []" by (rule eof)
    then have "NUMKEYS p \<le> Suc k" using xk(2) by simp
    then have "mdb_cursor_next st (mc, None) (Some k0) d0 op = Some (MDB_NOTFOUND, st, (mc, None), Some k0, d0)"
      using True init nodel top st1 lastk op by (auto simp: mdb_cursor_next_def cursor_next_body_def k_def)
    then show ?thesis using \<open>post = []\<close> at True nodel by auto
  next
    case False
    have start: "mdb_cursor_next st (mc, None) (Some k0) d0 op = (do {
         (rc, st, m2) \<leftarrow>
           (if k + 1 \<ge> NUMKEYS p then mdb_cursor_sibling st m1 True
            else do { m2 \<leftarrow> set_ki m1 (k + 1); Some (0, st, m2) });
         if rc \<noteq> 0 then Some (rc, st, (m2\<lparr>mc_flags := mc_flags m2 OR C_EOF\<rparr>, None), Some k0, d0)
         else do {
           mp \<leftarrow> top_page st m2;
           move_return sub_first st (m2, None) mp (Some k0) d0 } })"
      using False init nodel top st1 D f1 op
      by (auto simp: mdb_cursor_next_def cursor_next_body_def move_in_dups_def m1_def [symmetric] k_def)
    show ?thesis
    proof (cases "k + 1 \<ge> NUMKEYS p")
      case False
      let ?m2 = "m1\<lparr>mc_ki := (mc_ki m1)[d := Suc k]\<rparr>"
      have a2: "at_leaf st d root ks ?m2" using at_leaf_upd [OF K(1), of "mc_flags m1" "Suc k"] by simp
      have r2: "ro_flags ?m2 = ro_flags mc" using f1(1) by (simp add: ro_flags_def)
      have top2: "top_page st ?m2 = Some p" by (rule at_leaf_top [OF a2]) (simp add: r2 K(2))
      have ret: "move_return sub_first st (?m2, None) p (Some k0) d0 =
        Some (0, st, (?m2, None), Some (fst (leaf_items ?pg p ! Suc k)), out d0 (snd (leaf_items ?pg p ! Suc k)))"
        using move_return_eq [OF K(3) [folded r2], of "Suc k" sub_first k0 d0] False st1 r2 by simp
      have "(k + 1) mod 65536 = Suc k" using False small by simp
      then have run: "mdb_cursor_next st (mc, None) (Some k0) d0 op =
          Some (0, st, (?m2, None), Some (fst (leaf_items ?pg p ! Suc k)), out d0 (snd (leaf_items ?pg p ! Suc k)))"
        using start False st1 top2 ret by simp
      have post: "post = leaf_items ?pg p ! Suc k # drop (Suc (Suc k)) (leaf_items ?pg p) @ after ?pg d root ks"
        using xk(2) False by (simp add: Cons_nth_drop_Suc [symmetric])
      have "cursor_at st psize c valid rank d root ?m2 (pre @ [x]) post"
        unfolding cursor_at_def r2
        by (rule exI [of _ ks], rule exI [of _ p], rule exI [of _ lo], rule exI [of _ hi])
          (use a2 K False st1 xk init f1 in \<open>simp add: k_def [symmetric] has_init_def take_Suc_conv_app_nth\<close>)
      moreover have "ro_flags ?m2 = ro_flags mc" "mc_own ?m2 = mc_own mc" "mc_dbi ?m2 = mc_dbi mc"
        "\<not> has (mc_flags ?m2) C_DEL" "\<not> has (mc_flags ?m2) C_EOF" using r2 f1 by simp_all
      ultimately show ?thesis using run post by (simp only: list.case) blast
    next
      case True
      then have kn: "NUMKEYS p = Suc k" using K(4) by (simp add: k_def)
      have post: "post = after ?pg d root ks" using xk(2) kn by simp
      have tree: "tree_ok ?pg psize c valid rank d root None None" using root by (simp add: root_ok_def)
      have path: "on_path st (ro_flags mc) 0 d root ks m1" using K(1) f1(1) by (simp add: at_leaf_def)
      from sibling_right [OF tree path st1(1,2) le_refl f1(1)]
      consider (none) "mdb_cursor_sibling st m1 True = Some (MDB_NOTFOUND, st, m1)" "after ?pg d root ks = []"
        | (some) m2 ks2 where "mdb_cursor_sibling st m1 True = Some (0, st, m2)" "on_path st (ro_flags mc) 0 d root ks2 m2"
          "stack_ok m2" "mc_top m2 = d" "mc_ki m2 ! d = 0" "mc_flags m2 = mc_flags m1" "mc_own m2 = mc_own m1" "mc_dbi m2 = mc_dbi m1"
          "before ?pg d root ks2 = before ?pg d root ks @ items ?pg 0 (node_at ?pg root ks)"
          "after ?pg d root ks = items ?pg 0 (node_at ?pg root ks2) @ after ?pg d root ks2" by auto
      then show ?thesis
      proof cases
        case none
        let ?m2 = "m1\<lparr>mc_flags := mc_flags m1 OR C_EOF\<rparr>"
        have "mdb_cursor_next st (mc, None) (Some k0) d0 op = Some (MDB_NOTFOUND, st, (?m2, None), Some k0, d0)"
          using start True none(1) by (simp add: MDB_NOTFOUND_def)
        moreover have "cursor_at st psize c valid rank d root ?m2 pre [x]"
          by (rule cursor_at_flags [of st psize c valid rank d root m1]) (use at1 post none(2) init f1 in simp_all)
        moreover have "ro_flags ?m2 = ro_flags mc" "mc_own ?m2 = mc_own mc" "mc_dbi ?m2 = mc_dbi mc"
          "\<not> has (mc_flags ?m2) C_DEL" "has (mc_flags ?m2) C_EOF" using f1 by simp_all
        ultimately show ?thesis using post none(2) by (simp only: list.case) blast
      next
        case some
        have r2: "ro_flags m2 = ro_flags mc" using some(6) f1(1) by (simp add: ro_flags_def)
        have a2: "at_leaf st d root ks2 m2" using some r2 by (simp add: at_leaf_def)
        obtain p2 lo2 hi2 where p2: "?pg (node_at ?pg root ks2) = Some p2" "leaf_ok ?pg psize c valid rank p2 lo2 hi2"
          using leaf_at_end [OF tree on_path_good [OF some(2)]] by blast
        note lk2 = leaf_kind [OF p2(2)]
        have top2: "top_page st m2 = Some p2" by (rule at_leaf_top [OF a2]) (simp add: r2 p2(1))
        obtain y ys where y: "leaf_items ?pg p2 = y # ys"
          using lk2 length_leaf_items [of ?pg p2] by (cases "leaf_items ?pg p2") auto
        have kat: "ki_at m2 = Some 0" using some(3,4,5) by (simp add: stack_ok_def)
        have "move_return sub_first st (m2, None) p2 (Some k0) d0 = Some (0, st, (m2, None), Some (fst y), out d0 (snd y))"
          using move_return_eq [OF p2(2) [folded r2] _ kat, of sub_first k0 d0] lk2 y r2 by simp
        then have run: "mdb_cursor_next st (mc, None) (Some k0) d0 op = Some (0, st, (m2, None), Some (fst y), out d0 (snd y))"
          using start True some(1) top2 by simp
        have it: "items ?pg 0 (node_at ?pg root ks) = leaf_items ?pg p" "items ?pg 0 (node_at ?pg root ks2) = leaf_items ?pg p2"
          using K(2) p2(1) by simp_all
        have "leaf_items ?pg p = take k (leaf_items ?pg p) @ [x]"
          using xk(1) kn take_Suc_conv_app_nth [of k "leaf_items ?pg p"] by simp
        then have "cursor_at st psize c valid rank d root m2 (pre @ [x]) post"
          unfolding cursor_at_def r2
          by (intro exI [of _ ks2] exI [of _ p2] exI [of _ lo2] exI [of _ hi2])
            (use a2 p2 lk2 some(5,6,9,10) K(5) it post init f1(2) in \<open>simp add: k_def [symmetric] has_init_def\<close>)
        moreover have "ro_flags m2 = ro_flags mc" "mc_own m2 = mc_own mc" "mc_dbi m2 = mc_dbi mc"
          "\<not> has (mc_flags m2) C_DEL" "\<not> has (mc_flags m2) C_EOF" using r2 f1 some(6-8) by simp_all
        moreover have "post = y # ys @ after ?pg d root ks2" using post some(10) it(2) y by simp
        ultimately show ?thesis using run by (simp only: list.case) blast
      qed
    qed
  qed
qed

end
