(* ===== verification/Tree_Set.thy ===== *)
theory Tree_Set
  imports Tree_Ops
begin

text \<open>
  \<open>mdb_cursor_set\<close> and \<open>mdb_get\<close> on a well-formed tree. The shortcuts that \<open>mdb_cursor_set\<close> takes
  from the page the cursor is already on lead to the same entry as a search from the root.
\<close>

section \<open>Splitting the items at a key\<close>

definition below :: "(bytes \<Rightarrow> 'k::linorder) \<Rightarrow> 'k \<Rightarrow> (bytes \<times> bytes) list \<Rightarrow> (bytes \<times> bytes) list" where
  "below rank r xs = filter (\<lambda>x. rank (fst x) < r) xs"

definition from_key :: "(bytes \<Rightarrow> 'k::linorder) \<Rightarrow> 'k \<Rightarrow> (bytes \<times> bytes) list \<Rightarrow> (bytes \<times> bytes) list" where
  "from_key rank r xs = filter (\<lambda>x. r \<le> rank (fst x)) xs"

lemma split_at_key:
  assumes "\<forall>x \<in> set pre. rank (fst x) < r" "\<forall>x \<in> set post. r \<le> rank (fst x)"
  shows "below rank r (pre @ post) = pre" "from_key rank r (pre @ post) = post"
  using assms by (auto simp: below_def from_key_def filter_id_conv filter_empty_conv not_less not_le)

lemma ascending_around:
  assumes "ascending rank (pre @ x # post)"
  shows "\<forall>y \<in> set pre. rank (fst y) < rank (fst x)" "\<forall>y \<in> set post. rank (fst x) < rank (fst y)"
  using assms by (auto simp: ascending_def sorted_wrt_append)

text \<open>
  What \<open>MDB_SET\<close>, \<open>MDB_SET_KEY\<close> and \<open>MDB_SET_RANGE\<close> have to do: the first item not below the key
  answers \<open>MDB_SET_RANGE\<close>, and the other two when its key is equal.
\<close>

definition set_spec ::
    "'a st_scheme \<Rightarrow> nat \<Rightarrow> cmp_fn \<Rightarrow> (bytes \<Rightarrow> bool) \<Rightarrow> (bytes \<Rightarrow> 'k::linorder) \<Rightarrow> nat \<Rightarrow> u64 \<Rightarrow> cursor \<Rightarrow>
     bytes \<Rightarrow> val \<Rightarrow> cursor_op \<Rightarrow> 'a cres \<Rightarrow> bool" where
  "set_spec st psize c valid rank d root mc key d0 op res \<longleftrightarrow>
     (let xs = items (see st (ro_flags mc)) d root; ge = from_key rank (rank key) xs in
      \<exists>mc'. mc_own mc' = mc_own mc \<and> mc_dbi mc' = mc_dbi mc \<and> ro_flags mc' = ro_flags mc \<and>
        (if ge \<noteq> [] \<and> (op = MDB_SET_RANGE \<or> rank (fst (hd ge)) = rank key)
         then res = Some (0, st, (mc', None), Some (if op = MDB_SET then key else fst (hd ge)), out d0 (snd (hd ge))) \<and>
           cursor_at st psize c valid rank d root mc' (below rank (rank key) xs) ge \<and> \<not> has (mc_flags mc') C_EOF
         else res = Some (MDB_NOTFOUND, st, (mc', None), Some key, d0)))"

section \<open>The end of the function\<close>

lemma set_return_eq:
  assumes a: "at_leaf st d root ks mc" and pg: "see st (ro_flags mc) (node_at (see st (ro_flags mc)) root ks) = Some p"
    and l: "leaf_ok (see st (ro_flags mc)) psize c valid rank p lo hi" and k: "k < NUMKEYS p" "mc_ki mc ! d = k"
    and op: "op \<in> {MDB_SET, MDB_SET_KEY, MDB_SET_RANGE}"
  shows "\<exists>mc'. set_return sub_fst sub_st st (mc, None) (Some (pt p k)) key d0 op =
      Some (0, st, (mc', None), Some (if op = MDB_SET then key else fst (leaf_items (see st (ro_flags mc)) p ! k)),
        out d0 (snd (leaf_items (see st (ro_flags mc)) p ! k))) \<and>
    cursor_at st psize c valid rank d root mc'
      (before (see st (ro_flags mc)) d root ks @ take k (leaf_items (see st (ro_flags mc)) p))
      (drop k (leaf_items (see st (ro_flags mc)) p) @ after (see st (ro_flags mc)) d root ks) \<and>
    \<not> has (mc_flags mc') C_EOF \<and> mc_own mc' = mc_own mc \<and> mc_dbi mc' = mc_dbi mc \<and> ro_flags mc' = ro_flags mc"
proof -
  let ?pg = "see st (ro_flags mc)"
  define m2 where "m2 = mc\<lparr>mc_flags := arrived (mc_flags mc)\<rparr>"
  have r2: "ro_flags m2 = ro_flags mc" by (simp add: m2_def)
  have "at_leaf st d root ks (mc\<lparr>mc_flags := arrived (mc_flags mc), mc_ki := (mc_ki mc)[d := k]\<rparr>)"
    by (rule at_leaf_upd [OF a]) simp
  moreover have "(mc_ki mc)[d := k] = mc_ki mc" using k(2) by (metis list_update_id)
  ultimately have a2: "at_leaf st d root ks m2" by (simp add: m2_def)
  have top: "top_page st m2 = Some p" by (rule at_leaf_top [OF a2]) (simp add: r2 pg)
  note rd = leaf_read [OF l [folded r2] k(1)]
  have "set_return sub_fst sub_st st (mc, None) (Some (pt p k)) key d0 op =
      Some (0, st, (m2, None), Some (if op = MDB_SET then key else fst (leaf_items ?pg p ! k)), out d0 (snd (leaf_items ?pg p ! k)))"
    using top rd leaf_kind [OF l] op r2
    by (cases d0) (auto simp: set_return_def m2_def [unfolded arrived_def, symmetric] reset_sub_def)
  moreover have "cursor_at st psize c valid rank d root m2 (before ?pg d root ks @ take k (leaf_items ?pg p))
      (drop k (leaf_items ?pg p) @ after ?pg d root ks)"
    unfolding cursor_at_def r2
    by (intro exI [of _ ks] exI [of _ p] exI [of _ lo] exI [of _ hi])
      (use a2 pg l k arrived_init(1) in \<open>simp add: m2_def has_init_def\<close>)
  ultimately show ?thesis using r2 arrived_init(2) by (intro exI [of _ m2]) (simp add: m2_def)
qed

lemma set_return_spec:
  assumes a: "at_leaf st d root ks mc" and pg: "see st (ro_flags mc) (node_at (see st (ro_flags mc)) root ks) = Some p"
    and l: "leaf_ok (see st (ro_flags mc)) psize c valid rank p lo hi" and k: "k < NUMKEYS p" "mc_ki mc ! d = k"
    and op: "op \<in> {MDB_SET, MDB_SET_KEY, MDB_SET_RANGE}"
    and lt: "\<forall>x \<in> set (before (see st (ro_flags mc)) d root ks @ take k (leaf_items (see st (ro_flags mc)) p)). rank (fst x) < rank key"
    and ge: "\<forall>x \<in> set (drop k (leaf_items (see st (ro_flags mc)) p) @ after (see st (ro_flags mc)) d root ks). rank key \<le> rank (fst x)"
    and hit: "op = MDB_SET_RANGE \<or> rank (key_at p k) = rank key"
  shows "set_spec st psize c valid rank d root mc key d0 op (set_return sub_fst sub_st st (mc, None) (Some (pt p k)) key d0 op)"
proof -
  let ?pg = "see st (ro_flags mc)"
  let ?pre = "before ?pg d root ks @ take k (leaf_items ?pg p)"
  let ?post = "drop k (leaf_items ?pg p) @ after ?pg d root ks"
  have "items ?pg d root = ?pre @ ?post" using at_leaf_items [OF a pg] by simp
  then have f: "below rank (rank key) (items ?pg d root) = ?pre" "from_key rank (rank key) (items ?pg d root) = ?post"
    using split_at_key [OF lt ge] by simp_all
  have hd: "?post = leaf_items ?pg p ! k # drop (Suc k) (leaf_items ?pg p) @ after ?pg d root ks"
    using k(1) by (simp add: Cons_nth_drop_Suc [symmetric])
  have nk: "fst (leaf_items ?pg p ! k) = key_at p k" using k(1) by (simp add: nth_leaf_items)
  obtain mc' where "set_return sub_fst sub_st st (mc, None) (Some (pt p k)) key d0 op =
      Some (0, st, (mc', None), Some (if op = MDB_SET then key else fst (leaf_items ?pg p ! k)), out d0 (snd (leaf_items ?pg p ! k)))"
    "cursor_at st psize c valid rank d root mc' ?pre ?post"
    "\<not> has (mc_flags mc') C_EOF" "mc_own mc' = mc_own mc" "mc_dbi mc' = mc_dbi mc" "ro_flags mc' = ro_flags mc"
    using set_return_eq [OF a pg l k op] by blast
  then show ?thesis
    unfolding set_spec_def Let_def f using hit hd nk by (intro exI [of _ mc']) auto
qed

lemma set_spec_cong:
  "mc_own m1 = mc_own mc \<Longrightarrow> mc_dbi m1 = mc_dbi mc \<Longrightarrow> ro_flags m1 = ro_flags mc \<Longrightarrow>
    set_spec st psize c valid rank d root m1 key d0 op res = set_spec st psize c valid rank d root mc key d0 op res"
  by (simp add: set_spec_def)

lemma set_spec_miss:
  assumes "from_key rank (rank key) (items (see st (ro_flags mc)) d root) = ge"
    and "ge = [] \<or> op \<noteq> MDB_SET_RANGE \<and> rank (fst (hd ge)) \<noteq> rank key"
    and "mc_own m1 = mc_own mc" "mc_dbi m1 = mc_dbi mc" "ro_flags m1 = ro_flags mc"
  shows "set_spec st psize c valid rank d root mc key d0 op (Some (MDB_NOTFOUND, st, (m1, None), Some key, d0))"
  unfolding set_spec_def Let_def assms(1) using assms(2-5) by (intro exI [of _ m1]) auto

section \<open>From the leaf that the key belongs to\<close>

lemma node_search_leaf:
  assumes a: "at_leaf st d root ks mc" and pg: "see st (ro_flags mc) (node_at (see st (ro_flags mc)) root ks) = Some p"
    and l: "leaf_ok (see st (ro_flags mc)) psize c valid rank p lo hi" and key: "valid key" and db: "db_ready st mc c root"
  shows "\<exists>i. cursor_node_search st mc key = Some (if i < NUMKEYS p then Some (pt p i) else None,
      i < NUMKEYS p \<and> rank (key_at p i) = rank key, mc\<lparr>mc_ki := (mc_ki mc)[d := i]\<rparr>) \<and> i \<le> NUMKEYS p \<and>
    (\<forall>x \<in> set (take i (leaf_items (see st (ro_flags mc)) p)). rank (fst x) < rank key) \<and>
    (\<forall>x \<in> set (drop i (leaf_items (see st (ro_flags mc)) p)). rank key \<le> rank (fst x))"
proof -
  have ok: "page_ok psize p" "IS_LEAF p" "\<not> IS_LEAF2 p" "0 < NUMKEYS p" using l by (simp_all add: leaf_ok_def)
  obtain c' where c': "node_search_cmp p c = Some c'" "key_order (call_cmp c') valid rank"
    using l by (auto simp: leaf_ok_def ordered_by_def)
  have ks: "\<forall>j. 0 \<le> j \<and> j < NUMKEYS p \<longrightarrow> valid (key_at p j)"
    "\<forall>j k. 0 \<le> j \<and> j < k \<and> k < NUMKEYS p \<longrightarrow> rank (key_at p j) < rank (key_at p k)"
    using l by (simp_all add: leaf_ok_def keys_sorted_def)
  obtain dx db0 where D: "mc_dbx st mc = Some dx" "md_cmp dx = Some c" "mc_db st mc = Some db0"
    using db by (auto simp: db_ready_def)
  have "\<exists>i. mdb_node_search p c (unat (md_pad db0)) key =
      Some (if i < NUMKEYS p then Some (pt p i) else None, i < NUMKEYS p \<and> rank (key_at p i) = rank key, i) \<and>
    0 \<le> i \<and> i \<le> NUMKEYS p \<and> (\<forall>j. 0 \<le> j \<and> j < i \<longrightarrow> rank (key_at p j) < rank key) \<and>
    (\<forall>j. i \<le> j \<and> j < NUMKEYS p \<longrightarrow> rank key \<le> rank (key_at p j))"
    by (rule node_search_place [OF c' ok(1,3) _ _ key ks]) (use ok page_room [OF ok(1)] in auto)
  then obtain i where s: "mdb_node_search p c (unat (md_pad db0)) key =
      Some (if i < NUMKEYS p then Some (pt p i) else None, i < NUMKEYS p \<and> rank (key_at p i) = rank key, i)"
    and i: "i \<le> NUMKEYS p" and lt: "\<And>j. j < i \<Longrightarrow> rank (key_at p j) < rank key"
    and ge: "\<And>j. i \<le> j \<Longrightarrow> j < NUMKEYS p \<Longrightarrow> rank key \<le> rank (key_at p j)" by blast
  have small: "i mod 65536 = i" using i NUMKEYS_small [OF ok(1)] by simp
  have len: "mc_top mc = d" "d < length (mc_ki mc)" using a by (simp_all add: at_leaf_def stack_ok_def)
  have "cursor_node_search st mc key = Some (if i < NUMKEYS p then Some (pt p i) else None,
      i < NUMKEYS p \<and> rank (key_at p i) = rank key, mc\<lparr>mc_ki := (mc_ki mc)[d := i]\<rparr>)"
    using at_leaf_top [OF a pg] D s small len by (simp add: cursor_node_search_def)
  moreover have "\<forall>x \<in> set (take i (leaf_items (see st (ro_flags mc)) p)). rank (fst x) < rank key"
    using i lt by (auto simp: in_set_conv_nth nth_leaf_items)
  moreover have "\<forall>x \<in> set (drop i (leaf_items (see st (ro_flags mc)) p)). rank key \<le> rank (fst x)"
    using i ge by (auto simp: in_set_conv_nth nth_leaf_items)
  ultimately show ?thesis using i by blast
qed

lemma set_in_page_spec:
  assumes a: "at_leaf st d root ks mc" and pg: "see st (ro_flags mc) (node_at (see st (ro_flags mc)) root ks) = Some p"
    and l: "leaf_ok (see st (ro_flags mc)) psize c valid rank p lo hi" and key: "valid key" and db: "db_ready st mc c root"
    and root: "root_ok st (ro_flags mc) psize c valid rank d root" and op: "op \<in> {MDB_SET, MDB_SET_KEY, MDB_SET_RANGE}"
    and lt: "\<forall>x \<in> set (before (see st (ro_flags mc)) d root ks). rank (fst x) < rank key"
    and gt: "\<forall>x \<in> set (after (see st (ro_flags mc)) d root ks). rank key < rank (fst x)"
  shows "set_spec st psize c valid rank d root mc key d0 op
    (set_in_page sub_fst sub_st st (mc, None) key d0 op (op \<noteq> MDB_SET_RANGE))"
proof -
  let ?pg = "see st (ro_flags mc)"
  obtain i where S: "cursor_node_search st mc key = Some (if i < NUMKEYS p then Some (pt p i) else None,
      i < NUMKEYS p \<and> rank (key_at p i) = rank key, mc\<lparr>mc_ki := (mc_ki mc)[d := i]\<rparr>)" "i \<le> NUMKEYS p"
    "\<forall>x \<in> set (take i (leaf_items ?pg p)). rank (fst x) < rank key"
    "\<forall>x \<in> set (drop i (leaf_items ?pg p)). rank key \<le> rank (fst x)"
    using node_search_leaf [OF a pg l key db] by blast
  define m1 where "m1 = mc\<lparr>mc_ki := (mc_ki mc)[d := i]\<rparr>"
  have a1: "at_leaf st d root ks m1" using at_leaf_upd [OF a, of "mc_flags mc" i] by (simp add: m1_def)
  have m1: "ro_flags m1 = ro_flags mc" "mc_own m1 = mc_own mc" "mc_dbi m1 = mc_dbi mc" "mc_ki m1 ! d = i"
    using a by (simp_all add: m1_def ro_flags_def at_leaf_def stack_ok_def)
  have sp: "items ?pg d root = (before ?pg d root ks @ take i (leaf_items ?pg p)) @ (drop i (leaf_items ?pg p) @ after ?pg d root ks)"
    using at_leaf_items [OF a pg] by simp
  have A: "\<forall>x \<in> set (before ?pg d root ks @ take i (leaf_items ?pg p)). rank (fst x) < rank key" using lt S(3) by auto
  have B: "\<forall>x \<in> set (drop i (leaf_items ?pg p) @ after ?pg d root ks). rank key \<le> rank (fst x)"
    using gt S(4) by (auto simp: less_imp_le)
  note f = split_at_key [OF A B, folded sp]
  show ?thesis
  proof (cases "i < NUMKEYS p")
    case True
    have hd: "drop i (leaf_items ?pg p) @ after ?pg d root ks =
        leaf_items ?pg p ! i # drop (Suc i) (leaf_items ?pg p) @ after ?pg d root ks"
      using True by (simp add: Cons_nth_drop_Suc [symmetric])
    show ?thesis
    proof (cases "op = MDB_SET_RANGE \<or> rank (key_at p i) = rank key")
      case hit: True
      have "set_in_page sub_fst sub_st st (mc, None) key d0 op (op \<noteq> MDB_SET_RANGE) =
          set_return sub_fst sub_st st (m1, None) (Some (pt p i)) key d0 op"
        using S(1) True hit by (auto simp: set_in_page_def m1_def)
      moreover have "set_spec st psize c valid rank d root m1 key d0 op
          (set_return sub_fst sub_st st (m1, None) (Some (pt p i)) key d0 op)"
        by (rule set_return_spec [OF a1]) (use pg l True m1 op A B hit in simp_all)
      ultimately show ?thesis unfolding set_spec_cong [OF m1(2,3,1), symmetric] by (simp only:)
    next
      case False
      then have "set_in_page sub_fst sub_st st (mc, None) key d0 op (op \<noteq> MDB_SET_RANGE) =
          Some (MDB_NOTFOUND, st, (m1, None), Some key, d0)"
        using S(1) True by (simp add: set_in_page_def m1_def)
      moreover have "fst (leaf_items ?pg p ! i) = key_at p i" using True by (simp add: nth_leaf_items)
      ultimately show ?thesis using set_spec_miss [OF f(2) _ m1(2,3,1)] hd False by simp
    qed
  next
    case False
    then have n: "drop i (leaf_items ?pg p) = []" by simp
    have tree: "tree_ok ?pg psize c valid rank d root None None" using root by (simp add: root_ok_def)
    have path: "on_path st (ro_flags mc) 0 d root ks m1" "stack_ok m1" "mc_top m1 = d"
      using a1 m1(1) by (simp_all add: at_leaf_def)
    show ?thesis
    proof (cases "op = MDB_SET_RANGE")
      case False
      have "rank (fst (hd (after ?pg d root ks))) \<noteq> rank key" if "after ?pg d root ks \<noteq> []"
        using gt that by (metis less_irrefl list.set_sel(1))
      then have "set_spec st psize c valid rank d root mc key d0 op (Some (MDB_NOTFOUND, st, (m1, None), Some key, d0))"
        by (intro set_spec_miss [OF f(2) _ m1(2,3,1)]) (use n False in auto)
      then show ?thesis using S(1) False \<open>\<not> i < NUMKEYS p\<close> by (simp add: set_in_page_def m1_def)
    next
      case rg: True
      from sibling_right [OF tree path le_refl m1(1)]
      consider (none) "mdb_cursor_sibling st m1 True = Some (MDB_NOTFOUND, st, m1)" "after ?pg d root ks = []"
        | (some) m2 ks2 where "mdb_cursor_sibling st m1 True = Some (0, st, m2)" "on_path st (ro_flags mc) 0 d root ks2 m2"
          "stack_ok m2" "mc_top m2 = d" "mc_ki m2 ! d = 0" "mc_flags m2 = mc_flags m1" "mc_own m2 = mc_own m1" "mc_dbi m2 = mc_dbi m1"
          "before ?pg d root ks2 = before ?pg d root ks @ items ?pg 0 (node_at ?pg root ks)"
          "after ?pg d root ks = items ?pg 0 (node_at ?pg root ks2) @ after ?pg d root ks2" by auto
      then show ?thesis
      proof cases
        case none
        let ?m2 = "m1\<lparr>mc_flags := mc_flags m1 OR C_EOF\<rparr>"
        have "set_in_page sub_fst sub_st st (mc, None) key d0 op (op \<noteq> MDB_SET_RANGE) =
            Some (MDB_NOTFOUND, st, (?m2, None), Some key, d0)"
          using S(1) False rg none(1) by (simp add: set_in_page_def m1_def [symmetric] MDB_NOTFOUND_def)
        then show ?thesis using set_spec_miss [OF f(2), of op ?m2] none(2) n m1 by simp
      next
        case some
        have r2: "ro_flags m2 = ro_flags mc" using some(6) m1(1) by (simp add: ro_flags_def)
        have a2: "at_leaf st d root ks2 m2" using some r2 by (simp add: at_leaf_def)
        obtain p2 lo2 hi2 where p2: "?pg (node_at ?pg root ks2) = Some p2" "leaf_ok ?pg psize c valid rank p2 lo2 hi2"
          using leaf_at_end [OF tree on_path_good [OF some(2)]] by blast
        note lk2 = leaf_kind [OF p2(2)]
        have top2: "top_page st m2 = Some p2" by (rule at_leaf_top [OF a2]) (simp add: r2 p2(1))
        have np: "NODEPTR p2 0 = Some (pt p2 0)" by (rule leaf_read(1) [OF p2(2) [folded r2]]) (use lk2 in simp)
        have "set_in_page sub_fst sub_st st (mc, None) key d0 op (op \<noteq> MDB_SET_RANGE) =
            set_return sub_fst sub_st st (m2, None) (Some (pt p2 0)) key d0 op"
          using S(1) False rg some(1) top2 lk2 np by (simp add: set_in_page_def m1_def [symmetric])
        moreover have "set_spec st psize c valid rank d root m2 key d0 op
            (set_return sub_fst sub_st st (m2, None) (Some (pt p2 0)) key d0 op)"
          by (rule set_return_spec [OF a2]) (use p2 r2 lk2 some(5,9,10) op A B n pg False rg in auto)
        moreover have "mc_own m2 = mc_own mc" "mc_dbi m2 = mc_dbi mc" using some(7,8) m1 by simp_all
        note same = set_spec_cong [OF this r2, symmetric]
        ultimately show ?thesis unfolding same by (simp only:)
      qed
    qed
  qed
qed

section \<open>From the page the cursor is on\<close>

lemma parents_right:
  "on_path st ro t d pgno ks mc \<Longrightarrow> t + d \<le> length (mc_pg mc) \<Longrightarrow> t + d \<le> length (mc_ki mc) \<Longrightarrow>
    tree_ok (see st ro) psize c valid rank d pgno lo hi \<Longrightarrow>
    \<exists>b. parents_have_right st mc t d = Some b \<and> (\<not> b \<longrightarrow> after (see st ro) d pgno ks = [])"
proof (induction d arbitrary: t pgno ks lo hi)
  case (Suc d)
  then obtain k r p where k: "ks = k # r" "see st ro pgno = Some p" "mc_pg mc ! t = resolve st ro pgno"
    "mc_ki mc ! t = k" "k < NUMKEYS p" "on_path st ro (Suc t) d (child_at p k) r mc" by auto
  have b: "branch_ok psize c valid rank p lo hi"
    "tree_ok (see st ro) psize c valid rank d (child_at p k) (lo_of rank p lo k) (hi_of rank p hi k)"
    using Suc.prems(4) k by auto
  obtain b' where IH: "parents_have_right st mc (Suc t) d = Some b'" "\<not> b' \<longrightarrow> after (see st ro) d (child_at p k) r = []"
    using Suc.IH [OF k(6) _ _ b(2)] Suc.prems(2,3) by auto
  have pg: "page_of st mc t = Some p"
    using k(2,3) Suc.prems(2) by (simp add: page_of_def pg_at_def see_def)
  have lk: "last_key p = NUMKEYS p - 1" by (rule last_key_eq [of p psize]) (use b in \<open>simp_all add: branch_ok_def\<close>)
  show ?case using IH pg lk k Suc.prems(3) by (auto simp: Let_def)
qed auto

lemma and_exp_self: "bit w n \<Longrightarrow> w AND 2 ^ n = (2 ^ n :: 'a::len word)"
  by (rule bit_word_eqI) (auto simp: bit_simps)

lemma set_cmp_leaf:
  assumes top: "top_page st mc = Some p" and l: "leaf_ok pg psize c valid rank p lo hi"
    and db: "db_ready st mc c root" and key: "valid key" and i: "i < NUMKEYS p"
  shows "set_cmp st mc p key i leaf = Some (key_order.keycmp (call_cmp c) key (key_at p i), Some (pt p i))"
    "(key_order.keycmp (call_cmp c) key (key_at p i) < 0) = (rank key < rank (key_at p i))"
    "(key_order.keycmp (call_cmp c) key (key_at p i) = 0) = (rank key = rank (key_at p i))"
proof -
  have ok: "page_ok psize p" "\<not> IS_LEAF2 p" and ord: "key_order (call_cmp c) valid rank" and v: "valid (key_at p i)"
    using l i by (simp_all add: leaf_ok_def keys_sorted_def)
  have l2: "\<not> has (mp_flags p) P_LEAF2"
  proof -
    have e: "P_LEAF2 = 2 ^ 5" by (simp add: P_LEAF2_def)
    have "mp_flags p AND P_LEAF2 = 0 \<or> mp_flags p AND P_LEAF2 = P_LEAF2"
      unfolding e using and_exp_self [of "mp_flags p" 5] and_exp_eq_0_iff_not_bit [of "mp_flags p" 5] by blast
    then show ?thesis using ok(2) by (auto simp: has_def IS_LEAF2_def F_ISSET_def)
  qed
  note n = page_node [OF ok(1) i]
  show "set_cmp st mc p key i leaf = Some (key_order.keycmp (call_cmp c) key (key_at p i), Some (pt p i))"
    using db l2 n key_order.cmp_Some [OF ord key v] by (auto simp: set_cmp_def db_ready_def)
  show "(key_order.keycmp (call_cmp c) key (key_at p i) < 0) = (rank key < rank (key_at p i))"
    by (rule key_order.keycmp_less [OF ord key v])
  show "(key_order.keycmp (call_cmp c) key (key_at p i) = 0) = (rank key = rank (key_at p i))"
    by (rule key_order.keycmp_eq [OF ord key v])
qed

text \<open>
  What \<open>mdb_cursor_set\<close> does once it has decided where to go on, and the claim that this
  leads to the right entry.
\<close>

definition set_go ::
    "'a sub_call \<Rightarrow> (bool \<Rightarrow> 'a sub_call) \<Rightarrow> 'a st_scheme \<Rightarrow> bytes \<Rightarrow> val \<Rightarrow> cursor_op \<Rightarrow> bool \<Rightarrow> set_goto \<Rightarrow> cursor \<Rightarrow> 'a cres" where
  "set_go sub_fst sub_st st key data op exactp g mc =
     (case g of
        Set_return rc \<Rightarrow> Some (rc, st, (mc, None), Some key, data)
      | Set1 leaf \<Rightarrow> set_return sub_fst sub_st st (mc, None) leaf key data op
      | Set2 \<Rightarrow> set_in_page sub_fst sub_st st (mc, None) key data op exactp
      | Set_search \<Rightarrow> do {
          (rc, st, mc) \<leftarrow> mdb_page_search no_touch st mc (Some key) 0;
          if rc \<noteq> 0 then Some (rc, st, (mc, None), Some key, data)
          else do {
            mp \<leftarrow> top_page st mc;
            if \<not> IS_LEAF mp then None
            else set_in_page sub_fst sub_st st (mc, None) key data op exactp } })"

lemma set_search_spec:
  assumes db: "db_ready st mc c root" and root: "root_ok st (ro_flags mc) psize c valid rank d root"
    and mc: "fresh_or_rooted st mc root" and key: "valid key" and op: "op \<in> {MDB_SET, MDB_SET_KEY, MDB_SET_RANGE}"
  shows "set_spec st psize c valid rank d root mc key d0 op
    (set_go sub_fst sub_st st key d0 op (op \<noteq> MDB_SET_RANGE) Set_search mc)"
proof -
  let ?pg = "see st (ro_flags mc)"
  obtain m1 ks p lo hi where S: "mdb_page_search no_touch st mc (Some key) 0 = Some (0, st, m1)" "at_leaf st d root ks m1"
    "ro_flags m1 = ro_flags mc" "mc_own m1 = mc_own mc" "mc_dbi m1 = mc_dbi mc"
    "\<forall>x \<in> set (before ?pg d root ks). rank (fst x) < rank key" "\<forall>x \<in> set (after ?pg d root ks). rank key < rank (fst x)"
    "?pg (node_at ?pg root ks) = Some p" "leaf_ok ?pg psize c valid rank p lo hi"
    using page_search_key [where key = key, OF db root mc key] by blast
  have top: "top_page st m1 = Some p" by (rule at_leaf_top [OF S(2)]) (simp add: S(3,8))
  have "set_spec st psize c valid rank d root m1 key d0 op
      (set_in_page sub_fst sub_st st (m1, None) key d0 op (op \<noteq> MDB_SET_RANGE))"
    by (rule set_in_page_spec [OF S(2)]) (use S key op root db db_ready_cong [OF S(4,5), of st] in simp_all)
  moreover have "set_go sub_fst sub_st st key d0 op (op \<noteq> MDB_SET_RANGE) Set_search mc =
      set_in_page sub_fst sub_st st (m1, None) key d0 op (op \<noteq> MDB_SET_RANGE)"
    using S(1) top leaf_kind [OF S(9)] by (simp add: set_go_def)
  ultimately show ?thesis unfolding set_spec_cong [OF S(4,5,3), symmetric] by (simp only:)
qed

text \<open>A hit at entry \<open>i\<close> of the page the cursor is on.\<close>

lemma set1_spec:
  assumes a: "at_leaf st d root ks mc" and pg: "see st (ro_flags mc) (node_at (see st (ro_flags mc)) root ks) = Some p"
    and l: "leaf_ok (see st (ro_flags mc)) psize c valid rank p lo hi"
    and tree: "tree_ok (see st (ro_flags mc)) psize c valid rank d root None None"
    and op: "op \<in> {MDB_SET, MDB_SET_KEY, MDB_SET_RANGE}" and i: "i < NUMKEYS p" "rank (key_at p i) = rank key"
  shows "set_spec st psize c valid rank d root mc key d0 op
    (set_go sub_fst sub_st st key d0 op ex (Set1 (Some (pt p i))) (mc\<lparr>mc_ki := (mc_ki mc)[d := i]\<rparr>))"
proof -
  let ?pg = "see st (ro_flags mc)"
  let ?m1 = "mc\<lparr>mc_ki := (mc_ki mc)[d := i]\<rparr>"
  have a1: "at_leaf st d root ks ?m1" using at_leaf_upd [OF a, of "mc_flags mc" i] by simp
  have m1: "mc_own ?m1 = mc_own mc" "mc_dbi ?m1 = mc_dbi mc" "ro_flags ?m1 = ro_flags mc" "mc_ki ?m1 ! d = i"
    using a by (simp_all add: ro_flags_def at_leaf_def stack_ok_def)
  have sp: "items ?pg d root = (before ?pg d root ks @ take i (leaf_items ?pg p)) @
      leaf_items ?pg p ! i # drop (Suc i) (leaf_items ?pg p) @ after ?pg d root ks"
    using at_leaf_items [OF a pg] i(1) by (simp add: id_take_nth_drop [symmetric])
  have k: "fst (leaf_items ?pg p ! i) = key_at p i" using i(1) by (simp add: nth_leaf_items)
  have dr: "drop i (leaf_items ?pg p) = leaf_items ?pg p ! i # drop (Suc i) (leaf_items ?pg p)"
    using i(1) by (simp add: Cons_nth_drop_Suc)
  note around = ascending_around [OF items_ascending [OF tree, unfolded sp]]
  have "set_spec st psize c valid rank d root ?m1 key d0 op
      (set_return sub_fst sub_st st (?m1, None) (Some (pt p i)) key d0 op)"
    by (rule set_return_spec [OF a1])
      (use pg l i op m1 around k dr in \<open>auto simp: less_imp_le\<close>)
  then show ?thesis unfolding set_spec_cong [OF m1(1-3), symmetric] by (simp only: set_go_def set_goto.case)
qed

lemma cursor_set_on_page:
  fixes rank :: "bytes \<Rightarrow> 'k::linorder"
  assumes db: "db_ready st mc c root" and root: "root_ok st (ro_flags mc) psize c valid rank d root"
    and at: "cursor_at st psize c valid rank d root mc pre post"
    and key: "valid key" and op: "op \<in> {MDB_SET, MDB_SET_KEY, MDB_SET_RANGE}"
  shows "\<exists>g m1. set_on_page st mc key op (op \<noteq> MDB_SET_RANGE) = Some (g, m1) \<and>
    set_spec st psize c valid rank d root mc key d0 op
      (set_go sub_fst sub_st st key d0 op (op \<noteq> MDB_SET_RANGE) g m1)"
proof -
  let ?pg = "see st (ro_flags mc)"
  obtain ks p lo hi where K: "at_leaf st d root ks mc" "?pg (node_at ?pg root ks) = Some p"
    "leaf_ok ?pg psize c valid rank p lo hi" "mc_ki mc ! d < NUMKEYS p"
    using at unfolding cursor_at_def by blast
  let ?n = "NUMKEYS p" and ?K = "\<lambda>i. key_order.keycmp (call_cmp c) key (key_at p i)"
  note lk = leaf_kind [OF K(3)]
  have st: "stack_ok mc" "mc_top mc = d" "d < length (mc_ki mc)" using K(1) by (simp_all add: at_leaf_def stack_ok_def)
  have top: "top_page st mc = Some p" by (rule at_leaf_top [OF K(1,2)])
  note cmp = set_cmp_leaf [OF top K(3) db key]
  have tree: "tree_ok ?pg psize c valid rank d root None None" using root by (simp add: root_ok_def)
  have small: "?n < 32768" using lk NUMKEYS_small by blast
  note hit = set1_spec [OF K(1,2,3) tree op]
  have its: "items ?pg d root = before ?pg d root ks @ leaf_items ?pg p @ after ?pg d root ks" by (rule at_leaf_items [OF K(1,2)])
  note asc = items_ascending [OF tree, unfolded its]
  have inl: "(key_at p i, the (value_at ?pg p i)) \<in> set (leaf_items ?pg p)" if "i < ?n" for i
    using that by (auto simp: leaf_items_set)
  have asc2: "\<forall>x \<in> set (before ?pg d root ks). \<forall>y \<in> set (leaf_items ?pg p). rank (fst x) < rank (fst y)"
    "\<forall>x \<in> set (leaf_items ?pg p). \<forall>y \<in> set (after ?pg d root ks). rank (fst x) < rank (fst y)"
    using asc unfolding ascending_def sorted_wrt_append by (simp_all add: ball_Un)
  have bf: "rank (fst x) < rank (key_at p i)" if "x \<in> set (before ?pg d root ks)" "i < ?n" for x i
    using asc2(1) [rule_format, OF that(1) inl [OF that(2)]] by simp
  have af: "rank (key_at p i) < rank (fst x)" if "x \<in> set (after ?pg d root ks)" "i < ?n" for x i
    using asc2(2) [rule_format, OF inl [OF that(2)] that(1)] by simp
  have lv: "\<exists>i < ?n. fst x = key_at p i" if "x \<in> set (leaf_items ?pg p)" for x using that by (auto simp: leaf_items_set)
  have srt: "rank (key_at p i) < rank (key_at p j)" if "i < j" "j < ?n" for i j
    using K(3) that by (simp add: leaf_ok_def keys_sorted_def)
  have le0: "rank (key_at p 0) \<le> rank (key_at p i)" if "i < ?n" for i
    using srt [of 0 i] that by (cases "i = 0") (simp_all add: less_imp_le)
  have len1: "rank (key_at p i) \<le> rank (key_at p (?n - 1))" if "i < ?n" for i
    using srt [of i "?n - 1"] that by (cases "i = ?n - 1") (simp_all add: less_imp_le)
  have n0: "0 < ?n" "?n - 1 < ?n" using lk by simp_all
  have setki: "set_ki mc i = Some (mc\<lparr>mc_ki := (mc_ki mc)[d := i]\<rparr>)" if "i \<le> ?n" for i
    using st small that by simp
  have eqv: "mc_own (mc\<lparr>mc_ki := ki\<rparr>) = mc_own mc" "mc_dbi (mc\<lparr>mc_ki := ki\<rparr>) = mc_dbi mc"
    "ro_flags (mc\<lparr>mc_ki := ki\<rparr>) = ro_flags mc" for ki by (simp_all add: ro_flags_def)
  have search: "set_spec st psize c valid rank d root mc key d0 op
      (set_go sub_fst sub_st st key d0 op (op \<noteq> MDB_SET_RANGE) Set_search mc)"
    by (rule set_search_spec [OF db root usable_rooted key op]) (use at in \<open>auto simp: usable_def\<close>)
  have go: ?thesis if "set_on_page st mc key op (op \<noteq> MDB_SET_RANGE) = Some (g, m1)"
    "set_spec st psize c valid rank d root mc key d0 op
      (set_go sub_fst sub_st st key d0 op (op \<noteq> MDB_SET_RANGE) g m1)" for g m1 using that by blast
  have more: "\<exists>b. parents_have_right st mc 0 (mc_top mc) = Some b \<and> (\<not> b \<longrightarrow> after ?pg d root ks = []) \<and> (d = 0 \<longrightarrow> \<not> b)"
  proof -
    have "\<exists>b. parents_have_right st mc 0 d = Some b \<and> (\<not> b \<longrightarrow> after ?pg d root ks = [])"
      by (rule parents_right [OF _ _ _ tree]) (use K(1) st in \<open>simp_all add: at_leaf_def stack_ok_def\<close>)
    then show ?thesis using st(2) by (cases d) auto
  qed
  consider (eq) "rank key = rank (key_at p 0)" | (lt) "rank key < rank (key_at p 0)" | (gt) "rank (key_at p 0) < rank key"
    by fastforce
  then show ?thesis
  proof cases
    case eq
    then have "set_on_page st mc key op (op \<noteq> MDB_SET_RANGE) = Some (Set1 (Some (pt p 0)), mc\<lparr>mc_ki := (mc_ki mc)[d := 0]\<rparr>)"
      using top n0 cmp [OF n0(1)] setki [of 0] by (simp add: set_on_page_def Let_def)
    then show ?thesis by (rule go) (rule hit [OF n0(1)], use eq in simp)
  next
    case lt
    have K0: "?K 0 < 0" "?K 0 \<noteq> 0" using lt cmp(2,3) [OF n0(1)] by auto
    show ?thesis
    proof (cases "d = 0")
      case False
      then have "set_on_page st mc key op (op \<noteq> MDB_SET_RANGE) = Some (Set_search, mc)"
        using top n0 cmp(1) [OF n0(1)] K0 st(2) by (simp add: set_on_page_def Let_def)
      then show ?thesis using search by (rule go)
    next
      case True
      have bn: "before ?pg d root ks = []" using True by simp
      have all_ge: "\<forall>x \<in> set (items ?pg d root). rank key \<le> rank (fst x)"
      proof
        fix x assume "x \<in> set (items ?pg d root)"
        then have "rank (key_at p 0) \<le> rank (fst x)"
          using its bn lv [of x] le0 af [of x 0] n0 by (auto simp: less_imp_le)
        then show "rank key \<le> rank (fst x)" using lt by (meson less_imp_le less_le_trans)
      qed
      have r: "set_on_page st mc key op (op \<noteq> MDB_SET_RANGE) =
          Some (if op = MDB_SET_RANGE then Set1 (Some (pt p 0)) else Set_return MDB_NOTFOUND, mc\<lparr>mc_ki := (mc_ki mc)[d := 0]\<rparr>)"
        using top n0 cmp(1) [OF n0(1)] K0 st(2) setki [of 0] True by (simp add: set_on_page_def Let_def)
      let ?m1 = "mc\<lparr>mc_ki := (mc_ki mc)[d := 0]\<rparr>"
      have a1: "at_leaf st d root ks ?m1" using at_leaf_upd [OF K(1), of "mc_flags mc" 0] by simp
      show ?thesis
      proof (cases "op = MDB_SET_RANGE")
        case rg: True
        have "set_spec st psize c valid rank d root ?m1 key d0 op
            (set_return sub_fst sub_st st (?m1, None) (Some (pt p 0)) key d0 op)"
          by (rule set_return_spec [OF a1]) (use K eqv n0 op rg st bn all_ge its in simp_all)
        then have "set_spec st psize c valid rank d root mc key d0 op
            (set_go sub_fst sub_st st key d0 op (op \<noteq> MDB_SET_RANGE) (Set1 (Some (pt p 0))) ?m1)"
          unfolding set_go_def set_goto.case by (subst (asm) set_spec_cong [of ?m1 mc]) (simp_all add: eqv)
        moreover have "set_on_page st mc key op (op \<noteq> MDB_SET_RANGE) = Some (Set1 (Some (pt p 0)), ?m1)" using r rg by simp
        ultimately show ?thesis by (rule go [rotated])
      next
        case False
        have "from_key rank (rank key) (items ?pg d root) = items ?pg d root"
          using all_ge by (simp add: from_key_def)
        moreover have "rank (fst (hd (items ?pg d root))) \<noteq> rank key"
        proof -
          have "hd (items ?pg d root) = leaf_items ?pg p ! 0"
            using its bn n0 by (metis append_Nil hd_append2 hd_conv_nth length_greater_0_conv length_leaf_items)
          then show ?thesis using lt n0 by (simp add: nth_leaf_items)
        qed
        ultimately have "set_spec st psize c valid rank d root mc key d0 op (Some (MDB_NOTFOUND, st, (?m1, None), Some key, d0))"
          by (intro set_spec_miss [OF refl _ eqv]) (use False in simp)
        then have "set_spec st psize c valid rank d root mc key d0 op
            (set_go sub_fst sub_st st key d0 op (op \<noteq> MDB_SET_RANGE) (Set_return MDB_NOTFOUND) ?m1)"
          by (simp only: set_go_def set_goto.case)
        moreover have "set_on_page st mc key op (op \<noteq> MDB_SET_RANGE) = Some (Set_return MDB_NOTFOUND, ?m1)" using r False by simp
        ultimately show ?thesis by (rule go [rotated])
      qed
    qed
  next
    case gt
    have K0: "\<not> ?K 0 < 0" "?K 0 \<noteq> 0" "?K 0 > 0" using gt cmp(2,3) [OF n0(1)] by auto
    show ?thesis
    proof (cases "rank (key_at p (?n - 1)) < rank key")
      case True
      obtain b where b: "parents_have_right st mc 0 (mc_top mc) = Some b" "\<not> b \<longrightarrow> after ?pg d root ks = []" "d = 0 \<longrightarrow> \<not> b"
        using more by blast
      have KL: "\<not> ?K (?n - 1) < 0" "?K (?n - 1) \<noteq> 0" using True cmp(2,3) [OF n0(2)] by auto
      have r: "set_on_page st mc key op (op \<noteq> MDB_SET_RANGE) =
          Some (if b then Set_search else Set_return MDB_NOTFOUND, if b then mc else mc\<lparr>mc_ki := (mc_ki mc)[d := ?n]\<rparr>)"
        using top n0 cmp(1) [OF n0(1)] cmp(1) [OF n0(2)] K0 KL b(1,3) setki [of ?n] st(2)
        by (cases "?n > 1"; cases b) (simp_all add: set_on_page_def Let_def)
      show ?thesis
      proof (cases b)
        case True
        then have "set_on_page st mc key op (op \<noteq> MDB_SET_RANGE) = Some (Set_search, mc)" using r by simp
        then show ?thesis using search by (rule go)
      next
        case False
        have "rank (fst x) < rank key" if "x \<in> set (items ?pg d root)" for x
        proof -
          have "rank (fst x) \<le> rank (key_at p (?n - 1))"
            using that its b(2) False lv [of x] len1 bf [of x "?n - 1"] n0 by (auto simp: less_imp_le)
          then show ?thesis using True by (rule le_less_trans)
        qed
        then have "from_key rank (rank key) (items ?pg d root) = []" by (auto simp: from_key_def filter_empty_conv not_le)
        then have "set_spec st psize c valid rank d root mc key d0 op
            (Some (MDB_NOTFOUND, st, (mc\<lparr>mc_ki := (mc_ki mc)[d := ?n]\<rparr>, None), Some key, d0))"
          by (rule set_spec_miss) (simp_all add: eqv)
        then have "set_spec st psize c valid rank d root mc key d0 op
            (set_go sub_fst sub_st st key d0 op (op \<noteq> MDB_SET_RANGE) (Set_return MDB_NOTFOUND) (mc\<lparr>mc_ki := (mc_ki mc)[d := ?n]\<rparr>))"
          by (simp only: set_go_def set_goto.case)
        moreover have "set_on_page st mc key op (op \<noteq> MDB_SET_RANGE) = Some (Set_return MDB_NOTFOUND, mc\<lparr>mc_ki := (mc_ki mc)[d := ?n]\<rparr>)"
          using r False by simp
        ultimately show ?thesis by (rule go [rotated])
      qed
    next
      case False
      have n1: "?n > 1" using gt False n0 by (cases "?n = 1") auto
      show ?thesis
      proof (cases "rank (key_at p (?n - 1)) = rank key")
        case True
        then have "set_on_page st mc key op (op \<noteq> MDB_SET_RANGE) =
            Some (Set1 (Some (pt p (?n - 1))), mc\<lparr>mc_ki := (mc_ki mc)[d := ?n - 1]\<rparr>)"
          using top n0 n1 cmp [OF n0(1)] cmp [OF n0(2)] K0 setki [of "?n - 1"] by (simp add: set_on_page_def Let_def)
        then show ?thesis by (rule go) (rule hit [OF n0(2)], use True in simp)
      next
        case ne: False
        have lt: "rank key < rank (key_at p (?n - 1))" using False ne by fastforce
        have KL: "?K (?n - 1) < 0" "?K (?n - 1) \<noteq> 0" using lt cmp(2,3) [OF n0(2)] by auto
        let ?k = "mc_ki mc ! d"
        have kat: "ki_at mc = Some ?k" using st by simp
        show ?thesis
        proof (cases "rank (key_at p ?k) = rank key")
          case True
          then have "set_on_page st mc key op (op \<noteq> MDB_SET_RANGE) = Some (Set1 (Some (pt p ?k)), mc)"
            using top n0 n1 cmp [OF n0(1)] cmp [OF n0(2)] cmp [OF K(4)] K0 KL kat K(4) by (simp add: set_on_page_def Let_def)
          moreover have "set_spec st psize c valid rank d root mc key d0 op
              (set_go sub_fst sub_st st key d0 op (op \<noteq> MDB_SET_RANGE) (Set1 (Some (pt p ?k))) mc)"
            using hit [OF K(4) True] by simp
          ultimately show ?thesis by (rule go)
        next
          case False
          let ?m1 = "clear_flags C_EOF mc"
          have Kk: "?K ?k \<noteq> 0" using cmp(3) [OF K(4)] False by auto
          have r: "set_on_page st mc key op (op \<noteq> MDB_SET_RANGE) = Some (Set2, ?m1)"
            using top n0 n1 cmp(1) [OF n0(1)] cmp(1) [OF n0(2)] cmp(1) [OF K(4)] K0 KL Kk kat K(4) by (simp add: set_on_page_def Let_def)
          have a1: "at_leaf st d root ks ?m1"
          proof -
            have "on_path st (ro_flags mc) 0 d root ks ?m1"
              by (rule on_path_cong [of st "ro_flags mc" 0 d root ks mc]) (use K(1) in \<open>simp_all add: at_leaf_def\<close>)
            then show ?thesis using K(1) by (simp add: at_leaf_def stack_ok_def)
          qed
          have e: "mc_own ?m1 = mc_own mc" "mc_dbi ?m1 = mc_dbi mc" "ro_flags ?m1 = ro_flags mc" by simp_all
          have "\<forall>x \<in> set (before ?pg d root ks). rank (fst x) < rank key"
            using bf [OF _ n0(1)] gt by (meson less_trans)
          moreover have "\<forall>x \<in> set (after ?pg d root ks). rank key < rank (fst x)"
            using af [OF _ n0(2)] lt by (meson less_trans)
          ultimately have "set_spec st psize c valid rank d root ?m1 key d0 op
              (set_in_page sub_fst sub_st st (?m1, None) key d0 op (op \<noteq> MDB_SET_RANGE))"
            by (intro set_in_page_spec [OF a1]) (use K key op root db db_ready_cong [OF e(1,2), of st] in simp_all)
          then have "set_spec st psize c valid rank d root mc key d0 op
              (set_go sub_fst sub_st st key d0 op (op \<noteq> MDB_SET_RANGE) Set2 ?m1)"
            unfolding set_spec_cong [OF e, symmetric] by (simp only: set_go_def set_goto.case)
          then show ?thesis by (rule go [OF r])
        qed
      qed
    qed
  qed
qed

end
