(* ===== verification/Demo_Tree.thy ===== *)
theory Demo_Tree
  imports Tree_Set
begin

text \<open>
  A small data file for the instances: pages of 40 bytes, a branch page 2 over the leaf pages 3
  (one node, key \<open>a\<close>) and 4 (one node, key \<open>b\<close>), and a read-only transaction whose main
  database has its root at page 2.
\<close>

definition demo_leaf :: "u8 \<Rightarrow> u8 \<Rightarrow> u8 \<Rightarrow> bytes" where
  "demo_leaf n k v = [n,0,0,0,0,0,0,0, 0,0, 2,0, 18,0, 30,0, 30,0] @ replicate 12 0 @
     [1,0,0,0, 0,0, 1,0, k, v]"

definition demo_branch :: bytes where
  "demo_branch = [2,0,0,0,0,0,0,0, 0,0, 1,0, 20,0, 22,0, 32,0, 22,0] @ [0,0] @
     [4,0,0,0, 0,0, 1,0, 0x62, 0] @ [3,0,0,0, 0,0, 0,0]"

definition demo_tree_file :: bytes where
  "demo_tree_file = replicate 80 0 @ demo_branch @ demo_leaf 3 0x61 0x78 @ demo_leaf 4 0x62 0x79"

definition demo_tree_db :: db where
  "demo_tree_db = \<lparr>md_pad = 0, md_flags = 0, md_depth = 2, md_branch_pages = 1, md_leaf_pages = 2,
     md_overflow_pages = 0, md_entries = 2, md_root = 2\<rparr>"

definition demo_dbx :: dbx where
  "demo_dbx = \<lparr>md_name = None, md_cmp = Some Cmp_memn, md_dcmp = None\<rparr>"

definition demo_os :: os where
  "demo_os = \<lparr>os_time = 0, os_fcntl = \<lambda>_ _. [], os_lock = \<lambda>_. 0, os_consistent = \<lambda>_. 0, os_malloc = \<lambda>_. True, os_io = []\<rparr>"

definition demo_st :: st where
  "demo_st = \<lparr>st_env = demo_env\<lparr>me_psize := 40, me_dbxs := [demo_dbx, demo_dbx], me_dbiseqs := [0, 0]\<rparr>,
     st_file = demo_tree_file, st_heap = (\<lambda>_. None),
     st_txn = demo_txn\<lparr>mt_dbs := [demo_db, demo_tree_db], mt_dbflags := [DB_VALID, DB_VALID OR DB_USRVALID],
       mt_flags := MDB_RDONLY\<rparr>,
     st_parents = [], st_os = demo_os\<rparr>"

definition demo_mc :: cursor where
  "demo_mc = raw_cursor\<lparr>mc_dbi := 1, mc_flags := C_ORIG_RDONLY\<rparr>"

lemma length_demo [simp]: "length (demo_leaf n k v) = 40" "length demo_branch = 40" "length demo_tree_file = 200"
  by (simp_all add: demo_leaf_def demo_branch_def demo_tree_file_def)

lemma demo_leaf_read:
  "mp_lower (demo_leaf n k v) = 18" "mp_upper (demo_leaf n k v) = 30" "mp_flags (demo_leaf n k v) = 2"
  "NUMKEYS (demo_leaf n k v) = 1" "pt (demo_leaf n k v) 0 = 30" "key_at (demo_leaf n k v) 0 = [k]"
  "rd (demo_leaf n k v) 30 4 = 1" "rd (demo_leaf n k v) 34 2 = 0" "rd (demo_leaf n k v) 36 2 = 1"
  "slice (demo_leaf n k v) 39 (Suc 0) = [v]"
  by (simp_all add: demo_leaf_def mp_lower_def mp_upper_def mp_flags_def NUMKEYS_def pt_def key_at_def rd_def slice_def)

lemma demo_branch_read:
  "mp_lower demo_branch = 20" "mp_upper demo_branch = 22" "mp_flags demo_branch = 1" "NUMKEYS demo_branch = 2"
  "pt demo_branch 0 = 32" "pt demo_branch (Suc 0) = 22" "key_at demo_branch (Suc 0) = [0x62]"
  "rd demo_branch 38 2 = 0" "rd demo_branch 28 2 = 1"
  "child_at demo_branch 0 = 3" "child_at demo_branch (Suc 0) = 4"
  by (simp_all add: demo_branch_def mp_lower_def mp_upper_def mp_flags_def NUMKEYS_def pt_def key_at_def child_at_def
      rd_def slice_def)

lemma demo_kinds:
  "IS_LEAF (demo_leaf n k v)" "\<not> IS_LEAF2 (demo_leaf n k v)" "\<not> IS_BRANCH (demo_leaf n k v)" "\<not> IS_OVERFLOW (demo_leaf n k v)"
  "IS_BRANCH demo_branch" "\<not> IS_LEAF demo_branch" "\<not> IS_LEAF2 demo_branch" "\<not> IS_OVERFLOW demo_branch"
  by (simp_all add: IS_LEAF_def IS_LEAF2_def IS_BRANCH_def IS_OVERFLOW_def F_ISSET_def demo_leaf_read demo_branch_read
      P_LEAF_def P_LEAF2_def P_BRANCH_def P_OVERFLOW_def)

lemma demo_pages:
  "see demo_st True 2 = Some demo_branch" "see demo_st True 3 = Some (demo_leaf 3 0x61 0x78)"
  "see demo_st True 4 = Some (demo_leaf 4 0x62 0x79)"
proof -
  have ro: "has C_ORIG_RDONLY (C_ORIG_RDONLY OR C_WRITEMAP)" by (simp add: has_def cursor_flag_defs env_flag_defs)
  have g: "resolve demo_st True n = Some (Map_page n)" if "n < 5" for n
    using that ro by (simp add: resolve_def mdb_page_get_def demo_st_def demo_txn_def)
  have e: "me_psize (st_env demo_st) = 40" "me_map (st_env demo_st)" "st_file demo_st = demo_tree_file"
    by (simp_all add: demo_st_def demo_env_def)
  have s: "slice demo_tree_file 80 40 = demo_branch" "slice demo_tree_file 120 40 = demo_leaf 3 0x61 0x78"
    "slice demo_tree_file 160 40 = demo_leaf 4 0x62 0x79"
    by (simp_all add: demo_tree_file_def slice_def)
  show "see demo_st True 2 = Some demo_branch" "see demo_st True 3 = Some (demo_leaf 3 0x61 0x78)"
    "see demo_st True 4 = Some (demo_leaf 4 0x62 0x79)"
    using e s by (simp_all add: see_def g map_page_def demo_kinds)
qed

abbreviation short :: "bytes \<Rightarrow> bool" where "short \<equiv> (\<lambda>a. length a < 4294967296)"

lemma demo_order: "key_order (call_cmp Cmp_memn) short (\<lambda>a. a)"
  using memn.key_order_axioms by simp

lemma demo_ordered: "\<not> IS_LEAF2 p \<Longrightarrow> ordered_by Cmp_memn short (\<lambda>a. a) p"
  using demo_order by (auto simp: ordered_by_def node_search_cmp_def is_cint_def)

lemma demo_leaf_ok:
  "in_range lo hi [k] \<Longrightarrow> leaf_ok pg 40 Cmp_memn short (\<lambda>a. a) (demo_leaf n k v) lo hi"
proof -
  assume r: "in_range lo hi [k]"
  have "page_ok 40 (demo_leaf n k v)"
    by (simp add: page_ok_def demo_leaf_read ptrs_def extent_def node_len_def EVEN_def F_ISSET_def demo_kinds)
  moreover have "keys_sorted short (\<lambda>a. a) (demo_leaf n k v) 0 lo hi"
    using r by (simp add: keys_sorted_def demo_leaf_read)
  moreover have "value_at pg (demo_leaf n k v) 0 \<noteq> None" "\<not> is_dup_at (demo_leaf n k v) 0"
    by (simp_all add: value_at_def is_dup_at_def demo_leaf_read get_bytes_def F_ISSET_def F_BIGDATA_def F_DUPDATA_def)
  ultimately show ?thesis using demo_order demo_ordered demo_kinds by (simp add: leaf_ok_def demo_leaf_read)
qed

lemma demo_leaf_items: "leaf_items pg (demo_leaf n k v) = [([k], [v])]"
  by (simp add: leaf_items_def value_at_def demo_leaf_read F_ISSET_def F_BIGDATA_def get_bytes_def)

lemma demo_branch_ok: "branch_ok 40 Cmp_memn short (\<lambda>a. a) demo_branch None None"
proof -
  have "page_ok 40 demo_branch"
    by (simp add: page_ok_def demo_branch_read ptrs_def extent_def node_len_def EVEN_def demo_kinds upt_rec apart_def)
  moreover have "keys_sorted short (\<lambda>a. a) demo_branch 1 None None"
  proof -
    have "j = Suc 0" if "Suc 0 \<le> j" "j < 2" for j :: nat using that by simp
    then have j: "P j" if "P (Suc 0)" "Suc 0 \<le> j" "j < 2" for P j using that by blast
    show ?thesis unfolding keys_sorted_def demo_branch_read
      by (auto simp: demo_branch_read in_range_def intro: j)
  qed
  ultimately show ?thesis using demo_ordered demo_kinds by (simp add: branch_ok_def demo_branch_read)
qed

lemma demo_root_ok: "root_ok demo_st True 40 Cmp_memn short (\<lambda>a. a) 1 2"
proof -
  have "tree_ok (see demo_st True) 40 Cmp_memn short (\<lambda>a. a) 0 (child_at demo_branch i)
      (lo_of (\<lambda>a. a) demo_branch None i) (hi_of (\<lambda>a. a) demo_branch None i)" if "i < 2" for i
  proof (cases i)
    case 0
    then show ?thesis by (simp add: demo_branch_read demo_pages demo_leaf_ok lo_of_def hi_of_def in_range_def)
  next
    case (Suc j)
    then have "i = Suc 0" using that by simp
    then show ?thesis by (simp add: demo_branch_read demo_pages demo_leaf_ok lo_of_def hi_of_def in_range_def)
  qed
  then show ?thesis using demo_branch_ok
    by (simp add: root_ok_def demo_pages demo_branch_read P_INVALID_def CURSOR_STACK_def)
qed

lemma demo_items: "items (see demo_st True) 1 2 = [([0x61], [0x78]), ([0x62], [0x79])]"
  by (simp add: demo_pages demo_branch_read demo_leaf_items upt_rec)

lemma demo_mc [simp]: "ro_flags demo_mc = True" "\<not> has_init demo_mc" "\<not> has (mc_flags demo_mc) C_DEL"
  "\<not> has (mc_flags demo_mc) C_EOF"
  by (simp_all add: demo_mc_def ro_flags_def has_init_def has_def cursor_flag_defs env_flag_defs)

lemma demo_ready: "db_ready demo_st demo_mc Cmp_memn 2"
  by (simp add: db_ready_def demo_st_def demo_mc_def raw_cursor_def mc_dbflag_def mc_dbx_def mc_db_def aget_def
      demo_dbx_def demo_tree_db_def has_def env_flag_defs txn_flag_defs DB_VALID_def DB_USRVALID_def DB_STALE_def)

lemma demo_fresh: "fresh_or_rooted demo_st demo_mc 2"
  by (simp add: fresh_or_rooted_def demo_mc_def raw_cursor_def CURSOR_STACK_def)

lemma demo_usable: "usable demo_st 40 Cmp_memn short (\<lambda>a. a) 1 2 demo_mc"
  using demo_fresh by (simp add: usable_def)

end
