(* ===== verification/Dump.thy ===== *)
theory Dump
  imports Info Demo_Tree
begin

text \<open>
  \<open>dumpit\<close> of \<open>mdb_dump.c\<close> and \<open>readhdr\<close> of \<open>mdb_load.c\<close>: the header and the records that a dump
  of a database has, and how the loader takes them in. What \<open>printf\<close>, \<open>sscanf\<close>, \<open>atoi\<close>, \<open>strncmp\<close> and
  \<open>memchr\<close> do is that of the C library in the C locale.
\<close>

section \<open>Numbers\<close>

function num :: "nat \<Rightarrow> nat \<Rightarrow> bytes" where
  "num base n =
     (if base < 2 \<or> n < base then [hexc ! n] else num base (n div base) @ [hexc ! (n mod base)])"
  by pat_completeness auto
termination by (relation "measure snd") auto

declare num.simps [simp del]

definition digit :: "u8 \<Rightarrow> nat option" where
  "digit c =
     (if 0x30 \<le> c \<and> c \<le> 0x39 then Some (unat c - 48)
      else if 0x61 \<le> c \<and> c \<le> 0x66 then Some (unat c - 87)
      else if 0x41 \<le> c \<and> c \<le> 0x46 then Some (unat c - 55)
      else None)"

definition is_digit :: "nat \<Rightarrow> u8 \<Rightarrow> bool" where
  "is_digit base c \<longleftrightarrow> (case digit c of None \<Rightarrow> False | Some d \<Rightarrow> d < base)"

definition number :: "nat \<Rightarrow> bytes \<Rightarrow> nat" where
  "number base s = foldl (\<lambda>a c. a * base + the (digit c)) 0 s"

definition isspace :: "u8 \<Rightarrow> bool" where
  "isspace c \<longleftrightarrow> c = SPACE \<or> 9 \<le> c \<and> c \<le> 13"

text \<open>The sign and the digits that a number at the start of \<open>s\<close> has.\<close>

definition scan_num :: "nat \<Rightarrow> bytes \<Rightarrow> (bool \<times> bytes)" where
  "scan_num base s = (
     let s = dropWhile isspace s;
         neg = (take 1 s = lit ''-'');
         s = (if neg \<or> take 1 s = lit ''+'' then drop 1 s else s);
         s = (if base = 16 \<and> (take 2 s = lit ''0x'' \<or> take 2 s = lit ''0X'') \<and> drop 2 s \<noteq> [] \<and> is_digit 16 (s ! 2)
              then drop 2 s else s)
     in (neg, takeWhile (is_digit base) s))"

definition strtoul :: "nat \<Rightarrow> bool \<times> bytes \<Rightarrow> u64" where
  "strtoul base x = (
     let v = number base (snd x) in
     if v \<ge> 2 ^ 64 then - 1 else if fst x then - of_nat v else of_nat v)"

definition atoi :: "bytes \<Rightarrow> int" where
  "atoi s = (
     let (neg, ds) = scan_num 10 s;
         v = int (number 10 ds);
         v = (if neg then max (- v) (- (2 ^ 63)) else min v (2 ^ 63 - 1))
     in sint (of_int v :: u32))"

section \<open>Dumping\<close>

definition dbflags :: "(u16 \<times> bytes) list" where
  "dbflags = [
     (MDB_REVERSEKEY, lit ''reversekey''),
     (MDB_DUPSORT, lit ''dupsort''),
     (MDB_INTEGERKEY, lit ''integerkey''),
     (MDB_DUPFIXED, lit ''dupfixed''),
     (MDB_INTEGERDUP, lit ''integerdup''),
     (MDB_REVERSEDUP, lit ''reversedup'')]"

definition header ::
    "u32 \<Rightarrow> bytes option \<Rightarrow> u32 \<Rightarrow> stat \<Rightarrow> envinfo \<Rightarrow> bytes" where
  "header mode name flags ms info =
     lit ''VERSION=3'' @ [NEWLINE] @
     lit ''format='' @ (if mode AND PRINT \<noteq> 0 then lit ''print'' else lit ''bytevalue'') @ [NEWLINE] @
     (case name of None \<Rightarrow> [] | Some n \<Rightarrow> lit ''database='' @ n @ [NEWLINE]) @
     lit ''type=btree'' @ [NEWLINE] @
     lit ''mapsize='' @ num 10 (unat (inf_mapsize info)) @ [NEWLINE] @
     (if inf_mapaddr info \<noteq> 0 then lit ''mapaddr=0x'' @ num 16 (unat (inf_mapaddr info)) @ [NEWLINE] else []) @
     lit ''maxreaders='' @ num 10 (unat (inf_maxreaders info)) @ [NEWLINE] @
     (if has flags (ucast MDB_DUPSORT) then lit ''duplicates=1'' @ [NEWLINE] else []) @
     concat (map (\<lambda>(b, s). if has flags (ucast b) then s @ lit ''=1'' @ [NEWLINE] else []) dbflags) @
     lit ''db_pagesize='' @ num 10 (unat (ms_psize ms)) @ [NEWLINE] @
     lit ''HEADER=END'' @ [NEWLINE]"

text \<open>
  The loop over the records. In \<open>rc = mdb_cursor_get(\<dots>) == MDB_SUCCESS\<close> the comparison binds
  tighter than the assignment, so \<open>rc\<close> is 1 inside the loop and 0 when it ends by itself.
  \<open>gotsig n\<close> says whether a signal has arrived by record \<open>n\<close>.
\<close>

definition dump_record :: "u32 \<Rightarrow> bytes \<Rightarrow> bytes \<Rightarrow> bytes" where
  "dump_record mode key data =
     (if mode AND PRINT \<noteq> 0 then text_val key @ text_val data else byte_val key @ byte_val data)"

partial_function (option) dump_loop ::
    "(nat \<Rightarrow> bool) \<Rightarrow> u32 \<Rightarrow> nat \<Rightarrow> 'a st_scheme \<Rightarrow> mcursor \<Rightarrow> (bytes \<times> int \<times> 'a st_scheme) option" where
  "dump_loop gotsig mode n st m = do {
     (rc, st, m, key, data) \<leftarrow> mdb_cursor_get st (Some m) (Some []) (Some []) MDB_NEXT;
     let rc = (if rc = MDB_SUCCESS then 1 else 0 :: int);
     if rc = 0 then Some ([], rc, st)
     else if gotsig n then Some ([], EINTR, st)
     else do {
       m \<leftarrow> m; key \<leftarrow> key; data \<leftarrow> data;
       (out, rc, st) \<leftarrow> dump_loop gotsig mode (n + 1) st m;
       Some (dump_record mode key data @ out, rc, st) } }"

text \<open>\<open>dumpit\<close>: what it prints, its result, and the state. \<open>ok\<close> is for the \<open>malloc\<close> of the cursor.\<close>

definition dumpit ::
    "(nat \<Rightarrow> bool) \<Rightarrow> bool \<Rightarrow> u32 \<Rightarrow> 'a st_scheme \<Rightarrow> nat \<Rightarrow> bytes option \<Rightarrow> (bytes \<times> int \<times> 'a st_scheme) option" where
  "dumpit gotsig ok mode st dbi name = do {
     (rc, flags) \<leftarrow> mdb_dbi_flags (st_txn st) dbi;
     if rc \<noteq> 0 then Some ([], rc, st)
     else do {
       (rc, st, ms) \<leftarrow> mdb_stat st dbi;
       if rc \<noteq> 0 then Some ([], rc, st)
       else do {
         let (rc, info) = mdb_env_info (st_env st) (st_file st);
         if rc \<noteq> 0 then Some ([], rc, st)
         else do {
           flags \<leftarrow> flags; ms \<leftarrow> ms;
           let out = header mode name flags ms info;
           (rc, st, m) \<leftarrow> mdb_cursor_open ok st dbi;
           if rc \<noteq> 0 then Some (out, rc, st)
           else do {
             m \<leftarrow> m;
             (recs, rc, st) \<leftarrow> dump_loop gotsig mode 0 st m;
             let rc = (if rc = MDB_NOTFOUND then MDB_SUCCESS else rc);
             Some (out @ recs @ lit ''DATA=END'' @ [NEWLINE], rc, st) } } } } }"

section \<open>Reading the header\<close>

definition starts :: "bytes \<Rightarrow> string \<Rightarrow> bool" where
  "starts buf s \<longleftrightarrow> take (length s) buf = lit s"

definition cut_newline :: "bytes \<Rightarrow> bytes" where
  "cut_newline buf =
     (let i = length (takeWhile (\<lambda>c. c \<noteq> NEWLINE) buf) in if i < length buf then buf[i := 0] else buf)"

definition c_string :: "bytes \<Rightarrow> nat \<Rightarrow> bytes" where
  "c_string buf off = takeWhile (\<lambda>c. c \<noteq> 0) (drop off buf)"

fun find_flag :: "bytes \<Rightarrow> (u16 \<times> bytes) list \<Rightarrow> u16 option" where
  "find_flag buf [] = None"
| "find_flag buf ((b, s) # r) =
     (if take (length s) buf = s \<and> aget buf (length s) = Some 0x3d then Some b else find_flag buf r)"

text \<open>
  One line of the header, in the buffer \<open>dbuf\<close>. The result is \<open>None\<close> when the program exits,
  otherwise whether the header ends here, the buffer and the state.
\<close>

definition hdr_number :: "nat \<Rightarrow> nat \<Rightarrow> bytes \<Rightarrow> u64 option" where
  "hdr_number base off buf =
     (let x = scan_num base (c_string buf off) in if snd x = [] then None else Some (strtoul base x))"

definition hdr_line :: "bytes \<Rightarrow> loader \<Rightarrow> (bool \<times> bytes \<times> loader) option" where
  "hdr_line buf ld =
     (if starts buf ''VERSION='' then
        let v = atoi (c_string buf 8) in
        if v > 3 then None else Some (False, buf, ld\<lparr>ld_version := v\<rparr>)
      else if starts buf ''HEADER=END'' then Some (True, buf, ld)
      else if starts buf ''format='' then
        if starts (drop 7 buf) ''print'' then Some (False, buf, ld\<lparr>ld_mode := ld_mode ld OR PRINT\<rparr>)
        else if \<not> starts (drop 7 buf) ''bytevalue'' then None
        else Some (False, buf, ld)
      else if starts buf ''database='' then
        let buf = cut_newline buf in Some (False, buf, ld\<lparr>ld_subname := Some (c_string buf 9)\<rparr>)
      else if starts buf ''type='' then
        if \<not> starts (drop 5 buf) ''btree'' then None else Some (False, buf, ld)
      else if starts buf ''mapaddr='' then
        let buf = cut_newline buf in
        if starts (drop 8 buf) ''(nil)'' then Some (False, buf, ld\<lparr>ld_mapaddr := 0\<rparr>)
        else do { v \<leftarrow> hdr_number 16 8 buf; Some (False, buf, ld\<lparr>ld_mapaddr := v\<rparr>) }
      else if starts buf ''mapsize='' then do {
        let buf = cut_newline buf;
        v \<leftarrow> hdr_number 10 8 buf;
        Some (False, buf, ld\<lparr>ld_mapsize := v\<rparr>) }
      else if starts buf ''maxreaders='' then do {
        let buf = cut_newline buf;
        v \<leftarrow> hdr_number 10 11 buf;
        Some (False, buf, ld\<lparr>ld_maxreaders := ucast v\<rparr>) }
      else
        (case find_flag buf dbflags of
           Some b \<Rightarrow> Some (False, buf, ld\<lparr>ld_flags := ld_flags ld OR ucast b\<rparr>)
         | None \<Rightarrow>
             let i = length (takeWhile (\<lambda>c. c \<noteq> 0x3d) buf) in
             if i < length buf then Some (False, buf[i := 0], ld) else None))"

function hdr_loop :: "bytes \<Rightarrow> loader \<Rightarrow> (bytes \<times> loader) option" where
  "hdr_loop buf ld =
     (if length buf < 2 then None
      else do {
        r \<leftarrow> fgets buf 0 (length buf) (ld_stdin ld);
        (case r of
           None \<Rightarrow> Some (buf, ld)
         | Some (buf, rest) \<Rightarrow> do {
             (fin, buf, ld) \<leftarrow> hdr_line buf (ld\<lparr>ld_lineno := ld_lineno ld + 1, ld_stdin := rest\<rparr>);
             if fin then Some (buf, ld) else hdr_loop buf ld }) })"
  by pat_completeness auto
termination
proof (relation "measure (\<lambda>(_, ld). length (ld_stdin ld))", goal_cases)
  case 1
  then show ?case by simp
next
  case (2 buf ld r p buf' rest x fin y buf'' ld')
  then have "length rest < length (ld_stdin ld)" using fgets_shorter [of buf 0 "length buf" "ld_stdin ld" buf' rest] by auto
  moreover have "ld_stdin ld' = rest"
    using 2 by (auto simp: hdr_line_def Let_def split: if_splits option.splits bind_splits)
  ultimately show ?case by simp
qed

declare hdr_loop.simps [simp del]

definition readhdr :: "bytes \<Rightarrow> loader \<Rightarrow> (bytes \<times> loader) option" where
  "readhdr buf ld = hdr_loop buf (ld\<lparr>ld_flags := 0\<rparr>)"

end
