(* ===== verification/Read_Path.thy ===== *)
theory Read_Path
  imports Demo_Tree
begin

text \<open>
  What the application sees of the read path: \<open>mdb_cursor_get\<close>'s moves and \<open>mdb_get\<close> on a
  well-formed tree, as operations on the sorted list of its items.
\<close>

lemma cursor_set_spec:
  assumes db: "db_ready st mc c root" and root: "root_ok st (ro_flags mc) psize c valid rank d root"
    and mc: "usable st psize c valid rank d root mc"
    and key: "valid key" "key \<noteq> []" and op: "op \<in> {MDB_SET, MDB_SET_KEY, MDB_SET_RANGE}"
  shows "set_spec st psize c valid rank d root mc key d0 op
    (mdb_cursor_set st (mc, None) (Some key) d0 op (op \<noteq> MDB_SET_RANGE))"
proof (cases "has_init mc")
  case True
  then obtain pre post where at: "cursor_at st psize c valid rank d root mc pre post"
    using mc by (auto simp: usable_def)
  obtain g m1 where g: "set_on_page st mc key op (op \<noteq> MDB_SET_RANGE) = Some (g, m1)"
    "set_spec st psize c valid rank d root mc key d0 op
      (set_go sub_first sub_set st key d0 op (op \<noteq> MDB_SET_RANGE) g m1)"
    using cursor_set_on_page [OF db root at key(1) op] by blast
  have "mdb_cursor_set st (mc, None) (Some key) d0 op (op \<noteq> MDB_SET_RANGE) =
      set_go sub_first sub_set st key d0 op (op \<noteq> MDB_SET_RANGE) g m1"
    using g(1) True key(2) by (simp add: mdb_cursor_set_def cursor_set_body_def reset_sub_def set_go_def)
  then show ?thesis using g(2) by simp
next
  case False
  then have fr: "fresh_or_rooted st mc root" using mc by (auto simp: usable_def cursor_at_def)
  let ?m1 = "mc\<lparr>mc_pg := (mc_pg mc)[0 := None]\<rparr>"
  have len: "0 < length (mc_pg mc)" using fr by (simp add: fresh_or_rooted_def CURSOR_STACK_def)
  have e: "mc_own ?m1 = mc_own mc" "mc_dbi ?m1 = mc_dbi mc" "ro_flags ?m1 = ro_flags mc" by (simp_all add: ro_flags_def)
  have fr1: "fresh_or_rooted st ?m1 root" using fr len by (simp add: fresh_or_rooted_def CURSOR_STACK_def)
  have db1: "db_ready st ?m1 c root" using db by (subst db_ready_cong [OF e(1,2)])
  have root1: "root_ok st (ro_flags ?m1) psize c valid rank d root" using root e(3) by simp
  have "mdb_cursor_set st (mc, None) (Some key) d0 op (op \<noteq> MDB_SET_RANGE) =
      set_go sub_first sub_set st key d0 op (op \<noteq> MDB_SET_RANGE) Set_search ?m1"
    using False key(2) len by (simp add: mdb_cursor_set_def cursor_set_body_def reset_sub_def set_go_def)
  moreover have "set_spec st psize c valid rank d root ?m1 key d0 op
      (set_go sub_first sub_set st key d0 op (op \<noteq> MDB_SET_RANGE) Set_search ?m1)"
    by (rule set_search_spec [OF db1 root1 fr1 key(1) op])
  ultimately show ?thesis unfolding set_spec_cong [OF e, symmetric] by (simp only:)
qed

section \<open>Moving\<close>

text \<open>\<open>MDB_FIRST\<close>, on a cursor that is new or stands anywhere in a well-formed tree, returns the
  first key/data pair and leaves the cursor before all items.\<close>

theorem cursor_first_correct:
  assumes "db_ready st mc c root" "root_ok st (ro_flags mc) psize c valid rank d root"
    and "usable st psize c valid rank d root mc"
  shows "\<exists>mc' x xs. mdb_cursor_first st (mc, None) (Some k0) (Some d0) = Some (0, st, (mc', None), Some (fst x), Some (snd x)) \<and>
    items (see st (ro_flags mc)) d root = x # xs \<and> cursor_at st psize c valid rank d root mc' [] (x # xs)"
  using cursor_first_eq [OF assms, of k0 "Some d0"] unfolding option.map by blast

text \<open>C29: \<open>MDB_NEXT\<close> on a cursor at item \<open>x\<close> of a well-formed tree returns the item that follows in
  the sorted list of all items and moves there, across as many pages as needed, or answers
  \<open>MDB_NOTFOUND\<close> after the last one, leaving the cursor in place.\<close>

theorem cursor_next_correct:
  assumes "db_ready st mc c root" "root_ok st (ro_flags mc) psize c valid rank d root"
    and "cursor_at st psize c valid rank d root mc pre (x # post)" "\<not> has (mc_flags mc) C_DEL" "\<not> has (mc_flags mc) C_EOF"
  shows "case post of
      [] \<Rightarrow> \<exists>mc'. mdb_cursor_next st (mc, None) (Some k0) (Some d0) MDB_NEXT = Some (MDB_NOTFOUND, st, (mc', None), Some k0, Some d0) \<and>
        cursor_at st psize c valid rank d root mc' pre [x]
    | y # ys \<Rightarrow> \<exists>mc'. mdb_cursor_next st (mc, None) (Some k0) (Some d0) MDB_NEXT =
          Some (0, st, (mc', None), Some (fst y), Some (snd y)) \<and>
        cursor_at st psize c valid rank d root mc' (pre @ [x]) post"
  using cursor_next_eq [OF assms(1,2,3,4), of MDB_NEXT k0 "Some d0"] assms(5) by (cases post) auto

text \<open>Reading with \<open>MDB_NEXT\<close> until it fails; \<open>n\<close> bounds the number of calls.\<close>

fun read_all :: "nat \<Rightarrow> 'a st_scheme \<Rightarrow> mcursor \<Rightarrow> ((bytes \<times> bytes) list \<times> int) option" where
  "read_all 0 st m = None"
| "read_all (Suc n) st m = do {
     (rc, st, m, k, v) \<leftarrow> mdb_cursor_next st m (Some []) (Some []) MDB_NEXT;
     if rc \<noteq> 0 then Some ([], rc)
     else do {
       (xs, rc) \<leftarrow> read_all n st m;
       Some ((the k, the v) # xs, rc) } }"

lemma read_rest:
  "db_ready st mc c root \<Longrightarrow> root_ok st (ro_flags mc) psize c valid rank d root \<Longrightarrow>
    cursor_at st psize c valid rank d root mc pre (x # post) \<Longrightarrow> \<not> has (mc_flags mc) C_DEL \<Longrightarrow> \<not> has (mc_flags mc) C_EOF \<Longrightarrow>
    read_all (Suc (length post)) st (mc, None) = Some (post, MDB_NOTFOUND)"
proof (induction post arbitrary: mc pre x)
  case Nil
  then show ?case using cursor_next_eq [OF Nil(1-4), of MDB_NEXT "[]" "Some []"] by (auto simp: MDB_NOTFOUND_def)
next
  case (Cons y ys)
  obtain mc' where m: "mdb_cursor_next st (mc, None) (Some []) (Some []) MDB_NEXT = Some (0, st, (mc', None), Some (fst y), Some (snd y))"
    "cursor_at st psize c valid rank d root mc' (pre @ [x]) (y # ys)" "\<not> has (mc_flags mc') C_EOF"
    "ro_flags mc' = ro_flags mc" "mc_own mc' = mc_own mc" "mc_dbi mc' = mc_dbi mc" "\<not> has (mc_flags mc') C_DEL"
    using cursor_next_eq [OF Cons.prems(1-4), of MDB_NEXT "[]" "Some []"] Cons.prems(5) by auto
  have db: "db_ready st mc' c root" using Cons.prems(1) by (subst db_ready_cong [OF m(5,6)])
  have root: "root_ok st (ro_flags mc') psize c valid rank d root" using Cons.prems(2) m(4) by simp
  have "read_all (Suc (length ys)) st (mc', None) = Some (ys, MDB_NOTFOUND)"
    by (rule Cons.IH [OF db root m(2,7,3)])
  then show ?case using m(1) read_all.simps(2) [of "Suc (length ys)" st "(mc, None)"] by (simp del: read_all.simps)
qed

text \<open>C2: a new cursor, moved with \<open>MDB_NEXT\<close> until \<open>MDB_NOTFOUND\<close>, reads exactly the items of the tree,
  each once, in strictly ascending key order, and stops there.\<close>

theorem full_scan_correct:
  fixes rank :: "bytes \<Rightarrow> 'k::linorder"
  assumes db: "db_ready st mc c root" and root: "root_ok st (ro_flags mc) psize c valid rank d root"
    and mc: "fresh_or_rooted st mc root" "\<not> has_init mc" "\<not> has (mc_flags mc) C_DEL"
  shows "read_all (length (items (see st (ro_flags mc)) d root) + 1) st (mc, None) =
      Some (items (see st (ro_flags mc)) d root, MDB_NOTFOUND) \<and>
    ascending rank (items (see st (ro_flags mc)) d root)"
proof -
  have u: "usable st psize c valid rank d root mc" using mc by (simp add: usable_def)
  obtain mc' x xs where F: "mdb_cursor_first st (mc, None) (Some []) (Some []) = Some (0, st, (mc', None), Some (fst x), Some (snd x))"
    "items (see st (ro_flags mc)) d root = x # xs" "cursor_at st psize c valid rank d root mc' [] (x # xs)"
    "ro_flags mc' = ro_flags mc" "mc_own mc' = mc_own mc" "mc_dbi mc' = mc_dbi mc" "\<not> has (mc_flags mc') C_EOF"
    "\<not> has (mc_flags mc') C_DEL"
    using cursor_first_eq [OF db root u, of "[]" "Some []"] mc(3) unfolding option.map by blast
  have db': "db_ready st mc' c root" using db by (subst db_ready_cong [OF F(5,6)])
  have root': "root_ok st (ro_flags mc') psize c valid rank d root" using root F(4) by simp
  have "mdb_cursor_next st (mc, None) (Some []) (Some []) MDB_NEXT = mdb_cursor_first st (mc, None) (Some []) (Some [])"
    using mc(2) by (simp add: mdb_cursor_next_def cursor_next_body_def)
  then have "read_all (length (items (see st (ro_flags mc)) d root) + 1) st (mc, None) =
      Some (items (see st (ro_flags mc)) d root, MDB_NOTFOUND)"
    using F(1,2) read_rest [OF db' root' F(3,8,7)] read_all.simps(2) [of "Suc (length xs)" st "(mc, None)"]
    by (simp del: read_all.simps)
  moreover have "ascending rank (items (see st (ro_flags mc)) d root)"
    using root by (auto simp: root_ok_def intro: items_ascending)
  ultimately show ?thesis by blast
qed

section \<open>Lookup\<close>

lemma replicate_update: "(replicate n x)[i := x] = replicate n x"
proof (cases "i < n")
  case True
  then show ?thesis using list_update_id [of "replicate n x" i] by simp
qed (simp add: list_update_beyond)

lemma from_key_find:
  fixes rank :: "bytes \<Rightarrow> 'k::linorder"
  shows "ascending rank xs \<Longrightarrow>
    (if from_key rank r xs \<noteq> [] \<and> rank (fst (hd (from_key rank r xs))) = r then Some (hd (from_key rank r xs)) else None) =
    find (\<lambda>x. rank (fst x) = r) xs"
proof (induction xs)
  case (Cons x xs)
  have asc: "ascending rank xs" "\<forall>y \<in> set xs. rank (fst x) < rank (fst y)"
    using Cons.prems by (auto simp: ascending_def)
  consider "rank (fst x) < r" | "rank (fst x) = r" | "r < rank (fst x)" by (meson linorder_cases)
  then show ?case
  proof cases
    case 1
    then have "from_key rank r (x # xs) = from_key rank r xs" "rank (fst x) \<noteq> r" by (auto simp: from_key_def)
    then show ?thesis using Cons.IH [OF asc(1)] by (simp split: if_splits)
  next
    case 3
    then have "find (\<lambda>x. rank (fst x) = r) xs = None" using asc(2) by (fastforce simp: find_None_iff)
    then show ?thesis using 3 less_imp_le [OF 3] by (simp add: from_key_def)
  qed (simp add: from_key_def)
qed (simp add: from_key_def)

lemma root_ok_ascending:
  "root_ok st ro psize c valid rank d root \<Longrightarrow> ascending rank (items (see st ro) d root)"
  by (auto simp: root_ok_def intro: items_ascending)

text \<open>C3: \<open>MDB_SET_RANGE\<close>, on a cursor that is new or stands anywhere in the tree, finds the first item
  whose key is not below the given one and leaves the cursor between the items below the key and
  the others, or answers \<open>MDB_NOTFOUND\<close> when there is none: none of the shortcuts through the
  page the cursor is on changes the answer.\<close>

theorem cursor_set_range_correct:
  assumes "db_ready st mc c root" "root_ok st (ro_flags mc) psize c valid rank d root"
    and "usable st psize c valid rank d root mc" "valid key" "key \<noteq> []"
  shows "\<exists>mc'. (case from_key rank (rank key) (items (see st (ro_flags mc)) d root) of
      [] \<Rightarrow> mdb_cursor_set st (mc, None) (Some key) (Some d0) MDB_SET_RANGE False =
        Some (MDB_NOTFOUND, st, (mc', None), Some key, Some d0)
    | x # xs \<Rightarrow> mdb_cursor_set st (mc, None) (Some key) (Some d0) MDB_SET_RANGE False =
        Some (0, st, (mc', None), Some (fst x), Some (snd x)) \<and>
        cursor_at st psize c valid rank d root mc' (below rank (rank key) (items (see st (ro_flags mc)) d root)) (x # xs))"
  using cursor_set_spec [OF assms, of MDB_SET_RANGE "Some d0"]
  by (auto simp: set_spec_def Let_def split: list.split)

text \<open>C28: \<open>MDB_SET_KEY\<close> returns the stored key and data of the item with the given key, and the cursor
  there, or \<open>MDB_NOTFOUND\<close> when no item has the key.\<close>

theorem cursor_set_key_correct:
  assumes db: "db_ready st mc c root" and root: "root_ok st (ro_flags mc) psize c valid rank d root"
    and mc: "usable st psize c valid rank d root mc" "valid key" "key \<noteq> []"
  shows "\<exists>mc'. (case find (\<lambda>x. rank (fst x) = rank key) (items (see st (ro_flags mc)) d root) of
      None \<Rightarrow> mdb_cursor_set st (mc, None) (Some key) (Some d0) MDB_SET_KEY True =
        Some (MDB_NOTFOUND, st, (mc', None), Some key, Some d0)
    | Some x \<Rightarrow> mdb_cursor_set st (mc, None) (Some key) (Some d0) MDB_SET_KEY True =
        Some (0, st, (mc', None), Some (fst x), Some (snd x)))"
proof -
  let ?xs = "items (see st (ro_flags mc)) d root"
  note f = from_key_find [OF root_ok_ascending [OF root], of "rank key", symmetric]
  show ?thesis
    unfolding f using cursor_set_spec [OF db root mc, of MDB_SET_KEY "Some d0"]
    by (cases "from_key rank (rank key) ?xs \<noteq> [] \<and> rank (fst (hd (from_key rank (rank key) ?xs))) = rank key")
      (auto simp: set_spec_def Let_def)
qed

text \<open>The cursor that \<open>mdb_cursor_init\<close> makes.\<close>

definition new_cursor :: "'a st_scheme \<Rightarrow> nat \<Rightarrow> cursor" where
  "new_cursor st dbi = raw_cursor\<lparr>mc_dbi := dbi, mc_flags := mt_flags (st_txn st) AND (C_ORIG_RDONLY OR C_WRITEMAP)\<rparr>"

lemma new_cursor_flags: "\<not> has_init (new_cursor st dbi)" "\<not> has (mc_flags (new_cursor st dbi)) C_DEL"
  by (simp_all add: new_cursor_def has_init_def has_def cursor_flag_defs env_flag_defs) (simp_all add: and.assoc)

lemma new_cursor_fresh: "fresh_or_rooted st (new_cursor st dbi) root"
  by (simp add: new_cursor_def fresh_or_rooted_def raw_cursor_def CURSOR_STACK_def)

lemma new_cursor_usable: "usable st psize c valid rank d root (new_cursor st dbi)"
  using new_cursor_flags new_cursor_fresh by (auto simp: usable_def)

text \<open>What a database holds: it is empty, or its root is the root of a well-formed tree.\<close>

definition db_items ::
    "'a st_scheme \<Rightarrow> nat \<Rightarrow> nat \<Rightarrow> cmp_fn \<Rightarrow> (bytes \<Rightarrow> bool) \<Rightarrow> (bytes \<Rightarrow> 'k::linorder) \<Rightarrow> nat \<Rightarrow> u64 \<Rightarrow> (bytes \<times> bytes) list \<Rightarrow> bool" where
  "db_items st dbi psize c valid rank d root xs \<longleftrightarrow>
     root = P_INVALID \<and> xs = [] \<or>
     root_ok st (ro_flags (new_cursor st dbi)) psize c valid rank d root \<and>
       xs = items (see st (ro_flags (new_cursor st dbi))) d root"

lemma cursor_init_new:
  assumes db: "db_ready st (new_cursor st dbi) c root"
  shows "mdb_cursor_init st raw_cursor dbi mx = Some (st, (new_cursor st dbi, None))"
proof -
  obtain df d1 where D: "aget (mt_dbflags (st_txn st)) dbi = Some df" "\<not> has df DB_STALE"
    "aget (mt_dbs (st_txn st)) dbi = Some d1" "\<not> has (md_flags d1) MDB_DUPSORT"
    using db by (auto simp: db_ready_def new_cursor_def mc_dbflag_def mc_db_def raw_cursor_def)
  then show ?thesis
    by (simp add: mdb_cursor_init_def cursor_init_fields_def new_cursor_def raw_cursor_def CURSOR_STACK_def aset_def
        replicate_update)
qed

section \<open>A cursor at an item, and the moves of \<open>mdb_cursor_get\<close>\<close>

definition sits ::
    "'a st_scheme \<Rightarrow> nat \<Rightarrow> cmp_fn \<Rightarrow> (bytes \<Rightarrow> bool) \<Rightarrow> (bytes \<Rightarrow> 'k::linorder) \<Rightarrow> nat \<Rightarrow> u64 \<Rightarrow> cursor \<Rightarrow>
     (bytes \<times> bytes) list \<Rightarrow> bytes \<times> bytes \<Rightarrow> (bytes \<times> bytes) list \<Rightarrow> bool" where
  "sits st psize c valid rank d root mc pre x post \<longleftrightarrow>
     db_ready st mc c root \<and> root_ok st (ro_flags mc) psize c valid rank d root \<and>
     cursor_at st psize c valid rank d root mc pre (x # post) \<and> \<not> has (mc_flags mc) C_DEL \<and> \<not> has (mc_flags mc) C_EOF"

lemma clear_del [simp]:
  "ro_flags (clear_flags C_DEL mc) = ro_flags mc" "has_init (clear_flags C_DEL mc) = has_init mc"
  "has (mc_flags (clear_flags C_DEL mc)) C_EOF = has (mc_flags mc) C_EOF"
proof -
  have "C_DEL AND (C_ORIG_RDONLY OR C_WRITEMAP) = 0" "C_DEL AND C_INITIALIZED = 0" "C_DEL AND C_EOF = 0"
    by (simp_all add: cursor_flag_defs env_flag_defs)
  then show "ro_flags (clear_flags C_DEL mc) = ro_flags mc" "has_init (clear_flags C_DEL mc) = has_init mc"
    "has (mc_flags (clear_flags C_DEL mc)) C_EOF = has (mc_flags mc) C_EOF"
    by (simp_all add: ro_flags_def has_init_def clear_flags_def has_andnot)
qed

lemma sits_drop:
  assumes at: "cursor_at st psize c valid rank d root mc pre (x # post)" and eof: "\<not> has (mc_flags mc) C_EOF"
    and db: "db_ready st mc c root" and root: "root_ok st (ro_flags mc) psize c valid rank d root"
  shows "\<exists>mc'. drop_del (mc, None) = (mc', None) \<and> sits st psize c valid rank d root mc' pre x post \<and>
    ro_flags mc' = ro_flags mc \<and> mc_dbi mc' = mc_dbi mc"
proof (cases "has (mc_flags mc) C_DEL")
  case True
  have init: "has_init mc" using at by (auto simp: cursor_at_def)
  have "cursor_at st psize c valid rank d root (clear_flags C_DEL mc) pre (x # post)"
    by (rule cursor_at_flags [OF at]) (use init in simp_all)
  moreover have "db_ready st (clear_flags C_DEL mc) c root"
    using db by (subst db_ready_cong [of _ mc]) simp_all
  ultimately show ?thesis using True eof root by (simp add: drop_del_def sits_def)
next
  case False
  then show ?thesis using assms by (simp add: drop_del_def sits_def)
qed

lemma get_next:
  assumes s: "sits st psize c valid rank d root mc pre x post"
  shows "case post of
      [] \<Rightarrow> \<exists>m'. mdb_cursor_get st (Some (mc, None)) (Some k0) d0 MDB_NEXT = Some (MDB_NOTFOUND, st, Some m', Some k0, d0)
    | y # ys \<Rightarrow> \<exists>mc'. mdb_cursor_get st (Some (mc, None)) (Some k0) d0 MDB_NEXT =
          Some (0, st, Some (mc', None), Some (fst y), out d0 (snd y)) \<and>
        sits st psize c valid rank d root mc' (pre @ [x]) y ys \<and> ro_flags mc' = ro_flags mc \<and> mc_dbi mc' = mc_dbi mc"
proof -
  have S: "db_ready st mc c root" "root_ok st (ro_flags mc) psize c valid rank d root"
    "cursor_at st psize c valid rank d root mc pre (x # post)" "\<not> has (mc_flags mc) C_DEL" "\<not> has (mc_flags mc) C_EOF"
    using s by (simp_all add: sits_def)
  have b: "\<not> has (mt_flags (st_txn st)) MDB_TXN_BLOCKED" using S(1) by (simp add: db_ready_def)
  show ?thesis
  proof (cases post)
    case Nil
    then show ?thesis using cursor_next_eq [OF S(1-4), of MDB_NEXT k0 d0] b by (auto simp: mdb_cursor_get_def)
  next
    case (Cons y ys)
    obtain m1 where m1: "mdb_cursor_next st (mc, None) (Some k0) d0 MDB_NEXT = Some (0, st, (m1, None), Some (fst y), out d0 (snd y))"
      "cursor_at st psize c valid rank d root m1 (pre @ [x]) (y # ys)" "\<not> has (mc_flags m1) C_EOF"
      "ro_flags m1 = ro_flags mc" "mc_own m1 = mc_own mc" "mc_dbi m1 = mc_dbi mc"
      using cursor_next_eq [OF S(1-4), of MDB_NEXT k0 d0] S(5) Cons by auto
    have "db_ready st m1 c root" using S(1) by (subst db_ready_cong [OF m1(5,6)])
    then obtain m2 where "drop_del (m1, None) = (m2, None)" "sits st psize c valid rank d root m2 (pre @ [x]) y ys"
      "ro_flags m2 = ro_flags m1" "mc_dbi m2 = mc_dbi m1"
      using sits_drop [OF m1(2,3)] S(2) m1(4) by auto
    then show ?thesis using m1 b Cons by (simp add: mdb_cursor_get_def)
  qed
qed

lemma get_first:
  fixes rank :: "bytes \<Rightarrow> 'k::linorder"
  assumes db: "db_ready st (new_cursor st dbi) c root" and it: "db_items st dbi psize c valid rank d root xs"
  shows "case xs of
      [] \<Rightarrow> \<exists>m'. mdb_cursor_get st (Some (new_cursor st dbi, None)) (Some k0) d0 MDB_FIRST = Some (MDB_NOTFOUND, st, Some m', Some k0, d0)
    | x # ys \<Rightarrow> \<exists>mc'. mdb_cursor_get st (Some (new_cursor st dbi, None)) (Some k0) d0 MDB_FIRST =
          Some (0, st, Some (mc', None), Some (fst x), out d0 (snd x)) \<and>
        sits st psize c valid rank d root mc' [] x ys \<and> ro_flags mc' = ro_flags (new_cursor st dbi) \<and> mc_dbi mc' = dbi"
proof -
  let ?mc = "new_cursor st dbi"
  have b: "\<not> has (mt_flags (st_txn st)) MDB_TXN_BLOCKED" using db by (simp add: db_ready_def)
  show ?thesis
  proof (cases "root = P_INVALID \<and> xs = []")
    case True
    have "mdb_page_search no_touch st ?mc None MDB_PS_FIRST = Some (MDB_NOTFOUND, st, ?mc)"
      using db b True by (auto simp: db_ready_def mdb_page_search_def page_search_from_db_def)
    then have "mdb_cursor_first st (?mc, None) (Some k0) d0 = Some (MDB_NOTFOUND, st, (?mc, None), Some k0, d0)"
      using new_cursor_flags [of st dbi] by (simp add: mdb_cursor_first_def cursor_first_body_def reset_sub_def MDB_NOTFOUND_def)
    then show ?thesis using True b by (auto simp: mdb_cursor_get_def)
  next
    case False
    then have root: "root_ok st (ro_flags ?mc) psize c valid rank d root" and xs: "xs = items (see st (ro_flags ?mc)) d root"
      using it by (auto simp: db_items_def)
    obtain m1 y ys where F: "mdb_cursor_first st (?mc, None) (Some k0) d0 = Some (0, st, (m1, None), Some (fst y), out d0 (snd y))"
      "xs = y # ys" "cursor_at st psize c valid rank d root m1 [] (y # ys)"
      "ro_flags m1 = ro_flags ?mc" "mc_own m1 = mc_own ?mc" "mc_dbi m1 = mc_dbi ?mc" "\<not> has (mc_flags m1) C_EOF"
      using cursor_first_eq [OF db root new_cursor_usable, of k0 d0] xs by blast
    have "db_ready st m1 c root" using db by (subst db_ready_cong [OF F(5,6)])
    then obtain m2 where "drop_del (m1, None) = (m2, None)" "sits st psize c valid rank d root m2 [] y ys"
      "ro_flags m2 = ro_flags m1" "mc_dbi m2 = mc_dbi m1"
      using sits_drop [OF F(3,7)] root F(4) by auto
    moreover have "mc_dbi ?mc = dbi" by (simp add: new_cursor_def)
    ultimately show ?thesis using F b by (simp add: mdb_cursor_get_def)
  qed
qed

lemma get_range:
  fixes rank :: "bytes \<Rightarrow> 'k::linorder"
  assumes db: "db_ready st (new_cursor st dbi) c root" and it: "db_items st dbi psize c valid rank d root xs"
    and key: "valid key" "key \<noteq> []"
  shows "case from_key rank (rank key) xs of
      [] \<Rightarrow> \<exists>m'. mdb_cursor_get st (Some (new_cursor st dbi, None)) (Some key) d0 MDB_SET_RANGE =
        Some (MDB_NOTFOUND, st, Some m', Some key, d0)
    | x # ys \<Rightarrow> \<exists>mc'. mdb_cursor_get st (Some (new_cursor st dbi, None)) (Some key) d0 MDB_SET_RANGE =
          Some (0, st, Some (mc', None), Some (fst x), out d0 (snd x)) \<and>
        sits st psize c valid rank d root mc' (below rank (rank key) xs) x ys \<and> ro_flags mc' = ro_flags (new_cursor st dbi) \<and>
        mc_dbi mc' = dbi"
proof -
  let ?mc = "new_cursor st dbi"
  have b: "\<not> has (mt_flags (st_txn st)) MDB_TXN_BLOCKED" using db by (simp add: db_ready_def)
  have op: "mdb_cursor_get st (Some (?mc, None)) (Some key) d0 MDB_SET_RANGE = (do {
      (rc, st, m, key, data) \<leftarrow> mdb_cursor_set st (?mc, None) (Some key) d0 MDB_SET_RANGE False;
      Some (rc, st, Some (drop_del m), key, data) })"
    using b by (simp add: mdb_cursor_get_def get_set_def)
  show ?thesis
  proof (cases "root = P_INVALID \<and> xs = []")
    case True
    let ?m1 = "?mc\<lparr>mc_pg := (mc_pg ?mc)[0 := None]\<rparr>"
    have len: "0 < length (mc_pg ?mc)" using new_cursor_fresh [of st dbi root] by (simp add: fresh_or_rooted_def CURSOR_STACK_def)
    have "db_ready st ?m1 c root" using db by (subst db_ready_cong [of _ ?mc]) simp_all
    then have "mdb_page_search no_touch st ?m1 (Some key) 0 = Some (MDB_NOTFOUND, st, ?m1)"
      using b True by (auto simp: db_ready_def mdb_page_search_def page_search_from_db_def)
    then have "mdb_cursor_set st (?mc, None) (Some key) d0 MDB_SET_RANGE False = Some (MDB_NOTFOUND, st, (?m1, None), Some key, d0)"
      using new_cursor_flags [of st dbi] len key(2)
      by (simp add: mdb_cursor_set_def cursor_set_body_def reset_sub_def MDB_NOTFOUND_def)
    then show ?thesis using True op by (simp add: from_key_def)
  next
    case False
    then have root: "root_ok st (ro_flags ?mc) psize c valid rank d root" and xs: "xs = items (see st (ro_flags ?mc)) d root"
      using it by (auto simp: db_items_def)
    let ?ge = "from_key rank (rank key) xs"
    note S = cursor_set_spec [OF db root new_cursor_usable key, of MDB_SET_RANGE d0, unfolded set_spec_def Let_def, folded xs]
    show ?thesis
    proof (cases ?ge)
      case Nil
      then obtain m1 where "mdb_cursor_set st (?mc, None) (Some key) d0 MDB_SET_RANGE False = Some (MDB_NOTFOUND, st, (m1, None), Some key, d0)"
        using S by auto
      then show ?thesis using Nil op by simp
    next
      case (Cons x ys)
      have "\<exists>m1. mc_own m1 = mc_own ?mc \<and> mc_dbi m1 = mc_dbi ?mc \<and> ro_flags m1 = ro_flags ?mc \<and>
        mdb_cursor_set st (?mc, None) (Some key) d0 MDB_SET_RANGE False = Some (0, st, (m1, None), Some (fst x), out d0 (snd x)) \<and>
        cursor_at st psize c valid rank d root m1 (below rank (rank key) xs) (x # ys) \<and> \<not> has (mc_flags m1) C_EOF"
        using S unfolding Cons by simp
      then obtain m1 where F: "mc_own m1 = mc_own ?mc" "mc_dbi m1 = mc_dbi ?mc" "ro_flags m1 = ro_flags ?mc"
        "mdb_cursor_set st (?mc, None) (Some key) d0 MDB_SET_RANGE False = Some (0, st, (m1, None), Some (fst x), out d0 (snd x))"
        "cursor_at st psize c valid rank d root m1 (below rank (rank key) xs) (x # ys)" "\<not> has (mc_flags m1) C_EOF" by blast
      have "db_ready st m1 c root" using db by (subst db_ready_cong [OF F(1,2)])
      then obtain m2 where "drop_del (m1, None) = (m2, None)" "sits st psize c valid rank d root m2 (below rank (rank key) xs) x ys"
        "ro_flags m2 = ro_flags m1" "mc_dbi m2 = mc_dbi m1"
        using sits_drop [OF F(5,6)] F(3) root by auto
      moreover have "mc_dbi ?mc = dbi" by (simp add: new_cursor_def)
      ultimately show ?thesis using F op Cons by simp
    qed
  qed
qed

lemma sits_read:
  assumes "sits st psize c valid rank d root mc pre x post"
  shows "\<exists>p k. top_page st mc = Some p \<and> ki_at mc = Some k \<and> NODEPTR p k = Some (pt p k) \<and>
    mdb_node_read st mc p (pt p k) = Some (0, st, Some (snd x))"
proof -
  let ?pg = "see st (ro_flags mc)"
  obtain ks p lo hi where K: "at_leaf st d root ks mc" "?pg (node_at ?pg root ks) = Some p"
    "leaf_ok ?pg psize c valid rank p lo hi" "mc_ki mc ! d < NUMKEYS p"
    "x # post = drop (mc_ki mc ! d) (leaf_items ?pg p) @ after ?pg d root ks"
    using assms by (auto simp: sits_def cursor_at_def)
  have "x = leaf_items ?pg p ! (mc_ki mc ! d)"
    using K(4,5) Cons_nth_drop_Suc [of "mc_ki mc ! d" "leaf_items ?pg p"] by simp (metis append_Cons list.inject)
  moreover have "mc_top mc = d" "d < length (mc_ki mc)" using K(1) by (simp_all add: at_leaf_def stack_ok_def)
  ultimately show ?thesis using leaf_read(1,3) [OF K(3,4)] at_leaf_top [OF K(1,2)] by simp
qed

lemma get_eq:
  assumes exist: "TXN_DBI_EXIST (st_txn st) dbi DB_USRVALID = Some True"
    and db: "db_ready st (new_cursor st dbi) c root"
    and root: "root_ok st (ro_flags (new_cursor st dbi)) psize c valid rank d root"
    and key: "valid key" "key \<noteq> []"
  shows "mdb_get st dbi (Some key) (Some d0) =
    (case find (\<lambda>x. rank (fst x) = rank key) (items (see st (ro_flags (new_cursor st dbi))) d root) of
       None \<Rightarrow> Some (MDB_NOTFOUND, st, Some d0)
     | Some x \<Rightarrow> Some (0, st, Some (snd x)))"
proof -
  let ?mc = "new_cursor st dbi"
  let ?xs = "items (see st (ro_flags ?mc)) d root"
  have b: "\<not> has (mt_flags (st_txn st)) MDB_TXN_BLOCKED" using db by (simp add: db_ready_def)
  note f = from_key_find [OF root_ok_ascending [OF root], of "rank key", symmetric]
  show ?thesis
    unfolding f using cursor_set_spec [OF db root new_cursor_usable key, of MDB_SET "Some d0"] exist b cursor_init_new [OF db]
    by (cases "from_key rank (rank key) ?xs \<noteq> [] \<and> rank (fst (hd (from_key rank (rank key) ?xs))) = rank key")
      (auto simp: set_spec_def Let_def mdb_get_def)
qed

text \<open>C1: \<open>mdb_get\<close> returns the data of the item with the given key, wherever in the tree it is,
  and \<open>MDB_NOTFOUND\<close>, leaving \<open>*data\<close> alone, when no item of the database has that key; the state is
  unchanged.\<close>

theorem mdb_get_correct:
  assumes exist: "TXN_DBI_EXIST (st_txn st) dbi DB_USRVALID = Some True"
    and db: "db_ready st (new_cursor st dbi) c root"
    and root: "root_ok st (ro_flags (new_cursor st dbi)) psize c valid rank d root"
    and key: "valid key" "key \<noteq> []"
  shows "mdb_get st dbi (Some key) (Some d0) =
    (case find (\<lambda>x. rank (fst x) = rank key) (items (see st (ro_flags (new_cursor st dbi))) d root) of
       None \<Rightarrow> Some (MDB_NOTFOUND, st, Some d0)
     | Some x \<Rightarrow> Some (0, st, Some (snd x)))"
  by (rule get_eq [OF assms])

section \<open>Instances\<close>

lemma cursor_first_correct_witness:
  "\<exists>mc' x xs. mdb_cursor_first demo_st (demo_mc, None) (Some []) (Some []) =
      Some (0, demo_st, (mc', None), Some (fst x), Some (snd x)) \<and>
    [([0x61], [0x78]), ([0x62], [0x79])] = x # xs \<and>
    cursor_at demo_st 40 Cmp_memn short (\<lambda>a. a) 1 2 mc' [] (x # xs)"
  using cursor_first_correct [OF demo_ready _ demo_usable, of "[]" "[]"] demo_root_ok demo_items by simp

lemma cursor_next_correct_witness:
  "\<exists>mc mc'. mdb_cursor_next demo_st (mc, None) (Some []) (Some []) MDB_NEXT =
      Some (0, demo_st, (mc', None), Some [0x62], Some [0x79]) \<and>
    cursor_at demo_st 40 Cmp_memn short (\<lambda>a. a) 1 2 mc' [([0x61], [0x78])] [([0x62], [0x79])]"
proof -
  have root: "root_ok demo_st (ro_flags demo_mc) 40 Cmp_memn short (\<lambda>a. a) 1 2" using demo_root_ok by simp
  obtain mc where F: "cursor_at demo_st 40 Cmp_memn short (\<lambda>a. a) 1 2 mc [] [([0x61], [0x78]), ([0x62], [0x79])]"
    "ro_flags mc = ro_flags demo_mc" "mc_own mc = mc_own demo_mc" "mc_dbi mc = mc_dbi demo_mc"
    "\<not> has (mc_flags mc) C_EOF" "\<not> has (mc_flags mc) C_DEL"
    using cursor_first_eq [OF demo_ready root demo_usable, of "[]" "Some []"] demo_items by auto
  have db: "db_ready demo_st mc Cmp_memn 2" using demo_ready by (subst db_ready_cong [OF F(3,4)])
  show ?thesis
    using cursor_next_correct [OF db _ F(1,6,5), of "[]" "[]"] root F(2) by auto
qed

lemma full_scan_correct_witness:
  "read_all 3 demo_st (demo_mc, None) = Some ([([0x61], [0x78]), ([0x62], [0x79])], MDB_NOTFOUND) \<and>
    ascending (\<lambda>a. a) [([0x61 :: u8], [0x78]), ([0x62], [0x79])]"
proof -
  have root: "root_ok demo_st (ro_flags demo_mc) 40 Cmp_memn short (\<lambda>a. a) 1 2" using demo_root_ok by simp
  have n: "length [([0x61 :: u8], [0x78 :: u8]), ([0x62], [0x79])] + 1 = 3" by simp
  show ?thesis
    using full_scan_correct [OF demo_ready root demo_fresh demo_mc(2,3)] unfolding demo_mc(1) demo_items n .
qed

lemma cursor_set_range_correct_witness:
  "\<exists>mc'. mdb_cursor_set demo_st (demo_mc, None) (Some [0x61, 0x30]) (Some []) MDB_SET_RANGE False =
    Some (0, demo_st, (mc', None), Some [0x62], Some [0x79])"
  using cursor_set_range_correct [OF demo_ready _ demo_usable, of "[0x61, 0x30]" "[]"] demo_root_ok demo_items
  by (auto simp: from_key_def)

lemma cursor_set_key_correct_witness:
  "\<exists>mc'. mdb_cursor_set demo_st (demo_mc, None) (Some [0x62]) (Some []) MDB_SET_KEY True =
    Some (0, demo_st, (mc', None), Some [0x62], Some [0x79])"
  using cursor_set_key_correct [OF demo_ready _ demo_usable, of "[0x62]" "[]"] demo_root_ok demo_items by auto

lemma mdb_get_correct_witness:
  "mdb_get demo_st 1 (Some [0x62]) (Some []) = Some (0, demo_st, Some [0x79])"
proof -
  have m: "new_cursor demo_st 1 = demo_mc"
    by (simp add: new_cursor_def demo_mc_def demo_st_def cursor_flag_defs env_flag_defs)
  have e: "TXN_DBI_EXIST (st_txn demo_st) 1 DB_USRVALID = Some True"
    by (simp add: TXN_DBI_EXIST_def demo_st_def demo_txn_def aget_def has_def DB_VALID_def DB_USRVALID_def)
  show ?thesis
    using mdb_get_correct [OF e, unfolded m, OF demo_ready, of 40 short "\<lambda>a. a" 1 "[0x62]" "[]"] demo_root_ok demo_items
    by simp
qed

end
