(* ===== verification/Dump_Load.thy ===== *)
theory Dump_Load
  imports Dump Read_Path
begin

text \<open>
  What \<open>mdb_dump\<close> writes for a database, \<open>mdb_load\<close> reads back: the header gives the same flags,
  sizes and name, the records are the items of the tree in order.
\<close>

section \<open>Numbers\<close>

lemma digit_hexc: "n < 16 \<Longrightarrow> digit (hexc ! n) = Some n \<and> hexc ! n \<noteq> 0 \<and> hexc ! n \<noteq> NEWLINE \<and> \<not> isspace (hexc ! n) \<and>
    hexc ! n \<noteq> 0x2d \<and> hexc ! n \<noteq> 0x2b \<and> hexc ! n \<noteq> 0x78 \<and> hexc ! n \<noteq> 0x58"
proof -
  have "\<forall>n \<in> set [0..<16]. digit (hexc ! n) = Some n \<and> hexc ! n \<noteq> 0 \<and> hexc ! n \<noteq> NEWLINE \<and> \<not> isspace (hexc ! n) \<and>
      hexc ! n \<noteq> 0x2d \<and> hexc ! n \<noteq> 0x2b \<and> hexc ! n \<noteq> 0x78 \<and> hexc ! n \<noteq> 0x58"
    by (simp add: upt_rec hexc_def lit_def digit_def isspace_def)
  then show "n < 16 \<Longrightarrow> ?thesis" by simp
qed

lemma num_digits:
  "2 \<le> base \<Longrightarrow> base \<le> 16 \<Longrightarrow> num base n \<noteq> [] \<and> number base (num base n) = n \<and>
    (\<forall>c \<in> set (num base n). \<exists>d < base. c = hexc ! d)"
proof (induction base n rule: num.induct)
  case (1 base n)
  show ?case
  proof (cases "n < base")
    case True
    then have "num base n = [hexc ! n]" by (subst num.simps) simp
    then show ?thesis using True 1(3) digit_hexc [of n] by (auto simp: number_def)
  next
    case False
    have eq: "num base n = num base (n div base) @ [hexc ! (n mod base)]" using False 1(2) by (subst num.simps) simp
    have m: "n mod base < base" using 1(2) by simp
    have "number base (num base n) = number base (num base (n div base)) * base + n mod base"
      using digit_hexc [of "n mod base"] m 1(3) by (simp add: eq number_def)
    moreover have "\<exists>d<base. hexc ! (n mod base) = hexc ! d" using m by blast
    ultimately show ?thesis using 1 False by (auto simp: eq)
  qed
qed

lemma scan_num_num:
  assumes b: "base = 10 \<or> base = 16"
  shows "scan_num base (num base n) = (False, num base n)"
    and "base = 16 \<Longrightarrow> scan_num 16 (lit ''0x'' @ num 16 n) = (False, num 16 n)"
    and "NEWLINE \<notin> set (num base n) \<and> 0 \<notin> set (num base n)"
proof -
  note d = num_digits [of base n]
  have c: "\<exists>x < 16. c = hexc ! x \<and> is_digit base c" if "c \<in> set (num base n)" for c
  proof -
    have "\<exists>x < base. c = hexc ! x" using d b that by auto
    then obtain x where "x < base" "c = hexc ! x" by blast
    then show ?thesis using digit_hexc [of x] b by (intro exI [of _ x]) (auto simp: is_digit_def)
  qed
  obtain h r where hr: "num base n = h # r" using d b by (cases "num base n") auto
  then obtain x where x: "x < 16" "h = hexc ! x" using c by force
  note hx = digit_hexc [OF x(1), folded x(2)]
  have all: "takeWhile (is_digit base) (num base n) = num base n" by (subst takeWhile_eq_all_conv) (use c in blast)
  have no_x: "\<not> (take 2 (h # r) = lit ''0x'' \<or> take 2 (h # r) = lit ''0X'')"
  proof (cases r)
    case (Cons y ys)
    then obtain z where "z < 16" "y = hexc ! z" using c hr by force
    then show ?thesis using digit_hexc [of z] Cons by (auto simp: lit_def)
  qed (simp add: lit_def)
  show "scan_num base (num base n) = (False, num base n)"
    unfolding scan_num_def using hr hx all no_x by (auto simp: Let_def lit_def)
  show "scan_num 16 (lit ''0x'' @ num 16 n) = (False, num 16 n)" if "base = 16"
  proof -
    have "is_digit 16 h" using c hr that by auto
    then show ?thesis unfolding scan_num_def using hr all that by (simp add: Let_def lit_def isspace_def)
  qed
  show "NEWLINE \<notin> set (num base n) \<and> 0 \<notin> set (num base n)" using c digit_hexc by force
qed

section \<open>Header lines\<close>

lemma hdr_loop_line:
  assumes "ld_stdin ld = s @ NEWLINE # rest" "NEWLINE \<notin> set s" "length s + 2 \<le> length buf"
  shows "hdr_loop buf ld = do {
      (fin, b, ld) \<leftarrow> hdr_line (s @ NEWLINE # 0 # drop (length s + 2) buf) (ld\<lparr>ld_lineno := ld_lineno ld + 1, ld_stdin := rest\<rparr>);
      if fin then Some (b, ld) else hdr_loop b ld }"
proof -
  have f: "fgets_chars (length buf - 1) (ld_stdin ld) = (s @ [NEWLINE], rest)"
    unfolding assms(1) using fgets_line [OF assms(2), of "length buf - 1" rest] assms(3) by simp
  have "fgets buf 0 (length buf) (ld_stdin ld) = Some (Some (s @ NEWLINE # 0 # drop (length s + 2) buf, rest))"
    using f assms(1,3) by (simp add: fgets_def put_bytes_def splice_def)
  then show ?thesis using assms(3) by (subst hdr_loop.simps) simp
qed

lemma cut_newline_line: "NEWLINE \<notin> set s \<Longrightarrow> cut_newline (s @ NEWLINE # t) = s @ 0 # t"
  by (simp add: cut_newline_def takeWhile_append list_update_append)

lemma c_string_line: "0 \<notin> set s \<Longrightarrow> length p = off \<Longrightarrow> c_string (p @ s @ 0 # t) off = s"
  by (simp add: c_string_def takeWhile_append)

lemma hdr_number_line:
  assumes "base = 10 \<or> base = 16" "n < 2 ^ 64" "length p = off"
  shows "hdr_number base off (p @ num base n @ 0 # t) = Some (of_nat n)"
  using assms num_digits [of base n]
  by (auto simp: hdr_number_def c_string_line scan_num_num strtoul_def Let_def)

lemma line_version: "hdr_line (lit ''VERSION=3'' @ NEWLINE # 0 # t) ld = Some (False, lit ''VERSION=3'' @ NEWLINE # 0 # t, ld\<lparr>ld_version := 3\<rparr>)"
  by (simp add: hdr_line_def starts_def lit_def atoi_def c_string_def scan_num_def isspace_def is_digit_def digit_def number_def Let_def)

lemma line_format:
  "hdr_line (lit ''format='' @ (if p then lit ''print'' else lit ''bytevalue'') @ NEWLINE # 0 # t) ld =
    Some (False, lit ''format='' @ (if p then lit ''print'' else lit ''bytevalue'') @ NEWLINE # 0 # t,
      if p then ld\<lparr>ld_mode := ld_mode ld OR PRINT\<rparr> else ld)"
  by (simp add: hdr_line_def starts_def lit_def)

lemma line_name:
  "NEWLINE \<notin> set n \<Longrightarrow> 0 \<notin> set n \<Longrightarrow>
    hdr_line (lit ''database='' @ n @ NEWLINE # 0 # t) ld =
      Some (False, lit ''database='' @ n @ 0 # 0 # t, ld\<lparr>ld_subname := Some n\<rparr>)"
proof -
  assume n: "NEWLINE \<notin> set n" "0 \<notin> set n"
  have "cut_newline (lit ''database='' @ n @ NEWLINE # 0 # t) = lit ''database='' @ n @ 0 # 0 # t"
    using cut_newline_line [of "lit ''database='' @ n" "0 # t"] n by (simp add: lit_def)
  moreover have "c_string (lit ''database='' @ n @ 0 # 0 # t) 9 = n"
    by (rule c_string_line) (use n in \<open>simp_all add: lit_def\<close>)
  ultimately show ?thesis by (simp add: hdr_line_def starts_def lit_def)
qed

lemma line_type: "hdr_line (lit ''type=btree'' @ NEWLINE # 0 # t) ld = Some (False, lit ''type=btree'' @ NEWLINE # 0 # t, ld)"
  by (simp add: hdr_line_def starts_def lit_def)

lemma num_line:
  assumes "base = 10 \<or> base = 16" "n < 2 ^ 64" "length p = off" "NEWLINE \<notin> set p"
  shows "cut_newline (p @ num base n @ NEWLINE # 0 # t) = p @ num base n @ 0 # 0 # t"
    "hdr_number base off (p @ num base n @ 0 # 0 # t) = Some (of_nat n)"
  using cut_newline_line [of "p @ num base n" "0 # t"] hdr_number_line [OF assms(1-3)] scan_num_num(3) [OF assms(1), of n] assms(4)
  by simp_all

lemma unat_u64: "unat (n :: u64) < 18446744073709551616"
  by (rule order_less_le_trans [OF unsigned_less]) simp

lemma line_mapsize:
  "hdr_line (lit ''mapsize='' @ num 10 (unat (n :: u64)) @ NEWLINE # 0 # t) ld =
    Some (False, lit ''mapsize='' @ num 10 (unat n) @ 0 # 0 # t, ld\<lparr>ld_mapsize := n\<rparr>)"
  using num_line [of 10 "unat n" "lit ''mapsize=''" 8 t] unat_u64 [of n]
  by (simp add: hdr_line_def starts_def lit_def)

lemma line_maxreaders:
  "hdr_line (lit ''maxreaders='' @ num 10 (unat (n :: u32)) @ NEWLINE # 0 # t) ld =
    Some (False, lit ''maxreaders='' @ num 10 (unat n) @ 0 # 0 # t, ld\<lparr>ld_maxreaders := n\<rparr>)"
proof -
  have l: "unat n < 2 ^ 64" using unsigned_less [of n, where ?'a = nat] by simp
  have u: "(ucast (of_nat (unat n) :: u64) :: u32) = n"
  proof (rule bit_word_eqI)
    fix i assume "i < LENGTH(32)"
    then show "bit (ucast (of_nat (unat n) :: u64) :: u32) i = bit n i" by (simp add: bit_simps)
  qed
  show ?thesis
    using num_line [of 10 "unat n" "lit ''maxreaders=''" 11 t] l u by (simp add: hdr_line_def starts_def lit_def)
qed

lemma line_mapaddr:
  "hdr_line (lit ''mapaddr=0x'' @ num 16 (unat (n :: u64)) @ NEWLINE # 0 # t) ld =
    Some (False, lit ''mapaddr=0x'' @ num 16 (unat n) @ 0 # 0 # t, ld\<lparr>ld_mapaddr := n\<rparr>)"
proof -
  let ?b = "lit ''mapaddr=0x'' @ num 16 (unat n) @ 0 # 0 # t"
  have cut: "cut_newline (lit ''mapaddr=0x'' @ num 16 (unat n) @ NEWLINE # 0 # t) = ?b"
    using cut_newline_line [of "lit ''mapaddr=0x'' @ num 16 (unat n)" "0 # t"] scan_num_num(3) [of 16 "unat n"]
    by (simp add: lit_def)
  have cs: "c_string (lit ''mapaddr='' @ (lit ''0x'' @ num 16 (unat n)) @ 0 # 0 # t) 8 = lit ''0x'' @ num 16 (unat n)"
    by (rule c_string_line) (use scan_num_num(3) [of 16 "unat n"] in \<open>simp_all add: lit_def\<close>)
  have b: "?b = lit ''mapaddr='' @ (lit ''0x'' @ num 16 (unat n)) @ 0 # 0 # t" by (simp add: lit_def)
  have "hdr_number 16 8 ?b = Some n"
    unfolding hdr_number_def b cs using scan_num_num(2) [of 16 "unat n"] num_digits [of 16 "unat n"] unat_u64 [of n]
    by (simp add: strtoul_def Let_def)
  then show ?thesis using cut by (simp add: hdr_line_def starts_def lit_def)
qed

lemma line_other:
  "hdr_line (lit ''duplicates=1'' @ NEWLINE # 0 # t) ld = Some (False, lit ''duplicates'' @ 0 # lit ''1'' @ NEWLINE # 0 # t, ld)"
  "hdr_line (lit ''db_pagesize='' @ u) ld = Some (False, lit ''db_pagesize'' @ 0 # u, ld)"
  "hdr_line (lit ''HEADER=END'' @ u) ld = Some (True, lit ''HEADER=END'' @ u, ld)"
  by (simp_all add: hdr_line_def starts_def lit_def dbflags_def)

lemma line_flag:
  "(b, s) \<in> set dbflags \<Longrightarrow> hdr_line (s @ lit ''=1'' @ NEWLINE # 0 # t) ld =
    Some (False, s @ lit ''=1'' @ NEWLINE # 0 # t, ld\<lparr>ld_flags := ld_flags ld OR ucast b\<rparr>)"
proof -
  assume "(b, s) \<in> set dbflags"
  then consider "b = MDB_REVERSEKEY" "s = lit ''reversekey''" | "b = MDB_DUPSORT" "s = lit ''dupsort''"
    | "b = MDB_INTEGERKEY" "s = lit ''integerkey''" | "b = MDB_DUPFIXED" "s = lit ''dupfixed''"
    | "b = MDB_INTEGERDUP" "s = lit ''integerdup''" | "b = MDB_REVERSEDUP" "s = lit ''reversedup''"
    by (simp add: dbflags_def) blast
  then show ?thesis
    by cases (simp_all add: hdr_line_def starts_def lit_def dbflags_def)
qed

section \<open>The whole header\<close>

text \<open>A header line that makes \<open>readhdr\<close> change the state by \<open>f\<close> and go on.\<close>

definition line_does :: "bytes \<Rightarrow> (loader \<Rightarrow> loader) \<Rightarrow> bool" where
  "line_does s f \<longleftrightarrow> NEWLINE \<notin> set s \<and>
     (\<forall>ld a b. f (ld\<lparr>ld_lineno := a, ld_stdin := b\<rparr>) = (f ld)\<lparr>ld_lineno := a, ld_stdin := b\<rparr>) \<and>
     (\<forall>t ld. \<exists>u. hdr_line (s @ NEWLINE # 0 # t) ld = Some (False, u, f ld) \<and> length u = length s + 2 + length t)"

abbreviation do_lines :: "(bytes \<times> (loader \<Rightarrow> loader)) list \<Rightarrow> loader \<Rightarrow> loader" where
  "do_lines ls \<equiv> fold snd ls"

abbreviation lines_text :: "(bytes \<times> (loader \<Rightarrow> loader)) list \<Rightarrow> bytes" where
  "lines_text ls \<equiv> concat (map (\<lambda>x. fst x @ [NEWLINE]) ls)"

lemma do_lines_commute:
  "(\<forall>x \<in> set ls. line_does (fst x) (snd x)) \<Longrightarrow>
    do_lines ls (g\<lparr>ld_lineno := a, ld_stdin := b\<rparr>) = (do_lines ls g)\<lparr>ld_lineno := a, ld_stdin := b\<rparr>"
proof (induction ls arbitrary: g)
  case (Cons x ls)
  then have "snd x (g\<lparr>ld_lineno := a, ld_stdin := b\<rparr>) = (snd x g)\<lparr>ld_lineno := a, ld_stdin := b\<rparr>"
    by (simp add: line_does_def)
  then show ?case using Cons by simp
qed simp

lemma lines_do:
  "(\<forall>x \<in> set ls. line_does (fst x) (snd x) \<and> length (fst x) + 2 \<le> length buf) \<Longrightarrow>
    ld_stdin ld = lines_text ls @ rest \<Longrightarrow>
    \<exists>buf' a. length buf' = length buf \<and> hdr_loop buf ld = hdr_loop buf' ((do_lines ls ld)\<lparr>ld_lineno := a, ld_stdin := rest\<rparr>)"
proof (induction ls arbitrary: buf ld)
  case Nil
  then show ?case by (intro exI [of _ buf] exI [of _ "ld_lineno ld"]) (cases ld, simp)
next
  case (Cons x ls)
  let ?s = "fst x" and ?f = "snd x"
  have l: "line_does ?s ?f" "length ?s + 2 \<le> length buf" using Cons.prems(1) by simp_all
  let ?r = "lines_text ls @ rest"
  let ?ld = "ld\<lparr>ld_lineno := ld_lineno ld + 1, ld_stdin := ?r\<rparr>"
  have "\<exists>u. hdr_line (?s @ NEWLINE # 0 # drop (length ?s + 2) buf) ?ld = Some (False, u, ?f ?ld) \<and>
      length u = length ?s + 2 + length (drop (length ?s + 2) buf)"
    using l(1) unfolding line_does_def by blast
  then obtain u where u: "hdr_line (?s @ NEWLINE # 0 # drop (length ?s + 2) buf) ?ld = Some (False, u, ?f ?ld)"
    "length u = length buf" using l(2) by auto
  have in1: "ld_stdin ld = ?s @ NEWLINE # ?r" using Cons.prems(2) by simp
  have 1: "hdr_loop buf ld = hdr_loop u (?f ?ld)"
    using hdr_loop_line [OF in1 _ l(2)] l(1) u by (simp add: line_does_def)
  have 2: "?f ?ld = (?f ld)\<lparr>ld_lineno := ld_lineno ld + 1, ld_stdin := ?r\<rparr>" using l(1) by (simp add: line_does_def)
  have "ld_stdin (?f ?ld) = ?r" unfolding 2 by simp
  then obtain buf' a where 3: "length buf' = length u"
    "hdr_loop u (?f ?ld) = hdr_loop buf' ((do_lines ls (?f ?ld))\<lparr>ld_lineno := a, ld_stdin := rest\<rparr>)"
    using Cons.IH [of u "?f ?ld"] Cons.prems(1) u(2) by auto
  have 4: "do_lines ls (?f ?ld) = (do_lines ls (?f ld))\<lparr>ld_lineno := ld_lineno ld + 1, ld_stdin := ?r\<rparr>"
    unfolding 2 by (rule do_lines_commute) (use Cons.prems(1) in auto)
  have "hdr_loop buf ld = hdr_loop buf' ((do_lines (x # ls) ld)\<lparr>ld_lineno := a, ld_stdin := rest\<rparr>)"
    unfolding 1 3(2) 4 by simp
  then show ?case using 3(1) u(2) by (intro exI [of _ buf'] exI [of _ a]) simp
qed

lemma num_length: "2 \<le> base \<Longrightarrow> n < base ^ Suc k \<Longrightarrow> length (num base n) \<le> Suc k"
proof (induction k arbitrary: n)
  case 0
  then show ?case by (subst num.simps) simp
next
  case (Suc k)
  have "n div base < base ^ Suc k" using Suc.prems by (simp add: div_less_iff_less_mult mult.commute)
  then have "length (num base (n div base)) \<le> Suc k" using Suc.IH Suc.prems(1) by blast
  then show ?case by (subst num.simps) simp
qed

definition set_flag :: "u16 \<Rightarrow> loader \<Rightarrow> loader" where
  "set_flag b ld = ld\<lparr>ld_flags := ld_flags ld OR ucast b\<rparr>"

definition flag_lines :: "u32 \<Rightarrow> (bytes \<times> (loader \<Rightarrow> loader)) list" where
  "flag_lines flags = map (\<lambda>(b, s). (s @ lit ''=1'', set_flag b)) (filter (\<lambda>(b, s). has flags (ucast b)) dbflags)"

definition header_lines ::
    "u32 \<Rightarrow> bytes option \<Rightarrow> u32 \<Rightarrow> stat \<Rightarrow> envinfo \<Rightarrow> (bytes \<times> (loader \<Rightarrow> loader)) list" where
  "header_lines mode name flags ms info =
     [(lit ''VERSION=3'', \<lambda>ld. ld\<lparr>ld_version := 3\<rparr>),
      (lit ''format='' @ (if mode AND PRINT \<noteq> 0 then lit ''print'' else lit ''bytevalue''),
        \<lambda>ld. if mode AND PRINT \<noteq> 0 then ld\<lparr>ld_mode := ld_mode ld OR PRINT\<rparr> else ld)] @
     (case name of None \<Rightarrow> [] | Some n \<Rightarrow> [(lit ''database='' @ n, \<lambda>ld. ld\<lparr>ld_subname := Some n\<rparr>)]) @
     [(lit ''type=btree'', \<lambda>ld. ld),
      (lit ''mapsize='' @ num 10 (unat (inf_mapsize info)), \<lambda>ld. ld\<lparr>ld_mapsize := inf_mapsize info\<rparr>)] @
     (if inf_mapaddr info \<noteq> 0
      then [(lit ''mapaddr=0x'' @ num 16 (unat (inf_mapaddr info)), \<lambda>ld. ld\<lparr>ld_mapaddr := inf_mapaddr info\<rparr>)] else []) @
     [(lit ''maxreaders='' @ num 10 (unat (inf_maxreaders info)), \<lambda>ld. ld\<lparr>ld_maxreaders := inf_maxreaders info\<rparr>)] @
     (if has flags (ucast MDB_DUPSORT) then [(lit ''duplicates=1'', \<lambda>ld. ld)] else []) @
     flag_lines flags @
     [(lit ''db_pagesize='' @ num 10 (unat (ms_psize ms)), \<lambda>ld. ld)]"

lemma header_as_lines:
  "header mode name flags ms info =
    lines_text (header_lines mode name flags ms info) @ lit ''HEADER=END'' @ [NEWLINE]"
proof -
  have "lines_text (map (\<lambda>(b, s). (s @ lit ''=1'', set_flag b)) (filter (\<lambda>(b, s). has flags (ucast b)) bs)) =
      concat (map (\<lambda>(b, s). if has flags (ucast b) then s @ lit ''=1'' @ [NEWLINE] else []) bs)" for bs
    by (induction bs) auto
  then have "lines_text (flag_lines flags) =
      concat (map (\<lambda>(b, s). if has flags (ucast b) then s @ lit ''=1'' @ [NEWLINE] else []) dbflags)"
    by (simp only: flag_lines_def)
  then show ?thesis by (simp add: header_def header_lines_def split: option.split)
qed

lemma line_doesI:
  assumes "NEWLINE \<notin> set s" "\<And>ld a b. f (ld\<lparr>ld_lineno := a, ld_stdin := b\<rparr>) = (f ld)\<lparr>ld_lineno := a, ld_stdin := b\<rparr>"
    and "\<And>t ld. hdr_line (s @ NEWLINE # 0 # t) ld = Some (False, u t, f ld)" "\<And>t. length (u t) = length s + 2 + length t"
  shows "line_does s f"
  using assms unfolding line_does_def by auto

lemma does_simple:
  "line_does (lit ''VERSION=3'') (\<lambda>ld. ld\<lparr>ld_version := 3\<rparr>)"
  "line_does (lit ''format='' @ (if p then lit ''print'' else lit ''bytevalue''))
    (\<lambda>ld. if p then ld\<lparr>ld_mode := ld_mode ld OR PRINT\<rparr> else ld)"
  "line_does (lit ''type=btree'') (\<lambda>ld. ld)" "line_does (lit ''duplicates=1'') (\<lambda>ld. ld)"
proof -
  show "line_does (lit ''VERSION=3'') (\<lambda>ld. ld\<lparr>ld_version := 3\<rparr>)"
    by (rule line_doesI [OF _ _ line_version]) (simp_all add: lit_def)
  have "hdr_line ((lit ''format='' @ (if p then lit ''print'' else lit ''bytevalue'')) @ NEWLINE # 0 # t) ld =
      Some (False, (lit ''format='' @ (if p then lit ''print'' else lit ''bytevalue'')) @ NEWLINE # 0 # t,
        if p then ld\<lparr>ld_mode := ld_mode ld OR PRINT\<rparr> else ld)" for t ld
    using line_format [of p t ld] by (simp only: append_assoc)
  then show "line_does (lit ''format='' @ (if p then lit ''print'' else lit ''bytevalue''))
      (\<lambda>ld. if p then ld\<lparr>ld_mode := ld_mode ld OR PRINT\<rparr> else ld)"
    by (rule line_doesI [rotated 2]) (simp_all add: lit_def)
  show "line_does (lit ''type=btree'') (\<lambda>ld. ld)"
    by (rule line_doesI [OF _ _ line_type]) (simp_all add: lit_def)
  show "line_does (lit ''duplicates=1'') (\<lambda>ld. ld)"
    by (rule line_doesI [OF _ _ line_other(1)]) (simp_all add: lit_def)
qed

lemma does_value:
  "NEWLINE \<notin> set n \<Longrightarrow> 0 \<notin> set n \<Longrightarrow> line_does (lit ''database='' @ n) (\<lambda>ld. ld\<lparr>ld_subname := Some n\<rparr>)"
  "line_does (lit ''mapsize='' @ num 10 (unat (i :: u64))) (\<lambda>ld. ld\<lparr>ld_mapsize := i\<rparr>)"
  "line_does (lit ''mapaddr=0x'' @ num 16 (unat (j :: u64))) (\<lambda>ld. ld\<lparr>ld_mapaddr := j\<rparr>)"
  "line_does (lit ''maxreaders='' @ num 10 (unat (k :: u32))) (\<lambda>ld. ld\<lparr>ld_maxreaders := k\<rparr>)"
  "line_does (lit ''db_pagesize='' @ num 10 (unat (k :: u32))) (\<lambda>ld. ld)"
proof -
  have d: "NEWLINE \<notin> set (num 10 (unat i))" "NEWLINE \<notin> set (num 16 (unat j))" "NEWLINE \<notin> set (num 10 (unat k))"
    using scan_num_num(3) [of 10 "unat i"] scan_num_num(3) [of 16 "unat j"] scan_num_num(3) [of 10 "unat k"] by simp_all
  show "line_does (lit ''database='' @ n) (\<lambda>ld. ld\<lparr>ld_subname := Some n\<rparr>)" if "NEWLINE \<notin> set n" "0 \<notin> set n"
    by (rule line_doesI [of _ _ "\<lambda>t. lit ''database='' @ n @ 0 # 0 # t"])
      (use that line_name [of n] in \<open>simp_all add: lit_def\<close>)
  show "line_does (lit ''mapsize='' @ num 10 (unat i)) (\<lambda>ld. ld\<lparr>ld_mapsize := i\<rparr>)"
    by (rule line_doesI [of _ _ "\<lambda>t. lit ''mapsize='' @ num 10 (unat i) @ 0 # 0 # t"])
      (use d line_mapsize [of i] in \<open>simp_all add: lit_def\<close>)
  show "line_does (lit ''mapaddr=0x'' @ num 16 (unat j)) (\<lambda>ld. ld\<lparr>ld_mapaddr := j\<rparr>)"
    by (rule line_doesI [of _ _ "\<lambda>t. lit ''mapaddr=0x'' @ num 16 (unat j) @ 0 # 0 # t"])
      (use d line_mapaddr [of j] in \<open>simp_all add: lit_def\<close>)
  show "line_does (lit ''maxreaders='' @ num 10 (unat k)) (\<lambda>ld. ld\<lparr>ld_maxreaders := k\<rparr>)"
    by (rule line_doesI [of _ _ "\<lambda>t. lit ''maxreaders='' @ num 10 (unat k) @ 0 # 0 # t"])
      (use d line_maxreaders [of k] in \<open>simp_all add: lit_def\<close>)
  show "line_does (lit ''db_pagesize='' @ num 10 (unat k)) (\<lambda>ld. ld)"
    by (rule line_doesI [of _ _ "\<lambda>t. lit ''db_pagesize'' @ 0 # num 10 (unat k) @ NEWLINE # 0 # t"])
      (use d line_other(2) [of "num 10 (unat k) @ NEWLINE # 0 # t" for t] in \<open>simp_all add: lit_def\<close>)
qed

lemma does_flags: "\<forall>x \<in> set (flag_lines flags). line_does (fst x) (snd x) \<and> length (fst x) \<le> 13"
proof -
  have "line_does (s @ lit ''=1'') (set_flag b) \<and> length (s @ lit ''=1'') \<le> 13" if m: "(b, s) \<in> set dbflags" for b s
  proof
    have n: "NEWLINE \<notin> set s \<and> length s \<le> 11" using m by (auto simp: dbflags_def lit_def)
    show "line_does (s @ lit ''=1'') (set_flag b)"
      by (rule line_doesI [of _ _ "\<lambda>t. s @ lit ''=1'' @ NEWLINE # 0 # t"])
        (use n line_flag [OF m] in \<open>simp_all add: lit_def set_flag_def\<close>)
    show "length (s @ lit ''=1'') \<le> 13" using n by (simp add: lit_def)
  qed
  then show ?thesis by (auto simp: flag_lines_def)
qed

lemma header_lines_ok:
  assumes "64 \<le> L" "\<forall>n. name = Some n \<longrightarrow> NEWLINE \<notin> set n \<and> 0 \<notin> set n \<and> length n + 11 \<le> L"
  shows "\<forall>x \<in> set (header_lines mode name flags ms info). line_does (fst x) (snd x) \<and> length (fst x) + 2 \<le> L"
proof -
  define P where "P x \<longleftrightarrow> line_does (fst x) (snd x) \<and> length (fst x) + 2 \<le> L" for x
  have "length (num 10 (unat (i :: u64))) \<le> Suc 19" "length (num 16 (unat (i :: u64))) \<le> Suc 15" for i
    by (rule num_length, simp, use unat_u64 [of i] in simp)+
  moreover have "unat (i :: u32) < 10 ^ Suc 9" for i
    by (rule order_less_le_trans [OF unsigned_less]) simp
  then have "length (num 10 (unat (i :: u32))) \<le> Suc 9" for i by (intro num_length) simp_all
  ultimately have n: "length (num 10 (unat (i :: u64))) \<le> 20" "length (num 16 (unat (i :: u64))) \<le> 16"
    "length (num 10 (unat (j :: u32))) \<le> 10" for i j by fastforce+
  have lens: "length (lit s) = length s" for s by (simp add: lit_def)
  have "P (lit ''VERSION=3'', \<lambda>ld. ld\<lparr>ld_version := 3\<rparr>)"
    "P (lit ''format='' @ (if p then lit ''print'' else lit ''bytevalue''), \<lambda>ld. if p then ld\<lparr>ld_mode := ld_mode ld OR PRINT\<rparr> else ld)"
    "P (lit ''type=btree'', \<lambda>ld. ld)" "P (lit ''duplicates=1'', \<lambda>ld. ld)" for p
    using does_simple(1,3,4) does_simple(2) [of p] assms(1) by (simp_all add: P_def lens)
  moreover have "P (lit ''database='' @ m, \<lambda>ld. ld\<lparr>ld_subname := Some m\<rparr>)" if "name = Some m" for m
    using does_value(1) [of m] that assms(2) by (simp add: P_def lens)
  moreover have "P (lit ''mapsize='' @ num 10 (unat i), \<lambda>ld. ld\<lparr>ld_mapsize := i\<rparr>)"
    "P (lit ''mapaddr=0x'' @ num 16 (unat i), \<lambda>ld. ld\<lparr>ld_mapaddr := i\<rparr>)"
    "P (lit ''maxreaders='' @ num 10 (unat j), \<lambda>ld. ld\<lparr>ld_maxreaders := j\<rparr>)"
    "P (lit ''db_pagesize='' @ num 10 (unat j), \<lambda>ld. ld)" for i j
    using does_value(2) [of i] does_value(3) [of i] does_value(4,5) [of j] n(1,2) [of i] n(3) [of j] assms(1) by (simp_all add: P_def lens)
  moreover have "\<forall>x \<in> set (flag_lines flags). P x"
    using does_flags [of flags] assms(1) by (auto simp: P_def)
  ultimately have "\<forall>x \<in> set (header_lines mode name flags ms info). P x"
    unfolding header_lines_def by (auto simp del: append.simps split: option.split)
  then show ?thesis by (simp only: P_def)
qed

text \<open>The flags that the header names are the six persistent ones.\<close>

lemma do_flag_lines: "do_lines (flag_lines flags) ld = ld\<lparr>ld_flags := ld_flags ld OR (flags AND 0x7e)\<rparr>"
proof -
  have one: "(if has flags (2 ^ n) then x OR 2 ^ n else x) = x OR (flags AND 2 ^ n)" for x :: u32 and n
  proof (cases "bit flags n")
    case True
    then have "flags AND 2 ^ n = 2 ^ n" by (rule and_exp_self)
    then show ?thesis using bit_imp_le_length [OF True] by (auto simp: has_def)
  next
    case False
    then have "flags AND 2 ^ n = 0" by (simp add: and_exp_eq_0_iff_not_bit)
    then show ?thesis by (simp add: has_def)
  qed
  have run: "do_lines (map (\<lambda>(b, s). (s @ lit ''=1'', set_flag b)) (filter (\<lambda>(b, s). has flags (ucast b)) bs)) ld =
      ld\<lparr>ld_flags := fold (\<lambda>(b, s) x. if has flags (ucast b) then x OR ucast b else x) bs (ld_flags ld)\<rparr>" for bs ld
    by (induction bs arbitrary: ld) (auto simp: set_flag_def)
  have "fold (\<lambda>(b, s) x. if has flags (ucast b) then x OR ucast b else x) dbflags x = x OR (flags AND 0x7e)" for x
  proof -
    have "fold (\<lambda>(b, s) x. if has flags (ucast b) then x OR ucast b else x) dbflags x =
        (((((x OR (flags AND 2 ^ 1)) OR (flags AND 2 ^ 2)) OR (flags AND 2 ^ 3)) OR (flags AND 2 ^ 4)) OR (flags AND 2 ^ 5)) OR
          (flags AND 2 ^ 6)"
      unfolding one [symmetric] by (simp add: dbflags_def db_flag_defs)
    also have "\<dots> = x OR (flags AND (2 ^ 1 OR 2 ^ 2 OR 2 ^ 3 OR 2 ^ 4 OR 2 ^ 5 OR 2 ^ 6))"
      by (simp only: bit.conj_disj_distrib or.assoc)
    finally show ?thesis by simp
  qed
  then show ?thesis by (simp add: flag_lines_def run)
qed

lemma do_header_lines:
  "do_lines (header_lines mode name flags ms info) ld =
    ld\<lparr>ld_mode := (if mode AND PRINT \<noteq> 0 then ld_mode ld OR PRINT else ld_mode ld), ld_version := 3,
      ld_flags := ld_flags ld OR (flags AND 0x7e),
      ld_subname := (case name of None \<Rightarrow> ld_subname ld | Some n \<Rightarrow> Some n),
      ld_mapaddr := (if inf_mapaddr info \<noteq> 0 then inf_mapaddr info else ld_mapaddr ld),
      ld_mapsize := inf_mapsize info, ld_maxreaders := inf_maxreaders info\<rparr>"
  by (cases ld) (simp add: header_lines_def do_flag_lines split: option.split)

lemma readhdr_header:
  assumes inp: "ld_stdin ld = header mode name flags ms info @ rest" and buf: "64 \<le> length buf"
    and name: "\<forall>n. name = Some n \<longrightarrow> NEWLINE \<notin> set n \<and> 0 \<notin> set n \<and> length n + 11 \<le> length buf"
  shows "\<exists>buf' a. length buf' = length buf \<and> readhdr buf ld =
    Some (buf', (do_lines (header_lines mode name flags ms info) (ld\<lparr>ld_flags := 0\<rparr>))\<lparr>ld_lineno := a, ld_stdin := rest\<rparr>)"
proof -
  let ?ls = "header_lines mode name flags ms info" and ?fin = "lit ''HEADER=END''"
  have i: "ld_stdin (ld\<lparr>ld_flags := 0\<rparr>) = lines_text ?ls @ ?fin @ NEWLINE # rest"
    using inp by (simp add: header_as_lines)
  obtain b a where b: "length b = length buf" "hdr_loop buf (ld\<lparr>ld_flags := 0\<rparr>) =
      hdr_loop b ((do_lines ?ls (ld\<lparr>ld_flags := 0\<rparr>))\<lparr>ld_lineno := a, ld_stdin := ?fin @ NEWLINE # rest\<rparr>)"
    using lines_do [OF header_lines_ok [OF buf name] i] by blast
  let ?ld = "(do_lines ?ls (ld\<lparr>ld_flags := 0\<rparr>))\<lparr>ld_lineno := a, ld_stdin := ?fin @ NEWLINE # rest\<rparr>"
  have "hdr_loop b ?ld = Some (?fin @ NEWLINE # 0 # drop (length ?fin + 2) b, ?ld\<lparr>ld_lineno := a + 1, ld_stdin := rest\<rparr>)"
    using hdr_loop_line [of ?ld ?fin rest b] buf b(1) line_other(3) by (simp add: lit_def)
  then show ?thesis using b buf
    by (intro exI [of _ "?fin @ NEWLINE # 0 # drop (length ?fin + 2) b"] exI [of _ "a + 1"]) (simp add: readhdr_def lit_def)
qed

section \<open>The records\<close>

text \<open>Reading records until \<open>readline\<close> fails, as the loop of \<open>main\<close> does; \<open>n\<close> bounds their number.\<close>

fun read_records ::
    "nat \<Rightarrow> (nat \<Rightarrow> bytes option) \<Rightarrow> loader \<Rightarrow> bytes \<Rightarrow> bytes \<Rightarrow> ((bytes \<times> bytes) list \<times> loader) option" where
  "read_records 0 realloc ld kbuf dbuf = None"
| "read_records (Suc n) realloc ld kbuf dbuf = do {
     (rc, key, kbuf, ld) \<leftarrow> readline realloc ld kbuf;
     if rc \<noteq> 0 then Some ([], ld)
     else do {
       (rc, data, dbuf, ld) \<leftarrow> readline realloc ld dbuf;
       if rc \<noteq> 0 then None
       else do {
         (xs, ld) \<leftarrow> read_records n realloc ld kbuf dbuf;
         Some ((key, data) # xs, ld) } } }"

definition mem_ok :: "(nat \<Rightarrow> bytes option) \<Rightarrow> bool" where
  "mem_ok realloc \<longleftrightarrow> (\<forall>n. \<exists>new. realloc (2 * n) = Some new \<and> length new = n)"

definition records :: "u32 \<Rightarrow> (bytes \<times> bytes) list \<Rightarrow> bytes" where
  "records mode xs = concat (map (\<lambda>(k, v). dump_record mode k v) xs)"

lemma dump_record_eq: "dump_record mode k v = print_val mode k @ print_val mode v"
  by (simp add: dump_record_def print_val_def)

lemma readline_val:
  assumes "mem_ok realloc" "ld_stdin ld = print_val (ld_mode ld) v @ rest" "ld_mode ld AND NOHDR = 0" "1 < length buf"
  shows "\<exists>buf'. readline realloc ld buf = Some (0, v, buf', ld\<lparr>ld_lineno := ld_lineno ld + 1, ld_stdin := rest\<rparr>) \<and>
    length buf \<le> length buf'"
  using readline_print_val_eq [OF _ assms(2-4)] assms(1) by (simp add: mem_ok_def)

lemma readline_data_end:
  assumes "ld_stdin ld = lit ''DATA=END'' @ NEWLINE # rest" "ld_mode ld AND NOHDR = 0" "16 \<le> length buf"
  shows "\<exists>buf'. readline realloc ld buf = Some (EOF, [], buf', ld\<lparr>ld_lineno := ld_lineno ld + 1, ld_stdin := rest\<rparr>)"
proof -
  have f: "fgets_chars (length buf - 1) (lit ''ATA=END'' @ NEWLINE # rest) = (lit ''ATA=END'' @ [NEWLINE], rest)"
    using fgets_line [of "lit ''ATA=END''" "length buf - 1" rest] assms(3) by (simp add: lit_def)
  have i: "ld_stdin ld = of_char CHR ''D'' # lit ''ATA=END'' @ NEWLINE # rest" using assms(1) by (simp add: lit_def)
  let ?b = "splice buf 0 (lit ''ATA=END'' @ [NEWLINE, 0])"
  have "fgets buf 0 (length buf) (lit ''ATA=END'' @ NEWLINE # rest) = Some (Some (?b, rest))"
    unfolding fgets_def f using assms(3) by (simp add: put_bytes_def lit_def)
  moreover have "take 7 ?b = lit ''ATA=END''" by (simp add: splice_def lit_def)
  ultimately show ?thesis
    unfolding readline_def i using assms(2) by (intro exI [of _ ?b]) simp
qed

lemma read_records_records:
  assumes mem: "mem_ok realloc"
  shows "ld_stdin ld = records (ld_mode ld) xs @ lit ''DATA=END'' @ NEWLINE # rest \<Longrightarrow> ld_mode ld AND NOHDR = 0 \<Longrightarrow>
    16 \<le> length kbuf \<Longrightarrow> 16 \<le> length dbuf \<Longrightarrow>
    \<exists>a. read_records (Suc (length xs)) realloc ld kbuf dbuf = Some (xs, ld\<lparr>ld_lineno := a, ld_stdin := rest\<rparr>)"
proof (induction xs arbitrary: ld kbuf dbuf)
  case Nil
  then show ?case using readline_data_end [of ld rest kbuf realloc] by (auto simp: records_def EOF_def)
next
  case (Cons x xs)
  obtain k v where x: "x = (k, v)" by (cases x)
  let ?tail = "records (ld_mode ld) xs @ lit ''DATA=END'' @ NEWLINE # rest"
  have i: "ld_stdin ld = print_val (ld_mode ld) k @ print_val (ld_mode ld) v @ ?tail"
    using Cons.prems(1) x by (simp add: records_def dump_record_eq)
  have buf: "1 < length kbuf" "1 < length dbuf" using Cons.prems(3,4) by simp_all
  obtain kb where k: "readline realloc ld kbuf =
      Some (0, k, kb, ld\<lparr>ld_lineno := ld_lineno ld + 1, ld_stdin := print_val (ld_mode ld) v @ ?tail\<rparr>)" "length kbuf \<le> length kb"
    using readline_val [OF mem i Cons.prems(2) buf(1)] by blast
  let ?ld = "ld\<lparr>ld_lineno := ld_lineno ld + 1, ld_stdin := print_val (ld_mode ld) v @ ?tail\<rparr>"
  obtain db where d: "readline realloc ?ld dbuf = Some (0, v, db, ?ld\<lparr>ld_lineno := ld_lineno ld + 2, ld_stdin := ?tail\<rparr>)"
    "length dbuf \<le> length db"
    using readline_val [OF mem, of ?ld v ?tail dbuf] Cons.prems(2) buf(2) by (auto simp: add.assoc)
  have "\<exists>a. read_records (Suc (length xs)) realloc (?ld\<lparr>ld_lineno := ld_lineno ld + 2, ld_stdin := ?tail\<rparr>) kb db =
      Some (xs, (?ld\<lparr>ld_lineno := ld_lineno ld + 2, ld_stdin := ?tail\<rparr>)\<lparr>ld_lineno := a, ld_stdin := rest\<rparr>)"
    by (rule Cons.IH) (use Cons.prems k(2) d(2) in simp_all)
  then show ?case using k(1) d(1) x read_records.simps(2) [of "Suc (length xs)" realloc ld kbuf dbuf]
    by (auto simp del: read_records.simps)
qed

section \<open>The loop over the records\<close>

lemma cursor_get_next:
  assumes "\<not> has (mt_flags (st_txn st)) MDB_TXN_BLOCKED"
    and "mdb_cursor_next st (mc, None) (Some k0) (Some d0) MDB_NEXT = Some (rc, st', (mc', None), k, v)"
    and "\<not> has (mc_flags mc') C_DEL"
  shows "mdb_cursor_get st (Some (mc, None)) (Some k0) (Some d0) MDB_NEXT = Some (rc, st', Some (mc', None), k, v)"
  using assms by (simp add: mdb_cursor_get_def drop_del_def)

lemma dump_rest:
  "db_ready st mc c root \<Longrightarrow> root_ok st (ro_flags mc) psize c valid rank d root \<Longrightarrow>
    cursor_at st psize c valid rank d root mc pre (x # post) \<Longrightarrow> \<not> has (mc_flags mc) C_DEL \<Longrightarrow> \<not> has (mc_flags mc) C_EOF \<Longrightarrow>
    dump_loop (\<lambda>_. False) mode n st (mc, None) = Some (records mode post, 0, st)"
proof (induction post arbitrary: mc pre x n)
  case Nil
  have b: "\<not> has (mt_flags (st_txn st)) MDB_TXN_BLOCKED" using Nil.prems(1) by (simp add: db_ready_def)
  obtain mc' where "mdb_cursor_next st (mc, None) (Some []) (Some []) MDB_NEXT = Some (MDB_NOTFOUND, st, (mc', None), Some [], Some [])"
    "\<not> has (mc_flags mc') C_DEL"
    using cursor_next_eq [OF Nil(1-4), of MDB_NEXT "[]" "Some []"] by auto
  then have "mdb_cursor_get st (Some (mc, None)) (Some []) (Some []) MDB_NEXT =
      Some (MDB_NOTFOUND, st, Some (mc', None), Some [], Some [])" using cursor_get_next [OF b] by blast
  then show ?case by (subst dump_loop.simps) (simp add: MDB_NOTFOUND_def records_def)
next
  case (Cons y ys)
  have b: "\<not> has (mt_flags (st_txn st)) MDB_TXN_BLOCKED" using Cons.prems(1) by (simp add: db_ready_def)
  obtain mc' where m: "mdb_cursor_next st (mc, None) (Some []) (Some []) MDB_NEXT = Some (0, st, (mc', None), Some (fst y), Some (snd y))"
    "cursor_at st psize c valid rank d root mc' (pre @ [x]) (y # ys)" "\<not> has (mc_flags mc') C_EOF"
    "ro_flags mc' = ro_flags mc" "mc_own mc' = mc_own mc" "mc_dbi mc' = mc_dbi mc" "\<not> has (mc_flags mc') C_DEL"
    using cursor_next_eq [OF Cons.prems(1-4), of MDB_NEXT "[]" "Some []"] Cons.prems(5) by auto
  have db: "db_ready st mc' c root" using Cons.prems(1) by (subst db_ready_cong [OF m(5,6)])
  have root: "root_ok st (ro_flags mc') psize c valid rank d root" using Cons.prems(2) m(4) by simp
  have "dump_loop (\<lambda>_. False) mode (n + 1) st (mc', None) = Some (records mode ys, 0, st)"
    by (rule Cons.IH [OF db root m(2,7,3)])
  then show ?case using cursor_get_next [OF b m(1,7)]
    by (subst dump_loop.simps) (simp add: records_def case_prod_beta)
qed

lemma dump_loop_new:
  fixes rank :: "bytes \<Rightarrow> 'k::linorder"
  assumes db: "db_ready st (new_cursor st dbi) c root" and it: "db_items st dbi psize c valid rank d root xs"
  shows "dump_loop (\<lambda>_. False) mode n st (new_cursor st dbi, None) = Some (records mode xs, 0, st)"
proof -
  let ?mc = "new_cursor st dbi"
  have b: "\<not> has (mt_flags (st_txn st)) MDB_TXN_BLOCKED" using db by (simp add: db_ready_def)
  have start: "mdb_cursor_next st (?mc, None) (Some []) (Some []) MDB_NEXT = mdb_cursor_first st (?mc, None) (Some []) (Some [])"
    using new_cursor_flags [of st dbi] by (simp add: mdb_cursor_next_def cursor_next_body_def)
  show ?thesis
  proof (cases "root = P_INVALID \<and> xs = []")
    case True
    obtain df d0 where D: "mc_dbflag st ?mc = Some df" "\<not> has df DB_STALE" "mc_db st ?mc = Some d0" "md_root d0 = root"
      using db by (auto simp: db_ready_def)
    have "mdb_page_search no_touch st ?mc None MDB_PS_FIRST = Some (MDB_NOTFOUND, st, ?mc)"
      using D b True by (simp add: mdb_page_search_def page_search_from_db_def)
    then have "mdb_cursor_first st (?mc, None) (Some []) (Some []) = Some (MDB_NOTFOUND, st, (?mc, None), Some [], Some [])"
      using new_cursor_flags [of st dbi] by (simp add: mdb_cursor_first_def cursor_first_body_def reset_sub_def MDB_NOTFOUND_def)
    then have "mdb_cursor_get st (Some (?mc, None)) (Some []) (Some []) MDB_NEXT =
        Some (MDB_NOTFOUND, st, Some (?mc, None), Some [], Some [])"
      using cursor_get_next [OF b _ new_cursor_flags(2)] start by metis
    then show ?thesis using True by (subst dump_loop.simps) (simp add: MDB_NOTFOUND_def records_def)
  next
    case False
    then have root: "root_ok st (ro_flags ?mc) psize c valid rank d root" and xs: "xs = items (see st (ro_flags ?mc)) d root"
      using it by (auto simp: db_items_def)
    obtain mc' y ys where F: "mdb_cursor_first st (?mc, None) (Some []) (Some []) = Some (0, st, (mc', None), Some (fst y), Some (snd y))"
      "xs = y # ys" "cursor_at st psize c valid rank d root mc' [] (y # ys)"
      "ro_flags mc' = ro_flags ?mc" "mc_own mc' = mc_own ?mc" "mc_dbi mc' = mc_dbi ?mc" "\<not> has (mc_flags mc') C_EOF"
      "\<not> has (mc_flags mc') C_DEL"
      using cursor_first_eq [OF db root new_cursor_usable, of "[]" "Some []"] new_cursor_flags(2) [of st dbi] xs unfolding option.map by blast
    have db': "db_ready st mc' c root" using db by (subst db_ready_cong [OF F(5,6)])
    have root': "root_ok st (ro_flags mc') psize c valid rank d root" using root F(4) by simp
    have "mdb_cursor_get st (Some (?mc, None)) (Some []) (Some []) MDB_NEXT =
        Some (0, st, Some (mc', None), Some (fst y), Some (snd y))"
      using cursor_get_next [OF b _ F(8)] start F(1) by metis
    then show ?thesis using dump_rest [OF db' root' F(3,8,7), of mode "n + 1"] F(2)
      by (subst dump_loop.simps) (simp add: records_def case_prod_beta)
  qed
qed

section \<open>Dump and load\<close>

lemma dumpit_eq:
  fixes rank :: "bytes \<Rightarrow> 'k::linorder"
  assumes exist: "TXN_DBI_EXIST (st_txn st) dbi DB_VALID = Some True" "TXN_DBI_EXIST (st_txn st) dbi DB_USRVALID = Some True"
    and ro: "has (mt_flags (st_txn st)) MDB_TXN_RDONLY"
    and db: "db_ready st (new_cursor st dbi) c root" and it: "db_items st dbi psize c valid rank d root xs"
    and D: "aget (mt_dbs (st_txn st)) dbi = Some dd"
  shows "dumpit (\<lambda>_. False) True mode st dbi name =
    Some (header mode name (ucast (md_flags dd AND PERSISTENT_FLAGS)) (snd (mdb_stat0 (st_env st) dd))
        (snd (mdb_env_info (st_env st) (st_file st))) @ records mode xs @ lit ''DATA=END'' @ [NEWLINE], 0, st)"
proof -
  have b: "\<not> has (mt_flags (st_txn st)) MDB_TXN_BLOCKED" using db by (simp add: db_ready_def)
  obtain df where df: "aget (mt_dbflags (st_txn st)) dbi = Some df" "\<not> has df DB_STALE"
    using db by (auto simp: db_ready_def new_cursor_def raw_cursor_def mc_dbflag_def)
  have fr: "F_ISSET (mt_flags (st_txn st)) MDB_TXN_RDONLY"
    using ro and_exp_self [of "mt_flags (st_txn st)" 17]
    by (auto simp: F_ISSET_def has_def MDB_TXN_RDONLY_def MDB_RDONLY_def and_exp_eq_0_iff_not_bit [of _ 17, simplified])
  have s: "mdb_stat st dbi = Some (0, st, Some (snd (mdb_stat0 (st_env st) dd)))"
    using exist(1) b df D by (simp add: mdb_stat_def mdb_stat0_def)
  have o: "mdb_cursor_open True st dbi = Some (0, st, Some (new_cursor st dbi, None))"
    using exist(1) b fr ro cursor_init_new [OF db] by (simp add: mdb_cursor_open_def mt_cursors_def)
  obtain info where i: "mdb_env_info (st_env st) (st_file st) = (0, info)"
    by (simp add: mdb_env_info_def Let_def)
  show ?thesis
    unfolding dumpit_def using exist(2) D s o dump_loop_new [OF db it, of mode 0]
    by (simp add: mdb_dbi_flags_def i)
qed



end
