(* ===== verification/Page_Alloc.thy ===== *)
theory Page_Alloc
  imports Info Midl_Sort
begin

text \<open>
  Pages for writing: \<open>mdb_page_malloc\<close>, \<open>mdb_page_free\<close>, \<open>mdb_dpage_free\<close>, \<open>mdb_dlist_free\<close>,
  \<open>mdb_page_dirty\<close>, \<open>mdb_page_alloc\<close> and \<open>mdb_page_new\<close>.

  The state of a write transaction adds to \<open>st\<close> what only writers use: the number of the next
  block that \<open>malloc\<close> hands out, what such a block contains before it is written (bytes of a
  page block, ids of an ID list), and the cursors that the transaction tracks in \<open>mt_cursors\<close>,
  each with its sub-cursor, apart from the one that the current operation works on.
  \<open>st_saved\<close> holds for every nested transaction what \<open>MDB_ntxn\<close> and \<open>mc_backup\<close> keep: the
  \<open>me_pgstate\<close> and the cursors of its parent when it began.
\<close>

record saved =
  sv_pghead :: "idl option"
  sv_pglast :: u64
  sv_cursors :: "mcursor list"

record wst = st +
  st_brk :: nat
  st_junk :: "nat \<Rightarrow> nat \<Rightarrow> u8"
  st_idjunk :: "nat \<Rightarrow> nat \<Rightarrow> u64"
  st_cursors :: "mcursor list"
  st_saved :: "saved list"

section \<open>Memory\<close>

definition upd_env :: "(env \<Rightarrow> env) \<Rightarrow> 'a st_scheme \<Rightarrow> 'a st_scheme" where
  "upd_env f st = st\<lparr>st_env := f (st_env st)\<rparr>"

definition upd_txn :: "(txn \<Rightarrow> txn) \<Rightarrow> 'a st_scheme \<Rightarrow> 'a st_scheme" where
  "upd_txn f st = st\<lparr>st_txn := f (st_txn st)\<rparr>"

definition ask_malloc :: "'a st_scheme \<Rightarrow> bool \<times> 'a st_scheme" where
  "ask_malloc st = (os_malloc (st_os st) (os_time (st_os st)), st\<lparr>st_os := tick (st_os st)\<rparr>)"

text \<open>The answer to a \<open>malloc\<close> or \<open>realloc\<close> for an ID list.\<close>

definition ask_mem :: "'a wst_scheme \<Rightarrow> mem \<times> 'a wst_scheme" where
  "ask_mem st = (
     let (ok, st') = ask_malloc st in
     (if ok then Some (st_idjunk st (os_time (st_os st))) else None, st'))"

text \<open>
  Storing a page back. In the map only with \<open>MDB_WRITEMAP\<close> (it is read-only otherwise), and only
  inside the file; in a malloc'd block only its own bytes.
\<close>

fun put_page :: "'a st_scheme \<Rightarrow> page_ptr \<Rightarrow> bytes \<Rightarrow> 'a st_scheme option" where
  "put_page st (Map_page pgno) b =
     (if has (me_flags (st_env st)) MDB_WRITEMAP then
        map_option (\<lambda>f. st\<lparr>st_file := f\<rparr>)
          (put_bytes (st_file st) (unat (of_nat (me_psize (st_env st)) * pgno)) b)
      else None)"
| "put_page st (Heap_page h) b =
     (case st_heap st h of
        Some old \<Rightarrow> if length b = length old then Some (st\<lparr>st_heap := (st_heap st)(h \<mapsto> b)\<rparr>) else None
      | None \<Rightarrow> None)"
| "put_page st (Sub_page p off) b = do {
     whole \<leftarrow> page_at st p;
     if off + length b = length whole then put_page st p (take off whole @ b) else None }"

definition upd_page :: "'a st_scheme \<Rightarrow> page_ptr \<Rightarrow> (bytes \<Rightarrow> bytes) \<Rightarrow> 'a st_scheme option" where
  "upd_page st p f = do { b \<leftarrow> page_at st p; put_page st p (f b) }"

section \<open>Page blocks\<close>

text \<open>
  A block on the list \<open>me_dpages\<close> is reused as it is (its first 8 bytes, where the link was, are
  overwritten by every caller). A new one is cleared after the header, or in its last page,
  unless \<open>MDB_NOMEMINIT\<close> is set.
\<close>

definition mdb_page_malloc :: "'a wst_scheme \<Rightarrow> nat \<Rightarrow> 'a wst_scheme \<times> page_ptr option" where
  "mdb_page_malloc st num = (
     let psize = me_psize (st_env st) in
     case (num, me_dpages (st_env st)) of
       (Suc 0, h # rest) \<Rightarrow> (upd_env (\<lambda>e. e\<lparr>me_dpages := rest\<rparr>) st, Some (Heap_page h))
     | _ \<Rightarrow>
         let sz = psize * num;
             off = (if num = 1 then PAGEHDRSZ else sz - psize);
             (ok, st) = ask_malloc st in
         if \<not> ok then (upd_txn (\<lambda>t. t\<lparr>mt_flags := mt_flags t OR MDB_TXN_ERROR\<rparr>) st, None)
         else
           let h = st_brk st;
               b = map (st_junk st h) [0..<sz];
               b = (if has (me_flags (st_env st)) MDB_NOMEMINIT then b
                    else set_mp_pad 0 (take off b @ replicate (sz - off) 0)) in
           (st\<lparr>st_heap := (st_heap st)(h \<mapsto> b), st_brk := h + 1\<rparr>, Some (Heap_page h)))"

text \<open>Only malloc'd blocks are freed.\<close>

definition mdb_page_free :: "'a st_scheme \<Rightarrow> page_ptr \<Rightarrow> 'a st_scheme option" where
  "mdb_page_free st mp =
     (case mp of Heap_page h \<Rightarrow> Some (upd_env (\<lambda>e. e\<lparr>me_dpages := h # me_dpages e\<rparr>) st) | _ \<Rightarrow> None)"

definition mdb_dpage_free :: "'a st_scheme \<Rightarrow> page_ptr \<Rightarrow> 'a st_scheme option" where
  "mdb_dpage_free st dp = do {
     b \<leftarrow> page_at st dp;
     if \<not> IS_OVERFLOW b \<or> mp_pages b = 1 then mdb_page_free st dp
     else case dp of Heap_page h \<Rightarrow> Some (st\<lparr>st_heap := (st_heap st)(h := None)\<rparr>) | _ \<Rightarrow> None }"

fun dlist_free_loop :: "'a st_scheme \<Rightarrow> nat \<Rightarrow> nat \<Rightarrow> 'a st_scheme option" where
  "dlist_free_loop st i 0 = Some st"
| "dlist_free_loop st i (Suc k) = do {
     e \<leftarrow> aget (mt_dirty_list (st_txn st)) i;
     st \<leftarrow> mdb_dpage_free st (snd e);
     dlist_free_loop st (i + 1) k }"

text \<open>\<open>dl[0].mid = v\<close>\<close>

definition set_dl_count :: "u64 \<Rightarrow> txn \<Rightarrow> txn option" where
  "set_dl_count v t = do {
     d0 \<leftarrow> aget (mt_dirty_list t) 0;
     dl \<leftarrow> aset (mt_dirty_list t) 0 (v, snd d0);
     Some (t\<lparr>mt_dirty_list := dl\<rparr>) }"

definition mdb_dlist_free :: "'a st_scheme \<Rightarrow> 'a st_scheme option" where
  "mdb_dlist_free st = do {
     d0 \<leftarrow> aget (mt_dirty_list (st_txn st)) 0;
     st \<leftarrow> dlist_free_loop st 1 (unat (fst d0));
     t \<leftarrow> set_dl_count 0 (st_txn st);
     Some (st\<lparr>st_txn := t\<rparr>) }"

section \<open>The dirty list\<close>

text \<open>A failed \<open>mdb_tassert\<close> aborts.\<close>

definition mdb_page_dirty :: "'a st_scheme \<Rightarrow> page_ptr \<Rightarrow> 'a st_scheme option" where
  "mdb_page_dirty st mp = do {
     b \<leftarrow> page_at st mp;
     let ins = (if has (mt_flags (st_txn st)) MDB_WRITEMAP then mdb_mid2l_append else mdb_mid2l_insert);
     (rc, dl) \<leftarrow> ins (mt_dirty_list (st_txn st)) (mp_pgno b, mp);
     if rc \<noteq> 0 then None
     else Some (upd_txn (\<lambda>t. t\<lparr>mt_dirty_list := dl, mt_dirty_room := (mt_dirty_room t + (2 ^ 32 - 1)) mod 2 ^ 32\<rparr>) st) }"

section \<open>Allocation\<close>

text \<open>
  The search for \<open>n2 + 1\<close> consecutive page numbers in \<open>me_pghead\<close>, from its tail: the index of
  the smallest of them, and its number.
\<close>

fun seek_run :: "u64 list \<Rightarrow> nat \<Rightarrow> nat \<Rightarrow> (nat \<times> u64) option option" where
  "seek_run mop n2 0 = Some None"
| "seek_run mop n2 (Suc i) =
     (if Suc i > n2 then do {
        pgno \<leftarrow> aget mop (Suc i);
        v \<leftarrow> aget mop (Suc i - n2);
        if v = pgno + of_nat n2 then Some (Some (Suc i, pgno)) else seek_run mop n2 i }
      else Some None)"

text \<open>
  \<open>if (oldest <= last) { if (!found_old) \<dots> }\<close>: whether the record \<open>lastid\<close> is too recent, asking for
  the oldest reader at most once.
\<close>

definition too_recent ::
    "'a st_scheme \<Rightarrow> u64 \<Rightarrow> bool \<Rightarrow> u64 \<Rightarrow> (bool \<times> 'a st_scheme \<times> u64 \<times> bool) option" where
  "too_recent st oldest found_old lastid =
     (if oldest \<le> lastid then do {
        (st, oldest, found_old) \<leftarrow>
          (if \<not> found_old then do {
             o' \<leftarrow> mdb_find_oldest (st_env st) (st_txn st);
             Some (upd_env (\<lambda>e. e\<lparr>me_pgoldest := o'\<rparr>) st, o', True) }
           else Some (st, oldest, found_old));
        Some (oldest \<le> lastid, st, oldest, found_old) }
      else Some (False, st, oldest, found_old))"

text \<open>The ids in the data of a freeDB record.\<close>

definition ids_of :: "bytes \<Rightarrow> u64 list" where
  "ids_of b = map (\<lambda>i. of_nat (rd b (8 * i) 8)) [0..<length b div 8]"

text \<open>Taking a record: \<open>me_pghead\<close> is created or enlarged, \<open>me_pglast\<close> set, and the ids merged.\<close>

definition merge_record :: "'a wst_scheme \<Rightarrow> u64 \<Rightarrow> u64 list \<Rightarrow> (int \<times> 'a wst_scheme) option" where
  "merge_record st lastid idl = do {
     n \<leftarrow> aget idl 0;
     let i = (ucast n :: u32);
     let (mem, st) = ask_mem st;
     (rc, mop) \<leftarrow>
       (case me_pghead (st_env st) of
          None \<Rightarrow> Some (case mdb_midl_alloc mem (unat i) of None \<Rightarrow> (ENOMEM, None) | Some il \<Rightarrow> (0, Some il))
        | Some il \<Rightarrow> do { (rc, il) \<leftarrow> mdb_midl_need mem il i; Some (rc, Some il) });
     let st = upd_env (\<lambda>e. e\<lparr>me_pghead := mop\<rparr>) st;
     if rc \<noteq> 0 then Some (rc, st)
     else do {
       il \<leftarrow> mop;
       ids \<leftarrow> mdb_midl_xmerge (il_ids il) idl;
       Some (0, upd_env (\<lambda>e. e\<lparr>me_pglast := lastid, me_pghead := Some (il\<lparr>il_ids := ids\<rparr>)\<rparr>) st) } }"

datatype seek = Run nat u64 | New_pages | Fail int

text \<open>\<open>mop_len\<close>: 0 while there is no \<open>me_pghead\<close>.\<close>

definition mop_of :: "'a st_scheme \<Rightarrow> u64 list" where
  "mop_of st = (case me_pghead (st_env st) of None \<Rightarrow> [0] | Some il \<Rightarrow> il_ids il)"

text \<open>The first half of a round: a run in \<open>me_pghead\<close>, or the number of retries left.\<close>

definition seek_round :: "'a st_scheme \<Rightarrow> nat \<Rightarrow> int \<Rightarrow> (seek option \<times> int) option" where
  "seek_round st num retry = do {
     c \<leftarrow> aget (mop_of st) 0;
     let mop_len = unat c mod 2 ^ 32;
     let n2 = num - 1;
     if mop_len > n2 then do {
       r \<leftarrow> seek_run (mop_of st) n2 mop_len;
       (case r of
          Some (i, pgno) \<Rightarrow> Some (Some (Run i pgno), retry)
        | None \<Rightarrow> Some (if retry - 1 < 0 then Some New_pages else None, retry - 1)) }
     else Some (None, retry) }"

text \<open>
  The second half: the next record of the freeDB, from \<open>last + 1\<close> on. The cursor \<open>m2\<close> is on the
  stack, the key is passed only to \<open>MDB_SET_RANGE\<close>.
\<close>

definition fetch_record ::
    "'a wst_scheme \<Rightarrow> mcursor \<Rightarrow> cursor_op \<Rightarrow> u64 \<Rightarrow> u64 \<Rightarrow> bool \<Rightarrow>
     (seek option \<times> 'a wst_scheme \<times> mcursor \<times> u64 \<times> u64 \<times> bool) option" where
  "fetch_record st m2 op lastid oldest found_old = do {
     let lastid = lastid + 1;
     (stop, st, oldest, found_old) \<leftarrow> too_recent st oldest found_old lastid;
     if stop then Some (Some New_pages, st, m2, lastid, oldest, found_old)
     else do {
       (rc, st, m, key, _) \<leftarrow> mdb_cursor_get st (Some m2) (Some (le_enc 8 (unat lastid))) None op;
       m2 \<leftarrow> m;
       if rc \<noteq> 0 then
         Some (Some (if rc = MDB_NOTFOUND then New_pages else Fail rc), st, m2, lastid, oldest, found_old)
       else do {
         key \<leftarrow> key;
         k \<leftarrow> load key 0 8;
         let lastid = of_nat k;
         (stop, st, oldest, found_old) \<leftarrow> too_recent st oldest found_old lastid;
         if stop then Some (Some New_pages, st, m2, lastid, oldest, found_old)
         else do {
           np \<leftarrow> top_page st (fst m2);
           i \<leftarrow> ki_at (fst m2);
           leaf \<leftarrow> NODEPTR np i;
           (rc, st, data) \<leftarrow> mdb_node_read st (fst m2) np leaf;
           if rc \<noteq> 0 then Some (Some (Fail rc), st, m2, lastid, oldest, found_old)
           else do {
             data \<leftarrow> data;
             (rc, st) \<leftarrow> merge_record st lastid (ids_of data);
             Some (if rc \<noteq> 0 then Some (Fail rc) else None, st, m2, lastid, oldest, found_old) } } } } }"

partial_function (option) fetch_loop ::
    "'a wst_scheme \<Rightarrow> mcursor \<Rightarrow> nat \<Rightarrow> int \<Rightarrow> u64 \<Rightarrow> u64 \<Rightarrow> bool \<Rightarrow> (seek \<times> 'a wst_scheme) option" where
  "fetch_loop st m2 num retry lastid oldest found_old = do {
     (r, retry) \<leftarrow> seek_round st num retry;
     case r of
       Some s \<Rightarrow> Some (s, st)
     | None \<Rightarrow> do {
         (r, st, m2, lastid, oldest, found_old) \<leftarrow> fetch_record st m2 MDB_NEXT lastid oldest found_old;
         case r of
           Some s \<Rightarrow> Some (s, st)
         | None \<Rightarrow> fetch_loop st m2 num retry lastid oldest found_old } }"

text \<open>The whole loop, with the first round, which opens \<open>m2\<close> and goes to the record to start from.\<close>

definition seek_pages :: "'a wst_scheme \<Rightarrow> nat \<Rightarrow> (seek \<times> 'a wst_scheme) option" where
  "seek_pages st num = do {
     (r, retry) \<leftarrow> seek_round st num (int num * 60);
     case r of
       Some s \<Rightarrow> Some (s, st)
     | None \<Rightarrow> do {
         let lastid = me_pglast (st_env st);
         (st, m2) \<leftarrow> mdb_cursor_init st raw_cursor FREE_DBI None;
         let op = (if lastid \<noteq> 0 then MDB_SET_RANGE else MDB_FIRST);
         (r, st, m2, lastid, oldest, found_old) \<leftarrow> fetch_record st m2 op lastid (me_pgoldest (st_env st)) False;
         case r of
           Some s \<Rightarrow> Some (s, st)
         | None \<Rightarrow> fetch_loop st m2 num retry lastid oldest found_old } }"

text \<open>\<open>for (j = i-num; j < mop_len; ) mop[++j] = mop[++i]\<close>; \<open>k\<close> is \<open>mop_len - j\<close>.\<close>

fun stragglers :: "u64 list \<Rightarrow> nat \<Rightarrow> nat \<Rightarrow> nat \<Rightarrow> u64 list option" where
  "stragglers mop j i 0 = Some mop"
| "stragglers mop j i (Suc k) = do {
     v \<leftarrow> aget mop (i + 1);
     mop \<leftarrow> aset mop (j + 1) v;
     stragglers mop (j + 1) (i + 1) k }"

definition take_run :: "u64 list \<Rightarrow> nat \<Rightarrow> nat \<Rightarrow> u64 list option" where
  "take_run mop i num = do {
     c \<leftarrow> aget mop 0;
     let mop_len = (unat c mod 2 ^ 32 + (2 ^ 32 - num)) mod 2 ^ 32;
     mop \<leftarrow> aset mop 0 (of_nat mop_len);
     stragglers mop (i - num) i (mop_len - (i - num)) }"

text \<open>From the label \<open>search_done\<close> on; \<open>i = 0\<close> for new pages at the end of the map.\<close>

definition alloc_done :: "'a wst_scheme \<Rightarrow> nat \<Rightarrow> nat \<Rightarrow> u64 \<Rightarrow> (int \<times> 'a wst_scheme \<times> page_ptr option) option" where
  "alloc_done st num i pgno = do {
     let (st, np) = (if has (me_flags (st_env st)) MDB_WRITEMAP then (st, Some (Map_page pgno))
                     else mdb_page_malloc st num);
     case np of
       None \<Rightarrow> Some (ENOMEM, txn_error st, None)
     | Some np \<Rightarrow> do {
         st \<leftarrow> (if i \<noteq> 0 then do {
              il \<leftarrow> me_pghead (st_env st);
              ids \<leftarrow> take_run (il_ids il) i num;
              Some (upd_env (\<lambda>e. e\<lparr>me_pghead := Some (il\<lparr>il_ids := ids\<rparr>)\<rparr>) st) }
            else Some (upd_txn (\<lambda>t. t\<lparr>mt_next_pgno := pgno + of_nat num\<rparr>) st));
         st \<leftarrow> upd_page st np (set_mp_pgno pgno);
         st \<leftarrow> mdb_page_dirty st np;
         Some (MDB_SUCCESS, st, Some np) } }"

definition mdb_page_alloc :: "'a wst_scheme \<Rightarrow> nat \<Rightarrow> (int \<times> 'a wst_scheme \<times> page_ptr option) option" where
  "mdb_page_alloc st num =
     (case (num, mt_loose_pgs (st_txn st)) of
        (Suc 0, np # rest) \<Rightarrow>
          Some (MDB_SUCCESS,
            upd_txn (\<lambda>t. t\<lparr>mt_loose_pgs := rest, mt_loose_count := mt_loose_count t - 1\<rparr>) st, Some np)
      | _ \<Rightarrow>
          if mt_dirty_room (st_txn st) = 0 then Some (MDB_TXN_FULL, txn_error st, None)
          else do {
            (s, st) \<leftarrow> seek_pages st num;
            case s of
              Fail rc \<Rightarrow> Some (rc, txn_error st, None)
            | Run i pgno \<Rightarrow> alloc_done st num i pgno
            | New_pages \<Rightarrow>
                let pgno = mt_next_pgno (st_txn st) in
                if pgno + of_nat num \<ge> me_maxpg (st_env st) then Some (MDB_MAP_FULL, txn_error st, None)
                else alloc_done st num 0 pgno })"

section \<open>New pages\<close>

definition upd_mc_db :: "'a st_scheme \<Rightarrow> cursor \<Rightarrow> (db \<Rightarrow> db) \<Rightarrow> ('a st_scheme \<times> cursor) option" where
  "upd_mc_db st mc f =
     (case mc_own mc of
        Some x \<Rightarrow> Some (st, mc\<lparr>mc_own := Some (x\<lparr>mx_db := f (mx_db x)\<rparr>)\<rparr>)
      | None \<Rightarrow> do {
          d \<leftarrow> aget (mt_dbs (st_txn st)) (mc_dbi mc);
          st \<leftarrow> set_mc_db st (mc_dbi mc) (f d);
          Some (st, mc) })"

text \<open>The header that \<open>mdb_page_new\<close> writes.\<close>

definition new_header :: "nat \<Rightarrow> u32 \<Rightarrow> nat \<Rightarrow> bytes \<Rightarrow> bytes" where
  "new_header psize flags num np = (
     let np = set_mp_flags (ucast flags OR P_DIRTY) np;
         np = set_mp_upper psize (set_mp_lower PAGEHDRSZ np)
     in if \<not> IS_BRANCH np \<and> \<not> IS_LEAF np \<and> IS_OVERFLOW np then set_mp_pages num np else np)"

definition mdb_page_new ::
    "'a wst_scheme \<Rightarrow> cursor \<Rightarrow> u32 \<Rightarrow> nat \<Rightarrow> (int \<times> 'a wst_scheme \<times> cursor \<times> page_ptr option) option" where
  "mdb_page_new st mc flags num = do {
     (rc, st, np) \<leftarrow> mdb_page_alloc st num;
     if rc \<noteq> 0 then Some (rc, st, mc, None)
     else do {
       np \<leftarrow> np;
       st \<leftarrow> upd_page st np (new_header (me_psize (st_env st)) flags num);
       b \<leftarrow> page_at st np;
       (st, mc) \<leftarrow> upd_mc_db st mc (\<lambda>d.
         if IS_BRANCH b then d\<lparr>md_branch_pages := md_branch_pages d + 1\<rparr>
         else if IS_LEAF b then d\<lparr>md_leaf_pages := md_leaf_pages d + 1\<rparr>
         else if IS_OVERFLOW b then d\<lparr>md_overflow_pages := md_overflow_pages d + of_nat num\<rparr>
         else d);
       Some (0, st, mc, Some np) } }"

end
