(* ===== verification/Txn.thy ===== *)
theory Txn
  imports Page_Alloc
begin

text \<open>
  Beginning, renewing, resetting and aborting transactions: \<open>mdb_txn_renew0\<close>, \<open>mdb_txn_begin\<close>,
  \<open>mdb_txn_renew\<close>, \<open>mdb_txn_end\<close>, \<open>mdb_txn_reset\<close> and \<open>mdb_txn_abort\<close>, with \<open>mdb_cursor_shadow\<close>,
  \<open>mdb_cursors_close\<close> and \<open>mdb_dbis_update\<close>.

  \<open>st_txn\<close> is the transaction that an operation is about, \<open>st_parents\<close> its ancestors. Before a write
  transaction of its own begins, \<open>st_txn\<close> is \<open>me_txn0\<close> as its last use left it. \<open>st_tls\<close> is the reader slot
  stored under \<open>me_txkey\<close> for the calling thread \<open>st_tid\<close>, \<open>st_wlocked\<close> says whether it holds the writer
  mutex. \<open>st_setspecific t\<close> is the answer to \<open>pthread_setspecific\<close> and \<open>st_seen t\<close> the value of
  \<open>ti->mti_txnid\<close>, which other processes change, that is read at time \<open>t\<close>.
\<close>

record tst = wst +
  st_tls :: "nat option"
  st_tid :: u64
  st_wlocked :: bool
  st_setspecific :: "nat \<Rightarrow> int"
  st_seen :: "nat \<Rightarrow> u64"

definition MDB_END_COMMITTED :: u32 where "MDB_END_COMMITTED = 0"
definition MDB_END_EMPTY_COMMIT :: u32 where "MDB_END_EMPTY_COMMIT = 1"
definition MDB_END_ABORT :: u32 where "MDB_END_ABORT = 2"
definition MDB_END_RESET :: u32 where "MDB_END_RESET = 3"
definition MDB_END_RESET_TMP :: u32 where "MDB_END_RESET_TMP = 4"
definition MDB_END_FAIL_BEGIN :: u32 where "MDB_END_FAIL_BEGIN = 5"
definition MDB_END_FAIL_BEGINCHILD :: u32 where "MDB_END_FAIL_BEGINCHILD = 6"
definition MDB_END_UPDATE :: u32 where "MDB_END_UPDATE = 0x10"
definition MDB_END_FREE :: u32 where "MDB_END_FREE = 0x20"
definition MDB_END_SLOT :: u32 where "MDB_END_SLOT = MDB_NOTLS"

lemmas end_defs = MDB_END_COMMITTED_def MDB_END_EMPTY_COMMIT_def MDB_END_ABORT_def MDB_END_RESET_def
  MDB_END_RESET_TMP_def MDB_END_FAIL_BEGIN_def MDB_END_FAIL_BEGINCHILD_def MDB_END_UPDATE_def
  MDB_END_FREE_def MDB_END_SLOT_def

definition MDB_TXN_BEGIN_FLAGS :: u32 where
  "MDB_TXN_BEGIN_FLAGS = MDB_NOMETASYNC OR MDB_NOSYNC OR MDB_RDONLY"

section \<open>Syncing\<close>

text \<open>\<open>err\<close> is what \<open>msync\<close> or \<open>fdatasync\<close> answers: 0 or \<open>errno\<close>.\<close>

definition mdb_env_sync0 :: "env \<Rightarrow> bool \<Rightarrow> int \<Rightarrow> int" where
  "mdb_env_sync0 env force err =
     (if has (me_flags env) MDB_RDONLY then EACCES
      else if force \<or> \<not> F_ISSET (me_flags env) MDB_NOSYNC then err else 0)"

section \<open>Cursors of nested transactions\<close>

text \<open>
  \<open>mdb_cursor_shadow\<close> copies every cursor that the parent tracks into a \<open>malloc\<close>'d backup and hands the
  original to the child; the copies are \<open>sv_cursors\<close>. The result says whether memory was left.
\<close>

fun mdb_cursor_shadow :: "'a wst_scheme \<Rightarrow> mcursor list \<Rightarrow> mcursor list \<Rightarrow> int \<times> 'a wst_scheme \<times> mcursor list" where
  "mdb_cursor_shadow st [] bks = (MDB_SUCCESS, st, bks)"
| "mdb_cursor_shadow st (m # ms) bks = (
     let (ok, st) = ask_malloc st in
     if ok then mdb_cursor_shadow st ms (bks @ [m]) else (ENOMEM, st, bks))"

text \<open>
  \<open>mdb_cursors_close\<close>: the child's own cursors, the first ones of \<open>st_cursors\<close>, are freed; the shadowed ones
  keep their new values or get the old ones back. A transaction without parent has only its own.
\<close>

definition mdb_cursors_close :: "'a wst_scheme \<Rightarrow> bool \<Rightarrow> 'a wst_scheme" where
  "mdb_cursors_close st merge =
     (case st_saved st of
        [] \<Rightarrow> st\<lparr>st_cursors := []\<rparr>
      | sv # _ \<Rightarrow>
          if merge then st\<lparr>st_cursors := drop (length (st_cursors st) - length (sv_cursors sv)) (st_cursors st)\<rparr>
          else st\<lparr>st_cursors := sv_cursors sv\<rparr>)"

section \<open>Database handles\<close>

fun dbis_update_loop :: "txn \<Rightarrow> bool \<Rightarrow> nat \<Rightarrow> env \<Rightarrow> env option" where
  "dbis_update_loop txn keep 0 env = Some env"
| "dbis_update_loop txn keep (Suc k) env = do {
     let i = CORE_DBS + k;
     f \<leftarrow> aget (mt_dbflags txn) i;
     env \<leftarrow>
       (if \<not> has f DB_NEW then Some env
        else if keep then do {
          d \<leftarrow> aget (mt_dbs txn) i;
          fs \<leftarrow> aset (me_dbflags env) i (md_flags d OR MDB_VALID);
          Some (env\<lparr>me_dbflags := fs\<rparr>) }
        else do {
          dx \<leftarrow> aget (me_dbxs env) i;
          if md_name dx = None then Some env
          else do {
            dxs \<leftarrow> aset (me_dbxs env) i (dx\<lparr>md_name := None\<rparr>);
            fs \<leftarrow> aset (me_dbflags env) i 0;
            s \<leftarrow> aget (me_dbiseqs env) i;
            ss \<leftarrow> aset (me_dbiseqs env) i ((s + 1) mod 2 ^ 32);
            Some (env\<lparr>me_dbxs := dxs, me_dbflags := fs, me_dbiseqs := ss\<rparr>) } });
     dbis_update_loop txn keep k env }"

definition mdb_dbis_update :: "txn \<Rightarrow> bool \<Rightarrow> env \<Rightarrow> env option" where
  "mdb_dbis_update txn keep env = do {
     env \<leftarrow> dbis_update_loop txn keep (mt_numdbs txn - CORE_DBS) env;
     Some (if keep \<and> me_numdbs env < mt_numdbs txn then env\<lparr>me_numdbs := mt_numdbs txn\<rparr> else env) }"

section \<open>Ending\<close>

definition upd_reader :: "(reader \<Rightarrow> reader) \<Rightarrow> nat \<Rightarrow> env \<Rightarrow> env option" where
  "upd_reader f i env = do {
     ti \<leftarrow> me_txns env;
     r \<leftarrow> aget (mti_readers ti) i;
     rs \<leftarrow> aset (mti_readers ti) i (f r);
     Some (env\<lparr>me_txns := Some (ti\<lparr>mti_readers := rs\<rparr>)\<rparr>) }"

text \<open>The end of a read-only transaction.\<close>

definition txn_end_read :: "'a tst_scheme \<Rightarrow> u32 \<Rightarrow> 'a tst_scheme option" where
  "txn_end_read st mode = do {
     st \<leftarrow> (case mt_reader (st_txn st) of
         None \<Rightarrow> Some st
       | Some r \<Rightarrow> do {
           env \<leftarrow> upd_reader (\<lambda>r. r\<lparr>mr_txnid := -1\<rparr>) r (st_env st);
           let st = st\<lparr>st_env := env\<rparr>;
           if \<not> has (me_flags env) MDB_NOTLS then Some (upd_txn (\<lambda>t. t\<lparr>mt_reader := None\<rparr>) st)
           else if has mode MDB_END_SLOT then do {
             env \<leftarrow> upd_reader (\<lambda>r. r\<lparr>mr_pid := 0\<rparr>) r env;
             Some (upd_txn (\<lambda>t. t\<lparr>mt_reader := None\<rparr>) (st\<lparr>st_env := env\<rparr>)) }
           else Some st });
     Some (upd_txn (\<lambda>t. t\<lparr>mt_numdbs := 0, mt_flags := mt_flags t OR MDB_TXN_FINISHED\<rparr>) st) }"

text \<open>
  The end of a write transaction. A nested one gives way to its parent, whose \<open>me_pgstate\<close> is restored;
  the last one becomes \<open>me_txn0\<close>, whose lists are kept for the next.
\<close>

definition txn_end_write :: "'a tst_scheme \<Rightarrow> u32 \<Rightarrow> 'a tst_scheme option" where
  "txn_end_write st mode = do {
     let st = (if has mode MDB_END_UPDATE then st else mdb_cursors_close st False);
     st \<leftarrow> (if has (me_flags (st_env st)) MDB_WRITEMAP then Some st else mdb_dlist_free st);
     let st = upd_txn (\<lambda>t. t\<lparr>mt_numdbs := 0, mt_flags := MDB_TXN_FINISHED\<rparr>) st;
     case (st_parents st, st_saved st) of
       ([], _) \<Rightarrow>
         let (mem, st) = ask_mem st;
             il = mdb_midl_shrink mem (mt_free_pgs (st_txn st));
             st = upd_txn (\<lambda>t. t\<lparr>mt_free_pgs := il\<rparr>) st;
             st = upd_env (\<lambda>e. e\<lparr>me_txn := False, me_pglast := 0, me_pghead := None, me_free_pgs := il,
               me_dirty_list := mt_dirty_list (st_txn st)\<rparr>) st
         in Some (if me_txns (st_env st) \<noteq> None then st\<lparr>st_wlocked := False\<rparr> else st)
     | (p # ps, sv # svs) \<Rightarrow>
         Some (upd_env (\<lambda>e. e\<lparr>me_pglast := sv_pglast sv, me_pghead := sv_pghead sv\<rparr>)
           (st\<lparr>st_txn := p\<lparr>mt_flags := mt_flags p AND NOT MDB_TXN_HAS_CHILD\<rparr>, st_parents := ps, st_saved := svs\<rparr>))
     | _ \<Rightarrow> None }"

definition mdb_txn_end :: "'a tst_scheme \<Rightarrow> u32 \<Rightarrow> 'a tst_scheme option" where
  "mdb_txn_end st mode = do {
     env \<leftarrow> mdb_dbis_update (st_txn st) (has mode MDB_END_UPDATE) (st_env st);
     let st = st\<lparr>st_env := env\<rparr>;
     if F_ISSET (mt_flags (st_txn st)) MDB_TXN_RDONLY then txn_end_read st mode
     else if \<not> F_ISSET (mt_flags (st_txn st)) MDB_TXN_FINISHED then txn_end_write st mode
     else Some st }"

definition mdb_txn_reset :: "'a tst_scheme \<Rightarrow> 'a tst_scheme option" where
  "mdb_txn_reset st =
     (if \<not> has (mt_flags (st_txn st)) MDB_TXN_RDONLY then Some st else mdb_txn_end st MDB_END_RESET)"

text \<open>Aborting the ancestor \<open>k\<close> levels above \<open>st_txn\<close>, after its descendants.\<close>

fun mdb_txn_abort :: "'a tst_scheme \<Rightarrow> nat \<Rightarrow> 'a tst_scheme option" where
  "mdb_txn_abort st 0 = mdb_txn_end st (MDB_END_ABORT OR MDB_END_SLOT OR MDB_END_FREE)"
| "mdb_txn_abort st (Suc k) = do {
     st \<leftarrow> mdb_txn_end st (MDB_END_ABORT OR MDB_END_SLOT OR MDB_END_FREE);
     mdb_txn_abort st k }"

section \<open>Beginning\<close>

text \<open>\<open>for (i=0; i<nr; i++) if (ti->mti_readers[i].mr_pid == 0) break;\<close>\<close>

fun free_slot :: "reader list \<Rightarrow> nat \<Rightarrow> nat \<Rightarrow> nat option" where
  "free_slot rs i 0 = Some i"
| "free_slot rs i (Suc k) = do {
     r \<leftarrow> aget rs i;
     if mr_pid r = 0 then Some i else free_slot rs (i + 1) k }"

definition upd_ti :: "(txninfo \<Rightarrow> txninfo) \<Rightarrow> env \<Rightarrow> env" where
  "upd_ti f env = env\<lparr>me_txns := map_option f (me_txns env)\<rparr>"

text \<open>The slot \<open>i\<close> is reset, published and then claimed, under the reader mutex.\<close>

definition publish_slot :: "env \<Rightarrow> nat \<Rightarrow> nat \<Rightarrow> u64 \<Rightarrow> env option" where
  "publish_slot env nr i tid = do {
     env \<leftarrow> upd_reader (\<lambda>r. \<lparr>mr_txnid = -1, mr_pid = 0, mr_tid = tid\<rparr>) i env;
     let nr' = (if i = nr then nr + 1 else nr);
     let env = (upd_ti (\<lambda>ti. ti\<lparr>mti_numreaders := nr'\<rparr>) env)\<lparr>me_close_readers := nr'\<rparr>;
     upd_reader (\<lambda>r. r\<lparr>mr_pid := me_pid env\<rparr>) i env }"

text \<open>A slot for a thread without one. Without \<open>MDB_NOTLS\<close> it is stored under \<open>me_txkey\<close>.\<close>

definition claim_slot :: "'a tst_scheme \<Rightarrow> (int \<times> 'a tst_scheme \<times> nat option) option" where
  "claim_slot st = do {
     let env = st_env st;
     (rc, env, os) \<leftarrow>
       (if \<not> me_live_reader env then do {
          rc \<leftarrow> mdb_reader_pid False (os_fcntl (st_os st) (os_time (st_os st)) (me_pid env));
          Some (rc, (if rc = 0 then env\<lparr>me_live_reader := True\<rparr> else env), tick (st_os st)) }
        else Some (0, env, st_os st));
     if rc \<noteq> 0 then Some (rc, st\<lparr>st_env := env, st_os := os\<rparr>, None)
     else do {
       ti \<leftarrow> me_txns env;
       (rc, _, ti, os) \<leftarrow> lock_rmutex (st_file st) env ti os;
       let env = env\<lparr>me_txns := Some ti\<rparr>;
       let st = st\<lparr>st_env := env, st_os := os\<rparr>;
       if rc \<noteq> 0 then Some (rc, st, None)
       else do {
         let nr = mti_numreaders ti;
         i \<leftarrow> free_slot (mti_readers ti) 0 nr;
         if i = me_maxreaders env then Some (MDB_READERS_FULL, st, None)
         else do {
           env \<leftarrow> publish_slot env nr i (st_tid st);
           let rc = (if has (me_flags env) MDB_NOTLS then 0 else st_setspecific st (os_time os));
           let st = st\<lparr>st_env := env, st_os := (if has (me_flags env) MDB_NOTLS then os else tick os)\<rparr>;
           if rc \<noteq> 0 then do {
             env \<leftarrow> upd_reader (\<lambda>r. r\<lparr>mr_pid := 0\<rparr>) i env;
             Some (rc, st\<lparr>st_env := env\<rparr>, None) }
           else Some (0, (if has (me_flags env) MDB_NOTLS then st else st\<lparr>st_tls := Some i\<rparr>), Some i) } } } }"

text \<open>
  \<open>do r->mr_txnid = ti->mti_txnid; while (r->mr_txnid != ti->mti_txnid)\<close>: two reads of \<open>mti_txnid\<close> in a round.
\<close>

partial_function (option) take_snapshot :: "(nat \<Rightarrow> u64) \<Rightarrow> nat \<Rightarrow> (u64 \<times> nat) option" where
  "take_snapshot seen t =
     (if seen t = seen (t + 1) then Some (seen t, t + 2) else take_snapshot seen (t + 2))"

text \<open>The reader's half of \<open>mdb_txn_renew0\<close>: a slot and the meta page of its snapshot.\<close>

definition renew_read :: "'a tst_scheme \<Rightarrow> (int \<times> 'a tst_scheme \<times> meta option \<times> bool) option" where
  "renew_read st =
     (case me_txns (st_env st) of
        None \<Rightarrow>
          let m = mdb_env_pick_meta (st_env st) (st_file st) in
          Some (0, upd_txn (\<lambda>t. t\<lparr>mt_txnid := mm_txnid m, mt_reader := None\<rparr>) st, Some m, False)
      | Some ti \<Rightarrow> do {
          let notls = has (me_flags (st_env st)) MDB_NOTLS;
          (rc, st, r, fresh) \<leftarrow>
            (case (if notls then mt_reader (st_txn st) else st_tls st) of
               Some i \<Rightarrow> do {
                 r \<leftarrow> aget (mti_readers ti) i;
                 Some (if mr_pid r \<noteq> me_pid (st_env st) \<or> mr_txnid r \<noteq> -1 then (MDB_BAD_RSLOT, st, None, False)
                       else (0, st, Some i, False)) }
             | None \<Rightarrow> do { (rc, st, r) \<leftarrow> claim_slot st; Some (rc, st, r, notls) });
          if rc \<noteq> 0 then Some (rc, st, None, False)
          else do {
            i \<leftarrow> r;
            (snap, t) \<leftarrow> take_snapshot (st_seen st) (os_time (st_os st));
            env \<leftarrow> upd_reader (\<lambda>r. r\<lparr>mr_txnid := snap\<rparr>) i (upd_ti (\<lambda>ti. ti\<lparr>mti_txnid := snap\<rparr>) (st_env st));
            let st = st\<lparr>st_env := env, st_os := (st_os st)\<lparr>os_time := t\<rparr>\<rparr>;
            Some (0, upd_txn (\<lambda>t. t\<lparr>mt_txnid := snap, mt_reader := Some i\<rparr>) st,
              Some (meta_at (st_file st) (me_metas env (unat (snap AND 1)))), fresh) } })"

text \<open>The writer's half: the writer mutex, and \<open>me_txn0\<close> made ready.\<close>

definition renew_write :: "'a tst_scheme \<Rightarrow> (int \<times> 'a tst_scheme \<times> meta option) option" where
  "renew_write st = do {
     (rc, st, m) \<leftarrow>
       (case me_txns (st_env st) of
          None \<Rightarrow>
            let m = mdb_env_pick_meta (st_env st) (st_file st) in Some (0, upd_txn (\<lambda>t. t\<lparr>mt_txnid := mm_txnid m\<rparr>) st, Some m)
        | Some _ \<Rightarrow> do {
            let rc = os_lock (st_os st) (os_time (st_os st));
            let os = tick (st_os st);
            (rc, env, os) \<leftarrow> (if rc \<noteq> 0 then mdb_mutex_failed (st_file st) (st_env st) False rc os else Some (0, st_env st, os));
            let st = st\<lparr>st_env := env, st_os := os\<rparr>;
            if rc \<noteq> 0 then Some (rc, st, None)
            else do {
              ti \<leftarrow> me_txns env;
              let t = mti_txnid ti;
              Some (0, upd_txn (\<lambda>x. x\<lparr>mt_txnid := t\<rparr>) (st\<lparr>st_wlocked := True\<rparr>),
                Some (meta_at (st_file st) (me_metas env (unat (t AND 1))))) } });
     if rc \<noteq> 0 then Some (rc, st, None)
     else do {
       let env = st_env st;
       d0 \<leftarrow> aget (me_dirty_list env) 0;
       dl \<leftarrow> aset (me_dirty_list env) 0 (0, snd d0);
       fp \<leftarrow> aset (il_ids (me_free_pgs env)) 0 0;
       let st = upd_txn (\<lambda>t. t\<lparr>mt_txnid := mt_txnid t + 1, mt_free_pgs := (me_free_pgs env)\<lparr>il_ids := fp\<rparr>,
         mt_loose_pgs := [], mt_loose_count := 0, mt_spill_pgs := None, mt_dirty_list := dl,
         mt_dbiseqs := Some (take (me_maxdbs env) (me_dbiseqs env)), mt_dirty_room := MDB_IDL_UM_MAX\<rparr>) st;
       Some (0, upd_env (\<lambda>e. e\<lparr>me_txn := True, me_free_pgs := (me_free_pgs e)\<lparr>il_ids := fp\<rparr>, me_dirty_list := dl\<rparr>) st, m) } }"

text \<open>The handles above the core databases: flags from \<open>me_dbflags\<close>, records read when first used.\<close>

fun setup_dbs :: "env \<Rightarrow> nat \<Rightarrow> txn \<Rightarrow> txn option" where
  "setup_dbs env 0 txn = Some txn"
| "setup_dbs env (Suc k) txn = do {
     txn \<leftarrow> setup_dbs env k txn;
     let i = CORE_DBS + k;
     x \<leftarrow> aget (me_dbflags env) i;
     d \<leftarrow> aget (mt_dbs txn) i;
     ds \<leftarrow> aset (mt_dbs txn) i (d\<lparr>md_flags := x AND PERSISTENT_FLAGS\<rparr>);
     fs \<leftarrow> aset (mt_dbflags txn) i (if has x MDB_VALID then DB_VALID OR DB_USRVALID OR DB_STALE else 0);
     Some (txn\<lparr>mt_dbs := ds, mt_dbflags := fs\<rparr>) }"

definition renew_dbs :: "env \<Rightarrow> meta \<Rightarrow> u32 \<Rightarrow> txn \<Rightarrow> txn option" where
  "renew_dbs env m flags txn = do {
     ds \<leftarrow> aset (mt_dbs txn) FREE_DBI (mm_free_db m);
     ds \<leftarrow> aset ds MAIN_DBI (mm_main_db m);
     txn \<leftarrow> setup_dbs env (me_numdbs env - CORE_DBS)
       (txn\<lparr>mt_next_pgno := mm_last_pg m + 1, mt_dbs := ds, mt_numdbs := me_numdbs env, mt_flags := flags\<rparr>);
     fs \<leftarrow> aset (mt_dbflags txn) MAIN_DBI (DB_VALID OR DB_USRVALID);
     fs \<leftarrow> aset fs FREE_DBI DB_VALID;
     Some (txn\<lparr>mt_dbflags := fs\<rparr>) }"

definition mdb_txn_renew0 :: "'a tst_scheme \<Rightarrow> (int \<times> 'a tst_scheme) option" where
  "mdb_txn_renew0 st = do {
     let flags = mt_flags (st_txn st) AND MDB_TXN_RDONLY;
     (rc, st, m, fresh) \<leftarrow>
       (if flags \<noteq> 0 then renew_read st
        else do { (rc, st, m) \<leftarrow> renew_write st; Some (rc, st, m, False) });
     if rc \<noteq> 0 then Some (rc, st)
     else do {
       m \<leftarrow> m;
       txn \<leftarrow> renew_dbs (st_env st) m flags (st_txn st);
       let st = st\<lparr>st_txn := txn\<rparr>;
       let rc = (if has (me_flags (st_env st)) MDB_FATAL_ERROR then MDB_PANIC
                 else if me_maxpg (st_env st) < mt_next_pgno txn then MDB_MAP_RESIZED else MDB_SUCCESS);
       if rc = MDB_SUCCESS then Some (MDB_SUCCESS, st)
       else do {
         st \<leftarrow> mdb_txn_end st ((if fresh then MDB_END_SLOT else 0) OR MDB_END_FAIL_BEGIN);
         Some (rc, st) } } }"

definition mdb_txn_renew :: "'a tst_scheme \<Rightarrow> (int \<times> 'a tst_scheme) option" where
  "mdb_txn_renew st =
     (if \<not> F_ISSET (mt_flags (st_txn st)) (MDB_TXN_RDONLY OR MDB_TXN_FINISHED) then Some (EINVAL, st)
      else mdb_txn_renew0 st)"

text \<open>A \<open>calloc\<close>'d transaction.\<close>

definition raw_txn :: "env \<Rightarrow> u32 \<Rightarrow> txn" where
  "raw_txn env flags = \<lparr>mt_next_pgno = 0, mt_txnid = 0, mt_free_pgs = \<lparr>il_alloc = 0, il_ids = []\<rparr>, mt_loose_pgs = [],
     mt_loose_count = 0, mt_spill_pgs = None, mt_dirty_list = [], mt_dbs = replicate (me_maxdbs env) raw_db,
     mt_dbiseqs = None, mt_dbflags = replicate (me_maxdbs env) 0, mt_numdbs = 0, mt_flags = flags, mt_dirty_room = 0,
     mt_reader = None\<rparr>"

text \<open>Entries of a new dirty list, which nothing reads before they are written, are \<open>(0, Map_page 0)\<close>.\<close>

definition raw_dirty_list :: "(u64 \<times> page_ptr) list" where
  "raw_dirty_list = replicate (MDB_IDL_UM_MAX + 1) (0, Map_page 0)"

text \<open>The child's fields, copied from the parent \<open>p\<close>.\<close>

definition child_txn :: "env \<Rightarrow> u32 \<Rightarrow> idl \<Rightarrow> txn \<Rightarrow> txn option" where
  "child_txn env flags free_pgs p = do {
     let c = raw_txn env flags;
     ds \<leftarrow> acopy (mt_dbs c) 0 (mt_dbs p) 0 (mt_numdbs p);
     fs \<leftarrow> acopy (mt_dbflags c) 0 (map (\<lambda>f. f AND NOT DB_NEW) (mt_dbflags p)) 0 (mt_numdbs p);
     Some (c\<lparr>mt_next_pgno := mt_next_pgno p, mt_txnid := mt_txnid p, mt_free_pgs := free_pgs,
       mt_dirty_list := raw_dirty_list, mt_dbs := ds, mt_dbiseqs := mt_dbiseqs p, mt_dbflags := fs,
       mt_numdbs := mt_numdbs p, mt_dirty_room := mt_dirty_room p\<rparr>) }"

text \<open>The child's copy of \<open>me_pghead\<close>.\<close>

definition copy_pghead :: "'a wst_scheme \<Rightarrow> (int \<times> 'a wst_scheme) option" where
  "copy_pghead st =
     (case me_pghead (st_env st) of
        None \<Rightarrow> Some (0, st)
      | Some il \<Rightarrow> do {
          n \<leftarrow> aget (il_ids il) 0;
          let (mem, st) = ask_mem st;
          (case mdb_midl_alloc mem (unat (ucast n :: u32)) of
             None \<Rightarrow> Some (ENOMEM, upd_env (\<lambda>e. e\<lparr>me_pghead := None\<rparr>) st)
           | Some il' \<Rightarrow> do {
               ids \<leftarrow> acopy (il_ids il') 0 (il_ids il) 0 (unat n + 1);
               Some (0, upd_env (\<lambda>e. e\<lparr>me_pghead := Some (il'\<lparr>il_ids := ids\<rparr>)\<rparr>) st) }) })"

definition begin_child :: "'a tst_scheme \<Rightarrow> u32 \<Rightarrow> (int \<times> 'a tst_scheme) option" where
  "begin_child st flags = (
     let p = st_txn st; (ok1, st) = ask_malloc st in
     if \<not> ok1 then Some (ENOMEM, st)
     else
       let (ok2, st) = ask_malloc st in
       if \<not> ok2 then Some (ENOMEM, st)
       else
         let (mem, st) = ask_mem st in
         case mdb_midl_alloc mem MDB_IDL_UM_MAX of
           None \<Rightarrow> Some (ENOMEM, st)
         | Some il \<Rightarrow> do {
             c \<leftarrow> child_txn (st_env st) flags il p;
             let sv = \<lparr>sv_pghead = me_pghead (st_env st), sv_pglast = me_pglast (st_env st), sv_cursors = st_cursors st\<rparr>;
             let st = st\<lparr>st_txn := c, st_parents := p\<lparr>mt_flags := mt_flags p OR MDB_TXN_HAS_CHILD\<rparr> # st_parents st,
               st_saved := sv # st_saved st\<rparr>;
             (rc, st) \<leftarrow> copy_pghead st;
             let (rc, st) = (if rc \<noteq> 0 then (rc, st) else
               (let (rc, st, _) = mdb_cursor_shadow st (st_cursors st) [] in (rc, st)));
             if rc \<noteq> 0 then do { st \<leftarrow> mdb_txn_end st MDB_END_FAIL_BEGINCHILD; Some (rc, st) }
             else Some (0, upd_txn (\<lambda>t. t\<lparr>mt_flags := mt_flags t OR flags\<rparr>) st) })"

text \<open>
  \<open>nested\<close> says that \<open>st_txn\<close> is passed as the parent. A read-only transaction that cannot begin is freed,
  and the state keeps the transaction that it had.
\<close>

definition mdb_txn_begin :: "'a tst_scheme \<Rightarrow> bool \<Rightarrow> u32 \<Rightarrow> (int \<times> 'a tst_scheme) option" where
  "mdb_txn_begin st nested flags = (
     let flags = (flags AND MDB_TXN_BEGIN_FLAGS) OR (me_flags (st_env st) AND MDB_WRITEMAP) in
     if me_flags (st_env st) AND MDB_RDONLY AND NOT flags \<noteq> 0 then Some (EACCES, st)
     else if nested then
       (let flags = flags OR mt_flags (st_txn st) in
        if has flags (MDB_RDONLY OR MDB_WRITEMAP OR MDB_TXN_BLOCKED) then
          Some (if has (mt_flags (st_txn st)) MDB_TXN_RDONLY then EINVAL else MDB_BAD_TXN, st)
        else begin_child st flags)
     else if has flags MDB_RDONLY then
       (let txn0 = st_txn st; ps = st_parents st; (ok, st) = ask_malloc st in
        if \<not> ok then Some (ENOMEM, st)
        else do {
          (rc, st) \<leftarrow> mdb_txn_renew0 (st\<lparr>st_txn := raw_txn (st_env st) flags, st_parents := []\<rparr>);
          Some (if rc \<noteq> 0 then (rc, st\<lparr>st_txn := txn0, st_parents := ps\<rparr>)
                else (0, upd_txn (\<lambda>t. t\<lparr>mt_flags := mt_flags t OR flags\<rparr>) st)) })
     else do {
       (rc, st) \<leftarrow> mdb_txn_renew0 st;
       Some (if rc \<noteq> 0 then (rc, st) else (0, upd_txn (\<lambda>t. t\<lparr>mt_flags := mt_flags t OR flags\<rparr>) st)) })"

definition mdb_txn_id :: "txn option \<Rightarrow> u64" where
  "mdb_txn_id txn = (case txn of None \<Rightarrow> 0 | Some t \<Rightarrow> mt_txnid t)"

end
