(* ===== verification/Reclaim.thy ===== *)
theory Reclaim
  imports Page_Alloc Read_Path
begin

text \<open>
  What \<open>mdb_page_alloc\<close> does with the freeDB. A record of it says which pages a transaction freed: the key is
  the transaction's number, the data the ID list of the pages. \<open>mdb_page_alloc\<close> takes records into
  \<open>me_pghead\<close>, oldest first, as long as they are older than every reader.
\<close>

section \<open>States that show the same pages\<close>

definition same_view :: "'a st_scheme \<Rightarrow> 'a st_scheme \<Rightarrow> bool" where
  "same_view st st' \<longleftrightarrow> (\<exists>l. st_txn st' = (st_txn st)\<lparr>mt_free_pgs := l\<rparr>) \<and> st_parents st' = st_parents st \<and> st_file st' = st_file st \<and>
     st_heap st' = st_heap st \<and> me_psize (st_env st') = me_psize (st_env st) \<and> me_map (st_env st') = me_map (st_env st) \<and>
     me_dbxs (st_env st') = me_dbxs (st_env st)"

lemma same_txn: "\<exists>l. t = t\<lparr>mt_free_pgs := l\<rparr>"
  by (rule exI [of _ "mt_free_pgs t"]) simp

lemma same_view_page: "same_view st st' \<Longrightarrow> page_at st' p = page_at st p"
  by (induction p) (simp_all add: same_view_def map_page_def Let_def)

lemma same_view_resolve: "same_view st st' \<Longrightarrow> resolve st' ro pgno = resolve st ro pgno"
proof -
  assume s: "same_view st st'"
  let ?m = "raw_cursor\<lparr>mc_flags := if ro then C_ORIG_RDONLY else 0\<rparr>"
  obtain l where t: "st_txn st' = (st_txn st)\<lparr>mt_free_pgs := l\<rparr>" "st_parents st' = st_parents st"
    using s by (auto simp: same_view_def)
  have "mt_dirty_list ((st_txn st)\<lparr>mt_free_pgs := l\<rparr>) = mt_dirty_list (st_txn st)"
    "mt_spill_pgs ((st_txn st)\<lparr>mt_free_pgs := l\<rparr>) = mt_spill_pgs (st_txn st)" by simp_all
  then have p: "page_get_txn ((st_txn st)\<lparr>mt_free_pgs := l\<rparr>) pgno = page_get_txn (st_txn st) pgno"
    by (simp only: page_get_txn_def)
  have g: "page_get_loop ((st_txn st)\<lparr>mt_free_pgs := l\<rparr> # ps) pgno 1 = page_get_loop (st_txn st # ps) pgno 1" for ps
    by (simp add: p)
  have "mdb_page_get st' ?m pgno = map_option (\<lambda>(rc, s, p). (rc, if rc = 0 then st' else txn_error st', p)) (mdb_page_get st ?m pgno)"
    unfolding mdb_page_get_def t g by (auto split: bind_splits found.splits simp: MDB_PAGE_NOTFOUND_def)
  then show ?thesis
    by (auto simp: resolve_def split: option.splits)
qed

lemma same_view_see: "same_view st st' \<Longrightarrow> see st' = see st"
  by (intro ext) (simp add: see_def same_view_resolve same_view_page)

lemma same_view_path: "same_view st st' \<Longrightarrow> on_path st' ro t d pgno ks mc = on_path st ro t d pgno ks mc"
  by (induction d arbitrary: t pgno ks) (simp_all add: same_view_see same_view_resolve)

lemma same_view_ready: "same_view st st' \<Longrightarrow> db_ready st' mc c root = db_ready st mc c root"
  by (cases "mc_own mc") (auto simp: db_ready_def same_view_def mc_dbflag_def mc_dbx_def mc_db_def)

lemma same_view_sits:
  "same_view st st' \<Longrightarrow> sits st' psize c valid rank d root mc pre x post = sits st psize c valid rank d root mc pre x post"
  by (simp add: sits_def same_view_ready root_ok_def cursor_at_def at_leaf_def same_view_see same_view_path)

lemma same_view_cursor: "same_view st st' \<Longrightarrow> new_cursor st' dbi = new_cursor st dbi"
  by (auto simp: new_cursor_def same_view_def)

lemma same_view_items:
  "same_view st st' \<Longrightarrow> db_items st' dbi psize c valid rank d root xs = db_items st dbi psize c valid rank d root xs"
  by (simp add: db_items_def root_ok_def same_view_see same_view_cursor)

text \<open>States that differ only in what \<open>mdb_page_alloc\<close> keeps about the freeDB.\<close>

definition pg_only :: "'a wst_scheme \<Rightarrow> 'a wst_scheme \<Rightarrow> bool" where
  "pg_only st st' \<longleftrightarrow> (\<exists>o' l h t. st' = st\<lparr>st_env := (st_env st)\<lparr>me_pgoldest := o', me_pglast := l, me_pghead := h\<rparr>,
     st_os := (st_os st)\<lparr>os_time := t\<rparr>\<rparr>)"

lemma pg_only_refl: "pg_only st st"
  unfolding pg_only_def
  by (rule exI [of _ "me_pgoldest (st_env st)"], rule exI [of _ "me_pglast (st_env st)"],
    rule exI [of _ "me_pghead (st_env st)"], rule exI [of _ "os_time (st_os st)"]) simp

lemma pg_only_trans: "pg_only st st' \<Longrightarrow> pg_only st' st'' \<Longrightarrow> pg_only st st''"
  by (clarsimp simp: pg_only_def) blast

lemma pg_only_view: "pg_only st st' \<Longrightarrow> same_view st st'"
  using same_txn by (auto simp: pg_only_def same_view_def)

lemma pg_only_oldest: "pg_only st st' \<Longrightarrow> mdb_find_oldest (st_env st') (st_txn st') = mdb_find_oldest (st_env st) (st_txn st)"
  by (auto simp: pg_only_def mdb_find_oldest_def)

section \<open>Taking one record\<close>

definition head_ids :: "'a st_scheme \<Rightarrow> u64 list" where
  "head_ids st = idl_elems (mop_of st)"

definition head_ok :: "'a st_scheme \<Rightarrow> bool" where
  "head_ok st \<longleftrightarrow> (case me_pghead (st_env st) of None \<Rightarrow> True | Some il \<Rightarrow> idl_ok il \<and> idl_desc (il_ids il))"

definition rec_id :: "bytes \<times> bytes \<Rightarrow> u64" where "rec_id x = of_nat (le_dec (fst x))"
definition rec_ids :: "bytes \<times> bytes \<Rightarrow> u64 list" where "rec_ids x = idl_elems (ids_of (snd x))"

definition rec_ok :: "bytes \<times> bytes \<Rightarrow> bool" where
  "rec_ok x \<longleftrightarrow> length (fst x) = 8 \<and> rec_id x \<noteq> 0 \<and> ids_ok (ids_of (snd x)) \<and> idl_desc (ids_of (snd x))"

text \<open>The list that \<open>mdb_midl_alloc\<close> makes.\<close>

lemma midl_alloc_ok:
  assumes "n < 2 ^ 30"
  shows "mdb_midl_alloc None n = None"
    "\<exists>il. mdb_midl_alloc (Some g) n = Some il \<and> idl_ok il \<and> idl_elems (il_ids il) = [] \<and> unat (il_alloc il) = n \<and> il_ids il ! 0 = 0"
proof -
  have "unat (of_nat n :: u64) = n" using assms by (simp add: unsigned_of_nat take_bit_nat_eq_self)
  then show "\<exists>il. mdb_midl_alloc (Some g) n = Some il \<and> idl_ok il \<and> idl_elems (il_ids il) = [] \<and> unat (il_alloc il) = n \<and> il_ids il ! 0 = 0"
    using assms by (simp add: mdb_midl_alloc_def idl_ok_def ids_ok_def idl_elems_def nth_list_update)
qed (simp add: mdb_midl_alloc_def)

lemma pg_only_intro:
  "st1 = st\<lparr>st_os := (st_os st)\<lparr>os_time := t\<rparr>\<rparr> \<Longrightarrow>
    pg_only st (upd_env (\<lambda>e. e\<lparr>me_pglast := l, me_pghead := h\<rparr>) st1)"
  "st1 = st\<lparr>st_os := (st_os st)\<lparr>os_time := t\<rparr>\<rparr> \<Longrightarrow> pg_only st (upd_env (\<lambda>e. e\<lparr>me_pghead := h\<rparr>) st1)"
  unfolding pg_only_def upd_env_def
   apply (rule exI [of _ "me_pgoldest (st_env st)"], rule exI [of _ l], rule exI [of _ h], rule exI [of _ t], simp)
  apply (rule exI [of _ "me_pgoldest (st_env st)"], rule exI [of _ "me_pglast (st_env st)"], rule exI [of _ h], rule exI [of _ t], simp)
  done

lemma merge_record_ok:
  assumes h: "head_ok st" and r: "ids_ok idl" "idl_desc idl" and size: "length (head_ids st) + length (idl_elems idl) < 2 ^ 30"
  shows "\<exists>rc st'. merge_record st lastid idl = Some (rc, st') \<and> pg_only st st' \<and> head_ok st' \<and>
    (rc = ENOMEM \<and> head_ids st' = head_ids st \<and> me_pglast (st_env st') = me_pglast (st_env st) \<or>
     rc = 0 \<and> mset (head_ids st') = mset (head_ids st) + mset (idl_elems idl) \<and> me_pglast (st_env st') = lastid)"
proof -
  obtain mem st1 where m: "ask_mem st = (mem, st1)" by (cases "ask_mem st")
  obtain t where st1: "st1 = st\<lparr>st_os := (st_os st)\<lparr>os_time := t\<rparr>\<rparr>"
    using m by (auto simp: ask_mem_def ask_malloc_def tick_def Let_def)
  then have e1: "st_env st1 = st_env st" by simp
  have n: "idl \<noteq> []" "unat (idl ! 0) < length idl" using r(1) by (auto simp: ids_ok_def)
  have small: "unat (idl ! 0) < 2 ^ 30" using size r(1) by simp
  define i where "i = (ucast (idl ! 0) :: u32)"
  have u: "unat i = unat (idl ! 0)" unfolding i_def using small by (intro unat_ucast_u64_u32) simp
  have get: "aget idl 0 = Some (idl ! 0)" using n by (simp add: aget_def)
  note pg = pg_only_intro [OF st1]
  define step where "step = (case me_pghead (st_env st) of
      None \<Rightarrow> Some (case mdb_midl_alloc mem (unat i) of None \<Rightarrow> (ENOMEM, None) | Some il \<Rightarrow> (0, Some il))
    | Some il \<Rightarrow> do { (rc, il) \<leftarrow> mdb_midl_need mem il i; Some (rc, Some il) })"
  have run: "merge_record st lastid idl = do {
      (rc, mop) \<leftarrow> step;
      let st' = upd_env (\<lambda>e. e\<lparr>me_pghead := mop\<rparr>) st1;
      if rc \<noteq> 0 then Some (rc, st')
      else do {
        il \<leftarrow> mop;
        ids \<leftarrow> mdb_midl_xmerge (il_ids il) idl;
        Some (0, upd_env (\<lambda>e. e\<lparr>me_pglast := lastid, me_pghead := Some (il\<lparr>il_ids := ids\<rparr>)\<rparr>) st') } }"
    unfolding step_def i_def using get m e1 by (simp add: merge_record_def Let_def)
  consider (no) "step = Some (ENOMEM, me_pghead (st_env st))"
    | (yes) il where "step = Some (0, Some il)" "idl_ok il" "idl_desc (il_ids il)"
        "idl_elems (il_ids il) = head_ids st" "length (head_ids st) + unat (idl ! 0) \<le> unat (il_alloc il)"
  proof (cases "me_pghead (st_env st)")
    case None
    note a = midl_alloc_ok [OF small]
    have hd: "head_ids st = []" using None by (simp add: head_ids_def mop_of_def idl_elems_def)
    show ?thesis
    proof (cases mem)
      case None
      then show ?thesis using \<open>me_pghead (st_env st) = None\<close> a(1) u that(1) by (simp add: step_def)
    next
      case (Some g)
      obtain il where "mdb_midl_alloc (Some g) (unat (idl ! 0)) = Some il" "idl_ok il" "idl_elems (il_ids il) = []"
        "unat (il_alloc il) = unat (idl ! 0)" using a(2) by blast
      then show ?thesis using \<open>me_pghead (st_env st) = None\<close> Some u hd by (intro that(2) [of il]) (simp_all add: step_def idl_desc_def)
    qed
  next
    case (Some il)
    have ok: "idl_ok il" "idl_desc (il_ids il)" and hd: "head_ids st = idl_elems (il_ids il)"
      using h Some by (simp_all add: head_ok_def head_ids_def mop_of_def)
    have c: "length (head_ids st) = unat (il_ids il ! 0)" using ok(1) hd by (simp add: idl_ok_def)
    have "unat (il_ids il ! 0) + unat i < 2 ^ 30" using size c u r(1) by simp
    from midl_need_correct [OF ok(1) this, of mem] obtain rc il' where N: "mdb_midl_need mem il i = Some (rc, il')"
      "rc = ENOMEM \<and> il' = il \<or> rc = 0 \<and> idl_ok il' \<and> unat (il_ids il ! 0) + unat i \<le> unat (il_alloc il') \<and>
       idl_elems (il_ids il') = idl_elems (il_ids il)" by (auto split: if_splits)
    then show ?thesis
    proof (elim disjE)
      assume "rc = ENOMEM \<and> il' = il"
      then show ?thesis using N(1) Some by (intro that(1)) (simp add: step_def)
    next
      assume "rc = 0 \<and> idl_ok il' \<and> unat (il_ids il ! 0) + unat i \<le> unat (il_alloc il') \<and>
       idl_elems (il_ids il') = idl_elems (il_ids il)"
      then show ?thesis using N(1) Some ok(2) hd c u by (intro that(2) [of il']) (simp_all add: step_def idl_desc_def)
    qed
  qed
  then show ?thesis
  proof cases
    case no
    let ?st' = "upd_env (\<lambda>e. e\<lparr>me_pghead := me_pghead (st_env st)\<rparr>) st1"
    have "merge_record st lastid idl = Some (ENOMEM, ?st')" using run no ENOMEM_nonzero by simp
    moreover have "head_ok ?st'" "head_ids ?st' = head_ids st" "me_pglast (st_env ?st') = me_pglast (st_env st)"
      using h e1 by (simp_all add: head_ok_def head_ids_def mop_of_def upd_env_def)
    ultimately show ?thesis using pg(2) by blast
  next
    case yes
    have room: "unat (il_ids il ! 0) + unat (idl ! 0) < length (il_ids il)"
      using yes(2,4,5) by (simp add: idl_ok_def) (metis length_idl_elems less_Suc_eq_le)
    obtain ys where X: "mdb_midl_xmerge (il_ids il) idl = Some ys" "length ys = length (il_ids il)" "ids_ok ys" "idl_desc ys"
      "mset (idl_elems ys) = mset (idl_elems (il_ids il)) + mset (idl_elems idl)"
      using midl_xmerge_correct [OF _ yes(3) r room] yes(2) by (auto simp: idl_ok_def)
    let ?st' = "upd_env (\<lambda>e. e\<lparr>me_pglast := lastid, me_pghead := Some (il\<lparr>il_ids := ys\<rparr>)\<rparr>) st1"
    have "merge_record st lastid idl = Some (0, ?st')"
      using run yes(1) X(1) by (simp add: upd_env_def)
    moreover have "head_ok ?st'" "mset (head_ids ?st') = mset (head_ids st) + mset (idl_elems idl)" "me_pglast (st_env ?st') = lastid"
      using X yes(2,4) by (simp_all add: head_ok_def head_ids_def mop_of_def upd_env_def idl_ok_def)
    ultimately show ?thesis using pg(1) by blast
  qed
qed

section \<open>The next record\<close>

text \<open>
  \<open>oldest\<close> in the loop is a bound that was right at some time, \<open>o'\<close> the oldest snapshot in the table now, which can
  only be newer; a record is taken only when it is older than \<open>oldest\<close>.
\<close>

lemma too_recent_ok:
  assumes o: "mdb_find_oldest (st_env st) (st_txn st) = Some o'" and b: "oldest \<le> bd" "found \<longrightarrow> oldest = o'" "o' \<le> bd"
  shows "\<exists>stop st' oldest' found'. too_recent st oldest found lastid = Some (stop, st', oldest', found') \<and> pg_only st st' \<and>
    head_ok st' = head_ok st \<and> head_ids st' = head_ids st \<and> me_pglast (st_env st') = me_pglast (st_env st) \<and>
    oldest' \<le> bd \<and> (found' \<longrightarrow> oldest' = o') \<and> (if stop then o' \<le> lastid else lastid < bd)"
proof (cases "oldest \<le> lastid \<and> \<not> found")
  case True
  let ?st = "upd_env (\<lambda>e. e\<lparr>me_pgoldest := o'\<rparr>) st"
  have "pg_only st ?st"
    unfolding pg_only_def upd_env_def
    by (rule exI [of _ o'], rule exI [of _ "me_pglast (st_env st)"], rule exI [of _ "me_pghead (st_env st)"],
      rule exI [of _ "os_time (st_os st)"]) simp
  moreover have "head_ok ?st = head_ok st" "head_ids ?st = head_ids st" "me_pglast (st_env ?st) = me_pglast (st_env st)"
    by (simp_all add: upd_env_def head_ok_def head_ids_def mop_of_def)
  moreover have "too_recent st oldest found lastid = Some (o' \<le> lastid, ?st, o', True)"
    using True o by (simp add: too_recent_def)
  ultimately show ?thesis using b(3) by (auto simp: not_le)
next
  case False
  have "too_recent st oldest found lastid = Some (oldest \<le> lastid, st, oldest, found)"
    using False by (simp add: too_recent_def)
  moreover have "if oldest \<le> lastid then o' \<le> lastid else lastid < bd" using False b by (auto simp: not_le)
  ultimately show ?thesis using b pg_only_refl [of st] by simp
qed

abbreviation free_sits where
  "free_sits st psize d root mc pre x post \<equiv> sits st psize Cmp_long (\<lambda>a. length a = 8) le_dec d root mc pre x post"

text \<open>\<open>mdb_cursor_get\<close> on \<open>m2\<close> leads to the first of the records \<open>ys\<close>.\<close>

definition leads_to :: "'a st_scheme \<Rightarrow> nat \<Rightarrow> nat \<Rightarrow> u64 \<Rightarrow> mcursor \<Rightarrow> cursor_op \<Rightarrow> bytes \<Rightarrow> (bytes \<times> bytes) list \<Rightarrow> bool" where
  "leads_to st psize d root m2 op k ys \<longleftrightarrow>
     (case ys of
        [] \<Rightarrow> \<exists>m'. mdb_cursor_get st (Some m2) (Some k) None op = Some (MDB_NOTFOUND, st, Some m', Some k, None)
      | x # zs \<Rightarrow> \<exists>mc' pre. mdb_cursor_get st (Some m2) (Some k) None op = Some (0, st, Some (mc', None), Some (fst x), None) \<and>
          free_sits st psize d root mc' pre x zs)"

lemma fetch_record_ok:
  assumes o: "mdb_find_oldest (st_env st) (st_txn st) = Some o'" and b: "oldest \<le> bd" "found \<longrightarrow> oldest = o'" "o' \<le> bd"
    and go: "\<forall>st1. pg_only st st1 \<longrightarrow> leads_to st1 psize d root m2 op (le_enc 8 (unat (lastid + 1))) ys"
    and h: "head_ok st" and r: "\<forall>x \<in> set ys. rec_ok x" and size: "\<forall>x \<in> set ys. length (head_ids st) + length (rec_ids x) < 2 ^ 30"
  shows "\<exists>r st' m2' last' oldest' found'. fetch_record st m2 op lastid oldest found = Some (r, st', m2', last', oldest', found') \<and>
    pg_only st st' \<and> head_ok st' \<and> oldest' \<le> bd \<and> (found' \<longrightarrow> oldest' = o') \<and>
    ((r = Some New_pages \<and> (ys = [] \<or> o' \<le> rec_id (hd ys) \<or> o' \<le> lastid + 1) \<or> r = Some (Fail ENOMEM)) \<and>
       head_ids st' = head_ids st \<and> me_pglast (st_env st') = me_pglast (st_env st) \<or>
     (\<exists>x zs mc' pre. r = None \<and> ys = x # zs \<and> rec_id x < bd \<and> mset (head_ids st') = mset (head_ids st) + mset (rec_ids x) \<and>
       me_pglast (st_env st') = rec_id x \<and> last' = rec_id x \<and> m2' = (mc', None) \<and> free_sits st' psize d root mc' pre x zs))"
proof -
  obtain stop st1 old1 f1 where T: "too_recent st oldest found (lastid + 1) = Some (stop, st1, old1, f1)" "pg_only st st1"
    "head_ok st1 = head_ok st" "head_ids st1 = head_ids st" "me_pglast (st_env st1) = me_pglast (st_env st)"
    "old1 \<le> bd" "f1 \<longrightarrow> old1 = o'" "if stop then o' \<le> lastid + 1 else lastid + 1 < bd"
    using too_recent_ok [OF o b] by blast
  show ?thesis
  proof (cases stop)
    case True
    then show ?thesis using T h by (simp add: fetch_record_def)
  next
    case False
    note lead = go [rule_format, OF T(2), unfolded leads_to_def]
    show ?thesis
    proof (cases ys)
      case Nil
      then show ?thesis using T False lead h by (auto simp: fetch_record_def MDB_NOTFOUND_def)
    next
      case (Cons x zs)
      have x: "length (fst x) = 8" "ids_ok (ids_of (snd x))" "idl_desc (ids_of (snd x))" using r Cons by (simp_all add: rec_ok_def)
      obtain mc' pre where G: "mdb_cursor_get st1 (Some m2) (Some (le_enc 8 (unat (lastid + 1)))) None op =
          Some (0, st1, Some (mc', None), Some (fst x), None)" "free_sits st1 psize d root mc' pre x zs"
        using lead Cons by auto
      have key: "load (fst x) 0 8 = Some (le_dec (fst x))" using x(1) by (simp add: load_def rd_def slice_all)
      have o1: "mdb_find_oldest (st_env st1) (st_txn st1) = Some o'" using o pg_only_oldest [OF T(2)] by simp
      obtain stop2 st2 old2 f2 where U: "too_recent st1 old1 f1 (rec_id x) = Some (stop2, st2, old2, f2)" "pg_only st1 st2"
        "head_ok st2 = head_ok st1" "head_ids st2 = head_ids st1" "me_pglast (st_env st2) = me_pglast (st_env st1)"
        "old2 \<le> bd" "f2 \<longrightarrow> old2 = o'" "if stop2 then o' \<le> rec_id x else rec_id x < bd"
        using too_recent_ok [OF o1 T(6,7) b(3), of "rec_id x"] by blast
      note p2 = pg_only_trans [OF T(2) U(2)]
      show ?thesis
      proof (cases stop2)
        case True
        have "fetch_record st m2 op lastid oldest found = Some (Some New_pages, st2, (mc', None), rec_id x, old2, f2)"
          using T(1) False G(1) key U(1) True by (simp add: fetch_record_def rec_id_def)
        then show ?thesis using p2 T U h Cons True by auto
      next
        case no: False
        have s2: "free_sits st2 psize d root mc' pre x zs" using G(2) same_view_sits [OF pg_only_view [OF U(2)]] by blast
        obtain p k where P: "top_page st2 mc' = Some p" "ki_at mc' = Some k" "NODEPTR p k = Some (pt p k)"
          "mdb_node_read st2 mc' p (pt p k) = Some (0, st2, Some (snd x))" using sits_read [OF s2] by blast
        have h2: "head_ok st2" using h T(3) U(3) by simp
        have sz: "length (head_ids st2) + length (idl_elems (ids_of (snd x))) < 2 ^ 30"
          using size Cons T(4) U(4) by (simp add: rec_ids_def)
        obtain rc st3 where M: "merge_record st2 (rec_id x) (ids_of (snd x)) = Some (rc, st3)" "pg_only st2 st3" "head_ok st3"
          "rc = ENOMEM \<and> head_ids st3 = head_ids st2 \<and> me_pglast (st_env st3) = me_pglast (st_env st2) \<or>
           rc = 0 \<and> mset (head_ids st3) = mset (head_ids st2) + mset (idl_elems (ids_of (snd x))) \<and> me_pglast (st_env st3) = rec_id x"
          using merge_record_ok [OF h2 x(2,3) sz] by blast
        have run: "fetch_record st m2 op lastid oldest found =
            Some (if rc \<noteq> 0 then Some (Fail rc) else None, st3, (mc', None), rec_id x, old2, f2)"
          using T(1) False G(1) key U(1) no P M(1) by (simp add: fetch_record_def rec_id_def)
        have s3: "free_sits st3 psize d root mc' pre x zs" using s2 same_view_sits [OF pg_only_view [OF M(2)]] by blast
        note p3 = pg_only_trans [OF p2 M(2)]
        from M(4) show ?thesis
        proof (elim disjE)
          assume "rc = ENOMEM \<and> head_ids st3 = head_ids st2 \<and> me_pglast (st_env st3) = me_pglast (st_env st2)"
          then show ?thesis using run p3 M(3) T(4,5) U(4-7) ENOMEM_nonzero by simp
        next
          assume "rc = 0 \<and> mset (head_ids st3) = mset (head_ids st2) + mset (idl_elems (ids_of (snd x))) \<and> me_pglast (st_env st3) = rec_id x"
          then show ?thesis using run p3 M(3) T(4) U(4-8) no Cons s3 by (simp add: rec_ids_def) blast
        qed
      qed
    qed
  qed
qed

section \<open>Looking for a run of pages\<close>

lemma mop_ok: "head_ok st \<Longrightarrow> ids_ok (mop_of st) \<and> idl_desc (mop_of st) \<and> length (head_ids st) = unat (mop_of st ! 0)"
  by (cases "me_pghead (st_env st)") (simp_all add: head_ok_def mop_of_def ids_ok_def idl_desc_def idl_elems_def idl_ok_def head_ids_def)

text \<open>The ids at positions \<open>i - n2, \<dots>, i\<close> of the list, the last of them \<open>pgno\<close>, look like a run.\<close>

definition run_at :: "u64 list \<Rightarrow> nat \<Rightarrow> nat \<Rightarrow> u64 \<Rightarrow> bool" where
  "run_at mop n2 i pgno \<longleftrightarrow> n2 < i \<and> i \<le> unat (mop ! 0) \<and> pgno = mop ! i \<and> mop ! (i - n2) = pgno + of_nat n2"

lemma seek_run_ok:
  assumes ok: "ids_ok mop"
  shows "i \<le> unat (mop ! 0) \<Longrightarrow> \<exists>r. seek_run mop n2 i = Some r \<and>
    (case r of Some (j, pgno) \<Rightarrow> run_at mop n2 j pgno | None \<Rightarrow> n2 = 0 \<longrightarrow> i = 0)"
proof (induction i)
  case (Suc i)
  have len: "Suc i < length mop" using Suc.prems ok by (simp add: ids_ok_def)
  then have g: "aget mop (Suc i) = Some (mop ! Suc i)" "aget mop (Suc i - n2) = Some (mop ! (Suc i - n2))" by (simp_all add: aget_def)
  show ?case
  proof (cases "Suc i > n2 \<and> mop ! (Suc i - n2) = mop ! Suc i + of_nat n2")
    case True
    then have "seek_run mop n2 (Suc i) = Some (Some (Suc i, mop ! Suc i))" using g by simp
    then show ?thesis using True Suc.prems by (simp add: run_at_def)
  next
    case False
    obtain r where r: "seek_run mop n2 i = Some r"
      "case r of Some (j, pgno) \<Rightarrow> run_at mop n2 j pgno | None \<Rightarrow> n2 = 0 \<longrightarrow> i = 0" using Suc.IH Suc.prems by auto
    show ?thesis
    proof (cases "Suc i > n2")
      case True
      then have "seek_run mop n2 (Suc i) = Some r" using g r(1) False by simp
      moreover have "n2 \<noteq> 0" using False True by (cases n2) auto
      ultimately show ?thesis using r(2) by (auto split: option.splits)
    qed auto
  qed
qed auto

definition seek_ok :: "'a st_scheme \<Rightarrow> nat \<Rightarrow> seek \<Rightarrow> bool" where
  "seek_ok st num s \<longleftrightarrow> (case s of Run i pgno \<Rightarrow> run_at (mop_of st) (num - 1) i pgno | New_pages \<Rightarrow> True | Fail rc \<Rightarrow> rc = ENOMEM)"

lemma seek_round_ok:
  assumes h: "head_ok st" and size: "length (head_ids st) < 2 ^ 30" and num: "1 \<le> num"
  shows "\<exists>r retry'. seek_round st num retry = Some (r, retry') \<and>
    (case r of
       None \<Rightarrow> num = 1 \<longrightarrow> head_ids st = []
     | Some s \<Rightarrow> seek_ok st num s \<and> (s = New_pages \<longrightarrow> num \<noteq> 1))"
proof -
  note m = mop_ok [OF h]
  have get: "aget (mop_of st) 0 = Some (mop_of st ! 0)" using m by (cases "mop_of st") (simp_all add: aget_def ids_ok_def)
  have small: "unat (mop_of st ! 0) mod 2 ^ 32 = unat (mop_of st ! 0)" using m size by simp
  show ?thesis
  proof (cases "unat (mop_of st ! 0) > num - 1")
    case True
    obtain r where r: "seek_run (mop_of st) (num - 1) (unat (mop_of st ! 0)) = Some r"
      "case r of Some (j, pgno) \<Rightarrow> run_at (mop_of st) (num - 1) j pgno | None \<Rightarrow> num - 1 = 0 \<longrightarrow> unat (mop_of st ! 0) = 0"
      using seek_run_ok [of "mop_of st" "unat (mop_of st ! 0)" "num - 1"] m by blast
    then show ?thesis using True get small num
      by (cases r) (auto simp: seek_round_def seek_ok_def Let_def)
  next
    case False
    then show ?thesis using get small m by (auto simp: seek_round_def Let_def)
  qed
qed

lemma concat_part: "y \<in> set zs \<Longrightarrow> length (f y) \<le> length (concat (map f zs))"
  by (induction zs) auto

lemma fetch_loop_ok:
  assumes num: "1 \<le> num" and ob: "o' \<le> bd"
  shows "mdb_find_oldest (st_env st) (st_txn st) = Some o' \<Longrightarrow> oldest \<le> bd \<Longrightarrow> (found \<longrightarrow> oldest = o') \<Longrightarrow>
    free_sits st psize d root mc pre x zs \<Longrightarrow> lastid = rec_id x \<Longrightarrow> head_ok st \<Longrightarrow> \<forall>y \<in> set zs. rec_ok y \<Longrightarrow>
    sorted_wrt (<) (map rec_id (x # zs)) \<Longrightarrow> length (head_ids st) + length (concat (map rec_ids zs)) < 2 ^ 30 \<Longrightarrow>
    \<exists>s st' cs rest. fetch_loop st (mc, None) num retry lastid oldest found = Some (s, st') \<and> pg_only st st' \<and> head_ok st' \<and>
      seek_ok st' num s \<and> zs = cs @ rest \<and> (\<forall>y \<in> set cs. rec_id y < bd) \<and>
      mset (head_ids st') = mset (head_ids st) + mset (concat (map rec_ids cs)) \<and>
      me_pglast (st_env st') = (if cs = [] then me_pglast (st_env st) else rec_id (last cs)) \<and>
      (s = New_pages \<and> num = 1 \<longrightarrow> head_ids st' = [] \<and> (\<forall>y \<in> set rest. o' \<le> rec_id y))"
proof (induction "length zs" arbitrary: zs st mc pre x retry lastid oldest found rule: less_induct)
  case less
  note P = less.prems
  have size: "length (head_ids st) < 2 ^ 30" using P(9) by simp
  obtain r retry' where R: "seek_round st num retry = Some (r, retry')"
    "case r of None \<Rightarrow> num = 1 \<longrightarrow> head_ids st = [] | Some s \<Rightarrow> seek_ok st num s \<and> (s = New_pages \<longrightarrow> num \<noteq> 1)"
    using seek_round_ok [OF P(6) size num] by blast
  show ?case
  proof (cases r)
    case (Some s)
    then have "fetch_loop st (mc, None) num retry lastid oldest found = Some (s, st)"
      using R(1) by (subst fetch_loop.simps) simp
    then show ?thesis using R(2) Some P(6) pg_only_refl [of st]
      by - (rule exI [of _ s], rule exI [of _ st], rule exI [of _ "[]"], rule exI [of _ zs], intro conjI impI, simp_all)
  next
    case None
    have lead: "\<forall>st1. pg_only st st1 \<longrightarrow> leads_to st1 psize d root (mc, None) MDB_NEXT (le_enc 8 (unat (lastid + 1))) zs"
    proof (intro allI impI)
      fix st1 assume that: "pg_only st st1"
      have "free_sits st1 psize d root mc pre x zs" using P(4) same_view_sits [OF pg_only_view [OF that]] by blast
      from get_next [OF this, of "le_enc 8 (unat (lastid + 1))" None]
      show "leads_to st1 psize d root (mc, None) MDB_NEXT (le_enc 8 (unat (lastid + 1))) zs"
        by (cases zs) (auto simp: leads_to_def)
    qed
    have sz: "\<forall>y \<in> set zs. length (head_ids st) + length (rec_ids y) < 2 ^ 30"
      using P(9) by (auto dest!: concat_part [of _ zs rec_ids])
    obtain r2 st2 m2 last2 old2 f2 where F: "fetch_record st (mc, None) MDB_NEXT lastid oldest found = Some (r2, st2, m2, last2, old2, f2)"
      "pg_only st st2" "head_ok st2" "old2 \<le> bd" "f2 \<longrightarrow> old2 = o'"
      "(r2 = Some New_pages \<and> (zs = [] \<or> o' \<le> rec_id (hd zs) \<or> o' \<le> lastid + 1) \<or> r2 = Some (Fail ENOMEM)) \<and>
         head_ids st2 = head_ids st \<and> me_pglast (st_env st2) = me_pglast (st_env st) \<or>
       (\<exists>y ys mc' pre. r2 = None \<and> zs = y # ys \<and> rec_id y < bd \<and> mset (head_ids st2) = mset (head_ids st) + mset (rec_ids y) \<and>
         me_pglast (st_env st2) = rec_id y \<and> last2 = rec_id y \<and> m2 = (mc', None) \<and> free_sits st2 psize d root mc' pre y ys)"
      using fetch_record_ok [OF P(1,2,3) ob lead P(6,7) sz] by (elim exE conjE) (rule that)
    have run: "fetch_loop st (mc, None) num retry lastid oldest found =
        (case r2 of Some s \<Rightarrow> Some (s, st2) | None \<Rightarrow> fetch_loop st2 m2 num retry' last2 old2 f2)"
      using R(1) None F(1) by (subst fetch_loop.simps) simp
    from F(6) show ?thesis
    proof (elim disjE)
      assume a: "(r2 = Some New_pages \<and> (zs = [] \<or> o' \<le> rec_id (hd zs) \<or> o' \<le> lastid + 1) \<or> r2 = Some (Fail ENOMEM)) \<and>
         head_ids st2 = head_ids st \<and> me_pglast (st_env st2) = me_pglast (st_env st)"
      then obtain s where s: "r2 = Some s" "seek_ok st2 num s" by (auto simp: seek_ok_def)
      have above: "o' \<le> rec_id y" if "s = New_pages" "y \<in> set zs" for y
      proof -
        have c: "o' \<le> rec_id (hd zs) \<or> o' \<le> lastid + 1" using a s(1) that by auto
        have l: "lastid < rec_id y" using P(5,8) that(2) by auto
        then have "lastid + 1 \<le> rec_id y" by (rule inc_le)
        moreover have "rec_id (hd zs) \<le> rec_id y" using P(8) that(2) by (cases zs) (auto simp: less_imp_le)
        ultimately show ?thesis using c by (meson order_trans)
      qed
      show ?thesis
        by (rule exI [of _ s], rule exI [of _ st2], rule exI [of _ "[]"], rule exI [of _ zs])
          (use run s a F(2,3) above R(2) None in simp)
    next
      assume "\<exists>y ys mc' pre. r2 = None \<and> zs = y # ys \<and> rec_id y < bd \<and> mset (head_ids st2) = mset (head_ids st) + mset (rec_ids y) \<and>
         me_pglast (st_env st2) = rec_id y \<and> last2 = rec_id y \<and> m2 = (mc', None) \<and> free_sits st2 psize d root mc' pre y ys"
      then obtain y ys mc' pre2 where Y: "r2 = None" "zs = y # ys" "rec_id y < bd"
        "mset (head_ids st2) = mset (head_ids st) + mset (rec_ids y)" "me_pglast (st_env st2) = rec_id y" "last2 = rec_id y"
        "m2 = (mc', None)" "free_sits st2 psize d root mc' pre2 y ys" by blast
      have l2: "length (head_ids st2) = length (head_ids st) + length (rec_ids y)"
        using arg_cong [OF Y(4), of size] by simp
      have o2: "mdb_find_oldest (st_env st2) (st_txn st2) = Some o'" using P(1) pg_only_oldest [OF F(2)] by simp
      have pr: "length ys < length zs" "\<forall>x \<in> set ys. rec_ok x" "sorted_wrt (<) (map rec_id (y # ys))"
        "length (head_ids st2) + length (concat (map rec_ids ys)) < 2 ^ 30"
        using Y(2) P(7,8,9) l2 by simp_all
      obtain s st3 cs rest where L: "fetch_loop st2 (mc', None) num retry' last2 old2 f2 = Some (s, st3)" "pg_only st2 st3" "head_ok st3"
        "seek_ok st3 num s" "ys = cs @ rest" "\<forall>y \<in> set cs. rec_id y < bd"
        "mset (head_ids st3) = mset (head_ids st2) + mset (concat (map rec_ids cs))"
        "me_pglast (st_env st3) = (if cs = [] then me_pglast (st_env st2) else rec_id (last cs))"
        "s = New_pages \<and> num = 1 \<longrightarrow> head_ids st3 = [] \<and> (\<forall>y \<in> set rest. o' \<le> rec_id y)"
        using less.hyps [OF pr(1) o2 F(4,5) Y(8,6) F(3) pr(2-4)] by blast
      show ?thesis
        by (rule exI [of _ s], rule exI [of _ st3], rule exI [of _ "y # cs"], rule exI [of _ rest])
          (use run Y L pg_only_trans [OF F(2) L(2)] in simp)
    qed
  qed
qed

section \<open>The whole search\<close>

text \<open>The records not taken yet; \<open>me_pglast\<close> is 0 before the first one is.\<close>

definition unread :: "'a st_scheme \<Rightarrow> (bytes \<times> bytes) list \<Rightarrow> (bytes \<times> bytes) list" where
  "unread st xs = (if me_pglast (st_env st) = 0 then xs else filter (\<lambda>x. me_pglast (st_env st) < rec_id x) xs)"

abbreviation free_items where
  "free_items st psize d root xs \<equiv> db_ready st (new_cursor st FREE_DBI) Cmp_long root \<and>
     db_items st FREE_DBI psize Cmp_long (\<lambda>a. length a = 8) le_dec d root xs"

lemma unat_rec_id: "length (fst x) = 8 \<Longrightarrow> unat (rec_id x) = le_dec (fst x)"
  using le_dec_less [of "fst x"] by (simp add: rec_id_def unsigned_of_nat take_bit_nat_eq_self)

lemma free_items_sorted:
  assumes "free_items st psize d root xs" "\<forall>x \<in> set xs. rec_ok x"
  shows "sorted_wrt (<) (map rec_id xs)"
proof -
  have "ascending le_dec xs"
    using assms(1) root_ok_ascending by (fastforce simp: db_items_def ascending_def)
  then have "sorted_wrt (\<lambda>x y. le_dec (fst x) < le_dec (fst y)) xs" by (simp add: ascending_def)
  then have "sorted_wrt (\<lambda>x y. rec_id x < rec_id y) xs"
    by (rule sorted_wrt_mono_rel [rotated]) (use assms(2) unat_rec_id in \<open>auto simp: rec_ok_def word_less_nat_alt\<close>)
  then show ?thesis by (simp add: sorted_wrt_map)
qed

lemma leads_start:
  assumes db: "free_items st psize d root xs" and ok: "\<forall>x \<in> set xs. rec_ok x" and l: "me_pglast (st_env st) \<noteq> - 1"
    and s: "same_view st st1"
  shows "leads_to st1 psize d root (new_cursor st FREE_DBI, None)
    (if me_pglast (st_env st) \<noteq> 0 then MDB_SET_RANGE else MDB_FIRST) (le_enc 8 (unat (me_pglast (st_env st) + 1))) (unread st xs)"
proof -
  let ?l = "me_pglast (st_env st)" and ?k = "le_enc 8 (unat (me_pglast (st_env st) + 1))"
  have D: "db_ready st1 (new_cursor st1 FREE_DBI) Cmp_long root"
    "db_items st1 FREE_DBI psize Cmp_long (\<lambda>a. length a = 8) le_dec d root xs"
    using db same_view_ready [OF s] same_view_cursor [OF s] same_view_items [OF s] by metis+
  have c: "new_cursor st1 FREE_DBI = new_cursor st FREE_DBI" by (rule same_view_cursor [OF s])
  show ?thesis
  proof (cases "?l = 0")
    case True
    from get_first [OF D, of ?k None] show ?thesis using True unfolding c
      by (cases xs) (auto simp: leads_to_def unread_def)
  next
    case False
    have k: "length ?k = 8" "?k \<noteq> []" by (simp_all add: length_0_conv [symmetric] del: length_0_conv)
    have u: "unat (?l + 1) = unat ?l + 1"
    proof -
      have "1 + ?l \<noteq> 0" using l by (metis add.commute add_eq_0_iff)
      then show ?thesis using unatSuc [of ?l] by (simp add: add.commute)
    qed
    have "unat (?l + 1) < 2 ^ LENGTH(64)" by (rule unsigned_less)
    then have kd: "le_dec ?k = unat ?l + 1" by (simp add: u)
    have "(le_dec ?k \<le> le_dec (fst x)) = (?l < rec_id x)" if "x \<in> set xs" for x
      using unat_rec_id [of x] ok that kd by (auto simp: rec_ok_def word_less_nat_alt)
    then have f: "from_key le_dec (le_dec ?k) xs = unread st xs"
      using False by (auto simp: from_key_def unread_def intro: filter_cong)
    from get_range [OF D k, of None] show ?thesis using False unfolding c f
      by (cases "unread st xs") (auto simp: leads_to_def)
  qed
qed

lemma seek_pages_ok:
  assumes num: "1 \<le> num" and o: "mdb_find_oldest (st_env st) (st_txn st) = Some o'" "me_pgoldest (st_env st) \<le> bd" "o' \<le> bd"
    and db: "free_items st psize d root xs" and ok: "\<forall>x \<in> set xs. rec_ok x" and l: "me_pglast (st_env st) \<noteq> - 1"
    and h: "head_ok st" and size: "length (head_ids st) + length (concat (map rec_ids (unread st xs))) < 2 ^ 30"
  shows "\<exists>s st' cs rest. seek_pages st num = Some (s, st') \<and> pg_only st st' \<and> head_ok st' \<and>
      seek_ok st' num s \<and> unread st xs = cs @ rest \<and> (\<forall>y \<in> set cs. rec_id y < bd) \<and>
      mset (head_ids st') = mset (head_ids st) + mset (concat (map rec_ids cs)) \<and>
      me_pglast (st_env st') = (if cs = [] then me_pglast (st_env st) else rec_id (last cs)) \<and>
      (s = New_pages \<and> num = 1 \<longrightarrow> head_ids st' = [] \<and> (\<forall>y \<in> set rest. o' \<le> rec_id y))"
proof -
  let ?zs = "unread st xs" and ?l = "me_pglast (st_env st)"
  let ?op = "if ?l \<noteq> 0 then MDB_SET_RANGE else MDB_FIRST" and ?m = "new_cursor st FREE_DBI"
  have zs: "set ?zs \<subseteq> set xs" by (auto simp: unread_def)
  then have okz: "\<forall>x \<in> set ?zs. rec_ok x" using ok by blast
  have sorted: "sorted_wrt (<) (map rec_id ?zs)"
    using free_items_sorted [OF db ok] by (auto simp: unread_def sorted_wrt_map intro: sorted_wrt_filter)
  have small: "length (head_ids st) < 2 ^ 30" using size by simp
  obtain r retry' where R: "seek_round st num (int num * 60) = Some (r, retry')"
    "case r of None \<Rightarrow> num = 1 \<longrightarrow> head_ids st = [] | Some s \<Rightarrow> seek_ok st num s \<and> (s = New_pages \<longrightarrow> num \<noteq> 1)"
    using seek_round_ok [OF h small num] by blast
  show ?thesis
  proof (cases r)
    case (Some s)
    then have "seek_pages st num = Some (s, st)" using R(1) by (simp add: seek_pages_def)
    then show ?thesis using R(2) Some h pg_only_refl [of st]
      by - (rule exI [of _ s], rule exI [of _ st], rule exI [of _ "[]"], rule exI [of _ ?zs], intro conjI impI, simp_all)
  next
    case None
    have lead: "\<forall>st1. pg_only st st1 \<longrightarrow> leads_to st1 psize d root (?m, None) ?op (le_enc 8 (unat (?l + 1))) ?zs"
      using leads_start [OF db ok l] pg_only_view by blast
    have sz: "\<forall>y \<in> set ?zs. length (head_ids st) + length (rec_ids y) < 2 ^ 30"
      using size by (auto dest!: concat_part [of _ ?zs rec_ids])
    have f: "False \<longrightarrow> me_pgoldest (st_env st) = o'" by simp
    obtain r2 st2 m2 last2 old2 f2 where F: "fetch_record st (?m, None) ?op ?l (me_pgoldest (st_env st)) False = Some (r2, st2, m2, last2, old2, f2)"
      "pg_only st st2" "head_ok st2" "old2 \<le> bd" "f2 \<longrightarrow> old2 = o'"
      "(r2 = Some New_pages \<and> (?zs = [] \<or> o' \<le> rec_id (hd ?zs) \<or> o' \<le> ?l + 1) \<or> r2 = Some (Fail ENOMEM)) \<and>
         head_ids st2 = head_ids st \<and> me_pglast (st_env st2) = ?l \<or>
       (\<exists>y ys mc' pre. r2 = None \<and> ?zs = y # ys \<and> rec_id y < bd \<and> mset (head_ids st2) = mset (head_ids st) + mset (rec_ids y) \<and>
         me_pglast (st_env st2) = rec_id y \<and> last2 = rec_id y \<and> m2 = (mc', None) \<and> free_sits st2 psize d root mc' pre y ys)"
      using fetch_record_ok [OF o(1,2) f o(3) lead h okz sz] by blast
    have run: "seek_pages st num =
        (case r2 of Some s \<Rightarrow> Some (s, st2) | None \<Rightarrow> fetch_loop st2 m2 num retry' last2 old2 f2)"
      using R(1) None F(1) cursor_init_new [of st FREE_DBI Cmp_long root None] db by (simp add: seek_pages_def)
    from F(6) show ?thesis
    proof (elim disjE)
      assume a: "(r2 = Some New_pages \<and> (?zs = [] \<or> o' \<le> rec_id (hd ?zs) \<or> o' \<le> ?l + 1) \<or> r2 = Some (Fail ENOMEM)) \<and>
         head_ids st2 = head_ids st \<and> me_pglast (st_env st2) = ?l"
      then obtain s where s: "r2 = Some s" "seek_ok st2 num s" by (auto simp: seek_ok_def)
      have above: "o' \<le> rec_id y" if "s = New_pages" "y \<in> set ?zs" for y
      proof -
        have c: "o' \<le> rec_id (hd ?zs) \<or> o' \<le> ?l + 1" using a s(1) that by auto
        have hd: "rec_id (hd ?zs) \<le> rec_id y" using sorted that(2) by (cases ?zs) (auto simp: less_imp_le)
        have n: "?l + 1 \<le> rec_id y" if "o' \<le> ?l + 1" "\<not> o' \<le> rec_id (hd ?zs)"
        proof (cases "?l = 0")
          case True
          have "rec_id y \<noteq> 0" using okz that(2) \<open>y \<in> set ?zs\<close> by (simp add: rec_ok_def)
          then show ?thesis using True inc_le [of 0 "rec_id y"] by (simp add: word_gt_0)
        next
          case False
          then have "?l < rec_id y" using \<open>y \<in> set ?zs\<close> by (simp add: unread_def)
          then show ?thesis by (rule inc_le)
        qed
        then show ?thesis using c hd by (meson order_trans)
      qed
      show ?thesis
        by (rule exI [of _ s], rule exI [of _ st2], rule exI [of _ "[]"], rule exI [of _ ?zs])
          (use run s a F(2,3) above R(2) None in simp)
    next
      assume "\<exists>y ys mc' pre. r2 = None \<and> ?zs = y # ys \<and> rec_id y < bd \<and> mset (head_ids st2) = mset (head_ids st) + mset (rec_ids y) \<and>
         me_pglast (st_env st2) = rec_id y \<and> last2 = rec_id y \<and> m2 = (mc', None) \<and> free_sits st2 psize d root mc' pre y ys"
      then obtain y ys mc' pre2 where Y: "r2 = None" "?zs = y # ys" "rec_id y < bd"
        "mset (head_ids st2) = mset (head_ids st) + mset (rec_ids y)" "me_pglast (st_env st2) = rec_id y" "last2 = rec_id y"
        "m2 = (mc', None)" "free_sits st2 psize d root mc' pre2 y ys" by blast
      have l2: "length (head_ids st2) = length (head_ids st) + length (rec_ids y)"
        using arg_cong [OF Y(4), of size] by simp
      have o2: "mdb_find_oldest (st_env st2) (st_txn st2) = Some o'" using o(1) pg_only_oldest [OF F(2)] by simp
      have pr: "\<forall>x \<in> set ys. rec_ok x" "sorted_wrt (<) (map rec_id (y # ys))"
        "length (head_ids st2) + length (concat (map rec_ids ys)) < 2 ^ 30"
        using Y(2) okz sorted size l2 by simp_all
      obtain s st3 cs rest where L: "fetch_loop st2 (mc', None) num retry' last2 old2 f2 = Some (s, st3)" "pg_only st2 st3" "head_ok st3"
        "seek_ok st3 num s" "ys = cs @ rest" "\<forall>y \<in> set cs. rec_id y < bd"
        "mset (head_ids st3) = mset (head_ids st2) + mset (concat (map rec_ids cs))"
        "me_pglast (st_env st3) = (if cs = [] then me_pglast (st_env st2) else rec_id (last cs))"
        "s = New_pages \<and> num = 1 \<longrightarrow> head_ids st3 = [] \<and> (\<forall>y \<in> set rest. o' \<le> rec_id y)"
        using fetch_loop_ok [OF num o(3) o2 F(4,5) Y(8,6) F(3) pr] by blast
      show ?thesis
        by (rule exI [of _ s], rule exI [of _ st3], rule exI [of _ "y # cs"], rule exI [of _ rest])
          (use run Y L pg_only_trans [OF F(2) L(2)] in simp)
    qed
  qed
qed

section \<open>Taking the run out\<close>

lemma stragglers_ok:
  "j \<le> i \<Longrightarrow> i + k < length mop \<Longrightarrow> \<exists>ys. stragglers mop j i k = Some ys \<and> length ys = length mop \<and>
    (\<forall>p < length mop. ys ! p = (if j < p \<and> p \<le> j + k then mop ! (p + (i - j)) else mop ! p))"
proof (induction k arbitrary: mop j i)
  case (Suc k)
  let ?m = "mop[Suc j := mop ! Suc i]"
  obtain ys where ys: "stragglers ?m (Suc j) (Suc i) k = Some ys" "length ys = length mop"
    "\<forall>p < length mop. ys ! p = (if Suc j < p \<and> p \<le> Suc j + k then ?m ! (p + (i - j)) else ?m ! p)"
    using Suc.IH [of "Suc j" "Suc i" ?m] Suc.prems by auto
  have "ys ! p = (if j < p \<and> p \<le> j + Suc k then mop ! (p + (i - j)) else mop ! p)" if "p < length mop" for p
  proof (cases "p = Suc j")
    case True
    then show ?thesis using ys(3) that Suc.prems by (simp add: nth_list_update)
  next
    case False
    then show ?thesis using ys(3) that Suc.prems by (auto simp: nth_list_update)
  qed
  moreover have "stragglers mop j i (Suc k) = Some ys"
    using Suc.prems ys(1) by (simp add: aget_def aset_def)
  ultimately show ?case using ys(2) by blast
qed simp

lemma take_run_ok:
  assumes ok: "ids_ok mop" and run: "run_at mop (num - 1) i pgno" and num: "1 \<le> num" and size: "unat (mop ! 0) < 2 ^ 30"
  shows "\<exists>ys. take_run mop i num = Some ys \<and> ids_ok ys \<and> length ys = length mop \<and>
    idl_elems ys = take (i - num) (idl_elems mop) @ drop i (idl_elems mop)"
proof -
  let ?n = "unat (mop ! 0)"
  have b: "num \<le> i" "i \<le> ?n" "?n < length mop" using run ok num by (auto simp: run_at_def ids_ok_def)
  have c: "(?n mod 2 ^ 32 + (2 ^ 32 - num)) mod 2 ^ 32 = ?n - num"
  proof -
    have "?n mod 2 ^ 32 + (2 ^ 32 - num) = (?n - num) + 2 ^ 32" using b size by simp
    then show ?thesis using b size by (simp only: mod_add_self2 mod_less) simp
  qed
  let ?w = "of_nat (?n - num) :: u64"
  have w: "unat ?w = ?n - num" using size by (simp add: unsigned_of_nat take_bit_nat_eq_self)
  let ?m = "mop[0 := ?w]"
  obtain ys where ys: "stragglers ?m (i - num) i (?n - num - (i - num)) = Some ys" "length ys = length mop"
    "\<forall>p < length mop. ys ! p = (if i - num < p \<and> p \<le> i - num + (?n - num - (i - num)) then ?m ! (p + (i - (i - num))) else ?m ! p)"
    using stragglers_ok [of "i - num" i "?n - num - (i - num)" ?m] b by auto
  have run: "take_run mop i num = Some ys"
    using ys(1) b c by (cases mop) (simp_all add: take_run_def aget_def aset_def)
  have nth: "ys ! p = (if p = 0 then ?w else if i - num < p \<and> p \<le> ?n - num then mop ! (p + num) else mop ! p)" if "p < length mop" for p
    using ys(3) that b num by (auto simp: nth_list_update)
  have "0 < length mop" using b by linarith
  from nth [OF this] have y0: "ys ! 0 = ?w" by simp
  have ok': "ids_ok ys" using y0 w b ys(2) ok by (simp add: ids_ok_def)
  have "idl_elems ys = take (i - num) (idl_elems mop) @ drop i (idl_elems mop)"
  proof (rule nth_equalityI)
    show "length (idl_elems ys) = length (take (i - num) (idl_elems mop) @ drop i (idl_elems mop))"
      using ok ok' y0 w b by simp
    fix k assume "k < length (idl_elems ys)"
    then have k: "k < ?n - num" using ok' y0 w by simp
    have "idl_elems ys ! k = ys ! Suc k" using ok' y0 w k by simp
    moreover have "(take (i - num) (idl_elems mop) @ drop i (idl_elems mop)) ! k = (if k < i - num then mop ! Suc k else mop ! (Suc k + num))"
    proof -
      have "min ?n (i - num) = i - num" using b by simp
      moreover have "i + (k - (i - num)) = k + num" if "\<not> k < i - num" using that b by simp
      ultimately show ?thesis using ok k b by (auto simp: nth_append)
    qed
    ultimately show "idl_elems ys ! k = (take (i - num) (idl_elems mop) @ drop i (idl_elems mop)) ! k"
      using nth [of "Suc k"] k b by auto
  qed
  then show ?thesis using run ok' ys(2) by blast
qed

text \<open>Strictly descending numbers from \<open>a + n\<close> to \<open>a\<close> in \<open>n + 1\<close> places have no gaps.\<close>

lemma desc_no_gap:
  assumes s: "\<And>k. Suc k < m \<Longrightarrow> f (Suc k) < (f k :: nat)" and m: "n < m" and e: "f 0 = f n + n" and k: "k \<le> n"
  shows "f k = f n + (n - k)"
proof -
  have up: "f k + k \<le> f 0" if "k \<le> n" for k using that
  proof (induction k)
    case (Suc k)
    then show ?case using s [of k] m by simp
  qed simp
  have dn: "f n + j \<le> f (n - j)" if "j \<le> n" for j using that
  proof (induction j)
    case (Suc j)
    then have q: "Suc (n - Suc j) = n - j" "n - j < m" using m by simp_all
    have "f (n - j) < f (n - Suc j)" using s [of "n - Suc j"] q by simp
    then show ?case using Suc by simp
  qed simp
  show ?thesis using up [OF k] dn [of "n - k"] e k by simp
qed

lemma run_is_range:
  assumes ok: "ids_ok mop" "idl_desc mop" "distinct (idl_elems mop)" and run: "run_at mop (num - 1) i pgno" and num: "1 \<le> num"
  shows "take num (drop (i - num) (idl_elems mop)) = desc_range pgno num"
proof -
  let ?E = "idl_elems mop" and ?f = "\<lambda>k. unat (idl_elems mop ! (i - num + k))"
  have b: "num \<le> i" "i \<le> length ?E" "length ?E = unat (mop ! 0)" using run ok num by (auto simp: run_at_def)
  have e: "?E ! (i - 1) = pgno" "?E ! (i - num) = pgno + of_nat (num - 1)"
    using run ok(1) b num by (simp_all add: run_at_def Suc_diff_le)
  have "sorted_wrt (\<lambda>x y. x > y) ?E"
    using ok(2,3) by (simp add: idl_desc_def sorted_wrt_iff_nth_less distinct_conv_nth order.strict_iff_order)
  then have s: "?f (Suc k) < ?f k" if "Suc k < num" for k
    using that b by (simp add: sorted_wrt_iff_nth_less word_less_nat_alt [symmetric])
  have l: "?f (num - 1) = unat pgno" "?f 0 = unat (pgno + of_nat (num - 1))" using e b num by (simp_all add: Suc_diff_le)
  have mono: "?f (num - 1) \<le> ?f 0"
  proof -
    have "?f k \<le> ?f 0" if "k < num" for k using that
    proof (induction k)
      case (Suc k)
      then show ?case using s [of k] by simp
    qed simp
    from this [of "num - 1"] show ?thesis using num by simp
  qed
  have small: "num - 1 < 2 ^ 64" using b ok(1) num by (auto simp: ids_ok_def)
  have w: "unat (of_nat (num - 1) :: u64) = num - 1" using small by (simp add: unsigned_of_nat take_bit_nat_eq_self)
  have nw: "unat (pgno + of_nat (num - 1)) = unat pgno + (num - 1)"
  proof (rule ccontr)
    assume n: "unat (pgno + of_nat (num - 1)) \<noteq> unat pgno + (num - 1)"
    have "unat (pgno + of_nat (num - 1)) = (unat pgno + (num - 1)) mod 2 ^ 64" using w by (simp add: unat_word_ariths)
    moreover have "unat pgno < 2 ^ 64" using unsigned_less [of pgno] by simp
    ultimately have "unat (pgno + of_nat (num - 1)) < unat pgno"
      using n small by (auto simp: mod_if split: if_splits)
    then show False using mono unfolding l by simp
  qed
  have g: "?f k = unat pgno + (num - 1 - k)" if "k < num" for k
    using desc_no_gap [of num ?f "num - 1" k] s num l nw that by simp
  show ?thesis
  proof (rule nth_equalityI)
    show "length (take num (drop (i - num) ?E)) = length (desc_range pgno num)" using b by (simp add: desc_range_def)
    fix k assume "k < length (take num (drop (i - num) ?E))"
    then have k: "k < num" by simp
    define q where "q = num - 1 - k"
    have q: "q < 2 ^ 64" "?f k = unat pgno + q" using small g [OF k] by (simp_all add: q_def)
    have "unat (of_nat q :: u64) = q" using q(1) by (simp add: unsigned_of_nat take_bit_nat_eq_self)
    moreover have "unat pgno + q < 2 ^ LENGTH(64)" unfolding q(2) [symmetric] by (rule unsigned_less)
    ultimately have "unat (pgno + of_nat q) = unat pgno + q" by (simp add: unat_word_ariths)
    then have "?E ! (i - num + k) = pgno + of_nat q" using q(2) by (simp add: word_unat_eq_iff)
    then show "take num (drop (i - num) ?E) ! k = desc_range pgno num ! k" using k b by (simp add: desc_range_def q_def)
  qed
qed

end
