(* ===== verification/Alloc_Correct.thy ===== *)
theory Alloc_Correct
  imports Reclaim Demo_Tree
begin

text \<open>
  \<open>mdb_page_alloc\<close> in a write transaction without \<open>MDB_WRITEMAP\<close>: which page numbers it can hand out, and
  what it leaves alone.
\<close>

section \<open>The pages of a write transaction\<close>

definition dirty_map :: "'a st_scheme \<Rightarrow> u64 \<Rightarrow> page_ptr option" where
  "dirty_map st = id2l_map (mt_dirty_list (st_txn st))"

definition dirty_count :: "'a st_scheme \<Rightarrow> nat" where
  "dirty_count st = unat (fst (mt_dirty_list (st_txn st) ! 0))"

text \<open>
  Dirty pages are in malloc'd blocks of their own, the dirty list is sorted and has room for \<open>mt_dirty_room\<close>
  more pages; the free blocks are in use nowhere, and \<open>malloc\<close> hands out new ones.
\<close>

definition blocks_ok :: "'a wst_scheme \<Rightarrow> bool" where
  "blocks_ok st \<longleftrightarrow>
     \<not> has (me_flags (st_env st)) MDB_WRITEMAP \<and> \<not> has (mt_flags (st_txn st)) MDB_WRITEMAP \<and> 24 \<le> me_psize (st_env st) \<and>
     id2l_ok (mt_dirty_list (st_txn st)) \<and> id2l_asc (mt_dirty_list (st_txn st)) \<and>
     dirty_count st + mt_dirty_room (st_txn st) \<le> MDB_IDL_UM_MAX \<and>
     (\<forall>p \<in> ran (dirty_map st). \<exists>h. p = Heap_page h \<and> h \<notin> set (me_dpages (st_env st)) \<and> st_heap st h \<noteq> None) \<and>
     distinct (me_dpages (st_env st)) \<and>
     (\<forall>h \<in> set (me_dpages (st_env st)). \<exists>b. st_heap st h = Some b \<and> length b = me_psize (st_env st)) \<and>
     (\<forall>h. st_heap st h \<noteq> None \<longrightarrow> h < st_brk st)"

text \<open>\<open>st'\<close> is \<open>st\<close> with the block \<open>h\<close> taken into use, its contents \<open>b\<close>.\<close>

definition took_block :: "'a wst_scheme \<Rightarrow> 'a wst_scheme \<Rightarrow> nat \<Rightarrow> bytes \<Rightarrow> bool" where
  "took_block st st' h b \<longleftrightarrow> (\<exists>ds t k. st' = st\<lparr>st_env := (st_env st)\<lparr>me_dpages := ds\<rparr>, st_heap := (st_heap st)(h \<mapsto> b),
     st_os := (st_os st)\<lparr>os_time := t\<rparr>, st_brk := k\<rparr> \<and>
     (h # ds = me_dpages (st_env st) \<and> k = st_brk st \<or> ds = me_dpages (st_env st) \<and> h = st_brk st \<and> k = h + 1))"

lemma page_malloc_ok:
  assumes ok: "blocks_ok st" and num: "1 \<le> num"
  shows "(\<exists>t. mdb_page_malloc st num = (txn_error (st\<lparr>st_os := (st_os st)\<lparr>os_time := t\<rparr>\<rparr>), None)) \<or>
    (\<exists>st' h b. mdb_page_malloc st num = (st', Some (Heap_page h)) \<and> took_block st st' h b \<and>
       length b = me_psize (st_env st) * num \<and> Heap_page h \<notin> ran (dirty_map st))"
proof (cases "num = 1 \<and> me_dpages (st_env st) \<noteq> []")
  case True
  then obtain h ds where d: "me_dpages (st_env st) = h # ds" by (cases "me_dpages (st_env st)") auto
  then obtain b where b: "st_heap st h = Some b" "length b = me_psize (st_env st)" using ok by (auto simp: blocks_ok_def)
  have "mdb_page_malloc st num = (upd_env (\<lambda>e. e\<lparr>me_dpages := ds\<rparr>) st, Some (Heap_page h))"
    using True d by (simp add: mdb_page_malloc_def Let_def)
  moreover have "took_block st (upd_env (\<lambda>e. e\<lparr>me_dpages := ds\<rparr>) st) h b"
    unfolding took_block_def upd_env_def
    by (rule exI [of _ ds], rule exI [of _ "os_time (st_os st)"], rule exI [of _ "st_brk st"])
      (use d b in \<open>simp add: map_upd_triv\<close>)
  moreover have "Heap_page h \<notin> ran (dirty_map st)" using ok d by (fastforce simp: blocks_ok_def)
  ultimately show ?thesis using b(2) True by auto
next
  case False
  let ?psize = "me_psize (st_env st)"
  let ?sz = "?psize * num" and ?h = "st_brk st"
  let ?off = "if num = 1 then PAGEHDRSZ else ?sz - ?psize"
  let ?junk = "map (st_junk st ?h) [0..<?sz]"
  let ?b = "if has (me_flags (st_env st)) MDB_NOMEMINIT then ?junk else set_mp_pad 0 (take ?off ?junk @ replicate (?sz - ?off) 0)"
  let ?st1 = "st\<lparr>st_os := tick (st_os st)\<rparr>"
  have run: "mdb_page_malloc st num = (if os_malloc (st_os st) (os_time (st_os st))
      then (?st1\<lparr>st_heap := (st_heap st)(?h \<mapsto> ?b), st_brk := ?h + 1\<rparr>, Some (Heap_page ?h))
      else (upd_txn (\<lambda>t. t\<lparr>mt_flags := mt_flags t OR MDB_TXN_ERROR\<rparr>) ?st1, None))"
    using False num by (auto simp: mdb_page_malloc_def ask_malloc_def Let_def tick_def split: nat.splits list.splits)
  have ps: "24 \<le> ?psize" using ok by (simp add: blocks_ok_def)
  have sz: "?psize \<le> ?sz" "10 \<le> ?sz" using num ps order_trans [of 10 ?psize ?sz] by simp_all
  have len: "length ?b = ?sz"
  proof -
    have "?off \<le> ?sz" using ps sz by auto
    then have q: "length (take ?off ?junk @ replicate (?sz - ?off) 0) = ?sz" by simp
    have "length (set_mp_pad 0 (take ?off ?junk @ replicate (?sz - ?off) 0)) = ?sz"
      unfolding set_mp_pad_def by (subst length_wr) (use q ps sz in simp_all)
    then show ?thesis by simp
  qed
  show ?thesis
  proof (cases "os_malloc (st_os st) (os_time (st_os st))")
    case True
    have "took_block st (?st1\<lparr>st_heap := (st_heap st)(?h \<mapsto> ?b), st_brk := ?h + 1\<rparr>) ?h ?b"
      unfolding took_block_def
      by (rule exI [of _ "me_dpages (st_env st)"], rule exI [of _ "os_time (st_os st) + 1"], rule exI [of _ "?h + 1"])
        (simp add: tick_def)
    moreover have "Heap_page ?h \<notin> ran (dirty_map st)" using ok by (fastforce simp: blocks_ok_def)
    ultimately show ?thesis using run True len by auto
  next
    case False
    have "upd_txn (\<lambda>t. t\<lparr>mt_flags := mt_flags t OR MDB_TXN_ERROR\<rparr>) ?st1 =
        txn_error (st\<lparr>st_os := (st_os st)\<lparr>os_time := os_time (st_os st) + 1\<rparr>\<rparr>)"
      by (simp add: upd_txn_def txn_error_def tick_def)
    then show ?thesis using run False by auto
  qed
qed

text \<open>The last steps: the number is stored in the page and the page added to the dirty list.\<close>

lemma dirty_insert:
  assumes ok: "blocks_ok st" and room: "mt_dirty_room (st_txn st) \<noteq> 0" and new: "dirty_map st pgno = None"
    and b: "page_at st' (Heap_page h) = Some b" "mp_pgno b = pgno"
    and t: "mt_dirty_list (st_txn st') = mt_dirty_list (st_txn st)" "mt_dirty_room (st_txn st') = mt_dirty_room (st_txn st)"
      "mt_flags (st_txn st') = mt_flags (st_txn st)"
  shows "\<exists>dl. mdb_page_dirty st' (Heap_page h) =
      Some (upd_txn (\<lambda>t. t\<lparr>mt_dirty_list := dl, mt_dirty_room := mt_dirty_room (st_txn st) - 1\<rparr>) st') \<and>
    id2l_ok dl \<and> id2l_asc dl \<and> fst (dl ! 0) = fst (mt_dirty_list (st_txn st) ! 0) + 1 \<and>
    id2l_map dl = (dirty_map st)(pgno \<mapsto> Heap_page h)"
proof -
  let ?dl = "mt_dirty_list (st_txn st)"
  have B: "id2l_ok ?dl" "id2l_asc ?dl" "dirty_count st + mt_dirty_room (st_txn st) \<le> MDB_IDL_UM_MAX"
    "\<not> has (mt_flags (st_txn st)) MDB_WRITEMAP" using ok by (simp_all add: blocks_ok_def)
  obtain ys where ys: "mdb_mid2l_insert ?dl (pgno, Heap_page h) = Some (0, ys)" "id2l_ok ys" "id2l_asc ys"
    "fst (ys ! 0) = fst (?dl ! 0) + 1" "id2l_map ys = (id2l_map ?dl)(pgno \<mapsto> Heap_page h)"
    using mid2l_insert_new [OF B(1,2), of "(pgno, Heap_page h)"] new B(3) room
    by (auto simp: dirty_map_def dirty_count_def)
  have r: "(mt_dirty_room (st_txn st) + (2 ^ 32 - 1)) mod 2 ^ 32 = mt_dirty_room (st_txn st) - 1"
  proof -
    have "mt_dirty_room (st_txn st) + (2 ^ 32 - 1) = (mt_dirty_room (st_txn st) - 1) + 2 ^ 32" using room by simp
    moreover have "mt_dirty_room (st_txn st) - 1 < 2 ^ 32" using B(3) by (simp add: MDB_IDL_UM_MAX_def MDB_IDL_LOGN_def)
    ultimately show ?thesis by (simp only: mod_add_self2 mod_less)
  qed
  have "mdb_page_dirty st' (Heap_page h) =
      Some (upd_txn (\<lambda>t. t\<lparr>mt_dirty_list := ys, mt_dirty_room := mt_dirty_room (st_txn st) - 1\<rparr>) st')"
    using b t B(4) ys(1) r by (simp add: mdb_page_dirty_def upd_txn_def)
  then show ?thesis using ys by (auto simp: dirty_map_def)
qed

lemma sorted_wrt_cut: "sorted_wrt P xs \<Longrightarrow> m \<le> n \<Longrightarrow> sorted_wrt P (take m xs @ drop n xs)"
proof -
  assume s: "sorted_wrt P xs" and mn: "m \<le> n"
  have "sorted_wrt P (take n xs @ drop n xs)" using s by simp
  then have "\<forall>x \<in> set (take n xs). \<forall>y \<in> set (drop n xs). P x y" "sorted_wrt P (drop n xs)"
    unfolding sorted_wrt_append by simp_all
  moreover have "set (take m xs) \<subseteq> set (take n xs)" by (rule set_take_subset_set_take [OF mn])
  ultimately show ?thesis using sorted_wrt_take [OF s, of m] by (auto simp: sorted_wrt_append)
qed

lemma txn_error_flag: "has (mt_flags (st_txn (txn_error st))) MDB_TXN_ERROR"
  by (simp add: txn_error_def has_or_self MDB_TXN_ERROR_def)

text \<open>All that an allocation changes: the freeDB's state, the blocks, the end of the file and the dirty list.\<close>

definition alloc_keeps :: "'a wst_scheme \<Rightarrow> 'a wst_scheme \<Rightarrow> bool" where
  "alloc_keeps st st' \<longleftrightarrow> st_file st' = st_file st \<and> st_parents st' = st_parents st \<and> st_cursors st' = st_cursors st \<and> st_saved st' = st_saved st \<and>
     (\<exists>o' l h ds. st_env st' = (st_env st)\<lparr>me_pgoldest := o', me_pglast := l, me_pghead := h, me_dpages := ds\<rparr>) \<and>
     (\<exists>n dl r. st_txn st' = (st_txn st)\<lparr>mt_next_pgno := n, mt_dirty_list := dl, mt_dirty_room := r\<rparr>)"

text \<open>What a successful allocation of page \<open>pgno\<close> leaves, in block \<open>h\<close> with contents \<open>b\<close>.\<close>

definition got_page :: "'a wst_scheme \<Rightarrow> nat \<Rightarrow> u64 \<Rightarrow> 'a wst_scheme \<Rightarrow> page_ptr option \<Rightarrow> bool" where
  "got_page st num pgno st' p \<longleftrightarrow> (\<exists>h b. p = Some (Heap_page h) \<and> st_heap st' = (st_heap st)(h \<mapsto> b) \<and> mp_pgno b = pgno \<and>
     length b = me_psize (st_env st) * num \<and> Heap_page h \<notin> ran (dirty_map st) \<and>
     dirty_map st' = (dirty_map st)(pgno \<mapsto> Heap_page h)) \<and> alloc_keeps st st' \<and> blocks_ok st' \<and>
     mt_dirty_room (st_txn st') = mt_dirty_room (st_txn st) - 1"

lemma alloc_done_ok:
  assumes ok: "blocks_ok st" and room: "mt_dirty_room (st_txn st) \<noteq> 0" and new: "dirty_map st pgno = None" and num: "1 \<le> num"
    and h: "head_ok st" and size: "length (head_ids st) < 2 ^ 30" and run: "i \<noteq> 0 \<longrightarrow> run_at (mop_of st) (num - 1) i pgno"
  shows "\<exists>rc st' p. alloc_done st num i pgno = Some (rc, st', p) \<and>
    (rc = ENOMEM \<and> p = None \<and> has (mt_flags (st_txn st')) MDB_TXN_ERROR \<and> st_heap st' = st_heap st \<and> st_file st' = st_file st \<and>
       head_ids st' = head_ids st \<or>
     rc = 0 \<and> got_page st num pgno st' p \<and> head_ok st' \<and>
       head_ids st' = (if i = 0 then head_ids st else take (i - num) (head_ids st) @ drop i (head_ids st)) \<and>
       mt_next_pgno (st_txn st') = (if i = 0 then pgno + of_nat num else mt_next_pgno (st_txn st)))"
proof -
  have W: "\<not> has (me_flags (st_env st)) MDB_WRITEMAP" using ok by (simp add: blocks_ok_def)
  from page_malloc_ok [OF ok num] show ?thesis
  proof (elim disjE exE conjE)
    fix t assume m: "mdb_page_malloc st num = (txn_error (st\<lparr>st_os := st_os st\<lparr>os_time := t\<rparr>\<rparr>), None)"
    let ?st1 = "txn_error (st\<lparr>st_os := st_os st\<lparr>os_time := t\<rparr>\<rparr>)"
    have "alloc_done st num i pgno = Some (ENOMEM, txn_error ?st1, None)" using W m by (simp add: alloc_done_def)
    moreover have "st_heap (txn_error ?st1) = st_heap st" "st_file (txn_error ?st1) = st_file st" "head_ids (txn_error ?st1) = head_ids st"
      by (simp_all add: txn_error_def head_ids_def mop_of_def)
    ultimately show ?thesis using txn_error_flag by blast
  next
    fix st1 hp b
    assume m: "mdb_page_malloc st num = (st1, Some (Heap_page hp))" and tb: "took_block st st1 hp b"
      and len: "length b = me_psize (st_env st) * num" and nr: "Heap_page hp \<notin> ran (dirty_map st)"
    obtain ds t k where S1: "st1 = st\<lparr>st_env := (st_env st)\<lparr>me_dpages := ds\<rparr>, st_heap := (st_heap st)(hp \<mapsto> b),
        st_os := (st_os st)\<lparr>os_time := t\<rparr>, st_brk := k\<rparr>"
      "hp # ds = me_dpages (st_env st) \<and> k = st_brk st \<or> ds = me_dpages (st_env st) \<and> hp = st_brk st \<and> k = hp + 1"
      using tb by (auto simp: took_block_def)
    define f where "f = (\<lambda>il :: idl. if i = 0 then il else il\<lparr>il_ids := the (take_run (il_ids il) i num)\<rparr>)"
    define st2 where "st2 = upd_txn (\<lambda>t. if i = 0 then t\<lparr>mt_next_pgno := pgno + of_nat num\<rparr> else t)
      (upd_env (\<lambda>e. e\<lparr>me_pghead := map_option f (me_pghead e)\<rparr>) st1)"
    have hd: "head_ok st2 \<and> head_ids st2 = (if i = 0 then head_ids st else take (i - num) (head_ids st) @ drop i (head_ids st)) \<and>
        (i \<noteq> 0 \<longrightarrow> (\<exists>il. me_pghead (st_env st) = Some il \<and> take_run (il_ids il) i num = Some (il_ids (f il))))"
    proof (cases "i = 0")
      case True
      then show ?thesis using h S1(1)
        by (auto simp: head_ok_def head_ids_def mop_of_def st2_def upd_env_def upd_txn_def f_def split: option.splits)
    next
      case False
      then have ra: "run_at (mop_of st) (num - 1) i pgno" using run by simp
      then obtain il where il: "me_pghead (st_env st) = Some il" by (cases "me_pghead (st_env st)") (auto simp: run_at_def mop_of_def)
      note M = mop_ok [OF h]
      obtain ys where ys: "take_run (mop_of st) i num = Some ys" "ids_ok ys" "length ys = length (mop_of st)"
        "idl_elems ys = take (i - num) (idl_elems (mop_of st)) @ drop i (idl_elems (mop_of st))"
        using take_run_ok [of "mop_of st", OF _ ra num] M size by auto
      have fil: "f il = il\<lparr>il_ids := ys\<rparr>" using False ys(1) il by (simp add: f_def mop_of_def)
      have "sorted_wrt (\<ge>) (idl_elems ys)"
        unfolding ys(4) by (rule sorted_wrt_cut) (use M in \<open>simp_all add: idl_desc_def\<close>)
      then show ?thesis using False il ys h S1(1) fil
        by (simp add: head_ok_def head_ids_def mop_of_def st2_def upd_env_def upd_txn_def idl_ok_def idl_desc_def)
    qed
    have fields: "st_heap st2 = (st_heap st)(hp \<mapsto> b)" "st_file st2 = st_file st" "me_flags (st_env st2) = me_flags (st_env st)"
      "me_psize (st_env st2) = me_psize (st_env st)" "me_dpages (st_env st2) = ds" "st_brk st2 = k"
      "mt_dirty_list (st_txn st2) = mt_dirty_list (st_txn st)" "mt_dirty_room (st_txn st2) = mt_dirty_room (st_txn st)"
      "mt_flags (st_txn st2) = mt_flags (st_txn st)"
      "mt_next_pgno (st_txn st2) = (if i = 0 then pgno + of_nat num else mt_next_pgno (st_txn st))"
      using S1(1) by (simp_all add: st2_def upd_txn_def upd_env_def)
    define b' where "b' = set_mp_pgno pgno b"
    have ps: "24 \<le> me_psize (st_env st)" using ok by (simp add: blocks_ok_def)
    have lb: "16 \<le> length b" using len ps num order_trans [of 16 "me_psize (st_env st)" "me_psize (st_env st) * num"] by simp
    have b': "length b' = length b" "mp_pgno b' = pgno" using lb by (simp_all add: b'_def page_simps)
    define st3 where "st3 = st2\<lparr>st_heap := (st_heap st2)(hp \<mapsto> b')\<rparr>"
    have up: "upd_page st2 (Heap_page hp) (set_mp_pgno pgno) = Some st3"
      using fields(1) b'(1) by (simp add: upd_page_def st3_def b'_def)
    have p3: "page_at st3 (Heap_page hp) = Some b'" by (simp add: st3_def)
    have t3: "mt_dirty_list (st_txn st3) = mt_dirty_list (st_txn st)" "mt_dirty_room (st_txn st3) = mt_dirty_room (st_txn st)"
      "mt_flags (st_txn st3) = mt_flags (st_txn st)" using fields by (simp_all add: st3_def)
    obtain dl where D: "mdb_page_dirty st3 (Heap_page hp) =
        Some (upd_txn (\<lambda>t. t\<lparr>mt_dirty_list := dl, mt_dirty_room := mt_dirty_room (st_txn st) - 1\<rparr>) st3)"
      "id2l_ok dl" "id2l_asc dl" "fst (dl ! 0) = fst (mt_dirty_list (st_txn st) ! 0) + 1"
      "id2l_map dl = (dirty_map st)(pgno \<mapsto> Heap_page hp)"
      using dirty_insert [OF ok room new p3 b'(2) t3] by blast
    define st4 where "st4 = upd_txn (\<lambda>t. t\<lparr>mt_dirty_list := dl, mt_dirty_room := mt_dirty_room (st_txn st) - 1\<rparr>) st3"
    have run: "alloc_done st num i pgno = Some (0, st4, Some (Heap_page hp))"
    proof -
      have e: "me_pghead (st_env st1) = me_pghead (st_env st)" using S1(1) by simp
      have "(if i \<noteq> 0 then do {
            il \<leftarrow> me_pghead (st_env st1);
            ids \<leftarrow> take_run (il_ids il) i num;
            Some (upd_env (\<lambda>e. e\<lparr>me_pghead := Some (il\<lparr>il_ids := ids\<rparr>)\<rparr>) st1) }
          else Some (upd_txn (\<lambda>t. t\<lparr>mt_next_pgno := pgno + of_nat num\<rparr>) st1)) = Some st2"
      proof (cases "i = 0")
        case True
        then have "map_option f = (\<lambda>x. x)" by (intro ext) (simp add: f_def option.map_ident)
        then show ?thesis using True S1(1) by (simp add: st2_def upd_env_def upd_txn_def)
      next
        case False
        then obtain il ys where "me_pghead (st_env st) = Some il" "take_run (il_ids il) i num = Some ys" using hd by blast
        then show ?thesis using False e S1(1) by (simp add: st2_def upd_env_def upd_txn_def f_def)
      qed
      then show ?thesis using W m up D(1) by (simp add: alloc_done_def st4_def)
    qed
    have cnt: "unat (fst (mt_dirty_list (st_txn st) ! 0) + 1) = Suc (unat (fst (mt_dirty_list (st_txn st) ! 0)))"
      using ok room by (subst unat_add_small) (auto simp: blocks_ok_def dirty_count_def)
    have f4: "st_heap st4 = (st_heap st)(hp \<mapsto> b')" "st_file st4 = st_file st" "dirty_map st4 = (dirty_map st)(pgno \<mapsto> Heap_page hp)"
      "mt_dirty_room (st_txn st4) = mt_dirty_room (st_txn st) - 1" "head_ok st4 = head_ok st2" "head_ids st4 = head_ids st2"
      "mt_next_pgno (st_txn st4) = mt_next_pgno (st_txn st2)" "dirty_count st4 = dirty_count st + 1"
      "me_flags (st_env st4) = me_flags (st_env st)" "me_psize (st_env st4) = me_psize (st_env st)" "me_dpages (st_env st4) = ds"
      "st_brk st4 = k" "mt_flags (st_txn st4) = mt_flags (st_txn st)" "mt_dirty_list (st_txn st4) = dl"
      using fields D(4,5) cnt
      by (simp_all add: st4_def st3_def upd_txn_def dirty_map_def dirty_count_def head_ok_def head_ids_def mop_of_def)
    have B4: "blocks_ok st4"
    proof -
      have new_h: "hp \<notin> set ds" "distinct ds" "set ds \<subseteq> set (me_dpages (st_env st))" "hp < k" "st_brk st \<le> k"
      proof -
        have B: "distinct (me_dpages (st_env st))" "\<And>h. h \<in> set (me_dpages (st_env st)) \<Longrightarrow> st_heap st h \<noteq> None"
          "\<And>h. st_heap st h \<noteq> None \<Longrightarrow> h < st_brk st" using ok by (auto simp: blocks_ok_def)
        have "me_dpages (st_env st) = hp # ds \<and> k = st_brk st \<or> ds = me_dpages (st_env st) \<and> hp = st_brk st \<and> k = hp + 1"
          using S1(2) by metis
        then show "hp \<notin> set ds" "distinct ds" "set ds \<subseteq> set (me_dpages (st_env st))" "hp < k" "st_brk st \<le> k"
          using B by fastforce+
      qed
      have r: "ran (dirty_map st4) = insert (Heap_page hp) (ran (dirty_map st))" unfolding f4(3) using new by (rule ran_map_upd)
      have "\<exists>h. p = Heap_page h \<and> h \<notin> set ds \<and> st_heap st4 h \<noteq> None" if "p \<in> ran (dirty_map st4)" for p
      proof (cases "p = Heap_page hp")
        case True
        then show ?thesis using new_h(1) f4(1) by simp
      next
        case False
        then have "p \<in> ran (dirty_map st)" using that r by simp
        then obtain h where "p = Heap_page h" "h \<notin> set (me_dpages (st_env st))" "st_heap st h \<noteq> None"
          using ok unfolding blocks_ok_def by blast
        then show ?thesis using new_h(3) f4(1) by auto
      qed
      moreover have "\<exists>b. st_heap st4 h = Some b \<and> length b = me_psize (st_env st)" if "h \<in> set ds" for h
        using that new_h(1,3) ok f4(1) by (auto simp: blocks_ok_def)
      moreover have "h < k" if "st_heap st4 h \<noteq> None" for h
        using that new_h(4,5) ok f4(1) by (cases "h = hp") (auto simp: blocks_ok_def intro: order_less_le_trans)
      ultimately show ?thesis using ok room f4 new_h(2) D(2,3) by (simp add: blocks_ok_def)
    qed
    have keeps: "alloc_keeps st st4"
    proof -
      have e: "st_env st4 = (st_env st)\<lparr>me_pgoldest := me_pgoldest (st_env st), me_pglast := me_pglast (st_env st),
          me_pghead := map_option f (me_pghead (st_env st)), me_dpages := ds\<rparr>"
        by (simp add: S1(1) st4_def st3_def st2_def upd_env_def upd_txn_def)
      have t: "st_txn st4 = (st_txn st)\<lparr>mt_next_pgno := mt_next_pgno (st_txn st2), mt_dirty_list := dl,
          mt_dirty_room := mt_dirty_room (st_txn st) - 1\<rparr>"
        by (simp add: S1(1) st4_def st3_def st2_def upd_env_def upd_txn_def)
      have "st_file st4 = st_file st" "st_parents st4 = st_parents st" "st_cursors st4 = st_cursors st" "st_saved st4 = st_saved st"
        by (simp_all add: S1(1) st4_def st3_def st2_def upd_env_def upd_txn_def)
      then show ?thesis unfolding alloc_keeps_def using e t by blast
    qed
    have "got_page st num pgno st4 (Some (Heap_page hp))"
      unfolding got_page_def
      by (intro conjI exI [of _ hp] exI [of _ b']) (use f4 B4 b' len nr keeps in simp_all)
    then show ?thesis using run f4 hd fields by simp
  qed
qed

section \<open>The whole allocation\<close>

definition alloc_ready :: "'a wst_scheme \<Rightarrow> nat \<Rightarrow> nat \<Rightarrow> u64 \<Rightarrow> (bytes \<times> bytes) list \<Rightarrow> u64 \<Rightarrow> u64 \<Rightarrow> bool" where
  "alloc_ready st psize d root xs o' bd \<longleftrightarrow>
     blocks_ok st \<and> head_ok st \<and> free_items st psize d root xs \<and> (\<forall>x \<in> set xs. rec_ok x) \<and>
     mdb_find_oldest (st_env st) (st_txn st) = Some o' \<and> me_pgoldest (st_env st) \<le> bd \<and> o' \<le> bd \<and> me_pglast (st_env st) \<noteq> - 1 \<and>
     (let pool = head_ids st @ concat (map rec_ids (unread st xs)) in
        length pool < 2 ^ 30 \<and> distinct pool \<and> (\<forall>q \<in> set pool. dirty_map st q = None)) \<and>
     dirty_map st (mt_next_pgno (st_txn st)) = None"

lemma pg_only_same:
  assumes "pg_only st st'"
  shows "blocks_ok st' = blocks_ok st" "dirty_map st' = dirty_map st" "st_txn st' = st_txn st" "st_heap st' = st_heap st"
    "st_file st' = st_file st" "me_psize (st_env st') = me_psize (st_env st)" "me_maxpg (st_env st') = me_maxpg (st_env st)"
    "got_page st' num pgno st'' p = got_page st num pgno st'' p"
proof -
  obtain o' l h t where st': "st' = st\<lparr>st_env := (st_env st)\<lparr>me_pgoldest := o', me_pglast := l, me_pghead := h\<rparr>,
     st_os := (st_os st)\<lparr>os_time := t\<rparr>\<rparr>" using assms unfolding pg_only_def by blast
  have k: "alloc_keeps st' st'' = alloc_keeps st st''" by (simp add: st' alloc_keeps_def)
  show "blocks_ok st' = blocks_ok st" "dirty_map st' = dirty_map st" "st_txn st' = st_txn st" "st_heap st' = st_heap st"
    "st_file st' = st_file st" "me_psize (st_env st') = me_psize (st_env st)" "me_maxpg (st_env st') = me_maxpg (st_env st)"
    by (simp_all add: st' blocks_ok_def dirty_map_def dirty_count_def)
  then show "got_page st' num pgno st'' p = got_page st num pgno st'' p" by (simp add: got_page_def k dirty_map_def)
qed

lemma txn_error_keeps: "st_heap (txn_error st) = st_heap st" "st_file (txn_error st) = st_file st" "head_ids (txn_error st) = head_ids st"
  by (simp_all add: txn_error_def head_ids_def mop_of_def)

text \<open>What a call can return, the freeDB records \<open>cs\<close> having been taken in.\<close>

definition alloc_result ::
    "'a wst_scheme \<Rightarrow> nat \<Rightarrow> (bytes \<times> bytes) list \<Rightarrow> (bytes \<times> bytes) list \<Rightarrow> u64 \<Rightarrow> int \<Rightarrow> 'a wst_scheme \<Rightarrow> page_ptr option \<Rightarrow> bool" where
  "alloc_result st num cs rest o' rc st' p \<longleftrightarrow> (let pool = mset (head_ids st @ concat (map rec_ids cs)); next = mt_next_pgno (st_txn st) in
     rc \<in> {ENOMEM, MDB_TXN_FULL, MDB_MAP_FULL} \<and> p = None \<and> has (mt_flags (st_txn st')) MDB_TXN_ERROR \<and>
       st_heap st' = st_heap st \<and> st_file st' = st_file st \<and> mset (head_ids st') = pool \<or>
     rc = 0 \<and> head_ok st' \<and> (\<exists>pgno. got_page st num pgno st' p \<and>
       (mset (head_ids st') + mset (desc_range pgno num) = pool \<and> mt_next_pgno (st_txn st') = next \<or>
        mset (head_ids st') = pool \<and> pgno = next \<and> mt_next_pgno (st_txn st') = next + of_nat num \<and>
          next + of_nat num < me_maxpg (st_env st) \<and>
          (num = 1 \<longrightarrow> head_ids st' = [] \<and> (\<forall>y \<in> set rest. o' \<le> rec_id y)))))"

lemma take_mid: "i \<le> length E \<Longrightarrow> n \<le> i \<Longrightarrow> mset (take (i - n) E @ drop i E) + mset (take n (drop (i - n) E)) = mset E"
proof -
  assume a: "i \<le> length E" "n \<le> i"
  have "E = take (i - n) E @ take n (drop (i - n) E) @ drop i E"
    using a by (metis add.commute append_take_drop_id drop_drop le_add_diff_inverse2)
  then have "mset E = mset (take (i - n) E @ take n (drop (i - n) E) @ drop i E)" by simp
  then show ?thesis by (simp add: ac_simps)
qed

text \<open>After the search: the pages that \<open>alloc_done\<close> hands out come from what the search has taken in, or are new.\<close>

lemma alloc_done_result:
  assumes B: "blocks_ok st1" "mt_dirty_room (st_txn st1) \<noteq> 0" and new: "dirty_map st1 pgno = None" and num: "1 \<le> num"
    and hd: "head_ok st1" and small: "length (head_ids st1) < 2 ^ 30" and dist: "distinct (head_ids st1)"
    and pg: "pg_only st st1" and pool: "mset (head_ids st1) = mset (head_ids st @ concat (map rec_ids cs))"
    and at: "i \<noteq> 0 \<longrightarrow> run_at (mop_of st1) (num - 1) i pgno"
    and zero: "i = 0 \<longrightarrow> pgno = mt_next_pgno (st_txn st) \<and> pgno + of_nat num < me_maxpg (st_env st) \<and>
      (num = 1 \<longrightarrow> head_ids st1 = [] \<and> (\<forall>y \<in> set rest. o' \<le> rec_id y))"
  shows "\<exists>rc st' p. alloc_done st1 num i pgno = Some (rc, st', p) \<and> alloc_result st num cs rest o' rc st' p"
proof -
  note P = pg_only_same [OF pg]
  obtain rc st' p where D: "alloc_done st1 num i pgno = Some (rc, st', p)"
    "rc = ENOMEM \<and> p = None \<and> has (mt_flags (st_txn st')) MDB_TXN_ERROR \<and> st_heap st' = st_heap st1 \<and> st_file st' = st_file st1 \<and>
       head_ids st' = head_ids st1 \<or>
     rc = 0 \<and> got_page st1 num pgno st' p \<and> head_ok st' \<and>
       head_ids st' = (if i = 0 then head_ids st1 else take (i - num) (head_ids st1) @ drop i (head_ids st1)) \<and>
       mt_next_pgno (st_txn st') = (if i = 0 then pgno + of_nat num else mt_next_pgno (st_txn st1))"
    using alloc_done_ok [OF B new num hd small at] by blast
  have "alloc_result st num cs rest o' rc st' p"
  proof (cases "rc = 0 \<and> i \<noteq> 0")
    case True
    note m = mop_ok [OF hd]
    have ra: "run_at (mop_of st1) (num - 1) i pgno" using at True by simp
    have b: "i \<le> length (head_ids st1)" "num \<le> i" using ra m num by (auto simp: run_at_def head_ids_def)
    have rng: "take num (drop (i - num) (head_ids st1)) = desc_range pgno num"
      unfolding head_ids_def by (rule run_is_range [OF _ _ _ ra num]) (use m dist in \<open>simp_all add: head_ids_def\<close>)
    have G: "got_page st1 num pgno st' p" "head_ok st'" "mt_next_pgno (st_txn st') = mt_next_pgno (st_txn st1)"
      "head_ids st' = take (i - num) (head_ids st1) @ drop i (head_ids st1)" using D(2) True ENOMEM_nonzero by auto
    have "mset (head_ids st') + mset (desc_range pgno num) = mset (head_ids st @ concat (map rec_ids cs))"
      using take_mid [OF b] pool unfolding G(4) rng by simp
    then show ?thesis using G P True unfolding alloc_result_def Let_def by auto
  next
    case False
    then show ?thesis using D(2) P pool zero unfolding alloc_result_def Let_def by auto
  qed
  then show ?thesis using D(1) by blast
qed

lemma page_alloc_ok:
  assumes ready: "alloc_ready st psize d root xs o' bd" and num: "1 \<le> num" and loose: "num = 1 \<longrightarrow> mt_loose_pgs (st_txn st) = []"
  shows "\<exists>rc st' p cs rest. mdb_page_alloc st num = Some (rc, st', p) \<and> unread st xs = cs @ rest \<and>
    (\<forall>y \<in> set cs. rec_id y < bd) \<and> alloc_result st num cs rest o' rc st' p"
proof (cases "mt_dirty_room (st_txn st) = 0")
  case True
  then have "mdb_page_alloc st num = Some (MDB_TXN_FULL, txn_error st, None)"
    using loose num by (auto simp: mdb_page_alloc_def split: nat.splits list.splits)
  moreover have "alloc_result st num [] (unread st xs) o' MDB_TXN_FULL (txn_error st) None"
    using txn_error_flag [of st] by (simp add: alloc_result_def txn_error_keeps)
  ultimately show ?thesis by - (intro exI conjI, assumption?, simp_all)
next
  case room: False
  note R = ready [unfolded alloc_ready_def Let_def]
  obtain s st1 cs rest where S: "seek_pages st num = Some (s, st1)" "pg_only st st1" "head_ok st1" "seek_ok st1 num s"
    "unread st xs = cs @ rest" "\<forall>y \<in> set cs. rec_id y < bd"
    "mset (head_ids st1) = mset (head_ids st) + mset (concat (map rec_ids cs))"
    "s = New_pages \<and> num = 1 \<longrightarrow> head_ids st1 = [] \<and> (\<forall>y \<in> set rest. o' \<le> rec_id y)"
    using seek_pages_ok [OF num, where st = st and xs = xs and o' = o' and bd = bd and psize = psize and d = d and root = root] R by auto
  note P = pg_only_same [OF S(2)]
  let ?pool = "head_ids st @ concat (map rec_ids (unread st xs))"
  have pool: "mset (head_ids st1) = mset (head_ids st @ concat (map rec_ids cs))" using S(7) by simp
  have sub: "set (head_ids st1) \<subseteq> set ?pool" using S(5) arg_cong [OF S(7), of set_mset] by auto
  have "length (head_ids st1) \<le> length ?pool" using S(5) arg_cong [OF S(7), of size] by simp
  then have small: "length (head_ids st1) < 2 ^ 30" using R by simp
  have "distinct (head_ids st @ concat (map rec_ids cs))" using R S(5) by auto
  then have dist: "distinct (head_ids st1)" using pool by (metis mset_eq_imp_distinct_iff)
  have B: "blocks_ok st1" "mt_dirty_room (st_txn st1) \<noteq> 0" using R P room by auto
  have run: "mdb_page_alloc st num = (case s of
      Fail rc \<Rightarrow> Some (rc, txn_error st1, None)
    | Run i pgno \<Rightarrow> alloc_done st1 num i pgno
    | New_pages \<Rightarrow> let pgno = mt_next_pgno (st_txn st1) in
        if pgno + of_nat num \<ge> me_maxpg (st_env st1) then Some (MDB_MAP_FULL, txn_error st1, None)
        else alloc_done st1 num 0 pgno)"
    using loose num room S(1) by (auto simp: mdb_page_alloc_def split: nat.splits list.splits)
  note res = alloc_done_result [OF B _ num S(3) small dist S(2) pool]
  have err: "alloc_result st num cs rest o' rc (txn_error st1) None" if "rc \<in> {ENOMEM, MDB_MAP_FULL}" for rc
    using that txn_error_flag [of st1] pool P by (auto simp: alloc_result_def txn_error_keeps)
  have "\<exists>rc st' p. mdb_page_alloc st num = Some (rc, st', p) \<and> alloc_result st num cs rest o' rc st' p"
  proof (cases s)
    case (Run i pgno)
    then have ra: "run_at (mop_of st1) (num - 1) i pgno" using S(4) by (simp add: seek_ok_def)
    have "pgno = head_ids st1 ! (i - 1)" "i - 1 < length (head_ids st1)" "i \<noteq> 0"
      using ra mop_ok [OF S(3)] by (auto simp: run_at_def head_ids_def)
    then have "dirty_map st1 pgno = None" unfolding P(2) using sub R by (meson nth_mem subsetD)
    then show ?thesis using res [of pgno i rest o'] run Run ra \<open>i \<noteq> 0\<close> by simp
  next
    case New_pages
    show ?thesis
    proof (cases "mt_next_pgno (st_txn st1) + of_nat num < me_maxpg (st_env st1)")
      case True
      then have "mdb_page_alloc st num = alloc_done st1 num 0 (mt_next_pgno (st_txn st1))" using run New_pages by (auto simp: Let_def)
      then show ?thesis using res [of "mt_next_pgno (st_txn st1)" 0 rest o'] True New_pages S(8) R P by simp
    next
      case False
      then show ?thesis using run New_pages err [of MDB_MAP_FULL] by (simp add: Let_def not_less)
    qed
  next
    case (Fail rc)
    then show ?thesis using run S(4) err [of ENOMEM] by (simp add: seek_ok_def)
  qed
  then show ?thesis using S(5,6) by blast
qed

text \<open>C9: \<open>mdb_page_alloc\<close> without \<open>MDB_WRITEMAP\<close>. It takes in freeDB records from the first unread one on, only
  those of transactions before \<open>bd\<close>, a bound on the oldest snapshot in the reader table and on the one found before. What it returns is a new dirty page, in a block of its own, whose numbers
  either all come from the numbers that it has taken in (and are then no longer among them) or are the next ones at the end
  of the file, below the map's size; single pages come from there only when nothing is left to reuse. Nothing in the file
  and no other page changes. Otherwise it fails with \<open>ENOMEM\<close>, \<open>MDB_TXN_FULL\<close> or \<open>MDB_MAP_FULL\<close>, with the transaction
  marked and no number lost.
\<close>

theorem page_alloc_correct:
  assumes "alloc_ready st psize d root xs o' bd" "1 \<le> num" "num = 1 \<longrightarrow> mt_loose_pgs (st_txn st) = []"
  shows "\<exists>rc st' p cs rest. mdb_page_alloc st num = Some (rc, st', p) \<and> unread st xs = cs @ rest \<and>
    (\<forall>y \<in> set cs. rec_id y < bd) \<and> alloc_result st num cs rest o' rc st' p"
  by (rule page_alloc_ok [OF assms])

section \<open>An instance\<close>

text \<open>
  Pages of 64 bytes; the freeDB is the leaf page 2 with one record: transaction 3 freed the pages 7 and 6. The
  write transaction is number 9, with no readers.
\<close>

definition freed_leaf :: bytes where
  "freed_leaf = [2,0,0,0,0,0,0,0, 0,0, 2,0, 18,0, 24,0, 24,0] @ replicate 6 0 @ [24,0,0,0, 0,0, 8,0] @
     [3,0,0,0,0,0,0,0] @ [2,0,0,0,0,0,0,0] @ [7,0,0,0,0,0,0,0] @ [6,0,0,0,0,0,0,0]"

definition free_db :: db where
  "free_db = demo_tree_db\<lparr>md_depth := 1, md_branch_pages := 0, md_leaf_pages := 1, md_entries := 1\<rparr>"

definition write_at :: "txninfo option \<Rightarrow> wst" where
  "write_at ti = \<lparr>st_env = demo_env\<lparr>me_txns := ti, me_psize := 64, me_dbxs := [demo_dbx\<lparr>md_cmp := Some Cmp_long\<rparr>, demo_dbx], me_dbiseqs := [0, 0]\<rparr>,
     st_file = replicate 128 0 @ freed_leaf, st_heap = (\<lambda>_. None),
     st_txn = demo_txn\<lparr>mt_next_pgno := 10, mt_txnid := 9, mt_dirty_list := (0, Map_page 0) # replicate MDB_IDL_UM_MAX (0, Map_page 0),
       mt_dbs := [free_db, demo_db], mt_dbflags := [DB_VALID, DB_VALID OR DB_USRVALID], mt_dirty_room := MDB_IDL_UM_MAX,
       mt_free_pgs := \<lparr>il_alloc = 4, il_ids = replicate 5 0\<rparr>\<rparr>,
     st_parents = [], st_os = demo_os, st_brk = 0, st_junk = (\<lambda>_ _. 0), st_idjunk = (\<lambda>_ _. 0), st_cursors = [], st_saved = []\<rparr>"

definition write_st :: wst where
  "write_st = write_at None"

lemma freed_read:
  "length freed_leaf = 64" "mp_lower freed_leaf = 18" "mp_upper freed_leaf = 24" "mp_flags freed_leaf = 2"
  "NUMKEYS freed_leaf = 1" "pt freed_leaf 0 = 24" "key_at freed_leaf 0 = [3,0,0,0,0,0,0,0]"
  "rd freed_leaf 24 4 = 24" "rd freed_leaf 28 2 = 0" "rd freed_leaf 30 2 = 8"
  "slice freed_leaf 40 24 = [2,0,0,0,0,0,0,0, 7,0,0,0,0,0,0,0, 6,0,0,0,0,0,0,0]"
  by (simp_all add: freed_leaf_def mp_lower_def mp_upper_def mp_flags_def NUMKEYS_def pt_def key_at_def rd_def slice_def)

lemma freed_kinds: "IS_LEAF freed_leaf" "\<not> IS_LEAF2 freed_leaf" "\<not> IS_BRANCH freed_leaf" "\<not> IS_OVERFLOW freed_leaf"
  by (simp_all add: IS_LEAF_def IS_LEAF2_def IS_BRANCH_def IS_OVERFLOW_def F_ISSET_def freed_read
      P_LEAF_def P_LEAF2_def P_BRANCH_def P_OVERFLOW_def)

lemma write_flags: "mc_flags (new_cursor (write_at ti) FREE_DBI) = 0" "ro_flags (new_cursor (write_at ti) FREE_DBI) = False"
  by (simp_all add: new_cursor_def write_at_def demo_txn_def ro_flags_def has_def cursor_flag_defs env_flag_defs)

lemma write_page: "see (write_at ti) False 2 = Some freed_leaf"
proof -
  have "resolve (write_at ti) False 2 = Some (Map_page 2)"
    by (simp add: resolve_def mdb_page_get_def page_get_txn_def write_at_def demo_txn_def raw_cursor_def has_def aget_def
        cursor_flag_defs env_flag_defs)
  moreover have "me_psize (st_env (write_at ti)) = 64" "me_map (st_env (write_at ti))" "st_file (write_at ti) = replicate 128 0 @ freed_leaf"
    by (simp_all add: write_at_def demo_env_def)
  ultimately show ?thesis by (simp add: see_def map_page_def freed_kinds slice_def freed_read)
qed

lemma write_leaf_ok: "leaf_ok (see (write_at ti) False) 64 Cmp_long (\<lambda>a. length a = 8) le_dec freed_leaf None None"
proof -
  have "page_ok 64 freed_leaf"
    by (simp add: page_ok_def freed_read ptrs_def extent_def node_len_def EVEN_def F_ISSET_def freed_kinds)
  moreover have "keys_sorted (\<lambda>a. length a = 8) le_dec freed_leaf 0 None None"
    by (simp add: keys_sorted_def freed_read in_range_def)
  moreover have "value_at (see (write_at ti) False) freed_leaf 0 \<noteq> None" "\<not> is_dup_at freed_leaf 0"
    by (simp_all add: value_at_def is_dup_at_def freed_read get_bytes_def F_ISSET_def F_BIGDATA_def F_DUPDATA_def)
  moreover have "key_order (call_cmp Cmp_long) (\<lambda>a. length a = 8) le_dec" using longc.key_order_axioms by simp
  ultimately show ?thesis using freed_kinds by (simp add: leaf_ok_def ordered_by_def node_search_cmp_def is_cint_def freed_read)
qed

lemma write_free_items: "free_items (write_at ti) 64 0 2 [([3,0,0,0,0,0,0,0], [2,0,0,0,0,0,0,0, 7,0,0,0,0,0,0,0, 6,0,0,0,0,0,0,0])]"
proof -
  have "db_ready (write_at ti) (new_cursor (write_at ti) FREE_DBI) Cmp_long 2"
    by (simp add: db_ready_def write_at_def new_cursor_def raw_cursor_def mc_dbflag_def mc_dbx_def mc_db_def aget_def free_db_def
      demo_txn_def demo_dbx_def demo_tree_db_def has_def env_flag_defs txn_flag_defs DB_VALID_def DB_STALE_def FREE_DBI_def)
  moreover have "root_ok (write_at ti) False 64 Cmp_long (\<lambda>a. length a = 8) le_dec 0 2"
    using write_leaf_ok by (simp add: root_ok_def write_page P_INVALID_def CURSOR_STACK_def)
  moreover have "items (see (write_at ti) False) 0 2 = [([3,0,0,0,0,0,0,0], [2,0,0,0,0,0,0,0, 7,0,0,0,0,0,0,0, 6,0,0,0,0,0,0,0])]"
    by (simp add: write_page leaf_items_def value_at_def freed_read F_ISSET_def F_BIGDATA_def get_bytes_def)
  ultimately show ?thesis unfolding db_items_def write_flags by simp
qed

lemma write_at_ready:
  assumes "mdb_find_oldest (st_env (write_at ti)) (st_txn (write_at ti)) = Some 8"
  shows "alloc_ready (write_at ti) 64 0 2 [([3,0,0,0,0,0,0,0], [2,0,0,0,0,0,0,0, 7,0,0,0,0,0,0,0, 6,0,0,0,0,0,0,0])] 8 8"
proof -
  let ?x = "([3,0,0,0,0,0,0,0], [2,0,0,0,0,0,0,0, 7,0,0,0,0,0,0,0, 6,0,0,0,0,0,0,0]) :: bytes \<times> bytes"
  have ids: "ids_of [2,0,0,0,0,0,0,0, 7,0,0,0,0,0,0,0, 6,0,0,0,0,0,0,0] = [2, 7, 6]" by (simp add: ids_of_def rd_def slice_def upt_rec)
  have r: "rec_ok ?x" "rec_ids ?x = [7, 6]" "rec_id ?x = 3"
    by (simp_all add: rec_ok_def rec_ids_def rec_id_def ids ids_ok_def idl_desc_def idl_elems_def)
  have e: "id2l_elems (mt_dirty_list (st_txn (write_at ti))) = []" by (simp add: id2l_elems_def write_at_def seg_def)
  have d: "dirty_map (write_at ti) = Map.empty" by (simp add: dirty_map_def id2l_map_def e)
  have "blocks_ok (write_at ti)"
    unfolding blocks_ok_def d id2l_asc_def e
    by (simp add: dirty_count_def id2l_ok_def write_at_def demo_env_def demo_txn_def has_def env_flag_defs)
  moreover have "head_ok (write_at ti)" "head_ids (write_at ti) = []" "me_pglast (st_env (write_at ti)) = 0"
    "me_pgoldest (st_env (write_at ti)) = 0"
    by (simp_all add: head_ok_def head_ids_def mop_of_def idl_elems_def write_at_def demo_env_def)
  ultimately show ?thesis using assms write_free_items r by (simp add: alloc_ready_def unread_def d)
qed

lemma write_ready:
  "alloc_ready write_st 64 0 2 [([3,0,0,0,0,0,0,0], [2,0,0,0,0,0,0,0, 7,0,0,0,0,0,0,0, 6,0,0,0,0,0,0,0])] 8 8"
  unfolding write_st_def by (rule write_at_ready) (simp add: write_at_def demo_env_def demo_txn_def mdb_find_oldest_def)

lemma page_alloc_correct_witness:
  "\<exists>rc st' p cs rest. mdb_page_alloc write_st 2 = Some (rc, st', p) \<and>
    unread write_st [([3,0,0,0,0,0,0,0], [2,0,0,0,0,0,0,0, 7,0,0,0,0,0,0,0, 6,0,0,0,0,0,0,0])] = cs @ rest \<and>
    (\<forall>y \<in> set cs. rec_id y < 8) \<and> alloc_result write_st 2 cs rest 8 rc st' p"
  by (rule page_alloc_correct [OF write_ready]) simp_all

end
