(* ===== verification/Txn_Correct.thy ===== *)
theory Txn_Correct
  imports Txn Alloc_Correct
begin

text \<open>
  What transactions guarantee around their operations: the snapshot of a reader, and that aborting a nested
  transaction gives its parent back.
\<close>

section \<open>The snapshot loop\<close>

text \<open>Round \<open>k\<close> reads the same number twice.\<close>

definition calm :: "(nat \<Rightarrow> u64) \<Rightarrow> nat \<Rightarrow> nat \<Rightarrow> bool" where
  "calm seen t k \<longleftrightarrow> seen (t + 2 * k) = seen (t + 2 * k + 1)"

lemma calm_Suc: "calm seen (t + 2) k = calm seen t (Suc k)"
  by (simp add: calm_def add.assoc)

lemma take_snapshot_first:
  "calm seen t k \<Longrightarrow> \<forall>j < k. \<not> calm seen t j \<Longrightarrow> take_snapshot seen t = Some (seen (t + 2 * k), t + 2 * k + 2)"
proof (induction k arbitrary: t)
  case 0
  then show ?case by (simp add: take_snapshot.simps calm_def)
next
  case (Suc k)
  have "\<not> calm seen t 0" using Suc.prems(2) by blast
  then have "take_snapshot seen t = take_snapshot seen (t + 2)"
    by (subst take_snapshot.simps) (simp add: calm_def)
  also have "\<dots> = Some (seen (t + 2 + 2 * k), t + 2 + 2 * k + 2)"
    by (rule Suc.IH) (unfold calm_Suc, use Suc.prems in auto)
  finally show ?case by (simp add: add.assoc)
qed

lemma take_snapshot_calm: "take_snapshot seen t = Some r \<Longrightarrow> \<exists>k. calm seen t k"
proof -
  have "\<exists>k. calm seen t k" if f: "\<And>s u v. f s u = Some v \<Longrightarrow> \<exists>k. calm s u k"
    and e: "(if seen t = seen (t + 1) then Some (seen t, t + 2) else f seen (t + 2)) = Some r" for f seen t and r :: "u64 \<times> nat"
  proof (cases "seen t = seen (t + 1)")
    case True
    then have "calm seen t 0" by (simp add: calm_def)
    then show ?thesis by blast
  next
    case False
    then have "f seen (t + 2) = Some r" using e by simp
    then show ?thesis using f calm_Suc by blast
  qed
  then show "take_snapshot seen t = Some r \<Longrightarrow> \<exists>k. calm seen t k" by (rule take_snapshot.raw_induct)
qed

text \<open>C20: The loop of a starting reader returns if and only if in some round no writer commits between its two reads
  of \<open>mti_txnid\<close>; then the snapshot is the value read twice in the first such round.\<close>

theorem take_snapshot_terminates:
  "(take_snapshot seen t = Some (snap, t')) = (\<exists>k. seen (t + 2 * k) = seen (t + 2 * k + 1) \<and>
     \<not> (\<exists>j < k. seen (t + 2 * j) = seen (t + 2 * j + 1)) \<and> snap = seen (t + 2 * k) \<and> t' = t + 2 * k + 2)"
proof
  assume r: "take_snapshot seen t = Some (snap, t')"
  then obtain k0 where "calm seen t k0" using take_snapshot_calm by blast
  then obtain k where k: "calm seen t k" "\<forall>j < k. \<not> calm seen t j"
    using exists_least_iff [of "calm seen t"] by blast
  then show "\<exists>k. seen (t + 2 * k) = seen (t + 2 * k + 1) \<and>
     \<not> (\<exists>j < k. seen (t + 2 * j) = seen (t + 2 * j + 1)) \<and> snap = seen (t + 2 * k) \<and> t' = t + 2 * k + 2"
    using take_snapshot_first [OF k] r by (auto simp: calm_def)
next
  assume "\<exists>k. seen (t + 2 * k) = seen (t + 2 * k + 1) \<and>
     \<not> (\<exists>j < k. seen (t + 2 * j) = seen (t + 2 * j + 1)) \<and> snap = seen (t + 2 * k) \<and> t' = t + 2 * k + 2"
  then obtain k where "calm seen t k" "\<forall>j < k. \<not> calm seen t j" "snap = seen (t + 2 * k)" "t' = t + 2 * k + 2"
    by (auto simp: calm_def)
  then show "take_snapshot seen t = Some (snap, t')" using take_snapshot_first by blast
qed

section \<open>Database handles\<close>

definition dbs_ok :: "env \<Rightarrow> txn \<Rightarrow> bool" where
  "dbs_ok env txn \<longleftrightarrow> (\<forall>n \<in> {length (me_dbxs env), length (me_dbflags env), length (me_dbiseqs env), length (mt_dbs txn),
     length (mt_dbflags txn)}. mt_numdbs txn \<le> n)"

text \<open>\<open>env'\<close> differs from \<open>env\<close> only in its tables of handles.\<close>

definition handles_only :: "env \<Rightarrow> env \<Rightarrow> bool" where
  "handles_only env env' \<longleftrightarrow> (\<exists>n xs fs ss. env' = env\<lparr>me_numdbs := n, me_dbxs := xs, me_dbflags := fs, me_dbiseqs := ss\<rparr> \<and>
     length xs = length (me_dbxs env) \<and> length fs = length (me_dbflags env) \<and> length ss = length (me_dbiseqs env))"

lemma handles_only_refl: "handles_only env env"
  unfolding handles_only_def
  by (rule exI [of _ "me_numdbs env"], rule exI [of _ "me_dbxs env"], rule exI [of _ "me_dbflags env"],
    rule exI [of _ "me_dbiseqs env"]) simp

lemma handles_only_trans: "handles_only a b \<Longrightarrow> handles_only b c \<Longrightarrow> handles_only a c"
  by (clarsimp simp: handles_only_def) blast

lemma handles_only_dbs_ok: "handles_only env env' \<Longrightarrow> dbs_ok env' txn = dbs_ok env txn"
  by (auto simp: handles_only_def dbs_ok_def)

lemma handles_only_intro:
  "fs = me_dbflags env \<or> length fs = length (me_dbflags env) \<Longrightarrow> handles_only env (env\<lparr>me_dbflags := fs\<rparr>)"
  "length xs = length (me_dbxs env) \<Longrightarrow> length fs = length (me_dbflags env) \<Longrightarrow> length ss = length (me_dbiseqs env) \<Longrightarrow>
    handles_only env (env\<lparr>me_dbxs := xs, me_dbflags := fs, me_dbiseqs := ss\<rparr>)"
  "handles_only env (env\<lparr>me_numdbs := n\<rparr>)"
  unfolding handles_only_def
    apply (rule exI [of _ "me_numdbs env"], rule exI [of _ "me_dbxs env"], rule exI [of _ fs], rule exI [of _ "me_dbiseqs env"], force)
   apply (rule exI [of _ "me_numdbs env"], rule exI [of _ xs], rule exI [of _ fs], rule exI [of _ ss], force)
  apply (rule exI [of _ n], rule exI [of _ "me_dbxs env"], rule exI [of _ "me_dbflags env"], rule exI [of _ "me_dbiseqs env"], force)
  done

lemma dbis_update_loop_ok:
  "dbs_ok env txn \<Longrightarrow> CORE_DBS + k \<le> mt_numdbs txn \<Longrightarrow> \<exists>env'. dbis_update_loop txn keep k env = Some env' \<and> handles_only env env'"
proof (induction k arbitrary: env)
  case 0
  then show ?case by (simp add: handles_only_refl)
next
  case (Suc k)
  let ?i = "CORE_DBS + k"
  have i: "?i < length (me_dbxs env)" "?i < length (me_dbflags env)" "?i < length (me_dbiseqs env)" "?i < length (mt_dbs txn)"
    "?i < length (mt_dbflags txn)" using Suc.prems by (auto simp: dbs_ok_def)
  define e1 where "e1 = (if \<not> has (mt_dbflags txn ! ?i) DB_NEW then env
      else if keep then env\<lparr>me_dbflags := (me_dbflags env)[?i := md_flags (mt_dbs txn ! ?i) OR MDB_VALID]\<rparr>
      else if md_name (me_dbxs env ! ?i) = None then env
      else env\<lparr>me_dbxs := (me_dbxs env)[?i := (me_dbxs env ! ?i)\<lparr>md_name := None\<rparr>], me_dbflags := (me_dbflags env)[?i := 0],
        me_dbiseqs := (me_dbiseqs env)[?i := (me_dbiseqs env ! ?i + 1) mod 2 ^ 32]\<rparr>)"
  have h: "handles_only env e1" unfolding e1_def using handles_only_refl by (auto intro!: handles_only_intro)
  have "dbis_update_loop txn keep (Suc k) env = dbis_update_loop txn keep k e1"
    using i by (simp add: e1_def)
  moreover obtain e2 where "dbis_update_loop txn keep k e1 = Some e2" "handles_only e1 e2"
    using Suc.IH [of e1] Suc.prems handles_only_dbs_ok [OF h] by auto
  ultimately show ?case using handles_only_trans [OF h] by auto
qed

lemma dbis_update_ok:
  assumes "dbs_ok env txn"
  shows "\<exists>env'. mdb_dbis_update txn keep env = Some env' \<and> handles_only env env'"
proof -
  have "\<exists>e. dbis_update_loop txn keep (mt_numdbs txn - CORE_DBS) env = Some e \<and> handles_only env e"
  proof (cases "CORE_DBS \<le> mt_numdbs txn")
    case True
    then show ?thesis using assms by (intro dbis_update_loop_ok) auto
  next
    case False
    then show ?thesis by (simp add: handles_only_refl)
  qed
  then obtain e where e: "dbis_update_loop txn keep (mt_numdbs txn - CORE_DBS) env = Some e" "handles_only env e" by blast
  then show ?thesis using handles_only_trans [OF e(2) handles_only_intro(3)] by (auto simp: mdb_dbis_update_def)
qed

section \<open>Freeing the dirty pages\<close>

definition dirty_ptrs :: "'a st_scheme \<Rightarrow> page_ptr list" where
  "dirty_ptrs st = map snd (id2l_elems (mt_dirty_list (st_txn st)))"

definition dirty_blocks_ok :: "'a st_scheme \<Rightarrow> bool" where
  "dirty_blocks_ok st \<longleftrightarrow> id2l_ok (mt_dirty_list (st_txn st)) \<and> distinct (dirty_ptrs st) \<and>
     (\<forall>p \<in> set (dirty_ptrs st). \<exists>h. p = Heap_page h \<and> st_heap st h \<noteq> None)"

lemma dpage_free_ok:
  assumes "st_heap st h \<noteq> None"
  shows "\<exists>ds hp. mdb_dpage_free st (Heap_page h) = Some (st\<lparr>st_env := (st_env st)\<lparr>me_dpages := ds\<rparr>, st_heap := hp\<rparr>) \<and>
    (\<forall>g. g \<noteq> h \<longrightarrow> hp g = st_heap st g)"
proof -
  obtain b where b: "st_heap st h = Some b" using assms by blast
  show ?thesis
  proof (cases "\<not> IS_OVERFLOW b \<or> mp_pages b = 1")
    case True
    then have "mdb_dpage_free st (Heap_page h) = Some (st\<lparr>st_env := (st_env st)\<lparr>me_dpages := h # me_dpages (st_env st)\<rparr>, st_heap := st_heap st\<rparr>)"
      using b by (auto simp: mdb_dpage_free_def mdb_page_free_def upd_env_def)
    then show ?thesis by blast
  next
    case False
    then have "mdb_dpage_free st (Heap_page h) =
        Some (st\<lparr>st_env := (st_env st)\<lparr>me_dpages := me_dpages (st_env st)\<rparr>, st_heap := (st_heap st)(h := None)\<rparr>)"
      using b by (simp add: mdb_dpage_free_def)
    then show ?thesis by (metis fun_upd_other)
  qed
qed

lemma dlist_free_loop_ok:
  assumes "i + k \<le> length (mt_dirty_list (st_txn st))" "distinct (map snd (seg i k (mt_dirty_list (st_txn st))))"
    "\<forall>p \<in> snd ` set (seg i k (mt_dirty_list (st_txn st))). \<exists>h. p = Heap_page h \<and> st_heap st h \<noteq> None"
  shows "\<exists>ds hp. dlist_free_loop st i k = Some (st\<lparr>st_env := (st_env st)\<lparr>me_dpages := ds\<rparr>, st_heap := hp\<rparr>) \<and>
    (\<forall>g. Heap_page g \<notin> snd ` set (seg i k (mt_dirty_list (st_txn st))) \<longrightarrow> hp g = st_heap st g)"
  using assms
proof (induction k arbitrary: st i)
  case 0
  have "dlist_free_loop st i 0 = Some (st\<lparr>st_env := (st_env st)\<lparr>me_dpages := me_dpages (st_env st)\<rparr>, st_heap := st_heap st\<rparr>)" by simp
  then show ?case by blast
next
  case (Suc k)
  let ?dl = "mt_dirty_list (st_txn st)"
  have i: "i < length ?dl" using Suc.prems by simp
  have s: "seg i (Suc k) ?dl = ?dl ! i # seg (i + 1) k ?dl"
    using i by (simp add: seg_def Cons_nth_drop_Suc [symmetric])
  obtain h where h: "snd (?dl ! i) = Heap_page h" "st_heap st h \<noteq> None" using Suc.prems(3) s by auto
  obtain ds1 hp1 where f: "mdb_dpage_free st (Heap_page h) = Some (st\<lparr>st_env := (st_env st)\<lparr>me_dpages := ds1\<rparr>, st_heap := hp1\<rparr>)"
    "\<forall>g. g \<noteq> h \<longrightarrow> hp1 g = st_heap st g" using dpage_free_ok [of st h] h(2) by blast
  let ?st1 = "st\<lparr>st_env := (st_env st)\<lparr>me_dpages := ds1\<rparr>, st_heap := hp1\<rparr>"
  have n: "Heap_page h \<notin> snd ` set (seg (i + 1) k ?dl)" using Suc.prems(2) s h(1) by auto
  have "\<exists>ds hp. dlist_free_loop ?st1 (i + 1) k = Some (?st1\<lparr>st_env := (st_env ?st1)\<lparr>me_dpages := ds\<rparr>, st_heap := hp\<rparr>) \<and>
    (\<forall>g. Heap_page g \<notin> snd ` set (seg (i + 1) k (mt_dirty_list (st_txn ?st1))) \<longrightarrow> hp g = st_heap ?st1 g)"
  proof (rule Suc.IH)
    show "\<forall>p \<in> snd ` set (seg (i + 1) k (mt_dirty_list (st_txn ?st1))). \<exists>h. p = Heap_page h \<and> st_heap ?st1 h \<noteq> None"
    proof
      fix p assume p: "p \<in> snd ` set (seg (i + 1) k (mt_dirty_list (st_txn ?st1)))"
      then obtain g where g: "p = Heap_page g" "st_heap st g \<noteq> None" using Suc.prems(3) s by auto
      then have "g \<noteq> h" using n p by auto
      then show "\<exists>h. p = Heap_page h \<and> st_heap ?st1 h \<noteq> None" using g f(2) by auto
    qed
  qed (use Suc.prems s in auto)
  then obtain ds hp where r: "dlist_free_loop ?st1 (i + 1) k = Some (?st1\<lparr>st_env := (st_env ?st1)\<lparr>me_dpages := ds\<rparr>, st_heap := hp\<rparr>)"
    "\<forall>g. Heap_page g \<notin> snd ` set (seg (i + 1) k ?dl) \<longrightarrow> hp g = hp1 g" by auto
  have "dlist_free_loop st i (Suc k) = Some (st\<lparr>st_env := (st_env st)\<lparr>me_dpages := ds\<rparr>, st_heap := hp\<rparr>)"
    using i h(1) f(1) r(1) by simp
  moreover have "\<forall>g. Heap_page g \<notin> snd ` set (seg i (Suc k) ?dl) \<longrightarrow> hp g = st_heap st g"
    using r(2) f(2) s h(1) by auto
  ultimately show ?case by blast
qed

lemma dlist_free_ok:
  assumes ok: "dirty_blocks_ok st"
  shows "\<exists>ds hp dl. mdb_dlist_free st = Some (st\<lparr>st_env := (st_env st)\<lparr>me_dpages := ds\<rparr>, st_heap := hp,
      st_txn := (st_txn st)\<lparr>mt_dirty_list := dl\<rparr>\<rparr>) \<and>
    (\<forall>g. Heap_page g \<notin> set (dirty_ptrs st) \<longrightarrow> hp g = st_heap st g)"
proof -
  let ?dl = "mt_dirty_list (st_txn st)"
  let ?n = "unat (fst (?dl ! 0))"
  have d: "id2l_ok ?dl" "distinct (map snd (seg 1 ?n ?dl))" "\<forall>p \<in> snd ` set (seg 1 ?n ?dl). \<exists>h. p = Heap_page h \<and> st_heap st h \<noteq> None"
    and ptrs: "snd ` set (seg 1 ?n ?dl) = set (dirty_ptrs st)"
    using ok by (auto simp: dirty_blocks_ok_def dirty_ptrs_def id2l_elems_def)
  have l: "0 < length ?dl" "1 + ?n \<le> length ?dl" using d(1) by (auto simp: id2l_ok_def)
  obtain ds hp where f: "dlist_free_loop st 1 ?n = Some (st\<lparr>st_env := (st_env st)\<lparr>me_dpages := ds\<rparr>, st_heap := hp\<rparr>)"
    "\<forall>g. Heap_page g \<notin> snd ` set (seg 1 ?n ?dl) \<longrightarrow> hp g = st_heap st g"
    using dlist_free_loop_ok [OF l(2) d(2,3)] by blast
  have "mdb_dlist_free st = Some (st\<lparr>st_env := (st_env st)\<lparr>me_dpages := ds\<rparr>, st_heap := hp,
      st_txn := (st_txn st)\<lparr>mt_dirty_list := ?dl[0 := (0, snd (?dl ! 0))]\<rparr>\<rparr>)"
    using l f(1) by (simp add: mdb_dlist_free_def set_dl_count_def)
  then show ?thesis using f(2) unfolding ptrs by blast
qed

section \<open>Nested transactions\<close>

text \<open>A child that its operations have left as they may: with its own dirty pages, its parent and what it saved.\<close>

definition child_ready :: "'a tst_scheme \<Rightarrow> bool" where
  "child_ready st \<longleftrightarrow> dbs_ok (st_env st) (st_txn st) \<and> dirty_blocks_ok st \<and>
     \<not> F_ISSET (mt_flags (st_txn st)) MDB_TXN_RDONLY \<and> \<not> F_ISSET (mt_flags (st_txn st)) MDB_TXN_FINISHED \<and>
     \<not> has (me_flags (st_env st)) MDB_WRITEMAP"

text \<open>The transaction \<open>p\<close> is the current one, with everything that a nested one could change as it was in \<open>st\<close>.\<close>

definition given_back :: "'a tst_scheme \<Rightarrow> txn \<Rightarrow> 'a tst_scheme \<Rightarrow> bool" where
  "given_back st p st' \<longleftrightarrow> st_txn st' = p \<and> st_parents st' = st_parents st \<and> st_saved st' = st_saved st \<and>
     st_cursors st' = st_cursors st \<and> me_pghead (st_env st') = me_pghead (st_env st) \<and>
     me_pglast (st_env st') = me_pglast (st_env st)"

lemma txn_end_child:
  assumes ok: "child_ready st" and p: "st_parents st = p # ps" and sv: "st_saved st = sv # svs" and m: "\<not> has mode MDB_END_UPDATE"
  shows "\<exists>st'. mdb_txn_end st mode = Some st' \<and> st_txn st' = p\<lparr>mt_flags := mt_flags p AND NOT MDB_TXN_HAS_CHILD\<rparr> \<and>
    st_parents st' = ps \<and> st_saved st' = svs \<and> st_cursors st' = sv_cursors sv \<and> me_pghead (st_env st') = sv_pghead sv \<and>
    me_pglast (st_env st') = sv_pglast sv \<and> st_file st' = st_file st \<and>
    (\<forall>h. Heap_page h \<notin> set (dirty_ptrs st) \<longrightarrow> st_heap st' h = st_heap st h)"
proof -
  obtain env where env: "mdb_dbis_update (st_txn st) False (st_env st) = Some env" "handles_only (st_env st) env"
    using dbis_update_ok [of "st_env st" "st_txn st"] ok by (auto simp: child_ready_def)
  have fl: "me_flags env = me_flags (st_env st)" using env(2) by (auto simp: handles_only_def)
  let ?st1 = "mdb_cursors_close (st\<lparr>st_env := env\<rparr>) False"
  have c: "?st1 = st\<lparr>st_env := env, st_cursors := sv_cursors sv\<rparr>" using sv by (simp add: mdb_cursors_close_def)
  have d: "dirty_blocks_ok ?st1" "dirty_ptrs ?st1 = dirty_ptrs st"
    using ok unfolding c by (simp_all add: child_ready_def dirty_blocks_ok_def dirty_ptrs_def)
  obtain ds hp dl where f: "mdb_dlist_free ?st1 = Some (?st1\<lparr>st_env := (st_env ?st1)\<lparr>me_dpages := ds\<rparr>, st_heap := hp,
      st_txn := (st_txn ?st1)\<lparr>mt_dirty_list := dl\<rparr>\<rparr>)" "\<forall>g. Heap_page g \<notin> set (dirty_ptrs st) \<longrightarrow> hp g = st_heap st g"
    using dlist_free_ok [OF d(1)] d(2) c by auto
  let ?st2 = "?st1\<lparr>st_env := (st_env ?st1)\<lparr>me_dpages := ds\<rparr>, st_heap := hp, st_txn := (st_txn ?st1)\<lparr>mt_dirty_list := dl\<rparr>\<rparr>"
  let ?st3 = "upd_env (\<lambda>e. e\<lparr>me_pglast := sv_pglast sv, me_pghead := sv_pghead sv\<rparr>)
           (?st2\<lparr>st_txn := p\<lparr>mt_flags := mt_flags p AND NOT MDB_TXN_HAS_CHILD\<rparr>, st_parents := ps, st_saved := svs\<rparr>)"
  have "mdb_txn_end st mode = Some ?st3"
    using ok env(1) fl m f(1) p sv unfolding child_ready_def c
    by (simp add: mdb_txn_end_def txn_end_write_def c upd_txn_def upd_env_def)
  then show ?thesis using f(2) unfolding c by (simp add: upd_env_def)
qed

lemma no_child_flag: "\<not> has f MDB_TXN_HAS_CHILD \<Longrightarrow> (f OR MDB_TXN_HAS_CHILD) AND NOT MDB_TXN_HAS_CHILD = (f :: u32)"
proof -
  assume h: "\<not> has f MDB_TXN_HAS_CHILD"
  show ?thesis
  proof (rule bit_word_eqI)
    fix n
    have "\<not> (bit f n \<and> bit MDB_TXN_HAS_CHILD n)" using h unfolding has_def by (metis bit_and_iff bit_0_eq bot_apply bot_bool_def)
    then show "bit ((f OR MDB_TXN_HAS_CHILD) AND NOT MDB_TXN_HAS_CHILD) n = bit f n" if "n < LENGTH(32)"
      using that by (auto simp: bit_simps)
  qed
qed

lemma has_ors: "has (a OR b) f \<longleftrightarrow> has a f \<or> has b f" "has f (a OR b) \<longleftrightarrow> has f a \<or> has f b"
proof -
  have z: "x OR y \<noteq> 0 \<longleftrightarrow> x \<noteq> 0 \<or> y \<noteq> 0" for x y :: "'a::len word" by (simp add: or_eq_0_iff)
  have "(a OR b) AND f = (a AND f) OR (b AND f)" "f AND (a OR b) = (f AND a) OR (f AND b)" by (simp_all add: bit.conj_disj_distrib bit.conj_disj_distrib2)
  then show "has (a OR b) f \<longleftrightarrow> has a f \<or> has b f" "has f (a OR b) \<longleftrightarrow> has f a \<or> has f b" by (simp_all only: has_def z)
qed

lemma has_masked: "has (a AND f) f = has a f"
  by (simp add: has_def and.assoc)

lemma isset_has: "f \<noteq> 0 \<Longrightarrow> F_ISSET w f \<Longrightarrow> has w f"
  by (simp add: F_ISSET_def has_def)

definition parent_ready :: "'a tst_scheme \<Rightarrow> bool" where
  "parent_ready st \<longleftrightarrow> dbs_ok (st_env st) (st_txn st) \<and> mt_numdbs (st_txn st) \<le> me_maxdbs (st_env st) \<and> head_ok st"

lemma child_txn_ok:
  assumes "mt_numdbs p \<le> me_maxdbs env" "dbs_ok env p"
  shows "\<exists>c. child_txn env flags il p = Some c \<and> mt_numdbs c = mt_numdbs p \<and> length (mt_dbs c) = me_maxdbs env \<and>
    length (mt_dbflags c) = me_maxdbs env \<and> mt_dirty_list c = raw_dirty_list \<and> mt_flags c = flags \<and> mt_txnid c = mt_txnid p \<and>
    mt_next_pgno c = mt_next_pgno p \<and> take (mt_numdbs p) (mt_dbs c) = take (mt_numdbs p) (mt_dbs p) \<and> mt_dirty_room c = mt_dirty_room p"
  using assms by (simp add: child_txn_def raw_txn_def dbs_ok_def)

lemma copy_pghead_ok:
  assumes "head_ok st"
  shows "\<exists>rc h t. copy_pghead st = Some (rc, st\<lparr>st_env := (st_env st)\<lparr>me_pghead := h\<rparr>, st_os := (st_os st)\<lparr>os_time := t\<rparr>\<rparr>) \<and>
    (rc = 0 \<and> head_ok (st\<lparr>st_env := (st_env st)\<lparr>me_pghead := h\<rparr>\<rparr>) \<and> head_ids (st\<lparr>st_env := (st_env st)\<lparr>me_pghead := h\<rparr>\<rparr>) = head_ids st \<or>
     rc = ENOMEM \<and> \<not> os_malloc (st_os st) (os_time (st_os st)))"
proof (cases "me_pghead (st_env st)")
  case None
  have "copy_pghead st = Some (0, st\<lparr>st_env := (st_env st)\<lparr>me_pghead := None\<rparr>, st_os := (st_os st)\<lparr>os_time := os_time (st_os st)\<rparr>\<rparr>)"
    using None by (simp add: copy_pghead_def)
  moreover have "head_ok (st\<lparr>st_env := (st_env st)\<lparr>me_pghead := None\<rparr>\<rparr>)" "head_ids (st\<lparr>st_env := (st_env st)\<lparr>me_pghead := None\<rparr>\<rparr>) = head_ids st"
    using None by (simp_all add: head_ok_def head_ids_def mop_of_def)
  ultimately show ?thesis by blast
next
  case (Some il)
  have ok: "ids_ok (il_ids il)" "idl_desc (il_ids il)" using assms Some by (simp_all add: head_ok_def idl_ok_def)
  let ?n = "unat (il_ids il ! 0)"
  have n: "?n < length (il_ids il)" "?n < 2 ^ 31" "il_ids il \<noteq> []" using ok(1) by (auto simp: ids_ok_def)
  have u: "unat (ucast (il_ids il ! 0) :: u32) = ?n" using n(2) by (intro unat_ucast_u64_u32) simp
  obtain mem st1 where m: "ask_mem st = (mem, st1)" by (cases "ask_mem st")
  obtain t where st1: "st1 = st\<lparr>st_os := (st_os st)\<lparr>os_time := t\<rparr>\<rparr>"
    using m by (auto simp: ask_mem_def ask_malloc_def tick_def Let_def)
  show ?thesis
  proof (cases mem)
    case None
    have "copy_pghead st = Some (ENOMEM, st\<lparr>st_env := (st_env st)\<lparr>me_pghead := None\<rparr>, st_os := (st_os st)\<lparr>os_time := t\<rparr>\<rparr>)"
      using Some None m n(3) st1 by (simp add: copy_pghead_def mdb_midl_alloc_def upd_env_def)
    moreover have "\<not> os_malloc (st_os st) (os_time (st_os st))" using None m by (auto simp: ask_mem_def ask_malloc_def)
    ultimately show ?thesis by blast
  next
    case (Some g)
    define il' where "il' = \<lparr>il_alloc = of_nat ?n, il_ids = (map g [0..<?n + 1])[0 := 0]\<rparr>"
    have a: "mdb_midl_alloc mem ?n = Some il'" using Some by (simp add: mdb_midl_alloc_def il'_def)
    let ?ids = "take (?n + 1) (il_ids il)"
    have c: "acopy (il_ids il') 0 (il_ids il) 0 (?n + 1) = Some ?ids" using n(1) by (simp add: il'_def acopy_def)
    let ?h = "Some (il'\<lparr>il_ids := ?ids\<rparr>)"
    have "copy_pghead st = Some (0, st\<lparr>st_env := (st_env st)\<lparr>me_pghead := ?h\<rparr>, st_os := (st_os st)\<lparr>os_time := t\<rparr>\<rparr>)"
      using \<open>me_pghead (st_env st) = Some il\<close> m n(1,3) u a c st1 by (simp add: copy_pghead_def upd_env_def)
    moreover have e: "idl_elems ?ids = idl_elems (il_ids il)" using n by (simp add: idl_elems_def drop_take)
    have "unat (of_nat ?n :: u64) = ?n" using n(2) by (simp add: unsigned_of_nat take_bit_nat_eq_self)
    then have "head_ok (st\<lparr>st_env := (st_env st)\<lparr>me_pghead := ?h\<rparr>\<rparr>)"
      using ok e n by (auto simp: head_ok_def idl_ok_def ids_ok_def idl_desc_def il'_def)
    moreover have "head_ids (st\<lparr>st_env := (st_env st)\<lparr>me_pghead := ?h\<rparr>\<rparr>) = head_ids st"
      using e \<open>me_pghead (st_env st) = Some il\<close> by (simp add: head_ids_def mop_of_def)
    ultimately show ?thesis by blast
  qed
qed

lemma shadow_ok: "\<exists>rc t bks'. mdb_cursor_shadow st ms bks = (rc, st\<lparr>st_os := (st_os st)\<lparr>os_time := t\<rparr>\<rparr>, bks') \<and>
  (rc = 0 \<or> rc = ENOMEM \<and> (\<exists>t. \<not> os_malloc (st_os st) t))"
proof (induction ms arbitrary: st bks)
  case Nil
  have "mdb_cursor_shadow st [] bks = (0, st\<lparr>st_os := (st_os st)\<lparr>os_time := os_time (st_os st)\<rparr>\<rparr>, bks)"
    by simp
  then show ?case by blast
next
  case (Cons m ms)
  let ?st1 = "st\<lparr>st_os := (st_os st)\<lparr>os_time := os_time (st_os st) + 1\<rparr>\<rparr>"
  have a: "ask_malloc st = (os_malloc (st_os st) (os_time (st_os st)), ?st1)" by (simp add: ask_malloc_def tick_def)
  obtain rc t bks' where "mdb_cursor_shadow ?st1 ms (bks @ [m]) = (rc, ?st1\<lparr>st_os := (st_os ?st1)\<lparr>os_time := t\<rparr>\<rparr>, bks')"
    "rc = 0 \<or> rc = ENOMEM \<and> (\<exists>t. \<not> os_malloc (st_os ?st1) t)" using Cons.IH by blast
  then show ?case using a by (cases "os_malloc (st_os st) (os_time (st_os st))") auto
qed

text \<open>The two outcomes of beginning a nested transaction.\<close>

definition child_begun :: "'a tst_scheme \<Rightarrow> 'a tst_scheme \<Rightarrow> bool" where
  "child_begun st st' \<longleftrightarrow> (let p = st_txn st in
     child_ready st' \<and> dirty_ptrs st' = [] \<and> mt_txnid (st_txn st') = mt_txnid p \<and> mt_next_pgno (st_txn st') = mt_next_pgno p \<and>
     mt_numdbs (st_txn st') = mt_numdbs p \<and> take (mt_numdbs p) (mt_dbs (st_txn st')) = take (mt_numdbs p) (mt_dbs p) \<and>
     st_parents st' = p\<lparr>mt_flags := mt_flags p OR MDB_TXN_HAS_CHILD\<rparr> # st_parents st \<and>
     st_saved st' = \<lparr>sv_pghead = me_pghead (st_env st), sv_pglast = me_pglast (st_env st), sv_cursors = st_cursors st\<rparr> # st_saved st \<and>
     st_cursors st' = st_cursors st \<and> head_ok st' \<and> head_ids st' = head_ids st)"

lemma raw_dirty: "id2l_ok raw_dirty_list" "id2l_elems raw_dirty_list = []"
  by (simp_all add: raw_dirty_list_def id2l_ok_def id2l_elems_def seg_def)

lemma begin_child_ok:
  assumes ready: "parent_ready st" and fl: "\<not> has flags (MDB_RDONLY OR MDB_WRITEMAP OR MDB_TXN_BLOCKED)"
    and sub: "\<not> has (mt_flags (st_txn st)) MDB_TXN_HAS_CHILD" and wm: "\<not> has (me_flags (st_env st)) MDB_WRITEMAP"
  shows "\<exists>rc st'. begin_child st flags = Some (rc, st') \<and> st_file st' = st_file st \<and> st_heap st' = st_heap st \<and>
    (rc = 0 \<and> child_begun st st' \<or>
     rc = ENOMEM \<and> given_back st (st_txn st) st' \<and> (\<exists>t. \<not> os_malloc (st_os st) t))"
proof -
  let ?p = "st_txn st" and ?N = "\<lambda>n. st\<lparr>st_os := (st_os st)\<lparr>os_time := os_time (st_os st) + n\<rparr>\<rparr>"
  let ?ok = "\<lambda>n. os_malloc (st_os st) (os_time (st_os st) + n)"
  have gb: "given_back st ?p (st\<lparr>st_os := (st_os st)\<lparr>os_time := t\<rparr>\<rparr>)" for t by (simp add: given_back_def)
  have ask: "ask_malloc (?N n) = (?ok n, ?N (n + 1))" for n by (simp add: ask_malloc_def tick_def)
  have N0: "?N 0 = st" by simp
  show ?thesis
  proof (cases "?ok 0 \<and> ?ok 1 \<and> ?ok 2")
    case False
    have "\<exists>t. begin_child st flags = Some (ENOMEM, st\<lparr>st_os := (st_os st)\<lparr>os_time := t\<rparr>\<rparr>)"
      using False ask [of 0] ask [of 1] ask [of 2]
      by (auto simp: begin_child_def ask_mem_def mdb_midl_alloc_def numeral_2_eq_2 Let_def)
    then show ?thesis using gb False by fastforce
  next
    case True
    define il where "il = \<lparr>il_alloc = of_nat MDB_IDL_UM_MAX, il_ids = (map (st_idjunk st (os_time (st_os st) + 2)) [0..<MDB_IDL_UM_MAX + 1])[0 := 0]\<rparr>"
    have mem: "ask_mem (?N 2) = (Some (st_idjunk st (os_time (st_os st) + 2)), ?N 3)"
      using True ask [of 2] by (simp add: ask_mem_def)
    obtain c where c: "child_txn (st_env st) flags il ?p = Some c" "mt_numdbs c = mt_numdbs ?p" "length (mt_dbs c) = me_maxdbs (st_env st)"
      "length (mt_dbflags c) = me_maxdbs (st_env st)" "mt_dirty_list c = raw_dirty_list" "mt_flags c = flags" "mt_txnid c = mt_txnid ?p"
      "mt_next_pgno c = mt_next_pgno ?p" "take (mt_numdbs ?p) (mt_dbs c) = take (mt_numdbs ?p) (mt_dbs ?p)"
      using child_txn_ok [of ?p "st_env st" flags il] ready by (auto simp: parent_ready_def)
    let ?p' = "?p\<lparr>mt_flags := mt_flags ?p OR MDB_TXN_HAS_CHILD\<rparr>"
    let ?sv = "\<lparr>sv_pghead = me_pghead (st_env st), sv_pglast = me_pglast (st_env st), sv_cursors = st_cursors st\<rparr>"
    let ?st1 = "(?N 3)\<lparr>st_txn := c, st_parents := ?p' # st_parents st, st_saved := ?sv # st_saved st\<rparr>"
    have h1: "head_ok ?st1" "head_ids ?st1 = head_ids st" using ready by (simp_all add: parent_ready_def head_ok_def head_ids_def mop_of_def)
    obtain rc1 h t where C: "copy_pghead ?st1 = Some (rc1, ?st1\<lparr>st_env := (st_env st)\<lparr>me_pghead := h\<rparr>, st_os := (st_os st)\<lparr>os_time := t\<rparr>\<rparr>)"
      "rc1 = 0 \<and> head_ok (?st1\<lparr>st_env := (st_env st)\<lparr>me_pghead := h\<rparr>\<rparr>) \<and> head_ids (?st1\<lparr>st_env := (st_env st)\<lparr>me_pghead := h\<rparr>\<rparr>) = head_ids st \<or>
       rc1 = ENOMEM \<and> \<not> os_malloc (st_os st) (os_time (st_os st) + 3)"
      using copy_pghead_ok [OF h1(1)] h1(2) by auto
    let ?S = "\<lambda>t. ?st1\<lparr>st_env := (st_env st)\<lparr>me_pghead := h\<rparr>, st_os := (st_os st)\<lparr>os_time := t\<rparr>\<rparr>"
    have cr: "child_ready (?S t)" for t
    proof -
      have "dirty_ptrs (?S t) = []" using c(5) raw_dirty by (simp add: dirty_ptrs_def)
      moreover have "dbs_ok (st_env (?S t)) (st_txn (?S t))" using c ready by (auto simp: parent_ready_def dbs_ok_def)
      moreover have "\<not> F_ISSET flags MDB_TXN_RDONLY" "\<not> F_ISSET flags MDB_TXN_FINISHED"
      proof -
        have "\<not> has flags MDB_TXN_RDONLY" "\<not> has flags MDB_TXN_FINISHED"
          using fl by (simp_all add: has_ors MDB_TXN_RDONLY_def MDB_TXN_BLOCKED_def)
        moreover have "MDB_TXN_RDONLY \<noteq> 0" "MDB_TXN_FINISHED \<noteq> 0" by (simp_all add: MDB_TXN_RDONLY_def MDB_RDONLY_def txn_flag_defs)
        ultimately show "\<not> F_ISSET flags MDB_TXN_RDONLY" "\<not> F_ISSET flags MDB_TXN_FINISHED" using isset_has by blast+
      qed
      ultimately show ?thesis using c raw_dirty wm by (simp add: child_ready_def dirty_blocks_ok_def)
    qed
    obtain rc2 t2 bk where D: "mdb_cursor_shadow (?S t) (st_cursors st) [] = (rc2, ?S t2, bk)"
      "rc2 = 0 \<or> rc2 = ENOMEM \<and> (\<exists>t. \<not> os_malloc (st_os st) t)"
      using shadow_ok [of "?S t" "st_cursors st" "[]"] by auto
    have E: "\<exists>st'. mdb_txn_end (?S t) MDB_END_FAIL_BEGINCHILD = Some st' \<and> given_back st ?p st' \<and> st_file st' = st_file st \<and> st_heap st' = st_heap st" for t
    proof -
      have dp: "dirty_ptrs (?S t) = []" using c(5) raw_dirty by (simp add: dirty_ptrs_def)
      have f: "?p'\<lparr>mt_flags := mt_flags ?p' AND NOT MDB_TXN_HAS_CHILD\<rparr> = ?p" using no_child_flag [OF sub] by simp
      show ?thesis
        using txn_end_child [OF cr, of t ?p' "st_parents st" ?sv "st_saved st" MDB_END_FAIL_BEGINCHILD] dp f
        by (fastforce simp: given_back_def end_defs has_def fun_eq_iff)
    qed
    have pre: "begin_child st flags = do {
        (rc, st) \<leftarrow> copy_pghead ?st1;
        let (rc, st) = (if rc \<noteq> 0 then (rc, st) else (let (rc, st, _) = mdb_cursor_shadow st (st_cursors st) [] in (rc, st)));
        if rc \<noteq> 0 then do { st \<leftarrow> mdb_txn_end st MDB_END_FAIL_BEGINCHILD; Some (rc, st) }
        else Some (0, upd_txn (\<lambda>t. t\<lparr>mt_flags := mt_flags t OR flags\<rparr>) st) }"
      using True ask [of 0] ask [of 1] mem c(1)
      by (simp add: begin_child_def mdb_midl_alloc_def il_def numeral_2_eq_2 numeral_3_eq_3 Let_def)
    show ?thesis
    proof (cases "rc1 = 0 \<and> rc2 = 0")
      case True
      let ?st' = "upd_txn (\<lambda>t. t\<lparr>mt_flags := mt_flags t OR flags\<rparr>) (?S t2)"
      have f: "c\<lparr>mt_flags := mt_flags c OR flags\<rparr> = c" using c(6) by (cases c) simp
      then have st': "?st' = ?S t2" by (simp add: upd_txn_def)
      have "begin_child st flags = Some (0, ?st')" using pre C(1) D(1) True by simp
      moreover have "child_begun st (?S t2)"
        using cr [of t2] c C(2) True raw_dirty
        by (simp add: child_begun_def Let_def dirty_ptrs_def head_ok_def head_ids_def mop_of_def)
      ultimately show ?thesis unfolding st' by auto
    next
      case False
      then obtain t' where "begin_child st flags = do { st \<leftarrow> mdb_txn_end (?S t') MDB_END_FAIL_BEGINCHILD; Some (ENOMEM, st) }"
        using pre C D by (cases "rc1 = 0") auto
      moreover have "\<exists>t. \<not> os_malloc (st_os st) t" using False C(2) D(2) by blast
      ultimately show ?thesis using E [of t'] by auto
    qed
  qed
qed

lemma txn_begin_nested:
  obtains (no) rc where "mdb_txn_begin st True flags = Some (rc, st)" "rc \<in> {EACCES, EINVAL, MDB_BAD_TXN}"
  | (yes) fl where "mdb_txn_begin st True flags = begin_child st fl" "\<not> has fl (MDB_RDONLY OR MDB_WRITEMAP OR MDB_TXN_BLOCKED)"
      "\<not> has (mt_flags (st_txn st)) MDB_TXN_HAS_CHILD" "\<not> has (me_flags (st_env st)) MDB_WRITEMAP"
proof -
  define fl0 where "fl0 = (flags AND MDB_TXN_BEGIN_FLAGS) OR (me_flags (st_env st) AND MDB_WRITEMAP)"
  define fl where "fl = fl0 OR mt_flags (st_txn st)"
  have run: "mdb_txn_begin st True flags =
      (if me_flags (st_env st) AND MDB_RDONLY AND NOT fl0 \<noteq> 0 then Some (EACCES, st)
       else if has fl (MDB_RDONLY OR MDB_WRITEMAP OR MDB_TXN_BLOCKED) then
         Some (if has (mt_flags (st_txn st)) MDB_TXN_RDONLY then EINVAL else MDB_BAD_TXN, st)
       else begin_child st fl)"
    by (simp add: mdb_txn_begin_def fl0_def fl_def Let_def)
  show ?thesis
  proof (cases "me_flags (st_env st) AND MDB_RDONLY AND NOT fl0 \<noteq> 0 \<or> has fl (MDB_RDONLY OR MDB_WRITEMAP OR MDB_TXN_BLOCKED)")
    case True
    then obtain rc where "mdb_txn_begin st True flags = Some (rc, st)" "rc \<in> {EACCES, EINVAL, MDB_BAD_TXN}"
      using run by (auto split: if_splits)
    then show ?thesis by (rule no)
  next
    case False
    then have "\<not> has fl MDB_WRITEMAP" "\<not> has fl MDB_TXN_HAS_CHILD" by (simp_all add: has_ors MDB_TXN_BLOCKED_def)
    then have "\<not> has (me_flags (st_env st)) MDB_WRITEMAP" "\<not> has (mt_flags (st_txn st)) MDB_TXN_HAS_CHILD"
      by (simp_all add: fl_def fl0_def has_ors has_masked)
    then show ?thesis using run False by (intro yes [of fl]) auto
  qed
qed

lemma begin_codes: "EACCES \<noteq> 0" "EINVAL \<noteq> 0" "MDB_BAD_TXN \<noteq> 0"
  by (simp_all add: EACCES_def EINVAL_def MDB_BAD_TXN_def)

text \<open>C18: Beginning a nested transaction either gives the child a copy of the parent's database records and of its list of
  reclaimed pages, with no dirty pages of its own, and marks the parent, or it fails and leaves the parent as it was,
  with the cursors and the page state that it had. Neither the file nor any page in memory changes.\<close>

theorem nested_begin_correct:
  assumes "parent_ready st"
  shows "\<exists>rc st'. mdb_txn_begin st True flags = Some (rc, st') \<and> st_file st' = st_file st \<and> st_heap st' = st_heap st \<and>
    (rc = 0 \<and> child_begun st st' \<or> rc \<in> {ENOMEM, EACCES, EINVAL, MDB_BAD_TXN} \<and> given_back st (st_txn st) st')"
proof (cases rule: txn_begin_nested [of st flags])
  case (no rc)
  then show ?thesis by (auto simp: given_back_def)
next
  case (yes fl)
  then show ?thesis using begin_child_ok [OF assms yes(2-4)] by auto
qed


section \<open>An instance\<close>

definition txn_st :: tst where
  "txn_st = \<lparr>st_env = st_env write_st, st_file = st_file write_st, st_heap = st_heap write_st, st_txn = (st_txn write_st)\<lparr>mt_numdbs := 0\<rparr>,
     st_parents = [], st_os = demo_os, st_brk = 0, st_junk = (\<lambda>_ _. 0), st_idjunk = (\<lambda>_ _. 0), st_cursors = [], st_saved = [],
     st_tls = None, st_tid = 7, st_wlocked = True, st_setspecific = (\<lambda>_. 0), st_seen = (\<lambda>_. 8)\<rparr>"

lemma txn_st_ready: "parent_ready txn_st"
  by (simp add: parent_ready_def txn_st_def dbs_ok_def head_ok_def write_st_def write_at_def demo_env_def)

lemma nested_begin_correct_witness:
  "\<exists>rc st'. mdb_txn_begin txn_st True 0 = Some (rc, st') \<and> st_file st' = st_file txn_st \<and> st_heap st' = st_heap txn_st \<and>
    (rc = 0 \<and> child_begun txn_st st' \<or> rc \<in> {ENOMEM, EACCES, EINVAL, MDB_BAD_TXN} \<and> given_back txn_st (st_txn txn_st) st')"
  by (rule nested_begin_correct [OF txn_st_ready])

lemma txn_st_begins: "\<exists>st1. mdb_txn_begin txn_st True 0 = Some (0, st1) \<and> child_ready st1"
proof (cases rule: txn_begin_nested [of txn_st 0])
  case (no rc)
  have "mdb_txn_begin txn_st True 0 = begin_child txn_st 0"
    by (simp add: mdb_txn_begin_def txn_st_def write_st_def write_at_def demo_env_def demo_txn_def has_def)
  moreover have "\<exists>rc st'. begin_child txn_st 0 = Some (rc, st') \<and> st_file st' = st_file txn_st \<and> st_heap st' = st_heap txn_st \<and>
    (rc = 0 \<and> child_begun txn_st st' \<or> rc = ENOMEM \<and> given_back txn_st (st_txn txn_st) st' \<and> (\<exists>t. \<not> os_malloc (st_os txn_st) t))"
    by (rule begin_child_ok [OF txn_st_ready])
      (simp_all add: has_def txn_st_def write_st_def write_at_def demo_env_def demo_txn_def)
  moreover have "os_malloc (st_os txn_st) t" for t by (simp add: txn_st_def demo_os_def)
  ultimately show ?thesis by (auto simp: child_begun_def Let_def)
next
  case (yes fl)
  have "os_malloc (st_os txn_st) t" for t by (simp add: txn_st_def demo_os_def)
  then show ?thesis using begin_child_ok [OF txn_st_ready yes(2-4)] yes(1) by (auto simp: child_begun_def Let_def)
qed


end
