(* ===== verification/Txn_Begin.thy ===== *)
theory Txn_Begin
  imports Txn_Correct
begin

text \<open>
  Beginning a read-only transaction with a lock file: the slot in the reader table and the snapshot.
\<close>

section \<open>Claiming a slot\<close>

lemma free_slot_ok:
  "i + k \<le> length rs \<Longrightarrow> \<exists>j. free_slot rs i k = Some j \<and> i \<le> j \<and> j \<le> i + k \<and> (j < i + k \<longrightarrow> mr_pid (rs ! j) = 0)"
proof (induction k arbitrary: i)
  case (Suc k)
  show ?case
  proof (cases "mr_pid (rs ! i) = 0")
    case False
    obtain j where "free_slot rs (i + 1) k = Some j" "i + 1 \<le> j" "j \<le> i + 1 + k" "j < i + 1 + k \<longrightarrow> mr_pid (rs ! j) = 0"
      using Suc.IH [of "i + 1"] Suc.prems by auto
    then show ?thesis using Suc.prems False by auto
  qed (use Suc.prems in auto)
qed auto

text \<open>\<open>st'\<close> differs from \<open>st\<close> only in what taking a reader slot changes; its reader table is \<open>ti\<close>.\<close>

definition slot_only :: "'a tst_scheme \<Rightarrow> txninfo \<Rightarrow> 'a tst_scheme \<Rightarrow> bool" where
  "slot_only st ti st' \<longleftrightarrow> (\<exists>c l t tls. st' = st\<lparr>st_env := (st_env st)\<lparr>me_close_readers := c, me_txns := Some ti, me_live_reader := l\<rparr>,
     st_os := (st_os st)\<lparr>os_time := t\<rparr>, st_tls := tls\<rparr>)"

lemma slot_onlyI:
  "st' = st\<lparr>st_env := (st_env st)\<lparr>me_close_readers := c, me_txns := Some ti, me_live_reader := l\<rparr>,
     st_os := (st_os st)\<lparr>os_time := t\<rparr>, st_tls := tls\<rparr> \<Longrightarrow> slot_only st ti st'"
  unfolding slot_only_def by blast

text \<open>What is assumed of the operating system and of the reader table.\<close>

definition table_ok :: "'a tst_scheme \<Rightarrow> txninfo \<Rightarrow> bool" where
  "table_ok st ti \<longleftrightarrow> me_txns (st_env st) = Some ti \<and> mti_numreaders ti \<le> me_maxreaders (st_env st) \<and>
     me_maxreaders (st_env st) \<le> length (mti_readers ti) \<and> (\<forall>t. os_lock (st_os st) t = 0) \<and>
     (\<forall>t p. mdb_reader_pid False (os_fcntl (st_os st) t p) \<noteq> None) \<and> (\<forall>t. \<exists>k. calm (st_seen st) t k) \<and>
     (\<forall>i. st_tls st = Some i \<longrightarrow> i < length (mti_readers ti))"

text \<open>The slot \<open>i\<close> has the contents \<open>r\<close>, the others are as they were.\<close>

definition slot_set :: "txninfo \<Rightarrow> nat \<Rightarrow> reader \<Rightarrow> txninfo \<Rightarrow> bool" where
  "slot_set ti i r ti' \<longleftrightarrow> i < length (mti_readers ti) \<and> mti_readers ti' = (mti_readers ti)[i := r]"

lemma publish_ok:
  assumes "me_txns env = Some ti" "i < length (mti_readers ti)"
  shows "publish_slot env nr i tid = Some (env\<lparr>me_close_readers := if i = nr then nr + 1 else nr,
    me_txns := Some (ti\<lparr>mti_numreaders := if i = nr then nr + 1 else nr, mti_readers := (mti_readers ti)[i := \<lparr>mr_txnid = -1, mr_pid = me_pid env, mr_tid = tid\<rparr>]\<rparr>)\<rparr>)"
  using assms by (simp add: publish_slot_def upd_reader_def upd_ti_def)

lemma claim_slot_ok:
  assumes ok: "table_ok st ti"
  shows "\<exists>rc st' ti' r. claim_slot st = Some (rc, st', r) \<and> slot_only st ti' st' \<and>
    (rc = 0 \<and> (\<exists>i. r = Some i \<and> i < mti_numreaders ti' \<and> (i < mti_numreaders ti \<longrightarrow> mr_pid (mti_readers ti ! i) = 0) \<and>
        slot_set ti i \<lparr>mr_txnid = -1, mr_pid = me_pid (st_env st), mr_tid = st_tid st\<rparr> ti') \<or>
     rc \<noteq> 0 \<and> (mti_readers ti' = mti_readers ti \<or> (\<exists>i. slot_set ti i \<lparr>mr_txnid = -1, mr_pid = 0, mr_tid = st_tid st\<rparr> ti')))"
proof -
  let ?env = "st_env st" and ?os = "st_os st"
  obtain rc1 l t where A: "(if \<not> me_live_reader ?env then do {
          rc \<leftarrow> mdb_reader_pid False (os_fcntl ?os (os_time ?os) (me_pid ?env));
          Some (rc, (if rc = 0 then ?env\<lparr>me_live_reader := True\<rparr> else ?env), tick ?os) }
        else Some (0, ?env, ?os)) = Some (rc1, ?env\<lparr>me_live_reader := l\<rparr>, ?os\<lparr>os_time := t\<rparr>)"
  proof (cases "me_live_reader ?env")
    case True
    then show ?thesis using that [of 0 True "os_time ?os"] by simp
  next
    case False
    obtain rc where r: "mdb_reader_pid False (os_fcntl ?os (os_time ?os) (me_pid ?env)) = Some rc" using ok unfolding table_ok_def by blast
    then show ?thesis using False that [of rc "rc = 0" "os_time ?os + 1"] by (simp add: tick_def)
  qed
  let ?e1 = "?env\<lparr>me_live_reader := l\<rparr>" and ?o1 = "?os\<lparr>os_time := t\<rparr>" and ?o2 = "?os\<lparr>os_time := t + 1\<rparr>"
  show ?thesis
  proof (cases "rc1 = 0")
    case False
    then have "claim_slot st = Some (rc1, st\<lparr>st_env := ?e1, st_os := ?o1\<rparr>, None)" using A by (simp add: claim_slot_def Let_def)
    moreover have "slot_only st ti (st\<lparr>st_env := ?e1, st_os := ?o1\<rparr>)"
      by (rule slot_onlyI [where c = "me_close_readers ?env" and l = l and t = t and tls = "st_tls st"]) (use ok in \<open>simp add: table_ok_def\<close>)
    ultimately show ?thesis using False by blast
  next
    case True
    have T: "me_txns ?e1 = Some ti" using ok by (simp add: table_ok_def)
    have lk: "lock_rmutex (st_file st) ?e1 ti ?o1 = Some (0, False, ti, ?o2)"
      using ok by (simp add: lock_rmutex_def table_ok_def tick_def)
    have same: "?e1\<lparr>me_txns := Some ti\<rparr> = ?e1" using T by simp
    let ?nr = "mti_numreaders ti"
    obtain i where i: "free_slot (mti_readers ti) 0 ?nr = Some i" "i \<le> ?nr" "i < ?nr \<longrightarrow> mr_pid (mti_readers ti ! i) = 0"
      using free_slot_ok [of 0 ?nr "mti_readers ti"] ok by (auto simp: table_ok_def)
    have run: "claim_slot st =
        (if i = me_maxreaders ?env then Some (MDB_READERS_FULL, st\<lparr>st_env := ?e1, st_os := ?o2\<rparr>, None)
         else do {
           env \<leftarrow> publish_slot ?e1 ?nr i (st_tid st);
           let rc = (if has (me_flags env) MDB_NOTLS then 0 else st_setspecific st (t + 1));
           let st = st\<lparr>st_env := env, st_os := (if has (me_flags env) MDB_NOTLS then ?o2 else tick ?o2)\<rparr>;
           if rc \<noteq> 0 then do {
             env \<leftarrow> upd_reader (\<lambda>r. r\<lparr>mr_pid := 0\<rparr>) i env;
             Some (rc, st\<lparr>st_env := env\<rparr>, None) }
           else Some (0, (if has (me_flags env) MDB_NOTLS then st else st\<lparr>st_tls := Some i\<rparr>), Some i) })"
    proof -
      define e1 where "e1 = ?e1"
      note F = A [folded e1_def] lk [folded e1_def] same [folded e1_def] T [folded e1_def]
      have m: "me_maxreaders e1 = me_maxreaders ?env" by (simp add: e1_def)
      show ?thesis unfolding e1_def [symmetric]
        using F(1,2,4) True i(1) m by (simp add: claim_slot_def Let_def F(3) cong: if_cong)
    qed
    show ?thesis
    proof (cases "i = me_maxreaders ?env")
      case full: True
      have "slot_only st ti (st\<lparr>st_env := ?e1, st_os := ?o2\<rparr>)"
        by (rule slot_onlyI [where c = "me_close_readers ?env" and l = l and t = "t + 1" and tls = "st_tls st"]) (use ok in \<open>simp add: table_ok_def\<close>)
      moreover have "MDB_READERS_FULL \<noteq> 0" by (simp add: MDB_READERS_FULL_def)
      ultimately show ?thesis using run full by auto
    next
      case room: False
      have il: "i < length (mti_readers ti)" using i(2) room ok by (simp add: table_ok_def)
      let ?r = "\<lparr>mr_txnid = -1, mr_pid = me_pid ?env, mr_tid = st_tid st\<rparr>"
      let ?n' = "if i = ?nr then ?nr + 1 else ?nr"
      let ?ti' = "ti\<lparr>mti_numreaders := ?n', mti_readers := (mti_readers ti)[i := ?r]\<rparr>"
      define e2 where "e2 = ?env\<lparr>me_close_readers := ?n', me_txns := Some ?ti', me_live_reader := l\<rparr>"
      have P: "publish_slot ?e1 ?nr i (st_tid st) = Some e2"
        using publish_ok [OF T il] by (cases ?env) (simp add: e2_def)
      have in_n: "i < ?n'" using i(2) by auto
      have e2: "me_flags e2 = me_flags ?env" "me_txns e2 = Some ?ti'" by (simp_all add: e2_def)
      define notls where "notls = has (me_flags ?env) MDB_NOTLS"
      have R: "claim_slot st = (if \<not> notls \<and> st_setspecific st (t + 1) \<noteq> 0 then do {
             env \<leftarrow> upd_reader (\<lambda>r. r\<lparr>mr_pid := 0\<rparr>) i e2;
             Some (st_setspecific st (t + 1), st\<lparr>st_os := tick ?o2, st_env := env\<rparr>, None) }
           else Some (0, if notls then st\<lparr>st_env := e2, st_os := ?o2\<rparr> else st\<lparr>st_env := e2, st_os := tick ?o2, st_tls := Some i\<rparr>, Some i))"
        using room by (simp add: run P e2 notls_def)
      show ?thesis
      proof (cases "\<not> notls \<and> st_setspecific st (t + 1) \<noteq> 0")
        case good: False
        let ?st' = "if notls then st\<lparr>st_env := e2, st_os := ?o2\<rparr> else st\<lparr>st_env := e2, st_os := tick ?o2, st_tls := Some i\<rparr>"
        have "claim_slot st = Some (0, ?st', Some i)" using R unfolding if_not_P [OF good] .
        moreover have "slot_only st ?ti' ?st'"
          by (rule slot_onlyI [where c = "?n'" and l = l and t = "if notls then t + 1 else t + 2" and
            tls = "if notls then st_tls st else Some i"]) (simp add: tick_def e2_def)
        moreover have "slot_set ti i ?r ?ti'" using il by (simp add: slot_set_def)
        ultimately show ?thesis using in_n i(3) by (intro exI [of _ 0] exI [of _ ?st'] exI [of _ ?ti']) auto
      next
        case bad: True
        let ?ti2 = "?ti'\<lparr>mti_readers := (mti_readers ti)[i := ?r\<lparr>mr_pid := 0\<rparr>]\<rparr>"
        let ?st' = "st\<lparr>st_env := e2\<lparr>me_txns := Some ?ti2\<rparr>, st_os := tick ?o2\<rparr>"
        have "claim_slot st = Some (st_setspecific st (t + 1), ?st', None)"
          using R il e2(2) unfolding if_P [OF bad] by (cases st) (simp add: upd_reader_def)
        moreover have "slot_only st ?ti2 ?st'"
          by (rule slot_onlyI [where c = "?n'" and l = l and t = "t + 2" and tls = "st_tls st"]) (simp add: tick_def e2_def)
        moreover have "slot_set ti i \<lparr>mr_txnid = -1, mr_pid = 0, mr_tid = st_tid st\<rparr> ?ti2" using il by (simp add: slot_set_def)
        ultimately show ?thesis using bad by blast
      qed
    qed
  qed
qed

section \<open>Taking the snapshot\<close>

text \<open>Slot \<open>i\<close> announces the snapshot \<open>snap\<close> for this process, or is only idle; the other slots are as they were.\<close>

definition announces :: "'a tst_scheme \<Rightarrow> txninfo \<Rightarrow> nat \<Rightarrow> u64 \<Rightarrow> txninfo \<Rightarrow> bool" where
  "announces st ti i snap ti' \<longleftrightarrow> mti_txnid ti' = snap \<and>
     (\<exists>tid. slot_set ti i \<lparr>mr_txnid = snap, mr_pid = me_pid (st_env st), mr_tid = tid\<rparr> ti')"

definition no_snapshot :: "txninfo \<Rightarrow> txninfo \<Rightarrow> bool" where
  "no_snapshot ti ti' \<longleftrightarrow> mti_readers ti' = mti_readers ti \<or> (\<exists>i r. slot_set ti i r ti' \<and> mr_txnid r = -1)"

lemma slot_set_trans: "slot_set ti i r ti' \<Longrightarrow> slot_set ti' i r' ti'' \<Longrightarrow> slot_set ti i r' ti''"
  by (auto simp: slot_set_def)

lemma renew_read_ok:
  assumes ok: "table_ok st ti" and own: "\<forall>i. mt_reader (st_txn st) = Some i \<longrightarrow> i < length (mti_readers ti)"
  shows "\<exists>rc st' m fresh ti'. renew_read st = Some (rc, st', m, fresh) \<and>
    (rc = 0 \<and> (\<exists>st1 i snap. slot_only st ti' st1 \<and> announces st ti i snap ti' \<and>
       st' = upd_txn (\<lambda>t. t\<lparr>mt_txnid := snap, mt_reader := Some i\<rparr>) st1 \<and>
       m = Some (meta_at (st_file st) (me_metas (st_env st) (unat (snap AND 1))))) \<or>
     rc \<noteq> 0 \<and> slot_only st ti' st' \<and> no_snapshot ti ti')"
proof -
  let ?notls = "has (me_flags (st_env st)) MDB_NOTLS"
  have T: "me_txns (st_env st) = Some ti" using ok by (simp add: table_ok_def)
  have so: "slot_only st ti st"
    by (rule slot_onlyI [where c = "me_close_readers (st_env st)" and l = "me_live_reader (st_env st)" and
      t = "os_time (st_os st)" and tls = "st_tls st"]) (use T in simp)
  define step where "step = (case (if ?notls then mt_reader (st_txn st) else st_tls st) of
       Some i \<Rightarrow> do {
         r \<leftarrow> aget (mti_readers ti) i;
         Some (if mr_pid r \<noteq> me_pid (st_env st) \<or> mr_txnid r \<noteq> -1 then (MDB_BAD_RSLOT, st, None, False)
               else (0, st, Some i, False)) }
     | None \<Rightarrow> do { (rc, st, r) \<leftarrow> claim_slot st; Some (rc, st, r, ?notls) })"
  have run: "renew_read st = do {
          (rc, st, r, fresh) \<leftarrow> step;
          if rc \<noteq> 0 then Some (rc, st, None, False)
          else do {
            i \<leftarrow> r;
            (snap, t) \<leftarrow> take_snapshot (st_seen st) (os_time (st_os st));
            env \<leftarrow> upd_reader (\<lambda>r. r\<lparr>mr_txnid := snap\<rparr>) i (upd_ti (\<lambda>ti. ti\<lparr>mti_txnid := snap\<rparr>) (st_env st));
            let st = st\<lparr>st_env := env, st_os := (st_os st)\<lparr>os_time := t\<rparr>\<rparr>;
            Some (0, upd_txn (\<lambda>t. t\<lparr>mt_txnid := snap, mt_reader := Some i\<rparr>) st,
              Some (meta_at (st_file st) (me_metas env (unat (snap AND 1)))), fresh) } }"
    by (simp only: renew_read_def T step_def option.case Let_def)
  have S: "\<exists>rc st1 r fresh ti1. step = Some (rc, st1, r, fresh) \<and> slot_only st ti1 st1 \<and>
    (rc = 0 \<and> (\<exists>i tid. r = Some i \<and> slot_set ti i \<lparr>mr_txnid = -1, mr_pid = me_pid (st_env st), mr_tid = tid\<rparr> ti1) \<or>
     rc \<noteq> 0 \<and> no_snapshot ti ti1)"
  proof (cases "if ?notls then mt_reader (st_txn st) else st_tls st")
    case None
    then obtain rc st1 ti1 r where C: "claim_slot st = Some (rc, st1, r)" "slot_only st ti1 st1"
      "rc = 0 \<and> (\<exists>i. r = Some i \<and> slot_set ti i \<lparr>mr_txnid = -1, mr_pid = me_pid (st_env st), mr_tid = st_tid st\<rparr> ti1) \<or>
       rc \<noteq> 0 \<and> (mti_readers ti1 = mti_readers ti \<or> (\<exists>i. slot_set ti i \<lparr>mr_txnid = -1, mr_pid = 0, mr_tid = st_tid st\<rparr> ti1))"
      using claim_slot_ok [OF ok] by blast
    have "step = Some (rc, st1, r, ?notls)" using None C(1) by (simp add: step_def)
    moreover have "no_snapshot ti ti1" if "rc \<noteq> 0"
      using C(3) that unfolding no_snapshot_def by (metis reader.select_convs(1))
    ultimately show ?thesis using C(2,3) by blast
  next
    case (Some i)
    then have i: "i < length (mti_readers ti)" using ok own by (auto simp: table_ok_def split: if_splits)
    let ?r = "mti_readers ti ! i"
    have st: "step = Some (if mr_pid ?r \<noteq> me_pid (st_env st) \<or> mr_txnid ?r \<noteq> -1 then (MDB_BAD_RSLOT, st, None, False)
               else (0, st, Some i, False))" using Some i by (simp add: step_def)
    show ?thesis
    proof (cases "mr_pid ?r \<noteq> me_pid (st_env st) \<or> mr_txnid ?r \<noteq> -1")
      case True
      have "no_snapshot ti ti" by (simp add: no_snapshot_def)
      moreover have "MDB_BAD_RSLOT \<noteq> 0" by (simp add: MDB_BAD_RSLOT_def)
      ultimately show ?thesis using st True so by auto
    next
      case False
      have "(mti_readers ti)[i := \<lparr>mr_txnid = -1, mr_pid = me_pid (st_env st), mr_tid = mr_tid ?r\<rparr>] = mti_readers ti"
        using False i by (cases ?r) (auto intro: list_update_same_conv [THEN iffD2])
      then have "slot_set ti i \<lparr>mr_txnid = -1, mr_pid = me_pid (st_env st), mr_tid = mr_tid ?r\<rparr> ti" using i by (simp add: slot_set_def)
      then show ?thesis using st False so by auto
    qed
  qed
  then obtain rc st1 r fresh ti1 where F: "step = Some (rc, st1, r, fresh)" "slot_only st ti1 st1"
    "rc = 0 \<and> (\<exists>i tid. r = Some i \<and> slot_set ti i \<lparr>mr_txnid = -1, mr_pid = me_pid (st_env st), mr_tid = tid\<rparr> ti1) \<or> rc \<noteq> 0 \<and> no_snapshot ti ti1"
    by blast
  show ?thesis
  proof (cases "rc = 0")
    case False
    then have "renew_read st = Some (rc, st1, None, False)" using run F(1) by simp
    then show ?thesis using F False by blast
  next
    case True
    then obtain i tid where i: "r = Some i" "slot_set ti i \<lparr>mr_txnid = -1, mr_pid = me_pid (st_env st), mr_tid = tid\<rparr> ti1" using F(3) by blast
    obtain c l t tls where st1: "st1 = st\<lparr>st_env := (st_env st)\<lparr>me_close_readers := c, me_txns := Some ti1, me_live_reader := l\<rparr>,
      st_os := (st_os st)\<lparr>os_time := t\<rparr>, st_tls := tls\<rparr>" using F(2) by (auto simp: slot_only_def)
    obtain snap t' where sn: "take_snapshot (st_seen st) t = Some (snap, t')"
    proof -
      obtain k where "calm (st_seen st) t k" using ok unfolding table_ok_def by blast
      then obtain k where "calm (st_seen st) t k" "\<forall>j < k. \<not> calm (st_seen st) t j" using exists_least_iff [of "calm (st_seen st) t"] by blast
      from take_snapshot_first [OF this] show ?thesis by (rule that)
    qed
    let ?r = "\<lparr>mr_txnid = snap, mr_pid = me_pid (st_env st), mr_tid = tid\<rparr>"
    let ?ti2 = "ti1\<lparr>mti_txnid := snap, mti_readers := (mti_readers ti1)[i := ?r]\<rparr>"
    have il: "i < length (mti_readers ti1)" "mti_readers ti1 ! i = \<lparr>mr_txnid = -1, mr_pid = me_pid (st_env st), mr_tid = tid\<rparr>"
      using i(2) by (auto simp: slot_set_def)
    have up: "upd_reader (\<lambda>r. r\<lparr>mr_txnid := snap\<rparr>) i (upd_ti (\<lambda>ti. ti\<lparr>mti_txnid := snap\<rparr>) (st_env st1)) =
        Some ((st_env st)\<lparr>me_close_readers := c, me_txns := Some ?ti2, me_live_reader := l\<rparr>)"
      using il by (cases "st_env st") (simp add: st1 upd_reader_def upd_ti_def)
    let ?st2 = "st1\<lparr>st_env := (st_env st)\<lparr>me_close_readers := c, me_txns := Some ?ti2, me_live_reader := l\<rparr>, st_os := (st_os st1)\<lparr>os_time := t'\<rparr>\<rparr>"
    have e: "st_seen st1 = st_seen st" "os_time (st_os st1) = t" "st_file st1 = st_file st" by (simp_all add: st1)
    have metas: "me_metas ((st_env st)\<lparr>me_close_readers := c, me_txns := Some ?ti2, me_live_reader := l\<rparr>) k = me_metas (st_env st) k" for k
      by (simp add: me_metas_def)
    have "renew_read st = Some (0, upd_txn (\<lambda>t. t\<lparr>mt_txnid := snap, mt_reader := Some i\<rparr>) ?st2,
        Some (meta_at (st_file st) (me_metas (st_env st) (unat (snap AND 1)))), fresh)"
      using F(1) True i(1) sn by (simp add: run e up metas)
    moreover have "slot_only st ?ti2 ?st2"
      by (rule slot_onlyI [where c = c and l = l and t = t' and tls = tls]) (simp add: st1)
    moreover have "announces st ti i snap ?ti2"
      using i(2) il(1) by (auto simp: announces_def slot_set_def)
    ultimately show ?thesis by blast
  qed
qed

section \<open>The databases of the snapshot\<close>

lemma setup_dbs_ok:
  "CORE_DBS + k \<le> length (me_dbflags env) \<Longrightarrow> CORE_DBS + k \<le> length (mt_dbs txn) \<Longrightarrow> CORE_DBS + k \<le> length (mt_dbflags txn) \<Longrightarrow>
    \<exists>ds fs. setup_dbs env k txn = Some (txn\<lparr>mt_dbs := ds, mt_dbflags := fs\<rparr>) \<and> length ds = length (mt_dbs txn) \<and>
      length fs = length (mt_dbflags txn) \<and> (\<forall>i < CORE_DBS. ds ! i = mt_dbs txn ! i)"
proof (induction k)
  case 0
  have "setup_dbs env 0 txn = Some (txn\<lparr>mt_dbs := mt_dbs txn, mt_dbflags := mt_dbflags txn\<rparr>)" by simp
  then show ?case by blast
next
  case (Suc k)
  then obtain ds fs where I: "setup_dbs env k txn = Some (txn\<lparr>mt_dbs := ds, mt_dbflags := fs\<rparr>)" "length ds = length (mt_dbs txn)"
    "length fs = length (mt_dbflags txn)" "\<forall>i < CORE_DBS. ds ! i = mt_dbs txn ! i" by auto
  let ?i = "CORE_DBS + k"
  let ?d = "ds[?i := (ds ! ?i)\<lparr>md_flags := (me_dbflags env ! ?i) AND PERSISTENT_FLAGS\<rparr>]"
  let ?f = "fs[?i := if has (me_dbflags env ! ?i) MDB_VALID then DB_VALID OR DB_USRVALID OR DB_STALE else 0]"
  have "setup_dbs env (Suc k) txn = Some (txn\<lparr>mt_dbs := ?d, mt_dbflags := ?f\<rparr>)" using I Suc.prems by simp
  moreover have "length ?d = length (mt_dbs txn) \<and> length ?f = length (mt_dbflags txn) \<and> (\<forall>i < CORE_DBS. ?d ! i = mt_dbs txn ! i)"
    using I(2-4) by simp
  ultimately show ?case by blast
qed

lemma renew_dbs_ok:
  assumes "me_numdbs env \<le> length (me_dbflags env)" "me_numdbs env \<le> length (mt_dbs txn)" "me_numdbs env \<le> length (mt_dbflags txn)"
    "CORE_DBS \<le> length (mt_dbs txn)" "CORE_DBS \<le> length (mt_dbflags txn)"
  shows "\<exists>txn' ds fs. renew_dbs env m flags txn = Some txn' \<and> txn' = txn\<lparr>mt_next_pgno := mm_last_pg m + 1, mt_dbs := ds, mt_dbflags := fs,
      mt_numdbs := me_numdbs env, mt_flags := flags\<rparr> \<and> length ds = length (mt_dbs txn) \<and> length fs = length (mt_dbflags txn) \<and>
    ds ! FREE_DBI = mm_free_db m \<and> ds ! MAIN_DBI = mm_main_db m"
proof -
  let ?ds = "(mt_dbs txn)[FREE_DBI := mm_free_db m, MAIN_DBI := mm_main_db m]"
  let ?t = "txn\<lparr>mt_next_pgno := mm_last_pg m + 1, mt_dbs := ?ds, mt_numdbs := me_numdbs env, mt_flags := flags\<rparr>"
  have "\<exists>ds fs. setup_dbs env (me_numdbs env - CORE_DBS) ?t = Some (?t\<lparr>mt_dbs := ds, mt_dbflags := fs\<rparr>) \<and> length ds = length (mt_dbs ?t) \<and>
      length fs = length (mt_dbflags ?t) \<and> (\<forall>i < CORE_DBS. ds ! i = mt_dbs ?t ! i)"
  proof (cases "CORE_DBS \<le> me_numdbs env")
    case True
    then show ?thesis using assms by (intro setup_dbs_ok) auto
  next
    case False
    have "setup_dbs env 0 ?t = Some (?t\<lparr>mt_dbs := mt_dbs ?t, mt_dbflags := mt_dbflags ?t\<rparr>)" by simp
    moreover have "me_numdbs env - CORE_DBS = 0" using False by simp
    ultimately show ?thesis by metis
  qed
  then obtain ds fs where S: "setup_dbs env (me_numdbs env - CORE_DBS) ?t = Some (?t\<lparr>mt_dbs := ds, mt_dbflags := fs\<rparr>)"
    "length ds = length (mt_dbs txn)" "length fs = length (mt_dbflags txn)" "\<forall>i < CORE_DBS. ds ! i = ?ds ! i" by auto
  have "renew_dbs env m flags txn = Some (?t\<lparr>mt_dbs := ds, mt_dbflags := fs[MAIN_DBI := DB_VALID OR DB_USRVALID, FREE_DBI := DB_VALID]\<rparr>)"
  proof -
    have "0 < length (mt_dbs txn)" "1 < length (mt_dbs txn)" "0 < length fs" "1 < length fs"
      using assms(4,5) S(3) unfolding CORE_DBS_def by linarith+
    then show ?thesis using S(1) by (simp add: renew_dbs_def)
  qed
  moreover have "ds ! FREE_DBI = mm_free_db m" "ds ! MAIN_DBI = mm_main_db m"
  proof -
    have "0 < length (mt_dbs txn)" "1 < length (mt_dbs txn)" using assms(4) unfolding CORE_DBS_def by linarith+
    then show "ds ! FREE_DBI = mm_free_db m" "ds ! MAIN_DBI = mm_main_db m" using S(4) by simp_all
  qed
  ultimately show ?thesis using S(2,3)
    by (intro exI [of _ "?t\<lparr>mt_dbs := ds, mt_dbflags := fs[MAIN_DBI := DB_VALID OR DB_USRVALID, FREE_DBI := DB_VALID]\<rparr>"] exI [of _ ds]
      exI [of _ "fs[MAIN_DBI := DB_VALID OR DB_USRVALID, FREE_DBI := DB_VALID]"]) (cases txn, simp)
qed

section \<open>The whole beginning\<close>

definition reader_ready :: "'a tst_scheme \<Rightarrow> txninfo \<Rightarrow> bool" where
  "reader_ready st ti \<longleftrightarrow> table_ok st ti \<and> (let e = st_env st in CORE_DBS \<le> me_maxdbs e \<and> me_numdbs e \<le> me_maxdbs e \<and>
     me_numdbs e \<le> length (me_dbxs e) \<and> me_numdbs e \<le> length (me_dbflags e) \<and> me_numdbs e \<le> length (me_dbiseqs e))"

text \<open>A reader of the snapshot that its slot announces: the databases and the size are those of the snapshot's meta page.\<close>

definition reads_snapshot :: "'a tst_scheme \<Rightarrow> txninfo \<Rightarrow> txninfo \<Rightarrow> 'a tst_scheme \<Rightarrow> bool" where
  "reads_snapshot st ti ti' st' \<longleftrightarrow> (let t = st_txn st'; m = meta_at (st_file st) (me_metas (st_env st) (unat (mt_txnid t AND 1))) in
     (\<exists>i. mt_reader t = Some i \<and> announces st ti i (mt_txnid t) ti') \<and> mt_dbs t ! FREE_DBI = mm_free_db m \<and> mt_dbs t ! MAIN_DBI = mm_main_db m \<and>
     mt_next_pgno t = mm_last_pg m + 1 \<and> mt_next_pgno t \<le> me_maxpg (st_env st) \<and> mt_numdbs t = me_numdbs (st_env st) \<and>
     has (mt_flags t) MDB_TXN_RDONLY \<and> \<not> has (mt_flags t) MDB_TXN_BLOCKED)"

lemma txn_end_reader:
  assumes ok: "dbs_ok (st_env st) (st_txn st)" and t: "me_txns (st_env st) = Some ti" and r: "mt_reader (st_txn st) = Some i"
    and s: "slot_set ti0 i s0 ti" and ro: "F_ISSET (mt_flags (st_txn st)) MDB_TXN_RDONLY"
  shows "\<exists>st' ti'. mdb_txn_end st mode = Some st' \<and> me_txns (st_env st') = Some ti' \<and> no_snapshot ti0 ti' \<and>
    st_file st' = st_file st \<and> st_heap st' = st_heap st"
proof -
  obtain env where env: "mdb_dbis_update (st_txn st) (has mode MDB_END_UPDATE) (st_env st) = Some env" "handles_only (st_env st) env"
    using dbis_update_ok [OF ok] by blast
  have e: "me_txns env = Some ti" "me_flags env = me_flags (st_env st)" using env(2) t by (auto simp: handles_only_def)
  have i: "i < length (mti_readers ti)" "mti_readers ti = (mti_readers ti0)[i := s0]" "i < length (mti_readers ti0)"
    using s by (simp_all add: slot_set_def)
  let ?s1 = "s0\<lparr>mr_txnid := -1\<rparr>"
  let ?s2 = "if has (me_flags env) MDB_NOTLS \<and> has mode MDB_END_SLOT then ?s1\<lparr>mr_pid := 0\<rparr> else ?s1"
  let ?ti' = "ti\<lparr>mti_readers := (mti_readers ti0)[i := ?s2]\<rparr>"
  have "slot_set ti0 i ?s2 ?ti'" "mr_txnid ?s2 = -1" using i by (simp_all add: slot_set_def)
  then have ns: "no_snapshot ti0 ?ti'" unfolding no_snapshot_def by blast
  have "\<exists>st'. mdb_txn_end st mode = Some st' \<and> me_txns (st_env st') = Some ?ti' \<and> st_file st' = st_file st \<and> st_heap st' = st_heap st"
    using env(1) ro r e i
    by (auto simp: mdb_txn_end_def txn_end_read_def upd_reader_def upd_txn_def Let_def)
  then show ?thesis using ns by blast
qed

lemma rdonly_isset: "has w MDB_TXN_RDONLY \<Longrightarrow> F_ISSET (w AND MDB_TXN_RDONLY) MDB_TXN_RDONLY"
proof -
  assume h: "has w MDB_TXN_RDONLY"
  have e: "MDB_TXN_RDONLY = 2 ^ 17" by (simp add: MDB_TXN_RDONLY_def MDB_RDONLY_def)
  have "bit w 17" using h unfolding has_def e and_exp_eq_0_iff_not_bit by simp
  then show ?thesis unfolding F_ISSET_def e by - (rule bit_word_eqI, unfold bit_and_iff bit_exp_iff, blast)
qed

lemma renew0_reader_ok:
  assumes ok: "reader_ready st ti" and own: "mt_reader (st_txn st) = None" and ro: "has (mt_flags (st_txn st)) MDB_TXN_RDONLY"
    and l: "length (mt_dbs (st_txn st)) = me_maxdbs (st_env st)" "length (mt_dbflags (st_txn st)) = me_maxdbs (st_env st)"
  shows "\<exists>rc st' ti'. mdb_txn_renew0 st = Some (rc, st') \<and> me_txns (st_env st') = Some ti' \<and> st_file st' = st_file st \<and>
    st_heap st' = st_heap st \<and> (rc = 0 \<and> reads_snapshot st ti ti' st' \<or> rc \<noteq> 0 \<and> no_snapshot ti ti')"
proof -
  let ?fl = "mt_flags (st_txn st) AND MDB_TXN_RDONLY"
  have fl: "?fl \<noteq> 0" using ro by (simp add: has_def)
  have T: "table_ok st ti" using ok by (simp add: reader_ready_def)
  obtain rc st1 m fresh ti1 where R: "renew_read st = Some (rc, st1, m, fresh)"
    "rc = 0 \<and> (\<exists>st0 i snap. slot_only st ti1 st0 \<and> announces st ti i snap ti1 \<and>
       st1 = upd_txn (\<lambda>t. t\<lparr>mt_txnid := snap, mt_reader := Some i\<rparr>) st0 \<and>
       m = Some (meta_at (st_file st) (me_metas (st_env st) (unat (snap AND 1))))) \<or>
     rc \<noteq> 0 \<and> slot_only st ti1 st1 \<and> no_snapshot ti ti1"
  proof -
    have "\<forall>i. mt_reader (st_txn st) = Some i \<longrightarrow> i < length (mti_readers ti)" using own by simp
    from renew_read_ok [OF T this] show ?thesis using that by blast
  qed
  show ?thesis
  proof (cases "rc = 0")
    case False
    then have "mdb_txn_renew0 st = Some (rc, st1)" using fl R(1) by (simp add: mdb_txn_renew0_def)
    then show ?thesis using R(2) False by (auto simp: slot_only_def)
  next
    case True
    then obtain st0 i snap where S: "slot_only st ti1 st0" "announces st ti i snap ti1"
      "st1 = upd_txn (\<lambda>t. t\<lparr>mt_txnid := snap, mt_reader := Some i\<rparr>) st0"
      "m = Some (meta_at (st_file st) (me_metas (st_env st) (unat (snap AND 1))))" using R(2) by blast
    let ?m = "meta_at (st_file st) (me_metas (st_env st) (unat (snap AND 1)))"
    have e: "me_flags (st_env st1) = me_flags (st_env st)" "me_maxpg (st_env st1) = me_maxpg (st_env st)"
      "me_numdbs (st_env st1) = me_numdbs (st_env st)" "me_dbflags (st_env st1) = me_dbflags (st_env st)"
      "me_dbxs (st_env st1) = me_dbxs (st_env st)" "me_dbiseqs (st_env st1) = me_dbiseqs (st_env st)" "me_txns (st_env st1) = Some ti1"
      "mt_dbs (st_txn st1) = mt_dbs (st_txn st)" "mt_dbflags (st_txn st1) = mt_dbflags (st_txn st)" "mt_txnid (st_txn st1) = snap"
      "mt_reader (st_txn st1) = Some i" "st_file st1 = st_file st" "st_heap st1 = st_heap st"
      using S(1,3) by (auto simp: slot_only_def upd_txn_def)
    obtain txn' ds fs where D: "renew_dbs (st_env st1) ?m ?fl (st_txn st1) = Some txn'"
      "txn' = (st_txn st1)\<lparr>mt_next_pgno := mm_last_pg ?m + 1, mt_dbs := ds, mt_dbflags := fs,
        mt_numdbs := me_numdbs (st_env st), mt_flags := ?fl\<rparr>" "length ds = me_maxdbs (st_env st)" "length fs = me_maxdbs (st_env st)"
      "ds ! FREE_DBI = mm_free_db ?m" "ds ! MAIN_DBI = mm_main_db ?m"
      using renew_dbs_ok [of "st_env st1" "st_txn st1" ?m ?fl] ok e l by (auto simp: reader_ready_def Let_def)
    let ?st2 = "st1\<lparr>st_txn := txn'\<rparr>"
    define rc2 where "rc2 = (if has (me_flags (st_env st)) MDB_FATAL_ERROR then MDB_PANIC
                 else if me_maxpg (st_env st) < mt_next_pgno txn' then MDB_MAP_RESIZED else MDB_SUCCESS)"
    have run: "mdb_txn_renew0 st = (if rc2 = MDB_SUCCESS then Some (MDB_SUCCESS, ?st2)
       else do { st \<leftarrow> mdb_txn_end ?st2 ((if fresh then MDB_END_SLOT else 0) OR MDB_END_FAIL_BEGIN); Some (rc2, st) })"
      using fl R(1) True S(4) D(1) by (simp add: mdb_txn_renew0_def rc2_def e)
    show ?thesis
    proof (cases "rc2 = MDB_SUCCESS")
      case good: True
      have "has ?fl MDB_TXN_RDONLY" "\<not> has ?fl MDB_TXN_BLOCKED"
        using ro by (simp_all add: has_def and.assoc MDB_TXN_RDONLY_def MDB_RDONLY_def txn_flag_defs)
      moreover have "mt_next_pgno txn' \<le> me_maxpg (st_env st)"
        using good by (auto simp: rc2_def MDB_PANIC_def MDB_MAP_RESIZED_def MDB_SUCCESS_def split: if_splits)
      ultimately have "reads_snapshot st ti ti1 ?st2"
        using S(2) D e(10,11) by (simp add: reads_snapshot_def Let_def)
      then show ?thesis using run good e by (simp add: MDB_SUCCESS_def)
    next
      case bad: False
      have "F_ISSET ?fl MDB_TXN_RDONLY" using ro by (rule rdonly_isset)
      moreover obtain s0 where "slot_set ti i s0 ti1" using S(2) by (auto simp: announces_def)
      moreover have "dbs_ok (st_env ?st2) (st_txn ?st2)" using ok D(2-4) e by (auto simp: dbs_ok_def reader_ready_def Let_def)
      ultimately obtain st' ti' where "mdb_txn_end ?st2 ((if fresh then MDB_END_SLOT else 0) OR MDB_END_FAIL_BEGIN) = Some st'"
        "me_txns (st_env st') = Some ti'" "no_snapshot ti ti'" "st_file st' = st_file st" "st_heap st' = st_heap st"
        using txn_end_reader [of ?st2 ti1 i ti s0 "(if fresh then MDB_END_SLOT else 0) OR MDB_END_FAIL_BEGIN"] D(2) e by auto
      then show ?thesis using run bad by (auto simp: MDB_SUCCESS_def)
    qed
  qed
qed

lemma begin_flags:
  assumes "has flags MDB_RDONLY"
  shows "let f = (flags AND MDB_TXN_BEGIN_FLAGS) OR (e AND MDB_WRITEMAP) in
     e AND MDB_RDONLY AND NOT f = 0 \<and> has f MDB_RDONLY \<and> \<not> has f MDB_TXN_BLOCKED"
proof -
  let ?f = "(flags AND MDB_TXN_BEGIN_FLAGS) OR (e AND MDB_WRITEMAP)"
  have r: "MDB_RDONLY = 2 ^ 17" by (simp add: MDB_RDONLY_def)
  have b: "bit ?f 17"
    using assms unfolding has_def r and_exp_eq_0_iff_not_bit
    by (simp add: bit_simps MDB_TXN_BEGIN_FLAGS_def MDB_NOMETASYNC_def MDB_NOSYNC_def MDB_RDONLY_def)
  have "e AND MDB_RDONLY AND NOT ?f = 0"
    unfolding r by (rule bit_word_eqI, unfold bit_and_iff bit_exp_iff bit_not_iff) (use b in auto)
  moreover have "has ?f MDB_RDONLY" unfolding has_def r and_exp_eq_0_iff_not_bit using b by simp
  moreover have "\<not> has ?f MDB_TXN_BLOCKED"
    unfolding has_ors(1) unfolding has_def and.assoc
    by (simp add: MDB_TXN_BEGIN_FLAGS_def MDB_NOMETASYNC_def MDB_NOSYNC_def MDB_RDONLY_def MDB_WRITEMAP_def txn_flag_defs)
  ultimately show ?thesis by (simp add: Let_def)
qed


definition reader_st :: tst where
  "reader_st = txn_st\<lparr>st_env := (st_env txn_st)\<lparr>me_txns := Some \<lparr>mti_txnid = 8, mti_numreaders = 0,
     mti_readers = replicate 126 \<lparr>mr_txnid = 0, mr_pid = 0, mr_tid = 0\<rparr>\<rparr>, me_live_reader := True, me_dbflags := [0, 0]\<rparr>,
     st_os := demo_os\<lparr>os_fcntl := \<lambda>_ _. [(0, 0, True)]\<rparr>\<rparr>"


end
