(* ===== verification/Reader_Protocol.thy ===== *)
theory Reader_Protocol
  imports Txn_Begin
begin

text \<open>
  Readers and the writer at the same time. Readers announce their snapshots in the reader table without a lock
  (\<open>mdb_txn_renew0\<close>), the writer reads the table without one (\<open>mdb_find_oldest\<close>) to decide which pages it may
  reuse (\<open>mdb_page_alloc\<close>). Every load and store of shared memory is a step of its own here; the steps of
  different threads interleave in any order.
\<close>

section \<open>The steps\<close>

text \<open>
  What a reading thread does: it has reset a slot, has listed it in \<open>mti_numreaders\<close>, owns it, has stored a number in it,
  or has checked the number and reads the snapshot.
\<close>

datatype phase = Idle | Reset nat | Listed nat | Owns nat | Stored nat u64 | Reading nat u64

text \<open>
  The writer works in its transaction, is in the loop of \<open>mdb_find_oldest\<close> (slots below the number are still to be
  read; the other component is \<open>oldest\<close>), or has written its meta page.
\<close>

datatype wphase = Working | Scanning nat u64 | Written

record writer =
  wr_proc :: nat
  wr_txnid :: u64
  wr_phase :: wphase

text \<open>
  \<open>sh_meta\<close> is the number in the newer meta page, \<open>sh_oldest p\<close> is \<open>me_pgoldest\<close> in the process \<open>p\<close>.
\<close>

record shared =
  sh_ti :: txninfo
  sh_meta :: u64
  sh_rmutex :: "nat option"
  sh_writer :: "writer option"
  sh_oldest :: "nat \<Rightarrow> u64"
  sh_reader :: "nat \<Rightarrow> phase"

fun slot_of :: "phase \<Rightarrow> nat option" where
  "slot_of Idle = None"
| "slot_of (Reset i) = Some i"
| "slot_of (Listed i) = Some i"
| "slot_of (Owns i) = Some i"
| "slot_of (Stored i t) = Some i"
| "slot_of (Reading i t) = Some i"

abbreviation slots :: "shared \<Rightarrow> reader list" where "slots s \<equiv> mti_readers (sh_ti s)"
abbreviation txnid :: "shared \<Rightarrow> u64" where "txnid s \<equiv> mti_txnid (sh_ti s)"

definition goes :: "nat \<Rightarrow> phase \<Rightarrow> shared \<Rightarrow> shared" where
  "goes a ph s = s\<lparr>sh_reader := (sh_reader s)(a := ph)\<rparr>"

definition set_slot :: "nat \<Rightarrow> reader \<Rightarrow> shared \<Rightarrow> shared" where
  "set_slot i r s = s\<lparr>sh_ti := (sh_ti s)\<lparr>mti_readers := (slots s)[i := r]\<rparr>\<rparr>"

definition set_txnid :: "u64 \<Rightarrow> shared \<Rightarrow> shared" where
  "set_txnid t s = s\<lparr>sh_ti := (sh_ti s)\<lparr>mti_txnid := t\<rparr>\<rparr>"

text \<open>
  \<open>die\<close>: a thread's process ends at any moment; the kernel gives a robust mutex back. Its slot is cleared by
  \<open>mdb_reader_check\<close> (\<open>clear\<close>), which makes sure that the slot has no living owner. \<open>give_up\<close>: the writer aborts or
  dies; \<open>recover\<close> is \<open>mdb_mutex_failed\<close>. Transaction numbers are assumed not to wrap.
\<close>

inductive rstep :: "(nat \<Rightarrow> int) \<Rightarrow> shared \<Rightarrow> shared \<Rightarrow> bool" for pid where
  reset: "sh_reader s a = Idle \<Longrightarrow> sh_rmutex s = None \<Longrightarrow>
    free_slot (slots s) 0 (mti_numreaders (sh_ti s)) = Some i \<Longrightarrow> i < length (slots s) \<Longrightarrow>
    rstep pid s (goes a (Reset i) (set_slot i \<lparr>mr_txnid = -1, mr_pid = 0, mr_tid = of_nat a\<rparr> (s\<lparr>sh_rmutex := Some a\<rparr>)))"
| list: "sh_reader s a = Reset i \<Longrightarrow>
    rstep pid s (goes a (Listed i) (s\<lparr>sh_ti := (sh_ti s)\<lparr>mti_numreaders :=
      if i = mti_numreaders (sh_ti s) then mti_numreaders (sh_ti s) + 1 else mti_numreaders (sh_ti s)\<rparr>\<rparr>))"
| own: "sh_reader s a = Listed i \<Longrightarrow>
    rstep pid s (goes a (Owns i) (set_slot i ((slots s ! i)\<lparr>mr_pid := pid a\<rparr>) (s\<lparr>sh_rmutex := None\<rparr>)))"
| store: "sh_reader s a = Owns i \<Longrightarrow>
    rstep pid s (goes a (Stored i (txnid s)) (set_slot i ((slots s ! i)\<lparr>mr_txnid := txnid s\<rparr>) s))"
| confirm: "sh_reader s a = Stored i t \<Longrightarrow> t = txnid s \<Longrightarrow> rstep pid s (goes a (Reading i t) s)"
| retry: "sh_reader s a = Stored i t \<Longrightarrow> t \<noteq> txnid s \<Longrightarrow> rstep pid s (goes a (Owns i) s)"
| finish: "sh_reader s a = Reading i t \<Longrightarrow> rstep pid s (goes a (Owns i) (set_slot i ((slots s ! i)\<lparr>mr_txnid := -1\<rparr>) s))"
| release: "sh_reader s a = Owns i \<Longrightarrow> rstep pid s (goes a Idle (set_slot i ((slots s ! i)\<lparr>mr_pid := 0\<rparr>) s))"
| die: "rstep pid s (goes a Idle (if sh_rmutex s = Some a then s\<lparr>sh_rmutex := None\<rparr> else s))"
| clear: "\<forall>a. slot_of (sh_reader s a) \<noteq> Some i \<Longrightarrow> i < length (slots s) \<Longrightarrow>
    rstep pid s (set_slot i ((slots s ! i)\<lparr>mr_pid := 0\<rparr>) s)"
| begin_write: "sh_writer s = None \<Longrightarrow> txnid s = sh_meta s \<Longrightarrow> unat (txnid s) + 2 < 2 ^ 64 \<Longrightarrow>
    rstep pid s (s\<lparr>sh_writer := Some \<lparr>wr_proc = p, wr_txnid = txnid s + 1, wr_phase = Working\<rparr>\<rparr>)"
| scan: "sh_writer s = Some w \<Longrightarrow> wr_phase w = Working \<Longrightarrow>
    rstep pid s (s\<lparr>sh_writer := Some (w\<lparr>wr_phase := Scanning (mti_numreaders (sh_ti s)) (wr_txnid w - 1)\<rparr>)\<rparr>)"
| scan_slot: "sh_writer s = Some w \<Longrightarrow> wr_phase w = Scanning (Suc i) acc \<Longrightarrow> r = slots s ! i \<Longrightarrow>
    rstep pid s (s\<lparr>sh_writer := Some (w\<lparr>wr_phase := Scanning i (if mr_pid r \<noteq> 0 \<and> acc > mr_txnid r then mr_txnid r else acc)\<rparr>)\<rparr>)"
| scan_end: "sh_writer s = Some w \<Longrightarrow> wr_phase w = Scanning 0 acc \<Longrightarrow>
    rstep pid s (s\<lparr>sh_writer := Some (w\<lparr>wr_phase := Working\<rparr>), sh_oldest := (sh_oldest s)(wr_proc w := acc)\<rparr>)"
| write_meta: "sh_writer s = Some w \<Longrightarrow> wr_phase w = Working \<Longrightarrow>
    rstep pid s (s\<lparr>sh_meta := wr_txnid w, sh_writer := Some (w\<lparr>wr_phase := Written\<rparr>)\<rparr>)"
| commit: "sh_writer s = Some w \<Longrightarrow> wr_phase w = Written \<Longrightarrow> rstep pid s (set_txnid (wr_txnid w) (s\<lparr>sh_writer := None\<rparr>))"
| give_up: "sh_writer s = Some w \<Longrightarrow> rstep pid s (s\<lparr>sh_writer := None\<rparr>)"
| recover: "sh_writer s = None \<Longrightarrow> rstep pid s (set_txnid (sh_meta s) s)"

definition init_shared :: "nat \<Rightarrow> u64 \<Rightarrow> shared" where
  "init_shared n t = \<lparr>sh_ti = \<lparr>mti_txnid = t, mti_numreaders = 0, mti_readers = replicate n \<lparr>mr_txnid = 0, mr_pid = 0, mr_tid = 0\<rparr>\<rparr>,
     sh_meta = t, sh_rmutex = None, sh_writer = None, sh_oldest = (\<lambda>_. 0), sh_reader = (\<lambda>_. Idle)\<rparr>"

inductive reachable :: "(nat \<Rightarrow> int) \<Rightarrow> nat \<Rightarrow> shared \<Rightarrow> bool" for pid n where
  start: "reachable pid n (init_shared n t)"
| step: "reachable pid n s \<Longrightarrow> rstep pid s s' \<Longrightarrow> reachable pid n s'"

section \<open>The invariant\<close>

text \<open>Slots have at most one owner, and the owner's slot contains what the owner stored.\<close>

fun slot_state :: "(nat \<Rightarrow> int) \<Rightarrow> shared \<Rightarrow> nat \<Rightarrow> phase \<Rightarrow> bool" where
  "slot_state pid s a Idle = True"
| "slot_state pid s a (Reset i) = (i \<le> mti_numreaders (sh_ti s) \<and> sh_rmutex s = Some a)"
| "slot_state pid s a (Listed i) = (i < mti_numreaders (sh_ti s) \<and> sh_rmutex s = Some a)"
| "slot_state pid s a (Owns i) = (i < mti_numreaders (sh_ti s) \<and> mr_pid (slots s ! i) = pid a)"
| "slot_state pid s a (Stored i t) = (i < mti_numreaders (sh_ti s) \<and> mr_pid (slots s ! i) = pid a \<and> mr_txnid (slots s ! i) = t)"
| "slot_state pid s a (Reading i t) = (i < mti_numreaders (sh_ti s) \<and> mr_pid (slots s ! i) = pid a \<and> mr_txnid (slots s ! i) = t)"

definition slots_inv :: "(nat \<Rightarrow> int) \<Rightarrow> shared \<Rightarrow> bool" where
  "slots_inv pid s \<longleftrightarrow> mti_numreaders (sh_ti s) \<le> length (slots s) \<and>
     (\<forall>a. slot_state pid s a (sh_reader s a)) \<and>
     (\<forall>a i. slot_of (sh_reader s a) = Some i \<longrightarrow> i < length (slots s)) \<and>
     (\<forall>a b i. slot_of (sh_reader s a) = Some i \<longrightarrow> slot_of (sh_reader s b) = Some i \<longrightarrow> a = b)"

text \<open>Transaction numbers: \<open>mti_txnid\<close> is that of the last commit, or one behind it after a crash.\<close>

definition txnid_inv :: "shared \<Rightarrow> bool" where
  "txnid_inv s \<longleftrightarrow> txnid s \<le> sh_meta s \<and>
     (\<forall>w. sh_writer s = Some w \<longrightarrow> wr_txnid w = txnid s + 1 \<and> unat (txnid s) + 2 < 2 ^ 64 \<and>
        sh_meta s = (if wr_phase w = Written then wr_txnid w else txnid s))"

text \<open>No process's idea of the oldest snapshot exceeds a snapshot that is being read, nor will a scan under way.\<close>

definition oldest_inv :: "shared \<Rightarrow> bool" where
  "oldest_inv s \<longleftrightarrow> (\<forall>p. sh_oldest s p \<le> txnid s) \<and>
     (\<forall>a i t p. sh_reader s a = Reading i t \<longrightarrow> sh_oldest s p \<le> t) \<and>
     (\<forall>w k acc. sh_writer s = Some w \<longrightarrow> wr_phase w = Scanning k acc \<longrightarrow> acc \<le> txnid s \<and>
        (\<forall>a i t. sh_reader s a = Reading i t \<longrightarrow> i < k \<or> acc \<le> t))"

named_theorems step_simps
lemmas [step_simps] = goes_def set_slot_def set_txnid_def

lemma slot_state_cong:
  "mti_numreaders (sh_ti s') = mti_numreaders (sh_ti s) \<Longrightarrow> sh_rmutex s' = sh_rmutex s \<Longrightarrow>
    (\<And>i. slot_of ph = Some i \<Longrightarrow> slots s' ! i = slots s ! i) \<Longrightarrow> slot_state pid s' a ph = slot_state pid s a ph"
  by (cases ph) auto

text \<open>Thread \<open>a\<close> moves and changes only its own slot.\<close>

lemma slots_inv_own:
  assumes inv: "slots_inv pid s" and i: "slot_of (sh_reader s a) = Some i"
    and ph: "slot_of ph = Some i \<or> slot_of ph = None"
    and s': "sh_reader s' = (sh_reader s)(a := ph)" "slots s' = (slots s)[i := r]" "mti_numreaders (sh_ti s') = mti_numreaders (sh_ti s)"
      "sh_rmutex s' = sh_rmutex s \<or> sh_rmutex s = Some a"
    and st: "slot_state pid s' a ph"
  shows "slots_inv pid s'"
proof -
  have other: "slot_state pid s' b (sh_reader s b)" if "b \<noteq> a" for b
  proof -
    have "slot_of (sh_reader s b) \<noteq> Some i" using inv i that unfolding slots_inv_def by blast
    moreover have "slot_state pid s b (sh_reader s b)" using inv by (simp add: slots_inv_def)
    ultimately show ?thesis using s' that by (cases "sh_reader s b") auto
  qed
  have "slot_state pid s' b (sh_reader s' b)" for b using other st s'(1) by (cases "b = a") simp_all
  moreover have "j < length (slots s')" if "slot_of (sh_reader s' b) = Some j" for b j
    using that inv i ph s'(1,2) unfolding slots_inv_def by (cases "b = a") auto
  moreover have "b = c" if "slot_of (sh_reader s' b) = Some j" "slot_of (sh_reader s' c) = Some j" for b c j
  proof -
    have "slot_of (sh_reader s b) = Some j \<and> slot_of (sh_reader s c) = Some j" using that i ph s'(1) by (auto split: if_splits)
    then show ?thesis using inv unfolding slots_inv_def by blast
  qed
  ultimately show ?thesis using inv s'(2,3) by (auto simp: slots_inv_def)
qed

text \<open>No thread moves and no owned slot changes.\<close>

lemma slots_inv_same:
  assumes inv: "slots_inv pid s" and s': "sh_reader s' = sh_reader s" "mti_numreaders (sh_ti s') = mti_numreaders (sh_ti s)"
    "sh_rmutex s' = sh_rmutex s" "length (slots s') = length (slots s)"
    and un: "\<And>a i. slot_of (sh_reader s a) = Some i \<Longrightarrow> slots s' ! i = slots s ! i"
  shows "slots_inv pid s'"
proof -
  have "slot_state pid s' a (sh_reader s a) = slot_state pid s a (sh_reader s a)" for a
    by (rule slot_state_cong) (use s' un in auto)
  then show ?thesis using inv s' by (simp add: slots_inv_def)
qed

lemma rstep_slots:
  assumes "rstep pid s s'" "slots_inv pid s" and pid: "\<forall>a. pid a \<noteq> 0"
  shows "slots_inv pid s'"
  using assms(1,2)
proof (cases rule: rstep.cases)
  case (reset a i)
  have f: "i \<le> mti_numreaders (sh_ti s)" "i < mti_numreaders (sh_ti s) \<longrightarrow> mr_pid (slots s ! i) = 0"
    using free_slot_ok [of 0 "mti_numreaders (sh_ti s)" "slots s"] reset(4) assms(2) by (auto simp: slots_inv_def)
  have fresh: "slot_of (sh_reader s b) \<noteq> Some i" for b
  proof
    assume b: "slot_of (sh_reader s b) = Some i"
    have "slot_state pid s b (sh_reader s b)" using assms(2) by (simp add: slots_inv_def)
    then show False using b f reset(3) pid by (cases "sh_reader s b") auto
  qed
  have "slot_state pid s' b (sh_reader s b)" if "b \<noteq> a" for b
  proof -
    have "slot_state pid s b (sh_reader s b)" using assms(2) by (simp add: slots_inv_def)
    then show ?thesis using reset(1,3) fresh [of b] by (cases "sh_reader s b") (auto simp: step_simps)
  qed
  then show ?thesis using assms(2) reset f(1) fresh by (auto simp: slots_inv_def step_simps)
next
  case (list a i)
  have st: "slot_state pid s b (sh_reader s b)" for b using assms(2) by (simp add: slots_inv_def)
  have m: "sh_rmutex s = Some a" "i \<le> mti_numreaders (sh_ti s)" using st [of a] list(2) by simp_all
  have "slot_state pid s' b (sh_reader s b)" if "b \<noteq> a" for b
    using st [of b] m(1) list(1) that by (cases "sh_reader s b") (auto simp: step_simps)
  moreover have "i < length (slots s)" "\<forall>b j. slot_of (sh_reader s b) = Some j \<longrightarrow> j < length (slots s)"
    "\<forall>b c j. slot_of (sh_reader s b) = Some j \<longrightarrow> slot_of (sh_reader s c) = Some j \<longrightarrow> b = c"
    using assms(2) list(2) unfolding slots_inv_def by (metis slot_of.simps(2), blast, blast)
  moreover have "slot_of (sh_reader s a) = Some i" using list(2) by simp
  moreover have "mti_numreaders (sh_ti s') \<le> length (slots s')"
    using assms(2) list(1) calculation(2) by (auto simp: slots_inv_def step_simps)
  ultimately show ?thesis using list(1) m unfolding slots_inv_def by (auto simp: step_simps)
next
  case (own a i)
  have "slot_state pid s a (Listed i)" "i < length (slots s)" using assms(2) own(2) unfolding slots_inv_def by (metis slot_of.simps(3))+
  then show ?thesis
    by (intro slots_inv_own [OF assms(2), of a i "Owns i" s' "(slots s ! i)\<lparr>mr_pid := pid a\<rparr>"]) (simp_all add: own step_simps)
next
  case (store a i)
  have "slot_state pid s a (Owns i)" "i < length (slots s)" using assms(2) store(2) unfolding slots_inv_def by (metis slot_of.simps(4))+
  then show ?thesis
    by (intro slots_inv_own [OF assms(2), of a i "Stored i (txnid s)" s' "(slots s ! i)\<lparr>mr_txnid := txnid s\<rparr>"]) (simp_all add: store step_simps)
next
  case (confirm a i t)
  have "slot_state pid s a (Stored i t)" using assms(2) confirm(2) unfolding slots_inv_def by metis
  then show ?thesis
    by (intro slots_inv_own [OF assms(2), of a i "Reading i t" s' "slots s ! i"]) (simp_all add: confirm step_simps)
next
  case (retry a i t)
  have "slot_state pid s a (Stored i t)" using assms(2) retry(2) unfolding slots_inv_def by metis
  then show ?thesis
    by (intro slots_inv_own [OF assms(2), of a i "Owns i" s' "slots s ! i"]) (simp_all add: retry step_simps)
next
  case (finish a i t)
  have "slot_state pid s a (Reading i t)" "i < length (slots s)" using assms(2) finish(2) unfolding slots_inv_def by (metis slot_of.simps(6))+
  then show ?thesis
    by (intro slots_inv_own [OF assms(2), of a i "Owns i" s' "(slots s ! i)\<lparr>mr_txnid := -1\<rparr>"]) (simp_all add: finish step_simps)
next
  case (release a i)
  then show ?thesis
    by (intro slots_inv_own [OF assms(2), of a i Idle s' "(slots s ! i)\<lparr>mr_pid := 0\<rparr>"]) (simp_all add: release step_simps)
next
  case (die a)
  have "slot_state pid s' b (sh_reader s b)" if "b \<noteq> a" for b
  proof -
    have "slot_state pid s b (sh_reader s b)" using assms(2) by (simp add: slots_inv_def)
    then show ?thesis using die that by (cases "sh_reader s b") (auto simp: step_simps)
  qed
  then show ?thesis using assms(2) die unfolding slots_inv_def by (auto simp: step_simps split: if_splits)
next
  case (clear i)
  then show ?thesis by (intro slots_inv_same [OF assms(2)]) (auto simp: step_simps nth_list_update)
qed (auto simp: step_simps intro!: slots_inv_same [OF assms(2)])

lemma inc_ge: "unat (x :: u64) + 2 < 2 ^ 64 \<Longrightarrow> x \<le> x + 1 \<and> x + 1 - 1 = x"
  by (simp add: word_le_nat_alt unat_word_ariths)

lemma rstep_txnid:
  assumes "rstep pid s s'" "txnid_inv s"
  shows "txnid_inv s'"
  using assms
proof (cases rule: rstep.cases)
  case (write_meta w)
  then show ?thesis using assms(2) inc_ge [of "txnid s"] by (auto simp: txnid_inv_def)
next
  case (commit w)
  then show ?thesis using assms(2) inc_ge [of "txnid s"] by (auto simp: txnid_inv_def step_simps)
qed (auto simp: txnid_inv_def step_simps)

lemma rstep_oldest:
  assumes st: "rstep pid s s'" and inv: "slots_inv pid s" "txnid_inv s" "oldest_inv s" and pid: "\<forall>a. pid a \<noteq> 0"
  shows "oldest_inv s'"
proof -
  note O = inv(3) [unfolded oldest_inv_def]
  have rd: "mr_pid (slots s ! i) \<noteq> 0 \<and> mr_txnid (slots s ! i) = t \<and> i < mti_numreaders (sh_ti s)" if "sh_reader s a = Reading i t" for a i t
  proof -
    have "slot_state pid s a (sh_reader s a)" using inv(1) by (simp add: slots_inv_def)
    then show ?thesis using that pid by auto
  qed
  show ?thesis
    using st
  proof (cases rule: rstep.cases)
    case (confirm a i t)
    then show ?thesis using O by (auto simp: oldest_inv_def step_simps)
  next
    case (scan w)
    have "wr_txnid w - 1 = txnid s" using inv(2) scan(2) inc_ge [of "txnid s"] by (simp add: txnid_inv_def)
    then show ?thesis using O scan rd by (auto simp: oldest_inv_def)
  next
    case (scan_slot w i acc r)
    let ?acc = "if mr_pid r \<noteq> 0 \<and> acc > mr_txnid r then mr_txnid r else acc"
    have A: "acc \<le> txnid s" "\<forall>a j t. sh_reader s a = Reading j t \<longrightarrow> j < Suc i \<or> acc \<le> t" using O scan_slot by blast+
    have le: "?acc \<le> acc" by (simp add: less_imp_le)
    have "j < i \<or> ?acc \<le> t" if r: "sh_reader s a = Reading j t" for a j t
    proof (cases "j = i")
      case True
      then show ?thesis using rd [OF r] scan_slot(4) by auto
    next
      case False
      then have "j < i \<or> acc \<le> t" using A(2) r by force
      then show ?thesis using le by auto
    qed
    moreover have "?acc \<le> txnid s" using A(1) le by auto
    ultimately show ?thesis using O scan_slot(1) by (simp add: oldest_inv_def)
  next
    case (scan_end w acc)
    then have "acc \<le> txnid s" "\<forall>a j t. sh_reader s a = Reading j t \<longrightarrow> acc \<le> t" using O by blast+
    then show ?thesis using O scan_end(1) by (auto simp: oldest_inv_def)
  next
    case (commit w)
    have "txnid s \<le> wr_txnid w" using inv(2) commit(2) inc_ge [of "txnid s"] by (simp add: txnid_inv_def)
    then show ?thesis using O commit by (auto simp: oldest_inv_def step_simps intro: order_trans)
  next
    case recover
    then show ?thesis using O inv(2) by (auto simp: oldest_inv_def txnid_inv_def step_simps intro: order_trans)
  qed (use O in \<open>auto simp: oldest_inv_def step_simps split: if_splits\<close>)
qed

lemma reachable_inv:
  assumes "reachable pid n s" "\<forall>a. pid a \<noteq> 0"
  shows "slots_inv pid s \<and> txnid_inv s \<and> oldest_inv s"
  using assms(1)
proof (induction rule: reachable.induct)
  case (start t)
  show ?case by (simp add: init_shared_def slots_inv_def txnid_inv_def oldest_inv_def)
next
  case (step s s')
  then show ?case using rstep_slots rstep_txnid rstep_oldest assms(2) by blast
qed

section \<open>What the protocol guarantees\<close>



section \<open>The steps and the functions\<close>

text \<open>\<open>mdb_find_oldest\<close> is the scan when nobody interferes.\<close>

lemma scan_run:
  "sh_writer s = Some w \<Longrightarrow> wr_phase w = Scanning k acc \<Longrightarrow> oldest_loop (slots s) k acc = Some acc' \<Longrightarrow>
    (rstep pid)\<^sup>*\<^sup>* s (s\<lparr>sh_writer := Some (w\<lparr>wr_phase := Scanning 0 acc'\<rparr>)\<rparr>)"
proof (induction k arbitrary: s w acc)
  case 0
  then have "w\<lparr>wr_phase := Scanning 0 acc'\<rparr> = w" "s\<lparr>sh_writer := Some w\<rparr> = s" by simp_all
  then show ?case by simp
next
  case (Suc i)
  let ?r = "slots s ! i"
  let ?acc = "if mr_pid ?r \<noteq> 0 \<and> acc > mr_txnid ?r then mr_txnid ?r else acc"
  let ?w1 = "w\<lparr>wr_phase := Scanning i ?acc\<rparr>"
  let ?s1 = "s\<lparr>sh_writer := Some ?w1\<rparr>"
  have "oldest_loop (slots s) i ?acc = Some acc'" using Suc.prems(3) by (auto simp: aget_def Let_def split: if_splits)
  then have "(rstep pid)\<^sup>*\<^sup>* ?s1 (?s1\<lparr>sh_writer := Some (?w1\<lparr>wr_phase := Scanning 0 acc'\<rparr>)\<rparr>)"
    by (intro Suc.IH) simp_all
  moreover have "rstep pid s ?s1" by (rule rstep.scan_slot [OF Suc.prems(1,2) refl])
  ultimately show ?case by (simp add: converse_rtranclp_into_rtranclp)
qed


text \<open>\<open>publish_slot\<close> is the three steps of a claim when nobody interferes.\<close>

lemma claim_is_publish_slot:
  assumes i: "i < length (slots s)" and e: "me_txns env = Some (sh_ti s)" "me_pid env = pid a"
    and p: "publish_slot env (mti_numreaders (sh_ti s)) i (of_nat a) = Some env'"
    and st: "sh_reader s a = Idle" "sh_rmutex s = None" "free_slot (slots s) 0 (mti_numreaders (sh_ti s)) = Some i"
  shows "\<exists>s'. (rstep pid)\<^sup>*\<^sup>* s s' \<and> me_txns env' = Some (sh_ti s') \<and> sh_reader s' a = Owns i"
proof -
  define s1 where "s1 = goes a (Reset i) (set_slot i \<lparr>mr_txnid = -1, mr_pid = 0, mr_tid = of_nat a\<rparr> (s\<lparr>sh_rmutex := Some a\<rparr>))"
  define s2 where "s2 = goes a (Listed i) (s1\<lparr>sh_ti := (sh_ti s1)\<lparr>mti_numreaders :=
      if i = mti_numreaders (sh_ti s1) then mti_numreaders (sh_ti s1) + 1 else mti_numreaders (sh_ti s1)\<rparr>\<rparr>)"
  define s3 where "s3 = goes a (Owns i) (set_slot i ((slots s2 ! i)\<lparr>mr_pid := pid a\<rparr>) (s2\<lparr>sh_rmutex := None\<rparr>))"
  have "rstep pid s s1" unfolding s1_def by (rule rstep.reset [OF st i])
  moreover have "rstep pid s1 s2" unfolding s2_def by (rule rstep.list) (simp add: s1_def step_simps)
  moreover have "rstep pid s2 s3" unfolding s3_def by (rule rstep.own) (simp add: s2_def step_simps)
  ultimately have "(rstep pid)\<^sup>*\<^sup>* s s3" by (meson rtranclp.rtrancl_refl rtranclp.rtrancl_into_rtrancl)
  moreover have "me_txns env' = Some (sh_ti s3)"
    using p publish_ok [OF e(1) i] e(2) i by (auto simp: s3_def s2_def s1_def step_simps)
  moreover have "sh_reader s3 a = Owns i" by (simp add: s3_def step_simps)
  ultimately show ?thesis by blast
qed

section \<open>Page reuse\<close>


section \<open>An instance\<close>

text \<open>One reader, thread 0 of process 1, takes the snapshot 5.\<close>

lemma owns_example:
  "\<exists>s. reachable (\<lambda>_. 1) 1 s \<and> sh_reader s 0 = Owns 0 \<and> sh_ti s = \<lparr>mti_txnid = x, mti_numreaders = 1, mti_readers =
     [\<lparr>mr_txnid = -1, mr_pid = 1, mr_tid = 0\<rparr>]\<rparr> \<and> sh_meta s = x \<and> sh_writer s = None \<and> sh_oldest s = (\<lambda>_. 0)"
proof -
  let ?p = "\<lambda>_ :: nat. 1 :: int"
  define s0 where "s0 = init_shared 1 x"
  define s1 where "s1 = goes 0 (Reset 0) (set_slot 0 \<lparr>mr_txnid = -1, mr_pid = 0, mr_tid = of_nat 0\<rparr> (s0\<lparr>sh_rmutex := Some 0\<rparr>))"
  define s2 where "s2 = goes 0 (Listed 0) (s1\<lparr>sh_ti := (sh_ti s1)\<lparr>mti_numreaders :=
      if 0 = mti_numreaders (sh_ti s1) then mti_numreaders (sh_ti s1) + 1 else mti_numreaders (sh_ti s1)\<rparr>\<rparr>)"
  define s3 where "s3 = goes 0 (Owns 0) (set_slot 0 ((slots s2 ! 0)\<lparr>mr_pid := ?p 0\<rparr>) (s2\<lparr>sh_rmutex := None\<rparr>))"
  have "reachable ?p 1 s0" unfolding s0_def by (rule reachable.start)
  moreover have "rstep ?p s0 s1" unfolding s1_def by (rule rstep.reset) (simp_all add: s0_def init_shared_def)
  moreover have "rstep ?p s1 s2" unfolding s2_def by (rule rstep.list) (simp add: s1_def step_simps)
  moreover have "rstep ?p s2 s3" unfolding s3_def by (rule rstep.own) (simp add: s2_def step_simps)
  ultimately have "reachable ?p 1 s3" by (blast intro: reachable.step)
  moreover have "sh_reader s3 0 = Owns 0" "sh_ti s3 = \<lparr>mti_txnid = x, mti_numreaders = 1, mti_readers =
     [\<lparr>mr_txnid = -1, mr_pid = 1, mr_tid = 0\<rparr>]\<rparr>" "sh_meta s3 = x" "sh_writer s3 = None" "sh_oldest s3 = (\<lambda>_. 0)"
    by (simp_all add: s3_def s2_def s1_def s0_def init_shared_def step_simps)
  ultimately show ?thesis by blast
qed

lemma reads_example:
  "\<exists>s. reachable (\<lambda>_. 1) 1 s \<and> sh_reader s 0 = Reading 0 x \<and> sh_ti s = \<lparr>mti_txnid = x, mti_numreaders = 1, mti_readers =
     [\<lparr>mr_txnid = x, mr_pid = 1, mr_tid = 0\<rparr>]\<rparr> \<and> sh_meta s = x \<and> sh_writer s = None \<and> sh_oldest s = (\<lambda>_. 0)"
proof -
  obtain s where s: "reachable (\<lambda>_. 1) 1 s" "sh_reader s 0 = Owns 0" "sh_ti s = \<lparr>mti_txnid = x, mti_numreaders = 1, mti_readers =
     [\<lparr>mr_txnid = -1, mr_pid = 1, mr_tid = 0\<rparr>]\<rparr>" "sh_meta s = x" "sh_writer s = None" "sh_oldest s = (\<lambda>_. 0)" using owns_example by blast
  define s1 where "s1 = goes 0 (Stored 0 (txnid s)) (set_slot 0 ((slots s ! 0)\<lparr>mr_txnid := txnid s\<rparr>) s)"
  have "rstep (\<lambda>_. 1) s s1" unfolding s1_def by (rule rstep.store [OF s(2)])
  moreover have "rstep (\<lambda>_. 1) s1 (goes 0 (Reading 0 x) s1)" by (rule rstep.confirm) (simp_all add: s1_def s(3) step_simps)
  ultimately have "reachable (\<lambda>_. 1) 1 (goes 0 (Reading 0 x) s1)" using s(1) by (blast intro: reachable.step)
  then show ?thesis using s by (intro exI [of _ "goes 0 (Reading 0 x) s1"]) (simp add: step_simps s1_def)
qed





end
