(* ===== verification/Page_Touch.thy ===== *)
theory Page_Touch
  imports Page_Alloc
begin

text \<open>
  Making a page writable: \<open>mdb_page_unspill\<close> and \<open>mdb_page_touch\<close>, and giving pages up: \<open>mdb_page_loose\<close>
  and \<open>mdb_ovpage_free\<close>. The other cursors of the transaction, \<open>st_cursors\<close>, follow the pages that they are on.
\<close>

section \<open>Cursors that follow a page\<close>

definition XCURSOR_INITED :: "mcursor \<Rightarrow> bool" where
  "XCURSOR_INITED m = (case snd m of None \<Rightarrow> False | Some mx \<Rightarrow> has (mc_flags mx) C_INITIALIZED)"

text \<open>The page is \<open>mp\<close> at \<open>mptr\<close>.\<close>

definition XCURSOR_REFRESH :: "mcursor \<Rightarrow> nat \<Rightarrow> page_ptr \<Rightarrow> bytes \<Rightarrow> mcursor option" where
  "XCURSOR_REFRESH m lv mptr mp =
     (if \<not> XCURSOR_INITED m then Some m
      else do {
        k \<leftarrow> aget (mc_ki (fst m)) lv;
        if k \<ge> NUMKEYS mp then Some m
        else do {
          node \<leftarrow> NODEPTR mp k;
          f \<leftarrow> mn_flags mp node;
          if f AND ucast (F_DUPDATA OR F_SUBDATA) = ucast F_DUPDATA then do {
            a \<leftarrow> NODEDATA mp node;
            mx \<leftarrow> snd m;
            pg \<leftarrow> aset (mc_pg mx) 0 (Some (Sub_page mptr a));
            Some (fst m, Some (mx\<lparr>mc_pg := pg\<rparr>)) }
          else Some m } })"

text \<open>A function over the tracked cursors of a database.\<close>

fun map_cursors :: "nat \<Rightarrow> (mcursor \<Rightarrow> mcursor option) \<Rightarrow> mcursor list \<Rightarrow> mcursor list option" where
  "map_cursors dbi f [] = Some []"
| "map_cursors dbi f (m # ms) = do {
     m' \<leftarrow> (if mc_dbi (fst m) = dbi then f m else Some m);
     ms' \<leftarrow> map_cursors dbi f ms;
     Some (m' # ms') }"

definition upd_cursors :: "'a wst_scheme \<Rightarrow> nat \<Rightarrow> (mcursor \<Rightarrow> mcursor option) \<Rightarrow> 'a wst_scheme option" where
  "upd_cursors st dbi f = do {
     ms \<leftarrow> map_cursors dbi f (st_cursors st);
     Some (st\<lparr>st_cursors := ms\<rparr>) }"

text \<open>One tracked cursor moves from page \<open>mp\<close> to \<open>np\<close>, with contents \<open>nb\<close>, if it has \<open>mp\<close> at the level of \<open>mc\<close>.\<close>

definition follow :: "cursor \<Rightarrow> page_ptr \<Rightarrow> page_ptr \<Rightarrow> bytes \<Rightarrow> mcursor \<Rightarrow> mcursor option" where
  "follow mc mp np nb m2 =
     (if has (mc_flags mc) C_SUB then do {
        m3 \<leftarrow> snd m2;
        if mc_snum m3 < mc_snum mc then Some m2
        else do {
          p \<leftarrow> aget (mc_pg m3) (mc_top mc);
          if p = Some mp then do {
            pg \<leftarrow> aset (mc_pg m3) (mc_top mc) (Some np);
            Some (fst m2, Some (m3\<lparr>mc_pg := pg\<rparr>)) }
          else Some m2 } }
      else if mc_snum (fst m2) < mc_snum mc then Some m2
      else do {
        p \<leftarrow> aget (mc_pg (fst m2)) (mc_top mc);
        if p = Some mp then do {
          pg \<leftarrow> aset (mc_pg (fst m2)) (mc_top mc) (Some np);
          let m2 = ((fst m2)\<lparr>mc_pg := pg\<rparr>, snd m2);
          if IS_LEAF nb then XCURSOR_REFRESH m2 (mc_top mc) np nb else Some m2 }
        else Some m2 })"

text \<open>The label \<open>done\<close> of \<open>mdb_page_touch\<close>.\<close>

definition touch_done :: "'a wst_scheme \<Rightarrow> cursor \<Rightarrow> page_ptr \<Rightarrow> page_ptr \<Rightarrow> (int \<times> 'a wst_scheme \<times> cursor) option" where
  "touch_done st mc mp np = do {
     pg \<leftarrow> aset (mc_pg mc) (mc_top mc) (Some np);
     nb \<leftarrow> page_at st np;
     st \<leftarrow> upd_cursors st (mc_dbi mc) (follow mc mp np nb);
     Some (MDB_SUCCESS, st, mc\<lparr>mc_pg := pg\<rparr>) }"

section \<open>Spilled pages\<close>

text \<open>Whether a spill list contains the page, and where.\<close>

definition spilled_at :: "idl option \<Rightarrow> u64 \<Rightarrow> nat option option" where
  "spilled_at sl pn =
     (case sl of
        None \<Rightarrow> Some None
      | Some il \<Rightarrow> do {
          x \<leftarrow> mdb_midl_search (il_ids il) pn;
          n \<leftarrow> aget (il_ids il) 0;
          if x \<le> unat n then do {
            v \<leftarrow> aget (il_ids il) x;
            Some (if v = pn then Some x else None) }
          else Some None })"

text \<open>The level of the transaction that has spilled the page (0 is \<open>st_txn\<close>), and its place in the list.\<close>

fun find_spilled :: "txn list \<Rightarrow> u64 \<Rightarrow> nat \<Rightarrow> (nat \<times> nat) option option" where
  "find_spilled [] pn level = Some None"
| "find_spilled (tx2 # rest) pn level = do {
     r \<leftarrow> spilled_at (mt_spill_pgs tx2) pn;
     case r of
       Some x \<Rightarrow> Some (Some (level, x))
     | None \<Rightarrow> find_spilled rest pn (level + 1) }"

text \<open>\<open>if (x == sl[0]) sl[0]--; else sl[x] |= 1\<close>\<close>

definition unlist_spilled :: "idl \<Rightarrow> nat \<Rightarrow> idl option" where
  "unlist_spilled il x = do {
     n \<leftarrow> aget (il_ids il) 0;
     v \<leftarrow> aget (il_ids il) x;
     ids \<leftarrow> (if x = unat n then aset (il_ids il) 0 (n - 1) else aset (il_ids il) x (v OR 1));
     Some (il\<lparr>il_ids := ids\<rparr>) }"

text \<open>The result is the writable page, if the page was spilled.\<close>

definition mdb_page_unspill :: "'a wst_scheme \<Rightarrow> page_ptr \<Rightarrow> (int \<times> 'a wst_scheme \<times> page_ptr option) option" where
  "mdb_page_unspill st mp = do {
     b \<leftarrow> page_at st mp;
     r \<leftarrow> find_spilled (st_txn st # st_parents st) (push_bit 1 (mp_pgno b)) 0;
     case r of
       None \<Rightarrow> Some (MDB_SUCCESS, st, None)
     | Some (level, x) \<Rightarrow>
         if mt_dirty_room (st_txn st) = 0 then Some (MDB_TXN_FULL, st, None)
         else
           let num = (if IS_OVERFLOW b then mp_pages b else 1);
               (st, np) = (if has (me_flags (st_env st)) MDB_WRITEMAP then (st, Some mp) else mdb_page_malloc st num) in
           (case np of
             None \<Rightarrow> Some (ENOMEM, st, None)
           | Some np \<Rightarrow> do {
               st \<leftarrow> (if has (me_flags (st_env st)) MDB_WRITEMAP then Some st
                     else if num > 1 then do {
                       bs \<leftarrow> get_bytes b 0 (num * me_psize (st_env st));
                       upd_page st np (\<lambda>_. bs) }
                     else do {
                       d \<leftarrow> page_at st np;
                       d \<leftarrow> mdb_page_copy d b (me_psize (st_env st));
                       upd_page st np (\<lambda>_. d) });
               st \<leftarrow> (if level = 0 then do {
                        il \<leftarrow> mt_spill_pgs (st_txn st);
                        il \<leftarrow> unlist_spilled il x;
                        Some (upd_txn (\<lambda>t. t\<lparr>mt_spill_pgs := Some il\<rparr>) st) }
                      else Some st);
               st \<leftarrow> mdb_page_dirty st np;
               st \<leftarrow> upd_page st np (\<lambda>b. set_mp_flags (mp_flags b OR P_DIRTY) b);
               Some (MDB_SUCCESS, st, Some np) }) }"

section \<open>Touching a page\<close>

text \<open>\<open>MDB_PROBLEM\<close>: the page of the cursor is not the one on the dirty list.\<close>

definition bad_cursor :: "'a st_scheme \<Rightarrow> cursor \<Rightarrow> int \<times> 'a st_scheme \<times> cursor" where
  "bad_cursor st mc = (MDB_PROBLEM, txn_error st, mc\<lparr>mc_flags := mc_flags mc AND NOT (C_INITIALIZED OR C_EOF)\<rparr>)"

text \<open>The entry of the dirty list with the number, if there is one.\<close>

definition dirty_entry :: "txn \<Rightarrow> u64 \<Rightarrow> page_ptr option option" where
  "dirty_entry txn pgno = do {
     d0 \<leftarrow> aget (mt_dirty_list txn) 0;
     if fst d0 \<noteq> 0 then do {
       x \<leftarrow> mdb_mid2l_search (mt_dirty_list txn) pgno;
       if x \<le> unat (fst d0) then do {
         e \<leftarrow> aget (mt_dirty_list txn) x;
         Some (if fst e = pgno then Some (snd e) else None) }
       else Some None }
     else Some None }"

definition copy_page :: "'a wst_scheme \<Rightarrow> page_ptr \<Rightarrow> page_ptr \<Rightarrow> u64 \<Rightarrow> 'a wst_scheme option" where
  "copy_page st np mp pgno = do {
     d \<leftarrow> page_at st np;
     s \<leftarrow> page_at st mp;
     d \<leftarrow> mdb_page_copy d s (me_psize (st_env st));
     let d = set_mp_pgno pgno d;
     upd_page st np (\<lambda>_. set_mp_flags (mp_flags d OR P_DIRTY) d) }"

text \<open>The number of the child in the parent page, or in the root field of the database, is replaced.\<close>

definition set_parent :: "'a wst_scheme \<Rightarrow> cursor \<Rightarrow> u64 \<Rightarrow> ('a wst_scheme \<times> cursor) option" where
  "set_parent st mc pgno =
     (if mc_top mc \<noteq> 0 then do {
        pp \<leftarrow> pg_at mc (mc_top mc - 1);
        k \<leftarrow> aget (mc_ki mc) (mc_top mc - 1);
        b \<leftarrow> page_at st pp;
        node \<leftarrow> NODEPTR b k;
        b \<leftarrow> SETPGNO b node pgno;
        st \<leftarrow> put_page st pp b;
        Some (st, mc) }
      else upd_mc_db st mc (\<lambda>d. d\<lparr>md_root := pgno\<rparr>))"

text \<open>The copy of a page that the transaction has not written yet.\<close>

definition touch_new :: "'a wst_scheme \<Rightarrow> cursor \<Rightarrow> page_ptr \<Rightarrow> u64 \<Rightarrow> (int \<times> 'a wst_scheme \<times> cursor) option" where
  "touch_new st mc mp old = do {
     let (mem, st) = ask_mem st;
     (rc, il) \<leftarrow> mdb_midl_need mem (mt_free_pgs (st_txn st)) 1;
     let st = upd_txn (\<lambda>t. t\<lparr>mt_free_pgs := il\<rparr>) st;
     if rc \<noteq> 0 then Some (rc, txn_error st, mc)
     else do {
       (rc, st, np) \<leftarrow> mdb_page_alloc st 1;
       if rc \<noteq> 0 then Some (rc, txn_error st, mc)
       else do {
         np \<leftarrow> np;
         nb \<leftarrow> page_at st np;
         let pgno = mp_pgno nb;
         if old = pgno then None
         else do {
           il \<leftarrow> mdb_midl_xappend (mt_free_pgs (st_txn st)) old;
           let st = upd_txn (\<lambda>t. t\<lparr>mt_free_pgs := il\<rparr>) st;
           (st, mc) \<leftarrow> set_parent st mc pgno;
           st \<leftarrow> copy_page st np mp pgno;
           touch_done st mc mp np } } } }"

text \<open>A nested transaction's own copy of a page that an ancestor has made dirty.\<close>

definition touch_nested :: "'a wst_scheme \<Rightarrow> cursor \<Rightarrow> page_ptr \<Rightarrow> u64 \<Rightarrow> (int \<times> 'a wst_scheme \<times> cursor) option" where
  "touch_nested st mc mp pgno = do {
     e \<leftarrow> dirty_entry (st_txn st) pgno;
     case e of
       Some p \<Rightarrow> Some (if mp \<noteq> p then bad_cursor st mc else (0, st, mc))
     | None \<Rightarrow> do {
         d0 \<leftarrow> aget (mt_dirty_list (st_txn st)) 0;
         if unat (fst d0) \<ge> MDB_IDL_UM_MAX then None
         else (case mdb_page_malloc st 1 of
             (st, None) \<Rightarrow> Some (ENOMEM, st, mc)
           | (st, Some np) \<Rightarrow> do {
               (rc, dl) \<leftarrow> mdb_mid2l_insert (mt_dirty_list (st_txn st)) (pgno, np);
               if rc \<noteq> 0 then None
               else do {
                 st \<leftarrow> copy_page (upd_txn (\<lambda>t. t\<lparr>mt_dirty_list := dl\<rparr>) st) np mp pgno;
                 touch_done st mc mp np } }) } }"

definition mdb_page_touch :: "'a wst_scheme \<Rightarrow> cursor \<Rightarrow> (int \<times> 'a wst_scheme \<times> cursor) option" where
  "mdb_page_touch st mc = do {
     mp \<leftarrow> pg_at mc (mc_top mc);
     b \<leftarrow> page_at st mp;
     if \<not> F_ISSET (mp_flags b) P_DIRTY then do {
       (rc, st, np) \<leftarrow> (if has (mt_flags (st_txn st)) MDB_TXN_SPILLS then mdb_page_unspill st mp else Some (0, st, None));
       if rc \<noteq> 0 then Some (rc, txn_error st, mc)
       else case np of
         Some np \<Rightarrow> touch_done st mc mp np
       | None \<Rightarrow> touch_new st mc mp (mp_pgno b) }
     else if st_parents st \<noteq> [] \<and> \<not> IS_SUBP b then touch_nested st mc mp (mp_pgno b)
     else Some (0, st, mc) }"

section \<open>Giving up pages\<close>

text \<open>
  A page that this transaction made dirty becomes loose, to be used again first; another one goes to
  \<open>mt_free_pgs\<close>. The link to the next loose page, in the page's own bytes, is the list \<open>mt_loose_pgs\<close> here.
\<close>

definition mdb_page_loose :: "'a wst_scheme \<Rightarrow> cursor \<Rightarrow> page_ptr \<Rightarrow> (int \<times> 'a wst_scheme \<times> cursor) option" where
  "mdb_page_loose st mc mp = do {
     b \<leftarrow> page_at st mp;
     let pgno = mp_pgno b;
     own \<leftarrow>
       (if has (mp_flags b) P_DIRTY \<and> mc_dbi mc \<noteq> FREE_DBI then
          if st_parents st \<noteq> [] then do {
            e \<leftarrow> dirty_entry (st_txn st) pgno;
            Some (map_option (\<lambda>p. p = mp) e) }
          else Some (Some True)
        else Some None);
     case own of
       Some False \<Rightarrow> Some (bad_cursor st mc)
     | Some True \<Rightarrow> do {
         st \<leftarrow> upd_page st mp (\<lambda>b. set_mp_flags (mp_flags b OR P_LOOSE) b);
         Some (MDB_SUCCESS, upd_txn (\<lambda>t. t\<lparr>mt_loose_pgs := mp # mt_loose_pgs t, mt_loose_count := mt_loose_count t + 1\<rparr>) st, mc) }
     | None \<Rightarrow> do {
         let (mem, st) = ask_mem st;
         (rc, il) \<leftarrow> mdb_midl_append mem (mt_free_pgs (st_txn st)) pgno;
         Some (rc, upd_txn (\<lambda>t. t\<lparr>mt_free_pgs := il\<rparr>) st, mc) } }"

text \<open>
  Removing the page from the dirty list: entries move down from the end until it is found. \<open>x\<close> is the
  place of \<open>ix\<close>; the result is \<open>None\<close> inside when the page is not in the list, which fails an assertion.
\<close>

fun undirty_loop :: "(u64 \<times> page_ptr) list \<Rightarrow> page_ptr \<Rightarrow> nat \<Rightarrow> u64 \<times> page_ptr \<Rightarrow> (u64 \<times> page_ptr) list option" where
  "undirty_loop dl mp 0 ix = (if snd ix = mp then Some dl else None)"
| "undirty_loop dl mp (Suc k) ix =
     (if snd ix = mp then Some dl
      else if Suc k > 1 then do {
        iy \<leftarrow> aget dl k;
        dl \<leftarrow> aset dl k ix;
        undirty_loop dl mp k iy }
      else None)"

definition undirty :: "(u64 \<times> page_ptr) list \<Rightarrow> page_ptr \<Rightarrow> (u64 \<times> page_ptr) list option" where
  "undirty dl mp = do {
     d0 \<leftarrow> aget dl 0;
     let x = unat (fst d0) mod 2 ^ 32;
     dl \<leftarrow> aset dl 0 (fst d0 - 1, snd d0);
     ix \<leftarrow> aget dl x;
     undirty_loop dl mp x ix }"

text \<open>\<open>for (i = mop[0]; i && mop[i] < pg; i--) mop[j--] = mop[i]; while (j>i) mop[j--] = pg++\<close>\<close>

fun make_gap :: "u64 list \<Rightarrow> u64 \<Rightarrow> nat \<Rightarrow> nat \<Rightarrow> (u64 list \<times> nat) option" where
  "make_gap mop pg n 0 = Some (mop, 0)"
| "make_gap mop pg n (Suc i) = do {
     v \<leftarrow> aget mop (Suc i);
     if v < pg then do {
       mop \<leftarrow> aset mop (Suc i + n) v;
       make_gap mop pg n i }
     else Some (mop, Suc i) }"

fun fill_gap :: "u64 list \<Rightarrow> nat \<Rightarrow> nat \<Rightarrow> u64 \<Rightarrow> u64 list option" where
  "fill_gap mop i 0 pg = Some mop"
| "fill_gap mop i (Suc k) pg = do {
     mop \<leftarrow> aset mop (i + Suc k) pg;
     fill_gap mop i k (pg + 1) }"

definition release_pages :: "u64 list \<Rightarrow> u64 \<Rightarrow> nat \<Rightarrow> u64 list option" where
  "release_pages mop pg n = do {
     c \<leftarrow> aget mop 0;
     (mop, i) \<leftarrow> make_gap mop pg n (unat c mod 2 ^ 32);
     mop \<leftarrow> fill_gap mop i n pg;
     aset mop 0 (c + of_nat n) }"

definition free_later :: "'a wst_scheme \<Rightarrow> u64 \<Rightarrow> nat \<Rightarrow> (int \<times> 'a wst_scheme) option" where
  "free_later st pg n = do {
     let (mem, st) = ask_mem st;
     (rc, il) \<leftarrow> mdb_midl_append_range mem (mt_free_pgs (st_txn st)) pg (of_nat n);
     Some (rc, upd_txn (\<lambda>t. t\<lparr>mt_free_pgs := il\<rparr>) st) }"

text \<open>
  The pages of a run that this transaction wrote go back to \<open>me_pghead\<close>, the list \<open>hd\<close>; \<open>sx\<close> is the place in the
  spill list, \<open>None\<close> when the run is dirty.
\<close>

definition unwrite_run :: "'a wst_scheme \<Rightarrow> page_ptr \<Rightarrow> nat option \<Rightarrow> 'a wst_scheme option" where
  "unwrite_run st mp sx =
     (case sx of
        Some x \<Rightarrow> do {
          il \<leftarrow> mt_spill_pgs (st_txn st);
          il \<leftarrow> unlist_spilled il x;
          Some (upd_txn (\<lambda>t. t\<lparr>mt_spill_pgs := Some il\<rparr>) st) }
      | None \<Rightarrow> do {
          dl \<leftarrow> undirty (mt_dirty_list (st_txn st)) mp;
          let st = upd_txn (\<lambda>t. t\<lparr>mt_dirty_list := dl, mt_dirty_room := mt_dirty_room t + 1\<rparr>) st;
          if \<not> has (me_flags (st_env st)) MDB_WRITEMAP then mdb_dpage_free st mp else Some st })"

definition reuse_run :: "'a wst_scheme \<Rightarrow> page_ptr \<Rightarrow> nat option \<Rightarrow> idl \<Rightarrow> u64 \<Rightarrow> nat \<Rightarrow> (int \<times> 'a wst_scheme) option" where
  "reuse_run st mp sx il pg n = do {
     let (mem, st) = ask_mem st;
     (rc, il) \<leftarrow> mdb_midl_need mem il (of_nat n);
     let st = upd_env (\<lambda>e. e\<lparr>me_pghead := Some il\<rparr>) st;
     if rc \<noteq> 0 then Some (rc, st)
     else do {
       st \<leftarrow> unwrite_run st mp sx;
       mop \<leftarrow> release_pages (il_ids il) pg n;
       Some (0, upd_env (\<lambda>e. e\<lparr>me_pghead := Some (il\<lparr>il_ids := mop\<rparr>)\<rparr>) st) } }"

definition mdb_ovpage_free :: "'a wst_scheme \<Rightarrow> cursor \<Rightarrow> page_ptr \<Rightarrow> (int \<times> 'a wst_scheme \<times> cursor) option" where
  "mdb_ovpage_free st mc mp = do {
     b \<leftarrow> page_at st mp;
     let pg = mp_pgno b;
     let n = mp_pages b;
     (rc, st) \<leftarrow>
       (case me_pghead (st_env st) of
          None \<Rightarrow> free_later st pg n
        | Some il \<Rightarrow>
            if st_parents st \<noteq> [] then free_later st pg n
            else if has (mp_flags b) P_DIRTY then reuse_run st mp None il pg n
            else do {
              sx \<leftarrow> spilled_at (mt_spill_pgs (st_txn st)) (push_bit 1 pg);
              if sx = None then free_later st pg n else reuse_run st mp sx il pg n });
     if rc \<noteq> 0 then Some (rc, st, mc)
     else do {
       (st, mc) \<leftarrow> upd_mc_db st mc (\<lambda>d. d\<lparr>md_overflow_pages := md_overflow_pages d - of_nat n\<rparr>);
       Some (0, st, mc) } }"

end
