(* ===== verification/Touch_Correct.thy ===== *)
theory Touch_Correct
  imports Page_Touch Alloc_Correct
begin

text \<open>
  Copy on write: what \<open>mdb_page_touch\<close> does with a page that the transaction has not written yet, without
  \<open>MDB_WRITEMAP\<close>.
\<close>

section \<open>The copy\<close>

lemma page_rehead:
  assumes ok: "page_ok psize p" and l: "length q = psize"
    and h: "mp_lower q = mp_lower p" "mp_upper q = mp_upper p" "IS_LEAF q = IS_LEAF p"
    and s: "\<And>a n. 16 \<le> a \<Longrightarrow> a + n \<le> psize \<Longrightarrow> slice q a n = slice p a n"
  shows "page_ok psize q \<and> page_nodes q = page_nodes p"
proof -
  note lower = page_ok_lower [OF ok]
  have k: "NUMKEYS q = NUMKEYS p" by (simp add: NUMKEYS_def h)
  have b: "mp_lower p \<le> mp_upper p" "mp_upper p \<le> psize" "16 \<le> mp_lower p" using ok by (simp_all add: page_ok_def)
  have ps: "ptrs q = ptrs p"
    using s lower b by (simp add: ptrs_def k pt_def rd_def)
  have same: "extent q x = extent p x" "node_bytes q x = node_bytes p x" if "x \<in> set (ptrs p)" for x
    using node_moved [of q x p x, OF _ h(3)] s [of x "extent p x"] page_okD [OF ok that] l b by auto
  have "sorted_wrt (apart q) (ptrs p)"
    using sorted_wrt_apart_map [of p "ptrs p" q "\<lambda>x. x"] ok same(1) by (simp add: page_ok_def apart_def)
  then have "page_ok psize q"
    using ok l same(1) unfolding page_ok_def by (simp add: h ps)
  moreover have "page_nodes q = page_nodes p" using same(2) by (simp add: page_nodes_def ps)
  ultimately show ?thesis by blast
qed

lemma leaf_dirty: "F_ISSET (f OR P_DIRTY) P_LEAF = F_ISSET f P_LEAF" "F_ISSET (f OR P_DIRTY) P_DIRTY"
proof -
  have "(f OR P_DIRTY) AND P_LEAF = f AND P_LEAF"
    by (simp add: bit.conj_disj_distrib2 P_DIRTY_def P_LEAF_def)
  then show "F_ISSET (f OR P_DIRTY) P_LEAF = F_ISSET f P_LEAF" by (simp add: F_ISSET_def)
  have "(f OR P_DIRTY) AND P_DIRTY = P_DIRTY" by (rule bit_word_eqI) (auto simp: bit_simps)
  then show "F_ISSET (f OR P_DIRTY) P_DIRTY" by (simp add: F_ISSET_def)
qed

text \<open>The new page: the same nodes under the new number, and dirty.\<close>

definition copy_of :: "nat \<Rightarrow> bytes \<Rightarrow> u64 \<Rightarrow> bytes \<Rightarrow> bool" where
  "copy_of psize b pgno nb \<longleftrightarrow> page_ok psize nb \<and> page_nodes nb = page_nodes b \<and> IS_LEAF nb = IS_LEAF b \<and>
     NUMKEYS nb = NUMKEYS b \<and> mp_pgno nb = pgno \<and> mp_flags nb = mp_flags b OR P_DIRTY"

lemma copy_page_ok:
  assumes np: "st_heap st np = Some d" "length d = psize" and mp: "page_at st mp = Some b" and ps: "psize = me_psize (st_env st)"
    and ok: "page_ok psize b" "\<not> IS_LEAF2 b" "8 dvd psize"
  shows "\<exists>nb. copy_page st (Heap_page np) mp pgno = Some (st\<lparr>st_heap := (st_heap st)(np \<mapsto> nb)\<rparr>) \<and> copy_of psize b pgno nb"
proof -
  obtain q where q: "mdb_page_copy d b psize = Some q" "page_ok psize q" "page_nodes q = page_nodes b" "take 16 q = take 16 b"
    using page_copy_correct [OF ok np(2)] by blast
  have lq: "length q = psize" "16 \<le> length q" "16 \<le> length b" "length b = psize" using q(2) ok(1) by (auto simp: page_ok_def)
  have hd: "rd q a n = rd b a n" if "a + n \<le> 16" for a n
  proof -
    have "slice q a n = slice (take 16 q) a n" "slice b a n = slice (take 16 b) a n"
      using that by (simp_all add: slice_def drop_take min_absorb1)
    then show ?thesis using q(4) by (simp add: rd_def)
  qed
  let ?q1 = "set_mp_pgno pgno q"
  let ?nb = "set_mp_flags (mp_flags ?q1 OR P_DIRTY) ?q1"
  have f: "mp_flags q = mp_flags b" "mp_lower q = mp_lower b" by (simp_all add: hdr_get_defs hd)
  have l1: "16 \<le> length ?q1" using lq by simp
  have nb: "length ?nb = psize" "mp_lower ?nb = mp_lower q" "mp_upper ?nb = mp_upper q" "mp_pgno ?nb = pgno" "mp_flags ?nb = mp_flags b OR P_DIRTY"
    using lq l1 f by (simp_all add: page_simps)
  have leaf: "IS_LEAF ?nb = IS_LEAF q" using nb(5) f by (simp add: IS_LEAF_def leaf_dirty)
  have sl: "slice ?nb a n = slice q a n" if "16 \<le> a" "a + n \<le> psize" for a n
    using that lq l1 by (simp add: page_simps)
  have "page_ok psize ?nb \<and> page_nodes ?nb = page_nodes q" by (rule page_rehead [OF q(2) nb(1-3) leaf sl])
  moreover have "IS_LEAF q = IS_LEAF b" "NUMKEYS ?nb = NUMKEYS b" using f nb(2) by (simp_all add: IS_LEAF_def NUMKEYS_def)
  ultimately have "copy_of psize b pgno ?nb" using nb q leaf by (simp add: copy_of_def)
  moreover have "copy_page st (Heap_page np) mp pgno = Some (st\<lparr>st_heap := (st_heap st)(np \<mapsto> ?nb)\<rparr>)"
    using np mp ps q(1) nb(1) by (simp add: copy_page_def upd_page_def Let_def)
  ultimately show ?thesis by blast
qed

section \<open>The other cursors\<close>

definition full_stack :: "cursor \<Rightarrow> bool" where
  "full_stack mc \<longleftrightarrow> length (mc_pg mc) = CURSOR_STACK \<and> length (mc_ki mc) = CURSOR_STACK"

definition cursors_ok :: "mcursor list \<Rightarrow> bool" where
  "cursors_ok ms \<longleftrightarrow> (\<forall>m \<in> set ms. full_stack (fst m) \<and> (\<forall>mx. snd m = Some mx \<longrightarrow> full_stack mx))"

text \<open>
  A tracked cursor that had \<open>mp\<close> at the level of \<open>mc\<close> has \<open>np\<close> there; nothing else about it changes, but for the place of
  the sub-page that its sub-cursor may be on.
\<close>

definition moved :: "cursor \<Rightarrow> page_ptr \<Rightarrow> page_ptr \<Rightarrow> mcursor \<Rightarrow> mcursor \<Rightarrow> bool" where
  "moved mc mp np m m' \<longleftrightarrow>
     (let hit = mc_dbi (fst m) = mc_dbi mc \<and> mc_snum mc \<le> mc_snum (fst m) \<and> mc_pg (fst m) ! mc_top mc = Some mp in
      fst m' = (if hit then (fst m)\<lparr>mc_pg := (mc_pg (fst m))[mc_top mc := Some np]\<rparr> else fst m) \<and>
      (snd m' = snd m \<or> hit \<and> (\<exists>mx a. snd m = Some mx \<and> has (mc_flags mx) C_INITIALIZED \<and>
         snd m' = Some (mx\<lparr>mc_pg := (mc_pg mx)[0 := Some (Sub_page np a)]\<rparr>))))"

lemma xcursor_refresh_ok:
  assumes "full_stack (fst m)" "\<forall>mx. snd m = Some mx \<longrightarrow> full_stack mx" "lv < CURSOR_STACK" "page_ok psize nb"
  shows "\<exists>m'. XCURSOR_REFRESH m lv np nb = Some m' \<and> fst m' = fst m \<and>
    (snd m' = snd m \<or> (\<exists>mx a. snd m = Some mx \<and> has (mc_flags mx) C_INITIALIZED \<and>
       snd m' = Some (mx\<lparr>mc_pg := (mc_pg mx)[0 := Some (Sub_page np a)]\<rparr>)))"
proof (cases "XCURSOR_INITED m \<and> mc_ki (fst m) ! lv < NUMKEYS nb")
  case True
  then obtain mx where mx: "snd m = Some mx" "has (mc_flags mx) C_INITIALIZED" by (auto simp: XCURSOR_INITED_def split: option.splits)
  let ?k = "mc_ki (fst m) ! lv"
  have k: "aget (mc_ki (fst m)) lv = Some ?k" using assms(1,3) by (simp add: full_stack_def)
  have n: "NODEPTR nb ?k = Some (pt nb ?k)" "pt nb ?k + 8 + rd nb (pt nb ?k + 6) 2 \<le> length nb"
    using page_node [OF assms(4), of ?k] True by simp_all
  have pg: "aset (mc_pg mx) 0 (Some (Sub_page np a)) = Some ((mc_pg mx)[0 := Some (Sub_page np a)])" for a
    using assms(2) mx by (simp add: full_stack_def CURSOR_STACK_def)
  obtain f a where f: "mn_flags nb (pt nb ?k) = Some f" "NODEDATA nb (pt nb ?k) = Some a"
    using n(2) by (simp add: mn_flags_def NODEDATA_def mn_ksize_def)
  let ?m' = "if f AND ucast (F_DUPDATA OR F_SUBDATA) = ucast F_DUPDATA
    then (fst m, Some (mx\<lparr>mc_pg := (mc_pg mx)[0 := Some (Sub_page np a)]\<rparr>)) else m"
  have "XCURSOR_REFRESH m lv np nb = Some ?m'"
    using True mx k n(1) pg f unfolding XCURSOR_REFRESH_def by (simp add: not_le)
  then show ?thesis using mx by (intro exI [of _ ?m'] conjI) auto
next
  case False
  have "aget (mc_ki (fst m)) lv = Some (mc_ki (fst m) ! lv)" using assms(1,3) by (simp add: full_stack_def)
  then have "XCURSOR_REFRESH m lv np nb = Some m" using False by (auto simp: XCURSOR_REFRESH_def not_less)
  then show ?thesis by auto
qed

lemma follow_ok:
  assumes "full_stack (fst m)" "\<forall>mx. snd m = Some mx \<longrightarrow> full_stack mx" "mc_top mc < CURSOR_STACK" "page_ok psize nb"
    and sub: "\<not> has (mc_flags mc) C_SUB" and dbi: "mc_dbi (fst m) = mc_dbi mc"
  shows "\<exists>m'. follow mc mp np nb m = Some m' \<and> moved mc mp np m m'"
proof -
  have p: "aget (mc_pg (fst m)) (mc_top mc) = Some (mc_pg (fst m) ! mc_top mc)" using assms(1,3) by (simp add: full_stack_def)
  show ?thesis
  proof (cases "mc_snum mc \<le> mc_snum (fst m) \<and> mc_pg (fst m) ! mc_top mc = Some mp")
    case True
    let ?m2 = "((fst m)\<lparr>mc_pg := (mc_pg (fst m))[mc_top mc := Some np]\<rparr>, snd m)"
    have run: "follow mc mp np nb m = (if IS_LEAF nb then XCURSOR_REFRESH ?m2 (mc_top mc) np nb else Some ?m2)"
      using True p sub assms(1,3) by (simp add: follow_def full_stack_def not_less Let_def)
    have "full_stack (fst ?m2)" using assms(1) by (simp add: full_stack_def)
    from xcursor_refresh_ok [OF this _ assms(3,4), of np] show ?thesis using run True dbi assms(2)
      by (auto simp: moved_def)
  next
    case False
    then have "follow mc mp np nb m = Some m" using p sub by (auto simp: follow_def not_le)
    then show ?thesis using False by (auto simp: moved_def Let_def)
  qed
qed

lemma map_cursors_ok:
  assumes "cursors_ok ms" "mc_top mc < CURSOR_STACK" "page_ok psize nb" "\<not> has (mc_flags mc) C_SUB"
  shows "\<exists>ms'. map_cursors (mc_dbi mc) (follow mc mp np nb) ms = Some ms' \<and> list_all2 (moved mc mp np) ms ms'"
  using assms(1)
proof (induction ms)
  case (Cons m ms)
  then obtain ms' where ms': "map_cursors (mc_dbi mc) (follow mc mp np nb) ms = Some ms'" "list_all2 (moved mc mp np) ms ms'"
    by (auto simp: cursors_ok_def)
  have m: "full_stack (fst m)" "\<forall>mx. snd m = Some mx \<longrightarrow> full_stack mx" using Cons.prems by (auto simp: cursors_ok_def)
  show ?case
  proof (cases "mc_dbi (fst m) = mc_dbi mc")
    case True
    then show ?thesis using ms' follow_ok [OF m assms(2,3,4) True, of mp np] by auto
  next
    case False
    then have "moved mc mp np m m" by (simp add: moved_def)
    then show ?thesis using ms' False by simp
  qed
qed simp

lemma touch_done_ok:
  assumes "cursors_ok (st_cursors st)" "mc_top mc < length (mc_pg mc)" "mc_top mc < CURSOR_STACK" "page_at st np = Some nb"
    "page_ok psize nb" "\<not> has (mc_flags mc) C_SUB"
  shows "\<exists>ms'. touch_done st mc mp np = Some (0, st\<lparr>st_cursors := ms'\<rparr>, mc\<lparr>mc_pg := (mc_pg mc)[mc_top mc := Some np]\<rparr>) \<and>
    list_all2 (moved mc mp np) (st_cursors st) ms'"
  using map_cursors_ok [OF assms(1,3,5,6), of mp np] assms(2,4)
  by (auto simp: touch_done_def upd_cursors_def MDB_SUCCESS_def)

section \<open>The parent\<close>

text \<open>\<open>q\<close> is the branch page \<open>p\<close> with another number for child \<open>k\<close>, of which 48 bits are kept.\<close>

definition child_set :: "nat \<Rightarrow> bytes \<Rightarrow> nat \<Rightarrow> u64 \<Rightarrow> bytes \<Rightarrow> bool" where
  "child_set psize p k pgno q \<longleftrightarrow> page_ok psize q \<and> NUMKEYS q = NUMKEYS p \<and> mp_pgno q = mp_pgno p \<and> mp_flags q = mp_flags p \<and>
     (\<forall>i < NUMKEYS p. key_at q i = key_at p i \<and> child_at q i = (if i = k then of_nat (unat pgno mod 2 ^ 48) else child_at p i))"

lemma set_child_ok:
  assumes ok: "page_ok psize p" and k: "k < NUMKEYS p" and br: "\<not> IS_LEAF p"
  shows "\<exists>q. SETPGNO p (pt p k) pgno = Some q \<and> length q = length p \<and> child_set psize p k pgno q"
proof -
  let ?n = "pt p k"
  have mem: "pt p i \<in> set (ptrs p)" if "i < NUMKEYS p" for i using that by (auto simp: ptrs_def)
  have bd: "mp_upper p \<le> pt p i" "pt p i + extent p (pt p i) \<le> psize" "mp_lower p \<le> pt p i" if "i < NUMKEYS p" for i
    using page_okD [OF ok mem [OF that]] by simp_all
  have len: "length p = psize" "16 + 2 * NUMKEYS p \<le> ?n" using ok page_ok_lower [OF ok] bd(3) [OF k] by (simp_all add: page_ok_def)
  have ext: "8 + rd p (pt p i + 6) 2 \<le> extent p (pt p i)" for i
    using EVEN_bounds(1) [of "node_len (IS_LEAF p) p (pt p i)"] br by (simp add: extent_def node_len_def)
  define q where "q = wr p ?n 6 (unat pgno)"
  have n6: "?n + 6 \<le> length p" using bd(2) [OF k] extent_ge [of p ?n] len by linarith
  have run: "SETPGNO p ?n pgno = Some q" using SETPGNO_eq [OF n6] by (simp add: q_def)
  have lq: "length q = psize" using n6 len by (simp add: q_def)
  have hdr: "mp_pgno q = mp_pgno p" "mp_flags q = mp_flags p" "mp_lower q = mp_lower p" "mp_upper q = mp_upper p"
    using n6 len by (simp_all add: q_def page_simps)
  have nk: "NUMKEYS q = NUMKEYS p" by (simp add: NUMKEYS_def hdr)
  have pts: "pt q i = pt p i" if "i < NUMKEYS p" for i
    using that n6 len by (simp add: q_def pt_def rd_wr_disj)
  have away: "pt p i + extent p (pt p i) \<le> ?n \<or> ?n + 8 \<le> pt p i" if i: "i < NUMKEYS p" "i \<noteq> k" for i
  proof -
    have s: "sorted_wrt (apart p) (ptrs p)" using ok by (simp add: page_ok_def)
    have "apart p (pt p i) (pt p k)"
    proof (cases "i < k")
      case True
      then show ?thesis using sorted_wrt_nth_less [OF s True] i k by (simp add: ptrs_def)
    next
      case False
      then show ?thesis using sorted_wrt_nth_less [OF s, of k i] i k by (simp add: ptrs_def apart_sym)
    qed
    then show ?thesis using extent_ge [of p ?n] by (auto simp: apart_def)
  qed
  have rd: "rd q (pt p i + 6) 2 = rd p (pt p i + 6) 2" if i: "i < NUMKEYS p" for i
  proof (cases "i = k")
    case True
    then show ?thesis using n6 bd(2) [OF k] extent_ge [of p ?n] len by (simp add: q_def rd_wr_disj)
  next
    case False
    then show ?thesis using away [OF i] n6 bd(2) [OF i] ext [of i] len unfolding q_def by (intro rd_wr_disj) linarith+
  qed
  have exts: "extent q (pt p i) = extent p (pt p i)" if "i < NUMKEYS p" for i
    using rd [OF that] br hdr(2) by (simp add: extent_def node_len_def IS_LEAF_def)
  have ps: "ptrs q = ptrs p" using pts by (simp add: ptrs_def nk)
  have ex: "extent q x = extent p x" if "x \<in> set (ptrs p)" for x using that exts by (auto simp: ptrs_def)
  have "sorted_wrt (apart q) (ptrs p)"
    using sorted_wrt_apart_map [of p "ptrs p" q "\<lambda>x. x"] ok ex by (simp add: page_ok_def apart_def)
  then have "page_ok psize q" using ok lq ex unfolding page_ok_def by (simp add: hdr ps)
  moreover have "key_at q i = key_at p i \<and> child_at q i = (if i = k then of_nat (unat pgno mod 2 ^ 48) else child_at p i)"
    if i: "i < NUMKEYS p" for i
  proof (cases "i = k")
    case True
    have "slice q (?n + 8) (rd p (?n + 6) 2) = slice p (?n + 8) (rd p (?n + 6) 2)"
      using n6 bd(2) [OF k] ext [of k] len unfolding q_def by (intro slice_wr_disj) linarith+
    moreover have "rd q ?n 6 = unat pgno mod 2 ^ 48" using rd_wr_same [OF n6, of "unat pgno"] by (simp add: q_def)
    ultimately show ?thesis using True pts [OF k] rd [OF k] by (simp add: key_at_def child_at_def)
  next
    case False
    have "slice q (pt p i + 8) (rd p (pt p i + 6) 2) = slice p (pt p i + 8) (rd p (pt p i + 6) 2)"
      using away [OF i False] n6 bd(2) [OF i] ext [of i] len unfolding q_def by (intro slice_wr_disj) linarith+
    moreover have "rd q (pt p i) 6 = rd p (pt p i) 6"
      using away [OF i False] n6 bd(2) [OF i] ext [of i] len unfolding q_def by (intro rd_wr_disj) linarith+
    ultimately show ?thesis using False pts [OF i] rd [OF i] by (simp add: key_at_def child_at_def)
  qed
  ultimately have "child_set psize p k pgno q" using nk hdr by (simp add: child_set_def)
  then show ?thesis using run lq len by simp
qed

section \<open>The whole operation\<close>

lemma alloc_ready_free:
  "alloc_ready (upd_txn (\<lambda>t. t\<lparr>mt_free_pgs := il\<rparr>) (st\<lparr>st_os := os\<rparr>)) psize d root xs o' bd = alloc_ready st psize d root xs o' bd"
proof -
  let ?st = "upd_txn (\<lambda>t. t\<lparr>mt_free_pgs := il\<rparr>) (st\<lparr>st_os := os\<rparr>)"
  have v: "same_view st ?st" unfolding same_view_def upd_txn_def by (intro conjI exI [of _ il]) simp_all
  have f: "st_env ?st = st_env st" "st_heap ?st = st_heap st" "st_brk ?st = st_brk st" "mt_flags (st_txn ?st) = mt_flags (st_txn st)"
    "mt_dirty_list (st_txn ?st) = mt_dirty_list (st_txn st)" "mt_dirty_room (st_txn ?st) = mt_dirty_room (st_txn st)"
    "mt_next_pgno (st_txn ?st) = mt_next_pgno (st_txn st)" "mt_txnid (st_txn ?st) = mt_txnid (st_txn st)"
    by (simp_all add: upd_txn_def)
  have "dirty_map ?st = dirty_map st" by (simp add: dirty_map_def f)
  moreover have "blocks_ok ?st = blocks_ok st" by (simp add: blocks_ok_def dirty_map_def dirty_count_def f)
  moreover have "head_ok ?st = head_ok st" "head_ids ?st = head_ids st" "unread ?st xs = unread st xs"
    by (simp_all add: head_ok_def head_ids_def mop_of_def unread_def f)
  moreover have "mdb_find_oldest (st_env ?st) (st_txn ?st) = mdb_find_oldest (st_env st) (st_txn st)"
    by (simp add: mdb_find_oldest_def f)
  ultimately show ?thesis unfolding alloc_ready_def Let_def
    by (simp add: f same_view_ready [OF v] same_view_cursor [OF v] same_view_items [OF v])
qed

text \<open>
  The page on top of the cursor is in the map, the transaction has not written it, and its number is in use. A parent
  has been touched before.
\<close>

definition touch_ready :: "'a wst_scheme \<Rightarrow> cursor \<Rightarrow> u64 \<Rightarrow> bytes \<Rightarrow> (bytes \<times> bytes) list \<Rightarrow> bool" where
  "touch_ready st mc old b xs \<longleftrightarrow>
     \<not> has (mt_flags (st_txn st)) MDB_TXN_SPILLS \<and> mt_loose_pgs (st_txn st) = [] \<and> cursors_ok (st_cursors st) \<and>
     idl_ok (mt_free_pgs (st_txn st)) \<and> unat (il_ids (mt_free_pgs (st_txn st)) ! 0) + 1 < 2 ^ 30 \<and>
     full_stack mc \<and> mc_top mc < CURSOR_STACK \<and> \<not> has (mc_flags mc) C_SUB \<and> mc_own mc = None \<and>
     mc_dbi mc < length (mt_dbs (st_txn st)) \<and>
     mc_pg mc ! mc_top mc = Some (Map_page old) \<and> page_at st (Map_page old) = Some b \<and> mp_pgno b = old \<and>
     page_ok (me_psize (st_env st)) b \<and> \<not> IS_LEAF2 b \<and> \<not> F_ISSET (mp_flags b) P_DIRTY \<and> 8 dvd me_psize (st_env st) \<and>
     old \<notin> set (head_ids st @ concat (map rec_ids (unread st xs))) \<and> old \<noteq> mt_next_pgno (st_txn st) \<and>
     (mc_top mc \<noteq> 0 \<longrightarrow> (\<exists>ph pb. mc_pg mc ! (mc_top mc - 1) = Some (Heap_page ph) \<and> Heap_page ph \<in> ran (dirty_map st) \<and>
        st_heap st ph = Some pb \<and> page_ok (me_psize (st_env st)) pb \<and> \<not> IS_LEAF pb \<and> mc_ki mc ! (mc_top mc - 1) < NUMKEYS pb))"

text \<open>What a successful touch leaves.\<close>

definition touched :: "'a wst_scheme \<Rightarrow> cursor \<Rightarrow> u64 \<Rightarrow> bytes \<Rightarrow> 'a wst_scheme \<Rightarrow> cursor \<Rightarrow> u64 \<Rightarrow> bool" where
  "touched st mc old b st' mc' pgno \<longleftrightarrow> (\<exists>h nb. let hp = (st_heap st)(h \<mapsto> nb); psize = me_psize (st_env st) in
     copy_of psize b pgno nb \<and> mc' = mc\<lparr>mc_pg := (mc_pg mc)[mc_top mc := Some (Heap_page h)]\<rparr> \<and>
     Heap_page h \<notin> ran (dirty_map st) \<and> dirty_map st' = (dirty_map st)(pgno \<mapsto> Heap_page h) \<and>
     list_all2 (moved mc (Map_page old) (Heap_page h)) (st_cursors st) (st_cursors st') \<and>
     idl_elems (il_ids (mt_free_pgs (st_txn st'))) = idl_elems (il_ids (mt_free_pgs (st_txn st))) @ [old] \<and>
     (if mc_top mc = 0 then st_heap st' = hp \<and>
        mt_dbs (st_txn st') = (mt_dbs (st_txn st))[mc_dbi mc := (mt_dbs (st_txn st) ! mc_dbi mc)\<lparr>md_root := pgno\<rparr>]
      else mt_dbs (st_txn st') = mt_dbs (st_txn st) \<and>
        (\<exists>ph pb pb'. mc_pg mc ! (mc_top mc - 1) = Some (Heap_page ph) \<and> st_heap st ph = Some pb \<and> ph \<noteq> h \<and>
           child_set psize pb (mc_ki mc ! (mc_top mc - 1)) pgno pb' \<and> st_heap st' = hp(ph \<mapsto> pb'))))"

lemma touch_pgno:
  assumes "alloc_result st 1 cs rest o' 0 st' p" "unread st xs = cs @ rest"
  shows "\<exists>pgno. got_page st 1 pgno st' p \<and>
    (pgno \<in> set (head_ids st @ concat (map rec_ids (unread st xs))) \<or> pgno = mt_next_pgno (st_txn st))"
proof -
  have 1: "desc_range g 1 = [g]" for g :: u64 by (simp add: desc_range_def)
  from assms(1) consider (a) pgno where "got_page st 1 pgno st' p"
      "mset (head_ids st') + mset (desc_range pgno 1) = mset (head_ids st @ concat (map rec_ids cs))"
    | (b) pgno where "got_page st 1 pgno st' p" "pgno = mt_next_pgno (st_txn st)"
    unfolding alloc_result_def Let_def by (auto simp: MDB_TXN_FULL_def MDB_MAP_FULL_def)
  then show ?thesis
  proof cases
    case (a pgno)
    then have "pgno \<in># mset (head_ids st @ concat (map rec_ids cs))" unfolding a(2) [symmetric] 1 by simp
    then show ?thesis using a(1) assms(2) by auto
  next
    case (b pgno)
    then show ?thesis by blast
  qed
qed

text \<open>From the new page on.\<close>

lemma touch_new_tail:
  assumes R: "touch_ready st mc old b xs" and k: "alloc_keeps (upd_txn (\<lambda>t. t\<lparr>mt_free_pgs := il\<rparr>) (st\<lparr>st_os := os\<rparr>)) st3"
    and h3: "st_heap st3 = (st_heap st)(h \<mapsto> b0)" "length b0 = me_psize (st_env st)" "Heap_page h \<notin> ran (dirty_map st)"
    and d3: "dirty_map st3 = (dirty_map st)(pgno \<mapsto> Heap_page h)"
    and il: "idl_elems (il_ids il') = idl_elems (il_ids (mt_free_pgs (st_txn st))) @ [old]"
  shows "\<exists>st' mc'. do {
      (st, mc) \<leftarrow> set_parent (upd_txn (\<lambda>t. t\<lparr>mt_free_pgs := il'\<rparr>) st3) mc pgno;
      st \<leftarrow> copy_page st (Heap_page h) (Map_page old) pgno;
      touch_done st mc (Map_page old) (Heap_page h) } = Some (0, st', mc') \<and>
    st_file st' = st_file st \<and> touched st mc old b st' mc' pgno"
proof -
  note R = R [unfolded touch_ready_def]
  let ?psize = "me_psize (st_env st)"
  have r: "page_ok ?psize b" "\<not> IS_LEAF2 b" "8 dvd ?psize" "cursors_ok (st_cursors st)" "full_stack mc" "mc_top mc < CURSOR_STACK"
    "\<not> has (mc_flags mc) C_SUB" "page_at st (Map_page old) = Some b" using R by blast+
  obtain n dl r where t3: "st_txn st3 = (st_txn st)\<lparr>mt_free_pgs := il, mt_next_pgno := n, mt_dirty_list := dl, mt_dirty_room := r\<rparr>"
    using k by (auto simp: alloc_keeps_def upd_txn_def)
  have e3: "me_psize (st_env st3) = ?psize" "me_map (st_env st3) = me_map (st_env st)" "st_file st3 = st_file st"
    "st_cursors st3 = st_cursors st" using k by (auto simp: alloc_keeps_def upd_txn_def)
  define dbs where "dbs = (if mc_top mc = 0 then (mt_dbs (st_txn st))[mc_dbi mc := (mt_dbs (st_txn st) ! mc_dbi mc)\<lparr>md_root := pgno\<rparr>]
    else mt_dbs (st_txn st))"
  obtain hp where P: "set_parent (upd_txn (\<lambda>t. t\<lparr>mt_free_pgs := il'\<rparr>) st3) mc pgno =
      Some (upd_txn (\<lambda>t. t\<lparr>mt_free_pgs := il', mt_dbs := dbs\<rparr>) (st3\<lparr>st_heap := hp\<rparr>), mc)"
    "hp h = Some b0" "mc_top mc = 0 \<Longrightarrow> hp = st_heap st3"
    "mc_top mc \<noteq> 0 \<Longrightarrow> \<exists>ph pb pb'. mc_pg mc ! (mc_top mc - 1) = Some (Heap_page ph) \<and> st_heap st ph = Some pb \<and> ph \<noteq> h \<and>
      child_set ?psize pb (mc_ki mc ! (mc_top mc - 1)) pgno pb' \<and> hp = (st_heap st3)(ph \<mapsto> pb')"
  proof (cases "mc_top mc = 0")
    case True
    have "aget (mt_dbs (st_txn st)) (mc_dbi mc) = Some (mt_dbs (st_txn st) ! mc_dbi mc)" using R by simp
    then have "set_parent (upd_txn (\<lambda>t. t\<lparr>mt_free_pgs := il'\<rparr>) st3) mc pgno =
        Some (upd_txn (\<lambda>t. t\<lparr>mt_free_pgs := il', mt_dbs := dbs\<rparr>) (st3\<lparr>st_heap := st_heap st3\<rparr>), mc)"
      using R True by (simp add: set_parent_def upd_mc_db_def set_mc_db_def upd_txn_def t3 dbs_def)
    then show ?thesis using that True h3(1) by simp
  next
    case False
    then obtain ph pb where pb: "mc_pg mc ! (mc_top mc - 1) = Some (Heap_page ph)" "Heap_page ph \<in> ran (dirty_map st)"
      "st_heap st ph = Some pb" "page_ok ?psize pb" "\<not> IS_LEAF pb" "mc_ki mc ! (mc_top mc - 1) < NUMKEYS pb" using R by auto
    have ne: "ph \<noteq> h" using pb(2) h3(3) by auto
    let ?k = "mc_ki mc ! (mc_top mc - 1)"
    obtain pb' where q: "SETPGNO pb (pt pb ?k) pgno = Some pb'" "length pb' = length pb" "child_set ?psize pb ?k pgno pb'"
      using set_child_ok [OF pb(4,6,5)] by blast
    have l: "mc_top mc - 1 < CURSOR_STACK" "length (mc_pg mc) = CURSOR_STACK" "length (mc_ki mc) = CURSOR_STACK"
      using R by (auto simp: full_stack_def)
    have "set_parent (upd_txn (\<lambda>t. t\<lparr>mt_free_pgs := il'\<rparr>) st3) mc pgno =
        Some (upd_txn (\<lambda>t. t\<lparr>mt_free_pgs := il', mt_dbs := dbs\<rparr>) (st3\<lparr>st_heap := (st_heap st3)(ph \<mapsto> pb')\<rparr>), mc)"
      using False pb l q(1,2) ne h3(1) page_node(1) [OF pb(4,6)] by (simp add: set_parent_def pg_at_def upd_txn_def t3 dbs_def)
    then show ?thesis by (rule that [of "(st_heap st3)(ph \<mapsto> pb')"]) (use False pb(1,3) ne h3(1) q(3) in auto)
  qed
  define st5 where "st5 = upd_txn (\<lambda>t. t\<lparr>mt_free_pgs := il', mt_dbs := dbs\<rparr>) (st3\<lparr>st_heap := hp\<rparr>)"
  have f5: "st_heap st5 = hp" "st_env st5 = st_env st3" "st_file st5 = st_file st" "st_cursors st5 = st_cursors st"
    by (simp_all add: st5_def upd_txn_def e3)
  have "map_page (st_env st5) (st_file st5) old = map_page (st_env st) (st_file st) old" by (simp only: map_page_def f5 e3)
  then have b5: "page_at st5 (Map_page old) = Some b" using r(8) by (simp only: page_at.simps)
  obtain nb where C: "copy_page st5 (Heap_page h) (Map_page old) pgno = Some (st5\<lparr>st_heap := hp(h \<mapsto> nb)\<rparr>)" "copy_of ?psize b pgno nb"
    using copy_page_ok [of st5 h b0 ?psize "Map_page old" b pgno, OF _ h3(2) b5 _ r(1-3)] P(2) f5 e3(1) by auto
  let ?st6 = "st5\<lparr>st_heap := hp(h \<mapsto> nb)\<rparr>"
  obtain ms' where D: "touch_done ?st6 mc (Map_page old) (Heap_page h) =
      Some (0, ?st6\<lparr>st_cursors := ms'\<rparr>, mc\<lparr>mc_pg := (mc_pg mc)[mc_top mc := Some (Heap_page h)]\<rparr>)"
    "list_all2 (moved mc (Map_page old) (Heap_page h)) (st_cursors st) ms'"
    using touch_done_ok [of ?st6 mc "Heap_page h" nb ?psize "Map_page old"] r(4-7) C(2) f5(4)
    by (auto simp: full_stack_def copy_of_def)
  let ?st' = "?st6\<lparr>st_cursors := ms'\<rparr>"
  have x: "dirty_map ?st' = (dirty_map st)(pgno \<mapsto> Heap_page h)" using d3 by (simp add: dirty_map_def st5_def upd_txn_def)
  have y: "mt_free_pgs (st_txn ?st') = il'" "mt_dbs (st_txn ?st') = dbs" by (simp_all add: st5_def upd_txn_def)
  have z: "mc_top mc \<noteq> 0 \<Longrightarrow> \<exists>ph pb pb'. mc_pg mc ! (mc_top mc - 1) = Some (Heap_page ph) \<and> st_heap st ph = Some pb \<and> ph \<noteq> h \<and>
      child_set ?psize pb (mc_ki mc ! (mc_top mc - 1)) pgno pb' \<and> hp(h \<mapsto> nb) = (st_heap st)(h \<mapsto> nb, ph \<mapsto> pb')"
    using P(4) h3(1) by (fastforce simp: fun_upd_twist)
  have "touched st mc old b ?st' (mc\<lparr>mc_pg := (mc_pg mc)[mc_top mc := Some (Heap_page h)]\<rparr>) pgno"
    unfolding touched_def Let_def
    by (rule exI [of _ h], rule exI [of _ nb]) (use C(2) h3 x y D(2) il z P(3) in \<open>auto simp: dbs_def\<close>)
  then show ?thesis using P(1) C(1) D(1) f5(3) by (simp add: st5_def [symmetric])
qed

lemma page_touch_ok:
  assumes ready: "alloc_ready st psize d root xs o' bd" and R: "touch_ready st mc old b xs"
  shows "\<exists>rc st' mc'. mdb_page_touch st mc = Some (rc, st', mc') \<and> st_file st' = st_file st \<and>
    (rc \<in> {ENOMEM, MDB_TXN_FULL, MDB_MAP_FULL} \<and> mc' = mc \<and> has (mt_flags (st_txn st')) MDB_TXN_ERROR \<and> st_heap st' = st_heap st \<or>
     rc = 0 \<and> (\<exists>pgno. touched st mc old b st' mc' pgno \<and> dirty_map st pgno = None \<and>
       (pgno \<in> set (head_ids st @ concat (map rec_ids (unread st xs))) \<or> pgno = mt_next_pgno (st_txn st))))"
proof -
  note R' = R [unfolded touch_ready_def]
  have "pg_at mc (mc_top mc) = Some (Map_page old)" using R' by (simp add: pg_at_def full_stack_def)
  then have run: "mdb_page_touch st mc = touch_new st mc (Map_page old) old"
    using R' by (simp add: mdb_page_touch_def del: page_at.simps)
  obtain mem os where m: "ask_mem st = (mem, st\<lparr>st_os := os\<rparr>)" by (simp add: ask_mem_def ask_malloc_def split_def)
  have one: "unat (1 :: u32) = 1" by simp
  obtain rc il where N: "mdb_midl_need mem (mt_free_pgs (st_txn st)) 1 = Some (rc, il)"
    "rc = ENOMEM \<or> rc = 0 \<and> idl_ok il \<and> unat (il_ids (mt_free_pgs (st_txn st)) ! 0) + 1 \<le> unat (il_alloc il) \<and>
        idl_elems (il_ids il) = idl_elems (il_ids (mt_free_pgs (st_txn st)))"
    using midl_need_correct [of "mt_free_pgs (st_txn st)" 1 mem] R' unfolding one by (auto split: if_splits)
  let ?st2 = "upd_txn (\<lambda>t. t\<lparr>mt_free_pgs := il\<rparr>) (st\<lparr>st_os := os\<rparr>)"
  have f2: "st_file ?st2 = st_file st" "st_heap ?st2 = st_heap st" "dirty_map ?st2 = dirty_map st" "st_env ?st2 = st_env st"
    "mt_loose_pgs (st_txn ?st2) = []" "head_ids ?st2 = head_ids st" "unread ?st2 xs = unread st xs"
    "mt_next_pgno (st_txn ?st2) = mt_next_pgno (st_txn st)"
    using R' by (simp_all add: upd_txn_def dirty_map_def head_ids_def mop_of_def unread_def)
  have err: "has (mt_flags (st_txn (txn_error s))) MDB_TXN_ERROR" "st_heap (txn_error s) = st_heap s" "st_file (txn_error s) = st_file s"
    for s :: "'a wst_scheme" using txn_error_flag [of s] by (simp_all add: txn_error_keeps)
  show ?thesis
  proof (cases "rc = 0")
    case False
    then have "mdb_page_touch st mc = Some (ENOMEM, txn_error ?st2, mc)" using N run m by (simp add: touch_new_def)
    then show ?thesis using err [of ?st2] f2 by (intro exI [of _ ENOMEM] exI [of _ "txn_error ?st2"] exI [of _ mc]) simp
  next
    case True
    have ready2: "alloc_ready ?st2 psize d root xs o' bd" using ready by (simp only: alloc_ready_free)
    obtain rc2 st3 p cs rest where A: "mdb_page_alloc ?st2 1 = Some (rc2, st3, p)" "unread ?st2 xs = cs @ rest"
      "alloc_result ?st2 1 cs rest o' rc2 st3 p"
      using page_alloc_ok [OF ready2, of 1] f2(5) by auto
    show ?thesis
    proof (cases "rc2 = 0")
      case False
      then have "mdb_page_touch st mc = Some (rc2, txn_error st3, mc)" using True N(1) run m A(1) by (simp add: touch_new_def)
      moreover have "rc2 \<in> {ENOMEM, MDB_TXN_FULL, MDB_MAP_FULL}" "st_heap st3 = st_heap st" "st_file st3 = st_file st"
        using A(3) False f2 unfolding alloc_result_def Let_def by auto
      ultimately show ?thesis using err [of st3] by (intro exI [of _ rc2] exI [of _ "txn_error st3"] exI [of _ mc]) simp
    next
      case rc2: True
      obtain pgno where G: "got_page ?st2 1 pgno st3 p"
        "pgno \<in> set (head_ids st @ concat (map rec_ids (unread st xs))) \<or> pgno = mt_next_pgno (st_txn st)"
        using touch_pgno [OF A(3) [unfolded rc2] A(2)] unfolding f2 by blast
      obtain h b0 where H: "p = Some (Heap_page h)" "st_heap st3 = (st_heap st)(h \<mapsto> b0)" "mp_pgno b0 = pgno"
        "length b0 = me_psize (st_env st)" "Heap_page h \<notin> ran (dirty_map st)" "dirty_map st3 = (dirty_map st)(pgno \<mapsto> Heap_page h)"
        "alloc_keeps ?st2 st3" using G(1) unfolding got_page_def f2 by auto
      have ne: "old \<noteq> pgno" using G(2) R' by auto
      have new: "dirty_map st pgno = None" using G(2) ready by (auto simp: alloc_ready_def Let_def)
      have il3: "mt_free_pgs (st_txn st3) = il" using H(7) by (auto simp: alloc_keeps_def upd_txn_def)
      have il: "idl_ok il" "unat (il_ids il ! 0) < unat (il_alloc il)"
        "idl_elems (il_ids il) = idl_elems (il_ids (mt_free_pgs (st_txn st)))"
      proof -
        show i: "idl_ok il" and e: "idl_elems (il_ids il) = idl_elems (il_ids (mt_free_pgs (st_txn st)))" using N(2) True by auto
        have "unat (il_ids il ! 0) = unat (il_ids (mt_free_pgs (st_txn st)) ! 0)"
          using arg_cong [OF e, of length] i R' by (simp add: idl_ok_def)
        then show "unat (il_ids il ! 0) < unat (il_alloc il)" using N(2) True by auto
      qed
      obtain il' where X: "mdb_midl_xappend il old = Some il'" "idl_elems (il_ids il') = idl_elems (il_ids il) @ [old]"
        using xappend_ok [OF il(1,2), of old] by blast
      obtain st' mc' where T: "do {
          (st, mc) \<leftarrow> set_parent (upd_txn (\<lambda>t. t\<lparr>mt_free_pgs := il'\<rparr>) st3) mc pgno;
          st \<leftarrow> copy_page st (Heap_page h) (Map_page old) pgno;
          touch_done st mc (Map_page old) (Heap_page h) } = Some (0, st', mc')" "st_file st' = st_file st" "touched st mc old b st' mc' pgno"
        using touch_new_tail [OF R H(7) H(2,4,5,6), of il'] X(2) il(3) by auto
      have "mdb_page_touch st mc = Some (0, st', mc')"
        using True rc2 N(1) run m A(1) H(1,2,3) il3 X(1) T(1) ne by (simp add: touch_new_def Let_def)
      then show ?thesis using T(2,3) G(2) new by blast
    qed
  qed
qed

text \<open>C22: \<open>mdb_page_touch\<close> on a page that the transaction has not written, without \<open>MDB_WRITEMAP\<close>. On success the cursor
  is on a copy in a block of its own: the same nodes in the same order, marked dirty, under a number that no dirty page
  had, taken from the pages that may be reused or from the end of the file. The parent's entry (or the root of the
  database) has the new number and nothing else of the parent changes, every other tracked cursor that was on the
  page is on the copy, and the old number is appended to the pages that the transaction frees. The file, with the
  page that readers see, is untouched. Otherwise the call fails with \<open>ENOMEM\<close>, \<open>MDB_TXN_FULL\<close> or \<open>MDB_MAP_FULL\<close>, the
  transaction is marked, and no page has changed.
\<close>

theorem page_touch_copies:
  assumes "alloc_ready st psize d root xs o' bd" "touch_ready st mc old b xs"
  shows "\<exists>rc st' mc'. mdb_page_touch st mc = Some (rc, st', mc') \<and> st_file st' = st_file st \<and>
    (rc \<in> {ENOMEM, MDB_TXN_FULL, MDB_MAP_FULL} \<and> mc' = mc \<and> has (mt_flags (st_txn st')) MDB_TXN_ERROR \<and> st_heap st' = st_heap st \<or>
     rc = 0 \<and> (\<exists>pgno. touched st mc old b st' mc' pgno \<and> dirty_map st pgno = None \<and>
       (pgno \<in> set (head_ids st @ concat (map rec_ids (unread st xs))) \<or> pgno = mt_next_pgno (st_txn st))))"
  by (rule page_touch_ok [OF assms])

section \<open>An instance\<close>

text \<open>The leaf of the freeDB itself is touched.\<close>

definition leaf_cursor :: cursor where
  "leaf_cursor = raw_cursor\<lparr>mc_snum := 1, mc_pg := Some (Map_page 2) # replicate 31 None\<rparr>"

lemma leaf_cursor_ready:
  "touch_ready write_st leaf_cursor 2 freed_leaf [([3,0,0,0,0,0,0,0], [2,0,0,0,0,0,0,0, 7,0,0,0,0,0,0,0, 6,0,0,0,0,0,0,0])]"
proof -
  let ?x = "([3,0,0,0,0,0,0,0], [2,0,0,0,0,0,0,0, 7,0,0,0,0,0,0,0, 6,0,0,0,0,0,0,0]) :: bytes \<times> bytes"
  have "ids_of [2,0,0,0,0,0,0,0, 7,0,0,0,0,0,0,0, 6,0,0,0,0,0,0,0] = [2, 7, 6]" by (simp add: ids_of_def rd_def slice_def upt_rec)
  then have r: "rec_ids ?x = [7, 6]" by (simp add: rec_ids_def idl_elems_def)
  have pool: "head_ids write_st = []" "unread write_st [?x] = [?x]"
    by (simp_all add: head_ids_def mop_of_def idl_elems_def unread_def write_st_def write_at_def demo_env_def)
  have e: "me_psize (st_env write_st) = 64" "me_map (st_env write_st)" "st_file write_st = replicate 128 0 @ freed_leaf"
    by (simp_all add: write_st_def write_at_def demo_env_def)
  have p: "page_at write_st (Map_page 2) = Some freed_leaf"
    by (simp add: map_page_def e Let_def slice_def freed_kinds freed_read(1))
  have t: "mt_flags (st_txn write_st) = 0" "mt_loose_pgs (st_txn write_st) = []" "st_cursors write_st = []"
    "mt_free_pgs (st_txn write_st) = \<lparr>il_alloc = 4, il_ids = replicate 5 0\<rparr>" "length (mt_dbs (st_txn write_st)) = 2"
    "mt_next_pgno (st_txn write_st) = 10"
    by (simp_all add: write_st_def write_at_def demo_txn_def)
  have c: "full_stack leaf_cursor" "mc_top leaf_cursor = 0" "mc_flags leaf_cursor = 0" "mc_own leaf_cursor = None" "mc_dbi leaf_cursor = 0"
    "mc_pg leaf_cursor ! 0 = Some (Map_page 2)"
    by (simp_all add: leaf_cursor_def raw_cursor_def full_stack_def CURSOR_STACK_def)
  have f: "mp_pgno freed_leaf = 2" by (simp add: freed_leaf_def mp_pgno_def rd_def slice_def)
  have g: "page_ok 64 freed_leaf" using write_leaf_ok unfolding leaf_ok_def by blast
  have h: "\<not> F_ISSET (mp_flags freed_leaf) P_DIRTY" by (simp add: freed_read(4) F_ISSET_def P_DIRTY_def)
  show ?thesis unfolding touch_ready_def
    using e(1) p f g h t c pool r freed_kinds
    by (simp add: cursors_ok_def has_def idl_ok_def ids_ok_def CURSOR_STACK_def del: page_at.simps)
qed

lemma page_touch_copies_witness:
  "\<exists>rc st' mc'. mdb_page_touch write_st leaf_cursor = Some (rc, st', mc') \<and> st_file st' = st_file write_st \<and>
    (rc \<in> {ENOMEM, MDB_TXN_FULL, MDB_MAP_FULL} \<and> mc' = leaf_cursor \<and> has (mt_flags (st_txn st')) MDB_TXN_ERROR \<and>
       st_heap st' = st_heap write_st \<or>
     rc = 0 \<and> (\<exists>pgno. touched write_st leaf_cursor 2 freed_leaf st' mc' pgno \<and> dirty_map write_st pgno = None \<and>
       (pgno \<in> set (head_ids write_st @ concat (map rec_ids (unread write_st
          [([3,0,0,0,0,0,0,0], [2,0,0,0,0,0,0,0, 7,0,0,0,0,0,0,0, 6,0,0,0,0,0,0,0])]))) \<or> pgno = mt_next_pgno (st_txn write_st))))"
  by (rule page_touch_copies [OF write_ready leaf_cursor_ready])

end
