(* ===== verification/Page_Flush.thy ===== *)
theory Page_Flush
  imports Page_Touch
begin

text \<open>
  Writing dirty pages to the file: \<open>mdb_page_flush\<close>, and doing so before the end of a transaction that has
  too many of them: \<open>mdb_pages_xkeep\<close> and \<open>mdb_page_spill\<close>. \<open>os_io\<close> is the list of the answers to \<open>lseek\<close>,
  \<open>pwrite\<close> and \<open>writev\<close>, each a result and \<open>errno\<close>; a write with the result \<open>r \<ge> 0\<close> writes the first \<open>r\<close> bytes.
\<close>

section \<open>One write\<close>

text \<open>
  From \<open>retry_write\<close> on: one page is written with \<open>pwrite\<close>, several (\<open>vec\<close>) with \<open>lseek\<close> (\<open>seeking\<close>) and
  \<open>writev\<close>. The result is \<open>rc\<close>, the file and the answers left.
\<close>

fun write_pages :: "bool \<Rightarrow> bool \<Rightarrow> io \<Rightarrow> bytes \<Rightarrow> nat \<Rightarrow> bytes \<Rightarrow> (int \<times> bytes \<times> io) option" where
  "write_pages vec seeking [] file wpos bs = None"
| "write_pages vec seeking ((r, e) # os) file wpos bs =
     (if seeking then
        if r = -1 then if e = EINTR then write_pages vec True os file wpos bs else Some (e, file, os)
        else write_pages vec False os file wpos bs
      else
        let file = (if r \<ge> 0 then file_write file wpos (take (nat r) bs) else file) in
        if r \<noteq> int (length bs) then
          if r < 0 then if e = EINTR then write_pages vec vec os file wpos bs else Some (e, file, os)
          else Some (EIO, file, os)
        else Some (MDB_SUCCESS, file, os))"

section \<open>Flushing\<close>

definition MDB_COMMIT_PAGES :: nat where "MDB_COMMIT_PAGES = 64"
definition MAX_WRITE :: nat where "MAX_WRITE = 0x40000000"

text \<open>\<open>pos\<close> and \<open>size\<close> of the last page, and the pages collected in \<open>iov\<close>: \<open>n\<close> pages with the bytes \<open>wb_bytes\<close>.\<close>

record wbuf =
  wb_pos :: nat
  wb_size :: nat
  wb_next :: nat
  wb_n :: nat
  wb_wpos :: nat
  wb_bytes :: bytes

text \<open>The collected pages are written.\<close>

definition flush_iov :: "'a st_scheme \<Rightarrow> wbuf \<Rightarrow> (int \<times> 'a st_scheme \<times> wbuf) option" where
  "flush_iov st w =
     (if wb_n w = 0 then Some (MDB_SUCCESS, st, w)
      else do {
        (rc, file, io) \<leftarrow> write_pages (wb_n w \<noteq> 1) (wb_n w \<noteq> 1) (os_io (st_os st)) (st_file st) (wb_wpos w) (wb_bytes w);
        Some (rc, st\<lparr>st_file := file, st_os := (st_os st)\<lparr>os_io := io\<rparr>\<rparr>, w\<lparr>wb_n := 0\<rparr>) })"

definition must_write :: "wbuf \<Rightarrow> bool" where
  "must_write w \<longleftrightarrow> wb_pos w \<noteq> wb_next w \<or> wb_n w = MDB_COMMIT_PAGES \<or> length (wb_bytes w) + wb_size w > MAX_WRITE"

definition make_room :: "'a st_scheme \<Rightarrow> wbuf \<Rightarrow> (int \<times> 'a st_scheme \<times> wbuf) option" where
  "make_room st w =
     (if must_write w then do {
        (rc, st, w) \<leftarrow> flush_iov st w;
        Some (rc, st, w\<lparr>wb_wpos := wb_pos w, wb_bytes := []\<rparr>) }
      else Some (MDB_SUCCESS, st, w))"

definition set_dl_mid :: "nat \<Rightarrow> u64 \<Rightarrow> txn \<Rightarrow> txn option" where
  "set_dl_mid i v t = do {
     e \<leftarrow> aget (mt_dirty_list t) i;
     dl \<leftarrow> aset (mt_dirty_list t) i (v, snd e);
     Some (t\<lparr>mt_dirty_list := dl\<rparr>) }"

text \<open>The loop from \<open>i + 1\<close> on, with \<open>k\<close> entries left.\<close>

fun flush_loop :: "'a st_scheme \<Rightarrow> nat \<Rightarrow> nat \<Rightarrow> wbuf \<Rightarrow> (int \<times> 'a st_scheme) option" where
  "flush_loop st i 0 w =
     (if must_write w then do { (rc, st, _) \<leftarrow> flush_iov st w; Some (rc, st) } else None)"
| "flush_loop st i (Suc k) w = do {
     e \<leftarrow> aget (mt_dirty_list (st_txn st)) (i + 1);
     let dp = snd e;
     b \<leftarrow> page_at st dp;
     if has (mp_flags b) (P_LOOSE OR P_KEEP) then do {
       st \<leftarrow> put_page st dp (set_mp_flags (mp_flags b AND NOT P_KEEP) b);
       t \<leftarrow> set_dl_mid (i + 1) 0 (st_txn st);
       flush_loop (st\<lparr>st_txn := t\<rparr>) (i + 1) k w }
     else do {
       let b = set_mp_flags (mp_flags b AND NOT P_DIRTY) b;
       st \<leftarrow> put_page st dp b;
       let psize = me_psize (st_env st);
       let w = w\<lparr>wb_pos := unat (fst e * of_nat psize), wb_size := (if IS_OVERFLOW b then psize * mp_pages b else psize)\<rparr>;
       (rc, st, w) \<leftarrow> make_room st w;
       if rc \<noteq> 0 then Some (rc, st)
       else do {
         bs \<leftarrow> get_bytes b 0 (wb_size w);
         flush_loop st (i + 1) k
           (w\<lparr>wb_next := wb_pos w + wb_size w, wb_n := wb_n w + 1, wb_bytes := wb_bytes w @ bs\<rparr>) } } }"

text \<open>
  The blocks of the written pages are freed, the entries of the others move down to \<open>j + 1\<close>. The loops
  return \<open>j\<close>.
\<close>

fun flush_free :: "'a st_scheme \<Rightarrow> nat \<Rightarrow> nat \<Rightarrow> nat \<Rightarrow> ('a st_scheme \<times> nat) option" where
  "flush_free st i j 0 = Some (st, j)"
| "flush_free st i j (Suc k) = do {
     e \<leftarrow> aget (mt_dirty_list (st_txn st)) (i + 1);
     if fst e = 0 then do {
       b \<leftarrow> page_at st (snd e);
       dl \<leftarrow> aset (mt_dirty_list (st_txn st)) (j + 1) (mp_pgno b, snd e);
       flush_free (upd_txn (\<lambda>t. t\<lparr>mt_dirty_list := dl\<rparr>) st) (i + 1) (j + 1) k }
     else do {
       st \<leftarrow> mdb_dpage_free st (snd e);
       flush_free st (i + 1) j k } }"

text \<open>With \<open>MDB_WRITEMAP\<close> the pages are in the map already.\<close>

fun clear_dirty :: "'a st_scheme \<Rightarrow> nat \<Rightarrow> nat \<Rightarrow> nat \<Rightarrow> ('a st_scheme \<times> nat) option" where
  "clear_dirty st i j 0 = Some (st, j)"
| "clear_dirty st i j (Suc k) = do {
     e \<leftarrow> aget (mt_dirty_list (st_txn st)) (i + 1);
     b \<leftarrow> page_at st (snd e);
     if has (mp_flags b) (P_LOOSE OR P_KEEP) then do {
       st \<leftarrow> put_page st (snd e) (set_mp_flags (mp_flags b AND NOT P_KEEP) b);
       dl \<leftarrow> aset (mt_dirty_list (st_txn st)) (j + 1) e;
       clear_dirty (upd_txn (\<lambda>t. t\<lparr>mt_dirty_list := dl\<rparr>) st) (i + 1) (j + 1) k }
     else do {
       st \<leftarrow> put_page st (snd e) (set_mp_flags (mp_flags b AND NOT P_DIRTY) b);
       clear_dirty st (i + 1) j k } }"

definition first_wbuf :: wbuf where
  "first_wbuf = \<lparr>wb_pos = 0, wb_size = 0, wb_next = 1, wb_n = 0, wb_wpos = 0, wb_bytes = []\<rparr>"

definition mdb_page_flush :: "'a st_scheme \<Rightarrow> nat \<Rightarrow> (int \<times> 'a st_scheme) option" where
  "mdb_page_flush st keep = do {
     d0 \<leftarrow> aget (mt_dirty_list (st_txn st)) 0;
     let pagecount = unat (fst d0) mod 2 ^ 32;
     (rc, st, j) \<leftarrow>
       (if has (me_flags (st_env st)) MDB_WRITEMAP then do {
          (st, j) \<leftarrow> clear_dirty st keep keep (pagecount - keep);
          Some (MDB_SUCCESS, st, j) }
        else do {
          (rc, st) \<leftarrow> flush_loop st keep (pagecount - keep) first_wbuf;
          if rc \<noteq> 0 then Some (rc, st, 0)
          else do {
            (st, j) \<leftarrow> flush_free st keep keep (pagecount - keep);
            Some (MDB_SUCCESS, st, j) } });
     if rc \<noteq> 0 then Some (rc, st)
     else do {
       t \<leftarrow> set_dl_count (of_nat j) (st_txn st);
       Some (MDB_SUCCESS, st\<lparr>st_txn := t\<lparr>mt_dirty_room := mt_dirty_room t + max keep pagecount - j\<rparr>\<rparr>) } }"

section \<open>Pages to keep\<close>

definition XKEEP_MASK :: u16 where "XKEEP_MASK = P_SUBP OR P_DIRTY OR P_LOOSE OR P_KEEP"

text \<open>\<open>if ((mp->mp_flags & Mask) == pflags) mp->mp_flags ^= P_KEEP\<close>\<close>

definition toggle_keep :: "u16 \<Rightarrow> 'a st_scheme \<Rightarrow> page_ptr \<Rightarrow> 'a st_scheme option" where
  "toggle_keep pflags st mp = do {
     b \<leftarrow> page_at st mp;
     if mp_flags b AND XKEEP_MASK = pflags then put_page st mp (set_mp_flags (mp_flags b XOR P_KEEP) b)
     else Some st }"

fun toggle_stack :: "u16 \<Rightarrow> 'a st_scheme \<Rightarrow> page_ptr option list \<Rightarrow> 'a st_scheme option" where
  "toggle_stack pflags st [] = Some st"
| "toggle_stack pflags st (p # ps) = do {
     p \<leftarrow> p;
     st \<leftarrow> toggle_keep pflags st p;
     toggle_stack pflags st ps }"

text \<open>A cursor, and its sub-cursor when that is in a sub-database.\<close>

definition xkeep_cursor :: "u16 \<Rightarrow> 'a st_scheme \<Rightarrow> mcursor \<Rightarrow> 'a st_scheme option" where
  "xkeep_cursor pflags st m =
     (if \<not> has (mc_flags (fst m)) C_INITIALIZED then Some st
      else do {
        let n = mc_snum (fst m);
        st \<leftarrow> toggle_stack pflags st (take n (mc_pg (fst m)));
        if \<not> XCURSOR_INITED m \<or> n = 0 then Some st
        else do {
          mp \<leftarrow> page_of st (fst m) (n - 1);
          if \<not> has (mp_flags mp) P_LEAF then Some st
          else do {
            k \<leftarrow> aget (mc_ki (fst m)) (n - 1);
            leaf \<leftarrow> NODEPTR mp k;
            f \<leftarrow> mn_flags mp leaf;
            if \<not> has f (ucast F_SUBDATA) then Some st
            else do {
              mx \<leftarrow> snd m;
              toggle_stack pflags st (take (mc_snum mx) (mc_pg mx)) } } } })"

fun xkeep_cursors :: "u16 \<Rightarrow> 'a st_scheme \<Rightarrow> mcursor list \<Rightarrow> 'a st_scheme option" where
  "xkeep_cursors pflags st [] = Some st"
| "xkeep_cursors pflags st (m # ms) = do {
     st \<leftarrow> xkeep_cursor pflags st m;
     xkeep_cursors pflags st ms }"

text \<open>The dirty root pages of the databases from \<open>i\<close> on.\<close>

fun xkeep_roots :: "u16 \<Rightarrow> 'a st_scheme \<Rightarrow> cursor \<Rightarrow> nat \<Rightarrow> nat \<Rightarrow> (int \<times> 'a st_scheme) option" where
  "xkeep_roots pflags st m0 i 0 = Some (MDB_SUCCESS, st)"
| "xkeep_roots pflags st m0 i (Suc k) = do {
     f \<leftarrow> aget (mt_dbflags (st_txn st)) i;
     d \<leftarrow> aget (mt_dbs (st_txn st)) i;
     if \<not> has f DB_DIRTY \<or> md_root d = P_INVALID then xkeep_roots pflags st m0 (i + 1) k
     else do {
       (rc, st, p) \<leftarrow> mdb_page_get st m0 (md_root d);
       if rc \<noteq> 0 then Some (rc, st)
       else do {
         (dp, level) \<leftarrow> p;
         st \<leftarrow> (if level \<le> 1 then toggle_keep pflags st dp else Some st);
         xkeep_roots pflags st m0 (i + 1) k } } }"

text \<open>The cursor \<open>m0\<close> comes first, then the tracked ones.\<close>

definition mdb_pages_xkeep :: "'a wst_scheme \<Rightarrow> mcursor \<Rightarrow> u16 \<Rightarrow> bool \<Rightarrow> (int \<times> 'a wst_scheme) option" where
  "mdb_pages_xkeep st m0 pflags all_pages = do {
     st \<leftarrow> xkeep_cursors pflags st (m0 # st_cursors st);
     if all_pages then xkeep_roots pflags st (fst m0) 0 (mt_numdbs (st_txn st)) else Some (MDB_SUCCESS, st) }"

section \<open>Spilling\<close>

text \<open>\<open>for (i=1; i<=num; i++) if (!(sl[i] & 1)) sl[++j] = sl[i]\<close>\<close>

fun purge_loop :: "u64 list \<Rightarrow> nat \<Rightarrow> nat \<Rightarrow> nat \<Rightarrow> (u64 list \<times> nat) option" where
  "purge_loop sl i j 0 = Some (sl, j)"
| "purge_loop sl i j (Suc k) = do {
     v \<leftarrow> aget sl i;
     if v AND 1 = 0 then do { sl \<leftarrow> aset sl (j + 1) v; purge_loop sl (i + 1) (j + 1) k }
     else purge_loop sl (i + 1) j k }"

definition purge_spilled :: "idl \<Rightarrow> idl option" where
  "purge_spilled il = do {
     num \<leftarrow> aget (il_ids il) 0;
     (sl, j) \<leftarrow> purge_loop (il_ids il) 1 0 (unat num mod 2 ^ 32);
     sl \<leftarrow> aset sl 0 (of_nat j);
     Some (il\<lparr>il_ids := sl\<rparr>) }"

text \<open>
  The ids of the pages to spill, from the end of the dirty list; \<open>i\<close> entries and room for \<open>need\<close> ids are left.
  The result is \<open>rc\<close>, the state and the number of entries not looked at.
\<close>

fun spill_ids :: "'a wst_scheme \<Rightarrow> nat \<Rightarrow> nat \<Rightarrow> (int \<times> 'a wst_scheme \<times> nat) option" where
  "spill_ids st 0 need = Some (MDB_SUCCESS, st, 0)"
| "spill_ids st (Suc i) need =
     (if need = 0 then Some (MDB_SUCCESS, st, Suc i)
      else do {
        e \<leftarrow> aget (mt_dirty_list (st_txn st)) (Suc i);
        let pn = push_bit 1 (fst e);
        b \<leftarrow> page_at st (snd e);
        if has (mp_flags b) (P_LOOSE OR P_KEEP) then spill_ids st i need
        else do {
          r \<leftarrow> find_spilled (st_parents st) pn 1;
          if r \<noteq> None then do {
            st \<leftarrow> put_page st (snd e) (set_mp_flags (mp_flags b OR P_KEEP) b);
            spill_ids st i need }
          else do {
            let (mem, st) = ask_mem st;
            il \<leftarrow> mt_spill_pgs (st_txn st);
            (rc, il) \<leftarrow> mdb_midl_append mem il pn;
            let st = upd_txn (\<lambda>t. t\<lparr>mt_spill_pgs := Some il\<rparr>) st;
            if rc \<noteq> 0 then Some (rc, st, Suc i) else spill_ids st i (need - 1) } } })"

text \<open>The space that the operation may need, in pages.\<close>

definition spill_need :: "'a st_scheme \<Rightarrow> cursor \<Rightarrow> (bytes \<times> nat) option \<Rightarrow> nat option" where
  "spill_need st m0 put = do {
     d \<leftarrow> mc_db st m0;
     main \<leftarrow> aget (mt_dbs (st_txn st)) MAIN_DBI;
     let psize = me_psize (st_env st);
     Some (2 * (unat (md_depth d) + (if mc_dbi m0 \<ge> CORE_DBS then unat (md_depth main) else 0) +
       (case put of None \<Rightarrow> 0 | Some (key, dsize) \<Rightarrow> (LEAFSIZE key dsize + psize) div psize))) }"

text \<open>\<open>put\<close>: the key and the size of the data of a put operation. \<open>istack\<close> is the uninitialised stack of \<open>mdb_midl_sort\<close>.\<close>

definition spill_pages :: "'a wst_scheme \<Rightarrow> mcursor \<Rightarrow> nat \<Rightarrow> nat list \<Rightarrow> (int \<times> 'a wst_scheme) option" where
  "spill_pages st m0 need istack = do {
     (rc, st) \<leftarrow> mdb_pages_xkeep st m0 P_DIRTY True;
     if rc \<noteq> 0 then Some (rc, st)
     else do {
       d0 \<leftarrow> aget (mt_dirty_list (st_txn st)) 0;
       (rc, st, i) \<leftarrow> spill_ids st (unat (fst d0) mod 2 ^ 32) (max need (MDB_IDL_UM_MAX div 8));
       if rc \<noteq> 0 then Some (rc, st)
       else do {
         il \<leftarrow> mt_spill_pgs (st_txn st);
         ids \<leftarrow> mdb_midl_sort istack (il_ids il);
         (rc, st) \<leftarrow> mdb_page_flush (upd_txn (\<lambda>t. t\<lparr>mt_spill_pgs := Some (il\<lparr>il_ids := ids\<rparr>)\<rparr>) st) i;
         if rc \<noteq> 0 then Some (rc, st)
         else mdb_pages_xkeep st m0 (P_DIRTY OR P_KEEP) (i \<noteq> 0) } } }"

definition mdb_page_spill :: "'a wst_scheme \<Rightarrow> mcursor \<Rightarrow> (bytes \<times> nat) option \<Rightarrow> nat list \<Rightarrow> (int \<times> 'a wst_scheme) option" where
  "mdb_page_spill st m0 put istack =
     (if has (mc_flags (fst m0)) C_SUB then Some (MDB_SUCCESS, st)
      else do {
        need \<leftarrow> spill_need st (fst m0) put;
        if mt_dirty_room (st_txn st) > need then Some (MDB_SUCCESS, st)
        else do {
          (rc, st) \<leftarrow>
            (case mt_spill_pgs (st_txn st) of
               None \<Rightarrow>
                 let (mem, st) = ask_mem st in
                 (case mdb_midl_alloc mem MDB_IDL_UM_MAX of
                    None \<Rightarrow> Some (ENOMEM, st)
                  | Some il \<Rightarrow> Some (0, upd_txn (\<lambda>t. t\<lparr>mt_spill_pgs := Some il\<rparr>) st))
             | Some il \<Rightarrow> do {
                 il \<leftarrow> purge_spilled il;
                 Some (0, upd_txn (\<lambda>t. t\<lparr>mt_spill_pgs := Some il\<rparr>) st) });
          if rc \<noteq> 0 then Some (rc, st)
          else do {
            (rc, st) \<leftarrow> spill_pages st m0 need istack;
            Some (rc, upd_txn (\<lambda>t. t\<lparr>mt_flags := mt_flags t OR (if rc \<noteq> 0 then MDB_TXN_ERROR else MDB_TXN_SPILLS)\<rparr>) st) } } })"

end
