(* ===== verification/Flush_Correct.thy ===== *)
theory Flush_Correct
  imports Page_Flush Txn_Correct
begin

text \<open>
  What a flush leaves in the file. \<open>mdb_page_flush\<close> collects pages that follow each other and writes up to 64 of
  them with one call; the outcome is that of writing every page by itself.
\<close>

section \<open>Writes to a file\<close>

lemma length_file_write: "length (file_write f a x) = max (length f) (a + length x)"
  by (auto simp: file_write_def max_def min_def)

lemma file_write_append: "file_write (file_write f a x) (a + length x) y = file_write f a (x @ y)"
proof -
  let ?p = "take a (f @ replicate (a - length f) 0)"
  have l: "length ?p = a" by simp
  have "take (a + length x) (file_write f a x @ replicate (a + length x - length (file_write f a x)) 0) = ?p @ x"
    using l by (simp add: file_write_def)
  moreover have "drop (a + length x + length y) (file_write f a x) = drop (a + (length x + length y)) f"
    using l by (simp add: file_write_def add.commute add.left_commute)
  ultimately show ?thesis unfolding file_write_def [of "file_write f a x"] by (simp add: file_write_def [of f a "x @ y"])
qed

lemma slice_file_write: "slice (file_write f a x) a (length x) = x"
  by (simp add: file_write_def slice_def)

lemma slice_file_write_disj:
  assumes "b + n \<le> length f" "b + n \<le> a \<or> a + length x \<le> b"
  shows "slice (file_write f a x) b n = slice f b n"
proof (rule nth_equalityI)
  show "length (slice (file_write f a x) b n) = length (slice f b n)" using assms by (simp add: slice_def length_file_write)
  fix i assume "i < length (slice (file_write f a x) b n)"
  then have i: "i < n" by (simp add: slice_def)
  have "file_write f a x ! (b + i) = f ! (b + i)"
    using assms i by (auto simp: file_write_def nth_append)
  then show "slice (file_write f a x) b n ! i = slice f b n ! i"
    using assms i by (simp add: slice_def length_file_write)
qed

definition put_writes :: "(nat \<times> bytes) list \<Rightarrow> bytes \<Rightarrow> bytes" where
  "put_writes ws f = fold (\<lambda>(a, x) f. file_write f a x) ws f"

lemma put_writes_Cons: "put_writes ((a, x) # ws) f = put_writes ws (file_write f a x)"
  by (simp add: put_writes_def)

definition off_by :: "nat \<Rightarrow> nat \<Rightarrow> nat \<times> bytes \<Rightarrow> bool" where
  "off_by b n w \<longleftrightarrow> b + n \<le> fst w \<or> fst w + length (snd w) \<le> b"

lemma put_writes_disj:
  assumes "b + n \<le> length f" "\<forall>w \<in> set ws. off_by b n w"
  shows "slice (put_writes ws f) b n = slice f b n \<and> length f \<le> length (put_writes ws f)"
  using assms
proof (induction ws arbitrary: f)
  case (Cons w ws)
  obtain a x where w: "w = (a, x)" by (cases w)
  have d: "slice (file_write f a x) b n = slice f b n"
    using Cons.prems w by (intro slice_file_write_disj) (auto simp: off_by_def)
  have "slice (put_writes ws (file_write f a x)) b n = slice (file_write f a x) b n \<and>
      length (file_write f a x) \<le> length (put_writes ws (file_write f a x))"
    using Cons.prems by (intro Cons.IH) (auto simp: length_file_write)
  then show ?case using d w by (simp add: put_writes_Cons length_file_write)
qed (simp add: put_writes_def)

lemma put_writes_same:
  assumes "sorted_wrt (\<lambda>w v. off_by (fst w) (length (snd w)) v) ws" "(a, x) \<in> set ws"
  shows "slice (put_writes ws f) a (length x) = x"
  using assms
proof (induction ws arbitrary: f)
  case (Cons w ws)
  obtain b y where w: "w = (b, y)" by (cases w)
  show ?case
  proof (cases "(a, x) = (b, y)")
    case True
    have "slice (put_writes ws (file_write f b y)) b (length y) = slice (file_write f b y) b (length y)"
      using Cons.prems(1) w put_writes_disj [of b "length y" "file_write f b y" ws] by (simp add: length_file_write)
    then show ?thesis using True w by (simp add: put_writes_Cons slice_file_write)
  next
    case False
    then show ?thesis using Cons w by (auto simp: put_writes_Cons)
  qed
qed simp

section \<open>One write\<close>

definition io_ok :: "io \<Rightarrow> bool" where
  "io_ok os \<longleftrightarrow> (\<forall>(r, e) \<in> set os. r < 0 \<longrightarrow> e \<noteq> 0)"

lemma write_pages_ok:
  "write_pages vec s os f a bs = Some (0, f', os') \<Longrightarrow> io_ok os \<Longrightarrow> f' = file_write f a bs \<and> io_ok os'"
proof (induction vec s os f a bs rule: write_pages.induct)
  case (2 vec s r e os f a bs)
  have io: "io_ok os" "r < 0 \<Longrightarrow> e \<noteq> 0" using "2.prems"(2) by (auto simp: io_ok_def)
  show ?case
  proof (cases s)
    case True
    then show ?thesis using 2 io by (auto split: if_splits)
  next
    case False
    then show ?thesis using 2 io by (auto simp: Let_def EIO_def MDB_SUCCESS_def split: if_splits)
  qed
qed simp

lemma write_pages_total: "\<exists>ans. io_ok ans \<and> (\<forall>rest f. write_pages vec vec (ans @ rest) f a bs = Some (0, file_write f a bs, rest))"
proof (cases vec)
  case True
  then show ?thesis by (intro exI [of _ "[(0, 0), (int (length bs), 0)]"]) (simp add: io_ok_def MDB_SUCCESS_def)
next
  case False
  then show ?thesis by (intro exI [of _ "[(int (length bs), 0)]"]) (simp add: io_ok_def MDB_SUCCESS_def)
qed

section \<open>Collecting pages\<close>

text \<open>The file when the collected pages have been written.\<close>

definition pend :: "wbuf \<Rightarrow> bytes \<Rightarrow> bytes" where
  "pend w f = (if wb_n w = 0 then f else file_write f (wb_wpos w) (wb_bytes w))"

definition winv :: "wbuf \<Rightarrow> bool" where
  "winv w \<longleftrightarrow> w = first_wbuf \<or> 0 < wb_n w \<and> wb_next w = wb_wpos w + length (wb_bytes w) \<and>
     wb_next w = wb_pos w + wb_size w \<and> 0 < wb_size w"

lemma winv_end: "winv w \<Longrightarrow> must_write w"
  by (auto simp: winv_def must_write_def first_wbuf_def)

definition with_io :: "io \<Rightarrow> 'a st_scheme \<Rightarrow> 'a st_scheme" where
  "with_io io st = st\<lparr>st_os := (st_os st)\<lparr>os_io := io\<rparr>\<rparr>"

abbreviation io_of :: "'a st_scheme \<Rightarrow> io" where "io_of st \<equiv> os_io (st_os st)"

lemma with_io_simps [simp]:
  "os_io (st_os (with_io io st)) = io" "st_file (with_io io st) = st_file st" "st_heap (with_io io st) = st_heap st"
  "st_env (with_io io st) = st_env st" "st_txn (with_io io st) = st_txn st" "with_io io (with_io io' st) = with_io io st"
  "with_io (os_io (st_os st)) st = st" "with_io io (st\<lparr>st_file := f\<rparr>) = (with_io io st)\<lparr>st_file := f\<rparr>"
  "with_io io (st\<lparr>st_heap := hp\<rparr>) = (with_io io st)\<lparr>st_heap := hp\<rparr>" "with_io io (st\<lparr>st_txn := x\<rparr>) = (with_io io st)\<lparr>st_txn := x\<rparr>"
  by (simp_all add: with_io_def)

lemma flush_iov_ok:
  assumes "flush_iov st w = Some (0, st', w')" "io_ok (io_of st)"
  shows "\<exists>io. st' = with_io io (st\<lparr>st_file := pend w (st_file st)\<rparr>) \<and> io_ok io \<and> w' = w\<lparr>wb_n := 0\<rparr>"
proof (cases "wb_n w = 0")
  case True
  then have "st' = with_io (io_of st) (st\<lparr>st_file := pend w (st_file st)\<rparr>)" "w' = w\<lparr>wb_n := 0\<rparr>"
    using assms(1) by (simp_all add: flush_iov_def pend_def)
  then show ?thesis using assms(2) by blast
next
  case False
  then obtain f io where "write_pages (wb_n w \<noteq> 1) (wb_n w \<noteq> 1) (io_of st) (st_file st) (wb_wpos w) (wb_bytes w) = Some (0, f, io)"
    "st' = with_io io (st\<lparr>st_file := f\<rparr>)" "w' = w\<lparr>wb_n := 0\<rparr>"
    using assms(1) by (auto simp: flush_iov_def with_io_def split: bind_splits)
  then show ?thesis using write_pages_ok [OF _ assms(2)] False by (auto simp: pend_def)
qed

lemma flush_iov_total:
  "\<exists>ans. io_ok ans \<and> (\<forall>rest st. flush_iov (with_io (ans @ rest) st) w = Some (0, with_io rest (st\<lparr>st_file := pend w (st_file st)\<rparr>), w\<lparr>wb_n := 0\<rparr>))"
proof (cases "wb_n w = 0")
  case True
  then show ?thesis by (intro exI [of _ "[]"]) (simp add: flush_iov_def pend_def MDB_SUCCESS_def io_ok_def)
next
  case False
  obtain ans where "io_ok ans" "\<forall>rest f. write_pages (wb_n w \<noteq> 1) (wb_n w \<noteq> 1) (ans @ rest) f (wb_wpos w) (wb_bytes w) =
      Some (0, file_write f (wb_wpos w) (wb_bytes w), rest)"
    using write_pages_total [of "wb_n w \<noteq> 1" "wb_wpos w" "wb_bytes w"] by blast
  then show ?thesis using False by (intro exI [of _ ans]) (simp add: flush_iov_def pend_def with_io_def)
qed

text \<open>Adding a page.\<close>

abbreviation at_page :: "wbuf \<Rightarrow> nat \<Rightarrow> nat \<Rightarrow> wbuf" where
  "at_page w pos sz \<equiv> w\<lparr>wb_pos := pos, wb_size := sz\<rparr>"

abbreviation add_page :: "wbuf \<Rightarrow> bytes \<Rightarrow> wbuf" where
  "add_page w bs \<equiv> w\<lparr>wb_next := wb_pos w + wb_size w, wb_n := wb_n w + 1, wb_bytes := wb_bytes w @ bs\<rparr>"

lemma pend_at: "pend (at_page w pos sz) f = pend w f"
proof -
  have "wb_n (at_page w pos sz) = wb_n w" "wb_wpos (at_page w pos sz) = wb_wpos w" "wb_bytes (at_page w pos sz) = wb_bytes w" by simp_all
  then show ?thesis by (simp only: pend_def)
qed

lemma add_page_ok:
  assumes w: "winv w" and sz: "0 < sz" "length bs = sz" and pos: "even pos"
    and w2: "w2 = (if must_write (at_page w pos sz) then (at_page w pos sz)\<lparr>wb_n := 0, wb_wpos := pos, wb_bytes := []\<rparr> else at_page w pos sz)"
    and f: "f2 = (if must_write (at_page w pos sz) then pend w f else f)"
  shows "winv (add_page w2 bs) \<and> pend (add_page w2 bs) f2 = file_write (pend w f) pos bs"
proof (cases "must_write (at_page w pos sz)")
  case True
  then show ?thesis using w2 f sz by (simp add: winv_def pend_def)
next
  case False
  then have "wb_n w \<noteq> 0" "wb_next w = wb_wpos w + length (wb_bytes w)" "pos = wb_next w"
    using w pos by (auto simp: winv_def must_write_def first_wbuf_def)
  then show ?thesis using False w2 f sz by (simp add: winv_def pend_def file_write_append)
qed

lemma make_room_ok:
  assumes r: "make_room st (at_page w pos sz) = Some (0, st', w2)" and io: "io_ok (io_of st)" and w: "winv w"
    and sz: "0 < sz" "length bs = sz" "even pos"
  shows "\<exists>io f2. st' = with_io io (st\<lparr>st_file := f2\<rparr>) \<and> io_ok io \<and> winv (add_page w2 bs) \<and> wb_size w2 = sz \<and>
    pend (add_page w2 bs) f2 = file_write (pend w (st_file st)) pos bs"
proof (cases "must_write (at_page w pos sz)")
  case True
  then obtain w1 where F: "flush_iov st (at_page w pos sz) = Some (0, st', w1)" "w2 = w1\<lparr>wb_wpos := wb_pos w1, wb_bytes := []\<rparr>"
    using r by (auto simp: make_room_def split: bind_splits)
  then obtain io where "st' = with_io io (st\<lparr>st_file := pend w (st_file st)\<rparr>)" "io_ok io"
    "w2 = (at_page w pos sz)\<lparr>wb_n := 0, wb_wpos := pos, wb_bytes := []\<rparr>"
    using flush_iov_ok [OF F(1) io] by (auto simp: pend_at)
  then show ?thesis using add_page_ok [OF w sz, of w2 "pend w (st_file st)" "st_file st"] True by auto
next
  case False
  then have "st' = with_io (io_of st) (st\<lparr>st_file := st_file st\<rparr>)" "w2 = at_page w pos sz"
    using r by (simp_all add: make_room_def)
  then show ?thesis using add_page_ok [OF w sz, of w2 "st_file st" "st_file st"] False io
    by (intro exI [of _ "io_of st"] exI [of _ "st_file st"]) auto
qed

lemma make_room_total:
  assumes w: "winv w" and sz: "0 < sz" "length bs = sz" "even pos"
  shows "\<exists>ans w2 g. io_ok ans \<and> winv (add_page w2 bs) \<and> wb_size w2 = sz \<and> (\<forall>f. pend (add_page w2 bs) (g f) = file_write (pend w f) pos bs) \<and>
    (\<forall>rest (st :: 'a st_scheme). make_room (with_io (ans @ rest) st) (at_page w pos sz) = Some (0, with_io rest (st\<lparr>st_file := g (st_file st)\<rparr>), w2))"
proof (cases "must_write (at_page w pos sz)")
  case True
  let ?w2 = "(at_page w pos sz)\<lparr>wb_n := 0, wb_wpos := pos, wb_bytes := []\<rparr>"
  obtain ans where "io_ok ans" "\<forall>rest (st :: 'a st_scheme). flush_iov (with_io (ans @ rest) st) (at_page w pos sz) =
      Some (0, with_io rest (st\<lparr>st_file := pend w (st_file st)\<rparr>), (at_page w pos sz)\<lparr>wb_n := 0\<rparr>)"
    using flush_iov_total [of "at_page w pos sz"] by (auto simp: pend_at)
  then show ?thesis using add_page_ok [OF w sz, of ?w2 "pend w f" f for f] True
    by (intro exI [of _ ans] exI [of _ ?w2] exI [of _ "pend w"]) (auto simp: make_room_def)
next
  case False
  have "make_room (with_io ([] @ rest) st) (at_page w pos sz) = Some (0, with_io rest (st\<lparr>st_file := id (st_file st)\<rparr>), at_page w pos sz)"
    for rest and st :: "'a st_scheme" using False by (simp add: make_room_def MDB_SUCCESS_def)
  moreover have "winv (add_page (at_page w pos sz) bs) \<and> pend (add_page (at_page w pos sz) bs) (id f) = file_write (pend w f) pos bs" for f
    using add_page_ok [OF w sz, of "at_page w pos sz" f f] False by simp
  moreover have "io_ok []" "wb_size (at_page w pos sz) = sz" by (simp_all add: io_ok_def)
  ultimately show ?thesis by blast
qed

section \<open>The loop\<close>

definition page_size :: "nat \<Rightarrow> bytes \<Rightarrow> nat" where
  "page_size psize b = (if IS_OVERFLOW b then psize * mp_pages b else psize)"

definition waits :: "bytes \<Rightarrow> bool" where
  "waits b \<longleftrightarrow> has (mp_flags b) (P_LOOSE OR P_KEEP)"

definition clean :: "bytes \<Rightarrow> bytes" where
  "clean b = set_mp_flags (mp_flags b AND NOT P_DIRTY) b"

definition settle :: "bytes \<Rightarrow> bytes" where
  "settle b = (if waits b then set_mp_flags (mp_flags b AND NOT P_KEEP) b else clean b)"

text \<open>The page of an entry of the dirty list, what is written of it and where.\<close>

definition blk :: "'a st_scheme \<Rightarrow> u64 \<times> page_ptr \<Rightarrow> bytes" where
  "blk st e = the (page_at st (snd e))"

definition page_write :: "'a st_scheme \<Rightarrow> u64 \<times> page_ptr \<Rightarrow> nat \<times> bytes" where
  "page_write st e = (unat (fst e * of_nat (me_psize (st_env st))), take (page_size (me_psize (st_env st)) (blk st e)) (clean (blk st e)))"

definition page_writes :: "'a st_scheme \<Rightarrow> (u64 \<times> page_ptr) list \<Rightarrow> (nat \<times> bytes) list" where
  "page_writes st es = map (page_write st) (filter (\<lambda>e. \<not> waits (blk st e)) es)"

definition entries_ok :: "'a st_scheme \<Rightarrow> (u64 \<times> page_ptr) list \<Rightarrow> bool" where
  "entries_ok st es \<longleftrightarrow> distinct (map snd es) \<and> (\<forall>e \<in> set es. \<exists>h b. snd e = Heap_page h \<and> st_heap st h = Some b \<and>
     16 \<le> length b \<and> 0 < page_size (me_psize (st_env st)) b \<and> page_size (me_psize (st_env st)) b \<le> length b)"

definition flush_heap :: "'a st_scheme \<Rightarrow> (u64 \<times> page_ptr) list \<Rightarrow> nat \<Rightarrow> bytes option" where
  "flush_heap st es = (\<lambda>h. if Heap_page h \<in> snd ` set es then map_option settle (st_heap st h) else st_heap st h)"

definition mark :: "'a st_scheme \<Rightarrow> u64 \<times> page_ptr \<Rightarrow> u64 \<times> page_ptr" where
  "mark st e = (if waits (blk st e) then (0, snd e) else e)"

definition flush_to :: "'a st_scheme \<Rightarrow> nat \<Rightarrow> (u64 \<times> page_ptr) list \<Rightarrow> bytes \<Rightarrow> io \<Rightarrow> 'a st_scheme" where
  "flush_to st i es f io = (let dl = mt_dirty_list (st_txn st) in
     with_io io (st\<lparr>st_file := f, st_heap := flush_heap st es,
       st_txn := (st_txn st)\<lparr>mt_dirty_list := take (i + 1) dl @ map (mark st) es @ drop (i + 1 + length es) dl\<rparr>\<rparr>))"

lemma even_pos: "even psize \<Longrightarrow> even (unat (x * of_nat psize :: u64))"
proof -
  assume "even psize"
  then have "even (unat (of_nat psize :: u64))" by (simp add: unat_of_nat dvd_mod_iff)
  then show ?thesis by (simp add: unat_word_ariths dvd_mod_iff)
qed

text \<open>The state after the entry \<open>e\<close> at place \<open>i + 1\<close>.\<close>

definition stepped :: "'a st_scheme \<Rightarrow> nat \<Rightarrow> u64 \<times> page_ptr \<Rightarrow> nat \<Rightarrow> 'a st_scheme" where
  "stepped st i e h = st\<lparr>st_heap := (st_heap st)(h \<mapsto> settle (blk st e)),
     st_txn := (st_txn st)\<lparr>mt_dirty_list := (mt_dirty_list (st_txn st))[i + 1 := mark st e]\<rparr>\<rparr>"

lemma stepped_same:
  assumes ok: "entries_ok st (e # es)" and h: "snd e = Heap_page h"
  shows "entries_ok (stepped st i e h) es" "\<And>x. x \<in> set es \<Longrightarrow> blk (stepped st i e h) x = blk st x"
    "page_writes (stepped st i e h) es = page_writes st es"
    "flush_heap (stepped st i e h) es = flush_heap st (e # es)"
    "\<And>x. x \<in> set es \<Longrightarrow> mark (stepped st i e h) x = mark st x"
proof -
  have other: "g \<noteq> h" if "x \<in> set es" "snd x = Heap_page g" for x g
  proof -
    have "snd e \<notin> snd ` set es" using ok by (simp add: entries_ok_def)
    then show ?thesis using that h by (metis imageI)
  qed
  show b: "blk (stepped st i e h) x = blk st x" if x: "x \<in> set es" for x
  proof -
    obtain g where g: "snd x = Heap_page g" using ok x by (auto simp: entries_ok_def)
    then show ?thesis using other [OF x g] by (simp add: blk_def stepped_def)
  qed
  show "entries_ok (stepped st i e h) es" unfolding entries_ok_def
  proof (intro conjI ballI)
    show "distinct (map snd es)" using ok by (simp add: entries_ok_def)
    fix x assume x: "x \<in> set es"
    then obtain g b where g: "snd x = Heap_page g" "st_heap st g = Some b" "16 \<le> length b"
      "0 < page_size (me_psize (st_env st)) b" "page_size (me_psize (st_env st)) b \<le> length b"
      using ok by (auto simp: entries_ok_def)
    then show "\<exists>h' b. snd x = Heap_page h' \<and> st_heap (stepped st i e h) h' = Some b \<and> 16 \<le> length b \<and>
        0 < page_size (me_psize (st_env (stepped st i e h))) b \<and> page_size (me_psize (st_env (stepped st i e h))) b \<le> length b"
      using other [OF x g(1)] by (simp add: stepped_def)
  qed
  show "page_writes (stepped st i e h) es = page_writes st es"
    using b by (auto simp: page_writes_def page_write_def stepped_def cong: map_cong filter_cong)
  show "mark (stepped st i e h) x = mark st x" if "x \<in> set es" for x using b [OF that] by (simp add: mark_def)
  obtain b where hb: "st_heap st h = Some b" "blk st e = b" using ok h by (auto simp: entries_ok_def blk_def)
  show "flush_heap (stepped st i e h) es = flush_heap st (e # es)"
  proof
    fix g
    show "flush_heap (stepped st i e h) es g = flush_heap st (e # es) g"
    proof (cases "g = h")
      case True
      have "Heap_page h \<notin> snd ` set es" using ok h by (simp add: entries_ok_def)
      then show ?thesis using True hb h by (simp add: flush_heap_def stepped_def)
    next
      case False
      then show ?thesis using h by (simp add: flush_heap_def stepped_def)
    qed
  qed
qed

lemma flush_to_Cons:
  assumes ok: "entries_ok st (e # es)" and h: "snd e = Heap_page h" and i: "i + 1 < length (mt_dirty_list (st_txn st))"
  shows "flush_to (with_io io' ((stepped st i e h)\<lparr>st_file := f'\<rparr>)) (i + 1) es f io = flush_to st i (e # es) f io"
proof -
  let ?dl = "mt_dirty_list (st_txn st)"
  have dl: "take (Suc (Suc i)) (?dl[Suc i := mark st e]) = take (Suc i) ?dl @ [mark st e]"
    using i by (subst take_Suc_conv_app_nth) simp_all
  have same: "flush_heap (with_io io' (s\<lparr>st_file := f'\<rparr>)) es = flush_heap s es" "mark (with_io io' (s\<lparr>st_file := f'\<rparr>)) x = mark s x"
    if "\<exists>g. snd x = Heap_page g" for s :: "'a st_scheme" and x
    using that by (auto simp: flush_heap_def mark_def blk_def)
  have m: "map (mark (with_io io' ((stepped st i e h)\<lparr>st_file := f'\<rparr>))) es = map (mark st) es"
  proof (rule map_cong [OF refl])
    fix x assume x: "x \<in> set es"
    then have "\<exists>g. snd x = Heap_page g" using ok by (auto simp: entries_ok_def)
    then show "mark (with_io io' ((stepped st i e h)\<lparr>st_file := f'\<rparr>)) x = mark st x"
      using same(2) stepped_same(5) [OF ok h x] by metis
  qed
  have fh: "flush_heap (with_io io' ((stepped st i e h)\<lparr>st_file := f'\<rparr>)) es = flush_heap st (e # es)"
    using same(1) [of e "stepped st i e h"] h stepped_same(4) [OF ok h] by auto
  show ?thesis
    unfolding flush_to_def Let_def m fh
    by (simp add: stepped_def dl with_io_def)
qed

text \<open>One round: either the page waits, or room is made for it and it is added.\<close>

lemma put_settled:
  assumes "st_heap st h = Some b" "16 \<le> length b"
  shows "put_page st (Heap_page h) (settle b) = Some (st\<lparr>st_heap := (st_heap st)(h \<mapsto> settle b)\<rparr>)"
  using assms by (simp add: settle_def clean_def)

lemma flush_round:
  assumes i: "i + 1 < length (mt_dirty_list (st_txn st))" and e: "e = mt_dirty_list (st_txn st) ! (i + 1)"
    and ok: "entries_ok st (e # es)"
  obtains h where "snd e = Heap_page h"
    "waits (blk st e) \<longrightarrow> flush_loop st i (Suc k) w = flush_loop (stepped st i e h) (i + 1) k w"
    "\<not> waits (blk st e) \<longrightarrow> flush_loop st i (Suc k) w = do {
       (rc, st2, w2) \<leftarrow> make_room (stepped st i e h) (at_page w (fst (page_write st e)) (length (snd (page_write st e))));
       if rc \<noteq> 0 then Some (rc, st2)
       else do {
         bs \<leftarrow> get_bytes (clean (blk st e)) 0 (wb_size w2);
         flush_loop st2 (i + 1) k (add_page w2 bs) } }"
    "0 < length (snd (page_write st e))" "get_bytes (clean (blk st e)) 0 (length (snd (page_write st e))) = Some (snd (page_write st e))"
proof -
  let ?dl = "mt_dirty_list (st_txn st)" and ?psize = "me_psize (st_env st)"
  obtain h b where h: "snd e = Heap_page h" "st_heap st h = Some b" "16 \<le> length b" "0 < page_size ?psize b" "page_size ?psize b \<le> length b"
    using ok by (auto simp: entries_ok_def)
  have b: "blk st e = b" using h by (simp add: blk_def)
  have get: "aget ?dl (i + 1) = Some e" using i e by simp
  have lc: "length (clean b) = length b" "IS_OVERFLOW (clean b) = IS_OVERFLOW b" "mp_pages (clean b) = mp_pages b"
  proof -
    show "length (clean b) = length b" using h(3) by (simp add: clean_def)
    have "mp_flags (clean b) = mp_flags b AND NOT P_DIRTY" using h(3) by (simp add: clean_def page_simps)
    moreover have "F_ISSET (f AND NOT P_DIRTY) P_OVERFLOW = F_ISSET f P_OVERFLOW" for f :: u16
    proof -
      have "(f AND NOT P_DIRTY) AND P_OVERFLOW = f AND P_OVERFLOW" by (simp add: P_DIRTY_def P_OVERFLOW_def and.assoc)
      then show ?thesis by (simp add: F_ISSET_def)
    qed
    ultimately show "IS_OVERFLOW (clean b) = IS_OVERFLOW b" by (simp add: IS_OVERFLOW_def)
    show "mp_pages (clean b) = mp_pages b" using h(3) by (simp add: clean_def page_simps)
  qed
  have put: "put_page st (Heap_page h) (settle b) = Some (st\<lparr>st_heap := (st_heap st)(h \<mapsto> settle b)\<rparr>)"
    by (rule put_settled [OF h(2,3)])
  have A: "flush_loop st i (Suc k) w = flush_loop (stepped st i e h) (i + 1) k w" if w: "waits (blk st e)"
  proof -
    have "set_dl_mid (i + 1) 0 (st_txn st) = Some ((st_txn st)\<lparr>mt_dirty_list := ?dl[i + 1 := mark st e]\<rparr>)"
      using get i w by (simp add: set_dl_mid_def mark_def)
    then show ?thesis using w b get h(1,2) put by (simp add: waits_def settle_def stepped_def)
  qed
  have B: "flush_loop st i (Suc k) w = do {
       (rc, st2, w2) \<leftarrow> make_room (stepped st i e h) (at_page w (fst (page_write st e)) (length (snd (page_write st e))));
       if rc \<noteq> 0 then Some (rc, st2)
       else do {
         bs \<leftarrow> get_bytes (clean (blk st e)) 0 (wb_size w2);
         flush_loop st2 (i + 1) k (add_page w2 bs) } }" if w: "\<not> waits (blk st e)"
  proof -
    have s: "stepped st i e h = st\<lparr>st_heap := (st_heap st)(h \<mapsto> settle b)\<rparr>"
      using w b e i by (simp add: stepped_def mark_def)
    have c: "settle b = clean b" using w b by (simp add: settle_def)
    have pw: "fst (page_write st e) = unat (fst e * of_nat ?psize)" "length (snd (page_write st e)) = page_size ?psize b"
      using h(5) lc(1) by (simp_all add: page_write_def b)
    show ?thesis unfolding pw unfolding b clean_def using w b get h(1,2) put
      by (simp add: waits_def c [unfolded clean_def] s page_size_def lc [unfolded clean_def] Let_def)
  qed
  have C: "0 < length (snd (page_write st e))"
    "get_bytes (clean (blk st e)) 0 (length (snd (page_write st e))) = Some (snd (page_write st e))"
    using h(4,5) lc(1) b by (simp_all add: page_write_def slice_def)
  show thesis by (rule that [OF h(1) _ _ C]) (use A in blast, use B in blast)
qed

lemma round_cases:
  assumes "do { (rc, st2, w2) \<leftarrow> m; if rc \<noteq> (0 :: int) then Some (rc, st2) else f st2 w2 } = Some (0, st')"
  obtains st2 w2 where "m = Some (0, st2, w2)" "f st2 w2 = Some (0, st')"
  using assms by (auto split: bind_splits if_splits)

lemma page_writes_Cons:
  "page_writes st (e # es) = (if waits (blk st e) then page_writes st es else page_write st e # page_writes st es)"
  by (simp add: page_writes_def)

text \<open>Every successful run leaves the file as if the pages had been written one by one.\<close>

lemma flush_loop_ok:
  assumes "flush_loop st i k w = Some (0, st')" "io_ok (io_of st)" "winv w" "even (me_psize (st_env st))"
    "i + k < length (mt_dirty_list (st_txn st))" "entries_ok st (seg (i + 1) k (mt_dirty_list (st_txn st)))"
  shows "\<exists>io. st' = flush_to st i (seg (i + 1) k (mt_dirty_list (st_txn st)))
    (put_writes (page_writes st (seg (i + 1) k (mt_dirty_list (st_txn st)))) (pend w (st_file st))) io"
  using assms
proof (induction k arbitrary: st i w)
  case 0
  obtain w' where "flush_iov st w = Some (0, st', w')"
    using "0.prems"(1) winv_end [OF "0.prems"(3)] by (auto split: bind_splits)
  then obtain io where "st' = with_io io (st\<lparr>st_file := pend w (st_file st)\<rparr>)" using flush_iov_ok "0.prems"(2) by blast
  then show ?case using "0.prems"(5)
    by (intro exI [of _ io]) (simp add: flush_to_def flush_heap_def seg_def page_writes_def put_writes_def with_io_def Let_def)
next
  case (Suc k)
  let ?dl = "mt_dirty_list (st_txn st)"
  define e es where "e = ?dl ! (i + 1)" and "es = seg (i + 2) k ?dl"
  have i: "i + 1 < length ?dl" using Suc.prems(5) by simp
  have s: "seg (i + 1) (Suc k) ?dl = e # es" using i by (simp add: seg_def e_def es_def Cons_nth_drop_Suc [symmetric])
  have ok: "entries_ok st (e # es)" using Suc.prems(6) s by simp
  obtain h where R: "snd e = Heap_page h"
    "waits (blk st e) \<longrightarrow> flush_loop st i (Suc k) w = flush_loop (stepped st i e h) (i + 1) k w"
    "\<not> waits (blk st e) \<longrightarrow> flush_loop st i (Suc k) w = do {
       (rc, st2, w2) \<leftarrow> make_room (stepped st i e h) (at_page w (fst (page_write st e)) (length (snd (page_write st e))));
       if rc \<noteq> 0 then Some (rc, st2)
       else do {
         bs \<leftarrow> get_bytes (clean (blk st e)) 0 (wb_size w2);
         flush_loop st2 (i + 1) k (add_page w2 bs) } }"
    "0 < length (snd (page_write st e))" "get_bytes (clean (blk st e)) 0 (length (snd (page_write st e))) = Some (snd (page_write st e))"
    by (rule flush_round [OF i e_def ok, where k = k and w = w]) blast
  note same = stepped_same [OF ok R(1), where i = i]
  have S: "mt_dirty_list (st_txn (stepped st i e h)) = ?dl[i + 1 := mark st e]" "st_file (stepped st i e h) = st_file st"
    "st_env (stepped st i e h) = st_env st" "io_of (stepped st i e h) = io_of st" by (simp_all add: stepped_def)
  have seg: "seg (i + 1 + 1) k (?dl[i + 1 := mark st e]) = es" by (simp add: es_def seg_def)
  show ?case
  proof (cases "waits (blk st e)")
    case True
    have "flush_loop (stepped st i e h) (i + 1) k w = Some (0, st')" using Suc.prems(1) R(2) [rule_format, OF True] by (simp only:)
    from Suc.IH [OF this _ Suc.prems(3)]
    have "\<exists>io. st' = flush_to (stepped st i e h) (i + 1) es (put_writes (page_writes (stepped st i e h) es) (pend w (st_file st))) io"
      using Suc.prems(2,4,5) same(1) unfolding S seg by simp
    moreover have "with_io (io_of st) ((stepped st i e h)\<lparr>st_file := st_file st\<rparr>) = stepped st i e h"
      by (simp add: with_io_def stepped_def)
    ultimately show ?thesis
      using flush_to_Cons [OF ok R(1) i, where io' = "io_of st" and f' = "st_file st"] True unfolding s page_writes_Cons same(3)
      by simp
  next
    case False
    let ?pos = "fst (page_write st e)" and ?bs = "snd (page_write st e)"
    obtain st2 w2 where M: "make_room (stepped st i e h) (at_page w ?pos (length ?bs)) = Some (0, st2, w2)"
      "do { bs \<leftarrow> get_bytes (clean (blk st e)) 0 (wb_size w2); flush_loop st2 (i + 1) k (add_page w2 bs) } = Some (0, st')"
      by (rule round_cases [OF Suc.prems(1) [unfolded R(3) [rule_format, OF False]]])
    have pos: "even ?pos" using even_pos Suc.prems(4) by (simp add: page_write_def)
    obtain io f2 where F: "st2 = with_io io ((stepped st i e h)\<lparr>st_file := f2\<rparr>)" "io_ok io" "winv (add_page w2 ?bs)" "wb_size w2 = length ?bs"
      "pend (add_page w2 ?bs) f2 = file_write (pend w (st_file st)) ?pos ?bs"
      using make_room_ok [OF M(1) _ Suc.prems(3) R(4) refl pos] Suc.prems(2) S by auto
    have run: "flush_loop st2 (i + 1) k (add_page w2 ?bs) = Some (0, st')" using M(2) R(5) F(4) by simp
    have v: "entries_ok st2 es" "page_writes st2 es = page_writes st es"
    proof -
      have b: "blk st2 x = blk (stepped st i e h) x" if "x \<in> set es" for x
        using that ok F(1) by (auto simp: entries_ok_def blk_def)
      show "entries_ok st2 es" using same(1) by (simp add: F(1) entries_ok_def)
      have "page_writes st2 es = page_writes (stepped st i e h) es"
        using b F(1) by (auto simp: page_writes_def page_write_def cong: map_cong filter_cong)
      then show "page_writes st2 es = page_writes st es" using same(3) by simp
    qed
    have "\<exists>io. st' = flush_to st2 (i + 1) es (put_writes (page_writes st2 es) (pend (add_page w2 ?bs) (st_file st2))) io"
      using Suc.IH [OF run _ F(3)] F(1,2) Suc.prems(4,5) v(1) S seg by simp
    then have "\<exists>io. st' = flush_to st2 (i + 1) es (put_writes (page_writes st (e # es)) (pend w (st_file st))) io"
      using F(1,5) v(2) False by (simp add: page_writes_Cons put_writes_Cons [of "fst x" "snd x" for x, simplified])
    then show ?thesis using flush_to_Cons [OF ok R(1) i, where io' = io and f' = f2] unfolding s F(1) by simp
  qed
qed

text \<open>And there are answers with which the run succeeds: those of a system that writes all it is given.\<close>

lemma flush_loop_total:
  fixes st :: "'a st_scheme"
  assumes "winv w" "even (me_psize (st_env st))" "i + k < length (mt_dirty_list (st_txn st))"
    "entries_ok st (seg (i + 1) k (mt_dirty_list (st_txn st)))"
  shows "\<exists>ans. io_ok ans \<and> (\<forall>rest. \<exists>st'. flush_loop (with_io (ans @ rest) st) i k w = Some (0, st') \<and> io_of st' = rest)"
  using assms
proof (induction k arbitrary: st i w)
  case 0
  obtain ans where a: "io_ok ans" "\<forall>rest (st :: 'a st_scheme). flush_iov (with_io (ans @ rest) st) w =
      Some (0, with_io rest (st\<lparr>st_file := pend w (st_file st)\<rparr>), w\<lparr>wb_n := 0\<rparr>)"
    using flush_iov_total [of w] by blast
  have "flush_loop (with_io (ans @ rest) st) i 0 w = Some (0, with_io rest (st\<lparr>st_file := pend w (st_file st)\<rparr>))" for rest
    using a(2) winv_end [OF "0.prems"(1)] by simp
  then show ?case using a(1) by (metis with_io_simps(1))
next
  case (Suc k)
  let ?dl = "mt_dirty_list (st_txn st)"
  define e es where "e = ?dl ! (i + 1)" and "es = seg (i + 2) k ?dl"
  have i: "i + 1 < length ?dl" using Suc.prems(3) by simp
  have s: "seg (i + 1) (Suc k) ?dl = e # es" using i by (simp add: seg_def e_def es_def Cons_nth_drop_Suc [symmetric])
  have ok: "entries_ok st (e # es)" using Suc.prems(4) s by simp
  have io: "entries_ok (with_io io st) (e # es)" "blk (with_io io st) e = blk st e" "page_write (with_io io st) e = page_write st e"
    "stepped (with_io io st) i e h = with_io io (stepped st i e h)" for io h
  proof -
    show "entries_ok (with_io io st) (e # es)" using ok by (simp add: entries_ok_def)
    show b: "blk (with_io io st) e = blk st e" using ok by (auto simp: entries_ok_def blk_def)
    show "page_write (with_io io st) e = page_write st e" by (simp add: page_write_def b)
    show "stepped (with_io io st) i e h = with_io io (stepped st i e h)"
      unfolding stepped_def mark_def b by (simp add: with_io_def)
  qed
  obtain h where h: "snd e = Heap_page h" using ok by (auto simp: entries_ok_def)
  note same = stepped_same [OF ok h, where i = i]
  have S: "mt_dirty_list (st_txn (stepped st i e h)) = ?dl[i + 1 := mark st e]" "st_file (stepped st i e h) = st_file st"
    "st_env (stepped st i e h) = st_env st" by (simp_all add: stepped_def)
  have seg: "seg (i + 1 + 1) k (?dl[i + 1 := mark st e]) = es" by (simp add: es_def seg_def)
  have R: "(waits (blk st e) \<longrightarrow> flush_loop (with_io io st) i (Suc k) w = flush_loop (with_io io (stepped st i e h)) (i + 1) k w) \<and>
    (\<not> waits (blk st e) \<longrightarrow> flush_loop (with_io io st) i (Suc k) w = do {
       (rc, st2, w2) \<leftarrow> make_room (with_io io (stepped st i e h)) (at_page w (fst (page_write st e)) (length (snd (page_write st e))));
       if rc \<noteq> 0 then Some (rc, st2)
       else do {
         bs \<leftarrow> get_bytes (clean (blk st e)) 0 (wb_size w2);
         flush_loop st2 (i + 1) k (add_page w2 bs) } }) \<and>
    0 < length (snd (page_write st e)) \<and>
    get_bytes (clean (blk st e)) 0 (length (snd (page_write st e))) = Some (snd (page_write st e))" for io
  proof (rule flush_round [of i "with_io io st" e es k w])
    show "i + 1 < length (mt_dirty_list (st_txn (with_io io st)))" using i by simp
    show "e = mt_dirty_list (st_txn (with_io io st)) ! (i + 1)" by (simp add: e_def)
    show "entries_ok (with_io io st) (e # es)" by (rule io(1))
    fix h' assume "snd e = Heap_page h'"
    then have "h' = h" using h by simp
    then show ?thesis if
      "waits (blk (with_io io st) e) \<longrightarrow> flush_loop (with_io io st) i (Suc k) w = flush_loop (stepped (with_io io st) i e h') (i + 1) k w"
      "\<not> waits (blk (with_io io st) e) \<longrightarrow> flush_loop (with_io io st) i (Suc k) w = do {
         (rc, st2, w2) \<leftarrow> make_room (stepped (with_io io st) i e h') (at_page w (fst (page_write (with_io io st) e)) (length (snd (page_write (with_io io st) e))));
         if rc \<noteq> 0 then Some (rc, st2)
         else do {
           bs \<leftarrow> get_bytes (clean (blk (with_io io st) e)) 0 (wb_size w2);
           flush_loop st2 (i + 1) k (add_page w2 bs) } }"
      "0 < length (snd (page_write (with_io io st) e))"
      "get_bytes (clean (blk (with_io io st) e)) 0 (length (snd (page_write (with_io io st) e))) = Some (snd (page_write (with_io io st) e))"
      using that unfolding io(2,3,4) by blast
  qed
  show ?case
  proof (cases "waits (blk st e)")
    case True
    have "\<exists>ans. io_ok ans \<and> (\<forall>rest. \<exists>st'. flush_loop (with_io (ans @ rest) (stepped st i e h)) (i + 1) k w = Some (0, st') \<and> io_of st' = rest)"
      using Suc.IH [OF Suc.prems(1), of "stepped st i e h" "i + 1"] Suc.prems(2,3) same(1) unfolding S seg by simp
    then show ?thesis using R True by metis
  next
    case False
    let ?pos = "fst (page_write st e)" and ?bs = "snd (page_write st e)"
    have pos: "even ?pos" using even_pos Suc.prems(2) by (simp add: page_write_def)
    have bs: "0 < length ?bs" "get_bytes (clean (blk st e)) 0 (length ?bs) = Some ?bs" using R by blast+
    obtain ans w2 g where M: "io_ok ans" "winv (add_page w2 ?bs)" "wb_size w2 = length ?bs"
      "\<forall>rest (s :: 'a st_scheme). make_room (with_io (ans @ rest) s) (at_page w ?pos (length ?bs)) =
        Some (0, with_io rest (s\<lparr>st_file := g (st_file s)\<rparr>), w2)"
      using make_room_total [OF Suc.prems(1) bs(1) refl pos] by blast
    let ?s2 = "(stepped st i e h)\<lparr>st_file := g (st_file (stepped st i e h))\<rparr>"
    have "entries_ok ?s2 es" using same(1) by (simp add: entries_ok_def)
    then have "\<exists>ans. io_ok ans \<and> (\<forall>rest. \<exists>st'. flush_loop (with_io (ans @ rest) ?s2) (i + 1) k (add_page w2 ?bs) = Some (0, st') \<and> io_of st' = rest)"
      using Suc.IH [OF M(2), of ?s2 "i + 1"] Suc.prems(2,3) S seg by simp
    then obtain ans2 where A: "io_ok ans2" "\<forall>rest. \<exists>st'. flush_loop (with_io (ans2 @ rest) ?s2) (i + 1) k (add_page w2 ?bs) = Some (0, st') \<and> io_of st' = rest"
      by blast
    have "flush_loop (with_io ((ans @ ans2) @ rest) st) i (Suc k) w = flush_loop (with_io (ans2 @ rest) ?s2) (i + 1) k (add_page w2 ?bs)" for rest
    proof -
      have "make_room (with_io ((ans @ ans2) @ rest) (stepped st i e h)) (at_page w ?pos (length ?bs)) = Some (0, with_io (ans2 @ rest) ?s2, w2)"
        using M(4) [rule_format, of "ans2 @ rest" "stepped st i e h"] by simp
      then show ?thesis using R [of "(ans @ ans2) @ rest"] False bs(2) M(3) by simp
    qed
    moreover have "io_ok (ans @ ans2)" using M(1) A(1) by (auto simp: io_ok_def)
    ultimately show ?thesis using A(2) by metis
  qed
qed

section \<open>After the loop\<close>

text \<open>The blocks of the entries with a page number are freed, the others are moved down to \<open>j + 1\<close>.\<close>

definition kept :: "'a st_scheme \<Rightarrow> (u64 \<times> page_ptr) list \<Rightarrow> (u64 \<times> page_ptr) list" where
  "kept st es = map (\<lambda>e. (mp_pgno (blk st e), snd e)) (filter (\<lambda>e. fst e = 0) es)"

definition live :: "'a st_scheme \<Rightarrow> (u64 \<times> page_ptr) list \<Rightarrow> bool" where
  "live st es \<longleftrightarrow> distinct (map snd es) \<and> (\<forall>e \<in> set es. \<exists>h b. snd e = Heap_page h \<and> st_heap st h = Some b)"

definition free_to :: "'a st_scheme \<Rightarrow> (nat \<Rightarrow> bytes option) \<Rightarrow> nat list \<Rightarrow> (u64 \<times> page_ptr) list \<Rightarrow> 'a st_scheme" where
  "free_to st hp dp dl = st\<lparr>st_heap := hp, st_env := (st_env st)\<lparr>me_dpages := dp\<rparr>, st_txn := (st_txn st)\<lparr>mt_dirty_list := dl\<rparr>\<rparr>"

lemma dpage_freed:
  assumes "snd e = Heap_page h" "st_heap st h = Some b"
  obtains hp dp where "mdb_dpage_free st (snd e) = Some (free_to st hp dp (mt_dirty_list (st_txn st)))"
    "\<forall>g. g \<noteq> h \<longrightarrow> hp g = st_heap st g"
proof (cases "\<not> IS_OVERFLOW b \<or> mp_pages b = 1")
  case True
  show thesis
    by (rule that [of "st_heap st" "h # me_dpages (st_env st)"])
      (use True assms in \<open>auto simp: mdb_dpage_free_def mdb_page_free_def free_to_def upd_env_def\<close>)
next
  case False
  show thesis
    by (rule that [of "(st_heap st)(h := None)" "me_dpages (st_env st)"])
      (use False assms in \<open>auto simp: mdb_dpage_free_def free_to_def\<close>)
qed

lemma kept_cong: "(\<And>x. x \<in> set es \<Longrightarrow> blk st' x = blk st x) \<Longrightarrow> kept st' es = kept st es"
  by (simp add: kept_def cong: map_cong filter_cong)

lemma flush_free_ok:
  assumes "i + k < length (mt_dirty_list (st_txn st))" "j \<le> i" "live st (seg (i + 1) k (mt_dirty_list (st_txn st)))"
  shows "\<exists>hp dp. flush_free st i j k = Some (free_to st hp dp
      (take (j + 1) (mt_dirty_list (st_txn st)) @ kept st (seg (i + 1) k (mt_dirty_list (st_txn st))) @
       drop (j + 1 + length (kept st (seg (i + 1) k (mt_dirty_list (st_txn st))))) (mt_dirty_list (st_txn st))),
      j + length (kept st (seg (i + 1) k (mt_dirty_list (st_txn st))))) \<and>
    (\<forall>h. (\<forall>e \<in> set (seg (i + 1) k (mt_dirty_list (st_txn st))). fst e \<noteq> 0 \<longrightarrow> snd e \<noteq> Heap_page h) \<longrightarrow> hp h = st_heap st h)"
  using assms
proof (induction k arbitrary: st i j)
  case 0
  show ?case
    by (intro exI [of _ "st_heap st"] exI [of _ "me_dpages (st_env st)"]) (simp add: free_to_def seg_def kept_def)
next
  case (Suc k)
  let ?dl = "mt_dirty_list (st_txn st)"
  define e es where "e = ?dl ! (i + 1)" and "es = seg (i + 2) k ?dl"
  have i: "i + 1 < length ?dl" using Suc.prems(1) by simp
  have s: "seg (i + 1) (Suc k) ?dl = e # es" using i by (simp add: seg_def e_def es_def Cons_nth_drop_Suc [symmetric])
  have L: "live st (e # es)" using Suc.prems(3) s by simp
  then have Le: "live st es" "snd e \<notin> snd ` set es" by (simp_all add: live_def)
  obtain h b where h: "snd e = Heap_page h" "st_heap st h = Some b" using L by (auto simp: live_def)
  have b: "blk st e = b" using h by (simp add: blk_def)
  have get: "aget ?dl (i + 1) = Some e" using i by (simp add: e_def)
  show ?case
  proof (cases "fst e = 0")
    case True
    let ?x = "(mp_pgno b, snd e)"
    let ?st = "st\<lparr>st_txn := (st_txn st)\<lparr>mt_dirty_list := ?dl[j + 1 := ?x]\<rparr>\<rparr>"
    have dl: "mt_dirty_list (st_txn ?st) = ?dl[j + 1 := ?x]" by simp
    have j: "j + 1 < length ?dl" using Suc.prems(2) i by simp
    have seg: "seg (i + 1 + 1) k (?dl[j + 1 := ?x]) = es" using Suc.prems(2) by (simp add: seg_def es_def)
    have step: "flush_free st i j (Suc k) = flush_free ?st (i + 1) (j + 1) k"
      using get True h j by (simp add: upd_txn_def)
    have k: "kept ?st es = kept st es" "live ?st es"
      using Le(1) by (auto simp: live_def blk_def intro!: kept_cong)
    have tk: "take (j + 1 + 1) (?dl[j + 1 := ?x]) = take (j + 1) ?dl @ [?x]"
      using j take_Suc_conv_app_nth [of "j + 1" "?dl[j + 1 := ?x]"] by simp
    have kc: "kept st (e # es) = ?x # kept st es" using True b by (simp add: kept_def)
    obtain hp dp where I: "flush_free ?st (i + 1) (j + 1) k = Some (free_to ?st hp dp
        (take (j + 1 + 1) (?dl[j + 1 := ?x]) @ kept st es @ drop (j + 1 + 1 + length (kept st es)) (?dl[j + 1 := ?x])),
        j + 1 + length (kept st es))"
      "\<forall>h. (\<forall>e \<in> set es. fst e \<noteq> 0 \<longrightarrow> snd e \<noteq> Heap_page h) \<longrightarrow> hp h = st_heap st h"
      using Suc.IH [of "i + 1" ?st "j + 1"] Suc.prems(1,2) k unfolding dl seg by auto
    show ?thesis
      unfolding s kc step I(1) tk using I(2) True
      by (intro exI [of _ hp] exI [of _ dp]) (simp add: free_to_def)
  next
    case False
    obtain hp1 dp1 where F: "mdb_dpage_free st (snd e) = Some (free_to st hp1 dp1 ?dl)" "\<forall>g. g \<noteq> h \<longrightarrow> hp1 g = st_heap st g"
      using dpage_freed [OF h] by blast
    let ?st = "free_to st hp1 dp1 ?dl"
    have dl: "mt_dirty_list (st_txn ?st) = ?dl" by (simp add: free_to_def)
    have step: "flush_free st i j (Suc k) = flush_free ?st (i + 1) j k" using get False F(1) by simp
    have other: "\<exists>g b. snd x = Heap_page g \<and> st_heap st g = Some b \<and> hp1 g = Some b" if x: "x \<in> set es" for x
    proof -
      obtain g b' where g: "snd x = Heap_page g" "st_heap st g = Some b'" using Le(1) x by (auto simp: live_def)
      have "g \<noteq> h" using Le(2) x h(1) g(1) by (metis imageI)
      then show ?thesis using g F(2) by simp
    qed
    have k: "kept ?st es = kept st es"
    proof (rule kept_cong)
      fix x assume "x \<in> set es"
      then show "blk ?st x = blk st x" using other [of x] by (auto simp: blk_def free_to_def)
    qed
    have l: "live ?st es" using Le(1) other by (fastforce simp: live_def free_to_def)
    have kc: "kept st (e # es) = kept st es" using False by (simp add: kept_def)
    have seg: "seg (i + 1 + 1) k ?dl = es" by (simp add: es_def)
    obtain hp dp where I: "flush_free ?st (i + 1) j k = Some (free_to ?st hp dp
        (take (j + 1) ?dl @ kept st es @ drop (j + 1 + length (kept st es)) ?dl), j + length (kept st es))"
      "\<forall>h. (\<forall>e \<in> set es. fst e \<noteq> 0 \<longrightarrow> snd e \<noteq> Heap_page h) \<longrightarrow> hp h = hp1 h"
      using Suc.IH [of "i + 1" ?st j] Suc.prems(1,2) k l unfolding dl seg by (auto simp: free_to_def)
    show ?thesis
      unfolding s kc step I(1) using I(2) F(2) h(1) False
      by (intro exI [of _ hp] exI [of _ dp]) (simp add: free_to_def)
  qed
qed

section \<open>The whole flush\<close>

text \<open>
  The entries \<open>es\<close> after the first \<open>keep\<close> of a dirty list with \<open>n\<close> entries. Each knows its page number, and no two
  of the pages overlap in the file.
\<close>

definition flush_pre :: "'a st_scheme \<Rightarrow> nat \<Rightarrow> nat \<Rightarrow> bool" where
  "flush_pre st keep n \<longleftrightarrow> (let dl = mt_dirty_list (st_txn st); es = seg (keep + 1) (n - keep) dl in
     \<not> has (me_flags (st_env st)) MDB_WRITEMAP \<and> even (me_psize (st_env st)) \<and>
     keep \<le> n \<and> n < length dl \<and> n < 2 ^ 32 \<and> fst (dl ! 0) = of_nat n \<and> entries_ok st es \<and>
     (\<forall>e \<in> set es. fst e \<noteq> 0 \<and> mp_pgno (blk st e) = fst e) \<and>
     sorted_wrt (\<lambda>w v. off_by (fst w) (length (snd w)) v) (page_writes st es))"

abbreviation flush_es :: "'a st_scheme \<Rightarrow> nat \<Rightarrow> nat \<Rightarrow> (u64 \<times> page_ptr) list" where
  "flush_es st keep n \<equiv> seg (keep + 1) (n - keep) (mt_dirty_list (st_txn st))"

lemma mp_pgno_settle: "16 \<le> length b \<Longrightarrow> mp_pgno (settle b) = mp_pgno b"
  by (simp add: settle_def clean_def page_simps)

lemma kept_flush_to:
  assumes ok: "entries_ok st es" and pn: "\<forall>e \<in> set es. fst e \<noteq> 0 \<and> mp_pgno (blk st e) = fst e"
  shows "kept (flush_to st i es f io) (map (mark st) es) = filter (\<lambda>e. waits (blk st e)) es"
    "live (flush_to st i es f io) (map (mark st) es)"
proof -
  have m: "snd (mark st e) = snd e" "fst (mark st e) = 0 \<longleftrightarrow> waits (blk st e)" if "e \<in> set es" for e
    using pn that by (auto simp: mark_def)
  have b: "\<exists>h. snd e = Heap_page h \<and> st_heap (flush_to st i es f io) h = Some (settle (blk st e)) \<and>
      mp_pgno (settle (blk st e)) = fst e" if e: "e \<in> set es" for e
  proof -
    obtain h b where h: "snd e = Heap_page h" "st_heap st h = Some b" "16 \<le> length b"
      using ok e by (auto simp: entries_ok_def)
    have "Heap_page h \<in> snd ` set es" using h(1) e by (metis imageI)
    then have "st_heap (flush_to st i es f io) h = Some (settle (blk st e))"
      using h by (simp add: flush_to_def flush_heap_def blk_def with_io_def Let_def)
    then show ?thesis using h pn e by (auto simp: mp_pgno_settle blk_def)
  qed
  have b2: "mp_pgno (blk (flush_to st i es f io) (mark st e)) = fst e" if e: "e \<in> set es" for e
    using b [OF e] m(1) [OF e] by (auto simp: blk_def)
  show "kept (flush_to st i es f io) (map (mark st) es) = filter (\<lambda>e. waits (blk st e)) es"
    using m b2 by (simp add: kept_def filter_map o_def cong: filter_cong) (auto intro!: map_idI)
  have "map snd (map (mark st) es) = map snd es" using m(1) by simp
  then show "live (flush_to st i es f io) (map (mark st) es)"
    using ok b m(1) unfolding live_def entries_ok_def by (metis (no_types, lifting) imageE set_map)
qed

lemma seg_middle: "i + 1 \<le> length dl \<Longrightarrow> seg (i + 1) (length xs) (take (i + 1) dl @ xs @ ys) = xs"
  by (simp add: seg_def)

text \<open>What the flush leaves behind: the file, the dirty list and its room, the blocks of the pages that stay.\<close>

definition flush_result :: "'a st_scheme \<Rightarrow> nat \<Rightarrow> nat \<Rightarrow> 'a st_scheme \<Rightarrow> bool" where
  "flush_result st keep n st' \<longleftrightarrow> (let es = flush_es st keep n; ws = page_writes st es; ks = filter (\<lambda>e. waits (blk st e)) es in
     (\<forall>w \<in> set ws. slice (st_file st') (fst w) (length (snd w)) = snd w) \<and>
     (\<forall>a k. a + k \<le> length (st_file st) \<and> (\<forall>w \<in> set ws. off_by a k w) \<longrightarrow> slice (st_file st') a k = slice (st_file st) a k) \<and>
     (\<exists>c rest. mt_dirty_list (st_txn st') = c # seg 1 keep (mt_dirty_list (st_txn st)) @ ks @ rest \<and>
       fst c = of_nat (keep + length ks)) \<and>
     mt_dirty_room (st_txn st') = mt_dirty_room (st_txn st) + length ws \<and>
     (\<forall>h b. st_heap st h = Some b \<and> (\<forall>e \<in> set es. snd e = Heap_page h \<longrightarrow> waits b) \<longrightarrow>
       st_heap st' h = Some (if Heap_page h \<in> snd ` set es then settle b else b)))"

text \<open>What a run of the loops and the settling of the list comes to.\<close>

lemma page_flush_run:
  assumes pre: "flush_pre st keep n" and loop: "flush_loop st keep (n - keep) first_wbuf = Some (0, st1)"
    and io: "io_ok (io_of st)"
  obtains st' where "mdb_page_flush st keep = Some (0, st')" "flush_result st keep n st'"
proof -
  let ?dl = "mt_dirty_list (st_txn st)" and ?es = "flush_es st keep n"
  let ?ws = "page_writes st ?es" and ?w = "filter (\<lambda>e. waits (blk st e)) ?es"
  have P: "\<not> has (me_flags (st_env st)) MDB_WRITEMAP" "even (me_psize (st_env st))" "keep \<le> n" "n < length ?dl" "n < 2 ^ 32"
    "fst (?dl ! 0) = of_nat n" "entries_ok st ?es" "\<forall>e \<in> set ?es. fst e \<noteq> 0 \<and> mp_pgno (blk st e) = fst e"
    using pre unfolding flush_pre_def Let_def by blast+
  have le: "length ?es = n - keep" using P(4) by (simp add: seg_def)
  have w0: "winv first_wbuf" "pend first_wbuf f = f" for f by (simp_all add: winv_def pend_def first_wbuf_def)
  obtain io where st1: "st1 = flush_to st keep ?es (put_writes ?ws (st_file st)) io"
    using flush_loop_ok [OF loop io w0(1) P(2) _ P(7)] P(3,4) w0(2) by auto
  define f where "f = put_writes ?ws (st_file st)"
  note st1 = st1 [folded f_def]
  let ?rest = "drop (keep + 1 + (n - keep)) ?dl"
  have dl1: "mt_dirty_list (st_txn st1) = take (keep + 1) ?dl @ map (mark st) ?es @ ?rest"
    by (simp add: st1 flush_to_def with_io_def Let_def le [simplified])
  have sg: "seg (keep + 1) (n - keep) (mt_dirty_list (st_txn st1)) = map (mark st) ?es"
    using seg_middle [of keep ?dl "map (mark st) ?es" ?rest] P(3,4) by (simp add: dl1 le)
  note kf = kept_flush_to [OF P(7,8), where i = keep and f = f and io = io, folded st1]
  have len1: "keep + (n - keep) < length (mt_dirty_list (st_txn st1))" using P(3,4) le by (simp add: dl1)
  have live1: "live st1 (seg (keep + 1) (n - keep) (mt_dirty_list (st_txn st1)))" unfolding sg by (rule kf(2))
  obtain hp dp where F: "flush_free st1 keep keep (n - keep) = Some (free_to st1 hp dp
      (take (keep + 1) (mt_dirty_list (st_txn st1)) @ ?w @ drop (keep + 1 + length ?w) (mt_dirty_list (st_txn st1))), keep + length ?w)"
    "\<forall>h. (\<forall>e \<in> set (map (mark st) ?es). fst e \<noteq> 0 \<longrightarrow> snd e \<noteq> Heap_page h) \<longrightarrow> hp h = st_heap st1 h"
    using flush_free_ok [OF len1 order_refl live1] unfolding sg kf(1) by blast
  let ?r = "drop (keep + 1 + length ?w) (mt_dirty_list (st_txn st1))"
  have len: "length ?w + length ?ws = n - keep"
    using sum_length_filter_compl [of "\<lambda>e. waits (blk st e)" ?es] le by (simp add: page_writes_def)
  have tk: "take (keep + 1) (mt_dirty_list (st_txn st1)) = ?dl ! 0 # seg 1 keep ?dl"
    using P(3,4) by (cases ?dl) (simp_all add: dl1 seg_def)
  have un: "unat (of_nat n :: u64) mod 2 ^ 32 = n" using P(5) by (simp add: unat_of_nat)
  let ?c = "(of_nat (keep + length ?w), snd (?dl ! 0))"
  define st2 where "st2 = free_to st1 hp dp (?dl ! 0 # seg 1 keep ?dl @ ?w @ ?r)"
  let ?st' = "st2\<lparr>st_txn := (st_txn st2)\<lparr>mt_dirty_list := ?c # seg 1 keep ?dl @ ?w @ ?r,
    mt_dirty_room := mt_dirty_room (st_txn st) + length ?ws\<rparr>\<rparr>"
  have room: "mt_dirty_room (st_txn st2) = mt_dirty_room (st_txn st)"
    by (simp add: st2_def free_to_def st1 flush_to_def with_io_def Let_def)
  have run: "mdb_page_flush st keep = Some (0, ?st')"
  proof -
    have F': "flush_free st1 keep keep (n - keep) = Some (st2, keep + length ?w)" unfolding st2_def F(1) tk by simp
    have get: "aget ?dl 0 = Some (?dl ! 0)" "fst (?dl ! 0) = of_nat n"
      by (rule aget_in [OF le_less_trans [OF le0 P(4)]], rule P(6))
    have len2: "mt_dirty_list (st_txn st2) = ?dl ! 0 # seg 1 keep ?dl @ ?w @ ?r" by (simp add: st2_def free_to_def)
    have "mt_dirty_room (st_txn st) + max keep n - (keep + length ?w) = mt_dirty_room (st_txn st) + length ?ws"
      using len P(3) by simp
    then show ?thesis
      using P(1) get un loop F' room len2 by (simp add: mdb_page_flush_def Let_def set_dl_count_def)
  qed
  have heap: "hp h = Some (if Heap_page h \<in> snd ` set ?es then settle b else b)"
    if h: "st_heap st h = Some b" "\<forall>e \<in> set ?es. snd e = Heap_page h \<longrightarrow> waits b" for h b
  proof -
    have "\<forall>x \<in> set (map (mark st) ?es). fst x \<noteq> 0 \<longrightarrow> snd x \<noteq> Heap_page h"
    proof (intro ballI impI)
      fix x assume x: "x \<in> set (map (mark st) ?es)" "fst x \<noteq> 0"
      then obtain e where e: "e \<in> set ?es" "x = mark st e" by auto
      have "\<not> waits (blk st e)" "snd x = snd e" using x(2) e(2) by (auto simp: mark_def split: if_splits)
      then show "snd x \<noteq> Heap_page h" using h e(1) by (auto simp: blk_def)
    qed
    then have "hp h = st_heap st1 h" using F(2) by blast
    then show ?thesis using h(1) by (auto simp: st1 flush_to_def flush_heap_def with_io_def Let_def)
  qed
  have "sorted_wrt (\<lambda>w v. off_by (fst w) (length (snd w)) v) ?ws" using pre unfolding flush_pre_def Let_def by blast
  then have fl: "\<forall>w \<in> set ?ws. slice f (fst w) (length (snd w)) = snd w" using put_writes_same by (auto simp: f_def)
  show thesis
  proof (rule that [OF run], unfold flush_result_def Let_def, intro conjI allI impI)
    show "\<forall>w \<in> set ?ws. slice (st_file ?st') (fst w) (length (snd w)) = snd w"
      using fl by (simp add: st2_def free_to_def st1 flush_to_def with_io_def Let_def)
    show "slice (st_file ?st') a k = slice (st_file st) a k"
      if "a + k \<le> length (st_file st) \<and> (\<forall>w \<in> set ?ws. off_by a k w)" for a k
      using put_writes_disj [of a k] that by (simp add: st2_def free_to_def st1 flush_to_def with_io_def Let_def f_def)
    show "\<exists>c rest. mt_dirty_list (st_txn ?st') = c # seg 1 keep ?dl @ ?w @ rest \<and> fst c = of_nat (keep + length ?w)"
      by (intro exI [of _ ?c] exI [of _ ?r]) simp
    show "mt_dirty_room (st_txn ?st') = mt_dirty_room (st_txn st) + length ?ws" by simp
    show "st_heap ?st' h = Some (if Heap_page h \<in> snd ` set ?es then settle b else b)"
      if "st_heap st h = Some b \<and> (\<forall>e \<in> set ?es. snd e = Heap_page h \<longrightarrow> waits b)" for h b
      using heap that by (simp add: st2_def free_to_def)
  qed
qed

lemma flush_pre_io:
  assumes p: "flush_pre st keep n"
  shows "flush_pre (with_io io st) keep n" "flush_result (with_io io st) keep n st' = flush_result st keep n st'"
proof -
  let ?es = "flush_es st keep n"
  have ok: "entries_ok st ?es" using p unfolding flush_pre_def Let_def by blast
  have b: "blk (with_io io st) e = blk st e" if "e \<in> set ?es" for e
    using ok that by (auto simp: entries_ok_def blk_def)
  then have w: "page_writes (with_io io st) ?es = page_writes st ?es"
    by (simp add: page_writes_def page_write_def cong: map_cong filter_cong)
  moreover have "entries_ok (with_io io st) ?es" using ok by (simp add: entries_ok_def)
  ultimately show "flush_pre (with_io io st) keep n" using p b by (simp add: flush_pre_def Let_def)
  have f: "filter (\<lambda>e. waits (blk (with_io io st) e)) ?es = filter (\<lambda>e. waits (blk st e)) ?es" using b by (simp cong: filter_cong)
  have h: "st_heap (with_io io st) = st_heap st" "st_file (with_io io st) = st_file st" "st_txn (with_io io st) = st_txn st"
    by simp_all
  show "flush_result (with_io io st) keep n st' = flush_result st keep n st'" unfolding flush_result_def Let_def h w f ..
qed


text \<open>A dirty page 3 to be written, and page 5, which was freed again (\<open>P_LOOSE\<close>).\<close>

definition flush_block :: "u64 \<Rightarrow> u16 \<Rightarrow> bytes" where
  "flush_block pg f = set_mp_flags f (set_mp_pgno pg (replicate 64 0))"

definition flush_st :: wst where
  "flush_st = write_st\<lparr>
     st_heap := [2 \<mapsto> flush_block 3 (P_LEAF OR P_DIRTY), 3 \<mapsto> flush_block 5 (P_LEAF OR P_DIRTY OR P_LOOSE)],
     st_txn := (st_txn write_st)\<lparr>mt_dirty_list := [(2, Map_page 0), (3, Heap_page 2), (5, Heap_page 3)]\<rparr>\<rparr>"

lemma flush_st_pre: "flush_pre flush_st 0 2"
proof -
  have b: "mp_flags (flush_block pg f) = f" "mp_pgno (flush_block pg f) = pg" "length (flush_block pg f) = 64" for pg f
    by (simp_all add: flush_block_def page_simps)
  have es: "flush_es flush_st 0 2 = [(3, Heap_page 2), (5, Heap_page 3)]" by (simp add: flush_st_def seg_def)
  have k: "blk flush_st (3, Heap_page 2) = flush_block 3 (P_LEAF OR P_DIRTY)"
    "blk flush_st (5, Heap_page 3) = flush_block 5 (P_LEAF OR P_DIRTY OR P_LOOSE)"
    by (simp_all add: blk_def flush_st_def)
  have "\<not> IS_OVERFLOW (flush_block 3 (P_LEAF OR P_DIRTY))" "\<not> IS_OVERFLOW (flush_block 5 (P_LEAF OR P_DIRTY OR P_LOOSE))"
    by (simp_all add: IS_OVERFLOW_def F_ISSET_def b page_flag_defs)
  moreover have "me_psize (st_env flush_st) = 64" "\<not> has (me_flags (st_env flush_st)) MDB_WRITEMAP"
    by (simp_all add: flush_st_def write_st_def write_at_def demo_env_def has_def env_flag_defs)
  moreover have "waits (flush_block 5 (P_LEAF OR P_DIRTY OR P_LOOSE))"
    by (simp add: waits_def has_def b page_flag_defs)
  moreover have "st_heap flush_st 2 = Some (flush_block 3 (P_LEAF OR P_DIRTY))"
    "st_heap flush_st 3 = Some (flush_block 5 (P_LEAF OR P_DIRTY OR P_LOOSE))"
    "mt_dirty_list (st_txn flush_st) = [(2, Map_page 0), (3, Heap_page 2), (5, Heap_page 3)]" by (simp_all add: flush_st_def)
  ultimately show ?thesis
    unfolding flush_pre_def Let_def es by (simp add: k b entries_ok_def page_size_def page_writes_def)
qed


end
