(* ===== verification/Page_Split.thy ===== *)
theory Page_Split
  imports Page_Flush
begin

text \<open>
  Inserting a node where a cursor is: \<open>mdb_node_add\<close>, \<open>mdb_page_split\<close> for a page that has no room for it, and
  \<open>mdb_update_key\<close>. These functions take a cursor with its sub-cursor, and \<open>trk\<close>, its place in the list of
  cursors that the transaction tracks, if it is one of them: \<open>st_cursors\<close> holds those other than the one that a function
  works on, so the cursor joins them while the function works on another one.
\<close>

type_synonym loc = "page_ptr \<times> nat"
type_synonym 'a wres = "(int \<times> 'a wst_scheme \<times> mcursor) option"
type_synonym 'a lres = "(int \<times> 'a wst_scheme \<times> mcursor \<times> loc option) option"

definition MDB_APPEND :: u32 where "MDB_APPEND = 0x20000"
definition MDB_APPENDDUP :: u32 where "MDB_APPENDDUP = 0x40000"
definition MDB_SPLIT_REPLACE :: u32 where "MDB_SPLIT_REPLACE = MDB_APPENDDUP"

section \<open>Tracked cursors\<close>

definition mdb_cursor_copy :: "cursor \<Rightarrow> cursor \<Rightarrow> cursor" where
  "mdb_cursor_copy csrc cdst = (let n = mc_snum csrc in
     cdst\<lparr>mc_own := mc_own csrc, mc_dbi := mc_dbi csrc, mc_snum := n, mc_top := mc_top csrc, mc_flags := mc_flags csrc,
       mc_pg := take n (mc_pg csrc) @ drop n (mc_pg cdst), mc_ki := take n (mc_ki csrc) @ drop n (mc_ki cdst)\<rparr>)"

text \<open>
  The cursor \<open>m\<close> at its place \<open>trk\<close> among the others. A sub-cursor is tracked through its main cursor, of which
  only \<open>C_INITIALIZED\<close> matters then (in \<open>WITH_CURSOR_TRACKING\<close> it is a dummy).
\<close>

definition as_tracked :: "mcursor \<Rightarrow> mcursor" where
  "as_tracked m =
     (if has (mc_flags (fst m)) C_SUB
      then (raw_cursor\<lparr>mc_dbi := mc_dbi (fst m), mc_flags := C_INITIALIZED\<rparr>, Some (fst m)) else m)"

definition push_cursor :: "nat option \<Rightarrow> mcursor \<Rightarrow> 'a wst_scheme \<Rightarrow> 'a wst_scheme" where
  "push_cursor trk m st =
     (case trk of
        None \<Rightarrow> st
      | Some p \<Rightarrow> st\<lparr>st_cursors := take p (st_cursors st) @ as_tracked m # drop p (st_cursors st)\<rparr>)"

definition pop_cursor :: "nat option \<Rightarrow> mcursor \<Rightarrow> 'a wst_scheme \<Rightarrow> ('a wst_scheme \<times> mcursor) option" where
  "pop_cursor trk m st =
     (case trk of
        None \<Rightarrow> Some (st, m)
      | Some p \<Rightarrow> do {
          m' \<leftarrow> aget (st_cursors st) p;
          let st = st\<lparr>st_cursors := take p (st_cursors st) @ drop (p + 1) (st_cursors st)\<rparr>;
          if has (mc_flags (fst m)) C_SUB then map_option (\<lambda>mx. (st, (mx, None))) (snd m') else Some (st, m') })"

text \<open>A copy of a cursor shares the database record with it.\<close>

definition share :: "cursor \<Rightarrow> mcursor \<Rightarrow> mcursor" where
  "share mn m = ((fst m)\<lparr>mc_own := mc_own mn\<rparr>, snd m)"

text \<open>\<open>f\<close> for \<open>m3\<close>: the tracked cursor \<open>m2\<close>, or its sub-cursor when \<open>mc\<close> is one. \<open>f\<close> gets the flags of \<open>m2\<close> as well.\<close>

definition on_m3 :: "cursor \<Rightarrow> (u32 \<Rightarrow> mcursor \<Rightarrow> mcursor option) \<Rightarrow> mcursor \<Rightarrow> mcursor option" where
  "on_m3 mc f m2 =
     (if has (mc_flags mc) C_SUB then do {
        mx \<leftarrow> snd m2;
        (mx, _) \<leftarrow> f (mc_flags (fst m2)) (mx, None);
        Some (fst m2, Some mx) }
      else f (mc_flags (fst m2)) m2)"

definition refresh_at :: "'a st_scheme \<Rightarrow> nat \<Rightarrow> mcursor \<Rightarrow> mcursor option" where
  "refresh_at st lv m =
     (if \<not> XCURSOR_INITED m then Some m
      else do {
        p \<leftarrow> pg_at (fst m) lv;
        b \<leftarrow> page_at st p;
        XCURSOR_REFRESH m lv p b })"

definition set_pg :: "cursor \<Rightarrow> nat \<Rightarrow> page_ptr option \<Rightarrow> cursor option" where
  "set_pg mc i p = do { pg \<leftarrow> aset (mc_pg mc) i p; Some (mc\<lparr>mc_pg := pg\<rparr>) }"

definition set_ki_at :: "cursor \<Rightarrow> nat \<Rightarrow> nat \<Rightarrow> cursor option" where
  "set_ki_at mc i k = do { ki \<leftarrow> aset (mc_ki mc) i (k mod 2 ^ 16); Some (mc\<lparr>mc_ki := ki\<rparr>) }"

text \<open>The first \<open>n\<close> levels of \<open>mc\<close> become those of \<open>mn\<close>.\<close>

definition take_levels :: "nat \<Rightarrow> cursor \<Rightarrow> cursor \<Rightarrow> cursor" where
  "take_levels n mn mc = mc\<lparr>mc_pg := take n (mc_pg mn) @ drop n (mc_pg mc), mc_ki := take n (mc_ki mn) @ drop n (mc_ki mc)\<rparr>"

section \<open>\<open>mdb_node_add\<close>\<close>

text \<open>
  The last result is the place that \<open>MDB_RESERVE\<close> leaves to the caller.
\<close>

definition node_add_overflow ::
    "'a wst_scheme \<Rightarrow> cursor \<Rightarrow> page_ptr \<Rightarrow> bytes \<Rightarrow> nat \<Rightarrow> bytes option \<Rightarrow> dataval \<Rightarrow> u64 \<Rightarrow> u32 \<Rightarrow> nat \<Rightarrow> nat \<Rightarrow>
     (int \<times> 'a wst_scheme \<times> cursor \<times> loc option) option" where
  "node_add_overflow st mc mptr mp indx key data pgno flags ovpages node_size = do {
     (rc, st, mc, ofp) \<leftarrow> mdb_page_new st mc (ucast P_OVERFLOW) ovpages;
     if rc \<noteq> 0 then Some (rc, st, mc, None)
     else do {
       ofp \<leftarrow> ofp;
       ob \<leftarrow> page_at st ofp;
       (mp, _) \<leftarrow> node_add_update mp indx key (Some data) pgno (flags OR F_BIGDATA) node_size (Some (mp_pgno ob));
       st \<leftarrow> put_page st mptr mp;
       if F_ISSET flags MDB_RESERVE then Some (MDB_SUCCESS, st, mc, Some (ofp, PAGEHDRSZ))
       else do {
         bs \<leftarrow> get_bytes (mv_data data) 0 (mv_size data);
         ob \<leftarrow> put_bytes ob PAGEHDRSZ bs;
         st \<leftarrow> put_page st ofp ob;
         Some (MDB_SUCCESS, st, mc, None) } } }"

definition mdb_node_add ::
    "'a wst_scheme \<Rightarrow> cursor \<Rightarrow> nat \<Rightarrow> bytes option \<Rightarrow> dataval option \<Rightarrow> u64 \<Rightarrow> u32 \<Rightarrow>
     (int \<times> 'a wst_scheme \<times> cursor \<times> loc option) option" where
  "mdb_node_add st mc indx key data pgno flags = do {
     mptr \<leftarrow> pg_at mc (mc_top mc);
     mp \<leftarrow> page_at st mptr;
     if mp_upper mp < mp_lower mp then None
     else if IS_LEAF2 mp then do {
       d \<leftarrow> mc_db st mc;
       k \<leftarrow> key;
       mp \<leftarrow> node_add_leaf2 mp indx k (unat (md_pad d));
       st \<leftarrow> put_page st mptr mp;
       Some (MDB_SUCCESS, st, mc, None) }
     else do {
       plan \<leftarrow> node_add_plan (me_nodemax (st_env st)) (me_psize (st_env st)) mp key data flags;
       case plan of
         Add_full \<Rightarrow> Some (MDB_PAGE_FULL, txn_error st, mc, None)
       | Add_fits n \<Rightarrow> do {
           (mp, r) \<leftarrow> node_add_update mp indx key data pgno flags n None;
           st \<leftarrow> put_page st mptr mp;
           Some (MDB_SUCCESS, st, mc, map_option (Pair mptr) r) }
       | Add_overflow ovpages n \<Rightarrow> do {
           data \<leftarrow> data;
           node_add_overflow st mc mptr mp indx key data pgno flags ovpages n } } }"

text \<open>\<open>mdb_node_del\<close> at the cursor.\<close>

definition cursor_node_del :: "'a wst_scheme \<Rightarrow> cursor \<Rightarrow> nat \<Rightarrow> 'a wst_scheme option" where
  "cursor_node_del st mc ksize = do {
     mptr \<leftarrow> pg_at mc (mc_top mc);
     mp \<leftarrow> page_at st mptr;
     k \<leftarrow> ki_at mc;
     mp \<leftarrow> mdb_node_del mp k ksize;
     put_page st mptr mp }"

section \<open>\<open>mdb_page_split\<close>\<close>

text \<open>The local variables: \<open>mn\<close> is the cursor for the right sibling \<open>rp\<close> of \<open>mp\<close>, \<open>copy\<close> the temporary page.\<close>

record split_loc =
  sl_mp :: page_ptr
  sl_rp :: page_ptr
  sl_copy :: "page_ptr option"
  sl_mn :: cursor
  sl_ptop :: nat
  sl_root :: nat
  sl_newindx :: nat
  sl_split :: nat
  sl_nkeys :: nat
  sl_sepkey :: bytes

text \<open>The right sibling.\<close>

definition split_sibling :: "'a wst_scheme \<Rightarrow> cursor \<Rightarrow> (int \<times> 'a wst_scheme \<times> cursor \<times> page_ptr option) option" where
  "split_sibling st mc = do {
     mp \<leftarrow> top_page st mc;
     (rc, st, mc, rp) \<leftarrow> mdb_page_new st mc (ucast (mp_flags mp)) 1;
     if rc \<noteq> 0 then Some (rc, st, mc, None)
     else do {
       rp \<leftarrow> rp;
       st \<leftarrow> upd_page st rp (set_mp_pad (mp_pad mp));
       Some (0, st, mc, Some rp) } }"

text \<open>A new root above \<open>mp\<close>, when that is the root. The last results are \<open>new_root\<close> and \<open>ptop\<close>.\<close>

definition split_root ::
    "'a wst_scheme \<Rightarrow> cursor \<Rightarrow> page_ptr \<Rightarrow> (int \<times> 'a wst_scheme \<times> cursor \<times> nat \<times> nat) option" where
  "split_root st mc mp =
     (if mc_top mc \<ge> 1 then Some (0, st, mc, 0, mc_top mc - 1)
      else do {
        (rc, st, mc, pp) \<leftarrow> mdb_page_new st mc (ucast P_BRANCH) 1;
        if rc \<noteq> 0 then Some (rc, st, mc, 0, 0)
        else do {
          pp \<leftarrow> pp;
          pb \<leftarrow> page_at st pp;
          mb \<leftarrow> page_at st mp;
          pg \<leftarrow> shift_up (mc_pg mc) (mc_snum mc) 0;
          ki \<leftarrow> shift_up (mc_ki mc) (mc_snum mc) 0;
          mc \<leftarrow> set_pg (mc\<lparr>mc_pg := pg, mc_ki := ki\<rparr>) 0 (Some pp);
          mc \<leftarrow> set_ki_at mc 0 0;
          d \<leftarrow> mc_db st mc;
          let new_root = unat (md_depth d);
          (st, mc) \<leftarrow> upd_mc_db st mc (\<lambda>d. d\<lparr>md_root := mp_pgno pb, md_depth := md_depth d + 1\<rparr>);
          (rc, st, mc, _) \<leftarrow> mdb_node_add st mc 0 None None (mp_pgno mb) 0;
          if rc \<noteq> 0 then do {
            p1 \<leftarrow> aget (mc_pg mc) 1;
            k1 \<leftarrow> aget (mc_ki mc) 1;
            mc \<leftarrow> set_pg mc 0 p1;
            mc \<leftarrow> set_ki_at mc 0 k1;
            (st, mc) \<leftarrow> upd_mc_db st mc (\<lambda>d. d\<lparr>md_root := mp_pgno mb, md_depth := md_depth d - 1\<rparr>);
            Some (rc, st, mc, new_root, 0) }
          else Some (0, st, mc\<lparr>mc_snum := mc_snum mc + 1, mc_top := mc_top mc + 1\<rparr>, new_root, 0) } })"

text \<open>
  Fixed-size keys: half of them move from \<open>mp\<close> to \<open>rp\<close>, and the new one goes in. The results are the two pages,
  the separator and the index of the cursor.
\<close>

definition wrap16 :: "int \<Rightarrow> nat" where
  "wrap16 i = nat (i mod 2 ^ 16)"

definition split_leaf2 ::
    "bytes \<Rightarrow> bytes \<Rightarrow> nat \<Rightarrow> nat \<Rightarrow> nat \<Rightarrow> nat \<Rightarrow> bytes \<Rightarrow> (bytes \<times> bytes \<times> bytes \<times> nat) option" where
  "split_leaf2 mp rp idx split_indx nkeys ksize newkey = (
     let split = LEAF2KEY split_indx ksize;
         rsize = (nkeys - split_indx) * ksize;
         lsize = (nkeys - split_indx) * 2;
         d = int rsize - int lsize;
         mp = set_mp_lower (sub16 (mp_lower mp) lsize) mp;
         rp = set_mp_lower (mp_lower rp + lsize) rp;
         mp = set_mp_upper (wrap16 (int (mp_upper mp) + d)) mp;
         rp = set_mp_upper (wrap16 (int (mp_upper rp) - d)) rp
     in if idx < split_indx then do {
          let ins = LEAF2KEY idx ksize;
          half \<leftarrow> get_bytes mp split rsize;
          rp \<leftarrow> put_bytes rp PAGEHDRSZ half;
          sepkey \<leftarrow> get_bytes rp PAGEHDRSZ ksize;
          mp \<leftarrow> move_bytes mp (ins + ksize) ins ((split_indx - idx) * ksize);
          k \<leftarrow> get_bytes newkey 0 ksize;
          mp \<leftarrow> put_bytes mp ins k;
          let mp = set_mp_lower (mp_lower mp + 2) mp;
          Some (set_mp_upper (wrap16 (int (mp_upper mp) - (int ksize - 2))) mp, rp, sepkey, idx) }
        else do {
          let x = idx - split_indx;
          let ins = LEAF2KEY x ksize;
          k \<leftarrow> get_bytes newkey 0 ksize;
          sepkey \<leftarrow> (if x = 0 then Some k else get_bytes mp split ksize);
          below \<leftarrow> get_bytes mp split (x * ksize);
          rp \<leftarrow> put_bytes rp PAGEHDRSZ below;
          rp \<leftarrow> put_bytes rp ins k;
          above \<leftarrow> (if rsize < x * ksize then None else get_bytes mp (split + x * ksize) (rsize - x * ksize));
          rp \<leftarrow> put_bytes rp (ins + ksize) above;
          let rp = set_mp_lower (mp_lower rp + 2) rp;
          Some (mp, set_mp_upper (wrap16 (int (mp_upper rp) - (int ksize - 2))) rp, sepkey, x) })"

text \<open>The slots of \<open>mp\<close>, with an empty one for the new node, go to \<open>copy\<close>.\<close>

fun copy_slots :: "bytes \<Rightarrow> bytes \<Rightarrow> nat \<Rightarrow> nat \<Rightarrow> nat \<Rightarrow> nat \<Rightarrow> bytes option" where
  "copy_slots mp copy i j newindx 0 = Some copy"
| "copy_slots mp copy i j newindx (Suc k) = do {
     (copy, j) \<leftarrow> (if i = newindx then do { copy \<leftarrow> set_mp_ptr copy j 0; Some (copy, j + 1) } else Some (copy, j));
     v \<leftarrow> mp_ptr mp i;
     copy \<leftarrow> set_mp_ptr copy j v;
     copy_slots mp copy (i + 1) (j + 1) newindx k }"

definition copy_header :: "nat \<Rightarrow> bytes \<Rightarrow> bytes \<Rightarrow> bytes" where
  "copy_header psize mp copy =
     set_mp_upper psize (set_mp_lower PAGEHDRSZ (set_mp_flags (mp_flags mp) (set_mp_pgno (mp_pgno mp) copy)))"

text \<open>The size of the nodes so far with that of slot \<open>i\<close>.\<close>

definition add_space :: "bytes \<Rightarrow> bytes \<Rightarrow> nat \<Rightarrow> nat \<Rightarrow> nat \<Rightarrow> nat \<Rightarrow> nat option" where
  "add_space mp copy newindx nsize i psize =
     (if i = newindx then Some (psize + nsize)
      else do {
        node \<leftarrow> mp_ptr copy i;
        ks \<leftarrow> NODEKSZ mp node;
        let psize = psize + NODESIZE + ks + 2;
        if IS_LEAF mp then do {
          f \<leftarrow> mn_flags mp node;
          d \<leftarrow> (if F_ISSET f (ucast F_BIGDATA) then Some 8 else NODEDSZ mp node);
          Some (EVEN (psize + d)) }
        else Some (EVEN psize) })"

text \<open>The loop from slot \<open>i\<close> on, upwards or downwards, for \<open>k\<close> slots.\<close>

fun split_point :: "bytes \<Rightarrow> bytes \<Rightarrow> nat \<Rightarrow> nat \<Rightarrow> nat \<Rightarrow> bool \<Rightarrow> nat \<Rightarrow> nat \<Rightarrow> nat \<Rightarrow> nat option option" where
  "split_point mp copy newindx nsize pmax up i psize 0 = Some None"
| "split_point mp copy newindx nsize pmax up i psize (Suc k) = do {
     psize \<leftarrow> add_space mp copy newindx nsize i psize;
     if psize > pmax \<or> k = 0 then Some (Some (if up then i else i + 1))
     else split_point mp copy newindx nsize pmax up (if up then i + 1 else i - 1) psize k }"

definition split_index :: "bytes \<Rightarrow> bytes \<Rightarrow> nat \<Rightarrow> nat \<Rightarrow> nat \<Rightarrow> nat \<Rightarrow> nat option" where
  "split_index mp copy newindx nkeys nsize pmax = (
     let split_indx = (nkeys + 1) div 2 in
     if nkeys < 32 \<or> nsize > pmax div 16 \<or> newindx \<ge> nkeys then do {
       r \<leftarrow>
         (if newindx \<le> split_indx \<or> newindx \<ge> nkeys then
            split_point mp copy newindx nsize pmax True 0 0
              (if newindx \<ge> nkeys then nkeys else split_indx + 1 + (if IS_LEAF mp then 1 else 0))
          else split_point mp copy newindx nsize pmax False nkeys 0 (nkeys + 1 - split_indx));
       Some (case r of None \<Rightarrow> split_indx | Some i \<Rightarrow> i) }
     else Some split_indx)"

text \<open>The branch of \<open>mdb_page_split\<close> for pages of nodes, up to the separator.\<close>

definition split_nodes ::
    "'a wst_scheme \<Rightarrow> cursor \<Rightarrow> split_loc \<Rightarrow> bytes \<Rightarrow> dataval option \<Rightarrow> (int \<times> 'a wst_scheme \<times> cursor \<times> split_loc) option" where
  "split_nodes st mc s newkey newdata = do {
     let psize = me_psize (st_env st);
     mp \<leftarrow> page_at st (sl_mp s);
     nsize \<leftarrow>
       (if IS_LEAF mp then do { d \<leftarrow> newdata; Some (mdb_leaf_size (me_nodemax (st_env st)) newkey (mv_size d)) }
        else Some (mdb_branch_size (Some newkey)));
     (case mdb_page_malloc st 1 of
        (st, None) \<Rightarrow> Some (ENOMEM, st, mc, s)
      | (st, Some copy) \<Rightarrow> do {
          cb \<leftarrow> page_at st copy;
          cb \<leftarrow> copy_slots mp (copy_header psize mp cb) 0 0 (sl_newindx s) (sl_nkeys s);
          st \<leftarrow> put_page st copy cb;
          i \<leftarrow> split_index mp cb (sl_newindx s) (sl_nkeys s) (EVEN nsize) (psize - PAGEHDRSZ);
          sepkey \<leftarrow> (if i = sl_newindx s then Some newkey else do { node \<leftarrow> mp_ptr cb i; node_key mp node });
          Some (0, st, mc, s\<lparr>sl_copy := Some copy, sl_split := i, sl_sepkey := sepkey\<rparr>) }) }"

text \<open>Everything up to the separator key.\<close>

definition split_prepare ::
    "'a wst_scheme \<Rightarrow> cursor \<Rightarrow> page_ptr \<Rightarrow> bytes \<Rightarrow> dataval option \<Rightarrow> u32 \<Rightarrow>
     (int \<times> 'a wst_scheme \<times> cursor \<times> split_loc) option" where
  "split_prepare st mc rp newkey newdata nflags = do {
     mp \<leftarrow> pg_at mc (mc_top mc);
     newindx \<leftarrow> ki_at mc;
     mb \<leftarrow> page_at st mp;
     let s = \<lparr>sl_mp = mp, sl_rp = rp, sl_copy = None, sl_mn = raw_cursor, sl_ptop = 0, sl_root = 0, sl_newindx = newindx,
       sl_split = 0, sl_nkeys = NUMKEYS mb, sl_sepkey = []\<rparr>;
     (rc, st, mc, new_root, ptop) \<leftarrow> split_root st mc mp;
     if rc \<noteq> 0 then Some (rc, st, mc, s)
     else do {
       let mn = mdb_cursor_copy mc raw_cursor;
       mn \<leftarrow> set_pg mn (mc_top mn) (Some rp);
       k \<leftarrow> aget (mc_ki mc) ptop;
       mn \<leftarrow> set_ki_at mn ptop (k + 1);
       let s = s\<lparr>sl_mn := mn, sl_ptop := ptop, sl_root := new_root\<rparr>;
       if has nflags MDB_APPEND then do {
         mn \<leftarrow> set_ki mn 0;
         Some (0, st, mc, s\<lparr>sl_mn := mn, sl_sepkey := newkey, sl_split := newindx, sl_nkeys := 0\<rparr>) }
       else do {
         rb \<leftarrow> page_at st rp;
         if IS_LEAF2 rb then do {
           let i = (sl_nkeys s + 1) div 2;
           d \<leftarrow> mc_db st mc;
           mb \<leftarrow> page_at st mp;
           (mb, rb, sepkey, k) \<leftarrow> split_leaf2 mb rb newindx i (sl_nkeys s) (unat (md_pad d)) newkey;
           st \<leftarrow> put_page st mp mb;
           st \<leftarrow> put_page st rp rb;
           mc \<leftarrow> set_ki mc k;
           Some (0, st, mc, s\<lparr>sl_split := i, sl_sepkey := sepkey\<rparr>) }
         else split_nodes st mc s newkey newdata } } }"

text \<open>Whether the parent has room for the separator.\<close>

definition parent_has_room :: "'a wst_scheme \<Rightarrow> split_loc \<Rightarrow> bool option" where
  "parent_has_room st s = do {
     pp \<leftarrow> page_of st (sl_mn s) (sl_ptop s);
     Some (\<not> SIZELEFT pp < mdb_branch_size (Some (sl_sepkey s))) }"

definition split_insert_sep ::
    "'a wst_scheme \<Rightarrow> mcursor \<Rightarrow> split_loc \<Rightarrow> (int \<times> 'a wst_scheme \<times> mcursor \<times> split_loc) option" where
  "split_insert_sep st m s = do {
     let mn = sl_mn s;
     rb \<leftarrow> page_at st (sl_rp s);
     k \<leftarrow> aget (mc_ki mn) (sl_ptop s);
     (rc, st, mn', _) \<leftarrow> mdb_node_add st (mn\<lparr>mc_top := mc_top mn - 1\<rparr>) k (Some (sl_sepkey s)) None (mp_pgno rb) 0;
     let mn = mn'\<lparr>mc_top := mc_top mn\<rparr>;
     Some (rc, st, share mn m, s\<lparr>sl_mn := mn\<rparr>) }"

text \<open>
  After the parent was split too, with the result \<open>rc\<close>: the right page may have another parent now, and
  then the left page perhaps as well. \<open>snum\<close> is the height of \<open>mc\<close> before.
\<close>

definition split_follow ::
    "int \<Rightarrow> 'a wst_scheme \<Rightarrow> mcursor \<Rightarrow> cursor \<Rightarrow> nat \<Rightarrow> split_loc \<Rightarrow> (int \<times> 'a wst_scheme \<times> mcursor \<times> split_loc) option" where
  "split_follow rc st m mn snum s = do {
     let (mc, mx) = share mn m;
     let s = s\<lparr>sl_mn := mn\<rparr>;
     if rc \<noteq> 0 then Some (rc, st, (mc, mx), s)
     else do {
       let ptop = (if mc_snum mc > snum then sl_ptop s + 1 else sl_ptop s);
       let s = s\<lparr>sl_ptop := ptop\<rparr>;
       np \<leftarrow> pg_at mn ptop;
       p \<leftarrow> pg_at mc ptop;
       pb \<leftarrow> page_at st p;
       k \<leftarrow> aget (mc_ki mc) ptop;
       if np \<noteq> p \<and> k \<ge> NUMKEYS pb then do {
         let mc = take_levels ptop mn mc;
         mc \<leftarrow> set_pg mc ptop (Some np);
         nk \<leftarrow> aget (mc_ki mn) ptop;
         if nk \<noteq> 0 then do {
           mc \<leftarrow> set_ki_at mc ptop (nk - 1);
           Some (0, st, (mc, mx), s) }
         else do {
           mc \<leftarrow> set_ki_at mc ptop nk;
           (rc, st, mc) \<leftarrow> mdb_cursor_sibling st mc False;
           Some (rc, st, (mc, mx), s) } }
       else Some (0, st, (mc, mx), s) } }"

text \<open>The cursor goes to the right page.\<close>

definition go_right :: "'a wst_scheme \<Rightarrow> cursor \<Rightarrow> split_loc \<Rightarrow> cursor option" where
  "go_right st mc s = do {
     let mn = sl_mn s;
     let ptop = sl_ptop s;
     mc \<leftarrow> set_pg mc (mc_top mc) (Some (sl_rp s));
     k \<leftarrow> aget (mc_ki mc) ptop;
     mc \<leftarrow> set_ki_at mc ptop (k + 1);
     np \<leftarrow> pg_at mn ptop;
     p \<leftarrow> pg_at mc ptop;
     pb \<leftarrow> page_at st p;
     k \<leftarrow> aget (mc_ki mc) ptop;
     Some (if np \<noteq> p \<and> k \<ge> NUMKEYS pb then take_levels (ptop + 1) mn mc else mc) }"

text \<open>
  The loop that moves the nodes: those from the split point on to \<open>rp\<close>, then the others to \<open>copy\<close>; the new
  one is at \<open>newindx\<close>. A loop that goes on after \<open>fuel\<close> rounds does not end.
\<close>

fun split_move ::
    "nat \<Rightarrow> 'a wst_scheme \<Rightarrow> cursor \<Rightarrow> split_loc \<Rightarrow> bytes \<Rightarrow> dataval option \<Rightarrow> u64 \<Rightarrow> u32 \<Rightarrow> nat \<Rightarrow> nat \<Rightarrow> loc option \<Rightarrow>
     (int \<times> 'a wst_scheme \<times> cursor \<times> loc option) option" where
  "split_move 0 st mc s newkey newdata newpgno nflags i j loc = None"
| "split_move (Suc fuel) st mc s newkey newdata newpgno nflags i j loc = do {
     mp \<leftarrow> page_at st (sl_mp s);
     copy \<leftarrow> sl_copy s;
     cb \<leftarrow> page_at st copy;
     (key, data, pgno, flags, mc) \<leftarrow>
       (if i = sl_newindx s then do {
          mc \<leftarrow> set_ki mc j;
          Some (newkey, newdata, newpgno, nflags, mc) }
        else do {
          node \<leftarrow> mp_ptr cb i;
          k \<leftarrow> node_key mp node;
          f \<leftarrow> mn_flags mp node;
          if IS_LEAF mp then do {
            a \<leftarrow> NODEDATA mp node;
            sz \<leftarrow> NODEDSZ mp node;
            Some (k, Some \<lparr>mv_size = sz, mv_data = drop a mp\<rparr>, 0, ucast f, mc) }
          else do {
            pgno \<leftarrow> NODEPGNO mp node;
            Some (k, None, pgno, ucast f, mc) } });
     let key = (if \<not> IS_LEAF mp \<and> j = 0 then [] else key);
     (rc, st, mc, l) \<leftarrow> mdb_node_add st mc j (Some key) data pgno flags;
     let loc = (if i = sl_newindx s then l else loc);
     if rc \<noteq> 0 then Some (rc, st, mc, loc)
     else do {
       (i, j, mc) \<leftarrow>
         (if i = sl_nkeys s then do { mc \<leftarrow> set_pg mc (mc_top mc) (Some copy); Some (0, 0, mc) }
          else Some (i + 1, j + 1, mc));
       if i = sl_split s then Some (0, st, mc, loc)
       else split_move fuel st mc s newkey newdata newpgno nflags i j loc } }"

text \<open>The nodes that stay go back from \<open>copy\<close> to \<open>mp\<close>.\<close>

definition copy_back :: "nat \<Rightarrow> bytes \<Rightarrow> bytes \<Rightarrow> bytes option" where
  "copy_back psize mp copy = do {
     let nkeys = NUMKEYS copy;
     slots \<leftarrow> get_bytes copy PAGEHDRSZ (2 * nkeys);
     mp \<leftarrow> put_bytes mp PAGEHDRSZ slots;
     let mp = set_mp_upper (mp_upper copy) (set_mp_lower (mp_lower copy) mp);
     if nkeys = 0 \<or> psize < mp_upper copy then None
     else do {
       d \<leftarrow> NODEPTR mp (nkeys - 1);
       a \<leftarrow> NODEPTR copy (nkeys - 1);
       bs \<leftarrow> get_bytes copy a (psize - mp_upper copy);
       put_bytes mp d bs } }"

text \<open>The rest after the separator is in the parent, without the other cursors.\<close>

definition split_distribute ::
    "'a wst_scheme \<Rightarrow> cursor \<Rightarrow> split_loc \<Rightarrow> bytes \<Rightarrow> dataval option \<Rightarrow> u64 \<Rightarrow> u32 \<Rightarrow>
     (int \<times> 'a wst_scheme \<times> cursor \<times> loc option) option" where
  "split_distribute st mc s newkey newdata newpgno nflags = do {
     mp \<leftarrow> page_at st (sl_mp s);
     if has nflags MDB_APPEND then do {
       mc \<leftarrow> set_pg mc (mc_top mc) (Some (sl_rp s));
       mc \<leftarrow> set_ki mc 0;
       (rc, st, mc, loc) \<leftarrow> mdb_node_add st mc 0 (Some newkey) newdata newpgno nflags;
       if rc \<noteq> 0 then Some (rc, st, mc, loc)
       else Some (0, st, mc\<lparr>mc_ki := take (mc_top mc) (mc_ki (sl_mn s)) @ drop (mc_top mc) (mc_ki mc)\<rparr>, loc) }
     else if \<not> IS_LEAF2 mp then do {
       mc \<leftarrow> set_pg mc (mc_top mc) (Some (sl_rp s));
       (rc, st, mc, loc) \<leftarrow> split_move (sl_nkeys s + 2) st mc s newkey newdata newpgno nflags (sl_split s) 0 None;
       if rc \<noteq> 0 then Some (rc, st, mc, loc)
       else do {
         copy \<leftarrow> sl_copy s;
         cb \<leftarrow> page_at st copy;
         mp \<leftarrow> page_at st (sl_mp s);
         mp \<leftarrow> copy_back (me_psize (st_env st)) mp cb;
         st \<leftarrow> put_page st (sl_mp s) mp;
         mc \<leftarrow> (if sl_newindx s < sl_split s then set_pg mc (mc_top mc) (Some (sl_mp s)) else go_right st mc s);
         loc \<leftarrow>
           (if has nflags MDB_RESERVE then do {
              p \<leftarrow> pg_at mc (mc_top mc);
              b \<leftarrow> page_at st p;
              k \<leftarrow> ki_at mc;
              node \<leftarrow> NODEPTR b k;
              f \<leftarrow> mn_flags b node;
              a \<leftarrow> NODEDATA b node;
              Some (if has f (ucast F_BIGDATA) then loc else Some (p, a)) }
            else Some loc);
         Some (0, st, mc, loc) } }
     else do {
       mc \<leftarrow> (if sl_newindx s \<ge> sl_split s then go_right st mc s else Some mc);
       Some (0, st, mc, None) } }"

text \<open>A tracked cursor after the split; \<open>nkeys\<close> is the number of nodes left in \<open>mp\<close>.\<close>

definition split_adjust_root :: "cursor \<Rightarrow> split_loc \<Rightarrow> nat \<Rightarrow> cursor \<Rightarrow> cursor option" where
  "split_adjust_root mc s nkeys m3 = do {
     ki \<leftarrow> shift_up (mc_ki m3) (sl_root s + 1) 0;
     pg \<leftarrow> shift_up (mc_pg m3) (sl_root s + 1) 0;
     k \<leftarrow> aget ki 0;
     ki \<leftarrow> aset ki 0 (if k \<ge> nkeys then 1 else 0);
     p0 \<leftarrow> aget (mc_pg mc) 0;
     pg \<leftarrow> aset pg 0 p0;
     Some (m3\<lparr>mc_ki := ki, mc_pg := pg, mc_snum := mc_snum m3 + 1, mc_top := mc_top m3 + 1\<rparr>) }"

definition split_adjust_level :: "cursor \<Rightarrow> split_loc \<Rightarrow> bool \<Rightarrow> u32 \<Rightarrow> nat \<Rightarrow> cursor \<Rightarrow> cursor option" where
  "split_adjust_level mc s did_split nflags nkeys m3 = do {
     let top = mc_top mc;
     let ptop = sl_ptop s;
     p \<leftarrow> (if mc_top m3 \<ge> top then aget (mc_pg m3) top else Some None);
     if p = Some (sl_mp s) then do {
       k \<leftarrow> aget (mc_ki m3) top;
       let k = (if k \<ge> sl_newindx s \<and> \<not> has nflags MDB_SPLIT_REPLACE then k + 1 else k);
       m3 \<leftarrow> set_ki_at m3 top k;
       if k \<ge> nkeys then do {
         m3 \<leftarrow> set_pg m3 top (Some (sl_rp s));
         m3 \<leftarrow> set_ki_at m3 top (k - nkeys);
         Some (take_levels top (sl_mn s) m3) }
       else Some m3 }
     else if \<not> did_split \<and> mc_top m3 \<ge> ptop then do {
       p \<leftarrow> aget (mc_pg m3) ptop;
       q \<leftarrow> aget (mc_pg mc) ptop;
       k \<leftarrow> aget (mc_ki m3) ptop;
       k0 \<leftarrow> aget (mc_ki mc) ptop;
       if p = q \<and> k \<ge> k0 then set_ki_at m3 ptop (k + 1) else Some m3 }
     else Some m3 }"

definition split_adjust ::
    "'a wst_scheme \<Rightarrow> cursor \<Rightarrow> split_loc \<Rightarrow> bool \<Rightarrow> u32 \<Rightarrow> nat \<Rightarrow> bool \<Rightarrow> u32 \<Rightarrow> mcursor \<Rightarrow> mcursor option" where
  "split_adjust st mc s did_split nflags nkeys leaf f2 m = (
     let m3 = fst m in
     if \<not> has (f2 AND mc_flags m3) C_INITIALIZED then Some m
     else do {
       p0 \<leftarrow> (if sl_root s \<noteq> 0 then aget (mc_pg m3) 0 else Some (Some (sl_mp s)));
       if p0 \<noteq> Some (sl_mp s) then Some m
       else do {
         m3 \<leftarrow> (if sl_root s \<noteq> 0 then split_adjust_root mc s nkeys m3 else Some m3);
         m3 \<leftarrow> split_adjust_level mc s did_split nflags nkeys m3;
         if leaf then refresh_at st (mc_top mc) (m3, snd m) else Some (m3, snd m) } })"

text \<open>The label \<open>done\<close>.\<close>

definition split_done :: "int \<Rightarrow> 'a wst_scheme \<Rightarrow> mcursor \<Rightarrow> split_loc \<Rightarrow> loc option \<Rightarrow> 'a lres" where
  "split_done rc st m s loc = do {
     st \<leftarrow> (case sl_copy s of None \<Rightarrow> Some st | Some copy \<Rightarrow> mdb_page_free st copy);
     Some (rc, if rc \<noteq> 0 then txn_error st else st, m, loc) }"

definition split_finish ::
    "'a wst_scheme \<Rightarrow> mcursor \<Rightarrow> split_loc \<Rightarrow> bool \<Rightarrow> bytes \<Rightarrow> dataval option \<Rightarrow> u64 \<Rightarrow> u32 \<Rightarrow> 'a lres" where
  "split_finish st m s did_split newkey newdata newpgno nflags = do {
     (rc, st, mc, loc) \<leftarrow> split_distribute st (fst m) s newkey newdata newpgno nflags;
     if rc \<noteq> 0 then split_done rc st (mc, snd m) s loc
     else do {
       mp \<leftarrow> page_at st (sl_mp s);
       st' \<leftarrow> upd_cursors st (mc_dbi mc) (on_m3 mc (split_adjust st mc s did_split nflags (NUMKEYS mp) (IS_LEAF mp)));
       split_done 0 st' (mc, snd m) s loc } }"

text \<open>The parent is split one level up, with \<open>mn\<close> tracked and \<open>mc\<close> among the other cursors if it is tracked.\<close>

partial_function (option) mdb_page_split ::
    "'a wst_scheme \<Rightarrow> mcursor \<Rightarrow> nat option \<Rightarrow> bytes \<Rightarrow> dataval option \<Rightarrow> u64 \<Rightarrow> u32 \<Rightarrow> 'a lres" where
  "mdb_page_split st m trk newkey newdata newpgno nflags = do {
     (rc, st, mc, rp) \<leftarrow> split_sibling st (fst m);
     if rc \<noteq> 0 then Some (rc, st, (mc, snd m), None)
     else do {
       rp \<leftarrow> rp;
       (rc, st, mc, s) \<leftarrow> split_prepare st mc rp newkey newdata nflags;
       if rc \<noteq> 0 then split_done rc st (mc, snd m) s None
       else do {
         room \<leftarrow> parent_has_room st s;
         (rc, st, m, s) \<leftarrow>
           (if \<not> room then do {
              rb \<leftarrow> page_at st rp;
              let mn = sl_mn s;
              let mn = mn\<lparr>mc_snum := mc_snum mn - 1, mc_top := mc_top mn - 1\<rparr>;
              (rc, st, mn, _) \<leftarrow> mdb_page_split (push_cursor trk (mc, snd m) st) (mn, None) (Some 0) (sl_sepkey s) None (mp_pgno rb) 0;
              (st, m) \<leftarrow> pop_cursor trk (mc, snd m) st;
              split_follow rc st m (fst mn) (mc_snum mc) s }
            else split_insert_sep st (mc, snd m) s);
         if rc \<noteq> 0 then split_done (if rc = MDB_NOTFOUND then MDB_PROBLEM else rc) st m s None
         else split_finish st m s (\<not> room) newkey newdata newpgno nflags } } }"

section \<open>\<open>mdb_update_key\<close>\<close>

fun update_key_ptrs :: "bytes \<Rightarrow> nat \<Rightarrow> nat \<Rightarrow> int \<Rightarrow> nat \<Rightarrow> bytes option" where
  "update_key_ptrs mp i ptr delta 0 = Some mp"
| "update_key_ptrs mp i ptr delta (Suc k) = do {
     v \<leftarrow> mp_ptr mp i;
     mp \<leftarrow> (if v \<le> ptr then set_mp_ptr mp i (wrap16 (int v - delta)) else Some mp);
     update_key_ptrs mp (i + 1) ptr delta k }"

text \<open>The contents of the nodes up to \<open>ptr\<close> are moved by \<open>delta\<close>.\<close>

definition shift_nodes :: "bytes \<Rightarrow> nat \<Rightarrow> int \<Rightarrow> bytes option" where
  "shift_nodes mp ptr delta = do {
     mp \<leftarrow> update_key_ptrs mp 0 ptr delta (NUMKEYS mp mod 2 ^ 16);
     let base = mp_upper mp;
     if ptr + NODESIZE < base \<or> int base < delta then None
     else do {
       mp \<leftarrow> move_bytes mp (nat (int base - delta)) base (ptr + NODESIZE - base);
       Some (set_mp_upper (wrap16 (int (mp_upper mp) - delta)) mp) } }"

definition store_key :: "bytes \<Rightarrow> nat \<Rightarrow> bytes \<Rightarrow> bytes option" where
  "store_key mp indx key = do {
     node \<leftarrow> NODEPTR mp indx;
     ks \<leftarrow> mn_ksize mp node;
     mp \<leftarrow> (if ks \<noteq> length key then store mp (node + 6) 2 (length key) else Some mp);
     if length key \<noteq> 0 then put_bytes mp (NODEKEY node) key else Some mp }"

definition mdb_update_key :: "'a wst_scheme \<Rightarrow> mcursor \<Rightarrow> nat option \<Rightarrow> bytes \<Rightarrow> 'a wres" where
  "mdb_update_key st m trk key = do {
     indx \<leftarrow> ki_at (fst m);
     mptr \<leftarrow> pg_at (fst m) (mc_top (fst m));
     mp \<leftarrow> page_at st mptr;
     node \<leftarrow> NODEPTR mp indx;
     ks \<leftarrow> mn_ksize mp node;
     let delta = int (EVEN (length key)) - int (EVEN ks);
     if delta > 0 \<and> int (SIZELEFT mp) < delta then do {
       pgno \<leftarrow> NODEPGNO mp node;
       st \<leftarrow> cursor_node_del st (fst m) 0;
       (rc, st, m, _) \<leftarrow> mdb_page_split st m trk key None pgno MDB_SPLIT_REPLACE;
       Some (rc, st, m) }
     else do {
       mp \<leftarrow> (if delta \<noteq> 0 then shift_nodes mp node delta else Some mp);
       mp \<leftarrow> store_key mp indx key;
       st \<leftarrow> put_page st mptr mp;
       Some (MDB_SUCCESS, st, m) } }"

end
