(* ===== verification/Rebalance.thy ===== *)
theory Rebalance
  imports Page_Split Cursor_Get
begin

text \<open>
  Deleting a node and restoring the fill of the pages: \<open>mdb_node_move\<close>, \<open>mdb_page_merge\<close>, \<open>mdb_rebalance\<close> and
  \<open>mdb_cursor_del0\<close>. Of two cursors the one that a call does not work on joins the tracked ones, if it is tracked.
\<close>

section \<open>Two cursors\<close>

type_synonym 'a wres2 = "(int \<times> 'a wst_scheme \<times> mcursor \<times> mcursor) option"

text \<open>\<open>f\<close> works on one cursor, beside \<open>other\<close>.\<close>

definition beside :: "nat option \<Rightarrow> mcursor \<Rightarrow> 'a wst_scheme \<Rightarrow> ('a wst_scheme \<Rightarrow> 'a wres) \<Rightarrow> 'a wres2" where
  "beside trk other st f = do {
     (rc, st, m) \<leftarrow> f (push_cursor trk other st);
     (st, other) \<leftarrow> pop_cursor trk other st;
     Some (rc, st, m, share (fst m) other) }"

text \<open>\<open>f\<close> works on a third cursor, beside \<open>csrc\<close> and \<open>cdst\<close>.\<close>

definition beside2 ::
    "nat option \<Rightarrow> mcursor \<Rightarrow> nat option \<Rightarrow> mcursor \<Rightarrow> 'a wst_scheme \<Rightarrow> ('a wst_scheme \<Rightarrow> 'a wres) \<Rightarrow> 'a wres2" where
  "beside2 ts csrc td cdst st f = do {
     (rc, st, m, csrc) \<leftarrow> beside ts csrc (push_cursor td cdst st) f;
     (st, cdst) \<leftarrow> pop_cursor td cdst st;
     Some (rc, st, csrc, share (fst m) cdst) }"

definition touch_m :: "mcursor \<Rightarrow> 'a wst_scheme \<Rightarrow> 'a wres" where
  "touch_m m st = do {
     (rc, st, mc) \<leftarrow> mdb_page_touch st (fst m);
     Some (rc, st, (mc, snd m)) }"

definition update_key_m :: "nat option \<Rightarrow> mcursor \<Rightarrow> bytes \<Rightarrow> 'a wst_scheme \<Rightarrow> 'a wres" where
  "update_key_m trk m key st = mdb_update_key st m trk key"

text \<open>The key of the first node on top.\<close>

definition first_key :: "'a st_scheme \<Rightarrow> cursor \<Rightarrow> bytes option" where
  "first_key st mc = do {
     mp \<leftarrow> top_page st mc;
     if IS_LEAF2 mp then do {
       d \<leftarrow> mc_db st mc;
       get_bytes mp (LEAF2KEY 0 (unat (md_pad d))) (unat (md_pad d)) }
     else do {
       node \<leftarrow> NODEPTR mp 0;
       node_key mp node } }"

text \<open>The lowest key below the cursor, which goes down to it and comes back; \<open>[]\<close> on failure.\<close>

definition lowest_key :: "'a st_scheme \<Rightarrow> cursor \<Rightarrow> (int \<times> 'a st_scheme \<times> cursor \<times> bytes) option" where
  "lowest_key st mc = do {
     let snum = mc_snum mc;
     (rc, st, mc) \<leftarrow> mdb_page_search_lowest no_touch st mc;
     if rc \<noteq> 0 then Some (rc, st, mc, [])
     else do {
       key \<leftarrow> first_key st mc;
       Some (0, st, mc\<lparr>mc_snum := snum, mc_top := snum - 1\<rparr>, key) } }"

section \<open>\<open>mdb_node_move\<close>\<close>

text \<open>The node under the cursor: key, data, page number and flags.\<close>

definition node_to_move ::
    "'a wst_scheme \<Rightarrow> cursor \<Rightarrow> (int \<times> 'a wst_scheme \<times> cursor \<times> bytes \<times> dataval \<times> u64 \<times> u32) option" where
  "node_to_move st mc = do {
     mp \<leftarrow> top_page st mc;
     k \<leftarrow> ki_at mc;
     if IS_LEAF2 mp then do {
       d \<leftarrow> mc_db st mc;
       key \<leftarrow> get_bytes mp (LEAF2KEY k (unat (md_pad d))) (unat (md_pad d));
       Some (0, st, mc, key, \<lparr>mv_size = 0, mv_data = []\<rparr>, 0, 0) }
     else do {
       node \<leftarrow> NODEPTR mp k;
       if odd node then None
       else do {
         pgno \<leftarrow> NODEPGNO mp node;
         f \<leftarrow> mn_flags mp node;
         (rc, st, mc, key) \<leftarrow>
           (if k = 0 \<and> IS_BRANCH mp then lowest_key st mc
            else do { key \<leftarrow> node_key mp node; Some (0, st, mc, key) });
         sz \<leftarrow> NODEDSZ mp node;
         a \<leftarrow> NODEDATA mp node;
         Some (rc, st, mc, key, \<lparr>mv_size = sz, mv_data = drop a mp\<rparr>, pgno, ucast f) } } }"

text \<open>A node inserted at the start of a branch page: the node that was there gets a key.\<close>

definition key_for_first ::
    "'a wst_scheme \<Rightarrow> nat option \<Rightarrow> mcursor \<Rightarrow> nat option \<Rightarrow> mcursor \<Rightarrow> 'a wres2" where
  "key_for_first st ts csrc td cdst = do {
     mp \<leftarrow> top_page st (fst cdst);
     k \<leftarrow> ki_at (fst cdst);
     if IS_BRANCH mp \<and> k = 0 then do {
       (rc, st, mn, bkey) \<leftarrow> lowest_key st (mdb_cursor_copy (fst cdst) raw_cursor);
       if rc \<noteq> 0 then Some (rc, st, csrc, cdst)
       else do {
         mn \<leftarrow> set_ki mn 0;
         beside2 ts csrc td cdst st (update_key_m None (mn, None) bkey) } }
     else Some (0, st, csrc, cdst) }"

text \<open>The other cursors, when the node came from the left: \<open>is_src\<close> and \<open>is_dst\<close> say whether \<open>m3\<close> is one of the two.\<close>

definition move_adjust_left ::
    "'a wst_scheme \<Rightarrow> cursor \<Rightarrow> cursor \<Rightarrow> bool \<Rightarrow> bool \<Rightarrow> bool \<Rightarrow> mcursor \<Rightarrow> mcursor option" where
  "move_adjust_left st csrc cdst leaf is_src is_dst m = (
     let m3 = fst m; t = mc_top csrc in
     if \<not> has_init m3 \<or> mc_top m3 < t then Some m
     else do {
       mpd \<leftarrow> aget (mc_pg cdst) t;
       mps \<leftarrow> aget (mc_pg csrc) t;
       dk \<leftarrow> aget (mc_ki cdst) t;
       sk \<leftarrow> aget (mc_ki csrc) t;
       p \<leftarrow> aget (mc_pg m3) t;
       k \<leftarrow> aget (mc_ki m3) t;
       m3 \<leftarrow> (if \<not> is_dst \<and> p = mpd \<and> k \<ge> dk then set_ki_at m3 t (k + 1) else Some m3);
       k \<leftarrow> aget (mc_ki m3) t;
       m3 \<leftarrow>
         (if \<not> is_src \<and> p = mps \<and> k = sk then do {
            q \<leftarrow> aget (mc_pg cdst) (mc_top cdst);
            dk \<leftarrow> ki_at cdst;
            up \<leftarrow> aget (mc_ki m3) (t - 1);
            m3 \<leftarrow> set_pg m3 t q;
            m3 \<leftarrow> set_ki_at m3 t dk;
            set_ki_at m3 (t - 1) (up + 1) }
          else Some m3);
       if leaf then refresh_at st t (m3, snd m) else Some (m3, snd m) })"

text \<open>The same when the node came from the right.\<close>

definition move_adjust_right ::
    "'a wst_scheme \<Rightarrow> cursor \<Rightarrow> cursor \<Rightarrow> bool \<Rightarrow> mcursor \<Rightarrow> mcursor option" where
  "move_adjust_right st csrc cdst leaf m = (
     let m3 = fst m; t = mc_top csrc in
     if \<not> has_init m3 \<or> mc_top m3 < t then Some m
     else do {
       mps \<leftarrow> aget (mc_pg csrc) t;
       p \<leftarrow> aget (mc_pg m3) t;
       if p \<noteq> mps then Some m
       else do {
         k \<leftarrow> aget (mc_ki m3) t;
         m3 \<leftarrow>
           (if k = 0 then do {
              q \<leftarrow> aget (mc_pg cdst) (mc_top cdst);
              dk \<leftarrow> ki_at cdst;
              up \<leftarrow> aget (mc_ki m3) (t - 1);
              m3 \<leftarrow> set_pg m3 t q;
              m3 \<leftarrow> set_ki_at m3 t dk;
              set_ki_at m3 (t - 1) (up + (2 ^ 16 - 1)) }
            else set_ki_at m3 t (k - 1));
         if leaf then refresh_at st t (m3, snd m) else Some (m3, snd m) } })"

text \<open>A function over the tracked cursors, and over \<open>m\<close> if it is tracked.\<close>

definition adjust_with ::
    "'a wst_scheme \<Rightarrow> cursor \<Rightarrow> nat option \<Rightarrow> mcursor \<Rightarrow> (mcursor \<Rightarrow> mcursor option) \<Rightarrow> (mcursor \<Rightarrow> mcursor option) \<Rightarrow>
     ('a wst_scheme \<times> mcursor) option" where
  "adjust_with st mc trk m f g = do {
     st \<leftarrow> upd_cursors st (mc_dbi mc) (on_m3 mc (\<lambda>_. f));
     m \<leftarrow> (if trk = None then Some m else g m);
     Some (st, m) }"

definition move_adjust ::
    "'a wst_scheme \<Rightarrow> nat option \<Rightarrow> mcursor \<Rightarrow> nat option \<Rightarrow> mcursor \<Rightarrow> bool \<Rightarrow> ('a wst_scheme \<times> mcursor \<times> mcursor) option" where
  "move_adjust st ts csrc td cdst fromleft = do {
     mps \<leftarrow> page_of st (fst csrc) (mc_top (fst csrc));
     let leaf = IS_LEAF mps;
     let s = fst csrc;
     let d = fst cdst;
     if fromleft then do {
       (st', cdst) \<leftarrow> adjust_with st s td cdst (move_adjust_left st s d leaf False False) (move_adjust_left st s d leaf False True);
       csrc \<leftarrow> (if ts = None then Some csrc else move_adjust_left st s d leaf True False csrc);
       Some (st', csrc, cdst) }
     else do {
       (st', cdst) \<leftarrow> adjust_with st s td cdst (move_adjust_right st s d leaf) (move_adjust_right st s d leaf);
       Some (st', csrc, cdst) } }"

text \<open>The first key on top of \<open>mc\<close>, of \<open>n\<close> bytes on a page of fixed-size keys.\<close>

definition separator :: "'a wst_scheme \<Rightarrow> cursor \<Rightarrow> bool \<Rightarrow> nat \<Rightarrow> bytes option" where
  "separator st mc leaf2 n = do {
     mp \<leftarrow> top_page st mc;
     if leaf2 then get_bytes mp (LEAF2KEY 0 n) n
     else do { node \<leftarrow> NODEPTR mp 0; node_key mp node } }"

text \<open>It becomes the separator in the parent, unless the page is the parent's first.\<close>

definition parent_key ::
    "'a wst_scheme \<Rightarrow> cursor \<Rightarrow> bool \<Rightarrow> nat \<Rightarrow> nat option \<Rightarrow> mcursor \<Rightarrow> nat option \<Rightarrow> mcursor \<Rightarrow> 'a wres2" where
  "parent_key st mc leaf2 n ts csrc td cdst = do {
     up \<leftarrow> aget (mc_ki mc) (mc_top mc - 1);
     if mc_top mc = 0 then None
     else if up \<noteq> 0 then do {
       key \<leftarrow> separator st mc leaf2 n;
       let mn = mdb_cursor_copy mc raw_cursor;
       let mn = mn\<lparr>mc_snum := mc_snum mn - 1, mc_top := mc_top mn - 1\<rparr>;
       beside2 ts csrc td cdst st (update_key_m (Some 0) (mn, None) key) }
     else Some (0, st, csrc, cdst) }"

text \<open>\<open>mdb_update_key\<close> with the empty key for the first node of a branch page.\<close>

definition clear_first_key :: "nat option \<Rightarrow> mcursor \<Rightarrow> 'a wst_scheme \<Rightarrow> 'a wres" where
  "clear_first_key trk m st = do {
     mp \<leftarrow> top_page st (fst m);
     if IS_BRANCH mp then do {
       ix \<leftarrow> ki_at (fst m);
       mc \<leftarrow> set_ki (fst m) 0;
       (rc, st, m) \<leftarrow> mdb_update_key st (mc, snd m) trk [];
       if rc \<noteq> 0 then None
       else do {
         mc \<leftarrow> set_ki (fst m) ix;
         Some (0, st, (mc, snd m)) } }
     else Some (0, st, m) }"

definition flip :: "'a wres2 \<Rightarrow> 'a wres2" where
  "flip r = map_option (\<lambda>(rc, st, a, b). (rc, st, b, a)) r"

definition move_separators ::
    "'a wst_scheme \<Rightarrow> nat option \<Rightarrow> mcursor \<Rightarrow> nat option \<Rightarrow> mcursor \<Rightarrow> nat \<Rightarrow> 'a wres2" where
  "move_separators st ts csrc td cdst klen = do {
     sp \<leftarrow> top_page st (fst csrc);
     sk \<leftarrow> ki_at (fst csrc);
     (rc, st, csrc, cdst) \<leftarrow>
       (if sk = 0 then do {
          (rc, st, csrc, cdst) \<leftarrow> parent_key st (fst csrc) (IS_LEAF2 sp) klen ts csrc td cdst;
          if rc \<noteq> 0 then Some (rc, st, csrc, cdst) else beside td cdst st (clear_first_key ts csrc) }
        else Some (0, st, csrc, cdst));
     if rc \<noteq> 0 then Some (rc, st, csrc, cdst)
     else do {
       dk \<leftarrow> ki_at (fst cdst);
       if dk = 0 then do {
         sp \<leftarrow> top_page st (fst csrc);
         (rc, st, csrc, cdst) \<leftarrow> parent_key st (fst cdst) (IS_LEAF2 sp) klen ts csrc td cdst;
         if rc \<noteq> 0 then Some (rc, st, csrc, cdst) else flip (beside ts csrc st (clear_first_key td cdst)) }
       else Some (0, st, csrc, cdst) } }"

definition mdb_node_move ::
    "'a wst_scheme \<Rightarrow> nat option \<Rightarrow> mcursor \<Rightarrow> nat option \<Rightarrow> mcursor \<Rightarrow> bool \<Rightarrow> 'a wres2" where
  "mdb_node_move st ts csrc td cdst fromleft = do {
     (rc, st, csrc, cdst) \<leftarrow> beside td cdst st (touch_m csrc);
     if rc \<noteq> 0 then Some (rc, st, csrc, cdst)
     else do {
       (rc, st, csrc, cdst) \<leftarrow> flip (beside ts csrc st (touch_m cdst));
       if rc \<noteq> 0 then Some (rc, st, csrc, cdst)
       else do {
         (rc, st, s, key, data, srcpg, flags) \<leftarrow> node_to_move st (fst csrc);
         let csrc = (s, snd csrc);
         if rc \<noteq> 0 then Some (rc, st, csrc, cdst)
         else do {
           (rc, st, csrc, cdst) \<leftarrow> key_for_first st ts csrc td cdst;
           if rc \<noteq> 0 then Some (rc, st, csrc, cdst)
           else do {
             dk \<leftarrow> ki_at (fst cdst);
             (rc, st, d, _) \<leftarrow> mdb_node_add st (fst cdst) dk (Some key) (Some data) srcpg flags;
             let cdst = (d, snd cdst);
             let csrc = share d csrc;
             if rc \<noteq> 0 then Some (rc, st, csrc, cdst)
             else do {
               st \<leftarrow> cursor_node_del st (fst csrc) (length key);
               (st, csrc, cdst) \<leftarrow> move_adjust st ts csrc td cdst fromleft;
               move_separators st ts csrc td cdst (length key) } } } } } }"

section \<open>\<open>mdb_page_merge\<close>\<close>

text \<open>The nodes \<open>i\<close> and on of \<open>psrc\<close> are added to \<open>cdst\<close> from \<open>j\<close> on, \<open>k\<close> of them.\<close>

fun merge_leaf2 :: "'a wst_scheme \<Rightarrow> cursor \<Rightarrow> bytes \<Rightarrow> nat \<Rightarrow> nat \<Rightarrow> nat \<Rightarrow> nat \<Rightarrow> (int \<times> 'a wst_scheme \<times> cursor) option" where
  "merge_leaf2 st cdst psrc ksize i j 0 = Some (0, st, cdst)"
| "merge_leaf2 st cdst psrc ksize i j (Suc k) = do {
     key \<leftarrow> get_bytes psrc (LEAF2KEY i ksize) ksize;
     (rc, st, cdst, _) \<leftarrow> mdb_node_add st cdst j (Some key) None 0 0;
     if rc \<noteq> 0 then Some (rc, st, cdst) else merge_leaf2 st cdst psrc ksize (i + 1) (j + 1) k }"

fun merge_nodes :: "'a wst_scheme \<Rightarrow> cursor \<Rightarrow> cursor \<Rightarrow> bytes \<Rightarrow> nat \<Rightarrow> nat \<Rightarrow> nat \<Rightarrow> (int \<times> 'a wst_scheme \<times> cursor) option" where
  "merge_nodes st csrc cdst psrc i j 0 = Some (0, st, cdst)"
| "merge_nodes st csrc cdst psrc i j (Suc k) = do {
     node \<leftarrow> NODEPTR psrc i;
     (rc, st, key) \<leftarrow>
       (if i = 0 \<and> IS_BRANCH psrc then do {
          (rc, st, _, key) \<leftarrow> lowest_key st (mdb_cursor_copy csrc raw_cursor);
          Some (rc, st, key) }
        else do { key \<leftarrow> node_key psrc node; Some (0, st, key) });
     if rc \<noteq> 0 then Some (rc, st, cdst)
     else do {
       sz \<leftarrow> NODEDSZ psrc node;
       a \<leftarrow> NODEDATA psrc node;
       pgno \<leftarrow> NODEPGNO psrc node;
       f \<leftarrow> mn_flags psrc node;
       (rc, st, cdst, _) \<leftarrow> mdb_node_add st cdst j (Some key) (Some \<lparr>mv_size = sz, mv_data = drop a psrc\<rparr>) pgno (ucast f);
       if rc \<noteq> 0 then Some (rc, st, cdst) else merge_nodes st csrc cdst psrc (i + 1) (j + 1) k } }"

text \<open>The source page leaves the parent.\<close>

definition merge_unlink :: "'a wst_scheme \<Rightarrow> nat option \<Rightarrow> mcursor \<Rightarrow> nat option \<Rightarrow> mcursor \<Rightarrow> 'a wres2" where
  "merge_unlink st ts csrc td cdst = do {
     let top = mc_top (fst csrc);
     let csrc = ((fst csrc)\<lparr>mc_top := top - 1\<rparr>, snd csrc);
     st \<leftarrow> cursor_node_del st (fst csrc) 0;
     k \<leftarrow> ki_at (fst csrc);
     (rc, st, csrc, cdst) \<leftarrow>
       (if k = 0 then beside td cdst st (update_key_m ts csrc []) else Some (0, st, csrc, cdst));
     Some (rc, st, ((fst csrc)\<lparr>mc_top := mc_top (fst csrc) + 1\<rparr>, snd csrc), cdst) }"

text \<open>A tracked cursor after the merge: \<open>nkeys\<close> nodes were in the destination before.\<close>

definition merge_adjust ::
    "'a wst_scheme \<Rightarrow> cursor \<Rightarrow> cursor \<Rightarrow> page_ptr option \<Rightarrow> page_ptr option \<Rightarrow> nat \<Rightarrow> bool \<Rightarrow> mcursor \<Rightarrow> mcursor option" where
  "merge_adjust st csrc cdst psrc pdst nkeys leaf m = (
     let m3 = fst m; top = mc_top csrc in
     if mc_snum m3 < mc_snum csrc then Some m
     else do {
       p \<leftarrow> aget (mc_pg m3) top;
       up \<leftarrow> aget (mc_ki m3) (top - 1);
       m3 \<leftarrow>
         (if p = psrc then do {
            k \<leftarrow> aget (mc_ki m3) top;
            dup \<leftarrow> aget (mc_ki cdst) (top - 1);
            m3 \<leftarrow> set_pg m3 top pdst;
            m3 \<leftarrow> set_ki_at m3 top (k + nkeys);
            set_ki_at m3 (top - 1) dup }
          else do {
            q \<leftarrow> aget (mc_pg m3) (top - 1);
            sq \<leftarrow> aget (mc_pg csrc) (top - 1);
            sup \<leftarrow> aget (mc_ki csrc) (top - 1);
            if q = sq \<and> up > sup then set_ki_at m3 (top - 1) (up - 1) else Some m3 });
       if leaf then refresh_at st top (m3, snd m) else Some (m3, snd m) })"

text \<open>\<open>mdb_page_merge\<close> up to its last block, which rebalances the parent.\<close>

definition merge_finish :: "'a wst_scheme \<Rightarrow> nat option \<Rightarrow> mcursor \<Rightarrow> nat option \<Rightarrow> mcursor \<Rightarrow> nat \<Rightarrow> 'a wres2" where
  "merge_finish st ts csrc td cdst nkeys = do {
     let top = mc_top (fst csrc);
     psrc \<leftarrow> pg_at (fst csrc) top;
     pdst \<leftarrow> pg_at (fst cdst) (mc_top (fst cdst));
     (rc, st, s) \<leftarrow> mdb_page_loose st (fst csrc) psrc;
     let csrc = (s, snd csrc);
     if rc \<noteq> 0 then Some (rc, st, csrc, cdst)
     else do {
       b \<leftarrow> page_at st psrc;
       (st, s) \<leftarrow> upd_mc_db st s (\<lambda>d.
         if IS_LEAF b then d\<lparr>md_leaf_pages := md_leaf_pages d - 1\<rparr> else d\<lparr>md_branch_pages := md_branch_pages d - 1\<rparr>);
       let cdst = share s cdst;
       let f = merge_adjust st s (fst cdst) (Some psrc) (Some pdst) nkeys (IS_LEAF b);
       (st', cdst) \<leftarrow> adjust_with st s td cdst f f;
       Some (0, st', (s, snd csrc), cdst) } }"

definition merge_pages :: "'a wst_scheme \<Rightarrow> nat option \<Rightarrow> mcursor \<Rightarrow> nat option \<Rightarrow> mcursor \<Rightarrow> 'a wres2" where
  "merge_pages st ts csrc td cdst =
     (if mc_snum (fst csrc) \<le> 1 \<or> mc_snum (fst cdst) \<le> 1 then None
      else do {
        (rc, st, csrc, cdst) \<leftarrow> flip (beside ts csrc st (touch_m cdst));
        if rc \<noteq> 0 then Some (rc, st, csrc, cdst)
        else do {
          pdst \<leftarrow> top_page st (fst cdst);
          psrc \<leftarrow> top_page st (fst csrc);
          let nkeys = NUMKEYS pdst;
          (rc, st, d) \<leftarrow>
            (if IS_LEAF2 psrc then do {
               db \<leftarrow> mc_db st (fst csrc);
               merge_leaf2 st (fst cdst) psrc (unat (md_pad db)) 0 nkeys (NUMKEYS psrc) }
             else merge_nodes st (fst csrc) (fst cdst) psrc 0 nkeys (NUMKEYS psrc));
          let cdst = (d, snd cdst);
          let csrc = share d csrc;
          if rc \<noteq> 0 then Some (rc, st, csrc, cdst)
          else do {
            (rc, st, csrc, cdst) \<leftarrow> merge_unlink st ts csrc td cdst;
            if rc \<noteq> 0 then Some (rc, st, csrc, cdst)
            else merge_finish st ts csrc td cdst nkeys } } })"

section \<open>\<open>mdb_rebalance\<close>\<close>

definition FILL_THRESHOLD :: nat where "FILL_THRESHOLD = 250"

text \<open>\<open>thresh\<close> and \<open>minkeys\<close> for the page.\<close>

definition thresh_of :: "bytes \<Rightarrow> nat" where "thresh_of mp = (if IS_BRANCH mp then 1 else FILL_THRESHOLD)"
definition minkeys_of :: "bytes \<Rightarrow> nat" where "minkeys_of mp = (if IS_BRANCH mp then 2 else 1)"

text \<open>A tracked cursor of a tree that is empty now, and of one whose root \<open>mp\<close> was dropped.\<close>

definition empty_adjust :: "page_ptr \<Rightarrow> mcursor \<Rightarrow> mcursor option" where
  "empty_adjust mp m =
     (if \<not> has_init (fst m) then Some m
      else do {
        p \<leftarrow> aget (mc_pg (fst m)) 0;
        Some (if p = Some mp then ((clear_flags C_INITIALIZED (fst m))\<lparr>mc_snum := 0, mc_top := 0\<rparr>, snd m) else m) })"

text \<open>\<open>for (\<dots>; i < \<dots>; i++) a[i] = a[i+1]\<close>, \<open>k\<close> times from \<open>i\<close> on.\<close>

fun shift_down :: "'b list \<Rightarrow> nat \<Rightarrow> nat \<Rightarrow> 'b list option" where
  "shift_down xs i 0 = Some xs"
| "shift_down xs i (Suc k) = do {
     v \<leftarrow> aget xs (i + 1);
     xs \<leftarrow> aset xs i v;
     shift_down xs (i + 1) k }"

definition collapse_adjust :: "page_ptr \<Rightarrow> nat \<Rightarrow> mcursor \<Rightarrow> mcursor option" where
  "collapse_adjust mp depth m =
     (if \<not> has_init (fst m) then Some m
      else do {
        p \<leftarrow> aget (mc_pg (fst m)) 0;
        if p \<noteq> Some mp then Some m
        else do {
          pg \<leftarrow> shift_down (mc_pg (fst m)) 0 depth;
          ki \<leftarrow> shift_down (mc_ki (fst m)) 0 depth;
          Some ((fst m)\<lparr>mc_pg := pg, mc_ki := ki, mc_snum := mc_snum (fst m) - 1, mc_top := mc_top (fst m) - 1\<rparr>, snd m) } })"

definition free_page_later :: "'a wst_scheme \<Rightarrow> u64 \<Rightarrow> (int \<times> 'a wst_scheme) option" where
  "free_page_later st pgno = do {
     let (mem, st) = ask_mem st;
     (rc, il) \<leftarrow> mdb_midl_append mem (mt_free_pgs (st_txn st)) pgno;
     Some (rc, upd_txn (\<lambda>t. t\<lparr>mt_free_pgs := il\<rparr>) st) }"

text \<open>The tree has become empty; its root page was \<open>mp\<close>.\<close>

definition empty_tree :: "'a wst_scheme \<Rightarrow> cursor \<Rightarrow> page_ptr \<Rightarrow> u64 \<Rightarrow> (int \<times> 'a wst_scheme \<times> cursor) option" where
  "empty_tree st mc mp pgno = do {
     (st, mc) \<leftarrow> upd_mc_db st mc (\<lambda>d. d\<lparr>md_root := P_INVALID, md_depth := 0, md_leaf_pages := 0\<rparr>);
     (rc, st) \<leftarrow> free_page_later st pgno;
     if rc \<noteq> 0 then Some (rc, st, mc)
     else do {
       let mc = (clear_flags C_INITIALIZED mc)\<lparr>mc_snum := 0, mc_top := 0\<rparr>;
       st \<leftarrow> upd_cursors st (mc_dbi mc) (on_m3 mc (\<lambda>_. empty_adjust mp));
       Some (MDB_SUCCESS, st, mc) } }"

text \<open>The root \<open>mp\<close>, a branch page with one child, is dropped.\<close>

definition collapse_root :: "'a wst_scheme \<Rightarrow> cursor \<Rightarrow> page_ptr \<Rightarrow> bytes \<Rightarrow> (int \<times> 'a wst_scheme \<times> cursor) option" where
  "collapse_root st mc mp b = do {
     (rc, st) \<leftarrow> free_page_later st (mp_pgno b);
     if rc \<noteq> 0 then Some (rc, st, mc)
     else do {
       node \<leftarrow> NODEPTR b 0;
       root \<leftarrow> NODEPGNO b node;
       (st, mc) \<leftarrow> upd_mc_db st mc (\<lambda>d. d\<lparr>md_root := root\<rparr>);
       (rc, st, p) \<leftarrow> mdb_page_get st mc root;
       if rc \<noteq> 0 then Some (rc, st, mc)
       else do {
         (p, _) \<leftarrow> p;
         mc \<leftarrow> set_pg mc 0 (Some p);
         (st, mc) \<leftarrow> upd_mc_db st mc (\<lambda>d. d\<lparr>md_depth := md_depth d - 1, md_branch_pages := md_branch_pages d - 1\<rparr>);
         d \<leftarrow> mc_db st mc;
         let depth = unat (md_depth d);
         k1 \<leftarrow> aget (mc_ki mc) 1;
         mc \<leftarrow> set_ki_at mc 0 k1;
         pg \<leftarrow> shift_down (mc_pg mc) 1 (depth - 1);
         ki \<leftarrow> shift_down (mc_ki mc) 1 (depth - 1);
         st \<leftarrow> upd_cursors st (mc_dbi mc) (on_m3 mc (\<lambda>_. collapse_adjust mp depth));
         Some (MDB_SUCCESS, st, mc\<lparr>mc_pg := pg, mc_ki := ki\<rparr>) } } }"

definition rebalance_root :: "'a wst_scheme \<Rightarrow> cursor \<Rightarrow> (int \<times> 'a wst_scheme \<times> cursor) option" where
  "rebalance_root st mc = do {
     mp \<leftarrow> pg_at mc 0;
     b \<leftarrow> page_at st mp;
     if IS_SUBP b then Some (MDB_SUCCESS, st, mc)
     else if NUMKEYS b = 0 then empty_tree st mc mp (mp_pgno b)
     else if IS_BRANCH b \<and> NUMKEYS b = 1 then collapse_root st mc mp b
     else Some (MDB_SUCCESS, st, mc) }"

text \<open>The neighbour: the cursor \<open>mn\<close> on it, \<open>mc\<close> and \<open>fromleft\<close>.\<close>

definition find_neighbor ::
    "'a wst_scheme \<Rightarrow> cursor \<Rightarrow> (int \<times> 'a wst_scheme \<times> cursor \<times> cursor \<times> bool) option" where
  "find_neighbor st mc = do {
     let ptop = mc_top mc - 1;
     pb \<leftarrow> page_of st mc ptop;
     if mc_top mc = 0 \<or> \<not> NUMKEYS pb > 1 then None
     else do {
       let mn = mdb_cursor_copy mc raw_cursor;
       k \<leftarrow> aget (mc_ki mc) ptop;
       let k' = (if k = 0 then k + 1 else k - 1);
       mn \<leftarrow> set_ki_at mn ptop k';
       node \<leftarrow> NODEPTR pb k';
       pgno \<leftarrow> NODEPGNO pb node;
       (rc, st, p) \<leftarrow> mdb_page_get st mc pgno;
       if rc \<noteq> 0 then Some (rc, st, mn, mc, k \<noteq> 0)
       else do {
         (p, _) \<leftarrow> p;
         mn \<leftarrow> set_pg mn (mc_top mn) (Some p);
         nb \<leftarrow> page_at st p;
         b \<leftarrow> top_page st mc;
         mn \<leftarrow> set_ki mn (if k = 0 then 0 else last_key nb);
         mc \<leftarrow> set_ki mc (if k = 0 then NUMKEYS b else 0);
         Some (0, st, mn, mc, k \<noteq> 0) } } }"

text \<open>The end of \<open>mdb_page_merge\<close>: the height of the tree may have changed.\<close>

definition merge_height :: "'a wst_scheme \<Rightarrow> nat \<Rightarrow> u16 \<Rightarrow> mcursor \<Rightarrow> mcursor option" where
  "merge_height st snum depth cdst = do {
     d \<leftarrow> mc_db st (fst cdst);
     let snum = nat (int snum + int (unat (md_depth d)) - int (unat depth));
     Some ((fst cdst)\<lparr>mc_snum := snum, mc_top := (snum + (2 ^ 16 - 1)) mod 2 ^ 16\<rparr>, snd cdst) }"

text \<open>The label at the end of \<open>mdb_rebalance\<close>.\<close>

definition rebalance_end :: "int \<Rightarrow> 'a wst_scheme \<Rightarrow> mcursor \<Rightarrow> nat \<Rightarrow> bool \<Rightarrow> 'a wres" where
  "rebalance_end rc st m oldki merged = do {
     let mc = (if merged then clear_flags C_EOF (fst m) else fst m);
     mc \<leftarrow> set_ki mc oldki;
     Some (rc, st, (mc, snd m)) }"

text \<open>
  \<open>mdb_page_merge\<close> and \<open>mdb_rebalance\<close> call each other; the merge of the right page \<open>csrc\<close> into the left
  one \<open>cdst\<close> is written out here. \<open>mn\<close> is tracked when it is the destination.
\<close>

partial_function (option) mdb_rebalance :: "'a wst_scheme \<Rightarrow> mcursor \<Rightarrow> nat option \<Rightarrow> 'a wres" where
  "mdb_rebalance st m trk = do {
     mp \<leftarrow> top_page st (fst m);
     if PAGEFILL (me_psize (st_env st)) mp \<ge> thresh_of mp \<and> NUMKEYS mp \<ge> minkeys_of mp then Some (MDB_SUCCESS, st, m)
     else if mc_snum (fst m) < 2 then do {
       (rc, st, mc) \<leftarrow> rebalance_root st (fst m);
       Some (rc, st, (mc, snd m)) }
     else do {
       oldki \<leftarrow> ki_at (fst m);
       (rc, st, mn, mc, fromleft) \<leftarrow> find_neighbor st (fst m);
       let m = (mc, snd m);
       if rc \<noteq> 0 then Some (rc, st, m)
       else do {
         nb \<leftarrow> top_page st mn;
         if PAGEFILL (me_psize (st_env st)) nb \<ge> thresh_of mp \<and> NUMKEYS nb > minkeys_of mp then do {
           (rc, st, _, m) \<leftarrow> mdb_node_move st None (mn, None) trk m fromleft;
           rebalance_end rc st m (if fromleft then oldki + 1 else oldki) False }
         else do {
           nk \<leftarrow> ki_at mn;
           mk \<leftarrow> ki_at mc;
           mn \<leftarrow> (if fromleft then set_ki mn (nk + mk + 1) else Some mn);
           let oldki = (if fromleft then oldki + NUMKEYS nb else oldki);
           let (ts, csrc, td, cdst) = (if fromleft then (trk, m, Some 0, (mn, None)) else (None, (mn, None), trk, m));
           (rc, st, csrc, cdst) \<leftarrow> merge_pages st ts csrc td cdst;
           (rc, st, csrc, cdst) \<leftarrow>
             (if rc \<noteq> 0 then Some (rc, st, csrc, cdst)
              else do {
                let snum = mc_snum (fst cdst);
                d \<leftarrow> mc_db st (fst cdst);
                (rc, st, cdst) \<leftarrow> mdb_rebalance (push_cursor ts csrc st) (mdb_cursor_pop (fst cdst), snd cdst) td;
                (st, csrc) \<leftarrow> pop_cursor ts csrc st;
                cdst \<leftarrow> merge_height st snum (md_depth d) cdst;
                Some (rc, st, share (fst cdst) csrc, cdst) });
           let m = (if fromleft then (mdb_cursor_copy (fst cdst) (fst csrc), snd csrc) else cdst);
           rebalance_end rc st m oldki True } } } }"

section \<open>\<open>mdb_cursor_del0\<close>\<close>

text \<open>A tracked cursor on the page \<open>mp\<close> (contents \<open>b\<close> now) from which the node \<open>ki\<close> was deleted.\<close>

definition del_adjust :: "cursor \<Rightarrow> page_ptr \<Rightarrow> bytes \<Rightarrow> nat \<Rightarrow> bool \<Rightarrow> u32 \<Rightarrow> mcursor \<Rightarrow> mcursor option" where
  "del_adjust mc mp b ki dupsort f2 m = (
     let m3 = fst m; top = mc_top mc in
     if \<not> has (f2 AND mc_flags m3) C_INITIALIZED \<or> mc_snum m3 < mc_snum mc then Some m
     else do {
       p \<leftarrow> aget (mc_pg m3) top;
       if p \<noteq> Some mp then Some m
       else do {
         k \<leftarrow> aget (mc_ki m3) top;
         if k = ki then do {
           let m3 = m3\<lparr>mc_flags := mc_flags m3 OR C_DEL\<rparr>;
           mx \<leftarrow> (if dupsort then map_option (\<lambda>x. Some (clear_flags (C_INITIALIZED OR C_EOF) x)) (snd m) else Some (snd m));
           Some (m3, mx) }
         else do {
           m3 \<leftarrow> (if k > ki then set_ki_at m3 top (k - 1) else Some m3);
           XCURSOR_REFRESH (m3, snd m) top mp b } } })"

text \<open>The data of the node that the cursor is on now may have moved.\<close>

definition del_reinit :: "'a wst_scheme \<Rightarrow> mcursor \<Rightarrow> mcursor option" where
  "del_reinit st m = do {
     mptr \<leftarrow> pg_at (fst m) (mc_top (fst m));
     mp \<leftarrow> page_at st mptr;
     k \<leftarrow> ki_at (fst m);
     node \<leftarrow> NODEPTR mp k;
     f \<leftarrow> mn_flags mp node;
     if has f (ucast F_DUPDATA) then do {
       mx \<leftarrow> snd m;
       if has_init mx then
         if \<not> has f (ucast F_SUBDATA) then do {
           a \<leftarrow> NODEDATA mp node;
           mx \<leftarrow> set_pg mx 0 (Some (Sub_page mptr a));
           Some (fst m, Some mx) }
         else Some m
       else do {
         m \<leftarrow> mdb_xcursor_init1 st m mptr mp node;
         Some (fst m, map_option (\<lambda>x. x\<lparr>mc_flags := mc_flags x OR C_DEL\<rparr>) (snd m)) } }
     else Some m }"

text \<open>After rebalancing: a cursor past the last node of the page \<open>mp\<close> of \<open>mc\<close> goes to the next page.\<close>

definition del_forward ::
    "'a wst_scheme \<Rightarrow> cursor \<Rightarrow> page_ptr \<Rightarrow> nat \<Rightarrow> bool \<Rightarrow> u32 \<Rightarrow> mcursor \<Rightarrow> 'a wres" where
  "del_forward st mc mp nkeys dupsort f2 m = (
     let m3 = fst m; top = mc_top mc in
     if \<not> has (f2 AND mc_flags m3) C_INITIALIZED \<or> mc_snum m3 < mc_snum mc then Some (0, st, m)
     else do {
       p \<leftarrow> aget (mc_pg m3) top;
       k \<leftarrow> aget (mc_ki m3) top;
       k0 \<leftarrow> aget (mc_ki mc) top;
       if p \<noteq> Some mp \<or> k < k0 then Some (0, st, m)
       else do {
         (rc, st, m3) \<leftarrow> (if k \<ge> nkeys then mdb_cursor_sibling st m3 True else Some (0, st, m3));
         if rc = MDB_NOTFOUND then Some (0, st, (m3\<lparr>mc_flags := mc_flags m3 OR C_EOF\<rparr>, snd m))
         else do {
           m \<leftarrow> (if dupsort then del_reinit st (m3, snd m) else Some (m3, snd m));
           Some (rc, st, m) } } })"

definition del_forward_m2 :: "'a wst_scheme \<Rightarrow> cursor \<Rightarrow> page_ptr \<Rightarrow> nat \<Rightarrow> bool \<Rightarrow> mcursor \<Rightarrow> 'a wres" where
  "del_forward_m2 st mc mp nkeys dupsort m2 =
     (if mc_dbi (fst m2) \<noteq> mc_dbi mc then Some (0, st, m2)
      else if has (mc_flags mc) C_SUB then do {
        mx \<leftarrow> snd m2;
        (rc, st, mx) \<leftarrow> del_forward st mc mp nkeys dupsort (mc_flags (fst m2)) (mx, None);
        Some (rc, st, (fst m2, Some (fst mx))) }
      else del_forward st mc mp nkeys dupsort (mc_flags (fst m2)) m2)"

text \<open>The loop over the tracked cursors \<open>ms\<close>; it stops at the first error.\<close>

fun del_forward_all ::
    "'a wst_scheme \<Rightarrow> cursor \<Rightarrow> page_ptr \<Rightarrow> nat \<Rightarrow> bool \<Rightarrow> mcursor list \<Rightarrow> (int \<times> 'a wst_scheme \<times> mcursor list) option" where
  "del_forward_all st mc mp nkeys dupsort [] = Some (0, st, [])"
| "del_forward_all st mc mp nkeys dupsort (m # ms) = do {
     (rc, st, m) \<leftarrow> del_forward_m2 st mc mp nkeys dupsort m;
     if rc \<noteq> 0 then Some (rc, st, m # ms)
     else do {
       (rc, st, ms) \<leftarrow> del_forward_all st mc mp nkeys dupsort ms;
       Some (rc, st, m # ms) } }"

text \<open>The cursor itself is in that list, at its place, when it is tracked; the ones after it see it moved.\<close>

definition del_forward_list ::
    "'a wst_scheme \<Rightarrow> mcursor \<Rightarrow> nat option \<Rightarrow> page_ptr \<Rightarrow> nat \<Rightarrow> bool \<Rightarrow> 'a wres" where
  "del_forward_list st m trk mp nkeys dupsort = do {
     let ms = st_cursors st;
     let p = (case trk of None \<Rightarrow> length ms | Some p \<Rightarrow> p);
     (rc, st, before) \<leftarrow> del_forward_all st (fst m) mp nkeys dupsort (take p ms);
     (rc, st, m) \<leftarrow>
       (if rc \<noteq> 0 \<or> trk = None then Some (rc, st, m)
        else del_forward st (fst m) mp nkeys dupsort C_INITIALIZED m);
     (rc, st, after) \<leftarrow>
       (if rc \<noteq> 0 then Some (rc, st, drop p ms) else del_forward_all st (fst m) mp nkeys dupsort (drop p ms));
     Some (rc, st\<lparr>st_cursors := before @ after\<rparr>, m) }"

definition mdb_cursor_del0 :: "'a wst_scheme \<Rightarrow> mcursor \<Rightarrow> nat option \<Rightarrow> 'a wres" where
  "mdb_cursor_del0 st m trk = do {
     let mc = fst m;
     ki \<leftarrow> ki_at mc;
     mp \<leftarrow> pg_at mc (mc_top mc);
     d \<leftarrow> mc_db st mc;
     let dupsort = has (md_flags d) MDB_DUPSORT;
     st \<leftarrow> cursor_node_del st mc (unat (md_pad d));
     (st, mc) \<leftarrow> upd_mc_db st mc (\<lambda>d. d\<lparr>md_entries := md_entries d - 1\<rparr>);
     b \<leftarrow> page_at st mp;
     st \<leftarrow> upd_cursors st (mc_dbi mc) (on_m3 mc (del_adjust mc mp b ki dupsort));
     (rc, st, m) \<leftarrow> mdb_rebalance st (mc, snd m) trk;
     if rc = MDB_SUCCESS \<and> mc_snum (fst m) = 0 then Some (rc, st, m)
     else do {
       (rc, st, m) \<leftarrow>
         (if rc = MDB_SUCCESS then do {
            mp \<leftarrow> pg_at (fst m) (mc_top (fst m));
            b \<leftarrow> page_at st mp;
            (rc, st, m) \<leftarrow> del_forward_list st m trk mp (NUMKEYS b) dupsort;
            Some (rc, st, ((fst m)\<lparr>mc_flags := mc_flags (fst m) OR C_DEL\<rparr>, snd m)) }
          else Some (rc, st, m));
       Some (rc, if rc \<noteq> 0 then txn_error st else st, m) } }"

end
