(* ===== verification/Cursor_Put.thy ===== *)
theory Cursor_Put
  imports Rebalance
begin

text \<open>
  Storing data: \<open>mdb_cursor_touch\<close>, \<open>mdb_xcursor_init2\<close>, \<open>mdb_cursor_put\<close> and \<open>mdb_put\<close>. \<open>mdb_cursor_put\<close> calls itself on the
  sub-cursor, where the data items are the keys; as in the reading functions the call is an argument of the
  body, which is tied at the two levels. The caller's data is \<open>mv_size\<close> bytes at the start of the memory \<open>mv_data\<close>,
  with \<open>MDB_MULTIPLE\<close> an array of such items.
\<close>

definition MDB_NOOVERWRITE :: u32 where "MDB_NOOVERWRITE = 0x10"
definition MDB_NODUPDATA :: u32 where "MDB_NODUPDATA = 0x20"
definition MDB_CURRENT :: u32 where "MDB_CURRENT = 0x40"
definition MDB_MULTIPLE :: u32 where "MDB_MULTIPLE = 0x80000"
definition MDB_NOSPILL :: u32 where "MDB_NOSPILL = 0x8000"
definition MDB_NO_ROOT :: int where "MDB_NO_ROOT = MDB_LAST_ERRCODE + 10"
definition MAXDATASIZE :: nat where "MAXDATASIZE = 0xffffffff"
definition NODE_ADD_FLAGS :: u32 where "NODE_ADD_FLAGS = F_DUPDATA OR F_SUBDATA OR MDB_RESERVE OR MDB_APPEND"

lemmas put_flag_defs = MDB_NOOVERWRITE_def MDB_NODUPDATA_def MDB_CURRENT_def MDB_MULTIPLE_def MDB_NOSPILL_def
  MDB_APPEND_def MDB_APPENDDUP_def MDB_SPLIT_REPLACE_def NODE_ADD_FLAGS_def

text \<open>The stack of \<open>mdb_midl_sort\<close>, which it writes before it reads.\<close>

definition istack0 :: "nat list" where "istack0 = replicate 64 0"

text \<open>What a put hands back: nothing, the data that was there, or the place for the data.\<close>

datatype put_out = No_out | Old_data bytes | Room_at page_ptr nat

type_synonym 'a put_res = "(int \<times> 'a wst_scheme \<times> mcursor \<times> put_out \<times> nat) option"
type_synonym 'a sub_put = "'a wst_scheme \<Rightarrow> cursor \<Rightarrow> nat option \<Rightarrow> bytes \<Rightarrow> u32 \<Rightarrow> (int \<times> 'a wst_scheme \<times> cursor) option"

section \<open>\<open>mdb_cursor_touch\<close>\<close>

definition or_dbflag :: "'a st_scheme \<Rightarrow> cursor \<Rightarrow> u8 \<Rightarrow> ('a st_scheme \<times> cursor) option" where
  "or_dbflag st mc f =
     (case mc_own mc of
        Some x \<Rightarrow> Some (st, mc\<lparr>mc_own := Some (x\<lparr>mx_dbflag := mx_dbflag x OR f\<rparr>)\<rparr>)
      | None \<Rightarrow> do {
          v \<leftarrow> aget (mt_dbflags (st_txn st)) (mc_dbi mc);
          fs \<leftarrow> aset (mt_dbflags (st_txn st)) (mc_dbi mc) (v OR f);
          Some (st\<lparr>st_txn := (st_txn st)\<lparr>mt_dbflags := fs\<rparr>\<rparr>, mc) })"

text \<open>The record of a named database in the main database.\<close>

definition touch_db_record :: "'a wst_scheme \<Rightarrow> cursor \<Rightarrow> (int \<times> 'a wst_scheme \<times> cursor) option" where
  "touch_db_record st mc = do {
     df \<leftarrow> mc_dbflag st mc;
     if mc_dbi mc \<ge> CORE_DBS \<and> \<not> has df (DB_DIRTY OR DB_DUPDATA) then do {
       changed \<leftarrow> TXN_DBI_CHANGED (st_env st) (st_txn st) (mc_dbi mc);
       if changed then Some (MDB_BAD_DBI, st, mc)
       else do {
         (st, m2) \<leftarrow> mdb_cursor_init st raw_cursor MAIN_DBI (Some raw_xcursor);
         dx \<leftarrow> mc_dbx st mc;
         name \<leftarrow> md_name dx;
         (rc, st, _) \<leftarrow> mdb_page_search mdb_page_touch st (fst m2) (Some name) MDB_PS_MODIFY;
         if rc \<noteq> 0 then Some (rc, st, mc)
         else do {
           (st, mc) \<leftarrow> or_dbflag st mc DB_DIRTY;
           Some (0, st, mc) } } }
     else Some (0, st, mc) }"

fun touch_levels :: "'a wst_scheme \<Rightarrow> cursor \<Rightarrow> nat \<Rightarrow> nat \<Rightarrow> (int \<times> 'a wst_scheme \<times> cursor) option" where
  "touch_levels st mc i 0 = Some (0, st, mc)"
| "touch_levels st mc i (Suc k) = do {
     (rc, st, mc) \<leftarrow> mdb_page_touch st (mc\<lparr>mc_top := i\<rparr>);
     if rc \<noteq> 0 then Some (rc, st, mc) else touch_levels st mc (i + 1) k }"

definition mdb_cursor_touch :: "'a wst_scheme \<Rightarrow> cursor \<Rightarrow> (int \<times> 'a wst_scheme \<times> cursor) option" where
  "mdb_cursor_touch st mc = do {
     (rc, st, mc) \<leftarrow> touch_db_record st mc;
     if rc \<noteq> 0 then Some (rc, st, mc)
     else if mc_snum mc = 0 then Some (0, st, mc\<lparr>mc_top := 0\<rparr>)
     else do {
       (rc, st, mc) \<leftarrow> touch_levels st mc 0 (mc_snum mc);
       Some (rc, st, mc\<lparr>mc_top := mc_snum mc - 1\<rparr>) } }"

definition mdb_xcursor_init2 :: "mcursor \<Rightarrow> cursor \<Rightarrow> bool \<Rightarrow> mcursor option" where
  "mdb_xcursor_init2 m src new_dupdata = do {
     mx \<leftarrow> snd m;
     x \<leftarrow> mc_own mx;
     sx \<leftarrow> mc_own src;
     p0 \<leftarrow> aget (mc_pg src) 0;
     if new_dupdata then do {
       mx \<leftarrow> set_ki_at (mx\<lparr>mc_snum := 1, mc_top := 0, mc_flags := mc_flags mx OR C_INITIALIZED\<rparr>) 0 0;
       mx \<leftarrow> set_pg mx 0 p0;
       Some (fst m, Some (mx\<lparr>mc_own := Some (x\<lparr>mx_dbflag := DB_VALID OR DB_USRVALID OR DB_DUPDATA,
         mx_dbx := (mx_dbx x)\<lparr>md_cmp := md_cmp (mx_dbx sx)\<rparr>, mx_db := mx_db sx\<rparr>)\<rparr>)) }
     else if \<not> has_init mx then Some m
     else do {
       mx \<leftarrow> set_pg mx 0 p0;
       Some (fst m, Some (mx\<lparr>mc_own := Some (x\<lparr>mx_db := mx_db sx\<rparr>)\<rparr>)) } }"

section \<open>Where the item goes\<close>

text \<open>The checks before anything is done; the result is the code to return.\<close>

definition put_check :: "'a st_scheme \<Rightarrow> cursor \<Rightarrow> bytes \<Rightarrow> nat \<Rightarrow> u32 \<Rightarrow> int option" where
  "put_check st mc key dsize flags = do {
     d \<leftarrow> mc_db st mc;
     let tf = mt_flags (st_txn st);
     Some (if has flags MDB_MULTIPLE \<and> \<not> F_ISSET (md_flags d) MDB_DUPFIXED then MDB_INCOMPATIBLE
       else if has tf (MDB_TXN_RDONLY OR MDB_TXN_BLOCKED) then (if has tf MDB_TXN_RDONLY then EACCES else MDB_BAD_TXN)
       else if length key = 0 \<or> length key > ENV_MAXKEY then MDB_BAD_VALSIZE
       else if dsize > (if has (md_flags d) MDB_DUPSORT then ENV_MAXKEY else MAXDATASIZE) then MDB_BAD_VALSIZE
       else MDB_SUCCESS) }"

text \<open>The first result says that the function returns.\<close>

definition put_position ::
    "'a wst_scheme \<Rightarrow> mcursor \<Rightarrow> bytes \<Rightarrow> u32 \<Rightarrow> (bool \<times> int \<times> 'a wst_scheme \<times> mcursor \<times> put_out) option" where
  "put_position st m key flags =
     (if has flags MDB_CURRENT then
        Some (if \<not> has_init (fst m) then (True, EINVAL, st, m, No_out) else (False, 0, st, m, No_out))
      else do {
        d \<leftarrow> mc_db st (fst m);
        if md_root d = P_INVALID
        then Some (False, MDB_NO_ROOT, st, ((clear_flags C_INITIALIZED (fst m))\<lparr>mc_snum := 0, mc_top := 0\<rparr>, snd m), No_out)
        else do {
          (rc, st, m, d2) \<leftarrow>
            (if has flags MDB_APPEND then do {
               (rc, st, m, k2, d2) \<leftarrow> mdb_cursor_last st m (Some []) (Some []);
               if rc \<noteq> 0 then Some (rc, st, m, d2)
               else do {
                 k2 \<leftarrow> k2;
                 dx \<leftarrow> mc_dbx st (fst m);
                 cmp \<leftarrow> md_cmp dx;
                 c \<leftarrow> call_cmp cmp key k2;
                 if c > 0 then do {
                   k \<leftarrow> ki_at (fst m);
                   mc \<leftarrow> set_ki (fst m) (k + 1);
                   Some (MDB_NOTFOUND, st, (mc, snd m), d2) }
                 else Some (MDB_KEYEXIST, st, m, d2) } }
             else do {
               (rc, st, m, _, d2) \<leftarrow> mdb_cursor_set st m (Some key) (Some []) MDB_SET True;
               Some (rc, st, m, d2) });
          if has flags MDB_NOOVERWRITE \<and> rc = 0 then do {
            d2 \<leftarrow> d2;
            Some (True, MDB_KEYEXIST, st, m, Old_data d2) }
          else Some (rc \<noteq> 0 \<and> rc \<noteq> MDB_NOTFOUND, rc, st, m, No_out) } })"

text \<open>The first page of a database.\<close>

definition put_new_root :: "'a wst_scheme \<Rightarrow> cursor \<Rightarrow> (int \<times> 'a wst_scheme \<times> cursor) option" where
  "put_new_root st mc = do {
     (rc, st, mc, np) \<leftarrow> mdb_page_new st mc (ucast P_LEAF) 1;
     if rc \<noteq> 0 then Some (rc, st, mc)
     else do {
       np \<leftarrow> np;
       b \<leftarrow> page_at st np;
       (_, st, mc) \<leftarrow> mdb_cursor_push st mc np;
       (st, mc) \<leftarrow> upd_mc_db st mc (\<lambda>d. d\<lparr>md_root := mp_pgno b, md_depth := md_depth d + 1\<rparr>);
       (st, mc) \<leftarrow> or_dbflag st mc DB_DIRTY;
       d \<leftarrow> mc_db st mc;
       st \<leftarrow> (if md_flags d AND (MDB_DUPSORT OR MDB_DUPFIXED) = MDB_DUPFIXED
             then upd_page st np (\<lambda>b. set_mp_flags (mp_flags b OR P_LEAF2) b) else Some st);
       Some (0, st, mc\<lparr>mc_flags := mc_flags mc OR C_INITIALIZED\<rparr>) } }"

text \<open>The label \<open>fix_parent\<close>: the first level above with an entry other than 0.\<close>

fun real_slot :: "cursor \<Rightarrow> nat \<Rightarrow> (nat \<times> nat) option" where
  "real_slot mc 0 = do { k \<leftarrow> aget (mc_ki mc) 0; Some (0, k) }"
| "real_slot mc (Suc t) = do {
     k \<leftarrow> aget (mc_ki mc) (Suc t);
     if k = 0 then real_slot mc t else Some (Suc t, k) }"

definition fix_parent :: "'a wst_scheme \<Rightarrow> mcursor \<Rightarrow> nat option \<Rightarrow> bytes \<Rightarrow> 'a wres" where
  "fix_parent st m trk key = do {
     let top = mc_top (fst m);
     k \<leftarrow> ki_at (fst m);
     if top \<noteq> 0 \<and> k = 0 then do {
       (t, k) \<leftarrow> real_slot (fst m) (top - 1);
       let dtop = top - t;
       (rc, st, m) \<leftarrow>
         (if k \<noteq> 0 then mdb_update_key st ((fst m)\<lparr>mc_top := t\<rparr>, snd m) trk key
          else Some (MDB_SUCCESS, st, ((fst m)\<lparr>mc_top := t\<rparr>, snd m)));
       Some (rc, st, ((fst m)\<lparr>mc_top := mc_top (fst m) + dtop\<rparr>, snd m)) }
     else Some (MDB_SUCCESS, st, m) }"

section \<open>Duplicates: the new sub-page or sub-database\<close>

text \<open>
  The local variables that the parts of \<open>mdb_cursor_put\<close> share: \<open>flags\<close>, \<open>insert_key\<close>, \<open>do_sub\<close>, \<open>sub_root\<close> and \<open>dkey\<close>
  (empty when its size is 0).
\<close>

record put =
  pt_flags :: u32
  pt_new :: bool
  pt_sub :: bool
  pt_root :: "page_ptr option"
  pt_dkey :: bytes

text \<open>Where a part goes: it returns, or goes to the labels \<open>new_sub\<close> (with \<open>rdata\<close>) or \<open>put_sub\<close>.\<close>

datatype put_goto = Put_return int put_out | New_sub dataval | Put_sub

type_synonym 'a put_next = "(put_goto \<times> 'a wst_scheme \<times> mcursor \<times> put) option"

definition whole :: "bytes \<Rightarrow> dataval" where
  "whole bs = \<lparr>mv_size = length bs, mv_data = bs\<rparr>"

text \<open>The block under \<open>if (mp != fp)\<close>: the old sub-page \<open>fp\<close> is copied to \<open>mp\<close>, which is larger by \<open>offset\<close>.\<close>

fun add_to_ptrs :: "bytes \<Rightarrow> nat \<Rightarrow> nat \<Rightarrow> nat \<Rightarrow> bytes option" where
  "add_to_ptrs mp i offset 0 = Some mp"
| "add_to_ptrs mp i offset (Suc k) = do {
     v \<leftarrow> mp_ptr mp i;
     mp \<leftarrow> set_mp_ptr mp i (v + offset);
     add_to_ptrs mp (i + 1) offset k }"

definition fill_sub :: "bytes \<Rightarrow> bytes \<Rightarrow> u16 \<Rightarrow> nat \<Rightarrow> nat \<Rightarrow> bytes option" where
  "fill_sub mp fp fp_flags offset oldsize = (
     let mp = set_mp_pad (mp_pad fp) (set_mp_flags (fp_flags OR P_DIRTY) mp);
         mp = set_mp_upper (mp_upper fp + offset) (set_mp_lower (mp_lower fp) mp)
     in if has fp_flags P_LEAF2 then do {
          bs \<leftarrow> get_bytes fp PAGEHDRSZ (NUMKEYS fp * mp_pad fp);
          put_bytes mp PAGEHDRSZ bs }
        else if oldsize < mp_upper fp then None
        else do {
          bs \<leftarrow> get_bytes fp (mp_upper fp) (oldsize - mp_upper fp);
          mp \<leftarrow> put_bytes mp (mp_upper mp) bs;
          bs \<leftarrow> get_bytes fp PAGEHDRSZ (2 * NUMKEYS fp);
          mp \<leftarrow> put_bytes mp PAGEHDRSZ bs;
          add_to_ptrs mp 0 offset (NUMKEYS fp) })"

text \<open>The label \<open>prep_subDB\<close>: the record of the new sub-database, in a new page.\<close>

definition sub_record :: "db \<Rightarrow> bytes \<Rightarrow> u64 \<Rightarrow> db" where
  "sub_record d fp root = (
     let fixed = has (md_flags d) MDB_DUPFIXED in
     \<lparr>md_pad = (if fixed then of_nat (mp_pad fp) else 0),
      md_flags = (if fixed then MDB_DUPFIXED OR (if has (md_flags d) MDB_INTEGERDUP then MDB_INTEGERKEY else 0) else 0),
      md_depth = 1, md_branch_pages = 0, md_leaf_pages = 1, md_overflow_pages = 0,
      md_entries = of_nat (NUMKEYS fp), md_root = root\<rparr>)"

definition prep_subDB ::
    "'a wst_scheme \<Rightarrow> mcursor \<Rightarrow> put \<Rightarrow> bytes \<Rightarrow> u16 \<Rightarrow> nat \<Rightarrow> 'a put_next" where
  "prep_subDB st m p fp fp_flags oldsize = do {
     d \<leftarrow> mc_db st (fst m);
     let fp_flags = (if has (md_flags d) MDB_DUPFIXED then fp_flags OR P_LEAF2 else fp_flags);
     (rc, st, mp) \<leftarrow> mdb_page_alloc st 1;
     if rc \<noteq> 0 then Some (Put_return rc No_out, st, m, p)
     else do {
       mp \<leftarrow> mp;
       b \<leftarrow> page_at st mp;
       let psize = me_psize (st_env st);
       b' \<leftarrow> (if psize < oldsize then None else fill_sub b fp fp_flags (psize - oldsize) oldsize);
       st \<leftarrow> put_page st mp b';
       Some (New_sub (whole (db_bytes (sub_record d fp (mp_pgno b)))), st, m,
         p\<lparr>pt_flags := pt_flags p OR F_DUPDATA OR F_SUBDATA, pt_root := Some mp, pt_sub := True\<rparr>) } }"

definition set_pbuf :: "bytes \<Rightarrow> 'a wst_scheme \<Rightarrow> 'a wst_scheme" where
  "set_pbuf b st = upd_env (\<lambda>e. e\<lparr>me_pbuf := b\<rparr>) st"

text \<open>A new key with data that is too big for a node; an empty sub-page in \<open>me_pbuf\<close> is converted.\<close>

definition put_big :: "'a wst_scheme \<Rightarrow> mcursor \<Rightarrow> put \<Rightarrow> dataval \<Rightarrow> 'a put_next" where
  "put_big st m p data = do {
     let fp = set_mp_upper PAGEHDRSZ (set_mp_lower PAGEHDRSZ (set_mp_pad (mv_size data) (me_pbuf (st_env st))));
     prep_subDB (set_pbuf fp st) m p fp (P_LEAF OR P_DIRTY) PAGEHDRSZ }"

text \<open>After the sub-page or sub-database is ready, the old node goes.\<close>

definition drop_old :: "'a put_next \<Rightarrow> 'a put_next" where
  "drop_old r = do {
     (s, st, m, p) \<leftarrow> r;
     case s of
       New_sub rdata \<Rightarrow> do {
         st \<leftarrow> cursor_node_del st (fst m) 0;
         Some (New_sub rdata, st, m, p) }
     | _ \<Rightarrow> Some (s, st, m, p) }"

text \<open>A sub-page of \<open>xsize\<close> bytes in \<open>me_pbuf\<close>, unless that is too big; \<open>fp\<close> is the old one, of \<open>oldsize\<close> bytes.\<close>

definition put_sub_page ::
    "'a wst_scheme \<Rightarrow> mcursor \<Rightarrow> put \<Rightarrow> bytes \<Rightarrow> nat \<Rightarrow> nat \<Rightarrow> nat \<Rightarrow> nat \<Rightarrow> bool \<Rightarrow> 'a put_next" where
  "put_sub_page st m p fp ksize oldsize xsize offset in_pbuf =
     (if NODESIZE + ksize + xsize > me_nodemax (st_env st)
      then drop_old (prep_subDB st m p fp (mp_flags fp AND NOT P_SUBP) oldsize)
      else do {
        let buf = me_pbuf (st_env st);
        buf \<leftarrow> (if in_pbuf then Some buf else fill_sub buf fp (mp_flags fp) offset oldsize);
        x \<leftarrow> get_bytes buf 0 xsize;
        drop_old (Some (New_sub (whole x), set_pbuf buf st, m,
          p\<lparr>pt_flags := pt_flags p OR F_DUPDATA, pt_sub := True\<rparr>)) })"

text \<open>\<open>sizeof(MDB_page)\<close>, where \<open>fp+1\<close> points.\<close>

definition SIZEOF_PAGE :: nat where "SIZEOF_PAGE = 24"

text \<open>The second item of a key: a sub-page for both.\<close>

definition put_second ::
    "'a wst_scheme \<Rightarrow> mcursor \<Rightarrow> put \<Rightarrow> bytes \<Rightarrow> nat \<Rightarrow> nat \<Rightarrow> 'a put_next" where
  "put_second st m p olddata ksize dsize = do {
     d \<leftarrow> mc_db st (fst m);
     let fixed = has (md_flags d) MDB_DUPFIXED;
     let osize = length olddata;
     fp \<leftarrow> put_bytes (me_pbuf (st_env st)) SIZEOF_PAGE olddata;
     let fp = set_mp_lower PAGEHDRSZ (set_mp_flags (P_LEAF OR P_DIRTY OR P_SUBP) fp);
     let fp = (if fixed then set_mp_pad dsize (set_mp_flags (mp_flags fp OR P_LEAF2) fp) else fp);
     let xsize = PAGEHDRSZ + osize + dsize +
       (if fixed then 2 * dsize else 2 * (2 + NODESIZE) + osize mod 2 + dsize mod 2);
     let fp = set_mp_upper xsize fp;
     put_sub_page (set_pbuf fp st) m (p\<lparr>pt_dkey := olddata\<rparr>) fp ksize xsize xsize 0 True }"

text \<open>An item more for the sub-page at offset \<open>a\<close>, which has room or is made larger.\<close>

definition put_more_dups ::
    "'a wst_scheme \<Rightarrow> mcursor \<Rightarrow> put \<Rightarrow> page_ptr \<Rightarrow> bytes \<Rightarrow> nat \<Rightarrow> nat \<Rightarrow> nat \<Rightarrow> nat \<Rightarrow> 'a put_next" where
  "put_more_dups st m p mptr mp a oldsize ksize dsize = do {
     d \<leftarrow> mc_db st (fst m);
     fp \<leftarrow> (if a + PAGEHDRSZ \<le> length mp then Some (drop a mp) else None);
     let offset = (if pt_flags p = MDB_CURRENT then 0
       else if \<not> has (md_flags d) MDB_DUPFIXED then EVEN (NODESIZE + 2 + dsize)
       else if SIZELEFT fp < mp_pad fp then 4 * mp_pad fp else 0);
     if pt_flags p = MDB_CURRENT \<or> has (md_flags d) MDB_DUPFIXED \<and> \<not> SIZELEFT fp < mp_pad fp then do {
       let sp = Sub_page mptr a;
       st \<leftarrow> put_page st sp (set_mp_pgno (mp_pgno mp) (set_mp_flags (mp_flags fp OR P_DIRTY) fp));
       mx \<leftarrow> snd m;
       mx \<leftarrow> set_pg mx 0 (Some sp);
       Some (Put_sub, st, (fst m, Some mx), p\<lparr>pt_flags := pt_flags p OR F_DUPDATA\<rparr>) }
     else put_sub_page st m p fp ksize oldsize (oldsize + offset) offset False }"

section \<open>Overwriting an item\<close>

text \<open>
  The new data for an item with overflow pages: if they are enough and dirty they are overwritten. The first
  result says whether the put is done then.
\<close>

definition own_overflow ::
    "'a wst_scheme \<Rightarrow> page_ptr \<Rightarrow> u64 \<Rightarrow> nat \<Rightarrow> nat \<Rightarrow> nat \<Rightarrow> bool \<Rightarrow> (int \<times> 'a wst_scheme \<times> page_ptr) option" where
  "own_overflow st omp pg level ovpages dsize reserve =
     (if level \<le> 1 then Some (0, st, omp)
      else case mdb_page_malloc st ovpages of
        (st, None) \<Rightarrow> Some (ENOMEM, st, omp)
      | (st, Some np) \<Rightarrow> do {
          (rc, dl) \<leftarrow> mdb_mid2l_insert (mt_dirty_list (st_txn st)) (pg, np);
          if rc \<noteq> 0 then None
          else do {
            let sz = me_psize (st_env st) * ovpages;
            let off = (PAGEHDRSZ + dsize) div 8 * 8;
            ob \<leftarrow> page_at st omp;
            nb \<leftarrow> page_at st np;
            nb \<leftarrow>
              (if reserve then do { bs \<leftarrow> get_bytes ob 0 sz; put_bytes nb 0 bs }
               else if sz < off then None
               else do {
                 bs \<leftarrow> get_bytes ob off (sz - off);
                 nb \<leftarrow> put_bytes nb off bs;
                 bs \<leftarrow> get_bytes ob 0 PAGEHDRSZ;
                 put_bytes nb 0 bs });
            st \<leftarrow> put_page (upd_txn (\<lambda>t. t\<lparr>mt_dirty_list := dl\<rparr>) st) np nb;
            Some (0, st, np) } })"

definition put_overflow ::
    "'a wst_scheme \<Rightarrow> cursor \<Rightarrow> page_ptr \<Rightarrow> nat \<Rightarrow> u64 \<Rightarrow> dataval \<Rightarrow> u32 \<Rightarrow>
     (bool \<times> int \<times> 'a wst_scheme \<times> cursor \<times> put_out) option" where
  "put_overflow st mc mptr leaf pg data flags = do {
     let psize = me_psize (st_env st);
     (rc, st, r) \<leftarrow> mdb_page_get st mc pg;
     if rc \<noteq> 0 then Some (True, rc, st, mc, No_out)
     else do {
       (omp, level) \<leftarrow> r;
       ob \<leftarrow> page_at st omp;
       let ovpages = mp_pages ob;
       let enough = (ovpages \<ge> OVPAGES (mv_size data) psize);
       (rc, st, omp, level) \<leftarrow>
         (if enough \<and> \<not> has (mp_flags ob) P_DIRTY \<and> (level \<noteq> 0 \<or> has (me_flags (st_env st)) MDB_WRITEMAP) then do {
            (rc, st, np) \<leftarrow> mdb_page_unspill st omp;
            Some (rc, st, case np of Some np \<Rightarrow> np | None \<Rightarrow> omp, 0) }
          else Some (0, st, omp, level));
       if rc \<noteq> 0 then Some (True, rc, st, mc, No_out)
       else do {
         ob \<leftarrow> page_at st omp;
         if enough \<and> has (mp_flags ob) P_DIRTY then do {
           let reserve = F_ISSET flags MDB_RESERVE;
           (rc, st, omp) \<leftarrow> own_overflow st omp pg level ovpages (mv_size data) reserve;
           if rc \<noteq> 0 then Some (True, rc, st, mc, No_out)
           else do {
             mp \<leftarrow> page_at st mptr;
             mp \<leftarrow> SETDSZ mp leaf (mv_size data);
             st \<leftarrow> put_page st mptr mp;
             if reserve then Some (True, MDB_SUCCESS, st, mc, Room_at omp PAGEHDRSZ)
             else do {
               bs \<leftarrow> get_bytes (mv_data data) 0 (mv_size data);
               ob \<leftarrow> page_at st omp;
               ob \<leftarrow> put_bytes ob PAGEHDRSZ bs;
               st \<leftarrow> put_page st omp ob;
               Some (True, MDB_SUCCESS, st, mc, No_out) } } }
         else do {
           (rc, st, mc) \<leftarrow> mdb_ovpage_free st mc omp;
           Some (rc \<noteq> 0, rc, st, mc, No_out) } } } }"

text \<open>The label \<open>current\<close>; \<open>leaf\<close> is the node in the page \<open>mp\<close> at \<open>mptr\<close>.\<close>

definition put_current ::
    "'a wst_scheme \<Rightarrow> mcursor \<Rightarrow> nat option \<Rightarrow> put \<Rightarrow> page_ptr \<Rightarrow> bytes \<Rightarrow> nat \<Rightarrow> bytes \<Rightarrow> dataval \<Rightarrow> 'a put_next" where
  "put_current st m trk p mptr mp leaf key data = do {
     f \<leftarrow> mn_flags mp leaf;
     a \<leftarrow> NODEDATA mp leaf;
     osize \<leftarrow> NODEDSZ mp leaf;
     if has (ucast f XOR pt_flags p) F_SUBDATA then Some (Put_return MDB_INCOMPATIBLE No_out, st, m, p)
     else if F_ISSET f (ucast F_BIGDATA) then do {
       pg \<leftarrow> load mp a 8;
       (fin, rc, st, mc, out) \<leftarrow> put_overflow st (fst m) mptr leaf (of_nat pg) data (pt_flags p);
       if fin then Some (Put_return rc out, st, (mc, snd m), p)
       else drop_old (Some (New_sub data, st, (mc, snd m), p)) }
     else if mv_size data = osize then
       if F_ISSET (pt_flags p) MDB_RESERVE then Some (Put_return MDB_SUCCESS (Room_at mptr a), st, m, p)
       else if \<not> has (mc_flags (fst m)) C_SUB then do {
         bs \<leftarrow> get_bytes (mv_data data) 0 (mv_size data);
         mp \<leftarrow> put_bytes mp a bs;
         st \<leftarrow> put_page st mptr mp;
         Some (Put_return MDB_SUCCESS No_out, st, m, p) }
       else do {
         mp \<leftarrow> put_bytes mp (NODEKEY leaf) key;
         st \<leftarrow> put_page st mptr mp;
         (rc, st, m) \<leftarrow> fix_parent st m trk key;
         Some (Put_return rc No_out, st, m, p) }
     else drop_old (Some (New_sub data, st, m, p)) }"

text \<open>The label \<open>more\<close>: there is an item with the key.\<close>

definition put_more ::
    "'a wst_scheme \<Rightarrow> mcursor \<Rightarrow> nat option \<Rightarrow> put \<Rightarrow> bytes \<Rightarrow> dataval \<Rightarrow> 'a put_next" where
  "put_more st m trk p key data = do {
     mptr \<leftarrow> pg_at (fst m) (mc_top (fst m));
     mp \<leftarrow> page_at st mptr;
     k \<leftarrow> ki_at (fst m);
     leaf \<leftarrow> NODEPTR mp k;
     osize \<leftarrow> NODEDSZ mp leaf;
     a \<leftarrow> NODEDATA mp leaf;
     f \<leftarrow> mn_flags mp leaf;
     d \<leftarrow> mc_db st (fst m);
     if \<not> F_ISSET (md_flags d) MDB_DUPSORT then put_current st m trk p mptr mp leaf key data
     else do {
       ks \<leftarrow> NODEKSZ mp leaf;
       let st = set_pbuf (set_mp_pgno (mp_pgno mp) (me_pbuf (st_env st))) st;
       if \<not> F_ISSET f (ucast F_DUPDATA) then
         if pt_flags p = MDB_CURRENT then put_current st m trk p mptr mp leaf key data
         else do {
           old \<leftarrow> get_bytes mp a osize;
           dx \<leftarrow> mc_dbx st (fst m);
           dcmp \<leftarrow> md_dcmp dx;
           new \<leftarrow> get_bytes (mv_data data) 0 (mv_size data);
           c \<leftarrow> call_cmp (if NEED_CMP_CLONG dcmp osize then Cmp_long else dcmp) new old;
           if c = 0 then
             if has (pt_flags p) (MDB_NODUPDATA OR MDB_APPENDDUP) then Some (Put_return MDB_KEYEXIST No_out, st, m, p)
             else put_current st m trk p mptr mp leaf key data
           else put_second st m p old ks (mv_size data) }
       else if has f (ucast F_SUBDATA)
       then Some (Put_sub, st, m, p\<lparr>pt_flags := pt_flags p OR F_DUPDATA OR F_SUBDATA\<rparr>)
       else put_more_dups st m p mptr mp a osize ks (mv_size data) } }"

section \<open>Adding the node\<close>

text \<open>A tracked cursor on the page that the node was added to.\<close>

definition put_adjust :: "cursor \<Rightarrow> bytes \<Rightarrow> bool \<Rightarrow> mcursor \<Rightarrow> mcursor option" where
  "put_adjust mc mp insert_key m = (
     let m3 = fst m; i = mc_top mc in
     if mc_snum m3 < mc_snum mc then Some m
     else do {
       p \<leftarrow> aget (mc_pg m3) i;
       q \<leftarrow> aget (mc_pg mc) i;
       if p \<noteq> q then Some m
       else do {
         k \<leftarrow> aget (mc_ki m3) i;
         k0 \<leftarrow> aget (mc_ki mc) i;
         m3 \<leftarrow> (if k \<ge> k0 \<and> insert_key then set_ki_at m3 i (k + 1) else Some m3);
         p \<leftarrow> p;
         XCURSOR_REFRESH (m3, snd m) i p mp } })"

text \<open>The label \<open>new_sub\<close>.\<close>

definition put_node ::
    "'a wst_scheme \<Rightarrow> mcursor \<Rightarrow> nat option \<Rightarrow> put \<Rightarrow> bytes \<Rightarrow> dataval \<Rightarrow> 'a lres" where
  "put_node st m trk p key rdata = do {
     mp \<leftarrow> top_page st (fst m);
     let flags = pt_flags p;
     let nflags = flags AND NODE_ADD_FLAGS;
     let nsize = (if IS_LEAF2 mp then length key else mdb_leaf_size (me_nodemax (st_env st)) key (mv_size rdata));
     if SIZELEFT mp < nsize then do {
       let nflags = (if flags AND (F_DUPDATA OR F_SUBDATA) = F_DUPDATA then nflags AND NOT MDB_APPEND else nflags);
       mdb_page_split st m trk key (Some rdata) P_INVALID (if pt_new p then nflags else nflags OR MDB_SPLIT_REPLACE) }
     else do {
       k \<leftarrow> ki_at (fst m);
       (rc, st, mc, loc) \<leftarrow> mdb_node_add st (fst m) k (Some key) (Some rdata) 0 nflags;
       if rc \<noteq> 0 then Some (rc, st, (mc, snd m), loc)
       else do {
         mp \<leftarrow> top_page st mc;
         st \<leftarrow> upd_cursors st (mc_dbi mc) (on_m3 mc (\<lambda>_. put_adjust mc mp (pt_new p)));
         Some (0, st, (mc, snd m), loc) } } }"

section \<open>The sub-cursor\<close>

text \<open>The tracked cursors on the same page, when its sub-page or sub-database is new or has moved.\<close>

definition sub_adjust :: "mcursor \<Rightarrow> cursor \<Rightarrow> page_ptr \<Rightarrow> bytes \<Rightarrow> bool \<Rightarrow> bool \<Rightarrow> mcursor \<Rightarrow> mcursor option" where
  "sub_adjust m mx mptr mp new_dupdata insert_key m2 = (
     let i = mc_top (fst m) in
     if mc_snum (fst m2) < mc_snum (fst m) \<or> \<not> has_init (fst m2) then Some m2
     else do {
       p \<leftarrow> aget (mc_pg (fst m2)) i;
       if p \<noteq> Some mptr then Some m2
       else do {
         k \<leftarrow> aget (mc_ki (fst m2)) i;
         k0 \<leftarrow> aget (mc_ki (fst m)) i;
         if k = k0 then mdb_xcursor_init2 m2 mx new_dupdata
         else if \<not> insert_key then XCURSOR_REFRESH m2 i mptr mp
         else Some m2 } })"

text \<open>
  The label \<open>put_sub\<close>: the data goes into the sub-database. The results are \<open>rc\<close>, and whether the label \<open>bad_sub\<close>
  comes next, and \<open>insert_data\<close>.
\<close>

definition sub_flags :: "u32 \<Rightarrow> u32" where
  "sub_flags flags =
     (if flags AND (MDB_CURRENT OR MDB_APPENDDUP) = MDB_CURRENT then MDB_CURRENT OR MDB_NOSPILL
      else if has flags MDB_NODUPDATA then MDB_NOOVERWRITE OR MDB_NOSPILL else MDB_NOSPILL)"

text \<open>The sub-cursor before its puts, and the first of them: the item that was there alone.\<close>

definition sub_begin ::
    "'a sub_put \<Rightarrow> 'a wst_scheme \<Rightarrow> mcursor \<Rightarrow> nat option \<Rightarrow> put \<Rightarrow> (int \<times> 'a wst_scheme \<times> mcursor \<times> put \<times> nat) option" where
  "sub_begin sub st m trk p = do {
     mptr \<leftarrow> pg_at (fst m) (mc_top (fst m));
     mp \<leftarrow> page_at st mptr;
     k \<leftarrow> ki_at (fst m);
     leaf \<leftarrow> NODEPTR mp k;
     m \<leftarrow> (if pt_flags p AND (MDB_CURRENT OR MDB_APPENDDUP) = MDB_CURRENT then Some m
          else mdb_xcursor_init1 st m mptr mp leaf);
     mx \<leftarrow> snd m;
     mx \<leftarrow> (case pt_root p of None \<Rightarrow> Some mx | Some r \<Rightarrow> set_pg mx 0 (Some r));
     if pt_dkey p \<noteq> [] then do {
       (rc, st, mx) \<leftarrow> sub st mx trk (pt_dkey p) (sub_flags (pt_flags p));
       Some (rc, st, (fst m, Some mx), if rc = 0 then p\<lparr>pt_dkey := []\<rparr> else p, leaf) }
     else Some (0, st, (fst m, Some mx), p, leaf) }"

definition put_in_sub ::
    "'a sub_put \<Rightarrow> 'a wst_scheme \<Rightarrow> mcursor \<Rightarrow> nat option \<Rightarrow> put \<Rightarrow> dataval \<Rightarrow>
     (bool \<times> int \<times> 'a wst_scheme \<times> mcursor \<times> put \<times> bool) option" where
  "put_in_sub sub st m trk p data = do {
     let new_dupdata = (pt_dkey p \<noteq> []);
     (rc, st, m, p, leaf) \<leftarrow> sub_begin sub st m trk p;
     if rc \<noteq> 0 then Some (True, rc, st, m, p, False)
     else do {
       mptr \<leftarrow> pg_at (fst m) (mc_top (fst m));
       mp \<leftarrow> page_at st mptr;
       f \<leftarrow> mn_flags mp leaf;
       mx \<leftarrow> snd m;
       st \<leftarrow> (if \<not> has f (ucast F_SUBDATA) \<or> pt_root p \<noteq> None
             then upd_cursors st (mc_dbi (fst m)) (sub_adjust m mx mptr mp new_dupdata (pt_new p)) else Some st);
       x \<leftarrow> mc_own mx;
       let ecount = md_entries (mx_db x);
       key \<leftarrow> get_bytes (mv_data data) 0 (mv_size data);
       let xflags = sub_flags (pt_flags p);
       (rc, st, mx) \<leftarrow> sub st mx trk key (if has (pt_flags p) MDB_APPENDDUP then xflags OR MDB_APPEND else xflags);
       x \<leftarrow> mc_own mx;
       st \<leftarrow>
         (if has (pt_flags p) F_SUBDATA then do {
            mp \<leftarrow> page_at st mptr;
            a \<leftarrow> NODEDATA mp leaf;
            mp \<leftarrow> put_bytes mp a (db_bytes (mx_db x));
            put_page st mptr mp }
          else Some st);
       Some (False, rc, st, (fst m, Some mx), p, md_entries (mx_db x) \<noteq> ecount) } }"

section \<open>\<open>mdb_cursor_put\<close>\<close>

text \<open>The label \<open>bad_sub\<close>.\<close>

definition bad_sub :: "int \<Rightarrow> int" where
  "bad_sub rc = (if rc = MDB_KEYEXIST then MDB_PROBLEM else rc)"

definition out_of :: "loc option \<Rightarrow> put_out" where
  "out_of loc = (case loc of None \<Rightarrow> No_out | Some (p, a) \<Rightarrow> Room_at p a)"

text \<open>
  One item, from a step on: the node, then the data in the sub-database, then the counts. The last result says
  whether the put goes on to the next item of \<open>MDB_MULTIPLE\<close>.
\<close>

definition put_step ::
    "'a sub_put \<Rightarrow> put_goto \<Rightarrow> 'a wst_scheme \<Rightarrow> mcursor \<Rightarrow> nat option \<Rightarrow> put \<Rightarrow> bytes \<Rightarrow> dataval \<Rightarrow> nat \<Rightarrow>
     (int \<times> 'a wst_scheme \<times> mcursor \<times> put_out \<times> nat \<times> put \<times> bool) option" where
  "put_step sub s st m trk p key data mcount =
     (case s of
        Put_return rc out \<Rightarrow> Some (rc, st, m, out, mcount, p, False)
      | _ \<Rightarrow> do {
          (rc, st, m, loc) \<leftarrow> (case s of New_sub rdata \<Rightarrow> put_node st m trk p key rdata | _ \<Rightarrow> Some (0, st, m, None));
          let out = out_of loc;
          if rc \<noteq> 0 then Some (rc, txn_error st, m, out, mcount, p, False)
          else do {
            (bad, rc, st, m, p, insert_data) \<leftarrow>
              (if pt_sub p \<or> s = Put_sub then put_in_sub sub st m trk p data
               else Some (False, 0, st, m, p, pt_new p));
            if bad then Some (bad_sub rc, txn_error st, m, out, mcount, p, False)
            else do {
              (st, mc) \<leftarrow> upd_mc_db st (fst m) (\<lambda>d. if insert_data then d\<lparr>md_entries := md_entries d + 1\<rparr> else d);
              if pt_new p \<and> rc \<noteq> 0 then Some (bad_sub rc, txn_error st, (mc, snd m), out, mcount, p, False)
              else do {
                let mc = (if pt_new p then mc\<lparr>mc_flags := mc_flags mc OR C_INITIALIZED\<rparr> else mc);
                if has (pt_flags p) MDB_MULTIPLE \<and> rc = 0 then Some (rc, st, (mc, snd m), out, mcount + 1, p, True)
                else Some (rc, st, (mc, snd m), out, mcount, p, False) } } } })"

text \<open>The loop over the items: \<open>k\<close> more may follow the current one.\<close>

fun put_items ::
    "'a sub_put \<Rightarrow> put_goto \<Rightarrow> 'a wst_scheme \<Rightarrow> mcursor \<Rightarrow> nat option \<Rightarrow> put \<Rightarrow> bytes \<Rightarrow> dataval \<Rightarrow> nat \<Rightarrow> nat \<Rightarrow> 'a put_res" where
  "put_items sub s st m trk p key data mcount 0 = do {
     (rc, st, m, out, mcount, _, _) \<leftarrow> put_step sub s st m trk p key data mcount;
     Some (rc, st, m, out, mcount) }"
| "put_items sub s st m trk p key data mcount (Suc k) = do {
     (rc, st, m, out, mcount, p, again) \<leftarrow> put_step sub s st m trk p key data mcount;
     if again then do {
       let data = data\<lparr>mv_data := drop (mv_size data) (mv_data data)\<rparr>;
       (s, st, m, p) \<leftarrow> put_more st m trk (p\<lparr>pt_new := False\<rparr>) key data;
       put_items sub s st m trk p key data mcount k }
     else Some (rc, st, m, out, mcount) }"

text \<open>From the point where the cursor is positioned and its pages are writable; \<open>rc\<close> is 0 when the key exists.\<close>

definition put_write ::
    "'a sub_put \<Rightarrow> int \<Rightarrow> 'a wst_scheme \<Rightarrow> mcursor \<Rightarrow> nat option \<Rightarrow> bytes \<Rightarrow> dataval \<Rightarrow> nat \<Rightarrow> u32 \<Rightarrow> 'a put_res" where
  "put_write sub rc st m trk key data dcount flags = do {
     let p = \<lparr>pt_flags = flags, pt_new = (rc \<noteq> 0), pt_sub = False, pt_root = None, pt_dkey = []\<rparr>;
     let k = (if has flags MDB_MULTIPLE then dcount - 1 else 0);
     d \<leftarrow> mc_db st (fst m);
     mp \<leftarrow> top_page st (fst m);
     if rc \<noteq> 0 then do {
       (s, st, m, p) \<leftarrow>
         (if has (md_flags d) MDB_DUPSORT \<and> LEAFSIZE key (mv_size data) > me_nodemax (st_env st) then put_big st m p data
          else Some (New_sub data, st, m, p));
       put_items sub s st m trk p key data 0 k }
     else if IS_LEAF2 mp then
       let ksize = unat (md_pad d) in
       if length key \<noteq> ksize then Some (MDB_BAD_VALSIZE, st, m, No_out, 0)
       else do {
         mptr \<leftarrow> pg_at (fst m) (mc_top (fst m));
         i \<leftarrow> ki_at (fst m);
         mp \<leftarrow> put_bytes mp (LEAF2KEY i ksize) key;
         st \<leftarrow> put_page st mptr mp;
         (rc, st, m) \<leftarrow> fix_parent st m trk key;
         Some (rc, st, m, No_out, 0) }
     else do {
       (s, st, m, p) \<leftarrow> put_more st m trk p key data;
       put_items sub s st m trk p key data 0 k } }"

definition cursor_put_body ::
    "'a sub_put \<Rightarrow> 'a wst_scheme \<Rightarrow> mcursor \<Rightarrow> nat option \<Rightarrow> bytes \<Rightarrow> dataval \<Rightarrow> nat \<Rightarrow> u32 \<Rightarrow> 'a put_res" where
  "cursor_put_body sub st m trk key data dcount flags = do {
     rc \<leftarrow> put_check st (fst m) key (mv_size data) flags;
     if rc \<noteq> 0 then Some (rc, st, m, No_out, 0)
     else do {
       let nospill = has flags MDB_NOSPILL;
       let flags = flags AND NOT MDB_NOSPILL;
       (fin, rc, st, m, out) \<leftarrow> put_position st m key flags;
       if fin then Some (rc, st, m, out, 0)
       else do {
         let m = drop_del m;
         let dsize = (if has flags MDB_MULTIPLE then mv_size data * dcount else mv_size data);
         (rc2, st, m) \<leftarrow> (if nospill then Some (0, st, m) else do {
            (rc2, st) \<leftarrow> mdb_page_spill st m (Some (key, dsize)) istack0;
            Some (rc2, st, m) });
         if rc2 \<noteq> 0 then Some (rc2, st, m, No_out, 0)
         else do {
           (rc2, st, mc) \<leftarrow> (if rc = MDB_NO_ROOT then put_new_root st (fst m) else mdb_cursor_touch st (fst m));
           let m = (mc, snd m);
           if rc2 \<noteq> 0 then Some (rc2, st, m, No_out, 0)
           else put_write sub rc st m trk key data dcount flags } } } }"

text \<open>A sub-database has no duplicates, so the sub-cursor's put does not call itself.\<close>

definition no_sub_put :: "'a sub_put" where
  "no_sub_put st mx trk key flags = None"

definition sub_cursor_put :: "'a sub_put" where
  "sub_cursor_put st mx trk key flags = do {
     (rc, st, m, _, _) \<leftarrow> cursor_put_body no_sub_put st (mx, None) trk key \<lparr>mv_size = 0, mv_data = []\<rparr> 0 flags;
     Some (rc, st, fst m) }"

definition mdb_cursor_put ::
    "'a wst_scheme \<Rightarrow> mcursor \<Rightarrow> nat option \<Rightarrow> bytes \<Rightarrow> dataval \<Rightarrow> nat \<Rightarrow> u32 \<Rightarrow> 'a put_res" where
  "mdb_cursor_put = cursor_put_body sub_cursor_put"

text \<open>\<open>key\<close> and \<open>data\<close> are \<open>None\<close> for a null pointer.\<close>

definition mdb_put ::
    "'a wst_scheme \<Rightarrow> nat \<Rightarrow> bytes option \<Rightarrow> dataval option \<Rightarrow> u32 \<Rightarrow> (int \<times> 'a wst_scheme \<times> put_out) option" where
  "mdb_put st dbi key data flags = do {
     ex \<leftarrow> TXN_DBI_EXIST (st_txn st) dbi DB_USRVALID;
     case (key, data) of
       (Some key, Some data) \<Rightarrow>
         if \<not> ex then Some (EINVAL, st, No_out)
         else if has flags (NOT (MDB_NOOVERWRITE OR MDB_NODUPDATA OR MDB_RESERVE OR MDB_APPEND OR MDB_APPENDDUP))
         then Some (EINVAL, st, No_out)
         else if has (mt_flags (st_txn st)) (MDB_TXN_RDONLY OR MDB_TXN_BLOCKED)
         then Some (if has (mt_flags (st_txn st)) MDB_TXN_RDONLY then EACCES else MDB_BAD_TXN, st, No_out)
         else do {
           (st, m) \<leftarrow> mdb_cursor_init st raw_cursor dbi (Some raw_xcursor);
           (rc, st, _, out, _) \<leftarrow> mdb_cursor_put st m (Some 0) key data 0 flags;
           Some (rc, st, out) }
     | _ \<Rightarrow> Some (EINVAL, st, No_out) }"

end
