(* ===== verification/Cursor_Del.thy ===== *)
theory Cursor_Del
  imports Cursor_Put
begin

text \<open>
  Deleting: \<open>mdb_drop0\<close>, which frees the pages of a tree, \<open>mdb_cursor_del\<close>, \<open>mdb_del0\<close> and
  \<open>mdb_del\<close>. \<open>mdb_drop0\<close> and \<open>mdb_cursor_del\<close> call themselves on the sub-cursor, which has none
  of its own.
\<close>

type_synonym 'a sub_del = "'a wst_scheme \<Rightarrow> cursor \<Rightarrow> nat option \<Rightarrow> (int \<times> 'a wst_scheme \<times> cursor) option"

definition no_sub_del :: "'a sub_del" where
  "no_sub_del st mx trk = None"

section \<open>\<open>mdb_drop0\<close>\<close>

text \<open>The overflow pages of a node are freed.\<close>

definition drop_overflow :: "'a wst_scheme \<Rightarrow> cursor \<Rightarrow> bytes \<Rightarrow> nat \<Rightarrow> (int \<times> 'a wst_scheme \<times> cursor) option" where
  "drop_overflow st mc mp ni = do {
     a \<leftarrow> NODEDATA mp ni;
     pg \<leftarrow> load mp a 8;
     (rc, st, r) \<leftarrow> mdb_page_get st mc (of_nat pg);
     if rc \<noteq> 0 then Some (rc, st, mc)
     else do {
       (omp, _) \<leftarrow> r;
       ob \<leftarrow> page_at st omp;
       if \<not> IS_OVERFLOW ob then None
       else do {
         (rc, st) \<leftarrow> free_later st (of_nat pg) (mp_pages ob);
         if rc \<noteq> 0 then Some (rc, st, mc)
         else do {
           (st, mc) \<leftarrow> upd_mc_db st mc (\<lambda>d. d\<lparr>md_overflow_pages := md_overflow_pages d - of_nat (mp_pages ob)\<rparr>);
           Some (0, st, mc) } } } }"

text \<open>The nodes from \<open>i\<close> on of a leaf page, \<open>k\<close> of them; the last result is \<open>i\<close> after the loop.\<close>

fun drop_nodes ::
    "'a sub_del \<Rightarrow> 'a wst_scheme \<Rightarrow> mcursor \<Rightarrow> bool \<Rightarrow> page_ptr \<Rightarrow> bytes \<Rightarrow> nat \<Rightarrow> nat \<Rightarrow> (int \<times> 'a wst_scheme \<times> mcursor \<times> nat) option" where
  "drop_nodes sub st m subs mptr mp i 0 = Some (0, st, m, i)"
| "drop_nodes sub st m subs mptr mp i (Suc k) = do {
     ni \<leftarrow> NODEPTR mp i;
     f \<leftarrow> mn_flags mp ni;
     if has f (ucast F_BIGDATA) then do {
       (rc, st, mc) \<leftarrow> drop_overflow st (fst m) mp ni;
       if rc \<noteq> 0 then Some (rc, st, (mc, snd m), i)
       else do {
         d \<leftarrow> mc_db st mc;
         if md_overflow_pages d = 0 \<and> \<not> subs then Some (0, st, (mc, snd m), i)
         else drop_nodes sub st (mc, snd m) subs mptr mp (i + 1) k } }
     else if subs \<and> has f (ucast F_SUBDATA) then do {
       m \<leftarrow> mdb_xcursor_init1 st m mptr mp ni;
       mx \<leftarrow> snd m;
       (rc, st, mx) \<leftarrow> sub st mx None;
       if rc \<noteq> 0 then Some (rc, st, (fst m, Some mx), i)
       else drop_nodes sub st (fst m, Some mx) subs mptr mp (i + 1) k }
     else drop_nodes sub st m subs mptr mp (i + 1) k }"

text \<open>The children of a branch page are freed.\<close>

fun free_children :: "'a wst_scheme \<Rightarrow> bytes \<Rightarrow> nat \<Rightarrow> nat \<Rightarrow> 'a wst_scheme option" where
  "free_children st mp i 0 = Some st"
| "free_children st mp i (Suc k) = do {
     ni \<leftarrow> NODEPTR mp i;
     pg \<leftarrow> NODEPGNO mp ni;
     il \<leftarrow> mdb_midl_xappend (mt_free_pgs (st_txn st)) pg;
     free_children (upd_txn (\<lambda>t. t\<lparr>mt_free_pgs := il\<rparr>) st) mp (i + 1) k }"

definition drop_branch :: "'a wst_scheme \<Rightarrow> bytes \<Rightarrow> (int \<times> 'a wst_scheme) option" where
  "drop_branch st mp = do {
     let n = NUMKEYS mp;
     let (mem, st) = ask_mem st;
     (rc, il) \<leftarrow> mdb_midl_need mem (mt_free_pgs (st_txn st)) (of_nat n);
     let st = upd_txn (\<lambda>t. t\<lparr>mt_free_pgs := il\<rparr>) st;
     if rc \<noteq> 0 then Some (rc, st)
     else do {
       st \<leftarrow> free_children st mp 0 n;
       Some (0, st) } }"

text \<open>The label \<open>pop\<close>: to the beginning of the previous level; \<open>mx\<close> is the cursor at the start.\<close>

definition drop_pop :: "cursor \<Rightarrow> cursor \<Rightarrow> cursor option" where
  "drop_pop mx mc = (
     let mc = mdb_cursor_pop mc; n = mc_snum mc in
     do {
       p0 \<leftarrow> aget (mc_pg mc) 0;
       mc \<leftarrow> set_ki_at mc 0 0;
       Some (if n = 0 then mc
         else mc\<lparr>mc_ki := replicate n 0 @ drop n (mc_ki mc), mc_pg := p0 # drop 1 (take n (mc_pg mx)) @ drop n (mc_pg mc)\<rparr>) })"

text \<open>One round of the loop; the first result says that it ends here.\<close>

definition drop_page ::
    "'a sub_del \<Rightarrow> 'a wst_scheme \<Rightarrow> mcursor \<Rightarrow> cursor \<Rightarrow> bool \<Rightarrow> (bool \<times> int \<times> 'a wst_scheme \<times> mcursor) option" where
  "drop_page sub st m mx subs = do {
     mptr \<leftarrow> pg_at (fst m) (mc_top (fst m));
     mp \<leftarrow> page_at st mptr;
     let n = NUMKEYS mp;
     (rc, st, m, i) \<leftarrow>
       (if IS_LEAF mp then drop_nodes sub st m subs mptr mp 0 n
        else do { (rc, st) \<leftarrow> drop_branch st mp; Some (rc, st, m, n) });
     d \<leftarrow> mc_db st (fst m);
     if rc \<noteq> 0 then Some (True, rc, st, m)
     else if IS_LEAF mp \<and> \<not> subs \<and> md_overflow_pages d = 0 then do {
       mc \<leftarrow> drop_pop mx (fst m);
       Some (False, 0, st, (mc, snd m)) }
     else if mc_top (fst m) = 0 then Some (True, 0, st, m)
     else do {
       mc \<leftarrow> set_ki (fst m) i;
       (rc, st, mc) \<leftarrow> mdb_cursor_sibling st mc True;
       if rc = 0 then Some (False, 0, st, (mc, snd m))
       else if rc \<noteq> MDB_NOTFOUND then Some (True, rc, st, (mc, snd m))
       else do {
         mc \<leftarrow> drop_pop mx mc;
         Some (False, 0, st, (mc, snd m)) } } }"

partial_function (option) drop_loop ::
    "'a sub_del \<Rightarrow> 'a wst_scheme \<Rightarrow> mcursor \<Rightarrow> cursor \<Rightarrow> bool \<Rightarrow> (int \<times> 'a wst_scheme \<times> mcursor) option" where
  "drop_loop sub st m mx subs =
     (if mc_snum (fst m) = 0 then Some (0, st, m)
      else do {
        (fin, rc, st, m) \<leftarrow> drop_page sub st m mx subs;
        if fin then Some (rc, st, m) else drop_loop sub st m mx subs })"

definition drop0_body :: "'a sub_del \<Rightarrow> 'a wst_scheme \<Rightarrow> mcursor \<Rightarrow> bool \<Rightarrow> 'a wres" where
  "drop0_body sub st m subs = do {
     (rc, st, mc) \<leftarrow> mdb_page_search no_touch st (fst m) None MDB_PS_FIRST;
     (rc, st, m) \<leftarrow>
       (if rc = MDB_SUCCESS then do {
          d \<leftarrow> mc_db st mc;
          let mc = (if has (mc_flags mc) C_SUB \<or> \<not> subs \<and> md_overflow_pages d = 0 then mdb_cursor_pop mc else mc);
          (rc, st, m) \<leftarrow> drop_loop sub st (mc, snd m) (mdb_cursor_copy mc raw_cursor) subs;
          d \<leftarrow> mc_db st (fst m);
          (rc, st) \<leftarrow> (if rc = 0 then free_page_later st (md_root d) else Some (rc, st));
          Some (rc, if rc \<noteq> 0 then txn_error st else st, m) }
        else Some (if rc = MDB_NOTFOUND then MDB_SUCCESS else rc, st, (mc, snd m)));
     Some (rc, st, (clear_flags C_INITIALIZED (fst m), snd m)) }"

definition sub_drop0 :: "'a sub_del" where
  "sub_drop0 st mx trk = do {
     (rc, st, m) \<leftarrow> drop0_body no_sub_del st (mx, None) False;
     Some (rc, st, fst m) }"

definition mdb_drop0 :: "'a wst_scheme \<Rightarrow> mcursor \<Rightarrow> bool \<Rightarrow> 'a wres" where
  "mdb_drop0 = drop0_body sub_drop0"

section \<open>\<open>mdb_cursor_del\<close>\<close>

text \<open>A tracked cursor on the same page, whose sub-page may have moved.\<close>

definition shrink_adjust :: "cursor \<Rightarrow> page_ptr \<Rightarrow> bytes \<Rightarrow> mcursor \<Rightarrow> mcursor option" where
  "shrink_adjust mc mptr mp m2 =
     (if mc_snum (fst m2) < mc_snum mc \<or> \<not> has_init (fst m2) then Some m2
      else do {
        p \<leftarrow> aget (mc_pg (fst m2)) (mc_top mc);
        if p = Some mptr then XCURSOR_REFRESH m2 (mc_top mc) mptr mp else Some m2 })"

definition set_sub_page :: "mcursor \<Rightarrow> page_ptr \<Rightarrow> bytes \<Rightarrow> nat \<Rightarrow> mcursor option" where
  "set_sub_page m mptr mp leaf = do {
     a \<leftarrow> NODEDATA mp leaf;
     mx \<leftarrow> snd m;
     mx \<leftarrow> set_pg mx 0 (Some (Sub_page mptr a));
     Some (fst m, Some mx) }"

text \<open>There are duplicates left after the sub-cursor's deletion.\<close>

definition del_dup_left ::
    "'a wst_scheme \<Rightarrow> mcursor \<Rightarrow> page_ptr \<Rightarrow> nat \<Rightarrow> 'a wres" where
  "del_dup_left st m mptr leaf = do {
     mp \<leftarrow> page_at st mptr;
     f \<leftarrow> mn_flags mp leaf;
     mx \<leftarrow> snd m;
     x \<leftarrow> mc_own mx;
     (st, m) \<leftarrow>
       (if has f (ucast F_SUBDATA) then do {
          a \<leftarrow> NODEDATA mp leaf;
          mp \<leftarrow> put_bytes mp a (db_bytes (mx_db x));
          st \<leftarrow> put_page st mptr mp;
          Some (st, m) }
        else do {
          k \<leftarrow> ki_at (fst m);
          mp \<leftarrow> mdb_node_shrink mp k;
          st \<leftarrow> put_page st mptr mp;
          leaf \<leftarrow> NODEPTR mp k;
          m \<leftarrow> set_sub_page m mptr mp leaf;
          st \<leftarrow> upd_cursors st (mc_dbi (fst m)) (shrink_adjust (fst m) mptr mp);
          Some (st, m) });
     (st, mc) \<leftarrow> upd_mc_db st (fst m) (\<lambda>d. d\<lparr>md_entries := md_entries d - 1\<rparr>);
     Some (MDB_SUCCESS, st, (mc, snd m)) }"

text \<open>The block for a key with duplicates; the first result says that the function returns.\<close>

definition del_dup ::
    "'a sub_del \<Rightarrow> 'a wst_scheme \<Rightarrow> mcursor \<Rightarrow> nat option \<Rightarrow> page_ptr \<Rightarrow> nat \<Rightarrow> u32 \<Rightarrow> (bool \<times> int \<times> 'a wst_scheme \<times> mcursor) option" where
  "del_dup sub st m trk mptr leaf flags = do {
     mp \<leftarrow> page_at st mptr;
     f \<leftarrow> mn_flags mp leaf;
     let gone = (\<lambda>m :: mcursor. (fst m, map_option (clear_flags C_INITIALIZED) (snd m)));
     (fin, rc, st, m) \<leftarrow>
       (if has flags MDB_NODUPDATA then do {
          mx \<leftarrow> snd m;
          x \<leftarrow> mc_own mx;
          (st, mc) \<leftarrow> upd_mc_db st (fst m) (\<lambda>d. d\<lparr>md_entries := md_entries d - (md_entries (mx_db x) - 1)\<rparr>);
          Some (False, 0, st, gone (mc, snd m)) }
        else do {
          m \<leftarrow> (if \<not> F_ISSET f (ucast F_SUBDATA) then set_sub_page m mptr mp leaf else Some m);
          mx \<leftarrow> snd m;
          (rc, st, mx) \<leftarrow> sub st mx trk;
          let m = (fst m, Some mx);
          x \<leftarrow> mc_own mx;
          if rc \<noteq> 0 then Some (True, rc, st, m)
          else if md_entries (mx_db x) \<noteq> 0 then do {
            (rc, st, m) \<leftarrow> del_dup_left st m mptr leaf;
            Some (True, rc, st, m) }
          else Some (False, 0, st, gone m) });
     if fin then Some (True, rc, st, m)
     else if has f (ucast F_SUBDATA) then do {
       mx \<leftarrow> snd m;
       (rc, st, mx) \<leftarrow> sub_drop0 st mx trk;
       Some (rc \<noteq> 0, rc, if rc \<noteq> 0 then txn_error st else st, (fst m, Some mx)) }
     else Some (False, 0, st, m) }"

text \<open>The overflow pages of the node.\<close>

definition del_overflow :: "'a wst_scheme \<Rightarrow> cursor \<Rightarrow> bytes \<Rightarrow> nat \<Rightarrow> (int \<times> 'a wst_scheme \<times> cursor) option" where
  "del_overflow st mc mp leaf = do {
     f \<leftarrow> mn_flags mp leaf;
     if F_ISSET f (ucast F_BIGDATA) then do {
       a \<leftarrow> NODEDATA mp leaf;
       pg \<leftarrow> load mp a 8;
       (rc, st, r) \<leftarrow> mdb_page_get st mc (of_nat pg);
       if rc \<noteq> 0 then Some (rc, txn_error st, mc)
       else do {
         (omp, _) \<leftarrow> r;
         (rc, st, mc) \<leftarrow> mdb_ovpage_free st mc omp;
         Some (rc, if rc \<noteq> 0 then txn_error st else st, mc) } }
     else Some (0, st, mc) }"

definition del_node :: "'a sub_del \<Rightarrow> 'a wst_scheme \<Rightarrow> mcursor \<Rightarrow> nat option \<Rightarrow> u32 \<Rightarrow> 'a wres" where
  "del_node sub st m trk flags = do {
     mptr \<leftarrow> pg_at (fst m) (mc_top (fst m));
     mp \<leftarrow> page_at st mptr;
     if IS_LEAF2 mp then mdb_cursor_del0 st m trk
     else do {
       k \<leftarrow> ki_at (fst m);
       leaf \<leftarrow> NODEPTR mp k;
       f \<leftarrow> mn_flags mp leaf;
       (fin, rc, st, m) \<leftarrow>
         (if F_ISSET f (ucast F_DUPDATA) then del_dup sub st m trk mptr leaf flags
          else if has (ucast f XOR flags) F_SUBDATA then Some (True, MDB_INCOMPATIBLE, txn_error st, m)
          else Some (False, 0, st, m));
       if fin then Some (rc, st, m)
       else do {
         mp \<leftarrow> page_at st mptr;
         (rc, st, mc) \<leftarrow> del_overflow st (fst m) mp leaf;
         if rc \<noteq> 0 then Some (rc, st, (mc, snd m)) else mdb_cursor_del0 st (mc, snd m) trk } } }"

definition cursor_del_body :: "'a sub_del \<Rightarrow> 'a wst_scheme \<Rightarrow> mcursor \<Rightarrow> nat option \<Rightarrow> u32 \<Rightarrow> 'a wres" where
  "cursor_del_body sub st m trk flags =
     (let tf = mt_flags (st_txn st) in
      if has tf (MDB_TXN_RDONLY OR MDB_TXN_BLOCKED) then Some (if has tf MDB_TXN_RDONLY then EACCES else MDB_BAD_TXN, st, m)
      else if \<not> has_init (fst m) then Some (EINVAL, st, m)
      else do {
        mp \<leftarrow> top_page st (fst m);
        k \<leftarrow> ki_at (fst m);
        if k \<ge> NUMKEYS mp then Some (MDB_NOTFOUND, st, m)
        else do {
          (rc, st) \<leftarrow> (if has flags MDB_NOSPILL then Some (0, st) else mdb_page_spill st m None istack0);
          if rc \<noteq> 0 then Some (rc, st, m)
          else do {
            (rc, st, mc) \<leftarrow> mdb_cursor_touch st (fst m);
            if rc \<noteq> 0 then Some (rc, st, (mc, snd m)) else del_node sub st (mc, snd m) trk flags } } })"

definition sub_cursor_del :: "'a sub_del" where
  "sub_cursor_del st mx trk = do {
     (rc, st, m) \<leftarrow> cursor_del_body no_sub_del st (mx, None) trk MDB_NOSPILL;
     Some (rc, st, fst m) }"

definition mdb_cursor_del :: "'a wst_scheme \<Rightarrow> mcursor \<Rightarrow> nat option \<Rightarrow> u32 \<Rightarrow> 'a wres" where
  "mdb_cursor_del = cursor_del_body sub_cursor_del"

section \<open>\<open>mdb_del\<close>\<close>

definition mdb_del0 :: "'a wst_scheme \<Rightarrow> nat \<Rightarrow> bytes \<Rightarrow> bytes option \<Rightarrow> u32 \<Rightarrow> (int \<times> 'a wst_scheme) option" where
  "mdb_del0 st dbi key data flags = do {
     (st, m) \<leftarrow> mdb_cursor_init st raw_cursor dbi (Some raw_xcursor);
     let flags = (if data = None then flags OR MDB_NODUPDATA else flags);
     (rc, st, m, _, _) \<leftarrow> mdb_cursor_set st m (Some key) data (if data = None then MDB_SET else MDB_GET_BOTH) True;
     if rc = 0 then do {
       (rc, st, _) \<leftarrow> mdb_cursor_del st m (Some 0) flags;
       Some (rc, st) }
     else Some (rc, st) }"

definition mdb_del :: "'a wst_scheme \<Rightarrow> nat \<Rightarrow> bytes option \<Rightarrow> bytes option \<Rightarrow> (int \<times> 'a wst_scheme) option" where
  "mdb_del st dbi key data = do {
     ex \<leftarrow> TXN_DBI_EXIST (st_txn st) dbi DB_USRVALID;
     case key of
       None \<Rightarrow> Some (EINVAL, st)
     | Some key \<Rightarrow>
         let tf = mt_flags (st_txn st) in
         if \<not> ex then Some (EINVAL, st)
         else if has tf (MDB_TXN_RDONLY OR MDB_TXN_BLOCKED)
         then Some (if has tf MDB_TXN_RDONLY then EACCES else MDB_BAD_TXN, st)
         else do {
           d \<leftarrow> aget (mt_dbs (st_txn st)) dbi;
           mdb_del0 st dbi key (if F_ISSET (md_flags d) MDB_DUPSORT then data else None) 0 } }"

end
