(* ===== verification/Free_Save.thy ===== *)
theory Free_Save
  imports Cursor_Del
begin

text \<open>
  \<open>mdb_freelist_save\<close>: at the end of a transaction the pages that it freed and the unused ones that it took out of
  the freeDB are stored in the freeDB, whose records are IDLs in the byte order of the machine. A put passes
  its data by value, as it was when the put began.
\<close>

section \<open>Loose pages\<close>

text \<open>
  The dirty list with entries whose \<open>mptr\<close> may be null. One loose page after another goes to \<open>il\<close> (\<open>mt_free_pgs\<close>)
  and its entry is cleared.
\<close>

type_synonym dlist = "(u64 \<times> page_ptr option) list"

text \<open>\<open>for (x=1; x<=dl[0].mid; x++) if (dl[x].mid == mp->mp_pgno) break;\<close> and the assertion, \<open>k\<close> entries left.\<close>

fun find_mid :: "dlist \<Rightarrow> u64 \<Rightarrow> nat \<Rightarrow> nat \<Rightarrow> nat option" where
  "find_mid dl pgno x 0 = None"
| "find_mid dl pgno x (Suc k) = do {
     e \<leftarrow> aget dl x;
     if fst e = pgno then Some x else find_mid dl pgno (x + 1) k }"

definition entry_of :: "dlist \<Rightarrow> u64 \<Rightarrow> nat option" where
  "entry_of dl pgno = do {
     x \<leftarrow> mdb_mid2l_search dl pgno;
     e \<leftarrow> aget dl x;
     if fst e = pgno then Some x else None }"

fun free_loose :: "'a wst_scheme \<Rightarrow> idl \<Rightarrow> dlist \<Rightarrow> page_ptr list \<Rightarrow> ('a wst_scheme \<times> idl \<times> dlist) option" where
  "free_loose st il dl [] = Some (st, il, dl)"
| "free_loose st il dl (mp # mps) = do {
     b \<leftarrow> page_at st mp;
     il \<leftarrow> mdb_midl_xappend il (mp_pgno b);
     d0 \<leftarrow> aget dl 0;
     (st, x) \<leftarrow>
       (if has (mt_flags (st_txn st)) MDB_WRITEMAP then do {
          x \<leftarrow> find_mid dl (mp_pgno b) 1 (unat (fst d0));
          Some (st, x) }
        else do {
          x \<leftarrow> entry_of dl (mp_pgno b);
          st \<leftarrow> mdb_dpage_free st mp;
          Some (st, x) });
     e \<leftarrow> aget dl x;
     dl \<leftarrow> aset dl x (fst e, None);
     free_loose st il dl mps }"

text \<open>\<open>for (y=1; dl[y].mptr && y <= dl[0].mid; y++);\<close>\<close>

function first_null :: "dlist \<Rightarrow> nat \<Rightarrow> nat \<Rightarrow> nat option" where
  "first_null dl n y =
     (case aget dl y of
        None \<Rightarrow> None
      | Some e \<Rightarrow> if snd e \<noteq> None \<and> y \<le> n then first_null dl n (y + 1) else Some y)"
  by pat_completeness auto
termination by (relation "measure (\<lambda>(dl, n, y). length dl - y)") (auto simp: aget_def split: if_splits)

text \<open>The loop that moves the other entries down; it returns \<open>x\<close>.\<close>

function squash :: "dlist \<Rightarrow> nat \<Rightarrow> nat \<Rightarrow> nat \<Rightarrow> (dlist \<times> nat) option" where
  "squash dl n x y =
     (case aget dl y of
        None \<Rightarrow> None
      | Some e \<Rightarrow>
          if snd e = None \<and> y \<le> n then squash dl n x (y + 1)
          else if y > n then Some (dl, x)
          else case aset dl x e of None \<Rightarrow> None | Some dl \<Rightarrow> squash dl n (x + 1) (y + 1))"
  by pat_completeness auto
termination by (relation "measure (\<lambda>(dl, n, x, y). length dl - y)") (auto simp: aget_def aset_def split: if_splits)

definition squash_list :: "dlist \<Rightarrow> dlist option" where
  "squash_list dl = do {
     d0 \<leftarrow> aget dl 0;
     let n = unat (fst d0);
     y \<leftarrow> first_null dl n 1;
     (dl, m) \<leftarrow> (if y \<le> n then do { (dl, x) \<leftarrow> squash dl n y (y + 1); Some (dl, x - 1) } else Some (dl, 0));
     d0 \<leftarrow> aget dl 0;
     aset dl 0 (of_nat m, snd d0) }"

text \<open>An entry past the end may keep a null pointer, which is never read.\<close>

definition loose_to_free :: "'a wst_scheme \<Rightarrow> (int \<times> 'a wst_scheme) option" where
  "loose_to_free st = do {
     let (mem, st) = ask_mem st;
     let txn = st_txn st;
     (rc, il) \<leftarrow> mdb_midl_need mem (mt_free_pgs txn) (of_int (mt_loose_count txn));
     if rc \<noteq> 0 then Some (rc, st)
     else do {
       (st, il, dl) \<leftarrow> free_loose st il (map (\<lambda>(m, p). (m, Some p)) (mt_dirty_list txn)) (mt_loose_pgs txn);
       dl \<leftarrow> squash_list dl;
       Some (0, upd_txn (\<lambda>t. t\<lparr>mt_free_pgs := il, mt_dirty_list := map (\<lambda>(m, p). (m, case p of Some p \<Rightarrow> p | None \<Rightarrow> Map_page 0)) dl,
         mt_loose_pgs := [], mt_loose_count := 0\<rparr>) st) } }"

text \<open>The loose pages that are left at the end go to \<open>me_pghead\<close>, through a temporary IDL at the end of its memory.\<close>

fun loose_ids :: "'a wst_scheme \<Rightarrow> u64 list \<Rightarrow> nat \<Rightarrow> page_ptr list \<Rightarrow> (u64 list \<times> nat) option" where
  "loose_ids st loose n [] = Some (loose, n)"
| "loose_ids st loose n (mp # mps) = do {
     b \<leftarrow> page_at st mp;
     loose \<leftarrow> aset loose (n + 1) (mp_pgno b);
     loose_ids st loose (n + 1) mps }"

definition loose_to_head :: "'a wst_scheme \<Rightarrow> (int \<times> 'a wst_scheme) option" where
  "loose_to_head st = do {
     let (mem, st) = ask_mem st;
     let count = nat (mt_loose_count (st_txn st));
     il \<leftarrow> me_pghead (st_env st);
     (rc, il) \<leftarrow> mdb_midl_need mem il (of_nat (2 * count + 1));
     let st = upd_env (\<lambda>e. e\<lparr>me_pghead := Some il\<rparr>) st;
     if rc \<noteq> 0 then Some (rc, st)
     else do {
       let base = unat (il_alloc il) - count;
       (loose, n) \<leftarrow> loose_ids st (drop base (il_ids il)) 0 (mt_loose_pgs (st_txn st));
       loose \<leftarrow> aset loose 0 (of_nat n);
       loose \<leftarrow> mdb_midl_sort istack0 loose;
       mop \<leftarrow> mdb_midl_xmerge (take base (il_ids il)) loose;
       Some (0, upd_env (\<lambda>e. e\<lparr>me_pghead := Some (il\<lparr>il_ids := mop @ loose\<rparr>)\<rparr>)
         (upd_txn (\<lambda>t. t\<lparr>mt_loose_pgs := [], mt_loose_count := 0\<rparr>) st)) } }"

section \<open>The records\<close>

text \<open>\<open>*(txnid_t *)key.mv_data\<close>, and the bytes of an IDL.\<close>

definition txnid_of :: "bytes \<Rightarrow> u64 option" where
  "txnid_of key = do {
     bs \<leftarrow> get_bytes key 0 8;
     Some (wrd bs 0 8) }"

definition idl_bytes :: "u64 list \<Rightarrow> bytes" where
  "idl_bytes ids = concat (map (wenc 8) ids)"

text \<open>Writing into the place that \<open>MDB_RESERVE\<close> left.\<close>

definition write_room :: "'a wst_scheme \<Rightarrow> put_out \<Rightarrow> bytes \<Rightarrow> 'a wst_scheme option" where
  "write_room st out bs =
     (case out of
        Room_at p a \<Rightarrow> do {
          b \<leftarrow> page_at st p;
          b \<leftarrow> put_bytes b a bs;
          put_page st p b }
      | _ \<Rightarrow> None)"

definition room :: "nat \<Rightarrow> dataval" where "room n = \<lparr>mv_size = n, mv_data = []\<rparr>"

text \<open>The local variables of the loop.\<close>

record fsave =
  fs_pglast :: u64
  fs_head_id :: u64
  fs_freecnt :: u64
  fs_head_room :: int
  fs_total_room :: int
  fs_more :: int

text \<open>The loop that deletes the records that were used.\<close>

partial_function (option) delete_records ::
    "'a wst_scheme \<Rightarrow> mcursor \<Rightarrow> fsave \<Rightarrow> (int \<times> 'a wst_scheme \<times> mcursor \<times> fsave) option" where
  "delete_records st m fs =
     (if \<not> fs_pglast fs < me_pglast (st_env st) then Some (0, st, m, fs)
      else do {
        (rc, st, m, key, _) \<leftarrow> mdb_cursor_first st m (Some []) None;
        if rc \<noteq> 0 then Some (rc, st, m, fs)
        else do {
          key \<leftarrow> key;
          id \<leftarrow> txnid_of key;
          let fs = fs\<lparr>fs_pglast := id, fs_head_id := id, fs_total_room := 0, fs_head_room := 0\<rparr>;
          if id > me_pglast (st_env st) then None
          else do {
            (rc, st, m) \<leftarrow> mdb_cursor_del st m None 0;
            if rc \<noteq> 0 then Some (rc, st, m, fs) else delete_records st m fs } } })"

text \<open>The record of the pages that this transaction freed: the put may free more.\<close>

partial_function (option) put_free_pgs ::
    "'a wst_scheme \<Rightarrow> mcursor \<Rightarrow> (int \<times> 'a wst_scheme \<times> mcursor \<times> u64 \<times> put_out) option" where
  "put_free_pgs st m = do {
     n \<leftarrow> aget (il_ids (mt_free_pgs (st_txn st))) 0;
     (rc, st, m, out, _) \<leftarrow> mdb_cursor_put st m None (wenc 8 (mt_txnid (st_txn st))) (room (unat (n + 1) * 8)) 0 MDB_RESERVE;
     if rc \<noteq> 0 then Some (rc, st, m, n, out)
     else do {
       n' \<leftarrow> aget (il_ids (mt_free_pgs (st_txn st))) 0;
       if n < n' then put_free_pgs st m else Some (0, st, m, n, out) } }"

definition save_free_pgs ::
    "'a wst_scheme \<Rightarrow> mcursor \<Rightarrow> fsave \<Rightarrow> (int \<times> 'a wst_scheme \<times> mcursor \<times> fsave) option" where
  "save_free_pgs st m fs = do {
     (rc, st, mc) \<leftarrow>
       (if fs_freecnt fs = 0 then mdb_page_search mdb_page_touch st (fst m) None (MDB_PS_LAST OR MDB_PS_MODIFY)
        else Some (0, st, fst m));
     let m = (mc, snd m);
     if rc \<noteq> 0 \<and> rc \<noteq> MDB_NOTFOUND then Some (rc, st, m, fs)
     else do {
       (rc, st, m, n, out) \<leftarrow> put_free_pgs st m;
       let fs = fs\<lparr>fs_freecnt := n\<rparr>;
       if rc \<noteq> 0 then Some (rc, st, m, fs)
       else do {
         let il = mt_free_pgs (st_txn st);
         ids \<leftarrow> mdb_midl_sort istack0 (il_ids il);
         st \<leftarrow> write_room (upd_txn (\<lambda>t. t\<lparr>mt_free_pgs := il\<lparr>il_ids := ids\<rparr>\<rparr>) st) out (idl_bytes (take (unat (n + 1)) ids));
         Some (0, st, m, fs) } } }"

text \<open>The size of the next record for \<open>me_pghead\<close>, \<open>None\<close> when there are enough.\<close>

definition next_room :: "int \<Rightarrow> int \<Rightarrow> fsave \<Rightarrow> fsave option" where
  "next_room maxfree mop_len fs = (
     if fs_total_room fs \<ge> mop_len \<and> (fs_total_room fs = mop_len \<or> fs_more fs - 1 < 0) then None
     else
       let fs = (if fs_total_room fs \<ge> mop_len then fs\<lparr>fs_more := fs_more fs - 1\<rparr>
                 else if fs_head_room fs \<ge> maxfree \<and> fs_head_id fs > 1
                 then fs\<lparr>fs_head_id := fs_head_id fs - 1, fs_head_room := 0\<rparr> else fs);
           total = fs_total_room fs - fs_head_room fs;
           head = mop_len - total;
           head = (if head > maxfree \<and> fs_head_id fs > 1 then
                     let h = head div int (unat (fs_head_id fs)) in h + (maxfree - h mod (maxfree + 1))
                   else if head < 0 then 0 else head)
       in Some (fs\<lparr>fs_total_room := total, fs_head_room := head\<rparr>))"

text \<open>A record of that size, with a zero length or all zero.\<close>

definition reserve_room ::
    "'a wst_scheme \<Rightarrow> mcursor \<Rightarrow> fsave \<Rightarrow> (int \<times> 'a wst_scheme \<times> mcursor \<times> fsave) option" where
  "reserve_room st m fs = do {
     let env = st_env st;
     let head = nat (fs_head_room fs);
     (rc, st, m, out, _) \<leftarrow> mdb_cursor_put st m None (wenc 8 (fs_head_id fs)) (room ((head + 1) * 8)) 0 MDB_RESERVE;
     if rc \<noteq> 0 then Some (rc, st, m, fs)
     else do {
       let j = (if \<not> has (me_flags env) (MDB_NOMEMINIT OR MDB_WRITEMAP) \<and> fs_head_room fs > me_maxfree_1pg env then head else 0);
       st \<leftarrow> write_room st out (replicate (8 * (j + 1)) 0);
       Some (0, st, m, fs\<lparr>fs_total_room := fs_total_room fs + fs_head_room fs\<rparr>) } }"

text \<open>\<open>mop_len\<close>\<close>

definition mop_length :: "'a wst_scheme \<Rightarrow> int option" where
  "mop_length st =
     (case me_pghead (st_env st) of
        None \<Rightarrow> Some (mt_loose_count (st_txn st))
      | Some il \<Rightarrow> do { n \<leftarrow> aget (il_ids il) 0; Some (int (unat n) + mt_loose_count (st_txn st)) })"

text \<open>The loop \<open>for (;;)\<close>: it returns with the last \<open>mop_len\<close>.\<close>

partial_function (option) save_loop ::
    "'a wst_scheme \<Rightarrow> mcursor \<Rightarrow> fsave \<Rightarrow> (int \<times> 'a wst_scheme \<times> mcursor \<times> int) option" where
  "save_loop st m fs = do {
     (rc, st, m, fs) \<leftarrow> delete_records st m fs;
     if rc \<noteq> 0 then Some (rc, st, m, 0)
     else do {
       n \<leftarrow> aget (il_ids (mt_free_pgs (st_txn st))) 0;
       if fs_freecnt fs < n then do {
         (rc, st, m, fs) \<leftarrow> save_free_pgs st m fs;
         if rc \<noteq> 0 then Some (rc, st, m, 0) else save_loop st m fs }
       else do {
         mop_len \<leftarrow> mop_length st;
         case next_room (me_maxfree_1pg (st_env st)) mop_len fs of
           None \<Rightarrow> Some (0, st, m, mop_len)
         | Some fs \<Rightarrow> do {
             (rc, st, m, fs) \<leftarrow> reserve_room st m fs;
             if rc \<noteq> 0 then Some (rc, st, m, 0) else save_loop st m fs } } } }"

section \<open>Filling the records\<close>

text \<open>
  \<open>me_pghead[off]\<close> is the length of the next part while it is written. The record of the cursor has the key \<open>key\<close>
  and the data \<open>data\<close>; \<open>left\<close> ids are left, those up to \<open>off\<close>.
\<close>

definition set_head_at :: "'a wst_scheme \<Rightarrow> nat \<Rightarrow> u64 \<Rightarrow> ('a wst_scheme \<times> u64 list) option" where
  "set_head_at st i v = do {
     il \<leftarrow> me_pghead (st_env st);
     ids \<leftarrow> aset (il_ids il) i v;
     Some (upd_env (\<lambda>e. e\<lparr>me_pghead := Some (il\<lparr>il_ids := ids\<rparr>)\<rparr>) st, ids) }"

partial_function (option) fill_records ::
    "'a wst_scheme \<Rightarrow> mcursor \<Rightarrow> nat \<Rightarrow> nat \<Rightarrow> bytes \<Rightarrow> bytes \<Rightarrow> (int \<times> 'a wst_scheme) option" where
  "fill_records st m off left key data = do {
     id \<leftarrow> txnid_of key;
     if length data < 8 \<or> id > me_pglast (st_env st) then None
     else do {
       let len = min (length data div 8 - 1) left;
       let size = (if length data div 8 - 1 > left then (left + 1) * 8 else length data);
       il \<leftarrow> me_pghead (st_env st);
       save \<leftarrow> (if off < len then None else aget (il_ids il) (off - len));
       let off = off - len;
       (st, ids) \<leftarrow> set_head_at st off (of_nat len);
       (rc, st, m, _, _) \<leftarrow> mdb_cursor_put st m None (wenc 8 id) \<lparr>mv_size = size, mv_data = idl_bytes (drop off ids)\<rparr> 0 MDB_CURRENT;
       (st, _) \<leftarrow> set_head_at st off save;
       if rc \<noteq> 0 \<or> left - len = 0 then Some (rc, st)
       else do {
         (rc, st, m, key, data) \<leftarrow> mdb_cursor_next st m (Some []) (Some []) MDB_NEXT;
         if rc \<noteq> 0 then Some (rc, st)
         else do {
           key \<leftarrow> key;
           data \<leftarrow> data;
           fill_records st m off (left - len) key data } } } }"

definition save_head :: "'a wst_scheme \<Rightarrow> mcursor \<Rightarrow> nat \<Rightarrow> (int \<times> 'a wst_scheme) option" where
  "save_head st m mop_len =
     (if mop_len = 0 then Some (MDB_SUCCESS, st)
      else do {
        (rc, st, m, key, data) \<leftarrow> mdb_cursor_first st m (Some []) (Some []);
        if rc \<noteq> 0 then Some (rc, st)
        else do {
          key \<leftarrow> key;
          data \<leftarrow> data;
          fill_records st m mop_len mop_len key data } })"

section \<open>\<open>mdb_freelist_save\<close>\<close>

definition mdb_freelist_save :: "'a wst_scheme \<Rightarrow> (int \<times> 'a wst_scheme) option" where
  "mdb_freelist_save st = do {
     (st, m) \<leftarrow> mdb_cursor_init st raw_cursor FREE_DBI None;
     (rc, st, mc) \<leftarrow>
       (if me_pghead (st_env st) \<noteq> None then mdb_page_search mdb_page_touch st (fst m) None (MDB_PS_FIRST OR MDB_PS_MODIFY)
        else Some (0, st, fst m));
     let m = (mc, snd m);
     if rc \<noteq> 0 \<and> rc \<noteq> MDB_NOTFOUND then Some (rc, st)
     else do {
       (rc, st) \<leftarrow>
         (if me_pghead (st_env st) = None \<and> mt_loose_pgs (st_txn st) \<noteq> [] then loose_to_free st else Some (0, st));
       if rc \<noteq> 0 then Some (rc, st)
       else do {
         (rc, st, m, mop_len) \<leftarrow> save_loop st m
           \<lparr>fs_pglast = 0, fs_head_id = 0, fs_freecnt = 0, fs_head_room = 0, fs_total_room = 0, fs_more = 1\<rparr>;
         if rc \<noteq> 0 then Some (rc, st)
         else do {
           (rc, st, mop_len) \<leftarrow>
             (if mt_loose_pgs (st_txn st) \<noteq> [] then do {
                (rc, st) \<leftarrow> loose_to_head st;
                il \<leftarrow> me_pghead (st_env st);
                n \<leftarrow> aget (il_ids il) 0;
                Some (rc, st, int (unat n)) }
              else Some (0, st, mop_len));
           if rc \<noteq> 0 then Some (rc, st) else save_head st m (nat mop_len) } } } }"

end
