(* ===== verification/Databases.thy ===== *)
theory Databases
  imports Cursor_Del Info
begin

text \<open>
  Opening and dropping databases: \<open>mdb_dbi_open\<close>, \<open>mdb_drop\<close> and \<open>mdb_cursor_close\<close>. Names are byte strings
  without the terminating NUL; \<open>strdup\<close> asks for memory like \<open>malloc\<close>.
\<close>

definition VALID_FLAGS :: u32 where
  "VALID_FLAGS = ucast MDB_REVERSEKEY OR ucast MDB_DUPSORT OR ucast MDB_INTEGERKEY OR ucast MDB_DUPFIXED OR
     ucast MDB_INTEGERDUP OR ucast MDB_REVERSEDUP OR MDB_CREATE"

text \<open>\<open>mdb_default_cmp\<close> on a handle; \<open>mt_dbxs\<close> is \<open>me_dbxs\<close>.\<close>

definition default_cmp_of :: "'a st_scheme \<Rightarrow> nat \<Rightarrow> 'a st_scheme option" where
  "default_cmp_of st dbi = do {
     d \<leftarrow> aget (mt_dbs (st_txn st)) dbi;
     dx \<leftarrow> aget (me_dbxs (st_env st)) dbi;
     dxs \<leftarrow> aset (me_dbxs (st_env st)) dbi (mdb_default_cmp (md_flags d) dx);
     Some (upd_env (\<lambda>e. e\<lparr>me_dbxs := dxs\<rparr>) st) }"

text \<open>Opening the main database.\<close>

definition open_main :: "'a st_scheme \<Rightarrow> u32 \<Rightarrow> 'a st_scheme option" where
  "open_main st flags = do {
     let f2 = ucast flags AND PERSISTENT_FLAGS;
     d \<leftarrow> aget (mt_dbs (st_txn st)) MAIN_DBI;
     st \<leftarrow>
       (if f2 \<noteq> 0 \<and> md_flags d OR f2 \<noteq> md_flags d then do {
          ds \<leftarrow> aset (mt_dbs (st_txn st)) MAIN_DBI (d\<lparr>md_flags := md_flags d OR f2\<rparr>);
          Some (upd_txn (\<lambda>t. t\<lparr>mt_dbs := ds, mt_flags := mt_flags t OR MDB_TXN_DIRTY\<rparr>) st) }
        else Some st);
     default_cmp_of st MAIN_DBI }"

text \<open>The handle with that name among \<open>k\<close> handles from \<open>i\<close> on, and the first free slot (0: none).\<close>

fun find_handle :: "dbx list \<Rightarrow> bytes \<Rightarrow> nat \<Rightarrow> nat \<Rightarrow> nat \<Rightarrow> (nat option \<times> nat) option" where
  "find_handle dxs name i unused 0 = Some (None, unused)"
| "find_handle dxs name i unused (Suc k) = do {
     dx \<leftarrow> aget dxs i;
     case md_name dx of
       None \<Rightarrow> find_handle dxs name (i + 1) (if unused = 0 then i else unused) k
     | Some n \<Rightarrow>
         if n = [] then find_handle dxs name (i + 1) (if unused = 0 then i else unused) k
         else if n = name then Some (Some i, unused)
         else find_handle dxs name (i + 1) unused k }"

text \<open>The record of a database that is not there yet.\<close>

definition new_record :: "u32 \<Rightarrow> db" where
  "new_record flags = \<lparr>md_pad = 0, md_flags = ucast flags AND PERSISTENT_FLAGS, md_depth = 0, md_branch_pages = 0,
     md_leaf_pages = 0, md_overflow_pages = 0, md_entries = 0, md_root = P_INVALID\<rparr>"

text \<open>The handle is registered in the transaction.\<close>

definition register_dbi :: "'a st_scheme \<Rightarrow> bytes \<Rightarrow> nat \<Rightarrow> u8 \<Rightarrow> db \<Rightarrow> ('a st_scheme \<times> nat) option" where
  "register_dbi st name unused dbflag d = do {
     let txn = st_txn st;
     let env = st_env st;
     let slot = (if unused \<noteq> 0 then unused else mt_numdbs txn);
     dx \<leftarrow> aget (me_dbxs env) slot;
     dxs \<leftarrow> aset (me_dbxs env) slot (dx\<lparr>md_name := Some name\<rparr>);
     fs \<leftarrow> aset (mt_dbflags txn) slot dbflag;
     s \<leftarrow> aget (me_dbiseqs env) slot;
     let seq = (s + 1) mod 2 ^ 32;
     ss \<leftarrow> aset (me_dbiseqs env) slot seq;
     ts \<leftarrow> (case mt_dbiseqs txn of None \<Rightarrow> Some None | Some ts \<Rightarrow> map_option Some (aset ts slot seq));
     ds \<leftarrow> aset (mt_dbs txn) slot d;
     st \<leftarrow> default_cmp_of
       (st\<lparr>st_env := env\<lparr>me_dbxs := dxs, me_dbiseqs := ss\<rparr>,
           st_txn := txn\<lparr>mt_dbflags := fs, mt_dbiseqs := ts, mt_dbs := ds\<rparr>\<rparr>) slot;
     Some (if unused \<noteq> 0 then st else upd_txn (\<lambda>t. t\<lparr>mt_numdbs := mt_numdbs t + 1\<rparr>) st, slot) }"

text \<open>From the search for the record on.\<close>

definition open_record ::
    "'a wst_scheme \<Rightarrow> bytes \<Rightarrow> u32 \<Rightarrow> nat \<Rightarrow> (int \<times> 'a wst_scheme \<times> nat option) option" where
  "open_record st name flags unused = do {
     (st, m) \<leftarrow> mdb_cursor_init st raw_cursor MAIN_DBI None;
     (rc, st, m, _, data) \<leftarrow> mdb_cursor_set st m (Some name) (Some []) MDB_SET True;
     err \<leftarrow>
       (if rc = MDB_SUCCESS then do {
          mp \<leftarrow> top_page st (fst m);
          k \<leftarrow> ki_at (fst m);
          node \<leftarrow> NODEPTR mp k;
          f \<leftarrow> mn_flags mp node;
          Some (if ucast f AND (F_DUPDATA OR F_SUBDATA) \<noteq> F_SUBDATA then MDB_INCOMPATIBLE else 0) }
        else Some (if rc \<noteq> MDB_NOTFOUND \<or> \<not> has flags MDB_CREATE then rc
          else if F_ISSET (mt_flags (st_txn st)) MDB_TXN_RDONLY then EACCES else 0));
     if err \<noteq> 0 then Some (err, st, None)
     else do {
       let (ok, st) = ask_malloc st;
       if \<not> ok then Some (ENOMEM, st, None)
       else do {
         (rc, st, d, dbflag) \<leftarrow>
           (if rc \<noteq> 0 then do {
              let d = new_record flags;
              (rc, st, _, _, _) \<leftarrow> mdb_cursor_put st m (Some 0) name (whole (db_bytes d)) 0 F_SUBDATA;
              Some (rc, st, d, DB_NEW OR DB_VALID OR DB_USRVALID OR DB_DIRTY) }
            else do {
              data \<leftarrow> data;
              bs \<leftarrow> get_bytes data 0 48;
              Some (0, st, db_at bs 0, DB_NEW OR DB_VALID OR DB_USRVALID) });
         if rc \<noteq> 0 then Some (rc, st, None)
         else do {
           (st, slot) \<leftarrow> register_dbi st name unused dbflag d;
           Some (0, st, Some slot) } } } }"

definition mdb_dbi_open ::
    "'a wst_scheme \<Rightarrow> bytes option \<Rightarrow> u32 \<Rightarrow> (int \<times> 'a wst_scheme \<times> nat option) option" where
  "mdb_dbi_open st name flags =
     (if has flags (NOT VALID_FLAGS) then Some (EINVAL, st, None)
      else if has (mt_flags (st_txn st)) MDB_TXN_BLOCKED then Some (MDB_BAD_TXN, st, None)
      else case name of
        None \<Rightarrow> do {
          st \<leftarrow> open_main st flags;
          Some (MDB_SUCCESS, st, Some MAIN_DBI) }
      | Some name \<Rightarrow> do {
          dx \<leftarrow> aget (me_dbxs (st_env st)) MAIN_DBI;
          st \<leftarrow> (if md_cmp dx = None then default_cmp_of st MAIN_DBI else Some st);
          (found, unused) \<leftarrow> find_handle (me_dbxs (st_env st)) name CORE_DBS 0 (mt_numdbs (st_txn st) - CORE_DBS);
          d \<leftarrow> aget (mt_dbs (st_txn st)) MAIN_DBI;
          if found \<noteq> None then Some (MDB_SUCCESS, st, found)
          else if unused = 0 \<and> mt_numdbs (st_txn st) \<ge> me_maxdbs (st_env st) then Some (MDB_DBS_FULL, st, None)
          else if has (md_flags d) (MDB_DUPSORT OR MDB_INTEGERKEY)
          then Some (if has flags MDB_CREATE then MDB_INCOMPATIBLE else MDB_NOTFOUND, st, None)
          else open_record st name flags unused })"

section \<open>Dropping\<close>

text \<open>
  Closing a cursor removes it from the tracked ones, where it is at place \<open>i\<close> (if it is tracked, \<open>C_UNTRACK\<close>), and
  frees it. A cursor of the parent transaction, which has an \<open>mc_backup\<close>, is left alone; these come after the own
  ones.
\<close>

definition own_cursors :: "'a wst_scheme \<Rightarrow> nat" where
  "own_cursors st = length (st_cursors st) - (case st_saved st of [] \<Rightarrow> 0 | sv # _ \<Rightarrow> length (sv_cursors sv))"

definition mdb_cursor_close :: "'a wst_scheme \<Rightarrow> mcursor \<Rightarrow> nat option \<Rightarrow> 'a wst_scheme option" where
  "mdb_cursor_close st m i =
     (if has (mc_flags (fst m)) C_UNTRACK \<and> mt_cursors (st_txn st)
      then (case i of
              None \<Rightarrow> Some st
            | Some i \<Rightarrow>
                if i \<ge> length (st_cursors st) then None
                else if i \<ge> own_cursors st then Some st
                else Some (st\<lparr>st_cursors := take i (st_cursors st) @ drop (i + 1) (st_cursors st)\<rparr>))
      else Some st)"

text \<open>A cursor on the dropped database.\<close>

definition invalidate :: "mcursor \<Rightarrow> mcursor" where
  "invalidate m = (clear_flags (C_INITIALIZED OR C_EOF) (fst m), snd m)"

text \<open>The record of an empty database.\<close>

definition reset_record :: "'a st_scheme \<Rightarrow> nat \<Rightarrow> 'a st_scheme option" where
  "reset_record st dbi = do {
     f \<leftarrow> aget (mt_dbflags (st_txn st)) dbi;
     fs \<leftarrow> aset (mt_dbflags (st_txn st)) dbi (f OR DB_DIRTY);
     d \<leftarrow> aget (mt_dbs (st_txn st)) dbi;
     ds \<leftarrow> aset (mt_dbs (st_txn st)) dbi (d\<lparr>md_depth := 0, md_branch_pages := 0, md_leaf_pages := 0,
       md_overflow_pages := 0, md_entries := 0, md_root := P_INVALID\<rparr>);
     Some (upd_txn (\<lambda>t. t\<lparr>mt_dbflags := fs, mt_dbs := ds, mt_flags := mt_flags t OR MDB_TXN_DIRTY\<rparr>) st) }"

text \<open>The record and the handle of a deleted database; \<open>name\<close> is its name.\<close>

definition delete_record :: "'a wst_scheme \<Rightarrow> nat \<Rightarrow> bytes \<Rightarrow> (int \<times> 'a wst_scheme) option" where
  "delete_record st dbi name = do {
     (rc, st) \<leftarrow> mdb_del0 st MAIN_DBI name None F_SUBDATA;
     if rc \<noteq> 0 then Some (rc, txn_error st)
     else do {
       fs \<leftarrow> aset (mt_dbflags (st_txn st)) dbi DB_STALE;
       env \<leftarrow> mdb_dbi_close (st_env st) dbi;
       Some (0, upd_txn (\<lambda>t. t\<lparr>mt_dbflags := fs\<rparr>) (st\<lparr>st_env := env\<rparr>)) } }"

definition mdb_drop :: "'a wst_scheme \<Rightarrow> nat \<Rightarrow> nat \<Rightarrow> (int \<times> 'a wst_scheme) option" where
  "mdb_drop st dbi del = do {
     ex \<leftarrow> TXN_DBI_EXIST (st_txn st) dbi DB_USRVALID;
     if del > 1 \<or> \<not> ex then Some (EINVAL, st)
     else if F_ISSET (mt_flags (st_txn st)) MDB_TXN_RDONLY then Some (EACCES, st)
     else do {
       changed \<leftarrow> TXN_DBI_CHANGED (st_env st) (st_txn st) dbi;
       if changed then Some (MDB_BAD_DBI, st)
       else do {
         let (ok, st) = ask_malloc st;
         (rc, st, m) \<leftarrow> mdb_cursor_open ok st dbi;
         if rc \<noteq> 0 then Some (rc, st)
         else do {
           m \<leftarrow> m;
           d \<leftarrow> mc_db st (fst m);
           (rc, st, m) \<leftarrow> mdb_drop0 st m (has (md_flags d) MDB_DUPSORT);
           dx \<leftarrow> mc_dbx st (fst m);
           let st = push_cursor (Some 0) m st;
           st \<leftarrow> upd_cursors st dbi (Some \<circ> invalidate);
           (rc, st) \<leftarrow>
             (if rc \<noteq> 0 then Some (rc, st)
              else if del \<noteq> 0 \<and> dbi \<ge> CORE_DBS
              then delete_record st dbi (case md_name dx of None \<Rightarrow> [] | Some n \<Rightarrow> n)
              else do {
                st \<leftarrow> reset_record st dbi;
                Some (0, st) });
           st \<leftarrow> mdb_cursor_close st m (Some 0);
           Some (rc, st) } } } }"

end
