(* ===== verification/Commit.thy ===== *)
theory Commit
  imports Free_Save Txn Databases
begin

text \<open>
  \<open>mdb_txn_commit\<close>: a nested transaction becomes part of its parent, a top-level one is written to the file.
  \<open>st_sync t\<close> is what \<open>msync\<close> or \<open>fdatasync\<close> answers at time \<open>t\<close>, \<open>st_setlk t\<close> the answers to the \<open>fcntl\<close> calls
  that downgrade the lock of the lock file (a result and \<open>errno\<close>).
\<close>

record cst = tst +
  st_sync :: "nat \<Rightarrow> int"
  st_setlk :: "nat \<Rightarrow> (int \<times> int) list"

section \<open>The spilled pages of the parent\<close>

text \<open>\<open>while (pn > pspill[x]) x--;\<close>\<close>

fun spill_down :: "u64 list \<Rightarrow> u64 \<Rightarrow> nat \<Rightarrow> nat option" where
  "spill_down ps pn 0 = do { v \<leftarrow> aget ps 0; if pn > v then None else Some 0 }"
| "spill_down ps pn (Suc x) = do {
     v \<leftarrow> aget ps (Suc x);
     if pn > v then spill_down ps pn x else Some (Suc x) }"

text \<open>The pages in the dirty list \<open>src\<close>, \<open>k\<close> of them after \<open>i\<close>, are marked as deleted in the parent's list.\<close>

fun mark_spilled :: "(u64 \<times> page_ptr) list \<Rightarrow> u64 list \<Rightarrow> nat \<Rightarrow> nat \<Rightarrow> nat \<Rightarrow> nat \<Rightarrow> (u64 list \<times> nat) option" where
  "mark_spilled src ps x y i 0 = Some (ps, y)"
| "mark_spilled src ps x y i (Suc k) = do {
     e \<leftarrow> aget src (i + 1);
     let pn = push_bit 1 (fst e);
     x \<leftarrow> spill_down ps pn x;
     v \<leftarrow> aget ps x;
     if pn = v then
       if x = 0 then None
       else do {
         ps \<leftarrow> aset ps x 1;
         mark_spilled src ps (x - 1) (x - 1) (i + 1) k }
     else mark_spilled src ps x y (i + 1) k }"

definition unspill_parent :: "(u64 \<times> page_ptr) list \<Rightarrow> idl option \<Rightarrow> idl option option" where
  "unspill_parent src pspill =
     (case pspill of
        None \<Rightarrow> Some None
      | Some il \<Rightarrow> do {
          n \<leftarrow> aget (il_ids il) 0;
          let ps_len = unat n mod 2 ^ 32;
          if ps_len = 0 then Some (Some il)
          else do {
            s0 \<leftarrow> aget src 0;
            ps \<leftarrow> aset (il_ids il) 0 (- 1);
            (ps, y) \<leftarrow> mark_spilled src ps ps_len ps_len 0 (unat (fst s0) mod 2 ^ 32);
            (ps, y) \<leftarrow> purge_loop ps (y + 1) y (ps_len - y);
            ps \<leftarrow> aset ps 0 (of_nat y);
            Some (Some (il\<lparr>il_ids := ps\<rparr>)) } })"

section \<open>The dirty pages of the parent\<close>

definition free_block :: "'a st_scheme \<Rightarrow> page_ptr \<Rightarrow> 'a st_scheme option" where
  "free_block st p = (case p of Heap_page h \<Rightarrow> Some (st\<lparr>st_heap := (st_heap st)(h := None)\<rparr>) | _ \<Rightarrow> None)"

text \<open>A page that the child has spilled leaves the parent's dirty list \<open>dst\<close>.\<close>

definition undirty_one ::
    "'a st_scheme \<Rightarrow> (u64 \<times> page_ptr) list \<Rightarrow> u64 \<Rightarrow> ('a st_scheme \<times> (u64 \<times> page_ptr) list) option" where
  "undirty_one st dst pn = do {
     y \<leftarrow> mdb_mid2l_search dst pn;
     d0 \<leftarrow> aget dst 0;
     let n = unat (fst d0);
     if y > n then Some (st, dst)
     else do {
       e \<leftarrow> aget dst y;
       if fst e \<noteq> pn then Some (st, dst)
       else do {
         st \<leftarrow> free_block st (snd e);
         dst \<leftarrow> shift_down dst y (n - y);
         dst \<leftarrow> aset dst 0 (fst d0 - 1, snd d0);
         Some (st, dst) } } }"

text \<open>The child's list of spilled pages, \<open>k\<close> ids of it from \<open>i\<close> on.\<close>

fun undirty_spilled ::
    "'a st_scheme \<Rightarrow> u64 list \<Rightarrow> (u64 \<times> page_ptr) list \<Rightarrow> nat \<Rightarrow> nat \<Rightarrow> ('a st_scheme \<times> (u64 \<times> page_ptr) list) option" where
  "undirty_spilled st sl dst i 0 = Some (st, dst)"
| "undirty_spilled st sl dst i (Suc k) = do {
     v \<leftarrow> aget sl i;
     (st, dst) \<leftarrow> (if v AND 1 \<noteq> 0 then Some (st, dst) else undirty_one st dst (drop_bit 1 v));
     undirty_spilled st sl dst (i + 1) k }"

text \<open>\<open>while (yp < dst[i].mid) i--;\<close>\<close>

fun dirty_down :: "(u64 \<times> page_ptr) list \<Rightarrow> u64 \<Rightarrow> nat \<Rightarrow> nat option" where
  "dirty_down dst yp 0 = do { e \<leftarrow> aget dst 0; if yp < fst e then None else Some 0 }"
| "dirty_down dst yp (Suc i) = do {
     e \<leftarrow> aget dst (Suc i);
     if yp < fst e then dirty_down dst yp i else Some (Suc i) }"

text \<open>The length of the merged list: \<open>len\<close> goes down by one for a page in both lists.\<close>

fun merged_len :: "(u64 \<times> page_ptr) list \<Rightarrow> (u64 \<times> page_ptr) list \<Rightarrow> nat \<Rightarrow> nat \<Rightarrow> nat \<Rightarrow> nat option" where
  "merged_len dst src len i 0 = Some len"
| "merged_len dst src len i (Suc y) =
     (if i = 0 then Some len
      else do {
        s \<leftarrow> aget src (Suc y);
        i \<leftarrow> dirty_down dst (fst s) i;
        e \<leftarrow> aget dst i;
        if fst s = fst e then if i = 0 then None else merged_len dst src (len - 1) (i - 1) y
        else merged_len dst src len i y })"

text \<open>\<open>while (yp < dst[x].mid) dst[i--] = dst[x--];\<close>\<close>

fun merge_down ::
    "(u64 \<times> page_ptr) list \<Rightarrow> u64 \<Rightarrow> nat \<Rightarrow> nat \<Rightarrow> ((u64 \<times> page_ptr) list \<times> nat \<times> nat) option" where
  "merge_down dst yp i 0 = do { e \<leftarrow> aget dst 0; if yp < fst e then None else Some (dst, i, 0) }"
| "merge_down dst yp i (Suc x) = do {
     e \<leftarrow> aget dst (Suc x);
     if yp < fst e then
       if i = 0 then None else do { dst \<leftarrow> aset dst i e; merge_down dst yp (i - 1) x }
     else Some (dst, i, Suc x) }"

text \<open>The merge, from the ends of the lists; \<open>y\<close> pages of \<open>src\<close> are left.\<close>

fun merge_dirty ::
    "'a st_scheme \<Rightarrow> (u64 \<times> page_ptr) list \<Rightarrow> (u64 \<times> page_ptr) list \<Rightarrow> nat \<Rightarrow> nat \<Rightarrow> nat \<Rightarrow>
     ('a st_scheme \<times> (u64 \<times> page_ptr) list \<times> nat \<times> nat) option" where
  "merge_dirty st dst src i x 0 = Some (st, dst, i, x)"
| "merge_dirty st dst src i x (Suc y) = do {
     s \<leftarrow> aget src (Suc y);
     (dst, i, x) \<leftarrow> merge_down dst (fst s) i x;
     e \<leftarrow> aget dst x;
     (st, x) \<leftarrow>
       (if fst s = fst e then do {
          st \<leftarrow> (if x = 0 then None else free_block st (snd e));
          Some (st, x - 1) }
        else Some (st, x));
     if i = 0 then None
     else do {
       dst \<leftarrow> aset dst i s;
       merge_dirty st dst src (i - 1) x y } }"

definition merge_lists ::
    "'a st_scheme \<Rightarrow> bool \<Rightarrow> nat \<Rightarrow> (u64 \<times> page_ptr) list \<Rightarrow> (u64 \<times> page_ptr) list \<Rightarrow>
     ('a st_scheme \<times> (u64 \<times> page_ptr) list) option" where
  "merge_lists st grandparent dirty_room dst src = do {
     d0 \<leftarrow> aget dst 0;
     s0 \<leftarrow> aget src 0;
     let x = unat (fst d0) mod 2 ^ 32;
     let n = unat (fst s0) mod 2 ^ 32;
     dst \<leftarrow> aset dst 0 (0, snd d0);
     len \<leftarrow>
       (if grandparent then do {
          e \<leftarrow> aget dst x;
          y \<leftarrow> mdb_mid2l_search src (fst e + 1);
          merged_len dst src (x + n) x (y - 1) }
        else Some (MDB_IDL_UM_MAX - dirty_room));
     (st, dst, i, x) \<leftarrow> merge_dirty st dst src len x n;
     if i \<noteq> x then None
     else do {
       d0 \<leftarrow> aget dst 0;
       dst \<leftarrow> aset dst 0 (of_nat len, snd d0);
       Some (st, dst) } }"

section \<open>Committing a nested transaction\<close>

text \<open>The parent's handles: those that are new in the parent stay so.\<close>

fun merge_dbflags :: "u8 list \<Rightarrow> u8 list \<Rightarrow> nat \<Rightarrow> nat \<Rightarrow> u8 list option" where
  "merge_dbflags cf pf i 0 = Some pf"
| "merge_dbflags cf pf i (Suc k) = do {
     c \<leftarrow> aget cf i;
     p \<leftarrow> aget pf i;
     pf \<leftarrow> aset pf i (c OR (p AND DB_NEW));
     merge_dbflags cf pf (i + 1) k }"

definition merge_dbs :: "txn \<Rightarrow> txn \<Rightarrow> txn option" where
  "merge_dbs txn parent = do {
     ds \<leftarrow> acopy (mt_dbs parent) 0 (mt_dbs txn) 0 (mt_numdbs txn);
     f0 \<leftarrow> aget (mt_dbflags txn) FREE_DBI;
     f1 \<leftarrow> aget (mt_dbflags txn) MAIN_DBI;
     pf \<leftarrow> aset (mt_dbflags parent) FREE_DBI f0;
     pf \<leftarrow> aset pf MAIN_DBI f1;
     pf \<leftarrow> merge_dbflags (mt_dbflags txn) pf CORE_DBS (mt_numdbs txn - CORE_DBS);
     Some (parent\<lparr>mt_dbs := ds, mt_numdbs := mt_numdbs txn, mt_dbflags := pf\<rparr>) }"

text \<open>The spilled pages of the child join those of the parent.\<close>

definition merge_spilled :: "'a wst_scheme \<Rightarrow> idl option \<Rightarrow> txn \<Rightarrow> (int \<times> 'a wst_scheme \<times> txn) option" where
  "merge_spilled st spill parent =
     (case (spill, mt_spill_pgs parent) of
        (None, _) \<Rightarrow> Some (0, st, parent)
      | (Some il, None) \<Rightarrow> Some (0, st, parent\<lparr>mt_spill_pgs := Some il\<rparr>)
      | (Some il, Some pil) \<Rightarrow> do {
          let (mem, st) = ask_mem st;
          (rc, pil) \<leftarrow> mdb_midl_append_list mem pil (il_ids il);
          ids \<leftarrow> mdb_midl_sort istack0 (il_ids pil);
          Some (rc, st, parent\<lparr>mt_spill_pgs := Some (pil\<lparr>il_ids := ids\<rparr>),
            mt_flags := (if rc \<noteq> 0 then mt_flags parent OR MDB_TXN_ERROR else mt_flags parent)\<rparr>) })"

text \<open>\<open>parent\<close> is the first of \<open>st_parents\<close>; the first result says that the transaction has to be aborted.\<close>

definition commit_child :: "'a tst_scheme \<Rightarrow> txn \<Rightarrow> txn list \<Rightarrow> (bool \<times> int \<times> 'a tst_scheme) option" where
  "commit_child st parent ps = do {
     let txn = st_txn st;
     let (mem, st) = ask_mem st;
     (rc, il) \<leftarrow> mdb_midl_append_list mem (mt_free_pgs parent) (il_ids (mt_free_pgs txn));
     let parent = parent\<lparr>mt_free_pgs := il\<rparr>;
     if rc \<noteq> 0 then Some (True, rc, st\<lparr>st_parents := parent # ps\<rparr>)
     else do {
       let parent = parent\<lparr>mt_next_pgno := mt_next_pgno txn, mt_flags := mt_flags txn\<rparr>;
       let st = mdb_cursors_close st True;
       parent \<leftarrow> merge_dbs txn parent;
       let src = mt_dirty_list txn;
       pspill \<leftarrow> unspill_parent src (mt_spill_pgs parent);
       (st, dst) \<leftarrow>
         (case mt_spill_pgs txn of
            None \<Rightarrow> Some (st, mt_dirty_list parent)
          | Some il \<Rightarrow> do {
              n \<leftarrow> aget (il_ids il) 0;
              undirty_spilled st (il_ids il) (mt_dirty_list parent) 1 (unat n) });
       (st, dst) \<leftarrow> merge_lists st (ps \<noteq> []) (mt_dirty_room txn) dst src;
       (rc, st, parent) \<leftarrow> merge_spilled st (mt_spill_pgs txn)
         (parent\<lparr>mt_spill_pgs := pspill, mt_dirty_list := dst, mt_dirty_room := mt_dirty_room txn\<rparr>);
       Some (False, rc, st\<lparr>st_parents := ps, st_saved := tl (st_saved st),
         st_txn := parent\<lparr>mt_loose_pgs := mt_loose_pgs parent @ mt_loose_pgs txn,
           mt_loose_count := mt_loose_count parent + mt_loose_count txn\<rparr>\<rparr>) } }"

section \<open>Committing a top-level transaction\<close>

text \<open>The records of the named databases, \<open>k\<close> handles from \<open>i\<close> on.\<close>

fun save_roots :: "'a wst_scheme \<Rightarrow> mcursor \<Rightarrow> nat \<Rightarrow> nat \<Rightarrow> (int \<times> 'a wst_scheme) option" where
  "save_roots st m i 0 = Some (0, st)"
| "save_roots st m i (Suc k) = do {
     f \<leftarrow> aget (mt_dbflags (st_txn st)) i;
     if \<not> has f DB_DIRTY then save_roots st m (i + 1) k
     else do {
       changed \<leftarrow> TXN_DBI_CHANGED (st_env st) (st_txn st) i;
       if changed then Some (MDB_BAD_DBI, st)
       else do {
         d \<leftarrow> aget (mt_dbs (st_txn st)) i;
         dx \<leftarrow> aget (me_dbxs (st_env st)) i;
         (rc, st, m, _, _) \<leftarrow> mdb_cursor_put st m None (case md_name dx of None \<Rightarrow> [] | Some n \<Rightarrow> n) (whole (db_bytes d)) 0 F_SUBDATA;
         if rc \<noteq> 0 then Some (rc, st) else save_roots st m (i + 1) k } } }"

definition save_db_roots :: "'a wst_scheme \<Rightarrow> (int \<times> 'a wst_scheme) option" where
  "save_db_roots st =
     (if mt_numdbs (st_txn st) > CORE_DBS then do {
        (st, m) \<leftarrow> mdb_cursor_init st raw_cursor MAIN_DBI None;
        save_roots st m CORE_DBS (mt_numdbs (st_txn st) - CORE_DBS) }
      else Some (0, st))"

definition sync_pages :: "'a cst_scheme \<Rightarrow> int \<times> 'a cst_scheme" where
  "sync_pages st =
     (if F_ISSET (mt_flags (st_txn st)) MDB_NOSYNC then (0, st)
      else (mdb_env_sync0 (st_env st) False (st_sync st (os_time (st_os st))), st\<lparr>st_os := tick (st_os st)\<rparr>))"

definition write_meta :: "'a cst_scheme \<Rightarrow> (int \<times> 'a cst_scheme) option" where
  "write_meta st = do {
     (rc, env, file) \<leftarrow> mdb_env_write_meta (st_env st) (st_txn st) (st_sync st (os_time (st_os st))) (os_io (st_os st)) (st_file st);
     Some (rc, st\<lparr>st_env := env, st_file := file, st_os := tick (st_os st)\<rparr>) }"

text \<open>\<open>fcntl\<close> until it is not interrupted.\<close>

fun setlk :: "(int \<times> int) list \<Rightarrow> int option" where
  "setlk [] = None"
| "setlk ((r, e) # answers) = (if r = 0 then Some 0 else if e = EINTR then setlk answers else Some e)"

definition mdb_env_share_locks :: "'a cst_scheme \<Rightarrow> (int \<times> 'a cst_scheme) option" where
  "mdb_env_share_locks st = do {
     let m = mdb_env_pick_meta (st_env st) (st_file st);
     ti \<leftarrow> me_txns (st_env st);
     let st = upd_env (\<lambda>e. e\<lparr>me_txns := Some (ti\<lparr>mti_txnid := mm_txnid m\<rparr>)\<rparr>) st;
     rc \<leftarrow> setlk (st_setlk st (os_time (st_os st)));
     Some (rc, st\<lparr>st_os := tick (st_os st)\<rparr>) }"

definition share_locks :: "'a cst_scheme \<Rightarrow> (int \<times> 'a cst_scheme) option" where
  "share_locks st =
     (if has (me_flags (st_env st)) MDB_PREVSNAPSHOT then do {
        (rc, st) \<leftarrow> (if has (me_flags (st_env st)) MDB_NOLOCK then Some (0, st) else mdb_env_share_locks st);
        Some (rc, if rc \<noteq> 0 then st else upd_env (\<lambda>e. e\<lparr>me_flags := me_flags e XOR MDB_PREVSNAPSHOT\<rparr>) st) }
      else Some (0, st))"

text \<open>The steps that write the transaction, each after the ones before it succeeded.\<close>

definition write_txn :: "'a cst_scheme \<Rightarrow> (int \<times> 'a cst_scheme) option" where
  "write_txn st = do {
     (rc, st) \<leftarrow> save_db_roots st;
     if rc \<noteq> 0 then Some (rc, st)
     else do {
       (rc, st) \<leftarrow> mdb_freelist_save st;
       if rc \<noteq> 0 then Some (rc, st)
       else do {
         let st = upd_env (\<lambda>e. e\<lparr>me_pghead := None\<rparr>) st;
         let (mem, st) = ask_mem st;
         let st = upd_txn (\<lambda>t. t\<lparr>mt_free_pgs := mdb_midl_shrink mem (mt_free_pgs t)\<rparr>) st;
         (rc, st) \<leftarrow> mdb_page_flush st 0;
         if rc \<noteq> 0 then Some (rc, st)
         else do {
           let (rc, st) = sync_pages st;
           if rc \<noteq> 0 then Some (rc, st)
           else do {
             (rc, st) \<leftarrow> write_meta st;
             if rc \<noteq> 0 then Some (rc, st) else share_locks st } } } } }"

definition commit_fail :: "int \<Rightarrow> 'a tst_scheme \<Rightarrow> (int \<times> 'a tst_scheme) option" where
  "commit_fail rc st = do {
     st \<leftarrow> mdb_txn_abort st 0;
     Some (rc, st) }"

definition commit_done :: "'a tst_scheme \<Rightarrow> u32 \<Rightarrow> (int \<times> 'a tst_scheme) option" where
  "commit_done st mode = do {
     st \<leftarrow> mdb_txn_end st mode;
     Some (MDB_SUCCESS, st) }"

definition MDB_END_EMPTY :: u32 where
  "MDB_END_EMPTY = MDB_END_EMPTY_COMMIT OR MDB_END_UPDATE OR MDB_END_SLOT OR MDB_END_FREE"

definition commit_top :: "'a cst_scheme \<Rightarrow> (int \<times> 'a cst_scheme) option" where
  "commit_top st =
     (if \<not> me_txn (st_env st) then commit_fail EINVAL st
      else do {
        let st = mdb_cursors_close st False;
        d0 \<leftarrow> aget (mt_dirty_list (st_txn st)) 0;
        if fst d0 = 0 \<and> \<not> has (mt_flags (st_txn st)) (MDB_TXN_DIRTY OR MDB_TXN_SPILLS)
        then commit_done st MDB_END_EMPTY
        else do {
          (rc, st) \<leftarrow> write_txn st;
          if rc \<noteq> 0 then commit_fail rc st else commit_done st (MDB_END_COMMITTED OR MDB_END_UPDATE) } })"

text \<open>A transaction without child.\<close>

definition commit_one :: "'a cst_scheme \<Rightarrow> (int \<times> 'a cst_scheme) option" where
  "commit_one st = (
     let tf = mt_flags (st_txn st) in
     if F_ISSET tf MDB_TXN_RDONLY then commit_done st MDB_END_EMPTY
     else if has tf (MDB_TXN_FINISHED OR MDB_TXN_ERROR) then
       commit_fail MDB_BAD_TXN (st\<lparr>st_parents :=
         (case st_parents st of [] \<Rightarrow> [] | p # ps \<Rightarrow> p\<lparr>mt_flags := mt_flags p OR MDB_TXN_ERROR\<rparr> # ps)\<rparr>)
     else
       (case st_parents st of
          [] \<Rightarrow> commit_top st
        | p # ps \<Rightarrow> do {
            (failed, rc, st) \<leftarrow> commit_child st p ps;
            if failed then commit_fail rc st else Some (rc, st) }))"

text \<open>Committing the ancestor \<open>k\<close> levels above \<open>st_txn\<close>: first its descendants.\<close>

fun mdb_txn_commit :: "'a cst_scheme \<Rightarrow> nat \<Rightarrow> (int \<times> 'a cst_scheme) option" where
  "mdb_txn_commit st 0 = commit_one st"
| "mdb_txn_commit st (Suc k) = do {
     (rc, st) \<leftarrow> mdb_txn_commit st k;
     if rc \<noteq> 0 then commit_fail rc st else commit_one st }"

end
