(* ===== verification/Tools.thy ===== *)
theory Tools
  imports Commit Dump
begin

text \<open>
  The main functions of \<open>mdb_load\<close> and \<open>mdb_dump\<close> from the point where the environment is open.
\<close>

section \<open>\<open>mdb_load\<close>\<close>

text \<open>
  \<open>app\<close> and \<open>putflags\<close> come from
  the options \<open>-a\<close> and \<open>-N\<close>; \<open>realloc\<close> is as for \<open>readline\<close>. \<open>kbuf\<close> is the first half of a block whose second half
  holds the previous key \<open>prevk\<close>: once \<open>readline\<close> has enlarged it, the second half is gone.
\<close>

text \<open>The comparison function that \<open>-a\<close> installs.\<close>

definition greater_cmp :: cmp_fn where
  "greater_cmp = Cmp_user (\<lambda>a b. Some 1)"

text \<open>The buffers, and how a section of the input ends: at its end, or at the labels \<open>txn_abort\<close> and \<open>env_close\<close>.\<close>

record lbuf =
  lb_kbuf :: bytes
  lb_dbuf :: bytes
  lb_ksize :: nat
  lb_prevk :: bytes

datatype load_end = Load_eof | Load_abort int | Load_close int

definition open_cursor :: "'a cst_scheme \<Rightarrow> nat \<Rightarrow> (int \<times> 'a cst_scheme \<times> mcursor option) option" where
  "open_cursor st dbi = do {
     let (ok, st) = ask_malloc st;
     mdb_cursor_open ok st dbi }"

text \<open>The flags of the put for \<open>key\<close>, and the previous key after it.\<close>

definition append_flags :: "bool \<Rightarrow> u32 \<Rightarrow> lbuf \<Rightarrow> bytes \<Rightarrow> (u32 \<times> lbuf) option" where
  "append_flags app flags lb key =
     (if \<not> app then Some (0, lb)
      else if \<not> has flags (ucast MDB_DUPSORT) then Some (MDB_APPEND, lb)
      else if length (lb_kbuf lb) \<noteq> lb_ksize lb then None
      else if lb_prevk lb = key then Some (MDB_CURRENT OR MDB_APPENDDUP, lb)
      else Some (MDB_APPEND, lb\<lparr>lb_prevk := key\<rparr>))"

text \<open>After 100 records the transaction is committed and the next one begins.\<close>

definition next_batch :: "'a cst_scheme \<Rightarrow> nat \<Rightarrow> u32 \<Rightarrow> (load_end option \<times> 'a cst_scheme \<times> mcursor option) option" where
  "next_batch st dbi appflag = do {
     (rc, st) \<leftarrow> mdb_txn_commit st 0;
     if rc \<noteq> 0 then Some (Some (Load_close rc), st, None)
     else do {
       (rc, st) \<leftarrow> mdb_txn_begin st False 0;
       if rc \<noteq> 0 then Some (Some (Load_close rc), st, None)
       else do {
         (rc, st, m) \<leftarrow> open_cursor st dbi;
         if rc \<noteq> 0 then Some (Some (Load_abort rc), st, None)
         else do {
           (st, m) \<leftarrow>
             (if has appflag MDB_APPENDDUP then do {
                (_, st, m, _, _) \<leftarrow> mdb_cursor_get st m (Some []) (Some []) MDB_LAST;
                Some (st, m) }
              else Some (st, m));
           Some (None, st, m) } } } }"

partial_function (option) load_records ::
    "(nat \<Rightarrow> bytes option) \<Rightarrow> bool \<Rightarrow> u32 \<Rightarrow> nat \<Rightarrow> 'a cst_scheme \<Rightarrow> loader \<Rightarrow> lbuf \<Rightarrow> mcursor \<Rightarrow> nat \<Rightarrow>
     (load_end \<times> 'a cst_scheme \<times> loader \<times> lbuf) option" where
  "load_records realloc app putflags dbi st ld lb m batch = do {
     (rc, key, kbuf, ld) \<leftarrow> readline realloc ld (lb_kbuf lb);
     let lb = lb\<lparr>lb_kbuf := kbuf\<rparr>;
     if rc \<noteq> 0 then Some (Load_eof, st, ld, lb)
     else do {
       (rc, data, dbuf, ld) \<leftarrow> readline realloc ld (lb_dbuf lb);
       let lb = lb\<lparr>lb_dbuf := dbuf\<rparr>;
       if rc \<noteq> 0 then Some (Load_abort rc, st, ld, lb)
       else do {
         (appflag, lb) \<leftarrow> append_flags app (ld_flags ld) lb key;
         (rc, st, m, _, _) \<leftarrow> mdb_cursor_put st m (Some 0) key (whole data) 0 (putflags OR appflag);
         if rc = MDB_KEYEXIST \<and> putflags \<noteq> 0 then load_records realloc app putflags dbi st ld lb m batch
         else if rc \<noteq> 0 then Some (Load_abort rc, st, ld, lb)
         else if batch + 1 = 100 then do {
           (e, st, m) \<leftarrow> next_batch st dbi appflag;
           case e of
             Some e \<Rightarrow> Some (e, st, ld, lb)
           | None \<Rightarrow> do { m \<leftarrow> m; load_records realloc app putflags dbi st ld lb m 0 } }
         else load_records realloc app putflags dbi st ld lb m (batch + 1) } } }"

text \<open>One section: a transaction, the database, its records and the commit.\<close>

definition load_section ::
    "(nat \<Rightarrow> bytes option) \<Rightarrow> bool \<Rightarrow> u32 \<Rightarrow> 'a cst_scheme \<Rightarrow> loader \<Rightarrow> lbuf \<Rightarrow>
     (load_end \<times> 'a cst_scheme \<times> loader \<times> lbuf) option" where
  "load_section realloc app putflags st ld lb = do {
     (rc, st) \<leftarrow> mdb_txn_begin st False 0;
     if rc \<noteq> 0 then Some (Load_close rc, st, ld, lb)
     else do {
       (rc, st, dbi) \<leftarrow> mdb_dbi_open st (ld_subname ld) (ld_flags ld OR MDB_CREATE);
       if rc \<noteq> 0 then Some (Load_abort rc, st, ld, lb)
       else do {
         dbi \<leftarrow> dbi;
         let lb = lb\<lparr>lb_prevk := []\<rparr>;
         (_, st) \<leftarrow> (if app then mdb_set_compare st dbi (Some greater_cmp) else Some (0, st));
         (_, st) \<leftarrow> (if app \<and> has (ld_flags ld) (ucast MDB_DUPSORT) then mdb_set_dupsort st dbi (Some greater_cmp) else Some (0, st));
         (rc, st, m) \<leftarrow> open_cursor st dbi;
         if rc \<noteq> 0 then Some (Load_abort rc, st, ld, lb)
         else do {
           m \<leftarrow> m;
           (e, st, ld, lb) \<leftarrow> load_records realloc app putflags dbi st ld lb m 0;
           if e \<noteq> Load_eof then Some (e, st, ld, lb)
           else do {
             (rc, st) \<leftarrow> mdb_txn_commit st 0;
             if rc \<noteq> 0 then Some (Load_close rc, st, ld, lb)
             else do {
               env \<leftarrow> mdb_dbi_close (st_env st) dbi;
               Some (Load_eof, st\<lparr>st_env := env\<rparr>, ld, lb) } } } } } }"

text \<open>The loop \<open>while (!Eof)\<close>; \<open>rc\<close> is the code of the last section. The header of the first one has been read.\<close>

partial_function (option) load_sections ::
    "(nat \<Rightarrow> bytes option) \<Rightarrow> bool \<Rightarrow> u32 \<Rightarrow> bool \<Rightarrow> int \<Rightarrow> 'a cst_scheme \<Rightarrow> loader \<Rightarrow> lbuf \<Rightarrow> (int \<times> 'a cst_scheme) option" where
  "load_sections realloc app putflags dohdr rc st ld lb =
     (if ld_eof ld then Some (rc, st)
      else do {
        (dbuf, ld) \<leftarrow> (if dohdr \<and> \<not> has (ld_mode ld) NOHDR then readhdr (lb_dbuf lb) ld else Some (lb_dbuf lb, ld));
        (e, st, ld, lb) \<leftarrow> load_section realloc app putflags st ld (lb\<lparr>lb_dbuf := dbuf\<rparr>);
        case e of
          Load_eof \<Rightarrow> load_sections realloc app putflags True 0 st ld lb
        | Load_close rc \<Rightarrow> Some (rc, st)
        | Load_abort rc \<Rightarrow> do { st \<leftarrow> mdb_txn_abort st 0; Some (rc, st) } })"

text \<open>The exit code. The buffers: 4096 bytes for data, and for keys twice the largest key in hex and a blank and a newline.\<close>

definition load_main ::
    "(nat \<Rightarrow> bytes option) \<Rightarrow> bool \<Rightarrow> u32 \<Rightarrow> 'a cst_scheme \<Rightarrow> loader \<Rightarrow> bytes \<Rightarrow> bytes \<Rightarrow> (int \<times> 'a cst_scheme) option" where
  "load_main realloc app putflags st ld kbuf dbuf = do {
     (dbuf, ld) \<leftarrow> (if has (ld_mode ld) NOHDR then Some (dbuf, ld) else readhdr dbuf ld);
     (rc, st) \<leftarrow> load_sections realloc app putflags False 0 st ld
       \<lparr>lb_kbuf = kbuf, lb_dbuf = dbuf, lb_ksize = length kbuf, lb_prevk = []\<rparr>;
     Some (if rc \<noteq> 0 then 1 else 0, st) }"

section \<open>\<open>mdb_dump\<close>\<close>

text \<open>
  The databases whose names the cursor finds in the main database (option \<open>-a\<close>; with \<open>-l\<close> only their names are
  printed). Names are looked for in all keys without a NUL; \<open>gotsig i n\<close> says whether a signal has come before
  record \<open>n\<close> of the \<open>i\<close>-th of them. The result is what is printed, \<open>rc\<close>, the state and \<open>cnt\<close>.
\<close>

partial_function (option) dump_dbs ::
    "(nat \<Rightarrow> nat \<Rightarrow> bool) \<Rightarrow> bool \<Rightarrow> u32 \<Rightarrow> 'a wst_scheme \<Rightarrow> mcursor \<Rightarrow> nat \<Rightarrow> (bytes \<times> int \<times> 'a wst_scheme \<times> nat) option" where
  "dump_dbs gotsig names mode st m cnt = do {
     (rc, st, m, key, _) \<leftarrow> mdb_cursor_get st (Some m) (Some []) None MDB_NEXT_NODUP;
     if rc \<noteq> 0 then Some ([], rc, st, cnt)
     else do {
       m \<leftarrow> m;
       key \<leftarrow> key;
       if 0 \<in> set key then dump_dbs gotsig names mode st m cnt
       else do {
         (rc, st, db2) \<leftarrow> mdb_dbi_open st (Some key) 0;
         if rc \<noteq> MDB_SUCCESS then dump_dbs gotsig names mode st m (cnt + 1)
         else do {
           db2 \<leftarrow> db2;
           let (ok, st) = ask_malloc st;
           (out, rc, st) \<leftarrow> (if names then Some (key @ [NEWLINE], 0, st) else dumpit (gotsig cnt) ok mode st db2 (Some key));
           if rc \<noteq> 0 then Some (out, rc, st, cnt + 1)
           else do {
             env \<leftarrow> mdb_dbi_close (st_env st) db2;
             (out', rc, st, cnt) \<leftarrow> dump_dbs gotsig names mode (st\<lparr>st_env := env\<rparr>) m (cnt + 1);
             Some (out @ out', rc, st, cnt) } } } } }"

definition dump_all ::
    "(nat \<Rightarrow> nat \<Rightarrow> bool) \<Rightarrow> bool \<Rightarrow> u32 \<Rightarrow> 'a wst_scheme \<Rightarrow> nat \<Rightarrow> (bytes \<times> int \<times> 'a wst_scheme) option" where
  "dump_all gotsig names mode st dbi = do {
     let (ok, st) = ask_malloc st;
     (rc, st, m) \<leftarrow> mdb_cursor_open ok st dbi;
     if rc \<noteq> 0 then Some ([], rc, st)
     else do {
       m \<leftarrow> m;
       (out, rc, st, cnt) \<leftarrow> dump_dbs gotsig names mode st m 0;
       Some (out, if cnt = 0 then MDB_NOTFOUND else if rc = MDB_NOTFOUND then MDB_SUCCESS else rc, st) } }"

text \<open>What is printed and the exit code; \<open>all\<close> is the option \<open>-a\<close>, \<open>subname\<close> that of \<open>-s\<close>.\<close>

definition dump_main ::
    "(nat \<Rightarrow> nat \<Rightarrow> bool) \<Rightarrow> bool \<Rightarrow> bool \<Rightarrow> u32 \<Rightarrow> 'a tst_scheme \<Rightarrow> bytes option \<Rightarrow> (bytes \<times> int \<times> 'a tst_scheme) option" where
  "dump_main gotsig all_dbs names mode st subname = do {
     (rc, st) \<leftarrow> mdb_txn_begin st False MDB_RDONLY;
     if rc \<noteq> 0 then Some ([], 1, st)
     else do {
       (rc, st, dbi) \<leftarrow> mdb_dbi_open st subname 0;
       (out, rc, st) \<leftarrow>
         (if rc \<noteq> 0 then Some ([], rc, st)
          else do {
            dbi \<leftarrow> dbi;
            (out, rc, st) \<leftarrow>
              (if all_dbs then dump_all gotsig names mode st dbi
               else do {
                 let (ok, st) = ask_malloc st;
                 dumpit (gotsig 0) ok mode st dbi subname });
            env \<leftarrow> mdb_dbi_close (st_env st) dbi;
            Some (out, rc, st\<lparr>st_env := env\<rparr>) });
       st \<leftarrow> mdb_txn_abort st 0;
       Some (out, if rc \<noteq> 0 then 1 else 0, st) } }"

end
