(* ===== verification/Tree_Update.thy ===== *)
theory Tree_Update
  imports Tree_Ops
begin

text \<open>
  Replacing one leaf page of a well-formed tree: the entries of a leaf page as its list of nodes, the pages that a
  tree consists of, and the items of the tree when the leaf at the end of a path is another well-formed leaf page.
\<close>

section \<open>A leaf page as the list of its nodes\<close>

definition nb_key :: "bytes \<Rightarrow> bytes" where
  "nb_key nb = slice nb 8 (rd nb 6 2)"

definition nb_big :: "bytes \<Rightarrow> bool" where
  "nb_big nb = F_ISSET (of_nat (rd nb 4 2) :: u16) (ucast F_BIGDATA)"

definition nb_dup :: "bytes \<Rightarrow> bool" where
  "nb_dup nb = F_ISSET (of_nat (rd nb 4 2) :: u16) (ucast F_DUPDATA)"

text \<open>The first overflow page of a node that has its data there.\<close>

definition nb_ref :: "bytes \<Rightarrow> u64" where
  "nb_ref nb = of_nat (rd nb (8 + rd nb 6 2) 8)"

definition nb_val :: "(u64 \<Rightarrow> bytes option) \<Rightarrow> bytes \<Rightarrow> bytes option" where
  "nb_val pg nb =
     (if nb_big nb then do { q \<leftarrow> pg (nb_ref nb); get_bytes q 16 (rd nb 0 4) }
      else get_bytes nb (8 + rd nb 6 2) (rd nb 0 4))"

lemma length_page_nodes [simp]: "length (page_nodes p) = NUMKEYS p"
  by (simp add: page_nodes_def)

lemma node_of:
  assumes ok: "page_ok psize p" "IS_LEAF p" and i: "i < NUMKEYS p"
  shows "key_at p i = nb_key (page_nodes p ! i)" "value_at pg p i = nb_val pg (page_nodes p ! i)"
    "is_dup_at p i = nb_dup (page_nodes p ! i)"
proof -
  let ?n = "pt p i"
  define L where "L = node_len True p ?n"
  have nb: "page_nodes p ! i = slice p ?n L" using i ok(2) by (simp add: page_nodes_def node_bytes_def L_def)
  have x: "?n \<in> set (ptrs p)" using i by (auto simp: ptrs_def)
  have le: "?n + L \<le> length p"
    using page_okD [OF ok(1) x] EVEN_bounds(1) [of L] ok(2) by (simp add: extent_def L_def)
  have L: "8 + rd p (?n + 6) 2 + (if F_ISSET (of_nat (rd p (?n + 4) 2) :: u16) 1 then 8 else rd p ?n 4) = L"
    by (simp add: L_def node_len_def)
  have r: "rd (slice p ?n L) k j = rd p (?n + k) j" if "k + j \<le> 8" for k j
    using that L by (intro rd_slice) linarith
  have k: "8 + rd p (?n + 6) 2 \<le> L" using L by linarith
  show "key_at p i = nb_key (page_nodes p ! i)"
    using k by (simp add: nb nb_key_def key_at_def r slice_slice)
  show "is_dup_at p i = nb_dup (page_nodes p ! i)" by (simp add: nb nb_dup_def is_dup_at_def r)
  show "value_at pg p i = nb_val pg (page_nodes p ! i)"
  proof (cases "F_ISSET (of_nat (rd p (?n + 4) 2) :: u16) (ucast F_BIGDATA)")
    case True
    then have "rd (slice p ?n L) (8 + rd p (?n + 6) 2) 8 = rd p (?n + (8 + rd p (?n + 6) 2)) 8"
      using L by (intro rd_slice) (simp add: F_BIGDATA_def)
    then show ?thesis using True by (simp add: value_at_def nb_val_def nb_big_def nb_ref_def nb r Let_def add.assoc)
  next
    case False
    then have "8 + rd p (?n + 6) 2 + rd p ?n 4 = L" using L by (simp add: F_BIGDATA_def)
    moreover have "length (slice p ?n L) = L" using le by simp
    ultimately show ?thesis using False le
      by (simp add: value_at_def nb_val_def nb_big_def nb r Let_def get_bytes_def slice_slice add.assoc)
  qed
qed

definition nb_item :: "(u64 \<Rightarrow> bytes option) \<Rightarrow> bytes \<Rightarrow> bytes \<times> bytes" where
  "nb_item pg nb = (nb_key nb, the (nb_val pg nb))"

lemma leaf_items_nodes:
  "page_ok psize p \<Longrightarrow> IS_LEAF p \<Longrightarrow> leaf_items pg p = map (nb_item pg) (page_nodes p)"
  by (rule nth_equalityI) (auto simp: leaf_items_def nb_item_def node_of)

text \<open>A leaf page is well formed when its nodes are.\<close>

lemma leaf_ok_nodes:
  fixes rank :: "bytes \<Rightarrow> 'k::linorder"
  assumes "page_ok psize p" "IS_LEAF p" "\<not> IS_LEAF2 p" "\<not> IS_BRANCH p"
  shows "leaf_ok pg psize c valid rank p lo hi \<longleftrightarrow>
    page_nodes p \<noteq> [] \<and> key_order (call_cmp c) valid rank \<and>
    (\<forall>nb \<in> set (page_nodes p). valid (nb_key nb) \<and> in_range lo hi (rank (nb_key nb)) \<and> nb_val pg nb \<noteq> None \<and> \<not> nb_dup nb) \<and>
    sorted_wrt (\<lambda>a b. rank (nb_key a) < rank (nb_key b)) (page_nodes p)"
proof -
  have n: "key_at p i = nb_key (page_nodes p ! i)" "value_at pg p i = nb_val pg (page_nodes p ! i)"
    "is_dup_at p i = nb_dup (page_nodes p ! i)" if "i < NUMKEYS p" for i
    using node_of [OF assms(1,2) that] by auto
  have "node_search_cmp p c = Some c" using assms(4) by (simp add: node_search_cmp_def)
  moreover have "0 < NUMKEYS p \<longleftrightarrow> page_nodes p \<noteq> []" using length_page_nodes [of p] by (cases "page_nodes p") auto
  ultimately show ?thesis using assms n
    by (auto simp: leaf_ok_def ordered_by_def keys_sorted_def all_set_conv_all_nth sorted_wrt_iff_nth_less)
qed

section \<open>The pages of a tree\<close>

definition leaf_refs :: "bytes \<Rightarrow> u64 list" where
  "leaf_refs p = map nb_ref (filter nb_big (page_nodes p))"

fun tree_pages :: "(u64 \<Rightarrow> bytes option) \<Rightarrow> nat \<Rightarrow> u64 \<Rightarrow> u64 list" where
  "tree_pages pg 0 g = g # (case pg g of None \<Rightarrow> [] | Some p \<Rightarrow> leaf_refs p)"
| "tree_pages pg (Suc d) g =
     g # (case pg g of None \<Rightarrow> [] | Some p \<Rightarrow> concat (map (\<lambda>i. tree_pages pg d (child_at p i)) [0..<NUMKEYS p]))"

lemma nb_val_upd: "(nb_big nb \<Longrightarrow> nb_ref nb \<noteq> g) \<Longrightarrow> nb_val (pg(g := x)) nb = nb_val pg nb"
  by (auto simp: nb_val_def)

lemma leaf_upd:
  assumes "page_ok psize p" "IS_LEAF p" "\<not> IS_LEAF2 p" "\<not> IS_BRANCH p" "g \<notin> set (leaf_refs p)"
  shows "leaf_ok (pg(g := x)) psize c valid rank p lo hi = leaf_ok pg psize c valid rank p lo hi"
    "leaf_items (pg(g := x)) p = leaf_items pg p"
proof -
  have v: "nb_val (pg(g := x)) nb = nb_val pg nb" if "nb \<in> set (page_nodes p)" for nb
    using that assms(5) by (intro nb_val_upd) (auto simp: leaf_refs_def)
  show "leaf_ok (pg(g := x)) psize c valid rank p lo hi = leaf_ok pg psize c valid rank p lo hi"
    using v unfolding leaf_ok_nodes [OF assms(1-4)] by auto
  show "leaf_items (pg(g := x)) p = leaf_items pg p"
    using v unfolding leaf_items_nodes [OF assms(1,2)] by (simp add: nb_item_def)
qed

text \<open>A page that is not one of its pages does not matter to a tree.\<close>

lemma tree_outside:
  assumes "tree_ok pg psize c valid rank d g0 lo hi" "g \<notin> set (tree_pages pg d g0)"
  shows "tree_ok (pg(g := x)) psize c valid rank d g0 lo hi \<and> items (pg(g := x)) d g0 = items pg d g0 \<and>
    tree_pages (pg(g := x)) d g0 = tree_pages pg d g0"
  using assms
proof (induction d arbitrary: g0 lo hi)
  case 0
  then obtain p where p: "pg g0 = Some p" "leaf_ok pg psize c valid rank p lo hi" by auto
  have k: "page_ok psize p" "IS_LEAF p" "\<not> IS_LEAF2 p" "\<not> IS_BRANCH p" using p(2) by (simp_all add: leaf_ok_def)
  have "g \<noteq> g0" "g \<notin> set (leaf_refs p)" using 0(2) p(1) by auto
  then show ?case using p by (simp del: fun_upd_apply add: fun_upd_other leaf_upd [OF k])
next
  case (Suc d)
  then obtain p where p: "pg g0 = Some p" "branch_ok psize c valid rank p lo hi"
    "\<forall>i < NUMKEYS p. tree_ok pg psize c valid rank d (child_at p i) (lo_of rank p lo i) (hi_of rank p hi i)" by auto
  have g: "g \<noteq> g0" "g \<notin> set (tree_pages pg d (child_at p i))" if "i < NUMKEYS p" for i
    using Suc.prems(2) p(1) that by auto
  have "0 < NUMKEYS p" using p(2) by (simp add: branch_ok_def)
  then have g0: "g \<noteq> g0" by (rule g)
  note IH = Suc.IH [OF p(3) [rule_format] g(2)]
  have "concat (map (\<lambda>i. items (pg(g := x)) d (child_at p i)) [0..<NUMKEYS p]) =
      concat (map (\<lambda>i. items pg d (child_at p i)) [0..<NUMKEYS p])"
    "concat (map (\<lambda>i. tree_pages (pg(g := x)) d (child_at p i)) [0..<NUMKEYS p]) =
      concat (map (\<lambda>i. tree_pages pg d (child_at p i)) [0..<NUMKEYS p])"
    using IH by (auto intro!: arg_cong [where f = concat] simp del: fun_upd_apply)
  moreover have "(pg(g := x)) g0 = Some p" using g0 p(1) by simp
  ultimately show ?case using IH p(1,2) by (simp del: fun_upd_apply)
qed

lemma tree_pages_root: "g \<in> set (tree_pages pg d g)"
  by (cases d) auto

lemma node_at_page:
  "good_path pg d g ks \<Longrightarrow> node_at pg g ks \<in> set (tree_pages pg d g)"
proof (induction d arbitrary: g ks)
  case (Suc d)
  then obtain k r p where k: "ks = k # r" "pg g = Some p" "k < NUMKEYS p" "good_path pg d (child_at p k) r" by auto
  then show ?case using Suc.IH [OF k(4)] by auto
qed simp

text \<open>Distinct parts of a concatenation.\<close>

lemma distinct_concat_parts:
  assumes "distinct (concat (map f [0..<n]))" "i < n" "j < n" "i \<noteq> j" "x \<in> set (f i)"
  shows "x \<notin> set (f j)"
proof -
  have "distinct (concat (map f [0..<n])) \<Longrightarrow> i < n \<Longrightarrow> j < n \<Longrightarrow> i \<noteq> j \<Longrightarrow> x \<in> set (f i) \<Longrightarrow> x \<in> set (f j) \<Longrightarrow> False"
  proof (induction n)
    case (Suc n)
    have d: "distinct (concat (map f [0..<n]))" "set (concat (map f [0..<n])) \<inter> set (f n) = {}"
      using Suc.prems(1) by simp_all
    have "\<not> (i < n \<and> j < n)" using Suc.IH [OF d(1)] Suc.prems by blast
    then consider "i < n" "j = n" | "i = n" "j < n" using Suc.prems by linarith
    then show ?case using d(2) Suc.prems by cases fastforce+
  qed simp
  then show ?thesis using assms by blast
qed

lemma distinct_concat_nth:
  "distinct (concat (map f [0..<n])) \<Longrightarrow> i < n \<Longrightarrow> distinct (f i)"
proof (induction n)
  case (Suc n)
  then show ?case by (cases "i = n") auto
qed simp

lemma distinct_concat_smaller:
  "distinct (concat (map f [0..<n])) \<Longrightarrow> (\<And>i. i < n \<Longrightarrow> set (h i) \<subseteq> set (f i)) \<Longrightarrow> (\<And>i. i < n \<Longrightarrow> distinct (h i)) \<Longrightarrow>
    distinct (concat (map h [0..<n]))"
proof (induction n)
  case (Suc n)
  have d: "distinct (concat (map f [0..<n]))" "set (concat (map f [0..<n])) \<inter> set (f n) = {}" using Suc.prems(1) by simp_all
  have "distinct (concat (map h [0..<n]))" by (rule Suc.IH [OF d(1)]) (use Suc.prems in auto)
  moreover have "set (concat (map h [0..<n])) \<subseteq> set (concat (map f [0..<n]))"
    using Suc.prems(2) by (fastforce simp: less_Suc_eq)
  moreover have "set (h n) \<subseteq> set (f n)" using Suc.prems(2) by simp
  ultimately show ?case using d(2) Suc.prems(3) by fastforce
qed simp

section \<open>Another leaf\<close>

text \<open>
  The leaf at the end of the path that a search for a key of rank \<open>r\<close> follows may be replaced by any well-formed leaf
  page for the range of keys there. The bounds are those of the path.
\<close>

fun path_bounds ::
    "(u64 \<Rightarrow> bytes option) \<Rightarrow> (bytes \<Rightarrow> 'k::linorder) \<Rightarrow> u64 \<Rightarrow> nat list \<Rightarrow> 'k option \<times> 'k option \<Rightarrow> 'k option \<times> 'k option" where
  "path_bounds pg rank g [] b = b"
| "path_bounds pg rank g (k # ks) (lo, hi) =
     (let p = the (pg g) in path_bounds pg rank (child_at p k) ks (lo_of rank p lo k, hi_of rank p hi k))"

lemma routed_bounds:
  "routed pg rank d g lo hi ks r \<Longrightarrow> path_bounds pg rank g ks (lo, hi) = (lo', hi') \<Longrightarrow> in_range lo' hi' r"
  by (induction d arbitrary: g lo hi ks) (auto simp: Let_def)

lemma path_leaf:
  "tree_ok pg psize c valid rank d g lo hi \<Longrightarrow> good_path pg d g ks \<Longrightarrow> path_bounds pg rank g ks (lo, hi) = (lo', hi') \<Longrightarrow>
    \<exists>p. pg (node_at pg g ks) = Some p \<and> leaf_ok pg psize c valid rank p lo' hi'"
  by (induction d arbitrary: g lo hi ks) (auto simp: Let_def)

lemma tree_replace:
  assumes "tree_ok pg psize c valid rank d g lo hi" "good_path pg d g ks" "distinct (tree_pages pg d g)"
    "path_bounds pg rank g ks (lo, hi) = (lo', hi')" "pg' = pg(node_at pg g ks \<mapsto> q)"
    "leaf_ok pg' psize c valid rank q lo' hi'" "pg (node_at pg g ks) = Some p"
    "set (leaf_refs q) \<subseteq> set (leaf_refs p)" "distinct (leaf_refs q)"
  shows "tree_ok pg' psize c valid rank d g lo hi \<and>
    items pg' d g = before pg d g ks @ leaf_items pg' q @ after pg d g ks \<and>
    set (tree_pages pg' d g) \<subseteq> set (tree_pages pg d g) \<and> distinct (tree_pages pg' d g)"
  using assms
proof (induction d arbitrary: g lo hi ks)
  case 0
  then show ?case by auto
next
  case (Suc d)
  then obtain b where b: "pg g = Some b" "branch_ok psize c valid rank b lo hi"
    "\<forall>i < NUMKEYS b. tree_ok pg psize c valid rank d (child_at b i) (lo_of rank b lo i) (hi_of rank b hi i)" by auto
  obtain k r where k: "ks = k # r" "k < NUMKEYS b" "good_path pg d (child_at b k) r" using Suc.prems(2) b(1) by auto
  let ?l = "node_at pg (child_at b k) r" and ?f = "\<lambda>i. tree_pages pg d (child_at b i)"
  have l: "node_at pg g ks = ?l" using k(1) b(1) by simp
  have inl: "?l \<in> set (?f k)" by (rule node_at_page [OF k(3)])
  have dis: "distinct (concat (map ?f [0..<NUMKEYS b]))" "g \<notin> set (concat (map ?f [0..<NUMKEYS b]))"
    using Suc.prems(3) b(1) by simp_all
  have pg': "pg' = pg(?l \<mapsto> q)" using Suc.prems(5) unfolding l .
  have gl: "?l \<noteq> g" using dis(2) inl k(2) by auto
  have out: "?l \<notin> set (?f i)" if "i < NUMKEYS b" "i \<noteq> k" for i
    using distinct_concat_parts [OF dis(1) k(2) that(1) _ inl] that(2) by simp
  have other: "tree_ok pg' psize c valid rank d (child_at b i) (lo_of rank b lo i) (hi_of rank b hi i) \<and>
      items pg' d (child_at b i) = items pg d (child_at b i) \<and> tree_pages pg' d (child_at b i) = ?f i"
    if "i < NUMKEYS b" "i \<noteq> k" for i
    unfolding pg' using b(3) that out by (intro tree_outside) auto
  have bnd: "path_bounds pg rank (child_at b k) r (lo_of rank b lo k, hi_of rank b hi k) = (lo', hi')"
    using Suc.prems(4) k(1) b(1) by simp
  have IH: "tree_ok pg' psize c valid rank d (child_at b k) (lo_of rank b lo k) (hi_of rank b hi k) \<and>
      items pg' d (child_at b k) = before pg d (child_at b k) r @ leaf_items pg' q @ after pg d (child_at b k) r \<and>
      set (tree_pages pg' d (child_at b k)) \<subseteq> set (?f k) \<and> distinct (tree_pages pg' d (child_at b k))"
    by (rule Suc.IH [OF _ k(3) distinct_concat_nth [OF dis(1) k(2)] bnd pg' Suc.prems(6) _ Suc.prems(8,9)])
      (use b(3) k(2) l Suc.prems(7) in auto)
  have b': "pg' g = Some b" using pg' gl b(1) by simp
  have tree: "tree_ok pg' psize c valid rank d (child_at b i) (lo_of rank b lo i) (hi_of rank b hi i)" if "i < NUMKEYS b" for i
    using IH other that by (cases "i = k") auto
  have eq: "concat (map (\<lambda>i. items pg' d (child_at b i)) [0..<k]) = concat (map (\<lambda>i. items pg d (child_at b i)) [0..<k])"
    "concat (map (\<lambda>i. items pg' d (child_at b i)) [Suc k..<NUMKEYS b]) =
      concat (map (\<lambda>i. items pg d (child_at b i)) [Suc k..<NUMKEYS b])"
    using other k(2) by (auto intro!: arg_cong [where f = concat])
  have "items pg' (Suc d) g = before pg (Suc d) g ks @ leaf_items pg' q @ after pg (Suc d) g ks"
    using b' IH eq k(1) b(1) upt_split [OF k(2)] by (simp add: Let_def)
  moreover have sub: "set (tree_pages pg' d (child_at b i)) \<subseteq> set (?f i)" if "i < NUMKEYS b" for i
    using IH other that by (cases "i = k") auto
  then have "set (tree_pages pg' (Suc d) g) \<subseteq> set (tree_pages pg (Suc d) g)" using b' b(1) by fastforce
  moreover have "distinct (tree_pages pg' (Suc d) g)"
  proof -
    have di: "distinct (tree_pages pg' d (child_at b i))" if "i < NUMKEYS b" for i
      using IH other that distinct_concat_nth [OF dis(1) that] by (cases "i = k") auto
    have "distinct (concat (map (\<lambda>i. tree_pages pg' d (child_at b i)) [0..<NUMKEYS b]))"
      by (rule distinct_concat_smaller [OF dis(1) sub di])
    then show ?thesis using b' dis(2) sub by fastforce
  qed
  ultimately show ?case using b' b(2) tree by simp
qed

end
