(* ===== verification/Leaf_Update.thy ===== *)
theory Leaf_Update
  imports Tree_Update Read_Path Cursor_Del Touch_Correct
begin

text \<open>
  What storing and deleting have in common on a well-formed tree: the search, the pages on its path, which are dirty
  already, the change of the leaf, and the tree with the changed leaf.
\<close>

section \<open>One node more, one node less\<close>

lemma leaf_node_parts:
  assumes "length k < 65536" "length body < 2 ^ 32" "\<not> F_ISSET (of_nat f :: u16) (ucast F_BIGDATA)"
  shows "nb_key (leaf_node (length body) f k body) = k" "\<not> nb_big (leaf_node (length body) f k body)"
    "nb_val pg (leaf_node (length body) f k body) = Some body"
    "nb_dup (leaf_node (length body) f k body) = F_ISSET (of_nat f :: u16) (ucast F_DUPDATA)"
proof -
  let ?nb = "leaf_node (length body) f k body"
  have f: "(of_nat (f mod 65536) :: u16) = of_nat f"
    by (simp only: word_unat_eq_iff unsigned_of_nat take_bit_eq_mod) simp
  have r: "rd ?nb 0 4 = length body" "rd ?nb 4 2 = f mod 65536" "rd ?nb 6 2 = length k"
    using assms(1,2) by (simp_all add: leaf_node_def)
  have l: "length ?nb = 8 + length k + length body" by (simp add: leaf_node_def)
  have s: "slice ?nb 8 (length k) = k" "slice ?nb (8 + length k) (length body) = body"
    by (simp_all add: leaf_node_def slice_def)
  show "nb_key ?nb = k" by (simp add: nb_key_def r s)
  show big: "\<not> nb_big ?nb" using assms(3) by (simp add: nb_big_def r f)
  show "nb_val pg ?nb = Some body" using big l by (simp add: nb_val_def r s get_bytes_def)
  show "nb_dup ?nb = F_ISSET (of_nat f :: u16) (ucast F_DUPDATA)" by (simp add: nb_dup_def r f)
qed

lemma same_kind:
  "mp_flags q = mp_flags p \<Longrightarrow> IS_LEAF q = IS_LEAF p \<and> IS_LEAF2 q = IS_LEAF2 p \<and> IS_BRANCH q = IS_BRANCH p \<and> IS_OVERFLOW q = IS_OVERFLOW p"
  by (simp add: IS_LEAF_def IS_LEAF2_def IS_BRANCH_def IS_OVERFLOW_def)

lemma leaf_insert:
  fixes rank :: "bytes \<Rightarrow> 'k::linorder"
  assumes l: "leaf_ok pg psize c valid rank p lo hi" and q: "page_ok psize q" "mp_flags q = mp_flags p"
    and nodes: "page_nodes q = take i (page_nodes p) @ nb # drop i (page_nodes p)"
    and nb: "nb_key nb = key" "nb_val pg nb = Some v" "\<not> nb_big nb" "\<not> nb_dup nb"
    and key: "valid key" "in_range lo hi (rank key)"
    and lt: "\<forall>x \<in> set (take i (leaf_items pg p)). rank (fst x) < rank key"
    and gt: "\<forall>x \<in> set (drop i (leaf_items pg p)). rank key < rank (fst x)"
  shows "leaf_ok pg psize c valid rank q lo hi \<and>
    leaf_items pg q = take i (leaf_items pg p) @ (key, v) # drop i (leaf_items pg p) \<and> leaf_refs q = leaf_refs p"
proof -
  have k: "page_ok psize p" "IS_LEAF p" "\<not> IS_LEAF2 p" "\<not> IS_BRANCH p" using l by (simp_all add: leaf_ok_def)
  have kq: "IS_LEAF q" "\<not> IS_LEAF2 q" "\<not> IS_BRANCH q" using k same_kind [OF q(2)] by simp_all
  note it = leaf_items_nodes [OF k(1,2), of pg]
  have it': "leaf_items pg q = take i (leaf_items pg p) @ (key, v) # drop i (leaf_items pg p)"
    using leaf_items_nodes [OF q(1) kq(1), of pg] nb by (simp add: it nodes take_map drop_map nb_item_def)
  note lp = l [unfolded leaf_ok_nodes [OF k]]
  have mem: "nb' \<in> set (page_nodes p) \<or> nb' = nb" if "nb' \<in> set (page_nodes q)" for nb'
    using that set_take_subset [of i "page_nodes p"] set_drop_subset [of i "page_nodes p"] by (auto simp: nodes)
  have "sorted_wrt (\<lambda>a b. rank (nb_key a) < rank (nb_key b)) (take i (page_nodes p) @ drop i (page_nodes p))"
    using lp by simp
  moreover have "rank (nb_key x) < rank key" if "x \<in> set (take i (page_nodes p))" for x
    using lt that by (auto simp: it take_map nb_item_def)
  moreover have "rank key < rank (nb_key x)" if "x \<in> set (drop i (page_nodes p))" for x
    using gt that by (auto simp: it drop_map nb_item_def)
  ultimately have "sorted_wrt (\<lambda>a b. rank (nb_key a) < rank (nb_key b)) (page_nodes q)"
    unfolding nodes sorted_wrt_append using nb(1) by (auto dest: less_trans)
  then have "leaf_ok pg psize c valid rank q lo hi"
    unfolding leaf_ok_nodes [OF q(1) kq] using lp mem nb key by (auto simp: nodes)
  moreover have "filter nb_big (page_nodes q) = filter nb_big (take i (page_nodes p) @ drop i (page_nodes p))"
    unfolding nodes filter_append using nb(3) by simp
  ultimately show ?thesis using it' by (simp add: leaf_refs_def)
qed

lemma leaf_delete:
  fixes rank :: "bytes \<Rightarrow> 'k::linorder"
  assumes l: "leaf_ok pg psize c valid rank p lo hi" and q: "page_ok psize q" "mp_flags q = mp_flags p"
    and nodes: "page_nodes q = take i (page_nodes p) @ drop (Suc i) (page_nodes p)" and n: "i < NUMKEYS p" "1 < NUMKEYS p"
  shows "leaf_ok pg psize c valid rank q lo hi \<and>
    leaf_items pg q = take i (leaf_items pg p) @ drop (Suc i) (leaf_items pg p) \<and>
    set (leaf_refs q) \<subseteq> set (leaf_refs p) \<and> (distinct (leaf_refs p) \<longrightarrow> distinct (leaf_refs q))"
proof -
  have k: "page_ok psize p" "IS_LEAF p" "\<not> IS_LEAF2 p" "\<not> IS_BRANCH p" using l by (simp_all add: leaf_ok_def)
  have kq: "IS_LEAF q" "\<not> IS_LEAF2 q" "\<not> IS_BRANCH q" using k same_kind [OF q(2)] by simp_all
  note lp = l [unfolded leaf_ok_nodes [OF k]]
  have td: "page_nodes p = take i (page_nodes p) @ page_nodes p ! i # drop (Suc i) (page_nodes p)"
    using n(1) by (simp add: id_take_nth_drop [symmetric])
  have mem: "set (page_nodes q) \<subseteq> set (page_nodes p)"
    using set_take_subset [of i "page_nodes p"] set_drop_subset [of "Suc i" "page_nodes p"] by (auto simp: nodes)
  have "0 < length (page_nodes q)" using n unfolding nodes by simp
  then have ne: "page_nodes q \<noteq> []" by (rule length_greater_0_conv [THEN iffD1])
  have "sorted_wrt (\<lambda>a b. rank (nb_key a) < rank (nb_key b)) (page_nodes p)" using lp by simp
  then have "sorted_wrt (\<lambda>a b. rank (nb_key a) < rank (nb_key b)) (page_nodes q)"
    by (subst (asm) td) (auto simp: nodes sorted_wrt_append)
  then have "leaf_ok pg psize c valid rank q lo hi"
    unfolding leaf_ok_nodes [OF q(1) kq] using lp mem ne by auto
  moreover have "leaf_items pg q = take i (leaf_items pg p) @ drop (Suc i) (leaf_items pg p)"
    by (simp add: leaf_items_nodes [OF k(1,2)] leaf_items_nodes [OF q(1) kq(1)] nodes take_map drop_map)
  moreover have "set (leaf_refs q) \<subseteq> set (leaf_refs p)" using mem by (auto simp: leaf_refs_def)
  moreover have "distinct (leaf_refs q)" if "distinct (leaf_refs p)"
  proof -
    have "leaf_refs p = map nb_ref (filter nb_big (take i (page_nodes p) @ page_nodes p ! i # drop (Suc i) (page_nodes p)))"
      using td by (simp add: leaf_refs_def)
    then show ?thesis using that by (auto simp: leaf_refs_def nodes split: if_splits)
  qed
  ultimately show ?thesis by blast
qed

section \<open>The search\<close>

lemma set_lands:
  fixes rank :: "bytes \<Rightarrow> 'k::linorder"
  assumes db: "db_ready st (new_cursor st dbi) c root"
    and root: "root_ok st (ro_flags (new_cursor st dbi)) psize c valid rank d root" and key: "valid key" "key \<noteq> []"
  shows "\<exists>mc ks p lo hi i.
    mdb_cursor_set st (new_cursor st dbi, None) (Some key) d0 MDB_SET True =
      (if i < NUMKEYS p \<and> rank (key_at p i) = rank key
       then Some (0, st, (mc, None), Some key, out d0 (snd (leaf_items (see st (ro_flags (new_cursor st dbi))) p ! i)))
       else Some (MDB_NOTFOUND, st, (mc, None), Some key, d0)) \<and>
    at_leaf st d root ks mc \<and> mc_ki mc ! d = i \<and> mc_own mc = None \<and> mc_dbi mc = dbi \<and>
    mc_flags mc = arrived (mc_flags (new_cursor st dbi)) \<and>
    routed (see st (ro_flags mc)) rank d root None None ks (rank key) \<and>
    see st (ro_flags mc) (node_at (see st (ro_flags mc)) root ks) = Some p \<and>
    leaf_ok (see st (ro_flags mc)) psize c valid rank p lo hi \<and> i \<le> NUMKEYS p \<and>
    (\<forall>x \<in> set (take i (leaf_items (see st (ro_flags mc)) p)). rank (fst x) < rank key) \<and>
    (\<forall>x \<in> set (drop i (leaf_items (see st (ro_flags mc)) p)). rank key \<le> rank (fst x))"
proof -
  let ?mc = "new_cursor st dbi"
  let ?m0 = "?mc\<lparr>mc_pg := (mc_pg ?mc)[0 := None]\<rparr>"
  let ?pg = "see st (ro_flags ?mc)"
  have fr: "fresh_or_rooted st ?mc root" by (rule new_cursor_fresh)
  have len: "0 < length (mc_pg ?mc)" using fr by (simp add: fresh_or_rooted_def CURSOR_STACK_def)
  have e: "mc_own ?m0 = mc_own ?mc" "mc_dbi ?m0 = mc_dbi ?mc" "ro_flags ?m0 = ro_flags ?mc" "mc_flags ?m0 = mc_flags ?mc"
    by (simp_all add: ro_flags_def)
  have db0: "db_ready st ?m0 c root" using db by (subst db_ready_cong [OF e(1,2)])
  have fr0: "fresh_or_rooted st ?m0 root" using fr len by (simp add: fresh_or_rooted_def CURSOR_STACK_def)
  have root0: "root_ok st (ro_flags ?m0) psize c valid rank d root" using root e(3) by simp
  obtain m1 ks p lo hi where S: "mdb_page_search no_touch st ?m0 (Some key) 0 = Some (0, st, m1)" "at_leaf st d root ks m1"
    "ro_flags m1 = ro_flags ?mc" "mc_own m1 = mc_own ?mc" "mc_dbi m1 = mc_dbi ?mc" "mc_flags m1 = arrived (mc_flags ?mc)"
    "routed ?pg rank d root None None ks (rank key)" "?pg (node_at ?pg root ks) = Some p" "leaf_ok ?pg psize c valid rank p lo hi"
    using page_search_routed [where key = key and touch = no_touch, OF db0 root0 fr0 key(1), unfolded e] by blast
  have db1: "db_ready st m1 c root" using db by (subst db_ready_cong [OF S(4,5)])
  have p1: "see st (ro_flags m1) (node_at (see st (ro_flags m1)) root ks) = Some p" using S(3,8) by simp
  have l1: "leaf_ok (see st (ro_flags m1)) psize c valid rank p lo hi" using S(3,9) by simp
  obtain i where N: "cursor_node_search st m1 key = Some (if i < NUMKEYS p then Some (pt p i) else None,
      i < NUMKEYS p \<and> rank (key_at p i) = rank key, m1\<lparr>mc_ki := (mc_ki m1)[d := i]\<rparr>)" "i \<le> NUMKEYS p"
    "\<forall>x \<in> set (take i (leaf_items ?pg p)). rank (fst x) < rank key"
    "\<forall>x \<in> set (drop i (leaf_items ?pg p)). rank key \<le> rank (fst x)"
    using node_search_leaf [OF S(2) p1 l1 key(1) db1] S(3) by auto
  define m2 where "m2 = m1\<lparr>mc_ki := (mc_ki m1)[d := i]\<rparr>"
  have a2: "at_leaf st d root ks m2" using at_leaf_upd [OF S(2), of "mc_flags m1" i] by (simp add: m2_def)
  have m2: "ro_flags m2 = ro_flags ?mc" "mc_own m2 = None" "mc_dbi m2 = dbi" "mc_flags m2 = arrived (mc_flags ?mc)" "mc_ki m2 ! d = i"
    using S(2-6) by (simp_all add: m2_def ro_flags_def at_leaf_def stack_ok_def new_cursor_def raw_cursor_def)
  have top: "top_page st m1 = Some p" by (rule at_leaf_top [OF S(2) p1])
  have run: "mdb_cursor_set st (?mc, None) (Some key) d0 MDB_SET True =
      set_in_page sub_first sub_set st (m1, None) key d0 MDB_SET True"
    using new_cursor_flags(1) [of st dbi] key(2) len S(1) top leaf_kind [OF l1]
    by (simp add: mdb_cursor_set_def cursor_set_body_def reset_sub_def)
  have top2: "top_page st m2 = Some p" by (rule at_leaf_top [OF a2]) (simp add: m2 S(8))
  have same: "m2\<lparr>mc_flags := arrived (mc_flags m2)\<rparr> = m2" using m2(4) by simp
  have "set_in_page sub_first sub_set st (m1, None) key d0 MDB_SET True =
      (if i < NUMKEYS p \<and> rank (key_at p i) = rank key
       then Some (0, st, (m2, None), Some key, out d0 (snd (leaf_items ?pg p ! i)))
       else Some (MDB_NOTFOUND, st, (m2, None), Some key, d0))"
  proof (cases "i < NUMKEYS p \<and> rank (key_at p i) = rank key")
    case True
    have l2: "leaf_ok (see st (ro_flags m2)) psize c valid rank p lo hi" using m2(1) S(9) by simp
    note rd = leaf_read [OF l2, of i]
    have "set_return sub_first sub_set st (m2, None) (Some (pt p i)) key d0 MDB_SET =
        Some (0, st, (m2, None), Some key, out d0 (snd (leaf_items ?pg p ! i)))"
      using top2 rd leaf_kind [OF l2] True m2(1) same
      by (cases d0) (simp_all add: set_return_def arrived_def [symmetric] reset_sub_def)
    then show ?thesis using N(1) True by (simp add: set_in_page_def m2_def)
  next
    case False
    then show ?thesis using N(1) by (auto simp: set_in_page_def m2_def)
  qed
  then show ?thesis using run a2 m2 S(7-9) N(2-4)
    by (intro exI [of _ m2] exI [of _ ks] exI [of _ p] exI [of _ lo] exI [of _ hi] exI [of _ i]) simp
qed

section \<open>One path to a key\<close>

lemma routed_unique:
  assumes "tree_ok pg psize c valid rank d g lo hi" "routed pg rank d g lo hi ks r" "routed pg rank d g lo hi ks' r"
  shows "ks = ks'"
  using assms
proof (induction d arbitrary: g lo hi ks ks')
  case (Suc d)
  obtain p where p: "pg g = Some p" "branch_ok psize c valid rank p lo hi"
    "\<forall>i < NUMKEYS p. tree_ok pg psize c valid rank d (child_at p i) (lo_of rank p lo i) (hi_of rank p hi i)"
    using Suc.prems(1) by auto
  obtain k rest where k: "ks = k # rest" "k < NUMKEYS p" "routed pg rank d (child_at p k) (lo_of rank p lo k) (hi_of rank p hi k) rest r"
    using Suc.prems(2) p(1) by auto
  obtain k' rest' where k': "ks' = k' # rest'" "k' < NUMKEYS p"
    "routed pg rank d (child_at p k') (lo_of rank p lo k') (hi_of rank p hi k') rest' r"
    using Suc.prems(3) p(1) by auto
  have no: False if "i < j" "j < NUMKEYS p" "in_range (lo_of rank p lo i) (hi_of rank p hi i) r"
    "in_range (lo_of rank p lo j) (hi_of rank p hi j) r" for i j
    using child_below [OF p(2) that(1-3)] child_above [OF _ that(4)] that(1) by (cases j) (simp_all add: not_less [symmetric])
  have "k = k'" using no [of k k'] no [of k' k] k k' routed_range by (meson linorder_neqE_nat)
  then show ?case using k k' p(3) Suc.IH [OF _ k(3)] by simp
qed simp

text \<open>The pages on a path.\<close>

fun path_nodes :: "(u64 \<Rightarrow> bytes option) \<Rightarrow> u64 \<Rightarrow> nat list \<Rightarrow> u64 list" where
  "path_nodes pg g [] = [g]"
| "path_nodes pg g (k # ks) = g # path_nodes pg (child_at (the (pg g)) k) ks"

lemma on_path_page:
  "on_path st ro t d g ks mc \<Longrightarrow> i \<le> d \<Longrightarrow>
    \<exists>g' \<in> set (path_nodes (see st ro) g ks). mc_pg mc ! (t + i) = resolve st ro g' \<and> see st ro g' \<noteq> None"
proof (induction d arbitrary: t g ks i)
  case (Suc d)
  then obtain k r p where k: "ks = k # r" "see st ro g = Some p" "mc_pg mc ! t = resolve st ro g"
    "on_path st ro (Suc t) d (child_at p k) r mc" by auto
  show ?case
  proof (cases i)
    case (Suc j)
    then show ?thesis using Suc.IH [OF k(4), of j] Suc.prems(2) k(1,2) by auto
  qed (use k in auto)
qed auto

definition dirty_path :: "'a st_scheme \<Rightarrow> bool \<Rightarrow> u64 \<Rightarrow> nat list \<Rightarrow> bool" where
  "dirty_path st ro root ks \<longleftrightarrow>
     (\<forall>g \<in> set (path_nodes (see st ro) root ks). \<forall>b. see st ro g = Some b \<longrightarrow> F_ISSET (mp_flags b) P_DIRTY)"

section \<open>The pages of the path are writable\<close>

lemma touch_dirty:
  assumes "mc_top mc < length (mc_pg mc)" "mc_pg mc ! mc_top mc = Some mp" "page_at st mp = Some b"
    "F_ISSET (mp_flags b) P_DIRTY" "st_parents st = []"
  shows "mdb_page_touch st mc = Some (0, st, mc)"
  using assms by (simp add: mdb_page_touch_def pg_at_def)

lemma touch_levels_dirty:
  assumes "\<forall>i < CURSOR_STACK. j \<le> i \<and> i < j + k \<longrightarrow> (\<exists>mp b. mc_pg mc ! i = Some mp \<and> page_at st mp = Some b \<and> F_ISSET (mp_flags b) P_DIRTY)"
    "length (mc_pg mc) = CURSOR_STACK" "j + k \<le> CURSOR_STACK" "st_parents st = []"
  shows "touch_levels st mc j k = Some (0, st, if k = 0 then mc else mc\<lparr>mc_top := j + k - 1\<rparr>)"
  using assms
proof (induction k arbitrary: mc j)
  case (Suc k)
  have j: "j < CURSOR_STACK" using Suc.prems(3) by simp
  obtain mp b where b: "mc_pg mc ! j = Some mp" "page_at st mp = Some b" "F_ISSET (mp_flags b) P_DIRTY"
    using Suc.prems(1) [rule_format, OF j] by auto
  let ?m = "mc\<lparr>mc_top := j\<rparr>"
  have t: "mdb_page_touch st ?m = Some (0, st, ?m)"
    by (rule touch_dirty [of _ mp st b]) (use b j Suc.prems(2,4) in simp_all)
  have "touch_levels st ?m (Suc j) k = Some (0, st, if k = 0 then ?m else ?m\<lparr>mc_top := Suc j + k - 1\<rparr>)"
    by (rule Suc.IH) (use Suc.prems in auto)
  then show ?case using t by simp
qed simp

text \<open>\<open>touch_db_record\<close> has nothing to do for a core database, or when the record is dirty.\<close>

definition record_dirty :: "'a st_scheme \<Rightarrow> nat \<Rightarrow> bool" where
  "record_dirty st dbi \<longleftrightarrow> (\<exists>f. aget (mt_dbflags (st_txn st)) dbi = Some f \<and> (dbi < CORE_DBS \<or> has f DB_DIRTY))"

lemma has_mono: "has f a \<Longrightarrow> has f (a OR b)"
  by (auto simp: has_def bit.conj_disj_distrib or_eq_0_iff)

lemma cursor_touch_dirty:
  assumes a: "at_leaf st d root ks mc" and dirty: "dirty_path st (ro_flags mc) root ks" and par: "st_parents st = []"
    and rc: "record_dirty st (mc_dbi mc)" and own: "mc_own mc = None"
  shows "mdb_cursor_touch st mc = Some (0, st, mc)"
proof -
  have p: "on_path st (ro_flags mc) 0 d root ks mc" "stack_ok mc" "mc_top mc = d" using a by (simp_all add: at_leaf_def)
  have rcd: "touch_db_record st mc = Some (0, st, mc)"
    using rc own has_mono [of _ DB_DIRTY DB_DUPDATA] by (auto simp: touch_db_record_def record_dirty_def mc_dbflag_def)
  have pages: "\<exists>mp b. mc_pg mc ! i = Some mp \<and> page_at st mp = Some b \<and> F_ISSET (mp_flags b) P_DIRTY" if "i \<le> d" for i
  proof -
    note at_i = on_path_page [OF p(1) that]
    obtain g where g: "g \<in> set (path_nodes (see st (ro_flags mc)) root ks)" "mc_pg mc ! i = resolve st (ro_flags mc) g"
      "see st (ro_flags mc) g \<noteq> None" using at_i by auto
    then obtain b where b: "see st (ro_flags mc) g = Some b" by blast
    then obtain mp where "resolve st (ro_flags mc) g = Some mp" "page_at st mp = Some b" by (auto simp: see_def split: bind_splits)
    then show ?thesis using g b dirty by (auto simp: dirty_path_def)
  qed
  have l: "length (mc_pg mc) = CURSOR_STACK" "mc_snum mc = Suc d" "Suc d \<le> CURSOR_STACK" using p(2,3) by (auto simp: stack_ok_def)
  have "touch_levels st mc 0 (Suc d) = Some (0, st, if Suc d = 0 then mc else mc\<lparr>mc_top := 0 + Suc d - 1\<rparr>)"
    by (rule touch_levels_dirty) (use pages l par in auto)
  then show ?thesis using rcd l p(3) by (simp add: mdb_cursor_touch_def)
qed

section \<open>The changed leaf\<close>

text \<open>The block \<open>h\<close> holds page \<open>g0\<close> and no other page.\<close>

definition only_at :: "'a st_scheme \<Rightarrow> bool \<Rightarrow> nat \<Rightarrow> u64 \<Rightarrow> bool" where
  "only_at st ro h g0 \<longleftrightarrow> resolve st ro g0 = Some (Heap_page h) \<and>
     (\<forall>g. g \<noteq> g0 \<longrightarrow> (case resolve st ro g of Some (Heap_page h') \<Rightarrow> h' \<noteq> h | Some (Sub_page _ _) \<Rightarrow> False | _ \<Rightarrow> True))"

text \<open>What the operation leaves alone: everything that decides where pages are.\<close>

definition same_pages :: "'a st_scheme \<Rightarrow> 'a st_scheme \<Rightarrow> bool" where
  "same_pages st st' \<longleftrightarrow> st_env st' = st_env st \<and> st_file st' = st_file st \<and> st_parents st' = st_parents st \<and>
     mt_spill_pgs (st_txn st') = mt_spill_pgs (st_txn st) \<and> mt_dirty_list (st_txn st') = mt_dirty_list (st_txn st) \<and>
     mt_next_pgno (st_txn st') = mt_next_pgno (st_txn st)"

lemma page_get_txn_cong:
  "mt_spill_pgs t' = mt_spill_pgs t \<Longrightarrow> mt_dirty_list t' = mt_dirty_list t \<Longrightarrow> page_get_txn t' g = page_get_txn t g"
  unfolding page_get_txn_def Let_def by (simp only:)

lemma same_pages_resolve: "same_pages st st' \<Longrightarrow> resolve st' ro g = resolve st ro g"
proof -
  assume s: "same_pages st st'"
  have "page_get_txn (st_txn st') g = page_get_txn (st_txn st) g"
    using s by (intro page_get_txn_cong) (simp_all add: same_pages_def)
  then have l: "page_get_loop (st_txn st' # st_parents st') g 1 = page_get_loop (st_txn st # st_parents st) g 1"
    using s by (simp add: same_pages_def)
  show ?thesis
    unfolding resolve_def mdb_page_get_def l
    using s by (cases "page_get_loop (st_txn st # st_parents st) g 1") (auto simp: same_pages_def split: found.splits)
qed

lemma see_changed:
  assumes s: "same_pages st st'" and h: "st_heap st' = (st_heap st)(h \<mapsto> q)" and only: "only_at st ro h g0"
  shows "see st' ro = (see st ro)(g0 \<mapsto> q)"
proof
  fix g
  note r = same_pages_resolve [OF s, of ro g]
  have m: "page_at st' (Map_page n) = page_at st (Map_page n)" for n using s by (simp add: same_pages_def)
  show "see st' ro g = ((see st ro)(g0 \<mapsto> q)) g"
  proof (cases "g = g0")
    case True
    then show ?thesis using only r h by (simp add: see_def only_at_def)
  next
    case False
    then have f: "case resolve st ro g of Some (Heap_page h') \<Rightarrow> h' \<noteq> h | Some (Sub_page _ _) \<Rightarrow> False | _ \<Rightarrow> True"
      using only by (simp add: only_at_def)
    show ?thesis
    proof (cases "resolve st ro g")
      case (Some p)
      then show ?thesis using False f r m h by (cases p) (auto simp: see_def)
    qed (use False r in \<open>simp add: see_def\<close>)
  qed
qed

section \<open>The tracked cursors\<close>

lemma map_cursors_all:
  "(\<And>m. m \<in> set ms \<Longrightarrow> mc_dbi (fst m) = dbi \<Longrightarrow> \<exists>m'. f m = Some m' \<and> R m m') \<Longrightarrow>
    \<exists>ms'. map_cursors dbi f ms = Some ms' \<and> list_all2 (\<lambda>m m'. if mc_dbi (fst m) = dbi then R m m' else m' = m) ms ms'"
proof (induction ms)
  case (Cons m ms)
  obtain ms' where ms': "map_cursors dbi f ms = Some ms'"
    "list_all2 (\<lambda>m m'. if mc_dbi (fst m) = dbi then R m m' else m' = m) ms ms'"
    using Cons.IH Cons.prems by auto
  show ?case
  proof (cases "mc_dbi (fst m) = dbi")
    case True
    then obtain m' where "f m = Some m'" "R m m'" using Cons.prems [of m] by auto
    then show ?thesis using True ms' by auto
  qed (use ms' in simp)
qed simp

section \<open>What the operations need\<close>

text \<open>
  A write transaction without a parent and without \<open>MDB_WRITEMAP\<close>; the database \<open>dbi\<close> is a well-formed tree; the pages on the path
  to the key have been written by this transaction, the leaf, in block \<open>h\<close> with contents \<open>p\<close>, among them; there is room in the
  dirty list for \<open>need\<close> pages without spilling.
\<close>

definition writable ::
    "'a wst_scheme \<Rightarrow> nat \<Rightarrow> nat \<Rightarrow> cmp_fn \<Rightarrow> (bytes \<Rightarrow> bool) \<Rightarrow> (bytes \<Rightarrow> 'k::linorder) \<Rightarrow> nat \<Rightarrow> u64 \<Rightarrow> bytes \<Rightarrow> nat list \<Rightarrow> nat \<Rightarrow> bytes \<Rightarrow> bool" where
  "writable st dbi psize c valid rank d root key ks h p \<longleftrightarrow>
     (let mc = new_cursor st dbi; pg = see st (ro_flags mc) in
      TXN_DBI_EXIST (st_txn st) dbi DB_USRVALID = Some True \<and> \<not> has (mt_flags (st_txn st)) (MDB_TXN_RDONLY OR MDB_TXN_BLOCKED) \<and>
      db_ready st mc c root \<and> root_ok st (ro_flags mc) psize c valid rank d root \<and> distinct (tree_pages pg d root) \<and>
      valid key \<and> key \<noteq> [] \<and> length key \<le> ENV_MAXKEY \<and> routed pg rank d root None None ks (rank key) \<and>
      dirty_path st (ro_flags mc) root ks \<and> only_at st (ro_flags mc) h (node_at pg root ks) \<and> st_heap st h = Some p \<and>
      st_parents st = [] \<and> record_dirty st dbi \<and> cursors_ok (st_cursors st))"

definition no_spill :: "'a st_scheme \<Rightarrow> nat \<Rightarrow> (bytes \<times> nat) option \<Rightarrow> bool" where
  "no_spill st dbi put \<longleftrightarrow> (\<exists>need. spill_need st (new_cursor st dbi) put = Some need \<and> need < mt_dirty_room (st_txn st))"

lemma spill_not:
  assumes "no_spill st dbi put" "mc_own mc = None" "mc_dbi mc = dbi" "\<not> has (mc_flags mc) C_SUB"
  shows "mdb_page_spill st (mc, mx) put istack = Some (0, st)"
proof -
  have "spill_need st mc put = spill_need st (new_cursor st dbi) put"
    using assms(2,3) by (simp add: spill_need_def mc_db_def new_cursor_def raw_cursor_def)
  then show ?thesis using assms by (auto simp: no_spill_def mdb_page_spill_def MDB_SUCCESS_def)
qed

lemma arrived_sub: "has (arrived f) C_SUB = has f C_SUB"
proof -
  have "arrived f AND C_SUB = f AND C_SUB"
    by (rule bit_word_eqI) (auto simp: arrived_def bit_simps C_INITIALIZED_def C_EOF_def C_SUB_def)
  then show ?thesis by (simp add: has_def)
qed

lemma new_cursor_sub: "\<not> has (mc_flags (new_cursor st dbi)) C_SUB"
  by (simp add: new_cursor_def has_def cursor_flag_defs env_flag_defs and.assoc)

lemma ro_arrived: "mc_flags mc = arrived (mc_flags mc') \<Longrightarrow> ro_flags mc = ro_flags mc'"
  using arrived_ro by (simp add: ro_flags_def)

text \<open>The new count of entries.\<close>

definition count_entry :: "'a st_scheme \<Rightarrow> nat \<Rightarrow> (u64 \<Rightarrow> u64) \<Rightarrow> 'a st_scheme" where
  "count_entry st dbi f = st\<lparr>st_txn := (st_txn st)\<lparr>mt_dbs :=
     (mt_dbs (st_txn st))[dbi := (mt_dbs (st_txn st) ! dbi)\<lparr>md_entries := f (md_entries (mt_dbs (st_txn st) ! dbi))\<rparr>]\<rparr>\<rparr>"

lemma upd_mc_db_entries:
  assumes "mc_own mc = None" "mc_dbi mc = dbi" "dbi < length (mt_dbs (st_txn st))"
  shows "upd_mc_db st mc (\<lambda>d. d\<lparr>md_entries := f (md_entries d)\<rparr>) = Some (count_entry st dbi f, mc)"
  using assms by (simp add: upd_mc_db_def set_mc_db_def count_entry_def)

lemma db_ready_db:
  assumes "db_ready st mc c root" "mc_own mc = None"
  shows "mc_dbi mc < length (mt_dbs (st_txn st))" "mc_db st mc = Some (mt_dbs (st_txn st) ! mc_dbi mc)"
    "md_root (mt_dbs (st_txn st) ! mc_dbi mc) = root" "\<not> has (md_flags (mt_dbs (st_txn st) ! mc_dbi mc)) MDB_DUPSORT"
  using assms by (auto simp: db_ready_def mc_db_def aget_def split: if_splits)

section \<open>The tree with the changed leaf\<close>

lemma path_same:
  assumes "good_path pg d g ks" "distinct (tree_pages pg d g)" "pg' = pg(node_at pg g ks \<mapsto> q)"
  shows "node_at pg' g ks = node_at pg g ks \<and> path_nodes pg' g ks = path_nodes pg g ks \<and>
    (\<forall>lo hi r. routed pg' rank d g lo hi ks r = routed pg rank d g lo hi ks r) \<and> distinct (tree_pages pg 0 (node_at pg g ks))"
  using assms
proof (induction d arbitrary: g ks)
  case (Suc d)
  then obtain k r b where k: "ks = k # r" "pg g = Some b" "k < NUMKEYS b" "good_path pg d (child_at b k) r" by auto
  let ?f = "\<lambda>i. tree_pages pg d (child_at b i)"
  have dis: "distinct (concat (map ?f [0..<NUMKEYS b]))" "g \<notin> set (concat (map ?f [0..<NUMKEYS b]))"
    using Suc.prems(2) k(2) by simp_all
  have l: "node_at pg g ks = node_at pg (child_at b k) r" using k(1,2) by simp
  have "node_at pg (child_at b k) r \<in> set (?f k)" by (rule node_at_page [OF k(4)])
  then have g: "node_at pg g ks \<noteq> g" using dis(2) k(3) l by auto
  have b: "pg' g = Some b" using Suc.prems(3) g k(2) by simp
  have IH: "node_at pg' (child_at b k) r = node_at pg (child_at b k) r \<and> path_nodes pg' (child_at b k) r = path_nodes pg (child_at b k) r \<and>
      (\<forall>lo hi x. routed pg' rank d (child_at b k) lo hi r x = routed pg rank d (child_at b k) lo hi r x) \<and>
      distinct (tree_pages pg 0 (node_at pg (child_at b k) r))"
    by (rule Suc.IH [OF k(4) distinct_concat_nth [OF dis(1) k(3)]]) (use Suc.prems(3) l in simp)
  then show ?case using k(1-3) b by simp
qed simp

text \<open>The state after a change of the leaf, in which only the record of \<open>dbi\<close> has another count of entries.\<close>

lemma writable_changed:
  fixes rank :: "bytes \<Rightarrow> 'k::linorder"
  assumes w: "writable st dbi psize c valid rank d root key ks h p"
    and st': "st' = count_entry (st\<lparr>st_heap := (st_heap st)(h \<mapsto> q), st_cursors := ms'\<rparr>) dbi f" and cur: "cursors_ok ms'"
    and b: "path_bounds (see st (ro_flags (new_cursor st dbi))) rank root ks (None, None) = (lo, hi)"
    and q: "leaf_ok (see st (ro_flags (new_cursor st dbi))) psize c valid rank q lo hi" "mp_flags q = mp_flags p"
    and refs: "set (leaf_refs q) \<subseteq> set (leaf_refs p)" "distinct (leaf_refs q)"
  shows "writable st' dbi psize c valid rank d root key ks h q \<and> new_cursor st' dbi = new_cursor st dbi \<and>
    items (see st' (ro_flags (new_cursor st dbi))) d root =
      before (see st (ro_flags (new_cursor st dbi))) d root ks @ leaf_items (see st (ro_flags (new_cursor st dbi))) q @
      after (see st (ro_flags (new_cursor st dbi))) d root ks"
proof -
  let ?mc = "new_cursor st dbi"
  let ?ro = "ro_flags ?mc"
  let ?pg = "see st ?ro"
  let ?g = "node_at ?pg root ks"
  note W = w [unfolded writable_def Let_def]
  have db: "db_ready st ?mc c root" and root: "root_ok st ?ro psize c valid rank d root"
    and only: "only_at st ?ro h ?g" and hp: "st_heap st h = Some p" and path: "routed ?pg rank d root None None ks (rank key)"
    and dis: "distinct (tree_pages ?pg d root)"
    using W by simp_all
  have same: "same_pages st st'" by (simp add: st' count_entry_def same_pages_def)
  have heap: "st_heap st' = (st_heap st)(h \<mapsto> q)" by (simp add: st' count_entry_def)
  have mc': "new_cursor st' dbi = ?mc" by (simp add: st' count_entry_def new_cursor_def)
  have pg': "see st' ?ro = ?pg(?g \<mapsto> q)" by (rule see_changed [OF same heap only])
  note gp = routed_good [OF path]
  note ps = path_same [OF gp dis pg', where rank = rank]
  have pp: "?pg ?g = Some p" using only hp by (simp add: see_def only_at_def)
  have own: "?g \<notin> set (leaf_refs q)" using ps pp refs(1) by auto
  have kq: "page_ok psize q" "IS_LEAF q" "\<not> IS_LEAF2 q" "\<not> IS_BRANCH q" using q(1) by (simp_all add: leaf_ok_def)
  have q': "leaf_ok (see st' ?ro) psize c valid rank q lo hi" unfolding pg' leaf_upd(1) [OF kq own] by (rule q(1))
  have tree: "tree_ok ?pg psize c valid rank d root None None" using root by (simp add: root_ok_def)
  have T: "tree_ok (see st' ?ro) psize c valid rank d root None None \<and>
    items (see st' ?ro) d root = before ?pg d root ks @ leaf_items (see st' ?ro) q @ after ?pg d root ks \<and>
    set (tree_pages (see st' ?ro) d root) \<subseteq> set (tree_pages ?pg d root) \<and> distinct (tree_pages (see st' ?ro) d root)"
    by (rule tree_replace [OF tree gp dis b pg' q' pp refs])
  have li: "leaf_items (see st' ?ro) q = leaf_items ?pg q" unfolding pg' by (rule leaf_upd(2) [OF kq own])
  have txn: "mt_flags (st_txn st') = mt_flags (st_txn st)" "mt_dbflags (st_txn st') = mt_dbflags (st_txn st)"
    "st_env st' = st_env st" "st_parents st' = st_parents st" "st_cursors st' = ms'" "mt_numdbs (st_txn st') = mt_numdbs (st_txn st)"
    by (simp_all add: st' count_entry_def)
  have dbi: "mc_dbi ?mc = dbi" "mc_own ?mc = None" by (simp_all add: new_cursor_def raw_cursor_def)
  note D = db_ready_db [OF db dbi(2), unfolded dbi(1)]
  have mdb: "mc_db st' ?mc = Some ((mt_dbs (st_txn st) ! dbi)\<lparr>md_entries := f (md_entries (mt_dbs (st_txn st) ! dbi))\<rparr>)"
    using D(1) dbi by (simp add: st' count_entry_def mc_db_def)
  have db': "db_ready st' ?mc c root"
    using db D dbi mdb unfolding db_ready_def by (simp add: txn mc_dbflag_def mc_dbx_def)
  have ex: "TXN_DBI_EXIST (st_txn st') dbi DB_USRVALID = TXN_DBI_EXIST (st_txn st) dbi DB_USRVALID"
    by (simp add: TXN_DBI_EXIST_def txn)
  have root': "root_ok st' ?ro psize c valid rank d root" using root T by (simp add: root_ok_def)
  have only': "only_at st' ?ro h ?g" using only by (simp add: only_at_def same_pages_resolve [OF same])
  have dp: "dirty_path st' ?ro root ks"
    unfolding dirty_path_def using ps W pp q(2) by (auto simp: pg' dirty_path_def)
  have "writable st' dbi psize c valid rank d root key ks h q"
    unfolding writable_def Let_def mc' using W db' ex root' only' dp T ps path cur heap
    by (simp add: txn record_dirty_def pg')
  then show ?thesis using mc' T li by simp
qed

section \<open>Other paths\<close>

lemma path_nodes_pages: "good_path pg d g ks \<Longrightarrow> set (path_nodes pg g ks) \<subseteq> set (tree_pages pg d g)"
proof (induction d arbitrary: g ks)
  case (Suc d)
  then obtain k r b where "ks = k # r" "pg g = Some b" "k < NUMKEYS b" "good_path pg d (child_at b k) r" by auto
  then show ?case using Suc.IH [of "child_at b k" r] by fastforce
qed simp

lemma leaf_pages: "good_path pg d g ks \<Longrightarrow> set (tree_pages pg 0 (node_at pg g ks)) \<subseteq> set (tree_pages pg d g)"
proof (induction d arbitrary: g ks)
  case (Suc d)
  then obtain k r b where "ks = k # r" "pg g = Some b" "k < NUMKEYS b" "good_path pg d (child_at b k) r" by auto
  then show ?case using Suc.IH [of "child_at b k" r] by fastforce
qed simp

lemma path_nodes_not_nil [simp]: "path_nodes pg g ks \<noteq> []"
  by (cases ks) simp_all

text \<open>The leaf at the end of one path is not on another one.\<close>

lemma other_path:
  "good_path pg d g ks \<Longrightarrow> good_path pg d g ks3 \<Longrightarrow> distinct (tree_pages pg d g) \<Longrightarrow>
    node_at pg g ks \<notin> set (butlast (path_nodes pg g ks3)) \<and>
    (ks3 \<noteq> ks \<longrightarrow> node_at pg g ks \<notin> set (tree_pages pg 0 (node_at pg g ks3)))"
proof (induction d arbitrary: g ks ks3)
  case (Suc d)
  obtain k r b where k: "ks = k # r" "pg g = Some b" "k < NUMKEYS b" "good_path pg d (child_at b k) r" using Suc.prems(1) by auto
  obtain k3 r3 where k3: "ks3 = k3 # r3" "k3 < NUMKEYS b" "good_path pg d (child_at b k3) r3" using Suc.prems(2) k(2) by auto
  let ?f = "\<lambda>i. tree_pages pg d (child_at b i)"
  have dis: "distinct (concat (map ?f [0..<NUMKEYS b]))" "g \<notin> set (concat (map ?f [0..<NUMKEYS b]))"
    using Suc.prems(3) k(2) by simp_all
  have inl: "node_at pg (child_at b k) r \<in> set (?f k)" by (rule node_at_page [OF k(4)])
  then have g: "node_at pg (child_at b k) r \<noteq> g" using dis(2) k(3) by auto
  show ?case
  proof (cases "k3 = k")
    case True
    then show ?thesis using Suc.IH [OF k(4) _ distinct_concat_nth [OF dis(1) k(3)], of r3] k k3 g by simp
  next
    case False
    then have out: "node_at pg (child_at b k) r \<notin> set (?f k3)"
      using distinct_concat_parts [OF dis(1) k(3) k3(2) _ inl] by simp
    moreover have "set (butlast (path_nodes pg (child_at b k3) r3)) \<subseteq> set (?f k3)"
      using path_nodes_pages [OF k3(3)] by (auto dest: in_set_butlastD)
    moreover have "set (tree_pages pg 0 (node_at pg (child_at b k3) r3)) \<subseteq> set (?f k3)" by (rule leaf_pages [OF k3(3)])
    ultimately show ?thesis using k k3 g by (auto simp del: tree_pages.simps)
  qed
qed simp

lemma on_path_changed:
  assumes "on_path st ro t d g ks mc" "same_pages st st'" "see st' ro = (see st ro)(g0 \<mapsto> q)"
    "g0 \<notin> set (butlast (path_nodes (see st ro) g ks))"
  shows "on_path st' ro t d g ks mc \<and> node_at (see st' ro) g ks = node_at (see st ro) g ks"
  using assms
proof (induction d arbitrary: t g ks)
  case 0
  then show ?case by (auto simp: same_pages_resolve)
next
  case (Suc d)
  then obtain k r b where k: "ks = k # r" "see st ro g = Some b" "mc_pg mc ! t = resolve st ro g" "mc_ki mc ! t = k" "k < NUMKEYS b"
    "on_path st ro (Suc t) d (child_at b k) r mc" by auto
  have g: "g \<noteq> g0" "g0 \<notin> set (butlast (path_nodes (see st ro) (child_at b k) r))" using Suc.prems(4) k(1,2) by auto
  have "see st' ro g = Some b" using Suc.prems(3) g(1) k(2) by simp
  then show ?case using Suc.IH [OF k(6) Suc.prems(2,3) g(2)] k same_pages_resolve [OF Suc.prems(2)] by simp
qed

section \<open>Where the search ends\<close>

lemma init_arrived: "mc_flags mc = arrived f \<Longrightarrow> has_init mc"
  using arrived_init(1) by (simp add: has_init_def)

text \<open>The cursor on the leaf of the key, at the key or where it would be.\<close>

definition landed ::
    "'a wst_scheme \<Rightarrow> nat \<Rightarrow> nat \<Rightarrow> cmp_fn \<Rightarrow> (bytes \<Rightarrow> bool) \<Rightarrow> (bytes \<Rightarrow> 'k::linorder) \<Rightarrow> nat \<Rightarrow> u64 \<Rightarrow> bytes \<Rightarrow> nat list \<Rightarrow> nat \<Rightarrow> bytes \<Rightarrow>
     cursor \<Rightarrow> nat \<Rightarrow> bool" where
  "landed st dbi psize c valid rank d root key ks h p mc i \<longleftrightarrow>
     (let ro = ro_flags (new_cursor st dbi); pg = see st ro; g = node_at pg root ks in
      at_leaf st d root ks mc \<and> mc_ki mc ! d = i \<and> mc_own mc = None \<and> mc_dbi mc = dbi \<and> ro_flags mc = ro \<and>
      has_init mc \<and> \<not> has (mc_flags mc) C_SUB \<and> \<not> has (mc_flags mc) C_DEL \<and> mc_flags mc OR C_INITIALIZED = mc_flags mc \<and>
      pg g = Some p \<and> resolve st ro g = Some (Heap_page h) \<and> i \<le> NUMKEYS p \<and>
      items pg d root = before pg d root ks @ leaf_items pg p @ after pg d root ks \<and>
      (\<forall>x \<in> set (before pg d root ks). rank (fst x) < rank key) \<and> (\<forall>x \<in> set (after pg d root ks). rank key < rank (fst x)) \<and>
      (\<forall>x \<in> set (take i (leaf_items pg p)). rank (fst x) < rank key) \<and>
      (\<forall>x \<in> set (drop i (leaf_items pg p)). rank key \<le> rank (fst x)) \<and>
      (\<exists>lo hi. path_bounds pg rank root ks (None, None) = (lo, hi) \<and> leaf_ok pg psize c valid rank p lo hi \<and> in_range lo hi (rank key)))"

lemma writable_lands:
  fixes rank :: "bytes \<Rightarrow> 'k::linorder"
  assumes w: "writable st dbi psize c valid rank d root key ks h p"
  shows "\<exists>mc i. landed st dbi psize c valid rank d root key ks h p mc i \<and>
    mdb_cursor_set st (new_cursor st dbi, None) (Some key) d0 MDB_SET True =
      (if i < NUMKEYS p \<and> rank (key_at p i) = rank key
       then Some (0, st, (mc, None), Some key, out d0 (snd (leaf_items (see st (ro_flags (new_cursor st dbi))) p ! i)))
       else Some (MDB_NOTFOUND, st, (mc, None), Some key, d0))"
proof -
  let ?mc = "new_cursor st dbi"
  let ?ro = "ro_flags ?mc"
  let ?pg = "see st ?ro"
  note W = w [unfolded writable_def Let_def]
  have db: "db_ready st ?mc c root" and root: "root_ok st ?ro psize c valid rank d root" and key: "valid key" "key \<noteq> []"
    and only: "only_at st ?ro h (node_at ?pg root ks)" and hp: "st_heap st h = Some p" and path: "routed ?pg rank d root None None ks (rank key)"
    using W by simp_all
  have tree: "tree_ok ?pg psize c valid rank d root None None" using root by (simp add: root_ok_def)
  obtain mc ks' p' lo' hi' i where L:
    "mdb_cursor_set st (?mc, None) (Some key) d0 MDB_SET True =
      (if i < NUMKEYS p' \<and> rank (key_at p' i) = rank key
       then Some (0, st, (mc, None), Some key, out d0 (snd (leaf_items ?pg p' ! i)))
       else Some (MDB_NOTFOUND, st, (mc, None), Some key, d0))"
    "at_leaf st d root ks' mc" "mc_ki mc ! d = i" "mc_own mc = None" "mc_dbi mc = dbi" "mc_flags mc = arrived (mc_flags ?mc)"
    "routed (see st (ro_flags mc)) rank d root None None ks' (rank key)"
    "see st (ro_flags mc) (node_at (see st (ro_flags mc)) root ks') = Some p'"
    "leaf_ok (see st (ro_flags mc)) psize c valid rank p' lo' hi'" "i \<le> NUMKEYS p'"
    "\<forall>x \<in> set (take i (leaf_items (see st (ro_flags mc)) p')). rank (fst x) < rank key"
    "\<forall>x \<in> set (drop i (leaf_items (see st (ro_flags mc)) p')). rank key \<le> rank (fst x)"
    using set_lands [OF db root key] by blast
  have ro: "ro_flags mc = ?ro" by (rule ro_arrived [OF L(6)])
  note L' = L [unfolded ro]
  have ks: "ks' = ks" by (rule routed_unique [OF tree L'(7) path])
  have pg: "?pg (node_at ?pg root ks) = Some p" using only hp by (simp add: see_def only_at_def)
  have p': "p' = p" using L'(8) pg ks by simp
  obtain lo hi where b: "path_bounds ?pg rank root ks (None, None) = (lo, hi)" by fastforce
  have lf: "leaf_ok ?pg psize c valid rank p lo hi" using path_leaf [OF tree routed_good [OF path] b] pg by auto
  have inr: "in_range lo hi (rank key)" by (rule routed_bounds [OF path b])
  have a: "at_leaf st d root ks mc" using L(2) ks by simp
  have sub: "\<not> has (mc_flags mc) C_SUB" "\<not> has (mc_flags mc) C_DEL"
    using L(6) arrived_sub arrived_del new_cursor_sub new_cursor_flags(2) by metis+
  have ini: "mc_flags mc OR C_INITIALIZED = mc_flags mc"
    unfolding L(6) by (rule bit_word_eqI) (auto simp: arrived_def bit_simps C_INITIALIZED_def C_EOF_def)
  have "landed st dbi psize c valid rank d root key ks h p mc i"
    unfolding landed_def Let_def
    using a L'(3-5,10-12) p' ro sub ini init_arrived [OF L(6)] pg only at_leaf_items [OF a, unfolded ro, OF pg]
      routed_around [OF tree path] b lf inr by (simp add: only_at_def)
  then show ?thesis using L(1) p' by blast
qed

section \<open>The items around a key\<close>

lemma around_items:
  assumes "\<forall>x \<in> set pre. rank (fst x) < r" "\<forall>x \<in> set post. r < (rank (fst x) :: 'k::linorder)"
  shows "below rank r (pre @ mid @ post) = pre @ below rank r mid" "from_key rank r (pre @ mid @ post) = from_key rank r mid @ post"
proof -
  have "filter (\<lambda>x. rank (fst x) < r) post = []" "filter (\<lambda>x. r \<le> rank (fst x)) pre = []"
    using assms by (auto simp: filter_empty_conv not_less not_le less_imp_le)
  moreover have "filter (\<lambda>x. rank (fst x) < r) pre = pre" "filter (\<lambda>x. r \<le> rank (fst x)) post = post"
    using assms by (auto simp: filter_id_conv less_imp_le)
  ultimately show "below rank r (pre @ mid @ post) = pre @ below rank r mid" "from_key rank r (pre @ mid @ post) = from_key rank r mid @ post"
    by (simp_all add: below_def from_key_def)
qed

lemma below_from: "ascending rank xs \<Longrightarrow> xs = below rank r xs @ from_key rank (r :: 'k::linorder) xs"
proof (induction xs)
  case (Cons x xs)
  have xs: "xs = below rank r xs @ from_key rank r xs" using Cons by (simp add: ascending_def)
  show ?case
  proof (cases "rank (fst x) < r")
    case False
    then have "below rank r xs = []" using Cons.prems by (fastforce simp: ascending_def below_def filter_empty_conv)
    then show ?thesis using False xs by (simp add: below_def from_key_def)
  qed (use xs in \<open>simp add: below_def from_key_def\<close>)
qed (simp add: below_def from_key_def)

end
