(* ===== verification/Demo_Write.thy ===== *)
theory Demo_Write
  imports Leaf_Update
begin

text \<open>
  A small write transaction for the instances: pages of 40 bytes, and a database of one leaf page, number 2, that the
  transaction has written already, in block 0.
\<close>

definition edit_db :: db where
  "edit_db = \<lparr>md_pad = 0, md_flags = 0, md_depth = 1, md_branch_pages = 0, md_leaf_pages = 1,
     md_overflow_pages = 0, md_entries = 1, md_root = 2\<rparr>"

definition edit_st :: "bytes \<Rightarrow> mcursor list \<Rightarrow> wst" where
  "edit_st b cs = \<lparr>st_env = demo_env\<lparr>me_psize := 40, me_dbxs := [demo_dbx, demo_dbx], me_dbiseqs := [0, 0]\<rparr>,
     st_file = replicate 200 0, st_heap = (\<lambda>_. None)(0 \<mapsto> b),
     st_txn = demo_txn\<lparr>mt_dbs := [demo_db, edit_db], mt_dbflags := [DB_VALID, DB_VALID OR DB_USRVALID],
       mt_dirty_list := [(1, Map_page 0), (2, Heap_page 0)], mt_dirty_room := 100\<rparr>,
     st_parents = [], st_os = demo_os, st_brk = 1, st_junk = (\<lambda>_ _. 0), st_idjunk = (\<lambda>_ _. 0), st_cursors = cs, st_saved = []\<rparr>"

text \<open>A leaf with one entry and room for another one, and a leaf with two entries.\<close>

definition one_entry :: "u8 \<Rightarrow> u8 \<Rightarrow> bytes" where
  "one_entry k v = [2,0,0,0,0,0,0,0, 0,0, 0x12,0, 18,0, 30,0, 30,0] @ replicate 12 0 @ [1,0,0,0, 0,0, 1,0, k, v]"

definition two_entries :: bytes where
  "two_entries = [2,0,0,0,0,0,0,0, 0,0, 0x12,0, 20,0, 20,0, 30,0, 20,0] @ [1,0,0,0, 0,0, 1,0, 0x62, 0x79] @ [1,0,0,0, 0,0, 1,0, 0x61, 0x78]"

lemma edit_new_cursor:
  "new_cursor (edit_st b cs) 1 = raw_cursor\<lparr>mc_dbi := 1, mc_flags := 0\<rparr>" "\<not> ro_flags (new_cursor (edit_st b cs) 1)"
  by (simp_all add: new_cursor_def edit_st_def demo_txn_def ro_flags_def has_def)

lemma edit_search: "mdb_mid2l_search [(1, Map_page 0), (2, Heap_page 0)] 2 = Some 1"
  by (simp add: mdb_mid2l_search_def bsearch_loop.simps mid2l_probe_def CMP_def)

lemma edit_get:
  "page_get_txn (st_txn (edit_st b cs)) g = Some r \<Longrightarrow> (r = In_dirty (Heap_page 0) \<longrightarrow> g = 2) \<and> (\<forall>p n. r \<noteq> In_dirty (Sub_page p n)) \<and>
    (\<forall>h. r = In_dirty (Heap_page h) \<longrightarrow> h = 0)"
  "page_get_txn (st_txn (edit_st b cs)) 2 = Some (In_dirty (Heap_page 0))"
proof -
  have x: "x = 0 \<or> x = 1" if "x \<le> Suc 0" for x :: nat using that by auto
  show "page_get_txn (st_txn (edit_st b cs)) g = Some r \<Longrightarrow> (r = In_dirty (Heap_page 0) \<longrightarrow> g = 2) \<and> (\<forall>p n. r \<noteq> In_dirty (Sub_page p n)) \<and>
    (\<forall>h. r = In_dirty (Heap_page h) \<longrightarrow> h = 0)"
    by (auto simp: page_get_txn_def edit_st_def demo_txn_def Let_def split: bind_splits if_splits dest!: x)
  show "page_get_txn (st_txn (edit_st b cs)) 2 = Some (In_dirty (Heap_page 0))"
    by (simp add: page_get_txn_def edit_st_def demo_txn_def edit_search)
qed

lemma edit_only: "only_at (edit_st b cs) False 0 2"
proof -
  have p: "st_parents (edit_st b cs) = []" by (simp add: edit_st_def)
  have f: "\<not> has 0 (C_ORIG_RDONLY OR C_WRITEMAP)" by (simp add: has_def)
  have "resolve (edit_st b cs) False 2 = Some (Heap_page 0)"
    by (simp add: resolve_def mdb_page_get_def p f edit_get(2) MDB_SUCCESS_def)
  moreover have "case resolve (edit_st b cs) False g of Some (Heap_page h') \<Rightarrow> h' \<noteq> 0 | Some (Sub_page _ _) \<Rightarrow> False | _ \<Rightarrow> True"
    if "g \<noteq> 2" for g
  proof (cases "page_get_txn (st_txn (edit_st b cs)) g")
    case (Some r)
    then show ?thesis using edit_get(1) [OF Some] that
      by (cases r) (auto simp: resolve_def mdb_page_get_def p f split: page_ptr.splits)
  qed (simp add: resolve_def mdb_page_get_def p f)
  ultimately show ?thesis by (simp add: only_at_def)
qed

lemma edit_see: "see (edit_st b cs) False 2 = Some b"
  using edit_only [of b cs] by (simp add: see_def only_at_def edit_st_def)

lemma edit_ready: "db_ready (edit_st b cs) (new_cursor (edit_st b cs) 1) Cmp_memn 2"
  unfolding edit_new_cursor
  by (simp add: db_ready_def edit_st_def raw_cursor_def mc_dbflag_def mc_dbx_def mc_db_def aget_def
      demo_dbx_def edit_db_def demo_txn_def has_def env_flag_defs txn_flag_defs DB_VALID_def DB_USRVALID_def DB_STALE_def)

lemma edit_writable:
  assumes b: "leaf_ok (see (edit_st b cs) False) 40 Cmp_memn short (\<lambda>a. a) b None None" "F_ISSET (mp_flags b) P_DIRTY" "leaf_refs b = []"
    and key: "key \<noteq> []" "length key \<le> ENV_MAXKEY" and cs: "cursors_ok cs"
  shows "writable (edit_st b cs) 1 40 Cmp_memn short (\<lambda>a. a) 0 2 key [] 0 b"
proof -
  have ro: "ro_flags (new_cursor (edit_st b cs) 1) = False" using edit_new_cursor(2) by simp
  have e: "TXN_DBI_EXIST (st_txn (edit_st b cs)) 1 DB_USRVALID = Some True"
    by (simp add: TXN_DBI_EXIST_def edit_st_def demo_txn_def aget_def has_def DB_VALID_def DB_USRVALID_def)
  have t: "mt_flags (st_txn (edit_st b cs)) = 0" "st_heap (edit_st b cs) 0 = Some b" "st_parents (edit_st b cs) = []"
    "record_dirty (edit_st b cs) 1" "st_cursors (edit_st b cs) = cs"
    by (simp_all add: edit_st_def demo_txn_def record_dirty_def CORE_DBS_def)
  show ?thesis
    unfolding writable_def Let_def ro
    using e t edit_ready [of b cs] edit_only [of b cs] b key cs
    by (simp add: root_ok_def edit_see dirty_path_def in_range_def P_INVALID_def CURSOR_STACK_def has_def ENV_MAXKEY_def)
qed

lemma one_entry_read:
  "mp_lower (one_entry k v) = 18" "mp_upper (one_entry k v) = 30" "mp_flags (one_entry k v) = 0x12"
  "NUMKEYS (one_entry k v) = 1" "pt (one_entry k v) 0 = 30" "SIZELEFT (one_entry k v) = 12"
  "rd (one_entry k v) 30 4 = 1" "rd (one_entry k v) 34 2 = 0" "rd (one_entry k v) 36 2 = 1"
  "slice (one_entry k v) 30 10 = [1,0,0,0, 0,0, 1,0, k, v]" "length (one_entry k v) = 40"
  by (simp_all add: one_entry_def mp_lower_def mp_upper_def mp_flags_def NUMKEYS_def pt_def SIZELEFT_def rd_def slice_def)

lemma two_entries_read:
  "mp_lower two_entries = 20" "mp_upper two_entries = 20" "mp_flags two_entries = 0x12"
  "NUMKEYS two_entries = 2" "pt two_entries 0 = 30" "pt two_entries (Suc 0) = 20" "SIZELEFT two_entries = 0"
  "rd two_entries 30 4 = 1" "rd two_entries 34 2 = 0" "rd two_entries 36 2 = 1"
  "rd two_entries 20 4 = 1" "rd two_entries 24 2 = 0" "rd two_entries 26 2 = 1"
  "slice two_entries 30 10 = [1,0,0,0, 0,0, 1,0, 0x61, 0x78]" "slice two_entries 20 10 = [1,0,0,0, 0,0, 1,0, 0x62, 0x79]"
  "length two_entries = 40"
  by (simp_all add: two_entries_def mp_lower_def mp_upper_def mp_flags_def NUMKEYS_def pt_def SIZELEFT_def rd_def slice_def)

lemma entry_kinds:
  "IS_LEAF (one_entry k v)" "\<not> IS_LEAF2 (one_entry k v)" "\<not> IS_BRANCH (one_entry k v)" "F_ISSET (mp_flags (one_entry k v)) P_DIRTY"
  "IS_LEAF two_entries" "\<not> IS_LEAF2 two_entries" "\<not> IS_BRANCH two_entries" "F_ISSET (mp_flags two_entries) P_DIRTY"
  by (simp_all add: IS_LEAF_def IS_LEAF2_def IS_BRANCH_def F_ISSET_def one_entry_read two_entries_read
      P_LEAF_def P_LEAF2_def P_BRANCH_def P_DIRTY_def)

lemma entry_nodes:
  "page_nodes (one_entry k v) = [[1,0,0,0, 0,0, 1,0, k, v]]"
  "page_nodes two_entries = [[1,0,0,0, 0,0, 1,0, 0x61, 0x78], [1,0,0,0, 0,0, 1,0, 0x62, 0x79]]"
  by (simp_all add: page_nodes_def ptrs_def node_bytes_def node_len_def entry_kinds one_entry_read two_entries_read F_ISSET_def
      upt_rec)

lemma entry_node:
  "nb_key [1,0,0,0, 0,0, 1,0, k, v] = [k]" "\<not> nb_big [1,0,0,0, 0,0, 1,0, k, v]" "\<not> nb_dup [1,0,0,0, 0,0, 1,0, k, v]"
  "nb_val pg [1,0,0,0, 0,0, 1,0, k, v] = Some [v]" "rd [1,0,0,0, 0,0, 1,0, k, v] 4 2 = 0"
  by (simp_all add: nb_key_def nb_big_def nb_dup_def nb_val_def rd_def slice_def get_bytes_def F_ISSET_def F_BIGDATA_def F_DUPDATA_def)

lemma entry_ok: "page_ok 40 (one_entry k v)" "page_ok 40 two_entries"
  by (simp_all add: page_ok_def one_entry_read two_entries_read ptrs_def extent_def node_len_def EVEN_def F_ISSET_def entry_kinds
      apart_def upt_rec)

lemma entry_leaf_ok:
  "leaf_ok pg 40 Cmp_memn short (\<lambda>a. a) (one_entry k v) None None" "leaf_ok pg 40 Cmp_memn short (\<lambda>a. a) two_entries None None"
  using demo_order
  by (simp_all add: leaf_ok_nodes [OF entry_ok(1) entry_kinds(1-3)] leaf_ok_nodes [OF entry_ok(2) entry_kinds(5-7)] entry_nodes
      entry_node in_range_def)

lemma entry_refs: "leaf_refs (one_entry k v) = []" "leaf_refs two_entries = []"
  by (simp_all add: leaf_refs_def entry_nodes entry_node)

lemma entry_items:
  "items (see (edit_st (one_entry k v) cs) False) 0 2 = [([k], [v])]"
  "items (see (edit_st two_entries cs) False) 0 2 = [([0x61], [0x78]), ([0x62], [0x79])]"
  by (simp_all add: edit_see leaf_items_nodes [OF entry_ok(1) entry_kinds(1)] leaf_items_nodes [OF entry_ok(2) entry_kinds(5)]
      entry_nodes entry_node nb_item_def)

lemma edit_spill: "length key + n < 1000 \<Longrightarrow> no_spill (edit_st b cs) 1 (Some (key, n))" "no_spill (edit_st b cs) 1 None"
proof -
  have s: "spill_need (edit_st b cs) (new_cursor (edit_st b cs) 1) put =
      Some (2 * (1 + (case put of None \<Rightarrow> 0 | Some (key, dsize) \<Rightarrow> (LEAFSIZE key dsize + 40) div 40)))" for put
    unfolding edit_new_cursor(1)
    by (simp add: spill_need_def mc_db_def raw_cursor_def edit_st_def demo_txn_def edit_db_def CORE_DBS_def aget_def MAIN_DBI_def)
  have r: "mt_dirty_room (st_txn (edit_st b cs)) = 100" by (simp add: edit_st_def)
  show "no_spill (edit_st b cs) 1 None" unfolding no_spill_def s r by simp
  assume "length key + n < 1000"
  then have "(LEAFSIZE key n + 40) div 40 < 27" by (simp add: LEAFSIZE_def div_less_iff_less_mult)
  then show "no_spill (edit_st b cs) 1 (Some (key, n))" unfolding no_spill_def s r by simp
qed

end
