(* ===== verification/Put_Correct.thy ===== *)
theory Put_Correct
  imports Demo_Write
begin

text \<open>
  Storing a new key with \<open>mdb_put\<close>, as insertion into the sorted list of the items of a well-formed tree, and the other
  cursors of the transaction, which stay on their items.
\<close>

section \<open>The tracked cursors\<close>

text \<open>A tracked cursor on the same page at the place of the new node, or after it, steps over it.\<close>

definition stepped :: "cursor \<Rightarrow> mcursor \<Rightarrow> mcursor \<Rightarrow> bool" where
  "stepped mc m m' \<longleftrightarrow>
     (let t = mc_top mc; k = mc_ki (fst m) ! t in
      fst m' = (if mc_snum mc \<le> mc_snum (fst m) \<and> mc_pg (fst m) ! t = mc_pg mc ! t \<and> mc_ki mc ! t \<le> k
        then (fst m)\<lparr>mc_ki := (mc_ki (fst m))[t := (k + 1) mod 2 ^ 16]\<rparr> else fst m) \<and>
      (snd m' = snd m \<or> (\<exists>mx np a. snd m = Some mx \<and> snd m' = Some (mx\<lparr>mc_pg := (mc_pg mx)[0 := Some (Sub_page np a)]\<rparr>))))"

lemma put_adjust_ok:
  assumes m: "full_stack (fst m)" "\<forall>mx. snd m = Some mx \<longrightarrow> full_stack mx" and mc: "full_stack mc" "mc_top mc < CURSOR_STACK"
    and q: "page_ok psize q" and p: "mc_pg mc ! mc_top mc \<noteq> None"
  shows "\<exists>m'. put_adjust mc q True m = Some m' \<and> stepped mc m m'"
proof -
  let ?t = "mc_top mc"
  have g: "aget (mc_pg (fst m)) ?t = Some (mc_pg (fst m) ! ?t)" "aget (mc_pg mc) ?t = Some (mc_pg mc ! ?t)"
    "aget (mc_ki (fst m)) ?t = Some (mc_ki (fst m) ! ?t)" "aget (mc_ki mc) ?t = Some (mc_ki mc ! ?t)"
    using m(1) mc by (simp_all add: full_stack_def)
  show ?thesis
  proof (cases "mc_snum mc \<le> mc_snum (fst m) \<and> mc_pg (fst m) ! ?t = mc_pg mc ! ?t")
    case False
    then have "put_adjust mc q True m = Some m" using g by (auto simp: put_adjust_def Let_def)
    moreover have "stepped mc m m" using False by (auto simp: stepped_def Let_def)
    ultimately show ?thesis by blast
  next
    case True
    define m3 where "m3 = (if mc_ki mc ! ?t \<le> mc_ki (fst m) ! ?t
      then (fst m)\<lparr>mc_ki := (mc_ki (fst m))[?t := (mc_ki (fst m) ! ?t + 1) mod 2 ^ 16]\<rparr> else fst m)"
    have s: "(if mc_ki (fst m) ! ?t \<ge> mc_ki mc ! ?t \<and> True then set_ki_at (fst m) ?t (mc_ki (fst m) ! ?t + 1) else Some (fst m)) = Some m3"
      using m(1) mc by (simp add: m3_def set_ki_at_def full_stack_def)
    have f3: "full_stack (fst (m3, snd m))" using m(1) by (simp add: m3_def full_stack_def)
    obtain np where np: "mc_pg mc ! ?t = Some np" using p by blast
    have "\<exists>m'. XCURSOR_REFRESH (m3, snd m) ?t np q = Some m' \<and> fst m' = fst (m3, snd m) \<and>
      (snd m' = snd (m3, snd m) \<or> (\<exists>mx a. snd (m3, snd m) = Some mx \<and> has (mc_flags mx) C_INITIALIZED \<and>
         snd m' = Some (mx\<lparr>mc_pg := (mc_pg mx)[0 := Some (Sub_page np a)]\<rparr>)))"
      by (rule xcursor_refresh_ok [OF f3 _ mc(2) q]) (use m(2) in simp)
    then obtain m' where "XCURSOR_REFRESH (m3, snd m) ?t np q = Some m'" "fst m' = m3"
      "snd m' = snd m \<or> (\<exists>mx a. snd m = Some mx \<and> snd m' = Some (mx\<lparr>mc_pg := (mc_pg mx)[0 := Some (Sub_page np a)]\<rparr>))"
      unfolding fst_conv snd_conv by blast
    moreover from this(1) have "put_adjust mc q True m = Some m'"
      using True g s np by (simp add: put_adjust_def Let_def not_less)
    ultimately show ?thesis using True by (intro exI [of _ m']) (auto simp: stepped_def Let_def m3_def)
  qed
qed

section \<open>Adding the node\<close>

lemma node_room:
  assumes "8 + length key + n \<le> nodemax"
  shows "mdb_leaf_size nodemax key n = EVEN (8 + length key + n) + 2"
  using assms by (simp add: mdb_leaf_size_def LEAFSIZE_def NODESIZE_def EVEN_def Let_def)

lemma put_node_fits:
  assumes a: "at_leaf st d root ks mc" and res: "resolve st (ro_flags mc) (node_at (see st (ro_flags mc)) root ks) = Some (Heap_page h)"
    and p: "st_heap st h = Some p" "page_ok psize p" "IS_LEAF p" "\<not> IS_LEAF2 p"
    and i: "mc_ki mc ! d = i" "i \<le> NUMKEYS p" and k: "length key < 65536"
    and data: "mv_size data \<le> length (mv_data data)" "mv_size data < 2 ^ 32"
    and fit: "8 + length key + mv_size data \<le> me_nodemax (st_env st)"
      "mdb_leaf_size (me_nodemax (st_env st)) key (mv_size data) \<le> SIZELEFT p"
    and pv: "pt_flags pv AND NODE_ADD_FLAGS = 0" "pt_new pv" and sub: "\<not> has (mc_flags mc) C_SUB"
    and cur: "cursors_ok (st_cursors st)"
  shows "\<exists>q ms'. put_node st (mc, mx) trk pv key data =
      Some (0, st\<lparr>st_heap := (st_heap st)(h \<mapsto> q), st_cursors := ms'\<rparr>, (mc, mx), None) \<and>
    page_ok psize q \<and> mp_flags q = mp_flags p \<and> mp_pgno q = mp_pgno p \<and>
    page_nodes q = take i (page_nodes p) @ leaf_node (mv_size data) 0 key (take (mv_size data) (mv_data data)) # drop i (page_nodes p) \<and>
    list_all2 (\<lambda>m m'. if mc_dbi (fst m) = mc_dbi mc then stepped mc m m' else m' = m) (st_cursors st) ms'"
proof -
  have st: "on_path st (ro_flags mc) 0 d root ks mc" "stack_ok mc" "mc_top mc = d" using a by (simp_all add: at_leaf_def)
  have d: "d < length (mc_pg mc)" "d < length (mc_ki mc)" "d < CURSOR_STACK" using st(2,3) by (auto simp: stack_ok_def)
  have pg: "mc_pg mc ! d = Some (Heap_page h)" using on_path_end [OF st(1)] res by simp
  have ptr: "pg_at mc (mc_top mc) = Some (Heap_page h)" using d pg st(3) by (simp add: pg_at_def)
  have top: "top_page st' mc = st_heap st' h" for st' :: "'a wst_scheme"
    using ptr by (simp add: top_page_def page_of_def)
  have up: "mp_lower p \<le> mp_upper p" using p(2) by (auto simp: page_ok_def)
  have sl: "SIZELEFT p = mp_upper p - mp_lower p" by (rule SIZELEFT_eq [OF up])
  let ?n = "EVEN (8 + length key + mv_size data)"
  have room: "mp_lower p + 2 + ?n \<le> mp_upper p" using fit(2) node_room [OF fit(1)] sl up by simp
  have plan: "node_add_plan (me_nodemax (st_env st)) (me_psize (st_env st)) p (Some key) (Some data) 0 = Some (Add_fits ?n)"
    using up fit(1) p(3) room sl by (simp add: node_add_plan_def INDXSIZE_def Let_def F_ISSET_def F_BIGDATA_def)
  have ok: "data_ok data 0 None" using data by (simp add: data_ok_def F_ISSET_def F_BIGDATA_def MDB_RESERVE_def)
  have body: "leaf_body data 0 None = take (mv_size data) (mv_data data)"
    by (simp add: leaf_body_def F_ISSET_def F_BIGDATA_def)
  obtain q where q: "node_add_update p i (Some key) (Some data) 0 0 ?n None = Some (q, None)" "page_ok psize q"
    "mp_flags q = mp_flags p" "mp_pgno q = mp_pgno p"
    "page_nodes q = take i (page_nodes p) @ leaf_node (mv_size data) 0 key (take (mv_size data) (mv_data data)) # drop i (page_nodes p)"
    using node_add_update_leaf [OF p(2,3) i(2) k ok, of ?n 0] room data(1) by (auto simp: body min_absorb2)
  define st1 where "st1 = st\<lparr>st_heap := (st_heap st)(h \<mapsto> q)\<rparr>"
  have len: "length q = length p" using p(2) q(2) by (simp add: page_ok_def)
  have add: "mdb_node_add st mc i (Some key) (Some data) 0 0 = Some (0, st1, mc, None)"
    using ptr p up plan q(1) len by (simp add: mdb_node_add_def MDB_SUCCESS_def st1_def)
  have fs: "full_stack mc" using st(2) by (simp add: stack_ok_def full_stack_def)
  have adj: "\<exists>m'. on_m3 mc (\<lambda>_. put_adjust mc q (pt_new pv)) m = Some m' \<and> stepped mc m m'" if "m \<in> set (st_cursors st)" for m
    using put_adjust_ok [OF _ _ fs _ q(2)] cur that d(3) pg st(3) sub pv(2) by (simp add: on_m3_def cursors_ok_def)
  obtain ms' where ms': "map_cursors (mc_dbi mc) (on_m3 mc (\<lambda>_. put_adjust mc q (pt_new pv))) (st_cursors st) = Some ms'"
    "list_all2 (\<lambda>m m'. if mc_dbi (fst m) = mc_dbi mc then stepped mc m m' else m' = m) (st_cursors st) ms'"
    using map_cursors_all [of "st_cursors st" "mc_dbi mc" "on_m3 mc (\<lambda>_. put_adjust mc q (pt_new pv))" "stepped mc"] adj by blast
  have "put_node st (mc, mx) trk pv key data = Some (0, st1\<lparr>st_cursors := ms'\<rparr>, (mc, mx), None)"
    using top [of st] top [of st1] p fit(2) pv(1) add i d st(3) ms'(1)
    by (simp add: put_node_def upd_cursors_def st1_def not_less)
  then show ?thesis using q ms'(2) by (intro exI [of _ q] exI [of _ ms']) (simp add: st1_def)
qed

section \<open>\<open>mdb_cursor_put\<close>\<close>

lemma put_flags_two:
  assumes "flags \<in> {0, MDB_NOOVERWRITE}"
  shows "\<not> has flags MDB_MULTIPLE" "\<not> has flags MDB_CURRENT" "\<not> has flags MDB_APPEND" "\<not> has flags MDB_NOSPILL"
    "flags AND NOT MDB_NOSPILL = flags" "flags AND NODE_ADD_FLAGS = 0"
    "\<not> has flags (NOT (MDB_NOOVERWRITE OR MDB_NODUPDATA OR MDB_RESERVE OR MDB_APPEND OR MDB_APPENDDUP))"
  using assms by (auto simp: has_def put_flag_defs MDB_RESERVE_def F_DUPDATA_def F_SUBDATA_def)

lemma cursor_put_new:
  fixes rank :: "bytes \<Rightarrow> 'k::linorder"
  assumes w: "writable st dbi psize c valid rank d root key ks h p" and spill: "no_spill st dbi (Some (key, mv_size data))"
    and new: "\<forall>x \<in> set (items (see st (ro_flags (new_cursor st dbi))) d root). rank (fst x) \<noteq> rank key"
    and data: "mv_size data \<le> length (mv_data data)" "mv_size data \<le> MAXDATASIZE"
    and fit: "8 + length key + mv_size data \<le> me_nodemax (st_env st)"
      "mdb_leaf_size (me_nodemax (st_env st)) key (mv_size data) \<le> SIZELEFT p"
    and flags: "flags \<in> {0, MDB_NOOVERWRITE}"
  shows "\<exists>mc q ms' i lo hi.
    mdb_cursor_put st (new_cursor st dbi, None) trk key data 0 flags =
      Some (0, count_entry (st\<lparr>st_heap := (st_heap st)(h \<mapsto> q), st_cursors := ms'\<rparr>) dbi (\<lambda>n. n + 1), (mc, None), No_out, 0) \<and>
    path_bounds (see st (ro_flags (new_cursor st dbi))) rank root ks (None, None) = (lo, hi) \<and>
    leaf_ok (see st (ro_flags (new_cursor st dbi))) psize c valid rank p lo hi \<and> in_range lo hi (rank key) \<and>
    see st (ro_flags (new_cursor st dbi)) (node_at (see st (ro_flags (new_cursor st dbi))) root ks) = Some p \<and>
    page_ok psize q \<and> mp_flags q = mp_flags p \<and> i \<le> NUMKEYS p \<and>
    page_nodes q = take i (page_nodes p) @ leaf_node (mv_size data) 0 key (take (mv_size data) (mv_data data)) # drop i (page_nodes p) \<and>
    (\<forall>x \<in> set (take i (leaf_items (see st (ro_flags (new_cursor st dbi))) p)). rank (fst x) < rank key) \<and>
    (\<forall>x \<in> set (drop i (leaf_items (see st (ro_flags (new_cursor st dbi))) p)). rank key < rank (fst x)) \<and>
    mc_ki mc ! d = i \<and> at_leaf st d root ks mc \<and> mc_dbi mc = dbi \<and> ro_flags mc = ro_flags (new_cursor st dbi) \<and>
    list_all2 (\<lambda>m m'. if mc_dbi (fst m) = dbi then stepped mc m m' else m' = m) (st_cursors st) ms'"
proof -
  let ?mc = "new_cursor st dbi"
  let ?ro = "ro_flags ?mc"
  let ?pg = "see st ?ro"
  note W = w [unfolded writable_def Let_def]
  have db: "db_ready st ?mc c root" and root: "root_ok st ?ro psize c valid rank d root" and hp: "st_heap st h = Some p" using W by simp_all
  have dbi: "mc_dbi ?mc = dbi" "mc_own ?mc = None" by (simp_all add: new_cursor_def raw_cursor_def)
  note D = db_ready_db [OF db dbi(2), unfolded dbi(1)]
  have root0: "root \<noteq> P_INVALID" using root by (simp add: root_ok_def)
  obtain mc i where land: "landed st dbi psize c valid rank d root key ks h p mc i"
    and set: "mdb_cursor_set st (?mc, None) (Some key) (Some []) MDB_SET True =
      (if i < NUMKEYS p \<and> rank (key_at p i) = rank key
       then Some (0, st, (mc, None), Some key, out (Some []) (snd (leaf_items ?pg p ! i)))
       else Some (MDB_NOTFOUND, st, (mc, None), Some key, Some []))"
    using writable_lands [OF w, of "Some []"] by blast
  note L = land [unfolded landed_def Let_def]
  have a: "at_leaf st d root ks mc" and own: "mc_own mc = None" "mc_dbi mc = dbi" and ro: "ro_flags mc = ?ro" and ki: "mc_ki mc ! d = i"
    and pg: "?pg (node_at ?pg root ks) = Some p" and sub: "\<not> has (mc_flags mc) C_SUB" "\<not> has (mc_flags mc) C_DEL" and i: "i \<le> NUMKEYS p"
    using L by simp_all
  obtain lo hi where b: "path_bounds ?pg rank root ks (None, None) = (lo, hi)" "leaf_ok ?pg psize c valid rank p lo hi" "in_range lo hi (rank key)"
    using L by blast
  have its: "x \<in> set (items ?pg d root)" if "x \<in> set (leaf_items ?pg p)" for x
    using L that by simp
  have miss: "\<not> (i < NUMKEYS p \<and> rank (key_at p i) = rank key)"
  proof
    assume h: "i < NUMKEYS p \<and> rank (key_at p i) = rank key"
    then have "(key_at p i, the (value_at ?pg p i)) \<in> set (leaf_items ?pg p)" by (auto simp: leaf_items_set)
    then show False using new its h by fastforce
  qed
  have gt: "\<forall>x \<in> set (drop i (leaf_items ?pg p)). rank key < rank (fst x)"
  proof
    fix x assume x: "x \<in> set (drop i (leaf_items ?pg p))"
    then have "rank key \<le> rank (fst x)" using L by simp
    moreover have "rank (fst x) \<noteq> rank key" using new its in_set_dropD [OF x] by blast
    ultimately show "rank key < rank (fst x)" by simp
  qed
  note k = leaf_kind [OF b(2)]
  have res: "resolve st (ro_flags mc) (node_at (see st (ro_flags mc)) root ks) = Some (Heap_page h)"
    using L ro by simp
  let ?pv = "\<lparr>pt_flags = flags, pt_new = True, pt_sub = False, pt_root = None, pt_dkey = []\<rparr>"
  have mx: "length key < 65536" "length key \<le> ENV_MAXKEY" using W by (simp_all add: ENV_MAXKEY_def)
  have sz: "mv_size data < 2 ^ 32" using data(2) by (simp add: MAXDATASIZE_def)
  obtain q ms' where N: "put_node st (mc, None) trk ?pv key data =
      Some (0, st\<lparr>st_heap := (st_heap st)(h \<mapsto> q), st_cursors := ms'\<rparr>, (mc, None), None)" "page_ok psize q"
    "mp_flags q = mp_flags p"
    "page_nodes q = take i (page_nodes p) @ leaf_node (mv_size data) 0 key (take (mv_size data) (mv_data data)) # drop i (page_nodes p)"
    "list_all2 (\<lambda>m m'. if mc_dbi (fst m) = mc_dbi mc then stepped mc m m' else m' = m) (st_cursors st) ms'"
    using put_node_fits [OF a res hp _ _ _ ki i mx(1) data(1) sz fit, of psize ?pv None trk] k put_flags_two(6) [OF flags] sub W
    by auto
  note F = put_flags_two [OF flags]
  let ?st1 = "st\<lparr>st_heap := (st_heap st)(h \<mapsto> q), st_cursors := ms'\<rparr>"
  have top: "top_page st mc = Some p" by (rule at_leaf_top [OF a]) (simp add: ro pg)
  have mdb: "mc_db st mc = Some (mt_dbs (st_txn st) ! dbi)" using D own by (simp add: mc_db_def aget_def)
  have chk: "put_check st ?mc key (mv_size data) flags = Some 0"
    using D F W mx data(2) by (simp add: put_check_def MDB_SUCCESS_def)
  have pos: "put_position st (?mc, None) key flags = Some (False, MDB_NOTFOUND, st, (mc, None), No_out)"
    using D F root0 set miss by (simp add: put_position_def MDB_NOTFOUND_def)
  have spl: "mdb_page_spill st (mc, None) (Some (key, mv_size data)) istack0 = Some (0, st)"
    by (rule spill_not [OF spill own sub(1)])
  have tch: "mdb_cursor_touch st mc = Some (0, st, mc)"
    by (rule cursor_touch_dirty [OF a]) (use W ro own in simp_all)
  have cnt: "upd_mc_db ?st1 mc (\<lambda>d. d\<lparr>md_entries := md_entries d + 1\<rparr>) = Some (count_entry ?st1 dbi (\<lambda>n. n + 1), mc)"
    by (rule upd_mc_db_entries [OF own]) (use D in simp)
  have stp: "put_step sub_cursor_put (New_sub data) st (mc, None) trk ?pv key data 0 =
      Some (0, count_entry ?st1 dbi (\<lambda>n. n + 1), (mc\<lparr>mc_flags := mc_flags mc OR C_INITIALIZED\<rparr>, None), No_out, 0, ?pv, False)"
    using N(1) cnt F by (simp add: put_step_def out_of_def)
  have wr: "put_write sub_cursor_put MDB_NOTFOUND st (mc, None) trk key data 0 flags =
      Some (0, count_entry ?st1 dbi (\<lambda>n. n + 1), (mc\<lparr>mc_flags := mc_flags mc OR C_INITIALIZED\<rparr>, None), No_out, 0)"
    using mdb top D stp F by (simp add: put_write_def MDB_NOTFOUND_def)
  have ini: "mc\<lparr>mc_flags := mc_flags mc OR C_INITIALIZED\<rparr> = mc" using L by simp
  have "mdb_cursor_put st (?mc, None) trk key data 0 flags =
      Some (0, count_entry ?st1 dbi (\<lambda>n. n + 1), (mc, None), No_out, 0)"
    using chk pos spl tch wr F sub(2) ini
    by (simp add: mdb_cursor_put_def cursor_put_body_def drop_del_def MDB_NOTFOUND_def MDB_NO_ROOT_def MDB_LAST_ERRCODE_def
        MDB_PROBLEM_def Let_def)
  moreover have "list_all2 (\<lambda>m m'. if mc_dbi (fst m) = dbi then stepped mc m m' else m' = m) (st_cursors st) ms'"
    using N(5) unfolding own(2) .
  moreover have "i \<le> NUMKEYS p" "\<forall>x \<in> set (take i (leaf_items ?pg p)). rank (fst x) < rank key"
    using L by simp_all
  ultimately show ?thesis
    using b pg N(2-4) ki own(2) gt a ro by blast
qed

section \<open>\<open>mdb_put\<close>\<close>

lemma stepped_stack:
  assumes "stepped mc m m'" "full_stack (fst m)" "\<forall>mx. snd m = Some mx \<longrightarrow> full_stack mx"
  shows "full_stack (fst m') \<and> (\<forall>mx. snd m' = Some mx \<longrightarrow> full_stack mx)"
  using assms by (auto simp: stepped_def Let_def full_stack_def)

lemma stepped_cursors:
  assumes "list_all2 (\<lambda>m m'. if mc_dbi (fst m) = dbi then stepped mc m m' else m' = m) ms ms'" "cursors_ok ms"
  shows "cursors_ok ms'"
  using assms
proof (induction rule: list_all2_induct)
  case (Cons m ms m' ms')
  have m: "full_stack (fst m)" "\<forall>mx. snd m = Some mx \<longrightarrow> full_stack mx" and ms: "cursors_ok ms"
    using Cons.prems by (simp_all add: cursors_ok_def)
  have "full_stack (fst m') \<and> (\<forall>mx. snd m' = Some mx \<longrightarrow> full_stack mx)"
  proof (cases "mc_dbi (fst m) = dbi")
    case True
    show ?thesis by (rule stepped_stack [OF _ m]) (use Cons.hyps(1) True in simp)
  qed (use Cons.hyps(1) m in simp)
  then show ?case using Cons.IH [OF ms] by (simp add: cursors_ok_def)
qed simp

lemma mdb_put_new:
  fixes rank :: "bytes \<Rightarrow> 'k::linorder"
  assumes w: "writable st dbi psize c valid rank d root key ks h p" and spill: "no_spill st dbi (Some (key, mv_size data))"
    and new: "\<forall>x \<in> set (items (see st (ro_flags (new_cursor st dbi))) d root). rank (fst x) \<noteq> rank key"
    and data: "mv_size data \<le> length (mv_data data)" "mv_size data \<le> MAXDATASIZE"
    and fit: "8 + length key + mv_size data \<le> me_nodemax (st_env st)"
      "mdb_leaf_size (me_nodemax (st_env st)) key (mv_size data) \<le> SIZELEFT p"
    and flags: "flags \<in> {0, MDB_NOOVERWRITE}"
  shows "\<exists>st' q ms' mc. mdb_put st dbi (Some key) (Some data) flags = Some (0, st', No_out) \<and>
    writable st' dbi psize c valid rank d root key ks h q \<and> new_cursor st' dbi = new_cursor st dbi \<and>
    items (see st' (ro_flags (new_cursor st dbi))) d root =
      below rank (rank key) (items (see st (ro_flags (new_cursor st dbi))) d root) @
      (key, take (mv_size data) (mv_data data)) # from_key rank (rank key) (items (see st (ro_flags (new_cursor st dbi))) d root) \<and>
    st' = count_entry (st\<lparr>st_heap := (st_heap st)(h \<mapsto> q), st_cursors := ms'\<rparr>) dbi (\<lambda>n. n + 1) \<and>
    at_leaf st d root ks mc \<and> mc_dbi mc = dbi \<and> ro_flags mc = ro_flags (new_cursor st dbi) \<and> mc_ki mc ! d \<le> NUMKEYS p \<and>
    leaf_items (see st (ro_flags (new_cursor st dbi))) q =
      take (mc_ki mc ! d) (leaf_items (see st (ro_flags (new_cursor st dbi))) p) @
      (key, take (mv_size data) (mv_data data)) # drop (mc_ki mc ! d) (leaf_items (see st (ro_flags (new_cursor st dbi))) p) \<and>
    leaf_refs q = leaf_refs p \<and>
    list_all2 (\<lambda>m m'. if mc_dbi (fst m) = dbi then stepped mc m m' else m' = m) (st_cursors st) ms'"
proof -
  let ?ro = "ro_flags (new_cursor st dbi)"
  let ?pg = "see st ?ro"
  note W = w [unfolded writable_def Let_def]
  have db: "db_ready st (new_cursor st dbi) c root" and root: "root_ok st ?ro psize c valid rank d root"
    and path: "routed ?pg rank d root None None ks (rank key)" and key: "valid key" using W by simp_all
  obtain mc q ms' i lo hi where P: "mdb_cursor_put st (new_cursor st dbi, None) (Some 0) key data 0 flags =
      Some (0, count_entry (st\<lparr>st_heap := (st_heap st)(h \<mapsto> q), st_cursors := ms'\<rparr>) dbi (\<lambda>n. n + 1), (mc, None), No_out, 0)"
    "path_bounds ?pg rank root ks (None, None) = (lo, hi)" "leaf_ok ?pg psize c valid rank p lo hi" "in_range lo hi (rank key)"
    "?pg (node_at ?pg root ks) = Some p" "page_ok psize q" "mp_flags q = mp_flags p" "i \<le> NUMKEYS p"
    "page_nodes q = take i (page_nodes p) @ leaf_node (mv_size data) 0 key (take (mv_size data) (mv_data data)) # drop i (page_nodes p)"
    "\<forall>x \<in> set (take i (leaf_items ?pg p)). rank (fst x) < rank key"
    "\<forall>x \<in> set (drop i (leaf_items ?pg p)). rank key < rank (fst x)" "at_leaf st d root ks mc" "mc_dbi mc = dbi"
    "mc_ki mc ! d = i" "ro_flags mc = ?ro"
    "list_all2 (\<lambda>m m'. if mc_dbi (fst m) = dbi then stepped mc m m' else m' = m) (st_cursors st) ms'"
    using cursor_put_new [OF w spill new data fit flags, of "Some 0"] by blast
  define st' where "st' = count_entry (st\<lparr>st_heap := (st_heap st)(h \<mapsto> q), st_cursors := ms'\<rparr>) dbi (\<lambda>n. n + 1)"
  let ?v = "take (mv_size data) (mv_data data)"
  have lv: "length ?v = mv_size data" using data(1) by simp
  have kl: "length key < 65536" "length ?v < 2 ^ 32" using W data(2) lv by (simp_all add: ENV_MAXKEY_def MAXDATASIZE_def)
  note parts = leaf_node_parts(1,2,4) [OF kl, of 0, unfolded lv] leaf_node_parts(3) [OF kl, of 0 ?pg, unfolded lv]
  have L: "leaf_ok ?pg psize c valid rank q lo hi \<and>
    leaf_items ?pg q = take i (leaf_items ?pg p) @ (key, ?v) # drop i (leaf_items ?pg p) \<and> leaf_refs q = leaf_refs p"
    by (rule leaf_insert [OF P(3,6,7,9) _ _ _ _ key P(4,10,11)])
      (use parts in \<open>simp_all add: F_ISSET_def F_BIGDATA_def F_DUPDATA_def\<close>)
  have dis: "distinct (leaf_refs p)"
    using path_same [OF routed_good [OF path] _ refl, where rank = rank] W P(5) by simp
  have C: "cursors_ok ms'" using stepped_cursors [OF P(16)] W by simp
  have R: "writable st' dbi psize c valid rank d root key ks h q \<and> new_cursor st' dbi = new_cursor st dbi \<and>
    items (see st' ?ro) d root = before ?pg d root ks @ leaf_items ?pg q @ after ?pg d root ks"
    by (rule writable_changed [OF w st'_def C P(2) _ P(7)]) (use L dis in simp_all)
  have old: "items ?pg d root = before ?pg d root ks @ leaf_items ?pg p @ after ?pg d root ks"
    using items_split [OF routed_good [OF path]] P(5) by simp
  have tree: "tree_ok ?pg psize c valid rank d root None None" using root by (simp add: root_ok_def)
  note ar = routed_around [OF tree path]
  have "leaf_items ?pg p = take i (leaf_items ?pg p) @ [] @ drop i (leaf_items ?pg p)" by simp
  then have "below rank (rank key) (leaf_items ?pg p) = take i (leaf_items ?pg p)"
    "from_key rank (rank key) (leaf_items ?pg p) = drop i (leaf_items ?pg p)"
    using around_items [OF P(10,11), of "[]"] by (simp_all add: below_def from_key_def)
  then have sp: "below rank (rank key) (items ?pg d root) = before ?pg d root ks @ take i (leaf_items ?pg p)"
    "from_key rank (rank key) (items ?pg d root) = drop i (leaf_items ?pg p) @ after ?pg d root ks"
    using around_items [OF ar [THEN conjunct1] ar [THEN conjunct2], of "leaf_items ?pg p"] by (simp_all add: old)
  have "mdb_put st dbi (Some key) (Some data) flags = Some (0, st', No_out)"
    using P(1) W put_flags_two(7) [OF flags] cursor_init_new [OF db] by (simp add: mdb_put_def st'_def)
  then show ?thesis using R L sp P(8,12-16) st'_def
    by (intro exI [of _ st'] exI [of _ q] exI [of _ ms'] exI [of _ mc]) simp
qed

text \<open>C4: \<open>mdb_put\<close> of a key that is not in the database inserts the item at its place in the sorted list of all items and
  counts it, when its leaf and the path to it have been written by this transaction already and the leaf has room: the tree is
  well formed again, no other block of memory and no other database changes, and no other result is possible.\<close>

theorem mdb_put_correct:
  fixes rank :: "bytes \<Rightarrow> 'k::linorder"
  assumes w: "writable st dbi psize c valid rank d root key ks h p" and spill: "no_spill st dbi (Some (key, mv_size data))"
    and new: "\<forall>x \<in> set (items (see st (ro_flags (new_cursor st dbi))) d root). rank (fst x) \<noteq> rank key"
    and data: "mv_size data \<le> length (mv_data data)" "mv_size data \<le> MAXDATASIZE"
    and fit: "8 + length key + mv_size data \<le> me_nodemax (st_env st)"
      "mdb_leaf_size (me_nodemax (st_env st)) key (mv_size data) \<le> SIZELEFT p"
    and flags: "flags \<in> {0, MDB_NOOVERWRITE}"
  shows "\<exists>st' q. mdb_put st dbi (Some key) (Some data) flags = Some (0, st', No_out) \<and>
    writable st' dbi psize c valid rank d root key ks h q \<and>
    items (see st' (ro_flags (new_cursor st' dbi))) d root =
      below rank (rank key) (items (see st (ro_flags (new_cursor st dbi))) d root) @
      (key, take (mv_size data) (mv_data data)) # from_key rank (rank key) (items (see st (ro_flags (new_cursor st dbi))) d root) \<and>
    md_entries (mt_dbs (st_txn st') ! dbi) = md_entries (mt_dbs (st_txn st) ! dbi) + 1 \<and>
    (\<forall>i. i \<noteq> dbi \<longrightarrow> mt_dbs (st_txn st') ! i = mt_dbs (st_txn st) ! i) \<and>
    st_heap st' = (st_heap st)(h \<mapsto> q) \<and> st_file st' = st_file st"
proof -
  obtain st' q ms' where P: "mdb_put st dbi (Some key) (Some data) flags = Some (0, st', No_out)"
    "writable st' dbi psize c valid rank d root key ks h q" "new_cursor st' dbi = new_cursor st dbi"
    "items (see st' (ro_flags (new_cursor st dbi))) d root =
      below rank (rank key) (items (see st (ro_flags (new_cursor st dbi))) d root) @
      (key, take (mv_size data) (mv_data data)) # from_key rank (rank key) (items (see st (ro_flags (new_cursor st dbi))) d root)"
    "st' = count_entry (st\<lparr>st_heap := (st_heap st)(h \<mapsto> q), st_cursors := ms'\<rparr>) dbi (\<lambda>n. n + 1)"
    using mdb_put_new [OF w spill new data fit flags] by blast
  have "db_ready st (new_cursor st dbi) c root" using w by (simp add: writable_def Let_def)
  then have "dbi < length (mt_dbs (st_txn st))"
    using db_ready_db(1) [of st "new_cursor st dbi"] by (simp add: new_cursor_def raw_cursor_def)
  then show ?thesis using P(1-4) P(5) by (intro exI [of _ st'] exI [of _ q]) (simp add: count_entry_def)
qed


section \<open>The cursors stay on their items\<close>

lemma nth_insert:
  "i \<le> length xs \<Longrightarrow> k < length xs \<Longrightarrow> (take i xs @ y # drop i xs) ! (if i \<le> k then Suc k else k) = xs ! k"
  by (auto simp: nth_append min_def)


section \<open>A key that is there\<close>

text \<open>C10: with \<open>MDB_NOOVERWRITE\<close>, \<open>mdb_put\<close> of a key that is in the database returns \<open>MDB_KEYEXIST\<close> and the data that is stored, and
  changes nothing, wherever in the tree the key is and whether or not its pages are writable.\<close>

theorem put_no_overwrite:
  fixes rank :: "bytes \<Rightarrow> 'k::linorder"
  assumes ex: "TXN_DBI_EXIST (st_txn st) dbi DB_USRVALID = Some True"
    and txn: "\<not> has (mt_flags (st_txn st)) (MDB_TXN_RDONLY OR MDB_TXN_BLOCKED)"
    and db: "db_ready st (new_cursor st dbi) c root"
    and root: "root_ok st (ro_flags (new_cursor st dbi)) psize c valid rank d root"
    and key: "valid key" "key \<noteq> []" "length key \<le> ENV_MAXKEY" and data: "mv_size data \<le> MAXDATASIZE"
    and there: "find (\<lambda>x. rank (fst x) = rank key) (items (see st (ro_flags (new_cursor st dbi))) d root) = Some x"
  shows "mdb_put st dbi (Some key) (Some data) MDB_NOOVERWRITE = Some (MDB_KEYEXIST, st, Old_data (snd x))"
proof -
  let ?mc = "new_cursor st dbi"
  let ?xs = "items (see st (ro_flags ?mc)) d root"
  note F = put_flags_two [of MDB_NOOVERWRITE, simplified]
  have dbi: "mc_dbi ?mc = dbi" "mc_own ?mc = None" by (simp_all add: new_cursor_def raw_cursor_def)
  note D = db_ready_db [OF db dbi(2), unfolded dbi(1)]
  have hd: "from_key rank (rank key) ?xs \<noteq> []" "hd (from_key rank (rank key) ?xs) = x" "rank (fst x) = rank key"
    using from_key_find [OF root_ok_ascending [OF root], of "rank key", symmetric] there by (auto split: if_splits)
  obtain mc where S: "mdb_cursor_set st (?mc, None) (Some key) (Some []) MDB_SET True = Some (0, st, (mc, None), Some key, Some (snd x))"
    using cursor_set_spec [OF db root new_cursor_usable key(1,2), of MDB_SET "Some []"] hd by (auto simp: set_spec_def Let_def)
  have chk: "put_check st ?mc key (mv_size data) MDB_NOOVERWRITE = Some 0"
    using D F txn key data by (simp add: put_check_def MDB_SUCCESS_def)
  have "root \<noteq> P_INVALID" using root by (simp add: root_ok_def)
  then have pos: "put_position st (?mc, None) key MDB_NOOVERWRITE = Some (True, MDB_KEYEXIST, st, (mc, None), Old_data (snd x))"
    using D F S by (simp add: put_position_def has_def MDB_NOOVERWRITE_def)
  have "mdb_cursor_put st (?mc, None) (Some 0) key data 0 MDB_NOOVERWRITE = Some (MDB_KEYEXIST, st, (mc, None), Old_data (snd x), 0)"
    using chk pos F by (simp add: mdb_cursor_put_def cursor_put_body_def)
  then show ?thesis using ex txn F cursor_init_new [OF db] by (simp add: mdb_put_def)
qed

section \<open>Instances\<close>

lemma mdb_put_correct_witness:
  "\<exists>st'. mdb_put (edit_st (one_entry 0x61 0x78) []) 1 (Some [0x62]) (Some (whole [0x79])) 0 = Some (0, st', No_out) \<and>
    items (see st' (ro_flags (new_cursor st' 1))) 0 2 = [([0x61], [0x78]), ([0x62], [0x79])] \<and>
    md_entries (mt_dbs (st_txn st') ! 1) = 2"
proof -
  let ?st = "edit_st (one_entry 0x61 0x78) []"
  have ro: "ro_flags (new_cursor ?st 1) = False" using edit_new_cursor(2) by simp
  have w: "writable ?st 1 40 Cmp_memn short (\<lambda>a. a) 0 2 [0x62] [] 0 (one_entry 0x61 0x78)"
    by (rule edit_writable) (simp_all add: entry_leaf_ok entry_kinds entry_refs ENV_MAXKEY_def cursors_ok_def)
  have e: "md_entries (mt_dbs (st_txn ?st) ! 1) = 1" "me_nodemax (st_env ?st) = 66" by (simp_all add: edit_st_def edit_db_def demo_env_def)
  have sp: "no_spill ?st 1 (Some ([0x62], mv_size (whole [0x79])))" by (rule edit_spill(1)) (simp add: whole_def)
  show ?thesis
    using mdb_put_correct [where flags = 0, OF w sp] e one_entry_read(6) [of "0x61" "0x78"]
    unfolding ro entry_items(1) by (auto simp: whole_def MAXDATASIZE_def mdb_leaf_size_def LEAFSIZE_def EVEN_def below_def from_key_def)
qed


text \<open>Another cursor on the only entry, before which a key is put.\<close>

definition edit_cursor :: cursor where
  "edit_cursor = raw_cursor\<lparr>mc_dbi := 1, mc_snum := 1, mc_flags := C_INITIALIZED, mc_pg := (mc_pg raw_cursor)[0 := Some (Heap_page 0)]\<rparr>"


lemma put_no_overwrite_witness:
  "mdb_put (edit_st two_entries []) 1 (Some [0x62]) (Some (whole [0x7a])) MDB_NOOVERWRITE =
    Some (MDB_KEYEXIST, edit_st two_entries [], Old_data [0x79])"
proof -
  let ?st = "edit_st two_entries []"
  have ro: "ro_flags (new_cursor ?st 1) = False" using edit_new_cursor(2) by simp
  have w: "writable ?st 1 40 Cmp_memn short (\<lambda>a. a) 0 2 [0x62] [] 0 two_entries"
    by (rule edit_writable) (simp_all add: entry_leaf_ok entry_kinds entry_refs ENV_MAXKEY_def cursors_ok_def)
  note W = w [unfolded writable_def Let_def]
  have db: "db_ready ?st (new_cursor ?st 1) Cmp_memn 2" and root: "root_ok ?st (ro_flags (new_cursor ?st 1)) 40 Cmp_memn short (\<lambda>a. a) 0 2"
    using W by simp_all
  have f: "find (\<lambda>x. fst x = [0x62]) (items (see ?st (ro_flags (new_cursor ?st 1))) 0 2) = Some ([0x62], [0x79])"
    unfolding ro entry_items(2) by simp
  have e: "TXN_DBI_EXIST (st_txn ?st) 1 DB_USRVALID = Some True" "\<not> has (mt_flags (st_txn ?st)) (MDB_TXN_RDONLY OR MDB_TXN_BLOCKED)"
    using W by simp_all
  show ?thesis
    using put_no_overwrite [OF e db root _ _ _ _ f, of "whole [0x7a]"] by (simp add: whole_def MAXDATASIZE_def ENV_MAXKEY_def)
qed

end
