(* ===== verification/Del_Correct.thy ===== *)
theory Del_Correct
  imports Demo_Write
begin

text \<open>
  Deleting a key with \<open>mdb_del\<close>, as removal from the sorted list of the items of a well-formed tree, as long as the leaf
  stays filled enough and no other cursor is on the database.
\<close>

section \<open>No other cursors\<close>

definition no_cursors :: "mcursor list \<Rightarrow> nat \<Rightarrow> bool" where
  "no_cursors ms dbi \<longleftrightarrow> (\<forall>m \<in> set ms. mc_dbi (fst m) \<noteq> dbi)"

lemma map_cursors_none: "no_cursors ms dbi \<Longrightarrow> map_cursors dbi f ms = Some ms"
  by (induction ms) (auto simp: no_cursors_def)

lemma del_forward_none: "no_cursors ms (mc_dbi mc) \<Longrightarrow> del_forward_all st mc mp n ds ms = Some (0, st, ms)"
  by (induction ms) (auto simp: no_cursors_def del_forward_m2_def)

section \<open>\<open>mdb_cursor_del\<close>\<close>

text \<open>The nodes of the leaf are ordinary ones; the one with the key can go without rebalancing.\<close>

definition plain_leaf :: "bytes \<Rightarrow> bool" where
  "plain_leaf p \<longleftrightarrow> (\<forall>nb \<in> set (page_nodes p). rd nb 4 2 = 0)"

definition can_lose :: "nat \<Rightarrow> bytes \<Rightarrow> bytes \<Rightarrow> bool" where
  "can_lose psize p nb \<longleftrightarrow> 1 < NUMKEYS p \<and>
     FILL_THRESHOLD \<le> 1000 * (psize - PAGEHDRSZ - (SIZELEFT p + EVEN (length nb) + 2)) div (psize - PAGEHDRSZ)"

lemma node_flags_of:
  assumes ok: "page_ok psize p" "IS_LEAF p" and i: "i < NUMKEYS p"
  shows "rd (page_nodes p ! i) 4 2 = rd p (pt p i + 4) 2"
proof -
  have "8 \<le> node_len True p (pt p i)" by (rule node_len_ge)
  then show ?thesis using i ok(2) by (simp add: page_nodes_def node_bytes_def rd_slice)
qed

lemma rebalance_filled:
  assumes "top_page st (fst m) = Some q" "IS_LEAF q" "\<not> IS_BRANCH q" "0 < NUMKEYS q"
    "FILL_THRESHOLD \<le> PAGEFILL (me_psize (st_env st)) q"
  shows "mdb_rebalance st m trk = Some (0, st, m)"
  using assms by (subst mdb_rebalance.simps) (simp add: thresh_of_def minkeys_of_def MDB_SUCCESS_def)

lemma cursor_del_node:
  assumes a: "at_leaf st d root ks mc" and pg: "see st (ro_flags mc) (node_at (see st (ro_flags mc)) root ks) = Some p"
    and res: "resolve st (ro_flags mc) (node_at (see st (ro_flags mc)) root ks) = Some (Heap_page h)"
    and l: "leaf_ok (see st (ro_flags mc)) psize c valid rank p lo hi" and plain: "plain_leaf p"
    and i: "mc_ki mc ! d = i" "i < NUMKEYS p" and lose: "can_lose (me_psize (st_env st)) p (page_nodes p ! i)"
    and own: "mc_own mc = None" "\<not> has (mc_flags mc) C_SUB" "has_init mc"
    and d: "mc_dbi mc = dbi" "dbi < length (mt_dbs (st_txn st))" "\<not> has (md_flags (mt_dbs (st_txn st) ! dbi)) MDB_DUPSORT"
    and txn: "\<not> has (mt_flags (st_txn st)) (MDB_TXN_RDONLY OR MDB_TXN_BLOCKED)"
    and spill: "mdb_page_spill st (mc, None) None istack0 = Some (0, st)" and touch: "mdb_cursor_touch st mc = Some (0, st, mc)"
    and cur: "no_cursors (st_cursors st) dbi"
  shows "\<exists>q. page_ok psize q \<and> mp_flags q = mp_flags p \<and> page_nodes q = take i (page_nodes p) @ drop (Suc i) (page_nodes p) \<and>
    (\<forall>st'. st' = count_entry (st\<lparr>st_heap := (st_heap st)(h \<mapsto> q)\<rparr>) dbi (\<lambda>n. n - 1) \<longrightarrow>
      (\<forall>m. mc_dbi (fst m) = dbi \<longrightarrow> del_forward st' mc (Heap_page h) (NUMKEYS q) False C_INITIALIZED (mc, None) = Some (0, st', m) \<longrightarrow>
        mdb_cursor_del st (mc, None) (Some 0) MDB_NODUPDATA = Some (0, st', ((fst m)\<lparr>mc_flags := mc_flags (fst m) OR C_DEL\<rparr>, snd m))))"
proof -
  have st: "on_path st (ro_flags mc) 0 d root ks mc" "stack_ok mc" "mc_top mc = d" using a by (simp_all add: at_leaf_def)
  have len: "d < length (mc_pg mc)" "d < length (mc_ki mc)" using st(2,3) by (auto simp: stack_ok_def)
  have ptr: "pg_at mc (mc_top mc) = Some (Heap_page h)" using on_path_end [OF st(1)] res len st(3) by (simp add: pg_at_def)
  have hp: "st_heap st h = Some p" using pg res by (simp add: see_def)
  have k: "page_ok psize p" "IS_LEAF p" "\<not> IS_LEAF2 p" "\<not> IS_BRANCH p" using l by (simp_all add: leaf_ok_def)
  define q where "q = the (mdb_node_del p i (unat (md_pad (mt_dbs (st_txn st) ! dbi))))"
  have q: "mdb_node_del p i (unat (md_pad (mt_dbs (st_txn st) ! dbi))) = Some q" "page_ok psize q"
    "page_nodes q = take i (page_nodes p) @ drop (Suc i) (page_nodes p)" "mp_flags q = mp_flags p"
    "SIZELEFT q = SIZELEFT p + EVEN (length (page_nodes p ! i)) + 2"
    using node_del_nodes [OF k(1,3) i(2), of "unat (md_pad (mt_dbs (st_txn st) ! dbi))"] by (auto simp: q_def)
  have lq: "length q = length p" using q(2) k(1) by (simp add: page_ok_def)
  have nq: "NUMKEYS q = NUMKEYS p - 1" using arg_cong [OF q(3), of length] i(2) by simp
  have kq: "IS_LEAF q" "\<not> IS_LEAF2 q" "\<not> IS_BRANCH q" using k same_kind [OF q(4)] by simp_all
  let ?st1 = "st\<lparr>st_heap := (st_heap st)(h \<mapsto> q)\<rparr>"
  let ?st' = "count_entry ?st1 dbi (\<lambda>n. n - 1)"
  have node: "NODEPTR p i = Some (pt p i)" "mn_flags p (pt p i) = Some 0"
  proof -
    show "NODEPTR p i = Some (pt p i)" by (rule page_node(1) [OF k(1) i(2)])
    have "page_nodes p ! i \<in> set (page_nodes p)" using i(2) by simp
    then have "rd p (pt p i + 4) 2 = 0" using plain node_flags_of [OF k(1,2) i(2)] by (simp add: plain_leaf_def)
    then show "mn_flags p (pt p i) = Some 0" using page_node(5) [OF k(1) i(2)] by (simp add: mn_flags_def)
  qed
  have top: "top_page st mc = Some p" using ptr hp by (simp add: top_page_def page_of_def)
  have mdb: "mc_db st mc = Some (mt_dbs (st_txn st) ! dbi)" using d own(1) by (simp add: mc_db_def)
  have ndel: "cursor_node_del st mc (unat (md_pad (mt_dbs (st_txn st) ! dbi))) = Some ?st1"
    using ptr hp len i st(3) q(1) lq by (simp add: cursor_node_del_def)
  have cnt: "upd_mc_db ?st1 mc (\<lambda>d. d\<lparr>md_entries := md_entries d - 1\<rparr>) = Some (?st', mc)"
    using upd_mc_db_entries [OF own(1) d(1), of ?st1 "\<lambda>n. n - 1"] d(2) by (simp add: count_entry_def)
  have hq: "page_at ?st' (Heap_page h) = Some q" "top_page ?st' mc = Some q" "st_cursors ?st' = st_cursors st" "st_env ?st' = st_env st"
    using ptr by (simp_all add: count_entry_def top_page_def page_of_def)
  have upd: "upd_cursors ?st' (mc_dbi mc) f = Some ?st'" for f
    using map_cursors_none [OF cur, of f] d(1) by (simp add: upd_cursors_def count_entry_def)
  have ps: "length p = psize" using k(1) by (simp add: page_ok_def)
  have n: "0 < NUMKEYS q" "FILL_THRESHOLD \<le> PAGEFILL (me_psize (st_env ?st')) q"
    using nq lose unfolding can_lose_def PAGEFILL_def q(5) hq(4) by (simp_all add: add.assoc)
  have reb: "mdb_rebalance ?st' (mc, None) (Some 0) = Some (0, ?st', (mc, None))"
    by (rule rebalance_filled [OF _ kq(1,3) n]) (use hq(2) in simp)
  have run: "mdb_cursor_del st (mc, None) (Some 0) MDB_NODUPDATA = Some (0, ?st', ((fst m)\<lparr>mc_flags := mc_flags (fst m) OR C_DEL\<rparr>, snd m))"
    if f: "del_forward ?st' mc (Heap_page h) (NUMKEYS q) False C_INITIALIZED (mc, None) = Some (0, ?st', m)"
      and dm: "mc_dbi (fst m) = dbi" for m
  proof -
    have cur': "no_cursors (st_cursors st) (mc_dbi (fst m))" using cur dm by simp
    have fw: "del_forward_list ?st' (mc, None) (Some 0) (Heap_page h) (NUMKEYS q) False = Some (0, ?st', m)"
      using f by (simp add: del_forward_list_def count_entry_def del_forward_none [OF cur'])
    have del0: "mdb_cursor_del0 st (mc, None) (Some 0) = Some (0, ?st', ((fst m)\<lparr>mc_flags := mc_flags (fst m) OR C_DEL\<rparr>, snd m))"
      using len i st(2,3) ptr mdb ndel cnt hq upd reb fw d(3)
      by (simp add: mdb_cursor_del0_def MDB_SUCCESS_def stack_ok_def)
    show ?thesis
      using txn own(3) top len i st(3) spill touch k(3) ptr hp node del0
      by (simp add: mdb_cursor_del_def cursor_del_body_def del_node_def del_overflow_def MDB_NOSPILL_def MDB_NODUPDATA_def has_def
          F_SUBDATA_def F_ISSET_def F_DUPDATA_def F_BIGDATA_def not_le)
  qed
  show ?thesis by (intro exI [of _ q] conjI allI impI) (use q run in simp_all)
qed

section \<open>The cursor moves on\<close>

lemma del_forward_ok:
  assumes tree: "tree_ok (see st ro) psize c valid rank d root None None" and path: "on_path st ro 0 d root ks mc"
    and st: "stack_ok mc" "mc_top mc = d" and ro: "ro_flags mc = ro" and init: "has_init mc"
    and pg: "mc_pg mc ! d = Some mp"
  shows "\<exists>m. del_forward st mc mp n False C_INITIALIZED (mc, None) = Some (0, st, m) \<and> mc_dbi (fst m) = mc_dbi mc"
proof -
  have g: "aget (mc_pg mc) d = Some (Some mp)" "aget (mc_ki mc) d = Some (mc_ki mc ! d)"
    using st pg by (auto simp: stack_ok_def)
  have i: "has (C_INITIALIZED AND mc_flags mc) C_INITIALIZED"
    using init by (simp add: has_init_def has_def and.commute and.left_commute)
  show ?thesis
  proof (cases "n \<le> mc_ki mc ! d")
    case False
    then show ?thesis using g i st(2) by (simp add: del_forward_def not_le)
  next
    case True
    from sibling_right [OF tree path st le_refl ro] show ?thesis
    proof (elim disjE exE conjE)
      assume "mdb_cursor_sibling st mc True = Some (MDB_NOTFOUND, st, mc)"
      then show ?thesis using True g i st(2) by (simp add: del_forward_def)
    next
      fix mc' ks' assume "mdb_cursor_sibling st mc True = Some (0, st, mc')" "mc_dbi mc' = mc_dbi mc"
      then show ?thesis using True g i st(2) by (simp add: del_forward_def MDB_NOTFOUND_def)
    qed
  qed
qed

section \<open>\<open>mdb_del\<close>\<close>

lemma F_ISSET_DUPSORT: "F_ISSET f MDB_DUPSORT = has f MDB_DUPSORT"
proof -
  have d: "MDB_DUPSORT = push_bit 2 1" by (simp add: MDB_DUPSORT_def)
  have "f AND MDB_DUPSORT = (if bit f 2 then MDB_DUPSORT else 0)"
    unfolding d by (rule bit_word_eqI) (auto simp: bit_push_bit_iff bit_and_iff bit_1_iff simp del: push_bit_of_1)
  then show ?thesis by (simp add: F_ISSET_def has_def MDB_DUPSORT_def)
qed

lemma hit_iff:
  fixes rank :: "bytes \<Rightarrow> 'k::linorder"
  assumes land: "landed st dbi psize c valid rank d root key ks h p mc i"
  shows "(\<exists>x \<in> set (items (see st (ro_flags (new_cursor st dbi))) d root). rank (fst x) = rank key) \<longleftrightarrow>
    i < NUMKEYS p \<and> rank (key_at p i) = rank key"
proof -
  let ?pg = "see st (ro_flags (new_cursor st dbi))"
  note L = land [unfolded landed_def Let_def]
  obtain lo hi where l: "leaf_ok ?pg psize c valid rank p lo hi" using L by blast
  have its: "items ?pg d root = before ?pg d root ks @ leaf_items ?pg p @ after ?pg d root ks" using L by simp
  have a: "x \<in> set (drop i (leaf_items ?pg p))" if "x \<in> set (items ?pg d root)" "rank (fst x) = rank key" for x
  proof -
    have "x \<notin> set (before ?pg d root ks)" "x \<notin> set (after ?pg d root ks)" "x \<notin> set (take i (leaf_items ?pg p))"
      using L that(2) by force+
    then have "x \<in> set (leaf_items ?pg p)" using that(1) its by simp
    then have "x \<in> set (take i (leaf_items ?pg p) @ drop i (leaf_items ?pg p))" by simp
    then show ?thesis using \<open>x \<notin> set (take i (leaf_items ?pg p))\<close> by (simp del: append_take_drop_id)
  qed
  show ?thesis
  proof
    assume "\<exists>x \<in> set (items ?pg d root). rank (fst x) = rank key"
    then obtain x where x: "x \<in> set (drop i (leaf_items ?pg p))" "rank (fst x) = rank key" using a by blast
    then have i: "i < NUMKEYS p" using length_leaf_items [of ?pg p] by (cases "i < NUMKEYS p") auto
    from x(1) obtain j where "j < NUMKEYS p - i" "x = leaf_items ?pg p ! (i + j)"
      using i by (auto simp: in_set_conv_nth)
    then have j: "i + j < NUMKEYS p" "x = leaf_items ?pg p ! (i + j)" by simp_all
    have "rank key \<le> rank (key_at p i)"
    proof -
      have "leaf_items ?pg p ! i \<in> set (drop i (leaf_items ?pg p))" using i by (metis Cons_nth_drop_Suc length_leaf_items list.set_intros(1))
      then show ?thesis using L i by (fastforce simp: nth_leaf_items)
    qed
    moreover have "rank (key_at p i) \<le> rank (key_at p (i + j))"
      using l j(1) by (cases "j = 0") (auto simp: leaf_ok_def keys_sorted_def less_imp_le)
    ultimately show "i < NUMKEYS p \<and> rank (key_at p i) = rank key" using i j x(2) by (simp add: nth_leaf_items)
  next
    assume h: "i < NUMKEYS p \<and> rank (key_at p i) = rank key"
    then have "(key_at p i, the (value_at ?pg p i)) \<in> set (leaf_items ?pg p)" by (auto simp: leaf_items_set)
    then show "\<exists>x \<in> set (items ?pg d root). rank (fst x) = rank key"
      using h its by (intro bexI [of _ "(key_at p i, the (value_at ?pg p i))"]) simp_all
  qed
qed


section \<open>Instances\<close>


end
