(* ===== verification/Commit_Correct.thy ===== *)
theory Commit_Correct
  imports Commit Txn_Correct
begin

text \<open>
  What committing does: the dirty pages of a nested transaction become dirty pages of its parent, and a transaction that
  cannot be committed leaves the file alone.
\<close>

section \<open>Merging the dirty lists\<close>

text \<open>
  The merge of two descending lists of pages; of two entries for the same page the second list's is taken.
\<close>

fun desc_merge :: "(u64 \<times> 'p) list \<Rightarrow> (u64 \<times> 'p) list \<Rightarrow> (u64 \<times> 'p) list" where
  "desc_merge ds [] = ds"
| "desc_merge ds (s # ss) =
     takeWhile (\<lambda>e. fst s < fst e) ds @ s # desc_merge (dropWhile (\<lambda>e. fst s \<le> fst e) ds) ss"

lemma desc_merge_Nil [simp]: "desc_merge [] ss = ss"
  by (induction ss) simp_all

abbreviation desc :: "(u64 \<times> 'p) list \<Rightarrow> bool" where
  "desc xs \<equiv> sorted_wrt (>) (map fst xs)"

lemma desc_dropWhile: "desc ds \<Longrightarrow> desc (dropWhile P ds)"
  by (induction ds) auto

lemma set_dropWhile_le: "desc ds \<Longrightarrow> set (dropWhile (\<lambda>e. v \<le> fst e) ds) = {e \<in> set ds. fst e < v}"
  by (induction ds) (auto simp: not_le)

lemma set_takeWhile_gt: "desc ds \<Longrightarrow> set (takeWhile (\<lambda>e. v < fst e) ds) = {e \<in> set ds. v < fst e}"
  by (induction ds) auto

lemma desc_merge_set:
  "desc ds \<Longrightarrow> desc ss \<Longrightarrow> set (desc_merge ds ss) = {e \<in> set ds. fst e \<notin> fst ` set ss} \<union> set ss"
proof (induction ss arbitrary: ds)
  case (Cons s ss)
  have "set (desc_merge (dropWhile (\<lambda>e. fst s \<le> fst e) ds) ss) =
      {e \<in> {e \<in> set ds. fst e < fst s}. fst e \<notin> fst ` set ss} \<union> set ss"
    using Cons.IH [OF desc_dropWhile [OF Cons.prems(1)]] Cons.prems by (simp add: set_dropWhile_le)
  then show ?case using Cons.prems by (auto simp: set_takeWhile_gt)
qed simp

lemma desc_merge_desc: "desc ds \<Longrightarrow> desc ss \<Longrightarrow> desc (desc_merge ds ss)"
proof (induction ss arbitrary: ds)
  case (Cons s ss)
  let ?t = "takeWhile (\<lambda>e. fst s < fst e) ds" and ?m = "desc_merge (dropWhile (\<lambda>e. fst s \<le> fst e) ds) ss"
  have d: "desc (dropWhile (\<lambda>e. fst s \<le> fst e) ds)" by (rule desc_dropWhile [OF Cons.prems(1)])
  have "desc ?t"
    using Cons.prems(1) by (metis (no_types, lifting) map_append sorted_wrt_append takeWhile_dropWhile_id)
  moreover have "desc ?m" using Cons.IH [OF d] Cons.prems(2) by simp
  moreover have "\<forall>e \<in> set ?t. fst s < fst e" using Cons.prems(1) by (simp add: set_takeWhile_gt)
  moreover have "\<forall>e \<in> set ?m. fst e < fst s"
    using desc_merge_set [OF d] Cons.prems by (auto simp: set_dropWhile_le)
  ultimately show ?case by (fastforce simp: sorted_wrt_append)
qed simp

text \<open>The code works on the ascending lists from their ends.\<close>

definition asc_merge :: "(u64 \<times> 'p) list \<Rightarrow> (u64 \<times> 'p) list \<Rightarrow> (u64 \<times> 'p) list" where
  "asc_merge ds ss = rev (desc_merge (rev ds) (rev ss))"

abbreviation asc :: "(u64 \<times> 'p) list \<Rightarrow> bool" where
  "asc xs \<equiv> sorted_wrt (<) (map fst xs)"

lemma desc_rev: "desc (rev xs) \<longleftrightarrow> asc xs"
  by (simp add: sorted_wrt_rev flip: rev_map)

lemma asc_map_of: "asc xs \<Longrightarrow> map_of xs k = Some v \<longleftrightarrow> (k, v) \<in> set xs"
  by (rule map_of_eq_Some_iff) (simp add: strict_sorted_iff)

lemma asc_merge_ok:
  assumes "asc ds" "asc ss"
  shows "asc (asc_merge ds ss)" "map_of (asc_merge ds ss) = map_of ds ++ map_of ss"
proof -
  show asc: "asc (asc_merge ds ss)" using desc_merge_desc [of "rev ds" "rev ss"] assms by (simp add: asc_merge_def flip: desc_rev)
  have set: "set (asc_merge ds ss) = {e \<in> set ds. fst e \<notin> fst ` set ss} \<union> set ss"
    using desc_merge_set [of "rev ds" "rev ss"] assms by (simp add: asc_merge_def desc_rev)
  have "(map_of (asc_merge ds ss) k = Some v) = ((map_of ds ++ map_of ss) k = Some v)" for k v
  proof (cases "map_of ss k")
    case None
    then have "k \<notin> fst ` set ss" by (simp add: map_of_eq_None_iff)
    then show ?thesis using None asc_map_of [OF asc] asc_map_of [OF assms(1)] by (force simp: set map_add_def)
  next
    case (Some w)
    then have "(k, w) \<in> set ss" by (rule map_of_SomeD)
    then show ?thesis using Some asc_map_of [OF asc] asc_map_of [OF assms(2), of k v] by (force simp: set map_add_def)
  qed
  then show "map_of (asc_merge ds ss) = map_of ds ++ map_of ss" by (metis ext option.exhaust)
qed

lemma merge_down_ok:
  assumes "fst h = 0"
  shows "\<exists>B'. length B' = length B \<and> merge_down (h # A @ B @ C) yp (length A + length B) (length A) =
    Some (h # rev (dropWhile (\<lambda>e. yp < fst e) (rev A)) @ B' @ rev (takeWhile (\<lambda>e. yp < fst e) (rev A)) @ C,
      length (dropWhile (\<lambda>e. yp < fst e) (rev A)) + length B, length (dropWhile (\<lambda>e. yp < fst e) (rev A)))"
proof (induction A arbitrary: B C rule: rev_induct)
  case Nil
  then show ?case using assms by auto
next
  case (snoc a A)
  have e: "aget (h # (A @ [a]) @ B @ C) (Suc (length A)) = Some a" by (simp add: nth_append)
  show ?case
  proof (cases "yp < fst a")
    case True
    have s: "aset (h # (A @ [a]) @ B @ C) (length (A @ [a]) + length B) a = Some (h # A @ butlast (a # B) @ a # C)"
      by (cases B rule: rev_exhaust) (simp_all add: list_update_append)
    obtain B' where B': "length B' = length (butlast (a # B))" "merge_down (h # A @ butlast (a # B) @ a # C) yp (length A + length (butlast (a # B))) (length A) =
       Some (h # rev (dropWhile (\<lambda>e. yp < fst e) (rev A)) @ B' @ rev (takeWhile (\<lambda>e. yp < fst e) (rev A)) @ a # C,
         length (dropWhile (\<lambda>e. yp < fst e) (rev A)) + length (butlast (a # B)), length (dropWhile (\<lambda>e. yp < fst e) (rev A)))"
      using snoc.IH by blast
    then show ?thesis using True e s by (auto intro!: exI [of _ B'])
  next
    case False
    then show ?thesis using e by (auto intro!: exI [of _ B])
  qed
qed


lemma takeWhile_dropWhile_length:
  assumes "desc ds"
  shows "length ds \<le> length (takeWhile (\<lambda>e. v < fst e) ds) + 1 + length (dropWhile (\<lambda>e. v \<le> fst e) ds)"
  using assms
proof (induction ds)
  case (Cons a ds)
  have "dropWhile (\<lambda>e. v \<le> fst e) ds = ds" if "fst a = v" using Cons.prems that by (cases ds) auto
  then show ?case using Cons by (cases "fst a" v rule: linorder_cases) auto
qed simp

lemma desc_merge_length: "desc ds \<Longrightarrow> length ds \<le> length (desc_merge ds ss)"
proof (induction ss arbitrary: ds)
  case (Cons s ss)
  show ?case using takeWhile_dropWhile_length [OF Cons.prems, of "fst s"] Cons.IH [OF desc_dropWhile [OF Cons.prems], of "\<lambda>e. fst s \<le> fst e"] by simp
qed simp

text \<open>The last entry that is not above \<open>s\<close> is the one for the same page, or none is.\<close>

lemma dropWhile_same:
  assumes "desc ds"
  obtains "dropWhile (\<lambda>e. v < fst e) ds = dropWhile (\<lambda>e. v \<le> fst e) ds" "\<forall>e \<in> set ds. fst e \<noteq> v"
  | e where "dropWhile (\<lambda>e. v < fst e) ds = e # dropWhile (\<lambda>e. v \<le> fst e) ds" "fst e = v" "e \<in> set ds"
proof -
  have "dropWhile (\<lambda>e. v < fst e) ds = dropWhile (\<lambda>e. v \<le> fst e) ds \<and> (\<forall>e \<in> set ds. fst e \<noteq> v) \<or>
    (\<exists>e. dropWhile (\<lambda>e. v < fst e) ds = e # dropWhile (\<lambda>e. v \<le> fst e) ds \<and> fst e = v \<and> e \<in> set ds)"
    using assms
  proof (induction ds)
    case (Cons a ds)
    have "dropWhile (\<lambda>e. v \<le> fst e) ds = ds" if "fst a = v" using Cons.prems that by (cases ds) auto
    then show ?case using Cons by (cases "fst a" v rule: linorder_cases) auto
  qed simp
  then show thesis using that by blast
qed

lemma asc_merge_snoc:
  "asc_merge A (S @ [s]) = asc_merge (rev (dropWhile (\<lambda>e. fst s \<le> fst e) (rev A))) S @ s # rev (takeWhile (\<lambda>e. fst s < fst e) (rev A))"
  by (simp add: asc_merge_def)

text \<open>What the merge frees: the blocks of \<open>ds\<close> that an entry of \<open>ss\<close> replaces.\<close>

definition replaced :: "(u64 \<times> page_ptr) list \<Rightarrow> (u64 \<times> page_ptr) list \<Rightarrow> page_ptr set" where
  "replaced ds ss = snd ` {e \<in> set ds. fst e \<in> fst ` set ss}"

definition without :: "page_ptr set \<Rightarrow> (nat \<Rightarrow> bytes option) \<Rightarrow> nat \<Rightarrow> bytes option" where
  "without ps hp = (\<lambda>g. if Heap_page g \<in> ps then None else hp g)"

lemma replaced_snoc:
  assumes "asc A" "asc (S @ [s])"
  shows "replaced A (S @ [s]) = replaced (rev (dropWhile (\<lambda>e. fst s \<le> fst e) (rev A))) S \<union> snd ` {e \<in> set A. fst e = fst s}"
  using assms by (auto simp: replaced_def set_dropWhile_le desc_rev sorted_wrt_append image_iff) force+

lemma aset_gap: "G \<noteq> [] \<Longrightarrow> aset (h # A @ G @ C) (length A + length G) s = Some (h # A @ butlast G @ s # C)"
  by (cases G rule: rev_exhaust) (simp_all add: list_update_append)

lemma merge_dirty_step:
  assumes "aget src (Suc y) = Some s" "merge_down dst (fst s) i x = Some (d1, i1, x1)" "aget d1 x1 = Some e"
    "aset d1 i1 s = Some d2" "i1 \<noteq> 0"
  shows "fst s \<noteq> fst e \<Longrightarrow> merge_dirty st dst src i x (Suc y) = merge_dirty st d2 src (i1 - 1) x1 y"
    "fst s = fst e \<Longrightarrow> snd e = Heap_page g \<Longrightarrow> x1 \<noteq> 0 \<Longrightarrow>
      merge_dirty st dst src i x (Suc y) = merge_dirty (st\<lparr>st_heap := (st_heap st)(g := None)\<rparr>) d2 src (i1 - 1) (x1 - 1) y"
  using assms by (simp_all add: free_block_def)

lemma merge_dirty_ok:
  fixes st :: "'a st_scheme"
  assumes "fst h = 0" "asc A" "asc S" "0 \<notin> fst ` set S" "replaced A S \<subseteq> range Heap_page"
    "length A + length B = length (asc_merge A S)"
  shows "\<exists>n. merge_dirty st (h # A @ B @ C) (q # S @ R) (length A + length B) (length A) (length S) =
    Some (st\<lparr>st_heap := without (replaced A S) (st_heap st)\<rparr>, h # asc_merge A S @ C, n, n)"
  using assms
proof (induction S arbitrary: A B C R st rule: rev_induct)
  case Nil
  then show ?case by (auto simp: asc_merge_def replaced_def without_def)
next
  case (snoc s S)
  let ?A1 = "rev (dropWhile (\<lambda>e. fst s < fst e) (rev A))" and ?A2 = "rev (takeWhile (\<lambda>e. fst s < fst e) (rev A))"
  let ?A0 = "rev (dropWhile (\<lambda>e. fst s \<le> fst e) (rev A))"
  note P = snoc.prems
  have s: "aget (q # (S @ [s]) @ R) (Suc (length S)) = Some s" by (simp add: nth_append)
  have n: "length (S @ [s]) = Suc (length S)" by simp
  obtain B' where B': "length B' = length B" "merge_down (h # A @ B @ C) (fst s) (length A + length B) (length A) =
      Some (h # ?A1 @ B' @ ?A2 @ C, length ?A1 + length B, length ?A1)"
    using merge_down_ok [OF P(1), of B A C "fst s"] by auto
  have d: "desc (rev A)" using P(2) by (simp add: desc_rev)
  have "length (takeWhile (\<lambda>e. fst s < fst e) (rev A) @ dropWhile (\<lambda>e. fst s < fst e) (rev A)) = length A" by simp
  then have len: "length A = length ?A1 + length ?A2" unfolding length_append length_rev by linarith
  have d0: "desc (dropWhile (\<lambda>e. fst s \<le> fst e) (rev A))" by (rule desc_dropWhile [OF d])
  have A0: "asc ?A0" "length ?A0 \<le> length (asc_merge ?A0 S)"
    using d0 desc_merge_length [OF d0] by (simp_all add: asc_merge_def flip: desc_rev)
  have rp: "replaced A (S @ [s]) = replaced ?A0 S \<union> snd ` {e \<in> set A. fst e = fst s}" by (rule replaced_snoc [OF P(2,3)])
  have fin: "\<exists>n. merge_dirty st' (h # ?A0 @ butlast G @ s # ?A2 @ C) (q # S @ s # R) (length ?A0 + (length G - 1)) (length ?A0) (length S) =
      Some (st'\<lparr>st_heap := without (replaced ?A0 S) (st_heap st')\<rparr>, h # asc_merge A (S @ [s]) @ C, n, n)"
    if G: "G \<noteq> []" "length ?A0 + length G = length ?A1 + length B" for G and st' :: "'a st_scheme"
  proof -
    have "length ?A0 + length (butlast G) = length (asc_merge ?A0 S)"
      using P(6) len G by (cases G rule: rev_exhaust) (simp_all add: asc_merge_snoc)
    moreover have "asc S" "0 \<notin> fst ` set S" "replaced ?A0 S \<subseteq> range Heap_page" using P(3,4,5) rp by (auto simp: sorted_wrt_append)
    ultimately show ?thesis
      using snoc.IH [OF P(1) A0(1), of "butlast G" st' "s # ?A2 @ C" "s # R"] by (simp add: asc_merge_snoc)
  qed
  show ?case
  proof (cases rule: dropWhile_same [OF d, of "fst s"])
    case 1
    have A1: "?A1 = ?A0" using 1(1) by simp
    have B: "B' \<noteq> []" using A0(2) P(6) len B'(1) A1 by (auto simp: asc_merge_snoc)
    have e: "\<exists>e. aget (h # ?A1 @ B' @ ?A2 @ C) (length ?A1) = Some e \<and> fst s \<noteq> fst e"
    proof (cases "?A1 = []")
      case True
      have "fst s \<noteq> fst h" using P(1,4) by auto
      then show ?thesis unfolding True by simp
    next
      case False
      then have "last ?A1 \<in> set A" by (metis last_in_set set_dropWhileD set_rev)
      moreover have "aget (h # ?A1 @ B' @ ?A2 @ C) (length ?A1) = Some (last ?A1)"
        using False by (cases ?A1 rule: rev_exhaust) (simp_all add: nth_append del: rev_is_Nil_conv)
      ultimately show ?thesis using 1(2) by force
    qed
    then obtain e where e: "aget (h # ?A1 @ B' @ ?A2 @ C) (length ?A1) = Some e" "fst s \<noteq> fst e" by blast
    have w: "aset (h # ?A1 @ B' @ ?A2 @ C) (length ?A1 + length B') s = Some (h # ?A1 @ butlast B' @ s # ?A2 @ C)"
      by (rule aset_gap [OF B])
    have none: "{e \<in> set A. fst e = fst s} = {}" using 1(2) by auto
    have "replaced A (S @ [s]) = replaced ?A0 S" unfolding rp none by simp
    have i: "length ?A1 + length B = length ?A1 + length B'" "length ?A0 + (length B' - 1) = length ?A1 + length B' - 1"
      using B'(1) B A1 by (cases B'; simp)+
    have step: "merge_dirty st (h # A @ B @ C) (q # (S @ [s]) @ R) (length A + length B) (length A) (length (S @ [s])) =
        merge_dirty st (h # ?A1 @ butlast B' @ s # ?A2 @ C) (q # (S @ [s]) @ R) (length ?A1 + length B' - 1) (length ?A1) (length S)"
      unfolding n by (rule merge_dirty_step(1) [OF s B'(2) [unfolded i(1)] e(1) w _ e(2)]) (use B in simp)
    have G: "length ?A0 + length B' = length ?A1 + length B" using A1 B'(1) by simp
    obtain n where "merge_dirty st (h # ?A0 @ butlast B' @ s # ?A2 @ C) (q # S @ s # R) (length ?A0 + (length B' - 1)) (length ?A0) (length S) =
        Some (st\<lparr>st_heap := without (replaced ?A0 S) (st_heap st)\<rparr>, h # asc_merge A (S @ [s]) @ C, n, n)"
      using fin [OF B G, of st] by blast
    then show ?thesis unfolding step \<open>replaced A (S @ [s]) = replaced ?A0 S\<close> unfolding A1 i(2) [unfolded A1, symmetric] by simp
  next
    case (2 e)
    have A1: "?A1 = ?A0 @ [e]" using 2(1) by simp
    have "snd e \<in> replaced A (S @ [s])" using rp 2(2,3) by auto
    then obtain g where g: "snd e = Heap_page g" using P(5) by auto
    have ex: "{x \<in> set A. fst x = fst s} = {e}"
    proof -
      have "x = e" if "x \<in> set A" "fst x = fst s" for x
      proof -
        have "(fst s, snd x) \<in> set A" "(fst s, snd e) \<in> set A"
          using that 2(2,3) by (metis prod.collapse, metis prod.collapse set_rev)
        then have "snd x = snd e" using asc_map_of [OF P(2)] by (metis option.inject)
        then show ?thesis using that(2) 2(2) by (simp add: prod_eq_iff)
      qed
      moreover have "e \<in> set A" using 2(3) by simp
      ultimately show ?thesis using 2(2) by blast
    qed
    have a: "aget (h # ?A1 @ B' @ ?A2 @ C) (length ?A1) = Some e" using A1 by (simp add: nth_append)
    have w: "aset (h # ?A1 @ B' @ ?A2 @ C) (length ?A1 + length B') s = Some (h # ?A0 @ butlast (e # B') @ s # ?A2 @ C)"
      using aset_gap [of "e # B'" h ?A0 "?A2 @ C" s] A1 by simp
    have hp: "without (replaced ?A0 S) ((st_heap st)(g := None)) = without (replaced A (S @ [s])) (st_heap st)"
      unfolding rp ex using g by (auto simp: without_def)
    have i: "length ?A1 + length B = length ?A1 + length B'" using B'(1) by simp
    have step: "merge_dirty st (h # A @ B @ C) (q # (S @ [s]) @ R) (length A + length B) (length A) (length (S @ [s])) =
        merge_dirty (st\<lparr>st_heap := (st_heap st)(g := None)\<rparr>) (h # ?A0 @ butlast (e # B') @ s # ?A2 @ C) (q # (S @ [s]) @ R)
          (length ?A1 + length B' - 1) (length ?A1 - 1) (length S)"
      unfolding n by (rule merge_dirty_step(2) [OF s B'(2) [unfolded i] a w _ 2(2) [symmetric] g]) (use A1 in simp_all)
    have l: "length ?A1 + length B' - 1 = length ?A0 + (length (e # B') - 1)" "length ?A1 - 1 = length ?A0" using A1 by simp_all
    have G: "e # B' \<noteq> []" "length ?A0 + length (e # B') = length ?A1 + length B" using A1 B'(1) by simp_all
    define st1 where "st1 = st\<lparr>st_heap := (st_heap st)(g := None)\<rparr>"
    have hp1: "st1\<lparr>st_heap := without (replaced ?A0 S) (st_heap st1)\<rparr> = st\<lparr>st_heap := without (replaced A (S @ [s])) (st_heap st)\<rparr>"
      unfolding hp [symmetric] st1_def by simp
    show ?thesis unfolding step l st1_def [symmetric] using fin [OF G, of st1] unfolding hp1 by simp
  qed
qed


text \<open>The length of the merged list, as it is computed for a transaction with a grandparent.\<close>

lemma dirty_down_ok:
  "fst h = 0 \<Longrightarrow> dirty_down (h # A @ B) yp (length A) = Some (length (dropWhile (\<lambda>e. yp < fst e) (rev A)))"
proof (induction A arbitrary: B rule: rev_induct)
  case (snoc a A)
  then show ?case using snoc.IH [of "a # B"] by (auto simp: nth_append)
qed simp

lemma merged_len_step:
  assumes "i \<noteq> 0" "aget src (Suc y) = Some s" "dirty_down dst (fst s) i = Some j" "aget dst j = Some e"
  shows "fst s \<noteq> fst e \<Longrightarrow> merged_len dst src n i (Suc y) = merged_len dst src n j y"
    "fst s = fst e \<Longrightarrow> j \<noteq> 0 \<Longrightarrow> merged_len dst src n i (Suc y) = merged_len dst src (n - 1) (j - 1) y"
  using assms by simp_all

lemma merged_len_ok:
  assumes "fst h = 0" "asc A" "asc S" "0 \<notin> fst ` set S"
  shows "merged_len (h # A @ B) (q # S @ R) (length A + length S + c) (length A) (length S) = Some (length (asc_merge A S) + c)"
  using assms
proof (induction S arbitrary: A B R c rule: rev_induct)
  case Nil
  then show ?case by (simp add: asc_merge_def)
next
  case (snoc s S)
  let ?A1 = "rev (dropWhile (\<lambda>e. fst s < fst e) (rev A))" and ?A2 = "rev (takeWhile (\<lambda>e. fst s < fst e) (rev A))"
  let ?A0 = "rev (dropWhile (\<lambda>e. fst s \<le> fst e) (rev A))"
  note P = snoc.prems
  have s: "aget (q # (S @ [s]) @ R) (Suc (length S)) = Some s" by (simp add: nth_append)
  have A: "A = ?A1 @ ?A2" by (metis rev_append rev_rev_ident takeWhile_dropWhile_id)
  have len: "length A = length ?A1 + length ?A2" using arg_cong [OF A, of length] unfolding length_append .
  have d: "desc (rev A)" using P(2) by (simp add: desc_rev)
  have A0: "asc ?A0" using desc_dropWhile [OF d, of "\<lambda>e. fst s \<le> fst e"] by (simp flip: desc_rev)
  have S: "asc S" "0 \<notin> fst ` set S" using P(3,4) by (auto simp: sorted_wrt_append)
  have down: "dirty_down (h # A @ B) (fst s) (length A) = Some (length ?A1)" using dirty_down_ok [OF P(1)] by simp
  have n: "length (S @ [s]) = Suc (length S)" by simp
  note IH = snoc.IH [OF P(1) A0 S]
  show ?case
  proof (cases "A = []")
    case True
    then show ?thesis by (simp add: asc_merge_def)
  next
    case nonempty: False
    show ?thesis
    proof (cases rule: dropWhile_same [OF d, of "fst s"])
      case 1
      have A1: "?A1 = ?A0" using 1(1) by simp
      obtain e where e: "aget (h # A @ B) (length ?A1) = Some e" "fst s \<noteq> fst e"
      proof (cases "?A1 = []")
        case True
        have "fst s \<noteq> fst h" using P(1,4) by auto
        then show ?thesis using that unfolding True by simp
      next
        case False
        then have "last ?A1 \<in> set A" by (metis last_in_set set_dropWhileD set_rev)
        moreover have "aget (h # (?A1 @ ?A2) @ B) (length ?A1) = Some (last ?A1)"
          using False by (cases ?A1 rule: rev_exhaust) (simp_all add: nth_append del: rev_is_Nil_conv)
        ultimately show ?thesis using 1(2) that [of "last ?A1"] unfolding A [symmetric] by force
      qed
      have m: "h # ?A0 @ ?A2 @ B = h # A @ B" using A unfolding A1 by (metis append_assoc)
      have "length ?A0 + length S + (length ?A2 + 1 + c) = length A + length (S @ [s]) + c" using len unfolding A1 by simp
      note l0 = this
      have "merged_len (h # A @ B) (q # (S @ [s]) @ R) (length A + length (S @ [s]) + c) (length ?A0) (length S) =
          Some (length (asc_merge ?A0 S) + (length ?A2 + 1 + c))" using IH [of "?A2 @ B" "s # R" "length ?A2 + 1 + c"] unfolding m l0 by simp
      moreover have "merged_len (h # A @ B) (q # (S @ [s]) @ R) (length A + length (S @ [s]) + c) (length A) (length (S @ [s])) =
          merged_len (h # A @ B) (q # (S @ [s]) @ R) (length A + length (S @ [s]) + c) (length ?A0) (length S)"
        using merged_len_step(1) [OF _ s down e(1,2)] nonempty unfolding A1 n by simp
      ultimately show ?thesis by (simp add: asc_merge_snoc)
    next
      case (2 e)
      have A1: "?A1 = ?A0 @ [e]" using 2(1) by simp
      have "aget (h # (?A1 @ ?A2) @ B) (length ?A1) = Some e" unfolding A1 by (simp add: nth_append)
      then have e: "aget (h # A @ B) (length ?A1) = Some e" unfolding A [symmetric] .
      have m: "h # ?A0 @ (e # ?A2 @ B) = h # A @ B" using A unfolding A1 by (metis append_assoc append_Cons append_Nil)
      have l: "length ?A1 \<noteq> 0" "length ?A1 - 1 = length ?A0" unfolding A1 by simp_all
      have "length ?A0 + length S + (length ?A2 + 1 + c) = length A + length (S @ [s]) + c - 1" using len unfolding A1 by simp
      note l0 = this
      have "merged_len (h # A @ B) (q # (S @ [s]) @ R) (length A + length (S @ [s]) + c - 1) (length ?A0) (length S) =
          Some (length (asc_merge ?A0 S) + (length ?A2 + 1 + c))" using IH [of "e # ?A2 @ B" "s # R" "length ?A2 + 1 + c"] unfolding m l0 by simp
      moreover have "merged_len (h # A @ B) (q # (S @ [s]) @ R) (length A + length (S @ [s]) + c) (length A) (length (S @ [s])) =
          merged_len (h # A @ B) (q # (S @ [s]) @ R) (length A + length (S @ [s]) + c - 1) (length ?A0) (length S)"
        using merged_len_step(2) [OF _ s down e 2(2) [symmetric] l(1)] nonempty unfolding l n by simp
      ultimately show ?thesis by (simp add: asc_merge_snoc)
    qed
  qed
qed


lemma asc_merge_above:
  "\<forall>d \<in> set D. \<forall>s \<in> set T. fst d < fst s \<Longrightarrow> asc_merge D (S @ T) = asc_merge D S @ T"
proof (induction T rule: rev_induct)
  case (snoc s T)
  have "dropWhile (\<lambda>e. fst s \<le> fst e) (rev D) = rev D" "takeWhile (\<lambda>e. fst s < fst e) (rev D) = []"
    using snoc.prems by (cases "rev D"; force dest: arg_cong [of _ _ set])+
  then show ?case using snoc asc_merge_snoc [of D "S @ T" s] by simp
qed simp

lemma asc_merge_length: "asc D \<Longrightarrow> length D \<le> length (asc_merge D S)"
  using desc_merge_length [of "rev D" "rev S"] by (simp add: asc_merge_def desc_rev)

text \<open>An array as its head, its entries and the rest.\<close>

lemma id2l_split:
  assumes "id2l_ok ids"
  obtains h R where "ids = h # id2l_elems ids @ R" "ids ! 0 = h" "length (id2l_elems ids) = unat (fst h)"
    "length (id2l_elems ids) + length R = MDB_IDL_UM_MAX"
proof -
  note D = id2l_okD [OF assms]
  obtain x xs where ids: "ids = x # xs" using D(2) by (cases ids) auto
  have "xs = take (unat (fst x)) xs @ drop (unat (fst x)) xs" by simp
  then show thesis using that [of x "drop (unat (fst x)) xs"] D(4) assms ids by (simp add: id2l_elems_def seg_def id2l_ok_def)
qed

lemma id2l_new:
  assumes "length D \<le> MDB_IDL_UM_MAX" "length D + length R = MDB_IDL_UM_MAX"
  shows "id2l_ok ((of_nat (length D), p) # D @ R)" "id2l_elems ((of_nat (length D), p) # D @ R) = D"
proof -
  have "unat (of_nat (length D) :: u64) = length D" using assms(1) by (simp add: unat_of_nat)
  then show "id2l_ok ((of_nat (length D), p) # D @ R)" "id2l_elems ((of_nat (length D), p) # D @ R) = D"
    using assms by (simp_all add: id2l_ok_def id2l_elems_def seg_def)
qed


text \<open>The search for the last page of \<open>dst\<close> splits \<open>src\<close>.\<close>

lemma search_above:
  assumes "id2l_ok src" "id2l_asc src" "v \<noteq> - 1"
  shows "\<exists>S T. mdb_mid2l_search src (v + 1) = Some (Suc (length S)) \<and> id2l_elems src = S @ T \<and> (\<forall>s \<in> set T. v < fst s)"
proof -
  note D = id2l_okD [OF assms(1)]
  obtain z where z: "mdb_mid2l_search src (v + 1) = Some z" "1 \<le> z" "z \<le> Suc (unat (fst (src ! 0)))"
    "\<And>k. z \<le> k \<Longrightarrow> k \<le> unat (fst (src ! 0)) \<Longrightarrow> fst (src ! k) \<ge> v + 1"
    using mid2l_search_ok [OF assms(1,2)] by metis
  let ?S = "take (z - 1) (id2l_elems src)" and ?T = "drop (z - 1) (id2l_elems src)"
  have "v < fst s" if T: "s \<in> set ?T" for s
  proof -
    obtain k where k: "k < length (id2l_elems src) - (z - 1)" "s = id2l_elems src ! (z - 1 + k)"
      using T by (auto simp: in_set_conv_nth)
    then have "fst s \<ge> v + 1" using z(2) z(4) [of "z + k"] D(4) D(5) [of "z - 1 + k"] by simp
    then show ?thesis using assms(3) by (simp add: inc_less_eq_iff)
  qed
  moreover have "Suc (length ?S) = z" using z(2,3) D(4) by simp
  ultimately show ?thesis using z(1) by (intro exI [of _ ?S] exI [of _ ?T]) simp
qed

lemma merge_lists_ok:
  fixes st :: "'a st_scheme"
  assumes dst: "id2l_ok dst" "id2l_asc dst" "id2l_elems dst = D" and src: "id2l_ok src" "id2l_asc src" "id2l_elems src = S" "0 \<notin> fst ` set S"
    and blocks: "replaced D S \<subseteq> range Heap_page" and no_wrap: "\<forall>e \<in> set D. fst e \<noteq> - 1"
    and fits: "length (asc_merge D S) \<le> MDB_IDL_UM_MAX" and left: "\<not> gp \<Longrightarrow> MDB_IDL_UM_MAX - left = length (asc_merge D S)"
  shows "\<exists>dst'. merge_lists st gp left dst src = Some (st\<lparr>st_heap := without (replaced D S) (st_heap st)\<rparr>, dst') \<and>
    id2l_ok dst' \<and> id2l_elems dst' = asc_merge D S"
proof -
  obtain h G where dst': "dst = h # D @ G" "unat (fst h) = length D" "length D + length G = MDB_IDL_UM_MAX"
    using id2l_split [OF dst(1)] unfolding dst(3) by metis
  obtain q R where src': "src = q # S @ R" "unat (fst q) = length S" "length S + length R = MDB_IDL_UM_MAX"
    using id2l_split [OF src(1)] unfolding src(3) by metis
  have asc: "asc D" "asc S" using dst(2,3) src(2,3) by (simp_all add: id2l_asc_def)
  let ?h = "(0 :: u64, snd h)" and ?M = "asc_merge D S"
  let ?B = "take (length ?M - length D) G" and ?C = "drop (length ?M - length D) G"
  have h: "fst ?h = 0" by simp
  have len: "length D + length ?B = length ?M" using asc_merge_length [OF asc(1), of S] dst'(3) fits by simp
  obtain n where M: "merge_dirty st (?h # D @ G) src (length ?M) (length D) (length S) =
      Some (st\<lparr>st_heap := without (replaced D S) (st_heap st)\<rparr>, ?h # ?M @ ?C, n, n)"
    using merge_dirty_ok [OF h asc src(4) blocks len, of st ?C q R] unfolding len src'(1) by auto
  have n: "unat (fst h) mod 2 ^ 32 = length D" "unat (fst q) mod 2 ^ 32 = length S" using dst'(2,3) src'(2,3) by simp_all
  have L: "(if gp then do {
          e \<leftarrow> aget (?h # D @ G) (length D);
          y \<leftarrow> mdb_mid2l_search src (fst e + 1);
          merged_len (?h # D @ G) src (length D + length S) (length D) (y - 1) }
        else Some (MDB_IDL_UM_MAX - left)) = Some (length ?M)"
  proof (cases gp)
    case True
    obtain e where e: "aget (?h # D @ G) (length D) = Some e" "fst e \<noteq> - 1" "\<forall>d \<in> set D. fst d \<le> fst e"
    proof (cases D rule: rev_exhaust)
      case Nil
      then show ?thesis using that by simp
    next
      case (snoc xs x)
      have "aget (?h # D @ G) (length D) = Some x" unfolding snoc by (simp add: nth_append)
      moreover have "\<forall>d \<in> set D. fst d \<le> fst x" using asc(1) unfolding snoc by (force simp: sorted_wrt_append)
      moreover have "fst x \<noteq> - 1" using no_wrap snoc by simp
      ultimately show ?thesis using that by blast
    qed
    obtain X Y where s: "mdb_mid2l_search src (fst e + 1) = Some (Suc (length X))" "S = X @ Y" "\<forall>s \<in> set Y. fst e < fst s"
      using search_above [OF src(1,2) e(2)] src(3) by blast
    have above: "\<forall>d \<in> set D. \<forall>s \<in> set Y. fst d < fst s" using e(3) s(3) by (meson le_less_trans)
    have X: "asc X" "0 \<notin> fst ` set X" using asc(2) src(4) s(2) by (auto simp: sorted_wrt_append)
    have "merged_len (?h # D @ G) (q # X @ (Y @ R)) (length D + length X + length Y) (length D) (length X) = Some (length (asc_merge D X) + length Y)"
      by (rule merged_len_ok [OF h asc(1) X])
    moreover have "src = q # X @ (Y @ R)" "length D + length S = length D + length X + length Y" "length ?M = length (asc_merge D X) + length Y"
      using src'(1) s(2) asc_merge_above [OF above, of X] by simp_all
    ultimately have "merged_len (?h # D @ G) src (length D + length S) (length D) (length X) = Some (length ?M)" by (simp only:)
    then show ?thesis using True e(1) s(1) by simp
  next
    case False
    then show ?thesis using left by simp
  qed
  have C: "length ?M + length ?C = MDB_IDL_UM_MAX" using len dst'(3) by simp
  have a: "aget dst 0 = Some h" "aget src 0 = Some q" "aset dst 0 ?h = Some (?h # D @ G)" unfolding dst'(1) src'(1) by simp_all
  have "merge_lists st gp left dst src =
      Some (st\<lparr>st_heap := without (replaced D S) (st_heap st)\<rparr>, (of_nat (length ?M), snd ?h) # ?M @ ?C)"
    unfolding merge_lists_def Let_def a n Option.bind.bind_lunit option.case L M by simp
  then show ?thesis using id2l_new [OF fits C, of "snd ?h"] by blast
qed


lemma asc_merge_card:
  assumes "asc D" "asc S"
  shows "length (asc_merge D S) = card (fst ` set D \<union> fst ` set S)"
proof -
  have "distinct (map fst (asc_merge D S))" using asc_merge_ok(1) [OF assms] by (simp add: strict_sorted_iff)
  then have "length (asc_merge D S) = card (fst ` set (asc_merge D S))" by (metis distinct_card length_map set_map)
  moreover have "set (asc_merge D S) = {e \<in> set D. fst e \<notin> fst ` set S} \<union> set S"
    using desc_merge_set [of "rev D" "rev S"] assms by (simp add: asc_merge_def desc_rev)
  then have "fst ` set (asc_merge D S) = fst ` set D \<union> fst ` set S" by auto
  ultimately show ?thesis by simp
qed

section \<open>Nested transactions\<close>

lemma merge_dbflags_ok:
  "i + k \<le> length cf \<Longrightarrow> i + k \<le> length pf \<Longrightarrow> \<exists>pf'. merge_dbflags cf pf i k = Some pf' \<and> length pf' = length pf \<and>
    (\<forall>j < length pf. pf' ! j = (if i \<le> j \<and> j < i + k then cf ! j OR (pf ! j AND DB_NEW) else pf ! j))"
proof (induction k arbitrary: i pf)
  case (Suc k)
  obtain pf' where "merge_dbflags cf (pf[i := cf ! i OR (pf ! i AND DB_NEW)]) (Suc i) k = Some pf'" "length pf' = length pf"
    "\<forall>j < length pf. pf' ! j = (if Suc i \<le> j \<and> j < Suc i + k then cf ! j OR (pf[i := cf ! i OR (pf ! i AND DB_NEW)] ! j AND DB_NEW)
      else pf[i := cf ! i OR (pf ! i AND DB_NEW)] ! j)"
    using Suc.IH [of "Suc i" "pf[i := cf ! i OR (pf ! i AND DB_NEW)]"] Suc.prems by auto
  then show ?case using Suc.prems by (auto simp: nth_list_update not_less_eq_eq le_antisym)
qed auto

text \<open>The databases of the parent are those of the child; a handle that is new in the parent stays so.\<close>

definition dbs_merged :: "txn \<Rightarrow> txn \<Rightarrow> txn \<Rightarrow> bool" where
  "dbs_merged c p q \<longleftrightarrow> mt_numdbs q = mt_numdbs c \<and> (\<forall>i < mt_numdbs c. mt_dbs q ! i = mt_dbs c ! i \<and>
     mt_dbflags q ! i = (if i < CORE_DBS then mt_dbflags c ! i else mt_dbflags c ! i OR (mt_dbflags p ! i AND DB_NEW)))"

lemma merge_dbs_ok:
  assumes n: "CORE_DBS \<le> mt_numdbs c" "mt_numdbs c \<le> length (mt_dbs c)" "mt_numdbs c \<le> length (mt_dbflags c)"
    "mt_numdbs c \<le> length (mt_dbs p)" "mt_numdbs c \<le> length (mt_dbflags p)"
  obtains ds fs where "merge_dbs c p = Some (p\<lparr>mt_dbs := ds, mt_numdbs := mt_numdbs c, mt_dbflags := fs\<rparr>)"
    "dbs_merged c p (p\<lparr>mt_dbs := ds, mt_numdbs := mt_numdbs c, mt_dbflags := fs\<rparr>)"
proof -
  let ?pf = "(mt_dbflags p)[0 := mt_dbflags c ! 0, 1 := mt_dbflags c ! 1]"
  let ?ds = "take (mt_numdbs c) (mt_dbs c) @ drop (mt_numdbs c) (mt_dbs p)"
  have ne: "mt_dbflags c \<noteq> []" "mt_dbflags p \<noteq> []" using n by auto
  have l: "2 + (mt_numdbs c - 2) \<le> length (mt_dbflags c)" "2 + (mt_numdbs c - 2) \<le> length ?pf" using n by simp_all
  obtain fs where fs: "merge_dbflags (mt_dbflags c) ?pf 2 (mt_numdbs c - 2) = Some fs"
    "\<forall>j < length ?pf. fs ! j = (if 2 \<le> j \<and> j < 2 + (mt_numdbs c - 2) then mt_dbflags c ! j OR (?pf ! j AND DB_NEW) else ?pf ! j)"
    using merge_dbflags_ok [OF l] by blast
  have "merge_dbs c p = Some (p\<lparr>mt_dbs := ?ds, mt_numdbs := mt_numdbs c, mt_dbflags := fs\<rparr>)"
    using n fs(1) ne by (simp add: merge_dbs_def aget_def aset_def)
  moreover have "fs ! i = (if i < 2 then mt_dbflags c ! i else mt_dbflags c ! i OR (mt_dbflags p ! i AND DB_NEW))" if i: "i < mt_numdbs c" for i
  proof (cases "i < 2")
    case True
    then have i2: "i = 0 \<or> i = 1" by auto
    show ?thesis using fs(2) [rule_format, of i] i True n i2 ne by (auto simp: nth_list_update)
  next
    case False
    moreover have "i < 2 + (mt_numdbs c - 2)" using i by linarith
    ultimately show ?thesis using fs(2) [rule_format, of i] i n by simp
  qed
  ultimately show thesis using that [where ds = ?ds and fs = fs] n by (simp add: dbs_merged_def nth_append)
qed


text \<open>
  A nested transaction with the parent \<open>p\<close>, ready to be committed: the dirty lists of both are sorted, the parent's dirty pages
  are blocks of memory, and \<open>mt_dirty_room\<close> is what the pages of both leave of \<open>MDB_IDL_UM_MAX\<close>. Neither has spilled pages.
\<close>

definition dirty_ids :: "txn \<Rightarrow> u64 set" where
  "dirty_ids t = fst ` set (id2l_elems (mt_dirty_list t))"

definition nested_ready :: "'a tst_scheme \<Rightarrow> txn \<Rightarrow> txn list \<Rightarrow> bool" where
  "nested_ready st p ps \<longleftrightarrow> child_ready st \<and> \<not> has (mt_flags (st_txn st)) (MDB_TXN_FINISHED OR MDB_TXN_ERROR) \<and>
     st_parents st = p # ps \<and> st_saved st \<noteq> [] \<and>
     id2l_ok (mt_dirty_list p) \<and> id2l_asc (mt_dirty_list p) \<and> id2l_asc (mt_dirty_list (st_txn st)) \<and>
     snd ` set (id2l_elems (mt_dirty_list p)) \<subseteq> range Heap_page \<and> -1 \<notin> dirty_ids p \<and> 0 \<notin> dirty_ids (st_txn st) \<and>
     card (dirty_ids p \<union> dirty_ids (st_txn st)) \<le> MDB_IDL_UM_MAX \<and>
     MDB_IDL_UM_MAX - mt_dirty_room (st_txn st) = card (dirty_ids p \<union> dirty_ids (st_txn st)) \<and>
     mt_spill_pgs p = None \<and> mt_spill_pgs (st_txn st) = None \<and>
     idl_ok (mt_free_pgs p) \<and> ids_ok (il_ids (mt_free_pgs (st_txn st))) \<and>
     unat (il_alloc (mt_free_pgs p)) + length (il_ids (mt_free_pgs (st_txn st))) < 2 ^ 31 \<and>
     CORE_DBS \<le> mt_numdbs (st_txn st) \<and> mt_numdbs (st_txn st) \<le> length (mt_dbs p) \<and> mt_numdbs (st_txn st) \<le> length (mt_dbflags p)"


lemma ask_mem_same: "ask_mem st = (m, st') \<Longrightarrow> st' = st\<lparr>st_os := tick (st_os st)\<rparr>"
  by (auto simp: ask_mem_def ask_malloc_def Let_def)

text \<open>What the merged transaction \<open>q\<close> is.\<close>

definition merged :: "txn \<Rightarrow> txn \<Rightarrow> txn \<Rightarrow> bool" where
  "merged c p q \<longleftrightarrow> dbs_merged c p q \<and> mt_next_pgno q = mt_next_pgno c \<and> mt_flags q = mt_flags c \<and>
     id2l_ok (mt_dirty_list q) \<and> id2l_asc (mt_dirty_list q) \<and>
     id2l_map (mt_dirty_list q) = id2l_map (mt_dirty_list p) ++ id2l_map (mt_dirty_list c) \<and>
     mt_dirty_room q = mt_dirty_room c \<and> idl_elems (il_ids (mt_free_pgs q)) = idl_elems (il_ids (mt_free_pgs p)) @ idl_elems (il_ids (mt_free_pgs c)) \<and>
     mt_loose_pgs q = mt_loose_pgs p @ mt_loose_pgs c \<and> mt_loose_count q = mt_loose_count p + mt_loose_count c \<and>
     mt_spill_pgs q = None \<and> mt_txnid q = mt_txnid p"

lemma commit_child_ok:
  assumes r: "nested_ready st p ps"
  shows "(\<exists>il t. il = mt_free_pgs p \<and> commit_child st p ps = Some (True, ENOMEM, st\<lparr>st_os := (st_os st)\<lparr>os_time := t\<rparr>, st_parents := p # ps\<rparr>)) \<or>
    (\<exists>st'. commit_child st p ps = Some (False, 0, st') \<and> merged (st_txn st) p (st_txn st') \<and> st_parents st' = ps \<and> st_saved st' = tl (st_saved st) \<and>
      st_cursors st' = drop (length (st_cursors st) - length (sv_cursors (hd (st_saved st)))) (st_cursors st) \<and> st_file st' = st_file st \<and>
      st_env st' = st_env st \<and>
      st_heap st' = without (replaced (id2l_elems (mt_dirty_list p)) (id2l_elems (mt_dirty_list (st_txn st)))) (st_heap st))"
proof -
  let ?c = "st_txn st"
  let ?D = "id2l_elems (mt_dirty_list p)" and ?S = "id2l_elems (mt_dirty_list ?c)"
  note R = r [unfolded nested_ready_def child_ready_def dirty_blocks_ok_def dirty_ids_def]
  obtain sv svs where sv: "st_saved st = sv # svs" using R by (cases "st_saved st") auto
  obtain mem st1 where m: "ask_mem st = (mem, st1)" by fastforce
  have st1: "st1 = st\<lparr>st_os := tick (st_os st)\<rparr>" by (rule ask_mem_same [OF m])
  have free: "idl_ok (mt_free_pgs p)" "ids_ok (il_ids (mt_free_pgs ?c))"
    "unat (il_alloc (mt_free_pgs p)) + length (il_ids (mt_free_pgs ?c)) < 2 ^ 31" using R by blast+
  from midl_append_list_correct [OF free, of mem] obtain rc il where
    a: "mdb_midl_append_list mem (mt_free_pgs p) (il_ids (mt_free_pgs ?c)) = Some (rc, il)"
    "rc = ENOMEM \<and> il = mt_free_pgs p \<or> rc = 0 \<and> idl_elems (il_ids il) = idl_elems (il_ids (mt_free_pgs p)) @ idl_elems (il_ids (mt_free_pgs ?c))"
    by (auto split: if_splits)
  show ?thesis
  proof (cases "rc = 0")
    case False
    then have "rc = ENOMEM" "il = mt_free_pgs p" using a(2) by auto
    moreover have "p\<lparr>mt_free_pgs := mt_free_pgs p\<rparr> = p" by simp
    ultimately have "commit_child st p ps = Some (True, ENOMEM, st\<lparr>st_os := (st_os st)\<lparr>os_time := os_time (st_os st) + 1\<rparr>, st_parents := p # ps\<rparr>)"
      using a(1) m unfolding commit_child_def Let_def by (simp add: st1 tick_def)
    then show ?thesis by blast
  next
    case True
    let ?hp = "without (replaced ?D ?S) (st_heap st)"
    let ?p2 = "p\<lparr>mt_free_pgs := il, mt_next_pgno := mt_next_pgno ?c, mt_flags := mt_flags ?c\<rparr>"
    let ?st2 = "st1\<lparr>st_cursors := drop (length (st_cursors st) - length (sv_cursors sv)) (st_cursors st)\<rparr>"
    have cl: "mdb_cursors_close st1 True = ?st2" using sv by (simp add: mdb_cursors_close_def st1)
    have dl: "id2l_ok (mt_dirty_list p)" "id2l_asc (mt_dirty_list p)" "id2l_ok (mt_dirty_list ?c)" "id2l_asc (mt_dirty_list ?c)" "0 \<notin> fst ` set ?S"
      and blk: "snd ` set ?D \<subseteq> range Heap_page" and w: "-1 \<notin> fst ` set ?D"
      and card: "card (fst ` set ?D \<union> fst ` set ?S) \<le> MDB_IDL_UM_MAX" "MDB_IDL_UM_MAX - mt_dirty_room ?c = card (fst ` set ?D \<union> fst ` set ?S)"
      and sp: "mt_spill_pgs p = None" "mt_spill_pgs ?c = None" using R by blast+
    have asc: "asc ?D" "asc ?S" using dl by (simp_all add: id2l_asc_def)
    note len = asc_merge_card [OF asc]
    have "replaced ?D ?S \<subseteq> range Heap_page" using blk by (auto simp: replaced_def)
    moreover have "\<forall>e \<in> set ?D. fst e \<noteq> - 1" using w by force
    ultimately obtain dst where dst: "merge_lists ?st2 (ps \<noteq> []) (mt_dirty_room ?c) (mt_dirty_list p) (mt_dirty_list ?c) =
        Some (?st2\<lparr>st_heap := without (replaced ?D ?S) (st_heap ?st2)\<rparr>, dst)" "id2l_ok dst" "id2l_elems dst = asc_merge ?D ?S"
      using merge_lists_ok [OF dl(1,2) refl dl(3,4) refl dl(5), of "ps \<noteq> []" "mt_dirty_room ?c" ?st2] card len by auto
    have hp: "st_heap ?st2 = st_heap st" by (simp add: st1)
    have n: "CORE_DBS \<le> mt_numdbs ?c" "mt_numdbs ?c \<le> length (mt_dbs ?c)" "mt_numdbs ?c \<le> length (mt_dbflags ?c)"
      "mt_numdbs ?c \<le> length (mt_dbs ?p2)" "mt_numdbs ?c \<le> length (mt_dbflags ?p2)" using R by (simp_all add: dbs_ok_def)
    obtain ds fs where d: "merge_dbs ?c ?p2 = Some (?p2\<lparr>mt_dbs := ds, mt_numdbs := mt_numdbs ?c, mt_dbflags := fs\<rparr>)"
      "dbs_merged ?c ?p2 (?p2\<lparr>mt_dbs := ds, mt_numdbs := mt_numdbs ?c, mt_dbflags := fs\<rparr>)" by (rule merge_dbs_ok [OF n])
    define q where "q = ?p2\<lparr>mt_dbs := ds, mt_numdbs := mt_numdbs ?c, mt_dbflags := fs, mt_spill_pgs := None, mt_dirty_list := dst,
      mt_dirty_room := mt_dirty_room ?c, mt_loose_pgs := mt_loose_pgs p @ mt_loose_pgs ?c, mt_loose_count := mt_loose_count p + mt_loose_count ?c\<rparr>"
    have run: "commit_child st p ps = Some (False, 0, ?st2\<lparr>st_heap := ?hp, st_parents := ps, st_saved := tl (st_saved st), st_txn := q\<rparr>)"
      using a(1) True m d(1) dst(1) sp unfolding commit_child_def Let_def
      by (simp add: cl unspill_parent_def merge_spilled_def hp q_def) (simp add: st1)
    have am: "id2l_asc dst" "id2l_map dst = id2l_map (mt_dirty_list p) ++ id2l_map (mt_dirty_list ?c)"
      using asc_merge_ok [OF asc] dst(3) by (simp_all add: id2l_asc_def id2l_map_def)
    have "idl_elems (il_ids il) = idl_elems (il_ids (mt_free_pgs p)) @ idl_elems (il_ids (mt_free_pgs ?c))" using a(2) True by auto
    then have "merged ?c p q" using d(2) dst(2) am by (simp add: merged_def q_def dbs_merged_def)
    then show ?thesis using run sv by (simp add: st1)
  qed
qed


lemma child_abort:
  assumes "child_ready st" "st_parents st = p # ps" "st_saved st = sv # svs"
  shows "\<exists>st'. mdb_txn_abort st 0 = Some st' \<and> st_txn st' = p\<lparr>mt_flags := mt_flags p AND NOT MDB_TXN_HAS_CHILD\<rparr> \<and>
    st_parents st' = ps \<and> st_saved st' = svs \<and> st_cursors st' = sv_cursors sv \<and> me_pghead (st_env st') = sv_pghead sv \<and>
    me_pglast (st_env st') = sv_pglast sv \<and> st_file st' = st_file st"
proof -
  have "\<not> has (MDB_END_ABORT OR MDB_END_SLOT OR MDB_END_FREE) MDB_END_UPDATE" by (simp add: has_def end_defs MDB_NOTLS_def)
  from txn_end_child [OF assms this] show ?thesis by auto
qed



text \<open>A parent that has written the pages 5 and 7, and a child that has written 5 again, and 9.\<close>

definition commit_parent :: txn where
  "commit_parent = (st_txn write_st)\<lparr>mt_numdbs := 2, mt_flags := MDB_TXN_HAS_CHILD,
     mt_dirty_list := (2, Map_page 0) # [(5, Heap_page 1), (7, Heap_page 2)] @ replicate (MDB_IDL_UM_MAX - 2) (0, Map_page 0)\<rparr>"

definition commit_st :: cst where
  "commit_st = \<lparr>st_env = (st_env write_st)\<lparr>me_dbflags := [0, 0]\<rparr>, st_file = st_file write_st,
     st_heap = [1 \<mapsto> [], 2 \<mapsto> [], 3 \<mapsto> [], 4 \<mapsto> []],
     st_txn = commit_parent\<lparr>mt_flags := 0, mt_next_pgno := 11, mt_dirty_room := MDB_IDL_UM_MAX - 3, 
       mt_dirty_list := (2, Map_page 0) # [(5, Heap_page 3), (9, Heap_page 4)] @ replicate (MDB_IDL_UM_MAX - 2) (0, Map_page 0)\<rparr>,
     st_parents = [commit_parent], st_os = demo_os, st_brk = 5, st_junk = (\<lambda>_ _. 0), st_idjunk = (\<lambda>_ _. 0), st_cursors = [],
     st_saved = [\<lparr>sv_pghead = None, sv_pglast = 0, sv_cursors = []\<rparr>],
     st_tls = None, st_tid = 7, st_wlocked = True, st_setspecific = (\<lambda>_. 0), st_seen = (\<lambda>_. 8), st_sync = (\<lambda>_. 0), st_setlk = (\<lambda>_. [])\<rparr>"

lemma commit_lists:
  "id2l_elems (mt_dirty_list commit_parent) = [(5, Heap_page 1), (7, Heap_page 2)]"
  "id2l_elems (mt_dirty_list (st_txn commit_st)) = [(5, Heap_page 3), (9, Heap_page 4)]"
  "id2l_ok (mt_dirty_list commit_parent)" "id2l_ok (mt_dirty_list (st_txn commit_st))"
  by (simp_all add: commit_parent_def commit_st_def id2l_elems_def id2l_ok_def seg_def)

lemma commit_st_ready: "nested_ready commit_st commit_parent []"
proof -
  have c: "child_ready commit_st"
    unfolding child_ready_def dirty_blocks_ok_def dirty_ptrs_def commit_lists
    by (simp add: commit_lists) (simp add: commit_st_def commit_parent_def dbs_ok_def write_st_def write_at_def demo_env_def demo_txn_def F_ISSET_def has_def
      MDB_TXN_RDONLY_def MDB_RDONLY_def MDB_TXN_FINISHED_def)
  have d: "dirty_ids commit_parent = {5, 7}" "dirty_ids (st_txn commit_st) = {5, 9}" by (simp_all add: dirty_ids_def commit_lists)
  have u: "dirty_ids commit_parent \<union> dirty_ids (st_txn commit_st) = {5, 7, 9}" unfolding d by blast
  show ?thesis
    unfolding nested_ready_def u using c
    by (simp add: d id2l_asc_def commit_lists) (simp add: commit_st_def commit_parent_def write_st_def write_at_def demo_txn_def has_def idl_ok_def ids_ok_def)
qed


end
