(* ===== verification/Crash_Safe.thy ===== *)
theory Crash_Safe
  imports Flush_Correct Tree_Update
begin

text \<open>
  What a flush leaves alone in the file, whatever the operating system answers and wherever it stops: everything but
  the pages that it has to write. A snapshot that consists of other pages reads the same before and after.
\<close>

section \<open>Writes that fail\<close>

text \<open>The \<open>n\<close> bytes at \<open>b\<close> of the file \<open>f\<close> are the same in \<open>f'\<close>.\<close>

definition spares :: "nat \<Rightarrow> nat \<Rightarrow> bytes \<Rightarrow> bytes \<Rightarrow> bool" where
  "spares b n f f' \<longleftrightarrow> slice f' b n = slice f b n \<and> length f \<le> length f'"

lemma spares_trans: "spares b n f g \<Longrightarrow> spares b n g h \<Longrightarrow> spares b n f h"
  by (simp add: spares_def)

lemma spares_refl [simp]: "spares b n f f"
  by (simp add: spares_def)

lemma spares_fits: "spares b n f g \<Longrightarrow> b + n \<le> length f \<Longrightarrow> b + n \<le> length g"
  by (simp add: spares_def)

lemma write_pages_spares:
  "write_pages vec s os f a bs = Some (rc, f', os') \<Longrightarrow> b + n \<le> length f \<Longrightarrow> off_by b n (a, bs) \<Longrightarrow> spares b n f f'"
proof (induction vec s os f a bs rule: write_pages.induct)
  case (2 vec s r e os f a bs)
  let ?f = "if r \<ge> 0 then file_write f a (take (nat r) bs) else f"
  have "b + n \<le> a \<or> a + length (take (nat r) bs) \<le> b" using "2.prems"(3) by (auto simp: off_by_def)
  then have w: "spares b n f ?f" using slice_file_write_disj [OF "2.prems"(2)] by (simp add: spares_def length_file_write)
  show ?case
  proof (cases s)
    case True
    then show ?thesis using 2 by (auto split: if_splits)
  next
    case False
    show ?thesis
    proof (cases "r < 0 \<and> e = EINTR")
      case True
      then show ?thesis using 2 False by auto
    next
      case F: False
      have "f' = ?f" using "2.prems"(1) False F by (auto simp: Let_def split: if_splits)
      then show ?thesis using w by simp
    qed
  qed
qed simp

text \<open>The collected pages are elsewhere.\<close>

definition off_pending :: "nat \<Rightarrow> nat \<Rightarrow> wbuf \<Rightarrow> bool" where
  "off_pending b n w \<longleftrightarrow> 0 < wb_n w \<longrightarrow> off_by b n (wb_wpos w, wb_bytes w)"

lemma flush_iov_spares:
  assumes "flush_iov st w = Some (rc, st', w')" "b + n \<le> length (st_file st)" "off_pending b n w"
  shows "\<exists>io f. st' = with_io io (st\<lparr>st_file := f\<rparr>) \<and> spares b n (st_file st) f \<and> w' = w\<lparr>wb_n := 0\<rparr>"
proof (cases "wb_n w = 0")
  case True
  then have "st' = with_io (io_of st) (st\<lparr>st_file := st_file st\<rparr>)" "w' = w\<lparr>wb_n := 0\<rparr>" using assms(1) by (simp_all add: flush_iov_def)
  then show ?thesis using spares_refl by blast
next
  case False
  then obtain f io where "write_pages (wb_n w \<noteq> 1) (wb_n w \<noteq> 1) (io_of st) (st_file st) (wb_wpos w) (wb_bytes w) = Some (rc, f, io)"
    "st' = with_io io (st\<lparr>st_file := f\<rparr>)" "w' = w\<lparr>wb_n := 0\<rparr>"
    using assms(1) by (auto simp: flush_iov_def with_io_def split: bind_splits)
  moreover have "spares b n (st_file st) f"
    using write_pages_spares [OF calculation(1) assms(2)] assms(3) False by (simp add: off_pending_def)
  ultimately show ?thesis by blast
qed

lemma make_room_spares:
  assumes r: "make_room st (at_page w pos sz) = Some (rc, st', w2)" and w: "winv w" and sz: "0 < sz" "length bs = sz" "even pos"
    and fits: "b + n \<le> length (st_file st)" "0 < n" and off: "off_pending b n w" "off_by b n (pos, bs)"
  shows "\<exists>io f. st' = with_io io (st\<lparr>st_file := f\<rparr>) \<and> spares b n (st_file st) f \<and> winv (add_page w2 bs) \<and> wb_size w2 = sz \<and>
    off_pending b n (add_page w2 bs)"
proof (cases "must_write (at_page w pos sz)")
  case True
  then obtain w1 where F: "flush_iov st (at_page w pos sz) = Some (rc, st', w1)" "w2 = w1\<lparr>wb_wpos := wb_pos w1, wb_bytes := []\<rparr>"
    using r by (auto simp: make_room_def split: bind_splits)
  have "off_pending b n (at_page w pos sz)" using off(1) by (simp add: off_pending_def)
  then obtain io f where "st' = with_io io (st\<lparr>st_file := f\<rparr>)" "spares b n (st_file st) f" and w2: "w2 = (at_page w pos sz)\<lparr>wb_n := 0, wb_wpos := pos, wb_bytes := []\<rparr>"
    using flush_iov_spares [OF F(1) fits(1)] F(2) by auto
  moreover have "winv (add_page w2 bs)" using add_page_ok [OF w sz, of w2] True w2 by simp
  moreover have "wb_size w2 = sz" "off_pending b n (add_page w2 bs)" using off(2) w2 by (simp_all add: off_pending_def)
  ultimately show ?thesis by blast
next
  case False
  then have S: "st' = with_io (io_of st) (st\<lparr>st_file := st_file st\<rparr>)" and w2: "w2 = at_page w pos sz" using r by (simp_all add: make_room_def)
  have "wb_n w \<noteq> 0" "wb_next w = wb_wpos w + length (wb_bytes w)" "pos = wb_next w"
    using False w sz(3) by (auto simp: winv_def must_write_def first_wbuf_def)
  then have "off_pending b n (add_page w2 bs)" using off fits(2) w2 by (auto simp: off_pending_def off_by_def)
  moreover have "winv (add_page w2 bs)" using add_page_ok [OF w sz, of w2] False w2 by simp
  ultimately show ?thesis using S w2 by (intro exI [of _ "io_of st"] exI [of _ "st_file st"]) simp
qed


lemma flush_loop_spares:
  assumes "flush_loop st i k w = Some (rc, st')" "winv w" "even (me_psize (st_env st))"
    "i + k < length (mt_dirty_list (st_txn st))" "entries_ok st (seg (i + 1) k (mt_dirty_list (st_txn st)))"
    "b + n \<le> length (st_file st)" "0 < n" "off_pending b n w"
    "\<forall>x \<in> set (page_writes st (seg (i + 1) k (mt_dirty_list (st_txn st)))). off_by b n x"
  shows "spares b n (st_file st) (st_file st')"
  using assms
proof (induction k arbitrary: st i w)
  case 0
  obtain w' where "flush_iov st w = Some (rc, st', w')"
    using "0.prems"(1) winv_end [OF "0.prems"(2)] by (auto split: bind_splits)
  from flush_iov_spares [OF this "0.prems"(6,8)] show ?case by auto
next
  case (Suc k)
  let ?dl = "mt_dirty_list (st_txn st)"
  define e es where "e = ?dl ! (i + 1)" and "es = seg (i + 2) k ?dl"
  have i: "i + 1 < length ?dl" using Suc.prems(4) by simp
  have s: "seg (i + 1) (Suc k) ?dl = e # es" using i by (simp add: seg_def e_def es_def Cons_nth_drop_Suc [symmetric])
  have ok: "entries_ok st (e # es)" using Suc.prems(5) s by simp
  obtain h where R: "snd e = Heap_page h"
    "waits (blk st e) \<longrightarrow> flush_loop st i (Suc k) w = flush_loop (stepped st i e h) (i + 1) k w"
    "\<not> waits (blk st e) \<longrightarrow> flush_loop st i (Suc k) w = do {
       (rc, st2, w2) \<leftarrow> make_room (stepped st i e h) (at_page w (fst (page_write st e)) (length (snd (page_write st e))));
       if rc \<noteq> 0 then Some (rc, st2)
       else do {
         bs \<leftarrow> get_bytes (clean (blk st e)) 0 (wb_size w2);
         flush_loop st2 (i + 1) k (add_page w2 bs) } }"
    "0 < length (snd (page_write st e))" "get_bytes (clean (blk st e)) 0 (length (snd (page_write st e))) = Some (snd (page_write st e))"
    by (rule flush_round [OF i e_def ok, where k = k and w = w]) blast
  note same = stepped_same [OF ok R(1), where i = i]
  let ?s = "stepped st i e h"
  have S: "mt_dirty_list (st_txn ?s) = ?dl[i + 1 := mark st e]" "st_file ?s = st_file st" "st_env ?s = st_env st" by (simp_all add: stepped_def)
  have seg: "seg (i + 1 + 1) k (?dl[i + 1 := mark st e]) = es" by (simp add: es_def seg_def)
  have off: "\<forall>x \<in> set (page_writes st es). off_by b n x" using Suc.prems(9) unfolding s page_writes_Cons by (auto split: if_splits)
  show ?case
  proof (cases "waits (blk st e)")
    case True
    have "flush_loop ?s (i + 1) k w = Some (rc, st')" using Suc.prems(1) R(2) [rule_format, OF True] by (simp only:)
    from Suc.IH [OF this Suc.prems(2)] show ?thesis
      using Suc.prems(3,4,6-8) same(1) off unfolding S seg same(3) by simp
  next
    case False
    let ?pos = "fst (page_write st e)" and ?bs = "snd (page_write st e)"
    have pos: "even ?pos" using even_pos Suc.prems(3) by (simp add: page_write_def)
    have o: "off_by b n (?pos, ?bs)" using Suc.prems(9) False unfolding s page_writes_Cons by simp
    obtain rc2 st2 w2 where M: "make_room ?s (at_page w ?pos (length ?bs)) = Some (rc2, st2, w2)"
      "rc2 \<noteq> 0 \<longrightarrow> st' = st2"
      "rc2 = 0 \<longrightarrow> do { bs \<leftarrow> get_bytes (clean (blk st e)) 0 (wb_size w2); flush_loop st2 (i + 1) k (add_page w2 bs) } = Some (rc, st')"
      using Suc.prems(1) [unfolded R(3) [rule_format, OF False]] by (auto split: bind_splits if_splits)
    obtain io f2 where F: "st2 = with_io io (?s\<lparr>st_file := f2\<rparr>)" "spares b n (st_file st) f2" "winv (add_page w2 ?bs)" "wb_size w2 = length ?bs"
      "off_pending b n (add_page w2 ?bs)"
      using make_room_spares [OF M(1) Suc.prems(2) R(4) refl pos _ Suc.prems(7,8) o] Suc.prems(6) S(2) by auto
    show ?thesis
    proof (cases "rc2 = 0")
      case False
      then show ?thesis using M(2) F(1,2) by simp
    next
      case rc: True
      have run: "flush_loop st2 (i + 1) k (add_page w2 ?bs) = Some (rc, st')" using M(3) rc R(5) F(4) by simp
      have b: "blk st2 x = blk ?s x" if "x \<in> set es" for x using that ok F(1) by (auto simp: entries_ok_def blk_def)
      have v: "entries_ok st2 es" using same(1) by (simp add: F(1) entries_ok_def)
      have "page_writes st2 es = page_writes ?s es"
        using b F(1) by (auto simp: page_writes_def page_write_def cong: map_cong filter_cong)
      then have p: "page_writes st2 es = page_writes st es" using same(3) by simp
      have "spares b n (st_file st2) (st_file st')"
        using Suc.IH [OF run F(3)] F(1,5) Suc.prems(3,4,7) v p off S seg spares_fits [OF F(2) Suc.prems(6)] by simp
      then show ?thesis using spares_trans [OF F(2)] F(1) by simp
    qed
  qed
qed

lemma dpage_free_file: "mdb_dpage_free st p = Some st' \<Longrightarrow> st_file st' = st_file st"
  by (auto simp: mdb_dpage_free_def mdb_page_free_def Let_def upd_env_def split: bind_splits if_splits page_ptr.splits)

lemma flush_free_file: "flush_free st i j k = Some (st', j') \<Longrightarrow> st_file st' = st_file st"
proof (induction k arbitrary: st i j)
  case (Suc k)
  then show ?case using dpage_free_file by (fastforce simp: upd_txn_def split: bind_splits if_splits)
qed simp

lemma page_flush_spares:
  assumes pre: "flush_pre st keep m" and run: "mdb_page_flush st keep = Some (rc, st')"
    and fits: "b + n \<le> length (st_file st)" "0 < n" and off: "\<forall>x \<in> set (page_writes st (flush_es st keep m)). off_by b n x"
  shows "spares b n (st_file st) (st_file st')"
proof -
  have P: "\<not> has (me_flags (st_env st)) MDB_WRITEMAP" "even (me_psize (st_env st))" "keep \<le> m" "m < length (mt_dirty_list (st_txn st))"
    "m < 2 ^ 32" "fst (mt_dirty_list (st_txn st) ! 0) = of_nat m" "entries_ok st (flush_es st keep m)"
    using pre unfolding flush_pre_def Let_def by blast+
  have n: "unat (of_nat m :: u64) mod 2 ^ 32 = m" using P(5) by (simp add: unat_of_nat)
  have a: "aget (mt_dirty_list (st_txn st)) 0 = Some (mt_dirty_list (st_txn st) ! 0)" by (rule aget_in [OF le_less_trans [OF le0 P(4)]])
  obtain rc1 st1 where L: "flush_loop st keep (m - keep) first_wbuf = Some (rc1, st1)" and f: "st_file st' = st_file st1"
    using run P(1,6) n a flush_free_file by (fastforce simp: mdb_page_flush_def Let_def split: bind_splits if_splits)
  have "winv first_wbuf" "off_pending b n first_wbuf" by (simp_all add: winv_def off_pending_def first_wbuf_def)
  from flush_loop_spares [OF L this(1) P(2) _ P(7) fits this(2) off] show ?thesis using P(3,4) f by simp
qed


section \<open>Snapshots\<close>

text \<open>The pages of the file.\<close>

abbreviation pages_of :: "'a st_scheme \<Rightarrow> bytes \<Rightarrow> u64 \<Rightarrow> bytes option" where
  "pages_of st f \<equiv> map_page (st_env st) f"

text \<open>The page \<open>pg\<close> lies in the file with all its overflow pages, and where none of the pages \<open>es\<close> will be written.\<close>

definition undisturbed :: "'a st_scheme \<Rightarrow> (u64 \<times> page_ptr) list \<Rightarrow> u64 \<Rightarrow> bool" where
  "undisturbed st es pg \<longleftrightarrow> (let a = unat (of_nat (me_psize (st_env st)) * pg) in
     \<exists>p. pages_of st (st_file st) pg = Some p \<and> a + length p \<le> length (st_file st) \<and>
       length p = me_psize (st_env st) * (if IS_OVERFLOW p then max 1 (mp_pages p) else 1) \<and>
       (\<forall>w \<in> set (page_writes st es). off_by a (length p) w))"

lemma slice_prefix: "slice f a n = slice g a n \<Longrightarrow> m \<le> n \<Longrightarrow> slice f a m = slice g a m"
  by (metis min.absorb1 slice_def take_take)

lemma spares_page:
  assumes p: "map_page env f pg = Some p" and a: "a = unat (of_nat (me_psize env) * pg)"
    and len: "length p = me_psize env * (if IS_OVERFLOW p then max 1 (mp_pages p) else 1)"
    and same: "spares a (length p) f g"
  shows "map_page env g pg = Some p"
proof -
  let ?s = "me_psize env" and ?q = "slice f a (me_psize env)"
  have m: "me_map env" "?s \<le> length ?q" "PAGEHDRSZ \<le> length ?q"
    and pq: "p = (if IS_OVERFLOW ?q then slice f a (?s * max 1 (mp_pages ?q)) else ?q)"
    using p by (auto simp: map_page_def Let_def a split: if_splits)
  have le: "?s \<le> length p" using len by simp
  have "take ?s p = ?q"
  proof (cases "IS_OVERFLOW ?q")
    case True
    have "min ?s (?s * max 1 (mp_pages ?q)) = ?s" by (simp add: min_def)
    then show ?thesis using pq True by (simp add: slice_def)
  next
    case False
    then show ?thesis using pq by (simp add: slice_def)
  qed
  then have q0: "?q = slice p 0 ?s" by (simp add: slice_def)
  have "16 \<le> ?s" using m(3) by (simp add: slice_def)
  then have "rd ?q 10 2 = rd p 10 2" "rd ?q 12 4 = rd p 12 4" unfolding q0 by (simp_all add: rd_slice)
  then have hd: "IS_OVERFLOW p = IS_OVERFLOW ?q" "mp_pages p = mp_pages ?q" by (simp_all add: IS_OVERFLOW_def mp_flags_def mp_pages_def)
  have eq: "slice g a (length p) = slice f a (length p)" using same by (simp add: spares_def)
  have q: "slice g a ?s = ?q" by (rule slice_prefix [OF eq le])
  show ?thesis
  proof (cases "IS_OVERFLOW ?q")
    case True
    then have "length p = ?s * max 1 (mp_pages ?q)" using len hd by simp
    then have "slice g a (?s * max 1 (mp_pages ?q)) = p" using eq pq True by simp
    then show ?thesis using m True q by (simp add: map_page_def Let_def a [symmetric])
  next
    case False
    then show ?thesis using m q pq by (simp add: map_page_def Let_def a [symmetric])
  qed
qed


text \<open>A tree depends only on its own pages.\<close>

lemma leaf_same:
  assumes "page_ok psize p" "IS_LEAF p" "\<not> IS_LEAF2 p" "\<not> IS_BRANCH p" "\<forall>g \<in> set (leaf_refs p). pg' g = pg g"
  shows "leaf_ok pg' psize c valid rank p lo hi = leaf_ok pg psize c valid rank p lo hi" "leaf_items pg' p = leaf_items pg p"
proof -
  have v: "nb_val pg' nb = nb_val pg nb" if "nb \<in> set (page_nodes p)" for nb
    using that assms(5) by (auto simp: nb_val_def leaf_refs_def)
  show "leaf_ok pg' psize c valid rank p lo hi = leaf_ok pg psize c valid rank p lo hi"
    using v unfolding leaf_ok_nodes [OF assms(1-4)] by auto
  show "leaf_items pg' p = leaf_items pg p" using v by (simp add: leaf_items_nodes [OF assms(1,2)] nb_item_def)
qed

lemma tree_same:
  assumes "tree_ok pg psize c valid rank d g lo hi" "\<forall>x \<in> set (tree_pages pg d g). pg' x = pg x"
  shows "tree_ok pg' psize c valid rank d g lo hi \<and> items pg' d g = items pg d g"
  using assms
proof (induction d arbitrary: g lo hi)
  case 0
  then obtain p where p: "pg g = Some p" "leaf_ok pg psize c valid rank p lo hi" by auto
  have k: "page_ok psize p" "IS_LEAF p" "\<not> IS_LEAF2 p" "\<not> IS_BRANCH p" using p(2) by (simp_all add: leaf_ok_def)
  have g: "pg' g = Some p" and r: "\<forall>x \<in> set (leaf_refs p). pg' x = pg x" using 0(2) p(1) by auto
  show ?case using p g leaf_same(1) [OF k r, of c valid rank lo hi] leaf_same(2) [OF k r] by simp
next
  case (Suc d)
  then obtain p where p: "pg g = Some p" "branch_ok psize c valid rank p lo hi"
    "\<forall>i < NUMKEYS p. tree_ok pg psize c valid rank d (child_at p i) (lo_of rank p lo i) (hi_of rank p hi i)" by auto
  have g: "pg' g = Some p" "\<forall>x \<in> set (tree_pages pg d (child_at p i)). pg' x = pg x" if "i < NUMKEYS p" for i
    using Suc.prems(2) p(1) that by auto
  have "0 < NUMKEYS p" using p(2) by (simp add: branch_ok_def)
  then have g0: "pg' g = Some p" by (rule g)
  note IH = Suc.IH [OF p(3) [rule_format] g(2)]
  have "concat (map (\<lambda>i. items pg' d (child_at p i)) [0..<NUMKEYS p]) = concat (map (\<lambda>i. items pg d (child_at p i)) [0..<NUMKEYS p])"
    using IH by (auto intro!: arg_cong [where f = concat])
  then show ?case using IH p(1,2) g0 by simp
qed



text \<open>Pages of 152 bytes, a tree with the one leaf 2, the dirty page 3, and a file system that is full.\<close>

definition crash_leaf :: bytes where
  "crash_leaf = [2,0,0,0,0,0,0,0, 0,0, 2,0, 18,0, 142,0, 142,0] @ replicate 124 0 @ [1,0,0,0, 0,0, 1,0, 0x61, 0x78]"

definition crash_block :: bytes where
  "crash_block = [3,0,0,0,0,0,0,0, 0,0, 0x12,0] @ replicate 140 0"

definition crash_st :: wst where
  "crash_st = write_st\<lparr>st_env := (st_env write_st)\<lparr>me_psize := 152\<rparr>, st_file := replicate 304 0 @ crash_leaf, st_heap := [2 \<mapsto> crash_block],
     st_os := (st_os write_st)\<lparr>os_io := [(-1, 28)]\<rparr>,
     st_txn := (st_txn write_st)\<lparr>mt_dirty_list := [(1, Map_page 0), (3, Heap_page 2)]\<rparr>\<rparr>"

lemma crash_read:
  "length crash_leaf = 152" "mp_lower crash_leaf = 18" "mp_upper crash_leaf = 142" "mp_flags crash_leaf = 2"
  "NUMKEYS crash_leaf = 1" "pt crash_leaf 0 = 142" "key_at crash_leaf 0 = [0x61]"
  "rd crash_leaf 142 4 = 1" "rd crash_leaf 146 2 = 0" "rd crash_leaf 148 2 = 1" "slice crash_leaf 151 (Suc 0) = [0x78]"
  by (simp_all add: crash_leaf_def mp_lower_def mp_upper_def mp_flags_def NUMKEYS_def pt_def key_at_def rd_def slice_def)

lemma crash_kinds: "IS_LEAF crash_leaf" "\<not> IS_LEAF2 crash_leaf" "\<not> IS_BRANCH crash_leaf" "\<not> IS_OVERFLOW crash_leaf"
  by (simp_all add: IS_LEAF_def IS_LEAF2_def IS_BRANCH_def IS_OVERFLOW_def F_ISSET_def crash_read P_LEAF_def P_LEAF2_def P_BRANCH_def P_OVERFLOW_def)

lemma crash_leaf_ok: "leaf_ok pg 152 Cmp_memn short (\<lambda>a. a) crash_leaf None None"
proof -
  have "page_ok 152 crash_leaf"
    by (simp add: page_ok_def crash_read ptrs_def extent_def node_len_def EVEN_def F_ISSET_def crash_kinds)
  moreover have "keys_sorted short (\<lambda>a. a) crash_leaf 0 None None"
    by (simp add: keys_sorted_def crash_read in_range_def)
  moreover have "value_at pg crash_leaf 0 \<noteq> None" "\<not> is_dup_at crash_leaf 0"
    by (simp_all add: value_at_def is_dup_at_def crash_read get_bytes_def F_ISSET_def F_BIGDATA_def F_DUPDATA_def)
  ultimately show ?thesis using demo_order demo_ordered crash_kinds by (simp add: leaf_ok_def crash_read)
qed

lemma crash_block_read: "length crash_block = 152" "mp_pgno crash_block = 3" "mp_flags crash_block = 0x12"
  by (simp_all add: crash_block_def mp_pgno_def mp_flags_def rd_def slice_def)

lemma crash_st_env [simp]:
  "me_psize (st_env crash_st) = 152" "me_map (st_env crash_st)" "me_flags (st_env crash_st) = 0" "st_file crash_st = replicate 304 0 @ crash_leaf"
  "st_heap crash_st = [2 \<mapsto> crash_block]" "mt_dirty_list (st_txn crash_st) = [(1, Map_page 0), (3, Heap_page 2)]"
  "os_io (st_os crash_st) = [(-1, 28)]"
  by (simp_all add: crash_st_def write_st_def write_at_def demo_env_def)

lemma crash_facts:
  "flush_pre crash_st 0 1" "page_writes crash_st [(3, Heap_page 2)] = [(456, clean crash_block)]" "flush_es crash_st 0 1 = [(3, Heap_page 2)]"
proof -
  have es: "flush_es crash_st 0 1 = [(3, Heap_page 2)]" by (simp add: seg_def)
  have b: "blk crash_st (3, Heap_page 2) = crash_block" by (simp add: blk_def)
  have k: "\<not> IS_OVERFLOW crash_block" "\<not> waits crash_block"
    by (simp_all add: IS_OVERFLOW_def waits_def has_def F_ISSET_def crash_block_read page_flag_defs)
  have "length (clean crash_block) = 152" by (simp add: clean_def crash_block_read)
  then have w: "page_writes crash_st [(3, Heap_page 2)] = [(456, clean crash_block)]"
    by (simp add: page_writes_def page_write_def b k page_size_def)
  then show "page_writes crash_st [(3, Heap_page 2)] = [(456, clean crash_block)]" .
  show "flush_es crash_st 0 1 = [(3, Heap_page 2)]" by (rule es)
  show "flush_pre crash_st 0 1"
    unfolding flush_pre_def Let_def es w by (simp add: entries_ok_def page_size_def crash_block_read k b has_def)
qed

lemma crash_run: "\<exists>st'. mdb_page_flush crash_st 0 = Some (28, st')"
proof -
  let ?b = "set_mp_flags 2 crash_block"
  have k: "\<not> has (18 :: u16) (P_LOOSE OR P_KEEP)" "(18 :: u16) AND NOT P_DIRTY = 2" by (simp_all add: has_def page_flag_defs)
  have o: "length ?b = 152" "\<not> IS_OVERFLOW ?b" by (simp_all add: IS_OVERFLOW_def F_ISSET_def crash_block_read page_simps page_flag_defs)
  have "\<exists>st'. flush_loop crash_st 0 1 first_wbuf = Some (28, st')"
    unfolding One_nat_def flush_loop.simps
    by (simp add: crash_block_read k o first_wbuf_def make_room_def must_write_def flush_iov_def MDB_SUCCESS_def EINTR_def Let_def)
  then obtain st' where "flush_loop crash_st 0 1 first_wbuf = Some (28, st')" by blast
  then show ?thesis by (simp add: mdb_page_flush_def has_def Let_def del: One_nat_def flush_loop.simps)
qed


end
