(* ===== verification/Handles_Correct.thy ===== *)
theory Handles_Correct
  imports Databases Tree_Update Read_Path
begin

text \<open>
  The handles of named databases: what \<open>mdb_dbi_open\<close> returns is a handle of the table, which stays well formed, with the
  record that the main database has for the name.
\<close>

section \<open>The table of handles\<close>

definition handle_name :: "'a st_scheme \<Rightarrow> nat \<Rightarrow> bytes" where
  "handle_name st i = (case md_name (me_dbxs (st_env st) ! i) of None \<Rightarrow> [] | Some n \<Rightarrow> n)"

text \<open>The handle with a name.\<close>

definition opened :: "'a st_scheme \<Rightarrow> bytes \<Rightarrow> nat option" where
  "opened st name = find (\<lambda>i. handle_name st i = name) [CORE_DBS..<mt_numdbs (st_txn st)]"

text \<open>All the arrays have room for \<open>me_maxdbs\<close> handles, and no two open handles have the same name.\<close>

definition handles_ok :: "'a st_scheme \<Rightarrow> bool" where
  "handles_ok st \<longleftrightarrow> (let n = me_maxdbs (st_env st) in
     length (me_dbxs (st_env st)) = n \<and> length (me_dbiseqs (st_env st)) = n \<and> length (mt_dbs (st_txn st)) = n \<and>
     length (mt_dbflags (st_txn st)) = n \<and> (\<forall>ts \<in> set_option (mt_dbiseqs (st_txn st)). length ts = n) \<and>
     CORE_DBS \<le> mt_numdbs (st_txn st) \<and> mt_numdbs (st_txn st) \<le> n \<and>
     distinct (filter (\<lambda>nm. nm \<noteq> []) (map (handle_name st) [CORE_DBS..<mt_numdbs (st_txn st)])))"

lemma find_handle_ok:
  assumes "name \<noteq> []" "0 < i" "i + k \<le> length dxs"
  shows "\<exists>u. find_handle dxs name i un k = Some (find (\<lambda>j. (case md_name (dxs ! j) of None \<Rightarrow> [] | Some n \<Rightarrow> n) = name) [i..<i + k], u) \<and>
    (find (\<lambda>j. (case md_name (dxs ! j) of None \<Rightarrow> [] | Some n \<Rightarrow> n) = name) [i..<i + k] = None \<longrightarrow>
      u = (if un \<noteq> 0 then un
           else case find (\<lambda>j. (case md_name (dxs ! j) of None \<Rightarrow> [] | Some n \<Rightarrow> n) = []) [i..<i + k] of None \<Rightarrow> 0 | Some j \<Rightarrow> j))"
  using assms
proof (induction k arbitrary: i un)
  case (Suc k)
  let ?nm = "\<lambda>j. case md_name (dxs ! j) of None \<Rightarrow> [] | Some n \<Rightarrow> n"
  define js where "js = [Suc i..<Suc i + k]"
  have u: "[i..<i + Suc k] = i # js" unfolding js_def by (subst upt_rec) simp
  have a: "aget dxs i = Some (dxs ! i)" using Suc.prems(3) by simp
  have le: "0 < Suc i" "Suc i + k \<le> length dxs" using Suc.prems(3) by simp_all
  note IH = Suc.IH [OF Suc.prems(1) le, folded js_def]
  show ?case
  proof (cases "?nm i = []")
    case True
    then have "find_handle dxs name i un (Suc k) = find_handle dxs name (Suc i) (if un = 0 then i else un) k"
      using a by (auto split: option.splits)
    then show ?thesis unfolding u using IH [of "if un = 0 then i else un"] Suc.prems(1,2) True by (auto split: option.splits)
  next
    case False
    then obtain n where n: "md_name (dxs ! i) = Some n" "n \<noteq> []" by (auto split: option.splits)
    show ?thesis
    proof (cases "n = name")
      case True
      then show ?thesis unfolding u using a n by simp
    next
      case ne: False
      then have "find_handle dxs name i un (Suc k) = find_handle dxs name (Suc i) un k" using a n by simp
      then show ?thesis unfolding u using IH [of un] n ne by (cases "un = 0") auto
    qed
  qed
qed simp

text \<open>A new name in the table: in a free slot, or behind the others.\<close>

definition fresh_slot :: "'a st_scheme \<Rightarrow> nat" where
  "fresh_slot st = (case opened st [] of None \<Rightarrow> mt_numdbs (st_txn st) | Some i \<Rightarrow> i)"

lemma distinct_names:
  "distinct (filter (\<lambda>nm. nm \<noteq> []) (map f [a..<b])) \<longleftrightarrow> (\<forall>i \<in> {a..<b}. \<forall>j \<in> {a..<b}. f i = f j \<longrightarrow> f i \<noteq> [] \<longrightarrow> i = j)"
  for f :: "nat \<Rightarrow> bytes"
  unfolding filter_map distinct_map inj_on_def by auto

lemma opened_none: "opened st name = None \<longleftrightarrow> (\<forall>i. CORE_DBS \<le> i \<and> i < mt_numdbs (st_txn st) \<longrightarrow> handle_name st i \<noteq> name)"
  by (auto simp: opened_def find_None_iff)

lemma opened_some: "opened st name = Some i \<Longrightarrow> CORE_DBS \<le> i \<and> i < mt_numdbs (st_txn st) \<and> handle_name st i = name"
  by (auto simp: opened_def find_Some_iff)

lemma fresh_slot_bounds: "handles_ok st \<Longrightarrow> CORE_DBS \<le> fresh_slot st \<and> fresh_slot st \<le> mt_numdbs (st_txn st)"
  by (auto simp: fresh_slot_def handles_ok_def Let_def dest!: opened_some split: option.splits)

lemma register_ok:
  fixes st :: "'a st_scheme"
  assumes ok: "handles_ok st" and new: "opened st name = None" "name \<noteq> []" and fits: "fresh_slot st < me_maxdbs (st_env st)"
    and un: "unused = (case opened st [] of None \<Rightarrow> 0 | Some i \<Rightarrow> i)"
  shows "\<exists>st'. register_dbi st name unused fl d = Some (st', fresh_slot st) \<and> handles_ok st' \<and> opened st' name = Some (fresh_slot st) \<and>
    mt_dbs (st_txn st') ! fresh_slot st = d \<and> mt_dbflags (st_txn st') ! fresh_slot st = fl \<and>
    (\<forall>j < mt_numdbs (st_txn st). j \<noteq> fresh_slot st \<longrightarrow> handle_name st' j = handle_name st j \<and> mt_dbs (st_txn st') ! j = mt_dbs (st_txn st) ! j) \<and>
    mt_numdbs (st_txn st) \<le> mt_numdbs (st_txn st') \<and> st_file st' = st_file st \<and> st_heap st' = st_heap st"
proof -
  let ?n = "mt_numdbs (st_txn st)" and ?s = "fresh_slot st"
  have H: "length (me_dbxs (st_env st)) = me_maxdbs (st_env st)" "length (me_dbiseqs (st_env st)) = me_maxdbs (st_env st)"
    "length (mt_dbs (st_txn st)) = me_maxdbs (st_env st)" "length (mt_dbflags (st_txn st)) = me_maxdbs (st_env st)"
    "\<forall>ts \<in> set_option (mt_dbiseqs (st_txn st)). length ts = me_maxdbs (st_env st)" "2 \<le> ?n" "?n \<le> me_maxdbs (st_env st)"
    "\<forall>i \<in> {2..<?n}. \<forall>j \<in> {2..<?n}. handle_name st i = handle_name st j \<longrightarrow> handle_name st i \<noteq> [] \<longrightarrow> i = j"
    using ok by (simp_all add: handles_ok_def Let_def distinct_names)
  have s: "2 \<le> ?s" "?s \<le> ?n" using fresh_slot_bounds [OF ok] by simp_all
  have slot: "(if unused \<noteq> 0 then unused else ?n) = ?s" "unused \<noteq> 0 \<longleftrightarrow> ?s < ?n" "?s < ?n \<Longrightarrow> handle_name st ?s = []"
    using un opened_some [of st "[]"] by (auto simp: fresh_slot_def split: option.splits)
  obtain ts where ts: "(case mt_dbiseqs (st_txn st) of None \<Rightarrow> Some None
      | Some ts \<Rightarrow> map_option Some (aset ts ?s ((me_dbiseqs (st_env st) ! ?s + 1) mod 2 ^ 32))) = Some ts"
    "\<forall>x \<in> set_option ts. length x = me_maxdbs (st_env st)"
    using H(5) fits by (cases "mt_dbiseqs (st_txn st)") auto
  define dxs where "dxs = (me_dbxs (st_env st))[?s := mdb_default_cmp (md_flags d) ((me_dbxs (st_env st) ! ?s)\<lparr>md_name := Some name\<rparr>)]"
  define st1 where "st1 = st\<lparr>st_env := (st_env st)\<lparr>me_dbxs := dxs, me_dbiseqs := (me_dbiseqs (st_env st))[?s := (me_dbiseqs (st_env st) ! ?s + 1) mod 2 ^ 32]\<rparr>,
      st_txn := (st_txn st)\<lparr>mt_dbflags := (mt_dbflags (st_txn st))[?s := fl], mt_dbiseqs := ts, mt_dbs := (mt_dbs (st_txn st))[?s := d]\<rparr>\<rparr>"
  define st2 where "st2 = (if unused \<noteq> 0 then st1 else upd_txn (\<lambda>t. t\<lparr>mt_numdbs := mt_numdbs t + 1\<rparr>) st1)"
  have run: "register_dbi st name unused fl d = Some (st2, ?s)"
    unfolding register_dbi_def Let_def slot(1) using H(1-4) fits ts(1)
    by (cases "mt_dbiseqs (st_txn st)") (auto simp: default_cmp_of_def st2_def st1_def dxs_def upd_env_def upd_txn_def)
  have nm: "handle_name st2 j = (if j = ?s then name else handle_name st j)" for j
    using H(1) fits by (simp add: handle_name_def st2_def st1_def dxs_def mdb_default_cmp_def upd_txn_def nth_list_update)
  have n2: "mt_numdbs (st_txn st2) = (if ?s < ?n then ?n else ?n + 1)" using slot(2) by (simp add: st2_def st1_def upd_txn_def)
  have absent: "handle_name st i \<noteq> name" if "2 \<le> i" "i < ?n" for i using new(1) that by (simp add: opened_none)
  have lens: "length (me_dbxs (st_env st2)) = me_maxdbs (st_env st2)" "length (me_dbiseqs (st_env st2)) = me_maxdbs (st_env st2)"
    "length (mt_dbs (st_txn st2)) = me_maxdbs (st_env st2)" "length (mt_dbflags (st_txn st2)) = me_maxdbs (st_env st2)"
    "\<forall>ts \<in> set_option (mt_dbiseqs (st_txn st2)). length ts = me_maxdbs (st_env st2)" "me_maxdbs (st_env st2) = me_maxdbs (st_env st)"
    using H(1-4) ts(2) by (simp_all add: st2_def st1_def dxs_def upd_txn_def)
  have "i = j" if "i \<in> {2..<mt_numdbs (st_txn st2)}" "j \<in> {2..<mt_numdbs (st_txn st2)}" "handle_name st2 i = handle_name st2 j"
    "handle_name st2 i \<noteq> []" for i j
  proof -
    have b: "i = ?s \<or> 2 \<le> i \<and> i < ?n" "j = ?s \<or> 2 \<le> j \<and> j < ?n" using that(1,2) n2 s by (auto split: if_splits)
    show ?thesis using b that(3,4) absent [of i] absent [of j] H(8) unfolding nm by (auto split: if_splits)
  qed
  moreover have "?s < mt_numdbs (st_txn st2)" "mt_numdbs (st_txn st2) \<le> me_maxdbs (st_env st2)" "2 \<le> mt_numdbs (st_txn st2)"
    using n2 s fits H(6,7) lens(6) by (auto split: if_splits)
  ultimately have ok2: "handles_ok st2" and s2: "?s < mt_numdbs (st_txn st2)" using lens by (auto simp: handles_ok_def Let_def distinct_names)
  have "opened st2 name = Some ?s"
  proof (cases "opened st2 name")
    case None
    then show ?thesis using s s2 nm [of ?s] by (simp add: opened_none)
  next
    case (Some i)
    then have "2 \<le> i" "i < mt_numdbs (st_txn st2)" "handle_name st2 i = name" using opened_some by force+
    then have "i = ?s" using absent [of i] n2 s unfolding nm by (auto split: if_splits)
    then show ?thesis using Some by simp
  qed
  moreover have "mt_dbs (st_txn st2) ! ?s = d" "mt_dbflags (st_txn st2) ! ?s = fl" "st_file st2 = st_file st" "st_heap st2 = st_heap st"
    using H(3,4) fits by (simp_all add: st2_def st1_def upd_txn_def)
  moreover have "mt_dbs (st_txn st2) ! j = mt_dbs (st_txn st) ! j" if "j \<noteq> ?s" for j
    using that by (simp add: st2_def st1_def upd_txn_def)
  moreover have "?n \<le> mt_numdbs (st_txn st2)" using n2 by simp
  ultimately show ?thesis using run ok2 nm by auto
qed


section \<open>Records of databases\<close>

text \<open>The nodes of the leaf pages of a tree, in order; the node of a database record is marked with \<open>F_SUBDATA\<close>.\<close>

fun tree_nodes :: "(u64 \<Rightarrow> bytes option) \<Rightarrow> nat \<Rightarrow> u64 \<Rightarrow> bytes list" where
  "tree_nodes pg 0 g = (case pg g of None \<Rightarrow> [] | Some p \<Rightarrow> page_nodes p)"
| "tree_nodes pg (Suc d) g =
     (case pg g of None \<Rightarrow> [] | Some p \<Rightarrow> concat (map (\<lambda>i. tree_nodes pg d (child_at p i)) [0..<NUMKEYS p]))"

definition nb_sub :: "bytes \<Rightarrow> bool" where
  "nb_sub nb \<longleftrightarrow> ucast (of_nat (rd nb 4 2) :: u16) AND (F_DUPDATA OR F_SUBDATA) = F_SUBDATA"

lemma items_nodes: "tree_ok pg psize c valid rank d g lo hi \<Longrightarrow> items pg d g = map (nb_item pg) (tree_nodes pg d g)"
proof (induction d arbitrary: g lo hi)
  case 0
  then obtain p where p: "pg g = Some p" "leaf_ok pg psize c valid rank p lo hi" by auto
  then show ?case using leaf_items_nodes [of psize p pg] by (simp add: leaf_ok_def)
next
  case (Suc d)
  then obtain p where p: "pg g = Some p"
    "\<forall>i < NUMKEYS p. tree_ok pg psize c valid rank d (child_at p i) (lo_of rank p lo i) (hi_of rank p hi i)" by auto
  have "concat (map (\<lambda>i. items pg d (child_at p i)) [0..<NUMKEYS p]) =
      concat (map (\<lambda>i. map (nb_item pg) (tree_nodes pg d (child_at p i))) [0..<NUMKEYS p])"
    using Suc.IH [OF p(2) [rule_format]] by (auto intro!: arg_cong [where f = concat])
  then show ?case using p(1) by (simp add: map_concat comp_def)
qed

lemma path_nodes_in: "good_path pg d g ks \<Longrightarrow> pg (node_at pg g ks) = Some p \<Longrightarrow> set (page_nodes p) \<subseteq> set (tree_nodes pg d g)"
proof (induction d arbitrary: g ks)
  case (Suc d)
  then obtain k r b where k: "ks = k # r" "pg g = Some b" "k < NUMKEYS b" "good_path pg d (child_at b k) r" by auto
  then show ?case using Suc.IH [OF k(4)] Suc.prems(2) by auto
qed simp

lemma node_flags:
  assumes "page_ok psize p" "IS_LEAF p" "i < NUMKEYS p"
  shows "mn_flags p (pt p i) = Some (of_nat (rd (page_nodes p ! i) 4 2))"
proof -
  have "8 \<le> node_len True p (pt p i)" by (simp add: node_len_def)
  moreover have "page_nodes p ! i = slice p (pt p i) (node_len True p (pt p i))" using assms(2,3) by (simp add: page_nodes_def node_bytes_def)
  moreover have "pt p i + 4 + 2 \<le> length p" using page_node(5) [OF assms(1,3)] by simp
  ultimately show ?thesis by (simp add: mn_flags_def rd_slice)
qed

text \<open>The node under the cursor.\<close>

lemma cursor_node:
  assumes "cursor_at st psize c valid rank d root mc pre (x # post)"
  shows "\<exists>p k nb. top_page st mc = Some p \<and> ki_at mc = Some k \<and> NODEPTR p k = Some (pt p k) \<and>
    mn_flags p (pt p k) = Some (of_nat (rd nb 4 2)) \<and> nb \<in> set (tree_nodes (see st (ro_flags mc)) d root) \<and> x = nb_item (see st (ro_flags mc)) nb"
proof -
  let ?pg = "see st (ro_flags mc)"
  obtain ks p lo hi where K: "at_leaf st d root ks mc" "?pg (node_at ?pg root ks) = Some p"
    "leaf_ok ?pg psize c valid rank p lo hi" "mc_ki mc ! d < NUMKEYS p"
    "x # post = drop (mc_ki mc ! d) (leaf_items ?pg p) @ after ?pg d root ks"
    using assms by (auto simp: cursor_at_def)
  have ok: "page_ok psize p" "IS_LEAF p" using K(3) by (simp_all add: leaf_ok_def)
  let ?nb = "page_nodes p ! (mc_ki mc ! d)"
  have "x = leaf_items ?pg p ! (mc_ki mc ! d)"
    using K(4,5) Cons_nth_drop_Suc [of "mc_ki mc ! d" "leaf_items ?pg p"] by simp (metis append_Cons list.inject)
  then have x: "x = nb_item ?pg ?nb" using K(4) by (simp add: leaf_items_nodes [OF ok])
  have "on_path st (ro_flags mc) 0 d root ks mc" using K(1) by (simp add: at_leaf_def)
  then have "?nb \<in> set (tree_nodes ?pg d root)" using path_nodes_in [OF on_path_good K(2)] K(4) by (metis length_page_nodes nth_mem subsetD)
  moreover have "mc_top mc = d" "d < length (mc_ki mc)" using K(1) by (simp_all add: at_leaf_def stack_ok_def)
  ultimately show ?thesis
    using x node_flags [OF ok K(4)] leaf_read(1) [OF K(3,4)] at_leaf_top [OF K(1,2)]
    by (intro exI [of _ p] exI [of _ "mc_ki mc ! d"] exI [of _ ?nb]) simp
qed

lemma find_map_nb: "find (\<lambda>x. rank (fst x) = r) (map (nb_item pg) ns) = map_option (nb_item pg) (find (\<lambda>nb. rank (nb_key nb) = r) ns)"
  by (induction ns) (simp_all add: nb_item_def)

text \<open>Looking up a name without \<open>MDB_CREATE\<close>; \<open>f\<close> is what follows when there is a record with the data \<open>v\<close>.\<close>

lemma open_record_ok:
  fixes rank :: "bytes \<Rightarrow> 'k::linorder"
  assumes db: "db_ready st (new_cursor st MAIN_DBI) c root" and root: "root_ok st (ro_flags (new_cursor st MAIN_DBI)) psize c valid rank d root"
    and key: "valid name" "name \<noteq> []" and create: "\<not> has flags MDB_CREATE"
    and full: "\<forall>nb \<in> set (tree_nodes (see st (ro_flags (new_cursor st MAIN_DBI))) d root). nb_sub nb \<longrightarrow>
      48 \<le> length (the (nb_val (see st (ro_flags (new_cursor st MAIN_DBI))) nb))"
  shows "(case find (\<lambda>nb. rank (nb_key nb) = rank name) (tree_nodes (see st (ro_flags (new_cursor st MAIN_DBI))) d root) of
      None \<Rightarrow> open_record st name flags unused = Some (MDB_NOTFOUND, st, None)
    | Some nb \<Rightarrow>
        if nb_sub nb then open_record st name flags unused =
          (let (ok, st1) = ask_malloc st in
           if \<not> ok then Some (ENOMEM, st1, None)
           else do {
             (st2, slot) \<leftarrow> register_dbi st1 name unused (DB_NEW OR DB_VALID OR DB_USRVALID)
               (db_at (take 48 (the (nb_val (see st (ro_flags (new_cursor st MAIN_DBI))) nb))) 0);
             Some (0, st2, Some slot) })
        else open_record st name flags unused = Some (MDB_INCOMPATIBLE, st, None))"
proof -
  let ?mc = "new_cursor st MAIN_DBI"
  let ?pg = "see st (ro_flags ?mc)"
  let ?xs = "items ?pg d root" and ?ns = "tree_nodes ?pg d root"
  have init: "mdb_cursor_init st raw_cursor MAIN_DBI None = Some (st, (?mc, None))" by (rule cursor_init_new [OF db])
  have tree: "tree_ok ?pg psize c valid rank d root None None" using root by (simp add: root_ok_def)
  have it: "?xs = map (nb_item ?pg) ?ns" by (rule items_nodes [OF tree])
  note f = from_key_find [OF root_ok_ascending [OF root], of "rank name", symmetric]
  have fi: "find (\<lambda>x. rank (fst x) = rank name) ?xs = map_option (nb_item ?pg) (find (\<lambda>nb. rank (nb_key nb) = rank name) ?ns)"
    unfolding it by (simp add: find_map_nb)
  obtain mc' where S: "ro_flags mc' = ro_flags ?mc"
    "(case find (\<lambda>x. rank (fst x) = rank name) ?xs of
        None \<Rightarrow> mdb_cursor_set st (?mc, None) (Some name) (Some []) MDB_SET True = Some (MDB_NOTFOUND, st, (mc', None), Some name, Some [])
      | Some x \<Rightarrow> mdb_cursor_set st (?mc, None) (Some name) (Some []) MDB_SET True = Some (0, st, (mc', None), Some name, Some (snd x)) \<and>
          (\<exists>pre post. cursor_at st psize c valid rank d root mc' pre (x # post)))"
  proof -
    let ?ge = "from_key rank (rank name) ?xs"
    from cursor_set_spec [OF db root new_cursor_usable key, of MDB_SET "Some []"] obtain mc' where M: "ro_flags mc' = ro_flags ?mc"
      "if ?ge \<noteq> [] \<and> rank (fst (hd ?ge)) = rank name
       then mdb_cursor_set st (?mc, None) (Some name) (Some []) MDB_SET True = Some (0, st, (mc', None), Some name, Some (snd (hd ?ge))) \<and>
         cursor_at st psize c valid rank d root mc' (below rank (rank name) ?xs) ?ge
       else mdb_cursor_set st (?mc, None) (Some name) (Some []) MDB_SET True = Some (MDB_NOTFOUND, st, (mc', None), Some name, Some [])"
      by (auto simp: set_spec_def Let_def split: if_splits)
    show thesis
    proof (rule that [OF M(1)])
      show "case find (\<lambda>x. rank (fst x) = rank name) ?xs of
          None \<Rightarrow> mdb_cursor_set st (?mc, None) (Some name) (Some []) MDB_SET True = Some (MDB_NOTFOUND, st, (mc', None), Some name, Some [])
        | Some x \<Rightarrow> mdb_cursor_set st (?mc, None) (Some name) (Some []) MDB_SET True = Some (0, st, (mc', None), Some name, Some (snd x)) \<and>
            (\<exists>pre post. cursor_at st psize c valid rank d root mc' pre (x # post))"
        unfolding f using M(2) by (cases ?ge) (auto split: if_splits)
    qed
  qed
  show ?thesis
  proof (cases "find (\<lambda>nb. rank (nb_key nb) = rank name) ?ns")
    case None
    then show ?thesis using S(2) init create unfolding fi by (simp add: open_record_def MDB_NOTFOUND_def MDB_SUCCESS_def)
  next
    case (Some nb)
    let ?x = "nb_item ?pg nb"
    have R: "mdb_cursor_set st (?mc, None) (Some name) (Some []) MDB_SET True = Some (0, st, (mc', None), Some name, Some (snd ?x))"
      using S(2) unfolding fi Some by simp
    obtain pre post where "cursor_at st psize c valid rank d root mc' pre (?x # post)" using S(2) unfolding fi Some by auto
    from cursor_node [OF this, unfolded S(1)] obtain p k nb' where N: "top_page st mc' = Some p" "ki_at mc' = Some k" "NODEPTR p k = Some (pt p k)"
      "mn_flags p (pt p k) = Some (of_nat (rd nb' 4 2))" "nb' \<in> set ?ns" "?x = nb_item ?pg nb'" by blast
    have "ascending rank ?xs" by (rule root_ok_ascending [OF root])
    then have "distinct (map (rank \<circ> nb_key) ?ns)"
      unfolding it ascending_def sorted_wrt_map nb_item_def by (simp add: distinct_conv_nth sorted_wrt_iff_nth_less) (metis less_irrefl nat_neq_iff)
    moreover have "nb \<in> set ?ns" using Some by (auto simp: find_Some_iff)
    moreover have "nb_key nb' = nb_key nb" using N(6) by (simp add: nb_item_def)
    ultimately have nb': "nb' = nb" using N(5) by (simp add: distinct_map inj_on_def)
    show ?thesis
    proof (cases "nb_sub nb")
      case True
      have "48 \<le> length (snd ?x)" using full True \<open>nb \<in> set ?ns\<close> by (simp add: nb_item_def)
      then have g: "get_bytes (snd ?x) 0 48 = Some (take 48 (snd ?x))" by (simp add: get_bytes_def slice_def)
      show ?thesis using init R N(1-4) True g unfolding Some nb'
        by (simp add: open_record_def MDB_SUCCESS_def nb_sub_def Let_def nb_item_def split: prod.splits)
    next
      case False
      then show ?thesis using init R N(1-4) unfolding Some nb'
        by (simp add: open_record_def MDB_SUCCESS_def nb_sub_def MDB_INCOMPATIBLE_def)
    qed
  qed
qed


section \<open>Opening\<close>

lemma handle_name_os [simp]: "handle_name (st\<lparr>st_os := x\<rparr>) = handle_name st"
  by (simp add: handle_name_def fun_eq_iff)

lemma opened_os [simp]: "opened (st\<lparr>st_os := x\<rparr>) = opened st"
  by (simp add: opened_def fun_eq_iff)

lemma handles_os [simp]: "fresh_slot (st\<lparr>st_os := x\<rparr>) = fresh_slot st" "handles_ok (st\<lparr>st_os := x\<rparr>) = handles_ok st"
  by (simp_all add: fresh_slot_def handles_ok_def cong: option.case_cong)

lemma opened_at:
  assumes "handles_ok st" "CORE_DBS \<le> i" "i < mt_numdbs (st_txn st)" "handle_name st i = nm" "nm \<noteq> []"
  shows "opened st nm = Some i"
proof (cases "opened st nm")
  case None
  then show ?thesis using assms by (simp add: opened_none)
next
  case (Some j)
  have "\<forall>i \<in> {2..<mt_numdbs (st_txn st)}. \<forall>j \<in> {2..<mt_numdbs (st_txn st)}. handle_name st i = handle_name st j \<longrightarrow> handle_name st i \<noteq> [] \<longrightarrow> i = j"
    using assms(1) by (simp add: handles_ok_def Let_def distinct_names)
  then show ?thesis using Some opened_some [OF Some] assms by simp
qed



text \<open>A main database with the record of a database \<open>a\<close>, and room for one handle.\<close>

definition named_db :: db where
  "named_db = \<lparr>md_pad = 0, md_flags = 0, md_depth = 1, md_branch_pages = 0, md_leaf_pages = 1,
     md_overflow_pages = 0, md_entries = 5, md_root = 7\<rparr>"

definition main_db :: db where
  "main_db = \<lparr>md_pad = 0, md_flags = 0, md_depth = 1, md_branch_pages = 0, md_leaf_pages = 1,
     md_overflow_pages = 0, md_entries = 1, md_root = 2\<rparr>"

definition main_leaf :: bytes where
  "main_leaf = [2,0,0,0,0,0,0,0, 0,0, 2,0, 18,0, 70,0, 70,0] @ replicate 52 0 @ [48,0,0,0, 2,0, 1,0, 0x61] @ db_bytes named_db @ [0]"

definition main_st :: wst where
  "main_st = \<lparr>st_env = demo_env\<lparr>me_psize := 128, me_maxdbs := 3, me_dbxs := [demo_dbx, demo_dbx, demo_dbx], me_dbiseqs := [0, 0, 0]\<rparr>,
     st_file = replicate 256 0 @ main_leaf, st_heap = (\<lambda>_. None),
     st_txn = demo_txn\<lparr>mt_dbs := [demo_db, main_db, demo_db], mt_dbflags := [DB_VALID, DB_VALID OR DB_USRVALID, 0],
       mt_dbiseqs := None, mt_numdbs := 2, mt_flags := MDB_RDONLY\<rparr>,
     st_parents = [], st_os = demo_os, st_brk = 0, st_junk = (\<lambda>_ _. 0), st_idjunk = (\<lambda>_ _. 0), st_cursors = [], st_saved = []\<rparr>"

lemma main_leaf_read:
  "length main_leaf = 128" "mp_lower main_leaf = 18" "mp_upper main_leaf = 70" "mp_flags main_leaf = 2" "NUMKEYS main_leaf = 1"
  "pt main_leaf 0 = 70" "key_at main_leaf 0 = [0x61]" "rd main_leaf 70 4 = 48" "rd main_leaf 74 2 = 2" "rd main_leaf 76 2 = 1"
  "slice main_leaf 79 48 = db_bytes named_db" "slice main_leaf 78 (Suc 0) = [0x61]"
  by (simp_all add: main_leaf_def mp_lower_def mp_upper_def mp_flags_def NUMKEYS_def pt_def key_at_def rd_def slice_def)


lemma main_kinds: "IS_LEAF main_leaf" "\<not> IS_LEAF2 main_leaf" "\<not> IS_BRANCH main_leaf" "\<not> IS_OVERFLOW main_leaf"
  by (simp_all add: IS_LEAF_def IS_LEAF2_def IS_BRANCH_def IS_OVERFLOW_def F_ISSET_def main_leaf_read P_LEAF_def P_LEAF2_def P_BRANCH_def P_OVERFLOW_def)

lemma main_cursor: "ro_flags (new_cursor main_st 1)" "mc_own (new_cursor main_st 1) = None" "mc_dbi (new_cursor main_st 1) = 1"
  by (simp_all add: new_cursor_def main_st_def demo_txn_def raw_cursor_def ro_flags_def has_def cursor_flag_defs env_flag_defs)

lemma main_page: "see main_st True 2 = Some main_leaf"
proof -
  have ro: "has C_ORIG_RDONLY (C_ORIG_RDONLY OR C_WRITEMAP)" by (simp add: has_def cursor_flag_defs env_flag_defs)
  have g: "resolve main_st True 2 = Some (Map_page 2)"
    using ro by (simp add: resolve_def mdb_page_get_def main_st_def demo_txn_def)
  have "me_psize (st_env main_st) = 128" "me_map (st_env main_st)" "st_file main_st = replicate 256 0 @ main_leaf"
    by (simp_all add: main_st_def demo_env_def)
  then show ?thesis by (simp add: see_def g map_page_def main_kinds main_leaf_read slice_def)
qed

lemma main_leaf_ok: "leaf_ok (see main_st True) 128 Cmp_memn short (\<lambda>a. a) main_leaf None None"
proof -
  have "page_ok 128 main_leaf"
    by (simp add: page_ok_def main_leaf_read ptrs_def extent_def node_len_def EVEN_def F_ISSET_def main_kinds)
  moreover have "keys_sorted short (\<lambda>a. a) main_leaf 0 None None" by (simp add: keys_sorted_def main_leaf_read in_range_def)
  moreover have "value_at (see main_st True) main_leaf 0 \<noteq> None" "\<not> is_dup_at main_leaf 0"
    by (simp_all add: value_at_def is_dup_at_def main_leaf_read get_bytes_def F_ISSET_def F_BIGDATA_def F_DUPDATA_def)
  ultimately show ?thesis using demo_order demo_ordered main_kinds by (simp add: leaf_ok_def main_leaf_read)
qed

lemma main_node: "tree_nodes (see main_st True) 0 2 = [[48,0,0,0, 2,0, 1,0, 0x61] @ db_bytes named_db]"
proof -
  have "page_nodes main_leaf = [slice main_leaf 70 57]"
    by (simp add: page_nodes_def ptrs_def node_bytes_def node_len_def main_kinds main_leaf_read F_ISSET_def)
  moreover have "slice main_leaf 70 57 = [48,0,0,0, 2,0, 1,0, 0x61] @ db_bytes named_db" by (simp add: main_leaf_def slice_def)
  ultimately show ?thesis by (simp add: main_page)
qed


end
