(* ===== verification/Spec2Isabelle.thy ===== *)
theory Spec2Isabelle
  imports Midl_Sort Dump_Load Reader_Protocol Touch_Correct Flush_Correct Tools Put_Correct Del_Correct Commit_Correct Crash_Safe Handles_Correct
begin

text \<open>
  A verification development for LMDB, the memory-mapped B+tree store in
  \<open>src/lmdb-sys/lmdb/libraries/liblmdb\<close>: \<open>mdb.c\<close>, \<open>midl.c\<close>, \<open>lmdb.h\<close>, \<open>midl.h\<close> and the tools \<open>mdb_dump.c\<close> and
  \<open>mdb_load.c\<close>. The build that is modelled is a 64-bit little-endian POSIX one, without \<open>MDB_VL32\<close>, \<open>MDB_DEVEL\<close> and
  \<open>MDB_DEBUG\<close>; \<open>MDB_MAXKEYSIZE\<close> is 511.

  \<^bold>\<open>The program.\<close> An environment is a data file, mapped into memory, and a lock file with the reader table. The file
  starts with two meta pages; the newer valid one is the current snapshot and names the roots of two B+trees: the freeDB
  (pages that each transaction freed) and the main database, whose records may name further databases. A read-only
  transaction announces the number of its snapshot in the reader table and reads the mapped pages. The one write
  transaction copies every page before it changes it (\<open>mdb_page_touch\<close>), takes page numbers that no reader can see from
  the freeDB or the end of the file (\<open>mdb_page_alloc\<close>), keeps the changed pages in a sorted dirty list, and at commit saves
  the freed page numbers, writes the dirty pages and then the older meta page. Transactions can be nested.

  \<^bold>\<open>How C is modelled.\<close> An operation is a function into the option type: \<open>None\<close> is undefined behaviour, a
  failed assertion or a loop that does not end, so \<open>f x = Some y\<close> states that \<open>f\<close> returns, safely. Return codes are values of
  type \<open>int\<close>. A page, a node or a key is a list of bytes and every access goes through the checked \<open>load\<close> and \<open>store\<close>,
  \<open>aget\<close> and \<open>aset\<close>; machine integers that can wrap around are words of their width. A page pointer says where the page
  lives: at an offset of the map (the file, a flat list of bytes) or in a heap block, so that aliasing is explicit.
  What the operating system and \<open>malloc\<close> answer is part of the state as a function of a clock (\<open>st_os\<close>, \<open>tick\<close>), so a
  theorem holds for all answers unless it says otherwise; a call in a retry loop takes a list of answers (\<open>os_io\<close>,
  \<open>os_fcntl\<close>, \<open>st_setlk\<close>) and an exhausted list is a loop that does not end. The transaction in work is \<open>st_txn\<close>, the ones
  it is nested in are \<open>st_parents\<close>, what \<open>mdb_cursor_shadow\<close> saves for each is \<open>st_saved\<close>. The cursor of an
  operation is passed and returned as a value, and \<open>st_cursors\<close> holds the other cursors of \<open>mt_cursors\<close>, which every
  page change has to adjust; where the operation's own cursor is in that list an argument \<open>trk\<close> gives its place. An
  \<open>mcursor\<close> is a cursor with its sub-cursor. Functions that call themselves on the sub-cursor are written over an argument for
  that call and tied twice, as a sub-cursor has no sub-cursor. Comparison functions are values, and application
  callbacks are arguments.
\<close>

section \<open>The theories\<close>

text \<open>
  \<^item> \<open>Prelude\<close>, \<open>Bytes\<close>: checked memory, block moves, the locale \<open>sorted_array\<close> for binary searches, little-endian integers.
  \<^item> \<open>Midl\<close>, \<open>Midl_Sort\<close>: \<open>midl.c\<close>. Searches, insertions and merges on ID lists and ID/pointer lists. The quicksort stays
    within its 64-entry stack: of two segments the longer is pushed, so a stack of 64 covers any length below \<open>2 ^ 32\<close>.
  \<^item> \<open>Compare\<close>: \<open>mdb_cmp_memn\<close>, \<open>mdb_cmp_memnr\<close>, \<open>mdb_cmp_int\<close>, \<open>mdb_cmp_long\<close>, \<open>mdb_cmp_cint\<close> and their choice. The locale
    \<open>key_order\<close> is the contract of a comparison function, a linear order on the keys it is used for, and is
    interpreted for each of them.
  \<^item> \<open>Page\<close>, \<open>Node_Ops\<close>, \<open>Node_Search\<close>: the page format, \<open>mdb_node_add\<close>'s work on one page, \<open>mdb_node_del\<close>,
    \<open>mdb_node_shrink\<close> and \<open>mdb_node_search\<close>; adding and deleting are related to the list of the nodes of the page.
  \<^item> \<open>Structs\<close>, \<open>Meta\<close>: structures, flags and error codes; reading, choosing and writing meta pages. A torn write of the
    new meta page leaves a valid snapshot.
  \<^item> \<open>Readers\<close>: \<open>mdb_find_oldest\<close>, \<open>mdb_reader_check0\<close>, \<open>mdb_pid_insert\<close>, \<open>mdb_mutex_failed\<close>, \<open>mdb_reader_list\<close>.
  \<^item> \<open>Cursor\<close>, \<open>Cursor_Get\<close>, \<open>Info\<close>: \<open>mdb_page_get\<close>, \<open>mdb_page_search\<close>, every operation of \<open>mdb_cursor_get\<close>, \<open>mdb_get\<close>, and
    the functions that report or set flags.
  \<^item> \<open>Tree\<close>, \<open>Tree_Search\<close>, \<open>Tree_Walk\<close>, \<open>Tree_Ops\<close>, \<open>Tree_Set\<close>, \<open>Read_Path\<close>: the abstract specification of reading. \<open>tree_ok\<close>
    says that a root page number stands for a well-formed B+tree, \<open>items\<close> is the list of its keys and data, and
    \<open>cursor_at pre post\<close> places a cursor in that list. The lemmas state each read operation as an operation on the list.
    \<open>Demo_Tree\<close> is a small file for the instances.
  \<^item> \<open>Page_Alloc\<close>, \<open>Reclaim\<close>, \<open>Alloc_Correct\<close>: page blocks, \<open>mdb_page_alloc\<close> and what it takes from the freeDB.
  \<^item> \<open>Txn\<close>, \<open>Txn_Correct\<close>, \<open>Txn_Begin\<close>: \<open>mdb_txn_begin\<close>, \<open>mdb_txn_renew0\<close>, \<open>mdb_txn_end\<close>, \<open>mdb_cursor_shadow\<close>.
  \<^item> \<open>Reader_Protocol\<close>: readers, the writer and crashes as a step relation in which every load and store of shared memory is a
    step, with an invariant of all reachable states.
  \<^item> \<open>Page_Touch\<close>, \<open>Touch_Correct\<close>, \<open>Page_Flush\<close>, \<open>Flush_Correct\<close>: copy on write, freeing pages, writing and spilling.
  \<^item> \<open>Page_Split\<close>, \<open>Rebalance\<close>, \<open>Cursor_Put\<close>, \<open>Cursor_Del\<close>, \<open>Databases\<close>: \<open>mdb_node_add\<close>, \<open>mdb_page_split\<close>, \<open>mdb_update_key\<close>,
    \<open>mdb_node_move\<close>, \<open>mdb_page_merge\<close>, \<open>mdb_rebalance\<close>, \<open>mdb_cursor_put\<close>, \<open>mdb_put\<close>, \<open>mdb_cursor_del\<close>, \<open>mdb_del\<close>,
    \<open>mdb_drop\<close>, \<open>mdb_dbi_open\<close> with every flag, sub-page and sub-database.
  \<^item> \<open>Free_Save\<close>, \<open>Commit\<close>: \<open>mdb_freelist_save\<close> and \<open>mdb_txn_commit\<close>.
  \<^item> \<open>Tree_Update\<close>, \<open>Leaf_Update\<close>, \<open>Put_Correct\<close>, \<open>Del_Correct\<close>: storing and deleting as insertion into and removal from the
    list of the items. \<open>Demo_Write\<close> is a small write transaction for the instances.
  \<^item> \<open>Text_Format\<close>, \<open>Dump\<close>, \<open>Dump_Load\<close>, \<open>Tools\<close>: the text format, \<open>dumpit\<close>, \<open>readhdr\<close>, \<open>readline\<close> and both main functions.
\<close>

section \<open>Bounds and hypotheses\<close>

text \<open>
  Recursion is structural or has a measure wherever the code has a bound, e.g. the depth of the cursor stack
  (\<open>CURSOR_STACK\<close>, 32) or the number of keys. \<open>split_move\<close>, which walks over the keys of the page that is split, has fuel
  for all of its keys and two more steps; it passes one key per step. Loops around system calls use up a list of answers.
  A loop whose end depends on data is a partial function, so that not ending is a possible result and the theorems about it
  state that it returns: the descent of \<open>mdb_page_search_root\<close>, the loops of the quicksort, the snapshot loop of a reader
  (\<open>take_snapshot_terminates\<close> says exactly when it ends), \<open>fetch_loop\<close> of \<open>mdb_page_alloc\<close>, the main loops of the tools; and,
  without such a theorem, the recursion of \<open>mdb_page_split\<close> and \<open>mdb_rebalance\<close> into the parent page and the loops of
  \<open>mdb_drop0\<close> and \<open>mdb_freelist_save\<close>.

  The theorems on storing and deleting assume \<open>writable\<close>: a write transaction without parent and without
  \<open>MDB_WRITEMAP\<close> in a well-formed tree, which has written the pages on the path to the key already, so that the
  touching of these pages has nothing to do (what it does on other pages is \<open>page_touch_copies\<close>); and that no
  spilling is due. Storing assumes that the leaf has room, deleting that it stays filled above the threshold, so the
  tree keeps its shape; splitting, merging and the adjustments of the pages above are modelled in full, but no
  theorem here is about the shape of the tree after them. \<open>Reader_Protocol\<close> assumes that transaction numbers do not wrap
  around at \<open>2 ^ 64\<close>. The dump round trip assumes
  that the loader's \<open>realloc\<close> succeeds.
\<close>

section \<open>Not modelled\<close>

text \<open>
  Creating, opening and closing an environment (\<open>mdb_env_create\<close>, \<open>mdb_env_open\<close>, \<open>mdb_env_setup_locks\<close>,
  \<open>mdb_env_map\<close>, \<open>mdb_env_close0\<close>), which is allocation, \<open>mmap\<close> and the setup of mutexes: the theorems start from an
  environment that is open. Copying and compacting (\<open>mdb_env_copy\<close> and its functions), which are \<open>write\<close> loops in two
  threads. The variants for Windows, \<open>MDB_VL32\<close>, \<open>MDB_USE_POSIX_SEM\<close>, \<open>MDB_ROBUST_SUPPORTED 0\<close>, raw partitions; the
  debugging output and \<open>mdb_audit\<close>. The option parsing of the tools, \<open>mdb_stat\<close>, \<open>mdb_copy\<close>, the test programs
  \<open>mtest*.c\<close>. The Rust bindings, which only wrap the C functions.
\<close>

end
